(* ===== verification/Nexs_Prelude.thy ===== *)
theory Nexs_Prelude
  imports Main "HOL-Library.Word"
begin

section \<open>Shared types, limits and generic lemmas\<close>

text \<open>
  What every component of the model uses: the machine integers of the C code as words,
  the faults a C operation can end in, the compile-time limits of
  \<^verbatim>\<open>core/include/nexs_common.h\<close> (the default, 16 MB, configuration where a limit is a
  number), the truncating string copies of the C library on \<open>string\<close>, and lemmas on
  lists that several components share.
\<close>

named_theorems cstr_simps \<open>truncating C string operations\<close>
named_theorems wf_intros \<open>introduction rules for the components' invariants\<close>

type_synonym u8 = "8 word"
type_synonym u16 = "16 word"
type_synonym u32 = "32 word"
type_synonym u64 = "64 word"

text \<open>
  How a C operation ends when it does not return: \<open>Die\<close> is the call of \<^verbatim>\<open>die()\<close> (or a trap), which
  exits the process; \<open>Hang\<close> is a loop that never ends; \<open>OutOfBounds\<close>,
  \<open>UseAfterFree\<close> and \<open>NullDeref\<close> are accesses with no defined meaning, \<open>Uninit\<close> a use of memory that
  was never written, \<open>StreamMisuse\<close> an operation on a C stream at a point where C does not define it,
  \<open>SignedOverflow\<close> a signed result that does not fit. They are values so that a theorem
  can say that they do not happen (or do). \<open>OutOfFuel\<close> is no behaviour of the program: a
  definition that counts its recursion down returns it when the count was too small.
\<close>

datatype fault = Die string | Hang | OutOfBounds | UseAfterFree | NullDeref | Uninit | StreamMisuse | SignedOverflow | OutOfFuel

type_synonym 'a res = "fault + 'a"

text \<open>The rest of a computation, which a fault cuts off.\<close>

definition bind_res :: "'a res \<Rightarrow> ('a \<Rightarrow> 'b res) \<Rightarrow> 'b res" where
  "bind_res m f = (case m of Inl e \<Rightarrow> Inl e | Inr x \<Rightarrow> f x)"

lemma bind_res_simps [simp]: "bind_res (Inl e) f = Inl e" "bind_res (Inr x) f = f x"
  by (simp_all add: bind_res_def)

lemma bind_res_Inr: "bind_res m f = Inr y \<longleftrightarrow> (\<exists>x. m = Inr x \<and> f x = Inr y)"
  by (cases m) auto

lemma bind_res_cong [fundef_cong]:
  "m = m' \<Longrightarrow> (\<And>x. m' = Inr x \<Longrightarrow> f x = f' x) \<Longrightarrow> bind_res m f = bind_res m' f'"
  by (cases m') auto

subsection \<open>Compile-time limits\<close>

abbreviation (input) REG_PATH_MAX :: nat where "REG_PATH_MAX \<equiv> 512"
abbreviation (input) NAME_LEN :: nat where "NAME_LEN \<equiv> 64"
abbreviation (input) MAX_STR_LEN :: nat where "MAX_STR_LEN \<equiv> 8192"
abbreviation (input) MAX_PARAMS :: nat where "MAX_PARAMS \<equiv> 16"
abbreviation (input) MAX_FN_DEFS :: nat where "MAX_FN_DEFS \<equiv> 1024"
abbreviation (input) MAX_ARRAYS :: nat where "MAX_ARRAYS \<equiv> 1024"
abbreviation (input) MSG_QUEUE_SIZE :: int where "MSG_QUEUE_SIZE \<equiv> 64"
abbreviation (input) MAX_CALL_DEPTH :: nat where "MAX_CALL_DEPTH \<equiv> 128"

subsection \<open>Words\<close>

lemma word_of_nat_unat: "unat (w :: 'a::len word) = n \<Longrightarrow> w = of_nat n"
  by auto

lemma unat_u64_of_nat: "n < 2 ^ 64 \<Longrightarrow> unat (of_nat n :: u64) = n"
  by (simp add: unat_of_nat)

subsection \<open>The contract of a block allocator\<close>

text \<open>
  A block is an offset and a length. The laws are what a client relies on: a block handed out
  is as long as asked for and overlaps no live block, a failed request changes nothing, and a
  release takes away no block but the one that starts at the pointer. The client keeps the pointers it really got,
  with the sizes it asked for, and gives back only those; a request that faults ends its run.
\<close>

definition disjoint_blocks :: "nat \<times> nat \<Rightarrow> nat \<times> nat \<Rightarrow> bool" where
  "disjoint_blocks p q \<longleftrightarrow> fst p + snd p \<le> fst q \<or> fst q + snd q \<le> fst p"

lemma disjoint_blocks_sym: "disjoint_blocks p q \<Longrightarrow> disjoint_blocks q p"
  by (auto simp: disjoint_blocks_def)

lemma disjoint_blocks_smaller:
  "disjoint_blocks (x, l) (y, m) \<Longrightarrow> l' \<le> l \<Longrightarrow> m' \<le> m \<Longrightarrow> disjoint_blocks (x, l') (y, m')"
  by (auto simp: disjoint_blocks_def)

datatype client_op = Get u64 | Give nat

fun run_client :: "('s \<Rightarrow> u64 \<Rightarrow> (nat option \<times> 's) res) \<Rightarrow> ('s \<Rightarrow> nat \<times> u64 \<Rightarrow> 's) \<Rightarrow> client_op list \<Rightarrow> 's \<Rightarrow>
    (nat \<times> u64) list \<Rightarrow> ('s \<times> (nat \<times> u64) list) res" where
  "run_client al fr [] s held = Inr (s, held)"
| "run_client al fr (Get n # ops) s held =
     bind_res (al s n) (\<lambda>(p, s). run_client al fr ops s (case p of None \<Rightarrow> held | Some x \<Rightarrow> (x, n) # held))"
| "run_client al fr (Give i # ops) s held =
     (if i < length held then run_client al fr ops (fr s (held ! i)) (take i held @ drop (Suc i) held)
      else run_client al fr ops s held)"

definition sizes :: "client_op list \<Rightarrow> u64 set" where
  "sizes ops = {n. Get n \<in> set ops}"

text \<open>The blocks behind the pointers a client holds.\<close>

definition covers :: "(nat \<times> u64) list \<Rightarrow> (nat \<times> nat) list \<Rightarrow> bool" where
  "covers held B \<longleftrightarrow> list_all2 (\<lambda>(p, n) (q, len). q = p \<and> unat n \<le> len \<and> 0 < len) held B \<and> sorted_wrt disjoint_blocks B"

lemma covers_Cons: "covers (h # held) B \<longleftrightarrow>
  (\<exists>len B'. B = (fst h, len) # B' \<and> unat (snd h) \<le> len \<and> 0 < len \<and> covers held B' \<and> (\<forall>b \<in> set B'. disjoint_blocks (fst h, len) b))"
  by (auto simp: covers_def list_all2_Cons1 split: prod.splits)

lemma covers_map: "covers held B \<Longrightarrow> map fst held = map fst B"
  by (induction held arbitrary: B) (auto simp: covers_Cons covers_def [of "[]"])

lemma covers_pos: "covers held B \<Longrightarrow> b \<in> set B \<Longrightarrow> 0 < snd b"
  by (induction held arbitrary: B) (auto simp: covers_Cons covers_def [of "[]"])

lemma covers_disjoint:
  "covers held B \<Longrightarrow> sorted_wrt disjoint_blocks (map (\<lambda>(p, n). (p, unat n)) held) \<and>
    (\<forall>h \<in> set held. \<exists>len. (fst h, len) \<in> set B \<and> unat (snd h) \<le> len)"
proof (induction held arbitrary: B)
  case (Cons h held)
  from Cons.prems obtain len B' where B: "B = (fst h, len) # B'" "unat (snd h) \<le> len" "covers held B'"
    "\<forall>b \<in> set B'. disjoint_blocks (fst h, len) b"
    by (auto simp: covers_Cons)
  have "disjoint_blocks (fst h, unat (snd h)) (fst g, unat (snd g))" if g: "g \<in> set held" for g
  proof -
    obtain l where "(fst g, l) \<in> set B'" "unat (snd g) \<le> l"
      using bspec [OF conjunct2 [OF Cons.IH [OF B(3)]] g] by blast
    moreover from this have "disjoint_blocks (fst h, len) (fst g, l)" using B(4) by blast
    ultimately show ?thesis using disjoint_blocks_smaller B(2) by blast
  qed
  then have "sorted_wrt disjoint_blocks (map (\<lambda>(p, n). (p, unat n)) (h # held))"
    using Cons.IH [OF B(3)] by (simp add: case_prod_unfold)
  moreover have "\<forall>g \<in> set (h # held). \<exists>len. (fst g, len) \<in> set B \<and> unat (snd g) \<le> len"
  proof
    fix g
    assume "g \<in> set (h # held)"
    then consider "g = h" | "g \<in> set held" by auto
    then show "\<exists>len. (fst g, len) \<in> set B \<and> unat (snd g) \<le> len"
      by cases (use B(1,2) in \<open>auto\<close>, use Cons.IH [OF B(3)] B(1) in \<open>auto dest: bspec\<close>)
  qed
  ultimately show ?case by blast
qed (simp add: covers_def)

lemma covers_drop:
  assumes "covers held B" and "i < length held"
  shows "covers (take i held @ drop (Suc i) held) (take i B @ drop (Suc i) B)"
    and "b \<in> set (take i B @ drop (Suc i) B) \<Longrightarrow> b \<in> set B \<and> fst b \<noteq> fst (held ! i)"
  using assms
proof (induction held arbitrary: B i)
  case (Cons h held)
  {
    case 1
    then show ?case
      by (cases i) (auto simp: covers_Cons dest!: in_set_takeD in_set_dropD intro!: Cons.IH(1))
  next
    case 2
    then obtain len B' where B: "B = (fst h, len) # B'" "0 < len" "covers held B'" "\<forall>b \<in> set B'. disjoint_blocks (fst h, len) b"
      by (auto simp: covers_Cons)
    have pos: "\<forall>b \<in> set B'. 0 < snd b" using covers_pos [OF B(3)] by blast
    have ne: "fst b \<noteq> fst h" if "b \<in> set B'" for b
      using B(2,4) pos that by (fastforce simp: disjoint_blocks_def)
    show ?case
    proof (cases i)
      case 0
      then show ?thesis using 2 B(1) ne by auto
    next
      case (Suc j)
      then have j: "j < length held" using 2 by simp
      then have "fst (held ! j) \<in> fst ` set B'" using covers_map [OF B(3)] by (metis j nth_mem list.set_map image_eqI)
      then have h: "fst h \<noteq> fst (held ! j)" using ne by (metis imageE)
      have "b = (fst h, len) \<or> b \<in> set (take j B' @ drop (Suc j) B')" using 2(1) B(1) Suc by auto
      then show ?thesis using h B(1) Suc Cons.IH(2) [OF _ B(3) j] by auto
    qed
  }
qed simp_all

locale block_allocator =
  fixes invar :: "'s \<Rightarrow> bool"
    and live :: "'s \<Rightarrow> (nat \<times> nat) set"
    and fits :: "u64 \<Rightarrow> bool"
    and alloc :: "'s \<Rightarrow> u64 \<Rightarrow> (nat option \<times> 's) res"
    and release :: "'s \<Rightarrow> nat \<times> u64 \<Rightarrow> 's"
  assumes alloc_invar: "invar s \<Longrightarrow> fits n \<Longrightarrow> alloc s n = Inr (y, s') \<Longrightarrow> invar s'"
    and alloc_Some: "invar s \<Longrightarrow> fits n \<Longrightarrow> alloc s n = Inr (Some x, s') \<Longrightarrow>
      \<exists>len. unat n \<le> len \<and> 0 < len \<and> live s' = insert (x, len) (live s) \<and> (\<forall>p \<in> live s. disjoint_blocks (x, len) p)"
    and alloc_None: "invar s \<Longrightarrow> fits n \<Longrightarrow> alloc s n = Inr (None, s') \<Longrightarrow> live s' = live s"
    and release_invar: "invar s \<Longrightarrow> invar (release s h)"
    and release_live: "invar s \<Longrightarrow> {b \<in> live s. fst b \<noteq> fst h} \<subseteq> live (release s h)"
begin

lemma client_run:
  "invar s \<Longrightarrow> Ball (sizes ops) fits \<Longrightarrow> covers held B \<Longrightarrow> set B \<subseteq> live s \<Longrightarrow> run_client alloc release ops s held = Inr (s', held') \<Longrightarrow>
    invar s' \<and> (\<exists>B'. covers held' B' \<and> set B' \<subseteq> live s')"
proof (induction ops arbitrary: s held B)
  case Nil
  then show ?case by auto
next
  case (Cons op ops)
  have f: "Ball (sizes ops) fits" using Cons.prems(2) by (auto simp: sizes_def)
  show ?case
  proof (cases op)
    case (Get n)
    with Cons.prems(5) obtain p s1 where a: "alloc s n = Inr (p, s1)"
      and r: "run_client alloc release ops s1 (case p of None \<Rightarrow> held | Some x \<Rightarrow> (x, n) # held) = Inr (s', held')"
      by (auto simp: bind_res_def split: sum.splits)
    have n: "fits n" using Cons.prems(2) Get by (auto simp: sizes_def)
    have i: "invar s1" using alloc_invar [OF Cons.prems(1) n a] .
    show ?thesis
    proof (cases p)
      case None
      then have "live s1 = live s" using alloc_None Cons.prems(1) n a by blast
      then show ?thesis using Cons.IH [OF i f Cons.prems(3)] r None Cons.prems(4) by simp
    next
      case (Some x)
      then obtain len where l: "unat n \<le> len" "0 < len" "live s1 = insert (x, len) (live s)" "\<forall>p \<in> live s. disjoint_blocks (x, len) p"
        using alloc_Some Cons.prems(1) n a by blast
      then have "covers ((x, n) # held) ((x, len) # B)" "set ((x, len) # B) \<subseteq> live s1"
        using Cons.prems(3,4) by (auto simp: covers_Cons)
      then show ?thesis using Cons.IH [OF i f] r Some by simp
    qed
  next
    case (Give i)
    show ?thesis
    proof (cases "i < length held")
      case True
      note d = covers_drop [OF Cons.prems(3) True]
      have "set (take i B @ drop (Suc i) B) \<subseteq> live (release s (held ! i))"
        using d(2) Cons.prems(1,4) release_live by blast
      then show ?thesis using Cons.IH [OF release_invar [OF Cons.prems(1)] f d(1)] Cons.prems(5) Give True by simp
    next
      case False
      then show ?thesis using Cons.IH [OF Cons.prems(1) f Cons.prems(3,4)] Cons.prems(5) Give by simp
    qed
  qed
qed

lemma client_disjoint:
  assumes "invar s" and "Ball (sizes ops) fits" and "run_client alloc release ops s [] = Inr (s', held)"
  shows "invar s' \<and> sorted_wrt disjoint_blocks (map (\<lambda>(p, n). (p, unat n)) held) \<and>
    (\<forall>(p, n) \<in> set held. \<exists>len. (p, len) \<in> live s' \<and> unat n \<le> len)"
proof -
  obtain B where B: "invar s'" "covers held B" "set B \<subseteq> live s'"
    using client_run [OF assms(1,2) _ _ assms(3), of "[]"] by (auto simp: covers_def)
  show ?thesis using B(1,3) covers_disjoint [OF B(2)] by (fastforce simp: case_prod_unfold)
qed

end

end
