(* ===== verification/Buddy.thy ===== *)
theory Buddy
  imports Nexs_Prelude
begin

section \<open>The buddy allocator (\<^verbatim>\<open>core/buddy.c\<close>)\<close>

text \<open>
  The pool is one block of \<open>POOL_SIZE\<close> bytes; \<open>buddy_tree\<close> is the implicit binary tree
  over it, node \<open>n\<close> with children \<open>2 n + 1\<close> and \<open>2 n + 2\<close>. The two sizes are macros that the
  build chooses; the model takes them as a record, and \<open>wf_cfg\<close> is what all seven
  configurations of \<^verbatim>\<open>nexs_common.h\<close> have in common. A pointer into the pool is its offset,
  NULL is \<open>None\<close>.
\<close>

datatype bnode = BNODE_FREE | BNODE_SPLIT | BNODE_USED

type_synonym buddy_tree = "nat \<Rightarrow> bnode"

record pool_cfg =
  POOL_SIZE :: nat
  MIN_BLOCK :: nat

definition NUM_LEAVES :: "pool_cfg \<Rightarrow> nat" where
  "NUM_LEAVES c = POOL_SIZE c div MIN_BLOCK c"

definition TREE_NODES :: "pool_cfg \<Rightarrow> nat" where
  "TREE_NODES c = 2 * NUM_LEAVES c - 1"

definition cfg_16MB :: pool_cfg where
  "cfg_16MB = \<lparr>POOL_SIZE = 16 * 1024 * 1024, MIN_BLOCK = 128\<rparr>"

definition cfg_4KB :: pool_cfg where
  "cfg_4KB = \<lparr>POOL_SIZE = 4 * 1024, MIN_BLOCK = 16\<rparr>"

definition buddy_init :: buddy_tree where
  "buddy_init = (\<lambda>_. BNODE_FREE)"

text \<open>The rounding loop, on \<open>size_t\<close>: \<open>None\<close> is the loop that never ends.\<close>

partial_function (option) next_pow2_loop :: "u64 \<Rightarrow> u64 \<Rightarrow> u64 option" where
  "next_pow2_loop p x = (if p < x then next_pow2_loop (push_bit 1 p) x else Some p)"

definition buddy_next_pow2 :: "pool_cfg \<Rightarrow> u64 \<Rightarrow> u64 option" where
  "buddy_next_pow2 c x = next_pow2_loop (of_nat (MIN_BLOCK c)) x"

function buddy_alloc_node ::
  "pool_cfg \<Rightarrow> buddy_tree \<Rightarrow> nat \<Rightarrow> nat \<Rightarrow> nat \<Rightarrow> nat \<Rightarrow> nat option \<times> buddy_tree" where
  "buddy_alloc_node c t node node_size node_offset req_size =
     (if TREE_NODES c \<le> node then (None, t)
      else if t node = BNODE_USED then (None, t)
      else if node_size < req_size then (None, t)
      else if node_size = req_size \<and> t node = BNODE_FREE then
        (Some node_offset, t(node := BNODE_USED))
      else if t node = BNODE_FREE \<and> node_size \<le> MIN_BLOCK c then (None, t)
      else
        let t1 = (if t node = BNODE_FREE then t(node := BNODE_SPLIT) else t);
            cs = node_size div 2
        in case buddy_alloc_node c t1 (2 * node + 1) cs node_offset req_size of
             (Some off, t2) \<Rightarrow> (Some off, t2)
           | (None, t2) \<Rightarrow> buddy_alloc_node c t2 (2 * node + 2) cs (node_offset + cs) req_size)"
  by pat_completeness auto
termination
  by (relation "measure (\<lambda>(c, t, node, _). TREE_NODES c - node)") auto

definition buddy_alloc :: "pool_cfg \<Rightarrow> buddy_tree \<Rightarrow> u64 \<Rightarrow> (nat option \<times> buddy_tree) option" where
  "buddy_alloc c t sz =
     (if sz = 0 \<or> POOL_SIZE c < unat sz then Some (None, t)
      else case buddy_next_pow2 c sz of
             None \<Rightarrow> None
           | Some req \<Rightarrow> Some (buddy_alloc_node c t 0 (POOL_SIZE c) 0 (unat req)))"

function buddy_free_node ::
  "pool_cfg \<Rightarrow> buddy_tree \<Rightarrow> nat \<Rightarrow> nat \<Rightarrow> nat \<Rightarrow> nat \<Rightarrow> buddy_tree" where
  "buddy_free_node c t node node_size node_offset target =
     (if TREE_NODES c \<le> node then t
      else if t node = BNODE_FREE then t
      else if t node = BNODE_USED then
        (if node_offset = target then t(node := BNODE_FREE) else t)
      else
        let cs = node_size div 2;
            t1 = (if target < node_offset + cs
                  then buddy_free_node c t (2 * node + 1) cs node_offset target
                  else buddy_free_node c t (2 * node + 2) cs (node_offset + cs) target)
        in if t1 node = BNODE_SPLIT \<and> 2 * node + 2 < TREE_NODES c \<and>
              t1 (2 * node + 1) = BNODE_FREE \<and> t1 (2 * node + 2) = BNODE_FREE
           then t1(node := BNODE_FREE) else t1)"
  by pat_completeness auto
termination
  by (relation "measure (\<lambda>(c, t, node, _). TREE_NODES c - node)") auto

text \<open>
  A pointer is an address; \<open>lo\<close> is the address of \<open>memory_pool\<close>. NULL and addresses outside
  the pool are ignored.
\<close>

definition buddy_free :: "pool_cfg \<Rightarrow> nat \<Rightarrow> buddy_tree \<Rightarrow> nat option \<Rightarrow> buddy_tree" where
  "buddy_free c lo t ptr =
     (case ptr of
        None \<Rightarrow> t
      | Some p \<Rightarrow> if p < lo \<or> lo + POOL_SIZE c \<le> p then t
                  else buddy_free_node c t 0 (POOL_SIZE c) 0 (p - lo))"

declare buddy_alloc_node.simps [simp del] buddy_free_node.simps [simp del]

subsection \<open>Well-formed configurations and positions in the tree\<close>

text \<open>
  Both sizes are powers of two; \<open>a\<close> and \<open>h\<close> are the exponents. A node of height \<open>k\<close> stands
  for a block of \<open>MIN_BLOCK * 2 ^ k\<close> bytes.
\<close>

definition wf_cfg :: "pool_cfg \<Rightarrow> nat \<Rightarrow> nat \<Rightarrow> bool" where
  "wf_cfg c a h \<longleftrightarrow> MIN_BLOCK c = 2 ^ a \<and> POOL_SIZE c = 2 ^ a * 2 ^ h \<and> a + h < 64"

definition at_height :: "nat \<Rightarrow> nat \<Rightarrow> nat \<Rightarrow> bool" where
  "at_height h n k \<longleftrightarrow> k \<le> h \<and> 2 ^ (h - k) \<le> n + 1 \<and> n + 1 < 2 * 2 ^ (h - k)"

definition left_of :: "nat \<Rightarrow> nat" where
  "left_of n = 2 * n + 1"

definition right_of :: "nat \<Rightarrow> nat" where
  "right_of n = 2 * n + 2"

lemmas children_fold = left_of_def [symmetric] right_of_def [symmetric]

definition under :: "nat \<Rightarrow> nat \<Rightarrow> bool" where
  "under m n \<longleftrightarrow> (\<exists>j. (m + 1) div 2 ^ j = n + 1)"

lemma wf_cfg_16MB: "wf_cfg cfg_16MB 7 17"
  by (simp add: wf_cfg_def cfg_16MB_def)

lemma wf_cfg_4KB: "wf_cfg cfg_4KB 4 8"
  by (simp add: wf_cfg_def cfg_4KB_def)

lemma TREE_NODES_wf: "wf_cfg c a h \<Longrightarrow> TREE_NODES c = 2 * 2 ^ h - 1"
  by (simp add: wf_cfg_def TREE_NODES_def NUM_LEAVES_def)

lemma at_height_root: "at_height h 0 h"
  by (simp add: at_height_def)

lemma at_height_children:
  assumes "at_height h n (Suc k)"
  shows "at_height h (left_of n) k" and "at_height h (right_of n) k"
proof -
  have "h - k = Suc (h - Suc k)" using assms by (auto simp: at_height_def)
  then show "at_height h (left_of n) k" and "at_height h (right_of n) k"
    using assms by (auto simp: at_height_def left_of_def right_of_def)
qed

lemma at_height_in_tree:
  assumes "wf_cfg c a h" and "at_height h n k"
  shows "n < TREE_NODES c"
proof -
  have "(2::nat) ^ (h - k) \<le> 2 ^ h" by simp
  moreover have "n + 1 < 2 * 2 ^ (h - k)" using assms(2) by (simp add: at_height_def)
  ultimately have "n + 1 < 2 * 2 ^ h" by linarith
  then show ?thesis using assms(1) by (simp add: TREE_NODES_wf less_diff_conv)
qed

lemma under_refl [simp]: "under n n"
  unfolding under_def by (rule exI [of _ 0]) simp

lemma under_parent:
  assumes "under m (left_of n) \<or> under m (right_of n)"
  shows "under m n"
proof -
  obtain j where "(m + 1) div 2 ^ j = 2 * n + 2 \<or> (m + 1) div 2 ^ j = 2 * n + 3"
    using assms unfolding under_def left_of_def right_of_def by (auto simp: numeral_3_eq_3)
  then have "(m + 1) div 2 ^ j div 2 = n + 1" by auto
  then have "(m + 1) div 2 ^ Suc j = n + 1" by (simp only: div_mult2_eq power_Suc2)
  then show ?thesis unfolding under_def by blast
qed

lemma under_le: "under m n \<Longrightarrow> n \<le> m"
  unfolding under_def by (metis Suc_eq_plus1 Suc_le_mono div_le_dividend)

lemma under_self_child [simp]:
  "\<not> under n (left_of n)" "\<not> under n (right_of n)" "n \<noteq> left_of n" "n \<noteq> right_of n"
  "left_of n \<noteq> n" "right_of n \<noteq> n" "left_of n \<noteq> right_of n" "right_of n \<noteq> left_of n"
  by (auto simp: left_of_def right_of_def dest: under_le)

lemma under_disjoint: "under m (left_of n) \<Longrightarrow> \<not> under m (right_of n)"
proof
  assume "under m (left_of n)" and "under m (right_of n)"
  then obtain i j where i: "(m + 1) div 2 ^ i = 2 * n + 2" and j: "(m + 1) div 2 ^ j = 2 * n + 3"
    unfolding under_def left_of_def right_of_def by (auto simp: numeral_3_eq_3)
  consider "i = j" | d where "j = i + Suc d" | d where "i = j + Suc d"
    by (metis add_Suc_right less_imp_Suc_add linorder_neqE_nat)
  then show False
  proof cases
    case 1
    then show False using i j by simp
  next
    case (2 d)
    then have "2 * n + 3 = (2 * n + 2) div 2 ^ Suc d"
      using i j by (simp only: power_add div_mult2_eq)
    also have "\<dots> \<le> 2 * n + 2" by (rule div_le_dividend)
    finally show False by simp
  next
    case (3 d)
    then have "2 * n + 2 = (2 * n + 3) div 2 ^ Suc d"
      using i j by (simp only: power_add div_mult2_eq)
    also have "\<dots> \<le> (2 * n + 3) div 2" by (rule div_le_mono2) simp_all
    also have "\<dots> = n + 1" by simp
    finally show False by simp
  qed
qed

subsection \<open>The tree as a value\<close>

text \<open>
  What the array stands for: a tree of free, used and split blocks. \<open>talloc\<close> and \<open>tfree\<close> are
  allocation and release on it, with the height \<open>k\<close> of the block and its offset \<open>off\<close>.
\<close>

datatype btree = BFree | BUsed | BSplit btree btree

fun tree_of :: "buddy_tree \<Rightarrow> nat \<Rightarrow> nat \<Rightarrow> btree" where
  "tree_of t n 0 = (if t n = BNODE_FREE then BFree else BUsed)"
| "tree_of t n (Suc k) =
     (case t n of BNODE_FREE \<Rightarrow> BFree | BNODE_USED \<Rightarrow> BUsed
      | BNODE_SPLIT \<Rightarrow> BSplit (tree_of t (left_of n) k) (tree_of t (right_of n) k))"

fun halves :: "btree \<Rightarrow> btree \<times> btree" where
  "halves (BSplit l r) = (l, r)"
| "halves _ = (BFree, BFree)"

fun talloc :: "nat \<Rightarrow> nat \<Rightarrow> nat \<Rightarrow> nat \<Rightarrow> btree \<Rightarrow> nat option \<times> btree" where
  "talloc m r off k BUsed = (None, BUsed)"
| "talloc m r off 0 T = (if r = 0 \<and> T = BFree then (Some off, BUsed) else (None, T))"
| "talloc m r off (Suc k) T =
     (if Suc k < r then (None, T)
      else if Suc k = r \<and> T = BFree then (Some off, BUsed)
      else
        let (L, R) = halves T in
        case talloc m r off k L of
          (Some x, L') \<Rightarrow> (Some x, BSplit L' R)
        | (None, L') \<Rightarrow> (case talloc m r (off + m * 2 ^ k) k R of (x, R') \<Rightarrow> (x, BSplit L' R')))"

fun merge :: "btree \<Rightarrow> btree \<Rightarrow> btree" where
  "merge BFree BFree = BFree"
| "merge L R = BSplit L R"

fun tfree :: "nat \<Rightarrow> nat \<Rightarrow> nat \<Rightarrow> nat \<Rightarrow> btree \<Rightarrow> btree" where
  "tfree m x off k BFree = BFree"
| "tfree m x off k BUsed = (if off = x then BFree else BUsed)"
| "tfree m x off 0 (BSplit L R) = BSplit L R"
| "tfree m x off (Suc k) (BSplit L R) =
     (if x < off + m * 2 ^ k then merge (tfree m x off k L) R
      else merge L (tfree m x (off + m * 2 ^ k) k R))"

text \<open>The blocks in use, as pairs of offset and length.\<close>

fun used :: "nat \<Rightarrow> nat \<Rightarrow> nat \<Rightarrow> btree \<Rightarrow> (nat \<times> nat) set" where
  "used m off k BFree = {}"
| "used m off k BUsed = {(off, m * 2 ^ k)}"
| "used m off 0 (BSplit L R) = {}"
| "used m off (Suc k) (BSplit L R) = used m off k L \<union> used m (off + m * 2 ^ k) k R"

text \<open>Some free block of height at least \<open>r\<close> exists.\<close>

fun has_free :: "nat \<Rightarrow> nat \<Rightarrow> btree \<Rightarrow> bool" where
  "has_free r k BFree \<longleftrightarrow> r \<le> k"
| "has_free r k BUsed \<longleftrightarrow> False"
| "has_free r 0 (BSplit L R) \<longleftrightarrow> False"
| "has_free r (Suc k) (BSplit L R) \<longleftrightarrow> has_free r k L \<or> has_free r k R"

text \<open>Splits are above the leaves, and two free halves are always merged.\<close>

fun tree_ok :: "nat \<Rightarrow> btree \<Rightarrow> bool" where
  "tree_ok 0 (BSplit L R) \<longleftrightarrow> False"
| "tree_ok (Suc k) (BSplit L R) \<longleftrightarrow> tree_ok k L \<and> tree_ok k R \<and> \<not> (L = BFree \<and> R = BFree)"
| "tree_ok k _ \<longleftrightarrow> True"

subsection \<open>The array stores a well-formed tree\<close>

text \<open>
  Below a free or used node every node is free, so that a node can be split or merged by
  writing that node alone.
\<close>

fun all_free :: "buddy_tree \<Rightarrow> nat \<Rightarrow> nat \<Rightarrow> bool" where
  "all_free t n 0 \<longleftrightarrow> t n = BNODE_FREE"
| "all_free t n (Suc k) \<longleftrightarrow>
     t n = BNODE_FREE \<and> all_free t (left_of n) k \<and> all_free t (right_of n) k"

fun wf_node :: "buddy_tree \<Rightarrow> nat \<Rightarrow> nat \<Rightarrow> bool" where
  "wf_node t n 0 \<longleftrightarrow> t n \<noteq> BNODE_SPLIT"
| "wf_node t n (Suc k) \<longleftrightarrow>
     (case t n of
        BNODE_SPLIT \<Rightarrow> wf_node t (left_of n) k \<and> wf_node t (right_of n) k \<and>
          \<not> (t (left_of n) = BNODE_FREE \<and> t (right_of n) = BNODE_FREE)
      | _ \<Rightarrow> all_free t (left_of n) k \<and> all_free t (right_of n) k)"

definition wf_tree :: "buddy_tree \<Rightarrow> nat \<Rightarrow> bool" where
  "wf_tree t h \<longleftrightarrow> wf_node t 0 h"

text \<open>Two arrays that agree on the subtree below a node.\<close>

definition same_below :: "buddy_tree \<Rightarrow> buddy_tree \<Rightarrow> nat \<Rightarrow> bool" where
  "same_below t t' n \<longleftrightarrow> (\<forall>x. under x n \<longrightarrow> t' x = t x)"

lemma same_belowD: "same_below t t' n \<Longrightarrow> t' n = t n"
  by (simp add: same_below_def)

lemma same_below_children:
  "same_below t t' n \<Longrightarrow> same_below t t' (left_of n)"
  "same_below t t' n \<Longrightarrow> same_below t t' (right_of n)"
  by (auto simp: same_below_def intro: under_parent)

lemma same_below_upd [simp]:
  "same_below t (t(n := b)) (left_of n)" "same_below t (t(n := b)) (right_of n)"
  by (auto simp: same_below_def)

lemma all_free_cong: "same_below t t' n \<Longrightarrow> all_free t' n k = all_free t n k"
proof (induction k arbitrary: n)
  case 0
  then show ?case by (simp add: same_belowD)
next
  case (Suc k)
  show ?case
    using same_belowD [OF Suc.prems] Suc.IH [OF same_below_children(1) [OF Suc.prems]]
      Suc.IH [OF same_below_children(2) [OF Suc.prems]] by simp
qed

lemma wf_node_cong: "same_below t t' n \<Longrightarrow> wf_node t' n k = wf_node t n k"
proof (induction k arbitrary: n)
  case 0
  then show ?case by (simp add: same_belowD)
next
  case (Suc k)
  note l = same_below_children(1) [OF Suc.prems] and r = same_below_children(2) [OF Suc.prems]
  show ?case
    using same_belowD [OF Suc.prems] same_belowD [OF l] same_belowD [OF r]
      Suc.IH [OF l] Suc.IH [OF r] all_free_cong [OF l, of k] all_free_cong [OF r, of k]
    by (simp split: bnode.split)
qed

lemma tree_of_cong: "same_below t t' n \<Longrightarrow> tree_of t' n k = tree_of t n k"
proof (induction k arbitrary: n)
  case 0
  then show ?case by (simp add: same_belowD)
next
  case (Suc k)
  note l = same_below_children(1) [OF Suc.prems] and r = same_below_children(2) [OF Suc.prems]
  show ?case
    using same_belowD [OF Suc.prems] Suc.IH [OF l] Suc.IH [OF r] by (simp split: bnode.split)
qed

lemma all_free_root: "all_free t n k \<Longrightarrow> t n = BNODE_FREE"
  by (cases k) auto

lemma all_free_wf: "all_free t n k \<Longrightarrow> wf_node t n k"
  by (cases k) auto

lemma tree_of_free: "wf_node t n k \<Longrightarrow> tree_of t n k = BFree \<longleftrightarrow> t n = BNODE_FREE"
  by (cases k) (auto split: bnode.splits)

lemma tree_of_all_free: "all_free t n k \<Longrightarrow> tree_of t n k = BFree"
  by (cases k) auto

lemma tree_of_ok: "wf_node t n k \<Longrightarrow> tree_ok k (tree_of t n k)"
proof (induction k arbitrary: n)
  case 0
  then show ?case by simp
next
  case (Suc k)
  then show ?case
    using tree_of_free [of t "left_of n" k] tree_of_free [of t "right_of n" k]
    by (simp split: bnode.splits)
qed

lemma wf_tree_init: "wf_tree buddy_init h"
proof -
  have "all_free buddy_init n k" for n k
    by (induction k arbitrary: n) (simp_all add: buddy_init_def)
  then show ?thesis unfolding wf_tree_def by (rule all_free_wf)
qed

lemma tree_ok_halves: "tree_ok (Suc k) T \<Longrightarrow> halves T = (L, R) \<Longrightarrow> tree_ok k L \<and> tree_ok k R"
  by (cases T; cases k) auto

subsection \<open>Allocation refines \<open>talloc\<close>\<close>

definition only_below :: "buddy_tree \<Rightarrow> buddy_tree \<Rightarrow> nat \<Rightarrow> bool" where
  "only_below t t' n \<longleftrightarrow> (\<forall>x. \<not> under x n \<longrightarrow> t' x = t x)"

lemma only_below_refl [simp]: "only_below t t n"
  by (simp add: only_below_def)

lemma only_below_child:
  "only_below t t' (left_of n) \<Longrightarrow> only_below t t' n"
  "only_below t t' (right_of n) \<Longrightarrow> only_below t t' n"
  unfolding only_below_def using under_parent by blast+

lemma only_below_trans: "only_below t t' n \<Longrightarrow> only_below t' t'' n \<Longrightarrow> only_below t t'' n"
  by (simp add: only_below_def)

lemma only_below_upd [simp]: "only_below t (t(n := b)) n"
  by (auto simp: only_below_def)

lemma only_below_other:
  "only_below t t' (left_of n) \<Longrightarrow> same_below t t' (right_of n) \<and> t' n = t n"
  "only_below t t' (right_of n) \<Longrightarrow> same_below t t' (left_of n) \<and> t' n = t n"
  by (auto simp: only_below_def same_below_def dest: under_disjoint)

lemma talloc_step:
  assumes "T \<noteq> BUsed" and "\<not> (Suc k = r \<and> T = BFree)" and "r \<le> Suc k" and "halves T = (L, R)"
  shows "talloc m r off (Suc k) T =
    (case talloc m r off k L of
       (Some x, L') \<Rightarrow> (Some x, BSplit L' R)
     | (None, L') \<Rightarrow> (case talloc m r (off + m * 2 ^ k) k R of (x, R') \<Rightarrow> (x, BSplit L' R')))"
  using assms by (cases T) auto

lemma talloc_BFree: "r \<le> k \<Longrightarrow> \<exists>x T. talloc m r off k BFree = (Some x, T)"
proof (induction k arbitrary: off)
  case 0
  then show ?case by simp
next
  case (Suc k)
  show ?case
  proof (cases "Suc k = r")
    case True
    then show ?thesis by (cases r) auto
  next
    case False
    then obtain x T where "talloc m r off k BFree = (Some x, T)" using Suc by fastforce
    then show ?thesis using Suc.prems False by simp
  qed
qed

definition alloc_ok :: "nat \<Rightarrow> nat \<Rightarrow> nat \<Rightarrow> nat \<Rightarrow> buddy_tree \<Rightarrow> nat \<Rightarrow> nat option \<times> buddy_tree \<Rightarrow> bool" where
  "alloc_ok m r off k t n p \<longleftrightarrow>
     talloc m r off k (tree_of t n k) = (fst p, tree_of (snd p) n k) \<and>
     wf_node (snd p) n k \<and> only_below t (snd p) n \<and>
     (if fst p = None then snd p = t else snd p n \<noteq> BNODE_FREE)"

lemma alloc_node_descend:
  assumes "n < TREE_NODES c" and "t n \<noteq> BNODE_USED" and "\<not> ns < rq"
    and "\<not> (ns = rq \<and> t n = BNODE_FREE)" and "\<not> (t n = BNODE_FREE \<and> ns \<le> MIN_BLOCK c)"
    and "ns div 2 = cs" and "t1 = (if t n = BNODE_FREE then t(n := BNODE_SPLIT) else t)"
    and "buddy_alloc_node c t1 (left_of n) cs off rq = (o1, t2)"
    and "buddy_alloc_node c t2 (right_of n) cs (off + cs) rq = (o2, t3)"
  shows "buddy_alloc_node c t n ns off rq = (case o1 of Some x \<Rightarrow> (Some x, t2) | None \<Rightarrow> (o2, t3))"
  using assms unfolding left_of_def right_of_def
  by (subst buddy_alloc_node.simps) (auto simp: Let_def split: option.split)

lemma alloc_node_refines:
  assumes c: "wf_cfg c a h" and "at_height h n k" and "wf_node t n k"
  shows "alloc_ok (MIN_BLOCK c) r off k t n
           (buddy_alloc_node c t n (MIN_BLOCK c * 2 ^ k) off (MIN_BLOCK c * 2 ^ r))"
  using assms(2,3)
proof (induction k arbitrary: n t off)
  case 0
  have n: "n < TREE_NODES c" and m: "0 < MIN_BLOCK c"
    using at_height_in_tree [OF c 0(1)] c by (simp_all add: wf_cfg_def)
  show ?case
  proof (cases r)
    case 0
    then show ?thesis using n m \<open>wf_node t n 0\<close>
      by (cases "t n") (simp_all add: alloc_ok_def buddy_alloc_node.simps [of c t n])
  next
    case (Suc r')
    have "MIN_BLOCK c * 1 < MIN_BLOCK c * 2 ^ r"
      using m Suc by (intro mult_strict_left_mono one_less_power) simp_all
    then have "MIN_BLOCK c < MIN_BLOCK c * 2 ^ r" by simp
    then show ?thesis using n Suc \<open>wf_node t n 0\<close>
      by (cases "t n") (simp_all add: alloc_ok_def buddy_alloc_node.simps [of c t n])
  qed
next
  case (Suc k)
  let ?m = "MIN_BLOCK c"
  have m: "0 < ?m" using c by (simp add: wf_cfg_def)
  have n: "n < TREE_NODES c" using at_height_in_tree [OF c Suc.prems(1)] .
  note kids = at_height_children [OF Suc.prems(1)]
  show ?case
  proof (cases "t n = BNODE_USED \<or> Suc k < r \<or> (Suc k = r \<and> t n = BNODE_FREE)")
    case True
    have kids_free: "all_free (t(n := b)) (left_of n) k = all_free t (left_of n) k"
      "all_free (t(n := b)) (right_of n) k = all_free t (right_of n) k" for b
      by (simp_all add: all_free_cong [OF same_below_upd(1)] all_free_cong [OF same_below_upd(2)])
    have le: "Suc k < r \<Longrightarrow> ?m * 2 ^ Suc k < ?m * 2 ^ r"
      using m by (intro mult_strict_left_mono power_strict_increasing) simp_all
    show ?thesis
    proof (cases "t n = BNODE_USED")
      case used: True
      then show ?thesis using n Suc.prems(2)
        by (simp add: alloc_ok_def buddy_alloc_node.simps [of c t n])
    next
      case not_used: False
      show ?thesis
      proof (cases "Suc k < r")
        case lt: True
        then show ?thesis using n not_used Suc.prems(2) le
          by (cases "t n") (simp_all add: alloc_ok_def buddy_alloc_node.simps [of c t n])
      next
        case False
        then have "Suc k = r" and "t n = BNODE_FREE" using True not_used by auto
        then show ?thesis using n Suc.prems(2) kids_free
          by (auto simp add: alloc_ok_def buddy_alloc_node.simps [of c t n])
      qed
    qed
  next
    case False
    define t1 where "t1 = (if t n = BNODE_FREE then t(n := BNODE_SPLIT) else t)"
    have split: "t1 n = BNODE_SPLIT" using False by (cases "t n") (auto simp: t1_def)
    have wl: "wf_node t1 (left_of n) k" and wr: "wf_node t1 (right_of n) k"
      using Suc.prems(2) False wf_node_cong [OF same_below_upd(1), of t n BNODE_SPLIT k]
        wf_node_cong [OF same_below_upd(2), of t n BNODE_SPLIT k]
      by (auto simp: t1_def all_free_wf split: bnode.splits)
    have halves: "halves (tree_of t n (Suc k)) =
        (tree_of t1 (left_of n) k, tree_of t1 (right_of n) k)"
      using Suc.prems(2) False tree_of_cong [OF same_below_upd(1), of t n BNODE_SPLIT k]
        tree_of_cong [OF same_below_upd(2), of t n BNODE_SPLIT k]
      by (auto simp: t1_def tree_of_all_free split: bnode.splits)
    obtain o1 t2 where p1: "buddy_alloc_node c t1 (left_of n) (?m * 2 ^ k) off (?m * 2 ^ r) = (o1, t2)"
      by fastforce
    obtain o2 t3 where p2: "buddy_alloc_node c t2 (right_of n) (?m * 2 ^ k) (off + ?m * 2 ^ k) (?m * 2 ^ r) = (o2, t3)"
      by fastforce
    have step: "buddy_alloc_node c t n (?m * 2 ^ Suc k) off (?m * 2 ^ r) =
        (case o1 of Some x \<Rightarrow> (Some x, t2) | None \<Rightarrow> (o2, t3))"
    proof (rule alloc_node_descend [OF n _ _ _ _ _ t1_def p1 p2])
      show "t n \<noteq> BNODE_USED" using False by simp
      show "\<not> ?m * 2 ^ Suc k < ?m * 2 ^ r"
        using False by (simp add: not_less del: power_Suc)
      show "\<not> (?m * 2 ^ Suc k = ?m * 2 ^ r \<and> t n = BNODE_FREE)"
        using False m by (auto simp del: power_Suc)
      have "?m * 1 < ?m * 2 ^ Suc k"
        using m by (intro mult_strict_left_mono one_less_power) simp_all
      then show "\<not> (t n = BNODE_FREE \<and> ?m * 2 ^ Suc k \<le> ?m)" by simp
    qed simp
    have r: "r \<le> Suc k" using False by simp
    have spec: "talloc ?m r off (Suc k) (tree_of t n (Suc k)) =
        (case talloc ?m r off k (tree_of t1 (left_of n) k) of
           (Some x, L') \<Rightarrow> (Some x, BSplit L' (tree_of t1 (right_of n) k))
         | (None, L') \<Rightarrow> (case talloc ?m r (off + ?m * 2 ^ k) k (tree_of t1 (right_of n) k) of
             (x, R') \<Rightarrow> (x, BSplit L' R')))"
    proof -
      have "tree_of t n (Suc k) \<noteq> BUsed" using False by (auto split: bnode.splits)
      moreover have "\<not> (Suc k = r \<and> tree_of t n (Suc k) = BFree)"
        using False Suc.prems(2) by (auto split: bnode.splits)
      ultimately show ?thesis
        using halves r by (intro talloc_step)
    qed
    have ok1: "alloc_ok ?m r off k t1 (left_of n) (o1, t2)"
      using Suc.IH [OF kids(1) wl, of off] p1 by simp
    have out1: "only_below t t1 n" by (simp add: t1_def)
    show ?thesis
    proof (cases o1)
      case (Some x)
      have same: "same_below t1 t2 (right_of n)" "t2 n = BNODE_SPLIT"
        using ok1 only_below_other(1) [of t1 t2 n] split by (auto simp: alloc_ok_def)
      show ?thesis
        using ok1 step spec Some same wr wf_node_cong [OF same(1), of k] tree_of_cong [OF same(1), of k]
          only_below_trans [OF out1 only_below_child(1)]
        by (auto simp: alloc_ok_def)
    next
      case None
      then have t2: "t2 = t1" using ok1 by (simp add: alloc_ok_def)
      have ok2: "alloc_ok ?m r (off + ?m * 2 ^ k) k t1 (right_of n) (o2, t3)"
        using Suc.IH [OF kids(2) wr, of "off + ?m * 2 ^ k"] p2 t2 by simp
      have same: "same_below t1 t3 (left_of n)" "t3 n = BNODE_SPLIT"
        using ok2 only_below_other(2) [of t1 t3 n] split by (auto simp: alloc_ok_def)
      have "t n = BNODE_SPLIT"
      proof (rule ccontr)
        assume "t n \<noteq> BNODE_SPLIT"
        then have "t n = BNODE_FREE" using False by (cases "t n") auto
        then have "tree_of t1 (left_of n) k = BFree" and "r \<le> k"
          using halves False by auto
        then show False using ok1 None talloc_BFree [of r k ?m off] by (auto simp: alloc_ok_def)
      qed
      then have t1: "t1 = t" and nf: "\<not> (t (left_of n) = BNODE_FREE \<and> t (right_of n) = BNODE_FREE)"
        using Suc.prems(2) by (auto simp: t1_def)
      have lr: "t3 (left_of n) = t1 (left_of n)" using same_belowD [OF same(1)] .
      show ?thesis
        using ok1 ok2 step spec None t2 t1 same nf lr wl wf_node_cong [OF same(1), of k]
          tree_of_cong [OF same(1), of k] only_below_child(2) [of t1 t3 n]
        by (auto simp: alloc_ok_def split: if_splits)
    qed
  qed
qed

subsection \<open>Release refines \<open>tfree\<close>\<close>

definition free_ok :: "nat \<Rightarrow> nat \<Rightarrow> nat \<Rightarrow> nat \<Rightarrow> buddy_tree \<Rightarrow> nat \<Rightarrow> buddy_tree \<Rightarrow> bool" where
  "free_ok m x off k t n t' \<longleftrightarrow>
     tree_of t' n k = tfree m x off k (tree_of t n k) \<and> wf_node t' n k \<and> only_below t t' n"

lemma wf_node_all_free: "wf_node t n k \<Longrightarrow> t n = BNODE_FREE \<Longrightarrow> all_free t n k"
  by (cases k) auto

lemma merge_eq: "merge L R = (if L = BFree \<and> R = BFree then BFree else BSplit L R)"
  by (cases L; cases R) auto

text \<open>The coalescing step after a child has been changed.\<close>

lemma coalesce_ok:
  assumes "wf_node t1 (left_of n) k" and "wf_node t1 (right_of n) k" and "t1 n = BNODE_SPLIT"
    and "t2 = (if t1 (left_of n) = BNODE_FREE \<and> t1 (right_of n) = BNODE_FREE
               then t1(n := BNODE_FREE) else t1)"
  shows "tree_of t2 n (Suc k) = merge (tree_of t1 (left_of n) k) (tree_of t1 (right_of n) k) \<and>
         wf_node t2 n (Suc k)"
proof (cases "t1 (left_of n) = BNODE_FREE \<and> t1 (right_of n) = BNODE_FREE")
  case True
  then show ?thesis
    using assms wf_node_all_free [OF assms(1)] wf_node_all_free [OF assms(2)]
      all_free_cong [OF same_below_upd(1), of t1 n BNODE_FREE k]
      all_free_cong [OF same_below_upd(2), of t1 n BNODE_FREE k]
    by (simp add: merge_eq tree_of_free)
next
  case False
  then show ?thesis using assms by (auto simp: merge_eq tree_of_free)
qed

lemma free_node_refines:
  assumes c: "wf_cfg c a h" and "at_height h n k" and "wf_node t n k"
  shows "free_ok (MIN_BLOCK c) x off k t n
           (buddy_free_node c t n (MIN_BLOCK c * 2 ^ k) off x)"
  using assms(2,3)
proof (induction k arbitrary: n off)
  case 0
  have n: "n < TREE_NODES c" using at_height_in_tree [OF c 0(1)] .
  then show ?case using \<open>wf_node t n 0\<close>
    by (cases "t n") (simp_all add: free_ok_def buddy_free_node.simps [of c t n])
next
  case (Suc k)
  let ?m = "MIN_BLOCK c"
  have n: "n < TREE_NODES c" using at_height_in_tree [OF c Suc.prems(1)] .
  note kids = at_height_children [OF Suc.prems(1)]
  have rn: "right_of n < TREE_NODES c" using at_height_in_tree [OF c kids(2)] .
  show ?case
  proof (cases "t n = BNODE_SPLIT")
    case False
    have "all_free (t(n := b)) (left_of n) k = all_free t (left_of n) k"
      "all_free (t(n := b)) (right_of n) k = all_free t (right_of n) k" for b
      by (simp_all add: all_free_cong [OF same_below_upd(1)] all_free_cong [OF same_below_upd(2)])
    then show ?thesis
      using False n Suc.prems(2)
      by (cases "t n") (simp_all add: free_ok_def buddy_free_node.simps [of c t n])
  next
    case True
    define t1 where "t1 =
      (if x < off + ?m * 2 ^ k then buddy_free_node c t (left_of n) (?m * 2 ^ k) off x
       else buddy_free_node c t (right_of n) (?m * 2 ^ k) (off + ?m * 2 ^ k) x)"
    have wl: "wf_node t (left_of n) k" and wr: "wf_node t (right_of n) k"
      using Suc.prems(2) True by simp_all
    have sub: "wf_node t1 (left_of n) k \<and> wf_node t1 (right_of n) k \<and> t1 n = BNODE_SPLIT \<and>
      only_below t t1 n \<and>
      merge (tree_of t1 (left_of n) k) (tree_of t1 (right_of n) k) =
      tfree ?m x off (Suc k) (tree_of t n (Suc k))"
    proof (cases "x < off + ?m * 2 ^ k")
      case c1: True
      then have ok: "free_ok ?m x off k t (left_of n) t1"
        using Suc.IH [OF kids(1) wl, of off] by (simp add: t1_def)
      then have same: "same_below t t1 (right_of n)" "t1 n = BNODE_SPLIT"
        using only_below_other(1) [of t t1 n] True by (auto simp: free_ok_def)
      show ?thesis
        using ok same wr wf_node_cong [OF same(1), of k] tree_of_cong [OF same(1), of k]
          only_below_child(1) [of t t1 n] True c1
        by (simp add: free_ok_def)
    next
      case c2: False
      then have ok: "free_ok ?m x (off + ?m * 2 ^ k) k t (right_of n) t1"
        using Suc.IH [OF kids(2) wr, of "off + ?m * 2 ^ k"] by (simp add: t1_def)
      then have same: "same_below t t1 (left_of n)" "t1 n = BNODE_SPLIT"
        using only_below_other(2) [of t t1 n] True by (auto simp: free_ok_def)
      show ?thesis
        using ok same wl wf_node_cong [OF same(1), of k] tree_of_cong [OF same(1), of k]
          only_below_child(2) [of t t1 n] True c2
        by (simp add: free_ok_def)
    qed
    define t2 where "t2 = (if t1 (left_of n) = BNODE_FREE \<and> t1 (right_of n) = BNODE_FREE
      then t1(n := BNODE_FREE) else t1)"
    have step: "buddy_free_node c t n (?m * 2 ^ Suc k) off x = t2"
      using True n rn sub unfolding t1_def t2_def left_of_def right_of_def
      by (subst buddy_free_node.simps) (simp add: Let_def)
    have "only_below t t2 n"
      using sub only_below_trans [of t t1 n t2] by (simp add: t2_def)
    then show ?thesis
      using coalesce_ok [of t1 n k t2] sub step t2_def by (simp add: free_ok_def)
  qed
qed

subsection \<open>What allocation and release do to the blocks in use\<close>

lemma used_bounds: "p \<in> used m off k T \<Longrightarrow> off \<le> fst p \<and> fst p + snd p \<le> off + m * 2 ^ k"
  by (induction m off k T rule: used.induct) (fastforce simp: algebra_simps)+

lemma talloc_bounds:
  "talloc m r off k T = (Some x, T') \<Longrightarrow> off \<le> x \<and> x + m * 2 ^ r \<le> off + m * 2 ^ k"
proof (induction k arbitrary: off T T')
  case 0
  then show ?case by (cases T) (auto split: if_splits)
next
  case (Suc k)
  obtain L R where h: "halves T = (L, R)" by fastforce
  have k2: "m * 2 ^ Suc k = m * 2 ^ k + m * 2 ^ k" by simp
  show ?case
  proof (cases "T = BUsed \<or> Suc k < r \<or> (Suc k = r \<and> T = BFree)")
    case True
    then show ?thesis using Suc.prems by (cases T) auto
  next
    case False
    obtain o1 L' where a1: "talloc m r off k L = (o1, L')" by fastforce
    obtain o2 R' where a2: "talloc m r (off + m * 2 ^ k) k R = (o2, R')" by fastforce
    have "o1 = Some x \<or> (o1 = None \<and> o2 = Some x)"
      using Suc.prems False h a1 a2 by (cases T) (auto split: option.splits)
    then show ?thesis
      using Suc.IH [of off L L'] Suc.IH [of "off + m * 2 ^ k" R R'] a1 a2 k2 by auto
  qed
qed

lemma used_pos: "p \<in> used m off k T \<Longrightarrow> 0 < m \<Longrightarrow> 0 < snd p"
  by (induction m off k T rule: used.induct) auto

lemma talloc_None:
  "tree_ok k T \<Longrightarrow> fst (talloc m r off k T) = None \<longleftrightarrow> \<not> has_free r k T"
proof (induction k arbitrary: off T)
  case 0
  then show ?case by (cases T) auto
next
  case (Suc k)
  obtain L R where h: "halves T = (L, R)" by fastforce
  show ?case
  proof (cases "T = BUsed \<or> Suc k < r \<or> (Suc k = r \<and> T = BFree)")
    case True
    have "has_free r j U \<Longrightarrow> r \<le> j" for j U
      by (induction r j U rule: has_free.induct) auto
    then show ?thesis using Suc.prems True by (cases T) force+
  next
    case False
    have ok: "tree_ok k L" "tree_ok k R" using tree_ok_halves [OF Suc.prems h] by auto
    have "has_free r (Suc k) T \<longleftrightarrow> has_free r k L \<or> has_free r k R"
      using h False by (cases T) auto
    then show ?thesis
      using talloc_step [OF _ _ _ h, of k r m off] False Suc.IH [OF ok(1), of off]
        Suc.IH [OF ok(2), of "off + m * 2 ^ k"]
      by (auto split: option.split prod.split)
  qed
qed

lemma talloc_None_same: "talloc m r off k T = (None, T') \<Longrightarrow> tree_ok k T \<Longrightarrow> T' = T"
proof (induction k arbitrary: off T T')
  case 0
  then show ?case by (cases T) (auto split: if_splits)
next
  case (Suc k)
  obtain L R where h: "halves T = (L, R)" by fastforce
  show ?case
  proof (cases "T = BUsed \<or> Suc k < r \<or> (Suc k = r \<and> T = BFree)")
    case True
    then show ?thesis using Suc.prems by (cases T) auto
  next
    case False
    have ok: "tree_ok k L" "tree_ok k R" using tree_ok_halves [OF Suc.prems(2) h] by auto
    have "\<not> has_free r (Suc k) T"
      using talloc_None [OF Suc.prems(2), of m r off] Suc.prems(1) by simp
    then have split: "T = BSplit L R" using h False by (cases T) auto
    show ?thesis
      using talloc_step [OF _ _ _ h, of k r m off] False Suc.prems(1) Suc.IH ok split
      by (fastforce split: option.splits prod.splits)
  qed
qed

lemma talloc_Some:
  assumes "talloc m r off k T = (Some x, T')" and "tree_ok k T"
  shows "used m off k T' = insert (x, m * 2 ^ r) (used m off k T) \<and>
         (\<forall>p \<in> used m off k T. disjoint_blocks p (x, m * 2 ^ r))"
  using assms
proof (induction k arbitrary: off T T')
  case 0
  then show ?case by (cases T) (auto split: if_splits)
next
  case (Suc k)
  obtain L R where h: "halves T = (L, R)" by fastforce
  show ?case
  proof (cases "T = BUsed \<or> Suc k < r \<or> (Suc k = r \<and> T = BFree)")
    case True
    then show ?thesis using Suc.prems by (cases T) auto
  next
    case False
    have ok: "tree_ok k L" "tree_ok k R" using tree_ok_halves [OF Suc.prems(2) h] by auto
    have uT: "used m off (Suc k) T = used m off k L \<union> used m (off + m * 2 ^ k) k R"
      using h False by (cases T) auto
    obtain o1 L' where a1: "talloc m r off k L = (o1, L')" by fastforce
    obtain o2 R' where a2: "talloc m r (off + m * 2 ^ k) k R = (o2, R')" by fastforce
    note step = talloc_step [OF _ _ _ h, of k r m off]
    show ?thesis
    proof (cases o1)
      case (Some y)
      then have "T' = BSplit L' R" "y = x" using step Suc.prems(1) False a1 by auto
      moreover have "disjoint_blocks p (x, m * 2 ^ r)" if "p \<in> used m (off + m * 2 ^ k) k R" for p
        using used_bounds [OF that] talloc_bounds [of m r off k L x L'] a1 Some \<open>y = x\<close>
        by (auto simp: disjoint_blocks_def)
      ultimately show ?thesis using Suc.IH [of off L L'] a1 Some ok uT by auto
    next
      case None
      then have T': "T' = BSplit L' R'" "o2 = Some x" using step Suc.prems(1) False a1 a2 by auto
      have "L' = L" using a1 None talloc_None_same ok by blast
      moreover have "disjoint_blocks p (x, m * 2 ^ r)" if "p \<in> used m off k L" for p
        using used_bounds [OF that] talloc_bounds [of m r "off + m * 2 ^ k" k R x R'] a2 T'
        by (auto simp: disjoint_blocks_def)
      ultimately show ?thesis using Suc.IH [of "off + m * 2 ^ k" R R'] a2 T' ok uT by auto
    qed
  qed
qed

lemma talloc_aligned:
  "talloc m r off k T = (Some x, T') \<Longrightarrow> off mod (m * 2 ^ k) = 0 \<Longrightarrow> x mod (m * 2 ^ r) = 0"
proof (induction k arbitrary: off T T')
  case 0
  then show ?case by (cases T) (auto split: if_splits)
next
  case (Suc k)
  obtain L R where h: "halves T = (L, R)" by fastforce
  show ?case
  proof (cases "T = BUsed \<or> Suc k < r \<or> (Suc k = r \<and> T = BFree)")
    case True
    then show ?thesis using Suc.prems by (cases T) auto
  next
    case False
    have "m * 2 ^ k dvd m * 2 ^ Suc k" by simp
    then have dvd: "m * 2 ^ k dvd off" using Suc.prems(2) mod_0_imp_dvd dvd_trans by blast
    obtain o1 L' where a1: "talloc m r off k L = (o1, L')" by fastforce
    obtain o2 R' where a2: "talloc m r (off + m * 2 ^ k) k R = (o2, R')" by fastforce
    have "o1 = Some x \<or> o2 = Some x"
      using talloc_step [OF _ _ _ h, of k r m off] Suc.prems(1) False a1 a2
      by (auto split: option.splits)
    moreover have "off mod (m * 2 ^ k) = 0" "(off + m * 2 ^ k) mod (m * 2 ^ k) = 0"
      using dvd by (simp_all only: mod_add_self2 dvd_imp_mod_0)
    ultimately show ?thesis
      using Suc.IH [of off L L'] Suc.IH [of "off + m * 2 ^ k" R R'] a1 a2
      by (elim disjE) simp_all
  qed
qed

lemma tfree_other:
  "tree_ok k T \<Longrightarrow> (\<And>s. (x, s) \<notin> used m off k T) \<Longrightarrow> tfree m x off k T = T"
  by (induction m x off k T rule: tfree.induct) (auto simp: merge_eq)

lemma tfree_used:
  "tree_ok k T \<Longrightarrow> 0 < m \<Longrightarrow> (x, s) \<in> used m off k T \<Longrightarrow>
   used m off k (tfree m x off k T) = used m off k T - {(x, s)}"
proof (induction m x off k T rule: tfree.induct)
  case (4 m x off k L R)
  have merge: "used m off (Suc k) (merge A B) = used m off k A \<union> used m (off + m * 2 ^ k) k B"
    for A B by (simp add: merge_eq)
  show ?case
  proof (cases "x < off + m * 2 ^ k")
    case True
    then have "(x, s') \<notin> used m (off + m * 2 ^ k) k R" for s'
      using used_bounds by fastforce
    then show ?thesis using "4.IH"(1) "4.prems" True by (auto simp: merge)
  next
    case False
    have "(x, s') \<notin> used m off k L" if "0 < s'" for s'
      using used_bounds [of "(x, s')" m off k L] False that by auto
    moreover have "0 < s" using used_pos [OF "4.prems"(3,2)] by simp
    ultimately have "(x, s) \<notin> used m off k L" by blast
    then show ?thesis using "4.IH"(2) "4.prems" False by (auto simp: merge)
  qed
qed auto

lemma tfree_talloc:
  "talloc m r off k T = (Some x, T') \<Longrightarrow> tree_ok k T \<Longrightarrow> 0 < m \<Longrightarrow> tfree m x off k T' = T"
proof (induction k arbitrary: off T T')
  case 0
  then show ?case by (cases T) (auto split: if_splits)
next
  case (Suc k)
  obtain L R where h: "halves T = (L, R)" by fastforce
  show ?case
  proof (cases "T = BUsed \<or> Suc k < r \<or> (Suc k = r \<and> T = BFree)")
    case True
    then show ?thesis using Suc.prems by (cases T) auto
  next
    case False
    have ok: "tree_ok k L" "tree_ok k R" using tree_ok_halves [OF Suc.prems(2) h] by auto
    have T: "T = merge L R" using h Suc.prems(2) False by (cases T) (auto simp: merge_eq)
    obtain o1 L' where a1: "talloc m r off k L = (o1, L')" by fastforce
    obtain o2 R' where a2: "talloc m r (off + m * 2 ^ k) k R = (o2, R')" by fastforce
    note step = talloc_step [OF _ _ _ h, of k r m off]
    have pos: "0 < m * 2 ^ r" using Suc.prems(3) by simp
    show ?thesis
    proof (cases o1)
      case (Some y)
      then have "T' = BSplit L' R" "y = x" using step Suc.prems(1) False a1 by auto
      moreover have "x + m * 2 ^ r \<le> off + m * 2 ^ k"
        using talloc_bounds [of m r off k L x L'] a1 Some \<open>y = x\<close> by simp
      then have "x < off + m * 2 ^ k" using pos by linarith
      ultimately show ?thesis using Suc.IH [of off L L'] a1 Some ok T Suc.prems(3) by simp
    next
      case None
      then have T': "T' = BSplit L' R'" "o2 = Some x" using step Suc.prems(1) False a1 a2 by auto
      moreover have "L' = L" using a1 None talloc_None_same ok by blast
      moreover have "\<not> x < off + m * 2 ^ k"
        using talloc_bounds [of m r "off + m * 2 ^ k" k R x R'] a2 T' by auto
      ultimately show ?thesis
        using Suc.IH [of "off + m * 2 ^ k" R R'] a2 ok T Suc.prems(3) by simp
    qed
  qed
qed

subsection \<open>Rounding up to a power of two\<close>

lemma next_pow2_loop_returns:
  "unat p = 2 ^ i \<Longrightarrow> unat x \<le> 2 ^ (i + d) \<Longrightarrow> i + d < 64 \<Longrightarrow>
   \<exists>j \<le> d. next_pow2_loop p x = Some (of_nat (2 ^ (i + j))) \<and> unat x \<le> 2 ^ (i + j) \<and>
     (0 < j \<longrightarrow> 2 ^ (i + j) < 2 * unat x)"
proof (induction d arbitrary: p i)
  case 0
  then have "\<not> p < x" by (simp add: word_less_nat_alt)
  moreover have "p = of_nat (2 ^ i)" using 0(1) by (rule word_of_nat_unat)
  ultimately show ?case using 0 by (simp add: next_pow2_loop.simps)
next
  case (Suc d)
  show ?case
  proof (cases "p < x")
    case False
    moreover have "p = of_nat (2 ^ i)" using Suc.prems(1) by (rule word_of_nat_unat)
    ultimately show ?thesis using Suc.prems
      by (intro exI [of _ 0]) (simp add: next_pow2_loop.simps word_less_nat_alt)
  next
    case True
    have small: "(2::nat) ^ Suc i < 2 ^ 64"
      using Suc.prems(3) by (intro power_strict_increasing) simp_all
    have "unat (push_bit 1 p) = 2 ^ Suc i"
      using small Suc.prems(1) by (simp add: push_bit_eq_mult unat_word_ariths)
    then obtain j where "j \<le> d" and
      j: "next_pow2_loop (push_bit 1 p) x = Some (of_nat (2 ^ (Suc i + j)))"
      "unat x \<le> 2 ^ (Suc i + j)" "0 < j \<longrightarrow> 2 ^ (Suc i + j) < 2 * unat x"
      using Suc.IH [of "push_bit 1 p" "Suc i"] Suc.prems by auto
    have "2 ^ i < unat x" using True Suc.prems(1) by (simp add: word_less_nat_alt)
    then show ?thesis using j \<open>j \<le> d\<close> True
      by (intro exI [of _ "Suc j"]) (cases j, auto simp: next_pow2_loop.simps)
  qed
qed

lemma next_pow2_loop_diverges:
  assumes ret: "next_pow2_loop p x = Some y" and "p = 0 \<or> (\<exists>i < 64. unat p = 2 ^ i)"
  shows "unat x \<le> 2 ^ 63"
proof -
  have "(p = 0 \<or> (\<exists>i < 64. unat p = 2 ^ i)) \<longrightarrow> unat x \<le> 2 ^ 63"
  proof (rule next_pow2_loop.raw_induct
      [where P = "\<lambda>p x y. (p = 0 \<or> (\<exists>i < 64. unat p = 2 ^ i)) \<longrightarrow> unat x \<le> 2 ^ 63"
        and xa = "(p, x)" and y = y, unfolded prod.case, OF _ ret])
    fix f :: "u64 \<Rightarrow> u64 \<Rightarrow> u64 option" and p x y :: u64
    assume IH: "\<And>p x y. f p x = Some y \<Longrightarrow> (p = 0 \<or> (\<exists>i < 64. unat p = 2 ^ i)) \<longrightarrow> unat x \<le> 2 ^ 63"
      and eq: "(if p < x then f (push_bit 1 p) x else Some p) = Some y"
    show "(p = 0 \<or> (\<exists>i < 64. unat p = 2 ^ i)) \<longrightarrow> unat x \<le> 2 ^ 63"
    proof
      assume p: "p = 0 \<or> (\<exists>i < 64. unat p = 2 ^ i)"
      show "unat x \<le> 2 ^ 63"
      proof (cases "p < x")
        case True
        have "push_bit 1 p = 0 \<or> (\<exists>i < 64. unat (push_bit 1 p) = 2 ^ i)"
          using p
        proof
          assume "\<exists>i < 64. unat p = 2 ^ i"
          then obtain i where i: "i < 64" "unat p = 2 ^ i" by blast
          have u: "unat (push_bit 1 p) = (2 * 2 ^ i) mod 2 ^ 64"
            using i by (simp add: push_bit_eq_mult unat_word_ariths mult.commute)
          show ?thesis
          proof (cases "i = 63")
            case True
            then have "unat (push_bit 1 p) = 0" using u by simp
            then show ?thesis by (simp add: unat_eq_zero)
          next
            case False
            then have "(2::nat) ^ Suc i < 2 ^ 64"
              using i by (intro power_strict_increasing) simp_all
            then have "unat (push_bit 1 p) = 2 ^ Suc i" using u by simp
            then show ?thesis using False i by (intro disjI2 exI [of _ "Suc i"]) simp
          qed
        qed simp
        moreover have "f (push_bit 1 p) x = Some y" using eq True by simp
        ultimately show ?thesis using IH by blast
      next
        case False
        have "unat p \<le> 2 ^ 63"
          using p
        proof
          assume "\<exists>i < 64. unat p = 2 ^ i"
          then obtain i where i: "i < 64" "unat p = 2 ^ i" by blast
          have "(2::nat) ^ i \<le> 2 ^ 63" using i(1) by (intro power_increasing) simp_all
          then show ?thesis using i(2) by simp
        qed simp
        then show ?thesis using False by (simp add: word_less_nat_alt)
      qed
    qed
  qed
  then show ?thesis using assms(2) by blast
qed

lemma buddy_next_pow2_in_pool:
  assumes "wf_cfg c a h" and "unat sz \<le> POOL_SIZE c"
  shows "\<exists>r \<le> h. buddy_next_pow2 c sz = Some (of_nat (MIN_BLOCK c * 2 ^ r)) \<and>
    unat (of_nat (MIN_BLOCK c * 2 ^ r) :: u64) = MIN_BLOCK c * 2 ^ r \<and>
    unat sz \<le> MIN_BLOCK c * 2 ^ r \<and> (0 < r \<longrightarrow> MIN_BLOCK c * 2 ^ r < 2 * unat sz)"
proof -
  have c: "MIN_BLOCK c = 2 ^ a" "POOL_SIZE c = 2 ^ (a + h)" "a + h < 64"
    using assms(1) by (simp_all add: wf_cfg_def power_add)
  have small: "j \<le> h \<Longrightarrow> unat (of_nat (2 ^ (a + j)) :: u64) = 2 ^ (a + j)" for j
    using c(3) by (intro unat_u64_of_nat power_strict_increasing) simp_all
  have "unat (of_nat (MIN_BLOCK c) :: u64) = 2 ^ a" using small [of 0] c by simp
  then obtain j where "j \<le> h" and
    "next_pow2_loop (of_nat (MIN_BLOCK c)) sz = Some (of_nat (2 ^ (a + j)))"
    "unat sz \<le> 2 ^ (a + j)" "0 < j \<longrightarrow> 2 ^ (a + j) < 2 * unat sz"
    using next_pow2_loop_returns [of "of_nat (MIN_BLOCK c)" a sz h] assms(2) c by auto
  then show ?thesis
    using small [of j] c(1)
    by (intro exI [of _ j]) (simp add: buddy_next_pow2_def power_add)
qed

subsection \<open>The pool as a whole\<close>

definition blocks :: "pool_cfg \<Rightarrow> nat \<Rightarrow> buddy_tree \<Rightarrow> (nat \<times> nat) set" where
  "blocks c h t = used (MIN_BLOCK c) 0 h (tree_of t 0 h)"

definition free_block_of :: "pool_cfg \<Rightarrow> nat \<Rightarrow> buddy_tree \<Rightarrow> nat \<Rightarrow> bool" where
  "free_block_of c h t len \<longleftrightarrow>
     (\<exists>r \<le> h. len \<le> MIN_BLOCK c * 2 ^ r \<and> has_free r h (tree_of t 0 h))"

lemma pool_refines:
  assumes "wf_cfg c a h" and "wf_tree t h"
  shows "alloc_ok (MIN_BLOCK c) r 0 h t 0 (buddy_alloc_node c t 0 (POOL_SIZE c) 0 (MIN_BLOCK c * 2 ^ r))"
    and "free_ok (MIN_BLOCK c) x 0 h t 0 (buddy_free_node c t 0 (POOL_SIZE c) 0 x)"
proof -
  have "POOL_SIZE c = MIN_BLOCK c * 2 ^ h" using assms(1) by (simp add: wf_cfg_def)
  then show "alloc_ok (MIN_BLOCK c) r 0 h t 0 (buddy_alloc_node c t 0 (POOL_SIZE c) 0 (MIN_BLOCK c * 2 ^ r))"
    and "free_ok (MIN_BLOCK c) x 0 h t 0 (buddy_free_node c t 0 (POOL_SIZE c) 0 x)"
    using alloc_node_refines [OF assms(1) at_height_root] free_node_refines [OF assms(1) at_height_root]
      assms(2) by (simp_all add: wf_tree_def)
qed

lemma buddy_alloc_cases:
  assumes "wf_cfg c a h" and "0 < unat sz" and "unat sz \<le> POOL_SIZE c"
  obtains r where "r \<le> h" and "unat sz \<le> MIN_BLOCK c * 2 ^ r"
    and "0 < r \<longrightarrow> MIN_BLOCK c * 2 ^ r < 2 * unat sz"
    and "buddy_alloc c t sz = Some (buddy_alloc_node c t 0 (POOL_SIZE c) 0 (MIN_BLOCK c * 2 ^ r))"
proof -
  obtain r where r: "r \<le> h" "buddy_next_pow2 c sz = Some (of_nat (MIN_BLOCK c * 2 ^ r))"
    "unat (of_nat (MIN_BLOCK c * 2 ^ r) :: u64) = MIN_BLOCK c * 2 ^ r"
    "unat sz \<le> MIN_BLOCK c * 2 ^ r" "0 < r \<longrightarrow> MIN_BLOCK c * 2 ^ r < 2 * unat sz"
    using buddy_next_pow2_in_pool [OF assms(1,3)] by blast
  then have "buddy_alloc c t sz = Some (buddy_alloc_node c t 0 (POOL_SIZE c) 0 (MIN_BLOCK c * 2 ^ r))"
    using assms(2,3) by (simp add: buddy_alloc_def unat_gt_0 del: of_nat_mult of_nat_power)
  then show thesis using r that by blast
qed

lemma buddy_alloc_returns:
  assumes "wf_cfg c a h"
  shows "\<exists>r. buddy_alloc c t sz = Some r"
proof (cases "0 < unat sz \<and> unat sz \<le> POOL_SIZE c")
  case True
  then show ?thesis using buddy_alloc_cases [OF assms, of sz t] by metis
next
  case False
  then show ?thesis by (auto simp: buddy_alloc_def unat_gt_0)
qed

lemma tree_ok_used_empty: "tree_ok k T \<Longrightarrow> used m off k T = {} \<Longrightarrow> T = BFree"
  by (induction m off k T rule: used.induct) auto

lemma region_has_free:
  assumes "tree_ok k T" and "0 < m" and "r \<le> k" and "i < 2 ^ (k - r)"
    and "\<forall>p \<in> used m off k T. disjoint_blocks p (off + i * (m * 2 ^ r), m * 2 ^ r)"
  shows "has_free r k T"
  using assms
proof (induction k arbitrary: off i T)
  case 0
  then show ?case by (cases T) (auto simp: disjoint_blocks_def)
next
  case (Suc k)
  show ?case
  proof (cases T)
    case BFree
    then show ?thesis using Suc.prems by simp
  next
    case BUsed
    have "i * 2 ^ r < 2 ^ (Suc k - r) * 2 ^ r" using Suc.prems(4) by simp
    also have "\<dots> = 2 ^ Suc k" using Suc.prems(3) by (simp flip: power_add)
    finally have "m * (i * 2 ^ r) < m * 2 ^ Suc k" using Suc.prems(2) by (simp only: mult_less_cancel1)
    then show ?thesis using Suc.prems(2,5) BUsed by (auto simp: disjoint_blocks_def algebra_simps)
  next
    case (BSplit L R)
    then have ok: "tree_ok k L" "tree_ok k R" "\<not> (L = BFree \<and> R = BFree)"
      using Suc.prems(1) by simp_all
    show ?thesis
    proof (cases "r = Suc k")
      case True
      then obtain p where p: "p \<in> used m off k L \<or> p \<in> used m (off + m * 2 ^ k) k R"
        using ok tree_ok_used_empty by (meson ex_in_conv)
      then have pT: "p \<in> used m off (Suc k) T" using BSplit by auto
      moreover have "0 < snd p" by (rule used_pos [OF pT Suc.prems(2)])
      moreover have "i = 0" using Suc.prems(4) True by simp
      ultimately show ?thesis
        using used_bounds [OF pT] Suc.prems(5) True by (auto simp: disjoint_blocks_def)
    next
      case False
      then have r: "r \<le> k" using Suc.prems(3) by simp
      then have half: "(2::nat) ^ (Suc k - r) = 2 * 2 ^ (k - r)" by (simp add: Suc_diff_le)
      have pk: "(2::nat) ^ k = 2 ^ (k - r) * 2 ^ r" using r by (simp flip: power_add)
      show ?thesis
      proof (cases "i < 2 ^ (k - r)")
        case True
        then show ?thesis using Suc.IH [OF ok(1) Suc.prems(2) r True, of off] Suc.prems(5) BSplit by auto
      next
        case False
        define j where "j = i - 2 ^ (k - r)"
        have i: "i = 2 ^ (k - r) + j" using False by (simp add: j_def)
        have "off + i * (m * 2 ^ r) = off + m * 2 ^ k + j * (m * 2 ^ r)"
          unfolding pk i by (simp add: algebra_simps)
        then have "\<forall>p \<in> used m (off + m * 2 ^ k) k R.
            disjoint_blocks p (off + m * 2 ^ k + j * (m * 2 ^ r), m * 2 ^ r)"
          using Suc.prems(5) BSplit by (simp only: used.simps) blast
        moreover have "j < 2 ^ (k - r)" using Suc.prems(4) half i by simp
        ultimately have "has_free r k R" by (intro Suc.IH [OF ok(2) Suc.prems(2) r])
        then show ?thesis using BSplit by simp
      qed
    qed
  qed
qed

lemma used_unique:
  "p \<in> used m off k T \<Longrightarrow> q \<in> used m off k T \<Longrightarrow> fst p = fst q \<Longrightarrow> 0 < m \<Longrightarrow> p = q"
proof (induction m off k T rule: used.induct)
  case (4 m off k L R)
  have "u \<in> used m off k L \<Longrightarrow> fst u < off + m * 2 ^ k"
    and "u \<in> used m (off + m * 2 ^ k) k R \<Longrightarrow> off + m * 2 ^ k \<le> fst u" for u
    using used_bounds [of u m off k L] used_pos [of u m off k L] "4.prems"(4)
      used_bounds [of u m "off + m * 2 ^ k" k R] by linarith+
  then show ?case using "4.prems" "4.IH"(1) "4.IH"(2) [OF _ _ "4.prems"(3,4)]
    by (metis Un_iff not_le used.simps(4))
qed auto

subsection \<open>The array is determined by its tree\<close>

fun subnodes :: "nat \<Rightarrow> nat \<Rightarrow> nat set" where
  "subnodes n 0 = {n}"
| "subnodes n (Suc k) = insert n (subnodes (left_of n) k \<union> subnodes (right_of n) k)"

lemma under_cases:
  assumes "under x n"
  shows "x = n \<or> under x (left_of n) \<or> under x (right_of n)"
proof -
  obtain j where j: "(x + 1) div 2 ^ j = n + 1" using assms by (auto simp: under_def)
  show ?thesis
  proof (cases j)
    case 0
    then show ?thesis using j by simp
  next
    case (Suc i)
    then have "(x + 1) div 2 ^ i div 2 = n + 1" using j by (simp only: div_mult2_eq power_Suc2)
    then have "(x + 1) div 2 ^ i = 2 * n + 1 + 1 \<or> (x + 1) div 2 ^ i = 2 * n + 2 + 1" by linarith
    then show ?thesis unfolding under_def left_of_def right_of_def by blast
  qed
qed

lemma under_subnodes:
  "at_height h n k \<Longrightarrow> under x n \<Longrightarrow> x < 2 * 2 ^ h - 1 \<Longrightarrow> x \<in> subnodes n k"
proof (induction k arbitrary: n)
  case 0
  have "x = n"
  proof (rule ccontr)
    assume "x \<noteq> n"
    then have "2 * n + 1 \<le> x"
      using under_cases [OF 0(2)] under_le by (fastforce simp: left_of_def right_of_def)
    moreover have "2 ^ h \<le> n + 1" using 0(1) by (simp add: at_height_def)
    ultimately show False using 0(3) by linarith
  qed
  then show ?case by simp
next
  case (Suc k)
  then show ?case using under_cases [OF Suc.prems(2)] at_height_children [OF Suc.prems(1)] by auto
qed

lemma all_free_subnodes: "all_free t n k \<Longrightarrow> x \<in> subnodes n k \<Longrightarrow> t x = BNODE_FREE"
  by (induction k arbitrary: n) auto

lemma tree_of_inj:
  "wf_node t n k \<Longrightarrow> wf_node t' n k \<Longrightarrow> tree_of t n k = tree_of t' n k \<Longrightarrow>
   x \<in> subnodes n k \<Longrightarrow> t x = t' x"
proof (induction k arbitrary: n)
  case 0
  then show ?case by (cases "t n"; cases "t' n") auto
next
  case (Suc k)
  have "t n = t' n" using Suc.prems(3) by (cases "t n"; cases "t' n") auto
  show ?case
  proof (cases "t n = BNODE_SPLIT")
    case True
    then show ?thesis using Suc \<open>t n = t' n\<close> by auto
  next
    case False
    then have "all_free t (left_of n) k" "all_free t (right_of n) k"
      "all_free t' (left_of n) k" "all_free t' (right_of n) k"
      using Suc.prems(1,2) \<open>t n = t' n\<close> by (auto split: bnode.splits)
    then show ?thesis
      using Suc.prems(4) \<open>t n = t' n\<close> by (auto simp: all_free_subnodes)
  qed
qed

lemma root_under: "under x 0"
proof -
  have "0 < y \<Longrightarrow> \<exists>j. y div 2 ^ j = (1::nat)" for y
  proof (induction y rule: less_induct)
    case (less y)
    show ?case
    proof (cases "y = 1")
      case True
      then show ?thesis by (intro exI [of _ 0]) simp
    next
      case False
      then obtain j where "y div 2 div 2 ^ j = 1" using less.IH [of "y div 2"] less.prems by auto
      then have "y div 2 ^ Suc j = 1" by (simp only: div_mult2_eq power_Suc)
      then show ?thesis by blast
    qed
  qed
  then show ?thesis by (simp add: under_def)
qed

lemma array_eq:
  assumes "wf_cfg c a h" and "wf_tree t h" and "wf_tree t' h"
    and "tree_of t 0 h = tree_of t' 0 h" and "\<And>x. TREE_NODES c \<le> x \<Longrightarrow> t x = t' x"
  shows "t = t'"
proof
  fix x
  show "t x = t' x"
  proof (cases "TREE_NODES c \<le> x")
    case False
    then have "x \<in> subnodes 0 h"
      using under_subnodes [OF at_height_root root_under] TREE_NODES_wf [OF assms(1)] by simp
    then show ?thesis using tree_of_inj assms(2-4) by (simp add: wf_tree_def)
  qed (rule assms(5))
qed

lemma buddy_alloc_node_above:
  "TREE_NODES c \<le> x \<Longrightarrow> snd (buddy_alloc_node c t n ns off rq) x = t x"
proof (induction c t n ns off rq rule: buddy_alloc_node.induct)
  case (1 c t n ns off rq)
  show ?case
    using 1 by (subst buddy_alloc_node.simps) (auto simp: Let_def split: option.splits prod.splits)
qed

lemma buddy_free_node_above:
  "TREE_NODES c \<le> x \<Longrightarrow> buddy_free_node c t n ns off y x = t x"
proof (induction c t n ns off y rule: buddy_free_node.induct)
  case (1 c t n ns off y)
  show ?case
    using 1 by (subst buddy_free_node.simps) (auto simp: Let_def)
qed

subsection \<open>The pool's guarantees\<close>

text \<open>The search with its endless loop as a fault.\<close>

definition pool_alloc :: "pool_cfg \<Rightarrow> buddy_tree \<Rightarrow> u64 \<Rightarrow> (nat option \<times> buddy_tree) res" where
  "pool_alloc c t sz = (case buddy_alloc c t sz of None \<Rightarrow> Inl Hang | Some r \<Rightarrow> Inr r)"

lemma buddy_alloc_Some_facts:
  assumes "wf_cfg c a h" and "wf_tree t h" and "buddy_alloc c t sz = Some (Some x, t')"
  obtains r where "r \<le> h" and "unat sz \<le> MIN_BLOCK c * 2 ^ r"
    and "0 < r \<longrightarrow> MIN_BLOCK c * 2 ^ r < 2 * unat sz" and "wf_tree t' h"
    and "talloc (MIN_BLOCK c) r 0 h (tree_of t 0 h) = (Some x, tree_of t' 0 h)"
    and "(Some x, t') = buddy_alloc_node c t 0 (POOL_SIZE c) 0 (MIN_BLOCK c * 2 ^ r)"
proof -
  have "0 < unat sz" "unat sz \<le> POOL_SIZE c"
    using assms(3) by (auto simp: buddy_alloc_def unat_gt_0 split: if_splits)
  then obtain r where r: "r \<le> h" "unat sz \<le> MIN_BLOCK c * 2 ^ r"
    "0 < r \<longrightarrow> MIN_BLOCK c * 2 ^ r < 2 * unat sz"
    "(Some x, t') = buddy_alloc_node c t 0 (POOL_SIZE c) 0 (MIN_BLOCK c * 2 ^ r)"
    using buddy_alloc_cases [OF assms(1)] assms(3) by (metis option.inject)
  have "alloc_ok (MIN_BLOCK c) r 0 h t 0 (Some x, t')"
    using pool_refines(1) [OF assms(1,2), of r] by (simp only: r(4))
  then have "wf_tree t' h"
    and "talloc (MIN_BLOCK c) r 0 h (tree_of t 0 h) = (Some x, tree_of t' 0 h)"
    by (simp_all add: alloc_ok_def wf_tree_def)
  then show thesis using r that by blast
qed

lemma buddy_alloc_None_facts:
  assumes "wf_cfg c a h" and "wf_tree t h" and "buddy_alloc c t sz = Some (None, t')"
  shows "t' = t"
proof (cases "sz = 0 \<or> POOL_SIZE c < unat sz")
  case True
  then show ?thesis using assms(3) by (auto simp: buddy_alloc_def)
next
  case False
  then obtain r where r: "(None, t') = buddy_alloc_node c t 0 (POOL_SIZE c) 0 (MIN_BLOCK c * 2 ^ r)"
    using buddy_alloc_cases [OF assms(1), of sz t] assms(3) by (metis linorder_not_less option.inject unat_gt_0)
  have "alloc_ok (MIN_BLOCK c) r 0 h t 0 (None, t')"
    using pool_refines(1) [OF assms(1,2), of r] by (simp only: r)
  then show ?thesis by (simp add: alloc_ok_def)
qed

lemma buddy_free_facts:
  assumes "wf_cfg c a h" and "wf_tree t h"
  shows "wf_tree (buddy_free c lo t p) h"
    and "blocks c h (buddy_free c lo t (Some (lo + x))) =
      (if x < POOL_SIZE c then used (MIN_BLOCK c) 0 h (tfree (MIN_BLOCK c) x 0 h (tree_of t 0 h))
       else blocks c h t)"
  using pool_refines(2) [OF assms] assms(2)
  by (auto simp: buddy_free_def free_ok_def wf_tree_def blocks_def split: option.split)

lemma tree_of_pool_ok: "wf_tree t h \<Longrightarrow> tree_ok h (tree_of t 0 h)"
  unfolding wf_tree_def by (rule tree_of_ok)

lemma blocks_in_pool:
  assumes "wf_cfg c a h" and "(x, len) \<in> blocks c h t"
  shows "x + len \<le> POOL_SIZE c" and "0 < len"
  using used_bounds [of "(x, len)" "MIN_BLOCK c" 0 h "tree_of t 0 h"]
    used_pos [of "(x, len)" "MIN_BLOCK c" 0 h "tree_of t 0 h"] assms
  by (simp_all add: blocks_def wf_cfg_def)

lemma wf_cfg_min: "wf_cfg c a h \<Longrightarrow> 0 < MIN_BLOCK c"
  by (simp add: wf_cfg_def)

lemma blocks_init: "blocks c h buddy_init = {}"
  by (cases h) (simp_all add: blocks_def buddy_init_def)

lemma buddy_alloc_spec:
  assumes "wf_cfg c a h" and "wf_tree t h" and "buddy_alloc c t sz = Some (Some x, t')"
  shows "\<exists>len. unat sz \<le> len \<and> (len = MIN_BLOCK c \<or> len < 2 * unat sz) \<and>
    x + len \<le> POOL_SIZE c \<and> x mod len = 0 \<and>
    (\<forall>p \<in> blocks c h t. disjoint_blocks p (x, len)) \<and>
    blocks c h t' = insert (x, len) (blocks c h t) \<and> wf_tree t' h"
proof -
  obtain r where r: "unat sz \<le> MIN_BLOCK c * 2 ^ r"
    "0 < r \<longrightarrow> MIN_BLOCK c * 2 ^ r < 2 * unat sz" "wf_tree t' h"
    and al: "talloc (MIN_BLOCK c) r 0 h (tree_of t 0 h) = (Some x, tree_of t' 0 h)"
    using buddy_alloc_Some_facts [OF assms] by metis
  note facts = talloc_Some [OF al tree_of_pool_ok [OF assms(2)]]
  have "POOL_SIZE c = MIN_BLOCK c * 2 ^ h" using assms(1) by (simp add: wf_cfg_def)
  then show ?thesis
    using r facts talloc_bounds [OF al] talloc_aligned [OF al]
    by (intro exI [of _ "MIN_BLOCK c * 2 ^ r"]) (cases r, auto simp: blocks_def)
qed

lemma buddy_free_spec:
  assumes "wf_cfg c a h" and "wf_tree t h"
  shows "wf_tree (buddy_free c lo t p) h \<and>
    blocks c h (buddy_free c lo t p) = {b \<in> blocks c h t. p \<noteq> Some (lo + fst b)}"
proof (cases "\<exists>b \<in> blocks c h t. p = Some (lo + fst b)")
  case True
  then obtain x len where x: "(x, len) \<in> blocks c h t" "p = Some (lo + x)" by force
  have rem: "blocks c h (buddy_free c lo t p) = blocks c h t - {(x, len)}"
    using buddy_free_facts(2) [OF assms, of lo x] x blocks_in_pool [OF assms(1) x(1)]
      tfree_used [OF tree_of_pool_ok [OF assms(2)] wf_cfg_min [OF assms(1)], of x len 0]
    by (simp add: blocks_def)
  have uniq: "b = (x, len)" if "b \<in> blocks c h t" "fst b = x" for b
    using that x(1) unfolding blocks_def
    by (intro used_unique [OF _ _ _ wf_cfg_min [OF assms(1)]]) simp_all
  have eq: "blocks c h t - {(x, len)} = {b \<in> blocks c h t. p \<noteq> Some (lo + fst b)}"
  proof (intro set_eqI iffI)
    fix b assume "b \<in> blocks c h t - {(x, len)}"
    then show "b \<in> {b \<in> blocks c h t. p \<noteq> Some (lo + fst b)}" using uniq [of b] x(2) by auto
  qed (use x(2) in auto)
  show ?thesis unfolding rem eq [symmetric] using buddy_free_facts(1) [OF assms] by simp
next
  case False
  have "blocks c h (buddy_free c lo t p) = blocks c h t"
  proof (cases "\<exists>x. p = Some (lo + x)")
    case True
    then obtain x where x: "p = Some (lo + x)" by blast
    then have "(x, s) \<notin> blocks c h t" for s using False by force
    then show ?thesis
      using buddy_free_facts(2) [OF assms, of lo x] x
        tfree_other [OF tree_of_pool_ok [OF assms(2)], of x "MIN_BLOCK c" 0]
      by (simp add: blocks_def)
  next
    case False
    then have "buddy_free c lo t p = t"
      by (cases p) (auto simp: buddy_free_def, metis le_add_diff_inverse not_less)
    then show ?thesis by simp
  qed
  then show ?thesis using buddy_free_facts(1) [OF assms] False by auto
qed

subsection \<open>The pool implements the allocator contract\<close>

interpretation buddy: block_allocator "\<lambda>t. \<exists>a. wf_cfg c a h \<and> wf_tree t h" "blocks c h" "\<lambda>_. True"
  "pool_alloc c" "\<lambda>t (x, n). buddy_free c lo t (Some (lo + x))" for c h lo
proof unfold_locales
  fix t n p t'
  assume inv: "\<exists>a. wf_cfg c a h \<and> wf_tree t h"
  then obtain a where w: "wf_cfg c a h" "wf_tree t h" by blast
  show "\<exists>a. wf_cfg c a h \<and> wf_tree t' h" if "pool_alloc c t n = Inr (p, t')"
    using that w buddy_alloc_spec [OF w, of n] buddy_alloc_None_facts [OF w, of n]
    by (cases p) (auto simp: pool_alloc_def split: option.splits)
  show "\<exists>len. unat n \<le> len \<and> 0 < len \<and> blocks c h t' = insert (x, len) (blocks c h t) \<and> (\<forall>p\<in>blocks c h t. disjoint_blocks (x, len) p)"
    if "pool_alloc c t n = Inr (Some x, t')" for x
  proof -
    have al: "buddy_alloc c t n = Some (Some x, t')" using that by (auto simp: pool_alloc_def split: option.splits)
    obtain len where len: "unat n \<le> len" "\<forall>p\<in>blocks c h t. disjoint_blocks p (x, len)" "blocks c h t' = insert (x, len) (blocks c h t)"
      using buddy_alloc_spec [OF w al] by blast
    have "0 < len" using blocks_in_pool(2) [OF w(1), of x len t'] len(3) by simp
    then show ?thesis using len disjoint_blocks_sym by blast
  qed
  show "blocks c h t' = blocks c h t" if "pool_alloc c t n = Inr (None, t')"
    using buddy_alloc_None_facts [OF w, of n t'] that by (auto simp: pool_alloc_def split: option.splits)
  show "\<exists>a. wf_cfg c a h \<and> wf_tree (case k of (x, n) \<Rightarrow> buddy_free c lo t (Some (lo + x))) h" for k
    using buddy_free_spec [OF w] w(1) by (auto split: prod.split)
  show "{b \<in> blocks c h t. fst b \<noteq> fst k} \<subseteq> blocks c h (case k of (x, n) \<Rightarrow> buddy_free c lo t (Some (lo + x)))" for k
    using buddy_free_spec [OF w] by (auto split: prod.split)
qed

subsection \<open>Properties\<close>

text \<open>C29: A block handed out by \<open>buddy_alloc\<close> is at least as long as asked for and less than
  twice that (or the smallest block), lies inside the pool, is aligned to its own length and
  overlaps none of the blocks in use; it becomes the one new block in use.\<close>

theorem buddy_alloc_block:
  assumes "wf_cfg c a h" and "wf_tree t h" and "buddy_alloc c t sz = Some (Some x, t')"
  shows "\<exists>len. unat sz \<le> len \<and> (len = MIN_BLOCK c \<or> len < 2 * unat sz) \<and>
    x + len \<le> POOL_SIZE c \<and> x mod len = 0 \<and>
    (\<forall>p \<in> blocks c h t. disjoint_blocks p (x, len)) \<and>
    blocks c h t' = insert (x, len) (blocks c h t) \<and> wf_tree t' h"
  by (rule buddy_alloc_spec [OF assms])

theorem buddy_alloc_block_witness:
  "\<exists>x t'. buddy_alloc cfg_4KB buddy_init 100 = Some (Some x, t') \<and> wf_tree t' 8 \<and>
     (\<exists>len. 100 \<le> len \<and> len < 200 \<and> blocks cfg_4KB 8 t' = {(x, len)})"
proof -
  have "\<exists>t'. buddy_alloc cfg_4KB buddy_init 100 = Some (Some 0, t')"
    by (simp add: buddy_alloc_def buddy_next_pow2_def next_pow2_loop.simps buddy_alloc_node.simps
        cfg_4KB_def TREE_NODES_def NUM_LEAVES_def buddy_init_def Let_def)
  then obtain t' where "buddy_alloc cfg_4KB buddy_init 100 = Some (Some 0, t')" by blast
  from this buddy_alloc_block [OF wf_cfg_4KB wf_tree_init this] show ?thesis
    by (auto simp: blocks_init cfg_4KB_def)
qed

text \<open>C38: When \<open>buddy_alloc\<close> returns NULL for a size that is not zero, the tree is unchanged and
  no aligned region of the pool that is big enough is free: each overlaps a block in use. So a
  request fails only for lack of space, never because free halves were left unmerged.\<close>

theorem buddy_alloc_complete:
  assumes "wf_cfg c a h" and "wf_tree t h" and "buddy_alloc c t sz = Some (None, t')"
    and "0 < unat sz" and "unat sz \<le> 2 ^ k * MIN_BLOCK c" and "k \<le> h"
    and "i < 2 ^ (h - k)"
  shows "t' = t \<and> (\<exists>p \<in> blocks c h t. \<not> disjoint_blocks p (i * (MIN_BLOCK c * 2 ^ k), MIN_BLOCK c * 2 ^ k))"
proof -
  have "MIN_BLOCK c * 2 ^ k \<le> POOL_SIZE c" using assms(1,6) by (simp add: wf_cfg_def)
  then have "unat sz \<le> POOL_SIZE c" using assms(5) by (simp add: mult.commute)
  then obtain r where r: "r \<le> h" "0 < r \<longrightarrow> MIN_BLOCK c * 2 ^ r < 2 * unat sz"
    "(None, t') = buddy_alloc_node c t 0 (POOL_SIZE c) 0 (MIN_BLOCK c * 2 ^ r)"
    using buddy_alloc_cases [OF assms(1,4)] assms(3) by (metis option.inject)
  have "r \<le> k"
  proof (rule ccontr)
    assume "\<not> r \<le> k"
    then have "(2::nat) * 2 ^ k \<le> 2 ^ r" by (metis not_less_eq_eq power_Suc power_increasing one_le_numeral)
    then have "MIN_BLOCK c * (2 * 2 ^ k) \<le> MIN_BLOCK c * 2 ^ r" by (rule mult_le_mono2)
    moreover have "MIN_BLOCK c * 2 ^ r < 2 * unat sz" using r(2) \<open>\<not> r \<le> k\<close> by simp
    moreover have "unat sz \<le> MIN_BLOCK c * 2 ^ k" using assms(5) by (simp only: mult.commute)
    ultimately show False by linarith
  qed
  have "alloc_ok (MIN_BLOCK c) r 0 h t 0 (None, t')"
    using pool_refines(1) [OF assms(1,2), of r] by (simp only: r(3))
  then have al: "talloc (MIN_BLOCK c) r 0 h (tree_of t 0 h) = (None, tree_of t' 0 h)" and "t' = t"
    by (simp_all add: alloc_ok_def)
  then have "\<not> has_free r h (tree_of t 0 h)"
    using talloc_None [OF tree_of_pool_ok [OF assms(2)]] by (metis fst_conv)
  moreover have "has_free k h T \<Longrightarrow> has_free r h T" for h T
    using \<open>r \<le> k\<close> by (induction k h T rule: has_free.induct) auto
  ultimately have "\<not> has_free k h (tree_of t 0 h)" by blast
  then show ?thesis
    using region_has_free [OF tree_of_pool_ok [OF assms(2)] wf_cfg_min [OF assms(1)] assms(6,7), of 0]
      \<open>t' = t\<close> by (auto simp: blocks_def)
qed

theorem buddy_alloc_complete_witness:
  "\<exists>t. wf_tree t 8 \<and> buddy_alloc cfg_4KB t 1 = Some (None, t) \<and> blocks cfg_4KB 8 t \<noteq> {}"
proof -
  have "\<exists>t'. buddy_alloc cfg_4KB buddy_init 4096 = Some (Some 0, t')"
    by (simp add: buddy_alloc_def buddy_next_pow2_def next_pow2_loop.simps buddy_alloc_node.simps
        cfg_4KB_def TREE_NODES_def NUM_LEAVES_def buddy_init_def Let_def)
  then obtain t' where t': "buddy_alloc cfg_4KB buddy_init 4096 = Some (Some 0, t')" by blast
  then have "t' 0 = BNODE_USED"
    by (simp add: buddy_alloc_def buddy_next_pow2_def next_pow2_loop.simps buddy_alloc_node.simps
        cfg_4KB_def TREE_NODES_def NUM_LEAVES_def buddy_init_def Let_def) auto
  then have none: "buddy_alloc cfg_4KB t' 1 = Some (None, t')"
    by (simp add: buddy_alloc_def buddy_next_pow2_def next_pow2_loop.simps buddy_alloc_node.simps
        cfg_4KB_def TREE_NODES_def NUM_LEAVES_def)
  have wf: "wf_tree t' 8" using buddy_alloc_spec [OF wf_cfg_4KB wf_tree_init t'] by blast
  have "\<exists>p \<in> blocks cfg_4KB 8 t'. \<not> disjoint_blocks p (0, 16)"
    using buddy_alloc_complete [OF wf_cfg_4KB wf none, of 0 0] by (simp add: cfg_4KB_def)
  then show ?thesis using wf none by blast
qed

text \<open>\<open>buddy_free\<close> releases the block that starts at the pointer and nothing else: NULL,
  addresses outside the pool, pointers into the middle of a block and blocks already free
  leave every block in use.\<close>

lemma buddy_free_block:
  assumes "wf_cfg c a h" and "wf_tree t h"
  shows "wf_tree (buddy_free c lo t p) h \<and>
    blocks c h (buddy_free c lo t p) = {b \<in> blocks c h t. p \<noteq> Some (lo + fst b)}"
  by (rule buddy_free_spec [OF assms])

lemma buddy_free_block_witness:
  "blocks cfg_4KB 8 (buddy_free cfg_4KB 4096 buddy_init (Some 4112)) = {}"
  using buddy_free_block [OF wf_cfg_4KB wf_tree_init, of 4096 "Some 4112"] by (simp add: blocks_init)

text \<open>C39: Releasing the block just allocated restores the node array exactly: splitting on the
  way down and merging on the way up are inverse.\<close>

theorem buddy_free_alloc:
  assumes "wf_cfg c a h" and "wf_tree t h" and "buddy_alloc c t sz = Some (Some x, t')"
  shows "buddy_free c lo t' (Some (lo + x)) = t"
proof -
  obtain r where r: "wf_tree t' h"
    and al: "talloc (MIN_BLOCK c) r 0 h (tree_of t 0 h) = (Some x, tree_of t' 0 h)"
    and nd: "(Some x, t') = buddy_alloc_node c t 0 (POOL_SIZE c) 0 (MIN_BLOCK c * 2 ^ r)"
    using buddy_alloc_Some_facts [OF assms] by metis
  let ?t = "buddy_free_node c t' 0 (POOL_SIZE c) 0 x"
  have "0 < MIN_BLOCK c * 2 ^ r" using wf_cfg_min [OF assms(1)] by simp
  moreover have "x + MIN_BLOCK c * 2 ^ r \<le> POOL_SIZE c"
    using talloc_bounds [OF al] assms(1) by (simp add: wf_cfg_def)
  ultimately have "x < POOL_SIZE c" by linarith
  then have "buddy_free c lo t' (Some (lo + x)) = ?t" by (simp add: buddy_free_def)
  moreover have "?t = t"
  proof (rule array_eq [OF assms(1) _ assms(2)])
    show "wf_tree ?t h" and "tree_of ?t 0 h = tree_of t 0 h"
      using pool_refines(2) [OF assms(1) r(1), of x] tfree_talloc [OF al tree_of_pool_ok [OF assms(2)] wf_cfg_min [OF assms(1)]]
      by (simp_all add: free_ok_def wf_tree_def)
    show "?t x = t x" if "TREE_NODES c \<le> x" for x
      using buddy_free_node_above [OF that] buddy_alloc_node_above [OF that] nd by (metis snd_conv)
  qed
  ultimately show ?thesis by simp
qed

theorem buddy_free_alloc_witness:
  "\<exists>t'. buddy_alloc cfg_4KB buddy_init 100 = Some (Some 0, t') \<and>
     buddy_free cfg_4KB 4096 t' (Some 4096) = buddy_init"
proof -
  have "\<exists>t'. buddy_alloc cfg_4KB buddy_init 100 = Some (Some 0, t')"
    by (simp add: buddy_alloc_def buddy_next_pow2_def next_pow2_loop.simps buddy_alloc_node.simps
        cfg_4KB_def TREE_NODES_def NUM_LEAVES_def buddy_init_def Let_def)
  then show ?thesis
    using buddy_free_alloc [OF wf_cfg_4KB wf_tree_init, of 100 0 _ 4096] by auto
qed

text \<open>The blocks a client holds, after any sequence of requests and releases from the empty pool, overlap nowhere.\<close>

lemma buddy_run_disjoint:
  assumes "wf_cfg c a h" and "run_client (pool_alloc c) (\<lambda>t (x, n). buddy_free c lo t (Some (lo + x))) ops buddy_init [] = Inr (t, held)"
  shows "sorted_wrt disjoint_blocks (map (\<lambda>(x, n). (x, unat n)) held)"
  using buddy.client_disjoint [of c h buddy_init ops lo t held] wf_tree_init assms by blast

text \<open>The rounding loop ends exactly for sizes up to \<open>2 ^ 63\<close>; above that the shifted value
  wraps to 0 and the loop runs forever (\<open>buddy_alloc\<close> never gets there, because it refuses
  sizes above the pool's).\<close>

lemma buddy_next_pow2_terminates:
  assumes "wf_cfg c a h"
  shows "(\<exists>y. buddy_next_pow2 c x = Some y) \<longleftrightarrow> unat x \<le> 2 ^ 63"
proof -
  have a: "a \<le> 63" "MIN_BLOCK c = 2 ^ a" using assms by (simp_all add: wf_cfg_def)
  have "(2::nat) ^ a < 2 ^ 64" using a(1) by (intro power_strict_increasing) simp_all
  then have p: "unat (of_nat (MIN_BLOCK c) :: u64) = 2 ^ a" unfolding a(2) by (rule unat_u64_of_nat)
  have "\<exists>y. buddy_next_pow2 c x = Some y" if "unat x \<le> 2 ^ 63"
    using next_pow2_loop_returns [OF p, of x "63 - a"] that a(1) by (auto simp: buddy_next_pow2_def)
  moreover have "unat x \<le> 2 ^ 63" if "buddy_next_pow2 c x = Some y" for y
  proof (rule next_pow2_loop_diverges)
    show "next_pow2_loop (of_nat (MIN_BLOCK c)) x = Some y" using that by (simp add: buddy_next_pow2_def)
    show "of_nat (MIN_BLOCK c) = (0 :: u64) \<or> (\<exists>i < 64. unat (of_nat (MIN_BLOCK c) :: u64) = 2 ^ i)"
      using p a(1) by (intro disjI2 exI [of _ a]) simp
  qed
  ultimately show ?thesis by blast
qed

lemma buddy_next_pow2_terminates_witness:
  "buddy_next_pow2 cfg_16MB (2 ^ 63 + 1) = None \<and> (\<exists>y. buddy_next_pow2 cfg_16MB 1000 = Some y)"
proof -
  have "unat (2 ^ 63 + 1 :: u64) = 2 ^ 63 + 1" by simp
  then have "buddy_next_pow2 cfg_16MB (2 ^ 63 + 1) = None"
    using buddy_next_pow2_terminates [OF wf_cfg_16MB, of "2 ^ 63 + 1"]
    by (cases "buddy_next_pow2 cfg_16MB (2 ^ 63 + 1)") simp_all
  then show ?thesis using buddy_next_pow2_terminates [OF wf_cfg_16MB, of 1000] by simp
qed

end
