(* ===== verification/Cstr.thy ===== *)
theory Cstr
  imports Nexs_Prelude "HOL-Library.Char_ord"
begin

section \<open>C strings and paths (\<^verbatim>\<open>core/utils.c\<close> and the libc calls the code makes)\<close>

text \<open>
  A C string is the list of its characters before the terminating NUL. A buffer of \<open>n\<close> bytes
  that \<^verbatim>\<open>strncpy\<close> plus the explicit terminator, \<^verbatim>\<open>snprintf\<close> or \<^verbatim>\<open>strncat\<close> fills holds the
  first \<open>n - 1\<close> characters: \<open>trunc n\<close>.
\<close>

definition trunc :: "nat \<Rightarrow> string \<Rightarrow> string" where
  "trunc n s = take (n - 1) s"

definition c_str :: "string \<Rightarrow> string" where
  "c_str s = takeWhile (\<lambda>c. c \<noteq> CHR 0x00) s"

definition isspace :: "char \<Rightarrow> bool" where
  "isspace c \<longleftrightarrow> c \<in> {CHR 0x20, CHR 0x09, CHR 0x0A, CHR 0x0B, CHR 0x0C, CHR 0x0D}"

definition isdigit :: "char \<Rightarrow> bool" where
  "isdigit c \<longleftrightarrow> 48 \<le> (of_char c :: nat) \<and> (of_char c :: nat) \<le> 57"

definition isalpha :: "char \<Rightarrow> bool" where
  "isalpha c \<longleftrightarrow> (65 \<le> (of_char c :: nat) \<and> (of_char c :: nat) \<le> 90) \<or>
     (97 \<le> (of_char c :: nat) \<and> (of_char c :: nat) \<le> 122)"

definition isalnum :: "char \<Rightarrow> bool" where
  "isalnum c \<longleftrightarrow> isalpha c \<or> isdigit c"

definition digit_val :: "char \<Rightarrow> int" where
  "digit_val c = of_char c - 48"

text \<open>\<open>strrchr\<close>: the number of characters before the last occurrence.\<close>

fun strrchr :: "char \<Rightarrow> string \<Rightarrow> nat option" where
  "strrchr c [] = None"
| "strrchr c (x # xs) =
     (case strrchr c xs of Some i \<Rightarrow> Some (Suc i) | None \<Rightarrow> if x = c then Some 0 else None)"

text \<open>One call of \<open>strtok (p, "/")\<close>: leading slashes are skipped, the token ends before the next
  slash, and that slash is overwritten.\<close>

definition strtok_slash :: "string \<Rightarrow> (string \<times> string) option" where
  "strtok_slash p =
     (let q = dropWhile (\<lambda>c. c = CHR ''/'') p in
      if q = [] then None
      else Some (takeWhile (\<lambda>c. c \<noteq> CHR ''/'') q, drop 1 (dropWhile (\<lambda>c. c \<noteq> CHR ''/'') q)))"

text \<open>\<open>strtoll\<close> with base 10 (which \<open>atoll\<close> is): white space, a sign, digits, clamped to the range.\<close>

definition digits_val :: "string \<Rightarrow> int" where
  "digits_val s = foldl (\<lambda>n c. 10 * n + digit_val c) 0 s"

definition clamp64 :: "int \<Rightarrow> int" where
  "clamp64 n = max (- (2 ^ 63)) (min (2 ^ 63 - 1) n)"

definition atoll :: "string \<Rightarrow> u64" where
  "atoll s =
     (case dropWhile isspace s of
        CHR ''-'' # ds \<Rightarrow> of_int (clamp64 (- digits_val (takeWhile isdigit ds)))
      | CHR ''+'' # ds \<Rightarrow> of_int (clamp64 (digits_val (takeWhile isdigit ds)))
      | ds \<Rightarrow> of_int (clamp64 (digits_val (takeWhile isdigit ds))))"

text \<open>Decimal output: \<open>%zu\<close> and \<open>%d\<close>, \<open>%lld\<close>.\<close>

fun show_nat :: "nat \<Rightarrow> string" where
  "show_nat n = (if n < 10 then [char_of (48 + n)] else show_nat (n div 10) @ [char_of (48 + n mod 10)])"

declare show_nat.simps [simp del]

definition show_int :: "int \<Rightarrow> string" where
  "show_int i = (if i < 0 then CHR ''-'' # show_nat (nat (- i)) else show_nat (nat i))"

subsection \<open>The functions of \<^verbatim>\<open>core/utils.c\<close>\<close>

definition nexs_trim :: "string \<Rightarrow> string" where
  "nexs_trim s = rev (dropWhile isspace (rev (dropWhile isspace s)))"

definition path_join_step :: "nat \<Rightarrow> string \<Rightarrow> string \<Rightarrow> string" where
  "path_join_step bufsz buf seg =
     (if seg \<noteq> [] \<and> hd seg = CHR ''/'' then trunc bufsz seg
      else
        let buf1 = (if buf \<noteq> [] \<and> last buf \<noteq> CHR ''/'' then trunc bufsz (buf @ ''/'') else buf)
        in trunc bufsz (buf1 @ seg))"

definition nexs_path_join :: "nat \<Rightarrow> string list \<Rightarrow> string" where
  "nexs_path_join bufsz segs = foldl (path_join_step bufsz) [] segs"

definition nexs_path_basename :: "string \<Rightarrow> string" where
  "nexs_path_basename path =
     (case strrchr CHR ''/'' path of Some i \<Rightarrow> drop (i + 1) path | None \<Rightarrow> path)"

definition nexs_path_dirname :: "string \<Rightarrow> nat \<Rightarrow> string" where
  "nexs_path_dirname path outsz =
     (case strrchr CHR ''/'' path of
        None \<Rightarrow> trunc outsz ''/''
      | Some i \<Rightarrow>
          if i = 0 then trunc outsz ''/''
          else take (if outsz \<le> i then outsz - 1 else i) path)"

subsection \<open>Lemmas\<close>

lemma length_trunc [cstr_simps]: "length (trunc n s) = min (n - 1) (length s)"
  by (simp add: trunc_def)

lemma trunc_id [simp]: "length s < n \<Longrightarrow> trunc n s = s"
  by (simp add: trunc_def)

lemma trunc_trunc [simp]: "trunc n (trunc n s) = trunc n s"
  by (simp add: trunc_def)

lemma set_trunc: "set (trunc n s) \<subseteq> set s"
  by (simp add: trunc_def set_take_subset)

lemma strrchr_None: "strrchr c s = None \<longleftrightarrow> c \<notin> set s"
  by (induction s) (auto split: option.splits)

lemma strrchr_Some:
  "strrchr c s = Some i \<Longrightarrow> i < length s \<and> s ! i = c \<and> c \<notin> set (drop (Suc i) s)"
  by (induction s arbitrary: i) (auto split: option.splits if_splits simp: strrchr_None)

lemma strtok_slash_shorter:
  assumes "strtok_slash p = Some (tok, rest)"
  shows "length rest < length p" and "tok \<noteq> []" and "CHR ''/'' \<notin> set tok"
proof -
  define q where "q = dropWhile (\<lambda>c. c = CHR ''/'') p"
  have q: "q \<noteq> []" "tok = takeWhile (\<lambda>c. c \<noteq> CHR ''/'') q"
    "rest = drop 1 (dropWhile (\<lambda>c. c \<noteq> CHR ''/'') q)"
    using assms by (auto simp: strtok_slash_def q_def Let_def split: if_splits)
  have "hd q \<noteq> CHR ''/''" using q(1) hd_dropWhile unfolding q_def by blast
  then obtain x xs where x: "q = x # xs" "x \<noteq> CHR ''/''" using q(1) by (cases q) auto
  have "length q \<le> length p" unfolding q_def by (rule length_dropWhile_le)
  moreover have "length rest \<le> length xs"
    unfolding q(3) x(1) using x(2) by (simp add: le_diff_conv length_dropWhile_le le_SucI)
  ultimately show "length rest < length p" using x(1) by simp
  show "tok \<noteq> []" using q(2) x by simp
  show "CHR ''/'' \<notin> set tok" unfolding q(2) by (auto dest: set_takeWhileD)
qed

lemma path_join_step_length: "length buf < bufsz \<Longrightarrow> length (path_join_step bufsz buf seg) < bufsz"
  by (auto simp: path_join_step_def Let_def cstr_simps)

end
