(* ===== verification/Float64.thy ===== *)
theory Float64
  imports Cstr
begin

section \<open>The C type \<open>double\<close>\<close>

unbundle bit_operations_syntax

text \<open>
  A \<open>double\<close> is kept as its 64-bit pattern (IEEE 754 binary64, which both targets of the code
  use), because the code copies it bytewise onto pipes. The operations the code uses on it are
  computed exactly on fractions and rounded once, to nearest, ties to even. Every NaN an
  operation produces is the quiet NaN with the sign bit clear.
\<close>

type_synonym f64 = u64

definition f64_sign :: "f64 \<Rightarrow> bool" where
  "f64_sign x \<longleftrightarrow> 2 ^ 63 \<le> unat x"

definition f64_expo :: "f64 \<Rightarrow> nat" where
  "f64_expo x = unat x div 2 ^ 52 mod 2048"

definition f64_frac :: "f64 \<Rightarrow> nat" where
  "f64_frac x = unat x mod 2 ^ 52"

definition f64_is_nan :: "f64 \<Rightarrow> bool" where
  "f64_is_nan x \<longleftrightarrow> f64_expo x = 2047 \<and> f64_frac x \<noteq> 0"

definition f64_is_inf :: "f64 \<Rightarrow> bool" where
  "f64_is_inf x \<longleftrightarrow> f64_expo x = 2047 \<and> f64_frac x = 0"

text \<open>A finite value is \<open>f64_mant x * 2 ^ f64_scale x / 2 ^ 1074\<close>.\<close>

definition f64_mant :: "f64 \<Rightarrow> int" where
  "f64_mant x =
     (let m = int (f64_frac x + (if f64_expo x = 0 then 0 else 2 ^ 52))
      in if f64_sign x then - m else m)"

definition f64_scale :: "f64 \<Rightarrow> nat" where
  "f64_scale x = (if f64_expo x = 0 then 0 else f64_expo x - 1)"

definition f64_num :: "f64 \<Rightarrow> int" where
  "f64_num x = f64_mant x * 2 ^ f64_scale x"

definition f64_pack :: "bool \<Rightarrow> nat \<Rightarrow> f64" where
  "f64_pack s m = of_nat (m + (if s then 2 ^ 63 else 0))"

definition f64_inf :: "bool \<Rightarrow> f64" where
  "f64_inf s = f64_pack s (2047 * 2 ^ 52)"

definition f64_nan :: f64 where
  "f64_nan = 0x7FF8000000000000"

subsection \<open>Rounding\<close>

fun log2n :: "nat \<Rightarrow> nat" where
  "log2n n = (if n < 2 then 0 else log2n (n div 2) + 1)"

declare log2n.simps [simp del]

definition div_half_even :: "nat \<Rightarrow> nat \<Rightarrow> nat" where
  "div_half_even n d =
     (let q = n div d; r = n mod d in
      if 2 * r < d then q else if d < 2 * r then q + 1 else if even q then q else q + 1)"

text \<open>The binary64 pattern nearest to \<open>n / d\<close>. The mantissa is counted in units of \<open>2 ^ e\<close>; a
  mantissa that rounds up to the next power of two carries into the exponent field.\<close>

definition f64_round :: "bool \<Rightarrow> nat \<Rightarrow> nat \<Rightarrow> f64" where
  "f64_round s n d =
     (if n = 0 then f64_pack s 0
      else
        let l = int (log2n n) - int (log2n d);
            below = (if 0 \<le> l then n < d * 2 ^ nat l else n * 2 ^ nat (- l) < d);
            e = max (- 1074) (if below then l - 53 else l - 52);
            q = (if 0 \<le> e then div_half_even n (d * 2 ^ nat e) else div_half_even (n * 2 ^ nat (- e)) d);
            bits = q + nat (e + 1074) * 2 ^ 52
        in if 2047 * 2 ^ 52 \<le> bits then f64_inf s else f64_pack s bits)"

subsection \<open>Arithmetic, comparison and conversion\<close>

definition f64_zero :: "f64 \<Rightarrow> bool" where
  "f64_zero x \<longleftrightarrow> unat x mod 2 ^ 63 = 0"

definition f64_neg :: "f64 \<Rightarrow> f64" where
  "f64_neg x = x XOR 0x8000000000000000"

definition f64_add :: "f64 \<Rightarrow> f64 \<Rightarrow> f64" where
  "f64_add x y =
     (if f64_is_nan x \<or> f64_is_nan y then f64_nan
      else if f64_is_inf x then (if f64_is_inf y \<and> f64_sign x \<noteq> f64_sign y then f64_nan else x)
      else if f64_is_inf y then y
      else let z = f64_num x + f64_num y
           in if z = 0 then f64_pack (f64_sign x \<and> f64_sign y) 0
              else f64_round (z < 0) (nat \<bar>z\<bar>) (2 ^ 1074))"

definition f64_sub :: "f64 \<Rightarrow> f64 \<Rightarrow> f64" where
  "f64_sub x y = (if f64_is_nan y then f64_nan else f64_add x (f64_neg y))"

definition f64_mul :: "f64 \<Rightarrow> f64 \<Rightarrow> f64" where
  "f64_mul x y =
     (let s = (f64_sign x \<noteq> f64_sign y) in
      if f64_is_nan x \<or> f64_is_nan y then f64_nan
      else if f64_is_inf x \<or> f64_is_inf y then
        (if f64_zero x \<or> f64_zero y then f64_nan else f64_inf s)
      else f64_round s (nat \<bar>f64_num x * f64_num y\<bar>) (2 ^ 2148))"

definition f64_div :: "f64 \<Rightarrow> f64 \<Rightarrow> f64" where
  "f64_div x y =
     (let s = (f64_sign x \<noteq> f64_sign y) in
      if f64_is_nan x \<or> f64_is_nan y then f64_nan
      else if f64_is_inf x then (if f64_is_inf y then f64_nan else f64_inf s)
      else if f64_is_inf y then f64_pack s 0
      else if f64_zero y then (if f64_zero x then f64_nan else f64_inf s)
      else f64_round s (nat \<bar>f64_num x\<bar>) (nat \<bar>f64_num y\<bar>))"

definition f64_ord :: "f64 \<Rightarrow> int" where
  "f64_ord x = (let m = int (unat x mod 2 ^ 63) in if f64_sign x then - m else m)"

definition f64_lt :: "f64 \<Rightarrow> f64 \<Rightarrow> bool" where
  "f64_lt x y \<longleftrightarrow> \<not> f64_is_nan x \<and> \<not> f64_is_nan y \<and> f64_ord x < f64_ord y"

definition f64_le :: "f64 \<Rightarrow> f64 \<Rightarrow> bool" where
  "f64_le x y \<longleftrightarrow> \<not> f64_is_nan x \<and> \<not> f64_is_nan y \<and> f64_ord x \<le> f64_ord y"

definition f64_eq :: "f64 \<Rightarrow> f64 \<Rightarrow> bool" where
  "f64_eq x y \<longleftrightarrow> \<not> f64_is_nan x \<and> \<not> f64_is_nan y \<and> f64_ord x = f64_ord y"

definition f64_of_int :: "u64 \<Rightarrow> f64" where
  "f64_of_int i = f64_round (sint i < 0) (nat \<bar>sint i\<bar>) 1"

text \<open>\<open>(int64_t)f\<close>: towards zero. Out of range C leaves the result open; the model has the value
  that the conversion instruction of amd64 gives.\<close>

definition f64_to_int :: "f64 \<Rightarrow> u64" where
  "f64_to_int x =
     (let m = nat \<bar>f64_num x\<bar> div 2 ^ 1074; i = (if f64_sign x then - int m else int m) in
      if f64_expo x = 2047 \<or> i < - (2 ^ 63) \<or> 2 ^ 63 \<le> i then 0x8000000000000000 else of_int i)"

subsection \<open>\<open>%g\<close> and \<open>atof\<close>\<close>

text \<open>\<open>dec_expo n d\<close> is the decimal exponent of \<open>n / d\<close>, for \<open>n\<close> and \<open>d\<close> positive.\<close>

function dec_expo :: "nat \<Rightarrow> nat \<Rightarrow> int" where
  "dec_expo n d =
     (if n = 0 \<or> d = 0 then 0
      else if 10 * d \<le> n then dec_expo n (10 * d) + 1
      else if n < d then dec_expo (10 * n) d - 1
      else 0)"
  by pat_completeness auto
termination
  by (relation "measures [\<lambda>(n, d). d - n, \<lambda>(n, d). n - d]") auto

declare dec_expo.simps [simp del]

definition strip_zeros :: "string \<Rightarrow> string" where
  "strip_zeros s = rev (dropWhile (\<lambda>c. c = CHR ''0'') (rev s))"

definition with_fraction :: "string \<Rightarrow> string \<Rightarrow> string" where
  "with_fraction i f = (let g = strip_zeros f in if g = [] then i else i @ ''.'' @ g)"

text \<open>Six significant digits, trailing zeros removed.\<close>

definition show_g_pos :: "nat \<Rightarrow> nat \<Rightarrow> string" where
  "show_g_pos n d =
     (let x0 = dec_expo n d;
          D0 = (if x0 \<le> 5 then div_half_even (n * 10 ^ nat (5 - x0)) d
                else div_half_even n (d * 10 ^ nat (x0 - 5)));
          (x, D) = (if D0 = 1000000 then (x0 + 1, 100000) else (x0, D0));
          s = show_nat D
      in if x < - 4 \<or> 6 \<le> x then
           with_fraction (take 1 s) (drop 1 s) @ (if x < 0 then ''e-'' else ''e+'') @
             (let a = show_nat (nat \<bar>x\<bar>) in if length a < 2 then CHR ''0'' # a else a)
         else if x < 0 then with_fraction ''0'' (replicate (nat (- x - 1)) (CHR ''0'') @ s)
         else with_fraction (take (nat x + 1) s) (drop (nat x + 1) s))"

definition show_g :: "f64 \<Rightarrow> string" where
  "show_g x =
     (let m = (if f64_is_nan x then ''nan'' else if f64_is_inf x then ''inf''
               else if f64_zero x then ''0'' else show_g_pos (nat \<bar>f64_num x\<bar>) (2 ^ 1074))
      in if f64_sign x then CHR ''-'' # m else m)"

definition lower :: "char \<Rightarrow> char" where
  "lower c = (let n = of_char c :: nat in if 65 \<le> n \<and> n \<le> 90 then char_of (n + 32) else c)"

definition hex_val :: "char \<Rightarrow> nat option" where
  "hex_val c =
     (let n = (of_char (lower c) :: nat) in
      if 48 \<le> n \<and> n \<le> 57 then Some (n - 48)
      else if 97 \<le> n \<and> n \<le> 102 then Some (n - 87) else None)"

definition base_val :: "nat \<Rightarrow> string \<Rightarrow> nat" where
  "base_val b s = foldl (\<lambda>n c. b * n + (case hex_val c of Some v \<Rightarrow> v | None \<Rightarrow> 0)) 0 s"

text \<open>The exponent part after the mantissa: \<open>e\<close> or \<open>p\<close>, a sign, at least one digit.\<close>

definition exponent_part :: "char \<Rightarrow> string \<Rightarrow> int" where
  "exponent_part ec s =
     (if s \<noteq> [] \<and> lower (hd s) = ec then
        let r = tl s;
            (neg, ds) = (if r \<noteq> [] \<and> hd r = CHR ''-'' then (True, tl r)
                         else if r \<noteq> [] \<and> hd r = CHR ''+'' then (False, tl r) else (False, r));
            v = digits_val (takeWhile isdigit ds)
        in if neg then - v else v
      else 0)"

text \<open>The mantissa: its digits, the digits after the point, the rest.\<close>

definition mantissa_part :: "(char \<Rightarrow> bool) \<Rightarrow> string \<Rightarrow> string \<times> string \<times> string" where
  "mantissa_part dig s =
     (let i = takeWhile dig s; r = dropWhile dig s in
      if r \<noteq> [] \<and> hd r = CHR ''.'' then (i, takeWhile dig (tl r), dropWhile dig (tl r)) else (i, [], r))"

definition scaled :: "bool \<Rightarrow> nat \<Rightarrow> nat \<Rightarrow> int \<Rightarrow> f64" where
  "scaled s m b e = (if 0 \<le> e then f64_round s (m * b ^ nat e) 1 else f64_round s m (b ^ nat (- e)))"

definition is_hex :: "char \<Rightarrow> bool" where
  "is_hex c \<longleftrightarrow> hex_val c \<noteq> None"

definition atof :: "string \<Rightarrow> f64" where
  "atof str =
     (let s0 = dropWhile isspace str;
          (neg, s) = (if s0 \<noteq> [] \<and> hd s0 = CHR ''-'' then (True, tl s0)
                      else if s0 \<noteq> [] \<and> hd s0 = CHR ''+'' then (False, tl s0) else (False, s0));
          low = List.map lower (take 3 s)
      in if low = ''inf'' then f64_inf neg
         else if low = ''nan'' then f64_nan
         else
           let (hi, hf, hr) = mantissa_part is_hex (drop 2 s) in
           if List.map lower (take 2 s) = ''0x'' \<and> hi @ hf \<noteq> [] then
             scaled neg (base_val 16 (hi @ hf)) 2 (exponent_part (CHR ''p'') hr - 4 * int (length hf))
           else
             let (di, df, dr) = mantissa_part isdigit s in
             if di @ df = [] then f64_pack False 0
             else scaled neg (base_val 10 (di @ df)) 10 (exponent_part (CHR ''e'') dr - int (length df)))"

end
