(* ===== verification/Values.thy ===== *)
theory Values
  imports Float64 "HOL-Library.Signed_Division"
begin

section \<open>The value system (\<^verbatim>\<open>core/value.c\<close>)\<close>

text \<open>
  \<open>value\<close> has the fields of the C struct. A string buffer belongs to one value and is copied with
  it, so \<open>data\<close> holds its contents; an array is shared and reference counted, so \<open>data\<close> holds
  its address in the heap of \<^verbatim>\<open>DynArray.thy\<close>; \<open>DFn\<close> is the address of a C function. Integers
  are 64-bit words that wrap; \<open>val_div\<close> and \<open>val_mod\<close> of the least integer by -1, which trap on
  amd64, are a fault.
\<close>

datatype vtype =
  TYPE_NIL | TYPE_INT | TYPE_FLOAT | TYPE_STR | TYPE_ARR | TYPE_FN | TYPE_ERR | TYPE_BOOL
| TYPE_REF | TYPE_PTR

datatype vdata = NoData | DStr string | DArr nat | DFn nat

record val =
  vtype :: vtype
  data :: vdata
  ival :: u64
  fval :: f64
  err_code :: u32
  err_msg :: "string option"

definition val_type_name :: "vtype \<Rightarrow> string" where
  "val_type_name t =
     (case t of
        TYPE_NIL \<Rightarrow> ''nil'' | TYPE_INT \<Rightarrow> ''int'' | TYPE_FLOAT \<Rightarrow> ''float'' | TYPE_STR \<Rightarrow> ''str''
      | TYPE_ARR \<Rightarrow> ''arr'' | TYPE_FN \<Rightarrow> ''fn'' | TYPE_ERR \<Rightarrow> ''err'' | TYPE_BOOL \<Rightarrow> ''bool''
      | TYPE_REF \<Rightarrow> ''ref'' | TYPE_PTR \<Rightarrow> ''ptr'')"

subsection \<open>Constructors\<close>

definition val_nil :: val where
  "val_nil = \<lparr>vtype = TYPE_NIL, data = NoData, ival = 0, fval = 0, err_code = 0, err_msg = None\<rparr>"

definition val_bool :: "bool \<Rightarrow> val" where
  "val_bool b = val_nil\<lparr>vtype := TYPE_BOOL, ival := (if b then 1 else 0)\<rparr>"

definition val_int :: "u64 \<Rightarrow> val" where
  "val_int n = val_nil\<lparr>vtype := TYPE_INT, ival := n\<rparr>"

definition val_float :: "f64 \<Rightarrow> val" where
  "val_float f = val_nil\<lparr>vtype := TYPE_FLOAT, fval := f\<rparr>"

definition val_str :: "string \<Rightarrow> val" where
  "val_str s = val_nil\<lparr>vtype := TYPE_STR, data := DStr s\<rparr>"

definition val_err :: "u32 \<Rightarrow> string \<Rightarrow> val" where
  "val_err code msg = val_nil\<lparr>vtype := TYPE_ERR, err_code := code, err_msg := Some msg\<rparr>"

definition val_ref :: "string \<Rightarrow> val" where
  "val_ref path = val_nil\<lparr>vtype := TYPE_REF, data := DStr path\<rparr>"

definition val_ptr :: "string \<Rightarrow> val" where
  "val_ptr target = val_nil\<lparr>vtype := TYPE_PTR, data := DStr target\<rparr>"

definition val_fn_idx :: "u64 \<Rightarrow> val" where
  "val_fn_idx idx = val_nil\<lparr>vtype := TYPE_FN, ival := idx\<rparr>"

lemmas val_cons_defs = val_nil_def val_bool_def val_int_def val_float_def val_str_def val_err_def
  val_ref_def val_ptr_def val_fn_idx_def

subsection \<open>Predicates\<close>

definition data_str :: "val \<Rightarrow> string option" where
  "data_str v = (case data v of DStr s \<Rightarrow> Some s | _ \<Rightarrow> None)"

definition val_is_error :: "val \<Rightarrow> bool" where
  "val_is_error v \<longleftrightarrow> vtype v = TYPE_ERR"

definition val_is_truthy :: "val \<Rightarrow> bool" where
  "val_is_truthy v =
     (case vtype v of
        TYPE_NIL \<Rightarrow> False
      | TYPE_BOOL \<Rightarrow> ival v \<noteq> 0
      | TYPE_INT \<Rightarrow> ival v \<noteq> 0
      | TYPE_FLOAT \<Rightarrow> \<not> f64_eq (fval v) 0
      | TYPE_STR \<Rightarrow> (case data_str v of Some s \<Rightarrow> s \<noteq> [] | None \<Rightarrow> False)
      | TYPE_ERR \<Rightarrow> False
      | TYPE_PTR \<Rightarrow> data v \<noteq> NoData
      | _ \<Rightarrow> True)"

definition val_equal :: "val \<Rightarrow> val \<Rightarrow> bool" where
  "val_equal a b =
     (if vtype a \<noteq> vtype b then False
      else case vtype a of
        TYPE_NIL \<Rightarrow> True
      | TYPE_BOOL \<Rightarrow> ival a = ival b
      | TYPE_INT \<Rightarrow> ival a = ival b
      | TYPE_FLOAT \<Rightarrow> f64_eq (fval a) (fval b)
      | TYPE_STR \<Rightarrow> data_str a = data_str b
      | TYPE_PTR \<Rightarrow> data_str a = data_str b
      | _ \<Rightarrow> False)"

subsection \<open>Conversions\<close>

definition val_to_int :: "val \<Rightarrow> u64" where
  "val_to_int v =
     (case vtype v of
        TYPE_INT \<Rightarrow> ival v
      | TYPE_FLOAT \<Rightarrow> f64_to_int (fval v)
      | TYPE_BOOL \<Rightarrow> ival v
      | TYPE_STR \<Rightarrow> (case data_str v of Some s \<Rightarrow> atoll s | None \<Rightarrow> 0)
      | _ \<Rightarrow> 0)"

definition val_to_float :: "val \<Rightarrow> f64" where
  "val_to_float v =
     (case vtype v of
        TYPE_INT \<Rightarrow> f64_of_int (ival v)
      | TYPE_FLOAT \<Rightarrow> fval v
      | TYPE_BOOL \<Rightarrow> f64_of_int (ival v)
      | TYPE_STR \<Rightarrow> (case data_str v of Some s \<Rightarrow> atof s | None \<Rightarrow> 0)
      | _ \<Rightarrow> 0)"

definition or_empty :: "string option \<Rightarrow> string" where
  "or_empty s = (case s of Some t \<Rightarrow> t | None \<Rightarrow> [])"

definition val_to_str :: "val \<Rightarrow> nat \<Rightarrow> string" where
  "val_to_str v sz =
     trunc sz
       (case vtype v of
          TYPE_NIL \<Rightarrow> ''nil''
        | TYPE_BOOL \<Rightarrow> if ival v \<noteq> 0 then ''true'' else ''false''
        | TYPE_INT \<Rightarrow> show_int (sint (ival v))
        | TYPE_FLOAT \<Rightarrow> show_g (fval v)
        | TYPE_STR \<Rightarrow> or_empty (data_str v)
        | TYPE_ARR \<Rightarrow> ''<array>''
        | TYPE_FN \<Rightarrow> ''<function>''
        | TYPE_ERR \<Rightarrow> ''ERR('' @ or_empty (err_msg v) @ '')''
        | TYPE_REF \<Rightarrow> ''REF('' @ or_empty (data_str v) @ '')''
        | TYPE_PTR \<Rightarrow> ''PTR('' @ or_empty (data_str v) @ '')'')"

subsection \<open>Arithmetic\<close>

text \<open>The text of one operand of a string concatenation.\<close>

definition add_operand :: "val \<Rightarrow> string" where
  "add_operand a =
     trunc MAX_STR_LEN
       (if vtype a = TYPE_STR \<and> data_str a \<noteq> None then or_empty (data_str a)
        else case vtype a of
          TYPE_INT \<Rightarrow> show_int (sint (ival a))
        | TYPE_FLOAT \<Rightarrow> show_g (fval a)
        | TYPE_BOOL \<Rightarrow> if ival a \<noteq> 0 then ''true'' else ''false''
        | TYPE_NIL \<Rightarrow> ''nil''
        | t \<Rightarrow> ''<'' @ val_type_name t @ ''>'')"

text \<open>The integer operators compute in \<^verbatim>\<open>int64_t\<close>, where C leaves an overflow undefined.\<close>

definition int64_result :: "int \<Rightarrow> val res" where
  "int64_result i = (if - (2 ^ 63) \<le> i \<and> i < 2 ^ 63 then Inr (val_int (of_int i)) else Inl SignedOverflow)"

definition val_add :: "val \<Rightarrow> val \<Rightarrow> val res" where
  "val_add a b =
     (if vtype a = TYPE_STR \<or> vtype b = TYPE_STR then
        Inr (val_str (trunc (MAX_STR_LEN * 2) (add_operand a @ add_operand b)))
      else if vtype a = TYPE_FLOAT \<or> vtype b = TYPE_FLOAT then
        Inr (val_float (f64_add (val_to_float a) (val_to_float b)))
      else int64_result (sint (val_to_int a) + sint (val_to_int b)))"

definition val_sub :: "val \<Rightarrow> val \<Rightarrow> val res" where
  "val_sub a b =
     (if vtype a = TYPE_FLOAT \<or> vtype b = TYPE_FLOAT then
        Inr (val_float (f64_sub (val_to_float a) (val_to_float b)))
      else int64_result (sint (val_to_int a) - sint (val_to_int b)))"

definition val_mul :: "val \<Rightarrow> val \<Rightarrow> val res" where
  "val_mul a b =
     (if vtype a = TYPE_FLOAT \<or> vtype b = TYPE_FLOAT then
        Inr (val_float (f64_mul (val_to_float a) (val_to_float b)))
      else int64_result (sint (val_to_int a) * sint (val_to_int b)))"

definition sdiv64 :: "u64 \<Rightarrow> u64 \<Rightarrow> u64 res" where
  "sdiv64 a b =
     (if sint a = - (2 ^ 63) \<and> sint b = - 1 then Inl (Die ''SIGFPE'')
      else Inr (of_int (sint a sdiv sint b)))"

definition smod64 :: "u64 \<Rightarrow> u64 \<Rightarrow> u64 res" where
  "smod64 a b =
     (if sint a = - (2 ^ 63) \<and> sint b = - 1 then Inl (Die ''SIGFPE'')
      else Inr (of_int (sint a smod sint b)))"

definition val_div :: "val \<Rightarrow> val \<Rightarrow> val res" where
  "val_div a b =
     (if vtype a = TYPE_FLOAT \<or> vtype b = TYPE_FLOAT then
        let dv = val_to_float b in
        if f64_eq dv 0 then Inr (val_err 1 ''division by zero'')
        else Inr (val_float (f64_div (val_to_float a) dv))
      else
        let iv = val_to_int b in
        if iv = 0 then Inr (val_err 1 ''division by zero'')
        else case sdiv64 (val_to_int a) iv of Inl e \<Rightarrow> Inl e | Inr q \<Rightarrow> Inr (val_int q))"

definition val_mod :: "val \<Rightarrow> val \<Rightarrow> val res" where
  "val_mod a b =
     (let iv = val_to_int b in
      if iv = 0 then Inr (val_err 1 ''modulo by zero'')
      else case smod64 (val_to_int a) iv of Inl e \<Rightarrow> Inl e | Inr q \<Rightarrow> Inr (val_int q))"

definition val_lt :: "val \<Rightarrow> val \<Rightarrow> val" where
  "val_lt a b =
     (if vtype a = TYPE_FLOAT \<or> vtype b = TYPE_FLOAT
      then val_bool (f64_lt (val_to_float a) (val_to_float b))
      else val_bool (val_to_int a <s val_to_int b))"

definition val_gt :: "val \<Rightarrow> val \<Rightarrow> val" where
  "val_gt a b =
     (if vtype a = TYPE_FLOAT \<or> vtype b = TYPE_FLOAT
      then val_bool (f64_lt (val_to_float b) (val_to_float a))
      else val_bool (val_to_int b <s val_to_int a))"

definition val_le :: "val \<Rightarrow> val \<Rightarrow> val" where
  "val_le a b =
     (if vtype a = TYPE_FLOAT \<or> vtype b = TYPE_FLOAT
      then val_bool (f64_le (val_to_float a) (val_to_float b))
      else val_bool (val_to_int a \<le>s val_to_int b))"

definition val_ge :: "val \<Rightarrow> val \<Rightarrow> val" where
  "val_ge a b =
     (if vtype a = TYPE_FLOAT \<or> vtype b = TYPE_FLOAT
      then val_bool (f64_le (val_to_float b) (val_to_float a))
      else val_bool (val_to_int b \<le>s val_to_int a))"

definition val_eq :: "val \<Rightarrow> val \<Rightarrow> val" where
  "val_eq a b = val_bool (val_equal a b)"

definition val_ne :: "val \<Rightarrow> val \<Rightarrow> val" where
  "val_ne a b = val_bool (\<not> val_equal a b)"

definition val_and :: "val \<Rightarrow> val \<Rightarrow> val" where
  "val_and a b = val_bool (val_is_truthy a \<and> val_is_truthy b)"

definition val_or :: "val \<Rightarrow> val \<Rightarrow> val" where
  "val_or a b = val_bool (val_is_truthy a \<or> val_is_truthy b)"

definition val_not :: "val \<Rightarrow> val" where
  "val_not a = val_bool (\<not> val_is_truthy a)"

subsection \<open>Division\<close>

lemma sint_of_int_u64: "- (2 ^ 63) \<le> k \<Longrightarrow> k < 2 ^ 63 \<Longrightarrow> sint (of_int k :: u64) = k"
  by (simp add: sint_sbintrunc' signed_take_bit_int_eq_self)

lemma sint_u64_range: "- (2 ^ 63) \<le> sint (w :: u64)" "sint (w :: u64) < 2 ^ 63"
  using sint_ge [of w] sint_lt [of w] by simp_all

lemma quot_range:
  assumes "- (2 ^ 63) \<le> x" "x < 2 ^ 63" "- (2 ^ 63) \<le> y" "y < 2 ^ 63" "y \<noteq> 0"
    "\<not> (x = - (2 ^ 63) \<and> y = - 1)"
  shows "- (2 ^ 63) \<le> x sdiv y" "x sdiv y < (2 :: int) ^ 63"
proof -
  have r: "- \<bar>x\<bar> \<le> x sdiv y" "x sdiv y \<le> \<bar>x\<bar>" using sdiv_int_range [of x y] by auto
  have "x = - (2 ^ 63) \<Longrightarrow> x sdiv y \<noteq> - x"
    using int_sdiv_negated_is_minus1 [of x y] assms(6) by simp
  then show "- (2 ^ 63) \<le> x sdiv y" and "x sdiv y < 2 ^ 63" using r assms(1,2) by linarith+
qed

text \<open>Integer division truncates and the remainder goes with it: unless the divisor is zero (an
  error value) or the quotient is not representable (a trap), \<open>a = q * b + r\<close> with
  \<open>|r| < |b|\<close> and the sign of \<open>r\<close> that of \<open>a\<close>.\<close>

lemma val_div_mod:
  assumes "vtype a = TYPE_INT" and "vtype b = TYPE_INT" and "ival b \<noteq> 0"
    and "\<not> (sint (ival a) = - (2 ^ 63) \<and> sint (ival b) = - 1)"
  shows "\<exists>q r. val_div a b = Inr (val_int q) \<and> val_mod a b = Inr (val_int r) \<and>
    sint (ival a) = sint q * sint (ival b) + sint r \<and> \<bar>sint r\<bar> < \<bar>sint (ival b)\<bar> \<and>
    (sint r = 0 \<or> sgn (sint r) = sgn (sint (ival a)))"
proof -
  let ?x = "sint (ival a)" and ?y = "sint (ival b)"
  have y: "?y \<noteq> 0" using assms(3) signed_word_eqI [of "ival b" 0] by auto
  have q: "sint (of_int (?x sdiv ?y) :: u64) = ?x sdiv ?y"
    using quot_range [of ?x ?y] sint_u64_range [of "ival a"] sint_u64_range [of "ival b"] y assms(4)
    by (intro sint_of_int_u64)
  have m: "?x smod ?y = sgn ?x * (\<bar>?x\<bar> mod \<bar>?y\<bar>)" by (simp add: signed_modulo_int_def)
  have lt: "\<bar>?x smod ?y\<bar> < \<bar>?y\<bar>" using smod_int_range [OF y, of ?x] by auto
  have r: "sint (of_int (?x smod ?y) :: u64) = ?x smod ?y"
    using lt sint_u64_range [of "ival b"] by (intro sint_of_int_u64) auto
  have sg: "?x smod ?y = 0 \<or> sgn (?x smod ?y) = sgn ?x"
  proof (cases "\<bar>?x\<bar> mod \<bar>?y\<bar> = 0")
    case False
    moreover have "0 \<le> \<bar>?x\<bar> mod \<bar>?y\<bar>" using y by simp
    ultimately have "sgn (\<bar>?x\<bar> mod \<bar>?y\<bar>) = 1" by (intro sgn_pos) linarith
    then show ?thesis unfolding m by (simp add: sgn_mult)
  qed (simp add: m)
  have nt: "\<not> (?x = - (2 ^ 63) \<and> ?y = - 1)" by (rule assms(4))
  have eq: "?x = ?x sdiv ?y * ?y + ?x smod ?y" by (simp add: sdiv_mult_smod_eq)
  have "val_div a b = Inr (val_int (of_int (?x sdiv ?y)))" and "val_mod a b = Inr (val_int (of_int (?x smod ?y)))"
    using assms(1-3) nt by (simp_all add: val_div_def val_mod_def val_to_int_def sdiv64_def smod64_def Let_def)
  then show ?thesis using q r lt sg eq by metis
qed

lemma val_div_mod_witness:
  "\<exists>q r. val_div (val_int (- 7)) (val_int 2) = Inr (val_int q) \<and>
     val_mod (val_int (- 7)) (val_int 2) = Inr (val_int r) \<and> - 7 = sint q * 2 + sint r \<and> \<bar>sint r\<bar> < 2"
proof -
  have "vtype (val_int n) = TYPE_INT" "ival (val_int n) = n" for n by (simp_all add: val_int_def)
  then show ?thesis using val_div_mod [of "val_int (- 7)" "val_int 2"] by auto
qed

lemma val_div_traps:
  assumes "vtype a = TYPE_INT" and "vtype b = TYPE_INT"
  shows "(\<exists>e. val_div a b = Inl e) \<longleftrightarrow> sint (ival a) = - (2 ^ 63) \<and> sint (ival b) = - 1"
  using assms by (auto simp: val_div_def val_to_int_def sdiv64_def Let_def)
end
