(* ===== verification/DynArray.thy ===== *)
theory DynArray
  imports Values
begin

section \<open>Reference-counted arrays (\<^verbatim>\<open>core/dynarray.c\<close>, \<open>val_free\<close> and \<open>val_clone\<close>)\<close>

text \<open>
  The heap of arrays is explicit, because arrays are shared: an address is an index, a freed array
  is \<open>None\<close> and its address is never used again, so a use after free is a fault. \<open>items\<close> has
  \<open>capacity\<close> elements, the first \<open>asize\<close> of them in use. \<open>refcount\<close> is an \<open>int\<close> of the C
  code; it counts values in memory and cannot reach its bound.
\<close>

record dynarray =
  a_name :: string
  items :: "val list"
  asize :: nat
  refcount :: int

type_synonym heap = "dynarray option list"

definition arr_at :: "heap \<Rightarrow> nat \<Rightarrow> dynarray option" where
  "arr_at h a = (if a < length h then h ! a else None)"

text \<open>The array a value refers to.\<close>

definition ref_of :: "val \<Rightarrow> nat option" where
  "ref_of v = (if vtype v = TYPE_ARR then (case data v of DArr a \<Rightarrow> Some a | _ \<Rightarrow> None) else None)"

subsection \<open>Reference counts\<close>

definition arr_ref :: "heap \<Rightarrow> nat \<Rightarrow> heap res" where
  "arr_ref h a =
     (case arr_at h a of
        None \<Rightarrow> Inl UseAfterFree
      | Some arr \<Rightarrow> Inr (h[a := Some (arr\<lparr>refcount := refcount arr + 1\<rparr>)]))"

text \<open>
  \<open>val_free\<close>, \<open>arr_unref\<close> and \<open>arr_free\<close> call one another; \<open>free_vals\<close> does what they do on the
  list of values still to be freed, in the order of the calls. A count below 1 is an array that
  is being freed already, which the recursion of the C code would free twice.
\<close>

function free_vals :: "heap \<Rightarrow> val list \<Rightarrow> heap res" where
  "free_vals h [] = Inr h"
| "free_vals h (v # vs) =
     (case ref_of v of
        None \<Rightarrow> free_vals h vs
      | Some a \<Rightarrow>
          (case arr_at h a of
             None \<Rightarrow> Inl UseAfterFree
           | Some arr \<Rightarrow>
               if refcount arr < 1 then Inl UseAfterFree
               else if refcount arr - 1 \<le> 0 then
                 free_vals (h[a := None]) (take (asize arr) (items arr) @ vs)
               else free_vals (h[a := Some (arr\<lparr>refcount := refcount arr - 1\<rparr>)]) vs))"
  by pat_completeness auto

definition live_count :: "dynarray option \<Rightarrow> nat" where
  "live_count x = (case x of None \<Rightarrow> 0 | Some arr \<Rightarrow> nat (refcount arr))"

lemma sum_list_upd_less:
  fixes f :: "'a \<Rightarrow> nat"
  assumes "a < length h" and "f x < f (h ! a)"
  shows "sum_list (map f (h[a := x])) < sum_list (map f h)"
  using assms
proof (induction h arbitrary: a)
  case (Cons y ys)
  then show ?case by (cases a) auto
qed simp

termination free_vals
  by (relation "measures [\<lambda>(h, vs). sum_list (map live_count h), \<lambda>(h, vs). length vs]")
    (auto simp: arr_at_def live_count_def split: if_splits intro!: sum_list_upd_less)

declare free_vals.simps(2) [simp del]

definition val_free :: "heap \<Rightarrow> val \<Rightarrow> heap res" where
  "val_free h v = free_vals h [v]"

definition arr_unref :: "heap \<Rightarrow> nat \<Rightarrow> heap res" where
  "arr_unref h a = free_vals h [val_nil\<lparr>vtype := TYPE_ARR, data := DArr a\<rparr>]"

text \<open>What \<open>val_free\<close> leaves in the value itself.\<close>

definition freed :: "val \<Rightarrow> val" where
  "freed v =
     v\<lparr>vtype := TYPE_NIL,
       data := (if vtype v \<in> {TYPE_STR, TYPE_ARR, TYPE_REF, TYPE_PTR} then NoData else data v),
       err_msg := (if vtype v = TYPE_ERR then None else err_msg v)\<rparr>"

definition val_clone :: "heap \<Rightarrow> val \<Rightarrow> (val \<times> heap) res" where
  "val_clone h v =
     (if vtype v = TYPE_STR then
        Inr (if data v = NoData then v\<lparr>data := DStr []\<rparr> else v, h)
      else case ref_of v of
        Some a \<Rightarrow> (case arr_ref h a of Inl e \<Rightarrow> Inl e | Inr h' \<Rightarrow> Inr (v, h'))
      | None \<Rightarrow> Inr (v, h))"

subsection \<open>Creation and lookup by name\<close>

text \<open>\<open>sizeof (Value)\<close> on the 64-bit targets, and the default pool.\<close>

abbreviation (input) SIZEOF_VALUE :: nat where "SIZEOF_VALUE \<equiv> 48"
abbreviation (input) POOL_BYTES :: nat where "POOL_BYTES \<equiv> 16 * 1024 * 1024"

definition new_array :: "string \<Rightarrow> dynarray" where
  "new_array name = \<lparr>a_name = name, items = replicate 4 val_nil, asize = 0, refcount = 1\<rparr>"

definition arr_create_anon :: "heap \<Rightarrow> nat \<times> heap" where
  "arr_create_anon h = (length h, h @ [Some (new_array [])])"

fun arr_get :: "heap \<Rightarrow> nat list \<Rightarrow> string \<Rightarrow> nat option res" where
  "arr_get h [] name = Inr None"
| "arr_get h (a # as) name =
     (case arr_at h a of
        None \<Rightarrow> Inl UseAfterFree
      | Some arr \<Rightarrow> if a_name arr = name then Inr (Some a) else arr_get h as name)"

definition arr_get_or_create :: "heap \<Rightarrow> nat list \<Rightarrow> string \<Rightarrow> (nat \<times> heap \<times> nat list) res" where
  "arr_get_or_create h g name =
     (case arr_get h g name of
        Inl e \<Rightarrow> Inl e
      | Inr (Some a) \<Rightarrow> Inr (a, h, g)
      | Inr None \<Rightarrow>
          if MAX_ARRAYS \<le> length g then Inl (Die ''Array limit reached'')
          else Inr (length h, h @ [Some (new_array (trunc NAME_LEN name))], g @ [length h]))"

subsection \<open>Growing, writing, reading, deleting\<close>

text \<open>The doubling loop on \<open>size_t\<close>; \<open>None\<close> is the loop that never ends.\<close>

partial_function (option) grow_loop :: "u64 \<Rightarrow> u64 \<Rightarrow> u64 option" where
  "grow_loop nc idx = (if nc \<le> idx then grow_loop (push_bit 1 nc) idx else Some nc)"

declare grow_loop.simps [code]

text \<open>
  \<open>xmalloc\<close> gets \<open>nc * sizeof (Value)\<close> modulo \<open>2 ^ 64\<close>: a product beyond the pool ends the
  process, a product that wrapped to something small gets a block that the copy overruns.
\<close>

definition arr_ensure_cap :: "dynarray \<Rightarrow> u64 \<Rightarrow> dynarray res" where
  "arr_ensure_cap arr idx =
     (if unat idx < length (items arr) then Inr arr
      else case grow_loop (of_nat (length (items arr))) idx of
        None \<Rightarrow> Inl Hang
      | Some nc \<Rightarrow>
          if POOL_BYTES < unat nc * SIZEOF_VALUE mod 2 ^ 64 then
            Inl (Die ''Buddy alloc failed (pool exhausted or fragmented)'')
          else if 2 ^ 64 \<le> unat nc * SIZEOF_VALUE then Inl OutOfBounds
          else Inr (arr\<lparr>items := items arr @ replicate (unat nc - length (items arr)) val_nil\<rparr>))"

text \<open>
  \<open>val_free\<close> on slot \<open>i\<close> of array \<open>a\<close>. The slot is cleared before the value is released, where the
  C code clears it after: the difference shows only when the release frees \<open>a\<close> itself, and then
  both end in a fault.
\<close>

definition free_slot :: "heap \<Rightarrow> nat \<Rightarrow> dynarray \<Rightarrow> nat \<Rightarrow> heap res" where
  "free_slot h a arr i =
     val_free (h[a := Some (arr\<lparr>items := (items arr)[i := freed (items arr ! i)]\<rparr>)]) (items arr ! i)"

definition arr_set :: "heap \<Rightarrow> nat \<Rightarrow> u64 \<Rightarrow> val \<Rightarrow> heap res" where
  "arr_set h a idx v =
     (case arr_at h a of
        None \<Rightarrow> Inl UseAfterFree
      | Some arr0 \<Rightarrow>
          (case arr_ensure_cap arr0 idx of
             Inl e \<Rightarrow> Inl e
           | Inr arr \<Rightarrow>
               (case free_slot h a arr (unat idx) of
                  Inl e \<Rightarrow> Inl e
                | Inr h1 \<Rightarrow>
                    (case val_clone h1 v of
                       Inl e \<Rightarrow> Inl e
                     | Inr (w, h2) \<Rightarrow>
                         (case arr_at h2 a of
                            None \<Rightarrow> Inl UseAfterFree
                          | Some arr2 \<Rightarrow>
                              Inr (h2[a := Some (arr2\<lparr>items := (items arr2)[unat idx := w],
                                asize := max (asize arr2) (unat idx + 1)\<rparr>)]))))))"

definition arr_get_at :: "heap \<Rightarrow> nat \<Rightarrow> u64 \<Rightarrow> (val \<times> heap) res" where
  "arr_get_at h a idx =
     (case arr_at h a of
        None \<Rightarrow> Inl UseAfterFree
      | Some arr \<Rightarrow>
          if asize arr \<le> unat idx then Inr (val_err 2 ''index out of range'', h)
          else
            let v = items arr ! unat idx in
            if vtype v = TYPE_NIL \<and> data v = NoData then Inr (val_nil, h) else val_clone h v)"

definition arr_delete :: "heap \<Rightarrow> nat \<Rightarrow> u64 \<Rightarrow> heap res" where
  "arr_delete h a idx =
     (case arr_at h a of
        None \<Rightarrow> Inl UseAfterFree
      | Some arr \<Rightarrow>
          if asize arr \<le> unat idx then Inr h
          else
            (case free_slot h a arr (unat idx) of
               Inl e \<Rightarrow> Inl e
             | Inr h1 \<Rightarrow>
                 (case arr_at h1 a of
                    None \<Rightarrow> Inl UseAfterFree
                  | Some arr1 \<Rightarrow> Inr (h1[a := Some (arr1\<lparr>items := (items arr1)[unat idx := val_nil]\<rparr>)]))))"

subsection \<open>Printing\<close>

text \<open>
  The text \<open>val_print\<close> writes; \<open>fn_print\<close> is the hook for functions. An array that contains
  itself makes the C code recurse until the stack is gone, so the model counts the nesting down
  from \<open>n\<close>.
\<close>

fun join_items :: "string res list \<Rightarrow> string res" where
  "join_items [] = Inr []"
| "join_items [x] = x"
| "join_items (x # xs) =
     (case x of
        Inl e \<Rightarrow> Inl e
      | Inr s \<Rightarrow> (case join_items xs of Inl e \<Rightarrow> Inl e | Inr t \<Rightarrow> Inr (s @ '', '' @ t)))"

fun val_print :: "nat \<Rightarrow> (u64 \<Rightarrow> string) \<Rightarrow> heap \<Rightarrow> val \<Rightarrow> string res" where
  "val_print 0 fn_print h v = Inl Hang"
| "val_print (Suc n) fn_print h v =
     (case vtype v of
        TYPE_NIL \<Rightarrow> Inr ''nil''
      | TYPE_BOOL \<Rightarrow> Inr (if ival v \<noteq> 0 then ''true'' else ''false'')
      | TYPE_INT \<Rightarrow> Inr (show_int (sint (ival v)))
      | TYPE_FLOAT \<Rightarrow> Inr (show_g (fval v))
      | TYPE_STR \<Rightarrow> Inr (case data_str v of Some s \<Rightarrow> s | None \<Rightarrow> ''(null str)'')
      | TYPE_ARR \<Rightarrow>
          (case ref_of v of
             None \<Rightarrow> Inr ''[]''
           | Some a \<Rightarrow>
               (case arr_at h a of
                  None \<Rightarrow> Inl UseAfterFree
                | Some arr \<Rightarrow>
                    (case join_items (List.map (val_print n fn_print h) (take (asize arr) (items arr))) of
                       Inl e \<Rightarrow> Inl e
                     | Inr s \<Rightarrow> Inr (''['' @ s @ '']''))))
      | TYPE_FN \<Rightarrow> Inr (fn_print (ival v))
      | TYPE_REF \<Rightarrow> Inr (''<ref:'' @ (case data_str v of Some s \<Rightarrow> s | None \<Rightarrow> ''?'') @ ''>'')
      | TYPE_PTR \<Rightarrow> Inr (''<ptr:'' @ (case data_str v of Some s \<Rightarrow> s | None \<Rightarrow> ''?'') @ ''>'')
      | TYPE_ERR \<Rightarrow>
          Inr (''ERR('' @ show_int (sint (err_code v)) @ '': '' @ or_empty (err_msg v) @ '')''))"

subsection \<open>Reference counts are exact\<close>

text \<open>
  \<open>nrefs vs a\<close> counts the values of a list that refer to array \<open>a\<close>, \<open>item_refs h a\<close> those in
  the items of all live arrays. With \<open>R\<close> the values that live outside the heap, every count is
  the number of references, a freed array has none, and the items beyond the size refer to no
  array. The capacities are the powers of two from 4 that fit into the pool.
\<close>

definition nrefs :: "val list \<Rightarrow> nat \<Rightarrow> nat" where
  "nrefs vs a = length (filter (\<lambda>v. ref_of v = Some a) vs)"

definition orefs :: "nat \<Rightarrow> dynarray option \<Rightarrow> nat" where
  "orefs a x = (case x of None \<Rightarrow> 0 | Some arr \<Rightarrow> nrefs (items arr) a)"

definition item_refs :: "heap \<Rightarrow> nat \<Rightarrow> nat" where
  "item_refs h a = sum_list (map (orefs a) h)"

definition arr_ok :: "dynarray \<Rightarrow> bool" where
  "arr_ok arr \<longleftrightarrow> 0 < refcount arr \<and> asize arr \<le> length (items arr) \<and>
     (\<exists>k. 2 \<le> k \<and> k \<le> 18 \<and> length (items arr) = 2 ^ k) \<and>
     (\<forall>v \<in> set (drop (asize arr) (items arr)). ref_of v = None)"

definition heap_ok :: "heap \<Rightarrow> val list \<Rightarrow> bool" where
  "heap_ok h R \<longleftrightarrow>
     (\<forall>a. case arr_at h a of
            None \<Rightarrow> nrefs R a + item_refs h a = 0
          | Some arr \<Rightarrow> arr_ok arr \<and> refcount arr = int (nrefs R a + item_refs h a))"

lemma nrefs_simps [simp]:
  "nrefs [] a = 0"
  "nrefs (v # vs) a = (if ref_of v = Some a then 1 else 0) + nrefs vs a"
  "nrefs (vs @ ws) a = nrefs vs a + nrefs ws a"
  by (simp_all add: nrefs_def)

lemma nrefs_none: "(\<And>v. v \<in> set vs \<Longrightarrow> ref_of v = None) \<Longrightarrow> nrefs vs a = 0"
  by (induction vs) auto

lemma nrefs_take: "\<forall>v \<in> set (drop n vs). ref_of v = None \<Longrightarrow> nrefs (take n vs) a = nrefs vs a"
  by (metis append_take_drop_id nrefs_simps(3) nrefs_none add_0_right)

lemma nrefs_upd:
  "i < length vs \<Longrightarrow> nrefs (vs[i := v]) a + nrefs [vs ! i] a = nrefs vs a + nrefs [v] a"
proof (induction vs arbitrary: i)
  case (Cons x xs)
  then show ?case by (cases i) fastforce+
qed simp

lemma item_refs_upd:
  "a < length h \<Longrightarrow> item_refs (h[a := x]) b + orefs b (h ! a) = item_refs h b + orefs b x"
proof (induction h arbitrary: a)
  case (Cons y ys)
  then show ?case by (cases a) (fastforce simp: item_refs_def)+
qed simp

lemma item_refs_same: "a < length h \<Longrightarrow> (\<And>b. orefs b x = orefs b (h ! a)) \<Longrightarrow> item_refs (h[a := x]) b = item_refs h b"
  using item_refs_upd [of a h x b] by simp

lemma orefs_refcount [simp]: "orefs b (Some (arr\<lparr>refcount := n\<rparr>)) = orefs b (Some arr)"
  by (simp add: orefs_def)

lemma arr_at_upd:
  "a < length h \<Longrightarrow> arr_at (h[a := x]) b = (if b = a then x else arr_at h b)"
  by (auto simp: arr_at_def)

lemma arr_at_Some: "arr_at h a = Some arr \<Longrightarrow> a < length h \<and> h ! a = Some arr"
  by (simp add: arr_at_def split: if_splits)

lemma heap_ok_live: "heap_ok h R \<Longrightarrow> 0 < nrefs R a + item_refs h a \<Longrightarrow> \<exists>arr. arr_at h a = Some arr"
  unfolding heap_ok_def by (drule spec [of _ a]) (simp split: option.splits)

lemma heap_okD:
  "heap_ok h R \<Longrightarrow> arr_at h a = Some arr \<Longrightarrow> arr_ok arr \<and> refcount arr = int (nrefs R a + item_refs h a)"
  unfolding heap_ok_def by (drule spec [of _ a]) simp

lemma heap_okN: "heap_ok h R \<Longrightarrow> arr_at h a = None \<Longrightarrow> nrefs R a + item_refs h a = 0"
  unfolding heap_ok_def by (drule spec [of _ a]) simp

lemma heap_okI:
  assumes "\<And>a. arr_at h a = None \<Longrightarrow> nrefs R a + item_refs h a = 0"
    and "\<And>a arr. arr_at h a = Some arr \<Longrightarrow> arr_ok arr \<and> refcount arr = int (nrefs R a + item_refs h a)"
  shows "heap_ok h R"
  unfolding heap_ok_def using assms by (auto split: option.split)

lemma heap_ok_cong: "(\<And>a. nrefs R a = nrefs R' a) \<Longrightarrow> heap_ok h R = heap_ok h R'"
  by (simp add: heap_ok_def cong: option.case_cong)

lemma heap_ok_drop_ref:
  assumes "heap_ok h (v # R)" and "ref_of v = Some a" and "arr_at h a = Some arr" and "1 < refcount arr"
  shows "heap_ok (h[a := Some (arr\<lparr>refcount := refcount arr - 1\<rparr>)]) R"
proof -
  have a: "a < length h" "h ! a = Some arr" using arr_at_Some [OF assms(3)] by auto
  have same: "item_refs (h[a := Some (arr\<lparr>refcount := n\<rparr>)]) b = item_refs h b" for b n
    using a by (intro item_refs_same) simp_all
  show ?thesis
  proof (rule heap_okI)
    fix b assume "arr_at (h[a := Some (arr\<lparr>refcount := refcount arr - 1\<rparr>)]) b = None"
    then show "nrefs R b + item_refs (h[a := Some (arr\<lparr>refcount := refcount arr - 1\<rparr>)]) b = 0"
      using heap_okN [OF assms(1), of b] a by (auto simp: arr_at_upd same split: if_splits)
  next
    fix b x assume "arr_at (h[a := Some (arr\<lparr>refcount := refcount arr - 1\<rparr>)]) b = Some x"
    then show "arr_ok x \<and>
      refcount x = int (nrefs R b + item_refs (h[a := Some (arr\<lparr>refcount := refcount arr - 1\<rparr>)]) b)"
      using heap_okD [OF assms(1), of b] assms(2-4) a
      by (auto simp: arr_at_upd same arr_ok_def split: if_splits)
  qed
qed

lemma heap_ok_free_array:
  assumes "heap_ok h (v # R)" and "ref_of v = Some a" and "arr_at h a = Some arr" and "refcount arr = 1"
  shows "heap_ok (h[a := None]) (take (asize arr) (items arr) @ R)"
proof -
  have a: "a < length h" "h ! a = Some arr" using arr_at_Some [OF assms(3)] by auto
  have ok: "arr_ok arr" "nrefs R a + item_refs h a = 0"
    using heap_okD [OF assms(1,3)] assms(2,4) by auto
  have items: "nrefs (take (asize arr) (items arr)) b = nrefs (items arr) b" for b
    using ok(1) by (intro nrefs_take) (simp add: arr_ok_def)
  have refs: "nrefs (items arr) b + item_refs (h[a := None]) b = item_refs h b" for b
    using item_refs_upd [OF a(1), of None b] a(2) by (simp add: orefs_def)
  show ?thesis
  proof (rule heap_okI)
    fix b assume "arr_at (h[a := None]) b = None"
    then show "nrefs (take (asize arr) (items arr) @ R) b + item_refs (h[a := None]) b = 0"
      using heap_okN [OF assms(1), of b] a ok(2) refs [of b] items
      by (auto simp: arr_at_upd split: if_splits)
  next
    fix b x assume "arr_at (h[a := None]) b = Some x"
    then show "arr_ok x \<and>
      refcount x = int (nrefs (take (asize arr) (items arr) @ R) b + item_refs (h[a := None]) b)"
      using heap_okD [OF assms(1), of b] assms(2) a refs [of b] items
      by (auto simp: arr_at_upd split: if_splits)
  qed
qed

lemma free_vals_ok: "heap_ok h (vs @ R) \<Longrightarrow> \<exists>h'. free_vals h vs = Inr h' \<and> heap_ok h' R"
proof (induction h vs rule: free_vals.induct)
  case (2 h v vs)
  show ?case
  proof (cases "ref_of v")
    case None
    then have "heap_ok h (vs @ R)"
      using "2.prems" heap_ok_cong [of "(v # vs) @ R" "vs @ R"] by simp
    then show ?thesis using "2.IH"(1) None by (simp add: free_vals.simps(2))
  next
    case (Some a)
    then obtain arr where arr: "arr_at h a = Some arr"
      using heap_ok_live [OF "2.prems", of a] by auto
    have rc: "1 \<le> refcount arr" using heap_okD [OF "2.prems" arr] by (simp add: arr_ok_def)
    have v: "heap_ok h (v # (vs @ R))" using "2.prems" by simp
    show ?thesis
    proof (cases "refcount arr = 1")
      case True
      then have "heap_ok (h[a := None]) ((take (asize arr) (items arr) @ vs) @ R)"
        using heap_ok_free_array [OF v Some arr] by simp
      then show ?thesis
        using "2.IH"(2) [OF Some arr] True Some arr by (simp add: free_vals.simps(2))
    next
      case False
      then have "heap_ok (h[a := Some (arr\<lparr>refcount := refcount arr - 1\<rparr>)]) (vs @ R)"
        using heap_ok_drop_ref [OF v Some arr] rc by simp
      then show ?thesis
        using "2.IH"(3) [OF Some arr] False rc Some arr by (simp add: free_vals.simps(2))
    qed
  qed
qed simp

lemma free_vals_survivor:
  "free_vals h vs = Inr h' \<Longrightarrow> arr_at h' b = Some x \<Longrightarrow>
   \<exists>n. arr_at h b = Some (x\<lparr>refcount := n\<rparr>)"
proof (induction h vs rule: free_vals.induct)
  case (1 h)
  then show ?case by (metis dynarray.surjective dynarray.update_convs(4) sum.inject(2) free_vals.simps(1))
next
  case (2 h v vs)
  show ?case
  proof (cases "ref_of v")
    case None
    then show ?thesis using 2 by (simp add: free_vals.simps(2))
  next
    case (Some a)
    then obtain arr where arr: "arr_at h a = Some arr" "\<not> refcount arr < 1"
      using "2.prems"(1) by (auto simp: free_vals.simps(2) split: option.splits if_splits)
    have a: "a < length h" using arr_at_Some [OF arr(1)] by auto
    show ?thesis
    proof (cases "refcount arr - 1 \<le> 0")
      case True
      then have "\<exists>n. arr_at (h[a := None]) b = Some (x\<lparr>refcount := n\<rparr>)"
        using "2.IH"(2) [OF Some arr] "2.prems" Some arr by (simp add: free_vals.simps(2))
      then show ?thesis using a by (auto simp: arr_at_upd split: if_splits)
    next
      case False
      then have "\<exists>n. arr_at (h[a := Some (arr\<lparr>refcount := refcount arr - 1\<rparr>)]) b = Some (x\<lparr>refcount := n\<rparr>)"
        using "2.IH"(3) [OF Some arr] "2.prems" Some arr by (simp add: free_vals.simps(2))
      then obtain n where n: "arr_at (h[a := Some (arr\<lparr>refcount := refcount arr - 1\<rparr>)]) b = Some (x\<lparr>refcount := n\<rparr>)"
        by blast
      show ?thesis
      proof (cases "b = a")
        case True
        then have "arr\<lparr>refcount := refcount arr - 1\<rparr> = x\<lparr>refcount := n\<rparr>" using n a by (simp add: arr_at_upd)
        then have "arr = x\<lparr>refcount := refcount arr\<rparr>" by (cases arr; cases x) simp
        then show ?thesis using arr(1) True by metis
      next
        case False
        then show ?thesis using n a by (auto simp: arr_at_upd)
      qed
    qed
  qed
qed

text \<open>What a value looks like once it is cloned.\<close>

definition stored :: "val \<Rightarrow> val" where
  "stored v = (if vtype v = TYPE_STR \<and> data v = NoData then v\<lparr>data := DStr []\<rparr> else v)"

lemma clone_ok:
  assumes "heap_ok h R" and "\<And>a. ref_of v = Some a \<Longrightarrow> 0 < nrefs R a + item_refs h a"
  shows "\<exists>w h'. val_clone h v = Inr (w, h') \<and> heap_ok h' (w # R) \<and> ref_of w = ref_of v \<and>
    w = (if vtype v = TYPE_STR \<and> data v = NoData then v\<lparr>data := DStr []\<rparr> else v) \<and>
    (\<forall>b. map_option (\<lambda>x. x\<lparr>refcount := 0\<rparr>) (arr_at h' b) = map_option (\<lambda>x. x\<lparr>refcount := 0\<rparr>) (arr_at h b))"
proof (cases "ref_of v")
  case None
  let ?w = "if vtype v = TYPE_STR \<and> data v = NoData then v\<lparr>data := DStr []\<rparr> else v"
  have w: "ref_of ?w = None" using None by (auto simp: ref_of_def)
  have "heap_ok h (?w # R)" using assms(1) w heap_ok_cong [of "?w # R" R] by simp
  moreover have "val_clone h v = Inr (?w, h)" using None by (auto simp: val_clone_def)
  ultimately show ?thesis using w None by simp
next
  case (Some a)
  then have nstr: "vtype v \<noteq> TYPE_STR" by (auto simp: ref_of_def split: if_splits)
  obtain arr where arr: "arr_at h a = Some arr" using heap_ok_live [OF assms(1,2)] Some by blast
  have a: "a < length h" "h ! a = Some arr" using arr_at_Some [OF arr] by auto
  let ?h = "h[a := Some (arr\<lparr>refcount := refcount arr + 1\<rparr>)]"
  have same: "item_refs ?h b = item_refs h b" for b using a by (intro item_refs_same) simp_all
  have "heap_ok ?h (v # R)"
  proof (rule heap_okI)
    fix b assume "arr_at ?h b = None"
    then show "nrefs (v # R) b + item_refs ?h b = 0"
      using heap_okN [OF assms(1), of b] a Some by (auto simp: arr_at_upd same split: if_splits)
  next
    fix b x assume "arr_at ?h b = Some x"
    then show "arr_ok x \<and> refcount x = int (nrefs (v # R) b + item_refs ?h b)"
      using heap_okD [OF assms(1), of b] arr a Some by (auto simp: arr_at_upd same arr_ok_def split: if_splits)
  qed
  then show ?thesis using Some arr nstr a by (auto simp: val_clone_def arr_ref_def arr_at_upd)
qed

lemma clone_stored:
  assumes "heap_ok h R" and "\<And>a. ref_of v = Some a \<Longrightarrow> 0 < nrefs R a + item_refs h a"
  obtains h' where "val_clone h v = Inr (stored v, h')" and "heap_ok h' (stored v # R)"
  using clone_ok [of h R v] assms unfolding stored_def by blast

lemma ref_of_stored [simp]: "ref_of (stored v) = ref_of v"
  by (auto simp: stored_def ref_of_def)

lemma nrefs_held: "v \<in> set R \<Longrightarrow> ref_of v = Some b \<Longrightarrow> 0 < nrefs R b"
  by (auto simp: nrefs_def filter_empty_conv)

lemma free_clone:
  assumes "val_clone h v = Inr (w, h')" and "\<And>a arr. ref_of v = Some a \<Longrightarrow> arr_at h a = Some arr \<Longrightarrow> 0 < refcount arr"
  shows "val_free h' w = Inr h"
proof (cases "ref_of v")
  case None
  then have "h' = h" "ref_of w = None"
    using assms(1) by (auto simp: val_clone_def ref_of_def split: if_splits)
  then show ?thesis by (simp add: val_free_def free_vals.simps(2))
next
  case (Some a)
  then have "vtype v \<noteq> TYPE_STR" by (auto simp: ref_of_def split: if_splits)
  then obtain arr where arr: "arr_at h a = Some arr" "w = v"
    "h' = h[a := Some (arr\<lparr>refcount := refcount arr + 1\<rparr>)]"
    using assms(1) Some by (auto simp: val_clone_def arr_ref_def split: option.splits)
  have a: "a < length h" "h ! a = Some arr" using arr_at_Some [OF arr(1)] by auto
  have "h[a := Some (arr\<lparr>refcount := refcount arr\<rparr>)] = h" using a by (simp add: list_update_same_conv)
  then show ?thesis
    using arr a Some assms(2) [OF Some arr(1)]
    by (simp add: val_free_def free_vals.simps(2) arr_at_upd)
qed

lemma grow_loop_returns:
  assumes "2 \<le> k" and "k \<le> n" and "n \<le> 18" and "unat idx < 2 ^ n" and "2 ^ k \<le> unat idx"
  shows "\<exists>j. k < j \<and> j \<le> n \<and> grow_loop (of_nat (2 ^ k)) idx = Some (of_nat (2 ^ j)) \<and> unat idx < 2 ^ j"
  using assms
proof (induction "n - k" arbitrary: k)
  case 0
  then show ?case by simp
next
  case (Suc d)
  have p: "(2::nat) ^ i < 2 ^ 64" if "i \<le> 18" for i
    using that by (intro power_strict_increasing) simp_all
  have le: "(of_nat (2 ^ k) :: u64) \<le> idx"
    using Suc.prems p [of k] by (simp add: word_le_nat_alt unat_u64_of_nat del: of_nat_power)
  have dbl: "push_bit 1 (of_nat (2 ^ k) :: u64) = of_nat (2 ^ Suc k)"
    by (simp add: push_bit_eq_mult)
  have "k < n" using Suc.hyps(2) by simp
  show ?case
  proof (cases "2 ^ Suc k \<le> unat idx")
    case True
    then obtain j where "Suc k < j" "j \<le> n" "grow_loop (of_nat (2 ^ Suc k)) idx = Some (of_nat (2 ^ j))"
      "unat idx < 2 ^ j"
    proof -
      have "d = n - Suc k" "2 \<le> Suc k" "Suc k \<le> n" using Suc.hyps(2) Suc.prems \<open>k < n\<close> by simp_all
      from Suc.hyps(1) [OF this(1,2,3) Suc.prems(3,4) True] that show thesis by blast
    qed
    then show ?thesis
      using le unfolding grow_loop.simps [of "of_nat (2 ^ k)"] dbl
      by (intro exI [of _ j]) (simp del: of_nat_power power_Suc)
  next
    case False
    then have "\<not> (of_nat (2 ^ Suc k) :: u64) \<le> idx"
      using p [of "Suc k"] \<open>k < n\<close> Suc.prems(3)
      by (simp add: word_le_nat_alt unat_u64_of_nat del: of_nat_power power_Suc)
    then have "grow_loop (of_nat (2 ^ k)) idx = Some (of_nat (2 ^ Suc k))"
      using le dbl by (simp add: grow_loop.simps [of "of_nat (2 ^ k)"] grow_loop.simps [of "of_nat (2 ^ Suc k)"]
          del: of_nat_power power_Suc)
    then show ?thesis using False \<open>k < n\<close> by (intro exI [of _ "Suc k"]) simp
  qed
qed

lemma ensure_cap_ok:
  assumes "arr_ok arr" and "unat idx < 2 ^ 18"
  shows "\<exists>n. arr_ensure_cap arr idx = Inr (arr\<lparr>items := items arr @ replicate n val_nil\<rparr>) \<and>
    unat idx < length (items arr) + n \<and> arr_ok (arr\<lparr>items := items arr @ replicate n val_nil\<rparr>)"
proof -
  obtain k where k: "2 \<le> k" "k \<le> 18" "length (items arr) = 2 ^ k"
    using assms(1) by (auto simp: arr_ok_def)
  have nil: "ref_of val_nil = None" by (simp add: ref_of_def val_nil_def)
  show ?thesis
  proof (cases "unat idx < length (items arr)")
    case True
    then show ?thesis using assms(1) by (intro exI [of _ 0]) (simp add: arr_ensure_cap_def)
  next
    case False
    then obtain j where j: "k < j" "j \<le> 18" "grow_loop (of_nat (2 ^ k)) idx = Some (of_nat (2 ^ j))"
      "unat idx < 2 ^ j"
      using grow_loop_returns [OF k(1,2) order.refl assms(2)] k(3) by auto
    have "(2::nat) ^ j < 2 ^ 64" using j(2) by (intro power_strict_increasing) simp_all
    then have u: "unat (of_nat (2 ^ j) :: u64) = 2 ^ j" by (rule unat_u64_of_nat)
    have "(2::nat) ^ k \<le> 2 ^ j" using j(1) by (intro power_increasing) simp_all
    moreover have "(2::nat) ^ j \<le> 2 ^ 18" using j(2) by (intro power_increasing) simp_all
    ultimately have le: "(2::nat) ^ k \<le> 2 ^ j" "(2::nat) ^ j \<le> 2 ^ 18" .
    have eq: "arr_ensure_cap arr idx = Inr (arr\<lparr>items := items arr @ replicate (2 ^ j - 2 ^ k) val_nil\<rparr>)"
      using False j(3) k(3) u le by (simp add: arr_ensure_cap_def del: of_nat_power)
    moreover have "arr_ok (arr\<lparr>items := items arr @ replicate (2 ^ j - 2 ^ k) val_nil\<rparr>)"
    proof -
      have "2 \<le> j" using k(1) j(1) by simp
      moreover have "asize arr \<le> 2 ^ j"
      proof -
        have "asize arr \<le> 2 ^ k" using assms(1) k(3) by (simp add: arr_ok_def)
        then show ?thesis using le(1) by (rule order.trans)
      qed
      ultimately show ?thesis
        using assms(1) k j(2) le nil by (auto simp: arr_ok_def intro!: exI [of _ j])
    qed
    ultimately show ?thesis using j(4) k(3) le by (intro exI [of _ "2 ^ j - 2 ^ k"]) simp
  qed
qed

lemma heap_ok_replace:
  assumes "heap_ok h R" and "arr_at h a = Some arr" and "arr_ok arr'" and "refcount arr' = refcount arr"
    and "\<And>b. nrefs R' b + nrefs (items arr') b = nrefs R b + nrefs (items arr) b"
  shows "heap_ok (h[a := Some arr']) R'"
proof -
  have a: "a < length h" "h ! a = Some arr" using arr_at_Some [OF assms(2)] by auto
  have sum: "nrefs R' b + item_refs (h[a := Some arr']) b = nrefs R b + item_refs h b" for b
    using item_refs_upd [OF a(1), of "Some arr'" b] a(2) assms(5) [of b] by (simp add: orefs_def)
  show ?thesis
  proof (rule heap_okI)
    fix b assume "arr_at (h[a := Some arr']) b = None"
    then show "nrefs R' b + item_refs (h[a := Some arr']) b = 0"
      using heap_okN [OF assms(1), of b] a sum [of b] by (auto simp: arr_at_upd split: if_splits)
  next
    fix b x assume "arr_at (h[a := Some arr']) b = Some x"
    then show "arr_ok x \<and> refcount x = int (nrefs R' b + item_refs (h[a := Some arr']) b)"
      using heap_okD [OF assms(1), of b] a assms(2-4) sum [of b] by (auto simp: arr_at_upd split: if_splits)
  qed
qed

text \<open>An array that a value outside the heap refers to keeps its name, items and size.\<close>

lemma held_survives:
  assumes "free_vals h vs = Inr h'" and "heap_ok h' R" and "0 < nrefs R a" and "arr_at h a = Some arr"
  shows "\<exists>n. arr_at h' a = Some (arr\<lparr>refcount := n\<rparr>)"
proof -
  obtain x where x: "arr_at h' a = Some x" using heap_ok_live [OF assms(2), of a] assms(3) by auto
  then obtain n where "arr = x\<lparr>refcount := n\<rparr>" using free_vals_survivor [OF assms(1) x] assms(4) by auto
  then have "x = arr\<lparr>refcount := refcount x\<rparr>" by simp
  then show ?thesis using x by metis
qed

lemma arr_ok_upd:
  assumes "arr_ok arr" and "i < length (items arr)" and "ref_of w = None"
  shows "arr_ok (arr\<lparr>items := (items arr)[i := w]\<rparr>)"
proof -
  have "v \<in> set (drop (asize arr) ((items arr)[i := w])) \<Longrightarrow> v = w \<or> v \<in> set (drop (asize arr) (items arr))" for v
    by (metis drop_update_cancel drop_update_swap insertE linorder_not_less set_update_subset_insert subsetD)
  then show ?thesis using assms unfolding arr_ok_def by fastforce
qed

lemma arr_ok_set:
  assumes "arr_ok arr" and "i < length (items arr)"
  shows "arr_ok (arr\<lparr>items := (items arr)[i := w], asize := max (asize arr) (i + 1)\<rparr>)"
proof -
  have "v \<in> set (drop (max (asize arr) (i + 1)) ((items arr)[i := w])) \<Longrightarrow> v \<in> set (drop (asize arr) (items arr))" for v
    by (metis drop_update_cancel less_add_one max.strict_coboundedI2 max.cobounded1 set_drop_subset_set_drop subsetD)
  then show ?thesis using assms unfolding arr_ok_def by fastforce
qed

lemma arr_set_ok:
  assumes "heap_ok h R" and "arr_at h a = Some arr" and "0 < nrefs R a"
    and "\<And>b. ref_of v = Some b \<Longrightarrow> 0 < nrefs R b" and "unat idx < 2 ^ 18"
  shows "\<exists>h' n rc. arr_set h a idx v = Inr h' \<and> heap_ok h' R \<and>
    arr_at h' a = Some (arr\<lparr>items := (items arr @ replicate n val_nil)[unat idx := stored v],
      asize := max (asize arr) (unat idx + 1), refcount := rc\<rparr>) \<and>
    unat idx < length (items arr) + n"
proof -
  have ok: "arr_ok arr" using heap_okD [OF assms(1,2)] by blast
  obtain n where n: "arr_ensure_cap arr idx = Inr (arr\<lparr>items := items arr @ replicate n val_nil\<rparr>)"
    "unat idx < length (items arr) + n" "arr_ok (arr\<lparr>items := items arr @ replicate n val_nil\<rparr>)"
    using ensure_cap_ok [OF ok assms(5)] by blast
  define arr1 where "arr1 = arr\<lparr>items := items arr @ replicate n val_nil\<rparr>"
  let ?i = "unat idx" and ?h1 = "h[a := Some arr1]"
  have a: "a < length h" using arr_at_Some [OF assms(2)] by simp
  have i: "?i < length (items arr1)" using n(2) by (simp add: arr1_def)
  have nils: "nrefs (replicate m val_nil) b = 0" for m b
    by (rule nrefs_none) (simp add: ref_of_def val_nil_def)
  have h1: "heap_ok ?h1 R"
    using n(3) nils by (intro heap_ok_replace [OF assms(1,2)]) (simp_all add: arr1_def)
  have at1: "arr_at ?h1 a = Some arr1" using a by (simp add: arr_at_upd)
  define old where "old = items arr1 ! ?i"
  define arr2 where "arr2 = arr1\<lparr>items := (items arr1)[?i := freed old]\<rparr>"
  have freed: "ref_of (freed old) = None" by (simp add: ref_of_def freed_def)
  have slot: "nrefs ((items xs)[?i := w]) b + nrefs [items xs ! ?i] b = nrefs (items xs) b + nrefs [w] b"
    if "length (items xs) = length (items arr1)" for xs w b
    using nrefs_upd [of ?i "items xs" w b] i that by simp
  have "arr_ok arr2"
    using n(3) i freed unfolding arr2_def arr1_def [symmetric] by (rule arr_ok_upd)
  then have "heap_ok (?h1[a := Some arr2]) (old # R)"
  proof (rule heap_ok_replace [OF h1 at1])
    show "nrefs (old # R) b + nrefs (items arr2) b = nrefs R b + nrefs (items arr1) b" for b
      using slot [of arr1 "freed old" b] freed by (simp add: arr2_def old_def)
  qed (simp add: arr2_def)
  then have h2: "heap_ok (h[a := Some arr2]) (old # R)" by simp
  then obtain h3 where h3: "free_vals (h[a := Some arr2]) [old] = Inr h3" "heap_ok h3 R"
    using free_vals_ok [of _ "[old]" R] by auto
  have "arr_at (h[a := Some arr2]) a = Some arr2" using a by (simp add: arr_at_upd)
  then obtain rc where at3: "arr_at h3 a = Some (arr2\<lparr>refcount := rc\<rparr>)"
    using held_survives [OF h3 assms(3)] by blast
  obtain w h4 where w: "val_clone h3 v = Inr (w, h4)" "heap_ok h4 (w # R)" "w = stored v"
    "map_option (\<lambda>x. x\<lparr>refcount := 0\<rparr>) (arr_at h4 a) = map_option (\<lambda>x. x\<lparr>refcount := 0\<rparr>) (arr_at h3 a)"
    using clone_ok [OF h3(2), of v] assms(4) unfolding stored_def by fastforce
  then obtain x where x: "arr_at h4 a = Some x" "x\<lparr>refcount := 0\<rparr> = arr2\<lparr>refcount := 0\<rparr>"
    using at3 by auto
  then obtain c where x': "x = arr2\<lparr>refcount := c\<rparr>"
    by (metis dynarray.surjective dynarray.update_convs(4))
  let ?new = "x\<lparr>items := (items x)[?i := w], asize := max (asize x) (?i + 1)\<rparr>"
  have len: "length (items x) = length (items arr1)" "items x ! ?i = freed old"
    using i by (simp_all add: x' arr2_def)
  have "arr_ok ?new"
    using heap_okD [OF w(2) x(1)] len i by (intro arr_ok_set) auto
  then have new_ok: "heap_ok (h4[a := Some ?new]) R"
  proof (rule heap_ok_replace [OF w(2) x(1)])
    show "nrefs R b + nrefs (items ?new) b = nrefs (w # R) b + nrefs (items x) b" for b
      using slot [OF len(1), of w b] len(2) freed by simp
  qed simp
  have run: "arr_set h a idx v = Inr (h4[a := Some ?new])"
    using assms(2) n(1) h3(1) w(1) x(1)
    by (simp add: arr_set_def free_slot_def val_free_def arr1_def [symmetric] arr2_def old_def)
  have at4: "arr_at (h4[a := Some ?new]) a = Some ?new"
    using arr_at_Some [OF x(1)] by (simp add: arr_at_upd)
  have "?new = arr\<lparr>items := (items arr @ replicate n val_nil)[?i := stored v],
      asize := max (asize arr) (?i + 1), refcount := c\<rparr>"
    by (simp add: x' w(3) arr2_def arr1_def)
  then show ?thesis using n(2) new_ok run at4 by metis
qed

subsection \<open>New arrays\<close>

definition arr_val :: "nat \<Rightarrow> val" where
  "arr_val a = val_nil\<lparr>vtype := TYPE_ARR, data := DArr a\<rparr>"

lemma ref_of_arr_val [simp]: "ref_of (arr_val a) = Some a"
  by (simp add: arr_val_def ref_of_def)

lemma heap_ok_empty: "heap_ok [] []"
  by (simp add: heap_ok_def arr_at_def item_refs_def)

lemma heap_ok_new:
  assumes "heap_ok h R"
  shows "heap_ok (h @ [Some (new_array name)]) (arr_val (length h) # R)"
proof -
  let ?h = "h @ [Some (new_array name)]"
  have at: "arr_at ?h b = (if b = length h then Some (new_array name) else arr_at h b)" for b
    by (auto simp: arr_at_def nth_append)
  have "nrefs (items (new_array name)) b = 0" for b
    by (rule nrefs_none) (simp add: new_array_def ref_of_def val_nil_def)
  then have same: "item_refs ?h b = item_refs h b" for b by (simp add: item_refs_def orefs_def)
  have dead: "nrefs R (length h) + item_refs h (length h) = 0"
    using heap_okN [OF assms, of "length h"] by (simp add: arr_at_def)
  have "arr_ok (new_array name)"
    by (auto simp: arr_ok_def new_array_def ref_of_def val_nil_def intro!: exI [of _ 2])
  moreover have "refcount (new_array name) = 1" by (simp add: new_array_def)
  ultimately show ?thesis
    using heap_okN [OF assms] heap_okD [OF assms] dead
    by (intro heap_okI) (auto simp: at same split: if_splits)
qed

lemma arr_get_at_ok:
  assumes "heap_ok h R" and "arr_at h a = Some arr"
  shows "\<exists>w h'. arr_get_at h a idx = Inr (w, h') \<and> heap_ok h' (w # R) \<and>
    w = (if asize arr \<le> unat idx then val_err 2 ''index out of range''
         else let v = items arr ! unat idx in
           if vtype v = TYPE_NIL \<and> data v = NoData then val_nil else stored v)"
proof (cases "asize arr \<le> unat idx")
  case True
  have "ref_of (val_err 2 m) = None" for m by (simp add: ref_of_def val_err_def val_nil_def)
  then show ?thesis
    using True assms heap_ok_cong [of "val_err 2 ''index out of range'' # R" R]
    by (simp add: arr_get_at_def)
next
  case False
  let ?v = "items arr ! unat idx"
  have "unat idx < length (items arr)"
    using False heap_okD [OF assms] by (auto simp: arr_ok_def)
  then have "ref_of ?v = Some b \<Longrightarrow> 0 < nrefs (items arr) b" for b
    by (auto simp: nrefs_def filter_empty_conv)
  moreover have "nrefs (items arr) b \<le> item_refs h b" for b
    using item_refs_upd [of a h None b] arr_at_Some [OF assms(2)] by (simp add: orefs_def)
  ultimately have held: "ref_of ?v = Some b \<Longrightarrow> 0 < nrefs R b + item_refs h b" for b
    by (metis le_zero_eq not_gr_zero add_is_0)
  have nil: "ref_of val_nil = None" by (simp add: ref_of_def val_nil_def)
  show ?thesis
  proof (cases "vtype ?v = TYPE_NIL \<and> data ?v = NoData")
    case True
    then show ?thesis
      using False assms nil heap_ok_cong [of "val_nil # R" R] by (simp add: arr_get_at_def)
  next
    case False
    obtain h' where "val_clone h ?v = Inr (stored ?v, h')" "heap_ok h' (stored ?v # R)"
      using clone_stored [OF assms(1), of ?v] held by blast
    then show ?thesis
      using False \<open>\<not> asize arr \<le> unat idx\<close> assms(2) by (auto simp: arr_get_at_def Let_def)
  qed
qed

subsection \<open>Properties\<close>

text \<open>C26: Releasing values never touches a freed array and keeps every reference count equal to
  the number of references left, so an array is freed exactly when its last reference goes.\<close>

theorem val_free_exact:
  assumes "heap_ok h (vs @ R)"
  shows "\<exists>h'. free_vals h vs = Inr h' \<and> heap_ok h' R"
  by (rule free_vals_ok [OF assms])

theorem val_free_exact_witness:
  "\<exists>h. free_vals [Some (new_array ''xs'')] [arr_val 0] = Inr h \<and> heap_ok h []"
  using val_free_exact [of "[Some (new_array ''xs'')]" "[arr_val 0]" "[]"] heap_ok_new [OF heap_ok_empty]
  by simp

text \<open>Releasing a fresh clone restores the heap exactly.\<close>

lemma val_clone_free:
  assumes "heap_ok h R" and "val_clone h v = Inr (w, h')"
  shows "val_free h' w = Inr h"
  using free_clone [OF assms(2)] heap_okD [OF assms(1)] by (metis arr_ok_def)

lemma val_clone_free_witness:
  "\<exists>h'. val_clone [Some (new_array [])] (arr_val 0) = Inr (arr_val 0, h') \<and>
     h' \<noteq> [Some (new_array [])] \<and> val_free h' (arr_val 0) = Inr [Some (new_array [])]"
proof -
  have ok: "heap_ok [Some (new_array [])] [arr_val 0]" using heap_ok_new [OF heap_ok_empty] by simp
  have "val_clone [Some (new_array [])] (arr_val 0) =
      Inr (arr_val 0, [Some (new_array []\<lparr>refcount := 2\<rparr>)])"
    by (simp add: val_clone_def arr_ref_def arr_at_def new_array_def arr_val_def ref_of_def)
  from this val_clone_free [OF ok this] show ?thesis by (simp add: new_array_def)
qed

text \<open>Writing an array at an index below \<open>2 ^ 18\<close> (the largest capacity that fits into the
  pool) succeeds, keeps the counts exact, and reading the index back gives the value written,
  while every other index below the new size reads as before or, in the gap, as nil.\<close>

lemma arr_set_get:
  assumes "heap_ok h R" and "arr_at h a = Some arr" and "arr_val a \<in> set R"
    and "ref_of v \<noteq> None \<longrightarrow> v \<in> set R" and "unat idx < 2 ^ 18"
  shows "\<exists>h' arr'. arr_set h a idx v = Inr h' \<and> heap_ok h' R \<and> arr_at h' a = Some arr' \<and>
    asize arr' = max (asize arr) (unat idx + 1) \<and>
    (\<forall>i < asize arr'. items arr' ! i =
       (if i = unat idx then stored v else if i < length (items arr) then items arr ! i else val_nil))"
proof -
  have "0 < nrefs R b" if "ref_of v = Some b" for b
    using assms(4) that nrefs_held by (metis option.distinct(1))
  then obtain h' n rc where r: "arr_set h a idx v = Inr h'" "heap_ok h' R"
    "arr_at h' a = Some (arr\<lparr>items := (items arr @ replicate n val_nil)[unat idx := stored v],
      asize := max (asize arr) (unat idx + 1), refcount := rc\<rparr>)"
    "unat idx < length (items arr) + n"
    using arr_set_ok [OF assms(1,2) nrefs_held [OF assms(3) ref_of_arr_val] _ assms(5), of v] by metis
  have "asize arr \<le> length (items arr)" using heap_okD [OF assms(1,2)] by (simp add: arr_ok_def)
  then show ?thesis using r by (auto simp: nth_append nth_list_update)
qed

lemma arr_set_get_witness:
  "\<exists>h' arr'. arr_set [Some (new_array [])] 0 5 (val_int 7) = Inr h' \<and>
     arr_at h' 0 = Some arr' \<and> asize arr' = 6 \<and> items arr' ! 5 = val_int 7 \<and> items arr' ! 4 = val_nil"
proof -
  have ok: "heap_ok [Some (new_array [])] [arr_val 0]" using heap_ok_new [OF heap_ok_empty] by simp
  have "arr_at [Some (new_array [])] 0 = Some (new_array [])" by (simp add: arr_at_def)
  from arr_set_get [OF ok this, of "val_int 7" 5]
  obtain h' arr' where r: "arr_set [Some (new_array [])] 0 5 (val_int 7) = Inr h'" "arr_at h' 0 = Some arr'"
    "asize arr' = 6" "\<forall>i < 6. items arr' ! i = (if i = 5 then stored (val_int 7)
       else if i < 4 then items (new_array []) ! i else val_nil)"
    by (auto simp: ref_of_def val_int_def val_nil_def new_array_def)
  then have "items arr' ! 5 = val_int 7" "items arr' ! 4 = val_nil"
    by (simp_all add: stored_def val_int_def val_nil_def)
  then show ?thesis using r by blast
qed

text \<open>Reading an array gives the item (nil for an empty slot, an error value past the size)
  and holds a counted reference to it.\<close>

lemma arr_get_at_counts:
  assumes "heap_ok h R" and "arr_at h a = Some arr"
  shows "\<exists>w h'. arr_get_at h a idx = Inr (w, h') \<and> heap_ok h' (w # R) \<and>
    w = (if asize arr \<le> unat idx then val_err 2 ''index out of range''
         else let v = items arr ! unat idx in
           if vtype v = TYPE_NIL \<and> data v = NoData then val_nil else stored v)"
  by (rule arr_get_at_ok [OF assms])

lemma arr_get_at_counts_witness:
  "\<exists>h'. arr_get_at [Some (new_array [])] 0 0 = Inr (val_err 2 ''index out of range'', h')"
proof -
  have ok: "heap_ok [Some (new_array [])] [arr_val 0]" using heap_ok_new [OF heap_ok_empty] by simp
  have "arr_at [Some (new_array [])] 0 = Some (new_array [])" by (simp add: arr_at_def)
  from arr_get_at_counts [OF ok this, of 0] show ?thesis by (auto simp: new_array_def)
qed

end
