(* ===== verification/Registry.thy ===== *)
theory Registry
  imports DynArray
begin

section \<open>The registry (\<^verbatim>\<open>registry/registry.c\<close>)\<close>

text \<open>
  The keys form a tree, kept here as a tree: \<open>node\<close> holds the fields of \<^verbatim>\<open>RegKey\<close>, \<open>children\<close>
  its list, the most recently added key first. A \<^verbatim>\<open>RegKey *\<close> is the list of the names below the
  root on the way to the key. All pointers come from \<open>regkey_find_child\<close> or a key just put at the
  head, so the name at each level is that of its first match, and no operation inserts a key in
  front of another of the same name while a pointer to that is in use.

  \<open>rstate\<close> is the global state: the array heap the values refer to, the root, \<open>total_keys\<close> and
  the scope counter.
\<close>

record ipc_queue =
  q_msgs :: "val list"
  q_count :: int
  q_max :: int
  q_rfd :: "nat option"
  q_wfd :: "nat option"
  q_use_pipe :: bool

record regnode =
  k_name :: string
  k_path :: string
  k_val :: val
  k_rights :: u8
  k_queue :: "ipc_queue option"

datatype regkey = RegKey (node: regnode) (children: "regkey list")

record rstate =
  r_heap :: heap
  r_root :: regkey
  total_keys :: u64
  scope_counter :: u32

type_synonym kptr = "string list"

abbreviation (input) RK_READ :: u8 where "RK_READ \<equiv> 1"
abbreviation (input) RK_RX :: u8 where "RK_RX \<equiv> 5"
abbreviation (input) RK_RA :: u8 where "RK_RA \<equiv> 9"
abbreviation (input) RK_ALL :: u8 where "RK_ALL \<equiv> 15"

subsection \<open>Keys and pointers\<close>

definition regkey_alloc :: "string \<Rightarrow> string \<Rightarrow> u8 \<Rightarrow> regkey" where
  "regkey_alloc name path rights =
     RegKey \<lparr>k_name = trunc NAME_LEN name, k_path = trunc REG_PATH_MAX path, k_val = val_nil,
       k_rights = rights, k_queue = None\<rparr> []"

definition key_name :: "regkey \<Rightarrow> string" where
  "key_name k = k_name (node k)"

fun regkey_find_child :: "regkey list \<Rightarrow> string \<Rightarrow> regkey option" where
  "regkey_find_child [] name = None"
| "regkey_find_child (c # cs) name = (if key_name c = name then Some c else regkey_find_child cs name)"

text \<open>Replace, or remove, the first key of that name.\<close>

fun upd_child :: "(regkey \<Rightarrow> regkey) \<Rightarrow> string \<Rightarrow> regkey list \<Rightarrow> regkey list" where
  "upd_child f name [] = []"
| "upd_child f name (c # cs) = (if key_name c = name then f c # cs else c # upd_child f name cs)"

fun del_child :: "string \<Rightarrow> regkey list \<Rightarrow> regkey list" where
  "del_child name [] = []"
| "del_child name (c # cs) = (if key_name c = name then cs else c # del_child name cs)"

fun node_at :: "regkey \<Rightarrow> kptr \<Rightarrow> regkey option" where
  "node_at k [] = Some k"
| "node_at k (s # ss) =
     (case regkey_find_child (children k) s of None \<Rightarrow> None | Some c \<Rightarrow> node_at c ss)"

fun upd_at :: "(regkey \<Rightarrow> regkey) \<Rightarrow> regkey \<Rightarrow> kptr \<Rightarrow> regkey" where
  "upd_at f k [] = f k"
| "upd_at f k (s # ss) = RegKey (node k) (upd_child (\<lambda>c. upd_at f c ss) s (children k))"

definition upd_node :: "(regnode \<Rightarrow> regnode) \<Rightarrow> regkey \<Rightarrow> kptr \<Rightarrow> regkey" where
  "upd_node f k p = upd_at (\<lambda>x. RegKey (f (node x)) (children x)) k p"

definition add_kid :: "regkey \<Rightarrow> regkey \<Rightarrow> regkey" where
  "add_kid c k = RegKey (node k) (c # children k)"

definition regkey_add_child :: "rstate \<Rightarrow> kptr \<Rightarrow> regkey \<Rightarrow> rstate" where
  "regkey_add_child st p c =
     st\<lparr>r_root := upd_at (add_kid c) (r_root st) p, total_keys := total_keys st + 1\<rparr>"

definition regkey_add_child_tail :: "rstate \<Rightarrow> kptr \<Rightarrow> regkey \<Rightarrow> rstate" where
  "regkey_add_child_tail st p c =
     st\<lparr>r_root := upd_at (\<lambda>k. RegKey (node k) (children k @ [c])) (r_root st) p,
       total_keys := total_keys st + 1\<rparr>"

text \<open>Take the key at a pointer out of its parent, without freeing it.\<close>

definition unlink :: "regkey \<Rightarrow> kptr \<Rightarrow> regkey" where
  "unlink k p = upd_at (\<lambda>x. RegKey (node x) (del_child (last p) (children x))) k (butlast p)"

definition regkey_detach_child :: "rstate \<Rightarrow> kptr \<Rightarrow> rstate" where
  "regkey_detach_child st p = st\<lparr>r_root := unlink (r_root st) p, total_keys := total_keys st - 1\<rparr>"

subsection \<open>Freeing a subtree\<close>

abbreviation (input) STACK_MAX :: nat where "STACK_MAX \<equiv> 1024"

text \<open>
  The loop of \<open>regkey_free_recursive\<close>: the stack, top first, with what each key owns in the
  order it is freed. A child that finds the stack full is not pushed.
\<close>

definition owned :: "regnode \<Rightarrow> val list" where
  "owned n = (case k_queue n of None \<Rightarrow> [] | Some q \<Rightarrow> q_msgs q) @ [k_val n]"

function free_loop :: "regkey list \<Rightarrow> val list \<times> nat" where
  "free_loop [] = ([], 0)"
| "free_loop (k # stack) =
     (let (vs, n) = free_loop (rev (take (STACK_MAX - length stack) (children k)) @ stack)
      in (owned (node k) @ vs, n + 1))"
  by pat_completeness auto

fun nkeys :: "regkey \<Rightarrow> nat" and nkeys_list :: "regkey list \<Rightarrow> nat" where
  "nkeys (RegKey nd cs) = nkeys_list cs + 1"
| "nkeys_list [] = 0"
| "nkeys_list (c # cs) = nkeys c + nkeys_list cs"

lemma nkeys_list_append [simp]: "nkeys_list (xs @ ys) = nkeys_list xs + nkeys_list ys"
  by (induction xs) auto

lemma nkeys_list_rev [simp]: "nkeys_list (rev xs) = nkeys_list xs"
  by (induction xs) auto

lemma nkeys_list_take: "nkeys_list (take n xs) \<le> nkeys_list xs"
  by (metis append_take_drop_id le_add1 nkeys_list_append)

lemma nkeys_children: "nkeys k = nkeys_list (children k) + 1"
  by (cases k) simp

termination free_loop
proof (relation "measure nkeys_list")
  fix k :: regkey and stack :: "regkey list"
  have "nkeys_list (take (STACK_MAX - length stack) (children k)) < nkeys k"
    using nkeys_list_take [of "STACK_MAX - length stack" "children k"] by (simp add: nkeys_children)
  then show "(rev (take (STACK_MAX - length stack) (children k)) @ stack, k # stack) \<in> measure nkeys_list"
    by simp
qed simp

declare free_loop.simps(2) [simp del]

text \<open>\<open>total_keys\<close> goes down once per key freed, and not below 0.\<close>

definition dec_keys :: "u64 \<Rightarrow> nat \<Rightarrow> u64" where
  "dec_keys w n = of_nat (unat w - n)"

definition regkey_free_recursive :: "rstate \<Rightarrow> regkey \<Rightarrow> rstate res" where
  "regkey_free_recursive st k =
     (let (vs, n) = free_loop [k] in
      case free_vals (r_heap st) vs of
        Inl e \<Rightarrow> Inl e
      | Inr h \<Rightarrow> Inr (st\<lparr>r_heap := h, total_keys := dec_keys (total_keys st) n\<rparr>))"

fun regkey_free_all :: "rstate \<Rightarrow> regkey list \<Rightarrow> rstate res" where
  "regkey_free_all st [] = Inr st"
| "regkey_free_all st (k # ks) =
     (case regkey_free_recursive st k of Inl e \<Rightarrow> Inl e | Inr st' \<Rightarrow> regkey_free_all st' ks)"

subsection \<open>New paths after a move\<close>

definition child_path :: "string \<Rightarrow> string \<Rightarrow> string" where
  "child_path parent name =
     trunc REG_PATH_MAX (if parent = ''/'' then CHR ''/'' # name else parent @ CHR ''/'' # name)"

text \<open>
  \<open>regkey_update_paths\<close> works on a stack as well. Children are popped last first, so while child
  \<open>i\<close> is at work the \<open>i\<close> before it lie below on the stack: \<open>below\<close> is the height of the stack
  after the pop, and a child pushed at height \<open>STACK_MAX\<close> is left as it is.
\<close>

fun update_paths :: "nat \<Rightarrow> string \<Rightarrow> regkey \<Rightarrow> regkey"
  and update_paths_list :: "nat \<Rightarrow> string \<Rightarrow> regkey list \<Rightarrow> regkey list" where
  "update_paths below parent (RegKey nd cs) =
     (let path = child_path parent (k_name nd)
      in RegKey (nd\<lparr>k_path := path\<rparr>) (update_paths_list below path cs))"
| "update_paths_list below parent [] = []"
| "update_paths_list below parent (c # cs) =
     (if below < STACK_MAX then update_paths below parent c else c)
       # update_paths_list (below + 1) parent cs"

definition regkey_update_paths :: "regkey \<Rightarrow> string \<Rightarrow> regkey" where
  "regkey_update_paths k parent = update_paths 0 (trunc REG_PATH_MAX parent) k"

subsection \<open>Creating and looking up\<close>

text \<open>
  The loop of \<open>reg_mkpath\<close> below the key \<open>cur\<close> whose path is \<open>built\<close>: \<open>p\<close> is what \<open>strtok\<close> has
  left. The result is the key with what was created below it, how many keys that is, and the
  pointer relative to it.
\<close>

function mkpath_loop :: "u8 \<Rightarrow> regkey \<Rightarrow> string \<Rightarrow> string \<Rightarrow> regkey \<times> nat \<times> kptr" where
  "mkpath_loop rights cur built p =
     (case strtok_slash p of
        None \<Rightarrow> (cur, 0, [])
      | Some (seg, rest) \<Rightarrow>
          let path = child_path built seg in
          (case regkey_find_child (children cur) seg of
             Some c \<Rightarrow>
               let (c', n, ptr) = mkpath_loop rights c path rest
               in (RegKey (node cur) (upd_child (\<lambda>_. c') seg (children cur)), n, seg # ptr)
           | None \<Rightarrow>
               let c = regkey_alloc seg path rights;
                   (c', n, ptr) = mkpath_loop rights c path rest
               in (add_kid c' cur, n + 1, key_name c # ptr)))"
  by pat_completeness auto
termination
  by (relation "measure (\<lambda>(rights, cur, built, p). length p)") (auto dest: strtok_slash_shorter)

declare mkpath_loop.simps [simp del]

definition reg_mkpath :: "rstate \<Rightarrow> string \<Rightarrow> u8 \<Rightarrow> kptr option \<times> rstate" where
  "reg_mkpath st path rights =
     (if path = [] \<or> hd path \<noteq> CHR ''/'' then (None, st)
      else
        let (root, n, ptr) = mkpath_loop rights (r_root st) ''/'' (drop 1 (trunc REG_PATH_MAX path))
        in (Some ptr, st\<lparr>r_root := root, total_keys := total_keys st + of_nat n\<rparr>))"

function lookup_loop :: "regkey \<Rightarrow> string \<Rightarrow> kptr option" where
  "lookup_loop cur p =
     (if p = [] then Some []
      else
        let seg = takeWhile (\<lambda>c. c \<noteq> CHR ''/'') p; rest = dropWhile (\<lambda>c. c \<noteq> CHR ''/'') p in
        if seg = [] then lookup_loop cur (tl p)
        else case regkey_find_child (children cur) seg of
          None \<Rightarrow> None
        | Some c \<Rightarrow> map_option ((#) seg) (if rest = [] then Some [] else lookup_loop c (tl rest)))"
  by pat_completeness auto
termination
  by (relation "measure (\<lambda>(cur, p). length p)")
    (auto simp: Suc_le_eq intro!: diff_less order.strict_trans2 [OF diff_less length_dropWhile_le])

declare lookup_loop.simps [simp del]

definition reg_lookup :: "regkey \<Rightarrow> string \<Rightarrow> kptr option" where
  "reg_lookup root path =
     (if path = [] then None
      else if path = ''/'' then Some []
      else if hd path \<noteq> CHR ''/'' then None
      else lookup_loop root (drop 1 (trunc REG_PATH_MAX path)))"

subsection \<open>Resolving a name from a scope\<close>

text \<open>The key at a path, and the first hit in a list of paths.\<close>

definition reg_key :: "regkey \<Rightarrow> string \<Rightarrow> regkey option" where
  "reg_key root path = (case reg_lookup root path of None \<Rightarrow> None | Some p \<Rightarrow> node_at root p)"

text \<open>The scope paths \<open>reg_resolve\<close> tries: the scope, then its ancestors up to the root.\<close>

lemma dirname_shorter: "sp \<noteq> ''/'' \<Longrightarrow> nexs_path_dirname sp REG_PATH_MAX \<noteq> ''/'' \<Longrightarrow>
  length (nexs_path_dirname sp REG_PATH_MAX) < length sp"
  by (auto simp: nexs_path_dirname_def trunc_def split: option.splits if_splits dest: strrchr_Some)

function scope_chain :: "string \<Rightarrow> string list" where
  "scope_chain sp = sp # (if sp = ''/'' then [] else scope_chain (nexs_path_dirname sp REG_PATH_MAX))"
  by pat_completeness auto
termination
  by (relation "measure (\<lambda>sp. if sp = ''/'' then 0 else length sp + 1)") (auto dest: dirname_shorter)

declare scope_chain.simps [simp del]

fun first_hit :: "regkey \<Rightarrow> string list \<Rightarrow> kptr option" where
  "first_hit root [] = None"
| "first_hit root (path # paths) =
     (case reg_lookup root path of Some p \<Rightarrow> Some p | None \<Rightarrow> first_hit root paths)"

definition mod_names :: "regkey \<Rightarrow> string list" where
  "mod_names root =
     (case reg_key root ''/mod'' of None \<Rightarrow> [] | Some k \<Rightarrow> List.map key_name (children k))"

definition reg_resolve :: "regkey \<Rightarrow> string \<Rightarrow> string \<Rightarrow> kptr option" where
  "reg_resolve root name scope_path =
     (if name = [] then None
      else first_hit root
        (List.map (\<lambda>sp. trunc REG_PATH_MAX (sp @ ''/'' @ name)) (scope_chain (trunc REG_PATH_MAX scope_path))
         @ [trunc REG_PATH_MAX (''/fn/'' @ name), trunc REG_PATH_MAX (''/sys/'' @ name)]
         @ List.map (\<lambda>m. trunc REG_PATH_MAX (''/mod/'' @ m @ ''/'' @ name)) (mod_names root)))"

subsection \<open>Reading, writing, deleting\<close>

text \<open>Replace the value of a key: the new value is cloned before the old one is freed.\<close>

definition set_key :: "rstate \<Rightarrow> kptr \<Rightarrow> val \<Rightarrow> u8 \<Rightarrow> rstate res" where
  "set_key st p v rights =
     (case node_at (r_root st) p of
        None \<Rightarrow> Inl NullDeref
      | Some k \<Rightarrow>
          (case val_clone (r_heap st) v of
             Inl e \<Rightarrow> Inl e
           | Inr (w, h1) \<Rightarrow>
               (case val_free h1 (k_val (node k)) of
                  Inl e \<Rightarrow> Inl e
                | Inr h2 \<Rightarrow>
                    Inr (st\<lparr>r_heap := h2,
                      r_root := upd_node (\<lambda>n. n\<lparr>k_val := w, k_rights := rights\<rparr>) (r_root st) p\<rparr>))))"

text \<open>\<open>reg_lookup\<close>, and \<open>reg_mkpath\<close> where that finds nothing.\<close>

definition lookup_or_make :: "rstate \<Rightarrow> string \<Rightarrow> u8 \<Rightarrow> kptr option \<times> rstate" where
  "lookup_or_make st path rights =
     (case reg_lookup (r_root st) path of Some p \<Rightarrow> (Some p, st) | None \<Rightarrow> reg_mkpath st path rights)"

definition reg_set :: "rstate \<Rightarrow> string \<Rightarrow> val \<Rightarrow> u8 \<Rightarrow> (int \<times> rstate) res" where
  "reg_set st path v rights =
     (case lookup_or_make st path rights of
        (None, st1) \<Rightarrow> Inr (- 1, st1)
      | (Some p, st1) \<Rightarrow>
          (case set_key st1 p v rights of Inl e \<Rightarrow> Inl e | Inr st2 \<Rightarrow> Inr (0, st2)))"

definition reg_get :: "rstate \<Rightarrow> string \<Rightarrow> (val \<times> rstate) res" where
  "reg_get st path =
     (case reg_key (r_root st) path of
        None \<Rightarrow> Inr (val_err 3 ''registry key not found'', st)
      | Some k \<Rightarrow>
          (case val_clone (r_heap st) (k_val (node k)) of
             Inl e \<Rightarrow> Inl e
           | Inr (w, h) \<Rightarrow> Inr (w, st\<lparr>r_heap := h\<rparr>)))"

text \<open>
  Deleting the root frees every key and leaves \<open>g_registry.root\<close> pointing at freed memory, which
  every later operation reads: a fault.
\<close>

definition reg_delete :: "rstate \<Rightarrow> string \<Rightarrow> (int \<times> rstate) res" where
  "reg_delete st path =
     (case reg_lookup (r_root st) path of
        None \<Rightarrow> Inr (- 1, st)
      | Some p \<Rightarrow>
          if p = [] then Inl UseAfterFree
          else
            (case node_at (r_root st) p of
               None \<Rightarrow> Inl NullDeref
             | Some k \<Rightarrow>
                 (case regkey_free_recursive (st\<lparr>r_root := unlink (r_root st) p\<rparr>) k of
                    Inl e \<Rightarrow> Inl e
                  | Inr st' \<Rightarrow> Inr (0, st'))))"

definition reg_set_ptr :: "rstate \<Rightarrow> string \<Rightarrow> string \<Rightarrow> (int \<times> rstate) res" where
  "reg_set_ptr st path target = reg_set st path (val_ptr target) RK_ALL"

text \<open>\<open>reg_get_deref\<close> follows at most 64 pointers; \<open>hops\<close> counts what is left.\<close>

fun deref_loop :: "nat \<Rightarrow> rstate \<Rightarrow> string \<Rightarrow> (val \<times> rstate) res" where
  "deref_loop 0 st cur = Inr (val_err 3 ''reg_get_deref: pointer chain too deep (circular?)'', st)"
| "deref_loop (Suc hops) st cur =
     (case reg_key (r_root st) cur of
        None \<Rightarrow> Inr (val_err 3 ''reg_get_deref: key not found'', st)
      | Some k \<Rightarrow>
          if vtype (k_val (node k)) \<noteq> TYPE_PTR then
            (case val_clone (r_heap st) (k_val (node k)) of
               Inl e \<Rightarrow> Inl e
             | Inr (w, h) \<Rightarrow> Inr (w, st\<lparr>r_heap := h\<rparr>))
          else
            (case data_str (k_val (node k)) of
               None \<Rightarrow> Inr (val_err 3 ''reg_get_deref: NULL pointer target'', st)
             | Some target \<Rightarrow> deref_loop hops st (trunc REG_PATH_MAX target)))"

definition reg_get_deref :: "rstate \<Rightarrow> string \<Rightarrow> (val \<times> rstate) res" where
  "reg_get_deref st path = deref_loop 64 st path"

subsection \<open>Scopes and start-up\<close>

definition reg_push_scope :: "rstate \<Rightarrow> string \<Rightarrow> string \<times> rstate" where
  "reg_push_scope st fn_name =
     (let buf = trunc REG_PATH_MAX (''/local/'' @ fn_name @ ''_'' @ show_int (sint (scope_counter st)));
          st1 = st\<lparr>scope_counter := scope_counter st + 1\<rparr>
      in (buf, snd (reg_mkpath st1 buf RK_ALL)))"

definition reg_pop_scope :: "rstate \<Rightarrow> string \<Rightarrow> rstate res" where
  "reg_pop_scope st scope_path =
     (case reg_delete st scope_path of Inl e \<Rightarrow> Inl e | Inr (_, st') \<Rightarrow> Inr st')"

definition reg_init :: "rstate \<Rightarrow> rstate" where
  "reg_init st =
     foldl (\<lambda>s (path, rights). snd (reg_mkpath s path rights))
       (st\<lparr>r_root := regkey_alloc ''/'' ''/'' RK_ALL, total_keys := 1\<rparr>)
       [(''/local'', RK_ALL), (''/fn'', RK_RX), (''/sys'', RK_RX), (''/mod'', RK_ALL),
        (''/env'', RK_ALL), (''/type'', RK_RA)]"

definition reg_register_builtin :: "rstate \<Rightarrow> string \<Rightarrow> nat \<Rightarrow> (int \<times> rstate) res" where
  "reg_register_builtin st name fn =
     reg_set st (trunc REG_PATH_MAX (''/sys/'' @ name))
       (val_nil\<lparr>vtype := TYPE_FN, data := DFn fn, ival := 1\<rparr>) RK_RX"

subsection \<open>Moving, mounting, binding\<close>

definition is_prefix :: "'a list \<Rightarrow> 'a list \<Rightarrow> bool" where
  "is_prefix xs ys \<longleftrightarrow> take (length xs) ys = xs"

text \<open>
  A source that names the root in another spelling (\<open>//\<close>) passes the tests, has no parent to be
  taken from and becomes its own descendant: the path update then never ends.
\<close>

definition reg_move :: "rstate \<Rightarrow> string \<Rightarrow> string \<Rightarrow> (int \<times> rstate) res" where
  "reg_move st src dst =
     (if src = [] \<or> dst = [] \<or> hd src \<noteq> CHR ''/'' \<or> hd dst \<noteq> CHR ''/'' then Inr (- 1, st)
      else if src = ''/'' then Inr (- 1, st)
      else if src = dst then Inr (0, st)
      else case reg_lookup (r_root st) src of
        None \<Rightarrow> Inr (- 1, st)
      | Some p \<Rightarrow>
          if is_prefix src dst \<and> (drop (length src) dst = [] \<or> hd (drop (length src) dst) = CHR ''/'')
          then Inr (- 1, st)
          else
            (case node_at (r_root st) p of
               None \<Rightarrow> Inl NullDeref
             | Some k \<Rightarrow>
                 let st1 = (if p = [] then st else regkey_detach_child st p);
                     dst_parent = nexs_path_dirname dst REG_PATH_MAX
                 in (case lookup_or_make st1 dst_parent RK_ALL of
                       (None, st2) \<Rightarrow> Inr (- 1, st2)
                     | (Some dp, st2) \<Rightarrow>
                         if p = [] then Inl Hang
                         else
                           let k1 = RegKey ((node k)\<lparr>k_name := trunc NAME_LEN (nexs_path_basename dst)\<rparr>)
                                      (children k)
                           in Inr (0, regkey_add_child st2 dp (regkey_update_paths k1 dst_parent)))))"

text \<open>
  \<open>reg_mount\<close> calls itself for every child that has children; mounting a directory below itself
  does so without end, so \<open>n\<close> counts the calls and the steps of the loop down. \<open>i\<close> is the
  position of the loop in the children of \<open>sp\<close>.
\<close>

definition mount_mirror :: "rstate \<Rightarrow> kptr \<Rightarrow> string \<Rightarrow> bool \<Rightarrow> regnode \<Rightarrow> rstate res" where
  "mount_mirror st dp new_path before c =
     (case val_clone (r_heap st) (k_val c) of
        Inl e \<Rightarrow> Inl e
      | Inr (w, h) \<Rightarrow>
          let m = regkey_alloc (k_name c) new_path (k_rights c);
              m' = RegKey ((node m)\<lparr>k_val := w\<rparr>) [];
              st1 = st\<lparr>r_heap := h\<rparr>
          in Inr (if before then regkey_add_child st1 dp m' else regkey_add_child_tail st1 dp m'))"

fun mount_loop ::
  "nat \<Rightarrow> rstate \<Rightarrow> kptr \<Rightarrow> string \<Rightarrow> kptr \<Rightarrow> string \<Rightarrow> bool \<Rightarrow> nat \<Rightarrow> rstate res"
  and reg_mount :: "nat \<Rightarrow> rstate \<Rightarrow> string \<Rightarrow> string \<Rightarrow> bool \<Rightarrow> (int \<times> rstate) res" where
  "mount_loop 0 st sp src_path dp dst_path before i = Inl Hang"
| "mount_loop (Suc n) st sp src_path dp dst_path before i =
     (case (node_at (r_root st) sp, node_at (r_root st) dp) of
        (Some src, Some dst) \<Rightarrow>
          if length (children src) \<le> i then Inr st
          else
            let c = node (children src ! i) in
            (case regkey_find_child (children dst) (k_name c) of
               Some _ \<Rightarrow>
                 (case (if before then set_key st (dp @ [k_name c]) (k_val c) (k_rights c) else Inr st) of
                    Inl e \<Rightarrow> Inl e
                  | Inr st1 \<Rightarrow> mount_loop n st1 sp src_path dp dst_path before (i + 1))
             | None \<Rightarrow>
                 let new_path = child_path dst_path (k_name c) in
                 (case mount_mirror st dp new_path before c of
                    Inl e \<Rightarrow> Inl e
                  | Inr st1 \<Rightarrow>
                      (case node_at (r_root st1) sp of
                         None \<Rightarrow> Inl NullDeref
                       | Some src1 \<Rightarrow>
                           if children (children src1 ! i) \<noteq> [] then
                             (case reg_mount n st1 (trunc REG_PATH_MAX (src_path @ ''/'' @ k_name c))
                                     new_path before of
                                Inl e \<Rightarrow> Inl e
                              | Inr (_, st2) \<Rightarrow> mount_loop n st2 sp src_path dp dst_path before (i + 1))
                           else mount_loop n st1 sp src_path dp dst_path before (i + 1))))
      | _ \<Rightarrow> Inl NullDeref)"
| "reg_mount 0 st src_path dst_path before = Inl Hang"
| "reg_mount (Suc n) st src_path dst_path before =
     (case reg_lookup (r_root st) src_path of
        None \<Rightarrow> Inr (- 1, st)
      | Some sp \<Rightarrow>
          (case lookup_or_make st dst_path RK_ALL of
             (None, st1) \<Rightarrow> Inr (- 1, st1)
           | (Some dp, st1) \<Rightarrow>
               (case mount_loop n st1 sp src_path dp dst_path before 0 of
                  Inl e \<Rightarrow> Inl e
                | Inr st2 \<Rightarrow> Inr (0, st2))))"

text \<open>
  \<open>reg_unmount\<close> with a source: the children of the destination that have the name of a child of
  the source. The loop reads the source list after the removal, so removing that list or a key
  above it is a use after free.
\<close>

fun unmount_loop :: "rstate \<Rightarrow> kptr \<Rightarrow> kptr \<Rightarrow> string list \<Rightarrow> rstate res" where
  "unmount_loop st sp dp [] = Inr st"
| "unmount_loop st sp dp (name # names) =
     (case node_at (r_root st) (dp @ [name]) of
        None \<Rightarrow> unmount_loop st sp dp names
      | Some k \<Rightarrow>
          if sp = dp \<or> is_prefix (dp @ [name]) sp then Inl UseAfterFree
          else
            (case regkey_free_recursive (regkey_detach_child st (dp @ [name])) k of
               Inl e \<Rightarrow> Inl e
             | Inr st' \<Rightarrow> unmount_loop st' sp dp names))"

definition clear_children :: "rstate \<Rightarrow> kptr \<Rightarrow> rstate res" where
  "clear_children st p =
     (case node_at (r_root st) p of
        None \<Rightarrow> Inl NullDeref
      | Some k \<Rightarrow>
          regkey_free_all (st\<lparr>r_root := upd_at (\<lambda>x. RegKey (node x) []) (r_root st) p\<rparr>) (children k))"

definition reg_unmount :: "rstate \<Rightarrow> string option \<Rightarrow> string \<Rightarrow> (int \<times> rstate) res" where
  "reg_unmount st src_path dst_path =
     (case reg_lookup (r_root st) dst_path of
        None \<Rightarrow> Inr (- 1, st)
      | Some dp \<Rightarrow>
          (case src_path of
             None \<Rightarrow> (case clear_children st dp of Inl e \<Rightarrow> Inl e | Inr st' \<Rightarrow> Inr (0, st'))
           | Some s \<Rightarrow>
               (case reg_lookup (r_root st) s of
                  None \<Rightarrow> Inr (- 1, st)
                | Some sp \<Rightarrow>
                    (case node_at (r_root st) sp of
                       None \<Rightarrow> Inl NullDeref
                     | Some src \<Rightarrow>
                         (case unmount_loop st sp dp (List.map key_name (children src)) of
                            Inl e \<Rightarrow> Inl e
                          | Inr st' \<Rightarrow> Inr (0, st'))))))"

definition reg_bind :: "nat \<Rightarrow> rstate \<Rightarrow> string \<Rightarrow> string \<Rightarrow> int \<Rightarrow> (int \<times> rstate) res" where
  "reg_bind n st src_path dst_path flag =
     (case reg_lookup (r_root st) src_path of
        None \<Rightarrow> Inr (- 1, st)
      | Some sp \<Rightarrow>
          if flag = 0 then
            (case lookup_or_make st dst_path RK_ALL of
               (None, st1) \<Rightarrow> Inr (- 1, st1)
             | (Some dp, st1) \<Rightarrow>
                 if dp \<noteq> sp \<and> is_prefix dp sp then Inl UseAfterFree
                 else
                   (case clear_children st1 dp of
                      Inl e \<Rightarrow> Inl e
                    | Inr st2 \<Rightarrow>
                        (case node_at (r_root st2) sp of
                           None \<Rightarrow> Inl NullDeref
                         | Some src \<Rightarrow>
                             (case set_key st2 dp (k_val (node src)) (k_rights (node src)) of
                                Inl e \<Rightarrow> Inl e
                              | Inr st3 \<Rightarrow> reg_mount n st3 src_path dst_path True))))
          else reg_mount n st src_path dst_path (flag = 1))"

end
