(* ===== verification/RegIpc.thy ===== *)
theory RegIpc
  imports Registry
begin

section \<open>Message queues on registry keys (\<^verbatim>\<open>registry/reg_ipc.c\<close>)\<close>

unbundle bit_operations_syntax

text \<open>
  A queue is in-process (a list of values) or, after \<open>reg_ipc_enable_pipes\<close>, a POSIX pipe. A pipe
  is the bytes written and not yet read, both its descriptors the index into \<open>i_pipes\<close>. The
  write end stays open as long as the read end, so a read of bytes that are not there blocks
  forever; the size of the kernel's buffer is not modelled.
\<close>

record istate =
  i_reg :: rstate
  i_pipes :: "u8 list list"

subsection \<open>The wire format\<close>

fun le_write :: "nat \<Rightarrow> u64 \<Rightarrow> u8 list" where
  "le_write 0 v = []"
| "le_write (Suc n) v = ucast v # le_write n (drop_bit 8 v)"

fun le_read :: "u8 list \<Rightarrow> u64" where
  "le_read [] = 0"
| "le_read (b # bs) = push_bit 8 (le_read bs) OR ucast b"

definition le_write64 :: "u64 \<Rightarrow> u8 list" where
  "le_write64 v = le_write 8 v"

definition le_write32 :: "u32 \<Rightarrow> u8 list" where
  "le_write32 v = le_write 4 (ucast v)"

definition le_read64 :: "u8 list \<Rightarrow> u64" where
  "le_read64 bs = le_read bs"

definition le_read32 :: "u8 list \<Rightarrow> u32" where
  "le_read32 bs = ucast (le_read bs)"

definition vtype_code :: "vtype \<Rightarrow> u8" where
  "vtype_code t =
     (case t of
        TYPE_NIL \<Rightarrow> 0 | TYPE_INT \<Rightarrow> 1 | TYPE_FLOAT \<Rightarrow> 2 | TYPE_STR \<Rightarrow> 3 | TYPE_ARR \<Rightarrow> 4
      | TYPE_FN \<Rightarrow> 5 | TYPE_ERR \<Rightarrow> 6 | TYPE_BOOL \<Rightarrow> 7 | TYPE_REF \<Rightarrow> 8 | TYPE_PTR \<Rightarrow> 9)"

definition vtype_of :: "u8 \<Rightarrow> vtype option" where
  "vtype_of b =
     map_of [(0, TYPE_NIL), (1, TYPE_INT), (2, TYPE_FLOAT), (3, TYPE_STR), (4, TYPE_ARR),
       (5, TYPE_FN), (6, TYPE_ERR), (7, TYPE_BOOL), (8, TYPE_REF), (9, TYPE_PTR)] b"

definition bytes_of :: "string \<Rightarrow> u8 list" where
  "bytes_of s = List.map of_char s"

definition string_of :: "u8 list \<Rightarrow> string" where
  "string_of bs = List.map (\<lambda>b. char_of (unat b)) bs"

text \<open>The text a value carries on the wire, and the bytes before the elements.\<close>

definition wire_str :: "val \<Rightarrow> string" where
  "wire_str v =
     (case vtype v of
        TYPE_STR \<Rightarrow> or_empty (data_str v)
      | TYPE_REF \<Rightarrow> or_empty (data_str v)
      | TYPE_PTR \<Rightarrow> or_empty (data_str v)
      | TYPE_ERR \<Rightarrow> or_empty (err_msg v)
      | _ \<Rightarrow> [])"

definition wire_head :: "val \<Rightarrow> nat \<Rightarrow> u8 list" where
  "wire_head v arr_len =
     [vtype_code (vtype v)] @ le_write64 (ival v) @ le_write64 (fval v)
       @ le_write32 (of_nat (length (wire_str v))) @ bytes_of (wire_str v)
       @ le_write32 (of_nat arr_len)"

text \<open>
  \<open>pipe_serialize_value\<close>: the elements are cloned, written and released one by one. \<open>n\<close> bounds
  the nesting; the heap has fewer arrays than the \<open>n\<close> it is called with, so only an array inside
  itself, on which the C code recurses without end, reaches 0.
\<close>

fun serialize_loop :: "nat \<Rightarrow> heap \<Rightarrow> val \<Rightarrow> (u8 list \<times> heap) res"
  and serialize_items :: "nat \<Rightarrow> heap \<Rightarrow> nat \<Rightarrow> nat \<Rightarrow> nat \<Rightarrow> (u8 list \<times> heap) res" where
  "serialize_loop 0 h v = Inl Hang"
| "serialize_loop (Suc n) h v =
     (case ref_of v of
        None \<Rightarrow> Inr (wire_head v 0, h)
      | Some a \<Rightarrow>
          (case arr_at h a of
             None \<Rightarrow> Inl UseAfterFree
           | Some arr \<Rightarrow>
               (case serialize_items n h a 0 (asize arr mod 2 ^ 32) of
                  Inl e \<Rightarrow> Inl e
                | Inr (bs, h') \<Rightarrow> Inr (wire_head v (asize arr) @ bs, h'))))"
| "serialize_items n h a i 0 = Inr ([], h)"
| "serialize_items n h a i (Suc k) =
     (case arr_get_at h a (of_nat i) of
        Inl e \<Rightarrow> Inl e
      | Inr (elem, h1) \<Rightarrow>
          (case serialize_loop n h1 elem of
             Inl e \<Rightarrow> Inl e
           | Inr (bs, h2) \<Rightarrow>
               (case val_free h2 elem of
                  Inl e \<Rightarrow> Inl e
                | Inr h3 \<Rightarrow>
                    (case serialize_items n h3 a (i + 1) k of
                       Inl e \<Rightarrow> Inl e
                     | Inr (cs, h4) \<Rightarrow> Inr (bs @ cs, h4)))))"

definition pipe_serialize_value :: "heap \<Rightarrow> val \<Rightarrow> (u8 list \<times> heap) res" where
  "pipe_serialize_value h v = serialize_loop (length h + 1) h v"

definition read_all :: "nat \<Rightarrow> u8 list \<Rightarrow> (u8 list \<times> u8 list) res" where
  "read_all n bs = (if length bs < n then Inl Hang else Inr (take n bs, drop n bs))"

text \<open>The fields before the elements: type byte, \<open>ival\<close>, \<open>fval\<close>, the text, the number of elements.\<close>

definition read_head :: "u8 list \<Rightarrow> ((u8 \<times> u64 \<times> f64 \<times> bool \<times> string \<times> nat) \<times> u8 list) res" where
  "read_head bs =
     (case read_all 1 bs of Inl e \<Rightarrow> Inl e | Inr (tb, bs) \<Rightarrow>
      case read_all 8 bs of Inl e \<Rightarrow> Inl e | Inr (ib, bs) \<Rightarrow>
      case read_all 8 bs of Inl e \<Rightarrow> Inl e | Inr (fb, bs) \<Rightarrow>
      case read_all 4 bs of Inl e \<Rightarrow> Inl e | Inr (lb, bs) \<Rightarrow>
      case read_all (unat (le_read32 lb)) bs of Inl e \<Rightarrow> Inl e | Inr (sb, bs) \<Rightarrow>
      case read_all 4 bs of Inl e \<Rightarrow> Inl e | Inr (ab, bs) \<Rightarrow>
        Inr ((hd tb, le_read64 ib, le_read64 fb, sb = [],
          c_str (string_of sb), unat (le_read32 ab)), bs))"

text \<open>
  The value without its elements. A text of length 0 is no buffer, which \<open>val_ref\<close> and
  \<open>val_ptr\<close> take for the path \<open>/\<close>.
\<close>

definition read_value :: "vtype option \<Rightarrow> u64 \<Rightarrow> f64 \<Rightarrow> bool \<Rightarrow> string \<Rightarrow> val" where
  "read_value t i f no_buf s =
     (case t of
        None \<Rightarrow> val_err 99 ''pipe_recv: unknown type''
      | Some TYPE_NIL \<Rightarrow> val_nil
      | Some TYPE_INT \<Rightarrow> val_int i
      | Some TYPE_FLOAT \<Rightarrow> val_float f
      | Some TYPE_BOOL \<Rightarrow> val_bool ((ucast i :: u32) \<noteq> 0)
      | Some TYPE_FN \<Rightarrow> val_fn_idx i
      | Some TYPE_STR \<Rightarrow> val_str s
      | Some TYPE_REF \<Rightarrow> val_ref (if no_buf then ''/'' else s)
      | Some TYPE_PTR \<Rightarrow> val_ptr (if no_buf then ''/'' else s)
      | Some TYPE_ERR \<Rightarrow> val_err (ucast i) s
      | Some TYPE_ARR \<Rightarrow> val_nil)"

fun deserialize_loop :: "nat \<Rightarrow> heap \<Rightarrow> u8 list \<Rightarrow> (val \<times> heap \<times> u8 list) res"
  and deserialize_items :: "nat \<Rightarrow> heap \<Rightarrow> nat \<Rightarrow> nat \<Rightarrow> nat \<Rightarrow> u8 list \<Rightarrow> (heap \<times> u8 list) res" where
  "deserialize_loop 0 h bs = Inl Hang"
| "deserialize_loop (Suc n) h bs =
     (case read_head bs of
        Inl e \<Rightarrow> Inl e
      | Inr ((tb, i, f, no_buf, s, arr_len), bs1) \<Rightarrow>
          if vtype_of tb = Some TYPE_ARR then
            let (a, h1) = arr_create_anon h in
            (case deserialize_items n h1 a 0 arr_len bs1 of
               Inl e \<Rightarrow> Inl e
             | Inr (h2, bs2) \<Rightarrow> Inr (val_nil\<lparr>vtype := TYPE_ARR, data := DArr a\<rparr>, h2, bs2))
          else Inr (read_value (vtype_of tb) i f no_buf s, h, bs1))"
| "deserialize_items n h a i 0 bs = Inr (h, bs)"
| "deserialize_items n h a i (Suc k) bs =
     (case deserialize_loop n h bs of
        Inl e \<Rightarrow> Inl e
      | Inr (elem, h1, bs1) \<Rightarrow>
          (case arr_set h1 a (of_nat i) elem of
             Inl e \<Rightarrow> Inl e
           | Inr h2 \<Rightarrow>
               (case val_free h2 elem of
                  Inl e \<Rightarrow> Inl e
                | Inr h3 \<Rightarrow> deserialize_items n h3 a (i + 1) k bs1)))"

text \<open>Every value takes at least one byte, so the number of bytes bounds the nesting.\<close>

definition pipe_deserialize_value :: "heap \<Rightarrow> u8 list \<Rightarrow> (val \<times> heap \<times> u8 list) res" where
  "pipe_deserialize_value h bs = deserialize_loop (length bs + 1) h bs"

subsection \<open>Queues\<close>

definition new_queue :: "int \<Rightarrow> ipc_queue" where
  "new_queue max_count =
     \<lparr>q_msgs = [], q_count = 0, q_max = (if 0 < max_count then max_count else MSG_QUEUE_SIZE),
       q_rfd = None, q_wfd = None, q_use_pipe = False\<rparr>"

definition set_queue :: "rstate \<Rightarrow> kptr \<Rightarrow> ipc_queue \<Rightarrow> rstate" where
  "set_queue st p q = st\<lparr>r_root := upd_node (\<lambda>n. n\<lparr>k_queue := Some q\<rparr>) (r_root st) p\<rparr>"

definition queue_at :: "rstate \<Rightarrow> kptr \<Rightarrow> ipc_queue option" where
  "queue_at st p = (case node_at (r_root st) p of None \<Rightarrow> None | Some k \<Rightarrow> k_queue (node k))"

definition reg_ipc_init_queue :: "rstate \<Rightarrow> string \<Rightarrow> int \<Rightarrow> int \<times> rstate" where
  "reg_ipc_init_queue st path max_count =
     (case lookup_or_make st path RK_ALL of
        (None, st1) \<Rightarrow> (- 1, st1)
      | (Some p, st1) \<Rightarrow>
          if queue_at st1 p \<noteq> None then (0, st1) else (0, set_queue st1 p (new_queue max_count)))"

text \<open>
  The queue \<open>reg_ipc_send\<close> uses: it is made on demand, and then looked up again by its path.
\<close>

definition find_or_init_queue :: "rstate \<Rightarrow> string \<Rightarrow> (kptr \<times> ipc_queue) option \<times> rstate" where
  "find_or_init_queue st path =
     (case lookup_or_make st path RK_ALL of
        (None, st1) \<Rightarrow> (None, st1)
      | (Some p, st1) \<Rightarrow>
          (case queue_at st1 p of
             Some q \<Rightarrow> (Some (p, q), st1)
           | None \<Rightarrow>
               let (rc, st2) = reg_ipc_init_queue st1 path MSG_QUEUE_SIZE in
               if rc \<noteq> 0 then (None, st2)
               else case reg_lookup (r_root st2) path of
                 None \<Rightarrow> (None, st2)
               | Some p' \<Rightarrow>
                   (case queue_at st2 p' of None \<Rightarrow> (None, st2) | Some q \<Rightarrow> (Some (p', q), st2))))"

definition reg_ipc_send :: "istate \<Rightarrow> string \<Rightarrow> val \<Rightarrow> (int \<times> istate) res" where
  "reg_ipc_send st path msg =
     (case find_or_init_queue (i_reg st) path of
        (None, r) \<Rightarrow> Inr (- 1, st\<lparr>i_reg := r\<rparr>)
      | (Some (p, q), r) \<Rightarrow>
          if q_use_pipe q then
            (case q_wfd q of
               None \<Rightarrow> Inr (- 1, st\<lparr>i_reg := r\<rparr>)
             | Some fd \<Rightarrow>
                 (case pipe_serialize_value (r_heap r) msg of
                    Inl e \<Rightarrow> Inl e
                  | Inr (bs, h) \<Rightarrow>
                      Inr (0, st\<lparr>i_reg := r\<lparr>r_heap := h\<rparr>,
                        i_pipes := (i_pipes st)[fd := i_pipes st ! fd @ bs]\<rparr>)))
          else if q_max q \<le> q_count q then Inr (- 1, st\<lparr>i_reg := r\<rparr>)
          else
            (case val_clone (r_heap r) msg of
               Inl e \<Rightarrow> Inl e
             | Inr (w, h) \<Rightarrow>
                 Inr (0, st\<lparr>i_reg := set_queue (r\<lparr>r_heap := h\<rparr>) p
                   (q\<lparr>q_msgs := q_msgs q @ [w], q_count := q_count q + 1\<rparr>)\<rparr>)))"

text \<open>The received message, or \<open>None\<close> where the C function returns -1.\<close>

definition reg_ipc_recv :: "istate \<Rightarrow> string \<Rightarrow> (val option \<times> istate) res" where
  "reg_ipc_recv st path =
     (case reg_lookup (r_root (i_reg st)) path of
        None \<Rightarrow> Inr (None, st)
      | Some p \<Rightarrow>
          (case queue_at (i_reg st) p of
             None \<Rightarrow> Inr (None, st)
           | Some q \<Rightarrow>
               if q_use_pipe q then
                 (case q_rfd q of
                    None \<Rightarrow> Inr (None, st)
                  | Some fd \<Rightarrow>
                      if i_pipes st ! fd = [] then Inr (None, st)
                      else
                        (case pipe_deserialize_value (r_heap (i_reg st)) (i_pipes st ! fd) of
                           Inl e \<Rightarrow> Inl e
                         | Inr (v, h, rest) \<Rightarrow>
                             let st1 = st\<lparr>i_reg := (i_reg st)\<lparr>r_heap := h\<rparr>,
                                   i_pipes := (i_pipes st)[fd := rest]\<rparr>
                             in if vtype v = TYPE_ERR \<and> err_code v = 99 then Inr (None, st1)
                                else Inr (Some v, st1)))
               else if q_msgs q = [] \<or> q_count q = 0 then Inr (None, st)
               else
                 Inr (Some (hd (q_msgs q)),
                   st\<lparr>i_reg := set_queue (i_reg st) p
                     (q\<lparr>q_msgs := tl (q_msgs q), q_count := q_count q - 1\<rparr>)\<rparr>)))"

definition reg_ipc_pending :: "istate \<Rightarrow> string \<Rightarrow> int" where
  "reg_ipc_pending st path =
     (case reg_lookup (r_root (i_reg st)) path of
        None \<Rightarrow> 0
      | Some p \<Rightarrow>
          (case queue_at (i_reg st) p of
             None \<Rightarrow> 0
           | Some q \<Rightarrow>
               if q_use_pipe q then
                 (case q_rfd q of None \<Rightarrow> 0 | Some fd \<Rightarrow> if i_pipes st ! fd = [] then 0 else 1)
               else q_count q))"

subsection \<open>Switching the queues to pipes\<close>

text \<open>Write the messages of a queue to its new pipe and release them.\<close>

fun drain_msgs :: "heap \<Rightarrow> val list \<Rightarrow> (u8 list \<times> heap) res" where
  "drain_msgs h [] = Inr ([], h)"
| "drain_msgs h (m # ms) =
     (case pipe_serialize_value h m of
        Inl e \<Rightarrow> Inl e
      | Inr (bs, h1) \<Rightarrow>
          (case val_free h1 m of
             Inl e \<Rightarrow> Inl e
           | Inr h2 \<Rightarrow>
               (case drain_msgs h2 ms of Inl e \<Rightarrow> Inl e | Inr (cs, h3) \<Rightarrow> Inr (bs @ cs, h3))))"

definition pipe_node :: "heap \<Rightarrow> u8 list list \<Rightarrow> regnode \<Rightarrow> (regnode \<times> heap \<times> u8 list list) res" where
  "pipe_node h ps nd =
     (case k_queue nd of
        None \<Rightarrow> Inr (nd, h, ps)
      | Some q \<Rightarrow>
          if q_use_pipe q then Inr (nd, h, ps)
          else
            (case drain_msgs h (q_msgs q) of
               Inl e \<Rightarrow> Inl e
             | Inr (bs, h') \<Rightarrow>
                 Inr (nd\<lparr>k_queue := Some (q\<lparr>q_msgs := [], q_count := 0, q_use_pipe := True,
                   q_rfd := Some (length ps), q_wfd := Some (length ps)\<rparr>)\<rparr>, h', ps @ [bs])))"

fun walk_key :: "heap \<Rightarrow> u8 list list \<Rightarrow> regkey \<Rightarrow> (regkey \<times> heap \<times> u8 list list) res"
  and walk_keys :: "heap \<Rightarrow> u8 list list \<Rightarrow> regkey list \<Rightarrow> (regkey list \<times> heap \<times> u8 list list) res" where
  "walk_key h ps (RegKey nd cs) =
     (case pipe_node h ps nd of
        Inl e \<Rightarrow> Inl e
      | Inr (nd', h1, ps1) \<Rightarrow>
          (case walk_keys h1 ps1 cs of
             Inl e \<Rightarrow> Inl e
           | Inr (cs', h2, ps2) \<Rightarrow> Inr (RegKey nd' cs', h2, ps2)))"
| "walk_keys h ps [] = Inr ([], h, ps)"
| "walk_keys h ps (c # cs) =
     (case walk_key h ps c of
        Inl e \<Rightarrow> Inl e
      | Inr (c', h1, ps1) \<Rightarrow>
          (case walk_keys h1 ps1 cs of
             Inl e \<Rightarrow> Inl e
           | Inr (cs', h2, ps2) \<Rightarrow> Inr (c' # cs', h2, ps2)))"

definition reg_ipc_enable_pipes :: "istate \<Rightarrow> istate res" where
  "reg_ipc_enable_pipes st =
     (let r = i_reg st in
      case walk_keys (r_heap r) (i_pipes st) (children (r_root r)) of
        Inl e \<Rightarrow> Inl e
      | Inr (cs, h, ps) \<Rightarrow>
          Inr (st\<lparr>i_reg := r\<lparr>r_heap := h, r_root := RegKey (node (r_root r)) cs\<rparr>, i_pipes := ps\<rparr>))"

end
