(* ===== verification/Registry_Facts.thy ===== *)
theory Registry_Facts
  imports Registry
begin

section \<open>Facts about the registry\<close>

text \<open>
  The registry as a map from lists of names to nodes, the invariant of its operations, and what
  each operation does to the map.
\<close>

subsection \<open>Paths as lists of names\<close>

function segs_of :: "string \<Rightarrow> string list" where
  "segs_of p =
     (if p = [] then []
      else
        let seg = takeWhile (\<lambda>c. c \<noteq> CHR ''/'') p; rest = dropWhile (\<lambda>c. c \<noteq> CHR ''/'') p in
        if seg = [] then segs_of (tl p) else seg # segs_of (tl rest))"
  by pat_completeness auto
termination
proof (relation "measure length")
  fix p :: string and seg rest
  assume "p \<noteq> []" "seg = takeWhile (\<lambda>c. c \<noteq> CHR ''/'') p" "rest = dropWhile (\<lambda>c. c \<noteq> CHR ''/'') p" "seg \<noteq> []"
  moreover have "length p = length (takeWhile (\<lambda>c. c \<noteq> CHR ''/'') p) + length (dropWhile (\<lambda>c. c \<noteq> CHR ''/'') p)"
    by (metis length_append takeWhile_dropWhile_id)
  ultimately have "length rest < length p" by simp
  then show "(tl rest, p) \<in> measure length" by simp
qed auto

declare segs_of.simps [simp del]

lemma slash_split:
  fixes p :: string
  obtains "p = []" | q where "p = CHR ''/'' # q" | "p \<noteq> []" "CHR ''/'' \<notin> set p"
  | s q where "s \<noteq> []" "CHR ''/'' \<notin> set s" "p = s @ CHR ''/'' # q"
proof -
  let ?s = "takeWhile (\<lambda>c. c \<noteq> CHR ''/'') p" and ?r = "dropWhile (\<lambda>c. c \<noteq> CHR ''/'') p"
  have "?s @ ?r = p" by simp
  moreover have "CHR ''/'' \<notin> set ?s" by (auto dest: set_takeWhileD)
  moreover have "?r = [] \<or> (\<exists>q. ?r = CHR ''/'' # q)"
    using hd_dropWhile [of "\<lambda>c. c \<noteq> CHR ''/''" p] by (cases ?r) auto
  ultimately consider "p = ?s" "CHR ''/'' \<notin> set ?s" | q where "p = ?s @ CHR ''/'' # q" "CHR ''/'' \<notin> set ?s"
    by (metis append_Nil2)
  then show thesis
  proof cases
    case 1
    then show thesis using that(1,3) by metis
  next
    case (2 q)
    then show thesis using that(2,4) by (cases "?s = []") (metis append_Nil, metis)
  qed
qed

lemma take_drop_slash:
  assumes "CHR ''/'' \<notin> set s"
  shows "takeWhile (\<lambda>c. c \<noteq> CHR ''/'') (s @ CHR ''/'' # q) = s"
    and "dropWhile (\<lambda>c. c \<noteq> CHR ''/'') (s @ CHR ''/'' # q) = CHR ''/'' # q"
    and "takeWhile (\<lambda>c. c \<noteq> CHR ''/'') s = s" and "dropWhile (\<lambda>c. c \<noteq> CHR ''/'') s = []"
  using assms by (induction s) auto

lemma segs_of_Nil [simp]: "segs_of [] = []"
  by (simp add: segs_of.simps)

lemma segs_of_slash [simp]: "segs_of (CHR ''/'' # p) = segs_of p"
  by (simp add: segs_of.simps [of "CHR ''/'' # p"])

lemma segs_of_seg: "s \<noteq> [] \<Longrightarrow> CHR ''/'' \<notin> set s \<Longrightarrow> segs_of (s @ CHR ''/'' # p) = s # segs_of p"
  by (simp add: segs_of.simps [of "s @ CHR ''/'' # p"] take_drop_slash Let_def)

lemma segs_of_last: "s \<noteq> [] \<Longrightarrow> CHR ''/'' \<notin> set s \<Longrightarrow> segs_of s = [s]"
  by (simp add: segs_of.simps [of s] take_drop_slash Let_def)

lemmas segs_simps = segs_of_seg segs_of_last take_drop_slash

text \<open>Induction over the segments of a string.\<close>

lemma seg_induct [case_names Nil slash last seg]:
  fixes p :: string
  assumes "P []" and "\<And>q. P q \<Longrightarrow> P (CHR ''/'' # q)"
    and "\<And>s. s \<noteq> [] \<Longrightarrow> CHR ''/'' \<notin> set s \<Longrightarrow> P s"
    and "\<And>s q. s \<noteq> [] \<Longrightarrow> CHR ''/'' \<notin> set s \<Longrightarrow> P q \<Longrightarrow> P (s @ CHR ''/'' # q)"
  shows "P p"
proof (induction p rule: length_induct)
  case (1 p)
  show ?case by (rule slash_split [of p]) (use 1 assms in auto)
qed

definition path_segs :: "string \<Rightarrow> string list" where
  "path_segs path = segs_of (drop 1 (trunc REG_PATH_MAX path))"

definition path_of :: "string list \<Rightarrow> string" where
  "path_of ss = (if ss = [] then ''/'' else concat (List.map (\<lambda>s. CHR ''/'' # s) ss))"

definition good_name :: "string \<Rightarrow> bool" where
  "good_name s \<longleftrightarrow> s \<noteq> [] \<and> length s < NAME_LEN \<and> CHR ''/'' \<notin> set s"

definition good_path :: "string \<Rightarrow> bool" where
  "good_path path \<longleftrightarrow> path \<noteq> [] \<and> hd path = CHR ''/'' \<and> length path < REG_PATH_MAX \<and>
     (\<forall>s \<in> set (path_segs path). length s < NAME_LEN)"

lemma segs_of_good: "s \<in> set (segs_of p) \<Longrightarrow> s \<noteq> [] \<and> CHR ''/'' \<notin> set s"
  by (induction p rule: seg_induct) (auto simp: segs_simps)

lemma length_segs_of: "length (concat (List.map (\<lambda>s. CHR ''/'' # s) (segs_of p))) \<le> length p + 1"
  by (induction p rule: seg_induct) (auto simp: segs_simps)

lemma strtok_rest: "strtok_slash p = Some (seg, rest) \<Longrightarrow> segs_of p = seg # segs_of rest"
proof (induction p rule: seg_induct)
  case (last s)
  then show ?case by (cases s) (auto simp: strtok_slash_def segs_simps Let_def)
next
  case (seg s q)
  then have "dropWhile (\<lambda>c. c = CHR ''/'') (s @ CHR ''/'' # q) = s @ CHR ''/'' # q" by (cases s) auto
  then show ?case using seg by (auto simp: strtok_slash_def segs_simps Let_def)
qed (simp_all add: strtok_slash_def)

lemma strtok_none: "strtok_slash p = None \<longleftrightarrow> segs_of p = []"
proof (induction p rule: seg_induct)
  case (last s)
  then show ?case by (cases s) (auto simp: strtok_slash_def segs_simps Let_def)
next
  case (seg s q)
  then have "dropWhile (\<lambda>c. c = CHR ''/'') (s @ CHR ''/'' # q) = s @ CHR ''/'' # q" by (cases s) auto
  then show ?case using seg by (simp add: strtok_slash_def segs_simps Let_def)
qed (simp_all add: strtok_slash_def Let_def)

subsection \<open>Looking up\<close>

lemma lookup_loop_node_at:
  "lookup_loop cur p = map_option (\<lambda>_. segs_of p) (node_at cur (segs_of p))"
proof (induction p arbitrary: cur rule: seg_induct)
  case Nil
  then show ?case by (simp add: lookup_loop.simps)
next
  case (slash q)
  then show ?case by (simp add: lookup_loop.simps [of cur "CHR ''/'' # q"])
next
  case (last s)
  then show ?case by (simp add: lookup_loop.simps [of cur s] segs_simps Let_def split: option.split)
next
  case (seg s q)
  then show ?case
    by (simp add: lookup_loop.simps [of cur "s @ CHR ''/'' # q"] segs_simps Let_def option.map_comp comp_def
        split: option.split)
qed

lemma reg_lookup_node_at:
  "path \<noteq> [] \<Longrightarrow> hd path = CHR ''/'' \<Longrightarrow>
   reg_lookup root path = map_option (\<lambda>_. path_segs path) (node_at root (path_segs path))"
  by (cases path) (auto simp: reg_lookup_def path_segs_def lookup_loop_node_at trunc_def)

lemma reg_key_node_at:
  "path \<noteq> [] \<Longrightarrow> hd path = CHR ''/'' \<Longrightarrow> reg_key root path = node_at root (path_segs path)"
  by (auto simp: reg_key_def reg_lookup_node_at split: option.split)

subsection \<open>The tree as a map, and sums over it\<close>

definition info :: "regkey \<Rightarrow> kptr \<Rightarrow> regnode option" where
  "info k q = map_option node (node_at k q)"

fun tree_sum :: "(regnode \<Rightarrow> nat) \<Rightarrow> regkey \<Rightarrow> nat"
  and forest_sum :: "(regnode \<Rightarrow> nat) \<Rightarrow> regkey list \<Rightarrow> nat" where
  "tree_sum w (RegKey nd cs) = w nd + forest_sum w cs"
| "forest_sum w [] = 0"
| "forest_sum w (c # cs) = tree_sum w c + forest_sum w cs"

lemma tree_sum_node: "tree_sum w k = w (node k) + forest_sum w (children k)"
  by (cases k) simp

lemma nkeys_sum: "nkeys k = tree_sum (\<lambda>_. 1) k" "nkeys_list cs = forest_sum (\<lambda>_. 1) cs"
  by (induction k and cs rule: nkeys_nkeys_list.induct) auto

lemma info_Nil [simp]: "info k [] = Some (node k)"
  by (simp add: info_def)

lemma info_Cons: "info k (s # ss) =
  (case regkey_find_child (children k) s of None \<Rightarrow> None | Some c \<Rightarrow> info c ss)"
  by (simp add: info_def split: option.split)

lemma find_child_name: "regkey_find_child cs s = Some c \<Longrightarrow> key_name c = s \<and> c \<in> set cs"
  by (induction cs) (auto split: if_splits)

lemma find_child_upd:
  "(\<And>c. key_name (f c) = key_name c) \<Longrightarrow>
   regkey_find_child (upd_child f s cs) t =
     (if t = s then map_option f (regkey_find_child cs s) else regkey_find_child cs t)"
  by (induction cs) auto

lemma find_child_upd_at:
  assumes "regkey_find_child cs s = Some c" and "key_name c' = s"
  shows "regkey_find_child (upd_child (\<lambda>_. c') s cs) t = (if t = s then Some c' else regkey_find_child cs t)"
  using assms by (induction cs) (auto split: if_splits)

lemma key_name_upd_at: "(\<And>x. key_name (f x) = key_name x) \<Longrightarrow> key_name (upd_at f k p) = key_name k"
  by (cases p) (simp_all add: key_name_def)

lemma info_upd_node:
  assumes "\<And>n. k_name (f n) = k_name n"
  shows "info (upd_node f k p) q = (if q = p then map_option f (info k p) else info k q)"
proof (induction p arbitrary: k q)
  case Nil
  then show ?case by (cases q) (auto simp: upd_node_def info_Cons)
next
  case (Cons s ss)
  let ?f = "\<lambda>x. RegKey (f (node x)) (children x)"
  have nm: "key_name (upd_at ?f c ss) = key_name c" for c
    by (rule key_name_upd_at) (simp add: key_name_def assms)
  show ?case
  proof (cases q)
    case (Cons t ts)
    then show ?thesis
      using Cons.IH [unfolded upd_node_def]
      by (auto simp: upd_node_def info_Cons find_child_upd nm split: option.split)
  qed (simp add: upd_node_def)
qed

lemma forest_sum_upd_child:
  "regkey_find_child cs s = Some c \<Longrightarrow>
   forest_sum w (upd_child f s cs) + tree_sum w c = forest_sum w cs + tree_sum w (f c)"
  by (induction cs) (auto split: if_splits)

lemma tree_sum_upd_node:
  "info k p = Some n \<Longrightarrow> tree_sum w (upd_node f k p) + w n = tree_sum w k + w (f n)"
proof (induction p arbitrary: k)
  case Nil
  then show ?case by (simp add: upd_node_def tree_sum_node)
next
  case (Cons s ss)
  then obtain c where c: "regkey_find_child (children k) s = Some c" "info c ss = Some n"
    by (auto simp: info_Cons split: option.splits)
  then have "tree_sum w (upd_node f c ss) + w n = tree_sum w c + w (f n)" by (intro Cons.IH)
  then show ?case
    using forest_sum_upd_child [OF c(1), of w "\<lambda>c. upd_node f c ss"]
    by (simp add: upd_node_def tree_sum_node)
qed

lemma unlink_simps:
  "unlink k [s] = RegKey (node k) (del_child s (children k))"
  "unlink k (s # t # ss) = RegKey (node k) (upd_child (\<lambda>c. unlink c (t # ss)) s (children k))"
  by (simp_all add: unlink_def)

lemma key_name_unlink [simp]: "key_name (unlink k p) = key_name k"
  unfolding unlink_def by (rule key_name_upd_at) (simp add: key_name_def)

lemma find_child_del: "t \<noteq> s \<Longrightarrow> regkey_find_child (del_child s cs) t = regkey_find_child cs t"
  by (induction cs) auto

lemma forest_sum_del:
  "regkey_find_child cs s = Some c \<Longrightarrow> forest_sum w (del_child s cs) + tree_sum w c = forest_sum w cs"
  by (induction cs) (auto split: if_splits)

lemma tree_sum_unlink:
  "p \<noteq> [] \<Longrightarrow> node_at k p = Some x \<Longrightarrow> tree_sum w (unlink k p) + tree_sum w x = tree_sum w k"
proof (induction p arbitrary: k rule: induct_list012)
  case (2 s)
  then show ?case
    by (auto simp: unlink_simps tree_sum_node [of _ k] forest_sum_del split: option.splits)
next
  case (3 s t ss)
  then obtain c where c: "regkey_find_child (children k) s = Some c" "node_at c (t # ss) = Some x"
    by (auto split: option.splits)
  then have "tree_sum w (unlink c (t # ss)) + tree_sum w x = tree_sum w c" using "3.IH"(2) by blast
  then show ?case
    using forest_sum_upd_child [OF c(1), of w "\<lambda>c. unlink c (t # ss)"]
    by (simp add: unlink_simps tree_sum_node [of _ k])
qed simp

subsection \<open>Well-formed registries\<close>

text \<open>
  Below a key with the names \<open>pre\<close>: every \<open>path\<close> field is the key's real path, siblings have
  different names, and names are what a path segment can be.
\<close>

fun wf_key :: "string list \<Rightarrow> regkey \<Rightarrow> bool" and wf_keys :: "string list \<Rightarrow> regkey list \<Rightarrow> bool" where
  "wf_key pre (RegKey nd cs) \<longleftrightarrow>
     k_path nd = path_of pre \<and> distinct (List.map key_name cs) \<and> wf_keys pre cs"
| "wf_keys pre [] \<longleftrightarrow> True"
| "wf_keys pre (c # cs) \<longleftrightarrow>
     good_name (key_name c) \<and> wf_key (pre @ [key_name c]) c \<and> wf_keys pre cs"

lemma wf_key_node: "wf_key pre k \<longleftrightarrow> k_path (node k) = path_of pre \<and>
   distinct (List.map key_name (children k)) \<and> wf_keys pre (children k)"
  by (cases k) simp

lemma wf_keys_in: "wf_keys pre cs \<longleftrightarrow> (\<forall>c \<in> set cs. good_name (key_name c) \<and> wf_key (pre @ [key_name c]) c)"
  by (induction cs) auto

lemma wf_keys_find: "wf_keys pre cs \<Longrightarrow> regkey_find_child cs s = Some c \<Longrightarrow> wf_key (pre @ [s]) c \<and> good_name s"
  using find_child_name by (fastforce simp: wf_keys_in)

lemma names_upd: "(\<And>c. key_name (f c) = key_name c) \<Longrightarrow> List.map key_name (upd_child f s cs) = List.map key_name cs"
  by (induction cs) auto

lemma wf_keys_upd:
  assumes "wf_keys pre cs" and "\<And>c. key_name (f c) = key_name c"
    and "\<And>c. regkey_find_child cs s = Some c \<Longrightarrow> wf_key (pre @ [s]) c \<Longrightarrow> wf_key (pre @ [s]) (f c)"
  shows "wf_keys pre (upd_child f s cs)"
  using assms by (induction cs) (auto split: if_splits)

lemma wf_upd_node:
  assumes "\<And>n. k_name (f n) = k_name n" and "\<And>n. k_path (f n) = k_path n"
  shows "wf_key pre k \<Longrightarrow> wf_key pre (upd_node f k p)"
proof (induction p arbitrary: k pre)
  case Nil
  then show ?case by (simp add: upd_node_def wf_key_node assms)
next
  case (Cons s ss)
  let ?f = "\<lambda>x. RegKey (f (node x)) (children x)"
  have nm: "key_name (upd_at ?f c ss) = key_name c" for c
    by (rule key_name_upd_at) (simp add: key_name_def assms)
  show ?case
    using Cons.prems Cons.IH [unfolded upd_node_def]
    by (auto simp: upd_node_def wf_key_node [of pre k] names_upd nm intro!: wf_keys_upd)
qed

lemma wf_key_node_at:
  "wf_key pre k \<Longrightarrow> node_at k p = Some x \<Longrightarrow> wf_key (pre @ p) x"
proof (induction p arbitrary: k pre)
  case (Cons s ss)
  then obtain c where "regkey_find_child (children k) s = Some c" "node_at c ss = Some x"
    by (auto split: option.splits)
  then show ?case using Cons.IH [of "pre @ [s]" c] Cons.prems(1) wf_keys_find by (fastforce simp: wf_key_node [of pre k])
qed simp

lemma del_child_subset: "set (del_child s cs) \<subseteq> set cs"
  by (induction cs) auto

lemma names_del: "distinct (List.map key_name cs) \<Longrightarrow> distinct (List.map key_name (del_child s cs))"
  by (induction cs) (auto dest: subsetD [OF del_child_subset])

lemma find_child_None: "regkey_find_child cs s = None \<longleftrightarrow> s \<notin> key_name ` set cs"
  by (induction cs) auto

lemma find_child_del_self: "distinct (List.map key_name cs) \<Longrightarrow> regkey_find_child (del_child s cs) s = None"
  by (induction cs) (auto simp: find_child_None)

lemma wf_unlink: "wf_key pre k \<Longrightarrow> p \<noteq> [] \<Longrightarrow> wf_key pre (unlink k p)"
proof (induction p arbitrary: k pre rule: induct_list012)
  case (2 s)
  then show ?case
    using del_child_subset [of s "children k"] names_del [of "children k" s]
    by (auto simp: unlink_simps wf_key_node [of pre k] wf_keys_in)
next
  case (3 s t ss)
  have k: "wf_keys pre (children k)" "k_path (node k) = path_of pre" "distinct (List.map key_name (children k))"
    using "3.prems"(1) by (simp_all add: wf_key_node [of pre k])
  have "wf_keys pre (upd_child (\<lambda>c. unlink c (t # ss)) s (children k))"
    by (rule wf_keys_upd [OF k(1)]) (simp, rule "3.IH"(2), assumption, simp)
  then show ?case using k(2,3) by (simp add: unlink_simps(2) names_upd)
qed simp

lemma info_unlink:
  "wf_key pre k \<Longrightarrow> p \<noteq> [] \<Longrightarrow> info (unlink k p) q = (if is_prefix p q then None else info k q)"
proof (induction p arbitrary: k pre q rule: induct_list012)
  case (2 s)
  then show ?case
    by (cases q) (auto simp: unlink_simps info_Cons is_prefix_def find_child_del find_child_del_self
        wf_key_node [of pre k] split: option.split)
next
  case (3 s t ss)
  show ?case
  proof (cases q)
    case Nil
    then show ?thesis by (simp add: unlink_simps is_prefix_def)
  next
    case (Cons u us)
    show ?thesis
    proof (cases "u = s")
      case True
      show ?thesis
      proof (cases "regkey_find_child (children k) s")
        case None
        then show ?thesis using Cons True by (simp add: unlink_simps info_Cons find_child_upd)
      next
        case (Some c)
        then have "wf_key (pre @ [s]) c" using "3.prems"(1) wf_keys_find by (auto simp: wf_key_node [of pre k])
        then have "info (unlink c (t # ss)) us = (if is_prefix (t # ss) us then None else info c us)"
          using "3.IH"(2) by blast
        then show ?thesis
          using Cons True Some by (simp add: unlink_simps info_Cons find_child_upd is_prefix_def)
      qed
    next
      case False
      then show ?thesis using Cons by (auto simp: unlink_simps info_Cons find_child_upd is_prefix_def)
    qed
  qed
qed simp

subsection \<open>What \<open>reg_mkpath\<close> does\<close>

definition fresh_node :: "string list \<Rightarrow> u8 \<Rightarrow> regnode" where
  "fresh_node q rights = \<lparr>k_name = last q, k_path = path_of q, k_val = val_nil, k_rights = rights, k_queue = None\<rparr>"

lemma path_of_snoc: "pre \<noteq> [] \<Longrightarrow> path_of (pre @ [s]) = path_of pre @ CHR ''/'' # s"
  by (simp add: path_of_def)

lemma path_of_root: "[] \<notin> set pre \<Longrightarrow> path_of pre = ''/'' \<longleftrightarrow> pre = []"
  by (cases pre) (auto simp: path_of_def)

lemma child_path_of:
  "[] \<notin> set pre \<Longrightarrow> length (path_of (pre @ [s])) < REG_PATH_MAX \<Longrightarrow>
   child_path (path_of pre) s = path_of (pre @ [s])"
  by (cases "pre = []") (simp_all add: child_path_def path_of_root path_of_snoc, simp add: path_of_def)

lemma length_path_of_mono: "length (path_of (pre @ [s])) \<le> length (path_of (pre @ s # ss))"
  by (simp add: path_of_def)

lemma regkey_alloc_fresh:
  "length s < NAME_LEN \<Longrightarrow> length (path_of (pre @ [s])) < REG_PATH_MAX \<Longrightarrow>
   regkey_alloc s (path_of (pre @ [s])) rights = RegKey (fresh_node (pre @ [s]) rights) []"
  by (simp add: regkey_alloc_def fresh_node_def)

lemma wf_fresh: "wf_key pre (RegKey (fresh_node pre rights) [])"
  by (simp add: fresh_node_def)

lemma is_prefix_Cons: "is_prefix (s # ss) (t # ts) \<longleftrightarrow> s = t \<and> is_prefix ss ts"
  by (auto simp: is_prefix_def)

lemma is_prefix_Nil [simp]: "is_prefix [] ts" "is_prefix (s # ss) [] = False"
  by (simp_all add: is_prefix_def)

lemma names_replace:
  "regkey_find_child cs s = Some c \<Longrightarrow> key_name d = s \<Longrightarrow>
   List.map key_name (upd_child (\<lambda>_. d) s cs) = List.map key_name cs"
  by (induction cs) auto

lemma wf_replace:
  "wf_keys pre cs \<Longrightarrow> regkey_find_child cs s = Some c \<Longrightarrow> key_name d = s \<Longrightarrow> wf_key (pre @ [s]) d \<Longrightarrow>
   wf_keys pre (upd_child (\<lambda>_. d) s cs)"
  by (induction cs) (auto split: if_splits)

lemma mkpath_loop_spec:
  assumes "wf_key pre cur" and "[] \<notin> set pre" and "\<forall>s \<in> set (segs_of p). length s < NAME_LEN"
    and "length (path_of (pre @ segs_of p)) < REG_PATH_MAX"
    and "mkpath_loop rights cur (path_of pre) p = (cur', n, ptr)"
  shows "ptr = segs_of p \<and> node cur' = node cur \<and> wf_key pre cur' \<and>
    (\<forall>w c. (\<forall>q. w (fresh_node q rights) = c) \<longrightarrow> tree_sum w cur' = tree_sum w cur + n * c) \<and>
    (\<forall>q. info cur' q = (case info cur q of Some nd \<Rightarrow> Some nd
       | None \<Rightarrow> if is_prefix q (segs_of p) then Some (fresh_node (pre @ q) rights) else None))"
  using assms
proof (induction rights cur "path_of pre" p arbitrary: pre cur' n ptr rule: mkpath_loop.induct)
  case (1 rights cur p)
  show ?case
  proof (cases "strtok_slash p")
    case None
    then have p: "segs_of p = []" by (simp add: strtok_none)
    then have "cur' = cur" "n = 0" "ptr = []"
      using "1.prems"(5) None by (simp_all add: mkpath_loop.simps [of rights cur])
    moreover have "info cur q = None \<Longrightarrow> \<not> is_prefix q []" for q by (cases q) auto
    ultimately show ?thesis using "1.prems"(1) p by (auto split: option.split)
  next
    case (Some x)
    then obtain seg rest where tok: "strtok_slash p = Some (seg, rest)" by (cases x) auto
    then have segs: "segs_of p = seg # segs_of rest" by (rule strtok_rest)
    have seg: "seg \<noteq> []" "CHR ''/'' \<notin> set seg" "length seg < NAME_LEN"
      using strtok_slash_shorter [OF tok] segs "1.prems"(3) by auto
    have len: "length (path_of (pre @ [seg])) < REG_PATH_MAX"
      using "1.prems"(4) segs length_path_of_mono [of pre seg "segs_of rest"] by simp
    have path: "child_path (path_of pre) seg = path_of (pre @ [seg])"
      using child_path_of [OF "1.prems"(2) len] .
    have prems: "[] \<notin> set (pre @ [seg])" "\<forall>s \<in> set (segs_of rest). length s < NAME_LEN"
      "length (path_of ((pre @ [seg]) @ segs_of rest)) < REG_PATH_MAX"
      using "1.prems"(2-4) seg segs by auto
    have cur: "wf_keys pre (children cur)" "distinct (List.map key_name (children cur))"
      "k_path (node cur) = path_of pre"
      using "1.prems"(1) by (simp_all add: wf_key_node [of pre cur])
    show ?thesis
    proof (cases "regkey_find_child (children cur) seg")
      case None
      define c where "c = RegKey (fresh_node (pre @ [seg]) rights) []"
      obtain d m ptr' where rec: "mkpath_loop rights c (path_of (pre @ [seg])) rest = (d, m, ptr')"
        by (metis prod_cases3)
      have alloc: "regkey_alloc seg (path_of (pre @ [seg])) rights = c"
        using regkey_alloc_fresh [OF seg(3) len] by (simp add: c_def)
      have IH: "ptr' = segs_of rest" "node d = node c" "wf_key (pre @ [seg]) d"
        "\<And>w k. (\<forall>q. w (fresh_node q rights) = k) \<Longrightarrow> tree_sum w d = tree_sum w c + m * k"
        "\<And>q. info d q = (case info c q of Some nd \<Rightarrow> Some nd
          | None \<Rightarrow> if is_prefix q (segs_of rest) then Some (fresh_node ((pre @ [seg]) @ q) rights) else None)"
        using "1.hyps"(1) [OF tok refl path [symmetric] None alloc [symmetric], of d m ptr']
          rec prems path wf_fresh [of "pre @ [seg]" rights] c_def alloc by auto
      have nm: "key_name d = seg" "key_name c = seg" using IH(2) by (simp_all add: key_name_def c_def fresh_node_def)
      have res: "cur' = add_kid d cur" "n = m + 1" "ptr = seg # ptr'"
        using "1.prems"(5) tok None path alloc rec nm(2)
        by (auto simp: mkpath_loop.simps [of rights cur] Let_def)
      have wf: "wf_key pre cur'"
        using cur IH(3) nm(1) seg None res(1) by (auto simp: add_kid_def find_child_None good_name_def)
      have sums: "tree_sum w cur' = tree_sum w cur + n * k" if "\<forall>q. w (fresh_node q rights) = k" for w k
        using IH(4) [of w, OF that] that res(1,2)
        by (simp add: add_kid_def tree_sum_node [of w cur] c_def)
      have "info cur' q = (case info cur q of Some nd \<Rightarrow> Some nd
          | None \<Rightarrow> if is_prefix q (segs_of p) then Some (fresh_node (pre @ q) rights) else None)" for q
      proof (cases q)
        case (Cons t ts)
        show ?thesis
        proof (cases "t = seg")
          case True
          have "info c ts = (if ts = [] then Some (fresh_node (pre @ [seg]) rights) else None)"
            by (cases ts) (auto simp: c_def info_Cons)
          then have "info d ts = (if is_prefix ts (segs_of rest) then Some (fresh_node (pre @ q) rights) else None)"
            using IH(5) [of ts] Cons True by (auto split: if_splits)
          then show ?thesis using Cons True None segs nm(1) res(1) by (simp add: info_Cons add_kid_def is_prefix_Cons)
        next
          case False
          then show ?thesis using Cons segs nm(1) res(1)
            by (simp add: info_Cons add_kid_def is_prefix_Cons split: option.split)
        qed
      qed (simp add: res(1) add_kid_def)
      then show ?thesis using IH(1) res segs wf sums by (simp add: add_kid_def)
    next
      case (Some c)
      obtain d m ptr' where rec: "mkpath_loop rights c (path_of (pre @ [seg])) rest = (d, m, ptr')"
        by (metis prod_cases3)
      have wfc: "wf_key (pre @ [seg]) c" using cur(1) Some wf_keys_find by blast
      have IH: "ptr' = segs_of rest" "node d = node c" "wf_key (pre @ [seg]) d"
        "\<And>w k. (\<forall>q. w (fresh_node q rights) = k) \<Longrightarrow> tree_sum w d = tree_sum w c + m * k"
        "\<And>q. info d q = (case info c q of Some nd \<Rightarrow> Some nd
          | None \<Rightarrow> if is_prefix q (segs_of rest) then Some (fresh_node ((pre @ [seg]) @ q) rights) else None)"
        using "1.hyps"(2) [OF tok refl path [symmetric] Some, of d m ptr']
          rec prems path wfc by auto
      have nm: "key_name d = seg" "key_name c = seg" using IH(2) find_child_name [OF Some] by (simp_all add: key_name_def)
      have res: "cur' = RegKey (node cur) (upd_child (\<lambda>_. d) seg (children cur))" "n = m" "ptr = seg # ptr'"
        using "1.prems"(5) tok Some path rec by (auto simp: mkpath_loop.simps [of rights cur] Let_def)
      have find: "regkey_find_child (children cur') t =
          (if t = seg then Some d else regkey_find_child (children cur) t)" for t
        using find_child_upd_at [OF Some nm(1)] res(1) by simp
      have wf: "wf_key pre cur'" unfolding res(1)
        using cur IH(3) nm(1) Some by (simp add: wf_replace names_replace)
      have sums: "tree_sum w cur' = tree_sum w cur + n * k" if "\<forall>q. w (fresh_node q rights) = k" for w k
        using IH(4) [of w, OF that] forest_sum_upd_child [OF Some, of w "\<lambda>_. d"] res(1,2)
        by (simp add: tree_sum_node [of w cur])
      have "info cur' q = (case info cur q of Some nd \<Rightarrow> Some nd
          | None \<Rightarrow> if is_prefix q (segs_of p) then Some (fresh_node (pre @ q) rights) else None)" for q
      proof (cases q)
        case (Cons t ts)
        then show ?thesis using IH(5) [of ts] segs Some find [of t]
          by (auto simp: info_Cons is_prefix_Cons split: option.split)
      qed (simp add: res(1))
      then show ?thesis using IH(1) res segs wf sums by simp
    qed
  qed
qed
subsection \<open>The invariant\<close>

fun all_vals :: "regkey \<Rightarrow> val list" and all_vals_list :: "regkey list \<Rightarrow> val list" where
  "all_vals (RegKey nd cs) = owned nd @ all_vals_list cs"
| "all_vals_list [] = []"
| "all_vals_list (c # cs) = all_vals c @ all_vals_list cs"

definition key_refs :: "nat \<Rightarrow> regnode \<Rightarrow> nat" where
  "key_refs a n = nrefs (owned n) a"

lemma nrefs_all_vals: "nrefs (all_vals k) a = tree_sum (key_refs a) k"
  "nrefs (all_vals_list cs) a = forest_sum (key_refs a) cs"
  by (induction k and cs rule: all_vals_all_vals_list.induct) (auto simp: key_refs_def)

text \<open>
  \<open>R\<close> are the values held outside the registry. The tree is well formed, the reference counts
  count the values in the keys, the queues, the arrays and \<open>R\<close>, and \<open>total_keys\<close> is the number
  of keys.
\<close>

definition reg_ok :: "rstate \<Rightarrow> val list \<Rightarrow> bool" where
  "reg_ok st R \<longleftrightarrow> wf_key [] (r_root st) \<and> heap_ok (r_heap st) (all_vals (r_root st) @ R) \<and>
     total_keys st = of_nat (nkeys (r_root st))"

lemma key_refs_fresh: "key_refs a (fresh_node q rights) = 0"
  by (simp add: key_refs_def owned_def fresh_node_def ref_of_def val_nil_def)

lemma length_path_of_segs:
  assumes "path \<noteq> []" and "hd path = CHR ''/''"
  shows "length (path_of (path_segs path)) \<le> length path"
proof -
  have "length (concat (List.map (\<lambda>s. CHR ''/'' # s) (path_segs path))) \<le>
      length (drop 1 (trunc REG_PATH_MAX path)) + 1"
    unfolding path_segs_def by (rule length_segs_of)
  also have "\<dots> \<le> length path" using assms(1) by (cases path) (simp_all add: trunc_def)
  finally show ?thesis using assms(1) by (cases path) (simp_all add: path_of_def)
qed

lemma info_prefix:
  "info k p = Some nd \<Longrightarrow> is_prefix q p \<Longrightarrow> \<exists>nd'. info k q = Some nd'"
proof (induction q arbitrary: k p)
  case (Cons s ss)
  then obtain ps where p: "p = s # ps" "is_prefix ss ps" by (cases p) (auto simp: is_prefix_Cons)
  then show ?case using Cons by (auto simp: info_Cons split: option.splits)
qed simp

lemma info_node_at: "info k p = Some nd \<Longrightarrow> \<exists>x. node_at k p = Some x \<and> node x = nd"
  by (auto simp: info_def)

lemma reg_mkpath_ok:
  assumes "reg_ok st R" and "good_path path"
  shows "\<exists>st'. reg_mkpath st path rights = (Some (path_segs path), st') \<and> reg_ok st' R \<and>
    r_heap st' = r_heap st \<and> scope_counter st' = scope_counter st \<and>
    (\<forall>q. info (r_root st') q = (case info (r_root st) q of Some nd \<Rightarrow> Some nd
       | None \<Rightarrow> if is_prefix q (path_segs path) then Some (fresh_node q rights) else None))"
proof -
  let ?p = "drop 1 (trunc REG_PATH_MAX path)"
  obtain root' n ptr where loop: "mkpath_loop rights (r_root st) (path_of []) ?p = (root', n, ptr)"
    by (metis prod_cases3)
  have path: "path \<noteq> []" "hd path = CHR ''/''" "length path < REG_PATH_MAX"
    "\<forall>s \<in> set (segs_of ?p). length s < NAME_LEN"
    using assms(2) by (simp_all add: good_path_def path_segs_def)
  have len: "length (path_of ([] @ segs_of ?p)) < REG_PATH_MAX"
    using length_path_of_segs [OF path(1,2)] path(3) by (simp add: path_segs_def)
  have wf: "wf_key [] (r_root st)" using assms(1) by (simp add: reg_ok_def)
  have pre: "[] \<notin> set ([] :: string list)" by simp
  note spec = mkpath_loop_spec [OF wf pre path(4) len loop, unfolded append_Nil]
  define st' where "st' = st\<lparr>r_root := root', total_keys := total_keys st + of_nat n\<rparr>"
  have run: "reg_mkpath st path rights = (Some (path_segs path), st')"
    using path(1,2) loop spec by (simp add: reg_mkpath_def st'_def path_of_def path_segs_def)
  have "tree_sum (\<lambda>_. 1) root' = tree_sum (\<lambda>_. 1) (r_root st) + n" using spec by auto
  then have keys: "nkeys root' = nkeys (r_root st) + n" by (simp add: nkeys_sum)
  have "tree_sum (key_refs a) root' = tree_sum (key_refs a) (r_root st)" for a
    using spec key_refs_fresh by (metis add_0_right mult_0_right)
  then have "heap_ok (r_heap st) (all_vals root' @ R)"
    using assms(1) heap_ok_cong [of "all_vals root' @ R" "all_vals (r_root st) @ R"]
    by (simp add: reg_ok_def nrefs_all_vals)
  then have "reg_ok st' R" using assms(1) spec keys by (simp add: reg_ok_def st'_def)
  moreover have "r_root st' = root'" by (simp add: st'_def)
  ultimately show ?thesis using run spec unfolding path_segs_def by (intro exI [of _ st']) (simp add: st'_def)
qed

lemma lookup_or_make_ok:
  assumes "reg_ok st R" and "good_path path"
  shows "\<exists>st'. lookup_or_make st path rights = (Some (path_segs path), st') \<and> reg_ok st' R \<and>
    r_heap st' = r_heap st \<and> scope_counter st' = scope_counter st \<and>
    (\<forall>q. info (r_root st') q = (case info (r_root st) q of Some nd \<Rightarrow> Some nd
       | None \<Rightarrow> if is_prefix q (path_segs path) then Some (fresh_node q rights) else None))"
proof (cases "node_at (r_root st) (path_segs path)")
  case None
  then show ?thesis
    using reg_mkpath_ok [OF assms] assms(2)
    by (simp add: lookup_or_make_def reg_lookup_node_at good_path_def)
next
  case (Some x)
  then have "info (r_root st) (path_segs path) = Some (node x)" by (simp add: info_def)
  then have "info (r_root st) q = None \<Longrightarrow> \<not> is_prefix q (path_segs path)" for q
    using info_prefix by fastforce
  then have "info (r_root st) q = (case info (r_root st) q of Some nd \<Rightarrow> Some nd
      | None \<Rightarrow> if is_prefix q (path_segs path) then Some (fresh_node q rights) else None)" for q
    by (simp split: option.split)
  moreover have "lookup_or_make st path rights = (Some (path_segs path), st)"
    using assms(2) Some by (simp add: lookup_or_make_def reg_lookup_node_at good_path_def)
  ultimately show ?thesis using assms(1) by blast
qed

lemma heap_ok_swap: "heap_ok h R \<Longrightarrow> (\<And>a. nrefs R a = nrefs R' a) \<Longrightarrow> heap_ok h R'"
  by (simp add: heap_ok_cong [of R R'])

lemma nrefs_Cons: "nrefs (v # vs) a = nrefs [v] a + nrefs vs a"
  by simp

lemma set_key_ok:
  assumes "reg_ok st R" and "info (r_root st) p = Some nd"
    and "\<And>b. ref_of v = Some b \<Longrightarrow> 0 < nrefs (all_vals (r_root st) @ R) b"
  shows "\<exists>st'. set_key st p v rights = Inr st' \<and> reg_ok st' R \<and> scope_counter st' = scope_counter st \<and>
    (\<forall>q. info (r_root st') q =
      (if q = p then Some (nd\<lparr>k_val := stored v, k_rights := rights\<rparr>) else info (r_root st) q))"
proof -
  let ?f = "\<lambda>n. n\<lparr>k_val := stored v, k_rights := rights\<rparr>"
  let ?root = "upd_node ?f (r_root st) p"
  obtain x where x: "node_at (r_root st) p = Some x" "node x = nd" using info_node_at [OF assms(2)] by blast
  have ok: "heap_ok (r_heap st) (all_vals (r_root st) @ R)" using assms(1) by (simp add: reg_ok_def)
  have "0 < nrefs (all_vals (r_root st) @ R) b + item_refs (r_heap st) b" if "ref_of v = Some b" for b
    using assms(3) [OF that] by linarith
  then obtain h1 where h1: "val_clone (r_heap st) v = Inr (stored v, h1)"
    "heap_ok h1 (stored v # all_vals (r_root st) @ R)"
    by (rule clone_stored [OF ok])
  have "nrefs (stored v # all_vals (r_root st) @ R) a = nrefs ([k_val nd] @ all_vals ?root @ R) a" for a
  proof -
    have "tree_sum (key_refs a) ?root + key_refs a nd = tree_sum (key_refs a) (r_root st) + key_refs a (?f nd)"
      using tree_sum_upd_node [OF assms(2)] by blast
    moreover have "key_refs a (?f nd) + nrefs [k_val nd] a = key_refs a nd + nrefs [stored v] a"
      by (simp add: key_refs_def owned_def)
    moreover have "nrefs (stored v # all_vals (r_root st) @ R) a =
        nrefs [stored v] a + tree_sum (key_refs a) (r_root st) + nrefs R a"
      by (simp add: nrefs_all_vals)
    moreover have "nrefs ([k_val nd] @ all_vals ?root @ R) a =
        nrefs [k_val nd] a + tree_sum (key_refs a) ?root + nrefs R a"
      unfolding nrefs_simps(3) nrefs_all_vals by (rule add.assoc [symmetric])
    ultimately show ?thesis by linarith
  qed
  with h1(2) have "heap_ok h1 ([k_val nd] @ all_vals ?root @ R)" by (rule heap_ok_swap)
  then obtain h2 where h2: "val_free h1 (k_val nd) = Inr h2" "heap_ok h2 (all_vals ?root @ R)"
    using free_vals_ok unfolding val_free_def by blast
  define st' where "st' = st\<lparr>r_heap := h2, r_root := ?root\<rparr>"
  have run: "set_key st p v rights = Inr st'" using x h1(1) h2(1) by (simp add: set_key_def st'_def)
  have "wf_key [] ?root" using assms(1) by (intro wf_upd_node) (simp_all add: reg_ok_def)
  moreover have "nkeys ?root = nkeys (r_root st)"
    using tree_sum_upd_node [OF assms(2), of "\<lambda>_. 1" ?f] by (simp add: nkeys_sum)
  ultimately have "reg_ok st' R" using assms(1) h2(2) by (simp add: reg_ok_def st'_def)
  then show ?thesis
    using run assms(2) by (intro exI [of _ st']) (simp add: st'_def info_upd_node)
qed

lemma reg_set_ok:
  assumes "reg_ok st R" and "good_path path" and "ref_of v \<noteq> None \<longrightarrow> v \<in> set R"
  shows "\<exists>st'. reg_set st path v rights = Inr (0, st') \<and> reg_ok st' R \<and> scope_counter st' = scope_counter st \<and>
    (\<forall>q. map_option k_val (info (r_root st') q) =
      (if q = path_segs path then Some (stored v)
       else case info (r_root st) q of Some nd \<Rightarrow> Some (k_val nd)
         | None \<Rightarrow> if is_prefix q (path_segs path) then Some val_nil else None)) \<and>
    (\<exists>nd. info (r_root st') (path_segs path) = Some nd \<and> k_rights nd = rights)"
proof -
  let ?p = "path_segs path"
  obtain st1 where st1: "lookup_or_make st path rights = (Some ?p, st1)" "reg_ok st1 R"
    "scope_counter st1 = scope_counter st"
    "\<And>q. info (r_root st1) q = (case info (r_root st) q of Some nd \<Rightarrow> Some nd
       | None \<Rightarrow> if is_prefix q ?p then Some (fresh_node q rights) else None)"
    using lookup_or_make_ok [OF assms(1,2)] by blast
  have "is_prefix ?p ?p" by (simp add: is_prefix_def)
  then obtain nd where nd: "info (r_root st1) ?p = Some nd"
    using st1(4) [of ?p] by (cases "info (r_root st) ?p") auto
  have "0 < nrefs (all_vals (r_root st1) @ R) b" if "ref_of v = Some b" for b
    using assms(3) that nrefs_held by fastforce
  then obtain st2 where st2: "set_key st1 ?p v rights = Inr st2" "reg_ok st2 R"
    "scope_counter st2 = scope_counter st1"
    "\<And>q. info (r_root st2) q =
      (if q = ?p then Some (nd\<lparr>k_val := stored v, k_rights := rights\<rparr>) else info (r_root st1) q)"
    using set_key_ok [OF st1(2) nd] by blast
  have "reg_set st path v rights = Inr (0, st2)" using st1(1) st2(1) by (simp add: reg_set_def)
  then show ?thesis
    using st2 st1(3) by (intro exI [of _ st2]) (auto simp: st1(4) fresh_node_def split: option.split)
qed

lemma reg_get_ok:
  assumes "reg_ok st R" and "path \<noteq> []" and "hd path = CHR ''/''"
  shows "\<exists>w st'. reg_get st path = Inr (w, st') \<and> reg_ok st' (w # R) \<and> r_root st' = r_root st \<and>
    w = (case info (r_root st) (path_segs path) of Some nd \<Rightarrow> stored (k_val nd)
         | None \<Rightarrow> val_err 3 ''registry key not found'')"
proof (cases "node_at (r_root st) (path_segs path)")
  case None
  have "ref_of (val_err 3 m) = None" for m by (simp add: ref_of_def val_err_def val_nil_def)
  then have "reg_ok st (val_err 3 ''registry key not found'' # R)"
    using assms(1) heap_ok_cong [of "all_vals (r_root st) @ val_err 3 ''registry key not found'' # R"
        "all_vals (r_root st) @ R"]
    by (simp add: reg_ok_def)
  then show ?thesis
    using None assms(2,3) by (simp add: reg_get_def reg_key_node_at info_def)
next
  case (Some k)
  let ?v = "k_val (node k)" and ?Q = "all_vals (r_root st)"
  have info: "info (r_root st) (path_segs path) = Some (node k)" using Some by (simp add: info_def)
  have held: "0 < nrefs (?Q @ R) b" if "ref_of ?v = Some b" for b
  proof -
    have "tree_sum (key_refs b) (upd_node (\<lambda>n. n\<lparr>k_val := val_nil\<rparr>) (r_root st) (path_segs path)) +
        key_refs b (node k) = tree_sum (key_refs b) (r_root st) + key_refs b ((node k)\<lparr>k_val := val_nil\<rparr>)"
      using tree_sum_upd_node [OF info] by blast
    moreover have "ref_of val_nil = None" by (simp add: ref_of_def val_nil_def)
    ultimately show ?thesis using that by (simp add: key_refs_def owned_def nrefs_all_vals)
  qed
  have ok: "heap_ok (r_heap st) (?Q @ R)" using assms(1) by (simp add: reg_ok_def)
  have "0 < nrefs (?Q @ R) b + item_refs (r_heap st) b" if "ref_of ?v = Some b" for b
    using held [OF that] by linarith
  then obtain h1 where h1: "val_clone (r_heap st) ?v = Inr (stored ?v, h1)" "heap_ok h1 (stored ?v # ?Q @ R)"
    by (rule clone_stored [OF ok])
  have "heap_ok h1 (?Q @ stored ?v # R)"
    using h1(2) heap_ok_cong [of "?Q @ stored ?v # R" "stored ?v # ?Q @ R"] by simp
  then have "reg_ok (st\<lparr>r_heap := h1\<rparr>) (stored ?v # R)" using assms(1) by (simp add: reg_ok_def)
  then show ?thesis
    using Some info h1(1) assms(2,3) by (auto simp: reg_get_def reg_key_node_at)
qed

subsection \<open>Freeing and deleting\<close>

lemma length_le_nkeys: "length cs \<le> nkeys_list cs"
  by (induction cs) (auto simp: nkeys_children)

lemma forest_sum_append [simp]: "forest_sum w (xs @ ys) = forest_sum w xs + forest_sum w ys"
  by (induction xs) auto

lemma forest_sum_rev [simp]: "forest_sum w (rev xs) = forest_sum w xs"
  by (induction xs) auto

lemma free_loop_all:
  "nkeys_list stack \<le> STACK_MAX \<Longrightarrow>
   snd (free_loop stack) = nkeys_list stack \<and>
   nrefs (fst (free_loop stack)) a = forest_sum (key_refs a) stack"
proof (induction stack rule: free_loop.induct)
  case (2 k stack)
  have fit: "take (STACK_MAX - length stack) (children k) = children k"
    using "2.prems" length_le_nkeys [of "children k"] length_le_nkeys [of stack] by (simp add: nkeys_children)
  have "nkeys_list (rev (children k) @ stack) \<le> STACK_MAX" using "2.prems" by (simp add: nkeys_children)
  then show ?case
    using "2.IH" fit by (auto simp: free_loop.simps(2) nkeys_children key_refs_def [of a "node k"]
        tree_sum_node [of _ k] split: prod.splits)
qed simp

lemma reg_delete_ok:
  assumes "reg_ok st R" and "path \<noteq> []" and "hd path = CHR ''/''" and "path_segs path \<noteq> []"
    and "node_at (r_root st) (path_segs path) = Some x"
    and "nkeys x \<le> STACK_MAX" and "nkeys (r_root st) < 2 ^ 64"
  shows "\<exists>st'. reg_delete st path = Inr (0, st') \<and> reg_ok st' R \<and> scope_counter st' = scope_counter st \<and>
    nkeys (r_root st') + nkeys x = nkeys (r_root st) \<and>
    (\<forall>q. info (r_root st') q = (if is_prefix (path_segs path) q then None else info (r_root st) q))"
proof -
  let ?p = "path_segs path" and ?root = "unlink (r_root st) (path_segs path)"
  obtain vs n where loop: "free_loop [x] = (vs, n)" by (cases "free_loop [x]")
  have n: "n = nkeys x" and vs: "nrefs vs a = tree_sum (key_refs a) x" for a
    using free_loop_all [of "[x]" a] assms(6) loop by auto
  have "nrefs (all_vals (r_root st) @ R) a = nrefs (vs @ all_vals ?root @ R) a" for a
    using tree_sum_unlink [OF assms(4,5), of "key_refs a"] vs by (simp add: nrefs_all_vals)
  moreover have "heap_ok (r_heap st) (all_vals (r_root st) @ R)" using assms(1) by (simp add: reg_ok_def)
  ultimately have "heap_ok (r_heap st) (vs @ all_vals ?root @ R)" by (rule heap_ok_swap [rotated])
  then obtain h where h: "free_vals (r_heap st) vs = Inr h" "heap_ok h (all_vals ?root @ R)"
    using free_vals_ok by blast
  have keys: "nkeys ?root + nkeys x = nkeys (r_root st)"
    using tree_sum_unlink [OF assms(4,5), of "\<lambda>_. 1"] by (simp add: nkeys_sum)
  define st' where "st' = st\<lparr>r_root := ?root, r_heap := h, total_keys := dec_keys (total_keys st) n\<rparr>"
  have "unat (total_keys st) = nkeys (r_root st)"
    using assms(1,7) by (simp add: reg_ok_def unat_u64_of_nat)
  then have "unat (total_keys st) - n = nkeys ?root" using keys n by simp
  moreover have "total_keys st' = dec_keys (total_keys st) n" by (simp add: st'_def)
  ultimately have "total_keys st' = of_nat (nkeys ?root)" by (simp only: dec_keys_def)
  moreover have "wf_key [] ?root" using assms(1,4) by (simp add: reg_ok_def wf_unlink)
  ultimately have "reg_ok st' R" using h(2) by (simp add: reg_ok_def st'_def)
  moreover have "reg_delete st path = Inr (0, st')"
    using assms(2-5) h(1) loop
    by (simp add: reg_delete_def reg_lookup_node_at regkey_free_recursive_def st'_def)
  moreover have "info ?root q = (if is_prefix ?p q then None else info (r_root st) q)" for q
    using assms(1,4) by (intro info_unlink [of "[]"]) (simp_all add: reg_ok_def)
  ultimately show ?thesis using keys by (intro exI [of _ st']) (simp add: st'_def)
qed
subsection \<open>Start-up\<close>

lemma path_segs_simp: "Suc (length path) < REG_PATH_MAX \<Longrightarrow> path_segs (CHR ''/'' # path) = segs_of path"
  by (simp add: path_segs_def)

lemma good_pathI:
  "path = CHR ''/'' # s \<Longrightarrow> length path < REG_PATH_MAX \<Longrightarrow> \<forall>x \<in> set (segs_of s). length x < NAME_LEN \<Longrightarrow>
   good_path path"
  by (simp add: good_path_def path_segs_simp)

lemma reg_mkpath_state_ok:
  "reg_ok st R \<Longrightarrow> good_path path \<Longrightarrow> reg_ok (snd (reg_mkpath st path rights)) R"
  using reg_mkpath_ok by (metis snd_conv)

lemma mkpath_info:
  "reg_ok st R \<Longrightarrow> good_path path \<Longrightarrow>
   info (r_root (snd (reg_mkpath st path rights))) q =
     (case info (r_root st) q of Some nd \<Rightarrow> Some nd
      | None \<Rightarrow> if is_prefix q (path_segs path) then Some (fresh_node q rights) else None)"
  using reg_mkpath_ok by (metis snd_conv)

lemma reg_base_ok:
  assumes "heap_ok (r_heap st) R"
  shows "reg_ok (st\<lparr>r_root := regkey_alloc ''/'' ''/'' RK_ALL, total_keys := 1\<rparr>) R"
proof -
  let ?k = "regkey_alloc ''/'' ''/'' RK_ALL"
  have "nrefs (all_vals ?k) a = 0" for a
    by (simp add: regkey_alloc_def owned_def ref_of_def val_nil_def)
  then have "heap_ok (r_heap st) (all_vals ?k @ R)"
    by (intro heap_ok_swap [OF assms]) simp
  then show ?thesis
    by (simp add: reg_ok_def regkey_alloc_def path_of_def trunc_def)
qed

lemma std_path_good:
  "p \<in> {''/local'', ''/fn'', ''/sys'', ''/mod'', ''/env'', ''/type''} \<Longrightarrow> good_path p"
  by (auto intro!: good_pathI simp: segs_of_last)

lemma reg_init_ok:
  assumes "heap_ok (r_heap st) R"
  shows "reg_ok (reg_init st) R"
  unfolding reg_init_def foldl_Cons foldl_Nil prod.case
  by (intro reg_mkpath_state_ok reg_base_ok assms std_path_good) simp_all

definition blank :: rstate where
  "blank = \<lparr>r_heap = [], r_root = regkey_alloc [] [] 0, total_keys = 0, scope_counter = 0\<rparr>"

lemma reg_init_blank: "reg_ok (reg_init blank) []"
  by (rule reg_init_ok) (simp add: blank_def heap_ok_empty)

lemma mkpath_keeps:
  "reg_ok st R \<Longrightarrow> good_path path \<Longrightarrow> info (r_root st) q = Some nd \<Longrightarrow>
   info (r_root (snd (reg_mkpath st path rights))) q = Some nd"
  by (simp add: mkpath_info)

lemma reg_init_local: "info (r_root (reg_init blank)) [''local''] = Some (fresh_node [''local''] RK_ALL)"
proof -
  let ?k = "regkey_alloc ''/'' ''/'' RK_ALL"
  let ?st = "blank\<lparr>r_root := ?k, total_keys := 1\<rparr>"
  have base: "reg_ok ?st []" by (rule reg_base_ok) (simp add: blank_def heap_ok_empty)
  have "info ?k [''local''] = None" by (simp add: info_Cons regkey_alloc_def)
  then have "info (r_root (snd (reg_mkpath ?st ''/local'' RK_ALL))) [''local''] = Some (fresh_node [''local''] RK_ALL)"
    using mkpath_info [OF base std_path_good, of "''/local''"] by (simp add: path_segs_simp segs_of_last is_prefix_def)
  moreover define s1 where "s1 = snd (reg_mkpath ?st ''/local'' RK_ALL)"
  moreover have "reg_ok s1 []" unfolding s1_def by (intro reg_mkpath_state_ok base std_path_good) simp
  ultimately show ?thesis
    unfolding reg_init_def foldl_Cons foldl_Nil prod.case s1_def [symmetric]
    by (intro mkpath_keeps [where R = "[]"] reg_mkpath_state_ok std_path_good) simp_all
qed

subsection \<open>Names that are too long\<close>

lemma node_at_names:
  "wf_key pre k \<Longrightarrow> node_at k p = Some x \<Longrightarrow> s \<in> set p \<Longrightarrow> good_name s"
proof (induction p arbitrary: k pre)
  case (Cons t ts)
  then obtain c where c: "regkey_find_child (children k) t = Some c" "node_at c ts = Some x"
    by (auto split: option.splits)
  then have "wf_key (pre @ [t]) c \<and> good_name t"
    using Cons.prems(1) wf_keys_find by (simp add: wf_key_node [of pre k]) blast
  then show ?case using Cons.IH c(2) Cons.prems(3) by auto
qed simp

subsection \<open>Scopes from the inside out\<close>

lemma segs_of_path_of:
  "\<forall>s \<in> set ss. good_name s \<Longrightarrow> ss \<noteq> [] \<Longrightarrow> segs_of (tl (path_of ss)) = ss"
proof (induction ss rule: induct_list012)
  case (2 s)
  then show ?case by (simp add: path_of_def segs_of_last good_name_def)
next
  case (3 s t ss)
  have "tl (path_of (s # t # ss)) = s @ CHR ''/'' # tl (path_of (t # ss))" by (simp add: path_of_def)
  then show ?case using 3 by (simp add: segs_of_seg good_name_def)
qed simp

lemma path_segs_path_of:
  assumes "\<forall>s \<in> set ss. good_name s" and "length (path_of ss) < REG_PATH_MAX"
  shows "path_segs (path_of ss) = ss"
proof (cases "ss = []")
  case False
  then show ?thesis
    using segs_of_path_of [OF assms(1)] assms(2) by (simp add: path_segs_def drop_Suc)
qed (simp add: path_of_def path_segs_def trunc_def)

lemma hd_path_of [simp]: "path_of ss \<noteq> []" "hd (path_of ss) = CHR ''/''"
  by (cases ss; simp add: path_of_def)+

lemma path_of_last: "butlast ss = [] \<Longrightarrow> ss \<noteq> [] \<Longrightarrow> path_of ss = CHR ''/'' # last ss"
  by (cases ss) (auto simp: path_of_def split: if_splits)

lemma dirname_path_of:
  assumes "\<forall>s \<in> set ss. good_name s" and "ss \<noteq> []" and "length (path_of ss) < REG_PATH_MAX"
  shows "nexs_path_dirname (path_of ss) REG_PATH_MAX = path_of (butlast ss)"
proof -
  have split: "path_of ss = (if butlast ss = [] then [] else path_of (butlast ss)) @ CHR ''/'' # last ss"
    using path_of_snoc [of "butlast ss" "last ss"] assms(2) by (cases "butlast ss = []") (simp_all, simp add: path_of_last)
  have "CHR ''/'' \<notin> set (last ss)" using assms(1,2) by (simp add: good_name_def)
  then have r: "strrchr CHR ''/'' (u @ CHR ''/'' # last ss) = Some (length u)" for u
    by (induction u) (auto simp: strrchr_None split: option.split)
  show ?thesis
  proof (cases "butlast ss = []")
    case True
    then show ?thesis using split r [of "[]"] by (simp add: nexs_path_dirname_def path_of_def trunc_def)
  next
    case False
    let ?u = "path_of (butlast ss)"
    have "path_of ss = ?u @ CHR ''/'' # last ss" using split False by simp
    then show ?thesis using r [of ?u] assms(3) by (simp add: nexs_path_dirname_def)
  qed
qed

lemma scope_chain_path_of:
  assumes "\<forall>s \<in> set ss. good_name s" and "length (path_of ss) < REG_PATH_MAX"
  shows "scope_chain (path_of ss) = List.map (\<lambda>i. path_of (take (length ss - i) ss)) [0..<Suc (length ss)]"
  using assms
proof (induction ss rule: rev_induct)
  case Nil
  then show ?case by (simp add: scope_chain.simps path_of_def)
next
  case (snoc s ss)
  have root: "path_of (ss @ [s]) \<noteq> ''/''" using snoc.prems(1) path_of_root [of "ss @ [s]"] by (auto simp: good_name_def)
  have "length (path_of ss) \<le> length (path_of (ss @ [s]))"
    by (cases ss) (simp_all add: path_of_def)
  then have "scope_chain (path_of ss) = List.map (\<lambda>i. path_of (take (length ss - i) ss)) [0..<Suc (length ss)]"
    using snoc by auto
  moreover have "nexs_path_dirname (path_of (ss @ [s])) REG_PATH_MAX = path_of ss"
    using dirname_path_of [OF snoc.prems(1) _ snoc.prems(2)] by simp
  ultimately have "scope_chain (path_of (ss @ [s])) =
      path_of (ss @ [s]) # List.map (\<lambda>i. path_of (take (length ss - i) ss)) [0..<Suc (length ss)]"
    using root by (simp add: scope_chain.simps [of "path_of (ss @ [s])"])
  also have "\<dots> = List.map (\<lambda>i. path_of (take (length (ss @ [s]) - i) (ss @ [s]))) [0..<Suc (length (ss @ [s]))]"
    by (auto simp: upt_conv_Cons map_Suc_upt [symmetric] simp del: upt_Suc map_Suc_upt)
  finally show ?case .
qed

lemma first_hit_at:
  "i < length ps \<Longrightarrow> reg_lookup root (ps ! i) = Some p \<Longrightarrow> (\<And>j. j < i \<Longrightarrow> reg_lookup root (ps ! j) = None) \<Longrightarrow>
   first_hit root ps = Some p"
proof (induction ps arbitrary: i)
  case (Cons x xs)
  show ?case
  proof (cases i)
    case 0
    then show ?thesis using Cons.prems by simp
  next
    case (Suc k)
    then have "reg_lookup root x = None" using Cons.prems(3) [of 0] by simp
    moreover have "first_hit root xs = Some p"
      using Cons.IH [of k] Cons.prems Suc by (metis Suc_less_eq length_Cons nth_Cons_Suc)
    ultimately show ?thesis by simp
  qed
qed simp

lemma first_hit_append: "first_hit root ps = Some p \<Longrightarrow> first_hit root (ps @ qs) = Some p"
  by (induction ps) (auto split: option.splits)

lemma path_segs_join:
  assumes "\<forall>s \<in> set ss. good_name s" and "good_name name" and "length (path_of ss) + length name + 1 < REG_PATH_MAX"
  shows "path_segs (path_of ss @ ''/'' @ name) = ss @ [name]"
proof (cases "ss = []")
  case True
  then show ?thesis
    using assms(2,3) by (simp add: path_of_def path_segs_def good_name_def segs_of_last)
next
  case False
  then have eq: "path_of ss @ ''/'' @ name = path_of (ss @ [name])" by (simp add: path_of_snoc)
  have "length (path_of (ss @ [name])) < REG_PATH_MAX" using assms(3) unfolding eq [symmetric] by simp
  then show ?thesis unfolding eq using assms(1,2) by (intro path_segs_path_of) auto
qed

lemma reg_resolve_ok:
  assumes "\<forall>s \<in> set ss. good_name s" and "good_name name"
    and "length (path_of ss) + length name + 1 < REG_PATH_MAX"
    and "i \<le> length ss" and "info root (take i ss @ [name]) = Some nd"
    and "\<And>j. i < j \<Longrightarrow> j \<le> length ss \<Longrightarrow> info root (take j ss @ [name]) = None"
  shows "reg_resolve root name (path_of ss) = Some (take i ss @ [name])"
proof -
  let ?f = "\<lambda>sp. trunc REG_PATH_MAX (sp @ ''/'' @ name)" and ?n = "length ss"
  let ?ps = "List.map ?f (List.map (\<lambda>i. path_of (take (?n - i) ss)) [0..<Suc ?n])"
  have short: "length (path_of (take j ss)) + length name + 1 < REG_PATH_MAX" for j
  proof -
    have "length (concat (List.map (\<lambda>s. CHR ''/'' # s) (take j ss))) \<le>
        length (concat (List.map (\<lambda>s. CHR ''/'' # s) ss))"
      by (induction ss arbitrary: j) (auto simp: take_Cons')
    then have "length (path_of (take j ss)) \<le> length (path_of ss)"
      by (cases ss) (auto simp: path_of_def)
    then show ?thesis using assms(3) by linarith
  qed
  have look: "reg_lookup root (?f (path_of (take j ss))) = map_option (\<lambda>_. take j ss @ [name]) (info root (take j ss @ [name]))" for j
  proof -
    have "?f (path_of (take j ss)) = path_of (take j ss) @ ''/'' @ name" using short [of j] by simp
    moreover have "\<forall>s \<in> set (take j ss). good_name s" using assms(1) by (auto dest: in_set_takeD)
    ultimately show ?thesis
      using path_segs_join [of "take j ss" name] assms(2) short [of j]
      by (simp add: reg_lookup_node_at info_def option.map_comp comp_def)
  qed
  have nth: "j < Suc ?n \<Longrightarrow> ?ps ! j = ?f (path_of (take (?n - j) ss))" for j by (simp del: upt_Suc)
  have "first_hit root ?ps = Some (take i ss @ [name])"
  proof (rule first_hit_at)
    show "?n - i < length ?ps" by simp
    show "reg_lookup root (?ps ! (?n - i)) = Some (take i ss @ [name])"
      using nth [of "?n - i"] look [of i] assms(4,5) by simp
    show "reg_lookup root (?ps ! j) = None" if "j < ?n - i" for j
      using nth [of j] look [of "?n - j"] assms(6) [of "?n - j"] that by simp
  qed
  moreover have "trunc REG_PATH_MAX (path_of ss) = path_of ss" using assms(3) by simp
  moreover have "scope_chain (path_of ss) = List.map (\<lambda>i. path_of (take (?n - i) ss)) [0..<Suc ?n]"
    using scope_chain_path_of assms(1,3) by simp
  moreover have "name \<noteq> []" using assms(2) by (simp add: good_name_def)
  ultimately show ?thesis by (simp only: reg_resolve_def if_False first_hit_append)
qed

subsection \<open>Pointer chains\<close>

text \<open>Following \<open>n\<close> pointer keys from \<open>path\<close> ends at a key that is no pointer.\<close>

inductive chain :: "regkey \<Rightarrow> string \<Rightarrow> nat \<Rightarrow> regkey \<Rightarrow> bool" for root where
  chain_end: "reg_key root path = Some k \<Longrightarrow> vtype (k_val (node k)) \<noteq> TYPE_PTR \<Longrightarrow> chain root path 0 k"
| chain_step: "reg_key root path = Some j \<Longrightarrow> vtype (k_val (node j)) = TYPE_PTR \<Longrightarrow>
    data_str (k_val (node j)) = Some target \<Longrightarrow> chain root (trunc REG_PATH_MAX target) n k \<Longrightarrow>
    chain root path (Suc n) k"

inductive_cases chain_SucE: "chain root path (Suc n) k"
inductive_cases chain_0E: "chain root path 0 k"

lemma deref_loop_chain:
  "chain (r_root st) path n k \<Longrightarrow>
   deref_loop hops st path =
     (if n < hops then case val_clone (r_heap st) (k_val (node k)) of
          Inl e \<Rightarrow> Inl e | Inr (w, h) \<Rightarrow> Inr (w, st\<lparr>r_heap := h\<rparr>)
      else Inr (val_err 3 ''reg_get_deref: pointer chain too deep (circular?)'', st))"
proof (induction arbitrary: hops rule: chain.induct)
  case (chain_end path k)
  then show ?case by (cases hops) auto
next
  case (chain_step path j target n k)
  then show ?case by (cases hops) auto
qed
subsection \<open>A scope lives from push to pop\<close>

lemma node_at_append:
  "node_at k (p @ q) = (case node_at k p of None \<Rightarrow> None | Some x \<Rightarrow> node_at x q)"
  by (induction p arbitrary: k) (auto split: option.splits)

lemma info_append: "node_at k p = Some x \<Longrightarrow> info k (p @ q) = info x q"
  by (simp add: info_def node_at_append)

lemma no_children: "(\<And>q. q \<noteq> [] \<Longrightarrow> info x q = None) \<Longrightarrow> children x = []"
proof (rule ccontr)
  assume none: "\<And>q. q \<noteq> [] \<Longrightarrow> info x q = None" and "children x \<noteq> []"
  then obtain c cs where "children x = c # cs" by (cases "children x") auto
  then have "info x [key_name c] = Some (node c)" by (simp add: info_Cons)
  then show False using none [of "[key_name c]"] by simp
qed

lemma is_prefix_alt: "is_prefix xs ys \<longleftrightarrow> (\<exists>zs. ys = xs @ zs)"
  unfolding is_prefix_def by (metis append_eq_conv_conj append_take_drop_id)

lemma info_below_none:
  assumes "info k p = None" shows "info k (p @ q) = None"
  using assms by (auto simp: info_def node_at_append split: option.splits)

lemma scope_ok:
  assumes "reg_ok st R" and "info (r_root st) [''local''] \<noteq> None"
    and "name = fn @ ''_'' @ show_int (sint (scope_counter st))" and "good_name name"
    and "info (r_root st) [''local'', name] = None"
    and "reg_push_scope st fn = (buf, st1)" and "nkeys (r_root st1) < 2 ^ 64"
  shows "buf = path_of [''local'', name] \<and> info (r_root st1) [''local'', name] = Some (fresh_node [''local'', name] RK_ALL) \<and>
    (\<exists>st2. reg_pop_scope st1 buf = Inr st2 \<and> reg_ok st2 R \<and>
       scope_counter st2 = scope_counter st + 1 \<and> (\<forall>q. info (r_root st2) q = info (r_root st) q))"
proof -
  let ?q = "[''local'', name]"
  have gl: "good_name ''local''" by (simp add: good_name_def)
  have len: "length (path_of ?q) < REG_PATH_MAX" using assms(4) by (simp add: path_of_def good_name_def)
  have buf: "buf = path_of ?q"
    using assms(3,6) len by (simp add: reg_push_scope_def Let_def path_of_def)
  have segs: "path_segs buf = ?q" unfolding buf using gl assms(4) len by (intro path_segs_path_of) auto
  have good: "good_path buf" unfolding good_path_def segs
    using buf len gl assms(4) by (simp add: good_name_def)
  let ?st = "st\<lparr>scope_counter := scope_counter st + 1\<rparr>"
  have ok0: "reg_ok ?st R" using assms(1) by (simp add: reg_ok_def)
  have st1: "st1 = snd (reg_mkpath ?st buf RK_ALL)"
    using assms(3,6) by (auto simp: reg_push_scope_def Let_def)
  obtain s where s: "reg_mkpath ?st buf RK_ALL = (Some ?q, s)" "reg_ok s R" "scope_counter s = scope_counter st + 1"
    "\<And>q. info (r_root s) q = (case info (r_root st) q of Some nd \<Rightarrow> Some nd
       | None \<Rightarrow> if is_prefix q ?q then Some (fresh_node q RK_ALL) else None)"
    using reg_mkpath_ok [OF ok0 good, of RK_ALL] segs by auto
  have "st1 = s" using st1 s(1) by simp
  then have ok1: "reg_ok st1 R" and cnt: "scope_counter st1 = scope_counter st + 1"
    and info1: "\<And>q. info (r_root st1) q = (case info (r_root st) q of Some nd \<Rightarrow> Some nd
       | None \<Rightarrow> if is_prefix q ?q then Some (fresh_node q RK_ALL) else None)"
    using s by auto
  have new: "info (r_root st1) ?q = Some (fresh_node ?q RK_ALL)"
    using info1 [of ?q] assms(5) by (simp add: is_prefix_def)
  then obtain x where x: "node_at (r_root st1) ?q = Some x" using info_node_at by blast
  have "info x q = None" if "q \<noteq> []" for q
  proof -
    have "info (r_root st) (?q @ q) = None" by (rule info_below_none [OF assms(5)])
    moreover have "\<not> is_prefix (?q @ q) ?q" using that by (cases q) (auto simp: is_prefix_def)
    ultimately have "info (r_root st1) (?q @ q) = None" using info1 [of "?q @ q"] by simp
    then show ?thesis using info_append [OF x] by simp
  qed
  then have "nkeys x \<le> STACK_MAX" using no_children [of x] by (simp add: nkeys_children)
  then obtain st2 where st2: "reg_delete st1 buf = Inr (0, st2)" "reg_ok st2 R"
    "scope_counter st2 = scope_counter st1"
    "\<And>q. info (r_root st2) q = (if is_prefix ?q q then None else info (r_root st1) q)"
    using reg_delete_ok [OF ok1, of buf x] x assms(7) segs buf by auto
  have "info (r_root st2) q = info (r_root st) q" for q
  proof (cases "is_prefix ?q q")
    case True
    then obtain zs where "q = ?q @ zs" unfolding is_prefix_alt by blast
    then show ?thesis using st2(4) [of q] True info_below_none [OF assms(5), of zs] by simp
  next
    case False
    then have "q \<noteq> ?q" by (auto simp: is_prefix_def)
    have "info (r_root st) q \<noteq> None" if "is_prefix q ?q"
    proof -
      have "q = [] \<or> q = [''local''] \<or> q = ?q"
        using that unfolding is_prefix_alt by (auto simp: append_eq_Cons_conv Cons_eq_append_conv)
      then show ?thesis using assms(2) \<open>q \<noteq> ?q\<close> by auto
    qed
    then show ?thesis using st2(4) [of q] info1 [of q] False by (auto split: option.splits)
  qed
  moreover have "reg_pop_scope st1 buf = Inr st2" using st2(1) by (simp add: reg_pop_scope_def)
  ultimately show ?thesis using buf new st2(2,3) cnt by auto
qed

subsection \<open>Properties\<close>

text \<open>C13: \<open>reg_set\<close> on a path with names of fewer than 64 characters succeeds, without touching
  freed memory; afterwards the path holds the value, the keys it created on the way hold nil, every
  other key holds what it held, and the invariant (tree shape, paths, reference counts,
  \<open>total_keys\<close>) holds.\<close>

theorem reg_set_map:
  assumes "reg_ok st R" and "good_path path" and "ref_of v \<noteq> None \<longrightarrow> v \<in> set R"
  shows "\<exists>st'. reg_set st path v rights = Inr (0, st') \<and> reg_ok st' R \<and> scope_counter st' = scope_counter st \<and>
    (\<forall>q. map_option k_val (info (r_root st') q) =
      (if q = path_segs path then Some (stored v)
       else case info (r_root st) q of Some nd \<Rightarrow> Some (k_val nd)
         | None \<Rightarrow> if is_prefix q (path_segs path) then Some val_nil else None)) \<and>
    (\<exists>nd. info (r_root st') (path_segs path) = Some nd \<and> k_rights nd = rights)"
  by (rule reg_set_ok [OF assms])

theorem reg_set_map_witness:
  "\<exists>st' nd. reg_set (reg_init blank) ''/local/x'' (val_int 7) RK_ALL = Inr (0, st') \<and>
     info (r_root st') [''local'', ''x''] = Some nd \<and> k_val nd = val_int 7"
proof -
  have segs: "segs_of ''local/x'' = [''local'', ''x'']"
    using segs_of_seg [of "''local''" "''x''"] by (simp add: segs_of_last)
  then have good: "good_path ''/local/x''" by (intro good_pathI [of _ "''local/x''"]) simp_all
  have p: "path_segs ''/local/x'' = [''local'', ''x'']" using segs by (simp add: path_segs_simp)
  have "ref_of (val_int 7) \<noteq> None \<longrightarrow> val_int 7 \<in> set []" by (simp add: ref_of_def val_int_def val_nil_def)
  from reg_set_map [OF reg_init_blank good this, of RK_ALL]
  obtain st' where st': "reg_set (reg_init blank) ''/local/x'' (val_int 7) RK_ALL = Inr (0, st')"
    "\<forall>q. map_option k_val (info (r_root st') q) = (if q = [''local'', ''x''] then Some (stored (val_int 7))
       else case info (r_root (reg_init blank)) q of Some nd \<Rightarrow> Some (k_val nd)
         | None \<Rightarrow> if is_prefix q [''local'', ''x''] then Some val_nil else None)"
    unfolding p by blast
  have "map_option k_val (info (r_root st') [''local'', ''x'']) = Some (stored (val_int 7))"
    using st'(2) by simp
  moreover have "stored (val_int 7) = val_int 7" by (simp add: stored_def val_int_def val_nil_def)
  ultimately show ?thesis using st'(1) by auto
qed

text \<open>C30: \<open>reg_get\<close> gives the value of the key as a counted clone, or the error value of code 3
  where no key is, and changes nothing else.\<close>

theorem reg_get_map:
  assumes "reg_ok st R" and "path \<noteq> []" and "hd path = CHR ''/''"
  shows "\<exists>w st'. reg_get st path = Inr (w, st') \<and> reg_ok st' (w # R) \<and> r_root st' = r_root st \<and>
    w = (case info (r_root st) (path_segs path) of Some nd \<Rightarrow> stored (k_val nd)
         | None \<Rightarrow> val_err 3 ''registry key not found'')"
  by (rule reg_get_ok [OF assms])

theorem reg_get_map_witness: "\<exists>st'. reg_get (reg_init blank) ''/local'' = Inr (val_nil, st')"
  using reg_get_map [OF reg_init_blank, of "''/local''"] reg_init_local
  by (auto simp: path_segs_simp segs_of_last fresh_node_def stored_def val_nil_def)

text \<open>C27: \<open>reg_delete\<close> removes the key with everything below it and nothing else, releases every
  value the subtree owns exactly once, and lowers \<open>total_keys\<close> by the number of keys removed, for
  subtrees of up to 1024 keys (the size of the explicit stack).\<close>

theorem reg_delete_map:
  assumes "reg_ok st R" and "path \<noteq> []" and "hd path = CHR ''/''" and "path_segs path \<noteq> []"
    and "node_at (r_root st) (path_segs path) = Some x"
    and "nkeys x \<le> STACK_MAX" and "nkeys (r_root st) < 2 ^ 64"
  shows "\<exists>st'. reg_delete st path = Inr (0, st') \<and> reg_ok st' R \<and> scope_counter st' = scope_counter st \<and>
    nkeys (r_root st') + nkeys x = nkeys (r_root st) \<and>
    (\<forall>q. info (r_root st') q = (if is_prefix (path_segs path) q then None else info (r_root st) q))"
  by (rule reg_delete_ok [OF assms])

theorem reg_delete_map_witness:
  "\<exists>st'. reg_delete (reg_init blank) ''/local'' = Inr (0, st') \<and> nkeys (r_root st') = 6 \<and>
     info (r_root st') [''local''] = None"
proof -
  have keys: "nkeys (r_root (reg_init blank)) = 7" by code_simp
  have "map_option nkeys (node_at (r_root (reg_init blank)) [''local'']) = Some 1" by code_simp
  then obtain x where x: "node_at (r_root (reg_init blank)) [''local''] = Some x" "nkeys x = 1" by auto
  have p: "path_segs ''/local'' = [''local'']" by code_simp
  show ?thesis
    using reg_delete_map [OF reg_init_blank, of "''/local''" x] x keys unfolding p
    by (auto simp: is_prefix_def)
qed

text \<open>C31: A name resolves to the nearest scope that has it: from the scope \<open>ss\<close> outwards, the first
  prefix of \<open>ss\<close> with a key of that name.\<close>

theorem reg_resolve_nearest:
  assumes "\<forall>s \<in> set ss. good_name s" and "good_name name"
    and "length (path_of ss) + length name + 1 < REG_PATH_MAX"
    and "i \<le> length ss" and "info root (take i ss @ [name]) = Some nd"
    and "\<And>j. i < j \<Longrightarrow> j \<le> length ss \<Longrightarrow> info root (take j ss @ [name]) = None"
  shows "reg_resolve root name (path_of ss) = Some (take i ss @ [name])"
  by (rule reg_resolve_ok [OF assms])

theorem reg_resolve_nearest_witness:
  "reg_resolve (r_root (reg_init blank)) ''local'' ''/'' = Some [''local'']"
  using reg_resolve_nearest [of "[]" "''local''" 0 "r_root (reg_init blank)"] reg_init_local
  by (simp add: good_name_def path_of_def)

text \<open>\<open>reg_get_deref\<close> follows a chain of \<open>n\<close> pointer keys to the first key that is no pointer
  and gives its value when \<open>n < 64\<close>, and the error value otherwise, so it returns on every chain.\<close>

lemma reg_get_deref_chain:
  assumes "chain (r_root st) path n k"
  shows "reg_get_deref st path =
     (if n < 64 then case val_clone (r_heap st) (k_val (node k)) of
          Inl e \<Rightarrow> Inl e | Inr (w, h) \<Rightarrow> Inr (w, st\<lparr>r_heap := h\<rparr>)
      else Inr (val_err 3 ''reg_get_deref: pointer chain too deep (circular?)'', st))"
  unfolding reg_get_deref_def by (rule deref_loop_chain [OF assms])

lemma reg_get_deref_chain_witness:
  "reg_get_deref (reg_init blank) ''/local'' = Inr (val_nil, reg_init blank)"
proof -
  obtain k where k: "reg_key (r_root (reg_init blank)) ''/local'' = Some k" "k_val (node k) = val_nil"
    using reg_init_local by (auto simp: reg_key_node_at path_segs_simp segs_of_last info_def fresh_node_def)
  then have "chain (r_root (reg_init blank)) ''/local'' 0 k"
    by (intro chain_end) (simp_all add: val_nil_def)
  from reg_get_deref_chain [OF this] k(2) show ?thesis
    by (simp add: val_clone_def val_nil_def ref_of_def)
qed



text \<open>A path with a name of 64 or more characters is never found in a well-formed registry,
  because key names are cut to 63 characters; the witness shows \<open>reg_set\<close> succeeding on such a
  path and \<open>reg_get\<close> failing on it afterwards.\<close>

lemma reg_long_name_lost:
  assumes "reg_ok st R" and "path \<noteq> []" and "hd path = CHR ''/''"
    and "s \<in> set (path_segs path)" and "NAME_LEN \<le> length s"
  shows "reg_get st path = Inr (val_err 3 ''registry key not found'', st)"
proof -
  have "node_at (r_root st) (path_segs path) = None"
    using node_at_names [of "[]" "r_root st" "path_segs path" _ s] assms(1,4,5)
    by (cases "node_at (r_root st) (path_segs path)") (auto simp: reg_ok_def good_name_def)
  then show ?thesis using assms(2,3) by (simp add: reg_get_def reg_key_node_at)
qed

lemma reg_long_name_lost_witness:
  "\<exists>st'. reg_set (reg_init blank) (CHR ''/'' # replicate 64 CHR ''a'') (val_int 7) RK_ALL = Inr (0, st') \<and>
     map_sum id fst (reg_get st' (CHR ''/'' # replicate 64 CHR ''a'')) = Inr (val_err 3 ''registry key not found'') \<and>
     reg_get (reg_init blank) (CHR ''/'' # replicate 64 CHR ''a'') = Inr (val_err 3 ''registry key not found'', reg_init blank)"
proof -
  let ?s = "replicate 64 CHR ''a''"
  have "\<not> isl (reg_set (reg_init blank) (CHR ''/'' # ?s) (val_int 7) RK_ALL) \<and>
      fst (projr (reg_set (reg_init blank) (CHR ''/'' # ?s) (val_int 7) RK_ALL)) = 0 \<and>
      map_sum id fst (reg_get (snd (projr (reg_set (reg_init blank) (CHR ''/'' # ?s) (val_int 7) RK_ALL))) (CHR ''/'' # ?s)) =
        Inr (val_err 3 ''registry key not found'')" by code_simp
  moreover have "path_segs (CHR ''/'' # ?s) = [?s]" by code_simp
  ultimately show ?thesis
    using reg_long_name_lost [OF reg_init_blank, of "CHR ''/'' # ?s" ?s]
    by (cases "reg_set (reg_init blank) (CHR ''/'' # ?s) (val_int 7) RK_ALL") auto
qed

end
