(* ===== verification/RegIpc_Facts.thy ===== *)
theory RegIpc_Facts
  imports RegIpc Registry_Facts
begin

section \<open>Facts about the message queues\<close>

text \<open>
  The wire format read back, the contract of a queue (locale \<open>fifo\<close>) and its two providers, the
  in-process list and the pipe, the switch from one to the other, and the properties.
\<close>

unbundle bit_operations_syntax

subsection \<open>The wire format\<close>

lemma length_le_write [simp]: "length (le_write n v) = n"
  by (induction n arbitrary: v) auto

lemma le_read_write: "le_read (le_write n v) = take_bit (8 * n) v"
proof (induction n arbitrary: v)
  case (Suc n)
  have "push_bit 8 (take_bit (8 * n) (drop_bit 8 v)) OR ucast (ucast v :: u8) = take_bit (8 + 8 * n) v"
    by (rule bit_word_eqI) (auto simp: bit_simps)
  then show ?case using Suc by simp
qed simp

lemma le_read64_write64 [simp]: "le_read64 (le_write64 v) = v"
proof -
  have "take_bit 64 v = v" by (rule take_bit_word_eq_self) simp
  then show ?thesis by (simp add: le_read64_def le_write64_def le_read_write)
qed

lemma le_read32_write32 [simp]: "le_read32 (le_write32 v) = v"
  unfolding le_read32_def le_write32_def le_read_write
  by (rule bit_word_eqI) (auto simp: bit_simps)

lemma read_all_append [simp]: "length xs = n \<Longrightarrow> read_all n (xs @ ys) = Inr (xs, ys)"
  by (simp add: read_all_def)

lemma read_all_cons [simp]: "read_all 1 (x # ys) = Inr ([x], ys)" "read_all (Suc 0) (x # ys) = Inr ([x], ys)"
  by (simp_all add: read_all_def)

lemma unat_of_char: "unat (of_char c :: u8) = of_char c"
proof -
  have "(of_char c :: u8) = of_nat (of_char c)" by (simp only: of_nat_of_char)
  moreover have "(of_char c :: nat) < 256" by (rule nat_of_char_less_256)
  ultimately show ?thesis by (simp add: unat_of_nat)
qed

lemma string_of_bytes_of [simp]: "string_of (bytes_of s) = s"
  by (induction s) (simp_all add: string_of_def bytes_of_def unat_of_char)

lemma vtype_of_code [simp]: "vtype_of (vtype_code t) = Some t"
  by (cases t) (simp_all add: vtype_of_def vtype_code_def)

text \<open>What the wire format can carry: no array, a text of C with a length that fits.\<close>

definition wire_ok :: "val \<Rightarrow> bool" where
  "wire_ok v \<longleftrightarrow> vtype v \<noteq> TYPE_ARR \<and> CHR 0x00 \<notin> set (wire_str v) \<and> length (wire_str v) < 2 ^ 32"

definition wire_val :: "val \<Rightarrow> val" where
  "wire_val v = read_value (Some (vtype v)) (ival v) (fval v) (wire_str v = []) (wire_str v)"

lemma c_str_id: "CHR 0x00 \<notin> set s \<Longrightarrow> c_str s = s"
  by (simp add: c_str_def takeWhile_eq_all_conv) metis

lemma read_head_wire:
  assumes "wire_ok v" and "n < 2 ^ 32"
  shows "read_head (wire_head v n @ rest) =
    Inr ((vtype_code (vtype v), ival v, fval v, wire_str v = [], wire_str v, n), rest)"
proof -
  have len: "unat (of_nat (length (wire_str v)) :: u32) = length (wire_str v)" "unat (of_nat n :: u32) = n"
    using assms by (simp_all add: wire_ok_def unat_of_nat)
  have "length (le_write64 w) = 8" "length (le_write32 x) = 4" "length (bytes_of s) = length s" for w x s
    by (simp_all add: le_write64_def le_write32_def bytes_of_def)
  moreover have "bytes_of s = [] \<longleftrightarrow> s = []" for s by (simp add: bytes_of_def)
  ultimately show ?thesis
    using assms(1) len by (simp add: read_head_def wire_head_def c_str_id wire_ok_def)
qed

lemma wire_scalar:
  assumes "wire_ok v"
  shows "pipe_serialize_value h v = Inr (wire_head v 0, h)"
    and "pipe_deserialize_value h (wire_head v 0 @ rest) = Inr (wire_val v, h, rest)"
proof -
  have "ref_of v = None" using assms by (simp add: wire_ok_def ref_of_def)
  then show "pipe_serialize_value h v = Inr (wire_head v 0, h)" by (simp add: pipe_serialize_value_def)
  have "vtype v \<noteq> TYPE_ARR" using assms by (simp add: wire_ok_def)
  then show "pipe_deserialize_value h (wire_head v 0 @ rest) = Inr (wire_val v, h, rest)"
    using read_head_wire [OF assms, of 0 rest] by (simp add: pipe_deserialize_value_def wire_val_def)
qed

subsection \<open>A queue as its clients see it\<close>

text \<open>
  \<open>wire\<close> is what becomes of a message on the way. Whatever the order of sends and receives, what has
  been received so far, followed by what is still in the queue, is what was in the queue at first
  followed by the messages sent.
\<close>

datatype 'a queue_op = Send 'a | Recv

locale fifo =
  fixes invar :: "'s \<Rightarrow> bool"
    and contents :: "'s \<Rightarrow> 'a list"
    and ok :: "'a \<Rightarrow> bool"
    and wire :: "'a \<Rightarrow> 'a"
    and send :: "'s \<Rightarrow> 'a \<Rightarrow> 's option"
    and recv :: "'s \<Rightarrow> ('a \<times> 's) option"
  assumes send_ok: "invar s \<Longrightarrow> ok x \<Longrightarrow> send s x = Some s' \<Longrightarrow>
      invar s' \<and> contents s' = contents s @ [wire x]"
    and recv_Some: "invar s \<Longrightarrow> recv s = Some (x, s') \<Longrightarrow> invar s' \<and> contents s = x # contents s'"
    and recv_None: "invar s \<Longrightarrow> recv s = None \<Longrightarrow> contents s = []"
begin

text \<open>A refused send, and a receive from an empty queue, change nothing.\<close>

fun run :: "'s \<Rightarrow> 'a queue_op list \<Rightarrow> 'a list \<times> 'a list \<times> 's" where
  "run s [] = ([], [], s)"
| "run s (Send x # ops) =
     (case send s x of
        None \<Rightarrow> run s ops
      | Some s' \<Rightarrow> (case run s' ops of (sent, got, t) \<Rightarrow> (x # sent, got, t)))"
| "run s (Recv # ops) =
     (case recv s of
        None \<Rightarrow> run s ops
      | Some (x, s') \<Rightarrow> (case run s' ops of (sent, got, t) \<Rightarrow> (sent, x # got, t)))"

lemma run_fifo:
  "invar s \<Longrightarrow> \<forall>x. Send x \<in> set ops \<longrightarrow> ok x \<Longrightarrow> run s ops = (sent, got, t) \<Longrightarrow>
   invar t \<and> got @ contents t = contents s @ List.map wire sent"
proof (induction s ops arbitrary: sent got rule: run.induct)
  case (2 s x ops)
  show ?case
  proof (cases "send s x")
    case (Some s')
    obtain sent' where r: "run s' ops = (sent', got, t)" "sent = x # sent'"
      using "2.prems"(3) Some by (auto split: prod.splits)
    have s': "invar s' \<and> contents s' = contents s @ [wire x]"
      using send_ok [OF "2.prems"(1) _ Some] "2.prems"(2) by simp
    then show ?thesis using "2.IH"(2) [OF Some _ _ r(1)] "2.prems"(2) r(2) by simp
  qed (use 2 in simp)
next
  case (3 s ops)
  show ?case
  proof (cases "recv s")
    case (Some y)
    obtain x s' where y: "y = (x, s')" by (cases y)
    obtain got' where r: "run s' ops = (sent, got', t)" "got = x # got'"
      using "3.prems"(3) Some y by (auto split: prod.splits)
    have s': "invar s' \<and> contents s = x # contents s'"
      using recv_Some "3.prems"(1) Some y by simp
    then show ?thesis using "3.IH"(2) [OF Some y [symmetric] _ _ r(1)] "3.prems"(2) r(2) by simp
  qed (use 3 in simp)
qed simp

end

subsection \<open>The in-process queue\<close>

lemma lookup_segs:
  "reg_lookup root path = Some p \<Longrightarrow> path \<noteq> [] \<and> hd path = CHR ''/'' \<and> p = path_segs path \<and> (\<exists>k. node_at root p = Some k)"
proof -
  assume a: "reg_lookup root path = Some p"
  then have h: "path \<noteq> [] \<and> hd path = CHR ''/''" by (auto simp: reg_lookup_def split: if_splits)
  then show ?thesis using a by (auto simp: reg_lookup_node_at)
qed

lemma queue_at_info: "queue_at st p = (case info (r_root st) p of None \<Rightarrow> None | Some nd \<Rightarrow> k_queue nd)"
  by (simp add: queue_at_def info_def split: option.split)

lemma set_queue_info:
  "info (r_root (set_queue st p q)) r =
    (if r = p then map_option (\<lambda>n. n\<lparr>k_queue := Some q\<rparr>) (info (r_root st) p) else info (r_root st) r)"
  by (simp add: set_queue_def info_upd_node)

lemma lookup_info:
  "reg_lookup root path = Some p \<longleftrightarrow>
     path \<noteq> [] \<and> hd path = CHR ''/'' \<and> p = path_segs path \<and> info root p \<noteq> None"
  using lookup_segs [of root path p] by (auto simp: reg_lookup_node_at info_def)

text \<open>The queue at a path.\<close>

definition path_queue :: "rstate \<Rightarrow> string \<Rightarrow> ipc_queue option" where
  "path_queue st path =
     (case reg_lookup (r_root st) path of None \<Rightarrow> None | Some p \<Rightarrow> queue_at st p)"

lemma path_queue_set:
  "path_queue st path = Some q \<Longrightarrow> path_queue (set_queue st (path_segs path) q') path = Some q'"
proof -
  assume a: "path_queue st path = Some q"
  then obtain p where p: "reg_lookup (r_root st) path = Some p" by (auto simp: path_queue_def split: option.splits)
  then have l: "reg_lookup (r_root (set_queue st p q')) path = Some p" by (auto simp: lookup_info set_queue_info)
  have "queue_at (set_queue st p q') p = Some q'" using p by (auto simp: queue_at_info set_queue_info lookup_info)
  moreover have "p = path_segs path" using p by (simp add: lookup_info)
  ultimately show ?thesis using l by (simp add: path_queue_def)
qed

lemma find_existing:
  "path_queue st path = Some q \<Longrightarrow> find_or_init_queue st path = (Some (path_segs path, q), st)"
  by (auto simp: path_queue_def find_or_init_queue_def lookup_or_make_def split: option.splits
      dest: lookup_segs)

lemma path_queue_heap [simp]: "path_queue (st\<lparr>r_heap := h\<rparr>) path = path_queue st path"
  by (simp add: path_queue_def queue_at_def split: option.split)

definition inproc :: "string \<Rightarrow> istate \<Rightarrow> bool" where
  "inproc path st \<longleftrightarrow>
     (\<exists>q. path_queue (i_reg st) path = Some q \<and> \<not> q_use_pipe q \<and> q_count q = int (length (q_msgs q)) \<and>
       q_count q \<le> q_max q)"

definition inproc_msgs :: "string \<Rightarrow> istate \<Rightarrow> val list" where
  "inproc_msgs path st = (case path_queue (i_reg st) path of None \<Rightarrow> [] | Some q \<Rightarrow> q_msgs q)"

text \<open>Send and receive at a path; \<open>None\<close> is a result of -1 (or a fault).\<close>

definition send_at :: "string \<Rightarrow> istate \<Rightarrow> val \<Rightarrow> istate option" where
  "send_at path st v =
     (case reg_ipc_send st path v of Inr (rc, st') \<Rightarrow> if rc = 0 then Some st' else None | Inl _ \<Rightarrow> None)"

definition recv_at :: "string \<Rightarrow> istate \<Rightarrow> (val \<times> istate) option" where
  "recv_at path st =
     (case reg_ipc_recv st path of Inr (Some v, st') \<Rightarrow> Some (v, st') | _ \<Rightarrow> None)"

lemma clone_result: "val_clone h v = Inr (w, h') \<Longrightarrow> w = stored v"
  by (auto simp: val_clone_def stored_def split: if_splits option.splits sum.splits)

lemma send_inproc:
  assumes "inproc path st"
  shows "reg_ipc_send st path v = Inr (- 1, st) \<or> (\<exists>e. reg_ipc_send st path v = Inl e) \<or>
    (\<exists>st'. reg_ipc_send st path v = Inr (0, st') \<and> inproc path st' \<and>
       inproc_msgs path st' = inproc_msgs path st @ [stored v])"
proof -
  obtain q where q: "path_queue (i_reg st) path = Some q" "\<not> q_use_pipe q"
    "q_count q = int (length (q_msgs q))"
    using assms by (auto simp: inproc_def)
  note find = find_existing [OF q(1)]
  show ?thesis
  proof (cases "q_max q \<le> q_count q")
    case True
    then show ?thesis using find q(2) by (simp add: reg_ipc_send_def)
  next
    case False
    show ?thesis
    proof (cases "val_clone (r_heap (i_reg st)) v")
      case (Inr wh)
      obtain w h where wh: "wh = (w, h)" by (cases wh)
      let ?q = "q\<lparr>q_msgs := q_msgs q @ [w], q_count := q_count q + 1\<rparr>"
      let ?st = "st\<lparr>i_reg := set_queue ((i_reg st)\<lparr>r_heap := h\<rparr>) (path_segs path) ?q\<rparr>"
      have "reg_ipc_send st path v = Inr (0, ?st)"
        using find q(2) False Inr wh by (simp add: reg_ipc_send_def)
      moreover have "path_queue (i_reg ?st) path = Some ?q"
        using path_queue_set [of "(i_reg st)\<lparr>r_heap := h\<rparr>" path q ?q] q(1) by simp
      moreover have "w = stored v" using Inr wh clone_result by simp
      ultimately show ?thesis using q False by (simp add: inproc_def inproc_msgs_def)
    qed (use find q(2) False in \<open>simp add: reg_ipc_send_def\<close>)
  qed
qed

lemma recv_inproc:
  assumes "inproc path st"
  shows "(case inproc_msgs path st of
      [] \<Rightarrow> reg_ipc_recv st path = Inr (None, st)
    | m # ms \<Rightarrow> \<exists>st'. reg_ipc_recv st path = Inr (Some m, st') \<and> inproc path st' \<and> inproc_msgs path st' = ms)"
proof -
  obtain q where q: "path_queue (i_reg st) path = Some q" "\<not> q_use_pipe q"
    "q_count q = int (length (q_msgs q))" "q_count q \<le> q_max q"
    using assms by (auto simp: inproc_def)
  obtain p where p: "reg_lookup (r_root (i_reg st)) path = Some p" "queue_at (i_reg st) p = Some q"
    using q(1) by (auto simp: path_queue_def split: option.splits)
  have pp: "p = path_segs path" using p(1) by (simp add: lookup_info)
  show ?thesis
  proof (cases "q_msgs q")
    case Nil
    then show ?thesis using p q by (simp add: inproc_msgs_def reg_ipc_recv_def)
  next
    case (Cons m ms)
    let ?q = "q\<lparr>q_msgs := ms, q_count := q_count q - 1\<rparr>"
    let ?st = "st\<lparr>i_reg := set_queue (i_reg st) p ?q\<rparr>"
    have "reg_ipc_recv st path = Inr (Some m, ?st)" using p q Cons by (simp add: reg_ipc_recv_def)
    moreover have "path_queue (i_reg ?st) path = Some ?q"
      using path_queue_set [OF q(1), of ?q] pp by simp
    ultimately show ?thesis using q Cons by (auto simp: inproc_msgs_def inproc_def)
  qed
qed

interpretation ipc_inproc: fifo "inproc path" "inproc_msgs path" "\<lambda>_. True" stored "send_at path" "recv_at path" for path
proof unfold_locales
  show "inproc path s' \<and> inproc_msgs path s' = inproc_msgs path s @ [stored x]"
    if "inproc path s" "True" "send_at path s x = Some s'" for s x s'
    using send_inproc [OF that(1), of x] that(3) by (auto simp: send_at_def split: if_splits)
  show "inproc path s' \<and> inproc_msgs path s = x # inproc_msgs path s'"
    if "inproc path s" "recv_at path s = Some (x, s')" for s x s'
    using recv_inproc [OF that(1)] that(2) by (auto simp: recv_at_def split: list.splits option.splits)
  show "inproc_msgs path s = []" if "inproc path s" "recv_at path s = None" for s
    using recv_inproc [OF that(1)] that(2) by (auto simp: recv_at_def split: list.splits)
qed


subsection \<open>The pipe\<close>

function pipe_vals :: "u8 list \<Rightarrow> val list" where
  "pipe_vals bs =
     (case read_head bs of
        Inl e \<Rightarrow> []
      | Inr ((tb, i, f, no_buf, s, n), rest) \<Rightarrow>
          if length rest < length bs then read_value (vtype_of tb) i f no_buf s # pipe_vals rest else [])"
  by pat_completeness auto
termination by (relation "measure length") auto

declare pipe_vals.simps [simp del]

definition pipe_ok :: "val \<Rightarrow> bool" where
  "pipe_ok v \<longleftrightarrow> wire_ok v \<and> \<not> (vtype (wire_val v) = TYPE_ERR \<and> err_code (wire_val v) = 99)"

lemma pipe_vals_cons: "wire_ok v \<Longrightarrow> pipe_vals (wire_head v 0 @ rest) = wire_val v # pipe_vals rest"
  using read_head_wire [of v 0 rest]
  by (subst pipe_vals.simps) (simp add: wire_val_def wire_head_def)

lemma pipe_vals_nil: "pipe_vals [] = []"
  by (simp add: pipe_vals.simps [of "[]"] read_head_def read_all_def)

definition piped :: "string \<Rightarrow> istate \<Rightarrow> bool" where
  "piped path st \<longleftrightarrow>
     (\<exists>q fd ms. path_queue (i_reg st) path = Some q \<and> q_use_pipe q \<and> q_rfd q = Some fd \<and> q_wfd q = Some fd \<and>
       fd < length (i_pipes st) \<and> (\<forall>m \<in> set ms. pipe_ok m) \<and>
       i_pipes st ! fd = concat (List.map (\<lambda>m. wire_head m 0) ms))"

definition piped_msgs :: "string \<Rightarrow> istate \<Rightarrow> val list" where
  "piped_msgs path st =
     (case path_queue (i_reg st) path of
        None \<Rightarrow> []
      | Some q \<Rightarrow> (case q_rfd q of None \<Rightarrow> [] | Some fd \<Rightarrow> pipe_vals (i_pipes st ! fd)))"

lemma pipe_vals_concat:
  "\<forall>m \<in> set ms. pipe_ok m \<Longrightarrow>
   pipe_vals (concat (List.map (\<lambda>m. wire_head m 0) ms) @ rest) = List.map wire_val ms @ pipe_vals rest"
  by (induction ms) (simp_all add: pipe_vals_cons pipe_ok_def)

lemma wire_head_neq_Nil [simp]: "wire_head v n \<noteq> []"
  by (simp add: wire_head_def)

lemma send_piped:
  assumes "piped path st" and v: "pipe_ok v"
  shows "\<exists>st'. reg_ipc_send st path v = Inr (0, st') \<and> piped path st' \<and>
    piped_msgs path st' = piped_msgs path st @ [wire_val v]"
proof -
  obtain q fd ms where q: "path_queue (i_reg st) path = Some q" "q_use_pipe q" "q_rfd q = Some fd"
      "q_wfd q = Some fd" "fd < length (i_pipes st)"
    and ms: "\<forall>m \<in> set ms. pipe_ok m" "i_pipes st ! fd = concat (List.map (\<lambda>m. wire_head m 0) ms)"
    using assms(1) unfolding piped_def by blast
  let ?h = "r_heap (i_reg st)"
  let ?st = "st\<lparr>i_reg := (i_reg st)\<lparr>r_heap := ?h\<rparr>,
    i_pipes := (i_pipes st)[fd := i_pipes st ! fd @ wire_head v 0]\<rparr>"
  have w: "wire_ok v" using v by (simp add: pipe_ok_def)
  have send: "reg_ipc_send st path v = Inr (0, ?st)"
    using find_existing [OF q(1)] q wire_scalar(1) [OF w] by (simp add: reg_ipc_send_def)
  have bytes: "i_pipes ?st ! fd = concat (List.map (\<lambda>m. wire_head m 0) (ms @ [v]))"
    using q(5) ms(2) by simp
  have inv: "piped path ?st"
    unfolding piped_def by (rule exI [of _ q], rule exI [of _ fd], rule exI [of _ "ms @ [v]"])
      (use q bytes ms(1) v in simp)
  have "piped_msgs path ?st = List.map wire_val (ms @ [v])"
    using q bytes pipe_vals_concat [of "ms @ [v]" "[]"] ms(1) v pipe_vals_nil
    by (simp add: piped_msgs_def)
  moreover have "piped_msgs path st = List.map wire_val ms"
    using q ms pipe_vals_concat [OF ms(1), of "[]"] pipe_vals_nil by (simp add: piped_msgs_def)
  ultimately show ?thesis using send inv by simp
qed

lemma recv_piped:
  assumes "piped path st"
  shows "case piped_msgs path st of
      [] \<Rightarrow> reg_ipc_recv st path = Inr (None, st)
    | m # ms \<Rightarrow> \<exists>st'. reg_ipc_recv st path = Inr (Some m, st') \<and> piped path st' \<and> piped_msgs path st' = ms"
proof -
  obtain q fd ms where q: "path_queue (i_reg st) path = Some q" "q_use_pipe q" "q_rfd q = Some fd"
      "q_wfd q = Some fd" "fd < length (i_pipes st)"
    and ms: "\<forall>m \<in> set ms. pipe_ok m" "i_pipes st ! fd = concat (List.map (\<lambda>m. wire_head m 0) ms)"
    using assms unfolding piped_def by blast
  obtain p where p: "reg_lookup (r_root (i_reg st)) path = Some p" "queue_at (i_reg st) p = Some q"
    using q(1) by (auto simp: path_queue_def split: option.splits)
  have now: "piped_msgs path st = List.map wire_val ms"
    using q ms pipe_vals_concat [OF ms(1), of "[]"] pipe_vals_nil by (simp add: piped_msgs_def)
  show ?thesis
  proof (cases ms)
    case Nil
    then show ?thesis using now p q ms(2) by (simp add: reg_ipc_recv_def)
  next
    case (Cons m ms')
    let ?rest = "concat (List.map (\<lambda>m. wire_head m 0) ms')"
    let ?h = "r_heap (i_reg st)"
    let ?st = "st\<lparr>i_reg := (i_reg st)\<lparr>r_heap := ?h\<rparr>, i_pipes := (i_pipes st)[fd := ?rest]\<rparr>"
    have m: "wire_ok m" "\<not> (vtype (wire_val m) = TYPE_ERR \<and> err_code (wire_val m) = 99)"
      using ms(1) Cons by (simp_all add: pipe_ok_def)
    have ms': "\<forall>m \<in> set ms'. pipe_ok m" using ms(1) Cons by simp
    have "i_pipes st ! fd = wire_head m 0 @ ?rest" using ms(2) Cons by simp
    then have recv: "reg_ipc_recv st path = Inr (Some (wire_val m), ?st)"
      using p q m(2) wire_scalar(2) [OF m(1), of ?h ?rest] by (simp add: reg_ipc_recv_def Let_def)
    have inv: "piped path ?st"
      unfolding piped_def by (rule exI [of _ q], rule exI [of _ fd], rule exI [of _ ms'])
        (use q ms' in simp)
    have "piped_msgs path ?st = List.map wire_val ms'"
      using q pipe_vals_concat [OF ms', of "[]"] pipe_vals_nil by (simp add: piped_msgs_def)
    then show ?thesis using recv inv now Cons by simp
  qed
qed

interpretation ipc_piped: fifo "piped path" "piped_msgs path" pipe_ok wire_val "send_at path" "recv_at path" for path
proof unfold_locales
  show "piped path s' \<and> piped_msgs path s' = piped_msgs path s @ [wire_val x]"
    if "piped path s" "pipe_ok x" "send_at path s x = Some s'" for s x s'
    using send_piped [OF that(1,2)] that(3) by (auto simp: send_at_def split: if_splits)
  show "piped path s' \<and> piped_msgs path s = x # piped_msgs path s'"
    if "piped path s" "recv_at path s = Some (x, s')" for s x s'
    using recv_piped [OF that(1)] that(2) by (auto simp: recv_at_def split: list.splits option.splits)
  show "piped_msgs path s = []" if "piped path s" "recv_at path s = None" for s
    using recv_piped [OF that(1)] that(2) by (auto simp: recv_at_def split: list.splits)
qed


subsection \<open>Sends and receives at a path, whatever the transport\<close>

fun ipc_run :: "string \<Rightarrow> istate \<Rightarrow> val queue_op list \<Rightarrow> val list \<times> val list \<times> istate" where
  "ipc_run path st [] = ([], [], st)"
| "ipc_run path st (Send m # ops) =
     (case send_at path st m of
        None \<Rightarrow> ipc_run path st ops
      | Some st' \<Rightarrow> (case ipc_run path st' ops of (sent, got, t) \<Rightarrow> (m # sent, got, t)))"
| "ipc_run path st (Recv # ops) =
     (case recv_at path st of
        None \<Rightarrow> ipc_run path st ops
      | Some (m, st') \<Rightarrow> (case ipc_run path st' ops of (sent, got, t) \<Rightarrow> (sent, m # got, t)))"

lemma ipc_run_inproc: "ipc_inproc.run path st ops = ipc_run path st ops"
  by (induction path st ops rule: ipc_run.induct) (auto split: option.split prod.split)

lemma ipc_run_piped: "ipc_piped.run path st ops = ipc_run path st ops"
  by (induction path st ops rule: ipc_run.induct) (auto split: option.split prod.split)

lemma inproc_fifo:
  assumes "inproc path st" and "ipc_run path st ops = (sent, got, st')"
  shows "inproc path st' \<and> got @ inproc_msgs path st' = inproc_msgs path st @ List.map stored sent"
  using ipc_inproc.run_fifo [OF assms(1), of ops sent got st'] assms(2) by (simp add: ipc_run_inproc)

lemma piped_fifo:
  assumes "piped path st" and "\<forall>m. Send m \<in> set ops \<longrightarrow> pipe_ok m" and "ipc_run path st ops = (sent, got, st')"
  shows "piped path st' \<and> got @ piped_msgs path st' = piped_msgs path st @ List.map wire_val sent"
  using ipc_piped.run_fifo [OF assms(1,2), of sent got st'] assms(3) by (simp add: ipc_run_piped)


subsection \<open>Switching to pipes\<close>

text \<open>What the walk makes of one node: \<open>ps\<close> are the pipes after it.\<close>

definition piped_node :: "u8 list list \<Rightarrow> regnode \<Rightarrow> regnode \<Rightarrow> bool" where
  "piped_node ps nd nd' \<longleftrightarrow>
     (case k_queue nd of
        None \<Rightarrow> nd' = nd
      | Some q \<Rightarrow>
          if q_use_pipe q then nd' = nd
          else \<exists>fd h1 h2. fd < length ps \<and> drain_msgs h1 (q_msgs q) = Inr (ps ! fd, h2) \<and>
            nd' = nd\<lparr>k_queue := Some (q\<lparr>q_msgs := [], q_count := 0, q_use_pipe := True,
              q_rfd := Some fd, q_wfd := Some fd\<rparr>)\<rparr>)"

lemma piped_node_append: "piped_node ps nd nd' \<Longrightarrow> piped_node (ps @ ext) nd nd'"
  unfolding piped_node_def
  by (cases "k_queue nd") (simp_all split: if_splits, metis length_append nth_append trans_less_add1)

lemma pipe_node_piped:
  assumes "pipe_node h ps nd = Inr (nd', h', ps')"
  shows "(\<exists>ext. ps' = ps @ ext) \<and> k_name nd' = k_name nd \<and> piped_node ps' nd nd'"
proof (cases "k_queue nd")
  case None
  then show ?thesis using assms by (simp add: pipe_node_def piped_node_def)
next
  case (Some q)
  show ?thesis
  proof (cases "q_use_pipe q")
    case True
    then show ?thesis using assms Some by (simp add: pipe_node_def piped_node_def)
  next
    case False
    then obtain bs h1 where d: "drain_msgs h (q_msgs q) = Inr (bs, h1)" "ps' = ps @ [bs]"
      "nd' = nd\<lparr>k_queue := Some (q\<lparr>q_msgs := [], q_count := 0, q_use_pipe := True,
         q_rfd := Some (length ps), q_wfd := Some (length ps)\<rparr>)\<rparr>"
      using assms Some by (auto simp: pipe_node_def split: sum.splits prod.splits)
    have "piped_node ps' nd nd'"
      unfolding piped_node_def using Some False d
      by (simp, metis length_append_singleton lessI nth_append_length)
    then show ?thesis using d by simp
  qed
qed

definition walked :: "u8 list list \<Rightarrow> regkey \<Rightarrow> regkey \<Rightarrow> bool" where
  "walked ps k k' \<longleftrightarrow> k_name (node k') = k_name (node k) \<and>
     (\<forall>p nd. info k p = Some nd \<longrightarrow> (\<exists>nd'. info k' p = Some nd' \<and> piped_node ps nd nd'))"

lemma walked_append: "walked ps k k' \<Longrightarrow> walked (ps @ ext) k k'"
  unfolding walked_def using piped_node_append by blast

lemma list_all2_walked_append:
  "list_all2 (walked ps) cs cs' \<Longrightarrow> list_all2 (walked (ps @ ext)) cs cs'"
  by (erule list_all2_mono) (rule walked_append)

lemma find_walked:
  "list_all2 (walked ps) cs cs' \<Longrightarrow> regkey_find_child cs s = Some c \<Longrightarrow>
   \<exists>c'. regkey_find_child cs' s = Some c' \<and> walked ps c c'"
proof (induction cs cs' rule: list_all2_induct)
  case (Cons x xs y ys)
  then have "key_name y = key_name x" by (simp add: walked_def key_name_def)
  then show ?case using Cons by (cases "key_name x = s") simp_all
qed simp

lemma walked_key:
  assumes "piped_node ps nd nd'" "k_name nd' = k_name nd" "list_all2 (walked ps) cs cs'"
  shows "walked ps (RegKey nd cs) (RegKey nd' cs')"
proof -
  have "\<exists>y. info (RegKey nd' cs') p = Some y \<and> piped_node ps x y" if i: "info (RegKey nd cs) p = Some x" for p x
  proof (cases p)
    case Nil
    then show ?thesis using i assms(1) by (simp add: info_def)
  next
    case (Cons s ss)
    then obtain c where c: "regkey_find_child cs s = Some c" "info c ss = Some x"
      using i by (auto simp: info_Cons split: option.splits)
    obtain c' where "regkey_find_child cs' s = Some c'" "walked ps c c'"
      using find_walked [OF assms(3) c(1)] by blast
    then show ?thesis using c Cons by (auto simp: info_Cons walked_def)
  qed
  then show ?thesis using assms(2) by (simp add: walked_def)
qed

lemma walk_key_walked:
  "walk_key h ps k = Inr (k', h', ps') \<Longrightarrow> (\<exists>ext. ps' = ps @ ext) \<and> walked ps' k k'"
  "walk_keys h ps cs = Inr (cs', h', ps') \<Longrightarrow> (\<exists>ext. ps' = ps @ ext) \<and> list_all2 (walked ps') cs cs'"
proof (induction h ps k and h ps cs arbitrary: k' h' ps' and cs' h' ps' rule: walk_key_walk_keys.induct)
  case (1 h ps nd cs)
  then obtain nd' h1 ps1 cs' where n: "pipe_node h ps nd = Inr (nd', h1, ps1)"
    and c: "walk_keys h1 ps1 cs = Inr (cs', h', ps')" and k': "k' = RegKey nd' cs'"
    by (auto split: sum.splits prod.splits)
  from pipe_node_piped [OF n] obtain e1 where e1: "ps1 = ps @ e1" "k_name nd' = k_name nd" "piped_node ps1 nd nd'"
    by blast
  from "1.IH" [OF n refl refl c] obtain e2 where e2: "ps' = ps1 @ e2" "list_all2 (walked ps') cs cs'" by blast
  have "piped_node ps' nd nd'" using piped_node_append [OF e1(3)] e2(1) by simp
  then have "walked ps' (RegKey nd cs) k'" unfolding k' using e1(2) e2(2) by (rule walked_key)
  then show ?case using e1 e2 by simp
next
  case (3 h ps c cs)
  then obtain c1 h1 ps1 cs1 where n: "walk_key h ps c = Inr (c1, h1, ps1)"
    and c: "walk_keys h1 ps1 cs = Inr (cs1, h', ps')" and k': "cs' = c1 # cs1"
    by (auto split: sum.splits prod.splits)
  from "3.IH"(1) [OF n] obtain e1 where e1: "ps1 = ps @ e1" "walked ps1 c c1" by blast
  from "3.IH"(2) [OF n refl refl c] obtain e2 where e2: "ps' = ps1 @ e2" "list_all2 (walked ps') cs cs1" by blast
  show ?case using e1 e2 walked_append [OF e1(2), of e2] k' by simp
qed simp

lemma drain_scalars:
  "\<forall>m \<in> set ms. wire_ok m \<Longrightarrow> drain_msgs h ms = Inr (concat (List.map (\<lambda>m. wire_head m 0) ms), h)"
proof (induction ms)
  case (Cons m ms)
  then have m: "pipe_serialize_value h m = Inr (wire_head m 0, h)" using wire_scalar(1) by simp
  have "ref_of m = None" using Cons.prems by (simp add: wire_ok_def ref_of_def)
  then have "val_free h m = Inr h" by (simp add: val_free_def free_vals.simps)
  then show ?case using m Cons by simp
qed simp

lemma enable_pipes_path:
  assumes "inproc path st" and root: "path_segs path \<noteq> []" and ms: "\<forall>m \<in> set (inproc_msgs path st). pipe_ok m"
    and en: "reg_ipc_enable_pipes st = Inr st'"
  shows "piped path st' \<and> piped_msgs path st' = List.map wire_val (inproc_msgs path st)"
proof -
  obtain q where q: "path_queue (i_reg st) path = Some q" "\<not> q_use_pipe q"
    using assms(1) by (auto simp: inproc_def)
  have msq: "inproc_msgs path st = q_msgs q" using q(1) by (simp add: inproc_msgs_def)
  let ?r = "r_root (i_reg st)" and ?p = "path_segs path"
  obtain nd where l: "path \<noteq> []" "hd path = CHR ''/''" "info ?r ?p = Some nd" "k_queue nd = Some q"
    using q(1) by (auto simp: path_queue_def lookup_info queue_at_info split: option.splits)
  obtain cs h ps where w: "walk_keys (r_heap (i_reg st)) (i_pipes st) (children ?r) = Inr (cs, h, ps)"
    and st': "st' = st\<lparr>i_reg := (i_reg st)\<lparr>r_heap := h, r_root := RegKey (node ?r) cs\<rparr>, i_pipes := ps\<rparr>"
    using en by (auto simp: reg_ipc_enable_pipes_def Let_def split: sum.splits prod.splits)
  have walked: "list_all2 (walked ps) (children ?r) cs" using walk_key_walked(2) [OF w] by blast
  obtain s ss where p: "?p = s # ss" using root by (cases ?p) auto
  obtain c where c: "regkey_find_child (children ?r) s = Some c" "info c ss = Some nd"
    using l(3) p by (auto simp: info_Cons split: option.splits)
  obtain c' where c': "regkey_find_child cs s = Some c'" "walked ps c c'"
    using find_walked [OF walked c(1)] by blast
  then obtain nd' where nd': "info c' ss = Some nd'" "piped_node ps nd nd'"
    using c(2) by (auto simp: walked_def)
  have i': "info (r_root (i_reg st')) ?p = Some nd'" using c' nd'(1) p st' by (simp add: info_Cons)
  obtain fd h1 h2 where fd: "fd < length ps" "drain_msgs h1 (q_msgs q) = Inr (ps ! fd, h2)"
    "k_queue nd' = Some (q\<lparr>q_msgs := [], q_count := 0, q_use_pipe := True, q_rfd := Some fd, q_wfd := Some fd\<rparr>)"
    using nd'(2) l(4) q(2) by (auto simp: piped_node_def)
  have w: "\<forall>m \<in> set (q_msgs q). wire_ok m" using ms msq by (simp add: pipe_ok_def)
  have bytes: "ps ! fd = concat (List.map (\<lambda>m. wire_head m 0) (q_msgs q))"
    using fd(2) drain_scalars [OF w, of h1] by simp
  have pq: "path_queue (i_reg st') path =
      Some (q\<lparr>q_msgs := [], q_count := 0, q_use_pipe := True, q_rfd := Some fd, q_wfd := Some fd\<rparr>)"
    using l i' fd(3) by (simp add: path_queue_def lookup_info queue_at_info split: option.split)
  have "piped path st'"
    unfolding piped_def using pq fd(1) bytes ms msq st'
    by (intro exI [of _ "q\<lparr>q_msgs := [], q_count := 0, q_use_pipe := True, q_rfd := Some fd, q_wfd := Some fd\<rparr>"]
        exI [of _ fd] exI [of _ "q_msgs q"]) simp
  moreover have "piped_msgs path st' = List.map wire_val (q_msgs q)"
    using pq bytes pipe_vals_concat [of "q_msgs q" "[]"] ms msq pipe_vals_nil st' by (simp add: piped_msgs_def)
  ultimately show ?thesis using msq by simp
qed


subsection \<open>What a receiver of a pipe sees\<close>

text \<open>Values as the constructors of the value system make them.\<close>

definition built_value :: "val \<Rightarrow> bool" where
  "built_value v \<longleftrightarrow>
     (case vtype v of
        TYPE_NIL \<Rightarrow> v = val_nil
      | TYPE_INT \<Rightarrow> v = val_int (ival v)
      | TYPE_FLOAT \<Rightarrow> v = val_float (fval v)
      | TYPE_BOOL \<Rightarrow> v = val_bool (ival v = 1)
      | TYPE_FN \<Rightarrow> v = val_fn_idx (ival v)
      | TYPE_STR \<Rightarrow> v = val_str (wire_str v)
      | TYPE_REF \<Rightarrow> v = val_ref (wire_str v)
      | TYPE_PTR \<Rightarrow> v = val_ptr (wire_str v)
      | TYPE_ERR \<Rightarrow> v = val_err (err_code v) (wire_str v)
      | TYPE_ARR \<Rightarrow> False)"

text \<open>The value the reader of the pipe makes of it.\<close>

definition piped_value :: "val \<Rightarrow> val" where
  "piped_value v =
     (case vtype v of
        TYPE_ERR \<Rightarrow> val_err 0 (wire_str v)
      | TYPE_REF \<Rightarrow> val_ref (if wire_str v = [] then ''/'' else wire_str v)
      | TYPE_PTR \<Rightarrow> val_ptr (if wire_str v = [] then ''/'' else wire_str v)
      | _ \<Rightarrow> v)"

lemma vtype_cons [simp]:
  "vtype val_nil = TYPE_NIL" "vtype (val_int n) = TYPE_INT" "vtype (val_bool b) = TYPE_BOOL"
  "vtype (val_float f) = TYPE_FLOAT" "vtype (val_str s) = TYPE_STR" "vtype (val_err c s) = TYPE_ERR"
  "vtype (val_ref s) = TYPE_REF" "vtype (val_ptr s) = TYPE_PTR" "vtype (val_fn_idx n) = TYPE_FN"
  by (simp_all add: val_cons_defs)

lemma ival_cons [simp]:
  "ival (val_int n) = n" "ival (val_bool b) = (if b then 1 else 0)" "ival (val_fn_idx n) = n"
  "ival (val_err c s) = 0" "fval (val_float f) = f"
  by (simp_all add: val_cons_defs)

lemma wire_val_built: "built_value v \<Longrightarrow> wire_val v = piped_value v"
proof (cases "vtype v")
  case TYPE_BOOL
  assume "built_value v"
  then have "v = val_bool (ival v = 1)" using TYPE_BOOL by (simp add: built_value_def)
  then show ?thesis using TYPE_BOOL
    by (cases "ival v = 1") (simp_all add: wire_val_def read_value_def piped_value_def val_cons_defs)
next
  case TYPE_ERR
  assume "built_value v"
  then have "v = val_err (err_code v) (wire_str v)" using TYPE_ERR by (simp add: built_value_def)
  then have "ival v = 0" using ival_cons(4) by metis
  then show ?thesis using TYPE_ERR by (simp add: wire_val_def read_value_def piped_value_def)
qed (simp_all add: built_value_def wire_val_def read_value_def piped_value_def)

lemma wire_roundtrip:
  assumes "wire_ok v" and "built_value v"
  shows "\<exists>bs. pipe_serialize_value h v = Inr (bs, h) \<and>
    (\<forall>rest. pipe_deserialize_value h (bs @ rest) = Inr (piped_value v, h, rest))"
  using wire_scalar [OF assms(1)] wire_val_built [OF assms(2)] by auto

text \<open>The messages a pipe gives back as they were.\<close>

definition pipe_plain :: "val \<Rightarrow> bool" where
  "pipe_plain v \<longleftrightarrow> wire_ok v \<and> built_value v \<and> vtype v \<noteq> TYPE_ERR \<and> (vtype v \<in> {TYPE_REF, TYPE_PTR} \<longrightarrow> wire_str v \<noteq> [])"

lemma pipe_plain_same: "pipe_plain v \<Longrightarrow> pipe_ok v \<and> wire_val v = v"
proof -
  assume v: "pipe_plain v"
  have "piped_value v = v"
    using v unfolding pipe_plain_def built_value_def piped_value_def by (cases "vtype v") simp_all
  then show ?thesis using v by (auto simp: pipe_plain_def pipe_ok_def wire_val_built)
qed

lemma ipc_run_sent: "ipc_run path st ops = (sent, got, st') \<Longrightarrow> m \<in> set sent \<Longrightarrow> Send m \<in> set ops"
proof (induction path st ops arbitrary: sent got st' rule: ipc_run.induct)
  case (2 path st x ops)
  show ?case
  proof (cases "send_at path st x")
    case None
    then show ?thesis using 2 by simp
  next
    case (Some t)
    obtain s g u where r: "ipc_run path t ops = (s, g, u)" by (cases "ipc_run path t ops")
    have "sent = x # s" using "2.prems"(1) Some r by simp
    then show ?thesis using "2.IH"(2) [OF Some r] "2.prems"(2) by auto
  qed
next
  case (3 path st ops)
  then show ?case by (cases "recv_at path st") (auto split: prod.splits)
qed simp

lemma pipes_fifo:
  assumes "inproc path st" and "path_segs path \<noteq> []" and w: "\<forall>m \<in> set (inproc_msgs path st). pipe_plain m"
    and en: "reg_ipc_enable_pipes st = Inr st1"
    and ops: "\<forall>m. Send m \<in> set ops \<longrightarrow> pipe_plain m" and run: "ipc_run path st1 ops = (sent, got, st')"
  shows "piped path st' \<and> got @ piped_msgs path st' = inproc_msgs path st @ sent"
proof -
  have same: "List.map wire_val ms = ms" if "\<forall>m \<in> set ms. pipe_plain m" for ms
    using that pipe_plain_same by (simp add: map_idI)
  have p: "piped path st1" "piped_msgs path st1 = List.map wire_val (inproc_msgs path st)"
    using enable_pipes_path [OF assms(1,2) _ en] w pipe_plain_same by blast+
  have "piped path st' \<and> got @ piped_msgs path st' = piped_msgs path st1 @ List.map wire_val sent"
    using piped_fifo [OF p(1) _ run] ops pipe_plain_same by blast
  moreover have "\<forall>m \<in> set sent. pipe_plain m" using ipc_run_sent [OF run] ops by blast
  ultimately show ?thesis using p(2) same w by simp
qed

section \<open>The properties\<close>

text \<open>C24: Over any sequence of sends and receives at one path, an in-process queue is a queue:
  what is received, followed by what is left, is what was there followed by the messages accepted,
  in order and none lost or doubled; and its bound on the number of messages is kept.\<close>

theorem reg_ipc_fifo:
  assumes "inproc path st" and "ipc_run path st ops = (sent, got, st')"
  shows "inproc path st' \<and> got @ inproc_msgs path st' = inproc_msgs path st @ List.map stored sent"
  by (rule inproc_fifo [OF assms])

definition queue_demo :: istate where
  "queue_demo = \<lparr>i_reg = snd (reg_ipc_init_queue (reg_init blank) ''/local/q'' 2), i_pipes = []\<rparr>"

definition ops_demo :: "val queue_op list" where
  "ops_demo = [Send (val_int 1), Send (val_int 2), Send (val_int 3), Recv, Send (val_str ''x''), Recv]"

lemma queue_demo_inproc: "inproc ''/local/q'' queue_demo" "inproc_msgs ''/local/q'' queue_demo = []"
proof -
  have q: "path_queue (i_reg queue_demo) ''/local/q'' = Some (new_queue 2)" by code_simp
  show "inproc ''/local/q'' queue_demo" "inproc_msgs ''/local/q'' queue_demo = []"
    unfolding inproc_def inproc_msgs_def q by (simp_all add: new_queue_def)
qed

theorem reg_ipc_fifo_witness:
  "\<exists>sent got st'. ipc_run ''/local/q'' queue_demo ops_demo = (sent, got, st') \<and>
     got @ inproc_msgs ''/local/q'' st' = List.map stored [val_int 1, val_int 2, val_str ''x'']"
proof -
  have s: "fst (ipc_run ''/local/q'' queue_demo ops_demo) = [val_int 1, val_int 2, val_str ''x'']" by code_simp
  obtain sent got st' where r: "ipc_run ''/local/q'' queue_demo ops_demo = (sent, got, st')"
    by (cases "ipc_run ''/local/q'' queue_demo ops_demo")
  then have "sent = [val_int 1, val_int 2, val_str ''x'']" using s by simp
  then show ?thesis
    using reg_ipc_fifo [OF queue_demo_inproc(1) r] queue_demo_inproc(2) r by simp
qed

text \<open>C34: After \<open>reg_ipc_enable_pipes\<close> the messages that were waiting in a queue are in its pipe in
  the same order, and from then on any sequence of sends and receives finds a queue: what is received, followed by what
  is left, is what was waiting followed by the messages accepted, every message unchanged. It is claimed for messages
  that come out of a pipe as they went in (\<open>pipe_plain\<close>): nil, numbers, booleans, function indices and strings, and
  references and pointers with a path, with texts that have no NUL. It leaves out arrays, and error values, whose
  code the pipe loses. A pipe that is full is not modelled: its writer would wait.\<close>

theorem reg_ipc_pipes_fifo:
  assumes "inproc path st" and "path_segs path \<noteq> []" and "\<forall>m \<in> set (inproc_msgs path st). pipe_plain m"
    and "reg_ipc_enable_pipes st = Inr st1"
    and "\<forall>m. Send m \<in> set ops \<longrightarrow> pipe_plain m" and "ipc_run path st1 ops = (sent, got, st')"
  shows "piped path st' \<and> got @ piped_msgs path st' = inproc_msgs path st @ sent"
  by (rule pipes_fifo [OF assms])

definition waiting_demo :: istate where
  "waiting_demo = snd (snd (ipc_run ''/local/q'' queue_demo [Send (val_int 1), Send (val_str ''x'')]))"

lemma waiting_demo_inproc:
  "inproc ''/local/q'' waiting_demo" "inproc_msgs ''/local/q'' waiting_demo = [val_int 1, val_str ''x'']"
proof -
  have s: "fst (ipc_run ''/local/q'' queue_demo [Send (val_int 1), Send (val_str ''x'')]) = [val_int 1, val_str ''x'']"
    "fst (snd (ipc_run ''/local/q'' queue_demo [Send (val_int 1), Send (val_str ''x'')])) = []" by code_simp+
  then have r: "ipc_run ''/local/q'' queue_demo [Send (val_int 1), Send (val_str ''x'')] = ([val_int 1, val_str ''x''], [], waiting_demo)"
    by (simp add: waiting_demo_def prod_eq_iff)
  have st: "List.map stored [val_int 1, val_str ''x''] = [val_int 1, val_str ''x'']" by code_simp
  show "inproc ''/local/q'' waiting_demo" "inproc_msgs ''/local/q'' waiting_demo = [val_int 1, val_str ''x'']"
    using inproc_fifo [OF queue_demo_inproc(1) r] queue_demo_inproc(2) unfolding st by simp_all
qed

lemma waiting_demo_pipes: "\<exists>st1. reg_ipc_enable_pipes waiting_demo = Inr st1"
proof -
  have "case reg_ipc_enable_pipes waiting_demo of Inl _ \<Rightarrow> False | Inr _ \<Rightarrow> True" by code_simp
  then show ?thesis by (simp split: sum.splits)
qed

theorem reg_ipc_pipes_fifo_witness:
  "\<exists>st1 sent got st'. reg_ipc_enable_pipes waiting_demo = Inr st1 \<and>
     ipc_run ''/local/q'' st1 [Recv, Send (val_int 7), Recv] = (sent, got, st') \<and>
     got @ piped_msgs ''/local/q'' st' = [val_int 1, val_str ''x''] @ sent"
proof -
  obtain st1 where st1: "reg_ipc_enable_pipes waiting_demo = Inr st1" using waiting_demo_pipes by blast
  obtain sent got st' where r: "ipc_run ''/local/q'' st1 [Recv, Send (val_int 7), Recv] = (sent, got, st')"
    by (cases "ipc_run ''/local/q'' st1 [Recv, Send (val_int 7), Recv]")
  have segs: "path_segs ''/local/q'' \<noteq> []" by code_simp
  have ok: "pipe_plain (val_int i)" for i by (simp add: pipe_plain_def wire_ok_def wire_str_def built_value_def)
  have x: "wire_str (val_str ''x'') = ''x''" by code_simp
  then have ok2: "pipe_plain (val_str ''x'')" by (simp add: pipe_plain_def wire_ok_def built_value_def)
  show ?thesis
    using reg_ipc_pipes_fifo [OF waiting_demo_inproc(1) segs _ st1 _ r] waiting_demo_inproc(2) ok ok2 st1 r by simp
qed

text \<open>A value of C text that is no array, written to a pipe and read again, is the value, with
  three exceptions the code makes: the code of an error value is lost (its reader gets 0), and a
  reference or pointer with an empty path comes out with the path \<open>/\<close>.\<close>

lemma reg_ipc_wire_roundtrip:
  assumes "wire_ok v" and "built_value v"
  shows "\<exists>bs. pipe_serialize_value h v = Inr (bs, h) \<and>
    (\<forall>rest. pipe_deserialize_value h (bs @ rest) = Inr (piped_value v, h, rest))"
  by (rule wire_roundtrip [OF assms])

lemma reg_ipc_wire_roundtrip_witness:
  "\<exists>bs. pipe_serialize_value [] (val_err 42 ''no'') = Inr (bs, []) \<and>
     pipe_deserialize_value [] (bs @ [1]) = Inr (val_err 0 ''no'', [], [1])"
proof -
  have ok: "wire_ok (val_err 42 ''no'')" "built_value (val_err 42 ''no'')"
    by (simp_all add: wire_ok_def built_value_def wire_str_def val_cons_defs or_empty_def)
  have "piped_value (val_err 42 ''no'') = val_err 0 ''no''" by code_simp
  then show ?thesis using reg_ipc_wire_roundtrip [OF ok, of "[]"] by auto
qed

end
