(* ===== verification/Lexer.thy ===== *)
theory Lexer
  imports Values
begin

section \<open>The lexer (\<^verbatim>\<open>lang/lexer.c\<close>)\<close>

text \<open>
  The state of the lexer is the rest of the source from \<open>pos\<close> on, the line and the column.
  \<open>lexer_next\<close> is one function with its branches in the order of the code; a character that
  starts no token gives an end-of-file token that carries a message.
\<close>

datatype token_kind =
  TK_EOF
| TK_INT | TK_FLOAT | TK_STRING | TK_IDENT | TK_REGPATH
| TK_PLUS | TK_MINUS | TK_STAR | TK_SLASH | TK_PERCENT | TK_EQ | TK_EQEQ | TK_NEQ
| TK_LT | TK_GT | TK_LE | TK_GE | TK_AND | TK_OR | TK_NOT | TK_DOT
| TK_LBRACKET | TK_RBRACKET | TK_LBRACE | TK_RBRACE | TK_LPAREN | TK_RPAREN | TK_COMMA | TK_NEWLINE
| TK_KW_FN | TK_KW_RET | TK_KW_IF | TK_KW_ELSE | TK_KW_LOOP | TK_KW_BREAK | TK_KW_CONT | TK_KW_DEL
| TK_KW_OUT | TK_KW_REG | TK_KW_LS | TK_KW_IMPORT | TK_KW_PROC | TK_KW_AND | TK_KW_OR | TK_KW_NOT
| TK_KW_TRUE | TK_KW_FALSE | TK_KW_NIL | TK_KW_CD | TK_KW_PWD
| TK_KW_PTR | TK_KW_DEREF | TK_KW_SEND | TK_KW_RECV | TK_KW_PENDING

record token =
  tk_kind :: token_kind
  tk_text :: string
  tk_ival :: u64
  tk_fval :: f64
  tk_line :: nat
  tk_col :: nat

record lexer =
  l_rest :: string
  l_line :: nat
  l_col :: nat
  l_peeked :: "token option"

definition lexer_init :: "string \<Rightarrow> lexer" where
  "lexer_init src = \<lparr>l_rest = c_str src, l_line = 1, l_col = 1, l_peeked = None\<rparr>"

abbreviation (input) NL :: char where "NL \<equiv> CHR 0x0A"
abbreviation (input) BSLASH :: char where "BSLASH \<equiv> CHR 0x5C"
abbreviation (input) DQUOTE :: char where "DQUOTE \<equiv> CHR 0x22"

function skip_ws :: "string \<Rightarrow> nat \<Rightarrow> string \<times> nat" where
  "skip_ws [] col = ([], col)"
| "skip_ws (c # cs) col =
     (if c = CHR ''#'' then skip_ws (dropWhile (\<lambda>x. x \<noteq> NL) cs) col
      else if c = CHR '' '' \<or> c = CHR 0x09 \<or> c = CHR 0x0D then skip_ws cs (col + 1)
      else (c # cs, col))"
  by pat_completeness auto
termination by (relation "measure (\<lambda>(s, col). length s)") (auto simp: length_dropWhile_le less_Suc_eq_le)

definition lexer_skip_ws :: "lexer \<Rightarrow> lexer" where
  "lexer_skip_ws lx =
     (let (rest, col) = skip_ws (l_rest lx) (l_col lx) in lx\<lparr>l_rest := rest, l_col := col\<rparr>)"

text \<open>\<open>text\<close> is copied into a buffer of \<open>NAME_LEN\<close> bytes, whatever the kind.\<close>

definition make_tok :: "token_kind \<Rightarrow> string \<Rightarrow> nat \<Rightarrow> token" where
  "make_tok k text line =
     \<lparr>tk_kind = k, tk_text = trunc NAME_LEN (c_str text), tk_ival = 0, tk_fval = 0,
       tk_line = line, tk_col = 0\<rparr>"

definition keyword_table :: "(string \<times> token_kind) list" where
  "keyword_table =
     [(''fn'', TK_KW_FN), (''ret'', TK_KW_RET), (''if'', TK_KW_IF), (''else'', TK_KW_ELSE),
      (''loop'', TK_KW_LOOP), (''break'', TK_KW_BREAK), (''cont'', TK_KW_CONT),
      (''continue'', TK_KW_CONT), (''del'', TK_KW_DEL), (''out'', TK_KW_OUT), (''reg'', TK_KW_REG),
      (''ls'', TK_KW_LS), (''import'', TK_KW_IMPORT), (''proc'', TK_KW_PROC), (''and'', TK_KW_AND),
      (''or'', TK_KW_OR), (''not'', TK_KW_NOT), (''true'', TK_KW_TRUE), (''false'', TK_KW_FALSE),
      (''nil'', TK_KW_NIL), (''cd'', TK_KW_CD), (''pwd'', TK_KW_PWD), (''ptr'', TK_KW_PTR),
      (''deref'', TK_KW_DEREF), (''sendmessage'', TK_KW_SEND), (''receivemessage'', TK_KW_RECV),
      (''msgpending'', TK_KW_PENDING)]"

subsection \<open>The scanners\<close>

definition escape :: "char \<Rightarrow> char" where
  "escape ch =
     (if ch = CHR ''n'' then NL
      else if ch = CHR ''r'' then CHR 0x0D
      else if ch = CHR ''b'' then CHR 0x08
      else if ch = CHR ''e'' then CHR 0x1B
      else if ch = CHR ''t'' then CHR 0x09
      else if ch = CHR ''0'' then CHR 0x00
      else ch)"

text \<open>The characters of a string literal up to the closing quote or the end of the buffer.\<close>

function lex_string :: "nat \<Rightarrow> string \<Rightarrow> string \<times> string" where
  "lex_string i [] = ([], [])"
| "lex_string i (c # cs) =
     (if c = DQUOTE \<or> MAX_STR_LEN - 1 \<le> i then ([], c # cs)
      else if c = BSLASH \<and> cs \<noteq> [] then
        let (b, r) = lex_string (i + 1) (tl cs) in (escape (hd cs) # b, r)
      else let (b, r) = lex_string (i + 1) cs in (c # b, r))"
  by pat_completeness auto
termination by (relation "measure (\<lambda>(i, s). length s)") auto

text \<open>Characters that satisfy \<open>P\<close>, at most \<open>n\<close> of them, and what is left.\<close>

definition scan :: "nat \<Rightarrow> (char \<Rightarrow> bool) \<Rightarrow> string \<Rightarrow> string \<times> string" where
  "scan n P s = (let b = take n (takeWhile P s) in (b, drop (length b) s))"

definition lex_number :: "string \<Rightarrow> nat \<Rightarrow> token \<times> string" where
  "lex_number s line =
     (let sign = (if hd s = CHR ''-'' then [CHR ''-''] else []);
          (ds, rest) = scan (MAX_STR_LEN - 1 - length sign) (\<lambda>c. isdigit c \<or> c = CHR ''.'') (drop (length sign) s);
          buf = sign @ ds
      in ((make_tok (if CHR ''.'' \<in> set ds then TK_FLOAT else TK_INT) buf line)
            \<lparr>tk_ival := atoll buf, tk_fval := atof buf\<rparr>, rest))"

definition lex_path :: "string \<Rightarrow> nat \<Rightarrow> token \<times> string" where
  "lex_path s line =
     (let (b, rest) = scan (MAX_STR_LEN - 2) (\<lambda>c. isalnum c \<or> c = CHR ''_'' \<or> c = CHR ''/'') (tl s);
          buf = hd s # b
      in if b \<noteq> [] \<and> (isalpha (hd b) \<or> hd b = CHR ''_'') then (make_tok TK_REGPATH buf line, rest)
         else if b = [] then (make_tok TK_REGPATH buf line, rest)
         else (make_tok TK_SLASH ''/'' line, tl s))"

definition lex_ident :: "string \<Rightarrow> nat \<Rightarrow> token \<times> string" where
  "lex_ident s line =
     (let (buf, rest) = scan (MAX_STR_LEN - 1) (\<lambda>c. isalnum c \<or> c = CHR ''_'') s
      in (make_tok (case map_of keyword_table buf of Some k \<Rightarrow> k | None \<Rightarrow> TK_IDENT) buf line, rest))"

text \<open>One character, or two if the next is \<open>d\<close>.\<close>

definition lex_two :: "char \<Rightarrow> token \<Rightarrow> token \<Rightarrow> string \<Rightarrow> token \<times> string" where
  "lex_two d two one cs = (if cs \<noteq> [] \<and> hd cs = d then (two, tl cs) else (one, cs))"

definition lex_symbol :: "char \<Rightarrow> string \<Rightarrow> nat \<Rightarrow> token \<times> string" where
  "lex_symbol c cs line =
     (let unknown = make_tok TK_EOF (''unknown character '' @ [CHR 0x27, c, CHR 0x27]) line in
      if c = CHR ''+'' then (make_tok TK_PLUS ''+'' line, cs)
      else if c = CHR ''-'' then (make_tok TK_MINUS ''-'' line, cs)
      else if c = CHR ''*'' then (make_tok TK_STAR ''*'' line, cs)
      else if c = CHR ''%'' then (make_tok TK_PERCENT ''%'' line, cs)
      else if c = CHR ''.'' then (make_tok TK_DOT ''.'' line, cs)
      else if c = CHR ''['' then (make_tok TK_LBRACKET ''['' line, cs)
      else if c = CHR '']'' then (make_tok TK_RBRACKET '']'' line, cs)
      else if c = CHR ''{'' then (make_tok TK_LBRACE ''{'' line, cs)
      else if c = CHR ''}'' then (make_tok TK_RBRACE ''}'' line, cs)
      else if c = CHR ''('' then (make_tok TK_LPAREN ''('' line, cs)
      else if c = CHR '')'' then (make_tok TK_RPAREN '')'' line, cs)
      else if c = CHR '','' then (make_tok TK_COMMA '','' line, cs)
      else if c = CHR ''='' then lex_two (CHR ''='') (make_tok TK_EQEQ ''=='' line) (make_tok TK_EQ ''='' line) cs
      else if c = CHR ''!'' then lex_two (CHR ''='') (make_tok TK_NEQ ''!='' line) (make_tok TK_NOT ''!'' line) cs
      else if c = CHR ''<'' then lex_two (CHR ''='') (make_tok TK_LE ''<='' line) (make_tok TK_LT ''<'' line) cs
      else if c = CHR ''>'' then lex_two (CHR ''='') (make_tok TK_GE ''>='' line) (make_tok TK_GT ''>'' line) cs
      else if c = CHR ''&'' then lex_two (CHR ''&'') (make_tok TK_AND ''&&'' line) unknown cs
      else if c = CHR ''|'' then lex_two (CHR ''|'') (make_tok TK_OR ''||'' line) unknown cs
      else (unknown, cs))"

text \<open>A token from the source text \<open>s\<close>, which starts with no blank or comment.\<close>

definition lex_token :: "string \<Rightarrow> nat \<Rightarrow> token \<times> string" where
  "lex_token s line =
     (let c = hd s in
      if c = NL then (make_tok TK_NEWLINE [BSLASH, CHR ''n''] line, tl s)
      else if c = DQUOTE then
        let (buf, r) = lex_string 0 (tl s)
        in (make_tok TK_STRING buf line, drop 1 (dropWhile (\<lambda>x. x \<noteq> DQUOTE) r))
      else if isdigit c \<or> c = CHR ''-'' \<and> tl s \<noteq> [] \<and> isdigit (hd (tl s)) then lex_number s line
      else if c = CHR ''/'' then lex_path s line
      else if isalpha c \<or> c = CHR ''_'' then lex_ident s line
      else lex_symbol c (tl s) line)"

definition lexer_next :: "lexer \<Rightarrow> token \<times> lexer" where
  "lexer_next lx0 =
     (case l_peeked lx0 of
        Some t \<Rightarrow> (t, lx0\<lparr>l_peeked := None\<rparr>)
      | None \<Rightarrow>
          let lx = lexer_skip_ws lx0 in
          if l_rest lx = [] then (make_tok TK_EOF [] (l_line lx), lx)
          else
            let (t, r) = lex_token (l_rest lx) (l_line lx);
                lx1 = lx\<lparr>l_rest := r\<rparr>
            in (t, if hd (l_rest lx) = NL then lx1\<lparr>l_line := l_line lx + 1, l_col := 1\<rparr> else lx1))"

definition lexer_peek :: "lexer \<Rightarrow> token \<times> lexer" where
  "lexer_peek lx =
     (case l_peeked lx of
        Some t \<Rightarrow> (t, lx)
      | None \<Rightarrow> let (t, lx1) = lexer_next lx in (t, lx1\<lparr>l_peeked := Some t\<rparr>))"

definition token_kind_name :: "token_kind \<Rightarrow> string" where
  "token_kind_name k =
     (case k of
        TK_EOF \<Rightarrow> ''EOF'' | TK_INT \<Rightarrow> ''INT'' | TK_FLOAT \<Rightarrow> ''FLOAT'' | TK_STRING \<Rightarrow> ''STR''
      | TK_IDENT \<Rightarrow> ''IDENT'' | TK_REGPATH \<Rightarrow> ''PATH'' | TK_PLUS \<Rightarrow> ''+'' | TK_MINUS \<Rightarrow> ''-''
      | TK_STAR \<Rightarrow> ''*'' | TK_SLASH \<Rightarrow> ''/'' | TK_EQ \<Rightarrow> ''='' | TK_EQEQ \<Rightarrow> ''=='' | TK_NEQ \<Rightarrow> ''!=''
      | TK_LT \<Rightarrow> ''<'' | TK_GT \<Rightarrow> ''>'' | TK_LE \<Rightarrow> ''<='' | TK_GE \<Rightarrow> ''>='' | TK_AND \<Rightarrow> ''&&''
      | TK_OR \<Rightarrow> ''||'' | TK_NOT \<Rightarrow> ''!'' | TK_DOT \<Rightarrow> ''.'' | TK_LBRACKET \<Rightarrow> ''['' | TK_RBRACKET \<Rightarrow> '']''
      | TK_LBRACE \<Rightarrow> ''{'' | TK_RBRACE \<Rightarrow> ''}'' | TK_LPAREN \<Rightarrow> ''('' | TK_RPAREN \<Rightarrow> '')''
      | TK_NEWLINE \<Rightarrow> ''NL'' | TK_COMMA \<Rightarrow> '','' | TK_PERCENT \<Rightarrow> ''%'' | TK_KW_FN \<Rightarrow> ''fn''
      | TK_KW_RET \<Rightarrow> ''ret'' | TK_KW_IF \<Rightarrow> ''if'' | TK_KW_ELSE \<Rightarrow> ''else'' | TK_KW_LOOP \<Rightarrow> ''loop''
      | TK_KW_BREAK \<Rightarrow> ''break'' | TK_KW_CONT \<Rightarrow> ''cont'' | TK_KW_DEL \<Rightarrow> ''del'' | TK_KW_OUT \<Rightarrow> ''out''
      | TK_KW_REG \<Rightarrow> ''reg'' | TK_KW_LS \<Rightarrow> ''ls'' | TK_KW_TRUE \<Rightarrow> ''true'' | TK_KW_FALSE \<Rightarrow> ''false''
      | TK_KW_NIL \<Rightarrow> ''nil'' | TK_KW_IMPORT \<Rightarrow> ''import'' | TK_KW_PROC \<Rightarrow> ''proc'' | TK_KW_AND \<Rightarrow> ''and''
      | TK_KW_OR \<Rightarrow> ''or'' | TK_KW_NOT \<Rightarrow> ''not'' | TK_KW_PTR \<Rightarrow> ''ptr'' | TK_KW_DEREF \<Rightarrow> ''deref''
      | TK_KW_SEND \<Rightarrow> ''sendmessage'' | TK_KW_RECV \<Rightarrow> ''receivemessage''
      | TK_KW_PENDING \<Rightarrow> ''msgpending'' | _ \<Rightarrow> ''?'')"

end
