(* ===== verification/Parser.thy ===== *)
theory Parser
  imports Lexer
begin

section \<open>The parser (\<^verbatim>\<open>lang/parser.c\<close>)\<close>

text \<open>
  A node of the syntax tree has one constructor per kind, with the fields that kind uses; a child
  pointer that the parser may leave NULL is an \<open>option\<close>. A function declaration carries the number
  of its allocation, which stands for the address of the node: the evaluator takes the body out
  of the node (\<^verbatim>\<open>lang/eval.c\<close>), so two evaluations of one node differ.

  The functions that call one another count down \<open>n\<close>. \<open>OutOfFuel\<close> is no behaviour of the program,
  and \<open>parse_program\<close> starts them with enough (\<^verbatim>\<open>Parser_Facts.thy\<close>). \<open>Hang\<close> is a loop of the C
  code that makes no more progress.
\<close>

datatype ast =
  AST_PROGRAM "ast list"
| AST_ASSIGN string "ast option"
| AST_INDEX_ASSIGN string "ast option" "ast option"
| AST_IDENT string
| AST_INDEX string "ast option"
| AST_REG_ACCESS string
| AST_INT_LIT val
| AST_FLOAT_LIT val
| AST_STR_LIT val
| AST_BOOL_LIT val
| AST_NIL_LIT
| AST_BINOP string ast ast
| AST_UNOP "ast option"
| AST_FN_DECL nat string "string list" "ast option"
| AST_FN_CALL string "ast option list"
| AST_IF "ast option" "ast option" "ast option"
| AST_LOOP "ast option"
| AST_BREAK
| AST_CONT
| AST_RET "ast option"
| AST_DEL string "ast option"
| AST_OUT "ast option"
| AST_REG_SET string "ast option"
| AST_REG_LS string
| AST_CD string "ast option"
| AST_PWD
| AST_BLOCK "ast list"
| AST_PTR_SET string string
| AST_PTR_DEREF string
| AST_SEND_MSG string "ast option"
| AST_RECV_MSG string
| AST_MSG_PENDING string

record parser =
  p_lex :: lexer
  p_cur :: token
  p_had_error :: bool
  p_error_msg :: string
  p_decls :: nat

abbreviation cur :: "parser \<Rightarrow> token_kind" where
  "cur p \<equiv> tk_kind (p_cur p)"

definition parser_advance :: "parser \<Rightarrow> parser" where
  "parser_advance p = (let (t, lx) = lexer_next (p_lex p) in p\<lparr>p_cur := t, p_lex := lx\<rparr>)"

subsection \<open>Every token consumes input\<close>

definition lex_size :: "lexer \<Rightarrow> nat" where
  "lex_size lx = length (l_rest lx) + (if l_peeked lx = None then 0 else 1)"

text \<open>What is left of the input for the parser; nothing after an end-of-file token.\<close>

definition input_left :: "parser \<Rightarrow> nat" where
  "input_left p = (if cur p = TK_EOF then 0 else Suc (lex_size (p_lex p)))"

lemma skip_ws_length: "length (fst (skip_ws s col)) \<le> length s"
proof (induction s col rule: skip_ws.induct)
  case (2 c cs col)
  have "length (dropWhile (\<lambda>x. x \<noteq> NL) cs) \<le> length cs" by (rule length_dropWhile_le)
  then show ?case using 2 by auto
qed simp

lemma lex_string_length: "length (snd (lex_string i s)) \<le> length s"
  by (induction i s rule: lex_string.induct) (auto split: prod.split)

lemma scan_length: "scan n P s = (b, r) \<Longrightarrow> length r \<le> length s \<and> (b \<noteq> [] \<longrightarrow> length r < length s)"
  by (cases s) (auto simp: scan_def Let_def)

lemma lex_symbol_length: "lex_symbol c cs line = (t, r) \<Longrightarrow> length r \<le> length cs"
  by (auto simp: lex_symbol_def lex_two_def Let_def split: if_splits)

lemma scan_first: "P c \<Longrightarrow> 0 < n \<Longrightarrow> scan n P (c # cs) = (b, r) \<Longrightarrow> length r < length (c # cs)"
  by (cases n) (auto simp: scan_def)

lemma lex_token_length: "s \<noteq> [] \<Longrightarrow> lex_token s line = (t, r) \<Longrightarrow> length r < length s"
proof -
  assume s: "s \<noteq> []" and lx: "lex_token s line = (t, r)"
  obtain c cs where cs: "s = c # cs" using s by (cases s) auto
  have str: "length (drop 1 (dropWhile (\<lambda>x. x \<noteq> DQUOTE) (snd (lex_string 0 cs)))) \<le> length cs"
    using lex_string_length [of 0 cs] length_dropWhile_le [of "\<lambda>x. x \<noteq> DQUOTE" "snd (lex_string 0 cs)"]
    by simp
  have num: "length r < length s" if "lex_number s line = (t, r)"
    "isdigit c \<or> c = CHR ''-'' \<and> cs \<noteq> [] \<and> isdigit (hd cs)"
  proof (cases "c = CHR ''-''")
    case True
    then show ?thesis
      using that(1) cs by (auto simp: lex_number_def Let_def less_Suc_eq_le split: prod.splits dest: scan_length)
  next
    case False
    then have "isdigit c" using that(2) by simp
    then show ?thesis
      using that(1) cs False by (auto simp: lex_number_def Let_def split: prod.splits dest!: scan_first [rotated 2])
  qed
  have path: "length r < length s" if "lex_path s line = (t, r)"
    using that cs by (auto simp: lex_path_def Let_def less_Suc_eq_le split: prod.splits if_splits dest: scan_length)
  have ident: "length r < length s" if "lex_ident s line = (t, r)" "isalpha c \<or> c = CHR ''_''"
    using that cs by (auto simp: lex_ident_def Let_def isalnum_def split: prod.splits dest!: scan_first [rotated 2])
  show ?thesis
    using lx cs str num path ident lex_symbol_length [of c cs line t r]
    by (auto simp: lex_token_def Let_def less_Suc_eq_le split: if_splits prod.splits)
qed

lemma lexer_next_size:
  assumes "lexer_next lx = (t, lx')" and "tk_kind t \<noteq> TK_EOF"
  shows "lex_size lx' < lex_size lx"
proof (cases "l_peeked lx")
  case None
  obtain s col where s: "skip_ws (l_rest lx) (l_col lx) = (s, col)" by (cases "skip_ws (l_rest lx) (l_col lx)")
  have le: "length s \<le> length (l_rest lx)" using skip_ws_length [of "l_rest lx" "l_col lx"] s by simp
  have ne: "s \<noteq> []"
  proof
    assume "s = []"
    then show False
      using assms None s by (auto simp: lexer_next_def lexer_skip_ws_def make_tok_def)
  qed
  obtain t1 r where r: "lex_token s (l_line lx) = (t1, r)" by (cases "lex_token s (l_line lx)")
  then have "length r < length s" using ne lex_token_length by blast
  then show ?thesis
    using assms(1) None s ne r le
    by (auto simp: lexer_next_def lexer_skip_ws_def lex_size_def Let_def split: if_splits)
qed (use assms in \<open>auto simp: lexer_next_def lex_size_def\<close>)

lemma advance_less: "cur p \<noteq> TK_EOF \<Longrightarrow> input_left (parser_advance p) < input_left p"
  by (auto simp: parser_advance_def input_left_def Let_def split: prod.split dest: lexer_next_size)

subsection \<open>Helpers\<close>

function parser_skip_newlines :: "parser \<Rightarrow> parser" where
  "parser_skip_newlines p =
     (if cur p = TK_NEWLINE then parser_skip_newlines (parser_advance p) else p)"
  by pat_completeness auto
termination by (relation "measure input_left") (auto intro: advance_less)

declare parser_skip_newlines.simps [simp del]

definition parser_error :: "string \<Rightarrow> parser \<Rightarrow> parser" where
  "parser_error msg p = p\<lparr>p_had_error := True, p_error_msg := trunc 256 msg\<rparr>"

definition at_line :: "token \<Rightarrow> string" where
  "at_line t = ''Line '' @ show_nat (tk_line t) @ '': ''"

definition quoted :: "string \<Rightarrow> string" where
  "quoted s = [CHR 0x27] @ s @ [CHR 0x27]"

definition parser_expect :: "parser \<Rightarrow> token_kind \<Rightarrow> bool \<times> parser" where
  "parser_expect p k =
     (if cur p \<noteq> k then
        (False, if p_had_error p then p
          else parser_error (at_line (p_cur p) @ ''expected '' @ quoted (token_kind_name k) @ '', found ''
            @ quoted (token_kind_name (cur p)) @ '' ('' @ quoted (tk_text (p_cur p)) @ '')'') p)
      else (True, parser_advance p))"

definition binop_prec :: "token_kind \<Rightarrow> nat" where
  "binop_prec k =
     (case k of
        TK_OR \<Rightarrow> 1 | TK_KW_OR \<Rightarrow> 1
      | TK_AND \<Rightarrow> 2 | TK_KW_AND \<Rightarrow> 2
      | TK_EQEQ \<Rightarrow> 3 | TK_NEQ \<Rightarrow> 3
      | TK_LT \<Rightarrow> 4 | TK_GT \<Rightarrow> 4 | TK_LE \<Rightarrow> 4 | TK_GE \<Rightarrow> 4
      | TK_PLUS \<Rightarrow> 5 | TK_MINUS \<Rightarrow> 5
      | TK_STAR \<Rightarrow> 6 | TK_SLASH \<Rightarrow> 6 | TK_PERCENT \<Rightarrow> 6
      | _ \<Rightarrow> 0)"

definition binop_name :: "token_kind \<Rightarrow> string" where
  "binop_name k =
     (case k of
        TK_PLUS \<Rightarrow> ''+'' | TK_MINUS \<Rightarrow> ''-'' | TK_STAR \<Rightarrow> ''*'' | TK_SLASH \<Rightarrow> ''/'' | TK_PERCENT \<Rightarrow> ''%''
      | TK_EQEQ \<Rightarrow> ''=='' | TK_NEQ \<Rightarrow> ''!='' | TK_LT \<Rightarrow> ''<'' | TK_GT \<Rightarrow> ''>'' | TK_LE \<Rightarrow> ''<=''
      | TK_GE \<Rightarrow> ''>='' | TK_AND \<Rightarrow> ''&&'' | TK_KW_AND \<Rightarrow> ''&&'' | TK_OR \<Rightarrow> ''||'' | TK_KW_OR \<Rightarrow> ''||''
      | _ \<Rightarrow> ''?'')"

text \<open>The precedence of the current token and the operator it stands for: a lone \<open>/\<close> before a blank is
  lexed as a path, and taken for the division here.\<close>

definition lone_slash :: "parser \<Rightarrow> bool" where
  "lone_slash p \<longleftrightarrow> cur p = TK_REGPATH \<and> tk_text (p_cur p) = ''/''"

definition cur_prec :: "parser \<Rightarrow> nat" where
  "cur_prec p = (if lone_slash p then 6 else binop_prec (cur p))"

definition cur_op :: "parser \<Rightarrow> token_kind" where
  "cur_op p = (if lone_slash p then TK_SLASH else cur p)"

definition skip_comma :: "parser \<Rightarrow> parser" where
  "skip_comma p = (if cur p = TK_COMMA then parser_advance p else p)"

type_synonym parsed = "(ast option \<times> parser) res"

text \<open>A node for the path that must come next.\<close>

definition path_node :: "(string \<Rightarrow> ast) \<Rightarrow> parser \<Rightarrow> parsed" where
  "path_node mk p =
     (let (found, p1) = parser_expect p TK_REGPATH
      in Inr (if found then Some (mk (tk_text (p_cur p))) else None, p1))"

text \<open>The end of an argument list.\<close>

definition close_call :: "string \<Rightarrow> ast option list \<Rightarrow> parser \<Rightarrow> parsed" where
  "close_call name args p =
     (let (found, p1) = parser_expect p TK_RPAREN
      in Inr (if found then Some (AST_FN_CALL name args) else None, p1))"

text \<open>The parameters of a declaration.\<close>

function parse_params :: "parser \<Rightarrow> string list \<Rightarrow> string list \<times> parser" where
  "parse_params p params =
     (if cur p = TK_IDENT \<and> length params < MAX_PARAMS then
        parse_params (skip_comma (parser_advance p)) (params @ [tk_text (p_cur p)])
      else (params, p))"
  by pat_completeness auto
termination by (relation "measure (\<lambda>(p, params). MAX_PARAMS - length params)") auto

declare parse_params.simps [simp del]

subsection \<open>Expressions and statements\<close>

definition opt_list :: "'a option \<Rightarrow> 'a list" where
  "opt_list x = (case x of None \<Rightarrow> [] | Some y \<Rightarrow> [y])"

text \<open>
  \<open>parse_primary\<close>, with the functions it calls (itself, \<open>parse_expr\<close> and the two argument loops from
  no argument on) as parameters.
\<close>

definition primary_step ::
  "(parser \<Rightarrow> parsed) \<Rightarrow> (parser \<Rightarrow> parsed) \<Rightarrow> (parser \<Rightarrow> (ast option list \<times> parser) res) \<Rightarrow>
   (parser \<Rightarrow> (ast option list \<times> parser) res) \<Rightarrow> parser \<Rightarrow> parsed" where
  "primary_step primary expr args_of kwargs p =
     (let t = p_cur p; a = parser_advance p in
      if tk_kind t = TK_INT then Inr (Some (AST_INT_LIT (val_int (tk_ival t))), a)
      else if tk_kind t = TK_FLOAT then Inr (Some (AST_FLOAT_LIT (val_float (tk_fval t))), a)
      else if tk_kind t = TK_STRING then Inr (Some (AST_STR_LIT (val_str (tk_text t))), a)
      else if tk_kind t = TK_KW_TRUE then Inr (Some (AST_BOOL_LIT (val_bool True)), a)
      else if tk_kind t = TK_KW_FALSE then Inr (Some (AST_BOOL_LIT (val_bool False)), a)
      else if tk_kind t = TK_KW_NIL then Inr (Some AST_NIL_LIT, a)
      else if tk_kind t = TK_KW_PWD then Inr (Some AST_PWD, a)
      else if tk_kind t = TK_KW_LS then
          if cur a = TK_LPAREN then
            bind_res (kwargs (parser_advance a)) (\<lambda>(args, p1). close_call ''ls'' args p1)
          else Inr (Some (AST_REG_LS ''/''), a)
      else if tk_kind t = TK_IDENT then
          if cur a = TK_LBRACKET then
            bind_res (expr (parser_advance a)) (\<lambda>(idx, p1).
              if idx = None then Inr (None, p1)
              else let (found, p2) = parser_expect p1 TK_RBRACKET
                   in Inr (if found then Some (AST_INDEX (tk_text t) idx) else None, p2))
          else if cur a = TK_LPAREN then
            bind_res (args_of (parser_advance a)) (\<lambda>(args, p1). close_call (tk_text t) args p1)
          else Inr (Some (AST_IDENT (tk_text t)), a)
      else if tk_kind t = TK_KW_REG then
          if cur a \<noteq> TK_REGPATH then Inr (None, a)
          else Inr (Some (AST_REG_ACCESS (tk_text (p_cur a))), parser_advance a)
      else if tk_kind t = TK_REGPATH then Inr (Some (AST_REG_ACCESS (tk_text t)), a)
      else if tk_kind t = TK_LPAREN then
          bind_res (expr a) (\<lambda>(e, p1). Inr (e, snd (parser_expect p1 TK_RPAREN)))
      else if tk_kind t = TK_NOT then bind_res (primary a) (\<lambda>(e, p1). Inr (Some (AST_UNOP e), p1))
      else if tk_kind t = TK_KW_NOT then bind_res (primary a) (\<lambda>(e, p1). Inr (Some (AST_UNOP e), p1))
      else if tk_kind t = TK_KW_PENDING then
          if cur a = TK_LPAREN then
            bind_res (kwargs (parser_advance a)) (\<lambda>(args, p1). close_call ''msgpending'' args p1)
          else path_node AST_MSG_PENDING a
      else if tk_kind t = TK_KW_RECV then
          if cur a = TK_LPAREN then
            bind_res (kwargs (parser_advance a)) (\<lambda>(args, p1). close_call ''receivemessage'' args p1)
          else path_node AST_RECV_MSG a
      else if tk_kind t = TK_KW_DEREF then path_node AST_PTR_DEREF a
      else Inr (None, parser_error (at_line t @ ''unexpected token '' @ quoted (tk_text t)) p))"

text \<open>
  \<open>parse_args\<close> is the argument loop of a call by name, \<open>kw_args\<close> that of a call by keyword (\<open>ls\<close>,
  \<open>sendmessage\<close>, \<open>receivemessage\<close>, \<open>msgpending\<close>), which does not look at \<open>had_error\<close>: with 16
  arguments read it takes nothing but commas, and otherwise goes round for ever.
\<close>

fun parse_primary :: "nat \<Rightarrow> parser \<Rightarrow> parsed"
  and parse_binop :: "nat \<Rightarrow> nat \<Rightarrow> parser \<Rightarrow> parsed"
  and binop_loop :: "nat \<Rightarrow> nat \<Rightarrow> ast \<Rightarrow> parser \<Rightarrow> parsed"
  and parse_args :: "nat \<Rightarrow> parser \<Rightarrow> ast option list \<Rightarrow> (ast option list \<times> parser) res"
  and kw_args :: "nat \<Rightarrow> parser \<Rightarrow> ast option list \<Rightarrow> (ast option list \<times> parser) res" where
  "parse_primary 0 p = Inl OutOfFuel"
| "parse_primary (Suc n) p =
     primary_step (\<lambda>q. parse_primary n q) (\<lambda>q. parse_binop n 1 q) (\<lambda>q. parse_args n q [])
       (\<lambda>q. kw_args n q []) p"
| "parse_binop 0 m p = Inl OutOfFuel"
| "parse_binop (Suc n) m p =
     bind_res (parse_primary n p) (\<lambda>(left, p1).
       case left of None \<Rightarrow> Inr (None, p1) | Some l \<Rightarrow> binop_loop n m l p1)"
| "binop_loop 0 m l p = Inl OutOfFuel"
| "binop_loop (Suc n) m l p =
     (if cur_prec p < m then Inr (Some l, p)
      else bind_res (parse_binop n (cur_prec p + 1) (parser_advance p)) (\<lambda>(right, p1).
        case right of
          None \<Rightarrow> Inr (Some l, p1)
        | Some r \<Rightarrow> binop_loop n m (AST_BINOP (binop_name (cur_op p)) l r) p1))"
| "parse_args 0 p args = Inl OutOfFuel"
| "parse_args (Suc n) p args =
     (if cur p = TK_RPAREN \<or> cur p = TK_EOF \<or> p_had_error p then Inr (args, p)
      else bind_res (parse_binop n 1 p) (\<lambda>(arg, p1).
        case arg of
          None \<Rightarrow> Inr (args, p1)
        | Some a \<Rightarrow>
            parse_args n (skip_comma p1) (if length args < MAX_PARAMS then args @ [Some a] else args)))"
| "kw_args 0 p args = Inl OutOfFuel"
| "kw_args (Suc n) p args =
     (if cur p = TK_RPAREN \<or> cur p = TK_EOF then Inr (args, p)
      else if length args < MAX_PARAMS then
        bind_res (parse_binop n 1 p) (\<lambda>(arg, p1). kw_args n (skip_comma p1) (args @ [arg]))
      else if cur p = TK_COMMA then kw_args n (parser_advance p) args
      else Inl Hang)"

text \<open>A call by keyword as a statement, or the keyword's node for a path.\<close>

definition kw_stmt :: "nat \<Rightarrow> string \<Rightarrow> (string \<Rightarrow> ast) \<Rightarrow> parser \<Rightarrow> parsed" where
  "kw_stmt n name mk a =
     (if cur a = TK_LPAREN then
        bind_res (kw_args n (parser_advance a) []) (\<lambda>(args, p1). close_call name args p1)
      else path_node mk a)"

definition stmt_del :: "nat \<Rightarrow> parser \<Rightarrow> parsed" where
  "stmt_del n a =
     (let name = tk_text (p_cur a);
          (found, p1) = parser_expect a TK_IDENT in
      if \<not> found then Inr (None, p1)
      else let (found, p2) = parser_expect p1 TK_LBRACKET in
      if \<not> found then Inr (None, p2)
      else bind_res (parse_binop n 1 p2) (\<lambda>(idx, p3).
        let (found, p4) = parser_expect p3 TK_RBRACKET
        in Inr (if found then Some (AST_DEL name idx) else None, p4)))"

definition stmt_ls :: "nat \<Rightarrow> parser \<Rightarrow> parsed" where
  "stmt_ls n a =
     (if cur a = TK_LPAREN then
        bind_res (parse_args n (parser_advance a) []) (\<lambda>(args, p1). close_call ''ls'' args p1)
      else if cur a \<in> {TK_REGPATH, TK_STRING, TK_IDENT} then
        Inr (Some (AST_REG_LS (tk_text (p_cur a))), parser_advance a)
      else Inr (Some (AST_REG_LS []), a))"

definition stmt_cd :: "nat \<Rightarrow> parser \<Rightarrow> parsed" where
  "stmt_cd n a =
     (if cur a \<in> {TK_REGPATH, TK_STRING, TK_IDENT} then
        Inr (Some (AST_CD (tk_text (p_cur a)) None), parser_advance a)
      else bind_res (parse_binop n 1 a) (\<lambda>(e, p1). Inr (Some (AST_CD [] e), p1)))"

definition stmt_reg :: "nat \<Rightarrow> parser \<Rightarrow> parsed" where
  "stmt_reg n a =
     (let path = tk_text (p_cur a);
          (found, p1) = parser_expect a TK_REGPATH in
      if \<not> found then Inr (None, p1)
      else if cur p1 = TK_EQ then
        bind_res (parse_binop n 1 (parser_advance p1)) (\<lambda>(e, p2). Inr (Some (AST_REG_SET path e), p2))
      else Inr (Some (AST_REG_ACCESS path), p1))"

definition stmt_send :: "nat \<Rightarrow> parser \<Rightarrow> parsed" where
  "stmt_send n a =
     (if cur a = TK_LPAREN then
        bind_res (kw_args n (parser_advance a) []) (\<lambda>(args, p1). close_call ''sendmessage'' args p1)
      else
        let path = tk_text (p_cur a);
            (found, p1) = parser_expect a TK_REGPATH in
        if \<not> found then Inr (None, p1)
        else bind_res (parse_binop n 1 p1) (\<lambda>(e, p2). Inr (Some (AST_SEND_MSG path e), p2)))"

definition stmt_ptr :: "parser \<Rightarrow> parsed" where
  "stmt_ptr a =
     (let path = tk_text (p_cur a);
          (found, p1) = parser_expect a TK_REGPATH in
      if \<not> found then Inr (None, p1)
      else let (found, p2) = parser_expect p1 TK_EQ in
      if \<not> found then Inr (None, p2)
      else path_node (AST_PTR_SET path) p2)"

text \<open>A statement that begins with a name; \<open>a\<close> is the parser after it.\<close>

definition stmt_ident :: "nat \<Rightarrow> string \<Rightarrow> parser \<Rightarrow> parsed" where
  "stmt_ident n name a =
     (if cur a = TK_LBRACKET then
        bind_res (parse_binop n 1 (parser_advance a)) (\<lambda>(idx, p1).
          let (found, p2) = parser_expect p1 TK_RBRACKET in
          if \<not> found then Inr (None, p2)
          else if cur p2 = TK_EQ then
            bind_res (parse_binop n 1 (parser_advance p2)) (\<lambda>(e, p3).
              Inr (Some (AST_INDEX_ASSIGN name idx e), p3))
          else Inr (Some (AST_INDEX name idx), p2))
      else if cur a = TK_EQ then
        bind_res (parse_binop n 1 (parser_advance a)) (\<lambda>(e, p1). Inr (Some (AST_ASSIGN name e), p1))
      else if cur a = TK_LPAREN then
        bind_res (parse_args n (parser_advance a) []) (\<lambda>(args, p1). close_call name args p1)
      else Inr (Some (AST_IDENT name), a))"

text \<open>The head of a declaration up to its closing parenthesis: number, name and parameters.\<close>

definition fn_head :: "parser \<Rightarrow> (nat \<times> string \<times> string list) option \<times> parser" where
  "fn_head a =
     (let nt = p_cur a in
      if tk_kind nt \<noteq> TK_IDENT \<and> tk_kind nt \<noteq> TK_KW_LS then
        (None, if p_had_error a then a
          else parser_error (at_line nt @ ''expected identifier after '' @ quoted ''fn'' @ '', found ''
            @ quoted (tk_text nt)) a)
      else
        let b = parser_advance a;
            d = p_decls b;
            (found, p1) = parser_expect (b\<lparr>p_decls := Suc d\<rparr>) TK_LPAREN in
        if \<not> found then (None, p1)
        else
          let (params, p2) = parse_params p1 [];
              (found, p3) = parser_expect p2 TK_RPAREN
          in (if found then Some (d, tk_text nt, params) else None, p3))"

text \<open>\<open>parse_stmt\<close>, with itself and \<open>parse_block\<close> as parameters.\<close>

definition stmt_step :: "nat \<Rightarrow> (parser \<Rightarrow> parsed) \<Rightarrow> (parser \<Rightarrow> parsed) \<Rightarrow> parser \<Rightarrow> parsed" where
  "stmt_step n stmt block p0 =
     (let p = parser_skip_newlines p0; t = p_cur p; a = parser_advance p in
      if tk_kind t = TK_KW_FN then
          (case fn_head a of
             (None, p1) \<Rightarrow> Inr (None, p1)
           | (Some (d, name, params), p1) \<Rightarrow>
               bind_res (block p1) (\<lambda>(body, p2). Inr (Some (AST_FN_DECL d name params body), p2)))
      else if tk_kind t = TK_KW_IF then
          bind_res (parse_binop n 1 a) (\<lambda>(c, p1).
          bind_res (block p1) (\<lambda>(b, p2).
            let p3 = parser_skip_newlines p2 in
            if cur p3 = TK_KW_ELSE then
              let p4 = parser_advance p3 in
              bind_res (if cur p4 = TK_KW_IF then stmt p4 else block p4) (\<lambda>(e, p5).
                Inr (Some (AST_IF c b e), p5))
            else Inr (Some (AST_IF c b None), p3)))
      else if tk_kind t = TK_KW_LOOP then bind_res (block a) (\<lambda>(b, p1). Inr (Some (AST_LOOP b), p1))
      else if tk_kind t = TK_KW_BREAK then Inr (Some AST_BREAK, a)
      else if tk_kind t = TK_KW_CONT then Inr (Some AST_CONT, a)
      else if tk_kind t = TK_KW_RET then
          if cur a \<notin> {TK_NEWLINE, TK_RBRACE, TK_EOF} then
            bind_res (parse_binop n 1 a) (\<lambda>(e, p1). Inr (Some (AST_RET e), p1))
          else Inr (Some (AST_RET None), a)
      else if tk_kind t = TK_KW_OUT then bind_res (parse_binop n 1 a) (\<lambda>(e, p1). Inr (Some (AST_OUT e), p1))
      else if tk_kind t = TK_KW_DEL then stmt_del n a
      else if tk_kind t = TK_KW_LS then stmt_ls n a
      else if tk_kind t = TK_KW_CD then stmt_cd n a
      else if tk_kind t = TK_KW_PWD then Inr (Some AST_PWD, a)
      else if tk_kind t = TK_KW_REG then stmt_reg n a
      else if tk_kind t = TK_KW_SEND then stmt_send n a
      else if tk_kind t = TK_KW_RECV then kw_stmt n ''receivemessage'' AST_RECV_MSG a
      else if tk_kind t = TK_KW_PENDING then kw_stmt n ''msgpending'' AST_MSG_PENDING a
      else if tk_kind t = TK_KW_PTR then stmt_ptr a
      else if tk_kind t = TK_KW_DEREF then path_node AST_PTR_DEREF a
      else if tk_kind t = TK_IDENT then stmt_ident n (tk_text t) a
      else parse_binop n 1 p)"

fun parse_block :: "nat \<Rightarrow> parser \<Rightarrow> parsed"
  and block_loop :: "nat \<Rightarrow> parser \<Rightarrow> ast list \<Rightarrow> (ast list \<times> parser) res"
  and parse_stmt :: "nat \<Rightarrow> parser \<Rightarrow> parsed" where
  "parse_block 0 p = Inl OutOfFuel"
| "parse_block (Suc n) p =
     (let (found, p1) = parser_expect p TK_LBRACE in
      if \<not> found then Inr (None, p1)
      else bind_res (block_loop n (parser_skip_newlines p1) []) (\<lambda>(ss, p2).
        Inr (Some (AST_BLOCK ss), snd (parser_expect p2 TK_RBRACE))))"
| "block_loop 0 p ss = Inl OutOfFuel"
| "block_loop (Suc n) p ss =
     (if cur p = TK_RBRACE \<or> cur p = TK_EOF \<or> p_had_error p then Inr (ss, p)
      else bind_res (parse_stmt n p) (\<lambda>(s, p1).
        block_loop n (parser_skip_newlines p1) (ss @ opt_list s)))"
| "parse_stmt 0 p = Inl OutOfFuel"
| "parse_stmt (Suc n) p = stmt_step n (\<lambda>q. parse_stmt n q) (\<lambda>q. parse_block n q) p"

declare parse_primary.simps(2) [simp del] parse_binop.simps(2) [simp del] binop_loop.simps(2) [simp del]
  parse_args.simps(2) [simp del] kw_args.simps(2) [simp del]
  parse_block.simps(2) [simp del] block_loop.simps(2) [simp del] parse_stmt.simps(2) [simp del]

subsection \<open>Programs\<close>

definition parser_init :: "lexer \<Rightarrow> nat \<Rightarrow> parser" where
  "parser_init lx decls =
     parser_advance \<lparr>p_lex = lx, p_cur = make_tok TK_EOF [] 0, p_had_error = False, p_error_msg = [],
       p_decls = decls\<rparr>"

fun program_loop :: "nat \<Rightarrow> parser \<Rightarrow> ast list \<Rightarrow> (ast list \<times> parser) res" where
  "program_loop 0 p ss = Inl OutOfFuel"
| "program_loop (Suc n) p ss =
     (if cur p = TK_EOF \<or> p_had_error p then Inr (ss, p)
      else bind_res (parse_stmt n p) (\<lambda>(s, p1).
        if s \<noteq> None \<and> \<not> p_had_error p1 \<and> cur p1 \<notin> {TK_NEWLINE, TK_EOF, TK_RBRACE} then
          Inr (ss @ opt_list s,
            parser_error (at_line (p_cur p1) @ ''expected end of line after statement, found ''
              @ quoted (tk_text (p_cur p1))) p1)
        else program_loop n (parser_skip_newlines p1) (ss @ opt_list s)))"

text \<open>Every function consumes a token after at most a few calls.\<close>

definition parse_fuel :: "parser \<Rightarrow> nat" where
  "parse_fuel p = 32 * input_left p + 32"

definition parse_program :: "parser \<Rightarrow> (ast \<times> parser) res" where
  "parse_program p =
     bind_res (program_loop (parse_fuel p) (parser_skip_newlines p) []) (\<lambda>(ss, p1).
       Inr (AST_PROGRAM ss, p1))"

end
