(* ===== verification/Parser_Facts.thy ===== *)
theory Parser_Facts
  imports Parser
begin

section \<open>Facts about the parser\<close>

text \<open>
  Every function of the parser consumes input or sets the error flag, and the count that
  \<open>parse_program\<close> starts with is enough for every source text.
\<close>

subsection \<open>What the helpers consume\<close>

lemma error_left [simp]: "input_left (parser_error msg p) = input_left p" "p_had_error (parser_error msg p)"
  by (simp_all add: parser_error_def input_left_def)

lemma advance_error [simp]: "p_had_error (parser_advance p) = p_had_error p"
  by (simp add: parser_advance_def split: prod.split)

lemma decls_left [simp]: "input_left (p\<lparr>p_decls := d\<rparr>) = input_left p"
  by (simp add: input_left_def)

lemma skip_newlines_left: "input_left (parser_skip_newlines p) \<le> input_left p"
proof (induction p rule: parser_skip_newlines.induct)
  case (1 p)
  then show ?case using advance_less [of p] by (subst parser_skip_newlines.simps) auto
qed

lemma skip_newlines_error [simp]: "p_had_error (parser_skip_newlines p) = p_had_error p"
  by (induction p rule: parser_skip_newlines.induct) (subst parser_skip_newlines.simps, simp)

lemma skip_comma_left: "input_left (skip_comma p) \<le> input_left p"
  using advance_less [of p] by (cases "cur p = TK_COMMA") (simp_all add: skip_comma_def)

lemma skip_comma_error [simp]: "p_had_error (skip_comma p) = p_had_error p"
  by (simp add: skip_comma_def)

lemma expect_left:
  "parser_expect p k = (found, p') \<Longrightarrow> k \<noteq> TK_EOF \<Longrightarrow>
   input_left p' \<le> input_left p \<and> (found \<longrightarrow> input_left p' < input_left p) \<and> (\<not> found \<longrightarrow> p_had_error p')"
  using advance_less [of p] by (auto simp: parser_expect_def split: if_splits)

lemma expect_snd_left: "k \<noteq> TK_EOF \<Longrightarrow> input_left (snd (parser_expect p k)) \<le> input_left p"
  using expect_left [of p k] by (cases "parser_expect p k") simp

lemma params_left: "parse_params p params = (ps, p') \<Longrightarrow> input_left p' \<le> input_left p"
proof (induction p params arbitrary: ps p' rule: parse_params.induct)
  case (1 p params)
  show ?case
  proof (cases "cur p = TK_IDENT \<and> length params < MAX_PARAMS")
    case True
    have "input_left p' \<le> input_left (skip_comma (parser_advance p))"
      using 1 True by (subst (asm) (2) parse_params.simps) auto
    moreover have "input_left (skip_comma (parser_advance p)) \<le> input_left (parser_advance p)"
      by (rule skip_comma_left)
    ultimately show ?thesis using True advance_less [of p] by simp
  next
    case False
    then show ?thesis using 1(2) by (subst (asm) parse_params.simps) auto
  qed
qed

subsection \<open>Progress and fuel\<close>

text \<open>
  \<open>weak e p r\<close>: a result reached from \<open>p\<close> has no more input left, and if \<open>e\<close> then the fuel was
  enough. \<open>good\<close>: moreover the result has less input left, or it is NULL and the error flag is set.
\<close>

definition weak :: "bool \<Rightarrow> parser \<Rightarrow> ('a \<times> parser) res \<Rightarrow> bool" where
  "weak e p r =
     (case r of Inl f \<Rightarrow> e \<longrightarrow> f \<noteq> OutOfFuel | Inr (x, p') \<Rightarrow> input_left p' \<le> input_left p)"

definition good :: "bool \<Rightarrow> parser \<Rightarrow> parsed \<Rightarrow> bool" where
  "good e p r =
     (case r of
        Inl f \<Rightarrow> e \<longrightarrow> f \<noteq> OutOfFuel
      | Inr (x, p') \<Rightarrow> input_left p' < input_left p \<or> x = None \<and> input_left p' \<le> input_left p \<and> p_had_error p')"

lemma good_weak: "good e p r \<Longrightarrow> weak e p r"
  by (auto simp: good_def weak_def split: sum.splits)

lemma weak_le: "weak e q r \<Longrightarrow> input_left q \<le> input_left p \<Longrightarrow> weak e p r"
  by (auto simp: weak_def split: sum.splits)

lemma weak_good: "weak e q r \<Longrightarrow> input_left q < input_left p \<Longrightarrow> good e p r"
  by (auto simp: weak_def good_def split: sum.splits)

lemma if_good: "(c \<Longrightarrow> good e p x) \<Longrightarrow> (\<not> c \<Longrightarrow> good e p y) \<Longrightarrow> good e p (if c then x else y)"
  by simp

lemma weak_Inr [simp]: "weak e p (Inr (x, p')) \<longleftrightarrow> input_left p' \<le> input_left p"
  by (simp add: weak_def)

lemma weak_mono: "weak e p r \<Longrightarrow> (e' \<longrightarrow> e) \<Longrightarrow> weak e' p r"
  by (auto simp: weak_def split: sum.splits)

lemma weak_bind:
  assumes "weak e p m" and "\<And>x p1. m = Inr (x, p1) \<Longrightarrow> input_left p1 \<le> input_left p \<Longrightarrow> weak e p (f (x, p1))"
  shows "weak e p (bind_res m f)"
  using assms by (auto simp: weak_def split: sum.splits prod.splits)

lemma weak_close: "weak e p (close_call name args p)"
  unfolding close_call_def Let_def
  using expect_left [of p TK_RPAREN] by (auto split: prod.split)

lemma weak_path_node: "weak e p (path_node mk p)"
  unfolding path_node_def Let_def
  using expect_left [of p TK_REGPATH] by (auto split: prod.split)

lemma weak_call: "weak e p m \<Longrightarrow> weak e p (bind_res m (\<lambda>(args, p1). close_call name args p1))"
  by (rule weak_bind) (auto intro: weak_le [OF weak_close])

lemma primary_step_good:
  assumes rec: "\<And>q. input_left q < input_left p \<Longrightarrow> weak e q (primary q)"
    "\<And>q. input_left q < input_left p \<Longrightarrow> weak e q (expr q)"
    "\<And>q. input_left q < input_left p \<Longrightarrow> weak e q (args_of q)"
    "\<And>q. input_left q < input_left p \<Longrightarrow> weak e q (kwargs q)"
  shows "good e p (primary_step primary expr args_of kwargs p)"
proof (cases "cur p = TK_EOF")
  case True
  then show ?thesis by (simp add: primary_step_def Let_def good_def)
next
  case False
  let ?a = "parser_advance p"
  have a: "input_left ?a < input_left p" by (rule advance_less [OF False])
  have aa: "input_left (parser_advance ?a) < input_left p" "input_left (parser_advance ?a) \<le> input_left ?a"
    if "cur ?a \<noteq> TK_EOF" using advance_less [OF that] a by simp_all
  have kw: "weak e ?a (bind_res (kwargs (parser_advance ?a)) (\<lambda>(args, p1). close_call name args p1))"
    if "cur ?a = TK_LPAREN" for name
    using weak_le [OF weak_call [OF rec(4) [OF aa(1)]] aa(2)] that by simp
  have call: "weak e ?a (bind_res (args_of (parser_advance ?a)) (\<lambda>(args, p1). close_call name args p1))"
    if "cur ?a = TK_LPAREN" for name
    using weak_le [OF weak_call [OF rec(3) [OF aa(1)]] aa(2)] that by simp
  have idx: "weak e ?a (bind_res (expr (parser_advance ?a)) (\<lambda>(idx, p1).
      if idx = None then Inr (None, p1)
      else let (found, p2) = parser_expect p1 TK_RBRACKET
           in Inr (if found then Some (AST_INDEX name idx) else None, p2)))"
    if "cur ?a = TK_LBRACKET" for name
    using that weak_le [OF rec(2) [OF aa(1)] aa(2)]
    by (intro weak_bind) (auto simp: Let_def split: prod.split dest!: expect_left)
  have paren: "weak e ?a (bind_res (expr ?a) (\<lambda>(x, p1). Inr (x, snd (parser_expect p1 TK_RPAREN))))"
    using rec(2) [OF a]
    by (intro weak_bind) (auto intro: order_trans [OF expect_snd_left])
  have unop: "weak e ?a (bind_res (primary ?a) (\<lambda>(x, p1). Inr (Some (AST_UNOP x), p1)))"
    using rec(1) [OF a] by (intro weak_bind) auto
  have reg: "cur ?a = TK_REGPATH \<Longrightarrow> input_left (parser_advance ?a) \<le> input_left ?a" using aa(2) by simp
  have now: "good e p (Inr (x, ?a))" and path: "good e p (path_node mk ?a)" for x mk
    by (rule weak_good [OF _ a], simp) (rule weak_good [OF weak_path_node a])
  have err: "good e p (Inr (None, parser_error msg p))" for msg by (simp add: good_def)
  have reg': "good e p (Inr (x, parser_advance ?a))" if "cur ?a = TK_REGPATH" for x
    using reg [OF that] by (intro weak_good [OF _ a]) simp
  note rules = now path err reg' weak_good [OF kw a] weak_good [OF call a] weak_good [OF idx a]
    weak_good [OF paren a] weak_good [OF unop a]
  show ?thesis
    unfolding primary_step_def Let_def
    by (intro if_good) (assumption | rule rules [unfolded Let_def] | simp)+
qed

text \<open>The fuel each function needs.\<close>

lemma expr_good:
  "good (32 * input_left p + 1 \<le> n) p (parse_primary n p)"
  "1 \<le> m \<Longrightarrow> good (32 * input_left p + 2 \<le> n) p (parse_binop n m p)"
  "1 \<le> m \<Longrightarrow> weak (32 * input_left p + 1 \<le> n) p (binop_loop n m l p)"
  "weak (32 * input_left p + 3 \<le> n) p (parse_args n p args)"
  "length args \<le> 16 \<Longrightarrow> weak (32 * input_left p + (16 - length args) + 3 \<le> n) p (kw_args n p args)"
proof (induction n p and n m p and n m l p and n p args and n p args
    rule: parse_primary_parse_binop_binop_loop_parse_args_kw_args.induct)
  case (2 n p)
  show ?case
    unfolding parse_primary.simps
  proof (rule primary_step_good)
    fix q assume q: "input_left q < input_left p"
    then have e: "32 * input_left p + 1 \<le> Suc n \<longrightarrow> 32 * input_left q + 20 \<le> n" by linarith
    show "weak (32 * input_left p + 1 \<le> Suc n) q (parse_primary n q)"
      by (rule weak_mono [OF good_weak [OF "2.IH"(1)]]) (use e in auto)
    show "weak (32 * input_left p + 1 \<le> Suc n) q (parse_binop n 1 q)"
      by (rule weak_mono [OF good_weak [OF "2.IH"(2)]]) (use e in auto)
    show "weak (32 * input_left p + 1 \<le> Suc n) q (parse_args n q [])"
      by (rule weak_mono [OF "2.IH"(3)]) (use e in auto)
    show "weak (32 * input_left p + 1 \<le> Suc n) q (kw_args n q [])"
      by (rule weak_mono [OF "2.IH"(4)]) (use e in auto)
  qed
next
  case (4 n m p)
  note prim = "4.IH"(1)
  show ?case
  proof (cases "parse_primary n p")
    case (Inl f)
    then show ?thesis using prim by (auto simp: parse_binop.simps good_def)
  next
    case (Inr y)
    obtain left p1 where y: "y = (left, p1)" by (cases y)
    show ?thesis
    proof (cases left)
      case None
      then show ?thesis using prim Inr y by (auto simp: parse_binop.simps good_def)
    next
      case (Some l)
      then have less: "input_left p1 < input_left p" using prim Inr y by (auto simp: good_def)
      have "weak (32 * input_left p1 + 1 \<le> n) p1 (binop_loop n m l p1)"
        using "4.IH"(2) [OF Inr y [symmetric] Some "4.prems"] .
      then have "weak (32 * input_left p + 2 \<le> Suc n) p1 (binop_loop n m l p1)"
        by (rule weak_mono) (use less in auto)
      then show ?thesis using weak_good [OF _ less] Inr y Some by (simp add: parse_binop.simps)
    qed
  qed
next
  case (6 n m l p)
  show ?case
  proof (cases "cur_prec p < m")
    case True
    then show ?thesis by (simp add: binop_loop.simps)
  next
    case False
    then have "cur p \<noteq> TK_EOF" using "6.prems" by (auto simp: cur_prec_def lone_slash_def binop_prec_def)
    then have less: "input_left (parser_advance p) < input_left p" by (rule advance_less)
    have b: "good (32 * input_left (parser_advance p) + 2 \<le> n) (parser_advance p)
        (parse_binop n (cur_prec p + 1) (parser_advance p))"
      using "6.IH"(1) [OF False] by simp
    then have "weak (32 * input_left p + 1 \<le> Suc n) p (parse_binop n (cur_prec p + 1) (parser_advance p))"
      using less by (intro weak_mono [OF weak_le [OF good_weak [OF b]]]) auto
    then have "weak (32 * input_left p + 1 \<le> Suc n) p (bind_res (parse_binop n (cur_prec p + 1) (parser_advance p))
       (\<lambda>(right, p1). case right of None \<Rightarrow> Inr (Some l, p1)
          | Some r \<Rightarrow> binop_loop n m (AST_BINOP (binop_name (cur_op p)) l r) p1))"
    proof (rule weak_bind)
      fix right p1
      assume r: "parse_binop n (cur_prec p + 1) (parser_advance p) = Inr (right, p1)"
      then have le: "input_left p1 \<le> input_left (parser_advance p)" using good_weak [OF b] by simp
      show "weak (32 * input_left p + 1 \<le> Suc n) p (case (right, p1) of (right, p1) \<Rightarrow>
          case right of None \<Rightarrow> Inr (Some l, p1)
          | Some r \<Rightarrow> binop_loop n m (AST_BINOP (binop_name (cur_op p)) l r) p1)"
      proof (cases right)
        case (Some x)
        have "weak (32 * input_left p1 + 1 \<le> n) p1 (binop_loop n m (AST_BINOP (binop_name (cur_op p)) l x) p1)"
          using "6.IH"(2) [OF False r refl Some "6.prems"] .
        then show ?thesis using Some le less by (auto intro: weak_mono [OF weak_le])
      qed (use le less in simp)
    qed
    then show ?thesis using False by (simp add: binop_loop.simps)
  qed
next
  case (8 n p args)
  show ?case
  proof (cases "cur p = TK_RPAREN \<or> cur p = TK_EOF \<or> p_had_error p")
    case True
    then show ?thesis by (simp add: parse_args.simps)
  next
    case False
    have b: "good (32 * input_left p + 2 \<le> n) p (parse_binop n 1 p)" using "8.IH"(1) [OF False] by simp
    have "weak (32 * input_left p + 3 \<le> Suc n) p (bind_res (parse_binop n 1 p) (\<lambda>(arg, p1).
        case arg of None \<Rightarrow> Inr (args, p1)
        | Some a \<Rightarrow> parse_args n (skip_comma p1) (if length args < MAX_PARAMS then args @ [Some a] else args)))"
    proof (rule weak_bind)
      show "weak (32 * input_left p + 3 \<le> Suc n) p (parse_binop n 1 p)"
        by (rule weak_mono [OF good_weak [OF b]]) auto
      fix arg p1 assume r: "parse_binop n 1 p = Inr (arg, p1)" and le: "input_left p1 \<le> input_left p"
      show "weak (32 * input_left p + 3 \<le> Suc n) p (case (arg, p1) of (arg, p1) \<Rightarrow>
          case arg of None \<Rightarrow> Inr (args, p1)
          | Some a \<Rightarrow> parse_args n (skip_comma p1) (if length args < MAX_PARAMS then args @ [Some a] else args))"
      proof (cases arg)
        case (Some a)
        let ?args = "if length args < MAX_PARAMS then args @ [Some a] else args"
        have "input_left (skip_comma p1) < input_left p"
          using b r Some skip_comma_left [of p1] by (auto simp: good_def)
        then show ?thesis
          using "8.IH"(2) [OF False r refl Some] Some by (auto intro: weak_mono [OF weak_le])
      qed (use le in simp)
    qed
    then show ?thesis using False by (simp add: parse_args.simps)
  qed
next
  case (10 n p args)
  let ?e = "32 * input_left p + (16 - length args) + 3 \<le> Suc n"
  show ?case
  proof (cases "cur p = TK_RPAREN \<or> cur p = TK_EOF")
    case True
    then show ?thesis by (simp add: kw_args.simps)
  next
    case False
    show ?thesis
    proof (cases "length args < MAX_PARAMS")
      case True
      have b: "good (32 * input_left p + 2 \<le> n) p (parse_binop n 1 p)" using "10.IH"(1) [OF False True] by simp
      have "weak ?e p (bind_res (parse_binop n 1 p) (\<lambda>(arg, p1). kw_args n (skip_comma p1) (args @ [arg])))"
      proof (rule weak_bind)
        show "weak ?e p (parse_binop n 1 p)"
          by (rule weak_mono [OF good_weak [OF b]]) (use True in auto)
        fix arg p1 assume r: "parse_binop n 1 p = Inr (arg, p1)" and "input_left p1 \<le> input_left p"
        then have le: "input_left (skip_comma p1) \<le> input_left p" using skip_comma_left [of p1] by simp
        have "weak (32 * input_left (skip_comma p1) + (16 - length (args @ [arg])) + 3 \<le> n) (skip_comma p1)
            (kw_args n (skip_comma p1) (args @ [arg]))"
          using "10.IH"(2) [OF False True r refl] True by simp
        then show "weak ?e p (case (arg, p1) of (arg, p1) \<Rightarrow> kw_args n (skip_comma p1) (args @ [arg]))"
          unfolding prod.case by (rule weak_mono [OF weak_le [OF _ le]]) (use le True in auto)
      qed
      then show ?thesis using False True by (simp add: kw_args.simps)
    next
      case few: False
      show ?thesis
      proof (cases "cur p = TK_COMMA")
        case True
        then have less: "input_left (parser_advance p) < input_left p" by (simp add: advance_less)
        have "weak (32 * input_left (parser_advance p) + (16 - length args) + 3 \<le> n) (parser_advance p)
            (kw_args n (parser_advance p) args)"
          using "10.IH"(3) [OF False few True "10.prems"] .
        then have "weak ?e p (kw_args n (parser_advance p) args)"
          by (rule weak_mono [OF weak_le]) (use less in auto)
        then show ?thesis using False few True by (simp add: kw_args.simps)
      qed (use False few in \<open>simp add: kw_args.simps weak_def\<close>)
    qed
  qed
qed (simp_all add: good_def weak_def)


lemma expr_weak: "e \<longrightarrow> 32 * input_left p + 2 \<le> n \<Longrightarrow> weak e p (parse_binop n 1 p)"
  by (rule weak_mono [OF good_weak [OF expr_good(2) [OF order_refl]]])

lemma kwargs_weak: "e \<longrightarrow> 32 * input_left p + 19 \<le> n \<Longrightarrow> weak e p (kw_args n p [])"
  by (rule weak_mono [OF expr_good(5)]) auto

lemma args_weak: "e \<longrightarrow> 32 * input_left p + 3 \<le> n \<Longrightarrow> weak e p (parse_args n p [])"
  by (rule weak_mono [OF expr_good(4)])

lemma if_weak: "(c \<Longrightarrow> weak e p x) \<Longrightarrow> (\<not> c \<Longrightarrow> weak e p y) \<Longrightarrow> weak e p (if c then x else y)"
  by simp

lemma advance_le: "cur p \<noteq> TK_EOF \<Longrightarrow> input_left p \<le> k \<Longrightarrow> input_left (parser_advance p) \<le> k"
  using advance_less [of p] by simp

text \<open>An expression after which nothing more is read, and the statements made of such pieces.\<close>

lemma last_expr_weak:
  assumes "input_left q \<le> input_left p" and "e \<longrightarrow> 32 * input_left p + 19 \<le> n"
    and "\<And>x p1. input_left p1 \<le> input_left p \<Longrightarrow> weak e p (f (x, p1))"
  shows "weak e p (bind_res (parse_binop n (Suc 0) q) f)"
proof (rule weak_bind)
  have "e \<longrightarrow> 32 * input_left q + 2 \<le> n" using assms(1,2) by auto
  from expr_weak [OF this] show "weak e p (parse_binop n (Suc 0) q)" by (simp add: weak_le [OF _ assms(1)])
qed (rule assms(3))

lemma call_weak:
  assumes "input_left q \<le> input_left p" and "e \<longrightarrow> 32 * input_left p + 19 \<le> n"
  shows "weak e p (bind_res (kw_args n q []) (\<lambda>(args, p1). close_call name args p1))"
    and "weak e p (bind_res (parse_args n q []) (\<lambda>(args, p1). close_call name args p1))"
proof -
  have q: "e \<longrightarrow> 32 * input_left q + 19 \<le> n" "e \<longrightarrow> 32 * input_left q + 3 \<le> n" using assms by auto
  show "weak e p (bind_res (kw_args n q []) (\<lambda>(args, p1). close_call name args p1))"
    by (rule weak_le [OF weak_call [OF kwargs_weak [OF q(1)]] assms(1)])
  show "weak e p (bind_res (parse_args n q []) (\<lambda>(args, p1). close_call name args p1))"
    by (rule weak_le [OF weak_call [OF args_weak [OF q(2)]] assms(1)])
qed

lemma expect_cases:
  assumes "k \<noteq> TK_EOF"
  obtains p1 where "parser_expect p k = (True, p1)" "input_left p1 < input_left p"
  | p1 where "parser_expect p k = (False, p1)" "input_left p1 \<le> input_left p"
  using assms expect_left [of p k] by (cases "parser_expect p k"; cases "fst (parser_expect p k)") auto

lemma kw_stmt_weak:
  assumes fuel: "e \<longrightarrow> 32 * input_left a + 19 \<le> n"
  shows "weak e a (kw_stmt n name mk a)"
  unfolding kw_stmt_def by (intro if_weak call_weak(1) fuel weak_path_node advance_le) auto

lemma stmt_ls_weak:
  assumes fuel: "e \<longrightarrow> 32 * input_left a + 19 \<le> n"
  shows "weak e a (stmt_ls n a)"
  unfolding stmt_ls_def by (intro if_weak call_weak(2) fuel advance_le) (auto intro!: advance_le)

lemma stmt_cd_weak:
  assumes fuel: "e \<longrightarrow> 32 * input_left a + 19 \<le> n"
  shows "weak e a (stmt_cd n a)"
  unfolding stmt_cd_def by (auto intro!: last_expr_weak fuel advance_le)

lemma stmt_ptr_weak:
  shows "weak e a (stmt_ptr a)"
proof (rule expect_cases [of TK_REGPATH a])
  fix p1 assume 1: "parser_expect a TK_REGPATH = (True, p1)" "input_left p1 < input_left a"
  show ?thesis
    by (rule expect_cases [of TK_EQ p1])
      (use 1 in \<open>auto simp: stmt_ptr_def Let_def intro: weak_le [OF weak_path_node]\<close>)
qed (auto simp: stmt_ptr_def Let_def)

lemma stmt_reg_weak:
  assumes fuel: "e \<longrightarrow> 32 * input_left a + 19 \<le> n"
  shows "weak e a (stmt_reg n a)"
  by (rule expect_cases [of TK_REGPATH a])
    (auto simp: stmt_reg_def Let_def intro!: last_expr_weak fuel advance_le)

lemma stmt_send_weak:
  assumes fuel: "e \<longrightarrow> 32 * input_left a + 19 \<le> n"
  shows "weak e a (stmt_send n a)"
proof (cases "cur a = TK_LPAREN")
  case True
  then show ?thesis unfolding stmt_send_def by (auto intro!: call_weak(1) fuel advance_le)
next
  case False
  show ?thesis
    by (rule expect_cases [of TK_REGPATH a])
      (use False in \<open>auto simp: stmt_send_def Let_def intro!: last_expr_weak fuel\<close>)
qed

lemma index_end_weak:
  assumes that: "input_left p3 \<le> input_left a"
  shows "weak e a (let (found, p4) = parser_expect p3 TK_RBRACKET
        in Inr (if found then Some (f idx) else None, p4))"
  by (rule expect_cases [of TK_RBRACKET p3]) (use that in auto)

lemma stmt_del_weak:
  assumes fuel: "e \<longrightarrow> 32 * input_left a + 19 \<le> n"
  shows "weak e a (stmt_del n a)"
proof (rule expect_cases [of TK_IDENT a])
  fix p1 assume 1: "parser_expect a TK_IDENT = (True, p1)" "input_left p1 < input_left a"
  show ?thesis
  proof (rule expect_cases [of TK_LBRACKET p1])
    fix p2 assume 2: "parser_expect p1 TK_LBRACKET = (True, p2)" "input_left p2 < input_left p1"
    show ?thesis
      unfolding stmt_del_def Let_def 1 2 prod.case
      using 1 2 index_end_weak [unfolded Let_def] by (auto intro!: last_expr_weak fuel)
  qed (use 1 in \<open>auto simp: stmt_del_def Let_def\<close>)
qed (auto simp: stmt_del_def Let_def)

lemma stmt_ident_weak:
  assumes fuel: "e \<longrightarrow> 32 * input_left a + 19 \<le> n"
  shows "weak e a (stmt_ident n name a)"
proof -
  have idx: "weak e a (bind_res (parse_binop n 1 (parser_advance a)) (\<lambda>(idx, p1).
          let (found, p2) = parser_expect p1 TK_RBRACKET in
          if \<not> found then Inr (None, p2)
          else if cur p2 = TK_EQ then
            bind_res (parse_binop n 1 (parser_advance p2)) (\<lambda>(e, p3).
              Inr (Some (AST_INDEX_ASSIGN name idx e), p3))
          else Inr (Some (AST_INDEX name idx), p2)))" if c: "cur a = TK_LBRACKET"
    unfolding One_nat_def
  proof (intro last_expr_weak fuel)
    show "input_left (parser_advance a) \<le> input_left a" using c by (intro advance_le) auto
    fix idx :: "ast option" and p1 assume le: "input_left p1 \<le> input_left a"
    show "weak e a (case (idx, p1) of (idx, p1) \<Rightarrow>
          let (found, p2) = parser_expect p1 TK_RBRACKET in
          if \<not> found then Inr (None, p2)
          else if cur p2 = TK_EQ then
            bind_res (parse_binop n (Suc 0) (parser_advance p2)) (\<lambda>(e, p3).
              Inr (Some (AST_INDEX_ASSIGN name idx e), p3))
          else Inr (Some (AST_INDEX name idx), p2))"
      by (rule expect_cases [of TK_RBRACKET p1])
        (use le in \<open>auto simp: Let_def intro!: last_expr_weak fuel advance_le\<close>)
  qed
  show ?thesis
    unfolding stmt_ident_def
    using idx by (intro if_weak call_weak(2) fuel advance_le) (auto intro!: last_expr_weak fuel advance_le)
qed


lemma fn_head_left: "fn_head a = (r, p1) \<Longrightarrow> input_left p1 \<le> input_left a"
proof -
  assume h: "fn_head a = (r, p1)"
  let ?b = "parser_advance a"
  show ?thesis
  proof (cases "cur a = TK_IDENT \<or> cur a = TK_KW_LS")
    case True
    then have b: "input_left (?b\<lparr>p_decls := d\<rparr>) < input_left a" for d using advance_less [of a] by auto
    obtain found q where q: "parser_expect (?b\<lparr>p_decls := Suc (p_decls ?b)\<rparr>) TK_LPAREN = (found, q)"
      by (cases "parser_expect (?b\<lparr>p_decls := Suc (p_decls ?b)\<rparr>) TK_LPAREN")
    then have q1: "input_left q \<le> input_left a" using expect_left [OF q] b [of "Suc (p_decls ?b)"] by simp
    obtain ps q2 where q2: "parse_params q [] = (ps, q2)" by (cases "parse_params q []")
    obtain found' q3 where q3: "parser_expect q2 TK_RPAREN = (found', q3)" by (cases "parser_expect q2 TK_RPAREN")
    have "input_left q3 \<le> input_left a" using params_left [OF q2] expect_left [OF q3] q1 by simp
    then show ?thesis using h True q q1 q2 q3 by (auto simp: fn_head_def Let_def split: if_splits)
  qed (use h in \<open>auto simp: fn_head_def Let_def split: if_splits\<close>)
qed

lemma expr_then_weak:
  assumes "input_left q < k" and "e \<longrightarrow> 32 * k \<le> n + 13"
    and "\<And>x p1. input_left p1 < k \<Longrightarrow> good e p (f (x, p1))"
  shows "good e p (bind_res (parse_binop n (Suc 0) q) f)"
proof (cases "parse_binop n (Suc 0) q")
  case (Inl x)
  have "e \<longrightarrow> 32 * input_left q + 2 \<le> n" using assms(1,2) by auto
  then show ?thesis using expr_weak [of e q n] Inl by (simp add: weak_def good_def)
next
  case (Inr y)
  obtain x p1 where "y = (x, p1)" by (cases y)
  then show ?thesis using expr_weak [of False q n] Inr assms(1,3) by (simp add: weak_def)
qed

lemma block_then_weak:
  assumes "weak e q m" and "input_left q < k" and "\<And>x p1. input_left p1 < k \<Longrightarrow> good e p (f (x, p1))"
  shows "good e p (bind_res m f)"
  using assms by (cases m) (auto simp: weak_def good_def)

lemma good_Inr: "input_left p1 < input_left p \<Longrightarrow> good e p (Inr (x, p1))"
  by (simp add: good_def)

lemma good_le: "good e q r \<Longrightarrow> input_left q \<le> input_left p \<Longrightarrow> good e p r"
  by (auto simp: good_def split: sum.splits)

lemma stmt_step_good:
  assumes stmt: "\<And>q. input_left q < input_left p0 \<Longrightarrow> weak e q (stmt q)"
    and block: "\<And>q. input_left q < input_left p0 \<Longrightarrow> weak e q (block q)"
    and fuel: "e \<longrightarrow> 32 * input_left p0 + 3 \<le> n"
  shows "good e p0 (stmt_step n stmt block p0)"
proof -
  let ?p = "parser_skip_newlines p0"
  let ?a = "parser_advance ?p"
  have p: "input_left ?p \<le> input_left p0" by (rule skip_newlines_left)
  have default: "good e p0 (parse_binop n (Suc 0) ?p)"
    using good_le [OF expr_good(2) [of 1 ?p n] p] fuel p by (auto simp: good_def split: sum.splits)
  show ?thesis
  proof (cases "cur ?p = TK_EOF")
    case True
    then show ?thesis using default by (simp add: stmt_step_def Let_def)
  next
    case False
    then have a: "input_left ?a < input_left p0" using advance_less [of ?p] p by simp
    then have fa: "e \<longrightarrow> 32 * input_left ?a + 19 \<le> n" using fuel by auto
    have fk: "e \<longrightarrow> 32 * input_left p0 \<le> n + 13" using fuel by auto
    note weak = weak_good [OF _ a]
    note last = weak [OF last_expr_weak [OF order_refl fa]]
    note stmts = weak [OF stmt_del_weak [OF fa]] weak [OF stmt_ls_weak [OF fa]] weak [OF stmt_cd_weak [OF fa]]
      weak [OF stmt_reg_weak [OF fa]] weak [OF stmt_send_weak [OF fa]] weak [OF stmt_ptr_weak]
      weak [OF stmt_ident_weak [OF fa]] weak [OF kw_stmt_weak [OF fa]] weak [OF weak_path_node]
    have fn: "good e p0 (case fn_head ?a of (None, p1) \<Rightarrow> Inr (None, p1)
           | (Some (d, name, params), p1) \<Rightarrow>
               bind_res (block p1) (\<lambda>(body, p2). Inr (Some (AST_FN_DECL d name params body), p2)))"
    proof (cases "fn_head ?a")
      case (Pair r p1)
      then have p1: "input_left p1 < input_left p0" using fn_head_left [OF Pair] a by simp
      then show ?thesis using Pair
        by (auto split: option.split intro!: good_Inr block_then_weak [OF block [OF p1] p1])
    qed
    have loop: "good e p0 (bind_res (block ?a) (\<lambda>(b, p1). Inr (Some (AST_LOOP b), p1)))"
      by (rule block_then_weak [OF block [OF a] a]) (simp add: good_Inr)
    have els: "good e p0 (let p3 = parser_skip_newlines p2 in
            if cur p3 = TK_KW_ELSE then
              let p4 = parser_advance p3 in
              bind_res (if cur p4 = TK_KW_IF then stmt p4 else block p4) (\<lambda>(e, p5).
                Inr (Some (AST_IF c b e), p5))
            else Inr (Some (AST_IF c b None), p3))" if p2: "input_left p2 < input_left p0" for c b p2
    proof -
      let ?p3 = "parser_skip_newlines p2"
      let ?p4 = "parser_advance ?p3"
      have p3: "input_left ?p3 < input_left p0" using skip_newlines_left [of p2] p2 by simp
      show ?thesis
      proof (cases "cur ?p3 = TK_KW_ELSE")
        case True
        then have p4: "input_left ?p4 < input_left p0" using advance_less [of ?p3] p3 by simp
        have "good e p0 (bind_res (stmt ?p4) (\<lambda>(e, p5). Inr (Some (AST_IF c b e), p5)))"
          "good e p0 (bind_res (block ?p4) (\<lambda>(e, p5). Inr (Some (AST_IF c b e), p5)))"
          by (rule block_then_weak [OF stmt [OF p4] p4], simp add: good_Inr)
            (rule block_then_weak [OF block [OF p4] p4], simp add: good_Inr)
        then show ?thesis using True by (simp add: Let_def)
      qed (use p3 in \<open>simp add: Let_def good_Inr\<close>)
    qed
    have iff: "good e p0 (bind_res (parse_binop n 1 ?a) (\<lambda>(c, p1).
          bind_res (block p1) (\<lambda>(b, p2).
            let p3 = parser_skip_newlines p2 in
            if cur p3 = TK_KW_ELSE then
              let p4 = parser_advance p3 in
              bind_res (if cur p4 = TK_KW_IF then stmt p4 else block p4) (\<lambda>(e, p5).
                Inr (Some (AST_IF c b e), p5))
            else Inr (Some (AST_IF c b None), p3))))"
      unfolding One_nat_def
      by (rule expr_then_weak [OF a fk]) (auto intro!: block_then_weak [OF block] els)
    have ret: "good e p0 (bind_res (parse_binop n 1 ?a) (\<lambda>(x, p1). Inr (Some (f x), p1)))" for f
      unfolding One_nat_def by (rule expr_then_weak [OF a fk]) (simp add: good_Inr)
    note rules = stmts fn loop iff ret good_Inr [OF a] default [folded One_nat_def]
    show ?thesis
      unfolding stmt_step_def Let_def
      by (intro if_good) (rule rules [unfolded Let_def])+
  qed
qed

lemma loop_stops: "p_had_error p \<Longrightarrow> 0 < n \<Longrightarrow> block_loop n p ss = Inr (ss, p)"
    "p_had_error p \<Longrightarrow> 0 < n \<Longrightarrow> program_loop n p ss = Inr (ss, p)"
  by (cases n; simp add: block_loop.simps)+

lemma stmt_good:
  "weak (32 * input_left p + 1 \<le> n) p (parse_block n p)"
  "weak (32 * input_left p + 5 \<le> n) p (block_loop n p ss)"
  "good (32 * input_left p + 4 \<le> n) p (parse_stmt n p)"
proof (induction n p and n p ss and n p rule: parse_block_block_loop_parse_stmt.induct)
  case (2 n p)
  let ?e = "32 * input_left p + 1 \<le> Suc n"
  show ?case
  proof (rule expect_cases [of TK_LBRACE p])
    fix p1 assume 1: "parser_expect p TK_LBRACE = (True, p1)" "input_left p1 < input_left p"
    then have le: "input_left (parser_skip_newlines p1) < input_left p" using skip_newlines_left [of p1] by simp
    have "weak (32 * input_left (parser_skip_newlines p1) + 5 \<le> n) (parser_skip_newlines p1)
        (block_loop n (parser_skip_newlines p1) [])"
      using "2.IH" [OF refl 1(1) [symmetric]] by simp
    then have "weak ?e p (block_loop n (parser_skip_newlines p1) [])"
      by (rule weak_mono [OF weak_le]) (use le in auto)
    then have "weak ?e p (bind_res (block_loop n (parser_skip_newlines p1) []) (\<lambda>(ss, p2).
        Inr (Some (AST_BLOCK ss), snd (parser_expect p2 TK_RBRACE))))"
      by (rule weak_bind) (auto intro: order_trans [OF expect_snd_left])
    then show ?thesis using 1 by (simp add: parse_block.simps)
  qed (auto simp: parse_block.simps)
next
  case (4 n p ss)
  let ?e = "32 * input_left p + 5 \<le> Suc n"
  show ?case
  proof (cases "cur p = TK_RBRACE \<or> cur p = TK_EOF \<or> p_had_error p")
    case False
    have s: "good (32 * input_left p + 4 \<le> n) p (parse_stmt n p)" using "4.IH"(1) [OF False] .
    have "weak ?e p (bind_res (parse_stmt n p) (\<lambda>(s, p1).
        block_loop n (parser_skip_newlines p1) (ss @ opt_list s)))"
    proof (rule weak_bind)
      show "weak ?e p (parse_stmt n p)" by (rule weak_mono [OF good_weak [OF s]]) auto
      fix s p1 assume r: "parse_stmt n p = Inr (s, p1)" and le: "input_left p1 \<le> input_left p"
      let ?q = "parser_skip_newlines p1"
      have q: "input_left ?q \<le> input_left p1" by (rule skip_newlines_left)
      have IH: "weak (32 * input_left ?q + 5 \<le> n) ?q (block_loop n ?q (ss @ opt_list s))"
        using "4.IH"(2) [OF False r refl] .
      show "weak ?e p (case (s, p1) of (s, p1) \<Rightarrow> block_loop n (parser_skip_newlines p1) (ss @ opt_list s))"
      proof (cases "input_left p1 < input_left p")
        case True
        then show ?thesis unfolding prod.case by (intro weak_mono [OF weak_le [OF IH]]) (use q in auto)
      next
        case same: False
        then have "p_had_error ?q" using \<open>good _ p (parse_stmt n p)\<close> r by (auto simp: good_def)
        then show ?thesis
          using loop_stops(1) [of ?q n] q le by (cases n) (simp_all add: weak_def)
      qed
    qed
    then show ?thesis using False by (simp add: block_loop.simps)
  qed (simp add: block_loop.simps)
next
  case (6 n p)
  have "weak (32 * input_left p + 4 \<le> Suc n) q (parse_stmt n q)"
    "weak (32 * input_left p + 4 \<le> Suc n) q (parse_block n q)" if "input_left q < input_left p" for q
    by (rule weak_mono [OF good_weak [OF "6.IH"(1)]], use that in auto)
      (rule weak_mono [OF "6.IH"(2)], use that in auto)
  then show ?case unfolding parse_stmt.simps by (intro stmt_step_good) auto
qed (simp_all add: good_def weak_def)

lemma program_loop_fuel: "32 * input_left p + 5 \<le> n \<Longrightarrow> program_loop n p ss \<noteq> Inl OutOfFuel"
proof (induction n p ss rule: program_loop.induct)
  case (2 n p ss)
  have s: "good (32 * input_left p + 4 \<le> n) p (parse_stmt n p)" by (rule stmt_good(3))
  show ?case
  proof (cases "cur p = TK_EOF \<or> p_had_error p")
    case False
    show ?thesis
    proof (cases "parse_stmt n p")
      case (Inl f)
      then show ?thesis using s False "2.prems" by (simp add: good_def)
    next
      case (Inr y)
      obtain x p1 where y: "y = (x, p1)" by (cases y)
      let ?q = "parser_skip_newlines p1"
      have q: "input_left ?q \<le> input_left p1" by (rule skip_newlines_left)
      have "program_loop n ?q (ss @ opt_list x) \<noteq> Inl OutOfFuel"
        if go: "\<not> (x \<noteq> None \<and> \<not> p_had_error p1 \<and> cur p1 \<notin> {TK_NEWLINE, TK_EOF, TK_RBRACE})"
      proof (cases "input_left p1 < input_left p")
        case True
        then show ?thesis using "2.IH" [OF False Inr y [symmetric] go] "2.prems" q by simp
      next
        case same: False
        then have "p_had_error ?q" using s Inr y by (auto simp: good_def)
        then show ?thesis using loop_stops(2) [of ?q n] "2.prems" by simp
      qed
      then show ?thesis using Inr y False by simp
    qed
  qed simp
qed simp

lemma parse_program_fuel: "parse_program p \<noteq> Inl OutOfFuel"
proof -
  have "program_loop (parse_fuel p) (parser_skip_newlines p) [] \<noteq> Inl OutOfFuel"
    using skip_newlines_left [of p] by (intro program_loop_fuel) (simp add: parse_fuel_def)
  then show ?thesis by (auto simp: parse_program_def bind_res_def split: sum.splits)
qed

subsection \<open>How parsing ends\<close>

text \<open>
  The tokens of the lexer, the keywords that are called with an argument list, and the parsers that meet none of them.
  The one endless loop needs such a keyword; a program that is not cut short is read to its end.
\<close>

definition nth_token :: "lexer \<Rightarrow> nat \<Rightarrow> token" where
  "nth_token lx k = fst (lexer_next (((\<lambda>l. snd (lexer_next l)) ^^ k) lx))"

definition call_keywords :: "token_kind set" where
  "call_keywords = {TK_KW_LS, TK_KW_SEND, TK_KW_RECV, TK_KW_PENDING}"

definition calm_lex :: "lexer \<Rightarrow> bool" where
  "calm_lex lx \<longleftrightarrow> (\<forall>k. tk_kind (nth_token lx k) \<notin> call_keywords)"

definition calm :: "parser \<Rightarrow> bool" where
  "calm p \<longleftrightarrow> cur p \<notin> call_keywords \<and> calm_lex (p_lex p)"

lemma calm_lex_next: "calm_lex lx \<Longrightarrow> lexer_next lx = (t, lx') \<Longrightarrow> tk_kind t \<notin> call_keywords \<and> calm_lex lx'"
proof -
  assume c: "calm_lex lx" and n: "lexer_next lx = (t, lx')"
  have "nth_token lx 0 = t" and "nth_token lx (Suc k) = nth_token lx' k" for k
    using n by (simp_all add: nth_token_def funpow_Suc_right del: funpow.simps(2))
  then show ?thesis using c unfolding calm_lex_def by metis
qed

lemma calm_helpers [simp]:
  "calm_lex (p_lex p) \<Longrightarrow> calm (parser_advance p)"
  "calm (parser_error msg p) = calm p" "calm (p\<lparr>p_decls := d\<rparr>) = calm p"
  using calm_lex_next [of "p_lex p"]
  by (auto simp: calm_def parser_advance_def parser_error_def split: prod.split)

lemma calm_advance [simp]: "calm p \<Longrightarrow> calm (parser_advance p)"
  using calm_helpers(1) by (simp add: calm_def)

lemma calm_skip_newlines [simp]: "calm p \<Longrightarrow> calm (parser_skip_newlines p)"
proof (induction p rule: parser_skip_newlines.induct)
  case (1 p)
  then show ?case by (subst parser_skip_newlines.simps) simp
qed

lemma calm_skip_comma [simp]: "calm p \<Longrightarrow> calm (skip_comma p)"
  by (simp add: skip_comma_def)

lemma calm_expect: "parser_expect p k = (found, p') \<Longrightarrow> calm p \<Longrightarrow> calm p'"
  by (auto simp: parser_expect_def split: if_splits)

lemma calm_expect_snd [simp]: "calm p \<Longrightarrow> calm (snd (parser_expect p k))"
  by (simp add: parser_expect_def)

lemma calm_params: "parse_params p params = (ps, p') \<Longrightarrow> calm p \<Longrightarrow> calm p'"
proof (induction p params arbitrary: ps p' rule: parse_params.induct)
  case (1 p params)
  then show ?case by (subst (asm) (2) parse_params.simps) (auto split: if_splits)
qed

lemma calm_fn_head: "fn_head a = (r, p1) \<Longrightarrow> calm a \<Longrightarrow> calm p1"
  by (auto simp: fn_head_def Let_def split: if_splits prod.splits dest!: calm_expect calm_params)

text \<open>\<open>tame c r\<close>: the only faults are a count used up and, unless \<open>c\<close>, the endless loop.\<close>

definition fine :: "bool \<Rightarrow> parser \<Rightarrow> bool" where
  "fine c p \<longleftrightarrow> (c \<longrightarrow> calm p)"

lemma fine_simps [simp]:
  "fine False p" "fine True p = calm p"
  "fine c p \<Longrightarrow> fine c (parser_advance p)" "fine c (parser_error msg p) = fine c p" "fine c (p\<lparr>p_decls := d\<rparr>) = fine c p"
  "fine c p \<Longrightarrow> fine c (parser_skip_newlines p)" "fine c p \<Longrightarrow> fine c (skip_comma p)"
  "fine c p \<Longrightarrow> fine c (snd (parser_expect p k))"
  by (auto simp: fine_def)

lemma fine_expect: "parser_expect p k = (found, p') \<Longrightarrow> fine c p \<Longrightarrow> fine c p'"
  using calm_expect by (auto simp: fine_def)

lemma fine_fn_head: "fn_head a = (r, p1) \<Longrightarrow> fine c a \<Longrightarrow> fine c p1"
  using calm_fn_head by (auto simp: fine_def)

definition tame :: "bool \<Rightarrow> ('a \<times> parser) res \<Rightarrow> bool" where
  "tame c r = (case r of Inl f \<Rightarrow> f = OutOfFuel \<or> f = Hang \<and> \<not> c | Inr (x, p) \<Rightarrow> fine c p)"

lemma tame_simps [simp]:
  "tame c (Inl OutOfFuel)" "tame c (Inr (x, p)) \<longleftrightarrow> fine c p" "tame c (Inl Hang) \<longleftrightarrow> \<not> c"
  by (simp_all add: tame_def)

lemma tame_bind:
  assumes "tame c m" and "\<And>x p1. m = Inr (x, p1) \<Longrightarrow> fine c p1 \<Longrightarrow> tame c (f (x, p1))"
  shows "tame c (bind_res m f)"
  using assms by (cases m) (auto simp: tame_def)

lemma tame_if: "(b \<Longrightarrow> tame c x) \<Longrightarrow> (\<not> b \<Longrightarrow> tame c y) \<Longrightarrow> tame c (if b then x else y)"
  by simp

lemma tame_close: "fine c p \<Longrightarrow> tame c (close_call name args p)"
  by (auto simp: close_call_def Let_def split: prod.split dest: fine_expect)

lemma tame_path_node: "fine c p \<Longrightarrow> tame c (path_node mk p)"
  by (auto simp: path_node_def Let_def split: prod.split dest: fine_expect)

lemma tame_call: "tame c m \<Longrightarrow> tame c (bind_res m (\<lambda>(args, p1). close_call name args p1))"
  by (rule tame_bind) (auto intro: tame_close)

lemma not_call_keyword: "calm p \<Longrightarrow> cur p \<notin> {TK_KW_LS, TK_KW_SEND, TK_KW_RECV, TK_KW_PENDING}"
  by (simp add: calm_def call_keywords_def)

lemma primary_tame:
  assumes p: "fine c p"
    and rec: "\<And>q. fine c q \<Longrightarrow> tame c (primary q)" "\<And>q. fine c q \<Longrightarrow> tame c (expr q)"
      "\<And>q. fine c q \<Longrightarrow> tame c (args_of q)" "\<And>q. \<not> c \<Longrightarrow> tame c (kwargs q)"
  shows "tame c (primary_step primary expr args_of kwargs p)"
proof -
  let ?a = "parser_advance p"
  have a: "fine c ?a" "fine c (parser_advance ?a)" using p by auto
  have kw: "tame c (bind_res (kwargs q) (\<lambda>(args, p1). close_call name args p1))"
    if "cur p \<in> {TK_KW_LS, TK_KW_SEND, TK_KW_RECV, TK_KW_PENDING}" for name q
    using that p not_call_keyword [of p] by (intro tame_call rec(4)) (auto simp: fine_def)
  note call = tame_call [OF rec(3) [OF a(2)]]
  have idx: "tame c (bind_res (expr (parser_advance ?a)) (\<lambda>(idx, p1).
      if idx = None then Inr (None, p1)
      else let (found, p2) = parser_expect p1 TK_RBRACKET
           in Inr (if found then Some (AST_INDEX name idx) else None, p2)))" for name
    by (rule tame_bind [OF rec(2) [OF a(2)]]) (auto simp: Let_def split: prod.split dest: fine_expect)
  have paren: "tame c (bind_res (expr ?a) (\<lambda>(e, p1). Inr (e, snd (parser_expect p1 TK_RPAREN))))"
    by (rule tame_bind [OF rec(2) [OF a(1)]]) auto
  have unop: "tame c (bind_res (primary ?a) (\<lambda>(e, p1). Inr (Some (AST_UNOP e), p1)))"
    by (rule tame_bind [OF rec(1) [OF a(1)]]) auto
  have err: "tame c (Inr (None :: ast option, parser_error msg p))" for msg using p by simp
  have now: "tame c (Inr (x :: ast option, ?a))" and now2: "tame c (Inr (x :: ast option, parser_advance ?a))" for x
    using a by simp_all
  note rules = now now2 err tame_path_node [OF a(1)] call idx paren unop kw
  show ?thesis
    unfolding primary_step_def Let_def
    by (intro tame_if) (rule rules [unfolded Let_def] | simp add: a p | assumption)+
qed

lemma expr_tame:
  "fine c p \<Longrightarrow> tame c (parse_primary n p)"
  "fine c p \<Longrightarrow> tame c (parse_binop n m p)"
  "fine c p \<Longrightarrow> tame c (binop_loop n m l p)"
  "fine c p \<Longrightarrow> tame c (parse_args n p args)"
  "\<not> c \<Longrightarrow> tame c (kw_args n p args)"
proof (induction n p and n m p and n m l p and n p args and n p args
    rule: parse_primary_parse_binop_binop_loop_parse_args_kw_args.induct)
  case (2 n p)
  show ?case unfolding parse_primary.simps by (rule primary_tame) (use 2 in auto)
next
  case (4 n m p)
  show ?case unfolding parse_binop.simps
    by (rule tame_bind [OF "4.IH"(1) [OF "4.prems"]]) (auto split: option.split intro: "4.IH"(2))
next
  case (6 n m l p)
  have b: "tame c (parse_binop n (cur_prec p + 1) (parser_advance p))" if "\<not> cur_prec p < m"
    using "6.IH"(1) [OF that] "6.prems" by auto
  show ?case unfolding binop_loop.simps
    by (intro tame_if tame_bind [OF b]) (auto simp: "6.prems" split: option.split intro: "6.IH"(2))
next
  case (8 n p args)
  show ?case
  proof (cases "cur p = TK_RPAREN \<or> cur p = TK_EOF \<or> p_had_error p")
    case True
    then show ?thesis using "8.prems" by (simp add: parse_args.simps)
  next
    case False
    have "tame c (bind_res (parse_binop n 1 p) (\<lambda>(arg, p1). case arg of None \<Rightarrow> Inr (args, p1)
        | Some a \<Rightarrow> parse_args n (skip_comma p1) (if length args < MAX_PARAMS then args @ [Some a] else args)))"
    proof (rule tame_bind [OF "8.IH"(1) [OF False "8.prems"]])
      fix arg p1
      assume r: "parse_binop n 1 p = Inr (arg, p1)" and f: "fine c p1"
      show "tame c (case (arg, p1) of (arg, p1) \<Rightarrow> case arg of None \<Rightarrow> Inr (args, p1)
        | Some a \<Rightarrow> parse_args n (skip_comma p1) (if length args < MAX_PARAMS then args @ [Some a] else args))"
        using "8.IH"(2) [OF False r refl] f by (cases arg) simp_all
    qed
    then show ?thesis using False by (simp add: parse_args.simps)
  qed
next
  case (10 n p args)
  then have c: "\<not> c" by simp
  show ?case
  proof (cases "cur p = TK_RPAREN \<or> cur p = TK_EOF")
    case False
    show ?thesis
    proof (cases "length args < MAX_PARAMS")
      case True
      have "tame c (bind_res (parse_binop n 1 p) (\<lambda>(arg, p1). kw_args n (skip_comma p1) (args @ [arg])))"
      proof (rule tame_bind)
        show "tame c (parse_binop n 1 p)" using "10.IH"(1) [OF False True] c by simp
        fix arg p1
        assume "parse_binop n 1 p = Inr (arg, p1)"
        then show "tame c (case (arg, p1) of (arg, p1) \<Rightarrow> kw_args n (skip_comma p1) (args @ [arg]))"
          using "10.IH"(2) [OF False True _ refl c] by simp
      qed
      then show ?thesis using False True by (simp add: kw_args.simps)
    next
      case full: False
      then show ?thesis using "10.IH"(3) [OF False full _ c] False c by (simp add: kw_args.simps)
    qed
  qed (simp add: kw_args.simps c)
qed simp_all

lemma stmts_tame:
  assumes "fine c a"
  shows "tame c (stmt_del n a)" "tame c (stmt_ls n a)" "tame c (stmt_cd n a)" "tame c (stmt_reg n a)"
    "tame c (stmt_ptr a)" "tame c (stmt_ident n name a)"
    "\<not> c \<Longrightarrow> tame c (stmt_send n a)" "\<not> c \<Longrightarrow> tame c (kw_stmt n name mk a)"
proof -
  note d = Let_def
  show "tame c (stmt_del n a)"
    using assms by (auto simp: stmt_del_def d split: prod.split dest!: fine_expect intro!: tame_bind [OF expr_tame(2)])
  show "tame c (stmt_ls n a)"
    using assms by (auto simp: stmt_ls_def intro!: tame_call expr_tame(4))
  show "tame c (stmt_cd n a)"
    using assms by (auto simp: stmt_cd_def intro!: tame_bind [OF expr_tame(2)])
  show "tame c (stmt_reg n a)"
    using assms by (auto simp: stmt_reg_def d split: prod.split dest!: fine_expect intro!: tame_bind [OF expr_tame(2)])
  show "tame c (stmt_ptr a)"
    using assms by (auto simp: stmt_ptr_def d split: prod.split dest!: fine_expect intro!: tame_path_node)
  show "tame c (stmt_ident n name a)"
    using assms by (auto simp: stmt_ident_def d split: prod.split dest!: fine_expect
        intro!: tame_bind [OF expr_tame(2)] tame_call expr_tame(4))
  show "\<not> c \<Longrightarrow> tame c (stmt_send n a)"
    by (auto simp: stmt_send_def d split: prod.split intro!: tame_call expr_tame(5) tame_bind [OF expr_tame(2)])
  show "\<not> c \<Longrightarrow> tame c (kw_stmt n name mk a)"
    by (auto simp: kw_stmt_def intro!: tame_call expr_tame(5) tame_path_node)
qed

lemma not_call_kind: "fine c p \<Longrightarrow> cur p \<in> {TK_KW_LS, TK_KW_SEND, TK_KW_RECV, TK_KW_PENDING} \<Longrightarrow> \<not> c"
  using not_call_keyword by (auto simp: fine_def)

lemma stmt_step_tame:
  assumes p0: "fine c p0" and rec: "\<And>q. fine c q \<Longrightarrow> tame c (stmt q)" "\<And>q. fine c q \<Longrightarrow> tame c (block q)"
  shows "tame c (stmt_step n stmt block p0)"
proof -
  let ?p = "parser_skip_newlines p0"
  let ?a = "parser_advance ?p"
  have f: "fine c ?p" "fine c ?a" using p0 by simp_all
  note st = stmts_tame [OF f(2)]
  have kw: "tame c (stmt_send n ?a)" if "cur ?p = TK_KW_SEND"
    using st(7) not_call_kind [OF f(1)] that by simp
  have kw2: "tame c (kw_stmt n name mk ?a)" if "cur ?p = TK_KW_RECV \<or> cur ?p = TK_KW_PENDING" for name mk
    using st(8) not_call_kind [OF f(1)] that by auto
  have fn: "tame c (case fn_head ?a of (None, p1) \<Rightarrow> Inr (None, p1)
      | (Some (d, name, params), p1) \<Rightarrow> bind_res (block p1) (\<lambda>(body, p2). Inr (Some (AST_FN_DECL d name params body), p2)))"
    using f(2) by (auto split: prod.split option.split dest: fine_fn_head intro!: tame_bind [OF rec(2)])
  have iff: "tame c (bind_res (parse_binop n 1 ?a) (\<lambda>(cnd, p1).
      bind_res (block p1) (\<lambda>(b, p2).
        let p3 = parser_skip_newlines p2 in
        if cur p3 = TK_KW_ELSE then
          let p4 = parser_advance p3 in
          bind_res (if cur p4 = TK_KW_IF then stmt p4 else block p4) (\<lambda>(e, p5). Inr (Some (AST_IF cnd b e), p5))
        else Inr (Some (AST_IF cnd b None), p3))))"
    using f(2) by (auto simp: Let_def intro!: tame_bind [OF expr_tame(2)] tame_bind [OF rec(2)] tame_bind [OF rec(1)])
  have loop: "tame c (bind_res (block ?a) (\<lambda>(b, p1). Inr (Some (AST_LOOP b), p1)))"
    using f(2) by (auto intro!: tame_bind [OF rec(2)])
  have ex: "tame c (bind_res (parse_binop n 1 ?a) (\<lambda>(e, p1). Inr (Some (mk e), p1)))" for mk
    using f(2) by (auto intro!: tame_bind [OF expr_tame(2)])
  have now: "tame c (Inr (x :: ast option, ?a))" for x using f(2) by simp
  note rules = st(1-6) kw kw2 fn iff loop ex now tame_path_node [OF f(2)] expr_tame(2) [OF f(1)]
  show ?thesis
    unfolding stmt_step_def Let_def
    by (intro tame_if) (rule rules [unfolded Let_def] | simp | assumption)+
qed

lemma block_tame:
  "fine c p \<Longrightarrow> tame c (parse_block n p)"
  "fine c p \<Longrightarrow> tame c (block_loop n p ss)"
  "fine c p \<Longrightarrow> tame c (parse_stmt n p)"
proof (induction n p and n p ss and n p rule: parse_block_block_loop_parse_stmt.induct)
  case (2 n p)
  have "tame c (block_loop n (parser_skip_newlines p1) [])" if "parser_expect p TK_LBRACE = (True, p1)" for p1
    using "2.IH" [of "(True, p1)" True p1] that "2.prems" fine_expect by simp
  then show ?case
    using "2.prems" unfolding parse_block.simps
    by (auto simp: Let_def split: prod.split dest: fine_expect intro!: tame_bind)
next
  case (4 n p ss)
  show ?case
  proof (cases "cur p = TK_RBRACE \<or> cur p = TK_EOF \<or> p_had_error p")
    case False
    have "tame c (bind_res (parse_stmt n p) (\<lambda>(s, p1). block_loop n (parser_skip_newlines p1) (ss @ opt_list s)))"
    proof (rule tame_bind [OF "4.IH"(1) [OF False "4.prems"]])
      fix s p1
      assume "parse_stmt n p = Inr (s, p1)" "fine c p1"
      then show "tame c (case (s, p1) of (s, p1) \<Rightarrow> block_loop n (parser_skip_newlines p1) (ss @ opt_list s))"
        using "4.IH"(2) [OF False _ refl] by simp
    qed
    then show ?thesis using False by (simp add: block_loop.simps)
  qed (use "4.prems" in \<open>simp add: block_loop.simps\<close>)
next
  case (6 n p)
  show ?case unfolding parse_stmt.simps by (rule stmt_step_tame) (use 6 in auto)
qed simp_all

lemma program_loop_tame: "fine c p \<Longrightarrow> tame c (program_loop n p ss)"
proof (induction n p ss rule: program_loop.induct)
  case (2 n p ss)
  show ?case
  proof (cases "cur p = TK_EOF \<or> p_had_error p")
    case False
    show ?thesis unfolding program_loop.simps
    proof (intro tame_if tame_bind [OF block_tame(3) [OF "2.prems"]])
      fix s p1
      assume r: "parse_stmt n p = Inr (s, p1)" and f: "fine c p1"
      show "tame c (case (s, p1) of (s, p1) \<Rightarrow>
          if s \<noteq> None \<and> \<not> p_had_error p1 \<and> cur p1 \<notin> {TK_NEWLINE, TK_EOF, TK_RBRACE} then
            Inr (ss @ opt_list s,
              parser_error (at_line (p_cur p1) @ ''expected end of line after statement, found ''
                @ quoted (tk_text (p_cur p1))) p1)
          else program_loop n (parser_skip_newlines p1) (ss @ opt_list s))"
        using "2.IH" [OF False r refl] f by simp
    qed (use False in simp)
  qed (use "2.prems" in simp)
qed simp

lemma program_loop_end: "program_loop n p ss = Inr (ts, p') \<Longrightarrow> cur p' = TK_EOF \<or> p_had_error p'"
proof (induction n p ss rule: program_loop.induct)
  case (2 n p ss)
  show ?case
  proof (cases "cur p = TK_EOF \<or> p_had_error p")
    case False
    then show ?thesis using 2 by (auto simp: bind_res_Inr split: if_splits)
  qed (use "2.prems" in auto)
qed simp

lemma parse_program_ends:
  "(\<exists>ss p. parse_program (parser_init (lexer_init src) d) = Inr (AST_PROGRAM ss, p) \<and> (cur p = TK_EOF \<or> p_had_error p)) \<or>
   parse_program (parser_init (lexer_init src) d) = Inl Hang \<and> (\<exists>k. tk_kind (nth_token (lexer_init src) k) \<in> call_keywords)"
proof -
  let ?p = "parser_init (lexer_init src) d"
  let ?c = "calm_lex (lexer_init src)"
  let ?r = "program_loop (parse_fuel ?p) (parser_skip_newlines ?p) []"
  have "fine ?c (parser_skip_newlines ?p)" by (intro fine_simps) (simp add: fine_def parser_init_def)
  then have t: "tame ?c ?r" by (rule program_loop_tame)
  show ?thesis
  proof (cases ?r)
    case (Inl f)
    then have "parse_program ?p = Inl f" by (simp add: parse_program_def)
    then show ?thesis using t Inl parse_program_fuel [of ?p] by (auto simp: tame_def calm_lex_def)
  next
    case (Inr y)
    then show ?thesis using program_loop_end by (cases y) (auto simp: parse_program_def)
  qed
qed

end
