(* ===== verification/Roundtrip.thy ===== *)
theory Roundtrip
  imports Parser_Facts
begin

section \<open>Expressions printed and read back\<close>

text \<open>
  \<open>show_expr k e\<close> prints an expression with a blank after every token and with no more parentheses
  than operators of precedence below \<open>k\<close> need. The lexer and the parser give back \<open>e\<close>.
\<close>

definition op_token :: "string \<Rightarrow> token_kind" where
  "op_token op =
     (case map_of [(''+'', TK_PLUS), (''-'', TK_MINUS), (''*'', TK_STAR), (''/'', TK_SLASH), (''%'', TK_PERCENT),
        (''=='', TK_EQEQ), (''!='', TK_NEQ), (''<'', TK_LT), (''>'', TK_GT), (''<='', TK_LE), (''>='', TK_GE),
        (''&&'', TK_AND), (''||'', TK_OR)] op of Some k \<Rightarrow> k | None \<Rightarrow> TK_EOF)"

definition op_prec :: "string \<Rightarrow> nat" where
  "op_prec op = binop_prec (op_token op)"

fun show_expr :: "nat \<Rightarrow> ast \<Rightarrow> string" where
  "show_expr k (AST_INT_LIT v) = show_int (sint (ival v)) @ '' ''"
| "show_expr k (AST_STR_LIT v) = [DQUOTE] @ or_empty (data_str v) @ [DQUOTE] @ '' ''"
| "show_expr k (AST_BOOL_LIT v) = (if ival v = 0 then ''false'' else ''true'') @ '' ''"
| "show_expr k AST_NIL_LIT = ''nil ''"
| "show_expr k (AST_IDENT name) = name @ '' ''"
| "show_expr k (AST_UNOP (Some e)) = ''! '' @ show_expr 7 e"
| "show_expr k (AST_BINOP op l r) =
     (let j = op_prec op; s = show_expr j l @ op @ '' '' @ show_expr (j + 1) r
      in if j < k then ''( '' @ s @ '') '' else s)"
| "show_expr k _ = []"

definition plain_ident :: "string \<Rightarrow> bool" where
  "plain_ident s \<longleftrightarrow> s \<noteq> [] \<and> (isalpha (hd s) \<or> hd s = CHR ''_'') \<and> (\<forall>c \<in> set s. isalnum c \<or> c = CHR ''_'') \<and>
     length s < NAME_LEN \<and> map_of keyword_table s = None"

definition plain_text :: "string \<Rightarrow> bool" where
  "plain_text s \<longleftrightarrow> (\<forall>c \<in> set s. c \<noteq> DQUOTE \<and> c \<noteq> BSLASH \<and> c \<noteq> CHR 0x00) \<and> length s < NAME_LEN"

fun plain_expr :: "ast \<Rightarrow> bool" where
  "plain_expr (AST_INT_LIT v) = (v = val_int (ival v))"
| "plain_expr (AST_STR_LIT v) = (\<exists>s. v = val_str s \<and> plain_text s)"
| "plain_expr (AST_BOOL_LIT v) = (v = val_bool True \<or> v = val_bool False)"
| "plain_expr AST_NIL_LIT = True"
| "plain_expr (AST_IDENT name) = plain_ident name"
| "plain_expr (AST_UNOP (Some e)) = plain_expr e"
| "plain_expr (AST_BINOP op l r) = (op_token op \<noteq> TK_EOF \<and> plain_expr l \<and> plain_expr r)"
| "plain_expr _ = False"

subsection \<open>The parser at a text\<close>

definition at :: "parser \<Rightarrow> string \<Rightarrow> bool" where
  "at p s \<longleftrightarrow> (\<exists>lx. l_peeked lx = None \<and> l_rest lx = s \<and> lexer_next lx = (p_cur p, p_lex p))"

text \<open>The token at the front of a text, and the text after it.\<close>

definition lexes :: "string \<Rightarrow> token_kind \<Rightarrow> string \<Rightarrow> u64 \<Rightarrow> string \<Rightarrow> bool" where
  "lexes s k txt i s' \<longleftrightarrow>
     (\<forall>lx. l_peeked lx = None \<and> l_rest lx = s \<longrightarrow>
       (\<exists>t lx'. lexer_next lx = (t, lx') \<and> tk_kind t = k \<and> tk_text t = txt \<and> tk_ival t = i \<and>
          l_peeked lx' = None \<and> l_rest lx' = s'))"

definition same_flags :: "parser \<Rightarrow> parser \<Rightarrow> bool" where
  "same_flags p q \<longleftrightarrow> p_had_error p = p_had_error q \<and> p_error_msg p = p_error_msg q \<and> p_decls p = p_decls q"

lemma same_flags_advance [simp]: "same_flags (parser_advance p) q = same_flags p q" "same_flags p (parser_advance q) = same_flags p q"
  by (auto simp: same_flags_def parser_advance_def split: prod.split)

lemma same_flags_refl [simp]: "same_flags p p"
  by (simp add: same_flags_def)

lemma same_flags_trans: "same_flags p q \<Longrightarrow> same_flags q r \<Longrightarrow> same_flags p r"
  by (simp add: same_flags_def)

lemma at_lexes:
  assumes "at p s" and "lexes s k txt i s'"
  shows "cur p = k" "tk_text (p_cur p) = txt" "tk_ival (p_cur p) = i" "at (parser_advance p) s'"
proof -
  obtain lx where lx: "l_peeked lx = None" "l_rest lx = s" "lexer_next lx = (p_cur p, p_lex p)"
    using assms(1) by (auto simp: at_def)
  then have t: "tk_kind (p_cur p) = k" "tk_text (p_cur p) = txt" "tk_ival (p_cur p) = i"
    "l_peeked (p_lex p) = None" "l_rest (p_lex p) = s'"
    using assms(2) by (auto simp: lexes_def)
  then show "cur p = k" "tk_text (p_cur p) = txt" "tk_ival (p_cur p) = i" by simp_all
  show "at (parser_advance p) s'"
    unfolding at_def by (rule exI [of _ "p_lex p"]) (use t in \<open>simp add: parser_advance_def split: prod.split\<close>)
qed

lemma skip_ws_blank: "skip_ws (CHR '' '' # s) col = skip_ws s (col + 1)" by simp

lemma skip_ws_col: "fst (skip_ws s col) = fst (skip_ws s col')"
proof (induction s arbitrary: col col' rule: length_induct)
  case (1 s)
  show ?case
  proof (cases s)
    case (Cons c cs)
    have "length (dropWhile (\<lambda>x. x \<noteq> NL) cs) < length s" "length cs < length s"
      using Cons length_dropWhile_le [of "\<lambda>x. x \<noteq> NL" cs] by (auto simp: less_Suc_eq_le)
    then have "fst (skip_ws (dropWhile (\<lambda>x. x \<noteq> NL) cs) col) = fst (skip_ws (dropWhile (\<lambda>x. x \<noteq> NL) cs) col')"
      "fst (skip_ws cs (col + 1)) = fst (skip_ws cs (col' + 1))" using 1 by blast+
    then show ?thesis unfolding Cons skip_ws.simps(2) [of c cs col] skip_ws.simps(2) [of c cs col'] by simp
  qed simp
qed

lemma lexesI:
  assumes "fst (skip_ws s 0) = c # cs" "c \<noteq> NL" and "\<And>line. lex_token (c # cs) line = (t line, s')"
    and "\<And>line. tk_kind (t line) = k \<and> tk_text (t line) = txt \<and> tk_ival (t line) = i"
  shows "lexes s k txt i s'"
  unfolding lexes_def
proof (intro allI impI)
  fix lx :: lexer assume lx: "l_peeked lx = None \<and> l_rest lx = s"
  obtain u col where u: "skip_ws s (l_col lx) = (u, col)" by (cases "skip_ws s (l_col lx)")
  then have "u = c # cs" using skip_ws_col [of s "l_col lx" 0] assms(1) by simp
  then show "\<exists>t lx'. lexer_next lx = (t, lx') \<and> tk_kind t = k \<and> tk_text t = txt \<and> tk_ival t = i \<and>
          l_peeked lx' = None \<and> l_rest lx' = s'"
    using lx u assms(2-4) by (simp add: lexer_next_def lexer_skip_ws_def)
qed

lemma lexes_blank: "lexes s k txt i s' \<Longrightarrow> lexes (CHR '' '' # s) k txt i s'"
  unfolding lexes_def
proof (intro allI impI)
  fix lx :: lexer
  assume a: "\<forall>lx. l_peeked lx = None \<and> l_rest lx = s \<longrightarrow>
       (\<exists>t lx'. lexer_next lx = (t, lx') \<and> tk_kind t = k \<and> tk_text t = txt \<and> tk_ival t = i \<and>
          l_peeked lx' = None \<and> l_rest lx' = s')"
    and lx: "l_peeked lx = None \<and> l_rest lx = CHR '' '' # s"
  have "lexer_next lx = lexer_next (lx\<lparr>l_rest := s, l_col := l_col lx + 1\<rparr>)"
    using lx by (simp add: lexer_next_def lexer_skip_ws_def Let_def split: prod.split)
  moreover have "l_peeked (lx\<lparr>l_rest := s, l_col := l_col lx + 1\<rparr>) = None \<and> l_rest (lx\<lparr>l_rest := s, l_col := l_col lx + 1\<rparr>) = s"
    using lx by simp
  ultimately show "\<exists>t lx'. lexer_next lx = (t, lx') \<and> tk_kind t = k \<and> tk_text t = txt \<and> tk_ival t = i \<and>
          l_peeked lx' = None \<and> l_rest lx' = s'"
    using a by metis
qed

lemma at_blank: "at p (CHR '' '' # s) \<Longrightarrow> at p s"
  unfolding at_def
proof (elim exE conjE)
  fix lx :: lexer assume lx: "l_peeked lx = None" "l_rest lx = CHR '' '' # s" "lexer_next lx = (p_cur p, p_lex p)"
  have "lexer_next lx = lexer_next (lx\<lparr>l_rest := s, l_col := l_col lx + 1\<rparr>)"
    using lx by (simp add: lexer_next_def lexer_skip_ws_def Let_def split: prod.split)
  then show "\<exists>lx. l_peeked lx = None \<and> l_rest lx = s \<and> lexer_next lx = (p_cur p, p_lex p)"
    using lx by (intro exI [of _ "lx\<lparr>l_rest := s, l_col := l_col lx + 1\<rparr>"]) simp
qed

subsection \<open>The tokens\<close>

lemma isdigit_first [simp]: "isdigit c \<Longrightarrow> c \<noteq> CHR ''#'' \<and> c \<noteq> CHR '' '' \<and> c \<noteq> CHR 0x09 \<and> c \<noteq> CHR 0x0D \<and> c \<noteq> NL \<and>
   c \<noteq> DQUOTE \<and> c \<noteq> CHR ''-''"
  by (auto simp: isdigit_def)

lemma isident_first: "isalpha c \<or> c = CHR ''_'' \<Longrightarrow> c \<noteq> CHR ''#'' \<and> c \<noteq> CHR '' '' \<and> c \<noteq> CHR 0x09 \<and> c \<noteq> CHR 0x0D \<and> c \<noteq> NL \<and>
   c \<noteq> DQUOTE \<and> c \<noteq> CHR ''-'' \<and> c \<noteq> CHR ''/'' \<and> \<not> isdigit c"
  by (auto simp: isdigit_def isalpha_def)

lemma scan_blank:
  assumes "\<forall>c \<in> set s. P c" "\<not> P (CHR '' '')" "length s \<le> n"
  shows "scan n P (s @ CHR '' '' # u) = (s, CHR '' '' # u)"
proof -
  have "takeWhile P (s @ CHR '' '' # u) = s" using assms(1,2) by (simp add: takeWhile_append2)
  then show ?thesis using assms(3) by (simp add: scan_def)
qed

lemma c_str_plain: "CHR 0x00 \<notin> set s \<Longrightarrow> c_str s = s"
  by (simp add: c_str_def takeWhile_eq_all_conv) metis

lemma isalnum_nonnull: "\<not> isalnum (CHR 0x00)" "\<not> isalnum (CHR '' '')"
  by (simp_all add: isalnum_def isalpha_def isdigit_def)

lemma lexes_word:
  assumes s: "s \<noteq> []" "isalpha (hd s) \<or> hd s = CHR ''_''" "\<forall>c \<in> set s. isalnum c \<or> c = CHR ''_''" "length s < NAME_LEN"
  shows "lexes (s @ CHR '' '' # u) (case map_of keyword_table s of Some k \<Rightarrow> k | None \<Rightarrow> TK_IDENT) s 0 (CHR '' '' # u)"
proof -
  obtain c cs where c: "s = c # cs" using s(1) by (cases s) auto
  note f = isident_first [of c]
  have "CHR 0x00 \<notin> set s" using s(3) isalnum_nonnull by auto
  then have buf: "trunc NAME_LEN (c_str s) = s" using s(4) c_str_plain by simp
  have sc: "scan (MAX_STR_LEN - 1) (\<lambda>c. isalnum c \<or> c = CHR ''_'') (s @ CHR '' '' # u) = (s, CHR '' '' # u)"
    using s isalnum_nonnull by (intro scan_blank) auto
  show ?thesis
  proof (rule lexesI)
    show "fst (skip_ws (s @ CHR '' '' # u) 0) = c # cs @ CHR '' '' # u" "c \<noteq> NL" using f s c by auto
    show "lex_token (c # cs @ CHR '' '' # u) line =
      (make_tok (case map_of keyword_table s of Some k \<Rightarrow> k | None \<Rightarrow> TK_IDENT) s line, CHR '' '' # u)" for line
      using f s(2) sc c by (auto simp: lex_token_def lex_ident_def)
  qed (use buf in \<open>simp add: make_tok_def\<close>)
qed

lemma lex_string_plain:
  "\<forall>c \<in> set s. c \<noteq> DQUOTE \<and> c \<noteq> BSLASH \<Longrightarrow> i + length s < MAX_STR_LEN - 1 \<Longrightarrow>
   lex_string i (s @ DQUOTE # u) = (s, DQUOTE # u)"
  by (induction s arbitrary: i) auto

lemma lexes_text:
  assumes "plain_text s"
  shows "lexes (DQUOTE # s @ DQUOTE # CHR '' '' # u) TK_STRING s 0 (CHR '' '' # u)"
proof (rule lexesI)
  show "fst (skip_ws (DQUOTE # s @ DQUOTE # CHR '' '' # u) 0) = DQUOTE # s @ DQUOTE # CHR '' '' # u" "DQUOTE \<noteq> NL" by auto
  have "lex_string 0 (s @ DQUOTE # CHR '' '' # u) = (s, DQUOTE # CHR '' '' # u)"
    using assms by (intro lex_string_plain) (auto simp: plain_text_def)
  then show "lex_token (DQUOTE # s @ DQUOTE # CHR '' '' # u) line = (make_tok TK_STRING s line, CHR '' '' # u)" for line
    by (simp add: lex_token_def)
  have "CHR 0x00 \<notin> set s" using assms by (auto simp: plain_text_def)
  then show "tk_kind (make_tok TK_STRING s line) = TK_STRING \<and> tk_text (make_tok TK_STRING s line) = s \<and>
      tk_ival (make_tok TK_STRING s line) = 0" for line
    using assms c_str_plain by (simp add: make_tok_def plain_text_def)
qed


lemma isdigit_cases: "isdigit c \<Longrightarrow> c \<in> set ''0123456789''"
proof -
  assume d: "isdigit c"
  have "\<forall>n \<in> {48..57}. char_of (n :: nat) \<in> set ''0123456789''" by code_simp
  moreover have "(of_char c :: nat) \<in> {48..57}" using d by (simp add: isdigit_def)
  ultimately have "char_of (of_char c :: nat) \<in> set ''0123456789''" by blast
  then show ?thesis by (simp only: char_of_char)
qed

lemma atoll_digits:
  assumes "s \<noteq> []" and "\<forall>c \<in> set s. isdigit c"
  shows "atoll s = of_int (clamp64 (digits_val s))"
    "atoll (CHR ''-'' # s) = of_int (clamp64 (- digits_val s))"
proof -
  obtain c cs where c: "s = c # cs" using assms(1) by (cases s) auto
  have "isdigit c" using assms(2) c by simp
  then have "c \<in> set ''0123456789''" by (rule isdigit_cases)
  moreover have "takeWhile isdigit s = s" using assms(2) by (simp add: takeWhile_eq_all_conv)
  moreover have "\<not> isspace c" using isdigit_cases [OF \<open>isdigit c\<close>] by (auto simp: isspace_def)
  moreover have "\<not> isspace (CHR ''-'')" by (simp add: isspace_def)
  ultimately show "atoll s = of_int (clamp64 (digits_val s))"
    "atoll (CHR ''-'' # s) = of_int (clamp64 (- digits_val s))"
    using c by (auto simp: atoll_def)
qed

lemma digit_char: "n < 10 \<Longrightarrow> isdigit (char_of (48 + n)) \<and> digit_val (char_of (48 + n)) = int n"
  for n :: nat
proof -
  assume "n < 10"
  then have "(of_char (char_of (48 + n)) :: nat) = 48 + n" by simp
  then have "(of_char (char_of (48 + n)) :: int) = 48 + int n"
    by (metis of_nat_of_char of_nat_add of_nat_numeral)
  then show ?thesis using \<open>n < 10\<close> by (simp add: isdigit_def digit_val_def)
qed

lemma show_nat_digits: "show_nat n \<noteq> [] \<and> (\<forall>c \<in> set (show_nat n). isdigit c) \<and> digits_val (show_nat n) = int n"
proof (induction n rule: show_nat.induct)
  case (1 n)
  show ?case
  proof (cases "n < 10")
    case True
    then show ?thesis using digit_char [of n] by (simp add: show_nat.simps [of n] digits_val_def)
  next
    case False
    have d: "isdigit (char_of (48 + n mod 10))" "digit_val (char_of (48 + n mod 10)) = int (n mod 10)"
      using digit_char [of "n mod 10"] by simp_all
    have "digits_val (show_nat n) = 10 * int (n div 10) + int (n mod 10)"
      using 1 False d(2) by (simp add: show_nat.simps [of n] digits_val_def)
    also have "\<dots> = int n" using mult_div_mod_eq [of 10 n] by linarith
    finally show ?thesis using 1 False d(1) by (simp add: show_nat.simps [of n])
  qed
qed

lemma show_nat_length: "n < 10 ^ k \<Longrightarrow> length (show_nat n) \<le> max 1 k"
proof (induction k arbitrary: n)
  case (Suc k)
  show ?case
  proof (cases "n < 10")
    case False
    then have "n div 10 < 10 ^ k" using Suc.prems by (simp add: less_mult_imp_div_less mult.commute)
    then have "length (show_nat (n div 10)) \<le> max 1 k" by (rule Suc.IH)
    moreover have "k \<noteq> 0" using False Suc.prems by (cases k) auto
    ultimately show ?thesis using False by (simp add: show_nat.simps [of n])
  qed (simp add: show_nat.simps [of n])
qed (simp add: show_nat.simps)

lemma lex_number_digits:
  assumes "s \<noteq> []" and d: "\<forall>c \<in> set s. isdigit c" and "length s < 60"
  shows "\<exists>t. lex_number (s @ CHR '' '' # u) line = (t, CHR '' '' # u) \<and> tk_kind t = TK_INT \<and>
      tk_text t = s \<and> tk_ival t = atoll s"
    "\<exists>t. lex_number (CHR ''-'' # s @ CHR '' '' # u) line = (t, CHR '' '' # u) \<and> tk_kind t = TK_INT \<and>
      tk_text t = CHR ''-'' # s \<and> tk_ival t = atoll (CHR ''-'' # s)"
proof -
  have nd: "CHR ''.'' \<notin> set s" "CHR 0x00 \<notin> set s" using d by (auto simp: isdigit_def)
  have sc: "scan n (\<lambda>c. isdigit c \<or> c = CHR ''.'') (s @ CHR '' '' # u) = (s, CHR '' '' # u)" if "60 \<le> n" for n
    by (rule scan_blank) (use assms that in \<open>auto simp: isdigit_def\<close>)
  have hd: "hd (s @ CHR '' '' # u) \<noteq> CHR ''-''" using assms(1) d by (cases s) (auto simp: isdigit_def)
  have c: "c_str s = s" "c_str (CHR ''-'' # s) = CHR ''-'' # s" using nd(2) by (simp_all add: c_str_plain)
  show "\<exists>t. lex_number (s @ CHR '' '' # u) line = (t, CHR '' '' # u) \<and> tk_kind t = TK_INT \<and>
      tk_text t = s \<and> tk_ival t = atoll s"
    using hd sc nd(1) c(1) assms(3) by (simp add: lex_number_def make_tok_def)
  show "\<exists>t. lex_number (CHR ''-'' # s @ CHR '' '' # u) line = (t, CHR '' '' # u) \<and> tk_kind t = TK_INT \<and>
      tk_text t = CHR ''-'' # s \<and> tk_ival t = atoll (CHR ''-'' # s)"
    using sc nd(1) c(2) assms(3) by (simp add: lex_number_def make_tok_def Let_def)
qed

lemma lexes_number:
  "lexes (show_int (sint i) @ CHR '' '' # u) TK_INT (show_int (sint i)) i (CHR '' '' # u)"
proof -
  define n where "n = nat \<bar>sint i\<bar>"
  define s where "s = show_nat n"
  have s: "s \<noteq> []" "\<forall>c \<in> set s. isdigit c" "digits_val s = int n" using show_nat_digits by (auto simp: s_def)
  have "n \<le> 2 ^ 63" using sint_u64_range [of i] by (simp add: n_def)
  also have "(2 :: nat) ^ 63 < 10 ^ 20" by simp
  finally have len: "length s < 60" using show_nat_length [of n 20] by (simp add: s_def)
  obtain c cs where c: "s = c # cs" using s(1) by (cases s) auto
  have dc: "isdigit c" using s(2) c by simp
  show ?thesis
  proof (cases "sint i < 0")
    case True
    then have v: "show_int (sint i) = CHR ''-'' # s" and i: "- int n = sint i"
      by (simp_all add: show_int_def s_def n_def)
    have "atoll (CHR ''-'' # s) = i"
      using atoll_digits(2) [OF s(1,2)] s(3) i sint_u64_range [of i] by (simp add: clamp64_def)
    then have t: "\<exists>t. lex_number (CHR ''-'' # s @ CHR '' '' # u) line = (t, CHR '' '' # u) \<and> tk_kind t = TK_INT \<and>
      tk_text t = CHR ''-'' # s \<and> tk_ival t = i" for line
      using lex_number_digits(2) [OF s(1,2) len, of u line] by simp
    then obtain f where f: "\<And>line. lex_number (CHR ''-'' # s @ CHR '' '' # u) line = (f line, CHR '' '' # u) \<and>
      tk_kind (f line) = TK_INT \<and> tk_text (f line) = CHR ''-'' # s \<and> tk_ival (f line) = i" by metis
    show ?thesis unfolding v
    proof (rule lexesI [of _ "CHR ''-''" "s @ CHR '' '' # u" f])
      show "lex_token (CHR ''-'' # s @ CHR '' '' # u) line = (f line, CHR '' '' # u)" for line
        using f [of line] dc c by (simp add: lex_token_def)
    qed (use f in auto)
  next
    case False
    then have v: "show_int (sint i) = s" and i: "int n = sint i"
      by (simp_all add: show_int_def s_def n_def)
    have "atoll s = i"
      using atoll_digits(1) [OF s(1,2)] s(3) i sint_u64_range [of i] by (simp add: clamp64_def)
    then have t: "\<exists>t. lex_number (s @ CHR '' '' # u) line = (t, CHR '' '' # u) \<and> tk_kind t = TK_INT \<and>
      tk_text t = s \<and> tk_ival t = i" for line
      using lex_number_digits(1) [OF s(1,2) len, of u line] by simp
    then obtain f where f: "\<And>line. lex_number (s @ CHR '' '' # u) line = (f line, CHR '' '' # u) \<and>
      tk_kind (f line) = TK_INT \<and> tk_text (f line) = s \<and> tk_ival (f line) = i" by metis
    show ?thesis unfolding v
    proof (rule lexesI [of _ c "cs @ CHR '' '' # u" f])
      show "fst (skip_ws (s @ CHR '' '' # u) 0) = c # cs @ CHR '' '' # u" "c \<noteq> NL"
        using isdigit_first [OF dc] c by auto
      show "lex_token (c # cs @ CHR '' '' # u) line = (f line, CHR '' '' # u)" for line
        using f [of line] dc isdigit_first [OF dc] c by (simp add: lex_token_def)
    qed (use f in auto)
  qed
qed

text \<open>A lone slash is lexed as a path.\<close>

definition op_kind :: "string \<Rightarrow> token_kind" where
  "op_kind op = (if op = ''/'' then TK_REGPATH else op_token op)"

lemma op_cases:
  assumes "op_token op \<noteq> TK_EOF"
  shows "op \<in> {''+'', ''-'', ''*'', ''/'', ''%'', ''=='', ''!='', ''<'', ''>'', ''<='', ''>='', ''&&'', ''||''}"
  using assms by (auto simp: op_token_def split: if_splits)

lemma lex_token_op:
  assumes "op_token op \<noteq> TK_EOF"
  shows "lex_token (op @ CHR '' '' # u) line = (make_tok (op_kind op) op line, CHR '' '' # u)"
proof -
  have sc: "scan 8190 (\<lambda>c. isalnum c \<or> c = CHR ''_'' \<or> c = CHR ''/'') (CHR '' '' # u) = ([], CHR '' '' # u)"
    using scan_blank [of "[]"] isalnum_nonnull by simp
  from op_cases [OF assms] show ?thesis
    by (elim insertE emptyE)
      (simp_all add: lex_token_def lex_symbol_def lex_two_def lex_path_def op_kind_def op_token_def
        isalpha_def isdigit_def sc Let_def)
qed

lemma lexes_op:
  assumes "op_token op \<noteq> TK_EOF"
  shows "lexes (op @ CHR '' '' # u) (op_kind op) op 0 (CHR '' '' # u)"
proof -
  have ok: "op \<noteq> [] \<and> hd op \<notin> set [CHR ''#'', CHR '' '', CHR 0x09, CHR 0x0D, NL] \<and> CHR 0x00 \<notin> set op \<and> length op < 64"
    using op_cases [OF assms] by (elim insertE emptyE) simp_all
  then obtain a as where a: "op = a # as" by (cases op) auto
  show ?thesis
  proof (rule lexesI [of _ a "as @ CHR '' '' # u" "make_tok (op_kind op) op"])
    show "lex_token (a # as @ CHR '' '' # u) line = (make_tok (op_kind op) op line, CHR '' '' # u)" for line
      using lex_token_op [OF assms, of u line] a by simp
  qed (use ok a in \<open>simp_all add: make_tok_def c_str_plain\<close>)
qed

lemma lexes_bracket:
  "lexes (CHR ''('' # u) TK_LPAREN ''('' 0 u" "lexes (CHR '')'' # u) TK_RPAREN '')'' 0 u"
  "lexes (CHR ''!'' # CHR '' '' # u) TK_NOT ''!'' 0 (CHR '' '' # u)"
  by (rule lexesI [of _ "CHR ''(''" u "make_tok TK_LPAREN ''(''"] lexesI [of _ "CHR '')''" u "make_tok TK_RPAREN '')''"]
      lexesI [of _ "CHR ''!''" "CHR '' '' # u" "make_tok TK_NOT ''!''"];
    simp add: lex_token_def lex_symbol_def lex_two_def isalpha_def isdigit_def make_tok_def c_str_def)+


subsection \<open>Reading an expression back\<close>

fun cost :: "ast \<Rightarrow> nat" where
  "cost (AST_UNOP (Some e)) = cost e + 1"
| "cost (AST_BINOP op l r) = cost l + cost r + 8"
| "cost _ = 1"

text \<open>
  What may follow: no operator that binds stronger than \<open>k\<close>, and no bracket or parenthesis, which
  would make a name an array element or a call.
\<close>

definition follow :: "nat \<Rightarrow> string \<Rightarrow> bool" where
  "follow k rest \<longleftrightarrow> (\<forall>q. at q rest \<longrightarrow> cur_prec q \<le> k \<and> cur q \<noteq> TK_LBRACKET \<and> cur q \<noteq> TK_LPAREN)"

definition reads_primary :: "ast \<Rightarrow> bool" where
  "reads_primary e \<longleftrightarrow>
     (\<forall>p rest. at p (show_expr 7 e @ rest) \<and> follow 7 rest \<longrightarrow>
       (\<exists>q. at q rest \<and> same_flags q p \<and> (\<forall>n. cost e \<le> n \<longrightarrow> parse_primary n p = Inr (Some e, q))))"

text \<open>After the text of \<open>e\<close> the parser goes on as \<open>binop_loop\<close> does with \<open>e\<close> on its left.\<close>

definition continues :: "nat \<Rightarrow> nat \<Rightarrow> parser \<Rightarrow> ast \<Rightarrow> parser \<Rightarrow> bool" where
  "continues c m p e q \<longleftrightarrow>
     (\<forall>n0 res. (\<forall>n. n0 \<le> n \<longrightarrow> binop_loop n m e q = res) \<longrightarrow>
       (\<forall>n. n0 + c \<le> n \<longrightarrow> parse_binop n m p = res))"

definition reads :: "ast \<Rightarrow> bool" where
  "reads e \<longleftrightarrow>
     (\<forall>k m p rest. 1 \<le> m \<and> m \<le> k \<and> k \<le> 7 \<and> at p (show_expr k e @ rest) \<and> follow k rest \<longrightarrow>
       (\<exists>q. at q rest \<and> same_flags q p \<and> continues (cost e + 1) m p e q))"

lemma continues_mono: "continues c m p e q \<Longrightarrow> c \<le> c' \<Longrightarrow> continues c' m p e q"
  unfolding continues_def by (meson add_left_mono order_trans)

lemma follow_mono: "follow k rest \<Longrightarrow> k \<le> k' \<Longrightarrow> follow k' rest"
  unfolding follow_def by (meson order_trans)

lemma reads_primaryE:
  assumes "reads_primary e" "at p (show_expr 7 e @ rest)" "follow 7 rest"
  shows "\<exists>q. at q rest \<and> same_flags q p \<and> (\<forall>n. cost e \<le> n \<longrightarrow> parse_primary n p = Inr (Some e, q))"
  using assms unfolding reads_primary_def by blast

lemma readsE:
  assumes "reads e" "1 \<le> m" "m \<le> k" "k \<le> 7" "at p (show_expr k e @ rest)" "follow k rest"
  shows "\<exists>q. at q rest \<and> same_flags q p \<and> continues (cost e + 1) m p e q"
  using assms unfolding reads_def by blast

lemma primary_continues:
  assumes "\<forall>n. cost e \<le> n \<longrightarrow> parse_primary n p = Inr (Some e, q)"
  shows "continues (cost e + 1) m p e q"
  unfolding continues_def
proof (intro allI impI)
  fix n0 res n assume r: "\<forall>n. n0 \<le> n \<longrightarrow> binop_loop n m e q = res" and n: "n0 + (cost e + 1) \<le> n"
  then obtain n' where n': "n = Suc n'" by (cases n) auto
  then show "parse_binop n m p = res" using r n assms by (simp add: parse_binop.simps)
qed

lemma primary_reads:
  assumes "reads_primary e" and "\<And>k. show_expr k e = show_expr 7 e"
  shows "reads e"
  unfolding reads_def
proof (intro allI impI, elim conjE)
  fix k m p rest
  assume at: "at p (show_expr k e @ rest)" and k: "k \<le> 7" "follow k rest"
  have "at p (show_expr 7 e @ rest)" using at assms(2) [of k] by simp
  then show "\<exists>q. at q rest \<and> same_flags q p \<and> continues (cost e + 1) m p e q"
    using reads_primaryE [OF assms(1) _ follow_mono [OF k(2,1)]] primary_continues by blast
qed

text \<open>An expression that is one token.\<close>

lemma token_reads:
  assumes sh: "\<And>k. show_expr k e = s @ '' ''" and lx: "\<And>u. lexes (s @ CHR '' '' # u) tk txt i (CHR '' '' # u)"
    and cost: "cost e = 1"
    and prim: "\<And>p n. cur p = tk \<Longrightarrow> tk_text (p_cur p) = txt \<Longrightarrow> tk_ival (p_cur p) = i \<Longrightarrow>
      cur (parser_advance p) \<noteq> TK_LBRACKET \<Longrightarrow> cur (parser_advance p) \<noteq> TK_LPAREN \<Longrightarrow>
      parse_primary (Suc n) p = Inr (Some e, parser_advance p)"
  shows "reads e" "reads_primary e"
proof -
  show p: "reads_primary e"
    unfolding reads_primary_def
  proof (intro allI impI, elim conjE)
    fix p rest assume at: "at p (show_expr 7 e @ rest)" and f: "follow 7 rest"
    then have "at p (s @ CHR '' '' # rest)" using sh by simp
    note l = at_lexes [OF this lx]
    let ?q = "parser_advance p"
    have q: "at ?q rest" by (rule at_blank [OF l(4)])
    then have "cur ?q \<noteq> TK_LBRACKET \<and> cur ?q \<noteq> TK_LPAREN" using f by (simp add: follow_def)
    then have "parse_primary n p = Inr (Some e, ?q)" if "cost e \<le> n" for n
      using that cost prim [OF l(1-3)] by (cases n) auto
    then show "\<exists>q. at q rest \<and> same_flags q p \<and> (\<forall>n. cost e \<le> n \<longrightarrow> parse_primary n p = Inr (Some e, q))"
      using q by (intro exI [of _ ?q]) simp
  qed
  show "reads e" by (rule primary_reads [OF p]) (simp add: sh)
qed

lemma op_prec_range: "op_token op \<noteq> TK_EOF \<Longrightarrow> 1 \<le> op_prec op \<and> op_prec op \<le> 6"
  by (drule op_cases) (elim insertE emptyE; simp add: op_prec_def op_token_def binop_prec_def)

lemma at_op:
  assumes "op_token op \<noteq> TK_EOF" and "at p (op @ CHR '' '' # u)"
  shows "cur_prec p = op_prec op" "binop_name (cur_op p) = op" "at (parser_advance p) u"
proof -
  note l = at_lexes [OF assms(2) lexes_op [OF assms(1)]]
  show "at (parser_advance p) u" by (rule at_blank [OF l(4)])
  show "cur_prec p = op_prec op" "binop_name (cur_op p) = op"
    using op_cases [OF assms(1)] l(1,2)
    by (elim insertE emptyE;
      simp add: cur_prec_def cur_op_def lone_slash_def op_kind_def op_prec_def op_token_def binop_prec_def binop_name_def)+
qed

lemma show_expr_bin: "j = op_prec op \<Longrightarrow> k \<le> j \<Longrightarrow>
    show_expr k (AST_BINOP op l r) = show_expr j l @ op @ '' '' @ show_expr (j + 1) r"
  by (simp add: Let_def)

lemma show_expr_paren: "op_prec op < k \<Longrightarrow> 1 \<le> op_prec op \<Longrightarrow>
    show_expr k (AST_BINOP op l r) = ''( '' @ show_expr 1 (AST_BINOP op l r) @ '') ''"
  by (simp add: Let_def)

lemma stop_loop: "cur_prec q < m \<Longrightarrow> 1 \<le> n \<Longrightarrow> binop_loop n m e q = Inr (Some e, q)"
  by (cases n) (simp_all add: binop_loop.simps)

lemma bin_continues:
  assumes op: "op_token op \<noteq> TK_EOF" and j: "j = op_prec op" and l: "reads l" and r: "reads r"
    and m: "1 \<le> m" "m \<le> k" "k \<le> j" and at: "at p (show_expr k (AST_BINOP op l r) @ rest)" and f: "follow k rest"
  shows "\<exists>q. at q rest \<and> same_flags q p \<and> continues (cost l + cost r + 4) m p (AST_BINOP op l r) q"
proof -
  have j6: "1 \<le> j" "j \<le> 6" using op_prec_range [OF op] j by auto
  let ?tail = "show_expr (j + 1) r @ rest"
  have at_l: "at p (show_expr j l @ (op @ CHR '' '' # ?tail))" using at show_expr_bin [OF j m(3), of l r] by simp
  have f_op: "follow j (op @ CHR '' '' # ?tail)"
    unfolding follow_def
  proof (intro allI impI)
    fix q assume q: "at q (op @ CHR '' '' # ?tail)"
    have "cur q = op_kind op" by (rule at_lexes(1) [OF q lexes_op [OF op]])
    moreover have "op_kind op \<noteq> TK_LBRACKET \<and> op_kind op \<noteq> TK_LPAREN"
      using op_cases [OF op] by (elim insertE emptyE) (simp_all add: op_kind_def op_token_def)
    ultimately show "cur_prec q \<le> j \<and> cur q \<noteq> TK_LBRACKET \<and> cur q \<noteq> TK_LPAREN"
      using at_op(1) [OF op q] j by simp
  qed
  obtain ql where ql: "at ql (op @ CHR '' '' # ?tail)" "same_flags ql p" "continues (cost l + 1) m p l ql"
    using readsE [OF l m(1) _ _ at_l f_op] m j6 by auto
  note o = at_op [OF op ql(1)]
  have f_r: "follow (j + 1) rest" using follow_mono [OF f, of "j + 1"] m(3) by simp
  obtain q where q: "at q rest" "same_flags q (parser_advance ql)" "continues (cost r + 1) (j + 1) (parser_advance ql) r q"
    using readsE [OF r _ order_refl _ o(3) f_r] j6 by auto
  have "cur_prec q < j + 1" using f q(1) m(3) by (auto simp: follow_def)
  then have right: "parse_binop n (j + 1) (parser_advance ql) = Inr (Some r, q)" if "cost r + 2 \<le> n" for n
    using q(3) [unfolded continues_def, rule_format, of 1 "Inr (Some r, q)" n] stop_loop that by simp
  have "continues (cost l + cost r + 4) m p (AST_BINOP op l r) q"
    unfolding continues_def
  proof (intro allI impI)
    fix n0 res n
    assume res: "\<forall>n. n0 \<le> n \<longrightarrow> binop_loop n m (AST_BINOP op l r) q = res"
      and n: "n0 + (cost l + cost r + 4) \<le> n"
    have "binop_loop n' m l ql = res" if n': "n0 + cost r + 3 \<le> n'" for n'
    proof -
      obtain n'' where n'': "n' = Suc n''" using n' by (cases n') auto
      have "\<not> cur_prec ql < m" using o(1) j m by simp
      then show ?thesis using n' n'' right [of n''] res o(1,2) j by (simp add: binop_loop.simps)
    qed
    then show "parse_binop n m p = res"
      using ql(3) [unfolded continues_def, rule_format, of "n0 + cost r + 3" res n] n by simp
  qed
  moreover have "same_flags q p" using same_flags_trans [OF q(2)] ql(2) by simp
  ultimately show ?thesis using q(1) by blast
qed

lemma follow_paren: "follow 1 (CHR '')'' # u)"
  unfolding follow_def
proof (intro allI impI)
  fix q assume "at q (CHR '')'' # u)"
  then have "cur q = TK_RPAREN" using at_lexes(1) lexes_bracket(2) by blast
  then show "cur_prec q \<le> 1 \<and> cur q \<noteq> TK_LBRACKET \<and> cur q \<noteq> TK_LPAREN"
    by (simp add: cur_prec_def lone_slash_def binop_prec_def)
qed

lemma bin_reads:
  assumes op: "op_token op \<noteq> TK_EOF" and l: "reads l" and r: "reads r"
  shows "reads_primary (AST_BINOP op l r)" "reads (AST_BINOP op l r)"
proof -
  let ?e = "AST_BINOP op l r"
  note j6 = op_prec_range [OF op]
  have paren: "\<exists>q. at q rest \<and> same_flags q p \<and> (\<forall>n. cost ?e \<le> n \<longrightarrow> parse_primary n p = Inr (Some ?e, q))"
    if "at p (show_expr k ?e @ rest)" "op_prec op < k" for p rest k
  proof -
    let ?rest = "CHR '')'' # CHR '' '' # rest" and ?a = "parser_advance p"
    have at: "at p (CHR ''('' # CHR '' '' # show_expr 1 ?e @ ?rest)"
      using that(1) show_expr_paren [OF that(2), of l r] j6 by simp
    note l1 = at_lexes [OF at lexes_bracket(1)]
    have "at ?a (show_expr 1 ?e @ ?rest)" by (rule at_blank [OF l1(4)])
    then obtain q1 where q1: "at q1 ?rest" "same_flags q1 ?a" "continues (cost l + cost r + 4) 1 ?a ?e q1"
      using bin_continues [OF op refl l r order_refl order_refl _ _ follow_paren] j6 by blast
    note l2 = at_lexes [OF q1(1) lexes_bracket(2)]
    let ?q = "parser_advance q1"
    have "cur_prec q1 < 1" using l2(1) by (simp add: cur_prec_def lone_slash_def binop_prec_def)
    then have inner: "parse_binop n 1 ?a = Inr (Some ?e, q1)" if "cost l + cost r + 5 \<le> n" for n
      using q1(3) [unfolded continues_def, rule_format, of 1 "Inr (Some ?e, q1)" n] stop_loop that by simp
    have "parse_primary n p = Inr (Some ?e, ?q)" if n: "cost ?e \<le> n" for n
    proof -
      obtain n' where n': "n = Suc n'" using n by (cases n) auto
      show ?thesis using n n' inner [of n'] l1(1) l2(1)
        by (simp add: parse_primary.simps primary_step_def parser_expect_def)
    qed
    moreover have "at ?q rest" by (rule at_blank [OF l2(4)])
    moreover have "same_flags ?q p" using q1(2) by simp
    ultimately show ?thesis by blast
  qed
  have "op_prec op < 7" using j6 by simp
  then show prim: "reads_primary ?e" unfolding reads_primary_def using paren by blast
  show "reads ?e"
    unfolding reads_def
  proof (intro allI impI, elim conjE)
    fix k m p rest
    assume m: "1 \<le> m" "m \<le> k" "k \<le> 7" and at: "at p (show_expr k ?e @ rest)" and f: "follow k rest"
    show "\<exists>q. at q rest \<and> same_flags q p \<and> continues (cost ?e + 1) m p ?e q"
    proof (cases "op_prec op < k")
      case True
      then show ?thesis using paren [OF at] primary_continues by blast
    next
      case False
      then obtain q where "at q rest" "same_flags q p" "continues (cost l + cost r + 4) m p ?e q"
        using bin_continues [OF op refl l r m(1,2) _ at f] by auto
      moreover from this(3) have "continues (cost ?e + 1) m p ?e q" by (rule continues_mono) simp
      ultimately show ?thesis by blast
    qed
  qed
qed

lemma unop_reads:
  assumes e: "reads_primary e"
  shows "reads_primary (AST_UNOP (Some e))" "reads (AST_UNOP (Some e))"
proof -
  show p: "reads_primary (AST_UNOP (Some e))"
    unfolding reads_primary_def
  proof (intro allI impI, elim conjE)
    fix p rest assume at: "at p (show_expr 7 (AST_UNOP (Some e)) @ rest)" and f: "follow 7 rest"
    then have "at p (CHR ''!'' # CHR '' '' # show_expr 7 e @ rest)" by simp
    note l = at_lexes [OF this lexes_bracket(3)]
    obtain q where q: "at q rest" "same_flags q (parser_advance p)"
      "\<forall>n. cost e \<le> n \<longrightarrow> parse_primary n (parser_advance p) = Inr (Some e, q)"
      using reads_primaryE [OF e at_blank [OF l(4)] f] by blast
    have "parse_primary n p = Inr (Some (AST_UNOP (Some e)), q)" if "cost (AST_UNOP (Some e)) \<le> n" for n
      using that q(3) l(1) by (cases n) (auto simp: parse_primary.simps primary_step_def)
    then show "\<exists>q. at q rest \<and> same_flags q p \<and>
        (\<forall>n. cost (AST_UNOP (Some e)) \<le> n \<longrightarrow> parse_primary n p = Inr (Some (AST_UNOP (Some e)), q))"
      using q(1,2) by auto
  qed
  show "reads (AST_UNOP (Some e))" by (rule primary_reads [OF p]) simp
qed


lemma plain_reads: "plain_expr e \<Longrightarrow> reads e \<and> reads_primary e"
proof (induction e rule: plain_expr.induct)
  case (1 v)
  show ?case
    by (intro conjI token_reads [of _ "show_int (sint (ival v))", OF _ lexes_number])
      (use 1 in \<open>simp_all add: parse_primary.simps primary_step_def\<close>)
next
  case (2 v)
  then obtain s where s: "v = val_str s" "plain_text s" by auto
  have lx: "lexes ((DQUOTE # s @ [DQUOTE]) @ CHR '' '' # u) TK_STRING s 0 (CHR '' '' # u)" for u
    using lexes_text [OF s(2), of u] by simp
  have "show_expr k (AST_STR_LIT v) = (DQUOTE # s @ [DQUOTE]) @ '' ''" for k
    using s(1) by (simp add: data_str_def val_str_def or_empty_def)
  then show ?case
    by (intro conjI token_reads [OF _ lx]) (use s in \<open>simp_all add: parse_primary.simps primary_step_def\<close>)
next
  case (3 v)
  have words: "lexes (''true'' @ CHR '' '' # u) TK_KW_TRUE ''true'' 0 (CHR '' '' # u)"
    "lexes (''false'' @ CHR '' '' # u) TK_KW_FALSE ''false'' 0 (CHR '' '' # u)" for u
    using lexes_word [of "''true''" u] lexes_word [of "''false''" u]
    by (simp_all add: keyword_table_def isalpha_def isalnum_def)
  have iv: "ival (val_bool True) = 1" "ival (val_bool False) = 0" by (simp_all add: val_bool_def)
  from 3 have "v = val_bool True \<or> v = val_bool False" by simp
  then show ?case
  proof
    assume v: "v = val_bool True"
    show ?thesis
      by (intro conjI token_reads [OF _ words(1)]) (use v iv in \<open>simp_all add: parse_primary.simps primary_step_def\<close>)
  next
    assume v: "v = val_bool False"
    show ?thesis
      by (intro conjI token_reads [OF _ words(2)]) (use v iv in \<open>simp_all add: parse_primary.simps primary_step_def\<close>)
  qed
next
  case 4
  have word: "lexes (''nil'' @ CHR '' '' # u) TK_KW_NIL ''nil'' 0 (CHR '' '' # u)" for u
    using lexes_word [of "''nil''" u] by (simp add: keyword_table_def isalpha_def isalnum_def)
  show ?case
    by (intro conjI token_reads [OF _ word]) (simp_all add: parse_primary.simps primary_step_def)
next
  case (5 name)
  then have n: "plain_ident name" by simp
  have lx: "lexes (name @ CHR '' '' # u) TK_IDENT name 0 (CHR '' '' # u)" for u
    using lexes_word [of name u] n by (simp add: plain_ident_def)
  have prim: "parse_primary (Suc n) p = Inr (Some (AST_IDENT name), parser_advance p)"
    if "cur p = TK_IDENT" "tk_text (p_cur p) = name"
      "cur (parser_advance p) \<noteq> TK_LBRACKET" "cur (parser_advance p) \<noteq> TK_LPAREN" for p n
    using that by (simp add: parse_primary.simps primary_step_def Let_def)
  have sh: "show_expr k (AST_IDENT name) = name @ '' ''" for k by simp
  note token = token_reads [of "AST_IDENT name" name TK_IDENT name 0, OF sh lx]
  show ?case by (intro conjI token) (rule cost.simps, assumption?, (rule prim; assumption))+
next
  case (6 e)
  then show ?case using unop_reads by simp
next
  case (7 op l r)
  then show ?case using bin_reads by simp
qed simp_all

subsection \<open>Programs\<close>

lemma cost_le: "plain_expr e \<Longrightarrow> cost e \<le> 8 * length (show_expr k e)"
proof (induction e arbitrary: k rule: plain_expr.induct)
  case (7 op l r)
  let ?j = "op_prec op"
  have "cost l \<le> 8 * length (show_expr ?j l)" "cost r \<le> 8 * length (show_expr (?j + 1) r)"
    using 7 by auto
  then show ?case by (simp add: Let_def)
next
  case (6 e)
  then have "cost e \<le> 8 * length (show_expr 7 e)" by simp
  then show ?case by simp
qed (auto simp: plain_ident_def)

lemma show_int_chars: "CHR 0x00 \<notin> set (show_int i)"
proof -
  have "CHR 0x00 \<notin> set (show_nat n)" for n using show_nat_digits [of n] by (auto simp: isdigit_def)
  then show ?thesis by (simp add: show_int_def)
qed

text \<open>The decimal digits of a word, as they stand in paths.\<close>

lemma digits_no_slash: "CHR ''/'' \<notin> set (show_int (uint w))"
  using show_nat_digits [of "nat (uint w)"] by (auto simp: show_int_def isdigit_def)

lemma digits_nonempty: "show_int (uint w) \<noteq> []"
  using show_nat_digits [of "nat (uint w)"] by (auto simp: show_int_def)

lemma digits_length: "length (show_int (uint (w :: 'a::len word))) \<le> max 1 k" if "(2 :: nat) ^ LENGTH('a) \<le> 10 ^ k"
proof -
  have "unat w < 10 ^ k" using that unsigned_less [of w, where 'a = nat] by linarith
  moreover have "show_int (uint w) = show_nat (unat w)" by (simp add: show_int_def)
  ultimately show ?thesis using show_nat_length [of "unat w" k] by (simp only:)
qed

lemma show_expr_chars: "plain_expr e \<Longrightarrow> CHR 0x00 \<notin> set (show_expr k e)"
proof (induction e arbitrary: k rule: plain_expr.induct)
  case (2 v)
  then obtain s where s: "v = val_str s" "plain_text s" by auto
  then have "CHR 0x00 \<notin> set s" by (auto simp: plain_text_def)
  then show ?case using s(1) by (simp add: data_str_def val_str_def or_empty_def)
next
  case (5 name)
  then show ?case using isalnum_nonnull by (auto simp: plain_ident_def)
next
  case (7 op l r)
  have "CHR 0x00 \<notin> set op" using op_cases [of op] 7 by auto
  moreover have "CHR 0x00 \<notin> set (show_expr j l)" "CHR 0x00 \<notin> set (show_expr j r)" for j using 7 by simp_all
  ultimately show ?case by (simp add: Let_def)
qed (auto simp: show_int_chars)

lemma at_end: "at p [] \<Longrightarrow> cur p = TK_EOF"
proof -
  assume "at p []"
  then obtain lx where "l_peeked lx = None" "l_rest lx = []" "lexer_next lx = (p_cur p, p_lex p)"
    by (auto simp: at_def)
  then have "p_cur p = make_tok TK_EOF [] (l_line lx)" by (simp add: lexer_next_def lexer_skip_ws_def)
  then show ?thesis by (simp add: make_tok_def)
qed

lemma at_init: "CHR 0x00 \<notin> set s \<Longrightarrow> at (parser_init (lexer_init s) d) s"
  by (auto simp: at_def parser_init_def parser_advance_def lexer_init_def c_str_plain
      split: prod.split intro!: exI [of _ "lexer_init s"])

lemma skip_newlines_id: "cur p \<noteq> TK_NEWLINE \<Longrightarrow> parser_skip_newlines p = p"
  by (subst parser_skip_newlines.simps) simp

lemma follow_end: "follow 1 []"
  by (auto simp: follow_def cur_prec_def lone_slash_def binop_prec_def dest!: at_end)

lemma parse_out:
  assumes e: "plain_expr e"
  shows "\<exists>p. parse_program (parser_init (lexer_init (''out '' @ show_expr 1 e)) d) =
    Inr (AST_PROGRAM [AST_OUT (Some e)], p) \<and> \<not> p_had_error p \<and> p_decls p = d"
proof -
  let ?s = "show_expr 1 e"
  let ?p = "parser_init (lexer_init (''out '' @ ?s)) d"
  let ?a = "parser_advance ?p"
  have at0: "at ?p (''out'' @ CHR '' '' # ?s)" using at_init [of "''out '' @ ?s"] show_expr_chars [OF e] by simp
  have word: "lexes (''out'' @ CHR '' '' # ?s) TK_KW_OUT ''out'' 0 (CHR '' '' # ?s)"
    using lexes_word [of "''out''"] by (simp add: keyword_table_def isalpha_def isalnum_def)
  note l = at_lexes [OF at0 word]
  have "at ?a (?s @ [])" using at_blank [OF l(4)] by simp
  then obtain q where q: "at q []" "same_flags q ?a" "continues (cost e + 1) 1 ?a e q"
    using readsE [of e 1 1 ?a "[]"] plain_reads [OF e] follow_end by auto
  have eof: "cur q = TK_EOF" by (rule at_end [OF q(1)])
  then have "cur_prec q < 1" by (simp add: cur_prec_def lone_slash_def binop_prec_def)
  then have expr: "parse_binop n 1 ?a = Inr (Some e, q)" if "cost e + 2 \<le> n" for n
    using q(3) [unfolded continues_def, rule_format, of 1 "Inr (Some e, q)" n] stop_loop that by simp
  have flags0: "\<not> p_had_error ?p" "p_decls ?p = d"
    by (simp_all add: parser_init_def parser_advance_def split: prod.splits)
  have "same_flags q ?p" using q(2) by (simp only: same_flags_advance)
  then have flags: "\<not> p_had_error q" "p_decls q = d" using flags0 by (simp_all only: same_flags_def simp_thms)
  have stmt: "parse_stmt n ?p = Inr (Some (AST_OUT (Some e)), q)" if big: "cost e + 3 \<le> n" for n
  proof -
    obtain n' where n: "n = Suc n'" using big by (cases n) auto
    then show ?thesis
      using big l(1) expr [of n'] by (simp add: parse_stmt.simps stmt_step_def skip_newlines_id)
  qed
  have left: "length ?s \<le> input_left ?p"
  proof -
    obtain lx where lx: "l_peeked lx = None" "l_rest lx = ''out'' @ CHR '' '' # ?s" "lexer_next lx = (p_cur ?p, p_lex ?p)"
      using at0 by (auto simp: at_def)
    then have "l_rest (p_lex ?p) = CHR '' '' # ?s" using word by (auto simp: lexes_def)
    then show ?thesis using l(1) by (simp add: input_left_def lex_size_def)
  qed
  then have fuel: "cost e + 5 \<le> parse_fuel ?p" using cost_le [OF e, of 1] by (simp add: parse_fuel_def)
  define n where "n = parse_fuel ?p - 2"
  have n: "parse_fuel ?p = Suc (Suc n)" "cost e + 3 \<le> n" using fuel by (simp_all add: n_def)
  have "program_loop (parse_fuel ?p) ?p [] = Inr ([AST_OUT (Some e)], q)"
    unfolding n(1) using l(1) stmt [of "Suc n"] n(2) flags(1) flags0(1) eof
    by (simp add: opt_list_def skip_newlines_id)
  then show ?thesis using l(1) flags by (simp add: parse_program_def skip_newlines_id)
qed


subsection \<open>Two programs the parser is wrong about\<close>

text \<open>The argument loop of a call by keyword never gets past the brace.\<close>

lemma kw_call_hangs: "parse_program (parser_init (lexer_init ''out ls(}'') 0) = Inl Hang"
  by code_simp

text \<open>After the block of an \<open>if\<close> the newline is gone, so a statement on the next line is refused.\<close>

lemma if_then_statement:
  "case parse_program (parser_init (lexer_init (''if x { }'' @ [NL] @ ''out 2'')) 0) of
     Inl _ \<Rightarrow> False | Inr (_, p) \<Rightarrow> p_had_error p"
  by code_simp

section \<open>The properties\<close>

text \<open>C32: Parsing ends on every source text in one of two ways: with the tree of a program and the parser at the end of the
  input or with its error flag set, or, only where the text has one of the keywords \<open>ls\<close>, \<open>sendmessage\<close>,
  \<open>receivemessage\<close> and \<open>msgpending\<close> as a token, in the endless loop of a keyword's argument list, which
  \<open>kw_args\<close> makes explicit. The count of calls that \<open>parse_program\<close> starts with is never used up.\<close>

theorem parse_terminates:
  "(\<exists>ss p. parse_program (parser_init (lexer_init src) d) = Inr (AST_PROGRAM ss, p) \<and> (cur p = TK_EOF \<or> p_had_error p)) \<or>
   parse_program (parser_init (lexer_init src) d) = Inl Hang \<and> (\<exists>k. tk_kind (nth_token (lexer_init src) k) \<in> call_keywords)"
  by (rule parse_program_ends)

text \<open>C22: Printing and parsing are inverse on expressions: the text of any expression of literals,
  names, \<open>!\<close> and the binary operators, printed with no more parentheses than precedence and left
  association need, is lexed and parsed without error as that expression.\<close>

theorem parse_show_expr:
  assumes "plain_expr e"
  shows "\<exists>p. parse_program (parser_init (lexer_init (''out '' @ show_expr 1 e)) d) =
    Inr (AST_PROGRAM [AST_OUT (Some e)], p) \<and> \<not> p_had_error p \<and> p_decls p = d"
  by (rule parse_out [OF assms])

definition expr_demo :: ast where
  "expr_demo =
     AST_BINOP ''*'' (AST_BINOP ''-'' (AST_IDENT ''x'') (AST_INT_LIT (val_int (- 2))))
       (AST_BINOP ''-'' (AST_IDENT ''y'') (AST_UNOP (Some AST_NIL_LIT)))"

theorem parse_show_expr_witness:
  "\<exists>p. parse_program (parser_init (lexer_init ''out ( x - -2 ) * ( y - ! nil ) '') 0) =
    Inr (AST_PROGRAM [AST_OUT (Some expr_demo)], p)"
proof -
  have "plain_expr expr_demo" by (simp add: expr_demo_def op_token_def plain_ident_def keyword_table_def isalpha_def isalnum_def val_int_def)
  moreover have "show_expr 1 expr_demo = ''( x - -2 ) * ( y - ! nil ) ''"
    by code_simp
  ultimately show ?thesis using parse_show_expr [of expr_demo 0] by auto
qed

end
