(* ===== verification/FnTable.thy ===== *)
theory FnTable
  imports Parser
begin

section \<open>The function table (\<^verbatim>\<open>lang/fn_table.c\<close>)\<close>

text \<open>
  The table is the list of the slots in use, \<open>g_fn_count\<close> its length. A C function pointer is the
  name of the function in \<^verbatim>\<open>lang/builtins.c\<close>; the functions of the system-call and HAL modules,
  which register themselves in the same way, are not modelled. The parameter names are the first
  \<open>fd_nparams\<close> of the slots of \<open>fd_params\<close>; a new declaration overwrites only as many as it has.
\<close>

datatype builtin =
  B_STR | B_INT | B_FLOAT | B_LEN | B_TYPE | B_BUDDY_STATS | B_ERRSTR | B_EVAL
| B_SUBSTR | B_CONTAINS | B_TRIM | B_UPPER | B_LOWER | B_SPLIT | B_REPLACE
| B_ABS | B_MIN | B_MAX
| B_REG_GET | B_REG_SET | B_REG_DEL | B_ARR_JOIN | B_ARR_INS | B_ARR_DEL | B_ARR_CREATE_ANON
| B_KEYS | B_PRINT_REG | B_LINES_OF
| B_SENDMSG | B_RECVMSG | B_MSGPENDING | B_PTR | B_DEREF | B_SLEEP | B_TERM_SIZE | B_SYS_DEBUG

record fn_def =
  fd_name :: string
  fd_params :: "string list"
  fd_nparams :: nat
  fd_body :: "ast option"
  fd_refs :: int
  fd_builtin :: "builtin option"
  fd_sig :: string

type_synonym fn_table = "fn_def list"

definition fn_table_init :: fn_table where
  "fn_table_init = []"

definition fn_table_free :: "fn_table \<Rightarrow> fn_table" where
  "fn_table_free t = []"

subsection \<open>Registration\<close>

text \<open>The first slot that satisfies \<open>P\<close>.\<close>

fun find_slot :: "(fn_def \<Rightarrow> bool) \<Rightarrow> fn_table \<Rightarrow> nat option" where
  "find_slot P [] = None"
| "find_slot P (d # ds) = (if P d then Some 0 else map_option Suc (find_slot P ds))"

definition copy_params :: "string list \<Rightarrow> string list \<Rightarrow> string list" where
  "copy_params old params =
     (let new = List.map (trunc NAME_LEN) (take MAX_PARAMS params) in new @ drop (length new) old)"

definition user_slot :: "fn_table \<Rightarrow> string \<Rightarrow> nat option" where
  "user_slot t name = find_slot (\<lambda>d. fd_builtin d = None \<and> fd_name d = name) t"

text \<open>The index, or -1; the body is taken over in both cases.\<close>

definition fn_register :: "fn_table \<Rightarrow> string \<Rightarrow> ast option \<Rightarrow> string list \<Rightarrow> int \<times> fn_table" where
  "fn_register t name body params =
     (case user_slot t name of
        Some i \<Rightarrow>
          (int i, t[i := (t ! i)\<lparr>fd_body := body, fd_params := copy_params (fd_params (t ! i)) params,
             fd_nparams := length params\<rparr>])
      | None \<Rightarrow>
          if MAX_FN_DEFS \<le> length t then (- 1, t)
          else
            (int (length t),
             t @ [\<lparr>fd_name = trunc NAME_LEN name, fd_params = copy_params (replicate MAX_PARAMS []) params,
               fd_nparams = length params, fd_body = body, fd_refs = 1, fd_builtin = None, fd_sig = []\<rparr>]))"

definition fn_register_builtin_sig :: "fn_table \<Rightarrow> string \<Rightarrow> builtin \<Rightarrow> string option \<Rightarrow> int \<times> fn_table" where
  "fn_register_builtin_sig t name fn sig =
     (case find_slot (\<lambda>d. fd_builtin d \<noteq> None \<and> fd_name d = name) t of
        Some i \<Rightarrow>
          (int i, t[i := (t ! i)\<lparr>fd_builtin := Some fn,
             fd_sig := (case sig of Some s \<Rightarrow> trunc 128 s | None \<Rightarrow> fd_sig (t ! i))\<rparr>])
      | None \<Rightarrow>
          if MAX_FN_DEFS \<le> length t then (- 1, t)
          else
            (int (length t),
             t @ [\<lparr>fd_name = trunc NAME_LEN name, fd_params = replicate MAX_PARAMS [], fd_nparams = 0,
               fd_body = None, fd_refs = 1, fd_builtin = Some fn,
               fd_sig = (case sig of Some s \<Rightarrow> trunc 128 s | None \<Rightarrow> [])\<rparr>]))"

definition fn_register_builtin :: "fn_table \<Rightarrow> string \<Rightarrow> builtin \<Rightarrow> int \<times> fn_table" where
  "fn_register_builtin t name fn = fn_register_builtin_sig t name fn None"

subsection \<open>Lookup, references, printing\<close>

definition fn_lookup :: "fn_table \<Rightarrow> string \<Rightarrow> nat option" where
  "fn_lookup t name = find_slot (\<lambda>d. fd_name d = name) t"

definition fn_lookup_by_idx :: "fn_table \<Rightarrow> int \<Rightarrow> nat option" where
  "fn_lookup_by_idx t idx = (if idx < 0 \<or> int (length t) \<le> idx then None else Some (nat idx))"

text \<open>The cast of an \<open>int64_t\<close> to \<open>int\<close>.\<close>

definition to_cint :: "u64 \<Rightarrow> int" where
  "to_cint i = sint (ucast i :: u32)"

definition fn_ref :: "fn_table \<Rightarrow> int \<Rightarrow> fn_table" where
  "fn_ref t idx =
     (case fn_lookup_by_idx t idx of
        None \<Rightarrow> t
      | Some i \<Rightarrow> t[i := (t ! i)\<lparr>fd_refs := fd_refs (t ! i) + 1\<rparr>])"

definition fn_unref :: "fn_table \<Rightarrow> int \<Rightarrow> fn_table" where
  "fn_unref t idx =
     (case fn_lookup_by_idx t idx of
        None \<Rightarrow> t
      | Some i \<Rightarrow>
          let d = (t ! i)\<lparr>fd_refs := fd_refs (t ! i) - 1\<rparr> in
          t[i := (if fd_refs d \<le> 0 \<and> fd_builtin d = None then d\<lparr>fd_body := None\<rparr> else d)])"

fun join_words :: "string list \<Rightarrow> string" where
  "join_words [] = []"
| "join_words [w] = w"
| "join_words (w # ws) = w @ '' '' @ join_words ws"

definition fn_print_hook :: "fn_table \<Rightarrow> u64 \<Rightarrow> string" where
  "fn_print_hook t idx =
     (case fn_lookup_by_idx t (to_cint idx) of
        None \<Rightarrow> ''<fn #'' @ show_int (sint idx) @ ''>''
      | Some i \<Rightarrow>
          let d = t ! i in
          if fd_builtin d \<noteq> None then
            if fd_sig d \<noteq> [] then ''<builtin: '' @ fd_sig d @ ''>'' else ''<builtin: '' @ fd_name d @ ''(...)>''
          else ''<fn '' @ fd_name d @ ''('' @ join_words (take (fd_nparams d) (fd_params d)) @ '')>'')"

subsection \<open>Lemmas\<close>

lemma find_slot_Some: "find_slot P t = Some i \<Longrightarrow> i < length t \<and> P (t ! i) \<and> (\<forall>j < i. \<not> P (t ! j))"
proof (induction t arbitrary: i)
  case (Cons d ds)
  then show ?case by (cases i) (auto split: if_splits simp: All_less_Suc2)
qed simp

lemma find_slot_None: "find_slot P t = None \<longleftrightarrow> (\<forall>d \<in> set t. \<not> P d)"
  by (induction t) auto

lemma find_slot_least:
  assumes "i < length t" "P (t ! i)" "\<And>j. j < i \<Longrightarrow> \<not> P (t ! j)"
  shows "find_slot P t = Some i"
proof (cases "find_slot P t")
  case None
  then show ?thesis using assms(1,2) nth_mem by (auto simp: find_slot_None)
next
  case (Some k)
  note k = find_slot_Some [OF Some]
  have "k = i" using k assms by (metis linorder_neqE_nat)
  then show ?thesis using Some by simp
qed

lemma find_slot_append:
  "find_slot P (t @ ts) = (case find_slot P t of Some i \<Rightarrow> Some i | None \<Rightarrow> map_option ((+) (length t)) (find_slot P ts))"
  by (induction t; cases "find_slot P ts") (auto split: option.split)

text \<open>A later lookup by name finds the declared function, if no builtin has its name.\<close>

lemma fn_register_lookup:
  assumes r: "fn_register t name body params = (idx, t')" and "0 \<le> idx" and "length name < NAME_LEN"
    and nb: "\<forall>d \<in> set t. fd_name d = name \<longrightarrow> fd_builtin d = None"
  shows "fn_lookup t' name = Some (nat idx) \<and> fd_body (t' ! nat idx) = body \<and> fd_nparams (t' ! nat idx) = length params \<and>
    fd_builtin (t' ! nat idx) = None"
proof (cases "user_slot t name")
  case None
  then have "\<forall>d \<in> set t. fd_name d \<noteq> name" using nb by (auto simp: user_slot_def find_slot_None)
  then have n: "fn_lookup t name = None" by (simp add: fn_lookup_def find_slot_None)
  show ?thesis
    using r assms(2,3) None n by (auto simp: fn_register_def fn_lookup_def find_slot_append split: if_splits)
next
  case (Some i)
  note i = find_slot_Some [OF Some [unfolded user_slot_def]]
  have "fd_name (t ! j) \<noteq> name" if "j < i" for j
    using i that nb by (metis (lifting) less_trans nth_mem)
  then have "fn_lookup t' name = Some i"
    using r Some i unfolding fn_lookup_def fn_register_def by (intro find_slot_least) auto
  then show ?thesis using r Some i by (auto simp: fn_register_def)
qed

lemma fn_register_other:
  assumes "fn_register t name body params = (idx, t')" and "fn_lookup t other = Some i" and "name \<noteq> other"
  shows "fn_lookup t' other = Some i \<and> t' ! i = t ! i"
proof -
  note i = find_slot_Some [OF assms(2) [unfolded fn_lookup_def]]
  show ?thesis
  proof (cases "user_slot t name")
    case None
    then show ?thesis using assms i
      by (auto simp: fn_register_def fn_lookup_def find_slot_append nth_append split: if_splits)
  next
    case (Some k)
    note k = find_slot_Some [OF Some [unfolded user_slot_def]]
    have ki: "k \<noteq> i" using i k assms(3) by auto
    have "fn_lookup t' other = Some i"
      unfolding fn_lookup_def using assms(1) Some i k ki
      by (intro find_slot_least) (auto simp: fn_register_def nth_list_update split: if_splits)
    then show ?thesis using assms(1) Some ki by (auto simp: fn_register_def)
  qed
qed

subsection \<open>The property\<close>

text \<open>C28: Declaring a function of fewer than 64 characters makes the next lookup of its name find the slot
  whose index was returned, with the new body and parameter count, when no builtin has that name; every
  other name is found where it was, with an unchanged entry. A second declaration reuses the slot.\<close>

theorem fn_register_found:
  assumes "fn_register t name body params = (idx, t')" and "0 \<le> idx" and "length name < NAME_LEN"
    and "\<forall>d \<in> set t. fd_name d = name \<longrightarrow> fd_builtin d = None"
  shows "fn_lookup t' name = Some (nat idx) \<and> fd_body (t' ! nat idx) = body \<and>
    fd_nparams (t' ! nat idx) = length params \<and> fd_builtin (t' ! nat idx) = None \<and>
    (\<forall>i. fn_lookup t name = Some i \<longrightarrow> nat idx = i \<and> length t' = length t) \<and>
    (\<forall>other i. other \<noteq> name \<longrightarrow> fn_lookup t other = Some i \<longrightarrow> fn_lookup t' other = Some i \<and> t' ! i = t ! i)"
proof -
  have "nat idx = i \<and> length t' = length t" if "fn_lookup t name = Some i" for i
  proof -
    note i = find_slot_Some [OF that [unfolded fn_lookup_def]]
    then have "user_slot t name = Some i"
      using assms(4) unfolding user_slot_def by (intro find_slot_least) auto
    then show ?thesis using assms(1) by (auto simp: fn_register_def)
  qed
  then show ?thesis using fn_register_lookup [OF assms] fn_register_other [OF assms(1)] by blast
qed

theorem fn_register_found_witness:
  "\<exists>t1 t2. fn_register [] ''f'' None [''x''] = (0, t1) \<and> fn_register t1 ''f'' (Some AST_PWD) [] = (0, t2) \<and>
     fn_lookup t2 ''f'' = Some 0 \<and> fd_body (t2 ! 0) = Some AST_PWD"
proof -
  obtain t1 where t1: "fn_register [] ''f'' None [''x''] = (0, t1)" by (simp add: fn_register_def user_slot_def)
  then have nb: "\<forall>d \<in> set t1. fd_name d = ''f'' \<longrightarrow> fd_builtin d = None" and
    l: "fn_lookup t1 ''f'' = Some 0" by (auto simp: fn_register_def user_slot_def fn_lookup_def)
  then have "user_slot t1 ''f'' = Some 0" using t1 by (auto simp: fn_register_def user_slot_def)
  then obtain t2 where t2: "fn_register t1 ''f'' (Some AST_PWD) [] = (0, t2)" by (simp add: fn_register_def)
  from fn_register_found [OF this _ _ nb] t1 t2 show ?thesis by simp
qed

end
