(* ===== verification/RegList.thy ===== *)
theory RegList
  imports RegIpc FnTable
begin

section \<open>Listing the registry (\<open>reg_ls\<close>, \<open>reg_ls_recursive\<close> of \<^verbatim>\<open>registry/registry.c\<close>)\<close>

text \<open>
  The text that is written. Showing a pointer resolves it and releases the clone, so the heap is
  threaded through. The nesting of \<open>val_print\<close> is counted down from more than the number of arrays:
  only an array inside itself reaches 0.
\<close>

definition show_val :: "fn_table \<Rightarrow> heap \<Rightarrow> val \<Rightarrow> string res" where
  "show_val fns h v = val_print (length h + 2) (fn_print_hook fns) h v"

definition pad :: "nat \<Rightarrow> string \<Rightarrow> string" where
  "pad n s = s @ replicate (n - length s) (CHR '' '')"

definition ls_pointer :: "fn_table \<Rightarrow> rstate \<Rightarrow> regnode \<Rightarrow> (string \<times> rstate) res" where
  "ls_pointer fns st nd =
     (if vtype (k_val nd) = TYPE_PTR \<and> data (k_val nd) \<noteq> NoData then
        bind_res (reg_get_deref st (k_path nd)) (\<lambda>(w, st1).
        bind_res (if vtype w \<noteq> TYPE_ERR then
            bind_res (show_val fns (r_heap st1) w) (\<lambda>s. Inr (''  ['' @ [CHR 0xE2, CHR 0x86, CHR 0x92] @ '' '' @ s @ '']''))
          else Inr []) (\<lambda>txt.
        bind_res (val_free (r_heap st1) w) (\<lambda>h. Inr (txt, st1\<lparr>r_heap := h\<rparr>))))
      else Inr ([], st))"

definition ls_value :: "fn_table \<Rightarrow> rstate \<Rightarrow> regnode \<Rightarrow> nat \<Rightarrow> (string \<times> rstate) res" where
  "ls_value fns st nd n_children =
     (if vtype (k_val nd) \<noteq> TYPE_NIL then
        bind_res
          (case ref_of (k_val nd) of
             Some a \<Rightarrow>
               (case arr_at (r_heap st) a of
                  None \<Rightarrow> Inl UseAfterFree
                | Some arr \<Rightarrow> Inr (''arr['' @ show_nat (asize arr) @ '' elements]''))
           | None \<Rightarrow> show_val fns (r_heap st) (k_val nd)) (\<lambda>s.
        bind_res (ls_pointer fns st nd) (\<lambda>(ptr, st1). Inr (''  = '' @ s @ ptr, st1)))
      else Inr (if 0 < n_children then ''  ('' @ show_nat n_children @ '' keys)'' else [], st))"

definition ls_queue :: "regnode \<Rightarrow> string" where
  "ls_queue nd =
     (case k_queue nd of
        None \<Rightarrow> []
      | Some q \<Rightarrow>
          if q_use_pipe q \<or> q_count q < 0 then ''  [Q:pipe]''
          else ''  [Q:'' @ show_int (q_count q) @ ''/'' @ show_int (q_max q) @ '']'')"

fun reg_ls_node :: "fn_table \<Rightarrow> bool \<Rightarrow> nat \<Rightarrow> regkey \<Rightarrow> rstate \<Rightarrow> (string \<times> rstate) res"
  and reg_ls_nodes :: "fn_table \<Rightarrow> bool \<Rightarrow> nat \<Rightarrow> regkey list \<Rightarrow> rstate \<Rightarrow> (string \<times> rstate) res" where
  "reg_ls_node fns rec depth (RegKey nd cs) st =
     bind_res (ls_value fns st nd (length cs)) (\<lambda>(s, st1).
       let line = concat (replicate depth ''  '') @ pad 28 (k_path nd) @ ''  ''
             @ pad 6 (val_type_name (vtype (k_val nd))) @ s @ ls_queue nd @ [NL]
       in if rec then bind_res (reg_ls_nodes fns True (depth + 1) cs st1) (\<lambda>(t, st2). Inr (line @ t, st2))
          else Inr (line, st1))"
| "reg_ls_nodes fns rec depth [] st = Inr ([], st)"
| "reg_ls_nodes fns rec depth (c # cs) st =
     bind_res (reg_ls_node fns rec depth c st) (\<lambda>(s, st1).
     bind_res (reg_ls_nodes fns rec depth cs st1) (\<lambda>(t, st2). Inr (s @ t, st2)))"

definition reg_ls :: "fn_table \<Rightarrow> rstate \<Rightarrow> string \<Rightarrow> (string \<times> rstate) res" where
  "reg_ls fns st path =
     (case reg_key (r_root st) path of
        None \<Rightarrow> Inr (''Path '' @ quoted path @ '' not found'' @ [NL], st)
      | Some k \<Rightarrow>
          bind_res (reg_ls_nodes fns False 0 (children k) st) (\<lambda>(s, st1).
            Inr ([NL] @ ''[REGISTRY] '' @ path @ [NL]
              @ pad 28 ''PATH'' @ ''  '' @ pad 6 ''TYPE'' @ ''  VALUE'' @ [NL]
              @ replicate 51 (CHR ''-'') @ [NL] @ s @ [NL], st1)))"

text \<open>\<open>reg_ls_node\<close> returns at once without a stream.\<close>

definition reg_ls_recursive :: "fn_table \<Rightarrow> rstate \<Rightarrow> string \<Rightarrow> bool \<Rightarrow> nat \<Rightarrow> (string \<times> rstate) res" where
  "reg_ls_recursive fns st path has_out depth =
     (case reg_key (r_root st) path of
        None \<Rightarrow> Inr ([], st)
      | Some k \<Rightarrow> if has_out then reg_ls_node fns True depth k st else Inr ([], st))"

text \<open>\<open>%02x\<close>\<close>

definition hex2 :: "u8 \<Rightarrow> string" where
  "hex2 b = [''0123456789abcdef'' ! unat (drop_bit 4 b), ''0123456789abcdef'' ! unat (take_bit 4 b)]"

definition reg_key_print :: "fn_table \<Rightarrow> heap \<Rightarrow> regkey \<Rightarrow> string res" where
  "reg_key_print fns h k =
     (let nd = node k in
      bind_res (if vtype (k_val nd) \<noteq> TYPE_NIL then bind_res (show_val fns h (k_val nd)) (\<lambda>s. Inr ('' val='' @ s)) else Inr [])
        (\<lambda>s. Inr (''['' @ k_path nd @ ''] type='' @ val_type_name (vtype (k_val nd)) @ '' rights='' @ hex2 (k_rights nd) @ s @ [NL])))"

end
