(* ===== verification/Builtins.thy ===== *)
theory Builtins
  imports RegList
begin

section \<open>The built-in functions (\<^verbatim>\<open>lang/builtins.c\<close>)\<close>

unbundle bit_operations_syntax

text \<open>
  \<open>nexs\<close> is the state of an interpreter: the registry with its heap and pipes, the names of the
  global arrays (\<open>g_arrays\<close>), the function table, the text written to the standard output, and the
  fields of the current \<^verbatim>\<open>EvalCtx\<close>. \<open>n_decls\<close> numbers the function declarations, \<open>n_moved\<close> holds
  those whose body has been taken out of the tree, \<open>n_active\<close> the table indices of the functions
  being executed. \<open>n_errstr\<close> is the error text of the system-call module, \<open>n_winsize\<close> what the
  terminal answers and \<open>n_stats\<close> what \<open>buddy_dump_stats\<close> would print: they come from outside.
\<close>

record nexs =
  n_ipc :: istate
  n_arrays :: "nat list"
  n_fns :: fn_table
  n_out :: string
  n_scope :: string
  n_depth :: nat
  n_decls :: nat
  n_moved :: "nat list"
  n_active :: "nat list"
  n_errstr :: string
  n_debug :: bool
  n_winsize :: "(u16 \<times> u16) option"
  n_stats :: string

type_synonym bres = "(val \<times> nexs) res"

abbreviation n_reg :: "nexs \<Rightarrow> rstate" where
  "n_reg st \<equiv> i_reg (n_ipc st)"

abbreviation n_heap :: "nexs \<Rightarrow> heap" where
  "n_heap st \<equiv> r_heap (n_reg st)"

definition put_reg :: "nexs \<Rightarrow> rstate \<Rightarrow> nexs" where
  "put_reg st r = st\<lparr>n_ipc := (n_ipc st)\<lparr>i_reg := r\<rparr>\<rparr>"

definition put_heap :: "nexs \<Rightarrow> heap \<Rightarrow> nexs" where
  "put_heap st h = put_reg st ((n_reg st)\<lparr>r_heap := h\<rparr>)"

text \<open>Operations of the lower components on the whole state.\<close>

definition with_reg :: "(rstate \<Rightarrow> ('a \<times> rstate) res) \<Rightarrow> nexs \<Rightarrow> ('a \<times> nexs) res" where
  "with_reg f st = bind_res (f (n_reg st)) (\<lambda>(x, r). Inr (x, put_reg st r))"

definition with_ipc :: "(istate \<Rightarrow> ('a \<times> istate) res) \<Rightarrow> nexs \<Rightarrow> ('a \<times> nexs) res" where
  "with_ipc f st = bind_res (f (n_ipc st)) (\<lambda>(x, s). Inr (x, st\<lparr>n_ipc := s\<rparr>))"

definition clone_val :: "nexs \<Rightarrow> val \<Rightarrow> bres" where
  "clone_val st v = bind_res (val_clone (n_heap st) v) (\<lambda>(w, h). Inr (w, put_heap st h))"

definition free_val :: "nexs \<Rightarrow> val \<Rightarrow> nexs res" where
  "free_val st v = bind_res (val_free (n_heap st) v) (\<lambda>h. Inr (put_heap st h))"

definition free_all :: "nexs \<Rightarrow> val list \<Rightarrow> nexs res" where
  "free_all st vs = foldl (\<lambda>r v. bind_res r (\<lambda>s. free_val s v)) (Inr st) vs"

definition arr_value :: "nat \<Rightarrow> val" where
  "arr_value a = val_nil\<lparr>vtype := TYPE_ARR, data := DArr a\<rparr>"

text \<open>A string argument that has a buffer.\<close>

definition str_arg :: "val \<Rightarrow> string option" where
  "str_arg v = (if vtype v = TYPE_STR then data_str v else None)"

abbreviation arg_error :: "string \<Rightarrow> nexs \<Rightarrow> bres" where
  "arg_error msg st \<equiv> Inr (val_err 4 msg, st)"

subsection \<open>Conversions\<close>

definition builtin_str :: "val list \<Rightarrow> nexs \<Rightarrow> bres" where
  "builtin_str args st =
     (if args = [] then arg_error ''str: requires 1 argument'' st
      else
        let v = hd args in
        case vtype v of
          TYPE_INT \<Rightarrow> Inr (val_str (trunc MAX_STR_LEN (show_int (sint (ival v)))), st)
        | TYPE_FLOAT \<Rightarrow> Inr (val_str (trunc MAX_STR_LEN (show_g (fval v))), st)
        | TYPE_BOOL \<Rightarrow> Inr (val_str (if ival v \<noteq> 0 then ''true'' else ''false''), st)
        | TYPE_STR \<Rightarrow> clone_val st v
        | TYPE_NIL \<Rightarrow> Inr (val_str ''nil'', st)
        | TYPE_ERR \<Rightarrow> Inr (val_str (case err_msg v of Some s \<Rightarrow> s | None \<Rightarrow> ''unknown error''), st)
        | t \<Rightarrow> Inr (val_str (trunc MAX_STR_LEN (''<'' @ val_type_name t @ ''>'')), st))"

definition builtin_int :: "val list \<Rightarrow> nexs \<Rightarrow> bres" where
  "builtin_int args st =
     (if args = [] then arg_error ''int: requires 1 argument'' st else Inr (val_int (val_to_int (hd args)), st))"

definition builtin_float :: "val list \<Rightarrow> nexs \<Rightarrow> bres" where
  "builtin_float args st =
     (if args = [] then arg_error ''float: requires 1 argument'' st
      else Inr (val_float (val_to_float (hd args)), st))"

definition builtin_len :: "val list \<Rightarrow> nexs \<Rightarrow> bres" where
  "builtin_len args st =
     (if args = [] then arg_error ''len: requires 1 argument'' st
      else
        let v = hd args in
        case str_arg v of
          Some s \<Rightarrow> Inr (val_int (of_nat (length s)), st)
        | None \<Rightarrow>
            (case ref_of v of
               Some a \<Rightarrow>
                 (case arr_at (n_heap st) a of
                    None \<Rightarrow> Inl UseAfterFree
                  | Some arr \<Rightarrow> Inr (val_int (of_nat (asize arr)), st))
             | None \<Rightarrow>
                 if vtype v = TYPE_NIL then Inr (val_int 0, st) else arg_error ''len: unsupported type'' st))"

definition builtin_type :: "val list \<Rightarrow> nexs \<Rightarrow> bres" where
  "builtin_type args st =
     (if args = [] then arg_error ''type: requires 1 argument'' st
      else Inr (val_str (val_type_name (vtype (hd args))), st))"

definition builtin_buddy_stats :: "val list \<Rightarrow> nexs \<Rightarrow> bres" where
  "builtin_buddy_stats args st = Inr (val_nil, st\<lparr>n_out := n_out st @ n_stats st\<rparr>)"

text \<open>\<open>nexs_errstr\<close> exchanges the error text with the empty buffer.\<close>

definition builtin_errstr :: "val list \<Rightarrow> nexs \<Rightarrow> bres" where
  "builtin_errstr args st = Inr (val_str (trunc 256 (n_errstr st)), st\<lparr>n_errstr := []\<rparr>)"

subsection \<open>Strings\<close>

definition builtin_substr :: "val list \<Rightarrow> nexs \<Rightarrow> bres" where
  "builtin_substr args st =
     (if args = [] then arg_error ''substr: requires at least 1 argument'' st
      else case str_arg (hd args) of
        None \<Rightarrow> arg_error ''substr: first argument must be a string'' st
      | Some s \<Rightarrow>
          let slen = of_nat (length s) :: u64;
              start0 = (if 2 \<le> length args then val_to_int (args ! 1) else 0);
              count0 = (if 3 \<le> length args then val_to_int (args ! 2) else slen);
              start1 = (if start0 <s 0 then slen + start0 else start0);
              start = (if start1 <s 0 then 0 else start1) in
          if slen \<le>s start then Inr (val_str [], st)
          else
            let count1 = (if count0 <s 0 then 0 else count0);
                count2 = (if slen <s start + count1 then slen - start else count1);
                count = (if 8192 \<le>s count2 then 8191 else count2)
            in Inr (val_str (take (unat count) (drop (unat start) s)), st))"

text \<open>\<open>strstr\<close>: the position of the first occurrence.\<close>

fun strstr :: "string \<Rightarrow> string \<Rightarrow> nat option" where
  "strstr s sub =
     (if take (length sub) s = sub then Some 0
      else case s of [] \<Rightarrow> None | c # cs \<Rightarrow> map_option Suc (strstr cs sub))"

declare strstr.simps [simp del]

definition builtin_contains :: "val list \<Rightarrow> nexs \<Rightarrow> bres" where
  "builtin_contains args st =
     (if length args < 2 then arg_error ''contains: requires 2 arguments'' st
      else if vtype (args ! 0) \<noteq> TYPE_STR \<or> vtype (args ! 1) \<noteq> TYPE_STR then
        arg_error ''contains: both arguments must be strings'' st
      else Inr (val_bool (strstr (or_empty (data_str (args ! 0))) (or_empty (data_str (args ! 1))) \<noteq> None), st))"

definition builtin_trim :: "val list \<Rightarrow> nexs \<Rightarrow> bres" where
  "builtin_trim args st =
     (if args = [] then arg_error ''trim: requires 1 argument'' st
      else if vtype (hd args) \<noteq> TYPE_STR then arg_error ''trim: argument must be a string'' st
      else
        let buf = trunc MAX_STR_LEN (dropWhile isspace (or_empty (data_str (hd args))))
        in Inr (val_str (rev (dropWhile isspace (rev buf))), st))"

definition toupper :: "char \<Rightarrow> char" where
  "toupper c = (if 97 \<le> (of_char c :: nat) \<and> (of_char c :: nat) \<le> 122 then char_of (of_char c - (32 :: nat)) else c)"

definition tolower :: "char \<Rightarrow> char" where
  "tolower c = (if 65 \<le> (of_char c :: nat) \<and> (of_char c :: nat) \<le> 90 then char_of (of_char c + (32 :: nat)) else c)"

definition builtin_upper :: "val list \<Rightarrow> nexs \<Rightarrow> bres" where
  "builtin_upper args st =
     (if args = [] then arg_error ''upper: requires 1 argument'' st
      else Inr (val_str (List.map toupper (trunc MAX_STR_LEN (or_empty (str_arg (hd args))))), st))"

definition builtin_lower :: "val list \<Rightarrow> nexs \<Rightarrow> bres" where
  "builtin_lower args st =
     (if args = [] then arg_error ''lower: requires 1 argument'' st
      else Inr (val_str (List.map tolower (trunc MAX_STR_LEN (or_empty (str_arg (hd args))))), st))"

text \<open>The pieces of \<open>split\<close>; the last one is not cut to the size of a buffer.\<close>

function split_pieces :: "string \<Rightarrow> string \<Rightarrow> string list" where
  "split_pieces p sep =
     (case strstr p sep of
        None \<Rightarrow> [p]
      | Some i \<Rightarrow>
          if sep = [] then [p]
          else take (min i (MAX_STR_LEN - 1)) p # split_pieces (drop (i + length sep) p) sep)"
  by pat_completeness auto
termination
proof (relation "measure (\<lambda>(p, sep). length p)")
  fix p sep i assume s: "strstr p sep = Some i" and sep: "sep \<noteq> ([] :: string)"
  have "strstr p sep = Some i \<Longrightarrow> sep \<noteq> [] \<Longrightarrow> p \<noteq> []" for p i
    by (cases p) (auto simp: strstr.simps split: if_splits)
  then have "p \<noteq> []" using s sep by blast
  then show "((drop (i + length sep) p, sep), p, sep) \<in> measure (\<lambda>(p, sep). length p)"
    using sep by (cases p; cases sep) auto
qed simp

declare split_pieces.simps [simp del]

text \<open>A new array with the strings, stored one after the other.\<close>

definition string_array :: "nexs \<Rightarrow> string list \<Rightarrow> bres" where
  "string_array st ss =
     (let (a, h) = arr_create_anon (n_heap st) in
      bind_res (foldl (\<lambda>r (i, s). bind_res r (\<lambda>h. arr_set h a (of_nat i) (val_str s))) (Inr h)
        (zip [0..<length ss] ss)) (\<lambda>h'.
      Inr (arr_value a, put_heap st h')))"

definition builtin_split :: "val list \<Rightarrow> nexs \<Rightarrow> bres" where
  "builtin_split args st =
     (if length args < 2 then arg_error ''split: requires string and separator'' st
      else if vtype (args ! 0) \<noteq> TYPE_STR \<or> vtype (args ! 1) \<noteq> TYPE_STR then
        arg_error ''split: both arguments must be strings'' st
      else
        let s = or_empty (data_str (args ! 0)); sep = or_empty (data_str (args ! 1))
        in string_array st (if sep = [] then List.map (\<lambda>c. [c]) s else split_pieces s sep))"

definition builtin_replace :: "val list \<Rightarrow> nexs \<Rightarrow> bres" where
  "builtin_replace args st =
     (if length args < 3 then arg_error ''replace: requires 3 arguments'' st
      else if vtype (args ! 0) \<noteq> TYPE_STR \<or> vtype (args ! 1) \<noteq> TYPE_STR \<or> vtype (args ! 2) \<noteq> TYPE_STR then
        arg_error ''replace: all arguments must be strings'' st
      else
        let s = or_empty (data_str (args ! 0)); old = or_empty (data_str (args ! 1));
            rep = or_empty (data_str (args ! 2)) in
        if old = [] then clone_val st (args ! 0)
        else case strstr s old of
          None \<Rightarrow> clone_val st (args ! 0)
        | Some i \<Rightarrow>
            Inr (val_str (trunc (MAX_STR_LEN * 2) (take i s @ rep @ drop (i + length old) s)), st))"

text \<open>The lines of a text; an empty last line is dropped.\<close>

fun lines_from :: "string \<Rightarrow> string \<Rightarrow> string list" where
  "lines_from line [] = (if line = [] then [] else [line])"
| "lines_from line (c # cs) = (if c = NL then line # lines_from [] cs else lines_from (line @ [c]) cs)"

definition builtin_lines_of :: "val list \<Rightarrow> nexs \<Rightarrow> bres" where
  "builtin_lines_of args st =
     (if args = [] \<or> str_arg (hd args) = None then arg_error ''lines_of: requires string'' st
      else string_array st (lines_from [] (or_empty (str_arg (hd args)))))"

subsection \<open>Numbers\<close>

definition builtin_abs :: "val list \<Rightarrow> nexs \<Rightarrow> bres" where
  "builtin_abs args st =
     (if args = [] then arg_error ''abs: requires 1 argument'' st
      else if vtype (hd args) = TYPE_FLOAT then
        let f = fval (hd args) in Inr (val_float (if f64_lt f 0 then f64_neg f else f), st)
      else let v = val_to_int (hd args) in Inr (val_int (if v <s 0 then - v else v), st))"

definition builtin_min :: "val list \<Rightarrow> nexs \<Rightarrow> bres" where
  "builtin_min args st =
     (if length args < 2 then arg_error ''min: requires 2 arguments'' st
      else if vtype (args ! 0) = TYPE_FLOAT \<or> vtype (args ! 1) = TYPE_FLOAT then
        let a = val_to_float (args ! 0); b = val_to_float (args ! 1)
        in Inr (val_float (if f64_lt a b then a else b), st)
      else let a = val_to_int (args ! 0); b = val_to_int (args ! 1) in Inr (val_int (if a <s b then a else b), st))"

definition builtin_max :: "val list \<Rightarrow> nexs \<Rightarrow> bres" where
  "builtin_max args st =
     (if length args < 2 then arg_error ''max: requires 2 arguments'' st
      else if vtype (args ! 0) = TYPE_FLOAT \<or> vtype (args ! 1) = TYPE_FLOAT then
        let a = val_to_float (args ! 0); b = val_to_float (args ! 1)
        in Inr (val_float (if f64_lt b a then a else b), st)
      else let a = val_to_int (args ! 0); b = val_to_int (args ! 1) in Inr (val_int (if b <s a then a else b), st))"

subsection \<open>The registry\<close>

text \<open>Every registry builtin takes a path first.\<close>

definition with_path :: "string \<Rightarrow> val list \<Rightarrow> nexs \<Rightarrow> (string \<Rightarrow> bres) \<Rightarrow> bres" where
  "with_path msg args st f = (case str_arg (hd args) of None \<Rightarrow> arg_error msg st | Some path \<Rightarrow> f path)"

definition builtin_keys :: "val list \<Rightarrow> nexs \<Rightarrow> bres" where
  "builtin_keys args st =
     (if args = [] then arg_error ''keys: requires a path string'' st
      else with_path ''keys: argument must be a string path'' args st (\<lambda>path.
        case reg_key (r_root (n_reg st)) path of
          None \<Rightarrow> arg_error ''keys: path not found'' st
        | Some k \<Rightarrow> string_array st (List.map key_name (children k))))"

text \<open>\<open>print_reg\<close> passes no stream to \<open>reg_ls_recursive\<close>.\<close>

definition builtin_print_reg :: "val list \<Rightarrow> fn_table \<Rightarrow> nexs \<Rightarrow> bres" where
  "builtin_print_reg args fns st =
     (if args = [] then arg_error ''print_reg: requires a path string'' st
      else with_path ''print_reg: argument must be a string path'' args st (\<lambda>path.
        bind_res (with_reg (\<lambda>r. reg_ls_recursive fns r path False 0) st) (\<lambda>(s, st1).
        Inr (val_nil, st1\<lparr>n_out := n_out st1 @ s\<rparr>))))"

definition builtin_reg_get :: "val list \<Rightarrow> nexs \<Rightarrow> bres" where
  "builtin_reg_get args st =
     (if args = [] then arg_error ''reg_get: requires a path string'' st
      else with_path ''reg_get: argument must be a string path'' args st (\<lambda>path.
        with_reg (\<lambda>r. reg_get r path) st))"

definition builtin_reg_set_fn :: "val list \<Rightarrow> nexs \<Rightarrow> bres" where
  "builtin_reg_set_fn args st =
     (if length args < 2 then arg_error ''reg_set: requires path and value'' st
      else with_path ''reg_set: first argument must be a string path'' args st (\<lambda>path.
        bind_res (with_reg (\<lambda>r. reg_set r path (args ! 1) RK_ALL) st) (\<lambda>(rc, st1). Inr (val_nil, st1))))"

definition builtin_reg_del :: "val list \<Rightarrow> nexs \<Rightarrow> bres" where
  "builtin_reg_del args st =
     (if args = [] then arg_error ''reg_del: requires a path string'' st
      else with_path ''reg_del: argument must be a string path'' args st (\<lambda>path.
        bind_res (with_reg (\<lambda>r. reg_delete r path) st) (\<lambda>(rc, st1). Inr (val_nil, st1))))"

subsection \<open>Arrays\<close>

definition builtin_term_size :: "val list \<Rightarrow> nexs \<Rightarrow> bres" where
  "builtin_term_size args st =
     (let (cols, rows) = (case n_winsize st of Some w \<Rightarrow> w | None \<Rightarrow> (80, 24));
          (a, h) = arr_create_anon (n_heap st) in
      bind_res (arr_set h a 0 (val_int (ucast cols))) (\<lambda>h1.
      bind_res (arr_set h1 a 1 (val_int (ucast rows))) (\<lambda>h2.
      Inr (arr_value a, put_heap st h2))))"

definition builtin_arr_create_anon :: "val list \<Rightarrow> nexs \<Rightarrow> bres" where
  "builtin_arr_create_anon args st =
     (let (a, h) = arr_create_anon (n_heap st) in Inr (arr_value a, put_heap st h))"

text \<open>
  The loop of \<open>arr_join\<close>: \<open>res\<close> is what is in the buffer of 16384 bytes, \<open>pos\<close> its length. The
  length of the copy may become negative, and then \<open>memcpy\<close> leaves the buffer.
\<close>

fun join_loop :: "string \<Rightarrow> val list \<Rightarrow> string \<Rightarrow> string res" where
  "join_loop sep [] res = Inr res"
| "join_loop sep (v # vs) res =
     (if MAX_STR_LEN * 2 - 2 \<le> length res then Inr res
      else
        let s = or_empty (str_arg v);
            room = int (MAX_STR_LEN * 2) - int (length res) - int (length sep) - 1;
            slen = (if int (MAX_STR_LEN * 2) - 1 \<le> int (length res + length s + length sep) then room else int (length s))
        in if slen < 0 then Inl OutOfBounds
           else join_loop sep vs (res @ take (nat slen) s @ (if vs = [] then [] else sep)))"

definition builtin_arr_join :: "val list \<Rightarrow> nexs \<Rightarrow> bres" where
  "builtin_arr_join args st =
     (if args = [] then arg_error ''arr_join: requires arr'' st
      else case ref_of (hd args) of
        None \<Rightarrow> arg_error ''arr_join: requires arr'' st
      | Some a \<Rightarrow>
          (case arr_at (n_heap st) a of
             None \<Rightarrow> Inl UseAfterFree
           | Some arr \<Rightarrow>
               let sep = (if 2 \<le> length args then (case str_arg (args ! 1) of Some s \<Rightarrow> s | None \<Rightarrow> [NL]) else [NL])
               in bind_res (join_loop sep (take (asize arr) (items arr)) []) (\<lambda>s. Inr (val_str s, st))))"

text \<open>\<open>arr_ins\<close> checks nothing but the type: an index beyond the capacity is a write out of bounds.\<close>

definition builtin_arr_ins :: "val list \<Rightarrow> nexs \<Rightarrow> bres" where
  "builtin_arr_ins args st =
     (if length args < 3 then arg_error ''arr_ins: arr, idx, val'' st
      else case ref_of (hd args) of
        None \<Rightarrow> arg_error ''arr_ins: arr, idx, val'' st
      | Some a \<Rightarrow>
          let idx = unat (val_to_int (args ! 1)) in
          bind_res (val_clone (n_heap st) (args ! 2)) (\<lambda>(w, h).
            case arr_at h a of
              None \<Rightarrow> Inl UseAfterFree
            | Some arr0 \<Rightarrow>
                bind_res (arr_ensure_cap arr0 (of_nat (asize arr0))) (\<lambda>arr.
                  if length (items arr) \<le> idx then Inl OutOfBounds
                  else
                    let n = asize arr; xs = items arr;
                        ys = (if idx < n then take idx xs @ [xs ! idx] @ drop idx (take n xs) @ drop (n + 1) xs else xs)
                    in Inr (val_nil, put_heap st (h[a := Some (arr\<lparr>items := ys[idx := w], asize := n + 1\<rparr>)])))))"

definition builtin_arr_del :: "val list \<Rightarrow> nexs \<Rightarrow> bres" where
  "builtin_arr_del args st =
     (if length args < 2 then arg_error ''arr_del: arr, idx'' st
      else case ref_of (hd args) of
        None \<Rightarrow> arg_error ''arr_del: arr, idx'' st
      | Some a \<Rightarrow>
          let idx = unat (val_to_int (args ! 1)) in
          (case arr_at (n_heap st) a of
             None \<Rightarrow> Inl UseAfterFree
           | Some arr \<Rightarrow>
               if asize arr \<le> idx then Inr (val_nil, st)
               else bind_res (free_slot (n_heap st) a arr idx) (\<lambda>h.
                 case arr_at h a of
                   None \<Rightarrow> Inl UseAfterFree
                 | Some arr1 \<Rightarrow>
                     let n = asize arr1; xs = items arr1;
                         ys = take idx xs @ drop (idx + 1) (take n xs) @ drop (n - 1) xs
                     in Inr (val_nil, put_heap st (h[a := Some (arr1\<lparr>items := ys, asize := n - 1\<rparr>)])))))"

subsection \<open>Messages and pointers\<close>

definition nexs_builtin_sendmsg :: "val list \<Rightarrow> nexs \<Rightarrow> bres" where
  "nexs_builtin_sendmsg args st =
     (if length args < 2 then arg_error ''sendmsg: requires path and value'' st
      else with_path ''sendmsg: first argument must be a string path'' args st (\<lambda>path.
        bind_res (with_ipc (\<lambda>s. reg_ipc_send s path (args ! 1)) st) (\<lambda>(rc, st1). Inr (val_int (of_int rc), st1))))"

definition nexs_builtin_recvmsg :: "val list \<Rightarrow> nexs \<Rightarrow> bres" where
  "nexs_builtin_recvmsg args st =
     (if args = [] then arg_error ''recvmsg: requires path'' st
      else with_path ''recvmsg: argument must be a string path'' args st (\<lambda>path.
        bind_res (with_ipc (\<lambda>s. reg_ipc_recv s path) st) (\<lambda>(m, st1).
          Inr (case m of None \<Rightarrow> val_nil | Some v \<Rightarrow> v, st1))))"

definition nexs_builtin_msgpending :: "val list \<Rightarrow> nexs \<Rightarrow> bres" where
  "nexs_builtin_msgpending args st =
     (if args = [] then arg_error ''msgpending: requires path'' st
      else with_path ''msgpending: argument must be a string path'' args st (\<lambda>path.
        Inr (val_int (of_int (reg_ipc_pending (n_ipc st) path)), st)))"

definition nexs_builtin_ptr :: "val list \<Rightarrow> nexs \<Rightarrow> bres" where
  "nexs_builtin_ptr args st =
     (if args = [] then arg_error ''ptr: requires a path string'' st
      else with_path ''ptr: argument must be a string path'' args st (\<lambda>path. Inr (val_ptr path, st)))"

definition nexs_builtin_deref :: "val list \<Rightarrow> nexs \<Rightarrow> bres" where
  "nexs_builtin_deref args st =
     (if args = [] then arg_error ''deref: requires a path string'' st
      else with_path ''deref: argument must be a string path'' args st (\<lambda>path.
        with_reg (\<lambda>r. reg_get_deref r path) st))"

definition builtin_sleep :: "val list \<Rightarrow> nexs \<Rightarrow> bres" where
  "builtin_sleep args st = (if args = [] then arg_error ''sleep: requires ms'' st else Inr (val_nil, st))"

definition builtin_sys_debug :: "val list \<Rightarrow> nexs \<Rightarrow> bres" where
  "builtin_sys_debug args st =
     (let st1 = (if args \<noteq> [] then st\<lparr>n_debug := val_is_truthy (hd args)\<rparr> else st)
      in Inr (val_bool (n_debug st1), st1))"

subsection \<open>Dispatch and registration\<close>

text \<open>The call through the function pointer; \<open>eval_fn\<close> is the builtin \<open>eval\<close>, in \<^verbatim>\<open>Eval.thy\<close>.\<close>

definition call_builtin :: "(val list \<Rightarrow> nexs \<Rightarrow> bres) \<Rightarrow> builtin \<Rightarrow> val list \<Rightarrow> nexs \<Rightarrow> bres" where
  "call_builtin eval_fn b args st =
     (case b of
        B_STR \<Rightarrow> builtin_str args st | B_INT \<Rightarrow> builtin_int args st | B_FLOAT \<Rightarrow> builtin_float args st
      | B_LEN \<Rightarrow> builtin_len args st | B_TYPE \<Rightarrow> builtin_type args st
      | B_BUDDY_STATS \<Rightarrow> builtin_buddy_stats args st | B_ERRSTR \<Rightarrow> builtin_errstr args st
      | B_EVAL \<Rightarrow> eval_fn args st
      | B_SUBSTR \<Rightarrow> builtin_substr args st | B_CONTAINS \<Rightarrow> builtin_contains args st
      | B_TRIM \<Rightarrow> builtin_trim args st | B_UPPER \<Rightarrow> builtin_upper args st | B_LOWER \<Rightarrow> builtin_lower args st
      | B_SPLIT \<Rightarrow> builtin_split args st | B_REPLACE \<Rightarrow> builtin_replace args st
      | B_ABS \<Rightarrow> builtin_abs args st | B_MIN \<Rightarrow> builtin_min args st | B_MAX \<Rightarrow> builtin_max args st
      | B_REG_GET \<Rightarrow> builtin_reg_get args st | B_REG_SET \<Rightarrow> builtin_reg_set_fn args st
      | B_REG_DEL \<Rightarrow> builtin_reg_del args st | B_ARR_JOIN \<Rightarrow> builtin_arr_join args st
      | B_ARR_INS \<Rightarrow> builtin_arr_ins args st | B_ARR_DEL \<Rightarrow> builtin_arr_del args st
      | B_ARR_CREATE_ANON \<Rightarrow> builtin_arr_create_anon args st
      | B_KEYS \<Rightarrow> builtin_keys args st | B_PRINT_REG \<Rightarrow> builtin_print_reg args (n_fns st) st
      | B_LINES_OF \<Rightarrow> builtin_lines_of args st
      | B_SENDMSG \<Rightarrow> nexs_builtin_sendmsg args st | B_RECVMSG \<Rightarrow> nexs_builtin_recvmsg args st
      | B_MSGPENDING \<Rightarrow> nexs_builtin_msgpending args st
      | B_PTR \<Rightarrow> nexs_builtin_ptr args st | B_DEREF \<Rightarrow> nexs_builtin_deref args st
      | B_SLEEP \<Rightarrow> builtin_sleep args st | B_TERM_SIZE \<Rightarrow> builtin_term_size args st
      | B_SYS_DEBUG \<Rightarrow> builtin_sys_debug args st)"

definition register_builtin_sig :: "nexs \<Rightarrow> string \<Rightarrow> builtin \<Rightarrow> string \<Rightarrow> nexs res" where
  "register_builtin_sig st name fn sig =
     (let (idx, fns) = fn_register_builtin_sig (n_fns st) name fn (Some sig); st1 = st\<lparr>n_fns := fns\<rparr> in
      if 0 \<le> idx then
        bind_res (with_reg (\<lambda>r. reg_set r (trunc REG_PATH_MAX (''/sys/'' @ name)) (val_fn_idx (of_int idx)) RK_RX) st1)
          (\<lambda>(rc, st2). Inr st2)
      else Inr st1)"

definition arrow :: string where
  "arrow = '' '' @ [CHR 0xE2, CHR 0x86, CHR 0x92] @ '' ''"

definition standard_builtins :: "(string \<times> builtin \<times> string \<times> string) list" where
  "standard_builtins =
     [(''str'', B_STR, ''str(value)'', ''str''), (''int'', B_INT, ''int(value)'', ''int''),
      (''float'', B_FLOAT, ''float(value)'', ''float''), (''len'', B_LEN, ''len(str|arr)'', ''int''),
      (''type'', B_TYPE, ''type(value)'', ''str''), (''buddy_stats'', B_BUDDY_STATS, ''buddy_stats()'', ''nil''),
      (''errstr'', B_ERRSTR, ''errstr()'', ''str''), (''eval'', B_EVAL, ''eval(src str)'', ''value''),
      (''substr'', B_SUBSTR, ''substr(s str, start int, len int)'', ''str''),
      (''contains'', B_CONTAINS, ''contains(s str, sub str)'', ''bool''), (''trim'', B_TRIM, ''trim(s str)'', ''str''),
      (''upper'', B_UPPER, ''upper(s str)'', ''str''), (''lower'', B_LOWER, ''lower(s str)'', ''str''),
      (''split'', B_SPLIT, ''split(s str, sep str)'', ''arr''),
      (''replace'', B_REPLACE, ''replace(s str, old str, new str)'', ''str''),
      (''abs'', B_ABS, ''abs(n)'', ''num''), (''min'', B_MIN, ''min(a, b)'', ''num''), (''max'', B_MAX, ''max(a, b)'', ''num''),
      (''reg_get'', B_REG_GET, ''reg_get(path str)'', ''value''),
      (''reg_set'', B_REG_SET, ''reg_set(path str, value)'', ''nil''), (''reg_del'', B_REG_DEL, ''reg_del(path str)'', ''nil''),
      (''arr_join'', B_ARR_JOIN, ''arr_join(arr, sep str)'', ''str''),
      (''arr_ins'', B_ARR_INS, ''arr_ins(arr, idx int, val)'', ''nil''),
      (''arr_del'', B_ARR_DEL, ''arr_del(arr, idx int)'', ''nil''),
      (''arr_create_anon'', B_ARR_CREATE_ANON, ''arr_create_anon()'', ''arr''),
      (''keys'', B_KEYS, ''keys(path str)'', ''arr''), (''print_reg'', B_PRINT_REG, ''print_reg(path str)'', ''nil''),
      (''lines_of'', B_LINES_OF, ''lines_of(s str)'', ''arr''),
      (''sendmessage'', B_SENDMSG, ''sendmessage(path str, value)'', ''int''),
      (''receivemessage'', B_RECVMSG, ''receivemessage(path str)'', ''value''),
      (''msgpending'', B_MSGPENDING, ''msgpending(path str)'', ''int''),
      (''mkptr'', B_PTR, ''mkptr(path str)'', ''ptr''), (''deref'', B_DEREF, ''deref(path str)'', ''value''),
      (''sleep'', B_SLEEP, ''sleep(ms int)'', ''nil''), (''term_size'', B_TERM_SIZE, ''term_size()'', ''arr''),
      (''sys_debug'', B_SYS_DEBUG, ''sys_debug(on bool)'', ''bool'')]"

text \<open>
  The C function at an address stored in a registry value (\<open>DFn\<close>): the number is its place in the
  table above.
\<close>

definition builtin_at :: "nat \<Rightarrow> builtin option" where
  "builtin_at a = (if a < length standard_builtins then Some (fst (snd (standard_builtins ! a))) else None)"

definition builtins_register_all :: "nexs \<Rightarrow> nexs res" where
  "builtins_register_all st =
     foldl (\<lambda>r (name, fn, s, t). bind_res r (\<lambda>s'. register_builtin_sig s' name fn (s @ arrow @ t))) (Inr st)
       standard_builtins"

end
