(* ===== verification/Eval.thy ===== *)
theory Eval
  imports Builtins
begin

section \<open>The evaluator (\<^verbatim>\<open>lang/eval.c\<close>)\<close>

text \<open>
  \<open>eval_node n\<close> evaluates a node with \<open>n\<close> nested calls left; \<open>OutOfFuel\<close> stands for deeper nesting and
  longer loops, and is no result of the program (\<^verbatim>\<open>Eval_Facts.thy\<close> shows that a result does not
  depend on the fuel). Each case of the C \<open>switch\<close> is a definition whose argument \<open>ev\<close> is the
  recursive call. The debug output and the parse errors on \<open>stderr\<close> are not kept.

  A declaration that replaces a function while it runs frees the tree being evaluated. The model
  stops there with \<open>UseAfterFree\<close>; the C code reads the freed nodes unless every call that is
  still open is the operand of a \<open>ret\<close>.
\<close>

datatype ctrl_sig = CTRL_NONE | CTRL_BREAK | CTRL_CONT | CTRL_RET | CTRL_ERR

type_synonym eres = "(ctrl_sig \<times> val \<times> nexs) res"
type_synonym ev = "ast option \<Rightarrow> nexs \<Rightarrow> eres"

definition ok :: "val \<Rightarrow> nexs \<Rightarrow> eres" where
  "ok v st = Inr (CTRL_NONE, v, st)"

definition err_result :: "string \<Rightarrow> nexs \<Rightarrow> eres" where
  "err_result msg st = Inr (CTRL_ERR, val_err 99 msg, st)"

definition eval_ctx_init :: "nexs \<Rightarrow> nexs" where
  "eval_ctx_init st = st\<lparr>n_scope := ''/'', n_depth := 0\<rparr>"

text \<open>Evaluate a child; any signal but \<open>CTRL_NONE\<close> is the result.\<close>

definition bind_ev :: "eres \<Rightarrow> (val \<Rightarrow> nexs \<Rightarrow> eres) \<Rightarrow> eres" where
  "bind_ev r f = bind_res r (\<lambda>(sig, v, st). if sig \<noteq> CTRL_NONE then Inr (sig, v, st) else f v st)"

text \<open>The value, cloned for the caller, with the original released.\<close>

definition ok_clone :: "val \<Rightarrow> nexs \<Rightarrow> eres" where
  "ok_clone v st = bind_res (clone_val st v) (\<lambda>(w, st1). bind_res (free_val st1 v) (\<lambda>st2. ok w st2))"

definition ok_free :: "val \<Rightarrow> val \<Rightarrow> nexs \<Rightarrow> eres" where
  "ok_free v w st = bind_res (free_val st v) (\<lambda>st1. ok w st1)"

definition ok_res :: "bres \<Rightarrow> eres" where
  "ok_res r = bind_res r (\<lambda>(v, st). ok v st)"

subsection \<open>Blocks\<close>

definition block_children :: "ast \<Rightarrow> ast list" where
  "block_children a = (case a of AST_PROGRAM ss \<Rightarrow> ss | AST_BLOCK ss \<Rightarrow> ss | _ \<Rightarrow> [])"

fun eval_stmts :: "ev \<Rightarrow> ast list \<Rightarrow> val \<Rightarrow> nexs \<Rightarrow> eres" where
  "eval_stmts ev [] lv st = ok lv st"
| "eval_stmts ev (s # ss) lv st =
     bind_ev (ev (Some s) st) (\<lambda>v st1.
       bind_res (free_val st1 lv) (\<lambda>st2.
       bind_res (clone_val st2 v) (\<lambda>(w, st3).
       bind_res (free_val st3 v) (\<lambda>st4. eval_stmts ev ss w st4))))"

definition eval_block :: "ev \<Rightarrow> ast option \<Rightarrow> nexs \<Rightarrow> eres" where
  "eval_block ev block st =
     (case block of None \<Rightarrow> ok val_nil st | Some b \<Rightarrow> eval_stmts ev (block_children b) val_nil st)"

subsection \<open>Operators\<close>

definition apply_op :: "string \<Rightarrow> val \<Rightarrow> val \<Rightarrow> val res" where
  "apply_op op a b =
     (if op = ''+'' then val_add a b else if op = ''-'' then val_sub a b
      else if op = ''*'' then val_mul a b else if op = ''/'' then val_div a b
      else if op = ''%'' then val_mod a b else if op = ''=='' then Inr (val_eq a b)
      else if op = ''!='' then Inr (val_ne a b) else if op = ''<'' then Inr (val_lt a b)
      else if op = ''>'' then Inr (val_gt a b) else if op = ''<='' then Inr (val_le a b)
      else if op = ''>='' then Inr (val_ge a b) else if op = ''&&'' then Inr (val_and a b)
      else if op = ''||'' then Inr (val_or a b) else Inr (val_err 5 ''unknown operator''))"

definition eval_binop :: "ev \<Rightarrow> string \<Rightarrow> ast \<Rightarrow> ast \<Rightarrow> nexs \<Rightarrow> eres" where
  "eval_binop ev op l r st =
     bind_ev (ev (Some l) st) (\<lambda>a st1.
       bind_res (ev (Some r) st1) (\<lambda>(sig, b, st2).
         if sig \<noteq> CTRL_NONE then bind_res (free_val st2 a) (\<lambda>st3. Inr (sig, b, st3))
         else bind_res (apply_op op a b) (\<lambda>res.
           bind_res (free_val st2 a) (\<lambda>st3. ok_free b res st3))))"

definition eval_unop :: "ev \<Rightarrow> ast option \<Rightarrow> nexs \<Rightarrow> eres" where
  "eval_unop ev e st = bind_ev (ev e st) (\<lambda>v st1. ok_free v (val_not v) st1)"

subsection \<open>Names and arrays\<close>

definition resolve :: "nexs \<Rightarrow> string \<Rightarrow> regnode option" where
  "resolve st name =
     (case reg_resolve (r_root (n_reg st)) name (n_scope st) of
        None \<Rightarrow> None
      | Some p \<Rightarrow> map_option node (node_at (r_root (n_reg st)) p))"

definition scoped :: "nexs \<Rightarrow> string \<Rightarrow> string" where
  "scoped st name = trunc REG_PATH_MAX (n_scope st @ ''/'' @ name)"

definition set_reg :: "string \<Rightarrow> val \<Rightarrow> u8 \<Rightarrow> nexs \<Rightarrow> nexs res" where
  "set_reg path v rights st = bind_res (with_reg (\<lambda>r. reg_set r path v rights) st) (\<lambda>(rc, st1). Inr st1)"

definition eval_ident :: "string \<Rightarrow> nexs \<Rightarrow> eres" where
  "eval_ident name st =
     (if name = [] then ok val_nil st
      else case resolve st name of
        None \<Rightarrow> err_result (trunc 128 (''name not found: '' @ quoted name)) st
      | Some nd \<Rightarrow> ok_res (clone_val st (k_val nd)))"

definition eval_assign :: "ev \<Rightarrow> string \<Rightarrow> ast option \<Rightarrow> nexs \<Rightarrow> eres" where
  "eval_assign ev name e st =
     bind_ev (ev e st) (\<lambda>v st1.
       bind_res (set_reg (case resolve st1 name of Some nd \<Rightarrow> k_path nd | None \<Rightarrow> scoped st1 name) v RK_ALL st1)
         (ok_clone v))"

text \<open>The array a name stands for: the value of its key, or else the global array of that name.\<close>

definition find_array :: "nexs \<Rightarrow> string \<Rightarrow> nat option res" where
  "find_array st name =
     (case Option.bind (resolve st name) (\<lambda>nd. ref_of (k_val nd)) of
        Some a \<Rightarrow> Inr (Some a)
      | None \<Rightarrow> arr_get (n_heap st) (n_arrays st) name)"

definition eval_index :: "ev \<Rightarrow> string \<Rightarrow> ast option \<Rightarrow> nexs \<Rightarrow> eres" where
  "eval_index ev name e st =
     bind_ev (ev e st) (\<lambda>i st1.
       let idx = val_to_int i in
       bind_res (free_val st1 i) (\<lambda>st2.
       bind_res (find_array st2 name) (\<lambda>arr.
         case arr of
           None \<Rightarrow> err_result ''array not found'' st2
         | Some a \<Rightarrow>
             if idx <s 0 then err_result ''negative index'' st2
             else bind_res (arr_get_at (n_heap st2) a idx) (\<lambda>(v, h). ok v (put_heap st2 h)))))"

text \<open>For an assignment the array is made, and its key set, where there is none.\<close>

definition find_or_make_array :: "nexs \<Rightarrow> string \<Rightarrow> (nat \<times> nexs) res" where
  "find_or_make_array st name =
     (case Option.bind (resolve st name) (\<lambda>nd. ref_of (k_val nd)) of
        Some a \<Rightarrow> Inr (a, st)
      | None \<Rightarrow>
          bind_res (arr_get_or_create (n_heap st) (n_arrays st) name) (\<lambda>(a, h, arrs).
            let st1 = (put_heap st h)\<lparr>n_arrays := arrs\<rparr> in
            bind_res (set_reg (scoped st1 name) (arr_value a) RK_ALL st1) (\<lambda>st2. Inr (a, st2))))"

definition eval_index_assign :: "ev \<Rightarrow> string \<Rightarrow> ast option \<Rightarrow> ast option \<Rightarrow> nexs \<Rightarrow> eres" where
  "eval_index_assign ev name ie e st =
     bind_ev (ev ie st) (\<lambda>i st1.
       bind_res (ev e st1) (\<lambda>(sig, v, st2).
         if sig \<noteq> CTRL_NONE then bind_res (free_val st2 i) (\<lambda>st3. Inr (sig, v, st3))
         else
           let idx = val_to_int i in
           bind_res (free_val st2 i) (\<lambda>st3.
             if idx <s 0 then bind_res (free_val st3 v) (\<lambda>st4. err_result ''negative index'' st4)
             else
               bind_res (find_or_make_array st3 name) (\<lambda>(a, st4).
               bind_res (arr_set (n_heap st4) a idx v) (\<lambda>h. ok_clone v (put_heap st4 h))))))"

definition eval_del :: "ev \<Rightarrow> string \<Rightarrow> ast option \<Rightarrow> nexs \<Rightarrow> eres" where
  "eval_del ev name e st =
     bind_ev (ev e st) (\<lambda>i st1.
       let idx = val_to_int i in
       bind_res (free_val st1 i) (\<lambda>st2.
       bind_res (find_array st2 name) (\<lambda>arr.
         case arr of
           Some a \<Rightarrow>
             if 0 \<le>s idx then bind_res (arr_delete (n_heap st2) a idx) (\<lambda>h. ok val_nil (put_heap st2 h))
             else ok val_nil st2
         | None \<Rightarrow> ok val_nil st2)))"

subsection \<open>Output, the registry, the scope\<close>

definition emit :: "string \<Rightarrow> nexs \<Rightarrow> nexs" where
  "emit s st = st\<lparr>n_out := n_out st @ s\<rparr>"

definition eval_out :: "ev \<Rightarrow> ast option \<Rightarrow> nexs \<Rightarrow> eres" where
  "eval_out ev e st =
     bind_ev (ev e st) (\<lambda>v st1.
       bind_res (show_val (n_fns st1) (n_heap st1) v) (\<lambda>s. ok_free v val_nil (emit (s @ [NL]) st1)))"

definition eval_reg_set :: "ev \<Rightarrow> string \<Rightarrow> ast option \<Rightarrow> nexs \<Rightarrow> eres" where
  "eval_reg_set ev path e st =
     bind_ev (ev e st) (\<lambda>v st1. bind_res (set_reg path v RK_ALL st1) (ok_clone v))"

text \<open>A path that is relative to the scope.\<close>

definition abs_path :: "nexs \<Rightarrow> string \<Rightarrow> string" where
  "abs_path st path =
     (if path \<noteq> [] \<and> hd path = CHR ''/'' then trunc REG_PATH_MAX path
      else nexs_path_join REG_PATH_MAX [n_scope st, path])"

definition eval_ls :: "string \<Rightarrow> nexs \<Rightarrow> eres" where
  "eval_ls path st =
     bind_res (with_reg (\<lambda>r. reg_ls (n_fns st) r (abs_path st path)) st) (\<lambda>(s, st1). ok val_nil (emit s st1))"

definition eval_cd :: "ev \<Rightarrow> string \<Rightarrow> ast option \<Rightarrow> nexs \<Rightarrow> eres" where
  "eval_cd ev path e st =
     (if path \<noteq> [] then ok val_nil (st\<lparr>n_scope := trunc REG_PATH_MAX (abs_path st path)\<rparr>)
      else if e = None then ok val_nil st
      else bind_ev (ev e st) (\<lambda>v st1.
        ok_free v val_nil (st1\<lparr>n_scope := trunc REG_PATH_MAX (abs_path st1 (or_empty (str_arg v)))\<rparr>)))"

subsection \<open>Functions\<close>

text \<open>
  The body is taken out of the node: \<open>n_moved\<close> has the declarations that were evaluated before,
  which register no body.
\<close>

definition eval_fn_decl :: "nat \<Rightarrow> string \<Rightarrow> string list \<Rightarrow> ast option \<Rightarrow> nexs \<Rightarrow> eres" where
  "eval_fn_decl d name params body st =
     (if (case user_slot (n_fns st) name of Some i \<Rightarrow> i \<in> set (n_active st) | None \<Rightarrow> False) then Inl UseAfterFree
      else
        let (idx, fns) = fn_register (n_fns st) name (if d \<in> set (n_moved st) then None else body) params;
            st1 = st\<lparr>n_fns := fns, n_moved := d # n_moved st\<rparr> in
        if idx < 0 then err_result ''fn_register: table full'' st1
        else bind_res (set_reg (trunc REG_PATH_MAX (''/fn/'' @ name)) (val_fn_idx (of_int idx)) RK_RX st1) (ok val_nil))"

text \<open>The arguments, left to right; a signal releases those evaluated before.\<close>

fun eval_args :: "ev \<Rightarrow> ast option list \<Rightarrow> val list \<Rightarrow> nexs \<Rightarrow> (ctrl_sig \<times> val \<times> val list \<times> nexs) res" where
  "eval_args ev [] vs st = Inr (CTRL_NONE, val_nil, vs, st)"
| "eval_args ev (e # es) vs st =
     bind_res (ev e st) (\<lambda>(sig, v, st1).
       if sig \<noteq> CTRL_NONE then bind_res (free_all st1 vs) (\<lambda>st2. Inr (sig, v, [], st2))
       else eval_args ev es (vs @ [v]) st1)"

datatype callee = Table nat | Legacy nat | NoFunction

definition find_function :: "nexs \<Rightarrow> string \<Rightarrow> callee" where
  "find_function st name =
     (case fn_lookup (n_fns st) name of
        Some i \<Rightarrow> Table i
      | None \<Rightarrow>
          (case (case resolve st name of
                   Some nd \<Rightarrow> Some nd
                 | None \<Rightarrow> map_option node (reg_key (r_root (n_reg st)) (trunc REG_PATH_MAX (''/sys/'' @ name)))) of
             None \<Rightarrow> NoFunction
           | Some nd \<Rightarrow>
               if vtype (k_val nd) \<noteq> TYPE_FN then NoFunction
               else case data (k_val nd) of
                 DFn a \<Rightarrow>
                   if ival (k_val nd) = 1 then Legacy a
                   else (case fn_lookup_by_idx (n_fns st) (to_cint (ival (k_val nd))) of Some i \<Rightarrow> Table i | None \<Rightarrow> NoFunction)
               | _ \<Rightarrow>
                   (case fn_lookup_by_idx (n_fns st) (to_cint (ival (k_val nd))) of Some i \<Rightarrow> Table i | None \<Rightarrow> NoFunction)))"

fun bind_params :: "string \<Rightarrow> string list \<Rightarrow> val list \<Rightarrow> nexs \<Rightarrow> nexs res" where
  "bind_params scope [] args st = Inr st"
| "bind_params scope (p # ps) args st =
     bind_res (set_reg (trunc REG_PATH_MAX (scope @ ''/'' @ p)) (if args = [] then val_nil else hd args) RK_ALL st)
       (bind_params scope ps (tl args))"

definition call_user :: "ev \<Rightarrow> string \<Rightarrow> nat \<Rightarrow> val list \<Rightarrow> nexs \<Rightarrow> eres" where
  "call_user ev name i args st =
     (let def = n_fns st ! i in
      if MAX_CALL_DEPTH \<le> n_depth st then
        bind_res (free_all st args) (err_result ''stack overflow: too many recursion levels'')
      else if fd_body def = None then bind_res (free_all st args) (err_result ''empty function body'')
      else
        let (scope, r) = reg_push_scope (n_reg st) name; st1 = (put_reg st r)\<lparr>n_depth := n_depth st + 1\<rparr> in
        bind_res (bind_params scope (take (fd_nparams def) (fd_params def)) args st1) (\<lambda>st2.
        bind_res (eval_block ev (fd_body def)
          (st2\<lparr>n_scope := trunc REG_PATH_MAX scope, n_active := i # n_active st2\<rparr>)) (\<lambda>(sig, v, st3).
        bind_res (reg_pop_scope (n_reg st3) scope) (\<lambda>r.
        bind_res (free_all ((put_reg st3 r)\<lparr>n_scope := trunc REG_PATH_MAX (n_scope st2), n_depth := n_depth st3 - 1,
            n_active := n_active st2\<rparr>) args) (\<lambda>st4.
          if sig = CTRL_RET then ok v st4
          else if sig = CTRL_ERR then Inr (CTRL_ERR, v, st4)
          else ok_free v val_nil st4)))))"

definition call_native :: "(val list \<Rightarrow> nexs \<Rightarrow> bres) \<Rightarrow> builtin \<Rightarrow> val list \<Rightarrow> nexs \<Rightarrow> eres" where
  "call_native eval_fn b args st =
     bind_res (call_builtin eval_fn b args st) (\<lambda>(v, st1). bind_res (free_all st1 args) (ok v))"

definition eval_call :: "ev \<Rightarrow> (val list \<Rightarrow> nexs \<Rightarrow> bres) \<Rightarrow> string \<Rightarrow> ast option list \<Rightarrow> nexs \<Rightarrow> eres" where
  "eval_call ev eval_fn name es st =
     bind_res (eval_args ev es [] st) (\<lambda>(sig, v, args, st1).
       if sig \<noteq> CTRL_NONE then Inr (sig, v, st1)
       else case find_function st1 name of
         NoFunction \<Rightarrow>
           bind_res (free_all st1 args) (err_result (trunc 128 (''function not found: '' @ quoted name)))
       | Legacy a \<Rightarrow> (case builtin_at a of None \<Rightarrow> Inl OutOfBounds | Some b \<Rightarrow> call_native eval_fn b args st1)
       | Table i \<Rightarrow>
           (case fd_builtin (n_fns st1 ! i) of
              Some b \<Rightarrow> call_native eval_fn b args st1
            | None \<Rightarrow> call_user ev name i args st1))"

subsection \<open>Control flow\<close>

definition eval_if :: "ev \<Rightarrow> ast option \<Rightarrow> ast option \<Rightarrow> ast option \<Rightarrow> nexs \<Rightarrow> eres" where
  "eval_if ev c t alt st =
     bind_ev (ev c st) (\<lambda>v st1.
       bind_res (free_val st1 v) (\<lambda>st2.
         if val_is_truthy v then eval_block ev t st2
         else if alt \<noteq> None then ev alt st2 else ok val_nil st2))"

fun eval_loop :: "nat \<Rightarrow> ev \<Rightarrow> ast option \<Rightarrow> nexs \<Rightarrow> eres" where
  "eval_loop 0 ev body st = Inl OutOfFuel"
| "eval_loop (Suc n) ev body st =
     bind_res (eval_block ev body st) (\<lambda>(sig, v, st1).
       if sig = CTRL_BREAK then ok_free v val_nil st1
       else if sig = CTRL_RET \<or> sig = CTRL_ERR then Inr (sig, v, st1)
       else bind_res (free_val st1 v) (eval_loop n ev body))"

definition eval_ret :: "ev \<Rightarrow> ast option \<Rightarrow> nexs \<Rightarrow> eres" where
  "eval_ret ev e st =
     (if e = None then Inr (CTRL_RET, val_nil, st) else bind_ev (ev e st) (\<lambda>v st1. Inr (CTRL_RET, v, st1)))"

subsection \<open>Messages and pointers\<close>

definition eval_send :: "ev \<Rightarrow> string \<Rightarrow> ast option \<Rightarrow> nexs \<Rightarrow> eres" where
  "eval_send ev path e st =
     bind_ev (ev e st) (\<lambda>v st1.
       bind_res (with_ipc (\<lambda>s. reg_ipc_send s path v) st1) (\<lambda>(rc, st2). ok_free v (val_int (of_int rc)) st2))"

definition eval_recv :: "string \<Rightarrow> nexs \<Rightarrow> eres" where
  "eval_recv path st =
     bind_res (with_ipc (\<lambda>s. reg_ipc_recv s path) st) (\<lambda>(m, st1). ok (case m of None \<Rightarrow> val_nil | Some v \<Rightarrow> v) st1)"

definition eval_ptr_set :: "string \<Rightarrow> string \<Rightarrow> nexs \<Rightarrow> eres" where
  "eval_ptr_set path target st =
     bind_res (with_reg (\<lambda>r. reg_set_ptr r path target) st) (\<lambda>(rc, st1).
       if rc < 0 then err_result ''ptr: failed to set pointer'' st1 else ok val_nil st1)"

subsection \<open>The entry points\<close>

definition eval_str_with :: "ev \<Rightarrow> string \<Rightarrow> nexs \<Rightarrow> eres" where
  "eval_str_with ev src st =
     bind_res (parse_program (parser_init (lexer_init src) (n_decls st))) (\<lambda>(prog, p).
       let st1 = st\<lparr>n_decls := p_decls p\<rparr> in
       if p_had_error p then err_result (p_error_msg p) st1
       else bind_res (ev (Some prog) st1) (\<lambda>(sig, v, st2).
         bind_res (clone_val st2 v) (\<lambda>(w, st3). bind_res (free_val st3 v) (\<lambda>st4. Inr (sig, w, st4)))))"

text \<open>The builtin \<open>eval\<close> has a context of its own.\<close>

definition builtin_eval_builtin :: "ev \<Rightarrow> val list \<Rightarrow> nexs \<Rightarrow> bres" where
  "builtin_eval_builtin ev args st =
     (if args = [] then arg_error ''eval: requires a string argument'' st
      else case str_arg (hd args) of
        None \<Rightarrow> arg_error ''eval: argument must be a string'' st
      | Some src \<Rightarrow>
          bind_res (eval_str_with ev src (eval_ctx_init st)) (\<lambda>(sig, v, st1).
            let st2 = st1\<lparr>n_scope := n_scope st, n_depth := n_depth st\<rparr> in
            if sig = CTRL_ERR \<and> \<not> (vtype v = TYPE_ERR \<and> err_msg v \<noteq> None) then
              bind_res (free_val st2 v) (arg_error ''eval: execution failed'')
            else Inr (v, st2)))"

definition node_step :: "nat \<Rightarrow> ev \<Rightarrow> ev" where
  "node_step n ev a st =
     (case a of
        None \<Rightarrow> ok val_nil st
      | Some nd \<Rightarrow>
          (case nd of
             AST_INT_LIT v \<Rightarrow> ok_res (clone_val st v)
           | AST_FLOAT_LIT v \<Rightarrow> ok_res (clone_val st v)
           | AST_STR_LIT v \<Rightarrow> ok_res (clone_val st v)
           | AST_BOOL_LIT v \<Rightarrow> ok_res (clone_val st v)
           | AST_NIL_LIT \<Rightarrow> ok_res (clone_val st val_nil)
           | AST_BINOP op l r \<Rightarrow> eval_binop ev op l r st
           | AST_UNOP e \<Rightarrow> eval_unop ev e st
           | AST_IDENT name \<Rightarrow> eval_ident name st
           | AST_ASSIGN name e \<Rightarrow> eval_assign ev name e st
           | AST_INDEX name e \<Rightarrow> eval_index ev name e st
           | AST_INDEX_ASSIGN name i e \<Rightarrow> eval_index_assign ev name i e st
           | AST_DEL name e \<Rightarrow> eval_del ev name e st
           | AST_OUT e \<Rightarrow> eval_out ev e st
           | AST_REG_ACCESS path \<Rightarrow> ok_res (with_reg (\<lambda>r. reg_get r path) st)
           | AST_REG_SET path e \<Rightarrow> eval_reg_set ev path e st
           | AST_REG_LS path \<Rightarrow> eval_ls path st
           | AST_CD path e \<Rightarrow> eval_cd ev path e st
           | AST_PWD \<Rightarrow> ok (val_str (n_scope st)) st
           | AST_FN_DECL d name params body \<Rightarrow> eval_fn_decl d name params body st
           | AST_FN_CALL name es \<Rightarrow> eval_call ev (builtin_eval_builtin ev) name es st
           | AST_IF c t alt \<Rightarrow> eval_if ev c t alt st
           | AST_LOOP body \<Rightarrow> eval_loop n ev body st
           | AST_BREAK \<Rightarrow> Inr (CTRL_BREAK, val_nil, st)
           | AST_CONT \<Rightarrow> Inr (CTRL_CONT, val_nil, st)
           | AST_RET e \<Rightarrow> eval_ret ev e st
           | AST_PROGRAM ss \<Rightarrow> eval_block ev (Some nd) st
           | AST_BLOCK ss \<Rightarrow> eval_block ev (Some nd) st
           | AST_SEND_MSG path e \<Rightarrow> eval_send ev path e st
           | AST_RECV_MSG path \<Rightarrow> eval_recv path st
           | AST_MSG_PENDING path \<Rightarrow> ok (val_int (of_int (reg_ipc_pending (n_ipc st) path))) st
           | AST_PTR_SET path target \<Rightarrow> eval_ptr_set path target st
           | AST_PTR_DEREF path \<Rightarrow> ok_res (with_reg (\<lambda>r. reg_get_deref r path) st)))"

primrec eval_node :: "nat \<Rightarrow> ev" where
  "eval_node 0 = (\<lambda>a st. Inl OutOfFuel)"
| "eval_node (Suc n) = node_step n (eval_node n)"

definition eval_str :: "nat \<Rightarrow> string \<Rightarrow> nexs \<Rightarrow> eres" where
  "eval_str n src st = eval_str_with (eval_node n) src st"

subsection \<open>Start-up (\<open>nexs_runtime_init\<close> without the system-call and HAL builtins and the modules)\<close>

definition nexs_zero :: nexs where
  "nexs_zero =
     \<lparr>n_ipc = \<lparr>i_reg = \<lparr>r_heap = [], r_root = regkey_alloc [] [] 0, total_keys = 0, scope_counter = 0\<rparr>, i_pipes = []\<rparr>,
      n_arrays = [], n_fns = [], n_out = [], n_scope = [], n_depth = 0, n_decls = 0, n_moved = [], n_active = [],
      n_errstr = [], n_debug = False, n_winsize = None, n_stats = []\<rparr>"

definition nexs_runtime_init :: "nexs \<Rightarrow> nexs res" where
  "nexs_runtime_init st =
     builtins_register_all (put_reg (st\<lparr>n_arrays := [], n_fns := fn_table_init\<rparr>) (reg_init (n_reg st)))"

end
