(* ===== verification/Eval_Facts.thy ===== *)
theory Eval_Facts
  imports Eval Roundtrip RegIpc_Facts
begin

section \<open>The evaluator against a semantics of expressions\<close>

text \<open>
  \<open>sem env e\<close> is the value of an expression in an environment: no heap, no clones, no fuel. The
  evaluator agrees with it in every state whose names hold values without references, from the
  source text to the text that is printed. \<open>exact\<close> is the value as an unbounded integer.
\<close>

definition scalar :: "val \<Rightarrow> bool" where
  "scalar v \<longleftrightarrow> ref_of v = None \<and> (vtype v = TYPE_STR \<longrightarrow> data v \<noteq> NoData)"

lemma scalar_simps [simp]: "scalar (val_int i)" "scalar (val_float f)" "scalar (val_bool b)" "scalar val_nil"
  "scalar (val_str s)" "scalar (val_err c m)"
  by (simp_all add: scalar_def ref_of_def val_cons_defs)

lemma put_heap_same [simp]: "put_heap st (n_heap st) = st"
  by (simp add: put_heap_def put_reg_def)

lemma clone_scalar [simp]: "scalar v \<Longrightarrow> clone_val st v = Inr (v, st)"
  by (auto simp: clone_val_def val_clone_def scalar_def)

lemma free_scalar [simp]: "scalar v \<Longrightarrow> free_val st v = Inr st"
  by (simp add: free_val_def val_free_def scalar_def free_vals.simps)

lemma apply_op_scalar: "apply_op op a b = Inr v \<Longrightarrow> scalar v"
  by (auto simp: apply_op_def val_add_def val_sub_def val_mul_def int64_result_def val_div_def val_mod_def val_eq_def val_ne_def
      val_lt_def val_gt_def val_le_def val_ge_def val_and_def val_or_def Let_def split: if_splits sum.splits)

lemma val_not_scalar [simp]: "scalar (val_not v)" by (simp add: val_not_def)

fun sem :: "(string \<Rightarrow> val option) \<Rightarrow> ast \<Rightarrow> (ctrl_sig \<times> val) res" where
  "sem env (AST_INT_LIT v) = Inr (CTRL_NONE, v)"
| "sem env (AST_STR_LIT v) = Inr (CTRL_NONE, v)"
| "sem env (AST_BOOL_LIT v) = Inr (CTRL_NONE, v)"
| "sem env (AST_IDENT name) =
     (case env name of
        None \<Rightarrow> Inr (CTRL_ERR, val_err 99 (trunc 128 (''name not found: '' @ quoted name)))
      | Some v \<Rightarrow> Inr (CTRL_NONE, v))"
| "sem env (AST_UNOP (Some e)) =
     bind_res (sem env e) (\<lambda>(sig, v). Inr (sig, if sig = CTRL_NONE then val_not v else v))"
| "sem env (AST_BINOP op l r) =
     bind_res (sem env l) (\<lambda>(sig, a).
       if sig \<noteq> CTRL_NONE then Inr (sig, a)
       else bind_res (sem env r) (\<lambda>(sig, b).
         if sig \<noteq> CTRL_NONE then Inr (sig, b)
         else bind_res (apply_op op a b) (\<lambda>v. Inr (CTRL_NONE, v))))"
| "sem env e = Inr (CTRL_NONE, val_nil)"

fun idents :: "ast \<Rightarrow> string set" where
  "idents (AST_IDENT name) = {name}"
| "idents (AST_UNOP (Some e)) = idents e"
| "idents (AST_BINOP op l r) = idents l \<union> idents r"
| "idents e = {}"

fun height :: "ast \<Rightarrow> nat" where
  "height (AST_UNOP (Some e)) = Suc (height e)"
| "height (AST_BINOP op l r) = Suc (max (height l) (height r))"
| "height e = 1"

definition names :: "nexs \<Rightarrow> string \<Rightarrow> val option" where
  "names st name = map_option k_val (resolve st name)"

definition scalar_env :: "(string \<Rightarrow> val option) \<Rightarrow> ast \<Rightarrow> bool" where
  "scalar_env env e \<longleftrightarrow> (\<forall>x \<in> idents e. \<forall>v. env x = Some v \<longrightarrow> scalar v)"

lemma scalar_env_simps [simp]:
  "scalar_env env (AST_BINOP op l r) \<longleftrightarrow> scalar_env env l \<and> scalar_env env r"
  "scalar_env env (AST_UNOP (Some e)) \<longleftrightarrow> scalar_env env e"
  by (auto simp: scalar_env_def)

definition at_state :: "nexs \<Rightarrow> (ctrl_sig \<times> val) res \<Rightarrow> eres" where
  "at_state st r = bind_res r (\<lambda>(sig, v). Inr (sig, v, st))"

lemma sem_scalar: "plain_expr e \<Longrightarrow> scalar_env env e \<Longrightarrow> sem env e = Inr (sig, v) \<Longrightarrow> scalar v"
proof (induction e arbitrary: sig v rule: plain_expr.induct)
  case (7 op l r)
  then show ?case
    by (auto simp: bind_res_def split: sum.splits if_splits) (rule apply_op_scalar)
next
  case (1 v0)
  then have "v = v0" "v0 = val_int (ival v0)" by simp_all
  then show ?case using scalar_simps(1) [of "ival v0"] by metis
qed (auto simp: bind_res_def scalar_env_def split: option.splits sum.splits)

lemma eval_sem:
  "plain_expr e \<Longrightarrow> scalar_env (names st) e \<Longrightarrow> height e \<le> n \<Longrightarrow>
   eval_node n (Some e) st = at_state st (sem (names st) e)"
proof (induction e arbitrary: n rule: plain_expr.induct)
  case (5 name)
  then obtain m where "n = Suc m" by (cases n) auto
  moreover have "name \<noteq> []" using 5 by (auto simp: plain_ident_def)
  ultimately show ?case using 5
    by (auto simp: node_step_def eval_ident_def at_state_def names_def scalar_env_def ok_res_def ok_def err_result_def
        split: option.splits)
next
  case (6 e)
  then obtain m where n: "n = Suc m" "height e \<le> m" by (cases n) auto
  have IH: "eval_node m (Some e) st = at_state st (sem (names st) e)" using 6 n by simp
  have sc: "sem (names st) e = Inr (sig, v) \<Longrightarrow> scalar v" for sig v
    using sem_scalar [of e "names st"] 6 by simp
  show ?case
    by (auto simp: n(1) node_step_def eval_unop_def bind_ev_def IH at_state_def bind_res_def ok_free_def ok_def sc
        split: sum.splits)
next
  case (7 op l r)
  then obtain m where n: "n = Suc m" "height l \<le> m" "height r \<le> m" by (cases n) auto
  have pl: "plain_expr l" "plain_expr r" using 7(3) by simp_all
  have env: "scalar_env (names st) l" "scalar_env (names st) r" using 7(4) by simp_all
  note IH = 7(1) [OF pl(1) env(1) n(2)] 7(2) [OF pl(2) env(2) n(3)]
  note sc = sem_scalar [OF pl(1) env(1)] sem_scalar [OF pl(2) env(2)]
  show ?case
    by (auto simp: n(1) node_step_def eval_binop_def bind_ev_def IH at_state_def bind_res_def ok_free_def ok_def sc
        dest: apply_op_scalar split: sum.splits)
next
  case (1 v)
  then have "scalar v" using scalar_simps(1) [of "ival v"] by simp
  then show ?case using 1 by (cases n) (auto simp: node_step_def at_state_def ok_res_def ok_def)
next
  case (2 v) then show ?case by (cases n) (auto simp: node_step_def at_state_def ok_res_def ok_def)
next
  case (3 v) then show ?case by (cases n) (auto simp: node_step_def at_state_def ok_res_def ok_def)
next
  case 4 then show ?case by (cases n) (auto simp: node_step_def at_state_def ok_res_def ok_def)
qed auto

definition text_of :: "fn_table \<Rightarrow> val \<Rightarrow> string" where
  "text_of fns v = projr (show_val fns [] v)"

lemma show_scalar: "scalar v \<Longrightarrow> show_val fns h v = Inr (text_of fns v)"
  by (cases "vtype v") (auto simp: show_val_def text_of_def scalar_def split: option.splits)

lemma put_decls [simp]: "st\<lparr>n_decls := n_decls st\<rparr> = st" by simp

lemma eval_out_expr:
  assumes e: "plain_expr e" and sc: "scalar_env (names st) e" and n: "height e + 2 \<le> n"
  shows "eval_str n (''out '' @ show_expr 1 e) st =
    bind_res (sem (names st) e) (\<lambda>(sig, v).
      if sig = CTRL_NONE then Inr (CTRL_NONE, val_nil, emit (text_of (n_fns st) v @ [NL]) st) else Inr (sig, v, st))"
proof -
  obtain p where p: "parse_program (parser_init (lexer_init (''out '' @ show_expr 1 e)) (n_decls st)) =
    Inr (AST_PROGRAM [AST_OUT (Some e)], p)" "\<not> p_had_error p" "p_decls p = n_decls st"
    using parse_out [OF e] by blast
  obtain m where m: "n = Suc (Suc m)" "height e \<le> m" using n by (cases n; cases "n - 1") auto
  have ev: "eval_node m (Some e) st = at_state st (sem (names st) e)" by (rule eval_sem [OF e sc m(2)])
  have s: "sem (names st) e = Inr (sig, v) \<Longrightarrow> scalar v" for sig v using sem_scalar [OF e sc] by blast
  have "eval_str n (''out '' @ show_expr 1 e) st =
    bind_res (eval_node n (Some (AST_PROGRAM [AST_OUT (Some e)])) st) (\<lambda>(sig, v, st2).
      bind_res (clone_val st2 v) (\<lambda>(w, st3). bind_res (free_val st3 v) (\<lambda>st4. Inr (sig, w, st4))))"
    unfolding eval_str_def eval_str_with_def p(1) using p(2,3) by simp
  then show ?thesis
    by (auto simp: m(1) node_step_def eval_block_def block_children_def eval_out_def
        bind_ev_def ev at_state_def bind_res_def s show_scalar ok_free_def ok_def split: sum.splits)
qed


subsection \<open>Integer arithmetic\<close>

text \<open>The integer an expression stands for, none where an operation does not fit 64 bits or divides by zero; \<open>E\<close> gives
  the integers of the names. \<open>/\<close> cuts toward zero and \<open>%\<close> has the sign of the dividend.\<close>

fun arith_expr :: "ast \<Rightarrow> bool" where
  "arith_expr (AST_INT_LIT v) \<longleftrightarrow> v = val_int (ival v)"
| "arith_expr (AST_IDENT name) \<longleftrightarrow> plain_ident name"
| "arith_expr (AST_BINOP op l r) \<longleftrightarrow> op \<in> {''+'', ''-'', ''*'', ''/'', ''%''} \<and> arith_expr l \<and> arith_expr r"
| "arith_expr _ \<longleftrightarrow> False"

definition arith :: "string \<Rightarrow> int \<Rightarrow> int \<Rightarrow> int option" where
  "arith op x y =
     (if op \<in> {''/'', ''%''} \<and> (y = 0 \<or> x = - (2 ^ 63) \<and> y = - 1) then None
      else
        let i = (if op = ''+'' then x + y else if op = ''-'' then x - y else if op = ''*'' then x * y
                 else if op = ''/'' then x sdiv y else x smod y) in
        if - (2 ^ 63) \<le> i \<and> i < 2 ^ 63 then Some i else None)"

fun exact :: "(string \<Rightarrow> int) \<Rightarrow> ast \<Rightarrow> int option" where
  "exact E (AST_INT_LIT v) = Some (sint (ival v))"
| "exact E (AST_IDENT name) = Some (E name)"
| "exact E (AST_BINOP op l r) =
     (case exact E l of None \<Rightarrow> None | Some x \<Rightarrow> case exact E r of None \<Rightarrow> None | Some y \<Rightarrow> arith op x y)"
| "exact E _ = None"

lemma apply_op_exact:
  assumes "op \<in> {''+'', ''-'', ''*'', ''/'', ''%''}" and "arith op (sint a) (sint b) = Some i"
  shows "apply_op op (val_int a) (val_int b) = Inr (val_int (of_int i)) \<and> sint (of_int i :: u64) = i"
proof -
  have fits: "- (2 ^ 63) \<le> i" "i < 2 ^ 63" using assms(2) by (auto simp: arith_def Let_def split: if_splits)
  have b0: "sint b \<noteq> 0 \<Longrightarrow> b \<noteq> 0" by auto
  note d = apply_op_def val_add_def val_sub_def val_mul_def int64_result_def val_div_def val_mod_def sdiv64_def smod64_def
    val_to_int_def val_int_def arith_def
  from assms(1) consider "op = ''+''" | "op = ''-''" | "op = ''*''" | "op = ''/''" | "op = ''%''" by auto
  then have "apply_op op (val_int a) (val_int b) = Inr (val_int (of_int i))"
    by cases (use assms(2) b0 in \<open>auto simp: d Let_def split: if_splits\<close>)
  then show ?thesis using sint_of_int_u64 fits by simp
qed

lemma apply_op_overflow:
  assumes "op \<in> {''+'', ''-'', ''*''}" and "arith op (sint a) (sint b) = None"
  shows "apply_op op (val_int a) (val_int b) = Inl SignedOverflow"
proof -
  from assms(1) consider "op = ''+''" | "op = ''-''" | "op = ''*''" by auto
  then show ?thesis
    by cases (use assms(2) in \<open>auto simp: apply_op_def val_add_def val_sub_def val_mul_def int64_result_def val_to_int_def
        val_int_def arith_def Let_def split: if_splits\<close>)
qed

lemma sem_exact:
  "arith_expr e \<Longrightarrow> exact E e = Some i \<Longrightarrow> \<forall>x \<in> idents e. \<exists>w. env x = Some (val_int w) \<and> sint w = E x \<Longrightarrow>
   \<exists>w. sem env e = Inr (CTRL_NONE, val_int w) \<and> sint w = i"
proof (induction e arbitrary: i rule: arith_expr.induct)
  case (1 v)
  then have "sem env (AST_INT_LIT v) = Inr (CTRL_NONE, val_int (ival v))" by simp
  then show ?case using 1 by auto
next
  case (2 name)
  then show ?case by auto
next
  case (3 op l r)
  from 3(4) obtain x y where xy: "exact E l = Some x" "exact E r = Some y" "arith op x y = Some i"
    by (auto split: option.splits)
  obtain a where a: "sem env l = Inr (CTRL_NONE, val_int a)" "sint a = x" using 3(1) [OF _ xy(1)] 3(3,5) by auto
  obtain b where b: "sem env r = Inr (CTRL_NONE, val_int b)" "sint b = y" using 3(2) [OF _ xy(2)] 3(3,5) by auto
  show ?case using apply_op_exact [of op a b i] 3(3) xy(3) a b by auto
qed simp_all

lemma arith_plain: "arith_expr e \<Longrightarrow> plain_expr e"
proof (induction e rule: arith_expr.induct)
  case (3 op l r)
  then have "op_token op \<noteq> TK_EOF" by (auto simp: op_token_def)
  then show ?case using 3 by simp
qed simp_all

lemma text_of_int [simp]: "text_of fns (val_int i) = show_int (sint i)"
  by (simp add: text_of_def show_val_def val_int_def)

lemma eval_out_arith:
  assumes e: "arith_expr e" and i: "exact E e = Some i" and n: "height e + 2 \<le> n"
    and env: "\<forall>x \<in> idents e. \<exists>w. names st x = Some (val_int w) \<and> sint w = E x"
  shows "eval_str n (''out '' @ show_expr 1 e) st = Inr (CTRL_NONE, val_nil, emit (show_int i @ [NL]) st)"
proof -
  have "scalar_env (names st) e" using env by (force simp: scalar_env_def)
  moreover obtain w where "sem (names st) e = Inr (CTRL_NONE, val_int w)" "sint w = i" using sem_exact [OF e i env] by blast
  ultimately show ?thesis using eval_out_expr [OF arith_plain [OF e] _ n] by simp
qed

subsection \<open>The properties\<close>

text \<open>C1: Running the text of an expression after \<open>out\<close> prints the value the semantics gives it, and
  changes nothing but the output; an unknown name or a trap ends it as the semantics says. The text is
  lexed, parsed and evaluated; names have the values of their keys in the current scope.\<close>

theorem eval_out_source:
  assumes "plain_expr e" and "scalar_env (names st) e" and "height e + 2 \<le> n"
  shows "eval_str n (''out '' @ show_expr 1 e) st =
    bind_res (sem (names st) e) (\<lambda>(sig, v).
      if sig = CTRL_NONE then Inr (CTRL_NONE, val_nil, emit (text_of (n_fns st) v @ [NL]) st) else Inr (sig, v, st))"
  by (rule eval_out_expr [OF assms])

theorem eval_out_source_witness:
  "eval_str 4 (''out '' @ show_expr 1 (AST_BINOP ''<'' (AST_INT_LIT (val_int 1)) (AST_INT_LIT (val_int 2)))) nexs_zero =
     Inr (CTRL_NONE, val_nil, emit (''true'' @ [NL]) nexs_zero)"
proof -
  let ?e = "AST_BINOP ''<'' (AST_INT_LIT (val_int 1)) (AST_INT_LIT (val_int 2))"
  have plain: "plain_expr ?e" by (simp add: op_token_def val_int_def)
  have "scalar_env (names nexs_zero) ?e" by (simp add: scalar_env_def)
  moreover have "(1 :: u64) <s 2" by code_simp
  ultimately show ?thesis using eval_out_source [OF plain, of nexs_zero 4]
    by (simp add: apply_op_def val_lt_def val_to_int_def val_int_def val_nil_def text_of_def show_val_def val_bool_def)
qed

text \<open>C25: Integer arithmetic is exact: \<open>out\<close> of an expression of integer literals, names that hold integers, \<open>+\<close>, \<open>-\<close>,
  \<open>*\<close>, \<open>/\<close> (cut toward zero) and \<open>%\<close> (with the sign of the dividend) prints its value over the unbounded integers,
  whenever the result of every operation fits in 64 bits and nothing is divided by zero. A sum, difference or product
  that does not fit is undefined in C (\<open>apply_op_overflow\<close>) and not covered.\<close>

theorem eval_out_exact:
  assumes "arith_expr e" and "exact E e = Some i" and "height e + 2 \<le> n"
    and "\<forall>x \<in> idents e. \<exists>w. names st x = Some (val_int w) \<and> sint w = E x"
  shows "eval_str n (''out '' @ show_expr 1 e) st = Inr (CTRL_NONE, val_nil, emit (show_int i @ [NL]) st)"
  by (rule eval_out_arith [OF assms])

theorem eval_out_exact_witness:
  "eval_str 5 (''out '' @ show_expr 1 (AST_BINOP ''%'' (AST_BINOP ''-'' (AST_INT_LIT (val_int 2)) (AST_INT_LIT (val_int 9)))
     (AST_INT_LIT (val_int 4)))) nexs_zero = Inr (CTRL_NONE, val_nil, emit (''-3'' @ [NL]) nexs_zero)"
proof -
  let ?e = "AST_BINOP ''%'' (AST_BINOP ''-'' (AST_INT_LIT (val_int 2)) (AST_INT_LIT (val_int 9))) (AST_INT_LIT (val_int 4))"
  have e: "arith_expr ?e" by (simp add: val_int_def)
  have v: "exact (\<lambda>_. 0) ?e = Some (- 3)" by code_simp
  have "show_int (- 3) = ''-3''" by code_simp
  then show ?thesis using eval_out_exact [OF e v, of 5 nexs_zero] by simp
qed

end
