(* ===== verification/Calls.thy ===== *)
theory Calls
  imports Eval_Facts
begin

section \<open>Calls of user functions\<close>

text \<open>
  A call makes a scope of its own below \<open>/local\<close>, binds the parameters in it, evaluates the body
  there and deletes it. For a body that returns an expression the call is the semantics of that
  expression in the environment \<open>callee_env\<close> (the parameters, then \<open>/local\<close>, then the root, and not
  the scope of the caller), and the registry holds the same values as before.
\<close>

subsection \<open>Counting keys by their paths\<close>

definition keys_of :: "regkey \<Rightarrow> kptr set" where
  "keys_of k = {q. info k q \<noteq> None}"

lemma keys_of_Cons: "s # q \<in> keys_of k \<longleftrightarrow> (\<exists>c. regkey_find_child (children k) s = Some c \<and> q \<in> keys_of c)"
  by (auto simp: keys_of_def info_Cons split: option.split)

lemma find_child_distinct:
  "distinct (List.map key_name cs) \<Longrightarrow> c \<in> set cs \<Longrightarrow> regkey_find_child cs (key_name c) = Some c"
  by (induction cs) auto

lemma keys_of_children:
  assumes "distinct (List.map key_name (children k))"
  shows "keys_of k = insert [] (\<Union>c \<in> set (children k). (#) (key_name c) ` keys_of c)"
proof -
  have "q \<in> keys_of k \<longleftrightarrow> q = [] \<or> (\<exists>c \<in> set (children k). q \<in> (#) (key_name c) ` keys_of c)" for q
  proof (cases q)
    case Nil
    then show ?thesis by (simp add: keys_of_def)
  next
    case (Cons s ss)
    then show ?thesis
      using find_child_distinct [OF assms] find_child_name by (fastforce simp: keys_of_Cons)
  qed
  then show ?thesis by auto
qed

lemma card_keys:
  "wf_key pre k \<Longrightarrow> finite (keys_of k) \<and> card (keys_of k) = nkeys k"
  "wf_keys pre cs \<Longrightarrow> distinct (List.map key_name cs) \<Longrightarrow>
   finite (\<Union>c \<in> set cs. (#) (key_name c) ` keys_of c) \<and> card (\<Union>c \<in> set cs. (#) (key_name c) ` keys_of c) = nkeys_list cs"
proof (induction pre k and pre cs rule: wf_key_wf_keys.induct)
  case (1 pre nd cs)
  have "[] \<notin> (\<Union>c \<in> set cs. (#) (key_name c) ` keys_of c)" by auto
  then show ?case using 1 keys_of_children [of "RegKey nd cs"] by simp
next
  case (3 pre c cs)
  have fin: "finite (keys_of c)" "card (keys_of c) = nkeys c" using 3 by auto
  have "card ((#) (key_name c) ` keys_of c) = nkeys c" using fin by (simp add: card_image)
  moreover have "(#) (key_name c) ` keys_of c \<inter> (\<Union>d \<in> set cs. (#) (key_name d) ` keys_of d) = {}"
    using 3(4) by (auto simp: image_iff)
  ultimately show ?case using 3 fin by (simp add: card_Un_disjoint)
qed simp

lemma nkeys_le:
  assumes "wf_key pre k" "keys_of k \<subseteq> S" "finite S" shows "nkeys k \<le> card S"
  using card_keys(1) [OF assms(1)] card_mono [OF assms(3,2)] by simp


subsection \<open>Entering a scope\<close>

abbreviation scope_key :: "string \<Rightarrow> kptr" where
  "scope_key sc \<equiv> [''local'', sc]"

lemma good_local [simp]: "good_name ''local''"
  by (simp add: good_name_def)

lemma scope_path_short: "good_name sc \<Longrightarrow> length (path_of (scope_key sc)) < 72"
  by (simp add: path_of_def good_name_def)

lemma push_scope_ok:
  assumes ok: "reg_ok r R" and name: "sc = fn @ ''_'' @ show_int (sint (scope_counter r))" "good_name sc"
  shows "\<exists>r'. reg_push_scope r fn = (path_of (scope_key sc), r') \<and> reg_ok r' R \<and>
    scope_counter r' = scope_counter r + 1 \<and>
    (\<forall>q. info (r_root r') q = (case info (r_root r) q of Some nd \<Rightarrow> Some nd
       | None \<Rightarrow> if is_prefix q (scope_key sc) then Some (fresh_node q RK_ALL) else None))"
proof -
  let ?q = "scope_key sc" and ?r = "r\<lparr>scope_counter := scope_counter r + 1\<rparr>"
  note len = scope_path_short [OF name(2)]
  have segs: "path_segs (path_of ?q) = ?q" using name(2) len by (intro path_segs_path_of) auto
  have good: "good_path (path_of ?q)"
    unfolding good_path_def segs using name(2) len by (simp add: good_name_def)
  have "reg_ok ?r R" using ok by (simp add: reg_ok_def)
  from reg_mkpath_ok [OF this good, of RK_ALL] obtain r' where r': "reg_mkpath ?r (path_of ?q) RK_ALL = (Some ?q, r')"
    "reg_ok r' R" "scope_counter r' = scope_counter r + 1"
    "\<forall>q. info (r_root r') q = (case info (r_root r) q of Some nd \<Rightarrow> Some nd
       | None \<Rightarrow> if is_prefix q ?q then Some (fresh_node q RK_ALL) else None)"
    unfolding segs by auto
  have "reg_push_scope r fn = (path_of ?q, r')"
    using name len r'(1) by (simp add: reg_push_scope_def Let_def path_of_def)
  then show ?thesis using r' by blast
qed

subsection \<open>Binding the parameters\<close>

definition bound :: "string list \<Rightarrow> val list \<Rightarrow> string \<Rightarrow> val option" where
  "bound ps vs = map_of (zip ps (vs @ replicate (length ps) val_nil))"

lemma zip_long: "length xs \<le> length ys \<Longrightarrow> zip xs (ys @ zs) = zip xs ys"
  by (induction xs ys rule: list_induct2') auto

lemma bound_Cons: "bound (p # ps) vs x = (if x = p then Some (if vs = [] then val_nil else hd vs) else bound ps (tl vs) x)"
proof (cases vs)
  case Nil
  then show ?thesis by (simp add: bound_def)
next
  case (Cons v ws)
  have "ws @ replicate (Suc (length ps)) val_nil = (ws @ replicate (length ps) val_nil) @ [val_nil]"
    by (simp add: replicate_append_same)
  then have "zip ps (ws @ replicate (Suc (length ps)) val_nil) = zip ps (ws @ replicate (length ps) val_nil)"
    by (simp only: zip_long length_append length_replicate le_add2)
  then show ?thesis using Cons by (simp add: bound_def)
qed

lemma bound_Nil [simp]: "bound [] vs x = None"
  by (simp add: bound_def)

lemma bound_dom: "bound ps vs x \<noteq> None \<longleftrightarrow> x \<in> set ps"
  by (induction ps arbitrary: vs) (auto simp: bound_Cons)

lemma n_reg_put [simp]: "n_reg (put_reg st r) = r"
  by (simp add: put_reg_def)

lemma put_put [simp]: "put_reg (put_reg st r) r' = put_reg st r'"
  by (simp add: put_reg_def)

lemma set_reg_ok:
  assumes "reg_ok (n_reg st) R" and "good_path path" and "scalar v"
  shows "\<exists>r. set_reg path v rights st = Inr (put_reg st r) \<and> reg_ok r R \<and> scope_counter r = scope_counter (n_reg st) \<and>
    (\<forall>q. map_option k_val (info (r_root r) q) =
      (if q = path_segs path then Some v
       else case info (r_root (n_reg st)) q of Some nd \<Rightarrow> Some (k_val nd)
         | None \<Rightarrow> if is_prefix q (path_segs path) then Some val_nil else None))"
proof -
  have "stored v = v" "ref_of v = None" using assms(3) by (auto simp: scalar_def stored_def)
  then obtain r where r: "reg_set (n_reg st) path v rights = Inr (0, r)" "reg_ok r R"
    "scope_counter r = scope_counter (n_reg st)"
    "\<forall>q. map_option k_val (info (r_root r) q) =
      (if q = path_segs path then Some v
       else case info (r_root (n_reg st)) q of Some nd \<Rightarrow> Some (k_val nd)
         | None \<Rightarrow> if is_prefix q (path_segs path) then Some val_nil else None)"
    using reg_set_ok [OF assms(1,2), of v rights] by auto
  have "set_reg path v rights st = Inr (put_reg st r)" using r(1) by (simp add: set_reg_def with_reg_def)
  then show ?thesis using r(2-4) by blast
qed

lemma bind_params_ok:
  assumes "reg_ok (n_reg st) R" and "good_name sc" and "info (r_root (n_reg st)) (scope_key sc) \<noteq> None"
    and "\<forall>p \<in> set ps. good_name p" and "distinct ps" and "\<forall>v \<in> set vs. scalar v"
  shows "\<exists>r. bind_params (path_of (scope_key sc)) ps vs st = Inr (put_reg st r) \<and> reg_ok r R \<and>
    scope_counter r = scope_counter (n_reg st) \<and>
    (\<forall>q. map_option k_val (info (r_root r) q) =
      (case (if length q = 3 \<and> take 2 q = scope_key sc then bound ps vs (last q) else None) of
         Some v \<Rightarrow> Some v | None \<Rightarrow> map_option k_val (info (r_root (n_reg st)) q)))"
  using assms
proof (induction ps arbitrary: vs st)
  case Nil
  have "put_reg st (n_reg st) = st" by (simp add: put_reg_def)
  then show ?case using Nil by (intro exI [of _ "n_reg st"]) simp
next
  case (Cons p ps)
  let ?q = "[''local'', sc, p]" and ?v = "if vs = [] then val_nil else hd vs"
  have gp: "good_name p" using Cons.prems by simp
  have len: "length (path_of ?q) < 140" using Cons.prems(2) gp by (simp add: path_of_def good_name_def)
  have segs: "path_segs (path_of ?q) = ?q" using Cons.prems(2) gp len by (intro path_segs_path_of) auto
  have good: "good_path (path_of ?q)"
    unfolding good_path_def segs using Cons.prems(2) gp len by (simp add: good_name_def)
  have path: "trunc REG_PATH_MAX (path_of (scope_key sc) @ ''/'' @ p) = path_of ?q"
    using len by (simp add: path_of_def)
  have sv: "scalar ?v" using Cons.prems(6) by (cases vs) auto
  from set_reg_ok [OF Cons.prems(1) good sv, of RK_ALL] obtain r where r:
    "set_reg (path_of ?q) ?v RK_ALL st = Inr (put_reg st r)" "reg_ok r R" "scope_counter r = scope_counter (n_reg st)"
    and info: "\<And>q. map_option k_val (info (r_root r) q) = (if q = ?q then Some ?v
       else case info (r_root (n_reg st)) q of Some nd \<Rightarrow> Some (k_val nd)
         | None \<Rightarrow> if is_prefix q ?q then Some val_nil else None)"
    unfolding segs by blast
  have pre: "info (r_root (n_reg st)) q \<noteq> None" if "is_prefix q ?q" "q \<noteq> ?q" for q
  proof -
    have "is_prefix q (scope_key sc)" using that by (auto simp: is_prefix_alt append_eq_Cons_conv Cons_eq_append_conv)
    then show ?thesis using Cons.prems(3) info_below_none by (fastforce simp: is_prefix_alt)
  qed
  have info': "map_option k_val (info (r_root r) q) =
      (if q = ?q then Some ?v else map_option k_val (info (r_root (n_reg st)) q))" for q
    using info [of q] pre [of q] by (auto split: option.splits)
  have sc: "info (r_root r) (scope_key sc) \<noteq> None"
    using info' [of "scope_key sc"] Cons.prems(3) by (cases "info (r_root r) (scope_key sc)") auto
  have tl: "\<forall>v \<in> set (tl vs). scalar v" using Cons.prems(6) by (cases vs) auto
  have "\<exists>r'. bind_params (path_of (scope_key sc)) ps (tl vs) (put_reg st r) = Inr (put_reg (put_reg st r) r') \<and> reg_ok r' R \<and>
    scope_counter r' = scope_counter (n_reg (put_reg st r)) \<and>
    (\<forall>q. map_option k_val (info (r_root r') q) =
      (case (if length q = 3 \<and> take 2 q = scope_key sc then bound ps (tl vs) (last q) else None) of
         Some v \<Rightarrow> Some v | None \<Rightarrow> map_option k_val (info (r_root (n_reg (put_reg st r))) q)))"
    by (rule Cons.IH) (use r(2) sc Cons.prems tl in auto)
  then obtain r' where r': "bind_params (path_of (scope_key sc)) ps (tl vs) (put_reg st r) = Inr (put_reg st r')" "reg_ok r' R"
    "scope_counter r' = scope_counter r"
    "\<And>q. map_option k_val (info (r_root r') q) =
      (case (if length q = 3 \<and> take 2 q = scope_key sc then bound ps (tl vs) (last q) else None) of
         Some v \<Rightarrow> Some v | None \<Rightarrow> map_option k_val (info (r_root r) q))"
    unfolding n_reg_put put_put by blast
  have notin: "bound ps (tl vs) p = None" using bound_dom [of ps "tl vs" p] Cons.prems(5) by auto
  have three: "length q = 3 \<Longrightarrow> take 2 q = scope_key sc \<Longrightarrow> q = [''local'', sc, last q]" for q
    by (cases q; cases "tl q"; cases "tl (tl q)") auto
  have "map_option k_val (info (r_root r') q) =
      (case (if length q = 3 \<and> take 2 q = scope_key sc then bound (p # ps) vs (last q) else None) of
         Some v \<Rightarrow> Some v | None \<Rightarrow> map_option k_val (info (r_root (n_reg st)) q))" for q
  proof (cases "length q = 3 \<and> take 2 q = scope_key sc")
    case True
    then have "q = [''local'', sc, last q]" using three by blast
    then show ?thesis using True notin r'(4) [of q] info' [of q] by (auto simp: bound_Cons split: option.splits)
  next
    case False
    then show ?thesis using r'(4) [of q] info' [of q] by auto
  qed
  moreover have "bind_params (path_of (scope_key sc)) (p # ps) vs st = Inr (put_reg st r')"
    using r(1) r'(1) path by simp
  moreover have "scope_counter r' = scope_counter (n_reg st)" using r'(3) r(3) by simp
  ultimately show ?case using r'(2) by blast
qed


subsection \<open>The arguments\<close>

lemma eval_args_sem:
  assumes "list_all2 (\<lambda>e v. plain_expr e \<and> scalar_env (names st) e \<and> height e \<le> n \<and> sem (names st) e = Inr (CTRL_NONE, v)) es vs"
  shows "eval_args (eval_node n) (List.map Some es) ws st = Inr (CTRL_NONE, val_nil, ws @ vs, st)"
  using assms
proof (induction es vs arbitrary: ws rule: list_all2_induct)
  case (Cons e es v vs)
  then have "eval_node n (Some e) st = Inr (CTRL_NONE, v, st)" by (simp add: eval_sem at_state_def)
  then show ?case using Cons by simp
qed simp

lemma args_scalar:
  assumes "list_all2 (\<lambda>e v. plain_expr e \<and> scalar_env (names st) e \<and> height e \<le> n \<and> sem (names st) e = Inr (CTRL_NONE, v)) es vs"
  shows "\<forall>v \<in> set vs. scalar v"
  using assms by (induction es vs rule: list_all2_induct) (auto intro: sem_scalar)

lemma free_all_scalar: "\<forall>v \<in> set vs. scalar v \<Longrightarrow> free_all st vs = Inr st"
  unfolding free_all_def by (induction vs) auto

subsection \<open>The body\<close>

lemma sem_cong: "plain_expr e \<Longrightarrow> (\<And>x. x \<in> idents e \<Longrightarrow> env x = env' x) \<Longrightarrow> sem env e = sem env' e"
proof (induction e rule: plain_expr.induct)
  case (6 e)
  then have "sem env e = sem env' e" by simp
  then show ?case by simp
next
  case (7 op l r)
  then have "sem env l = sem env' l" "sem env r = sem env' r" by simp_all
  then show ?case by (simp cong: if_cong)
qed auto

definition returned :: "(ctrl_sig \<times> val) res \<Rightarrow> (ctrl_sig \<times> val) res" where
  "returned r = bind_res r (\<lambda>(sig, v). Inr (if sig = CTRL_NONE then CTRL_RET else sig, v))"

lemma eval_ret_body:
  assumes "plain_expr e" and "scalar_env (names st) e" and "height e + 1 \<le> n"
  shows "eval_block (eval_node n) (Some (AST_BLOCK [AST_RET (Some e)])) st = at_state st (returned (sem (names st) e))"
proof -
  obtain m where m: "n = Suc m" "height e \<le> m" using assms(3) by (cases n) auto
  have "eval_node m (Some e) st = at_state st (sem (names st) e)" by (rule eval_sem [OF assms(1,2) m(2)])
  then have "eval_node n (Some (AST_RET (Some e))) st =
      at_state st (returned (sem (names st) e))"
    by (auto simp: m(1) node_step_def eval_ret_def bind_ev_def at_state_def returned_def bind_res_def split: sum.splits)
  then show ?thesis
    by (auto simp: eval_block_def block_children_def bind_ev_def at_state_def returned_def bind_res_def split: sum.splits if_splits)
qed


subsection \<open>The call\<close>

definition callee_env :: "regkey \<Rightarrow> string list \<Rightarrow> val list \<Rightarrow> string \<Rightarrow> val option" where
  "callee_env root ps vs x =
     (case bound ps vs x of
        Some v \<Rightarrow> Some v
      | None \<Rightarrow>
          (case info root [''local'', x] of Some nd \<Rightarrow> Some (k_val nd) | None \<Rightarrow> map_option k_val (info root [x])))"

lemma plain_ident_good: "plain_ident x \<Longrightarrow> good_name x"
  by (auto simp: plain_ident_def good_name_def isalnum_def isalpha_def isdigit_def)

lemma plain_idents: "plain_expr e \<Longrightarrow> x \<in> idents e \<Longrightarrow> plain_ident x"
  by (induction e rule: plain_expr.induct) auto

lemma callee_resolve:
  assumes sc: "good_name sc" and x: "good_name x" and scope: "n_scope st = path_of (scope_key sc)"
    and root: "\<And>q. map_option k_val (info (r_root (n_reg st)) q) =
      (case (if length q = 3 \<and> take 2 q = scope_key sc then bound ps vs (last q) else None) of
         Some v \<Rightarrow> Some v
       | None \<Rightarrow> if q = scope_key sc then Some val_nil else map_option k_val (info root q))"
    and fresh: "info root (scope_key sc) = None" and "x \<noteq> sc" and v: "callee_env root ps vs x = Some v"
  shows "names st x = Some v"
proof -
  let ?R = "r_root (n_reg st)" and ?s = "scope_key sc"
  have good: "\<forall>s \<in> set ?s. good_name s" using sc by simp
  have len: "length (path_of ?s) + length x + 1 < REG_PATH_MAX"
    using scope_path_short [OF sc] x by (simp add: good_name_def)
  have at: "names st x = Some v"
    if le: "i \<le> 2" and val: "map_option k_val (info ?R (take i ?s @ [x])) = Some v"
      and none: "\<And>j. i < j \<Longrightarrow> j \<le> 2 \<Longrightarrow> map_option k_val (info ?R (take j ?s @ [x])) = None" for i
  proof -
    obtain nd where nd: "info ?R (take i ?s @ [x]) = Some nd" "k_val nd = v" using val by auto
    have "reg_resolve ?R x (path_of ?s) = Some (take i ?s @ [x])"
      by (rule reg_resolve_ok [OF good x len _ nd(1)]) (use le none in auto)
    moreover obtain k where "node_at ?R (take i ?s @ [x]) = Some k" "node k = nd" using nd(1) info_node_at by blast
    ultimately show ?thesis using nd(2) scope by (simp add: names_def resolve_def)
  qed
  have in_scope: "map_option k_val (info ?R [''local'', sc, x]) = bound ps vs x"
    using root [of "[''local'', sc, x]"] info_below_none [OF fresh, of "[x]"] by (simp split: option.splits)
  have in_local: "map_option k_val (info ?R [''local'', x]) = map_option k_val (info root [''local'', x])"
    using root [of "[''local'', x]"] assms(6) by simp
  have in_root: "map_option k_val (info ?R [x]) = map_option k_val (info root [x])"
    using root [of "[x]"] by simp
  have two: "j = 1 \<or> j = 2" if "0 < j" "j \<le> (2 :: nat)" for j using that by auto
  show ?thesis
  proof (cases "bound ps vs x")
    case (Some w)
    then show ?thesis using at [of 2] v in_scope by (simp add: callee_env_def)
  next
    case None
    then have none: "info ?R [''local'', sc, x] = None" using in_scope by simp
    show ?thesis
    proof (cases "info root [''local'', x]")
      case (Some nd)
      have "map_option k_val (info ?R (take j ?s @ [x])) = None" if "1 < j" "j \<le> 2" for j
      proof -
        have "j = 2" using that by simp
        then show ?thesis using none by simp
      qed
      then show ?thesis using at [of 1] v in_local None Some by (simp add: callee_env_def)
    next
      case False: None
      have "map_option k_val (info ?R (take j ?s @ [x])) = None" if "0 < j" "j \<le> 2" for j
        using two [OF that] none in_local False by auto
      then show ?thesis using at [of 0] v in_root None False by (simp add: callee_env_def)
    qed
  qed
qed

lemma scope_keys_few:
  assumes wf: "wf_key [] root" and x: "node_at root (scope_key sc) = Some x"
    and inner: "\<And>q. q \<noteq> [] \<Longrightarrow> info root (scope_key sc @ q) \<noteq> None \<Longrightarrow> \<exists>p \<in> set ps. q = [p]"
  shows "nkeys x \<le> length ps + 1"
proof -
  have "keys_of x \<subseteq> insert [] ((\<lambda>p. [p]) ` set ps)"
    using inner info_append [OF x] by (fastforce simp: keys_of_def)
  moreover have "wf_key ([] @ scope_key sc) x" by (rule wf_key_node_at [OF wf x])
  ultimately have "nkeys x \<le> card (insert [] ((\<lambda>p. [p]) ` set ps))" by (intro nkeys_le) auto
  also have "\<dots> \<le> Suc (card ((\<lambda>p. [p]) ` set ps))" by (simp add: card_insert_if)
  also have "\<dots> \<le> length ps + 1" using card_image_le [of "set ps"] card_length [of ps] le_trans by fastforce
  finally show ?thesis .
qed


definition ready_args :: "nexs \<Rightarrow> nat \<Rightarrow> ast list \<Rightarrow> val list \<Rightarrow> bool" where
  "ready_args st m es vs \<longleftrightarrow>
     list_all2 (\<lambda>e v. plain_expr e \<and> scalar_env (names st) e \<and> height e \<le> m \<and> sem (names st) e = Inr (CTRL_NONE, v)) es vs"

definition user_fn :: "fn_table \<Rightarrow> string \<Rightarrow> nat \<Rightarrow> string list \<Rightarrow> ast \<Rightarrow> bool" where
  "user_fn t name i ps e \<longleftrightarrow>
     fn_lookup t name = Some i \<and> fd_builtin (t ! i) = None \<and> fd_body (t ! i) = Some (AST_BLOCK [AST_RET (Some e)]) \<and>
     take (fd_nparams (t ! i)) (fd_params (t ! i)) = ps \<and> distinct ps \<and> length ps \<le> MAX_PARAMS \<and> (\<forall>p \<in> set ps. good_name p)"

definition same_vals :: "regkey \<Rightarrow> regkey \<Rightarrow> bool" where
  "same_vals root root' \<longleftrightarrow> (\<forall>q. map_option k_val (info root' q) = map_option k_val (info root q))"

text \<open>The registry inside the call.\<close>

lemma enter_ok:
  assumes ok: "reg_ok (n_reg st) R" and local: "info (r_root (n_reg st)) [''local''] \<noteq> None"
    and sc: "sc = name @ ''_'' @ show_int (sint (scope_counter (n_reg st)))" "good_name sc"
    and fresh: "info (r_root (n_reg st)) (scope_key sc) = None"
    and ps: "\<forall>p \<in> set ps. good_name p" "distinct ps" and vs: "\<forall>v \<in> set vs. scalar v"
    and push: "reg_push_scope (n_reg st) name = (scope, r1)"
  shows "scope = path_of (scope_key sc) \<and>
    (\<exists>r2. bind_params scope ps vs ((put_reg st r1)\<lparr>n_depth := d\<rparr>) = Inr ((put_reg st r2)\<lparr>n_depth := d\<rparr>) \<and> reg_ok r2 R \<and>
     scope_counter r2 = scope_counter (n_reg st) + 1 \<and>
     (\<forall>q. map_option k_val (info (r_root r2) q) =
       (case (if length q = 3 \<and> take 2 q = scope_key sc then bound ps vs (last q) else None) of
          Some v \<Rightarrow> Some v
        | None \<Rightarrow> if q = scope_key sc then Some val_nil else map_option k_val (info (r_root (n_reg st)) q))))"
proof -
  let ?root = "r_root (n_reg st)"
  obtain r1': "reg_ok r1 R" "scope_counter r1 = scope_counter (n_reg st) + 1" "scope = path_of (scope_key sc)"
    and i1: "\<And>q. info (r_root r1) q = (case info ?root q of Some nd \<Rightarrow> Some nd
       | None \<Rightarrow> if is_prefix q (scope_key sc) then Some (fresh_node q RK_ALL) else None)"
    using push_scope_ok [OF ok sc] push by auto
  have pre: "is_prefix q (scope_key sc) \<longleftrightarrow> q = [] \<or> q = [''local''] \<or> q = scope_key sc" for q
    unfolding is_prefix_alt by (auto simp: Cons_eq_append_conv)
  have v1: "map_option k_val (info (r_root r1) q) = (if q = scope_key sc then Some val_nil else map_option k_val (info ?root q))" for q
    using i1 [of q] local fresh pre [of q] by (auto simp: fresh_node_def split: option.splits)
  let ?st1 = "(put_reg st r1)\<lparr>n_depth := d\<rparr>"
  have s1: "reg_ok (n_reg ?st1) R" using r1'(1) by (simp add: put_reg_def)
  have n1: "info (r_root (n_reg ?st1)) (scope_key sc) \<noteq> None" using v1 [of "scope_key sc"] by (auto simp: put_reg_def)
  obtain r2 where r2: "bind_params scope ps vs ?st1 = Inr (put_reg ?st1 r2)" "reg_ok r2 R"
    "scope_counter r2 = scope_counter (n_reg ?st1)"
    "\<And>q. map_option k_val (info (r_root r2) q) =
      (case (if length q = 3 \<and> take 2 q = scope_key sc then bound ps vs (last q) else None) of
         Some v \<Rightarrow> Some v | None \<Rightarrow> map_option k_val (info (r_root (n_reg ?st1)) q))"
    unfolding r1'(3) using bind_params_ok [OF s1 sc(2) n1 ps vs] by blast
  have root1: "r_root (n_reg ?st1) = r_root r1" "scope_counter (n_reg ?st1) = scope_counter r1"
    "put_reg ?st1 r2 = (put_reg st r2)\<lparr>n_depth := d\<rparr>" by (simp_all add: put_reg_def)
  have "scope_counter r2 = scope_counter (n_reg st) + 1" using r2(3) r1'(2) unfolding root1 by simp
  then show ?thesis using r1'(3) r2(1,2) r2(4) [unfolded root1 v1] unfolding root1(3) by blast
qed

text \<open>Leaving it.\<close>

lemma leave_ok:
  assumes ok: "reg_ok r2 R" and sc: "good_name sc" and fresh: "info root (scope_key sc) = None"
    and wf: "wf_key [] root" and ps: "length ps \<le> MAX_PARAMS" and few: "nkeys root < 2 ^ 63"
    and vals: "\<And>q. map_option k_val (info (r_root r2) q) =
       (case (if length q = 3 \<and> take 2 q = scope_key sc then bound ps vs (last q) else None) of
          Some v \<Rightarrow> Some v
        | None \<Rightarrow> if q = scope_key sc then Some val_nil else map_option k_val (info root q))"
  shows "\<exists>r3. reg_pop_scope r2 (path_of (scope_key sc)) = Inr r3 \<and> reg_ok r3 R \<and> scope_counter r3 = scope_counter r2 \<and>
    same_vals root (r_root r3)"
proof -
  let ?s = "scope_key sc"
  have len: "length (path_of ?s) < 72" by (rule scope_path_short [OF sc])
  have segs: "path_segs (path_of ?s) = ?s" using sc len by (intro path_segs_path_of) auto
  have wf2: "wf_key [] (r_root r2)" using ok by (simp add: reg_ok_def)
  have below: "info root (?s @ q) = None" for q by (rule info_below_none [OF fresh])
  have "info (r_root r2) ?s \<noteq> None" using vals [of ?s] by auto
  then obtain x where x: "node_at (r_root r2) ?s = Some x" using info_node_at by blast
  have inner: "\<exists>p \<in> set ps. q = [p]" if "q \<noteq> []" "info (r_root r2) (?s @ q) \<noteq> None" for q
  proof -
    have "length (?s @ q) = 3 \<and> bound ps vs (last (?s @ q)) \<noteq> None"
      using that vals [of "?s @ q"] below [of q] by (auto split: if_splits option.splits)
    moreover then obtain p where "q = [p]" by (cases q) auto
    ultimately show ?thesis using bound_dom [of ps vs p] by auto
  qed
  have xs: "nkeys x \<le> length ps + 1" by (rule scope_keys_few [OF wf2 x inner])
  have "keys_of (r_root r2) \<subseteq> keys_of root \<union> insert ?s ((\<lambda>p. ?s @ [p]) ` set ps)"
  proof
    fix q assume q: "q \<in> keys_of (r_root r2)"
    show "q \<in> keys_of root \<union> insert ?s ((\<lambda>p. ?s @ [p]) ` set ps)"
    proof (cases "is_prefix ?s q")
      case True
      then obtain zs where zs: "q = ?s @ zs" by (auto simp: is_prefix_alt)
      then show ?thesis using q inner [of zs] by (cases "zs = []") (auto simp: keys_of_def)
    next
      case False
      then have "take 2 q \<noteq> ?s" by (auto simp: is_prefix_def numeral_2_eq_2)
      moreover have "q \<noteq> ?s" using False by (auto simp: is_prefix_def)
      ultimately show ?thesis using q vals [of q] by (auto simp: keys_of_def)
    qed
  qed
  moreover have fin: "finite (keys_of root)" "card (keys_of root) = nkeys root" using card_keys(1) [OF wf] by auto
  ultimately have "nkeys (r_root r2) \<le> card (keys_of root \<union> insert ?s ((\<lambda>p. ?s @ [p]) ` set ps))"
    by (intro nkeys_le [OF wf2]) auto
  also have "\<dots> \<le> nkeys root + Suc (length ps)"
    using card_Un_le [of "keys_of root" "insert ?s ((\<lambda>p. ?s @ [p]) ` set ps)"] fin
      card_insert_le_m1 [of "Suc (length ps)" "(\<lambda>p. ?s @ [p]) ` set ps" ?s]
      card_image_le [of "set ps" "\<lambda>p. ?s @ [p]"] card_length [of ps] by auto
  finally have small: "nkeys (r_root r2) < 2 ^ 64" using few ps by simp
  obtain r3 where r3: "reg_delete r2 (path_of ?s) = Inr (0, r3)" "reg_ok r3 R" "scope_counter r3 = scope_counter r2"
    "\<And>q. info (r_root r3) q = (if is_prefix ?s q then None else info (r_root r2) q)"
    using reg_delete_ok [OF ok, of "path_of ?s" x] x xs ps small unfolding segs by auto
  have "map_option k_val (info (r_root r3) q) = map_option k_val (info root q)" for q
  proof (cases "is_prefix ?s q")
    case True
    then obtain zs where "q = ?s @ zs" by (auto simp: is_prefix_alt)
    then show ?thesis using r3(4) [of q] True below [of zs] by simp
  next
    case False
    then have "take 2 q \<noteq> ?s" "q \<noteq> ?s" by (auto simp: is_prefix_def numeral_2_eq_2)
    then show ?thesis using r3(4) [of q] False vals [of q] by auto
  qed
  then show ?thesis using r3 by (auto simp: reg_pop_scope_def same_vals_def)
qed
lemma sem_sig: "sem env e = Inr (sig, v) \<Longrightarrow> sig = CTRL_NONE \<or> sig = CTRL_ERR"
  by (induction e arbitrary: sig v rule: idents.induct) (auto simp: bind_res_def split: sum.splits if_splits option.splits)

lemma call_expr_ok:
  assumes ok: "reg_ok (n_reg st) R" and local: "info (r_root (n_reg st)) [''local''] \<noteq> None"
    and f: "user_fn (n_fns st) name i ps e" and e: "plain_expr e" "height e + 1 \<le> m"
    and args: "ready_args st m es vs"
    and st: "n_depth st < MAX_CALL_DEPTH" "length (n_scope st) < REG_PATH_MAX" "nkeys (r_root (n_reg st)) < 2 ^ 63"
    and sc: "sc = name @ ''_'' @ show_int (sint (scope_counter (n_reg st)))" "good_name sc"
    and fresh: "info (r_root (n_reg st)) (scope_key sc) = None" "sc \<notin> idents e"
    and env: "\<forall>x \<in> idents e. \<exists>v. callee_env (r_root (n_reg st)) ps vs x = Some v \<and> scalar v"
  shows "\<exists>r. eval_node (Suc m) (Some (AST_FN_CALL name (List.map Some es))) st =
      at_state (put_reg st r) (sem (callee_env (r_root (n_reg st)) ps vs) e) \<and>
    reg_ok r R \<and> scope_counter r = scope_counter (n_reg st) + 1 \<and> same_vals (r_root (n_reg st)) (r_root r)"
proof -
  let ?root = "r_root (n_reg st)" and ?d = "n_fns st ! i"
  note f' = f [unfolded user_fn_def]
  have vs: "\<forall>v \<in> set vs. scalar v" by (rule args_scalar [OF args [unfolded ready_args_def]])
  have eargs: "eval_args (eval_node m) (List.map Some es) [] st = Inr (CTRL_NONE, val_nil, vs, st)"
    using eval_args_sem [OF args [unfolded ready_args_def], of "[]"] by simp
  obtain scope r1 where push: "reg_push_scope (n_reg st) name = (scope, r1)" by fastforce
  let ?st1 = "(put_reg st r1)\<lparr>n_depth := n_depth st + 1\<rparr>"
  have psf: "\<forall>p \<in> set ps. good_name p" "distinct ps" using f' by auto
  obtain r2 where scope: "scope = path_of (scope_key sc)"
    and r2: "bind_params scope ps vs ?st1 = Inr ((put_reg st r2)\<lparr>n_depth := n_depth st + 1\<rparr>)" "reg_ok r2 R"
      "scope_counter r2 = scope_counter (n_reg st) + 1"
    and vals: "\<And>q. map_option k_val (info (r_root r2) q) =
       (case (if length q = 3 \<and> take 2 q = scope_key sc then bound ps vs (last q) else None) of
          Some v \<Rightarrow> Some v
        | None \<Rightarrow> if q = scope_key sc then Some val_nil else map_option k_val (info ?root q))"
    using enter_ok [OF ok local sc fresh(1) psf vs push, of "n_depth st + 1"] by blast
  define stb where "stb = (put_reg st r2)\<lparr>n_depth := n_depth st + 1, n_scope := scope, n_active := i # n_active st\<rparr>"
  have scope_len: "trunc REG_PATH_MAX scope = scope" using scope_path_short [OF sc(2)] scope by simp
  have nb: "n_reg stb = r2" "n_scope stb = path_of (scope_key sc)" by (simp_all add: stb_def put_reg_def scope)
  have names: "names stb x = callee_env ?root ps vs x" if xe: "x \<in> idents e" for x
  proof -
    obtain v where v: "callee_env ?root ps vs x = Some v" using env xe by blast
    have x: "good_name x" "x \<noteq> sc" using plain_ident_good [OF plain_idents [OF e(1) xe]] xe fresh(2) by auto
    have "names stb x = Some v"
      by (rule callee_resolve [OF sc(2) x(1) nb(2) vals [folded nb(1)] fresh(1) x(2) v])
    then show ?thesis using v by simp
  qed
  have "scalar_env (names stb) e" using names env by (fastforce simp: scalar_env_def)
  then have body: "eval_block (eval_node m) (Some (AST_BLOCK [AST_RET (Some e)])) stb =
      at_state stb (returned (sem (callee_env ?root ps vs) e))"
    using eval_ret_body [OF e(1) _ e(2)] sem_cong [OF e(1), of "names stb" "callee_env ?root ps vs"] names by simp
  have wf: "wf_key [] ?root" using ok by (simp add: reg_ok_def)
  obtain r3 where r3: "reg_pop_scope r2 scope = Inr r3" "reg_ok r3 R" "scope_counter r3 = scope_counter r2"
    "same_vals ?root (r_root r3)"
    using leave_ok [OF r2(2) sc(2) fresh(1) wf _ st(3) vals] f' scope by blast
  have restore: "put_reg stb r3\<lparr>n_scope := trunc REG_PATH_MAX (n_scope st), n_depth := n_depth stb - 1, n_active := n_active st\<rparr> = put_reg st r3"
    using st(2) by (simp add: stb_def put_reg_def)
  let ?r = "sem (callee_env ?root ps vs) e"
  have "call_user (eval_node m) name i vs st =
    bind_res (at_state stb (returned ?r)) (\<lambda>(sig, v, st3).
        bind_res (reg_pop_scope (n_reg st3) scope) (\<lambda>r.
        bind_res (free_all ((put_reg st3 r)\<lparr>n_scope := trunc REG_PATH_MAX (n_scope st), n_depth := n_depth st3 - 1,
            n_active := n_active st\<rparr>) vs) (\<lambda>st4.
          if sig = CTRL_RET then ok v st4
          else if sig = CTRL_ERR then Inr (CTRL_ERR, v, st4)
          else ok_free v val_nil st4)))"
    using f' st(1) push r2(1) scope_len body
    by (simp add: call_user_def stb_def put_reg_def)
  also have "\<dots> = at_state (put_reg st r3) ?r"
    using sem_sig [of "callee_env ?root ps vs" e] nb(1) r3(1)
    by (cases ?r) (auto simp: at_state_def returned_def free_all_scalar [OF vs] restore [unfolded One_nat_def] ok_def)
  finally have "call_user (eval_node m) name i vs st = at_state (put_reg st r3) ?r" .
  then have "eval_node (Suc m) (Some (AST_FN_CALL name (List.map Some es))) st = at_state (put_reg st r3) ?r"
    using f' by (simp add: node_step_def eval_call_def eargs find_function_def)
  then show ?thesis using r2(3) r3(2-4) by auto
qed

subsection \<open>An example\<close>

definition call_demo :: nexs where
  "call_demo = put_reg (nexs_zero\<lparr>n_scope := ''/'',
     n_fns := [\<lparr>fd_name = ''f'', fd_params = [''a''], fd_nparams = 1,
       fd_body = Some (AST_BLOCK [AST_RET (Some (AST_BINOP ''+'' (AST_IDENT ''a'') (AST_INT_LIT (val_int 1))))]),
       fd_refs = 1, fd_builtin = None, fd_sig = []\<rparr>]\<rparr>) (reg_init blank)"

lemma call_demo_facts:
  fixes e root
  defines "e \<equiv> AST_BINOP ''+'' (AST_IDENT ''a'') (AST_INT_LIT (val_int 1))" and "root \<equiv> r_root (reg_init blank)"
  shows "n_reg call_demo = reg_init blank" "plain_expr e" "user_fn (n_fns call_demo) ''f'' 0 [''a''] e"
    "3 \<le> m \<Longrightarrow> ready_args call_demo m [AST_INT_LIT (val_int 41)] [val_int 41]"
    "info root [''local''] \<noteq> None" "''f_0'' = ''f'' @ ''_'' @ show_int (sint (scope_counter (reg_init blank)))"
    "nkeys root = 7" "info root (scope_key ''f_0'') = None" "callee_env root [''a''] [val_int 41] ''a'' = Some (val_int 41)"
    "sem (callee_env root [''a''] [val_int 41]) e = Inr (CTRL_NONE, val_int 42)"
    "callee_env root [''a''] [] ''a'' = Some val_nil" "sem (callee_env root [''a''] []) e = Inr (CTRL_NONE, val_int 1)"
proof -
  show "n_reg call_demo = reg_init blank" by (simp add: call_demo_def)
  show "plain_expr e" by (simp add: e_def op_token_def plain_ident_def keyword_table_def isalpha_def isalnum_def val_int_def)
  show "user_fn (n_fns call_demo) ''f'' 0 [''a''] e"
    by (simp add: e_def user_fn_def call_demo_def put_reg_def nexs_zero_def fn_lookup_def good_name_def)
  show "3 \<le> m \<Longrightarrow> ready_args call_demo m [AST_INT_LIT (val_int 41)] [val_int 41]"
    by (simp add: ready_args_def scalar_env_def val_int_def)
  show "info root [''local''] \<noteq> None" using reg_init_local by (simp add: root_def)
  show "''f_0'' = ''f'' @ ''_'' @ show_int (sint (scope_counter (reg_init blank)))" by code_simp
  show "nkeys root = 7" unfolding root_def by code_simp
  show "info root (scope_key ''f_0'') = None" unfolding root_def by code_simp
  show env: "callee_env root [''a''] [val_int 41] ''a'' = Some (val_int 41)" by (simp add: callee_env_def bound_Cons)
  show "sem (callee_env root [''a''] [val_int 41]) e = Inr (CTRL_NONE, val_int 42)"
    using apply_op_exact [of "''+''" 41 1 42] by (simp add: e_def env arith_def)
  show nil: "callee_env root [''a''] [] ''a'' = Some val_nil" by (simp add: callee_env_def bound_Cons)
  have "apply_op ''+'' val_nil (val_int 1) = Inr (val_int 1)"
    by (simp add: apply_op_def val_add_def val_to_int_def int64_result_def val_nil_def val_int_def)
  then show "sem (callee_env root [''a''] []) e = Inr (CTRL_NONE, val_int 1)" by (simp add: e_def nil)
qed

text \<open>The argument is missing: the parameter is nil, which counts as 0.\<close>

lemma call_demo_runs:
  assumes "3 \<le> m"
  shows "\<exists>r. eval_node (Suc m) (Some (AST_FN_CALL ''f'' [])) call_demo = Inr (CTRL_NONE, val_int 1, put_reg call_demo r)"
proof -
  note f = call_demo_facts
  have "\<exists>r. eval_node (Suc m) (Some (AST_FN_CALL ''f'' (List.map Some []))) call_demo =
      at_state (put_reg call_demo r) (sem (callee_env (r_root (reg_init blank)) [''a''] [])
        (AST_BINOP ''+'' (AST_IDENT ''a'') (AST_INT_LIT (val_int 1))))"
    using call_expr_ok [of call_demo "[]" "''f''" 0 "[''a'']" _ m "[]" "[]" "''f_0''",
        unfolded f(1), OF reg_init_blank f(5,3,2) _ _ _ _ _ f(6) _ f(8)] assms
    by (auto simp: f(7,11) ready_args_def good_name_def call_demo_def put_reg_def nexs_zero_def)
  then show ?thesis unfolding f(12) by (auto simp: at_state_def)
qed

subsection \<open>The property\<close>

text \<open>C2: A call of a user function whose body is exactly one \<open>ret\<close> of an expression of literals, names and
  operators gives the value of that expression in the environment of the callee: the parameters with the argument
  values (nil where an argument is missing), then \<open>/local\<close>, then the root; the names of the caller's scope are not
  visible. It is proved for arguments that are such expressions, with every name of the body bound to a value without
  references, below the largest call depth and with a fresh scope name. Whatever the outcome, the state is the one
  before, but for the scope counter and a registry that holds the same values and keeps its invariant: the scope of
  the call is gone. Bodies with assignments, conditionals, loops, output or further calls are not covered.\<close>

theorem call_by_value:
  assumes "reg_ok (n_reg st) R" and "info (r_root (n_reg st)) [''local''] \<noteq> None"
    and "user_fn (n_fns st) name i ps e" and "plain_expr e" and "height e + 1 \<le> m"
    and "ready_args st m es vs"
    and "n_depth st < MAX_CALL_DEPTH" and "length (n_scope st) < REG_PATH_MAX" and "nkeys (r_root (n_reg st)) < 2 ^ 63"
    and "sc = name @ ''_'' @ show_int (sint (scope_counter (n_reg st)))" and "good_name sc"
    and "info (r_root (n_reg st)) (scope_key sc) = None" and "sc \<notin> idents e"
    and "\<forall>x \<in> idents e. \<exists>v. callee_env (r_root (n_reg st)) ps vs x = Some v \<and> scalar v"
  shows "\<exists>r. eval_node (Suc m) (Some (AST_FN_CALL name (List.map Some es))) st =
      at_state (put_reg st r) (sem (callee_env (r_root (n_reg st)) ps vs) e) \<and>
    reg_ok r R \<and> scope_counter r = scope_counter (n_reg st) + 1 \<and> same_vals (r_root (n_reg st)) (r_root r)"
  by (rule call_expr_ok [OF assms(1-6) assms(7-9) assms(10-14)])

theorem call_by_value_witness:
  "\<exists>r. eval_node 4 (Some (AST_FN_CALL ''f'' [Some (AST_INT_LIT (val_int 41))])) call_demo =
     Inr (CTRL_NONE, val_int 42, put_reg call_demo r) \<and> reg_ok r []"
proof -
  note f = call_demo_facts
  have "\<exists>r. eval_node (Suc 3) (Some (AST_FN_CALL ''f'' (List.map Some [AST_INT_LIT (val_int 41)]))) call_demo =
      at_state (put_reg call_demo r) (sem (callee_env (r_root (reg_init blank)) [''a''] [val_int 41])
        (AST_BINOP ''+'' (AST_IDENT ''a'') (AST_INT_LIT (val_int 1)))) \<and>
    reg_ok r [] \<and> scope_counter r = scope_counter (reg_init blank) + 1 \<and> same_vals (r_root (reg_init blank)) (r_root r)"
    using call_by_value [of call_demo "[]" "''f''" 0 "[''a'']" _ 3 "[AST_INT_LIT (val_int 41)]" "[val_int 41]" "''f_0''",
        unfolded f(1), OF reg_init_blank f(5,3,2) _ f(4) [OF order_refl] _ _ _ f(6) _ f(8)]
    by (simp add: f(7,9) good_name_def call_demo_def put_reg_def nexs_zero_def)
  then show ?thesis unfolding f(10) by (auto simp: at_state_def)
qed

end
