(* ===== verification/Eval_Inv.thy ===== *)
theory Eval_Inv
  imports Calls
begin

section \<open>Fuel and the invariant of evaluation\<close>

text \<open>
  A result does not change with more fuel, so the evaluator of the model is one partial function.
  \<open>kept st st'\<close> relates the states before and after any evaluation: output is only appended, no entry
  of the function table goes away or changes its name or kind, a running function keeps its body, and
  the call depth and the list of running functions are what they were.
\<close>

subsection \<open>More fuel\<close>

definition within :: "'a res \<Rightarrow> 'a res \<Rightarrow> bool" where
  "within r r' \<longleftrightarrow> r = Inl OutOfFuel \<or> r' = r"

definition within_ev :: "ev \<Rightarrow> ev \<Rightarrow> bool" where
  "within_ev f g \<longleftrightarrow> (\<forall>a st. within (f a st) (g a st))"

named_theorems within_intros

lemma within_refl [within_intros]: "within r r"
  by (simp add: within_def)

lemma within_out [within_intros]: "within (Inl OutOfFuel) r"
  by (simp add: within_def)

lemma within_bind [within_intros]:
  "within r r' \<Longrightarrow> (\<And>x. within (f x) (g x)) \<Longrightarrow> within (bind_res r f) (bind_res r' g)"
  by (cases r) (auto simp: within_def)

lemma within_if [within_intros]:
  "(c \<Longrightarrow> within a a') \<Longrightarrow> (\<not> c \<Longrightarrow> within b b') \<Longrightarrow> within (if c then a else b) (if c then a' else b')"
  by simp

lemma within_prod [within_intros]:
  "(\<And>a b. within (f a b) (g a b)) \<Longrightarrow> within (case x of (a, b) \<Rightarrow> f a b) (case x of (a, b) \<Rightarrow> g a b)"
  by (cases x) simp

lemma within_option [within_intros]:
  "within a a' \<Longrightarrow> (\<And>y. within (f y) (g y)) \<Longrightarrow>
   within (case x of None \<Rightarrow> a | Some y \<Rightarrow> f y) (case x of None \<Rightarrow> a' | Some y \<Rightarrow> g y)"
  by (cases x) simp_all

lemma within_callee [within_intros]:
  "(\<And>i. within (f i) (f' i)) \<Longrightarrow> (\<And>i. within (g i) (g' i)) \<Longrightarrow> within a a' \<Longrightarrow>
   within (case x of Table i \<Rightarrow> f i | Legacy i \<Rightarrow> g i | NoFunction \<Rightarrow> a)
     (case x of Table i \<Rightarrow> f' i | Legacy i \<Rightarrow> g' i | NoFunction \<Rightarrow> a')"
  by (cases x) simp_all

lemma within_bind_ev [within_intros]:
  "within r r' \<Longrightarrow> (\<And>v st. within (f v st) (g v st)) \<Longrightarrow> within (bind_ev r f) (bind_ev r' g)"
  unfolding bind_ev_def by (intro within_intros)

lemma within_ev_app: "within_ev f g \<Longrightarrow> within (f a st) (g a st)"
  by (simp add: within_ev_def)

lemma within_stmts:
  assumes e: "within_ev f g" shows "within (eval_stmts f ss v st) (eval_stmts g ss v st)"
proof (induction ss arbitrary: v st)
  case (Cons s ss)
  then show ?case unfolding eval_stmts.simps by (intro within_intros within_ev_app [OF e])
qed (simp add: within_refl)

lemma within_block: "within_ev f g \<Longrightarrow> within (eval_block f b st) (eval_block g b st)"
  unfolding eval_block_def by (intro within_intros within_stmts)

lemma within_args:
  assumes e: "within_ev f g" shows "within (eval_args f es vs st) (eval_args g es vs st)"
proof (induction es arbitrary: vs st)
  case (Cons x es)
  then show ?case unfolding eval_args.simps by (intro within_intros within_ev_app [OF e])
qed (simp add: within_refl)

lemma within_loop:
  assumes e: "within_ev f g" shows "n \<le> m \<Longrightarrow> within (eval_loop n f b st) (eval_loop m g b st)"
proof (induction n arbitrary: m st)
  case (Suc n)
  then obtain m' where m: "m = Suc m'" "n \<le> m'" by (cases m) auto
  show ?case unfolding m(1) eval_loop.simps
    by (intro within_intros within_block [OF e] Suc.IH [OF m(2)])
qed (simp add: within_out)

lemma within_str_with:
  assumes e: "within_ev f g" shows "within (eval_str_with f src st) (eval_str_with g src st)"
  unfolding eval_str_with_def Let_def by (intro within_intros within_ev_app [OF e])

lemma within_eval_builtin:
  assumes e: "within_ev f g" shows "within (builtin_eval_builtin f args st) (builtin_eval_builtin g args st)"
  unfolding builtin_eval_builtin_def Let_def by (intro within_intros within_str_with [OF e])

lemma within_builtin:
  "(\<And>a s. within (ef a s) (eg a s)) \<Longrightarrow> within (call_builtin ef b args st) (call_builtin eg b args st)"
  by (cases b) (simp_all add: call_builtin_def within_refl)

lemma within_call:
  assumes e: "within_ev f g"
  shows "within (eval_call f (builtin_eval_builtin f) name es st) (eval_call g (builtin_eval_builtin g) name es st)"
proof -
  have native: "within (call_native (builtin_eval_builtin f) b args st) (call_native (builtin_eval_builtin g) b args st)" for b args st
    unfolding call_native_def by (intro within_intros within_builtin within_eval_builtin [OF e])
  have user: "within (call_user f name i args st) (call_user g name i args st)" for i args st
    unfolding call_user_def Let_def by (intro within_intros within_block [OF e])
  show ?thesis unfolding eval_call_def by (intro within_intros within_args [OF e] native user)
qed

lemmas node_defs = eval_binop_def eval_unop_def eval_ident_def eval_assign_def eval_index_def eval_index_assign_def
  eval_del_def eval_out_def eval_reg_set_def eval_ls_def eval_cd_def eval_if_def eval_ret_def eval_send_def

lemma within_step:
  assumes e: "within_ev f g" and n: "n \<le> m" shows "within (node_step n f a st) (node_step m g a st)"
proof (cases a)
  case (Some nd)
  then show ?thesis
    by (cases nd; simp only: node_step_def option.case ast.case node_defs Let_def)
      (intro within_intros within_loop [OF e n] within_call [OF e] within_block [OF e] within_ev_app [OF e])+
qed (simp add: node_step_def within_refl)

lemma eval_node_fuel: "n \<le> m \<Longrightarrow> within_ev (eval_node n) (eval_node m)"
proof (induction n arbitrary: m)
  case (Suc n)
  then obtain m' where "m = Suc m'" "n \<le> m'" by (cases m) auto
  then show ?case using Suc within_step by (auto simp: within_ev_def)
qed (simp add: within_ev_def within_out)

lemma eval_str_fuel: "eval_str n src st = r \<Longrightarrow> r \<noteq> Inl OutOfFuel \<Longrightarrow> n \<le> m \<Longrightarrow> eval_str m src st = r"
proof -
  assume r: "eval_str n src st = r" "r \<noteq> Inl OutOfFuel" "n \<le> m"
  have "within (eval_str n src st) (eval_str m src st)"
    unfolding eval_str_def by (rule within_str_with [OF eval_node_fuel [OF r(3)]])
  then show ?thesis using r by (simp add: within_def)
qed
subsection \<open>What evaluation never takes back\<close>

definition grows :: "nexs \<Rightarrow> nexs \<Rightarrow> bool" where
  "grows st st' \<longleftrightarrow>
     (\<exists>s. n_out st' = n_out st @ s) \<and> set (n_moved st) \<subseteq> set (n_moved st') \<and>
     length (n_fns st) \<le> length (n_fns st') \<and>
     (\<forall>i < length (n_fns st). fd_name (n_fns st' ! i) = fd_name (n_fns st ! i) \<and>
       fd_builtin (n_fns st' ! i) = fd_builtin (n_fns st ! i) \<and>
       (i \<in> set (n_active st) \<longrightarrow> n_fns st' ! i = n_fns st ! i))"

definition kept :: "nexs \<Rightarrow> nexs \<Rightarrow> bool" where
  "kept st st' \<longleftrightarrow> grows st st' \<and> n_depth st' = n_depth st \<and> n_active st' = n_active st"

lemma kept_refl [simp]: "kept st st"
  by (simp add: kept_def grows_def)

lemma grows_trans: "grows a b \<Longrightarrow> grows b c \<Longrightarrow> set (n_active a) \<subseteq> set (n_active b) \<Longrightarrow> grows a c"
  unfolding grows_def by (auto 4 4)

lemma kept_trans: "kept a b \<Longrightarrow> kept b c \<Longrightarrow> kept a c"
  using grows_trans unfolding kept_def by auto

text \<open>Changes that are always allowed.\<close>

lemma kept_updates [simp]:
  "kept a (b\<lparr>n_ipc := x\<rparr>) = kept a b" "kept a (put_reg b r) = kept a b" "kept a (put_heap b h) = kept a b"
  "kept a (b\<lparr>n_scope := s\<rparr>) = kept a b" "kept a (b\<lparr>n_arrays := as\<rparr>) = kept a b"
  "kept a (b\<lparr>n_errstr := s\<rparr>) = kept a b" "kept a (b\<lparr>n_debug := d\<rparr>) = kept a b"
  by (simp_all add: kept_def grows_def put_reg_def put_heap_def)

lemma kept_out: "kept a b \<Longrightarrow> kept a (b\<lparr>n_out := n_out b @ s\<rparr>)" "kept a b \<Longrightarrow> kept a (emit s b)"
  by (auto simp: kept_def grows_def emit_def)

definition upto :: "nexs \<Rightarrow> ('a \<Rightarrow> nexs) \<Rightarrow> 'a res \<Rightarrow> bool" where
  "upto st g r \<longleftrightarrow> (\<forall>x. r = Inr x \<longrightarrow> kept st (g x))"

abbreviation third :: "'a \<times> 'b \<times> nexs \<Rightarrow> nexs" where
  "third x \<equiv> snd (snd x)"

named_theorems upto_intros

lemma upto_bind:
  "upto st g r \<Longrightarrow> (\<And>x. kept st (g x) \<Longrightarrow> upto st k (f x)) \<Longrightarrow> upto st k (bind_res r f)"
  by (cases r) (auto simp: upto_def)

lemma upto_bind1 [upto_intros]:
  "upto st id r \<Longrightarrow> (\<And>s. kept st s \<Longrightarrow> upto st k (f s)) \<Longrightarrow> upto st k (bind_res r f)"
  by (rule upto_bind) auto

lemma upto_bind2 [upto_intros]:
  "upto st snd r \<Longrightarrow> (\<And>x s. kept st s \<Longrightarrow> upto st k (f x s)) \<Longrightarrow> upto st k (bind_res r (\<lambda>(x, s). f x s))"
  by (rule upto_bind [where g = snd]) auto

lemma upto_bind3 [upto_intros]:
  "upto st third r \<Longrightarrow> (\<And>x y s. kept st s \<Longrightarrow> upto st k (f x y s)) \<Longrightarrow> upto st k (bind_res r (\<lambda>(x, y, s). f x y s))"
  by (rule upto_bind [where g = third]) auto

lemma upto_bind_ev [upto_intros]:
  "upto st third r \<Longrightarrow> (\<And>v s. kept st s \<Longrightarrow> upto st third (f v s)) \<Longrightarrow> upto st third (bind_ev r f)"
  unfolding bind_ev_def by (rule upto_bind3) (auto simp: upto_def split: if_splits)

text \<open>Results of the lower components carry no state of the interpreter.\<close>

lemma upto_bind_any:
  fixes r :: "'r res" shows "(\<And>x. upto st k (f x)) \<Longrightarrow> upto st k (bind_res r f)"
  by (cases r) (auto simp: upto_def)

lemmas upto_bind_pure [upto_intros] =
  upto_bind_any [where 'r = heap] upto_bind_any [where 'r = string] upto_bind_any [where 'r = val]
  upto_bind_any [where 'r = rstate] upto_bind_any [where 'r = "nat option"] upto_bind_any [where 'r = dynarray]
  upto_bind_any [where 'r = "val \<times> heap"] upto_bind_any [where 'r = "nat \<times> heap \<times> nat list"]
  upto_bind_any [where 'r = "ast \<times> parser"]

lemma upto_prod [upto_intros]: "(\<And>x y. upto st k (f x y)) \<Longrightarrow> upto st k (case p of (x, y) \<Rightarrow> f x y)"
  by (cases p) simp

lemma upto_if [upto_intros]:
  "(c \<Longrightarrow> upto st k a) \<Longrightarrow> (\<not> c \<Longrightarrow> upto st k b) \<Longrightarrow> upto st k (if c then a else b)"
  by simp

lemma upto_option [upto_intros]:
  "(x = None \<Longrightarrow> upto st k a) \<Longrightarrow> (\<And>y. upto st k (f y)) \<Longrightarrow> upto st k (case x of None \<Rightarrow> a | Some y \<Rightarrow> f y)"
  by (cases x) simp_all

lemma upto_Inl [upto_intros]: "upto st k (Inl e)"
  by (simp add: upto_def)

lemma upto_Inr [upto_intros]: "kept st (k x) \<Longrightarrow> upto st k (Inr x)"
  by (simp add: upto_def)

lemma upto_ok [upto_intros]: "kept a st \<Longrightarrow> upto a third (ok v st)" "kept a st \<Longrightarrow> upto a third (err_result m st)"
  by (simp_all add: upto_def ok_def err_result_def)

lemma upto_values [upto_intros]:
  "kept a st \<Longrightarrow> upto a snd (clone_val st v)" "kept a st \<Longrightarrow> upto a id (free_val st v)"
  "kept a st \<Longrightarrow> upto a snd (with_reg f st)" "kept a st \<Longrightarrow> upto a snd (with_ipc g st)"
  by (auto simp: clone_val_def free_val_def with_reg_def with_ipc_def upto_def bind_res_Inr split: prod.splits)

lemma upto_free_all [upto_intros]: "kept a st \<Longrightarrow> upto a id (free_all st vs)"
proof (induction vs arbitrary: st)
  case (Cons v vs)
  have "foldl (\<lambda>r v. bind_res r (\<lambda>s. free_val s v)) (Inl e) ws = Inl e" for e and ws :: "val list"
    by (induction ws) auto
  then show ?case
    using upto_values(2) [OF Cons.prems, of v] Cons.IH by (cases "free_val st v") (auto simp: free_all_def upto_def)
qed (simp add: free_all_def upto_def)

lemma upto_set_reg [upto_intros]: "kept a st \<Longrightarrow> upto a id (set_reg p v rights st)"
  unfolding set_reg_def by (rule upto_bind2 upto_intros | assumption | simp)+

lemma upto_ok_ops [upto_intros]:
  "kept a st \<Longrightarrow> upto a third (ok_clone v st)" "kept a st \<Longrightarrow> upto a third (ok_free v w st)"
  "upto a snd r \<Longrightarrow> upto a third (ok_res r)"
  unfolding ok_clone_def ok_free_def ok_res_def by (rule upto_intros | assumption)+


definition kept_ev :: "ev \<Rightarrow> bool" where
  "kept_ev ev \<longleftrightarrow> (\<forall>a st. upto st third (ev a st))"

lemma upto_ev: "kept_ev ev \<Longrightarrow> kept st s \<Longrightarrow> upto st third (ev a s)"
  by (auto simp: kept_ev_def upto_def intro: kept_trans)

lemma upto_later: "(\<And>s. upto s k (f s)) \<Longrightarrow> kept st s \<Longrightarrow> upto st k (f s)"
  by (auto simp: upto_def intro: kept_trans)

lemma upto_stmts:
  assumes ev: "kept_ev ev" shows "kept st s \<Longrightarrow> upto st third (eval_stmts ev ss v s)"
proof (induction ss arbitrary: v s)
  case (Cons x ss)
  show ?case unfolding eval_stmts.simps
    by (rule upto_intros upto_ev [OF ev] Cons.IH Cons.prems | assumption)+
qed (simp add: upto_ok)

lemma upto_block: "kept_ev ev \<Longrightarrow> kept st s \<Longrightarrow> upto st third (eval_block ev b s)"
  unfolding eval_block_def by (rule upto_intros upto_stmts kept_refl | assumption)+

lemma upto_args:
  assumes ev: "kept_ev ev" shows "kept st s \<Longrightarrow> upto st (\<lambda>x. snd (snd (snd x))) (eval_args ev es vs s)"
proof (induction es arbitrary: vs s)
  case (Cons x es)
  show ?case unfolding eval_args.simps
    by (rule upto_bind3 [OF upto_ev [OF ev Cons.prems]] upto_if upto_bind1 upto_free_all Cons.IH | assumption | simp add: upto_def)+
qed (simp add: upto_def)

lemma fn_register_grows:
  assumes "fn_register (n_fns st) name body ps = (idx, fns)"
    and "\<forall>i. user_slot (n_fns st) name = Some i \<longrightarrow> i \<notin> set (n_active st)"
  shows "kept st (st\<lparr>n_fns := fns, n_moved := d # n_moved st\<rparr>)"
  using assms find_slot_Some
  by (auto simp: fn_register_def kept_def grows_def nth_list_update nth_append user_slot_def split: option.splits if_splits)

lemma upto_fn_decl: "upto st third (eval_fn_decl d name params body st)"
  unfolding eval_fn_decl_def Let_def
  by (cases "fn_register (n_fns st) name (if d \<in> set (n_moved st) then None else body) params")
    (auto intro!: upto_intros fn_register_grows split: option.splits)


subsection \<open>Builtins\<close>

lemma upto_with_path [upto_intros]:
  "kept st s \<Longrightarrow> (\<And>p. upto st snd (f p)) \<Longrightarrow> upto st snd (with_path m args s f)"
  unfolding with_path_def by (rule upto_intros | simp)+

lemma upto_string_array [upto_intros]: "upto st snd (string_array st ss)"
  unfolding string_array_def Let_def by (rule upto_intros | simp)+

lemmas builtin_defs = builtin_str_def builtin_int_def builtin_float_def builtin_len_def builtin_type_def
  builtin_buddy_stats_def builtin_errstr_def builtin_substr_def builtin_contains_def builtin_trim_def
  builtin_upper_def builtin_lower_def builtin_split_def builtin_replace_def builtin_abs_def builtin_min_def
  builtin_max_def builtin_lines_of_def builtin_keys_def builtin_print_reg_def builtin_reg_get_def
  builtin_reg_set_fn_def builtin_reg_del_def builtin_term_size_def builtin_arr_create_anon_def
  builtin_arr_join_def builtin_arr_ins_def builtin_arr_del_def nexs_builtin_sendmsg_def
  nexs_builtin_recvmsg_def nexs_builtin_msgpending_def nexs_builtin_ptr_def nexs_builtin_deref_def
  builtin_sleep_def builtin_sys_debug_def

lemma upto_sysval [upto_intros]: "upto st snd (builtin_str args st)"
  unfolding builtin_str_def Let_def
  by (cases "vtype (hd args)") (simp_all add: upto_Inr upto_if upto_values)

lemma upto_string_builtins [upto_intros]:
  "upto st snd (builtin_int args st)" "upto st snd (builtin_float args st)" "upto st snd (builtin_len args st)"
  "upto st snd (builtin_type args st)" "upto st snd (builtin_substr args st)" "upto st snd (builtin_contains args st)"
  "upto st snd (builtin_trim args st)" "upto st snd (builtin_upper args st)" "upto st snd (builtin_lower args st)"
  "upto st snd (builtin_split args st)" "upto st snd (builtin_replace args st)" "upto st snd (builtin_lines_of args st)"
  unfolding builtin_defs Let_def by (rule upto_intros | simp)+

lemma upto_other_builtins [upto_intros]:
  "upto st snd (builtin_buddy_stats args st)" "upto st snd (builtin_errstr args st)" "upto st snd (builtin_abs args st)"
  "upto st snd (builtin_min args st)" "upto st snd (builtin_max args st)" "upto st snd (builtin_keys args st)"
  "upto st snd (builtin_print_reg args fns st)" "upto st snd (builtin_reg_get args st)" "upto st snd (builtin_reg_set_fn args st)"
  "upto st snd (builtin_reg_del args st)" "upto st snd (builtin_sleep args st)" "upto st snd (builtin_sys_debug args st)"
  unfolding builtin_defs Let_def by (rule upto_intros | simp add: kept_out)+

lemma upto_array_builtins [upto_intros]:
  "upto st snd (builtin_term_size args st)" "upto st snd (builtin_arr_create_anon args st)"
  "upto st snd (builtin_arr_join args st)" "upto st snd (builtin_arr_ins args st)" "upto st snd (builtin_arr_del args st)"
  "upto st snd (nexs_builtin_sendmsg args st)" "upto st snd (nexs_builtin_recvmsg args st)"
  "upto st snd (nexs_builtin_msgpending args st)" "upto st snd (nexs_builtin_ptr args st)" "upto st snd (nexs_builtin_deref args st)"
  unfolding builtin_defs Let_def by (rule upto_intros | simp)+

lemma upto_builtin:
  assumes ef: "\<And>a s. upto s snd (ef a s)" shows "upto st snd (call_builtin ef b args st)"
  by (cases b) (simp_all add: call_builtin_def ef upto_intros)


subsection \<open>Calls\<close>

lemma upto_bind_params: "kept a st \<Longrightarrow> upto a id (bind_params scope ps vs st)"
proof (induction ps arbitrary: vs st)
  case (Cons p ps)
  show ?case unfolding bind_params.simps by (rule upto_bind1 upto_set_reg Cons.IH Cons.prems | assumption)+
qed (simp add: upto_def)

text \<open>Into the call and out of it.\<close>

lemma kept_leave:
  assumes "kept ((put_reg s r0)\<lparr>n_depth := n_depth s + 1\<rparr>) s2" and "kept (s2\<lparr>n_scope := sc, n_active := i # n_active s2\<rparr>) s3"
  shows "kept s ((put_reg s3 r)\<lparr>n_scope := sc', n_depth := n_depth s3 - 1, n_active := n_active s2\<rparr>)"
  using assms unfolding kept_def grows_def put_reg_def by (auto 4 4)

lemma upto_call_user:
  assumes ev: "kept_ev ev" shows "upto st third (call_user ev name i vs st)"
proof -
  obtain scope r where push: "reg_push_scope (n_reg st) name = (scope, r)" by fastforce
  let ?st1 = "(put_reg st r)\<lparr>n_depth := n_depth st + 1\<rparr>"
  let ?enter = "\<lambda>s. s\<lparr>n_scope := trunc REG_PATH_MAX scope, n_active := i # n_active s\<rparr>"
  let ?leave = "\<lambda>s2 s3 r. (put_reg s3 r)\<lparr>n_scope := trunc REG_PATH_MAX (n_scope s2), n_depth := n_depth s3 - 1,
            n_active := n_active s2\<rparr>"
  note leave = kept_leave [of st r]
  have inner: "upto st third (bind_res (eval_block ev b (?enter s2)) (\<lambda>(sig, v, st3).
        bind_res (reg_pop_scope (n_reg st3) scope) (\<lambda>r.
        bind_res (free_all (?leave s2 st3 r) vs) (\<lambda>st4.
          if sig = CTRL_RET then ok v st4
          else if sig = CTRL_ERR then Inr (CTRL_ERR, v, st4)
          else ok_free v val_nil st4))))" if s2: "kept ?st1 s2" for s2 b
  proof (cases "eval_block ev b (?enter s2)")
    case (Inr x)
    obtain sig v s3 where x: "x = (sig, v, s3)" by (cases x)
    have "upto (?enter s2) third (eval_block ev b (?enter s2))" by (rule upto_block [OF ev]) simp
    then have "kept (?enter s2) s3" unfolding Inr x by (simp add: upto_def)
    from leave [OF s2 this] have l: "kept st (?leave s2 s3 r)" for r .
    show ?thesis unfolding Inr x bind_res_simps prod.case
      by (rule upto_intros l | assumption | simp)+
  qed (simp add: upto_def)
  show ?thesis
  proof (cases "bind_params scope (take (fd_nparams (n_fns st ! i)) (fd_params (n_fns st ! i))) vs ?st1")
    case (Inl e)
    show ?thesis unfolding call_user_def Let_def push prod.case Inl bind_res_simps
      by (rule upto_if upto_bind1 upto_free_all kept_refl upto_ok upto_Inl | assumption)+
  next
    case (Inr s2)
    have "upto ?st1 id (bind_params scope (take (fd_nparams (n_fns st ! i)) (fd_params (n_fns st ! i))) vs ?st1)"
      by (rule upto_bind_params) simp
    then have "kept ?st1 s2" unfolding Inr by (simp add: upto_def)
    note inner = inner [OF this]
    show ?thesis unfolding call_user_def Let_def push prod.case Inr bind_res_simps
      by (rule upto_if upto_bind1 upto_free_all kept_refl upto_ok inner | assumption)+
  qed
qed


lemma kept_decls [simp]: "kept a (b\<lparr>n_decls := d\<rparr>) = kept a b"
  by (simp add: kept_def grows_def)

lemma upto_str_with:
  assumes ev: "kept_ev ev" shows "upto st third (eval_str_with ev src st)"
  unfolding eval_str_with_def Let_def by (rule upto_intros upto_ev [OF ev] | assumption | simp)+

lemma kept_context:
  assumes "kept (eval_ctx_init st) s" shows "kept st (s\<lparr>n_scope := sc, n_depth := n_depth st\<rparr>)"
  using assms by (auto simp: kept_def grows_def eval_ctx_init_def)

lemma upto_eval_builtin:
  assumes ev: "kept_ev ev" shows "upto st snd (builtin_eval_builtin ev args st)"
proof -
  have inner: "upto st snd (bind_res (eval_str_with ev src (eval_ctx_init st)) (\<lambda>(sig, v, st1).
            let st2 = st1\<lparr>n_scope := n_scope st, n_depth := n_depth st\<rparr> in
            if sig = CTRL_ERR \<and> \<not> (vtype v = TYPE_ERR \<and> err_msg v \<noteq> None) then
              bind_res (free_val st2 v) (arg_error ''eval: execution failed'')
            else Inr (v, st2)))" for src
  proof (cases "eval_str_with ev src (eval_ctx_init st)")
    case (Inr x)
    obtain sig v s where x: "x = (sig, v, s)" by (cases x)
    have "kept (eval_ctx_init st) s" using upto_str_with [OF ev, of "eval_ctx_init st" src] by (simp add: Inr x upto_def)
    note k = kept_context [OF this]
    show ?thesis unfolding Inr x bind_res_simps prod.case Let_def by (rule upto_intros k | assumption | simp add: k)+
  qed (simp add: upto_def)
  show ?thesis unfolding builtin_eval_builtin_def by (rule upto_if upto_Inr upto_option inner | simp)+
qed

lemma upto_native [upto_intros]:
  assumes ef: "\<And>a s. upto s snd (ef a s)" and k: "kept st s" shows "upto st third (call_native ef b args s)"
  unfolding call_native_def
  by (rule upto_bind2 upto_later [OF upto_builtin [OF ef] k] upto_intros | assumption)+

lemma upto_call:
  assumes ev: "kept_ev ev" shows "upto st third (eval_call ev (builtin_eval_builtin ev) name es st)"
proof (cases "eval_args ev es [] st")
  case (Inr x)
  obtain sig v args s where x: "x = (sig, v, args, s)" by (cases x)
  have s: "kept st s" using upto_args [OF ev, of st st es "[]"] by (simp add: Inr x upto_def)
  have user: "upto st third (call_user ev name i args s)" for i by (rule upto_later [OF upto_call_user [OF ev] s])
  have nat: "upto st third (call_native (builtin_eval_builtin ev) b args s)" for b
    by (rule upto_native [OF upto_eval_builtin [OF ev] s])
  show ?thesis
    by (cases "find_function s name") (auto simp: eval_call_def Inr x user nat s upto_Inl split: option.split intro!: upto_intros)
qed (simp add: eval_call_def upto_def)

subsection \<open>Nodes\<close>

lemma upto_loop:
  assumes ev: "kept_ev ev" shows "kept st s \<Longrightarrow> upto st third (eval_loop n ev b s)"
proof (induction n arbitrary: s)
  case (Suc n)
  show ?case unfolding eval_loop.simps
    by (rule upto_bind3 [OF upto_block [OF ev Suc.prems]] upto_if upto_bind1 upto_values upto_ok_ops Suc.IH upto_Inr | assumption | simp)+
qed (simp add: upto_def)

lemma upto_make_array [upto_intros]: "kept a st \<Longrightarrow> upto a snd (find_or_make_array st name)"
  unfolding find_or_make_array_def Let_def by (rule upto_intros | simp)+

lemma upto_step:
  assumes ev: "kept_ev ev" shows "upto st third (node_step n ev a st)"
proof (cases a)
  case (Some nd)
  then show ?thesis
    by (cases nd; simp only: node_step_def option.case ast.case node_defs eval_recv_def eval_ptr_set_def Let_def)
      (rule upto_intros upto_loop [OF ev] upto_call [OF ev] upto_block [OF ev] upto_ev [OF ev] upto_fn_decl kept_refl
        | assumption | simp add: kept_out)+
qed (simp add: node_step_def upto_ok)

lemma eval_node_kept: "kept_ev (eval_node n)"
proof (induction n)
  case (Suc n)
  then show ?case using upto_step by (auto simp: kept_ev_def)
qed (simp add: kept_ev_def upto_def)

lemma eval_str_kept: "eval_str n src st = Inr (sig, v, st') \<Longrightarrow> kept st st'"
  using upto_str_with [OF eval_node_kept, of st n src] by (simp add: eval_str_def upto_def)

subsection \<open>The properties\<close>

text \<open>The fuel is no part of the result: whatever \<open>eval_str\<close> gives with some fuel, other than running
  out of it, it gives with any more.\<close>

lemma eval_fuel_stable:
  assumes "eval_str n src st = r" and "r \<noteq> Inl OutOfFuel" and "n \<le> m"
  shows "eval_str m src st = r"
  by (rule eval_str_fuel [OF assms])

lemma eval_fuel_stable_witness: "eval_str 1000 [] nexs_zero = Inr (CTRL_NONE, val_nil, nexs_zero)"
proof -
  have "eval_str 1 [] nexs_zero = Inr (CTRL_NONE, val_nil, nexs_zero)" by code_simp
  then show ?thesis by (rule eval_fuel_stable) simp_all
qed

text \<open>C23: Running a program only appends to the output, never removes or renames an entry of the function
  table nor turns a builtin into a user function or back, leaves the functions that are running as they
  are, and leaves the call depth where it was, whatever the program does and however it ends.\<close>

theorem eval_keeps:
  assumes "eval_str n src st = Inr (sig, v, st')"
  shows "(\<exists>s. n_out st' = n_out st @ s) \<and> n_depth st' = n_depth st \<and> n_active st' = n_active st \<and>
    length (n_fns st) \<le> length (n_fns st') \<and>
    (\<forall>i < length (n_fns st). fd_name (n_fns st' ! i) = fd_name (n_fns st ! i) \<and>
      fd_builtin (n_fns st' ! i) = fd_builtin (n_fns st ! i) \<and>
      (i \<in> set (n_active st) \<longrightarrow> n_fns st' ! i = n_fns st ! i))"
  using eval_str_kept [OF assms] by (simp add: kept_def grows_def)

lemma out_call_runs:
  assumes ev: "eval_node m (Some e) st = Inr (CTRL_NONE, val_int i, st')"
    and p: "parse_program (parser_init (lexer_init src) (n_decls st)) = Inr (AST_PROGRAM [AST_OUT (Some e)], p)"
      "\<not> p_had_error p" "p_decls p = n_decls st"
  shows "eval_str (Suc (Suc m)) src st = Inr (CTRL_NONE, val_nil, emit (show_int (sint i) @ [NL]) st')"
  unfolding eval_str_def eval_str_with_def p(1) using p(2,3)
  by (simp add: node_step_def eval_block_def block_children_def eval_out_def bind_ev_def ev bind_res_def show_scalar
      ok_free_def ok_def)

lemma call_demo_program: "\<exists>r. eval_str 7 ''out f()'' call_demo = Inr (CTRL_NONE, val_nil, emit (''1'' @ [NL]) (put_reg call_demo r))"
proof -
  obtain r where r: "eval_node (Suc 4) (Some (AST_FN_CALL ''f'' [])) call_demo =
     Inr (CTRL_NONE, val_int 1, put_reg call_demo r)"
    using call_demo_runs [of 4] by auto
  have d: "n_decls call_demo = 0" by (simp add: call_demo_def put_reg_def nexs_zero_def)
  have "case parse_program (parser_init (lexer_init ''out f()'') 0) of
      Inl _ \<Rightarrow> False | Inr (t, p) \<Rightarrow> t = AST_PROGRAM [AST_OUT (Some (AST_FN_CALL ''f'' []))] \<and>
        \<not> p_had_error p \<and> p_decls p = 0"
    by code_simp
  then obtain p where p: "parse_program (parser_init (lexer_init ''out f()'') (n_decls call_demo)) =
      Inr (AST_PROGRAM [AST_OUT (Some (AST_FN_CALL ''f'' []))], p)"
      "\<not> p_had_error p" "p_decls p = n_decls call_demo"
    unfolding d by (auto split: sum.splits)
  have n: "(7 :: nat) = Suc (Suc (Suc 4))" and s: "show_int (sint (1 :: u64)) = ''1''" by (simp, code_simp)
  show ?thesis unfolding n using out_call_runs [OF r p] unfolding s by blast
qed

theorem eval_keeps_witness:
  "\<exists>v st. eval_str 7 ''out f()'' call_demo = Inr (CTRL_NONE, v, st) \<and> n_out st = n_out call_demo @ ''1'' @ [NL] \<and>
     n_depth st = n_depth call_demo \<and> n_active st = n_active call_demo \<and> fd_name (n_fns st ! 0) = ''f''"
proof -
  obtain r where r: "eval_str 7 ''out f()'' call_demo = Inr (CTRL_NONE, val_nil, emit (''1'' @ [NL]) (put_reg call_demo r))"
    using call_demo_program by blast
  have f: "0 < length (n_fns call_demo)" "fd_name (n_fns call_demo ! 0) = ''f''"
    by (simp_all add: call_demo_def put_reg_def nexs_zero_def)
  have o: "n_out (emit (''1'' @ [NL]) (put_reg call_demo r)) = n_out call_demo @ ''1'' @ [NL]"
    by (simp add: emit_def put_reg_def)
  show ?thesis using eval_keeps [OF r] r f o
    by (intro exI [of _ val_nil] exI [of _ "emit (''1'' @ [NL]) (put_reg call_demo r)"] conjI) auto
qed

end
