(* ===== verification/Sched.thy ===== *)
theory Sched
  imports RegIpc
begin

section \<open>Processes and the scheduler (\<^verbatim>\<open>kernel/proc.c\<close>, \<^verbatim>\<open>kernel/sched.c\<close>)\<close>

text \<open>
  A \<open>NexsProc *\<close> is an index into \<open>s_procs\<close>, the process structures ever allocated; \<open>p_next\<close> are the
  links of the run queues, \<open>s_queues\<close> and \<open>s_tails\<close> their heads and tails. The saved context is the
  entry function and its argument, both addresses. A switch of the context is the change of
  \<open>s_current\<close>. Allocation succeeds (\<open>nexs_alloc\<close> ends the process otherwise). A walk along a
  queue meets more links than there are processes only on a cycle, which is a loop without end.
\<close>

datatype proc_state = PROC_RUNNING | PROC_READY | PROC_BLOCKED | PROC_ZOMBIE

record nexs_proc =
  p_pid :: u32
  p_state :: proc_state
  p_name :: string
  p_reg_path :: string
  p_ipc_inbox :: string
  p_ctx :: "nat \<times> nat"
  p_priority :: u8
  p_timeslice_us :: u64
  p_ticks_used :: u64
  p_wait_path :: string
  p_next :: "nat option"

record sched =
  s_procs :: "nexs_proc list"
  s_queues :: "nat option list"
  s_tails :: "nat option list"
  s_counts :: "int list"
  s_tick :: u64
  s_total :: int
  s_current :: "nat option"
  s_next_pid :: u32
  s_ipc :: istate

abbreviation (input) SCHED_LEVELS :: nat where "SCHED_LEVELS \<equiv> 8"
abbreviation (input) LEVELS :: "nat list" where "LEVELS \<equiv> [0, 1, 2, 3, 4, 5, 6, 7]"

definition prio_level :: "nexs_proc \<Rightarrow> nat" where
  "prio_level p = unat (p_priority p) * SCHED_LEVELS div 256"

definition upd_proc :: "(nexs_proc \<Rightarrow> nexs_proc) \<Rightarrow> nat \<Rightarrow> sched \<Rightarrow> sched" where
  "upd_proc f a st = st\<lparr>s_procs := (s_procs st)[a := f (s_procs st ! a)]\<rparr>"

definition sched_reg_set :: "string \<Rightarrow> val \<Rightarrow> sched \<Rightarrow> sched res" where
  "sched_reg_set path v st =
     bind_res (reg_set (i_reg (s_ipc st)) path v RK_READ) (\<lambda>(rc, r). Inr (st\<lparr>s_ipc := (s_ipc st)\<lparr>i_reg := r\<rparr>\<rparr>))"

definition publish_state :: "sched \<Rightarrow> sched res" where
  "publish_state st =
     (if s_tick st mod 64 \<noteq> 0 then Inr st
      else
        bind_res (sched_reg_set ''/sys/sched/tick'' (val_int (s_tick st)) st) (\<lambda>st1.
        bind_res (sched_reg_set ''/sys/sched/runqueue_depth'' (val_int (of_int (s_total st1))) st1) (\<lambda>st2.
        case s_current st2 of
          None \<Rightarrow> Inr st2
        | Some c \<Rightarrow> sched_reg_set ''/sys/sched/current_pid'' (val_int (ucast (p_pid (s_procs st2 ! c)))) st2)))"

subsection \<open>Run queues\<close>

definition sched_init :: "sched \<Rightarrow> sched res" where
  "sched_init st =
     (let st0 = st\<lparr>s_queues := replicate SCHED_LEVELS None, s_tails := replicate SCHED_LEVELS None,
            s_counts := replicate SCHED_LEVELS 0, s_tick := 0, s_total := 0\<rparr> in
      bind_res (sched_reg_set ''/sys/sched/policy'' (val_str ''rr'') st0) (\<lambda>st1.
      bind_res (sched_reg_set ''/sys/sched/quantum_us'' (val_int 1000) st1) (\<lambda>st2.
      bind_res (sched_reg_set ''/sys/sched/ncpu'' (val_int 1) st2) (\<lambda>st3.
      sched_reg_set ''/sys/sched/status'' (val_str ''idle'') st3))))"

text \<open>Append process \<open>a\<close> to the queue of level \<open>lvl\<close>.\<close>

definition link_tail :: "nat \<Rightarrow> nat \<Rightarrow> sched \<Rightarrow> sched" where
  "link_tail lvl a st =
     (let st1 = upd_proc (\<lambda>p. p\<lparr>p_next := None\<rparr>) a st;
          st2 = (case s_tails st1 ! lvl of
                   Some t \<Rightarrow> upd_proc (\<lambda>p. p\<lparr>p_next := Some a\<rparr>) t st1
                 | None \<Rightarrow> st1\<lparr>s_queues := (s_queues st1)[lvl := Some a]\<rparr>)
      in st2\<lparr>s_tails := (s_tails st2)[lvl := Some a]\<rparr>)"

definition sched_add :: "nat \<Rightarrow> sched \<Rightarrow> sched" where
  "sched_add a st =
     (let lvl = prio_level (s_procs st ! a); st1 = link_tail lvl a st in
      upd_proc (\<lambda>p. p\<lparr>p_state := PROC_READY\<rparr>) a
        (st1\<lparr>s_counts := (s_counts st1)[lvl := s_counts st1 ! lvl + 1], s_total := s_total st1 + 1\<rparr>))"

fun remove_loop :: "nat \<Rightarrow> nat \<Rightarrow> nat \<Rightarrow> nat option \<Rightarrow> nat option \<Rightarrow> sched \<Rightarrow> sched res" where
  "remove_loop 0 lvl a prev cur st = Inl Hang"
| "remove_loop (Suc n) lvl a prev cur st =
     (case cur of
        None \<Rightarrow> Inr st
      | Some c \<Rightarrow>
          if c = a then
            let nxt = p_next (s_procs st ! a);
                st1 = (case prev of
                         Some p \<Rightarrow> upd_proc (\<lambda>x. x\<lparr>p_next := nxt\<rparr>) p st
                       | None \<Rightarrow> st\<lparr>s_queues := (s_queues st)[lvl := nxt]\<rparr>);
                st2 = (if s_tails st1 ! lvl = Some a then st1\<lparr>s_tails := (s_tails st1)[lvl := prev]\<rparr> else st1);
                st3 = upd_proc (\<lambda>p. p\<lparr>p_next := None\<rparr>) a st2
            in Inr (st3\<lparr>s_counts := (s_counts st3)[lvl := s_counts st3 ! lvl - 1], s_total := s_total st3 - 1\<rparr>)
          else remove_loop n lvl a cur (p_next (s_procs st ! c)) st)"

definition sched_remove :: "nat \<Rightarrow> sched \<Rightarrow> sched res" where
  "sched_remove a st =
     (let lvl = prio_level (s_procs st ! a)
      in remove_loop (length (s_procs st) + 1) lvl a None (s_queues st ! lvl) st)"

text \<open>The first level whose head is ready; the head goes to the end of its queue.\<close>

fun pick_loop :: "nat list \<Rightarrow> sched \<Rightarrow> nat option \<times> sched" where
  "pick_loop [] st = (None, st)"
| "pick_loop (lvl # ls) st =
     (case s_queues st ! lvl of
        None \<Rightarrow> pick_loop ls st
      | Some a \<Rightarrow>
          if p_state (s_procs st ! a) = PROC_READY then
            let nxt = p_next (s_procs st ! a);
                st1 = st\<lparr>s_queues := (s_queues st)[lvl := nxt]\<rparr>;
                st2 = (if nxt = None then st1\<lparr>s_tails := (s_tails st1)[lvl := None]\<rparr> else st1)
            in (Some a, link_tail lvl a st2)
          else pick_loop ls st)"

definition sched_pick_next :: "sched \<Rightarrow> nat option \<times> sched" where
  "sched_pick_next st = pick_loop LEVELS st"

definition sched_tick :: "sched \<Rightarrow> sched res" where
  "sched_tick st =
     bind_res (publish_state (st\<lparr>s_tick := s_tick st + 1\<rparr>)) (\<lambda>st1.
       let (next, st2) = sched_pick_next st1 in
       case next of
         None \<Rightarrow> Inr st2
       | Some a \<Rightarrow>
           if s_current st2 = Some a then Inr st2
           else
             let st3 = upd_proc (\<lambda>p. p\<lparr>p_state := PROC_RUNNING\<rparr>) a (st2\<lparr>s_current := Some a\<rparr>) in
             case s_current st2 of
               None \<Rightarrow> Inr st3
             | Some c \<Rightarrow> Inr (upd_proc (\<lambda>p. p\<lparr>p_state := PROC_READY\<rparr>) c st3))"

definition sched_yield :: "sched \<Rightarrow> sched res" where
  "sched_yield st = sched_tick st"

fun find_loop :: "nat \<Rightarrow> u32 \<Rightarrow> nat option \<Rightarrow> sched \<Rightarrow> nat option res" where
  "find_loop 0 pid cur st = Inl Hang"
| "find_loop (Suc n) pid cur st =
     (case cur of
        None \<Rightarrow> Inr None
      | Some c \<Rightarrow> if p_pid (s_procs st ! c) = pid then Inr (Some c) else find_loop n pid (p_next (s_procs st ! c)) st)"

fun find_levels :: "nat list \<Rightarrow> u32 \<Rightarrow> sched \<Rightarrow> nat option res" where
  "find_levels [] pid st = Inr None"
| "find_levels (lvl # ls) pid st =
     bind_res (find_loop (length (s_procs st) + 1) pid (s_queues st ! lvl) st) (\<lambda>r.
       if r \<noteq> None then Inr r else find_levels ls pid st)"

definition sched_find :: "u32 \<Rightarrow> sched \<Rightarrow> nat option res" where
  "sched_find pid st = find_levels LEVELS pid st"

fun unblock_loop :: "nat \<Rightarrow> string \<Rightarrow> nat option \<Rightarrow> sched \<Rightarrow> sched res" where
  "unblock_loop 0 path cur st = Inl Hang"
| "unblock_loop (Suc n) path cur st =
     (case cur of
        None \<Rightarrow> Inr st
      | Some c \<Rightarrow>
          let p = s_procs st ! c;
              st1 = (if p_state p = PROC_BLOCKED \<and> p_wait_path p = path
                     then upd_proc (\<lambda>x. x\<lparr>p_state := PROC_READY, p_wait_path := []\<rparr>) c st else st)
          in unblock_loop n path (p_next (s_procs st1 ! c)) st1)"

definition sched_unblock_waiting :: "string \<Rightarrow> sched \<Rightarrow> sched res" where
  "sched_unblock_waiting path st =
     foldl (\<lambda>r lvl. bind_res r (\<lambda>s. unblock_loop (length (s_procs s) + 1) path (s_queues s ! lvl) s)) (Inr st) LEVELS"

subsection \<open>Processes\<close>

definition set_state_key :: "nat \<Rightarrow> string \<Rightarrow> sched \<Rightarrow> sched res" where
  "set_state_key a s st =
     sched_reg_set (trunc REG_PATH_MAX (p_reg_path (s_procs st ! a) @ ''/state'')) (val_str s) st"

definition new_proc :: "u32 \<Rightarrow> string \<Rightarrow> nat \<Rightarrow> nat \<Rightarrow> nexs_proc" where
  "new_proc pid name entry arg =
     \<lparr>p_pid = pid, p_state = PROC_READY, p_name = trunc 64 name,
      p_reg_path = ''/proc/'' @ show_int (uint pid), p_ipc_inbox = ''/proc/'' @ show_int (uint pid) @ ''/inbox'',
      p_ctx = (entry, arg), p_priority = 128, p_timeslice_us = 1000, p_ticks_used = 0, p_wait_path = [],
      p_next = None\<rparr>"

definition proc_create :: "string option \<Rightarrow> nat \<Rightarrow> nat \<Rightarrow> sched \<Rightarrow> (nat \<times> sched) res" where
  "proc_create name entry arg st =
     (let nm = (case name of Some s \<Rightarrow> s | None \<Rightarrow> ''unnamed'');
          a = length (s_procs st);
          p = new_proc (s_next_pid st) nm entry arg;
          st0 = st\<lparr>s_procs := s_procs st @ [p], s_next_pid := s_next_pid st + 1\<rparr> in
      bind_res (sched_reg_set (p_reg_path p) (val_str nm) st0) (\<lambda>st1.
      bind_res (set_state_key a ''ready'' st1) (\<lambda>st2.
      bind_res (sched_reg_set (trunc REG_PATH_MAX (p_reg_path p @ ''/priority'')) (val_int (ucast (p_priority p))) st2) (\<lambda>st3.
        let (rc, r) = reg_ipc_init_queue (i_reg (s_ipc st3)) (p_ipc_inbox p) 64 in
        Inr (a, sched_add a (st3\<lparr>s_ipc := (s_ipc st3)\<lparr>i_reg := r\<rparr>\<rparr>))))))"

definition proc_destroy :: "nat \<Rightarrow> sched \<Rightarrow> sched res" where
  "proc_destroy a st =
     bind_res (sched_remove a st) (\<lambda>st1.
       set_state_key a ''zombie'' (upd_proc (\<lambda>p. p\<lparr>p_state := PROC_ZOMBIE\<rparr>) a st1))"

definition proc_by_pid :: "u32 \<Rightarrow> sched \<Rightarrow> nat option res" where
  "proc_by_pid pid st = sched_find pid st"

definition proc_block :: "string \<Rightarrow> sched \<Rightarrow> sched res" where
  "proc_block wait_path st =
     (case s_current st of
        None \<Rightarrow> Inr st
      | Some c \<Rightarrow>
          bind_res (set_state_key c ''blocked''
            (upd_proc (\<lambda>p. p\<lparr>p_state := PROC_BLOCKED, p_wait_path := trunc REG_PATH_MAX wait_path\<rparr>) c st)) sched_yield)"

definition proc_unblock_by_msg :: "string \<Rightarrow> sched \<Rightarrow> sched res" where
  "proc_unblock_by_msg ipc_path st = sched_unblock_waiting ipc_path st"

definition proc_yield :: "sched \<Rightarrow> sched res" where
  "proc_yield st = sched_yield st"

end
