(* ===== verification/Sched_Facts.thy ===== *)
theory Sched_Facts
  imports Sched Registry_Facts
begin

section \<open>The scheduler on lists\<close>

text \<open>
  The linked run queues as eight lists of processes (\<open>sched_ok\<close>): appending, removing and picking are
  what they are on lists, links, tails and counters included. Over the ticks of the timer the
  processes of the first level in use take turns.
\<close>


subsection \<open>The queues as lists\<close>

fun linked :: "nexs_proc list \<Rightarrow> nat option \<Rightarrow> nat list \<Rightarrow> bool" where
  "linked ps c [] \<longleftrightarrow> c = None"
| "linked ps c (x # xs) \<longleftrightarrow> c = Some x \<and> x < length ps \<and> linked ps (p_next (ps ! x)) xs"

lemma linked_length: "linked ps c xs \<Longrightarrow> \<forall>x \<in> set xs. x < length ps"
  by (induction xs arbitrary: c) auto

lemma linked_cong:
  assumes "length ps' = length ps" and "\<And>x. x \<in> set xs \<Longrightarrow> p_next (ps' ! x) = p_next (ps ! x)"
  shows "linked ps' c xs \<longleftrightarrow> linked ps c xs"
  using assms by (induction xs arbitrary: c) auto

lemma linked_bound: "linked ps c xs \<Longrightarrow> distinct xs \<Longrightarrow> length xs \<le> length ps"
proof -
  assume "linked ps c xs" "distinct xs"
  then have "set xs \<subseteq> {..<length ps}" "card (set xs) = length xs" using linked_length distinct_card by fastforce+
  then show ?thesis using card_mono [of "{..<length ps}" "set xs"] by simp
qed

lemma linked_snoc:
  "linked ps c xs \<Longrightarrow> a < length ps \<Longrightarrow> a \<notin> set xs \<Longrightarrow> distinct xs \<Longrightarrow> xs \<noteq> [] \<Longrightarrow> p_next (ps ! a) = None \<Longrightarrow>
   linked (ps[last xs := (ps ! last xs)\<lparr>p_next := Some a\<rparr>]) c (xs @ [a])"
proof (induction xs arbitrary: c)
  case (Cons x xs)
  show ?case
  proof (cases xs)
    case Nil
    then show ?thesis using Cons.prems by auto
  next
    case (Cons y ys)
    then have "last xs \<noteq> x" using Cons.prems(4) by (metis distinct.simps(2) last_in_set list.discI)
    then show ?thesis using Cons.IH [of "p_next (ps ! x)"] Cons.prems Cons by auto
  qed
qed simp

definition level_ok :: "sched \<Rightarrow> nat \<Rightarrow> nat list \<Rightarrow> bool" where
  "level_ok st l xs \<longleftrightarrow>
     linked (s_procs st) (s_queues st ! l) xs \<and> s_tails st ! l = (if xs = [] then None else Some (last xs)) \<and>
     distinct xs \<and> (\<forall>a \<in> set xs. prio_level (s_procs st ! a) = l)"

text \<open>\<open>qs\<close> are the eight queues as lists.\<close>

definition sched_ok :: "sched \<Rightarrow> nat list list \<Rightarrow> bool" where
  "sched_ok st qs \<longleftrightarrow>
     length qs = SCHED_LEVELS \<and> length (s_queues st) = SCHED_LEVELS \<and> length (s_tails st) = SCHED_LEVELS \<and>
     s_counts st = List.map (\<lambda>xs. int (length xs)) qs \<and> s_total st = int (sum_list (List.map length qs)) \<and>
     (\<forall>l < SCHED_LEVELS. level_ok st l (qs ! l))"

lemma prio_level_less: "prio_level p < SCHED_LEVELS"
proof -
  have "unat (p_priority p) < 256" using unsigned_less [of "p_priority p", where 'a = nat] by simp
  then show ?thesis by (simp add: prio_level_def)
qed

lemma levels_disjoint: "level_ok st l xs \<Longrightarrow> level_ok st m ys \<Longrightarrow> l \<noteq> m \<Longrightarrow> set xs \<inter> set ys = {}"
  by (auto simp: level_ok_def)

text \<open>What a level depends on.\<close>

lemma level_ok_frame:
  assumes ok: "level_ok st l xs" and "length (s_procs st') = length (s_procs st)"
    and "s_queues st' ! l = s_queues st ! l" and "s_tails st' ! l = s_tails st ! l"
    and same: "\<And>x. x \<in> set xs \<Longrightarrow> p_next (s_procs st' ! x) = p_next (s_procs st ! x) \<and>
      p_priority (s_procs st' ! x) = p_priority (s_procs st ! x)"
  shows "level_ok st' l xs"
proof -
  have "linked (s_procs st') (s_queues st ! l) xs"
    using ok linked_cong [of "s_procs st'" "s_procs st" xs] assms(2) same by (simp add: level_ok_def)
  then show ?thesis using ok assms(3,4) same by (simp add: level_ok_def prio_level_def)
qed

lemma upd_proc_nth: "s_procs (upd_proc f a st) ! x = (if x = a \<and> a < length (s_procs st) then f (s_procs st ! a) else s_procs st ! x)"
  by (cases "a < length (s_procs st)") (auto simp: upd_proc_def nth_list_update list_update_beyond)

lemma upd_proc_sel [simp]:
  "length (s_procs (upd_proc f a st)) = length (s_procs st)" "s_queues (upd_proc f a st) = s_queues st"
  "s_tails (upd_proc f a st) = s_tails st" "s_counts (upd_proc f a st) = s_counts st" "s_total (upd_proc f a st) = s_total st"
  "s_current (upd_proc f a st) = s_current st" "s_ipc (upd_proc f a st) = s_ipc st" "s_tick (upd_proc f a st) = s_tick st"
  by (simp_all add: upd_proc_def)

lemma level_ok_upd:
  assumes "\<And>p. p_next (f p) = p_next p" "\<And>p. p_priority (f p) = p_priority p" and "level_ok st l xs"
  shows "level_ok (upd_proc f a st) l xs"
  by (rule level_ok_frame [OF assms(3)]) (simp_all add: upd_proc_nth assms(1,2))

lemma sched_ok_upd:
  assumes "\<And>p. p_next (f p) = p_next p" "\<And>p. p_priority (f p) = p_priority p" and "sched_ok st qs"
  shows "sched_ok (upd_proc f a st) qs"
  using assms level_ok_upd [OF assms(1,2)] by (simp add: sched_ok_def)

subsection \<open>Appending\<close>

lemma link_tail_ok:
  assumes lvl: "lvl < SCHED_LEVELS" "length (s_queues st) = SCHED_LEVELS" "length (s_tails st) = SCHED_LEVELS"
    and ok: "level_ok st lvl xs" and a: "a < length (s_procs st)" "a \<notin> set xs" "prio_level (s_procs st ! a) = lvl"
  shows "level_ok (link_tail lvl a st) lvl (xs @ [a])"
    and "\<And>m ys. m \<noteq> lvl \<Longrightarrow> level_ok st m ys \<Longrightarrow> level_ok (link_tail lvl a st) m ys"
    and "\<And>x. x < length (s_procs st) \<Longrightarrow> \<exists>n. s_procs (link_tail lvl a st) ! x = (s_procs st ! x)\<lparr>p_next := n\<rparr>"
    and "length (s_procs (link_tail lvl a st)) = length (s_procs st)"
    and "length (s_queues (link_tail lvl a st)) = SCHED_LEVELS" and "length (s_tails (link_tail lvl a st)) = SCHED_LEVELS"
    and "s_counts (link_tail lvl a st) = s_counts st" and "s_total (link_tail lvl a st) = s_total st"
    and "s_current (link_tail lvl a st) = s_current st" and "s_ipc (link_tail lvl a st) = s_ipc st" and "s_tick (link_tail lvl a st) = s_tick st"
proof -
  let ?st1 = "upd_proc (\<lambda>p. p\<lparr>p_next := None\<rparr>) a st"
  have tail: "s_tails ?st1 ! lvl = (if xs = [] then None else Some (last xs))" using ok by (simp add: level_ok_def)
  have lt: "link_tail lvl a st = (let st2 = (if xs = [] then ?st1\<lparr>s_queues := (s_queues st)[lvl := Some a]\<rparr>
       else upd_proc (\<lambda>p. p\<lparr>p_next := Some a\<rparr>) (last xs) ?st1) in st2\<lparr>s_tails := (s_tails st)[lvl := Some a]\<rparr>)"
    using tail by (simp add: link_tail_def Let_def)
  have procs: "s_procs (link_tail lvl a st) ! x = (if x = a \<and> xs \<noteq> [] \<and> last xs = a then (s_procs st ! a)\<lparr>p_next := Some a\<rparr>
      else if x = a then (s_procs st ! a)\<lparr>p_next := None\<rparr>
      else if xs \<noteq> [] \<and> x = last xs \<and> x < length (s_procs st) then (s_procs st ! x)\<lparr>p_next := Some a\<rparr> else s_procs st ! x)" for x
    using a(1) by (simp add: lt Let_def upd_proc_nth)
  have other: "level_ok (link_tail lvl a st) m ys" if "m \<noteq> lvl" "level_ok st m ys" for m ys
  proof (rule level_ok_frame [OF that(2)])
    fix x assume x: "x \<in> set ys"
    then have "x \<noteq> a" using that a(3) by (auto simp: level_ok_def)
    moreover have "xs \<noteq> [] \<Longrightarrow> x \<noteq> last xs" using levels_disjoint [OF ok that(2)] that(1) x last_in_set by fastforce
    ultimately show "p_next (s_procs (link_tail lvl a st) ! x) = p_next (s_procs st ! x) \<and>
      p_priority (s_procs (link_tail lvl a st) ! x) = p_priority (s_procs st ! x)" by (auto simp: procs)
  qed (use that(1) in \<open>simp_all add: lt Let_def\<close>)
  show "level_ok (link_tail lvl a st) lvl (xs @ [a])"
  proof (cases "xs = []")
    case True
    then show ?thesis using lvl a by (simp add: lt level_ok_def upd_proc_def prio_level_def)
  next
    case False
    have "linked (s_procs ?st1) (s_queues st ! lvl) xs \<longleftrightarrow> linked (s_procs st) (s_queues st ! lvl) xs"
      by (rule linked_cong) (use a(2) in \<open>auto simp: upd_proc_nth\<close>)
    then have one: "linked (s_procs ?st1) (s_queues st ! lvl) xs" using ok by (simp add: level_ok_def)
    have "p_next (s_procs ?st1 ! a) = None" "distinct xs" "a < length (s_procs ?st1)"
      using a(1) ok by (simp_all add: upd_proc_nth level_ok_def)
    from linked_snoc [OF one this(3) a(2) this(2) False this(1)]
    have "linked (s_procs (link_tail lvl a st)) (s_queues (link_tail lvl a st) ! lvl) (xs @ [a])"
      using False by (simp add: lt Let_def upd_proc_def)
    moreover have "s_tails (link_tail lvl a st) ! lvl = Some a" using lvl by (simp add: lt Let_def False)
    moreover have "\<forall>x \<in> set (xs @ [a]). prio_level (s_procs (link_tail lvl a st) ! x) = lvl"
      using ok a by (auto simp: procs level_ok_def prio_level_def)
    ultimately show ?thesis using ok a(2) by (simp add: level_ok_def)
  qed
  show "\<exists>n. s_procs (link_tail lvl a st) ! x = (s_procs st ! x)\<lparr>p_next := n\<rparr>" if "x < length (s_procs st)" for x
    by (cases "s_procs st ! x") (auto simp: procs)
  show "level_ok st m ys \<Longrightarrow> level_ok (link_tail lvl a st) m ys" if "m \<noteq> lvl" for m ys using other that by blast
qed (use lvl in \<open>auto simp: link_tail_def Let_def split: option.split\<close>)


subsection \<open>The operations on queues as lists\<close>

lemma sum_lengths_update:
  "l < length qs \<Longrightarrow> sum_list (List.map length (qs[l := ys])) + length (qs ! l) = sum_list (List.map length qs) + length ys"
  by (induction qs arbitrary: l) (auto split: nat.split)

lemma counts_update: "List.map (\<lambda>xs. int (length xs)) (qs[l := ys]) = (List.map (\<lambda>xs. int (length xs)) qs)[l := int (length ys)]"
  by (simp add: map_update)

lemma sched_add_ok:
  assumes ok: "sched_ok st qs" and a: "a < length (s_procs st)" and new: "\<forall>xs \<in> set qs. a \<notin> set xs"
  shows "sched_ok (sched_add a st) (qs[prio_level (s_procs st ! a) := qs ! prio_level (s_procs st ! a) @ [a]])"
proof -
  let ?l = "prio_level (s_procs st ! a)"
  have l: "?l < SCHED_LEVELS" by (rule prio_level_less)
  have o: "length qs = SCHED_LEVELS" "length (s_queues st) = SCHED_LEVELS" "length (s_tails st) = SCHED_LEVELS"
    "s_counts st = List.map (\<lambda>xs. int (length xs)) qs" "s_total st = int (sum_list (List.map length qs))"
    "\<And>m. m < SCHED_LEVELS \<Longrightarrow> level_ok st m (qs ! m)"
    using ok by (simp_all add: sched_ok_def)
  have notin: "a \<notin> set (qs ! ?l)" using new l o(1) by simp
  note t = link_tail_ok [OF l o(2,3) o(6) [OF l] a notin refl]
  let ?st1 = "link_tail ?l a st"
  let ?st2 = "?st1\<lparr>s_counts := (s_counts ?st1)[?l := s_counts ?st1 ! ?l + 1], s_total := s_total ?st1 + 1\<rparr>"
  have fr: "level_ok ?st2 m xs \<longleftrightarrow> level_ok ?st1 m xs" for m xs by (simp add: level_ok_def)
  have "sched_ok ?st2 (qs[?l := qs ! ?l @ [a]])"
    unfolding sched_ok_def fr
    using l o t sum_lengths_update [of ?l qs "qs ! ?l @ [a]"] by (auto simp: nth_list_update counts_update) (simp add: add.commute)
  then show ?thesis unfolding sched_add_def Let_def by (intro sched_ok_upd) simp_all
qed

text \<open>The first level with a ready head.\<close>

fun ready_level :: "sched \<Rightarrow> nat list list \<Rightarrow> nat list \<Rightarrow> nat option" where
  "ready_level st qs [] = None"
| "ready_level st qs (l # ls) =
     (if qs ! l \<noteq> [] \<and> p_state (s_procs st ! hd (qs ! l)) = PROC_READY then Some l else ready_level st qs ls)"

lemma ready_level_in: "ready_level st qs ls = Some l \<Longrightarrow> l \<in> set ls \<and> qs ! l \<noteq> [] \<and> p_state (s_procs st ! hd (qs ! l)) = PROC_READY"
  by (induction ls) (auto split: if_splits)

definition rotated :: "nat list list \<Rightarrow> nat \<Rightarrow> nat list list" where
  "rotated qs l = qs[l := tl (qs ! l) @ [hd (qs ! l)]]"

lemma level_head: "level_ok st l xs \<Longrightarrow> s_queues st ! l = (if xs = [] then None else Some (hd xs))"
  by (cases xs) (auto simp: level_ok_def)

text \<open>Only links change.\<close>

definition same_procs :: "sched \<Rightarrow> sched \<Rightarrow> bool" where
  "same_procs st st' \<longleftrightarrow> length (s_procs st') = length (s_procs st) \<and>
     (\<forall>x < length (s_procs st). \<exists>n. s_procs st' ! x = (s_procs st ! x)\<lparr>p_next := n\<rparr>) \<and>
     s_current st' = s_current st \<and> s_ipc st' = s_ipc st \<and> s_tick st' = s_tick st"

lemma pick_loop_ok:
  assumes ok: "sched_ok st qs"
  shows "set ls \<subseteq> {..<SCHED_LEVELS} \<Longrightarrow>
    (case ready_level st qs ls of
       None \<Rightarrow> pick_loop ls st = (None, st)
     | Some l \<Rightarrow> \<exists>st'. pick_loop ls st = (Some (hd (qs ! l)), st') \<and> sched_ok st' (rotated qs l) \<and> same_procs st st')"
proof (induction ls)
  case (Cons l ls)
  have l: "l < SCHED_LEVELS" using Cons.prems by simp
  have o: "length qs = SCHED_LEVELS" "length (s_queues st) = SCHED_LEVELS" "length (s_tails st) = SCHED_LEVELS"
    "s_counts st = List.map (\<lambda>xs. int (length xs)) qs" "s_total st = int (sum_list (List.map length qs))"
    "\<And>m. m < SCHED_LEVELS \<Longrightarrow> level_ok st m (qs ! m)"
    using ok by (simp_all add: sched_ok_def)
  note lv = o(6) [OF l]
  show ?case
  proof (cases "qs ! l \<noteq> [] \<and> p_state (s_procs st ! hd (qs ! l)) = PROC_READY")
    case False
    then have eq: "ready_level st qs (l # ls) = ready_level st qs ls" "pick_loop (l # ls) st = pick_loop ls st"
      using level_head [OF lv] by auto
    show ?thesis unfolding eq using Cons by simp
  next
    case True
    then obtain a xs where q: "qs ! l = a # xs" by (cases "qs ! l") auto
    have a: "a < length (s_procs st)" "a \<notin> set xs" "prio_level (s_procs st ! a) = l" "p_state (s_procs st ! a) = PROC_READY"
      "s_queues st ! l = Some a"
      using lv q True by (simp_all add: level_ok_def)
    define st1 where "st1 = st\<lparr>s_queues := (s_queues st)[l := p_next (s_procs st ! a)]\<rparr>"
    define st2 where "st2 = (if p_next (s_procs st ! a) = None then st1\<lparr>s_tails := (s_tails st1)[l := None]\<rparr> else st1)"
    have nx: "p_next (s_procs st ! a) = None \<longleftrightarrow> xs = []" using lv q by (cases xs) (auto simp: level_ok_def)
    have lv2: "level_ok st2 l xs" using lv q l o(2,3) nx by (auto simp: level_ok_def st2_def st1_def)
    have oth: "level_ok st2 m ys" if "m \<noteq> l" "level_ok st m ys" for m ys
      using that by (auto simp: level_ok_def st2_def st1_def)
    have len: "length (s_queues st2) = SCHED_LEVELS" "length (s_tails st2) = SCHED_LEVELS" "s_procs st2 = s_procs st"
      "s_counts st2 = s_counts st" "s_total st2 = s_total st" "s_current st2 = s_current st" "s_ipc st2 = s_ipc st" "s_tick st2 = s_tick st"
      using o by (simp_all add: st2_def st1_def)
    note t = link_tail_ok [OF l len(1,2) lv2 a(1) [folded len(3)] a(2) a(3) [folded len(3)], unfolded len(3-)]
    have pick: "pick_loop (l # ls) st = (Some a, link_tail l a st2)"
      using a by (simp add: st2_def st1_def Let_def)
    have counts: "List.map (\<lambda>xs. int (length xs)) (qs[l := xs @ [a]]) = List.map (\<lambda>xs. int (length xs)) qs"
      by (rule nth_equalityI) (use q l o(1) in \<open>auto simp: nth_list_update\<close>)
    have "sched_ok (link_tail l a st2) (rotated qs l)"
      unfolding sched_ok_def rotated_def
      using l o t oth q counts sum_lengths_update [of l qs "xs @ [a]"] by (auto simp: nth_list_update)
    moreover have "same_procs st (link_tail l a st2)" unfolding same_procs_def using t by blast
    ultimately show ?thesis using True pick q by simp
  qed
qed simp


subsection \<open>A tick\<close>

lemma sys_path_good: "p \<in> {''/sys/sched/tick'', ''/sys/sched/runqueue_depth'', ''/sys/sched/current_pid''} \<Longrightarrow> good_path p"
  by (elim insertE; simp; code_simp)

definition only_reg :: "sched \<Rightarrow> sched \<Rightarrow> bool" where
  "only_reg st st' \<longleftrightarrow> (\<exists>r. st' = st\<lparr>s_ipc := (s_ipc st)\<lparr>i_reg := r\<rparr>\<rparr>)"

lemma only_reg_trans: "only_reg a b \<Longrightarrow> only_reg b c \<Longrightarrow> only_reg a c"
  by (auto simp: only_reg_def)

lemma only_reg_ok: "only_reg st st' \<Longrightarrow> sched_ok st' qs \<longleftrightarrow> sched_ok st qs"
  by (auto simp: only_reg_def sched_ok_def level_ok_def)

lemma sched_reg_set_ok:
  assumes "reg_ok (i_reg (s_ipc st)) R" and "good_path path" and "ref_of v = None"
  shows "\<exists>st'. sched_reg_set path v st = Inr st' \<and> reg_ok (i_reg (s_ipc st')) R \<and> only_reg st st'"
proof -
  obtain r where "reg_set (i_reg (s_ipc st)) path v RK_READ = Inr (0, r)" "reg_ok r R"
    using reg_set_ok [OF assms(1,2), of v RK_READ] assms(3) by auto
  then show ?thesis by (auto simp: sched_reg_set_def only_reg_def)
qed

lemma publish_ok:
  assumes ok: "reg_ok (i_reg (s_ipc st)) R"
  shows "\<exists>st'. publish_state st = Inr st' \<and> reg_ok (i_reg (s_ipc st')) R \<and> only_reg st st'"
proof (cases "s_tick st mod 64 = 0")
  case True
  have int: "ref_of (val_int i) = None" for i by (simp add: ref_of_def val_int_def)
  obtain s1 where s1: "sched_reg_set ''/sys/sched/tick'' (val_int (s_tick st)) st = Inr s1" "reg_ok (i_reg (s_ipc s1)) R" "only_reg st s1"
    using sched_reg_set_ok [OF ok sys_path_good int] by blast
  obtain s2 where s2: "sched_reg_set ''/sys/sched/runqueue_depth'' (val_int (of_int (s_total s1))) s1 = Inr s2"
    "reg_ok (i_reg (s_ipc s2)) R" "only_reg s1 s2"
    using sched_reg_set_ok [OF s1(2) sys_path_good int] by blast
  have pub: "publish_state st = (case s_current s2 of None \<Rightarrow> Inr s2
        | Some c \<Rightarrow> sched_reg_set ''/sys/sched/current_pid'' (val_int (ucast (p_pid (s_procs s2 ! c)))) s2)"
    unfolding publish_state_def using True s1(1) s2(1) by simp
  show ?thesis
  proof (cases "s_current s2")
    case None
    then show ?thesis using pub s2 only_reg_trans [OF s1(3) s2(3)] by auto
  next
    case (Some c)
    obtain s3 where "sched_reg_set ''/sys/sched/current_pid'' (val_int (ucast (p_pid (s_procs s2 ! c)))) s2 = Inr s3"
      "reg_ok (i_reg (s_ipc s3)) R" "only_reg s2 s3"
      using sched_reg_set_ok [OF s2(2) sys_path_good int] by blast
    then show ?thesis using pub Some only_reg_trans [OF only_reg_trans [OF s1(3) s2(3)]] by auto
  qed
next
  case False
  then show ?thesis using ok by (auto simp: publish_state_def only_reg_def intro: exI [of _ "i_reg (s_ipc st)"])
qed

definition set_state :: "proc_state \<Rightarrow> nat \<Rightarrow> sched \<Rightarrow> sched" where
  "set_state s a st = upd_proc (\<lambda>p. p\<lparr>p_state := s\<rparr>) a st"

lemma set_state_ok: "sched_ok st qs \<Longrightarrow> sched_ok (set_state s a st) qs"
  unfolding set_state_def by (rule sched_ok_upd) simp_all

definition states :: "sched \<Rightarrow> nat \<Rightarrow> proc_state" where
  "states st a = p_state (s_procs st ! a)"

text \<open>A tick on queues as lists: nothing, or the head of the first level with a ready head runs.\<close>

lemma sched_tick_ok:
  assumes ok: "sched_ok st qs" and reg: "reg_ok (i_reg (s_ipc st)) R"
  shows "\<exists>st'. sched_tick st = Inr st' \<and> reg_ok (i_reg (s_ipc st')) R \<and> length (s_procs st') = length (s_procs st) \<and>
    (case ready_level st qs LEVELS of
       None \<Rightarrow> sched_ok st' qs \<and> s_current st' = s_current st \<and> (\<forall>x < length (s_procs st). states st' x = states st x)
     | Some l \<Rightarrow>
         let a = hd (qs ! l) in
         sched_ok st' (rotated qs l) \<and> s_current st' = Some a \<and>
         (\<forall>x < length (s_procs st). states st' x =
           (if s_current st = Some a then states st x
            else if s_current st = Some x then PROC_READY else if x = a then PROC_RUNNING else states st x)))"
proof -
  let ?st0 = "st\<lparr>s_tick := s_tick st + 1\<rparr>"
  have "reg_ok (i_reg (s_ipc ?st0)) R" using reg by simp
  then obtain s1 where s1: "publish_state ?st0 = Inr s1" "reg_ok (i_reg (s_ipc s1)) R" "only_reg ?st0 s1"
    using publish_ok by blast
  have "sched_ok ?st0 qs" using ok by (simp add: sched_ok_def level_ok_def)
  then have ok1: "sched_ok s1 qs" using only_reg_ok [OF s1(3)] by blast
  have e1: "s_procs s1 = s_procs st" "s_current s1 = s_current st" using s1(3) by (auto simp: only_reg_def)
  have rl: "ready_level s1 qs ls = ready_level st qs ls" for ls by (induction ls) (simp_all add: e1)
  have p: "case ready_level st qs LEVELS of
       None \<Rightarrow> pick_loop LEVELS s1 = (None, s1)
     | Some l \<Rightarrow> \<exists>st'. pick_loop LEVELS s1 = (Some (hd (qs ! l)), st') \<and> sched_ok st' (rotated qs l) \<and> same_procs s1 st'"
    using pick_loop_ok [OF ok1, of LEVELS] unfolding rl by simp
  show ?thesis
  proof (cases "ready_level st qs LEVELS")
    case None
    then have "sched_tick st = Inr s1" using p s1(1) by (simp add: sched_tick_def sched_pick_next_def)
    then show ?thesis using None ok1 s1(2) e1 by (simp add: states_def)
  next
    case (Some l)
    then obtain s2 where s2: "pick_loop LEVELS s1 = (Some (hd (qs ! l)), s2)" "sched_ok s2 (rotated qs l)" "same_procs s1 s2"
      using p by auto
    let ?a = "hd (qs ! l)"
    have sp: "length (s_procs s2) = length (s_procs st)" "s_current s2 = s_current st" "s_ipc s2 = s_ipc s1"
      and st2: "\<And>x. x < length (s_procs st) \<Longrightarrow> states s2 x = states st x"
      using s2(3) e1 by (fastforce simp: same_procs_def states_def)+
    have "sched_tick st = Inr (if s_current s2 = Some ?a then s2
       else case s_current s2 of None \<Rightarrow> set_state PROC_RUNNING ?a (s2\<lparr>s_current := Some ?a\<rparr>)
         | Some c \<Rightarrow> set_state PROC_READY c (set_state PROC_RUNNING ?a (s2\<lparr>s_current := Some ?a\<rparr>)))"
      using s1(1) s2(1) by (simp add: sched_tick_def sched_pick_next_def set_state_def split: option.split)
    moreover have "sched_ok (s2\<lparr>s_current := c\<rparr>) (rotated qs l)" for c using s2(2) by (simp add: sched_ok_def level_ok_def)
    ultimately show ?thesis
      using Some s2(2) sp st2 s1(2) set_state_ok
      by (auto simp: Let_def states_def set_state_def upd_proc_nth split: option.split)
  qed
qed


subsection \<open>Round robin\<close>

fun ticks :: "nat \<Rightarrow> sched \<Rightarrow> sched res" where
  "ticks 0 st = Inr st"
| "ticks (Suc k) st = bind_res (ticks k st) sched_tick"

definition waiting_turn :: "sched \<Rightarrow> nat list \<Rightarrow> bool" where
  "waiting_turn st xs \<longleftrightarrow> (\<forall>a \<in> set xs. states st a = PROC_READY \<or> s_current st = Some a \<and> a = last xs)"

lemma ready_level_skip:
  "\<forall>m \<in> set us. qs ! m = [] \<Longrightarrow> qs ! l \<noteq> [] \<Longrightarrow> states st (hd (qs ! l)) = PROC_READY \<Longrightarrow>
   ready_level st qs (us @ l # vs) = Some l"
  by (induction us) (auto simp: states_def)

lemma LEVELS_upt: "LEVELS = [0..<SCHED_LEVELS]"
  by (simp add: upt_rec)

lemma ready_level_first:
  assumes "l < SCHED_LEVELS" "\<forall>m < l. qs ! m = []" "qs ! l \<noteq> []" "states st (hd (qs ! l)) = PROC_READY"
  shows "ready_level st qs LEVELS = Some l"
proof -
  have "LEVELS = [0..<l] @ l # [Suc l..<SCHED_LEVELS]"
    unfolding LEVELS_upt using assms(1) upt_add_eq_append [of 0 l "SCHED_LEVELS - l"] by (simp add: upt_conv_Cons)
  then show ?thesis using ready_level_skip [of "[0..<l]" qs l st] assms(2-4) by (simp only: set_upt atLeastLessThan_iff) auto
qed

lemma rotate_front: "xs \<noteq> [] \<Longrightarrow> tl xs @ [hd xs] = rotate1 xs"
  by (cases xs) auto

lemma tick_turn:
  assumes ok: "sched_ok st qs" and reg: "reg_ok (i_reg (s_ipc st)) R" and l: "l < SCHED_LEVELS"
    and high: "\<forall>m < l. qs ! m = []" and two: "2 \<le> length (qs ! l)" and w: "waiting_turn st (qs ! l)"
  shows "\<exists>st'. sched_tick st = Inr st' \<and> sched_ok st' (qs[l := rotate1 (qs ! l)]) \<and> reg_ok (i_reg (s_ipc st')) R \<and>
    waiting_turn st' (rotate1 (qs ! l)) \<and> s_current st' = Some (hd (qs ! l)) \<and> length (s_procs st') = length (s_procs st)"
proof -
  obtain a b ys where q: "qs ! l = a # b # ys" using two by (cases "qs ! l"; cases "tl (qs ! l)") auto
  have lv: "level_ok st l (qs ! l)" using ok l by (simp add: sched_ok_def)
  have d: "a \<notin> set (b # ys)" "distinct (b # ys)" using lv q by (auto simp: level_ok_def)
  have bound: "\<forall>x \<in> set (qs ! l). x < length (s_procs st)" using lv linked_length by (auto simp: level_ok_def)
  have last: "last (qs ! l) = last (b # ys)" "last (b # ys) \<in> set (b # ys)" using q by simp_all
  then have "a \<noteq> last (qs ! l)" using d(1) by auto
  then have ready: "states st a = PROC_READY" using w q by (auto simp: waiting_turn_def)
  have rl: "ready_level st qs LEVELS = Some l" using ready_level_first [OF l high] q ready by simp
  have rot: "rotated qs l = qs[l := rotate1 (qs ! l)]" using q by (simp add: rotated_def)
  obtain st' where st': "sched_tick st = Inr st'" "reg_ok (i_reg (s_ipc st')) R" "length (s_procs st') = length (s_procs st)"
    "sched_ok st' (rotated qs l)" "s_current st' = Some a"
    "\<And>x. x < length (s_procs st) \<Longrightarrow> states st' x =
           (if s_current st = Some a then states st x
            else if s_current st = Some x then PROC_READY else if x = a then PROC_RUNNING else states st x)"
    using sched_tick_ok [OF ok reg] unfolding rl by (auto simp: Let_def q)
  have "states st' x = PROC_READY" if "x \<in> set (b # ys)" for x
    using st'(6) [of x] bound that q w d(1) ready by (auto simp: waiting_turn_def split: if_splits)
  then have "waiting_turn st' (rotate1 (qs ! l))" using st'(5) q by (auto simp: waiting_turn_def)
  then show ?thesis using st' q unfolding rot by auto
qed

lemma ticks_turn:
  assumes ok: "sched_ok st qs" and reg: "reg_ok (i_reg (s_ipc st)) R" and l: "l < SCHED_LEVELS"
    and high: "\<forall>m < l. qs ! m = []" and two: "2 \<le> length (qs ! l)" and w: "waiting_turn st (qs ! l)"
  shows "\<exists>st'. ticks k st = Inr st' \<and> sched_ok st' (qs[l := rotate k (qs ! l)]) \<and> reg_ok (i_reg (s_ipc st')) R \<and>
    waiting_turn st' (rotate k (qs ! l)) \<and> (0 < k \<longrightarrow> s_current st' = Some (qs ! l ! ((k - 1) mod length (qs ! l))))"
proof (induction k)
  case 0
  then show ?case using assms by simp
next
  case (Suc k)
  then obtain s where s: "ticks k st = Inr s" "sched_ok s (qs[l := rotate k (qs ! l)])" "reg_ok (i_reg (s_ipc s)) R"
    "waiting_turn s (rotate k (qs ! l))" by blast
  have len: "l < length qs" using ok l by (simp add: sched_ok_def)
  have at: "qs[l := rotate k (qs ! l)] ! l = rotate k (qs ! l)" using len by simp
  have "\<forall>m < l. qs[l := rotate k (qs ! l)] ! m = []" using high by simp
  from tick_turn [OF s(2,3) l this] s(4) two at obtain s' where
    "sched_tick s = Inr s'" "sched_ok s' (qs[l := rotate (Suc k) (qs ! l)])" "reg_ok (i_reg (s_ipc s')) R"
    "waiting_turn s' (rotate (Suc k) (qs ! l))" "s_current s' = Some (hd (rotate k (qs ! l)))"
    by auto
  moreover have "hd (rotate k (qs ! l)) = qs ! l ! (k mod length (qs ! l))" using two by (intro hd_rotate_conv_nth) auto
  ultimately show ?case using s(1) by simp
qed


subsection \<open>Removing\<close>

lemma linked_relink:
  "linked ps c (us @ a # ws) \<Longrightarrow> distinct (us @ a # ws) \<Longrightarrow> us \<noteq> [] \<Longrightarrow>
   linked (ps[last us := (ps ! last us)\<lparr>p_next := p_next (ps ! a)\<rparr>]) c (us @ ws)"
proof (induction us arbitrary: c)
  case (Cons u us)
  show ?case
  proof (cases us)
    case Nil
    have "linked ps (p_next (ps ! a)) ws" "u \<notin> set ws" "u < length ps" "c = Some u" using Cons.prems Nil by auto
    moreover have "linked (ps[u := (ps ! u)\<lparr>p_next := p_next (ps ! a)\<rparr>]) d ws = linked ps d ws" for d
      using \<open>u \<notin> set ws\<close> by (intro linked_cong) (auto intro!: arg_cong [of _ _ p_next] nth_list_update_neq)
    ultimately show ?thesis using Nil by simp
  next
    case (Cons v vs)
    then have "last us \<noteq> u" using Cons.prems(2) by (metis distinct_append append_Cons distinct.simps(2) UnCI last_in_set list.discI set_append)
    then show ?thesis using Cons.IH [of "p_next (ps ! u)"] Cons.prems Cons by auto
  qed
qed simp

lemma linked_split: "linked ps c (us @ v # ws) \<Longrightarrow> linked ps (Some v) (v # ws)"
  by (induction us arbitrary: c) auto

definition unlinked :: "nat \<Rightarrow> nat \<Rightarrow> nat option \<Rightarrow> sched \<Rightarrow> sched" where
  "unlinked lvl a prev st =
     (let nxt = p_next (s_procs st ! a);
          st1 = (case prev of
                   Some p \<Rightarrow> upd_proc (\<lambda>x. x\<lparr>p_next := nxt\<rparr>) p st
                 | None \<Rightarrow> st\<lparr>s_queues := (s_queues st)[lvl := nxt]\<rparr>);
          st2 = (if s_tails st1 ! lvl = Some a then st1\<lparr>s_tails := (s_tails st1)[lvl := prev]\<rparr> else st1)
      in upd_proc (\<lambda>p. p\<lparr>p_next := None\<rparr>) a st2)"

lemma unlinked_level:
  assumes lvl: "lvl < SCHED_LEVELS" "length (s_queues st) = SCHED_LEVELS" "length (s_tails st) = SCHED_LEVELS"
    and ok: "level_ok st lvl (us @ a # ws)" and prev: "prev = (if us = [] then None else Some (last us))"
  shows "level_ok (unlinked lvl a prev st) lvl (us @ ws)"
    and "\<And>m ys. m \<noteq> lvl \<Longrightarrow> level_ok st m ys \<Longrightarrow> level_ok (unlinked lvl a prev st) m ys"
    and "length (s_queues (unlinked lvl a prev st)) = SCHED_LEVELS" and "length (s_tails (unlinked lvl a prev st)) = SCHED_LEVELS"
    and "s_counts (unlinked lvl a prev st) = s_counts st" and "s_total (unlinked lvl a prev st) = s_total st"
proof -
  let ?ps = "s_procs st" and ?xs = "us @ a # ws"
  have lk: "linked ?ps (s_queues st ! lvl) ?xs" "distinct ?xs" "s_tails st ! lvl = Some (last ?xs)"
    "\<forall>x \<in> set ?xs. prio_level (?ps ! x) = lvl" using ok by (auto simp: level_ok_def)
  have a: "a < length ?ps" "a \<notin> set us" "a \<notin> set ws" using lk linked_length [OF lk(1)] by auto
  have lu: "us \<noteq> [] \<Longrightarrow> last us < length ?ps" using linked_length [OF lk(1)] by simp
  have mid: "linked ?ps (p_next (?ps ! a)) ws" using linked_split [OF lk(1)] by simp
  have tl: "last ?xs = a \<longleftrightarrow> ws = []" using a(3) by auto
  have procs: "s_procs (unlinked lvl a prev st) ! x = (if x = a then (?ps ! a)\<lparr>p_next := None\<rparr>
      else if us \<noteq> [] \<and> x = last us \<and> x < length ?ps then (?ps ! x)\<lparr>p_next := p_next (?ps ! a)\<rparr> else ?ps ! x)" for x
    using a last_in_set [of us] by (auto simp: unlinked_def Let_def prev upd_proc_nth split: option.split)
  have len: "length (s_procs (unlinked lvl a prev st)) = length ?ps"
    by (auto simp: unlinked_def Let_def prev)
  have queue: "s_queues (unlinked lvl a prev st) = (if us = [] then (s_queues st)[lvl := p_next (?ps ! a)] else s_queues st)"
    by (auto simp: unlinked_def Let_def prev)
  have tails: "s_tails (unlinked lvl a prev st) = (if ws = [] then (s_tails st)[lvl := prev] else s_tails st)"
    using lk(3) tl by (auto simp: unlinked_def Let_def prev)
  have link: "linked (s_procs (unlinked lvl a prev st)) (s_queues (unlinked lvl a prev st) ! lvl) (us @ ws)"
  proof (cases "us = []")
    case True
    have "linked (s_procs (unlinked lvl a prev st)) (p_next (?ps ! a)) ws = linked ?ps (p_next (?ps ! a)) ws"
      by (rule linked_cong) (use a True len in \<open>auto simp: procs\<close>)
    then show ?thesis using True mid lvl queue by simp
  next
    case False
    have "linked (s_procs (unlinked lvl a prev st)) (s_queues st ! lvl) (us @ ws) =
        linked (?ps[last us := (?ps ! last us)\<lparr>p_next := p_next (?ps ! a)\<rparr>]) (s_queues st ! lvl) (us @ ws)"
      by (rule linked_cong) (use a False len lu in \<open>auto simp: procs nth_list_update\<close>)
    then show ?thesis using linked_relink [OF lk(1,2) False] False queue by simp
  qed
  show "level_ok (unlinked lvl a prev st) lvl (us @ ws)"
  proof -
    have "prio_level (s_procs (unlinked lvl a prev st) ! x) = prio_level (?ps ! x)" for x by (simp add: procs prio_level_def)
    moreover have "s_tails (unlinked lvl a prev st) ! lvl = (if us @ ws = [] then None else Some (last (us @ ws)))"
      unfolding tails using lk(3) lvl prev by auto
    moreover have "distinct (us @ ws)" using lk(2) by simp
    ultimately show ?thesis using link lk(4) by (simp add: level_ok_def)
  qed
  show "level_ok (unlinked lvl a prev st) m ys" if "m \<noteq> lvl" "level_ok st m ys" for m ys
  proof (rule level_ok_frame [OF that(2) len])
    have d: "set ?xs \<inter> set ys = {}" using levels_disjoint [OF ok that(2)] that(1) by simp
    then have "set us \<inter> set ys = {}" by auto
    then have "us \<noteq> [] \<Longrightarrow> last us \<notin> set ys" by (meson disjoint_iff last_in_set)
    then show "p_next (s_procs (unlinked lvl a prev st) ! x) = p_next (?ps ! x) \<and>
      p_priority (s_procs (unlinked lvl a prev st) ! x) = p_priority (?ps ! x)" if "x \<in> set ys" for x
      using that d by (auto simp: procs)
  qed (use that(1) in \<open>simp_all add: queue tails\<close>)
qed (use lvl in \<open>auto simp: unlinked_def Let_def prev\<close>)

lemma remove_loop_ok:
  assumes ok: "level_ok st lvl xs" and a: "a \<in> set xs"
  shows "xs = us @ vs \<Longrightarrow> a \<notin> set us \<Longrightarrow> length vs < n \<Longrightarrow>
    \<exists>us' ws. xs = us' @ a # ws \<and>
      remove_loop n lvl a (if us = [] then None else Some (last us)) (if vs = [] then None else Some (hd vs)) st =
      (let s = unlinked lvl a (if us' = [] then None else Some (last us')) st
       in Inr (s\<lparr>s_counts := (s_counts s)[lvl := s_counts s ! lvl - 1], s_total := s_total s - 1\<rparr>))"
proof (induction n arbitrary: us vs)
  case (Suc n)
  obtain v ws where vs: "vs = v # ws" using Suc.prems a by (cases vs) auto
  show ?case
  proof (cases "v = a")
    case True
    have "remove_loop (Suc n) lvl a prev (Some a) st = (let s = unlinked lvl a prev st
       in Inr (s\<lparr>s_counts := (s_counts s)[lvl := s_counts s ! lvl - 1], s_total := s_total s - 1\<rparr>))" for prev
      by (simp add: unlinked_def Let_def)
    moreover have "xs = us @ a # ws" "(if vs = [] then None else Some (hd vs)) = Some a" using Suc.prems(1) vs True by simp_all
    ultimately show ?thesis by (intro exI [of _ us] exI [of _ ws]) (simp only: simp_thms)
  next
    case False
    have lk: "linked (s_procs st) (s_queues st ! lvl) (us @ v # ws)" using ok Suc.prems(1) vs by (simp add: level_ok_def)
    have nxt: "p_next (s_procs st ! v) = (if ws = [] then None else Some (hd ws))"
      using linked_split [OF lk] by (cases ws) auto
    show ?thesis
      using Suc.IH [of "us @ [v]" ws] Suc.prems vs False nxt by auto
  qed
qed simp

lemma sched_remove_ok:
  assumes ok: "sched_ok st qs" and a: "a \<in> set (qs ! prio_level (s_procs st ! a))"
  shows "\<exists>st'. sched_remove a st = Inr st' \<and>
    sched_ok st' (qs[prio_level (s_procs st ! a) := remove1 a (qs ! prio_level (s_procs st ! a))])"
proof -
  let ?l = "prio_level (s_procs st ! a)" let ?xs = "qs ! ?l"
  have l: "?l < SCHED_LEVELS" by (rule prio_level_less)
  have o: "length qs = SCHED_LEVELS" "length (s_queues st) = SCHED_LEVELS" "length (s_tails st) = SCHED_LEVELS"
    "s_counts st = List.map (\<lambda>xs. int (length xs)) qs" "s_total st = int (sum_list (List.map length qs))"
    "\<And>m. m < SCHED_LEVELS \<Longrightarrow> level_ok st m (qs ! m)"
    using ok by (simp_all add: sched_ok_def)
  note lv = o(6) [OF l]
  have bound: "length ?xs \<le> length (s_procs st)" using lv linked_bound by (auto simp: level_ok_def)
  have "?xs \<noteq> []" using a by auto
  then have head: "s_queues st ! ?l = Some (hd ?xs)" using level_head [OF lv] by simp
  obtain us ws where xs: "?xs = us @ a # ws" and rem: "sched_remove a st =
      (let s = unlinked ?l a (if us = [] then None else Some (last us)) st
       in Inr (s\<lparr>s_counts := (s_counts s)[?l := s_counts s ! ?l - 1], s_total := s_total s - 1\<rparr>))"
    using remove_loop_ok [OF lv a, of "[]" ?xs "length (s_procs st) + 1"] bound head \<open>?xs \<noteq> []\<close>
    by (auto simp: sched_remove_def Let_def simp del: remove_loop.simps)
  have "a \<notin> set us" using lv xs by (auto simp: level_ok_def)
  then have r1: "remove1 a ?xs = us @ ws" using xs by (simp add: remove1_append)
  note u = unlinked_level [OF l o(2,3) lv [unfolded xs] refl]
  let ?s = "unlinked ?l a (if us = [] then None else Some (last us)) st"
  let ?s' = "?s\<lparr>s_counts := (s_counts ?s)[?l := s_counts ?s ! ?l - 1], s_total := s_total ?s - 1\<rparr>"
  have fr: "level_ok ?s' m ys \<longleftrightarrow> level_ok ?s m ys" for m ys by (simp add: level_ok_def)
  have sum: "sum_list (List.map length (qs[?l := us @ ws])) + length ?xs = sum_list (List.map length qs) + length (us @ ws)"
    using l o(1) by (intro sum_lengths_update) simp
  then have total: "int (sum_list (List.map length (qs[?l := us @ ws]))) = int (sum_list (List.map length qs)) - 1"
    using xs by simp
  have counts: "List.map (\<lambda>xs. int (length xs)) (qs[?l := us @ ws]) =
      (List.map (\<lambda>xs. int (length xs)) qs)[?l := int (length ?xs) - 1]"
    by (simp add: counts_update) (simp add: xs)
  have "sched_ok ?s' (qs[?l := us @ ws])"
    unfolding sched_ok_def fr using l o u total counts by (auto simp: nth_list_update)
  then show ?thesis using rem r1 by (simp add: Let_def)
qed


subsection \<open>Blocking\<close>

text \<open>\<open>proc_block\<close> marks the process as blocked and yields; the tick marks it as ready again.\<close>

lemma block_ready:
  assumes ok: "sched_ok st qs" and reg: "reg_ok (i_reg (s_ipc st)) R" and c: "s_current st = Some c" "c < length (s_procs st)"
    and path: "good_path (trunc REG_PATH_MAX (p_reg_path (s_procs st ! c) @ ''/state''))"
    and nxt: "ready_level (set_state PROC_BLOCKED c st) qs LEVELS = Some l" "hd (qs ! l) \<noteq> c"
  shows "\<exists>st'. proc_block path0 st = Inr st' \<and> states st' c = PROC_READY"
proof -
  let ?st1 = "upd_proc (\<lambda>p. p\<lparr>p_state := PROC_BLOCKED, p_wait_path := trunc REG_PATH_MAX path0\<rparr>) c st"
  have reg1: "reg_ok (i_reg (s_ipc ?st1)) R" using reg by simp
  have p1: "p_reg_path (s_procs ?st1 ! c) = p_reg_path (s_procs st ! c)" by (simp add: upd_proc_nth)
  have "ref_of (val_str ''blocked'') = None" by (simp add: ref_of_def val_str_def)
  from sched_reg_set_ok [OF reg1 path this] obtain s2 where
    s2: "set_state_key c ''blocked'' ?st1 = Inr s2" "reg_ok (i_reg (s_ipc s2)) R" "only_reg ?st1 s2"
    by (auto simp: set_state_key_def p1)
  have "sched_ok ?st1 qs" by (rule sched_ok_upd [OF _ _ ok]) simp_all
  then have ok2: "sched_ok s2 qs" using only_reg_ok [OF s2(3)] by blast
  have e: "s_procs s2 = s_procs ?st1" "s_current s2 = s_current st" using s2(3) by (auto simp: only_reg_def)
  have rq: "ready_level s2 qs ls = ready_level (set_state PROC_BLOCKED c st) qs ls" for ls
    by (induction ls) (simp_all add: e set_state_def upd_proc_nth)
  have rl: "ready_level s2 qs LEVELS = Some l" using nxt(1) by (simp only: rq)
  obtain s3 where "sched_tick s2 = Inr s3" "\<forall>x < length (s_procs s2). states s3 x =
           (if s_current s2 = Some (hd (qs ! l)) then states s2 x
            else if s_current s2 = Some x then PROC_READY else if x = hd (qs ! l) then PROC_RUNNING else states s2 x)"
    using sched_tick_ok [OF ok2 s2(2)] unfolding rl by (auto simp: Let_def)
  then have "sched_tick s2 = Inr s3" "states s3 c = PROC_READY" using c nxt(2) e by auto
  then show ?thesis using c(1) s2(1) by (auto simp: proc_block_def sched_yield_def)
qed

subsection \<open>The properties\<close>


definition sched_zero :: sched where
  "sched_zero =
     \<lparr>s_procs = [new_proc 1 ''a'' 0 0, new_proc 2 ''b'' 0 0, new_proc 3 ''c'' 0 0], s_queues = replicate 8 None,
      s_tails = replicate 8 None, s_counts = replicate 8 0, s_tick = 0, s_total = 0, s_current = None, s_next_pid = 4,
      s_ipc = \<lparr>i_reg = reg_init blank, i_pipes = []\<rparr>\<rparr>"

definition sched_demo :: sched where
  "sched_demo = sched_add 2 (sched_add 1 (sched_add 0 sched_zero))"

definition demo_queues :: "nat list list" where
  "demo_queues = [[], [], [], [], [0, 1, 2], [], [], []]"

lemma sched_demo_ok: "sched_ok sched_demo demo_queues"
proof -
  have zero: "sched_ok sched_zero (replicate 8 [])"
    by (auto simp: sched_ok_def sched_zero_def level_ok_def less_Suc_eq numeral_eq_Suc)
  have four: "prio_level (new_proc pid nm x y) = 4" for pid nm x y by (simp add: prio_level_def new_proc_def)
  have procs: "s_procs sched_zero = [new_proc 1 ''a'' 0 0, new_proc 2 ''b'' 0 0, new_proc 3 ''c'' 0 0]"
    by (simp add: sched_zero_def)
  have keep: "length (s_procs (sched_add a st)) = length (s_procs st)"
    "prio_level (s_procs (sched_add a st) ! x) = prio_level (s_procs st ! x)" for a st x
    by (auto simp: sched_add_def link_tail_def Let_def upd_proc_nth prio_level_def split: option.split)
  have ok1: "sched_ok (sched_add 0 sched_zero) ((replicate 8 [])[4 := [0]])"
    using sched_add_ok [OF zero, of 0] by (simp add: procs four)
  have ok2: "sched_ok (sched_add 1 (sched_add 0 sched_zero)) ((replicate 8 [])[4 := [0, 1]])"
    using sched_add_ok [OF ok1, of 1] by (simp add: keep procs four) (auto simp: numeral_eq_Suc)
  have "sched_ok sched_demo ((replicate 8 [])[4 := [0, 1, 2]])"
    using sched_add_ok [OF ok2, of 2] by (simp add: keep procs four sched_demo_def) (auto simp: numeral_eq_Suc)
  then show ?thesis by (simp add: demo_queues_def numeral_eq_Suc)
qed


text \<open>C18: Round robin: when the levels above \<open>l\<close> are empty and level \<open>l\<close> has \<open>n \<ge> 2\<close> processes, all ready but
  for the one that runs at its end, every tick succeeds, after the tick number \<open>k\<close> the process at place
  \<open>(k - 1) mod n\<close> runs, and so every process of the level runs within \<open>n\<close> ticks.\<close>

theorem sched_round_robin:
  assumes "sched_ok st qs" and "reg_ok (i_reg (s_ipc st)) R" and "l < SCHED_LEVELS"
    and "\<forall>m < l. qs ! m = []" and "2 \<le> length (qs ! l)" and "waiting_turn st (qs ! l)"
  shows "(\<forall>k > 0. \<exists>st'. ticks k st = Inr st' \<and> sched_ok st' (qs[l := rotate k (qs ! l)]) \<and>
      s_current st' = Some (qs ! l ! ((k - 1) mod length (qs ! l)))) \<and>
    (\<forall>a \<in> set (qs ! l). \<exists>k \<le> length (qs ! l). \<exists>st'. ticks k st = Inr st' \<and> s_current st' = Some a)"
proof -
  have turn: "\<exists>st'. ticks k st = Inr st' \<and> sched_ok st' (qs[l := rotate k (qs ! l)]) \<and>
      s_current st' = Some (qs ! l ! ((k - 1) mod length (qs ! l)))" if "0 < k" for k
    using ticks_turn [OF assms, of k] that by auto
  have "\<exists>k \<le> length (qs ! l). \<exists>st'. ticks k st = Inr st' \<and> s_current st' = Some a" if a: "a \<in> set (qs ! l)" for a
  proof -
    obtain i where "i < length (qs ! l)" "qs ! l ! i = a" using a by (auto simp: in_set_conv_nth)
    then show ?thesis using turn [of "Suc i"] by (intro exI [of _ "Suc i"]) auto
  qed
  then show ?thesis using turn by blast
qed

theorem sched_round_robin_witness:
  "\<exists>st'. ticks 5 sched_demo = Inr st' \<and> s_current st' = Some 1"
proof -
  have "reg_ok (i_reg (s_ipc sched_demo)) []"
    using reg_init_blank by (simp add: sched_demo_def sched_add_def link_tail_def Let_def sched_zero_def split: option.split)
  moreover have "waiting_turn sched_demo (demo_queues ! 4)"
    by (simp add: waiting_turn_def demo_queues_def) code_simp
  moreover have "\<forall>m < 4. demo_queues ! m = []" by (auto simp: demo_queues_def less_Suc_eq numeral_eq_Suc)
  ultimately have "\<forall>k > 0. \<exists>st'. ticks k sched_demo = Inr st' \<and>
      sched_ok st' (demo_queues[4 := rotate k (demo_queues ! 4)]) \<and>
      s_current st' = Some (demo_queues ! 4 ! ((k - 1) mod length (demo_queues ! 4)))"
    using sched_round_robin [OF sched_demo_ok, of "[]" 4] by (simp add: demo_queues_def)
  then show ?thesis by (auto simp: demo_queues_def dest!: spec [of _ 5])
qed

end
