(* ===== verification/Line.thy ===== *)
theory Line
  imports Cstr
begin

section \<open>The line editor (\<^verbatim>\<open>runtime/nexs_line.c\<close>)\<close>

text \<open>
  The terminal is what can still be read and what was written. An input is a byte or a pause of
  more than a tenth of a second, which only \<open>read_byte_timeout\<close> notices; after the last one the
  terminal is at its end. The line is the whole array of \<open>NEXS_LINE_BUFSIZE\<close> bytes with its length
  and the cursor as byte counts; the history, the saved line and the kill buffer are C strings.
  The hosted branch of the conditional code is modelled.
\<close>

abbreviation (input) NEXS_LINE_BUFSIZE :: nat where "NEXS_LINE_BUFSIZE \<equiv> 4096"
abbreviation (input) NEXS_LINE_HISTORY :: nat where "NEXS_LINE_HISTORY \<equiv> 256"
abbreviation (input) ESC :: char where "ESC \<equiv> CHR 0x1B"

record nxterm =
  t_in :: "char option list"
  t_out :: string
  t_tty :: bool
  t_attr :: bool
  t_raw :: bool

definition write_str :: "string \<Rightarrow> nxterm \<Rightarrow> nxterm" where
  "write_str s t = t\<lparr>t_out := t_out t @ s\<rparr>"

text \<open>\<open>t_attr\<close> says whether \<open>tcgetattr\<close> and \<open>tcsetattr\<close> succeed.\<close>

definition nexs_line_raw_on :: "nxterm \<Rightarrow> int \<times> nxterm" where
  "nexs_line_raw_on t =
     (if t_raw t then (0, t) else if \<not> t_tty t then (-1, t) else if \<not> t_attr t then (-1, t)
      else (0, t\<lparr>t_raw := True\<rparr>))"

definition nexs_line_raw_off :: "nxterm \<Rightarrow> nxterm" where
  "nexs_line_raw_off t = (if \<not> t_raw t then t else t\<lparr>t_raw := False\<rparr>)"

fun read_byte :: "char option list \<Rightarrow> char option \<times> char option list" where
  "read_byte [] = (None, [])"
| "read_byte (None # i) = read_byte i"
| "read_byte (Some c # i) = (Some c, i)"

fun read_byte_timeout :: "char option list \<Rightarrow> char option \<times> char option list" where
  "read_byte_timeout [] = (None, [])"
| "read_byte_timeout (b # i) = (b, i)"

subsection \<open>UTF-8\<close>

abbreviation (input) ubyte :: "char \<Rightarrow> u32" where "ubyte c \<equiv> of_char c"

definition utf8_seq_len :: "char \<Rightarrow> nat" where
  "utf8_seq_len ch =
     (let c = ubyte ch in
      if c < 0x80 then 1
      else if and c 0xE0 = 0xC0 then 2
      else if and c 0xF0 = 0xE0 then 3
      else if and c 0xF8 = 0xF0 then 4
      else 1)"

definition utf8_col_width :: "u32 \<Rightarrow> int" where
  "utf8_col_width cp =
     (if 0x1100 \<le> cp \<and> cp \<le> 0x9FFF then 2
      else if 0xF900 \<le> cp \<and> cp \<le> 0xFFFF then 2
      else if 0x20000 \<le> cp then 2 else 1)"

text \<open>The code point at \<open>pos\<close> and the position after it.\<close>

definition utf8_decode :: "string \<Rightarrow> nat \<Rightarrow> nat \<Rightarrow> u32 \<times> nat" where
  "utf8_decode buf n pos =
     (let c = ubyte (buf ! pos); q = utf8_seq_len (buf ! pos);
          tl = (\<lambda>k. and (ubyte (buf ! (pos + k))) 0x3F) in
      if n < pos + q then (c, pos + 1)
      else if q = 1 then (c, pos + q)
      else if q = 2 then (or (push_bit 6 (and c 0x1F)) (tl 1), pos + q)
      else if q = 3 then (or (or (push_bit 12 (and c 0x0F)) (push_bit 6 (tl 1))) (tl 2), pos + q)
      else (or (or (or (push_bit 18 (and c 0x07)) (push_bit 12 (tl 1))) (push_bit 6 (tl 2))) (tl 3), pos + q))"

lemma utf8_seq_len_pos: "0 < utf8_seq_len c" "utf8_seq_len c \<le> 4"
  by (simp_all add: utf8_seq_len_def Let_def)

lemma utf8_decode_advances: "pos < snd (utf8_decode buf n pos)"
  using utf8_seq_len_pos(1) [of "buf ! pos"] by (simp add: utf8_decode_def Let_def)

function cols_from :: "string \<Rightarrow> nat \<Rightarrow> nat \<Rightarrow> int" where
  "cols_from buf n i =
     (if i < n then utf8_col_width (fst (utf8_decode buf n i)) + cols_from buf n (snd (utf8_decode buf n i)) else 0)"
  by auto
termination
  by (relation "measure (\<lambda>(buf, n, i). n - i)") (auto simp: utf8_decode_advances diff_less_mono2)

declare cols_from.simps [simp del]

definition visual_cols :: "string \<Rightarrow> int \<Rightarrow> int" where
  "visual_cols buf n = cols_from buf (nat n) 0"

definition utf8_next :: "string \<Rightarrow> nat \<Rightarrow> nat \<Rightarrow> nat" where
  "utf8_next buf n pos = (if n \<le> pos then pos else pos + utf8_seq_len (buf ! pos))"

definition is_cont :: "char \<Rightarrow> bool" where
  "is_cont c \<longleftrightarrow> and (ubyte c) 0xC0 = 0x80"

fun prev_from :: "string \<Rightarrow> nat \<Rightarrow> nat" where
  "prev_from buf 0 = 0"
| "prev_from buf (Suc p) = (if is_cont (buf ! Suc p) then prev_from buf p else Suc p)"

definition utf8_prev :: "string \<Rightarrow> nat \<Rightarrow> nat" where
  "utf8_prev buf pos = (if pos = 0 then 0 else prev_from buf (pos - 1))"

lemma prev_from_le: "prev_from buf p \<le> p"
  by (induction p) auto

lemma utf8_prev_less: "0 < pos \<Longrightarrow> utf8_prev buf pos < pos"
  using prev_from_le [of buf "pos - 1"] by (simp add: utf8_prev_def)

subsection \<open>Keys\<close>

datatype nxkeycode =
  NXK_NONE | NXK_CHAR | NXK_ENTER | NXK_BACKSPACE | NXK_DELETE | NXK_LEFT | NXK_RIGHT | NXK_UP | NXK_DOWN
| NXK_HOME | NXK_END | NXK_PGUP | NXK_PGDN | NXK_SHIFT_LEFT | NXK_SHIFT_RIGHT | NXK_CTRL_LEFT | NXK_CTRL_RIGHT
| NXK_CTRL_A | NXK_CTRL_B | NXK_CTRL_C | NXK_CTRL_D | NXK_CTRL_E | NXK_CTRL_F | NXK_CTRL_K | NXK_CTRL_L
| NXK_CTRL_N | NXK_CTRL_P | NXK_CTRL_R | NXK_CTRL_T | NXK_CTRL_U | NXK_CTRL_W | NXK_CTRL_Y | NXK_TAB | NXK_ESC
| NXK_EOF

record nxkey =
  k_code :: nxkeycode
  k_codepoint :: u32
  k_utf8 :: string

definition no_key :: nxkey where
  "no_key = \<lparr>k_code = NXK_NONE, k_codepoint = 0, k_utf8 = replicate 5 CHR 0x00\<rparr>"

definition key :: "nxkeycode \<Rightarrow> nxkey" where
  "key c = no_key\<lparr>k_code := c\<rparr>"

text \<open>The rest of an unknown CSI sequence, up to a letter or a tilde.\<close>

fun absorb :: "char option list \<Rightarrow> char option list" where
  "absorb [] = []"
| "absorb (None # i) = i"
| "absorb (Some c # i) = (if isalpha c \<or> c = CHR ''~'' then i else absorb i)"

definition arrow_key :: "char \<Rightarrow> nxkeycode" where
  "arrow_key c =
     (if c = CHR ''A'' then NXK_UP else if c = CHR ''B'' then NXK_DOWN
      else if c = CHR ''C'' then NXK_RIGHT else if c = CHR ''D'' then NXK_LEFT
      else if c = CHR ''H'' then NXK_HOME else if c = CHR ''F'' then NXK_END else NXK_NONE)"

definition modified_key :: "char option \<Rightarrow> char option \<Rightarrow> nxkeycode" where
  "modified_key m dir =
     (if m = Some CHR ''2'' then
        (if dir = Some CHR ''D'' then NXK_SHIFT_LEFT else if dir = Some CHR ''C'' then NXK_SHIFT_RIGHT
         else if dir = Some CHR ''A'' then NXK_UP else if dir = Some CHR ''B'' then NXK_DOWN else NXK_NONE)
      else if m = Some CHR ''5'' then
        (if dir = Some CHR ''D'' then NXK_CTRL_LEFT else if dir = Some CHR ''C'' then NXK_CTRL_RIGHT else NXK_NONE)
      else NXK_NONE)"

definition tilde_key :: "char \<Rightarrow> nxkeycode" where
  "tilde_key c =
     (if c = CHR ''3'' then NXK_DELETE else if c = CHR ''4'' then NXK_END
      else if c = CHR ''5'' then NXK_PGUP else if c = CHR ''6'' then NXK_PGDN else NXK_NONE)"

text \<open>\<open>ESC [\<close> followed by a byte.\<close>

definition csi_key :: "char option list \<Rightarrow> nxkey \<times> char option list" where
  "csi_key i =
     (case read_byte_timeout i of
        (None, i1) \<Rightarrow> (key NXK_ESC, i1)
      | (Some c3, i1) \<Rightarrow>
          if arrow_key c3 \<noteq> NXK_NONE then (key (arrow_key c3), i1)
          else if c3 = CHR ''1'' then
            (case read_byte_timeout i1 of
               (c4, i2) \<Rightarrow>
                 if c4 = Some CHR '';'' then
                   (case read_byte_timeout i2 of
                      (m, i3) \<Rightarrow> case read_byte_timeout i3 of (dir, i4) \<Rightarrow> (key (modified_key m dir), i4))
                 else if c4 = Some CHR ''~'' then (key NXK_HOME, i2)
                 else (no_key, i2))
          else if CHR ''2'' \<le> c3 \<and> c3 \<le> CHR ''6'' then
            (case read_byte_timeout i1 of
               (c4, i2) \<Rightarrow>
                 if c4 = Some CHR ''~'' \<and> tilde_key c3 \<noteq> NXK_NONE then (key (tilde_key c3), i2)
                 else (no_key, absorb i2))
          else (no_key, absorb i1))"

definition esc_key :: "char option list \<Rightarrow> nxkey \<times> char option list" where
  "esc_key i =
     (case read_byte_timeout i of
        (None, i1) \<Rightarrow> (key NXK_ESC, i1)
      | (Some c2, i1) \<Rightarrow>
          if c2 = CHR ''['' then csi_key i1
          else if c2 = CHR ''O'' then
            (case read_byte_timeout i1 of
               (None, i2) \<Rightarrow> (no_key, i2)
             | (Some c3, i2) \<Rightarrow> (key (arrow_key c3), i2))
          else (key NXK_ESC, i1))"

definition control_keys :: "(nat \<times> nxkeycode) list" where
  "control_keys =
     [(0x0D, NXK_ENTER), (0x0A, NXK_ENTER), (0x7F, NXK_BACKSPACE), (0x08, NXK_BACKSPACE), (0x09, NXK_TAB),
      (0x01, NXK_CTRL_A), (0x02, NXK_CTRL_B), (0x03, NXK_CTRL_C), (0x04, NXK_CTRL_D), (0x05, NXK_CTRL_E),
      (0x06, NXK_CTRL_F), (0x0B, NXK_CTRL_K), (0x0C, NXK_CTRL_L), (0x0E, NXK_CTRL_N), (0x10, NXK_CTRL_P),
      (0x12, NXK_CTRL_R), (0x14, NXK_CTRL_T), (0x15, NXK_CTRL_U), (0x17, NXK_CTRL_W), (0x19, NXK_CTRL_Y)]"

text \<open>The bytes after the first one of a character: at most \<open>n\<close>, none after the end of the input.\<close>

fun read_rest :: "nat \<Rightarrow> char option list \<Rightarrow> string \<times> char option list" where
  "read_rest 0 i = ([], i)"
| "read_rest (Suc n) i =
     (case read_byte i of
        (None, i1) \<Rightarrow> ([], i1)
      | (Some c, i1) \<Rightarrow> case read_rest n i1 of (s, i2) \<Rightarrow> (c # s, i2))"

definition char_key :: "char \<Rightarrow> char option list \<Rightarrow> nxkey \<times> char option list" where
  "char_key c i =
     (let q = utf8_seq_len c; (s, i1) = read_rest (q - 1) i;
          u = (take 5 (c # s @ replicate 4 CHR 0x00))[q := CHR 0x00]
      in (\<lparr>k_code = NXK_CHAR, k_codepoint = fst (utf8_decode u q 0), k_utf8 = u\<rparr>, i1))"

definition nexs_key_read :: "char option list \<Rightarrow> nxkey \<times> char option list" where
  "nexs_key_read i =
     (case read_byte i of
        (None, i1) \<Rightarrow> (key NXK_EOF, i1)
      | (Some c, i1) \<Rightarrow>
          if c = ESC then esc_key i1
          else case map_of control_keys (of_char c) of
            Some kc \<Rightarrow> (key kc, i1)
          | None \<Rightarrow> char_key c i1)"

definition nexs_key_name :: "nxkeycode \<Rightarrow> string" where
  "nexs_key_name kc =
     (case kc of
        NXK_NONE \<Rightarrow> ''NONE'' | NXK_CHAR \<Rightarrow> ''CHAR'' | NXK_ENTER \<Rightarrow> ''ENTER''
      | NXK_BACKSPACE \<Rightarrow> ''BACKSPACE'' | NXK_DELETE \<Rightarrow> ''DELETE'' | NXK_LEFT \<Rightarrow> ''LEFT''
      | NXK_RIGHT \<Rightarrow> ''RIGHT'' | NXK_UP \<Rightarrow> ''UP'' | NXK_DOWN \<Rightarrow> ''DOWN''
      | NXK_HOME \<Rightarrow> ''HOME'' | NXK_END \<Rightarrow> ''END'' | NXK_PGUP \<Rightarrow> ''PGUP''
      | NXK_PGDN \<Rightarrow> ''PGDN'' | NXK_SHIFT_LEFT \<Rightarrow> ''SHIFT_LEFT'' | NXK_SHIFT_RIGHT \<Rightarrow> ''SHIFT_RIGHT''
      | NXK_CTRL_LEFT \<Rightarrow> ''CTRL_LEFT'' | NXK_CTRL_RIGHT \<Rightarrow> ''CTRL_RIGHT'' | NXK_CTRL_A \<Rightarrow> ''CTRL_A''
      | NXK_CTRL_B \<Rightarrow> ''CTRL_B'' | NXK_CTRL_C \<Rightarrow> ''CTRL_C'' | NXK_CTRL_D \<Rightarrow> ''CTRL_D''
      | NXK_CTRL_E \<Rightarrow> ''CTRL_E'' | NXK_CTRL_F \<Rightarrow> ''CTRL_F'' | NXK_CTRL_K \<Rightarrow> ''CTRL_K''
      | NXK_CTRL_L \<Rightarrow> ''CTRL_L'' | NXK_CTRL_N \<Rightarrow> ''CTRL_N'' | NXK_CTRL_P \<Rightarrow> ''CTRL_P''
      | NXK_CTRL_R \<Rightarrow> ''CTRL_R'' | NXK_CTRL_T \<Rightarrow> ''CTRL_T'' | NXK_CTRL_U \<Rightarrow> ''CTRL_U''
      | NXK_CTRL_W \<Rightarrow> ''CTRL_W'' | NXK_CTRL_Y \<Rightarrow> ''CTRL_Y'' | NXK_TAB \<Rightarrow> ''TAB''
      | NXK_ESC \<Rightarrow> ''ESC'' | NXK_EOF \<Rightarrow> ''EOF'')"

subsection \<open>The editor\<close>

record nxline =
  l_buf :: string
  l_len :: nat
  l_pos :: nat
  l_hist :: "string list"
  l_head :: nat
  l_count :: nat
  l_nav :: int
  l_saved :: string
  l_kill :: string
  l_interrupted :: bool
  l_prompt :: "string option"
  l_prompt_len :: int

definition nexs_line_init :: nxline where
  "nexs_line_init =
     \<lparr>l_buf = replicate NEXS_LINE_BUFSIZE CHR 0x00, l_len = 0, l_pos = 0, l_hist = replicate NEXS_LINE_HISTORY [],
      l_head = 0, l_count = 0, l_nav = -1, l_saved = [], l_kill = [], l_interrupted = False, l_prompt = None,
      l_prompt_len = 0\<rparr>"

definition cursor_left :: "int \<Rightarrow> nxterm \<Rightarrow> nxterm" where
  "cursor_left n t = (if n \<le> 0 then t else write_str (ESC # ''['' @ show_int n @ ''D'') t)"

definition cursor_right :: "int \<Rightarrow> nxterm \<Rightarrow> nxterm" where
  "cursor_right n t = (if n \<le> 0 then t else write_str (ESC # ''['' @ show_int n @ ''C'') t)"

definition nexs_line_render :: "nxline \<Rightarrow> nxterm \<Rightarrow> nxterm" where
  "nexs_line_render le t =
     (let t1 = write_str [CHR 0x0D] t;
          t2 = (case l_prompt le of Some p \<Rightarrow> write_str p t1 | None \<Rightarrow> t1);
          t3 = write_str (take (l_len le) (l_buf le)) t2;
          t4 = write_str (ESC # ''[K'') t3
      in cursor_left (visual_cols (drop (l_pos le) (l_buf le)) (int (l_len le) - int (l_pos le))) t4)"

definition nexs_line_clear_screen :: "nxline \<Rightarrow> nxterm \<Rightarrow> nxterm" where
  "nexs_line_clear_screen le t = nexs_line_render le (write_str (ESC # ''[2J'' @ ESC # ''[H'') t)"

text \<open>\<^verbatim>\<open>memmove\<close> within the line and \<^verbatim>\<open>memcpy\<close> into it; a negative count is a huge \<^verbatim>\<open>size_t\<close>.\<close>

definition move_bytes :: "nat \<Rightarrow> nat \<Rightarrow> int \<Rightarrow> string \<Rightarrow> string res" where
  "move_bytes dst src n b =
     (if n < 0 \<or> int (length b) < int dst + n \<or> int (length b) < int src + n then Inl OutOfBounds
      else Inr (take dst b @ take (nat n) (drop src b) @ drop (dst + nat n) b))"

definition put_bytes :: "nat \<Rightarrow> string \<Rightarrow> string \<Rightarrow> string res" where
  "put_bytes dst s b =
     (if length b < dst + length s then Inl OutOfBounds else Inr (take dst b @ s @ drop (dst + length s) b))"

text \<open>The line becomes \<open>b\<close> with \<open>n\<close> bytes in use and the cursor at \<open>pos\<close>; the NUL goes behind them.\<close>

definition set_line :: "string \<Rightarrow> nat \<Rightarrow> nat \<Rightarrow> nxline \<Rightarrow> nxline res" where
  "set_line b n pos le =
     (if length b \<le> n then Inl OutOfBounds
      else Inr (le\<lparr>l_buf := b[n := CHR 0x00], l_len := n, l_pos := pos\<rparr>))"

definition insert_chars :: "string \<Rightarrow> nxline \<Rightarrow> nxline res" where
  "insert_chars s le =
     (let n = length s in
      if NEXS_LINE_BUFSIZE \<le> l_len le + n then Inr le
      else
        bind_res (move_bytes (l_pos le + n) (l_pos le) (int (l_len le) - int (l_pos le)) (l_buf le)) (\<lambda>b1.
        bind_res (put_bytes (l_pos le) s b1) (\<lambda>b2. set_line b2 (l_len le + n) (l_pos le + n) le)))"

definition read_ok :: "nxline \<Rightarrow> bool" where
  "read_ok le \<longleftrightarrow> l_pos le \<le> length (l_buf le)"

definition delete_char_before :: "nxline \<Rightarrow> nxline res" where
  "delete_char_before le =
     (if l_pos le = 0 then Inr le
      else if \<not> read_ok le then Inl OutOfBounds
      else
        let prev = utf8_prev (l_buf le) (l_pos le); dlen = l_pos le - prev in
        bind_res (move_bytes prev (l_pos le) (int (l_len le) - int (l_pos le)) (l_buf le))
          (\<lambda>b. set_line b (l_len le - dlen) prev le))"

definition delete_char_at :: "nxline \<Rightarrow> nxline res" where
  "delete_char_at le =
     (if l_len le \<le> l_pos le then Inr le
      else
        let nx = utf8_next (l_buf le) (l_len le) (l_pos le); dlen = nx - l_pos le in
        bind_res (move_bytes (l_pos le) nx (int (l_len le) - int nx) (l_buf le))
          (\<lambda>b. set_line b (l_len le - dlen) (l_pos le) le))"

definition kill_to_end :: "nxline \<Rightarrow> nxline res" where
  "kill_to_end le =
     (if l_len le \<le> l_pos le then Inr le
      else set_line (l_buf le) (l_pos le) (l_pos le)
             (le\<lparr>l_kill := c_str (take (l_len le - l_pos le) (drop (l_pos le) (l_buf le)))\<rparr>))"

definition kill_all :: "nxline \<Rightarrow> nxline res" where
  "kill_all le = set_line (l_buf le) 0 0 (le\<lparr>l_kill := c_str (take (l_len le) (l_buf le))\<rparr>)"

text \<open>Back over the bytes that satisfy \<open>P\<close>.\<close>

fun back_while :: "(char \<Rightarrow> bool) \<Rightarrow> string \<Rightarrow> nat \<Rightarrow> nat" where
  "back_while P b 0 = 0"
| "back_while P b (Suc p) = (if P (b ! p) then back_while P b p else Suc p)"

definition kill_word_back :: "nxline \<Rightarrow> nxline res" where
  "kill_word_back le =
     (if 0 < l_pos le \<and> \<not> read_ok le then Inl OutOfBounds
      else
        let e = l_pos le; b = l_buf le;
            p = back_while (\<lambda>c. c \<noteq> CHR '' '') b (back_while (\<lambda>c. c = CHR '' '') b e) in
        if p = e then Inr le
        else
          let le1 = le\<lparr>l_kill := c_str (take (e - p) (drop p b))\<rparr> in
          bind_res (move_bytes p e (int (l_len le) - int e) b) (\<lambda>b1. set_line b1 (l_len le - (e - p)) p le1))"

definition yank :: "nxline \<Rightarrow> nxline res" where
  "yank le = (if l_kill le = [] then Inr le else insert_chars (l_kill le) le)"

text \<open>The first character goes through a buffer of eight bytes.\<close>

definition transpose_chars :: "nxline \<Rightarrow> nxline res" where
  "transpose_chars le =
     (if l_pos le < 2 then Inr le
      else if \<not> read_ok le then Inl OutOfBounds
      else
        let b = l_buf le; p2 = l_pos le; p1 = utf8_prev b p2; p0 = utf8_prev b p1; len1 = p1 - p0; len2 = p2 - p1 in
        if 8 < len1 then Inl OutOfBounds
        else
          let tmp = take len1 (drop p0 b) in
          bind_res (move_bytes p0 p1 (int len2) b) (\<lambda>b1.
          bind_res (put_bytes (p0 + len2) tmp b1) (\<lambda>b2. Inr (le\<lparr>l_buf := b2\<rparr>))))"

subsection \<open>History\<close>

definition nexs_line_add_history :: "string \<Rightarrow> nxline \<Rightarrow> nxline" where
  "nexs_line_add_history line le =
     (if line = [] then le
      else if 0 < l_count le \<and>
        l_hist le ! ((l_head le + NEXS_LINE_HISTORY - 1) mod NEXS_LINE_HISTORY) = line then le
      else
        le\<lparr>l_hist := (l_hist le)[l_head le := trunc NEXS_LINE_BUFSIZE line],
           l_head := (l_head le + 1) mod NEXS_LINE_HISTORY,
           l_count := (if l_count le < NEXS_LINE_HISTORY then l_count le + 1 else l_count le)\<rparr>)"

text \<open>The line becomes the C string \<open>s\<close>, with the cursor behind it.\<close>

definition load_line :: "string \<Rightarrow> nxline \<Rightarrow> nxline" where
  "load_line s le =
     (let s' = trunc NEXS_LINE_BUFSIZE s in
      le\<lparr>l_buf := s' @ replicate (NEXS_LINE_BUFSIZE - length s') CHR 0x00, l_len := length s', l_pos := length s'\<rparr>)"

definition save_line :: "nxline \<Rightarrow> nxline" where
  "save_line le = (if l_nav le = -1 then le\<lparr>l_saved := c_str (trunc NEXS_LINE_BUFSIZE (l_buf le))\<rparr> else le)"

definition hist_entry :: "nxline \<Rightarrow> string" where
  "hist_entry le = l_hist le ! nat ((int (l_head le) - 1 - l_nav le + int NEXS_LINE_HISTORY * 2) mod int NEXS_LINE_HISTORY)"

definition history_nav :: "int \<Rightarrow> nxline \<Rightarrow> nxterm \<Rightarrow> nxline \<times> nxterm" where
  "history_nav dir le t =
     (if l_count le = 0 then (le, t)
      else
        let le1 = save_line le; new_nav = l_nav le + dir in
        if new_nav < 0 then
          let le2 = (load_line (l_saved le1) le1)\<lparr>l_nav := -1\<rparr> in (le2, nexs_line_render le2 t)
        else if int (l_count le) \<le> new_nav then (le1, t)
        else
          let le2 = le1\<lparr>l_nav := new_nav\<rparr>; le3 = load_line (hist_entry le2) le2 in (le3, nexs_line_render le3 t))"

definition history_oldest :: "nxline \<Rightarrow> nxterm \<Rightarrow> nxline \<times> nxterm" where
  "history_oldest le t =
     (if l_count le = 0 then (le, t)
      else
        let le1 = (save_line le)\<lparr>l_nav := int (l_count le) - 1\<rparr>; le2 = load_line (hist_entry le1) le1
        in (le2, nexs_line_render le2 t))"

subsection \<open>Reading a line\<close>

text \<open>Over the characters whose last byte satisfies \<open>P\<close>, backward, and over those whose first byte does, forward.\<close>

function word_back :: "(char \<Rightarrow> bool) \<Rightarrow> string \<Rightarrow> nat \<Rightarrow> nat" where
  "word_back P b pos = (if 0 < pos \<and> P (b ! (pos - 1)) then word_back P b (utf8_prev b pos) else pos)"
  by auto
termination
  by (relation "measure (\<lambda>(P, b, pos). pos)") (auto simp: utf8_prev_less)

function word_forward :: "(char \<Rightarrow> bool) \<Rightarrow> string \<Rightarrow> nat \<Rightarrow> nat \<Rightarrow> nat" where
  "word_forward P b n pos = (if pos < n \<and> P (b ! pos) then word_forward P b n (utf8_next b n pos) else pos)"
  by auto
termination
  by (relation "measure (\<lambda>(P, b, n, pos). n - pos)") (auto simp: utf8_next_def utf8_seq_len_pos diff_less_mono2)

declare word_back.simps [simp del] word_forward.simps [simp del]

datatype line_result = Line string | No_line

definition with_render :: "nxline res \<Rightarrow> nxterm \<Rightarrow> (line_result option \<times> nxline \<times> nxterm) res" where
  "with_render r t = bind_res r (\<lambda>le. Inr (None, le, nexs_line_render le t))"

definition move_left :: "nxline \<Rightarrow> nxterm \<Rightarrow> (line_result option \<times> nxline \<times> nxterm) res" where
  "move_left le t =
     (if l_pos le = 0 then Inr (None, le, t)
      else if \<not> read_ok le then Inl OutOfBounds
      else
        let prev = utf8_prev (l_buf le) (l_pos le); w = visual_cols (drop prev (l_buf le)) (int (l_pos le) - int prev)
        in Inr (None, le\<lparr>l_pos := prev\<rparr>, cursor_left w t))"

definition move_right :: "nxline \<Rightarrow> nxterm \<Rightarrow> (line_result option \<times> nxline \<times> nxterm) res" where
  "move_right le t =
     (if l_len le \<le> l_pos le then Inr (None, le, t)
      else
        let nx = utf8_next (l_buf le) (l_len le) (l_pos le);
            w = visual_cols (drop (l_pos le) (l_buf le)) (int nx - int (l_pos le))
        in if length (l_buf le) < nx then Inl OutOfBounds else Inr (None, le\<lparr>l_pos := nx\<rparr>, cursor_right w t))"

definition move_word_back :: "nxline \<Rightarrow> nxline res" where
  "move_word_back le =
     (if 0 < l_pos le \<and> \<not> read_ok le then Inl OutOfBounds
      else Inr (le\<lparr>l_pos := word_back (\<lambda>c. c \<noteq> CHR '' '') (l_buf le)
                            (word_back (\<lambda>c. c = CHR '' '') (l_buf le) (l_pos le))\<rparr>))"

definition move_word_forward :: "nxline \<Rightarrow> nxline res" where
  "move_word_forward le =
     Inr (le\<lparr>l_pos := word_forward (\<lambda>c. c \<noteq> CHR '' '') (l_buf le) (l_len le)
                        (word_forward (\<lambda>c. c = CHR '' '') (l_buf le) (l_len le) (l_pos le))\<rparr>)"

text \<open>The submitted line, as much of it as the caller's buffer holds.\<close>

definition submit :: "int \<Rightarrow> nxline \<Rightarrow> line_result res" where
  "submit outsz le =
     (let n = (if int (l_len le) < outsz - 1 then int (l_len le) else outsz - 1) in
      if n < 0 then Inl OutOfBounds else Inr (Line (take (nat n) (l_buf le))))"

text \<open>One key: the result of the call when the key ends it, else none.\<close>

definition line_key :: "int \<Rightarrow> nxkey \<Rightarrow> nxline \<Rightarrow> nxterm \<Rightarrow> (line_result option \<times> nxline \<times> nxterm) res" where
  "line_key outsz k le t =
     (case k_code k of
        NXK_ENTER \<Rightarrow>
          bind_res (submit outsz le) (\<lambda>r. Inr (Some r, le, nexs_line_raw_off (write_str [CHR 0x0D, CHR 0x0A] t)))
      | NXK_EOF \<Rightarrow>
          if l_len le = 0 then Inr (Some No_line, le, nexs_line_raw_off (write_str [CHR 0x0D, CHR 0x0A] t))
          else with_render (delete_char_at le) t
      | NXK_CTRL_C \<Rightarrow>
          Inr (Some No_line, le\<lparr>l_interrupted := True\<rparr>, nexs_line_raw_off (write_str (''^C'' @ [CHR 0x0D, CHR 0x0A]) t))
      | NXK_LEFT \<Rightarrow> move_left le t | NXK_CTRL_B \<Rightarrow> move_left le t
      | NXK_RIGHT \<Rightarrow> move_right le t | NXK_CTRL_F \<Rightarrow> move_right le t
      | NXK_HOME \<Rightarrow> with_render (Inr (le\<lparr>l_pos := 0\<rparr>)) t | NXK_CTRL_A \<Rightarrow> with_render (Inr (le\<lparr>l_pos := 0\<rparr>)) t
      | NXK_END \<Rightarrow> with_render (Inr (le\<lparr>l_pos := l_len le\<rparr>)) t
      | NXK_CTRL_E \<Rightarrow> with_render (Inr (le\<lparr>l_pos := l_len le\<rparr>)) t
      | NXK_CTRL_LEFT \<Rightarrow> with_render (move_word_back le) t | NXK_SHIFT_LEFT \<Rightarrow> with_render (move_word_back le) t
      | NXK_CTRL_RIGHT \<Rightarrow> with_render (move_word_forward le) t
      | NXK_SHIFT_RIGHT \<Rightarrow> with_render (move_word_forward le) t
      | NXK_UP \<Rightarrow> Inr (None, history_nav 1 le t) | NXK_CTRL_P \<Rightarrow> Inr (None, history_nav 1 le t)
      | NXK_DOWN \<Rightarrow> Inr (None, history_nav (-1) le t) | NXK_CTRL_N \<Rightarrow> Inr (None, history_nav (-1) le t)
      | NXK_BACKSPACE \<Rightarrow> with_render (delete_char_before le) t
      | NXK_DELETE \<Rightarrow> with_render (delete_char_at le) t
      | NXK_CTRL_K \<Rightarrow> with_render (kill_to_end le) t
      | NXK_CTRL_U \<Rightarrow> with_render (kill_all le) t
      | NXK_CTRL_W \<Rightarrow> with_render (kill_word_back le) t
      | NXK_CTRL_Y \<Rightarrow> with_render (yank le) t
      | NXK_CTRL_T \<Rightarrow> with_render (transpose_chars le) t
      | NXK_CTRL_L \<Rightarrow> Inr (None, le, nexs_line_clear_screen le t)
      | NXK_TAB \<Rightarrow> Inr (None, le, t)
      | NXK_PGUP \<Rightarrow> Inr (None, history_oldest le t)
      | NXK_PGDN \<Rightarrow> Inr (None, history_nav (-1) le t)
      | NXK_CHAR \<Rightarrow> with_render (insert_chars (c_str (k_utf8 k)) le) t
      | _ \<Rightarrow> Inr (None, le, t))"

lemma read_byte_shorter: "read_byte i = (b, i') \<Longrightarrow> (case b of Some c \<Rightarrow> length i' < length i | None \<Rightarrow> i' = [])"
  by (induction i rule: read_byte.induct) (auto split: option.splits)

lemma read_byte_timeout_le: "length (snd (read_byte_timeout i)) \<le> length i"
  by (cases i) auto

lemma absorb_le: "length (absorb i) \<le> length i"
  by (induction i rule: absorb.induct) auto

lemma read_rest_le: "length (snd (read_rest n i)) \<le> length i"
proof (induction n arbitrary: i)
  case (Suc n)
  obtain b i1 where b: "read_byte i = (b, i1)" by fastforce
  show ?case
  proof (cases b)
    case None
    then show ?thesis using b read_byte_shorter [OF b] by simp
  next
    case (Some c)
    then show ?thesis using b read_byte_shorter [OF b] Suc.IH [of i1] by (simp add: case_prod_unfold)
  qed
qed simp

lemmas key_input_le = read_byte_timeout_le absorb_le read_rest_le

lemma key_code [simp]: "k_code (key c) = c" "k_code no_key = NXK_NONE"
  by (simp_all add: key_def no_key_def)

lemma arrow_key_no_eof: "arrow_key c \<noteq> NXK_EOF" "modified_key m d \<noteq> NXK_EOF" "tilde_key c \<noteq> NXK_EOF"
  by (simp_all add: arrow_key_def modified_key_def tilde_key_def)

lemma csi_key_le: "length (snd (csi_key i)) \<le> length i \<and> k_code (fst (csi_key i)) \<noteq> NXK_EOF"
proof -
  have a: "length (snd (read_byte_timeout (snd (read_byte_timeout i)))) \<le> length i" for i
    using key_input_le(1) le_trans by blast
  have c: "length (snd (read_byte_timeout (snd (read_byte_timeout (snd (read_byte_timeout (snd (read_byte_timeout i)))))))) \<le> length i"
    using a le_trans by blast
  have d: "length (absorb (snd (read_byte_timeout (snd (read_byte_timeout i))))) \<le> length i" using a absorb_le le_trans by blast
  have e: "length (absorb (snd (read_byte_timeout i))) \<le> length i" using key_input_le absorb_le le_trans by blast
  show ?thesis
    using a c d e arrow_key_no_eof read_byte_timeout_le
    by (auto simp: csi_key_def case_prod_unfold split: option.splits)
qed

lemma esc_key_le: "length (snd (esc_key i)) \<le> length i \<and> k_code (fst (esc_key i)) \<noteq> NXK_EOF"
proof -
  have a: "length (snd (read_byte_timeout (snd (read_byte_timeout i)))) \<le> length i" using key_input_le(1) le_trans by blast
  have b: "length (snd (csi_key (snd (read_byte_timeout i)))) \<le> length i" using key_input_le(1) csi_key_le le_trans by blast
  show ?thesis
    using a b arrow_key_no_eof csi_key_le read_byte_timeout_le
    by (auto simp: esc_key_def case_prod_unfold split: option.splits)
qed

lemma control_keys_no_eof: "map_of control_keys n \<noteq> Some NXK_EOF"
  by (auto simp: control_keys_def dest!: map_of_SomeD)

lemma char_key_le: "length (snd (char_key c i)) \<le> length i \<and> k_code (fst (char_key c i)) = NXK_CHAR"
  by (simp add: char_key_def Let_def case_prod_unfold read_rest_le)

lemma key_read_shorter:
  assumes "nexs_key_read i = (k, i')"
  shows "if k_code k = NXK_EOF then i' = [] else length i' < length i"
proof -
  obtain b i1 where b: "read_byte i = (b, i1)" by fastforce
  show ?thesis
  proof (cases b)
    case None
    then show ?thesis using assms b read_byte_shorter [OF b] by (auto simp: nexs_key_read_def)
  next
    case (Some c)
    have k: "(k, i') = (if c = ESC then esc_key i1 else case map_of control_keys (of_char c) of
        Some kc \<Rightarrow> (key kc, i1) | None \<Rightarrow> char_key c i1)"
      using assms b Some by (simp add: nexs_key_read_def)
    have "k_code k \<noteq> NXK_EOF \<and> length i' \<le> length i1"
      using k esc_key_le [of i1] char_key_le [of c i1] control_keys_no_eof [of "of_char c"]
      by (auto split: if_splits option.splits dest: arg_cong [of _ _ fst] arg_cong [of _ _ snd])
    then show ?thesis using read_byte_shorter [OF b] Some by simp
  qed
qed

lemma t_in_simps [simp]:
  "t_in (write_str s t) = t_in t" "t_in (nexs_line_raw_off t) = t_in t" "t_in (cursor_left n t) = t_in t"
  "t_in (cursor_right n t) = t_in t" "t_in (nexs_line_render le t) = t_in t"
  "t_in (nexs_line_clear_screen le t) = t_in t" "t_in (snd (history_nav dir le t)) = t_in t"
  "t_in (snd (history_oldest le t)) = t_in t"
  by (simp_all add: write_str_def nexs_line_raw_off_def cursor_left_def cursor_right_def nexs_line_render_def
      nexs_line_clear_screen_def history_nav_def history_oldest_def Let_def split: option.split)

lemma with_render_input: "with_render r t = Inr (x, le, t') \<Longrightarrow> t_in t' = t_in t"
  by (cases r) (auto simp: with_render_def)

lemma line_key_input:
  assumes "line_key outsz k le t = Inr (r, le', t')"
  shows "t_in t' = t_in t"
proof -
  have h: "history_nav d le t = (le', t') \<Longrightarrow> t_in t' = t_in t" "history_oldest le t = (le', t') \<Longrightarrow> t_in t' = t_in t" for d
    using t_in_simps(7) [of d le t] t_in_simps(8) [of le t] by simp_all
  show ?thesis
    using assms h(1) [of 1] h(1) [of "-1"] h(2)
    by (cases "k_code k") (auto simp: line_key_def move_left_def move_right_def Let_def bind_res_Inr dest: with_render_input split: if_splits)
qed

lemma delete_char_at_len:
  assumes "delete_char_at le = Inr le'" and "l_pos le < l_len le"
  shows "l_len le' < l_len le"
proof -
  have "l_pos le < utf8_next (l_buf le) (l_len le) (l_pos le)"
    using assms(2) utf8_seq_len_pos by (simp add: utf8_next_def)
  then show ?thesis
    using assms by (auto simp: delete_char_at_def Let_def bind_res_Inr set_line_def move_bytes_def split: if_splits)
qed

lemma line_key_eof:
  "line_key outsz k le t = Inr (None, le', t') \<Longrightarrow> k_code k = NXK_EOF \<Longrightarrow>
    0 < l_len le \<and> (l_pos le < l_len le \<longrightarrow> l_len le' < l_len le)"
  by (auto simp: line_key_def with_render_def bind_res_Inr delete_char_at_len split: if_splits)

text \<open>
  At the end of the input every further key is \<open>NXK_EOF\<close>; with the cursor at the end of a line that
  is not empty such a key changes nothing, so the loop does not end.
\<close>

function line_loop :: "int \<Rightarrow> nxline \<Rightarrow> nxterm \<Rightarrow> (line_result \<times> nxline \<times> nxterm) res" where
  "line_loop outsz le t =
     (let (k, i) = nexs_key_read (t_in t) in
      if k_code k = NXK_EOF \<and> 0 < l_len le \<and> l_len le \<le> l_pos le then Inl Hang
      else
        bind_res (line_key outsz k le (t\<lparr>t_in := i\<rparr>)) (\<lambda>(r, le1, t1).
          case r of Some x \<Rightarrow> Inr (x, le1, t1) | None \<Rightarrow> line_loop outsz le1 t1))"
  by auto
termination
proof (relation "measures [\<lambda>(n, le, t). length (t_in t), \<lambda>(n, le, t). l_len le]", goal_cases)
  case (2 outsz le t y k i y' r z le1 t1)
  note key = key_read_shorter [OF 2(1) [symmetric, folded 2(2)]]
  have t1: "line_key outsz k le (t\<lparr>t_in := i\<rparr>) = Inr (None, le1, t1)" using 2 by simp
  have i: "t_in t1 = i" using line_key_input [OF t1] by simp
  show ?case
  proof (cases "k_code k = NXK_EOF")
    case True
    then have "l_pos le < l_len le" using 2(3) line_key_eof [OF t1] by auto
    then show ?thesis using key True i line_key_eof [OF t1 True] by (cases "t_in t") auto
  next
    case False
    then show ?thesis using key i by simp
  qed
qed simp

declare line_loop.simps [simp del]

text \<open>Input that is no terminal: \<^verbatim>\<open>fgets\<close>, without the line end.\<close>

fun fgets_loop :: "nat \<Rightarrow> char option list \<Rightarrow> string \<times> char option list" where
  "fgets_loop 0 i = ([], i)"
| "fgets_loop (Suc n) [] = ([], [])"
| "fgets_loop (Suc n) (None # i) = fgets_loop (Suc n) i"
| "fgets_loop (Suc n) (Some c # i) =
     (if c = CHR 0x0A then ([c], i) else case fgets_loop n i of (s, i1) \<Rightarrow> (c # s, i1))"

definition read_plain :: "int \<Rightarrow> string option \<Rightarrow> nxterm \<Rightarrow> line_result \<times> nxterm" where
  "read_plain outsz prompt t =
     (let t1 = (case prompt of Some p \<Rightarrow> write_str p t | None \<Rightarrow> t);
          (s, i) = fgets_loop (nat (outsz - 1)) (t_in t1); t2 = t1\<lparr>t_in := i\<rparr> in
      if outsz \<le> 0 \<or> (1 < outsz \<and> s = []) then (No_line, t2)
      else (Line (rev (dropWhile (\<lambda>c. c = CHR 0x0A \<or> c = CHR 0x0D) (rev (c_str s)))), t2))"

text \<open>The width of the prompt without its colour sequences.\<close>

function visible_len :: "string \<Rightarrow> int" where
  "visible_len p =
     (case p of
        [] \<Rightarrow> 0
      | c # q \<Rightarrow>
          if c = ESC \<and> q \<noteq> [] \<and> hd q = CHR ''['' then visible_len (drop 1 (dropWhile (\<lambda>x. x \<noteq> CHR ''m'') (tl q)))
          else 1 + visible_len q)"
  by auto
termination
proof (relation "measure length", goal_cases)
  case (2 p c q)
  then show ?case using length_dropWhile_le [of "\<lambda>x. x \<noteq> CHR ''m''" "tl q"] by (cases q) auto
qed auto

declare visible_len.simps [simp del]

definition nexs_line_read :: "nxline \<Rightarrow> string option \<Rightarrow> int \<Rightarrow> nxterm \<Rightarrow> (line_result \<times> nxline \<times> nxterm) res" where
  "nexs_line_read le prompt outsz t =
     (if \<not> t_tty t then let (r, t1) = read_plain outsz prompt t in Inr (r, le, t1)
      else
        let le1 = le\<lparr>l_buf := (l_buf le)[0 := CHR 0x00], l_len := 0, l_pos := 0, l_nav := -1, l_prompt := prompt,
              l_prompt_len := (case prompt of Some p \<Rightarrow> visible_len p | None \<Rightarrow> 0), l_interrupted := False\<rparr>;
            (rc, t1) = nexs_line_raw_on t in
        if rc = -1 then let (r, t2) = read_plain outsz prompt t1 in Inr (r, le1, t2)
        else line_loop outsz le1 (nexs_line_render le1 t1))"

subsection \<open>Terminal primitives for the builtins\<close>

definition nexs_term_write :: "string \<Rightarrow> int \<Rightarrow> nxterm \<Rightarrow> nxterm" where
  "nexs_term_write s n t = (if n \<le> 0 then t else write_str (take (nat n) s) t)"

definition nexs_term_puts :: "string \<Rightarrow> nxterm \<Rightarrow> nxterm" where
  "nexs_term_puts s t = write_str s t"

definition nexs_term_cursor_col :: "int \<Rightarrow> nxterm \<Rightarrow> nxterm" where
  "nexs_term_cursor_col col t = write_str (ESC # ''['' @ show_int (if col < 1 then 1 else col) @ ''G'') t"

definition nexs_term_erase_eol :: "nxterm \<Rightarrow> nxterm" where
  "nexs_term_erase_eol t = write_str (ESC # ''[K'') t"

definition nexs_term_clear_screen :: "nxterm \<Rightarrow> nxterm" where
  "nexs_term_clear_screen t = write_str (ESC # ''[2J'' @ ESC # ''[H'') t"

end
