(* ===== verification/Line_Facts.thy ===== *)
theory Line_Facts
  imports Line
begin

section \<open>The line editor as a gap buffer\<close>

text \<open>
  The characters before the cursor, those behind it and those in the kill buffer. A character is a
  byte that starts one and as many continuation bytes as it announces.
\<close>

type_synonym gap = "string list \<times> string list \<times> string list"

definition utf8_char :: "string \<Rightarrow> bool" where
  "utf8_char s \<longleftrightarrow> s \<noteq> [] \<and> length s = utf8_seq_len (hd s) \<and> \<not> is_cont (hd s) \<and> list_all is_cont (tl s) \<and>
     CHR 0x00 \<notin> set s"

definition word_left :: "string list \<Rightarrow> string list" where
  "word_left xs = rev (dropWhile (\<lambda>c. c \<noteq> '' '') (dropWhile (\<lambda>c. c = '' '') (rev xs)))"

definition word_right :: "string list \<Rightarrow> string list" where
  "word_right ys = dropWhile (\<lambda>c. c \<noteq> '' '') (dropWhile (\<lambda>c. c = '' '') ys)"

definition gap_insert :: "string list \<Rightarrow> gap \<Rightarrow> gap" where
  "gap_insert s = (\<lambda>(xs, ys, ks).
     if NEXS_LINE_BUFSIZE \<le> length (concat xs) + length (concat ys) + length (concat s) then (xs, ys, ks)
     else (xs @ s, ys, ks))"

definition gap_left :: "gap \<Rightarrow> gap" where
  "gap_left = (\<lambda>(xs, ys, ks). if xs = [] then (xs, ys, ks) else (butlast xs, last xs # ys, ks))"

definition gap_right :: "gap \<Rightarrow> gap" where
  "gap_right = (\<lambda>(xs, ys, ks). (xs @ take 1 ys, drop 1 ys, ks))"

definition gap_word_left :: "gap \<Rightarrow> gap" where
  "gap_word_left = (\<lambda>(xs, ys, ks). (word_left xs, drop (length (word_left xs)) xs @ ys, ks))"

definition gap_word_right :: "gap \<Rightarrow> gap" where
  "gap_word_right = (\<lambda>(xs, ys, ks). (xs @ take (length ys - length (word_right ys)) ys, word_right ys, ks))"

definition gap_kill_word :: "gap \<Rightarrow> gap" where
  "gap_kill_word = (\<lambda>(xs, ys, ks).
     if word_left xs = xs then (xs, ys, ks) else (word_left xs, ys, drop (length (word_left xs)) xs))"

definition gap_swap :: "gap \<Rightarrow> gap" where
  "gap_swap = (\<lambda>(xs, ys, ks).
     if length xs < 2 then (xs, ys, ks)
     else (butlast (butlast xs) @ [last xs, last (butlast xs)], ys, ks))"

definition gap_key :: "gap \<Rightarrow> nxkey \<Rightarrow> gap" where
  "gap_key g k =
     (case g of (xs, ys, ks) \<Rightarrow>
      case k_code k of
        NXK_CHAR \<Rightarrow> gap_insert [c_str (k_utf8 k)] g
      | NXK_LEFT \<Rightarrow> gap_left g | NXK_CTRL_B \<Rightarrow> gap_left g
      | NXK_RIGHT \<Rightarrow> gap_right g | NXK_CTRL_F \<Rightarrow> gap_right g
      | NXK_HOME \<Rightarrow> ([], xs @ ys, ks) | NXK_CTRL_A \<Rightarrow> ([], xs @ ys, ks)
      | NXK_END \<Rightarrow> (xs @ ys, [], ks) | NXK_CTRL_E \<Rightarrow> (xs @ ys, [], ks)
      | NXK_CTRL_LEFT \<Rightarrow> gap_word_left g | NXK_SHIFT_LEFT \<Rightarrow> gap_word_left g
      | NXK_CTRL_RIGHT \<Rightarrow> gap_word_right g | NXK_SHIFT_RIGHT \<Rightarrow> gap_word_right g
      | NXK_BACKSPACE \<Rightarrow> (butlast xs, ys, ks)
      | NXK_DELETE \<Rightarrow> (xs, drop 1 ys, ks)
      | NXK_CTRL_K \<Rightarrow> if ys = [] then g else (xs, [], ys)
      | NXK_CTRL_U \<Rightarrow> ([], [], xs @ ys)
      | NXK_CTRL_W \<Rightarrow> gap_kill_word g
      | NXK_CTRL_Y \<Rightarrow> gap_insert ks g
      | NXK_CTRL_T \<Rightarrow> gap_swap g
      | _ \<Rightarrow> g)"

text \<open>
  The keys that edit: not those that end the line or walk in the history, not Ctrl+D, which the code ignores where it
  is documented to delete (\<open>ctrl_d_ignored\<close> below), and of the characters the well-formed ones.
\<close>

definition edit_key :: "nxkey \<Rightarrow> bool" where
  "edit_key k \<longleftrightarrow>
     k_code k \<notin> {NXK_ENTER, NXK_EOF, NXK_CTRL_C, NXK_UP, NXK_CTRL_P, NXK_DOWN, NXK_CTRL_N, NXK_PGUP, NXK_PGDN,
       NXK_CTRL_D} \<and>
     (k_code k = NXK_CHAR \<longrightarrow> utf8_char (c_str (k_utf8 k)))"

definition holds_gap :: "nxline \<Rightarrow> gap \<Rightarrow> bool" where
  "holds_gap le = (\<lambda>(xs, ys, ks).
     (\<exists>r. l_buf le = concat xs @ concat ys @ r \<and> r \<noteq> []) \<and> length (l_buf le) = NEXS_LINE_BUFSIZE \<and>
     l_len le = length (concat xs) + length (concat ys) \<and> l_pos le = length (concat xs) \<and>
     l_kill le = concat ks \<and> (\<forall>c \<in> set xs \<union> set ys \<union> set ks. utf8_char c))"

subsection \<open>Bytes of characters\<close>

lemma utf8_char_facts:
  assumes "utf8_char s"
  shows "s \<noteq> []" "length s = utf8_seq_len (hd s)" "s = hd s # tl s" "\<not> is_cont (hd s)" "length s \<le> 4" "0 < length s"
  using assms utf8_seq_len_pos [of "hd s"] by (auto simp: utf8_char_def)

lemma is_cont_space: "\<not> is_cont CHR '' ''"
  by (simp add: is_cont_def)

lemma utf8_char_space:
  assumes "utf8_char s"
  shows "CHR '' '' \<in> set s \<longleftrightarrow> s = '' ''"
proof
  assume "CHR '' '' \<in> set s"
  moreover have "CHR '' '' \<notin> set (tl s)" using assms is_cont_space by (auto simp: utf8_char_def list_all_iff)
  ultimately have h: "hd s = CHR '' ''" using utf8_char_facts [OF assms] by (metis set_ConsD)
  have "utf8_seq_len CHR '' '' = 1" by (simp add: utf8_seq_len_def)
  then show "s = '' ''" using h utf8_char_facts [OF assms] by (cases s) auto
qed simp

lemma last_space: "utf8_char s \<Longrightarrow> last s = CHR '' '' \<longleftrightarrow> s = '' ''"
  using utf8_char_space [of s] last_in_set [of s] utf8_char_facts(1) [of s] by (metis last_ConsL)

lemma hd_space: "utf8_char s \<Longrightarrow> hd s = CHR '' '' \<longleftrightarrow> s = '' ''"
  using utf8_char_space [of s] hd_in_set [of s] utf8_char_facts(1) [of s] by (metis list.sel(1))

lemma prev_from_char:
  assumes "\<not> is_cont h" and "list_all is_cont s" and "j \<le> length s"
  shows "prev_from (A @ h # s @ R) (length A + j) = length A"
  using assms(3)
proof (induction j)
  case 0
  then show ?case using assms(1) by (cases "length A") (auto simp: nth_append)
next
  case (Suc j)
  have "is_cont ((A @ h # s @ R) ! Suc (length A + j))"
    using assms(2) Suc.prems by (auto simp: nth_append list_all_length)
  then show ?case using Suc by simp
qed

lemma utf8_prev_char:
  assumes "utf8_char c"
  shows "utf8_prev (A @ c @ R) (length A + length c) = length A"
proof -
  have "c = hd c # tl c" "\<not> is_cont (hd c)" "list_all is_cont (tl c)" using assms by (auto simp: utf8_char_def)
  then have "prev_from (A @ c @ R) (length A + length (tl c)) = length A"
    using prev_from_char [of "hd c" "tl c" "length (tl c)" A R] by (metis append_Cons order_refl)
  then show ?thesis using utf8_char_facts(1) [OF assms] by (cases c) (simp_all add: utf8_prev_def)
qed

lemma utf8_next_char:
  assumes "utf8_char c" and "length A < n"
  shows "utf8_next (A @ c @ R) n (length A) = length A + length c"
  using assms utf8_char_facts [OF assms(1)] by (cases c) (auto simp: utf8_next_def nth_append)

subsection \<open>Moving bytes\<close>

lemma move_down:
  "move_bytes (length A) (length A + length B) (int (length C)) (A @ B @ C @ D) = Inr (A @ C @ drop (length C) (B @ C) @ D)"
  by (simp add: move_bytes_def)

lemma insert_bytes:
  assumes "length s \<le> length D"
  shows "bind_res (move_bytes (length A + length s) (length A) (int (length C)) (A @ C @ D)) (put_bytes (length A) s) =
    Inr (A @ s @ C @ drop (length s) D)"
proof -
  have "take (length A + length s) (A @ C @ D) = A @ take (length s) (C @ D)" by simp
  then have "move_bytes (length A + length s) (length A) (int (length C)) (A @ C @ D) =
      Inr (A @ take (length s) (C @ D) @ C @ drop (length s) D)"
    using assms by (simp add: move_bytes_def add.commute)
  then show ?thesis using assms by (simp add: put_bytes_def)
qed

lemma set_line_prefix:
  "set_line (A @ r) (length A) p le =
     (if r = [] then Inl OutOfBounds else Inr (le\<lparr>l_buf := A @ CHR 0x00 # tl r, l_len := length A, l_pos := p\<rparr>))"
  by (cases r) (auto simp: set_line_def)

text \<open>What the byte loops leave of a list of characters.\<close>

definition char_pred :: "(char \<Rightarrow> bool) \<Rightarrow> (string \<Rightarrow> bool) \<Rightarrow> bool" where
  "char_pred P Q \<longleftrightarrow> (\<forall>c. utf8_char c \<longrightarrow>
     (Q c \<longrightarrow> (\<forall>x \<in> set c. P x)) \<and> (\<not> Q c \<longrightarrow> \<not> P (last c) \<and> \<not> P (hd c)))"

lemma char_pred_space: "char_pred (\<lambda>c. c = CHR '' '') (\<lambda>s. s = '' '')" "char_pred (\<lambda>c. c \<noteq> CHR '' '') (\<lambda>s. s \<noteq> '' '')"
  by (auto simp: char_pred_def last_space hd_space utf8_char_space)

lemma back_while_append:
  "(\<forall>x \<in> set c. P x) \<Longrightarrow> back_while P (A @ c @ R) (length A + length c) = back_while P (A @ c @ R) (length A)"
proof (induction c arbitrary: R rule: rev_induct)
  case (snoc x c)
  then have "back_while P (A @ c @ x # R) (length A + length c) = back_while P (A @ c @ x # R) (length A)" by simp
  then show ?case using snoc.prems by (simp add: nth_append)
qed simp

lemma nth_before: "c \<noteq> [] \<Longrightarrow> (A @ c @ R) ! (length A + length c - Suc 0) = last c"
  by (cases c rule: rev_cases) (simp_all add: nth_append)

lemma back_while_chars:
  assumes "char_pred P Q" and "\<forall>c \<in> set xs. utf8_char c"
  shows "back_while P (concat xs @ R) (length (concat xs)) = length (concat (rev (dropWhile Q (rev xs))))"
  using assms(2)
proof (induction xs arbitrary: R rule: rev_induct)
  case (snoc c xs)
  have c: "utf8_char c" "c \<noteq> []" using snoc.prems utf8_char_facts by auto
  show ?case
  proof (cases "Q c")
    case True
    then have "\<forall>x \<in> set c. P x" using assms(1) c by (auto simp: char_pred_def)
    then show ?thesis using snoc.IH [of "c @ R"] snoc.prems True back_while_append [of c P "concat xs" R] by simp
  next
    case False
    then have "\<not> P (last c)" using assms(1) c by (auto simp: char_pred_def)
    moreover have "(concat xs @ c @ R) ! (length (concat xs) + length c - 1) = last c"
      using nth_before [OF c(2)] by simp
    ultimately show ?thesis using False c(2) by (cases "length (concat xs) + length c") auto
  qed
qed simp

lemma word_back_chars:
  assumes "char_pred P Q" and "\<forall>c \<in> set xs. utf8_char c"
  shows "word_back P (concat xs @ R) (length (concat xs)) = length (concat (rev (dropWhile Q (rev xs))))"
  using assms(2)
proof (induction xs arbitrary: R rule: rev_induct)
  case Nil
  then show ?case by (simp add: word_back.simps)
next
  case (snoc c xs)
  have c: "utf8_char c" "c \<noteq> []" using snoc.prems utf8_char_facts by auto
  have l: "(concat xs @ c @ R) ! (length (concat xs) + length c - 1) = last c"
    using nth_before [OF c(2)] by simp
  show ?case
  proof (cases "Q c")
    case True
    then have "P (last c)" using assms(1) c by (auto simp: char_pred_def)
    then show ?thesis
      using snoc.IH [of "c @ R"] snoc.prems True l c utf8_prev_char [OF c(1), of "concat xs" R]
      by (subst word_back.simps) simp
  next
    case False
    then have "\<not> P (last c)" using assms(1) c by (auto simp: char_pred_def)
    then show ?thesis using False l by (subst word_back.simps) simp
  qed
qed

lemma word_forward_chars:
  assumes "char_pred P Q" and "\<forall>c \<in> set ys. utf8_char c"
  shows "word_forward P (A @ concat ys @ R) (length A + length (concat ys)) (length A) =
    length A + (length (concat ys) - length (concat (dropWhile Q ys)))"
  using assms(2)
proof (induction ys arbitrary: A)
  case Nil
  then show ?case by (simp add: word_forward.simps)
next
  case (Cons c ys)
  have c: "utf8_char c" "c \<noteq> []" using Cons.prems utf8_char_facts by auto
  have l: "(A @ c @ concat ys @ R) ! length A = hd c" using c(2) by (cases c) (auto simp: nth_append)
  have d: "length (concat (dropWhile Q ys)) \<le> length (concat ys)"
    by (metis concat_append le_add2 length_append takeWhile_dropWhile_id)
  show ?case
  proof (cases "Q c")
    case True
    then have "P (hd c)" using assms(1) c by (auto simp: char_pred_def)
    then show ?thesis
      using Cons.IH [of "A @ c"] Cons.prems True l c d
        utf8_next_char [OF c(1), of A "length A + (length c + length (concat ys))" "concat ys @ R"]
      by (subst word_forward.simps) (simp add: add.assoc)
  next
    case False
    then have "\<not> P (hd c)" using assms(1) c by (auto simp: char_pred_def)
    then show ?thesis using False l by (subst word_forward.simps) simp
  qed
qed

subsection \<open>The operations\<close>

lemma set_line_gap:
  assumes "b = concat xs @ concat ys @ r" and "r \<noteq> []" and "length b = NEXS_LINE_BUFSIZE"
    and "n = length (concat xs) + length (concat ys)" and "p = length (concat xs)"
    and "l_kill le = concat ks" and "\<forall>c \<in> set xs \<union> set ys \<union> set ks. utf8_char c"
  shows "\<exists>le'. set_line b n p le = Inr le' \<and> holds_gap le' (xs, ys, ks)"
proof -
  have "set_line ((concat xs @ concat ys) @ r) (length (concat xs @ concat ys)) p le =
      Inr (le\<lparr>l_buf := (concat xs @ concat ys) @ CHR 0x00 # tl r, l_len := length (concat xs @ concat ys), l_pos := p\<rparr>)"
    using assms(2) by (simp only: set_line_prefix if_False)
  then show ?thesis using assms by (auto simp: holds_gap_def)
qed

lemma holds_gapE:
  assumes "holds_gap le (xs, ys, ks)"
  obtains r where "l_buf le = concat xs @ concat ys @ r" "r \<noteq> []"
    "length (concat xs) + length (concat ys) + length r = NEXS_LINE_BUFSIZE"
    "l_len le = length (concat xs) + length (concat ys)" "l_pos le = length (concat xs)" "l_kill le = concat ks"
    "\<forall>c \<in> set xs \<union> set ys \<union> set ks. utf8_char c"
  using assms by (auto simp: holds_gap_def)

lemma gap_room: "holds_gap le (xs, ys, ks) \<Longrightarrow> length (concat xs) + length (concat ys) < NEXS_LINE_BUFSIZE"
  by (erule holds_gapE) (metis add_diff_cancel_left' length_greater_0_conv zero_less_diff)

lemma read_ok_gap: "holds_gap le g \<Longrightarrow> read_ok le"
  by (auto simp: holds_gap_def read_ok_def split: prod.splits)

lemma concat_empty: "\<forall>c \<in> set xs. utf8_char c \<Longrightarrow> concat xs = [] \<longleftrightarrow> xs = []"
  using utf8_char_facts(1) by (cases xs) auto

lemma insert_chars_gap:
  assumes "holds_gap le (xs, ys, ks)" and "\<forall>c \<in> set s. utf8_char c"
  shows "\<exists>le'. insert_chars (concat s) le = Inr le' \<and> holds_gap le' (gap_insert s (xs, ys, ks))"
proof -
  obtain r where r: "l_buf le = concat xs @ concat ys @ r" "r \<noteq> []"
    "length (concat xs) + length (concat ys) + length r = NEXS_LINE_BUFSIZE"
    "l_len le = length (concat xs) + length (concat ys)" "l_pos le = length (concat xs)" "l_kill le = concat ks"
    "\<forall>c \<in> set xs \<union> set ys \<union> set ks. utf8_char c"
    using assms(1) by (rule holds_gapE)
  show ?thesis
  proof (cases "NEXS_LINE_BUFSIZE \<le> l_len le + length (concat s)")
    case True
    then show ?thesis using assms(1) r(4) by (simp add: insert_chars_def gap_insert_def Let_def)
  next
    case False
    then have n: "length (concat s) < length r" using r(3,4) by simp
    have "bind_res (move_bytes (l_pos le + length (concat s)) (l_pos le) (int (l_len le) - int (l_pos le)) (l_buf le))
        (put_bytes (l_pos le) (concat s)) = Inr (concat xs @ concat s @ concat ys @ drop (length (concat s)) r)"
      using insert_bytes [of "concat s" r "concat xs" "concat ys"] n by (simp only: r) simp
    then obtain b1 where b1: "move_bytes (l_pos le + length (concat s)) (l_pos le) (int (l_len le) - int (l_pos le)) (l_buf le) = Inr b1"
      "put_bytes (l_pos le) (concat s) b1 = Inr (concat xs @ concat s @ concat ys @ drop (length (concat s)) r)"
      unfolding bind_res_Inr by blast
    have "\<exists>le'. set_line (concat (xs @ s) @ concat ys @ drop (length (concat s)) r) (l_len le + length (concat s))
        (l_pos le + length (concat s)) le = Inr le' \<and> holds_gap le' (xs @ s, ys, ks)"
      by (rule set_line_gap [where r = "drop (length (concat s)) r"]) (use n r assms(2) in auto)
    then show ?thesis using False b1 r by (simp add: insert_chars_def gap_insert_def Let_def)
  qed
qed

lemma delete_char_before_gap:
  assumes "holds_gap le (xs, ys, ks)"
  shows "\<exists>le'. delete_char_before le = Inr le' \<and> holds_gap le' (butlast xs, ys, ks)"
proof -
  obtain r where r: "l_buf le = concat xs @ concat ys @ r" "r \<noteq> []"
    "length (concat xs) + length (concat ys) + length r = NEXS_LINE_BUFSIZE"
    "l_len le = length (concat xs) + length (concat ys)" "l_pos le = length (concat xs)" "l_kill le = concat ks"
    "\<forall>c \<in> set xs \<union> set ys \<union> set ks. utf8_char c"
    using assms(1) by (rule holds_gapE)
  show ?thesis
  proof (cases xs rule: rev_cases)
    case Nil
    then show ?thesis using assms r(5) by (simp add: delete_char_before_def)
  next
    case (snoc zs c)
    then have c: "utf8_char c" using r(7) by simp
    have prev: "utf8_prev (l_buf le) (l_pos le) = length (concat zs)"
      using utf8_prev_char [OF c, of "concat zs" "concat ys @ r"] r(1,5) snoc by simp
    have mv: "move_bytes (length (concat zs)) (l_pos le) (int (l_len le) - int (l_pos le)) (l_buf le) =
        Inr (concat zs @ concat ys @ drop (length (concat ys)) (c @ concat ys) @ r)"
      using move_down [of "concat zs" c "concat ys" r] by (simp add: r snoc)
    have "\<exists>le'. set_line (concat zs @ concat ys @ drop (length (concat ys)) (c @ concat ys) @ r)
        (l_len le - (l_pos le - length (concat zs))) (length (concat zs)) le = Inr le' \<and> holds_gap le' (zs, ys, ks)"
      by (rule set_line_gap [where r = "drop (length (concat ys)) (c @ concat ys) @ r"]) (use r snoc in auto)
    then show ?thesis
      using prev mv read_ok_gap [OF assms] utf8_char_facts(6) [OF c] snoc r(5)
      by (simp add: delete_char_before_def Let_def)
  qed
qed

lemma delete_char_at_gap:
  assumes "holds_gap le (xs, ys, ks)"
  shows "\<exists>le'. delete_char_at le = Inr le' \<and> holds_gap le' (xs, drop 1 ys, ks)"
proof -
  obtain r where r: "l_buf le = concat xs @ concat ys @ r" "r \<noteq> []"
    "length (concat xs) + length (concat ys) + length r = NEXS_LINE_BUFSIZE"
    "l_len le = length (concat xs) + length (concat ys)" "l_pos le = length (concat xs)" "l_kill le = concat ks"
    "\<forall>c \<in> set xs \<union> set ys \<union> set ks. utf8_char c"
    using assms(1) by (rule holds_gapE)
  show ?thesis
  proof (cases ys)
    case Nil
    then show ?thesis using assms r(4,5) by (simp add: delete_char_at_def)
  next
    case (Cons c zs)
    then have c: "utf8_char c" using r(7) by simp
    note c0 = utf8_char_facts(6) [OF c]
    have nx: "utf8_next (l_buf le) (l_len le) (l_pos le) = length (concat xs) + length c"
      using utf8_next_char [OF c, of "concat xs" "l_len le" "concat zs @ r"] r(1,4,5) Cons c0 by simp
    have mv: "move_bytes (l_pos le) (length (concat xs) + length c) (int (l_len le) - int (length (concat xs) + length c)) (l_buf le) =
        Inr (concat xs @ concat zs @ drop (length (concat zs)) (c @ concat zs) @ r)"
      using move_down [of "concat xs" c "concat zs" r] by (simp add: r Cons)
    have "\<exists>le'. set_line (concat xs @ concat zs @ drop (length (concat zs)) (c @ concat zs) @ r)
        (l_len le - (length (concat xs) + length c - l_pos le)) (l_pos le) le = Inr le' \<and> holds_gap le' (xs, zs, ks)"
      by (rule set_line_gap [where r = "drop (length (concat zs)) (c @ concat zs) @ r"]) (use r Cons in auto)
    then show ?thesis using nx mv r(4,5) Cons c0 by (simp add: delete_char_at_def Let_def)
  qed
qed

lemma c_str_concat: "\<forall>c \<in> set xs. utf8_char c \<Longrightarrow> c_str (concat xs) = concat xs"
  by (auto simp: c_str_def utf8_char_def takeWhile_eq_all_conv)

lemma kill_to_end_gap:
  assumes "holds_gap le (xs, ys, ks)"
  shows "\<exists>le'. kill_to_end le = Inr le' \<and> holds_gap le' (if ys = [] then (xs, ys, ks) else (xs, [], ys))"
proof -
  obtain r where r: "l_buf le = concat xs @ concat ys @ r" "r \<noteq> []"
    "length (concat xs) + length (concat ys) + length r = NEXS_LINE_BUFSIZE"
    "l_len le = length (concat xs) + length (concat ys)" "l_pos le = length (concat xs)" "l_kill le = concat ks"
    "\<forall>c \<in> set xs \<union> set ys \<union> set ks. utf8_char c"
    using assms(1) by (rule holds_gapE)
  have "concat ys = [] \<longleftrightarrow> ys = []" using r(7) by (intro concat_empty) simp
  moreover have "\<exists>le'. set_line (l_buf le) (l_pos le) (l_pos le) (le\<lparr>l_kill := concat ys\<rparr>) = Inr le' \<and> holds_gap le' (xs, [], ys)"
    by (rule set_line_gap [where r = "concat ys @ r"]) (use r in auto)
  moreover have "c_str (take (l_len le - l_pos le) (drop (l_pos le) (l_buf le))) = concat ys"
    using c_str_concat [of ys] r(7) by (simp add: r)
  ultimately show ?thesis using assms r(4,5) by (auto simp: kill_to_end_def)
qed

lemma kill_all_gap:
  assumes "holds_gap le (xs, ys, ks)"
  shows "\<exists>le'. kill_all le = Inr le' \<and> holds_gap le' ([], [], xs @ ys)"
proof -
  obtain r where r: "l_buf le = concat xs @ concat ys @ r" "r \<noteq> []"
    "length (concat xs) + length (concat ys) + length r = NEXS_LINE_BUFSIZE"
    "l_len le = length (concat xs) + length (concat ys)" "l_pos le = length (concat xs)" "l_kill le = concat ks"
    "\<forall>c \<in> set xs \<union> set ys \<union> set ks. utf8_char c"
    using assms(1) by (rule holds_gapE)
  have "\<exists>le'. set_line (l_buf le) 0 0 (le\<lparr>l_kill := concat (xs @ ys)\<rparr>) = Inr le' \<and> holds_gap le' ([], [], xs @ ys)"
    by (rule set_line_gap [where r = "l_buf le"]) (use r in auto)
  moreover have "c_str (take (l_len le) (l_buf le)) = concat (xs @ ys)"
    using c_str_concat [of "xs @ ys"] r(7) by (simp add: r)
  ultimately show ?thesis by (simp add: kill_all_def)
qed

lemma word_left_prefix: "\<exists>zs. xs = word_left xs @ zs"
proof -
  have "\<exists>zs. rev xs = zs @ dropWhile P (dropWhile Q (rev xs))" for P Q :: "string \<Rightarrow> bool"
    by (metis append.assoc takeWhile_dropWhile_id)
  then obtain zs where "rev xs = zs @ rev (word_left xs)" by (auto simp: word_left_def)
  then have "xs = word_left xs @ rev zs" by (metis rev_append rev_rev_ident)
  then show ?thesis by blast
qed

lemma word_right_suffix: "\<exists>zs. ys = zs @ word_right ys"
  unfolding word_right_def by (metis append.assoc takeWhile_dropWhile_id)

lemma back_word:
  assumes "\<forall>c \<in> set xs. utf8_char c"
  shows "back_while (\<lambda>c. c \<noteq> CHR '' '') (concat xs @ R) (back_while (\<lambda>c. c = CHR '' '') (concat xs @ R) (length (concat xs))) =
      length (concat (word_left xs))"
    and "word_back (\<lambda>c. c \<noteq> CHR '' '') (concat xs @ R) (word_back (\<lambda>c. c = CHR '' '') (concat xs @ R) (length (concat xs))) =
      length (concat (word_left xs))"
proof -
  define zs where "zs = rev (dropWhile (\<lambda>s. s = '' '') (rev xs))"
  obtain ws where ws: "xs = zs @ ws"
    unfolding zs_def by (metis rev_append rev_rev_ident takeWhile_dropWhile_id)
  have z: "\<forall>c \<in> set zs. utf8_char c" using assms ws by simp
  have w: "word_left xs = rev (dropWhile (\<lambda>s. s \<noteq> '' '') (rev zs))" by (simp add: word_left_def zs_def)
  have R: "concat xs @ R = concat zs @ (concat ws @ R)" using ws by simp
  show "back_while (\<lambda>c. c \<noteq> CHR '' '') (concat xs @ R) (back_while (\<lambda>c. c = CHR '' '') (concat xs @ R) (length (concat xs))) =
      length (concat (word_left xs))"
    using back_while_chars [OF char_pred_space(1) assms, of R, folded zs_def]
      back_while_chars [OF char_pred_space(2) z, of "concat ws @ R", folded w] by (simp only: R)
  show "word_back (\<lambda>c. c \<noteq> CHR '' '') (concat xs @ R) (word_back (\<lambda>c. c = CHR '' '') (concat xs @ R) (length (concat xs))) =
      length (concat (word_left xs))"
    using word_back_chars [OF char_pred_space(1) assms, of R, folded zs_def]
      word_back_chars [OF char_pred_space(2) z, of "concat ws @ R", folded w] by (simp only: R)
qed

lemma kill_word_back_gap:
  assumes "holds_gap le (xs, ys, ks)"
  shows "\<exists>le'. kill_word_back le = Inr le' \<and> holds_gap le' (gap_kill_word (xs, ys, ks))"
proof -
  obtain r where r: "l_buf le = concat xs @ concat ys @ r" "r \<noteq> []"
    "length (concat xs) + length (concat ys) + length r = NEXS_LINE_BUFSIZE"
    "l_len le = length (concat xs) + length (concat ys)" "l_pos le = length (concat xs)" "l_kill le = concat ks"
    "\<forall>c \<in> set xs \<union> set ys \<union> set ks. utf8_char c"
    using assms(1) by (rule holds_gapE)
  obtain zs where zs: "xs = word_left xs @ zs" using word_left_prefix by blast
  define ws where "ws = word_left xs"
  have xs: "xs = ws @ zs" using zs by (simp add: ws_def)
  have p: "back_while (\<lambda>c. c \<noteq> CHR '' '') (l_buf le) (back_while (\<lambda>c. c = CHR '' '') (l_buf le) (l_pos le)) = length (concat ws)"
    using back_word(1) [of xs "concat ys @ r"] r by (simp add: ws_def)
  have zc: "\<forall>c \<in> set zs. utf8_char c" using r(7) xs by simp
  then have e: "length (concat ws) = l_pos le \<longleftrightarrow> zs = []" using r(5) concat_empty [OF zc] by (simp add: xs)
  show ?thesis
  proof (cases "zs = []")
    case True
    then have "word_left xs = xs" using zs by simp
    then show ?thesis
      using True assms p e read_ok_gap [OF assms] by (simp add: kill_word_back_def gap_kill_word_def Let_def)
  next
    case False
    have mv: "move_bytes (length (concat ws)) (l_pos le) (int (l_len le) - int (l_pos le)) (l_buf le) =
        Inr (concat ws @ concat ys @ drop (length (concat ys)) (concat zs @ concat ys) @ r)"
      using move_down [of "concat ws" "concat zs" "concat ys" r] by (simp add: r xs)
    have k: "c_str (take (l_pos le - length (concat ws)) (drop (length (concat ws)) (l_buf le))) = concat zs"
      using c_str_concat [OF zc] by (simp add: r xs)
    have "\<exists>le'. set_line (concat ws @ concat ys @ drop (length (concat ys)) (concat zs @ concat ys) @ r)
        (l_len le - (l_pos le - length (concat ws))) (length (concat ws)) (le\<lparr>l_kill := concat zs\<rparr>) = Inr le' \<and>
        holds_gap le' (ws, ys, zs)"
      by (rule set_line_gap [where r = "drop (length (concat ys)) (concat zs @ concat ys) @ r"]) (use r xs in auto)
    moreover have "gap_kill_word (xs, ys, ks) = (ws, ys, zs)"
      unfolding gap_kill_word_def split_conv ws_def [symmetric] using False xs by simp
    moreover have "length (concat ws) \<noteq> l_pos le" using False e by simp
    ultimately show ?thesis
      unfolding kill_word_back_def Let_def p k mv bind_res_simps using read_ok_gap [OF assms] by (simp only: if_False simp_thms)
  qed
qed

lemma yank_gap:
  assumes "holds_gap le (xs, ys, ks)"
  shows "\<exists>le'. yank le = Inr le' \<and> holds_gap le' (gap_insert ks (xs, ys, ks))"
proof -
  have k: "l_kill le = concat ks" "\<forall>c \<in> set ks. utf8_char c" "length (concat xs) + length (concat ys) < NEXS_LINE_BUFSIZE"
    using assms gap_room [OF assms] by (auto simp: holds_gap_def)
  show ?thesis
  proof (cases "ks = []")
    case True
    then show ?thesis using assms k by (auto simp: yank_def gap_insert_def)
  next
    case False
    then show ?thesis using insert_chars_gap [OF assms k(2)] k concat_empty [OF k(2)] by (simp only: yank_def if_False)
  qed
qed

lemma transpose_chars_gap:
  assumes "holds_gap le (xs, ys, ks)"
  shows "\<exists>le'. transpose_chars le = Inr le' \<and> holds_gap le' (gap_swap (xs, ys, ks))"
proof -
  obtain r where r: "l_buf le = concat xs @ concat ys @ r" "r \<noteq> []"
    "length (concat xs) + length (concat ys) + length r = NEXS_LINE_BUFSIZE"
    "l_len le = length (concat xs) + length (concat ys)" "l_pos le = length (concat xs)" "l_kill le = concat ks"
    "\<forall>c \<in> set xs \<union> set ys \<union> set ks. utf8_char c"
    using assms(1) by (rule holds_gapE)
  show ?thesis
  proof (cases "l_pos le < 2")
    case True
    have "length xs < 2"
    proof (rule ccontr)
      assume "\<not> length xs < 2"
      then obtain a b zs where "xs = a # b # zs" by (cases xs; cases "tl xs") auto
      then show False using True r(5,7) utf8_char_facts(1) [of a] utf8_char_facts(1) [of b] by (cases a; cases b) auto
    qed
    then show ?thesis using True assms by (auto simp: transpose_chars_def gap_swap_def)
  next
    case False
    then have "xs \<noteq> []" using r(5) by auto
    then obtain zs c where c: "xs = zs @ [c]" by (metis rev_exhaust)
    have cc: "utf8_char c" using r(7) c by simp
    have p1: "utf8_prev (l_buf le) (l_pos le) = length (concat zs)"
      using utf8_prev_char [OF cc, of "concat zs" "concat ys @ r"] r(1,5) c by simp
    show ?thesis
    proof (cases zs rule: rev_cases)
      case Nil
      have "holds_gap (le\<lparr>l_buf := concat xs @ concat ys @ r\<rparr>) (xs, ys, ks)"
        using assms unfolding r(1) [symmetric] by simp
      then show ?thesis
        using False read_ok_gap [OF assms] p1 Nil c r
        by (simp add: transpose_chars_def gap_swap_def Let_def utf8_prev_def move_bytes_def put_bytes_def)
    next
      case (snoc us d)
      have d: "utf8_char d" using r(7) c snoc by simp
      have p0: "utf8_prev (l_buf le) (length (concat zs)) = length (concat us)"
        using utf8_prev_char [OF d, of "concat us" "c @ concat ys @ r"] r(1) c snoc by simp
      have mv: "move_bytes (length (concat us)) (length (concat zs)) (int (l_pos le - length (concat zs))) (l_buf le) =
          Inr (concat us @ c @ drop (length c) (d @ c) @ concat ys @ r)"
        using move_down [of "concat us" d c "concat ys @ r"] by (simp add: r c snoc)
      have pt: "put_bytes (length (concat us) + (l_pos le - length (concat zs))) d
          (concat us @ c @ drop (length c) (d @ c) @ concat ys @ r) = Inr (concat us @ c @ d @ concat ys @ r)"
        by (simp add: put_bytes_def r c)
      have tmp: "take (length (concat zs) - length (concat us)) (drop (length (concat us)) (l_buf le)) = d"
        by (simp add: r c snoc)
      have small: "\<not> 8 < length (concat zs) - length (concat us)" using utf8_char_facts(5) [OF d] by (simp add: snoc)
      have "transpose_chars le = Inr (le\<lparr>l_buf := concat us @ c @ d @ concat ys @ r\<rparr>)"
        unfolding transpose_chars_def Let_def p1 p0 tmp mv bind_res_simps pt using False read_ok_gap [OF assms] small by simp
      moreover have "holds_gap (le\<lparr>l_buf := concat us @ c @ d @ concat ys @ r\<rparr>) (us @ [c, d], ys, ks)"
        using r c snoc by (auto simp: holds_gap_def)
      moreover have "gap_swap (xs, ys, ks) = (us @ [c, d], ys, ks)" by (simp add: gap_swap_def c snoc butlast_append)
      ultimately show ?thesis by simp
    qed
  qed
qed

lemma set_pos_gap:
  assumes "holds_gap le (xs, ys, ks)" and "xs @ ys = us @ vs"
  shows "holds_gap (le\<lparr>l_pos := length (concat us)\<rparr>) (us, vs, ks)"
proof -
  have "concat xs @ concat ys = concat us @ concat vs" "set xs \<union> set ys = set us \<union> set vs"
    using arg_cong [OF assms(2), of concat] arg_cong [OF assms(2), of set] by auto
  moreover then have "length (concat xs) + length (concat ys) = length (concat us) + length (concat vs)"
    by (metis length_append)
  ultimately show ?thesis using assms(1) by (auto simp: holds_gap_def) (metis append_assoc)
qed

lemma move_word_gap:
  assumes "holds_gap le (xs, ys, ks)"
  shows "\<exists>le'. move_word_back le = Inr le' \<and> holds_gap le' (gap_word_left (xs, ys, ks))"
    and "\<exists>le'. move_word_forward le = Inr le' \<and> holds_gap le' (gap_word_right (xs, ys, ks))"
proof -
  obtain r where r: "l_buf le = concat xs @ concat ys @ r" "r \<noteq> []"
    "length (concat xs) + length (concat ys) + length r = NEXS_LINE_BUFSIZE"
    "l_len le = length (concat xs) + length (concat ys)" "l_pos le = length (concat xs)" "l_kill le = concat ks"
    "\<forall>c \<in> set xs \<union> set ys \<union> set ks. utf8_char c"
    using assms(1) by (rule holds_gapE)
  have b: "word_back (\<lambda>c. c \<noteq> CHR '' '') (l_buf le) (word_back (\<lambda>c. c = CHR '' '') (l_buf le) (l_pos le)) = length (concat (word_left xs))"
    using back_word(2) [of xs "concat ys @ r"] r by simp
  have x: "xs @ ys = word_left xs @ drop (length (word_left xs)) xs @ ys"
    using word_left_prefix [of xs] by (metis append_assoc append_eq_conv_conj)
  show "\<exists>le'. move_word_back le = Inr le' \<and> holds_gap le' (gap_word_left (xs, ys, ks))"
    using set_pos_gap [OF assms x] read_ok_gap [OF assms] b by (simp add: move_word_back_def gap_word_left_def)
  define vs where "vs = dropWhile (\<lambda>s. s = '' '') ys"
  obtain us where us: "ys = us @ vs" unfolding vs_def by (metis takeWhile_dropWhile_id)
  define zs where "zs = word_right ys"
  have w: "zs = dropWhile (\<lambda>s. s \<noteq> '' '') vs" by (simp add: zs_def word_right_def vs_def)
  obtain ws where ws: "vs = ws @ zs" unfolding w by (metis takeWhile_dropWhile_id)
  have yc: "\<forall>c \<in> set ys. utf8_char c" "\<forall>c \<in> set vs. utf8_char c" using r(7) us by auto
  have f1: "word_forward (\<lambda>c. c = CHR '' '') (l_buf le) (l_len le) (l_pos le) = length (concat xs @ concat us)"
    using word_forward_chars [OF char_pred_space(1) yc(1), of "concat xs" r, folded vs_def] r us by simp
  have f2: "word_forward (\<lambda>c. c \<noteq> CHR '' '') (l_buf le) (l_len le) (length (concat xs @ concat us)) =
      length (concat (xs @ us @ ws))"
    using word_forward_chars [OF char_pred_space(2) yc(2), of "concat xs @ concat us" r, folded w] r us
      arg_cong [OF ws, of "\<lambda>v. length (concat v)"] by (simp add: add.assoc)
  have t: "take (length ys - length (zs)) ys = us @ ws"
  proof -
    have ya: "ys = (us @ ws) @ zs" using us ws by simp
    have "length ys = length (us @ ws) + length (zs)" by (subst (1) ya) (simp only: length_append)
    then have "take (length ys - length (zs)) ((us @ ws) @ zs) = us @ ws" by simp
    then show ?thesis by (simp only: ya [symmetric])
  qed
  have y: "xs @ ys = (xs @ us @ ws) @ zs" using us ws by simp
  show "\<exists>le'. move_word_forward le = Inr le' \<and> holds_gap le' (gap_word_right (xs, ys, ks))"
    using set_pos_gap [OF assms y] unfolding move_word_forward_def f1 f2 by (simp add: gap_word_right_def t zs_def [symmetric])
qed

lemma move_char_gap:
  assumes "holds_gap le (xs, ys, ks)"
  shows "\<exists>le' t'. move_left le t = Inr (None, le', t') \<and> holds_gap le' (gap_left (xs, ys, ks))"
    and "\<exists>le' t'. move_right le t = Inr (None, le', t') \<and> holds_gap le' (gap_right (xs, ys, ks))"
proof -
  obtain r where r: "l_buf le = concat xs @ concat ys @ r" "r \<noteq> []"
    "length (concat xs) + length (concat ys) + length r = NEXS_LINE_BUFSIZE"
    "l_len le = length (concat xs) + length (concat ys)" "l_pos le = length (concat xs)" "l_kill le = concat ks"
    "\<forall>c \<in> set xs \<union> set ys \<union> set ks. utf8_char c"
    using assms(1) by (rule holds_gapE)
  show "\<exists>le' t'. move_left le t = Inr (None, le', t') \<and> holds_gap le' (gap_left (xs, ys, ks))"
  proof (cases xs rule: rev_cases)
    case Nil
    then show ?thesis using assms r(5) by (simp add: move_left_def gap_left_def)
  next
    case (snoc zs c)
    then have c: "utf8_char c" using r(7) by simp
    have prev: "utf8_prev (l_buf le) (l_pos le) = length (concat zs)"
      using utf8_prev_char [OF c, of "concat zs" "concat ys @ r"] r(1,5) snoc by simp
    have "holds_gap (le\<lparr>l_pos := length (concat zs)\<rparr>) (zs, c # ys, ks)"
      by (rule set_pos_gap [OF assms]) (simp add: snoc)
    then show ?thesis
      using prev read_ok_gap [OF assms] utf8_char_facts(1) [OF c] snoc r(5)
      by (simp add: move_left_def gap_left_def Let_def)
  qed
  show "\<exists>le' t'. move_right le t = Inr (None, le', t') \<and> holds_gap le' (gap_right (xs, ys, ks))"
  proof (cases ys)
    case Nil
    then show ?thesis using assms r(4,5) by (simp add: move_right_def gap_right_def)
  next
    case (Cons c zs)
    then have c: "utf8_char c" using r(7) by simp
    note c0 = utf8_char_facts(6) [OF c]
    have nx: "utf8_next (l_buf le) (l_len le) (l_pos le) = length (concat (xs @ [c]))"
      using utf8_next_char [OF c, of "concat xs" "l_len le" "concat zs @ r"] r(1,4,5) Cons c0 by simp
    have "holds_gap (le\<lparr>l_pos := length (concat (xs @ [c]))\<rparr>) (xs @ [c], zs, ks)"
      by (rule set_pos_gap [OF assms]) (simp add: Cons)
    moreover have "\<not> length (l_buf le) < length (concat (xs @ [c]))" "\<not> l_len le \<le> l_pos le"
      using r Cons c0 by simp_all
    moreover have "gap_right (xs, ys, ks) = (xs @ [c], zs, ks)" by (simp add: gap_right_def Cons)
    ultimately show ?thesis unfolding move_right_def Let_def nx by (simp only: if_False) blast
  qed
qed

lemma with_render_gap:
  "\<exists>le'. r = Inr le' \<and> holds_gap le' g \<Longrightarrow> \<exists>le' t'. with_render r t = Inr (None, le', t') \<and> holds_gap le' g"
  by (auto simp: with_render_def)

lemma line_key_gap:
  assumes "holds_gap le g" and "edit_key k"
  shows "\<exists>le' t'. line_key outsz k le t = Inr (None, le', t') \<and> holds_gap le' (gap_key g k)"
proof -
  obtain xs ys ks where g: "g = (xs, ys, ks)" using prod_cases3 by blast
  note h = assms(1) [unfolded g]
  have home: "holds_gap (le\<lparr>l_pos := 0\<rparr>) ([], xs @ ys, ks)" using set_pos_gap [OF h, of "[]" "xs @ ys"] by simp
  have e: "l_len le = length (concat (xs @ ys))" using h by (auto simp: holds_gap_def)
  have fin: "holds_gap (le\<lparr>l_pos := l_len le\<rparr>) (xs @ ys, [], ks)"
    unfolding e by (rule set_pos_gap [OF h]) simp
  have wr: "\<exists>le' t'. with_render (Inr (le\<lparr>l_pos := 0\<rparr>)) t = Inr (None, le', t') \<and> holds_gap le' ([], xs @ ys, ks)"
    "\<exists>le' t'. with_render (Inr (le\<lparr>l_pos := l_len le\<rparr>)) t = Inr (None, le', t') \<and> holds_gap le' (xs @ ys, [], ks)"
    using home fin by (auto simp: with_render_def)
  have ins: "\<exists>le' t'. with_render (insert_chars s le) t = Inr (None, le', t') \<and> holds_gap le' (gap_insert [s] (xs, ys, ks))"
    if "utf8_char s" for s
    using with_render_gap [OF insert_chars_gap [OF h, of "[s]"]] that by simp
  note ops = kill_to_end_gap [OF h] kill_all_gap [OF h] kill_word_back_gap [OF h] yank_gap [OF h]
    transpose_chars_gap [OF h] move_word_gap [OF h] delete_char_before_gap [OF h] delete_char_at_gap [OF h]
  note ops' = ops [THEN with_render_gap, of t] wr move_char_gap [OF h, of t]
  show ?thesis
    using assms(2) h ins [of "c_str (k_utf8 k)"] unfolding g edit_key_def
    by (cases "k_code k") (simp_all add: line_key_def gap_key_def ops' [simplified])
qed

lemma ctrl_d_ignored: "k_code k = NXK_CTRL_D \<Longrightarrow> line_key outsz k le t = Inr (None, le, t)"
  by (simp add: line_key_def)

subsection \<open>Whole lines\<close>

text \<open>The keys that the bytes of an input stand for.\<close>

fun decodes :: "char option list \<Rightarrow> nxkey list \<Rightarrow> char option list \<Rightarrow> bool" where
  "decodes i [] i' \<longleftrightarrow> i = i'"
| "decodes i (k # ks) i' \<longleftrightarrow> (case nexs_key_read i of (k', i1) \<Rightarrow> k' = k \<and> decodes i1 ks i')"

definition gap_text :: "gap \<Rightarrow> string" where
  "gap_text = (\<lambda>(xs, ys, ks). concat (xs @ ys))"

lemma submit_gap:
  assumes "holds_gap le g" and "0 < outsz"
  shows "submit outsz le = Inr (Line (take (nat (outsz - 1)) (gap_text g)))"
proof -
  obtain xs ys ks where g: "g = (xs, ys, ks)" using prod_cases3 by blast
  obtain r where r: "l_buf le = concat xs @ concat ys @ r" "l_len le = length (concat xs) + length (concat ys)"
    using assms(1) by (auto simp: g holds_gap_def)
  show ?thesis
    using assms(2) by (auto simp: submit_def Let_def gap_text_def g r)
qed

lemma line_loop_gap:
  "holds_gap le g \<Longrightarrow> decodes (t_in t) (keys @ [e]) i' \<Longrightarrow> \<forall>k \<in> set keys. edit_key k \<Longrightarrow> k_code e = NXK_ENTER \<Longrightarrow>
    0 < outsz \<Longrightarrow> \<exists>le' t'. line_loop outsz le t =
      Inr (Line (take (nat (outsz - 1)) (gap_text (foldl gap_key g keys))), le', t') \<and> t_in t' = i'"
proof (induction keys arbitrary: le g t)
  case Nil
  then show ?case
    by (subst line_loop.simps) (auto simp: line_key_def submit_gap split: prod.splits)
next
  case (Cons k keys)
  obtain i1 where i1: "nexs_key_read (t_in t) = (k, i1)" "decodes i1 (keys @ [e]) i'"
    using Cons.prems(2) by (auto split: prod.splits)
  have k: "edit_key k" using Cons.prems(3) by simp
  then have ne: "k_code k \<noteq> NXK_EOF" by (simp add: edit_key_def)
  obtain le1 t1 where s: "line_key outsz k le (t\<lparr>t_in := i1\<rparr>) = Inr (None, le1, t1)" "holds_gap le1 (gap_key g k)"
    using line_key_gap [OF Cons.prems(1) k] by blast
  have "t_in t1 = i1" using line_key_input [OF s(1)] by simp
  then show ?case
    using Cons.IH [OF s(2), of t1] Cons.prems i1 s(1) ne by (subst line_loop.simps) simp
qed

text \<open>C3: Reading a line on a terminal is editing a gap buffer of characters. For every sequence of keys that edit
  (well-formed UTF-8 characters, movement, deletion, words, kill and yank, transposition, and keys without an
  effect; not Ctrl+C, Ctrl+D, the history keys or the end of the input) followed by a line end, the call ends with no
  access out of bounds, gives the text that the gap buffer holds after those keys, cut to the size of the output,
  and leaves the rest of the input. The kill buffer holds well-formed characters at the start.\<close>

theorem line_read_edits:
  assumes "t_tty t" and "t_raw t \<or> t_attr t" and "length (l_buf le) = NEXS_LINE_BUFSIZE"
    and "l_kill le = concat ks" and "\<forall>c \<in> set ks. utf8_char c"
    and "decodes (t_in t) (keys @ [e]) rest" and "\<forall>k \<in> set keys. edit_key k" and "k_code e = NXK_ENTER"
    and "0 < outsz"
  shows "\<exists>le' t'. nexs_line_read le prompt outsz t =
    Inr (Line (take (nat (outsz - 1)) (gap_text (foldl gap_key ([], [], ks) keys))), le', t') \<and> t_in t' = rest"
proof -
  define le1 where "le1 = le\<lparr>l_buf := (l_buf le)[0 := CHR 0x00], l_len := 0, l_pos := 0, l_nav := -1, l_prompt := prompt,
              l_prompt_len := (case prompt of Some p \<Rightarrow> visible_len p | None \<Rightarrow> 0), l_interrupted := False\<rparr>"
  have g: "holds_gap le1 ([], [], ks)"
    using assms(3-5) by (auto simp: holds_gap_def le1_def)
  obtain t1 where t1: "nexs_line_raw_on t = (0, t1)" "t_in t1 = t_in t"
    using assms(1,2) by (cases "t_raw t") (auto simp: nexs_line_raw_on_def)
  show ?thesis
    using line_loop_gap [OF g, of "nexs_line_render le1 t1" keys e rest outsz] assms(1,6-9) t1
    by (simp add: nexs_line_read_def le1_def [symmetric] Let_def)
qed

definition demo_term :: nxterm where
  "demo_term = \<lparr>t_in = List.map Some (''ab'' @ [ESC] @ ''[D'' @ [CHR 0xC3, CHR 0xA9, CHR 0x0D] @ ''x''), t_out = [],
     t_tty = True, t_attr = True, t_raw = False\<rparr>"

theorem line_read_edits_witness:
  "\<exists>le' t'. nexs_line_read nexs_line_init None 100 demo_term = Inr (Line (''a'' @ [CHR 0xC3, CHR 0xA9] @ ''b''), le', t') \<and>
     t_in t' = [Some CHR ''x'']"
proof -
  let ?ks = "[char_key CHR ''a'' [], char_key CHR ''b'' [], (key NXK_LEFT, []), char_key CHR 0xC3 [Some CHR 0xA9]]"
  let ?keys = "List.map fst ?ks"
  have "decodes (t_in demo_term) (?keys @ [key NXK_ENTER]) [Some CHR ''x'']" by code_simp
  moreover have "\<forall>k \<in> set ?keys. edit_key k" by code_simp
  moreover have "gap_text (foldl gap_key ([], [], []) ?keys) = ''a'' @ [CHR 0xC3, CHR 0xA9] @ ''b''" by code_simp
  ultimately show ?thesis
    using line_read_edits [of demo_term nexs_line_init "[]" ?keys "key NXK_ENTER" "[Some CHR ''x'']" 100 None]
    by (simp add: demo_term_def nexs_line_init_def)
qed

end
