(* ===== verification/Line_Keys.thy ===== *)
theory Line_Keys
  imports Line_Facts
begin

section \<open>Keys and history of the line editor\<close>

text \<open>The bytes of a character and the key they are read as; what incomplete characters do; the ring of
  previous lines.\<close>

subsection \<open>Characters from the keyboard\<close>

definition utf8_encode :: "nat \<Rightarrow> string" where
  "utf8_encode n =
     List.map char_of
       (if n < 0x80 then [n]
        else if n < 0x800 then [0xC0 + n div 64, 0x80 + n mod 64]
        else if n < 0x10000 then [0xE0 + n div 4096, 0x80 + n div 64 mod 64, 0x80 + n mod 64]
        else [0xF0 + n div 262144, 0x80 + n div 4096 mod 64, 0x80 + n div 64 mod 64, 0x80 + n mod 64])"

lemma bytes_1: "\<forall>n \<in> set [1..0x7F::int]. utf8_seq_len (char_of n) = 1 \<and> \<not> is_cont (char_of n) \<and> ubyte (char_of n) = of_int n \<and> char_of n \<noteq> CHR 0x00"
  by code_simp

lemma bytes_cont: "\<forall>n \<in> set [0..63::int]. is_cont (char_of (0x80 + n)) \<and> and (ubyte (char_of (0x80 + n))) 0x3F = of_int n \<and> char_of (0x80 + n) \<noteq> CHR 0x00"
  by code_simp

lemma bytes_2: "\<forall>n \<in> set [0..31::int]. utf8_seq_len (char_of (0xC0 + n)) = 2 \<and> \<not> is_cont (char_of (0xC0 + n)) \<and>
    and (ubyte (char_of (0xC0 + n))) 0x1F = of_int n \<and> char_of (0xC0 + n) \<noteq> CHR 0x00"
  by code_simp

lemma bytes_3: "\<forall>n \<in> set [0..15::int]. utf8_seq_len (char_of (0xE0 + n)) = 3 \<and> \<not> is_cont (char_of (0xE0 + n)) \<and>
    and (ubyte (char_of (0xE0 + n))) 0x0F = of_int n \<and> char_of (0xE0 + n) \<noteq> CHR 0x00"
  by code_simp

lemma bytes_4: "\<forall>n \<in> set [0..7::int]. utf8_seq_len (char_of (0xF0 + n)) = 4 \<and> \<not> is_cont (char_of (0xF0 + n)) \<and>
    and (ubyte (char_of (0xF0 + n))) 0x07 = of_int n \<and> char_of (0xF0 + n) \<noteq> CHR 0x00"
  by code_simp

lemma or_push: "b < 2 ^ k \<Longrightarrow> or (push_bit k (of_nat a :: u32)) (of_nat b) = of_nat (2 ^ k * a + b)"
proof -
  assume b: "b < 2 ^ k"
  have "\<not> bit (push_bit k a) n \<or> \<not> bit b n" for n
  proof (cases "n < k")
    case False
    then have "b < 2 ^ n" using b by (metis leI order_less_le_trans power_increasing_iff one_less_numeral_iff semiring_norm(76))
    then show ?thesis by (simp add: bit_iff_odd)
  qed (simp add: bit_push_bit_iff_nat)
  then have "or (push_bit k a) b = push_bit k a + b" by (simp add: disjunctive_add)
  then have "(of_nat (or (push_bit k a) b) :: u32) = of_nat (2 ^ k * a + b)" by (simp add: push_bit_nat_def mult.commute)
  then show ?thesis by (simp add: of_nat_or_eq push_bit_of_nat)
qed

lemma char_of_int_nat: "char_of (k + int a) = (char_of (nat k + a) :: char)" if "0 \<le> k"
  using char_of_nat [of "nat k + a", where 'a = int] that by simp

lemma cont_byte: "a < 64 \<Longrightarrow> is_cont (char_of (0x80 + a)) \<and> and (ubyte (char_of (0x80 + a))) 0x3F = of_nat a \<and>
    CHR 0x00 \<noteq> char_of (0x80 + a)"
  using bytes_cont [rule_format, of "int a"] by (auto simp: char_of_int_nat)

lemma lead_byte:
  "1 \<le> a \<Longrightarrow> a < 0x80 \<Longrightarrow> utf8_seq_len (char_of a) = 1 \<and> \<not> is_cont (char_of a) \<and> ubyte (char_of a) = of_nat a \<and> CHR 0x00 \<noteq> char_of a"
  "a < 32 \<Longrightarrow> utf8_seq_len (char_of (0xC0 + a)) = 2 \<and> \<not> is_cont (char_of (0xC0 + a)) \<and>
    and (ubyte (char_of (0xC0 + a))) 0x1F = of_nat a \<and> CHR 0x00 \<noteq> char_of (0xC0 + a)"
  "a < 16 \<Longrightarrow> utf8_seq_len (char_of (0xE0 + a)) = 3 \<and> \<not> is_cont (char_of (0xE0 + a)) \<and>
    and (ubyte (char_of (0xE0 + a))) 0x0F = of_nat a \<and> CHR 0x00 \<noteq> char_of (0xE0 + a)"
  "a < 8 \<Longrightarrow> utf8_seq_len (char_of (0xF0 + a)) = 4 \<and> \<not> is_cont (char_of (0xF0 + a)) \<and>
    and (ubyte (char_of (0xF0 + a))) 0x07 = of_nat a \<and> CHR 0x00 \<noteq> char_of (0xF0 + a)"
  using bytes_1 [rule_format, of "int a"] bytes_2 [rule_format, of "int a"] bytes_3 [rule_format, of "int a"]
    bytes_4 [rule_format, of "int a"] by (auto simp: char_of_int_nat char_of_int_nat [of 0, simplified])

lemma base64:
  fixes n :: nat
  shows "2 ^ 6 * (n div 64) + n mod 64 = n" "2 ^ 6 * (n div 4096) + n div 64 mod 64 = n div 64"
    "2 ^ 6 * (n div 262144) + n div 4096 mod 64 = n div 4096"
  using div_mult2_eq [of n 64 64] div_mult2_eq [of n 4096 64] by simp_all

lemma or_base64:
  "or (push_bit 6 (of_nat (n div 64) :: u32)) (of_nat (n mod 64)) = of_nat n"
  "or (or (push_bit 12 (of_nat (n div 4096) :: u32)) (push_bit 6 (of_nat (n div 64 mod 64)))) (of_nat (n mod 64)) = of_nat n"
  "or (or (or (push_bit 18 (of_nat (n div 262144) :: u32)) (push_bit 12 (of_nat (n div 4096 mod 64))))
     (push_bit 6 (of_nat (n div 64 mod 64)))) (of_nat (n mod 64)) = of_nat n"
proof -
  have p: "push_bit 12 x = push_bit 6 (push_bit 6 x)" "push_bit 18 x = push_bit 6 (push_bit 6 (push_bit 6 x))" for x :: u32
    by simp_all
  note o = or_push [of "n mod 64" 6 "n div 64", unfolded base64] or_push [of "n div 64 mod 64" 6 "n div 4096", unfolded base64]
    or_push [of "n div 4096 mod 64" 6 "n div 262144", unfolded base64]
  show "or (push_bit 6 (of_nat (n div 64) :: u32)) (of_nat (n mod 64)) = of_nat n" using o by simp
  show "or (or (push_bit 12 (of_nat (n div 4096) :: u32)) (push_bit 6 (of_nat (n div 64 mod 64)))) (of_nat (n mod 64)) = of_nat n"
    using o(1,2) by (simp add: p flip: push_bit_or del: push_bit_push_bit)
  show "or (or (or (push_bit 18 (of_nat (n div 262144) :: u32)) (push_bit 12 (of_nat (n div 4096 mod 64))))
     (push_bit 6 (of_nat (n div 64 mod 64)))) (of_nat (n mod 64)) = of_nat n"
    using o by (simp add: p flip: push_bit_or del: push_bit_push_bit)
qed

text \<open>The bytes of a character, its length and its code point.\<close>

lemma utf8_encode_char:
  assumes "0 < n" and "n < 0x200000"
  shows "utf8_char (utf8_encode n) \<and>
    fst (utf8_decode (utf8_encode n @ R) (length (utf8_encode n)) 0) = of_nat n"
proof -
  consider "n < 0x80" | "0x80 \<le> n" "n < 0x800" | "0x800 \<le> n" "n < 0x10000" | "0x10000 \<le> n" by linarith
  then show ?thesis
  proof cases
    case 1
    then show ?thesis using lead_byte(1) [of n] assms by (auto simp: utf8_encode_def utf8_char_def utf8_decode_def)
  next
    case 2
    have "n div 64 < 32" using 2 by simp
    then show ?thesis
      using lead_byte(2) [of "n div 64"] cont_byte [of "n mod 64"] or_base64(1) [of n] 2
      by (simp add: utf8_encode_def utf8_char_def utf8_decode_def del: push_bit_and)
  next
    case 3
    have "n div 4096 < 16" using 3 by simp
    moreover have "push_bit 12 (of_nat (n div 4096) :: u32) = push_bit 6 (push_bit 6 (of_nat (n div 4096)))" by simp
    ultimately show ?thesis
      using lead_byte(3) [of "n div 4096"] cont_byte [of "n mod 64"] cont_byte [of "n div 64 mod 64"] or_base64(2) [of n] 3
      by (simp add: utf8_encode_def utf8_char_def utf8_decode_def del: push_bit_and)
  next
    case 4
    have "n div 262144 < 8" using assms(2) by simp
    then show ?thesis
      using lead_byte(4) [of "n div 262144"] cont_byte [of "n mod 64"] cont_byte [of "n div 64 mod 64"] cont_byte [of "n div 4096 mod 64"] or_base64(3) [of n] 4
      by (simp add: utf8_encode_def utf8_char_def utf8_decode_def del: push_bit_and)
  qed
qed

lemma read_rest_all: "length s = n \<Longrightarrow> read_rest n (List.map Some s @ i) = (s, i)"
  by (induction n arbitrary: s) (auto simp: length_Suc_conv)

lemma char_key_utf8:
  assumes "utf8_char (h # s)"
  shows "char_key h (List.map Some s @ i) =
    (\<lparr>k_code = NXK_CHAR, k_codepoint = fst (utf8_decode ((h # s) @ replicate (4 - length s) CHR 0x00) (length (h # s)) 0),
      k_utf8 = (h # s) @ replicate (4 - length s) CHR 0x00\<rparr>, i)"
proof -
  have q: "utf8_seq_len h = Suc (length s)" "length s \<le> 3" using utf8_char_facts(2,5) [OF assms] by auto
  have "(take 5 (h # s @ replicate 4 CHR 0x00))[utf8_seq_len h := CHR 0x00] = (h # s) @ replicate (4 - length s) CHR 0x00"
    using q(2) unfolding q(1)
    by (intro nth_equalityI) (auto simp: nth_Cons' nth_append nth_list_update min_def)
  then show ?thesis
    using q by (simp add: char_key_def Let_def read_rest_all)
qed

lemma map_of_control: "map_of control_keys m = None" if "32 \<le> m" "m \<noteq> 127" for m
  using that by (simp add: control_keys_def)

lemma utf8_encode_first:
  "0x20 \<le> n \<Longrightarrow> n \<noteq> 0x7F \<Longrightarrow> n < 0x200000 \<Longrightarrow>
    32 \<le> (of_char (hd (utf8_encode n)) :: nat) \<and> (of_char (hd (utf8_encode n)) :: nat) \<noteq> 127"
  by (auto simp: utf8_encode_def)

lemma key_read_char:
  assumes "0x20 \<le> n" and "n \<noteq> 0x7F" and "n < 0x200000"
  shows "\<exists>k. nexs_key_read (List.map Some (utf8_encode n) @ i) = (k, i) \<and> k_code k = NXK_CHAR \<and>
    k_codepoint k = of_nat n \<and> c_str (k_utf8 k) = utf8_encode n \<and> utf8_char (utf8_encode n)"
proof -
  note u = utf8_encode_char [of n "replicate m CHR 0x00" for m]
  have c: "utf8_char (utf8_encode n)" using utf8_encode_char [of n] assms by simp
  then obtain h s where e: "utf8_encode n = h # s" using utf8_char_facts(1) by (cases "utf8_encode n") auto
  have h: "32 \<le> (of_char h :: nat)" "(of_char h :: nat) \<noteq> 127" using utf8_encode_first [OF assms] e by auto
  then have "h \<noteq> ESC" by auto
  then have "nexs_key_read (List.map Some (utf8_encode n) @ i) = char_key h (List.map Some s @ i)"
    using map_of_control [OF h] by (simp add: nexs_key_read_def e)
  moreover have "c_str ((h # s) @ replicate (4 - length s) CHR 0x00) = h # s"
    using c unfolding e by (auto simp: c_str_def utf8_char_def takeWhile_append takeWhile_eq_all_conv)
  ultimately show ?thesis
    using char_key_utf8 [of h s i] utf8_encode_char [of n "replicate (4 - length s) CHR 0x00"] c assms
    by (simp add: e)
qed

text \<open>C35: The key reader decodes UTF-8: the bytes of the printable character \<open>n\<close>, of any length, are read as one
  character key with code point \<open>n\<close> and exactly those bytes, and the rest of the input is left.\<close>

theorem key_read_utf8:
  assumes "0x20 \<le> n" and "n \<noteq> 0x7F" and "n < 0x200000"
  shows "\<exists>k. nexs_key_read (List.map Some (utf8_encode n) @ i) = (k, i) \<and> k_code k = NXK_CHAR \<and>
    k_codepoint k = of_nat n \<and> c_str (k_utf8 k) = utf8_encode n \<and> utf8_char (utf8_encode n)"
  by (rule key_read_char [OF assms])

theorem key_read_utf8_witness:
  "\<exists>k. nexs_key_read (List.map Some (utf8_encode 0x20AC) @ [Some CHR ''x'']) = (k, [Some CHR ''x'']) \<and> k_codepoint k = 0x20AC"
  using key_read_utf8 [of "0x20AC" "[Some CHR ''x'']"] by auto

subsection \<open>Incomplete characters\<close>

text \<open>
  A byte that announces more bytes than the line has behind it: deleting it moves a negative number of
  bytes, and moving over it leaves the cursor behind the end of the line.
\<close>

lemma delete_incomplete:
  assumes "l_pos le < l_len le" and "l_len le < l_pos le + utf8_seq_len (l_buf le ! l_pos le)"
  shows "delete_char_at le = Inl OutOfBounds"
  using assms by (simp add: delete_char_at_def utf8_next_def Let_def move_bytes_def)

lemma transpose_long:
  assumes "8 < utf8_prev (l_buf le) (l_pos le) - utf8_prev (l_buf le) (utf8_prev (l_buf le) (l_pos le))" and "2 \<le> l_pos le"
  shows "transpose_chars le = Inl OutOfBounds"
  using assms by (auto simp: transpose_chars_def Let_def)

text \<open>At the end of the input, with text in the line and the cursor behind it, the loop does not end.\<close>

lemma eof_hangs: "t_in t = [] \<Longrightarrow> 0 < l_len le \<Longrightarrow> l_pos le = l_len le \<Longrightarrow> line_loop outsz le t = Inl Hang"
  by (subst line_loop.simps) (simp add: nexs_key_read_def)

subsection \<open>History\<close>

text \<open>The lines in the ring, the newest first.\<close>

definition hist_lines :: "nxline \<Rightarrow> string list" where
  "hist_lines le = List.map (\<lambda>j. l_hist le ! ((l_head le + 2 * NEXS_LINE_HISTORY - 1 - j) mod NEXS_LINE_HISTORY)) [0..<l_count le]"

definition hist_ok :: "nxline \<Rightarrow> bool" where
  "hist_ok le \<longleftrightarrow> length (l_hist le) = NEXS_LINE_HISTORY \<and> l_head le < NEXS_LINE_HISTORY \<and> l_count le \<le> NEXS_LINE_HISTORY \<and>
     (\<forall>s \<in> set (l_hist le). length s < NEXS_LINE_BUFSIZE \<and> CHR 0x00 \<notin> set s)"

lemma hist_slot:
  assumes "hist_ok le" and "j < l_count le"
  shows "hist_lines le ! j = l_hist le ! ((l_head le + 511 - j) mod NEXS_LINE_HISTORY)"
    and "length (hist_lines le ! j) < NEXS_LINE_BUFSIZE" and "CHR 0x00 \<notin> set (hist_lines le ! j)"
proof -
  show e: "hist_lines le ! j = l_hist le ! ((l_head le + 511 - j) mod NEXS_LINE_HISTORY)"
    using assms by (simp add: hist_lines_def add.commute)
  have "l_hist le ! ((l_head le + 511 - j) mod NEXS_LINE_HISTORY) \<in> set (l_hist le)"
    using assms by (intro nth_mem) (simp add: hist_ok_def)
  then show "length (hist_lines le ! j) < NEXS_LINE_BUFSIZE" "CHR 0x00 \<notin> set (hist_lines le ! j)"
    using assms(1) by (auto simp: e hist_ok_def)
qed

lemma slot_next: "j < 511 \<Longrightarrow> ((h + 1) mod 256 + 511 - Suc j) mod 256 = (h + 511 - j) mod (256 :: nat)"
proof -
  assume j: "j < 511"
  then have "(h + 1) mod 256 + 511 - Suc j = (h + 1) mod 256 + (510 - j)" "h + 511 - j = h + 1 + (510 - j)" by simp_all
  then show ?thesis by (simp only: mod_add_left_eq)
qed

lemma slot_other: "j < 255 \<Longrightarrow> h < 256 \<Longrightarrow> (h + 511 - j) mod 256 \<noteq> (h :: nat)"
proof -
  assume j: "j < 255" "h < 256"
  then have "h + 511 - j = (h + (255 - j)) + 256" by simp
  then have "(h + 511 - j) mod 256 = (h + (255 - j)) mod 256" by (simp only: mod_add_self2)
  also have "\<dots> = (if h + (255 - j) < 256 then h + (255 - j) else h + (255 - j) - 256)"
    using j by (simp add: mod_if)
  finally show ?thesis using j by (simp split: if_splits)
qed

lemma slot_first: "(h + 511) mod 256 = (h + 255) mod (256 :: nat)"
  using mod_add_self2 [of "h + 255" "256 :: nat"] by (simp add: add.assoc)

lemma hist_add:
  assumes ok: "hist_ok le" and line: "line \<noteq> []" "length line < NEXS_LINE_BUFSIZE" "CHR 0x00 \<notin> set line"
  shows "hist_ok (nexs_line_add_history line le) \<and>
    hist_lines (nexs_line_add_history line le) =
      (if hist_lines le \<noteq> [] \<and> hd (hist_lines le) = line then hist_lines le
       else take NEXS_LINE_HISTORY (line # hist_lines le))"
proof -
  have o: "length (l_hist le) = 256" "l_head le < 256" "l_count le \<le> 256" using ok by (simp_all add: hist_ok_def)
  have len: "length (hist_lines le) = l_count le" by (simp add: hist_lines_def)
  have hd: "hd (hist_lines le) = l_hist le ! ((l_head le + 255) mod 256)" if "0 < l_count le"
  proof -
    have "hd (hist_lines le) = hist_lines le ! 0" using that len by (intro hd_conv_nth) auto
    then show ?thesis using hist_slot(1) [OF ok that] slot_first by simp
  qed
  show ?thesis
  proof (cases "hist_lines le \<noteq> [] \<and> hd (hist_lines le) = line")
    case True
    then have c: "0 < l_count le" using len by (metis length_greater_0_conv)
    then have "nexs_line_add_history line le = le" using True hd [OF c] line(1) by (simp add: nexs_line_add_history_def add.commute)
    then show ?thesis using True ok by simp
  next
    case False
    define le' where "le' = le\<lparr>l_hist := (l_hist le)[l_head le := line], l_head := (l_head le + 1) mod 256,
        l_count := (if l_count le < 256 then l_count le + 1 else l_count le)\<rparr>"
    have "l_head le + 256 - 1 = l_head le + 255" by simp
    then have nl: "\<not> (0 < l_count le \<and> l_hist le ! ((l_head le + 256 - 1) mod 256) = line)"
      using False hd len by (metis length_greater_0_conv)
    have e: "nexs_line_add_history line le = le'"
      unfolding nexs_line_add_history_def if_not_P [OF line(1)] if_not_P [OF nl] le'_def using line(2) by simp
    have ok': "hist_ok le'"
      using ok line by (auto simp: hist_ok_def le'_def dest!: set_update_subset_insert [THEN subsetD])
    have len': "length (hist_lines le') = l_count le'" by (simp add: hist_lines_def)
    have "hist_lines le' = take 256 (line # hist_lines le)"
    proof (rule nth_equalityI)
      show "length (hist_lines le') = length (take 256 (line # hist_lines le))"
        using len len' o(3) by (auto simp: le'_def)
    next
      fix j assume j: "j < length (hist_lines le')"
      then have j': "j < l_count le'" "j < 256" using len' ok' by (auto simp: hist_ok_def)
      note s = hist_slot(1) [OF ok' j'(1)]
      show "hist_lines le' ! j = take 256 (line # hist_lines le) ! j"
      proof (cases j)
        case 0
        have "((l_head le + 1) mod 256 + 511) mod 256 = (l_head le + 1 + 511) mod 256" by (simp only: mod_add_left_eq)
        also have "\<dots> = (l_head le + 512) mod 256" by (simp add: add.commute)
        also have "\<dots> = l_head le" using o(2) mod_mult_self2 [of "l_head le" 256 2] by simp
        finally have "((l_head le + 1) mod 256 + 511) mod 256 = l_head le" .
        then show ?thesis using s 0 o by (simp add: le'_def)
      next
        case (Suc i)
        then have i: "i < 255" "i < l_count le" using j' by (auto simp: le'_def split: if_splits)
        have "hist_lines le' ! j = (l_hist le)[l_head le := line] ! ((l_head le + 511 - i) mod 256)"
          using s slot_next [of i "l_head le"] i by (simp add: le'_def Suc)
        also have "\<dots> = hist_lines le ! i"
          using slot_other [OF i(1) o(2)] hist_slot(1) [OF ok i(2)] by simp
        finally show ?thesis using j'(2) by (simp add: Suc)
      qed
    qed
    then show ?thesis unfolding e if_not_P [OF False] using ok' by blast
  qed
qed

text \<open>The line in the buffer, when a NUL ends it.\<close>

definition line_text :: "nxline \<Rightarrow> string" where
  "line_text le = take (l_len le) (l_buf le)"

definition line_ended :: "nxline \<Rightarrow> bool" where
  "line_ended le \<longleftrightarrow> l_len le < length (l_buf le) \<and> length (l_buf le) = NEXS_LINE_BUFSIZE \<and>
     l_buf le ! l_len le = CHR 0x00 \<and> CHR 0x00 \<notin> set (line_text le)"

lemma load_line_text:
  "length s < NEXS_LINE_BUFSIZE \<Longrightarrow> CHR 0x00 \<notin> set s \<Longrightarrow>
    line_text (load_line s le) = s \<and> line_ended (load_line s le) \<and> l_pos (load_line s le) = length s"
  by (auto simp: load_line_def line_text_def line_ended_def nth_append)

lemma save_line_text:
  assumes "line_ended le"
  shows "c_str (trunc NEXS_LINE_BUFSIZE (l_buf le)) = line_text le"
proof -
  have b: "l_buf le = line_text le @ CHR 0x00 # drop (Suc (l_len le)) (l_buf le)"
    using assms unfolding line_text_def line_ended_def by (metis id_take_nth_drop)
  have n: "length (line_text le) < 4096" "CHR 0x00 \<notin> set (line_text le)"
    using assms by (auto simp: line_ended_def line_text_def)
  have t: "trunc 4096 (line_text le @ CHR 0x00 # r) = line_text le @ take (4095 - length (line_text le)) (CHR 0x00 # r)" for r
    using n(1) by (simp add: trunc_def)
  have "c_str (line_text le @ take m (CHR 0x00 # r)) = line_text le" for m r
    using n(2) by (cases m) (auto simp: c_str_def takeWhile_append takeWhile_eq_all_conv)
  then show ?thesis by (subst b) (simp only: t)
qed

text \<open>\<open>n\<close> steps to older or newer lines.\<close>

fun hist_steps :: "int \<Rightarrow> nat \<Rightarrow> nxline \<times> nxterm \<Rightarrow> nxline \<times> nxterm" where
  "hist_steps d 0 s = s"
| "hist_steps d (Suc n) s = (case hist_steps d n s of (le, t) \<Rightarrow> history_nav d le t)"

definition hist_at :: "nxline \<Rightarrow> nat \<Rightarrow> nxline \<Rightarrow> bool" where
  "hist_at le0 n le \<longleftrightarrow> l_nav le = int n - 1 \<and> l_hist le = l_hist le0 \<and> l_head le = l_head le0 \<and> l_count le = l_count le0 \<and>
     line_ended le \<and> line_text le = (if n = 0 then line_text le0 else hist_lines le0 ! (n - 1)) \<and>
     (0 < n \<longrightarrow> l_saved le = line_text le0 \<and> l_pos le = length (line_text le))"

lemma load_line_frame [simp]:
  "l_hist (load_line s le) = l_hist le" "l_head (load_line s le) = l_head le" "l_count (load_line s le) = l_count le"
  "l_nav (load_line s le) = l_nav le" "l_saved (load_line s le) = l_saved le"
  by (simp_all add: load_line_def Let_def)

lemma line_text_nav [simp]: "line_text (le\<lparr>l_nav := n\<rparr>) = line_text le" "line_ended (le\<lparr>l_nav := n\<rparr>) = line_ended le"
  by (simp_all add: line_text_def line_ended_def)

lemma hist_up:
  assumes ok: "hist_ok le0" and h: "hist_at le0 n le" and n: "n < l_count le0"
  shows "hist_at le0 (Suc n) (fst (history_nav 1 le t))"
proof -
  have e: "l_nav le = int n - 1" "l_hist le = l_hist le0" "l_head le = l_head le0" "l_count le = l_count le0"
    using h by (simp_all add: hist_at_def)
  define le1 where "le1 = (save_line le)\<lparr>l_nav := int n\<rparr>"
  have f: "l_hist le1 = l_hist le0" "l_head le1 = l_head le0" "l_count le1 = l_count le0" "l_nav le1 = int n"
    using e by (simp_all add: le1_def save_line_def)
  have sv: "l_saved le1 = line_text le0"
    using h save_line_text [of le] by (cases "n = 0") (auto simp: hist_at_def le1_def save_line_def)
  have "nat ((int (l_head le0) - 1 - int n + 512) mod 256) = (l_head le0 + 511 - n) mod 256"
    using n ok by (simp add: hist_ok_def nat_mod_as_int of_nat_diff algebra_simps)
  then have he: "hist_entry le1 = hist_lines le0 ! n" using hist_slot(1) [OF ok n] by (simp add: hist_entry_def f)
  have "history_nav 1 le t = (load_line (hist_entry le1) le1, nexs_line_render (load_line (hist_entry le1) le1) t)"
    using n e by (simp add: history_nav_def le1_def Let_def)
  then show ?thesis
    using load_line_text [of "hist_lines le0 ! n" le1] hist_slot(2,3) [OF ok n] f sv he by (simp add: hist_at_def)
qed

lemma hist_down:
  assumes ok: "hist_ok le0" and h: "hist_at le0 (Suc n) le" and n: "n < l_count le0" and l0: "line_ended le0"
  shows "hist_at le0 n (fst (history_nav (-1) le t))"
proof -
  have e: "l_nav le = int n" "l_hist le = l_hist le0" "l_head le = l_head le0" "l_count le = l_count le0" "l_saved le = line_text le0"
    using h by (simp_all add: hist_at_def)
  have sv: "save_line le = le" using e by (simp add: save_line_def)
  show ?thesis
  proof (cases n)
    case 0
    have t0: "length (line_text le0) < NEXS_LINE_BUFSIZE" "CHR 0x00 \<notin> set (line_text le0)"
      using l0 by (auto simp: line_ended_def line_text_def)
    have "fst (history_nav (-1) le t) = (load_line (line_text le0) le)\<lparr>l_nav := -1\<rparr>"
      using n e sv 0 by (simp add: history_nav_def Let_def)
    then show ?thesis using load_line_text [OF t0, of le] e 0 by (simp add: hist_at_def)
  next
    case (Suc m)
    then have m: "m < l_count le0" using n by simp
    define le1 where "le1 = le\<lparr>l_nav := int m\<rparr>"
    have "nat ((int (l_head le0) - 1 - int m + 512) mod 256) = (l_head le0 + 511 - m) mod 256"
      using m ok by (simp add: hist_ok_def nat_mod_as_int of_nat_diff algebra_simps)
    then have he: "hist_entry le1 = hist_lines le0 ! m" using hist_slot(1) [OF ok m] e by (simp add: hist_entry_def le1_def)
    have "fst (history_nav (-1) le t) = load_line (hist_entry le1) le1"
      using n e sv Suc by (simp add: history_nav_def le1_def Let_def)
    then show ?thesis
      using load_line_text [of "hist_lines le0 ! m" le1] hist_slot(2,3) [OF ok m] e he Suc by (simp add: hist_at_def le1_def)
  qed
qed

lemma hist_walk:
  assumes ok: "hist_ok le" and l0: "line_ended le" and nav: "l_nav le = -1" and n: "n \<le> l_count le"
  shows "hist_at le n (fst (hist_steps 1 n (le, t)))"
    and "m \<le> n \<Longrightarrow> hist_at le (n - m) (fst (hist_steps (-1) m (hist_steps 1 n (le, t))))"
proof -
  have up: "n \<le> l_count le \<Longrightarrow> hist_at le n (fst (hist_steps 1 n (le, t)))" for n
  proof (induction n)
    case 0
    then show ?case using l0 nav by (simp add: hist_at_def)
  next
    case (Suc n)
    then show ?case using hist_up [OF ok, of n "fst (hist_steps 1 n (le, t))" "snd (hist_steps 1 n (le, t))"]
      by (simp add: case_prod_unfold)
  qed
  then show "hist_at le n (fst (hist_steps 1 n (le, t)))" using n by simp
  show "m \<le> n \<Longrightarrow> hist_at le (n - m) (fst (hist_steps (-1) m (hist_steps 1 n (le, t))))"
  proof (induction m)
    case 0
    then show ?case using up n by simp
  next
    case (Suc m)
    let ?s = "hist_steps (-1) m (hist_steps 1 n (le, t))"
    have "n - m = Suc (n - Suc m)" using Suc.prems by simp
    then show ?case
      using Suc hist_down [OF ok, of "n - Suc m" "fst ?s" "snd ?s"] l0 n by (simp add: case_prod_unfold)
  qed
qed

text \<open>C36: The history. A line that is added becomes the newest one, unless it equals the one that is the newest; the
  256 newest are kept. From a fresh line, \<open>n\<close> times up shows the \<open>n\<close>-th newest line with the cursor behind its last
  character, and as many times down brings back what was typed.\<close>

theorem line_history:
  assumes "hist_ok le" and "line_ended le" and "l_nav le = -1" and "0 < n" and "n \<le> l_count le"
    and "line \<noteq> []" and "length line < NEXS_LINE_BUFSIZE" and "CHR 0x00 \<notin> set line"
  shows "hist_ok (nexs_line_add_history line le) \<and>
    hist_lines (nexs_line_add_history line le) =
      (if hist_lines le \<noteq> [] \<and> hd (hist_lines le) = line then hist_lines le
       else take NEXS_LINE_HISTORY (line # hist_lines le)) \<and>
    line_text (fst (hist_steps 1 n (le, t))) = hist_lines le ! (n - 1) \<and>
    l_pos (fst (hist_steps 1 n (le, t))) = length (hist_lines le ! (n - 1)) \<and>
    line_text (fst (hist_steps (-1) n (hist_steps 1 n (le, t)))) = line_text le"
  using hist_add [OF assms(1,6-8)] hist_walk(1) [OF assms(1-3,5), of t] hist_walk(2) [OF assms(1-3,5) order_refl, of t] assms(4)
  by (simp add: hist_at_def)

lemma hist_ok_init: "hist_ok nexs_line_init"
  by (simp add: hist_ok_def nexs_line_init_def)

theorem line_history_witness:
  "\<exists>le. hist_lines le = [''two'', ''one''] \<and> line_text (fst (hist_steps 1 2 (le, demo_term))) = ''one''"
proof -
  let ?le1 = "nexs_line_add_history ''one'' nexs_line_init" let ?le2 = "nexs_line_add_history ''two'' ?le1"
  have frame: "line_ended (nexs_line_add_history l x) = line_ended x" "l_nav (nexs_line_add_history l x) = l_nav x" for l x
    by (simp_all add: nexs_line_add_history_def line_ended_def line_text_def)
  have 1: "hist_ok ?le1" "hist_lines ?le1 = [''one'']"
    using hist_add [OF hist_ok_init, of "''one''"] by (simp_all add: hist_lines_def nexs_line_init_def)
  have 2: "hist_ok ?le2" "hist_lines ?le2 = [''two'', ''one'']"
    using hist_add [OF 1(1), of "''two''"] 1(2) by simp_all
  have c: "l_count ?le2 = 2" using arg_cong [OF 2(2), of length] by (simp add: hist_lines_def)
  have "line_ended nexs_line_init" "l_nav nexs_line_init = -1"
    by (simp_all add: line_ended_def line_text_def nexs_line_init_def)
  then have "line_ended ?le2" "l_nav ?le2 = -1" by (simp_all only: frame)
  then show ?thesis
    using line_history [of ?le2 2 "''x''" demo_term] 2 c by (intro exI [of _ ?le2]) simp
qed

end
