(* ===== verification/Blk.thy ===== *)
theory Blk
  imports Registry
begin

section \<open>The block cache (\<^verbatim>\<open>kernel/blk.c\<close>)\<close>

unbundle bit_operations_syntax

text \<open>
  The drivers register functions with the cache and are not part of the repository: a device is its
  number and its two functions (each may be missing), which act on the state \<open>'w\<close> of the disks.
  A read gives the block or fails; a write gives the new state, its return code is not looked at.
  A block is the list of its bytes, and a buffer passed to a call holds one block.
\<close>

abbreviation (input) RK_WRITE :: u8 where "RK_WRITE \<equiv> 2"

type_synonym block = "u8 list"

abbreviation (input) BLK_SIZE :: nat where "BLK_SIZE \<equiv> 4096"
abbreviation (input) BLK_CACHE :: nat where "BLK_CACHE \<equiv> 256"
abbreviation (input) BLK_MAX_DEVS :: nat where "BLK_MAX_DEVS \<equiv> 8"

record blkbuf =
  bb_lba :: u64
  bb_data :: block
  bb_dirty :: bool
  bb_valid :: bool
  bb_dev :: u32
  bb_access :: u64

record 'w blkdev =
  bd_id :: u32
  bd_read :: "(u32 \<Rightarrow> u64 \<Rightarrow> 'w \<Rightarrow> block option \<times> 'w) option"
  bd_write :: "(u32 \<Rightarrow> u64 \<Rightarrow> block \<Rightarrow> 'w \<Rightarrow> 'w) option"

record 'w blk =
  b_cache :: "blkbuf list"
  b_clock :: u64
  b_devs :: "'w blkdev list"
  b_disk :: 'w
  b_reg :: rstate

definition blk_register_dev ::
  "u32 \<Rightarrow> (u32 \<Rightarrow> u64 \<Rightarrow> 'w \<Rightarrow> block option \<times> 'w) option \<Rightarrow> (u32 \<Rightarrow> u64 \<Rightarrow> block \<Rightarrow> 'w \<Rightarrow> 'w) option \<Rightarrow> 'w blk \<Rightarrow> 'w blk" where
  "blk_register_dev dev_id read_fn write_fn st =
     (if BLK_MAX_DEVS \<le> length (b_devs st) then st
      else st\<lparr>b_devs := b_devs st @ [\<lparr>bd_id = dev_id, bd_read = read_fn, bd_write = write_fn\<rparr>]\<rparr>)"

definition blk_find_dev :: "'w blk \<Rightarrow> u32 \<Rightarrow> 'w blkdev option" where
  "blk_find_dev st dev_id = List.find (\<lambda>d. bd_id d = dev_id) (b_devs st)"

definition write_fn :: "'w blk \<Rightarrow> u32 \<Rightarrow> (u32 \<Rightarrow> u64 \<Rightarrow> block \<Rightarrow> 'w \<Rightarrow> 'w) option" where
  "write_fn st dev = (case blk_find_dev st dev of Some d \<Rightarrow> bd_write d | None \<Rightarrow> None)"

definition upd_buf :: "(blkbuf \<Rightarrow> blkbuf) \<Rightarrow> nat \<Rightarrow> 'w blk \<Rightarrow> 'w blk" where
  "upd_buf f i st = st\<lparr>b_cache := (b_cache st)[i := f (b_cache st ! i)]\<rparr>"

definition flush_buf :: "nat \<Rightarrow> 'w blk \<Rightarrow> 'w blk" where
  "flush_buf i st =
     (let b = b_cache st ! i in
      if \<not> bb_valid b \<or> \<not> bb_dirty b then st
      else case write_fn st (bb_dev b) of
        Some wr \<Rightarrow> upd_buf (\<lambda>b. b\<lparr>bb_dirty := False\<rparr>) i (st\<lparr>b_disk := wr (bb_dev b) (bb_lba b) (bb_data b) (b_disk st)\<rparr>)
      | None \<Rightarrow> st)"

fun find_from :: "nat \<Rightarrow> u32 \<Rightarrow> u64 \<Rightarrow> blkbuf list \<Rightarrow> nat option" where
  "find_from i dev lba [] = None"
| "find_from i dev lba (b # bs) =
     (if bb_valid b \<and> bb_dev b = dev \<and> bb_lba b = lba then Some i else find_from (Suc i) dev lba bs)"

definition cache_find :: "u32 \<Rightarrow> u64 \<Rightarrow> 'w blk \<Rightarrow> nat option" where
  "cache_find dev lba st = find_from 0 dev lba (b_cache st)"

text \<open>The first free slot, else the least recently used one, clean before dirty.\<close>

fun evict_from :: "blkbuf list \<Rightarrow> nat \<Rightarrow> nat option \<Rightarrow> blkbuf list \<Rightarrow> nat option" where
  "evict_from cache i best [] = best"
| "evict_from cache i best (b # bs) =
     (if \<not> bb_valid b then Some i
      else
        let better = (case best of
            None \<Rightarrow> True
          | Some j \<Rightarrow>
              (\<not> bb_dirty b \<and> bb_dirty (cache ! j)) \<or>
              (bb_dirty b = bb_dirty (cache ! j) \<and> bb_access b < bb_access (cache ! j)))
        in evict_from cache (Suc i) (if better then Some i else best) bs)"

definition cache_evict :: "'w blk \<Rightarrow> nat option" where
  "cache_evict st = evict_from (b_cache st) 0 None (b_cache st)"

definition blk_reg_set :: "string \<Rightarrow> val \<Rightarrow> u8 \<Rightarrow> 'w blk \<Rightarrow> 'w blk res" where
  "blk_reg_set path v rights st = bind_res (reg_set (b_reg st) path v rights) (\<lambda>(rc, r). Inr (st\<lparr>b_reg := r\<rparr>))"

definition empty_buf :: blkbuf where
  "empty_buf = \<lparr>bb_lba = 0, bb_data = replicate BLK_SIZE 0, bb_dirty = False, bb_valid = False, bb_dev = 0, bb_access = 0\<rparr>"

definition blk_init :: "'w blk \<Rightarrow> 'w blk res" where
  "blk_init st =
     bind_res (blk_reg_set ''/sys/blk/cache_size'' (val_int (of_nat BLK_CACHE)) RK_READ
       (st\<lparr>b_cache := replicate BLK_CACHE empty_buf, b_clock := 0, b_devs := []\<rparr>))
       (blk_reg_set ''/sys/blk/status'' (val_str ''ok'') RK_READ)"

text \<open>Put a block into slot \<open>i\<close>, after what was there is flushed.\<close>

definition load_slot :: "nat \<Rightarrow> u32 \<Rightarrow> u64 \<Rightarrow> 'w blk \<Rightarrow> 'w blk" where
  "load_slot i dev lba st =
     upd_buf (\<lambda>b. b\<lparr>bb_dev := dev, bb_lba := lba, bb_dirty := False, bb_valid := True\<rparr>) i (flush_buf i st)"

definition touch :: "nat \<Rightarrow> 'w blk \<Rightarrow> 'w blk" where
  "touch i st = upd_buf (\<lambda>b. b\<lparr>bb_access := b_clock st + 1\<rparr>) i (st\<lparr>b_clock := b_clock st + 1\<rparr>)"

text \<open>The block when the call returns 0, none when it returns -1.\<close>

definition blk_read :: "u32 \<Rightarrow> u64 \<Rightarrow> 'w blk \<Rightarrow> (block option \<times> 'w blk) res" where
  "blk_read dev lba st =
     (case cache_find dev lba st of
        Some i \<Rightarrow> Inr (Some (bb_data (b_cache st ! i)), touch i st)
      | None \<Rightarrow>
          case (case blk_find_dev st dev of Some d \<Rightarrow> bd_read d | None \<Rightarrow> None) of
            None \<Rightarrow> Inr (None, st)
          | Some rd \<Rightarrow>
              case rd dev lba (b_disk st) of
                (None, w) \<Rightarrow> Inr (None, st\<lparr>b_disk := w\<rparr>)
              | (Some buf, w) \<Rightarrow>
                  let st1 = st\<lparr>b_disk := w\<rparr> in
                  case cache_evict st1 of
                    None \<Rightarrow> Inl NullDeref
                  | Some i \<Rightarrow> Inr (Some buf, upd_buf (\<lambda>b. b\<lparr>bb_data := buf\<rparr>) i (touch i (load_slot i dev lba st1))))"

definition dirty_key :: "u32 \<Rightarrow> u64 \<Rightarrow> string" where
  "dirty_key dev lba = trunc 128 (''/dev/blk/'' @ show_int (uint dev) @ ''/'' @ show_int (uint lba) @ ''/dirty'')"

definition blk_write :: "u32 \<Rightarrow> u64 \<Rightarrow> block \<Rightarrow> 'w blk \<Rightarrow> 'w blk res" where
  "blk_write dev lba buf st =
     (let (slot, st1) =
        (case cache_find dev lba st of
           Some i \<Rightarrow> (Some i, st)
         | None \<Rightarrow> case cache_evict st of None \<Rightarrow> (None, st) | Some i \<Rightarrow> (Some i, load_slot i dev lba st)) in
      case slot of
        None \<Rightarrow> Inl NullDeref
      | Some i \<Rightarrow>
          blk_reg_set (dirty_key dev lba) (val_int 1) (RK_READ OR RK_WRITE)
            (touch i (upd_buf (\<lambda>b. b\<lparr>bb_data := buf, bb_dirty := True\<rparr>) i st1)))"

definition sync_slot :: "nat \<Rightarrow> 'w blk \<Rightarrow> 'w blk res" where
  "sync_slot i st =
     (let b = b_cache st ! i in
      if bb_valid b \<and> bb_dirty b \<and> write_fn st (bb_dev b) \<noteq> None then
        blk_reg_set (dirty_key (bb_dev b) (bb_lba b)) (val_int 0) (RK_READ OR RK_WRITE) (flush_buf i st)
      else Inr st)"

definition blk_sync :: "'w blk \<Rightarrow> 'w blk res" where
  "blk_sync st = foldl (\<lambda>r i. bind_res r (sync_slot i)) (Inr st) [0..<length (b_cache st)]"

end
