(* ===== verification/Journal.thy ===== *)
theory Journal
  imports Blk RegIpc
begin

section \<open>The write-ahead log (\<^verbatim>\<open>kernel/journal.c\<close>)\<close>

text \<open>
  The static variables of the file, with the block cache it writes to. A journal header is a whole
  block: 25 bytes of fields, little endian and packed, and padding. The remainder by a zero size
  of the log is a trap.
\<close>

record 'w journal =
  j_dev :: u32
  j_base :: u64
  j_n :: u32
  j_pos :: u64
  j_seq :: u64
  j_txn :: bool
  j_commits :: int
  j_blk :: "'w blk"

abbreviation (input) JOURNAL_MAGIC :: u32 where "JOURNAL_MAGIC \<equiv> 0x4E584A4C"
abbreviation (input) JOURNAL_HDR_META :: nat where "JOURNAL_HDR_META \<equiv> 25"

definition journal_hdr :: "u64 \<Rightarrow> u32 \<Rightarrow> u64 \<Rightarrow> u8 \<Rightarrow> block" where
  "journal_hdr seq dev lba commit =
     le_write32 JOURNAL_MAGIC @ le_write64 seq @ le_write32 dev @ le_write64 lba @ [commit] @
     replicate (BLK_SIZE - JOURNAL_HDR_META) 0"

definition hdr_magic :: "block \<Rightarrow> u32" where
  "hdr_magic b = le_read32 (take 4 b)"

definition hdr_dev :: "block \<Rightarrow> u32" where
  "hdr_dev b = le_read32 (take 4 (drop 12 b))"

definition hdr_lba :: "block \<Rightarrow> u64" where
  "hdr_lba b = le_read64 (take 8 (drop 16 b))"

definition hdr_commit :: "block \<Rightarrow> u8" where
  "hdr_commit b = b ! 24"

definition journal_slot :: "u64 \<Rightarrow> 'w journal \<Rightarrow> u64 res" where
  "journal_slot x j =
     (if j_n j * 2 = 0 then Inl (Die ''division by zero'') else Inr (j_base j + x mod ucast (j_n j * 2)))"

definition journal_lba_hdr :: "u64 \<Rightarrow> 'w journal \<Rightarrow> u64 res" where
  "journal_lba_hdr pos j = journal_slot (pos * 2) j"

definition journal_lba_data :: "u64 \<Rightarrow> 'w journal \<Rightarrow> u64 res" where
  "journal_lba_data pos j = journal_slot (pos * 2 + 1) j"

definition j_write :: "u32 \<Rightarrow> u64 \<Rightarrow> block \<Rightarrow> 'w journal \<Rightarrow> 'w journal res" where
  "j_write dev lba b j = bind_res (blk_write dev lba b (j_blk j)) (\<lambda>st. Inr (j\<lparr>j_blk := st\<rparr>))"

definition j_read :: "u32 \<Rightarrow> u64 \<Rightarrow> 'w journal \<Rightarrow> (block option \<times> 'w journal) res" where
  "j_read dev lba j = bind_res (blk_read dev lba (j_blk j)) (\<lambda>(b, st). Inr (b, j\<lparr>j_blk := st\<rparr>))"

definition j_reg_set :: "string \<Rightarrow> val \<Rightarrow> u8 \<Rightarrow> 'w journal \<Rightarrow> 'w journal res" where
  "j_reg_set path v rights j = bind_res (blk_reg_set path v rights (j_blk j)) (\<lambda>st. Inr (j\<lparr>j_blk := st\<rparr>))"

definition write_record :: "u64 \<Rightarrow> u32 \<Rightarrow> u64 \<Rightarrow> block option \<Rightarrow> u8 \<Rightarrow> 'w journal \<Rightarrow> 'w journal res" where
  "write_record pos dev lba buf commit j =
     bind_res (journal_lba_hdr pos j) (\<lambda>h.
     bind_res (j_write (j_dev j) h (journal_hdr (j_seq j) dev lba commit) j) (\<lambda>j1.
     case buf of
       None \<Rightarrow> Inr j1
     | Some b \<Rightarrow> bind_res (journal_lba_data pos j1) (\<lambda>l. j_write (j_dev j1) l b j1)))"

definition journal_init :: "u32 \<Rightarrow> u64 \<Rightarrow> u32 \<Rightarrow> 'w journal \<Rightarrow> (int \<times> 'w journal) res" where
  "journal_init dev lba n j =
     bind_res (j_reg_set ''/sys/journal/status'' (val_str ''ok'') RK_READ
       (j\<lparr>j_dev := dev, j_base := lba, j_n := n, j_pos := 0, j_seq := 0, j_txn := False, j_commits := 0\<rparr>)) (\<lambda>j1.
     bind_res (j_reg_set ''/sys/journal/capacity'' (val_int (ucast n)) RK_READ j1) (\<lambda>j2. Inr (0, j2)))"

definition journal_begin :: "'w journal \<Rightarrow> (int \<times> 'w journal) res" where
  "journal_begin j =
     (if j_txn j then Inr (-1, j)
      else
        bind_res (j_reg_set ''/sys/journal/in_txn'' (val_int 1) (RK_READ OR RK_WRITE)
          (j\<lparr>j_seq := j_seq j + 1, j_txn := True\<rparr>)) (\<lambda>j1. Inr (0, j1)))"

definition journal_log :: "u32 \<Rightarrow> u64 \<Rightarrow> 'w journal \<Rightarrow> (int \<times> 'w journal) res" where
  "journal_log dev lba j =
     (if \<not> j_txn j \<or> j_n j = 0 then Inr (-1, j)
      else
        bind_res (j_read dev lba j) (\<lambda>(r, j1).
        let old_data = (case r of Some b \<Rightarrow> b | None \<Rightarrow> replicate BLK_SIZE 0) in
        bind_res (write_record (j_pos j1) dev lba (Some old_data) 0 (j1\<lparr>j_pos := j_pos j1 + 1\<rparr>)) (\<lambda>j2. Inr (0, j2))))"

definition journal_checkpoint :: "'w journal \<Rightarrow> 'w journal res" where
  "journal_checkpoint j =
     bind_res (blk_sync (j_blk j)) (\<lambda>st.
       j_reg_set ''/sys/journal/status'' (val_str ''checkpointed'') RK_READ (j\<lparr>j_pos := 0, j_commits := 0, j_blk := st\<rparr>))"

definition journal_commit :: "'w journal \<Rightarrow> (int \<times> 'w journal) res" where
  "journal_commit j =
     (if \<not> j_txn j then Inr (-1, j)
      else
        bind_res (write_record (j_pos j) (j_dev j) 0 None 1 (j\<lparr>j_pos := j_pos j + 1\<rparr>)) (\<lambda>j1.
        let j2 = j1\<lparr>j_txn := False, j_commits := j_commits j1 + 1\<rparr> in
        bind_res (j_reg_set ''/sys/journal/in_txn'' (val_int 0) (RK_READ OR RK_WRITE) j2) (\<lambda>j3.
        bind_res (j_reg_set ''/sys/journal/seq'' (val_int (j_seq j3)) RK_READ j3) (\<lambda>j4.
        bind_res (j_reg_set ''/sys/journal/commit_cnt'' (val_int (of_int (j_commits j4))) RK_READ j4) (\<lambda>j5.
        bind_res (if j_commits j5 mod 64 = 0 then journal_checkpoint j5 else Inr j5) (\<lambda>j6. Inr (0, j6)))))))"

text \<open>\<open>k\<close> counts the positions left up to the size of the log.\<close>

fun replay_loop :: "nat \<Rightarrow> u64 \<Rightarrow> 'w journal \<Rightarrow> (u64 \<times> 'w journal) res" where
  "replay_loop 0 pos j = Inr (pos, j)"
| "replay_loop (Suc k) pos j =
     bind_res (journal_lba_hdr pos j) (\<lambda>h.
     bind_res (j_read (j_dev j) h j) (\<lambda>(r, j1).
     case r of
       None \<Rightarrow> Inr (pos, j1)
     | Some hdr \<Rightarrow>
         if hdr_magic hdr \<noteq> JOURNAL_MAGIC then Inr (pos, j1)
         else
           bind_res
             (if hdr_commit hdr = 0 then
                bind_res (journal_lba_data pos j1) (\<lambda>l.
                bind_res (j_read (j_dev j1) l j1) (\<lambda>(d, j2).
                case d of Some b \<Rightarrow> j_write (hdr_dev hdr) (hdr_lba hdr) b j2 | None \<Rightarrow> Inr j2))
              else Inr j1)
             (\<lambda>j3. replay_loop k (pos + 1) j3)))"

definition journal_replay :: "'w journal \<Rightarrow> (int \<times> 'w journal) res" where
  "journal_replay j =
     (if j_n j = 0 then Inr (0, j)
      else
        bind_res (replay_loop (unat (j_n j)) 0 j) (\<lambda>(pos, j1).
        bind_res (j_reg_set ''/sys/journal/replayed'' (val_int pos) RK_READ j1) (\<lambda>j2. Inr (0, j2))))"

end
