(* ===== verification/Blk_Facts.thy ===== *)
theory Blk_Facts
  imports Blk Registry_Facts Roundtrip
begin

section \<open>The block cache is a disk\<close>

text \<open>
  \<open>disk\<close> reads a block out of the state of the disks. A driver of a known device reads what is there
  and writes one block. Blocks in a slot of the cache hide those on the disk; the two together are
  the memory that \<open>blk_read\<close> and \<open>blk_write\<close> show.
\<close>

type_synonym 'w disk = "'w \<Rightarrow> u32 \<Rightarrow> u64 \<Rightarrow> block"

definition put_block :: "u32 \<Rightarrow> u64 \<Rightarrow> block \<Rightarrow> (u32 \<Rightarrow> u64 \<Rightarrow> block) \<Rightarrow> u32 \<Rightarrow> u64 \<Rightarrow> block" where
  "put_block dev lba b m = m(dev := (m dev)(lba := b))"

definition drivers_ok :: "'w disk \<Rightarrow> u32 set \<Rightarrow> 'w blk \<Rightarrow> bool" where
  "drivers_ok disk D st \<longleftrightarrow> (\<forall>dev \<in> D. \<exists>d rd wr. blk_find_dev st dev = Some d \<and> bd_read d = Some rd \<and> bd_write d = Some wr \<and>
     (\<forall>lba w. fst (rd dev lba w) = Some (disk w dev lba) \<and> disk (snd (rd dev lba w)) = disk w) \<and>
     (\<forall>lba b w. disk (wr dev lba b w) = put_block dev lba b (disk w)))"

definition has_key :: "u32 \<Rightarrow> u64 \<Rightarrow> blkbuf \<Rightarrow> bool" where
  "has_key dev lba b \<longleftrightarrow> bb_valid b \<and> bb_dev b = dev \<and> bb_lba b = lba"

definition memory :: "'w disk \<Rightarrow> 'w blk \<Rightarrow> u32 \<Rightarrow> u64 \<Rightarrow> block" where
  "memory disk st dev lba =
     (case cache_find dev lba st of Some i \<Rightarrow> bb_data (b_cache st ! i) | None \<Rightarrow> disk (b_disk st) dev lba)"

definition slots_ok :: "'w disk \<Rightarrow> u32 set \<Rightarrow> 'w blk \<Rightarrow> bool" where
  "slots_ok disk D st \<longleftrightarrow>
     (\<forall>i < length (b_cache st). bb_valid (b_cache st ! i) \<longrightarrow> bb_dev (b_cache st ! i) \<in> D \<and>
        (\<not> bb_dirty (b_cache st ! i) \<longrightarrow>
           bb_data (b_cache st ! i) = disk (b_disk st) (bb_dev (b_cache st ! i)) (bb_lba (b_cache st ! i)))) \<and>
     (\<forall>i < length (b_cache st). \<forall>j < length (b_cache st). \<forall>dev lba.
        has_key dev lba (b_cache st ! i) \<longrightarrow> has_key dev lba (b_cache st ! j) \<longrightarrow> i = j)"

definition blk_ok :: "'w disk \<Rightarrow> u32 set \<Rightarrow> val list \<Rightarrow> 'w blk \<Rightarrow> bool" where
  "blk_ok disk D R st \<longleftrightarrow>
     length (b_cache st) = BLK_CACHE \<and> drivers_ok disk D st \<and> slots_ok disk D st \<and> reg_ok (b_reg st) R"

subsection \<open>Finding and evicting\<close>

lemma find_from_Some: "find_from k dev lba bs = Some i \<Longrightarrow> k \<le> i \<and> i < k + length bs \<and> has_key dev lba (bs ! (i - k))"
  by (induction bs arbitrary: k) (fastforce split: if_splits simp: has_key_def nth_Cons' dest!: meta_spec)+

lemma find_from_None: "find_from k dev lba bs = None \<longleftrightarrow> (\<forall>b \<in> set bs. \<not> has_key dev lba b)"
  by (induction bs arbitrary: k) (auto simp: has_key_def)

lemma cache_find_Some: "cache_find dev lba st = Some i \<Longrightarrow> i < length (b_cache st) \<and> has_key dev lba (b_cache st ! i)"
  using find_from_Some [of 0] by (auto simp: cache_find_def)

lemma cache_find_None: "cache_find dev lba st = None \<longleftrightarrow> (\<forall>i < length (b_cache st). \<not> has_key dev lba (b_cache st ! i))"
  by (auto simp: cache_find_def find_from_None all_set_conv_all_nth)

lemma cache_find_iff:
  assumes "slots_ok disk D st"
  shows "cache_find dev lba st = Some i \<longleftrightarrow> i < length (b_cache st) \<and> has_key dev lba (b_cache st ! i)"
proof
  assume i: "i < length (b_cache st) \<and> has_key dev lba (b_cache st ! i)"
  then obtain j where j: "cache_find dev lba st = Some j" using cache_find_None by (metis not_None_eq)
  then have "j = i" using cache_find_Some [OF j] i assms by (auto simp: slots_ok_def)
  then show "cache_find dev lba st = Some i" using j by simp
qed (rule cache_find_Some)

lemma evict_from_in:
  "(case best of None \<Rightarrow> bs \<noteq> [] | Some j \<Rightarrow> j < k) \<Longrightarrow> \<exists>i. evict_from c k best bs = Some i \<and> i < k + length bs"
proof (induction bs arbitrary: k best)
  case (Cons b bs)
  show ?case
  proof (cases "bb_valid b")
    case True
    have "case (if x then Some k else best) of None \<Rightarrow> bs \<noteq> [] | Some j \<Rightarrow> j < Suc k" if "best = None \<longrightarrow> x" for x
      using Cons.prems that by (auto split: option.splits)
    then show ?thesis
      using Cons.IH [of "Suc k" "if (case best of None \<Rightarrow> True | Some j \<Rightarrow> (\<not> bb_dirty b \<and> bb_dirty (c ! j)) \<or>
          (bb_dirty b = bb_dirty (c ! j) \<and> bb_access b < bb_access (c ! j))) then Some k else best"] True
      by (cases best) (auto simp: Let_def)
  qed simp
qed (auto split: option.splits)

lemma cache_evict_in: "b_cache st \<noteq> [] \<Longrightarrow> \<exists>i. cache_evict st = Some i \<and> i < length (b_cache st)"
  using evict_from_in [where best = None and bs = "b_cache st" and k = 0] by (auto simp: cache_evict_def)

subsection \<open>Slots\<close>

lemma blk_simps [simp]:
  "b_devs (upd_buf f i st) = b_devs st" "b_disk (upd_buf f i st) = b_disk st" "b_reg (upd_buf f i st) = b_reg st"
  "length (b_cache (upd_buf f i st)) = length (b_cache st)" "b_clock (upd_buf f i st) = b_clock st"
  "b_devs (flush_buf i st) = b_devs st" "b_reg (flush_buf i st) = b_reg st"
  "length (b_cache (flush_buf i st)) = length (b_cache st)"
  by (auto simp: upd_buf_def flush_buf_def Let_def split: option.split)

lemma drivers_cong: "b_devs st = b_devs st' \<Longrightarrow> drivers_ok disk D st = drivers_ok disk D st'"
  by (simp add: drivers_ok_def blk_find_dev_def)

lemma drivers_write:
  assumes "drivers_ok disk D st" and "dev \<in> D"
  shows "\<exists>wr. write_fn st dev = Some wr \<and> (\<forall>lba b w. disk (wr dev lba b w) = put_block dev lba b (disk w))"
  using assms by (fastforce simp: drivers_ok_def write_fn_def)

text \<open>After a flush the slot is clean or not in use, and the memory is the same.\<close>

lemma flush_buf_ok:
  assumes ok: "blk_ok disk D R st" and i: "i < length (b_cache st)"
  shows "blk_ok disk D R (flush_buf i st)" and "memory disk (flush_buf i st) = memory disk st"
    and "\<not> bb_valid (b_cache (flush_buf i st) ! i) \<or> \<not> bb_dirty (b_cache (flush_buf i st) ! i)"
    and "has_key dev lba (b_cache (flush_buf i st) ! j) = has_key dev lba (b_cache st ! j)"
proof -
  have s: "slots_ok disk D st" "drivers_ok disk D st" using ok by (simp_all add: blk_ok_def)
  let ?b = "b_cache st ! i"
  have keys: "has_key dev lba (b_cache (flush_buf i st) ! j) = has_key dev lba (b_cache st ! j)" for dev lba j
    using i by (cases "j = i") (auto simp: flush_buf_def upd_buf_def has_key_def Let_def split: option.split)
  then show "has_key dev lba (b_cache (flush_buf i st) ! j) = has_key dev lba (b_cache st ! j)" .
  have "blk_ok disk D R (flush_buf i st) \<and> memory disk (flush_buf i st) = memory disk st \<and>
    (\<not> bb_valid (b_cache (flush_buf i st) ! i) \<or> \<not> bb_dirty (b_cache (flush_buf i st) ! i))"
  proof (cases "bb_valid ?b \<and> bb_dirty ?b")
    case False
    then have "flush_buf i st = st" by (auto simp: flush_buf_def Let_def)
    then show ?thesis using ok False by auto
  next
    case True
    then have "bb_dev ?b \<in> D" using s(1) i by (simp add: slots_ok_def)
    then obtain wr where wr: "write_fn st (bb_dev ?b) = Some wr"
      "\<And>lba b w. disk (wr (bb_dev ?b) lba b w) = put_block (bb_dev ?b) lba b (disk w)"
      using drivers_write [OF s(2)] by blast
    define st' where "st' = flush_buf i st"
    have st': "st' = upd_buf (\<lambda>b. b\<lparr>bb_dirty := False\<rparr>) i (st\<lparr>b_disk := wr (bb_dev ?b) (bb_lba ?b) (bb_data ?b) (b_disk st)\<rparr>)"
      using True wr(1) by (simp add: st'_def flush_buf_def Let_def)
    have d: "disk (b_disk st') = put_block (bb_dev ?b) (bb_lba ?b) (bb_data ?b) (disk (b_disk st))"
      by (simp add: st' wr(2))
    have c: "b_cache st' = (b_cache st)[i := ?b\<lparr>bb_dirty := False\<rparr>]" by (simp add: st' upd_buf_def)
    have other: "disk (b_disk st') (bb_dev (b_cache st ! j)) (bb_lba (b_cache st ! j)) =
        disk (b_disk st) (bb_dev (b_cache st ! j)) (bb_lba (b_cache st ! j))"
      if "j < length (b_cache st)" "j \<noteq> i" "bb_valid (b_cache st ! j)" for j
    proof -
      have "\<not> (bb_dev (b_cache st ! j) = bb_dev ?b \<and> bb_lba (b_cache st ! j) = bb_lba ?b)"
        using s(1) i True that unfolding slots_ok_def has_key_def by metis
      then show ?thesis by (auto simp: d put_block_def)
    qed
    have s': "slots_ok disk D st'"
      unfolding slots_ok_def
    proof (intro conjI allI impI)
      fix j assume j: "j < length (b_cache st')" "bb_valid (b_cache st' ! j)"
      show "bb_dev (b_cache st' ! j) \<in> D" using s(1) j i by (cases "j = i") (auto simp: c slots_ok_def)
      assume cl: "\<not> bb_dirty (b_cache st' ! j)"
      show "bb_data (b_cache st' ! j) = disk (b_disk st') (bb_dev (b_cache st' ! j)) (bb_lba (b_cache st' ! j))"
      proof (cases "j = i")
        case True
        then show ?thesis using i by (simp add: c d put_block_def)
      next
        case False
        then show ?thesis using j cl other [of j] s(1) by (simp add: c slots_ok_def)
      qed
    next
      fix j k dev lba
      assume "j < length (b_cache st')" "k < length (b_cache st')" "has_key dev lba (b_cache st' ! j)" "has_key dev lba (b_cache st' ! k)"
      then show "j = k" using s(1) keys by (auto simp: slots_ok_def st'_def)
    qed
    have "memory disk st' dev lba = memory disk st dev lba" for dev lba
    proof (cases "cache_find dev lba st")
      case None
      then have "cache_find dev lba st' = None" using keys by (auto simp: cache_find_None st'_def)
      moreover have "\<not> (dev = bb_dev ?b \<and> lba = bb_lba ?b)" using None True i by (auto simp: cache_find_None has_key_def)
      ultimately show ?thesis using None by (auto simp: memory_def d put_block_def)
    next
      case (Some j)
      then have "cache_find dev lba st' = Some j"
        using cache_find_iff [OF s'] cache_find_iff [OF s(1)] keys by (simp add: st'_def)
      then show ?thesis using Some i by (cases "j = i") (simp_all add: memory_def c)
    qed
    moreover have "blk_ok disk D R st'"
      using ok s' drivers_cong [of st' st disk D] by (simp add: blk_ok_def st'_def)
    ultimately show ?thesis using True i by (auto simp: st'_def [symmetric] c)
  qed
  then show "blk_ok disk D R (flush_buf i st)" and "memory disk (flush_buf i st) = memory disk st"
    and "\<not> bb_valid (b_cache (flush_buf i st) ! i) \<or> \<not> bb_dirty (b_cache (flush_buf i st) ! i)"
    by blast+
qed

text \<open>A slot takes a block, when nothing that only it holds gets lost and no other slot has the block.\<close>

lemma fill_slot_ok:
  assumes ok: "blk_ok disk D R st" and i: "i < length (b_cache st)"
    and old: "has_key dev lba (b_cache st ! i) \<or> \<not> bb_valid (b_cache st ! i) \<or> \<not> bb_dirty (b_cache st ! i)"
    and new: "has_key dev lba nb" "dev \<in> D" "bb_dirty nb \<or> bb_data nb = disk (b_disk st) dev lba"
    and only: "\<And>j. j < length (b_cache st) \<Longrightarrow> j \<noteq> i \<Longrightarrow> \<not> has_key dev lba (b_cache st ! j)"
    and st': "b_cache st' = (b_cache st)[i := nb]" "b_devs st' = b_devs st" "b_disk st' = b_disk st" "b_reg st' = b_reg st"
  shows "blk_ok disk D R st' \<and> memory disk st' = put_block dev lba (bb_data nb) (memory disk st)"
proof -
  have s: "slots_ok disk D st" using ok by (simp add: blk_ok_def)
  have key: "has_key d l (b_cache st' ! j) \<longleftrightarrow> (if j = i then d = dev \<and> l = lba else has_key d l (b_cache st ! j))" for d l j
    using i new(1) by (cases "j = i") (auto simp: st' has_key_def)
  have s': "slots_ok disk D st'"
    unfolding slots_ok_def
  proof (intro conjI allI impI)
    fix j assume j: "j < length (b_cache st')" "bb_valid (b_cache st' ! j)"
    show "bb_dev (b_cache st' ! j) \<in> D" using s j i new by (cases "j = i") (auto simp: st' slots_ok_def has_key_def)
    assume "\<not> bb_dirty (b_cache st' ! j)"
    then show "bb_data (b_cache st' ! j) = disk (b_disk st') (bb_dev (b_cache st' ! j)) (bb_lba (b_cache st' ! j))"
      using s j i new by (cases "j = i") (auto simp: st' slots_ok_def has_key_def)
  next
    fix j k d l
    assume jk: "j < length (b_cache st')" "k < length (b_cache st')" "has_key d l (b_cache st' ! j)" "has_key d l (b_cache st' ! k)"
    then show "j = k"
      using s only [of j] only [of k] unfolding key by (auto simp: st' slots_ok_def split: if_splits)
  qed
  have "memory disk st' d l = put_block dev lba (bb_data nb) (memory disk st) d l" for d l
  proof (cases "d = dev \<and> l = lba")
    case True
    then have "cache_find d l st' = Some i" using i by (simp add: cache_find_iff [OF s'] key) (simp add: st')
    then show ?thesis using True i by (simp add: memory_def put_block_def st')
  next
    case False
    have "memory disk st' d l = memory disk st d l"
    proof (cases "cache_find d l st'")
      case (Some j)
      have j: "j < length (b_cache st)" "j \<noteq> i" "has_key d l (b_cache st ! j)"
        using False Some unfolding cache_find_iff [OF s'] key by (auto simp: st' split: if_splits)
      then have "cache_find d l st = Some j" by (simp add: cache_find_iff [OF s])
      then show ?thesis using Some j(2) by (simp add: memory_def st')
    next
      case None
      have none: "\<not> has_key d l (b_cache st ! j)" if "j < length (b_cache st)" "j \<noteq> i" for j
        using None that unfolding cache_find_None key by (auto simp: st')
      show ?thesis
      proof (cases "has_key d l (b_cache st ! i)")
        case True
        then have "cache_find d l st = Some i" using i by (simp add: cache_find_iff [OF s])
        moreover have "\<not> bb_dirty (b_cache st ! i)" using True False old by (auto simp: has_key_def)
        ultimately show ?thesis using None True s i by (auto simp: memory_def slots_ok_def has_key_def st')
      next
        case False
        then have "cache_find d l st = None" using none by (auto simp: cache_find_None)
        then show ?thesis using None by (simp add: memory_def st')
      qed
    qed
    then show ?thesis using False by (auto simp: put_block_def)
  qed
  moreover have "drivers_ok disk D st'" using ok drivers_cong [of st' st disk D] st' by (simp add: blk_ok_def)
  ultimately show ?thesis using ok s' st' by (auto simp: blk_ok_def)
qed

subsection \<open>The operations\<close>

lemma dirty_key_good: "good_path (dirty_key dev lba)"
proof -
  let ?d = "show_int (uint dev)" let ?l = "show_int (uint lba)"
  have len: "length ?d \<le> 10" "length ?l \<le> 20"
    using digits_length [of 10, where 'a = 32] digits_length [of 20, where 'a = 64] by simp_all
  let ?s = "''dev'' @ CHR ''/'' # ''blk'' @ CHR ''/'' # ?d @ CHR ''/'' # ?l @ CHR ''/'' # ''dirty''"
  have k: "dirty_key dev lba = CHR ''/'' # ?s" using len by (simp add: dirty_key_def trunc_def)
  have "segs_of (''dev'' @ CHR ''/'' # x) = ''dev'' # segs_of x" "segs_of (''blk'' @ CHR ''/'' # x) = ''blk'' # segs_of x"
    "segs_of (?d @ CHR ''/'' # x) = ?d # segs_of x" "segs_of (?l @ CHR ''/'' # x) = ?l # segs_of x"
    "segs_of ''dirty'' = [''dirty'']" for x
    by (intro segs_of_seg segs_of_last; simp add: digits_no_slash digits_nonempty)+
  then have "segs_of ?s = [''dev'', ''blk'', ?d, ?l, ''dirty'']" by (simp only:)
  then show ?thesis using len by (intro good_pathI [OF k]) (simp_all add: k)
qed

lemma blk_reg_set_ok:
  assumes "blk_ok disk D R st" and "good_path path" and "ref_of v = None"
  shows "\<exists>st'. blk_reg_set path v rights st = Inr st' \<and> blk_ok disk D R st' \<and> memory disk st' = memory disk st \<and>
    b_cache st' = b_cache st \<and> b_disk st' = b_disk st \<and> b_devs st' = b_devs st"
proof -
  obtain r where r: "reg_set (b_reg st) path v rights = Inr (0, r)" "reg_ok r R"
    using reg_set_ok [of "b_reg st" R path v rights] assms by (auto simp: blk_ok_def)
  have "memory disk (st\<lparr>b_reg := r\<rparr>) = memory disk st"
    by (intro ext) (simp add: memory_def cache_find_def split: option.split)
  moreover have "blk_ok disk D R (st\<lparr>b_reg := r\<rparr>)"
    using assms(1) r(2) by (simp add: blk_ok_def drivers_ok_def blk_find_dev_def slots_ok_def)
  ultimately show ?thesis using r(1) by (simp add: blk_reg_set_def)
qed

lemma put_same: "put_block dev lba (m dev lba) m = m"
  by (simp add: put_block_def)

lemma blk_read_ok:
  assumes ok: "blk_ok disk D R st" and dev: "dev \<in> D"
  shows "\<exists>st'. blk_read dev lba st = Inr (Some (memory disk st dev lba), st') \<and> blk_ok disk D R st' \<and>
    memory disk st' = memory disk st"
proof (cases "cache_find dev lba st")
  case (Some i)
  note i = cache_find_Some [OF Some]
  have s: "slots_ok disk D st" using ok by (simp add: blk_ok_def)
  let ?b = "(b_cache st ! i)\<lparr>bb_access := b_clock st + 1\<rparr>"
  have "blk_ok disk D R (touch i st) \<and> memory disk (touch i st) = put_block dev lba (bb_data ?b) (memory disk st)"
  proof (rule fill_slot_ok [OF ok, of i])
    show "bb_dirty ?b \<or> bb_data ?b = disk (b_disk st) dev lba" using s i by (auto simp: slots_ok_def has_key_def)
    show "\<not> has_key dev lba (b_cache st ! j)" if "j < length (b_cache st)" "j \<noteq> i" for j
      using s i that unfolding slots_ok_def by blast
  qed (use i dev in \<open>simp_all add: touch_def upd_buf_def has_key_def\<close>)
  moreover have "bb_data (b_cache st ! i) = memory disk st dev lba" using Some by (simp add: memory_def)
  ultimately show ?thesis using Some by (simp add: blk_read_def put_same)
next
  case None
  obtain d rd where d: "blk_find_dev st dev = Some d" "bd_read d = Some rd"
    "\<And>lba w. fst (rd dev lba w) = Some (disk w dev lba)" "\<And>lba w. disk (snd (rd dev lba w)) = disk w"
    using ok dev by (fastforce simp: blk_ok_def drivers_ok_def)
  define st1 where "st1 = st\<lparr>b_disk := snd (rd dev lba (b_disk st))\<rparr>"
  have ok1: "blk_ok disk D R st1"
    using ok d(4) by (simp add: blk_ok_def st1_def drivers_ok_def blk_find_dev_def slots_ok_def)
  have m1: "memory disk st1 = memory disk st"
    by (intro ext) (simp add: memory_def cache_find_def st1_def d(4) split: option.split)
  have "b_cache st1 \<noteq> []" using ok1 by (auto simp: blk_ok_def)
  then obtain i where i: "cache_evict st1 = Some i" "i < length (b_cache st1)" using cache_evict_in by blast
  note f = flush_buf_ok [OF ok1 i(2)]
  let ?buf = "disk (b_disk st) dev lba"
  define nb where "nb = (b_cache (flush_buf i st1) ! i)\<lparr>bb_dev := dev, bb_lba := lba, bb_dirty := False, bb_valid := True,
      bb_access := b_clock (flush_buf i st1) + 1, bb_data := ?buf\<rparr>"
  define st2 where "st2 = upd_buf (\<lambda>b. b\<lparr>bb_data := ?buf\<rparr>) i (touch i (load_slot i dev lba st1))"
  have none: "\<not> has_key dev lba (b_cache (flush_buf i st1) ! j)" if "j < length (b_cache st1)" for j
    using None that f(4) by (simp add: cache_find_None st1_def)
  have noc: "cache_find dev lba (flush_buf i st1) = None" using none by (auto simp: cache_find_None)
  have buf: "?buf = disk (b_disk (flush_buf i st1)) dev lba"
    using fun_cong [OF fun_cong [OF f(2)], of dev lba] noc None m1 by (simp add: memory_def)
  have "blk_ok disk D R st2 \<and> memory disk st2 = put_block dev lba (bb_data nb) (memory disk (flush_buf i st1))"
  proof (rule fill_slot_ok [OF f(1), of i])
    show "bb_dirty nb \<or> bb_data nb = disk (b_disk (flush_buf i st1)) dev lba" by (simp add: nb_def buf [symmetric])
    show "has_key dev lba (b_cache (flush_buf i st1) ! i) \<or> \<not> bb_valid (b_cache (flush_buf i st1) ! i) \<or>
        \<not> bb_dirty (b_cache (flush_buf i st1) ! i)" using f(3) by blast
    show "\<not> has_key dev lba (b_cache (flush_buf i st1) ! j)" if "j < length (b_cache (flush_buf i st1))" "j \<noteq> i" for j
      using none [of j] that by simp
  qed (use i dev in \<open>simp_all add: st2_def touch_def load_slot_def upd_buf_def has_key_def nb_def\<close>)
  moreover have "memory disk st dev lba = ?buf" using None by (simp add: memory_def)
  moreover have "blk_read dev lba st = Inr (Some ?buf, st2)"
    using None d(1,2,3) i(1) by (simp add: blk_read_def st2_def st1_def prod.case_eq_if)
  ultimately show ?thesis using f(2) m1 put_same [of dev lba "memory disk st"] by (auto simp: nb_def)
qed

lemma blk_write_ok:
  assumes ok: "blk_ok disk D R st" and dev: "dev \<in> D"
  shows "\<exists>st'. blk_write dev lba buf st = Inr st' \<and> blk_ok disk D R st' \<and>
    memory disk st' = put_block dev lba buf (memory disk st)"
proof -
  have s: "slots_ok disk D st" using ok by (simp add: blk_ok_def)
  obtain i st0 where st0: "blk_ok disk D R st0" "memory disk st0 = memory disk st" "i < length (b_cache st0)"
    "has_key dev lba (b_cache st0 ! i) \<or> \<not> bb_valid (b_cache st0 ! i) \<or> \<not> bb_dirty (b_cache st0 ! i)"
    "\<And>j. j < length (b_cache st0) \<Longrightarrow> j \<noteq> i \<Longrightarrow> \<not> has_key dev lba (b_cache st0 ! j)"
    and w: "\<exists>st1. blk_write dev lba buf st = blk_reg_set (dirty_key dev lba) (val_int 1) (RK_READ OR RK_WRITE) st1 \<and>
      (\<exists>nb. has_key dev lba nb \<and> bb_dirty nb \<and> bb_data nb = buf \<and> b_cache st1 = (b_cache st0)[i := nb]) \<and>
      b_devs st1 = b_devs st0 \<and> b_disk st1 = b_disk st0 \<and> b_reg st1 = b_reg st0"
  proof (cases "cache_find dev lba st")
    case (Some i)
    note i = cache_find_Some [OF Some]
    let ?nb = "(b_cache st ! i)\<lparr>bb_data := buf, bb_dirty := True, bb_access := b_clock st + 1\<rparr>"
    show thesis
    proof (rule that [OF ok refl, of i])
      show "\<not> has_key dev lba (b_cache st ! j)" if "j < length (b_cache st)" "j \<noteq> i" for j
        using s i that unfolding slots_ok_def by blast
      show "\<exists>st1. blk_write dev lba buf st = blk_reg_set (dirty_key dev lba) (val_int 1) (RK_READ OR RK_WRITE) st1 \<and>
        (\<exists>nb. has_key dev lba nb \<and> bb_dirty nb \<and> bb_data nb = buf \<and> b_cache st1 = (b_cache st)[i := nb]) \<and>
        b_devs st1 = b_devs st \<and> b_disk st1 = b_disk st \<and> b_reg st1 = b_reg st"
        using Some i
        by (intro exI [of _ "touch i (upd_buf (\<lambda>b. b\<lparr>bb_data := buf, bb_dirty := True\<rparr>) i st)"])
          (auto simp: blk_write_def touch_def upd_buf_def has_key_def intro!: exI [of _ ?nb])
    qed (use i in simp_all)
  next
    case None
    have "b_cache st \<noteq> []" using ok by (auto simp: blk_ok_def)
    then obtain i where i: "cache_evict st = Some i" "i < length (b_cache st)" using cache_evict_in by blast
    note f = flush_buf_ok [OF ok i(2)]
    let ?b = "b_cache (flush_buf i st) ! i"
    let ?nb = "?b\<lparr>bb_dev := dev, bb_lba := lba, bb_valid := True, bb_data := buf, bb_dirty := True,
        bb_access := b_clock (flush_buf i st) + 1\<rparr>"
    show thesis
    proof (rule that [OF f(1,2), of i])
      show "has_key dev lba ?b \<or> \<not> bb_valid ?b \<or> \<not> bb_dirty ?b" using f(3) by blast
      show "\<not> has_key dev lba (b_cache (flush_buf i st) ! j)" if "j < length (b_cache (flush_buf i st))" "j \<noteq> i" for j
        using None that f(4) by (simp add: cache_find_None)
      show "\<exists>st1. blk_write dev lba buf st = blk_reg_set (dirty_key dev lba) (val_int 1) (RK_READ OR RK_WRITE) st1 \<and>
        (\<exists>nb. has_key dev lba nb \<and> bb_dirty nb \<and> bb_data nb = buf \<and> b_cache st1 = (b_cache (flush_buf i st))[i := nb]) \<and>
        b_devs st1 = b_devs (flush_buf i st) \<and> b_disk st1 = b_disk (flush_buf i st) \<and> b_reg st1 = b_reg (flush_buf i st)"
        using None i
        by (intro exI [of _ "touch i (upd_buf (\<lambda>b. b\<lparr>bb_data := buf, bb_dirty := True\<rparr>) i (load_slot i dev lba st))"])
          (auto simp: blk_write_def touch_def upd_buf_def load_slot_def has_key_def intro!: exI [of _ ?nb])
    qed (use i in simp_all)
  qed
  obtain st1 nb where st1: "blk_write dev lba buf st = blk_reg_set (dirty_key dev lba) (val_int 1) (RK_READ OR RK_WRITE) st1"
    "has_key dev lba nb" "bb_dirty nb" "bb_data nb = buf" "b_cache st1 = (b_cache st0)[i := nb]"
    "b_devs st1 = b_devs st0" "b_disk st1 = b_disk st0" "b_reg st1 = b_reg st0"
    using w by blast
  have "blk_ok disk D R st1 \<and> memory disk st1 = put_block dev lba (bb_data nb) (memory disk st0)"
    by (rule fill_slot_ok [OF st0(1,3)]) (use st0 st1 dev in auto)
  moreover have "ref_of (val_int 1) = None" by (simp add: ref_of_def val_int_def)
  ultimately show ?thesis
    using blk_reg_set_ok [of disk D R st1 "dirty_key dev lba" "val_int 1" "RK_READ OR RK_WRITE"] dirty_key_good st1 st0(2)
    by auto
qed

lemma sync_slot_ok:
  assumes ok: "blk_ok disk D R st" and i: "i < length (b_cache st)"
  shows "\<exists>st'. sync_slot i st = Inr st' \<and> blk_ok disk D R st' \<and> memory disk st' = memory disk st \<and>
    length (b_cache st') = length (b_cache st) \<and>
    (\<forall>j. (j = i \<or> \<not> bb_valid (b_cache st ! j) \<or> \<not> bb_dirty (b_cache st ! j)) \<longrightarrow>
       \<not> bb_valid (b_cache st' ! j) \<or> \<not> bb_dirty (b_cache st' ! j))"
proof (cases "bb_valid (b_cache st ! i) \<and> bb_dirty (b_cache st ! i)")
  case False
  then show ?thesis using ok by (auto simp: sync_slot_def Let_def)
next
  case True
  then have "bb_dev (b_cache st ! i) \<in> D" using ok i by (simp add: blk_ok_def slots_ok_def)
  then obtain wr where wr: "write_fn st (bb_dev (b_cache st ! i)) = Some wr"
    using drivers_write [of disk D st] ok by (fastforce simp: blk_ok_def)
  note f = flush_buf_ok [OF ok i]
  have "ref_of (val_int 0) = None" by (simp add: ref_of_def val_int_def)
  from blk_reg_set_ok [OF f(1) dirty_key_good this] obtain st' where st':
    "blk_reg_set (dirty_key (bb_dev (b_cache st ! i)) (bb_lba (b_cache st ! i))) (val_int 0) (RK_READ OR RK_WRITE) (flush_buf i st) = Inr st'"
    "blk_ok disk D R st'" "memory disk st' = memory disk (flush_buf i st)" "b_cache st' = b_cache (flush_buf i st)"
    by blast
  have "b_cache (flush_buf i st) ! j = b_cache st ! j" if "j \<noteq> i" for j
    using that by (simp add: flush_buf_def upd_buf_def Let_def split: option.split)
  then show ?thesis using st' f(2,3) True wr by (simp add: sync_slot_def Let_def) metis
qed

lemma blk_sync_slots:
  assumes "blk_ok disk D R st" and "n \<le> length (b_cache st)"
  shows "\<exists>st'. foldl (\<lambda>r i. bind_res r (sync_slot i)) (Inr st) [0..<n] = Inr st' \<and> blk_ok disk D R st' \<and>
    memory disk st' = memory disk st \<and> length (b_cache st') = length (b_cache st) \<and>
    (\<forall>j < n. \<not> bb_valid (b_cache st' ! j) \<or> \<not> bb_dirty (b_cache st' ! j))"
  using assms(2)
proof (induction n)
  case 0
  then show ?case using assms(1) by simp
next
  case (Suc n)
  then obtain s1 where s1: "foldl (\<lambda>r i. bind_res r (sync_slot i)) (Inr st) [0..<n] = Inr s1" "blk_ok disk D R s1"
    "memory disk s1 = memory disk st" "length (b_cache s1) = length (b_cache st)"
    "\<forall>j < n. \<not> bb_valid (b_cache s1 ! j) \<or> \<not> bb_dirty (b_cache s1 ! j)"
    by auto
  have "n < length (b_cache s1)" using Suc.prems s1(4) by simp
  from sync_slot_ok [OF s1(2) this] obtain s2 where s2: "sync_slot n s1 = Inr s2" "blk_ok disk D R s2"
    "memory disk s2 = memory disk s1" "length (b_cache s2) = length (b_cache s1)"
    "\<forall>j. (j = n \<or> \<not> bb_valid (b_cache s1 ! j) \<or> \<not> bb_dirty (b_cache s1 ! j)) \<longrightarrow>
       \<not> bb_valid (b_cache s2 ! j) \<or> \<not> bb_dirty (b_cache s2 ! j)"
    by blast
  then show ?case using s1 by (auto simp: less_Suc_eq)
qed

text \<open>After a sync the disk itself holds the memory of every known device.\<close>

lemma blk_sync_ok:
  assumes ok: "blk_ok disk D R st"
  shows "\<exists>st'. blk_sync st = Inr st' \<and> blk_ok disk D R st' \<and> memory disk st' = memory disk st \<and>
    disk (b_disk st') = memory disk st"
proof -
  obtain st' where st': "blk_sync st = Inr st'" "blk_ok disk D R st'" "memory disk st' = memory disk st"
    "\<forall>j < length (b_cache st'). \<not> bb_valid (b_cache st' ! j) \<or> \<not> bb_dirty (b_cache st' ! j)"
    using blk_sync_slots [OF ok order_refl] by (auto simp: blk_sync_def)
  have s: "slots_ok disk D st'" using st'(2) by (simp add: blk_ok_def)
  have "disk (b_disk st') dev lba = memory disk st' dev lba" for dev lba
  proof (cases "cache_find dev lba st'")
    case (Some j)
    then show ?thesis
      using cache_find_Some [OF Some] st'(4) s by (auto simp: memory_def slots_ok_def has_key_def)
  qed (simp add: memory_def)
  then show ?thesis using st' by (auto simp: fun_eq_iff)
qed

subsection \<open>The contract\<close>

datatype block_op = ReadBlock u32 u64 | WriteBlock u32 u64 block | SyncBlocks

fun op_on :: "u32 set \<Rightarrow> block_op \<Rightarrow> bool" where
  "op_on D (ReadBlock d l) \<longleftrightarrow> d \<in> D"
| "op_on D (WriteBlock d l b) \<longleftrightarrow> d \<in> D"
| "op_on D SyncBlocks \<longleftrightarrow> True"

fun run_blocks ::
  "(u32 \<Rightarrow> u64 \<Rightarrow> 's \<Rightarrow> (block option \<times> 's) res) \<Rightarrow> (u32 \<Rightarrow> u64 \<Rightarrow> block \<Rightarrow> 's \<Rightarrow> 's res) \<Rightarrow> ('s \<Rightarrow> 's res) \<Rightarrow>
    block_op list \<Rightarrow> 's \<Rightarrow> (block option list \<times> 's) res" where
  "run_blocks rd wr sync [] s = Inr ([], s)"
| "run_blocks rd wr sync (ReadBlock d l # ops) s =
     bind_res (rd d l s) (\<lambda>(b, s1). bind_res (run_blocks rd wr sync ops s1) (\<lambda>(bs, s2). Inr (b # bs, s2)))"
| "run_blocks rd wr sync (WriteBlock d l b # ops) s = bind_res (wr d l b s) (run_blocks rd wr sync ops)"
| "run_blocks rd wr sync (SyncBlocks # ops) s = bind_res (sync s) (run_blocks rd wr sync ops)"

text \<open>What the operations do to a plain memory.\<close>

fun run_memory :: "block_op list \<Rightarrow> (u32 \<Rightarrow> u64 \<Rightarrow> block) \<Rightarrow> block option list \<times> (u32 \<Rightarrow> u64 \<Rightarrow> block)" where
  "run_memory [] m = ([], m)"
| "run_memory (ReadBlock d l # ops) m = (case run_memory ops m of (bs, m') \<Rightarrow> (Some (m d l) # bs, m'))"
| "run_memory (WriteBlock d l b # ops) m = run_memory ops (put_block d l b m)"
| "run_memory (SyncBlocks # ops) m = run_memory ops m"

locale block_store =
  fixes invar :: "'s \<Rightarrow> bool"
    and mem :: "'s \<Rightarrow> u32 \<Rightarrow> u64 \<Rightarrow> block"
    and known :: "u32 set"
    and rd :: "u32 \<Rightarrow> u64 \<Rightarrow> 's \<Rightarrow> (block option \<times> 's) res"
    and wr :: "u32 \<Rightarrow> u64 \<Rightarrow> block \<Rightarrow> 's \<Rightarrow> 's res"
    and sync :: "'s \<Rightarrow> 's res"
  assumes read_ok: "invar s \<Longrightarrow> d \<in> known \<Longrightarrow> \<exists>s'. rd d l s = Inr (Some (mem s d l), s') \<and> invar s' \<and> mem s' = mem s"
    and write_ok: "invar s \<Longrightarrow> d \<in> known \<Longrightarrow> \<exists>s'. wr d l b s = Inr s' \<and> invar s' \<and> mem s' = put_block d l b (mem s)"
    and sync_ok: "invar s \<Longrightarrow> \<exists>s'. sync s = Inr s' \<and> invar s' \<and> mem s' = mem s"
begin

lemma run_ok:
  "invar s \<Longrightarrow> \<forall>x \<in> set ops. op_on known x \<Longrightarrow>
    \<exists>s'. run_blocks rd wr sync ops s = Inr (fst (run_memory ops (mem s)), s') \<and> invar s' \<and> mem s' = snd (run_memory ops (mem s))"
proof (induction ops arbitrary: s)
  case (Cons x ops)
  show ?case
  proof (cases x)
    case (ReadBlock d l)
    then obtain s1 where "rd d l s = Inr (Some (mem s d l), s1)" "invar s1" "mem s1 = mem s"
      using read_ok [of s d l] Cons.prems by auto
    then show ?thesis using Cons.IH [of s1] Cons.prems ReadBlock by (auto simp: prod.case_eq_if)
  next
    case (WriteBlock d l b)
    then obtain s1 where "wr d l b s = Inr s1" "invar s1" "mem s1 = put_block d l b (mem s)"
      using write_ok [of s d l b] Cons.prems by auto
    then show ?thesis using Cons.IH [of s1] Cons.prems WriteBlock by auto
  next
    case SyncBlocks
    then obtain s1 where "sync s = Inr s1" "invar s1" "mem s1 = mem s" using sync_ok [of s] Cons.prems by auto
    then show ?thesis using Cons.IH [of s1] Cons.prems SyncBlocks by auto
  qed
qed simp

end

interpretation cache: block_store "blk_ok disk D R" "memory disk" D blk_read blk_write blk_sync for disk D R
  by unfold_locales (use blk_read_ok blk_write_ok blk_sync_ok in blast)+

text \<open>C15: The cache is transparent. On registered drivers that read and write blocks, any sequence of reads,
  writes and syncs gives what a plain memory of blocks gives, whatever is cached, evicted and
  flushed in between; and a sync at the end leaves all of it on the disks.\<close>

theorem blk_cache_transparent:
  assumes "blk_ok disk D R st" and "\<forall>x \<in> set ops. op_on D x"
  shows "\<exists>st1 st2. run_blocks blk_read blk_write blk_sync ops st = Inr (fst (run_memory ops (memory disk st)), st1) \<and>
    blk_sync st1 = Inr st2 \<and> blk_ok disk D R st2 \<and> disk (b_disk st2) = snd (run_memory ops (memory disk st))"
  using cache.run_ok [OF assms] blk_sync_ok by fastforce

definition ram_driver :: "u32 \<Rightarrow> (u32 \<Rightarrow> u64 \<Rightarrow> block) blkdev" where
  "ram_driver dev = \<lparr>bd_id = dev, bd_read = Some (\<lambda>d l w. (Some (w d l), w)), bd_write = Some (\<lambda>d l b w. put_block d l b w)\<rparr>"

definition ram_blk :: "(u32 \<Rightarrow> u64 \<Rightarrow> block) blk" where
  "ram_blk = \<lparr>b_cache = replicate BLK_CACHE empty_buf, b_clock = 0, b_devs = [ram_driver 1], b_disk = (\<lambda>d l. []), b_reg = reg_init blank\<rparr>"

lemma ram_blk_ok: "blk_ok (\<lambda>w. w) {1} [] ram_blk"
  using reg_init_blank
  by (auto simp: blk_ok_def ram_blk_def drivers_ok_def blk_find_dev_def ram_driver_def slots_ok_def empty_buf_def has_key_def)

theorem blk_cache_transparent_witness:
  "\<exists>st1. run_blocks blk_read blk_write blk_sync [ReadBlock 1 5, WriteBlock 1 5 [7], WriteBlock 1 6 [8], ReadBlock 1 5] ram_blk =
     Inr ([Some [], Some [7]], st1)"
  using blk_cache_transparent [OF ram_blk_ok, of "[ReadBlock 1 5, WriteBlock 1 5 [7], WriteBlock 1 6 [8], ReadBlock 1 5]"]
  by (auto simp: memory_def put_block_def ram_blk_def cache_find_def find_from_None empty_buf_def has_key_def split: option.splits dest!: find_from_Some)

end
