(* ===== verification/Journal_Facts.thy ===== *)
theory Journal_Facts
  imports Journal Blk_Facts RegIpc_Facts
begin

section \<open>What a replay restores\<close>

lemma length_le_words [simp]: "length (le_write32 v) = 4" "length (le_write64 w) = 8"
  by (simp_all add: le_write32_def le_write64_def)

lemma hdr_fields [simp]:
  "hdr_magic (journal_hdr seq dev lba c) = JOURNAL_MAGIC" "hdr_dev (journal_hdr seq dev lba c) = dev"
  "hdr_lba (journal_hdr seq dev lba c) = lba" "hdr_commit (journal_hdr seq dev lba c) = c"
  by (simp_all add: journal_hdr_def hdr_magic_def hdr_dev_def hdr_lba_def hdr_commit_def nth_append)

text \<open>The log has \<open>n\<close> entries of two blocks; their numbers do not wrap around.\<close>

definition log_ok :: "'w disk \<Rightarrow> u32 set \<Rightarrow> val list \<Rightarrow> 'w journal \<Rightarrow> bool" where
  "log_ok disk D R j \<longleftrightarrow> blk_ok disk D R (j_blk j) \<and> j_dev j \<in> D \<and> 0 < unat (j_n j) \<and> unat (j_n j) < 2 ^ 31"

definition log_lba :: "'w journal \<Rightarrow> nat \<Rightarrow> u64" where
  "log_lba j i = j_base j + of_nat i"

definition in_log :: "'w journal \<Rightarrow> u32 \<times> u64 \<Rightarrow> bool" where
  "in_log j = (\<lambda>(d, l). d = j_dev j \<and> (\<exists>i < 2 * unat (j_n j). l = log_lba j i))"

definition jmem :: "'w disk \<Rightarrow> 'w journal \<Rightarrow> u32 \<Rightarrow> u64 \<Rightarrow> block" where
  "jmem disk j = memory disk (j_blk j)"

text \<open>The fields that no write changes.\<close>

definition same_log :: "'w journal \<Rightarrow> 'w journal \<Rightarrow> bool" where
  "same_log j j' \<longleftrightarrow> j_dev j' = j_dev j \<and> j_base j' = j_base j \<and> j_n j' = j_n j"

lemma same_log_refl [simp]: "same_log j j" by (simp add: same_log_def)

lemma same_log_eq: "same_log j j' \<Longrightarrow> log_lba j' = log_lba j \<and> in_log j' = in_log j \<and> j_dev j' = j_dev j \<and> j_n j' = j_n j"
  by (auto simp: same_log_def log_lba_def in_log_def fun_eq_iff)

lemma log_lba_inj: "i < 2 ^ 33 \<Longrightarrow> k < 2 ^ 33 \<Longrightarrow> log_lba j i = log_lba j k \<longleftrightarrow> i = k"
proof
  assume "i < 2 ^ 33" "k < 2 ^ 33" "log_lba j i = log_lba j k"
  then have "unat (of_nat i :: u64) = unat (of_nat k :: u64)" "i < 2 ^ 64" "k < 2 ^ 64" by (simp_all add: log_lba_def)
  then show "i = k" by (simp only: unat_u64_of_nat)
qed simp

lemma slot_ok:
  assumes "log_ok disk D R j" and "x < 2 * unat (j_n j)"
  shows "journal_slot (of_nat x) j = Inr (log_lba j x)"
proof -
  have n: "0 < unat (j_n j)" "unat (j_n j) < 2 ^ 31" using assms(1) by (simp_all add: log_ok_def)
  have u: "unat (j_n j * 2) = 2 * unat (j_n j)" using n(2) by (simp add: unat_word_ariths)
  then have nz: "j_n j * 2 \<noteq> 0" using n(1) by (metis mult_eq_0_iff nat_neq_iff unat_0 zero_neq_numeral)
  have "unat (ucast (j_n j * 2) :: u64) = 2 * unat (j_n j)" using u n(2) by (simp add: unsigned_ucast_eq take_bit_nat_eq_self)
  then have "unat (of_nat x mod ucast (j_n j * 2) :: u64) = x" using assms(2) n(2) by (simp add: unat_mod unat_of_nat)
  then have "(of_nat x mod ucast (j_n j * 2) :: u64) = of_nat x" by (metis word_of_nat_unat)
  then show ?thesis using nz by (simp add: journal_slot_def log_lba_def)
qed

lemma journal_lba_ok:
  assumes "log_ok disk D R j" and "i < unat (j_n j)"
  shows "journal_lba_hdr (of_nat i) j = Inr (log_lba j (2 * i))" and "journal_lba_data (of_nat i) j = Inr (log_lba j (2 * i + 1))"
  using slot_ok [OF assms(1), of "2 * i"] slot_ok [OF assms(1), of "2 * i + 1"] assms(2)
  by (simp_all add: journal_lba_hdr_def journal_lba_data_def mult.commute add.commute)

lemma j_write_ok:
  assumes "log_ok disk D R j" and "dev \<in> D"
  shows "\<exists>j'. j_write dev lba b j = Inr j' \<and> log_ok disk D R j' \<and> jmem disk j' = put_block dev lba b (jmem disk j) \<and>
    (\<exists>st. j' = j\<lparr>j_blk := st\<rparr>)"
  using assms blk_write_ok [of disk D R "j_blk j" dev lba b] by (auto simp: j_write_def log_ok_def jmem_def)

lemma j_read_ok:
  assumes "log_ok disk D R j" and "dev \<in> D"
  shows "\<exists>j'. j_read dev lba j = Inr (Some (jmem disk j dev lba), j') \<and> log_ok disk D R j' \<and> jmem disk j' = jmem disk j \<and>
    (\<exists>st. j' = j\<lparr>j_blk := st\<rparr>)"
  using assms blk_read_ok [of disk D R "j_blk j" dev lba] by (auto simp: j_read_def log_ok_def jmem_def)

lemma journal_path_good:
  "p \<in> {''/sys/journal/in_txn'', ''/sys/journal/seq'', ''/sys/journal/commit_cnt'', ''/sys/journal/status'', ''/sys/journal/replayed''} \<Longrightarrow>
    good_path p"
  by (elim insertE; simp; code_simp)

lemma int_str_ref [simp]: "ref_of (val_int n) = None" "ref_of (val_str s) = None"
  by (simp_all add: ref_of_def val_int_def val_str_def val_nil_def)

lemma j_reg_set_ok:
  assumes "log_ok disk D R j" and "good_path p" and "ref_of v = None"
  shows "\<exists>j'. j_reg_set p v rights j = Inr j' \<and> log_ok disk D R j' \<and> jmem disk j' = jmem disk j \<and> (\<exists>st. j' = j\<lparr>j_blk := st\<rparr>)"
  using assms blk_reg_set_ok [of disk D R "j_blk j" p v rights] by (auto simp: j_reg_set_def log_ok_def jmem_def)

lemma frame [simp]: "same_log j (j\<lparr>j_blk := st\<rparr>)" "same_log j (j\<lparr>j_pos := p\<rparr>)"
  by (simp_all add: same_log_def)

lemma same_log_trans: "same_log a b \<Longrightarrow> same_log b c \<Longrightarrow> same_log a c"
  by (simp add: same_log_def)

lemma log_ok_frame: "log_ok disk D R (j\<lparr>j_pos := p\<rparr>) = log_ok disk D R j" "jmem disk (j\<lparr>j_pos := p\<rparr>) = jmem disk j"
  by (simp_all add: log_ok_def jmem_def)

text \<open>A record: the header at an even block of the log, the old content behind it.\<close>

lemma write_record_ok:
  assumes ok: "log_ok disk D R j" and i: "i < unat (j_n j)"
  shows "\<exists>j'. write_record (of_nat i) dev lba buf c j = Inr j' \<and> log_ok disk D R j' \<and>
    jmem disk j' = (let m = put_block (j_dev j) (log_lba j (2 * i)) (journal_hdr (j_seq j) dev lba c) (jmem disk j)
       in case buf of None \<Rightarrow> m | Some b \<Rightarrow> put_block (j_dev j) (log_lba j (2 * i + 1)) b m) \<and>
    (\<exists>st. j' = j\<lparr>j_blk := st\<rparr>)"
proof -
  have d: "j_dev j \<in> D" using ok by (simp add: log_ok_def)
  obtain st where w: "j_write (j_dev j) (log_lba j (2 * i)) (journal_hdr (j_seq j) dev lba c) j = Inr (j\<lparr>j_blk := st\<rparr>)"
    "log_ok disk D R (j\<lparr>j_blk := st\<rparr>)"
    "jmem disk (j\<lparr>j_blk := st\<rparr>) = put_block (j_dev j) (log_lba j (2 * i)) (journal_hdr (j_seq j) dev lba c) (jmem disk j)"
    using j_write_ok [OF ok d, of "log_lba j (2 * i)" "journal_hdr (j_seq j) dev lba c"] by auto
  show ?thesis
  proof (cases buf)
    case None
    then show ?thesis using w journal_lba_ok(1) [OF ok i] by (auto simp: write_record_def)
  next
    case (Some b)
    let ?j1 = "j\<lparr>j_blk := st\<rparr>"
    have i1: "i < unat (j_n ?j1)" "j_dev ?j1 \<in> D" using i d by simp_all
    have l1: "log_lba ?j1 = log_lba j" by (simp add: log_lba_def fun_eq_iff)
    obtain st2 where "j_write (j_dev j) (log_lba j (2 * i + 1)) b ?j1 = Inr (?j1\<lparr>j_blk := st2\<rparr>)"
      "log_ok disk D R (?j1\<lparr>j_blk := st2\<rparr>)"
      "jmem disk (?j1\<lparr>j_blk := st2\<rparr>) = put_block (j_dev j) (log_lba j (2 * i + 1)) b (jmem disk ?j1)"
      using j_write_ok [OF w(2) i1(2), of "log_lba j (2 * i + 1)" b] by auto
    then show ?thesis using Some w journal_lba_ok(1) [OF ok i] journal_lba_ok(2) [OF w(2) i1(1)] l1 by (auto simp: write_record_def)
  qed
qed

lemma in_log_lba: "i < 2 * unat (j_n j) \<Longrightarrow> in_log j (j_dev j, log_lba j i)"
  by (auto simp: in_log_def)

lemma put_block_other: "(d, l) \<noteq> (d', l') \<Longrightarrow> put_block d' l' b m d l = m d l"
  by (auto simp: put_block_def)

lemma put_block_same [simp]: "put_block d l b m d l = b"
  by (simp add: put_block_def)

lemma log_lba_other:
  assumes "log_ok disk D R j" and "i < 2 * unat (j_n j)" and "k < 2 * unat (j_n j)" and "i \<noteq> k"
  shows "put_block (j_dev j) (log_lba j k) b m (j_dev j) (log_lba j i) = m (j_dev j) (log_lba j i)"
  using assms log_lba_inj [of i k j] by (intro put_block_other) (simp add: log_ok_def)

text \<open>
  The log holds a record for each block of \<open>ls\<close> with its content in \<open>M\<close>, then commit records up to
  entry \<open>k\<close>, then nothing.
\<close>

definition records :: "'w disk \<Rightarrow> (u32 \<times> u64) list \<Rightarrow> (u32 \<Rightarrow> u64 \<Rightarrow> block) \<Rightarrow> nat \<Rightarrow> 'w journal \<Rightarrow> bool" where
  "records disk ls M k j \<longleftrightarrow>
     length ls \<le> k \<and> k \<le> unat (j_n j) \<and>
     (\<forall>i < length ls. let h = jmem disk j (j_dev j) (log_lba j (2 * i)) in
        hdr_magic h = JOURNAL_MAGIC \<and> hdr_commit h = 0 \<and> (hdr_dev h, hdr_lba h) = ls ! i \<and>
        jmem disk j (j_dev j) (log_lba j (2 * i + 1)) = M (fst (ls ! i)) (snd (ls ! i))) \<and>
     (\<forall>i. length ls \<le> i \<longrightarrow> i < k \<longrightarrow> hdr_magic (jmem disk j (j_dev j) (log_lba j (2 * i))) = JOURNAL_MAGIC \<and>
        hdr_commit (jmem disk j (j_dev j) (log_lba j (2 * i))) \<noteq> 0) \<and>
     (\<forall>i. k \<le> i \<longrightarrow> i < unat (j_n j) \<longrightarrow> hdr_magic (jmem disk j (j_dev j) (log_lba j (2 * i))) \<noteq> JOURNAL_MAGIC)"

definition same_area :: "'w disk \<Rightarrow> 'w journal \<Rightarrow> 'w journal \<Rightarrow> bool" where
  "same_area disk j j' \<longleftrightarrow> same_log j j' \<and> (\<forall>d l. in_log j (d, l) \<longrightarrow> jmem disk j' d l = jmem disk j d l)"

lemma records_cong:
  assumes "same_area disk j j'" and "records disk ls M k j"
  shows "records disk ls M k j'"
proof -
  have e: "j_dev j' = j_dev j" "j_n j' = j_n j" "log_lba j' = log_lba j"
    using assms(1) same_log_eq by (auto simp: same_area_def)
  have m: "jmem disk j' (j_dev j) (log_lba j i) = jmem disk j (j_dev j) (log_lba j i)" if "i < 2 * unat (j_n j)" for i
    using assms(1) in_log_lba [OF that] by (simp add: same_area_def)
  show ?thesis
    using assms(2) unfolding records_def e Let_def
    by (intro conjI allI impI) (simp_all add: m)
qed

lemma same_area_trans: "same_area disk a b \<Longrightarrow> same_area disk b c \<Longrightarrow> same_area disk a c"
  using same_log_eq [of a b] by (auto simp: same_area_def intro: same_log_trans)

lemma same_area_refl [simp]: "same_area disk j j" by (simp add: same_area_def)

lemma same_area_mem: "\<exists>st. j' = j\<lparr>j_blk := st\<rparr> \<Longrightarrow> jmem disk j' = jmem disk j \<Longrightarrow> same_area disk j j'"
  by (auto simp: same_area_def)

lemma same_area_put:
  "\<exists>st. j' = j\<lparr>j_blk := st\<rparr> \<Longrightarrow> jmem disk j' = put_block d l b (jmem disk j) \<Longrightarrow> \<not> in_log j (d, l) \<Longrightarrow> same_area disk j j'"
  by (auto simp: same_area_def put_block_def)

text \<open>The replay puts back every recorded block, committed or not.\<close>

lemma replay_loop_ok:
  assumes "log_ok disk D R j" and "records disk ls M k j" and "\<forall>x \<in> set ls. fst x \<in> D \<and> \<not> in_log j x"
    and "i + m = unat (j_n j)"
  shows "\<exists>pos j'. replay_loop m (of_nat i) j = Inr (pos, j') \<and> log_ok disk D R j' \<and>
    (\<forall>d l. jmem disk j' d l = (if (d, l) \<in> set (drop i ls) then M d l else jmem disk j d l))"
  using assms
proof (induction m arbitrary: i j)
  case 0
  then show ?case by (auto simp: records_def)
next
  case (Suc m)
  have i: "i < unat (j_n j)" using Suc.prems(4) by simp
  have dev: "j_dev j \<in> D" using Suc.prems(1) by (simp add: log_ok_def)
  let ?h = "jmem disk j (j_dev j) (log_lba j (2 * i))"
  obtain j1 where j1: "j_read (j_dev j) (log_lba j (2 * i)) j = Inr (Some ?h, j1)" "log_ok disk D R j1"
    "jmem disk j1 = jmem disk j" "\<exists>st. j1 = j\<lparr>j_blk := st\<rparr>"
    using j_read_ok [OF Suc.prems(1) dev] by blast
  have a1: "same_area disk j j1" using same_area_mem [OF j1(4,3)] .
  have e1: "j_dev j1 = j_dev j" "j_n j1 = j_n j" "log_lba j1 = log_lba j" "in_log j1 = in_log j"
    using a1 same_log_eq by (auto simp: same_area_def)
  have next_pos: "(of_nat i + 1 :: u64) = of_nat (Suc i)" by simp
  note step = journal_lba_ok(1) [OF Suc.prems(1) i] j1(1)
  consider "k \<le> i" | "length ls \<le> i" "i < k" | "i < length ls" by linarith
  then show ?case
  proof cases
    case 1
    then have "hdr_magic ?h \<noteq> JOURNAL_MAGIC" using Suc.prems(2) i unfolding records_def by blast
    moreover have "drop i ls = []" using 1 Suc.prems(2) by (simp add: records_def)
    ultimately show ?thesis using step j1(2,3) by simp
  next
    case 2
    then have h: "hdr_magic ?h = JOURNAL_MAGIC" "hdr_commit ?h \<noteq> 0" using Suc.prems(2) unfolding records_def by blast+
    have "drop i ls = []" "drop (Suc i) ls = []" using 2 by simp_all
    then show ?thesis
      using Suc.IH [OF j1(2) records_cong [OF a1 Suc.prems(2)], of "Suc i"] Suc.prems(3,4) step h j1(3) e1
      by (simp add: next_pos del: of_nat_Suc)
  next
    case 3
    let ?x = "ls ! i"
    have h: "hdr_magic ?h = JOURNAL_MAGIC" "hdr_commit ?h = 0" "hdr_dev ?h = fst ?x" "hdr_lba ?h = snd ?x"
      "jmem disk j (j_dev j) (log_lba j (2 * i + 1)) = M (fst ?x) (snd ?x)"
      using Suc.prems(2) 3 unfolding records_def Let_def by (auto simp: prod_eq_iff)
    have x: "fst ?x \<in> D" "\<not> in_log j ?x" using Suc.prems(3) 3 by simp_all
    have i1: "i < unat (j_n j1)" "j_dev j1 \<in> D" using i dev e1 by simp_all
    obtain j2 where j2: "j_read (j_dev j1) (log_lba j (2 * i + 1)) j1 = Inr (Some (M (fst ?x) (snd ?x)), j2)" "log_ok disk D R j2"
      "jmem disk j2 = jmem disk j" "\<exists>st. j2 = j1\<lparr>j_blk := st\<rparr>"
      using j_read_ok [OF j1(2) i1(2)] h(5) j1(3) e1 by metis
    obtain j3 where j3: "j_write (fst ?x) (snd ?x) (M (fst ?x) (snd ?x)) j2 = Inr j3" "log_ok disk D R j3"
      "jmem disk j3 = put_block (fst ?x) (snd ?x) (M (fst ?x) (snd ?x)) (jmem disk j)" "\<exists>st. j3 = j2\<lparr>j_blk := st\<rparr>"
      using j_write_ok [OF j2(2) x(1)] j2(3) by metis
    have a2: "same_area disk j j2" using a1 same_area_mem [OF j2(4)] j2(3) j1(3) by (metis same_area_trans)
    have e2: "in_log j2 = in_log j" using a2 same_log_eq by (auto simp: same_area_def)
    have a3: "same_area disk j j3"
      using same_area_put [OF j3(4), of disk "fst ?x" "snd ?x"] j3(3) j2(3) x(2) e2 a2 by (auto intro: same_area_trans)
    have e3: "j_n j3 = j_n j" "in_log j3 = in_log j" using a3 same_log_eq by (auto simp: same_area_def)
    obtain pos j' where j': "replay_loop m (of_nat (Suc i)) j3 = Inr (pos, j')" "log_ok disk D R j'"
      "\<forall>d l. jmem disk j' d l = (if (d, l) \<in> set (drop (Suc i) ls) then M d l else jmem disk j3 d l)"
      using Suc.IH [OF j3(2) records_cong [OF a3 Suc.prems(2)], of "Suc i"] Suc.prems(3,4) e3 by auto
    have "drop i ls = ?x # drop (Suc i) ls" using 3 by (simp add: Cons_nth_drop_Suc)
    moreover have "replay_loop (Suc m) (of_nat i) j = Inr (pos, j')"
      using step h(1-4) journal_lba_ok(2) [OF j1(2) i1(1)] e1 j2(1) j3(1) j'(1) by (simp add: next_pos del: of_nat_Suc)
    moreover have "(if (d, l) \<in> set (drop (Suc i) ls) then M d l else jmem disk j3 d l) =
        (if (d, l) \<in> set (?x # drop (Suc i) ls) then M d l else jmem disk j d l)" for d l
      by (cases "?x = (d, l)") (auto simp: j3(3) put_block_def)
    ultimately show ?thesis using j'(2,3) by auto
  qed
qed

lemma records_commit:
  assumes ok: "log_ok disk D R j" and r: "records disk ls M k j" and k: "k = length ls" "k < unat (j_n j)"
    and m: "jmem disk j' = put_block (j_dev j) (log_lba j (2 * k)) h (jmem disk j)"
    and h: "hdr_magic h = JOURNAL_MAGIC" "hdr_commit h \<noteq> 0" and s: "same_log j j'"
  shows "records disk ls M (Suc k) j'"
proof -
  have e: "j_dev j' = j_dev j" "j_n j' = j_n j" "log_lba j' = log_lba j" using same_log_eq [OF s] by auto
  have old: "jmem disk j' (j_dev j) (log_lba j i) = jmem disk j (j_dev j) (log_lba j i)"
    if "i < 2 * unat (j_n j)" "i \<noteq> 2 * k" for i
    using that k(2) log_lba_other [OF ok that(1)] by (simp add: m)
  have new: "jmem disk j' (j_dev j) (log_lba j (2 * k)) = h" by (simp add: m)
  have odd: "2 * i + 1 \<noteq> 2 * k" for i :: nat by presburger
  show ?thesis
    unfolding records_def e Let_def
  proof (intro conjI allI impI)
    fix i assume "i < length ls"
    then show "hdr_magic (jmem disk j' (j_dev j) (log_lba j (2 * i))) = JOURNAL_MAGIC"
      "hdr_commit (jmem disk j' (j_dev j) (log_lba j (2 * i))) = 0"
      "(hdr_dev (jmem disk j' (j_dev j) (log_lba j (2 * i))), hdr_lba (jmem disk j' (j_dev j) (log_lba j (2 * i)))) = ls ! i"
      "jmem disk j' (j_dev j) (log_lba j (2 * i + 1)) = M (fst (ls ! i)) (snd (ls ! i))"
      using r k old [of "2 * i"] old [of "2 * i + 1"] odd [of i] by (simp_all add: records_def Let_def)
  next
    fix i assume "length ls \<le> i" "i < Suc k"
    then have "i = k" using k by simp
    then show "hdr_magic (jmem disk j' (j_dev j) (log_lba j (2 * i))) = JOURNAL_MAGIC"
      "hdr_commit (jmem disk j' (j_dev j) (log_lba j (2 * i))) \<noteq> 0"
      using h new by simp_all
  next
    fix i assume "Suc k \<le> i" "i < unat (j_n j)"
    then show "hdr_magic (jmem disk j' (j_dev j) (log_lba j (2 * i))) \<noteq> JOURNAL_MAGIC"
      using r old [of "2 * i"] by (simp add: records_def)
  qed (use k in auto)
qed

subsection \<open>A transaction\<close>

fun log_all :: "(u32 \<times> u64) list \<Rightarrow> 'w journal \<Rightarrow> 'w journal res" where
  "log_all [] j = Inr j"
| "log_all ((d, l) # xs) j = bind_res (journal_log d l j) (\<lambda>(rc, j1). log_all xs j1)"

fun write_all :: "(u32 \<times> u64 \<times> block) list \<Rightarrow> 'w journal \<Rightarrow> 'w journal res" where
  "write_all [] j = Inr j"
| "write_all ((d, l, b) # xs) j = bind_res (j_write d l b j) (write_all xs)"

definition put_all :: "(u32 \<times> u64 \<times> block) list \<Rightarrow> (u32 \<Rightarrow> u64 \<Rightarrow> block) \<Rightarrow> u32 \<Rightarrow> u64 \<Rightarrow> block" where
  "put_all ws m = foldl (\<lambda>m (d, l, b). put_block d l b m) m ws"

lemma put_all_cong: "m d l = m' d l \<Longrightarrow> put_all ws m d l = put_all ws m' d l"
proof (induction ws arbitrary: m m')
  case (Cons x ws)
  obtain a b c where x: "x = (a, b, c)" by (cases x)
  have "put_block a b c m d l = put_block a b c m' d l" using Cons.prems by (auto simp: put_block_def)
  then show ?case using Cons.IH [of "put_block a b c m" "put_block a b c m'"] by (simp add: x put_all_def)
qed (simp add: put_all_def)

text \<open>Begin, log the blocks, change blocks, commit or crash before it, and replay.\<close>

definition journal_run :: "(u32 \<times> u64) list \<Rightarrow> (u32 \<times> u64 \<times> block) list \<Rightarrow> bool \<Rightarrow> 'w journal \<Rightarrow> 'w journal res" where
  "journal_run ls ws commit j =
     bind_res (journal_begin j) (\<lambda>(rc, j1).
     bind_res (log_all ls j1) (\<lambda>j2.
     bind_res (write_all ws j2) (\<lambda>j3.
     bind_res (if commit then bind_res (journal_commit j3) (\<lambda>(rc, j4). Inr j4) else Inr j3) (\<lambda>j4.
     bind_res (journal_replay j4) (\<lambda>(rc, j5). Inr j5)))))"

definition logged :: "'w disk \<Rightarrow> u32 set \<Rightarrow> val list \<Rightarrow> (u32 \<times> u64) list \<Rightarrow> 'w journal \<Rightarrow> 'w journal \<Rightarrow> bool" where
  "logged disk D R ls j0 j \<longleftrightarrow> log_ok disk D R j \<and> same_log j0 j \<and> j_txn j \<and> j_pos j = of_nat (length ls) \<and>
     records disk ls (jmem disk j0) (length ls) j \<and>
     (\<forall>d l. \<not> in_log j0 (d, l) \<longrightarrow> jmem disk j d l = jmem disk j0 d l)"

lemma records_snoc:
  assumes ok: "log_ok disk D R j" and r: "records disk ls M k j" and k: "k = length ls" "k < unat (j_n j)"
    and m: "jmem disk j' = put_block (j_dev j) (log_lba j (2 * k + 1)) (M (fst x) (snd x))
      (put_block (j_dev j) (log_lba j (2 * k)) h (jmem disk j))"
    and h: "hdr_magic h = JOURNAL_MAGIC" "hdr_commit h = 0" "(hdr_dev h, hdr_lba h) = x" and s: "same_log j j'"
  shows "records disk (ls @ [x]) M (Suc k) j'"
proof -
  have e: "j_dev j' = j_dev j" "j_n j' = j_n j" "log_lba j' = log_lba j" using same_log_eq [OF s] by auto
  have old: "jmem disk j' (j_dev j) (log_lba j i) = jmem disk j (j_dev j) (log_lba j i)"
    if "i < 2 * unat (j_n j)" "i \<noteq> 2 * k" "i \<noteq> 2 * k + 1" for i
    using that k(2) log_lba_other [OF ok that(1)] by (simp add: m)
  have new: "jmem disk j' (j_dev j) (log_lba j (2 * k)) = h"
    "jmem disk j' (j_dev j) (log_lba j (2 * k + 1)) = M (fst x) (snd x)"
    using k(2) log_lba_other [OF ok, of "2 * k" "2 * k + 1"] by (simp_all add: m)
  have ne: "2 * i \<noteq> 2 * k \<and> 2 * i \<noteq> 2 * k + 1 \<and> 2 * i + 1 \<noteq> 2 * k \<and> 2 * i + 1 \<noteq> 2 * k + 1" if "i \<noteq> k" for i :: nat
    using that by presburger
  show ?thesis
    unfolding records_def e Let_def
  proof (intro conjI allI impI)
    fix i assume "i < length (ls @ [x])"
    then consider "i < length ls" | "i = k" using k(1) by force
    note c = this
    show "hdr_magic (jmem disk j' (j_dev j) (log_lba j (2 * i))) = JOURNAL_MAGIC"
      "hdr_commit (jmem disk j' (j_dev j) (log_lba j (2 * i))) = 0"
      "(hdr_dev (jmem disk j' (j_dev j) (log_lba j (2 * i))), hdr_lba (jmem disk j' (j_dev j) (log_lba j (2 * i)))) = (ls @ [x]) ! i"
      "jmem disk j' (j_dev j) (log_lba j (2 * i + 1)) = M (fst ((ls @ [x]) ! i)) (snd ((ls @ [x]) ! i))"
      using c by (cases; use r k h new old [of "2 * i"] old [of "2 * i + 1"] ne [of i] in \<open>simp add: records_def Let_def nth_append\<close>)+
  next
    fix i assume "Suc k \<le> i" "i < unat (j_n j)"
    then show "hdr_magic (jmem disk j' (j_dev j) (log_lba j (2 * i))) \<noteq> JOURNAL_MAGIC"
      using r old [of "2 * i"] ne [of i] by (simp add: records_def)
  qed (use k in auto)
qed

lemma frame_more [simp]:
  "same_log j (j\<lparr>j_txn := t\<rparr>)" "same_log j (j\<lparr>j_seq := q, j_txn := t\<rparr>)" "same_log j (j\<lparr>j_txn := t, j_commits := c\<rparr>)"
  "same_log j (j\<lparr>j_pos := p, j_commits := c, j_blk := st\<rparr>)"
  by (simp_all add: same_log_def)

lemma log_ok_cong:
  "j_blk j' = j_blk j \<Longrightarrow> same_log j j' \<Longrightarrow> log_ok disk D R j' = log_ok disk D R j \<and> jmem disk j' = jmem disk j"
  by (auto simp: log_ok_def jmem_def same_log_def)

lemma journal_begin_ok:
  assumes "log_ok disk D R j" and "\<not> j_txn j" and "j_pos j = 0" and "records disk [] (jmem disk j) 0 j"
  shows "\<exists>j'. journal_begin j = Inr (0, j') \<and> logged disk D R [] j j'"
proof -
  let ?j = "j\<lparr>j_seq := j_seq j + 1, j_txn := True\<rparr>"
  have e: "log_ok disk D R ?j" "jmem disk ?j = jmem disk j" using log_ok_cong [of ?j j disk D R] assms(1) by simp_all
  obtain st where st: "j_reg_set ''/sys/journal/in_txn'' (val_int 1) (RK_READ OR RK_WRITE) ?j = Inr (?j\<lparr>j_blk := st\<rparr>)"
    "log_ok disk D R (?j\<lparr>j_blk := st\<rparr>)" "jmem disk (?j\<lparr>j_blk := st\<rparr>) = jmem disk j"
    using j_reg_set_ok [OF e(1) journal_path_good int_str_ref(1) [of 1], where rights = "RK_READ OR RK_WRITE" and p = "''/sys/journal/in_txn''"] e(2) by auto
  let ?j' = "?j\<lparr>j_blk := st\<rparr>"
  have l: "same_log j ?j'" by (simp add: same_log_def)
  have "same_area disk j ?j'" using l st(3) by (simp add: same_area_def)
  from records_cong [OF this assms(4)] show ?thesis
    using st l assms by (auto simp: journal_begin_def logged_def)
qed

lemma journal_log_ok:
  assumes "logged disk D R ls j0 j" and "d \<in> D" and "\<not> in_log j0 (d, l)" and "length ls < unat (j_n j0)"
  shows "\<exists>j'. journal_log d l j = Inr (0, j') \<and> logged disk D R (ls @ [(d, l)]) j0 j'"
proof -
  let ?k = "length ls"
  have g: "log_ok disk D R j" "same_log j0 j" "j_txn j" "j_pos j = of_nat ?k" "records disk ls (jmem disk j0) ?k j"
    "\<forall>d l. \<not> in_log j0 (d, l) \<longrightarrow> jmem disk j d l = jmem disk j0 d l"
    using assms(1) by (simp_all add: logged_def)
  have n: "j_n j = j_n j0" "in_log j = in_log j0" using same_log_eq [OF g(2)] by auto
  obtain st where r: "j_read d l j = Inr (Some (jmem disk j0 d l), j\<lparr>j_blk := st\<rparr>)" "log_ok disk D R (j\<lparr>j_blk := st\<rparr>)"
    "jmem disk (j\<lparr>j_blk := st\<rparr>) = jmem disk j"
    using j_read_ok [OF g(1) assms(2), of l] g(6) assms(3) by auto
  let ?j1 = "j\<lparr>j_blk := st, j_pos := of_nat (Suc ?k)\<rparr>"
  have l1: "same_log j ?j1" by (simp add: same_log_def)
  have e1: "log_ok disk D R ?j1" "jmem disk ?j1 = jmem disk j"
    using log_ok_cong [of ?j1 "j\<lparr>j_blk := st\<rparr>" disk D R] r(2,3) by (simp_all add: same_log_def)
  have "?k < unat (j_n ?j1)" using assms(4) n by simp
  from write_record_ok [OF e1(1) this, of d l "Some (jmem disk j0 d l)" 0] e1(2) same_log_eq [OF l1]
  obtain st2 where w: "write_record (of_nat ?k) d l (Some (jmem disk j0 d l)) 0 ?j1 = Inr (?j1\<lparr>j_blk := st2\<rparr>)"
    "log_ok disk D R (?j1\<lparr>j_blk := st2\<rparr>)"
    "jmem disk (?j1\<lparr>j_blk := st2\<rparr>) = put_block (j_dev j) (log_lba j (2 * ?k + 1)) (jmem disk j0 d l)
       (put_block (j_dev j) (log_lba j (2 * ?k)) (journal_hdr (j_seq j) d l 0) (jmem disk j))"
    by (auto simp: Let_def)
  let ?j2 = "?j1\<lparr>j_blk := st2\<rparr>"
  have l2: "same_log j ?j2" "same_log j0 ?j2" using g(2) by (simp_all add: same_log_def)
  have "records disk (ls @ [(d, l)]) (jmem disk j0) (Suc ?k) ?j2"
    by (rule records_snoc [OF g(1,5) refl _ _ _ _ _ l2(1), where h = "journal_hdr (j_seq j) d l 0"])
      (use assms(4) n w(3) in simp_all)
  moreover have "jmem disk ?j2 d' l' = jmem disk j0 d' l'" if "\<not> in_log j0 (d', l')" for d' l'
  proof -
    have "(d', l') \<noteq> (j_dev j, log_lba j (2 * ?k))" "(d', l') \<noteq> (j_dev j, log_lba j (2 * ?k + 1))"
      using that in_log_lba [of "2 * ?k" j] in_log_lba [of "2 * ?k + 1" j] assms(4) n by auto
    then show ?thesis using w(3) that g(6) put_block_other by simp
  qed
  moreover have "journal_log d l j = Inr (0, ?j2)"
    using g(3,4) assms(4) r(1) w(1) n by (auto simp: journal_log_def Let_def add.commute)
  ultimately show ?thesis using w(2) l2(2) g(3) by (auto simp: logged_def)
qed

lemma log_all_ok:
  assumes "logged disk D R ls j0 j" and "\<forall>x \<in> set xs. fst x \<in> D \<and> \<not> in_log j0 x"
    and "length ls + length xs \<le> unat (j_n j0)"
  shows "\<exists>j'. log_all xs j = Inr j' \<and> logged disk D R (ls @ xs) j0 j'"
  using assms
proof (induction xs arbitrary: ls j)
  case (Cons x xs)
  obtain d l where x: "x = (d, l)" by (cases x)
  obtain j1 where j1: "journal_log d l j = Inr (0, j1)" "logged disk D R (ls @ [x]) j0 j1"
    using journal_log_ok [OF Cons.prems(1), of d l] Cons.prems(2,3) x by auto
  show ?case using Cons.IH [OF j1(2)] Cons.prems(2,3) j1(1) x by auto
qed auto

lemma write_all_ok:
  assumes "log_ok disk D R j" and "\<forall>(d, l, b) \<in> set ws. d \<in> D \<and> \<not> in_log j (d, l)"
  shows "\<exists>j'. write_all ws j = Inr j' \<and> log_ok disk D R j' \<and> same_area disk j j' \<and> jmem disk j' = put_all ws (jmem disk j) \<and>
    j_txn j' = j_txn j \<and> j_pos j' = j_pos j"
  using assms
proof (induction ws arbitrary: j)
  case (Cons x ws)
  obtain d l b where x: "x = (d, l, b)" by (cases x)
  obtain st where w: "j_write d l b j = Inr (j\<lparr>j_blk := st\<rparr>)" "log_ok disk D R (j\<lparr>j_blk := st\<rparr>)"
    "jmem disk (j\<lparr>j_blk := st\<rparr>) = put_block d l b (jmem disk j)"
    using j_write_ok [OF Cons.prems(1), of d l b] Cons.prems(2) x by auto
  have a: "same_area disk j (j\<lparr>j_blk := st\<rparr>)" using same_area_put [OF _ w(3)] Cons.prems(2) x by auto
  have "in_log (j\<lparr>j_blk := st\<rparr>) = in_log j" using same_log_eq [of j "j\<lparr>j_blk := st\<rparr>"] by simp
  then obtain j' where "write_all ws (j\<lparr>j_blk := st\<rparr>) = Inr j'" "log_ok disk D R j'" "same_area disk (j\<lparr>j_blk := st\<rparr>) j'"
    "jmem disk j' = put_all ws (jmem disk (j\<lparr>j_blk := st\<rparr>))" "j_txn j' = j_txn j" "j_pos j' = j_pos j"
    using Cons.IH [OF w(2)] Cons.prems(2) by auto
  then show ?case using w x same_area_trans [OF a] by (auto simp: put_all_def)
qed (auto simp: put_all_def)

text \<open>What a commit and a replay keep: the log with its area, and all blocks outside it.\<close>

definition closed ::
  "'w disk \<Rightarrow> u32 set \<Rightarrow> val list \<Rightarrow> (u32 \<times> u64) list \<Rightarrow> (u32 \<Rightarrow> u64 \<Rightarrow> block) \<Rightarrow> 'w journal \<Rightarrow> 'w journal \<Rightarrow> bool" where
  "closed disk D R ls M j0 j \<longleftrightarrow> log_ok disk D R j \<and> same_log j0 j \<and> (\<exists>k. records disk ls M k j) \<and>
     (\<forall>d l. \<not> in_log j0 (d, l) \<longrightarrow> jmem disk j d l = jmem disk j0 d l)"

lemma closed_step:
  assumes "closed disk D R ls M j0 j" and "log_ok disk D R j'" and "same_log j j'" and "jmem disk j' = jmem disk j"
  shows "closed disk D R ls M j0 j'"
proof -
  have "same_area disk j j'" using assms(3,4) by (simp add: same_area_def)
  from records_cong [OF this] show ?thesis using assms same_log_trans by (auto simp: closed_def)
qed

lemma closed_set:
  assumes "closed disk D R ls M j0 j" and "same_log j j1" and "j_blk j1 = j_blk j" and "good_path p" and "ref_of v = None"
  shows "\<exists>st. j_reg_set p v rights j1 = Inr (j1\<lparr>j_blk := st\<rparr>) \<and> closed disk D R ls M j0 (j1\<lparr>j_blk := st\<rparr>)"
proof -
  have e: "log_ok disk D R j1" "jmem disk j1 = jmem disk j"
    using log_ok_cong [OF assms(3,2), of disk D R] assms(1) by (simp_all add: closed_def)
  from j_reg_set_ok [OF e(1) assms(4,5), of rights]
  show ?thesis using closed_step [OF assms(1)] same_log_trans [OF assms(2)] e(2) by fastforce
qed

lemma journal_checkpoint_ok:
  assumes "closed disk D R ls M j0 j"
  shows "\<exists>j'. journal_checkpoint j = Inr j' \<and> closed disk D R ls M j0 j'"
proof -
  obtain st where st: "blk_sync (j_blk j) = Inr st" "blk_ok disk D R st" "memory disk st = jmem disk j"
    using blk_sync_ok [of disk D R "j_blk j"] assms by (auto simp: closed_def log_ok_def jmem_def)
  let ?j = "j\<lparr>j_blk := st\<rparr>"
  have "closed disk D R ls M j0 ?j"
    by (rule closed_step [OF assms]) (use st assms in \<open>simp_all add: closed_def log_ok_def jmem_def\<close>)
  from closed_set [OF this _ _ journal_path_good int_str_ref(2), of "j\<lparr>j_pos := 0, j_commits := 0, j_blk := st\<rparr>"
      "''/sys/journal/status''" "''checkpointed''" RK_READ]
  show ?thesis using st(1) by (auto simp: journal_checkpoint_def same_log_def)
qed

lemma journal_commit_ok:
  assumes ok: "log_ok disk D R j" and j: "j_txn j" "j_pos j = of_nat (length ls)" "length ls < unat (j_n j)"
    and r: "records disk ls M (length ls) j"
  shows "\<exists>j'. journal_commit j = Inr (0, j') \<and> closed disk D R ls M j j'"
proof -
  let ?k = "length ls"
  let ?j1 = "j\<lparr>j_pos := of_nat (Suc ?k)\<rparr>"
  have e1: "log_ok disk D R ?j1" "jmem disk ?j1 = jmem disk j" using ok by (simp_all add: log_ok_frame)
  have n: "?k < unat (j_n ?j1)" using j(3) by simp
  have l0: "log_lba ?j1 = log_lba j" by (simp add: log_lba_def fun_eq_iff)
  let ?h = "journal_hdr (j_seq j) (j_dev j) 0 1"
  from write_record_ok [OF e1(1) n, of "j_dev j" 0 None 1] obtain st where
    w: "write_record (of_nat ?k) (j_dev j) 0 None 1 ?j1 = Inr (?j1\<lparr>j_blk := st\<rparr>)"
    "log_ok disk D R (?j1\<lparr>j_blk := st\<rparr>)"
    "jmem disk (?j1\<lparr>j_blk := st\<rparr>) = put_block (j_dev j) (log_lba j (2 * ?k)) ?h (jmem disk j)"
    using e1(2) l0 by (auto simp: Let_def)
  let ?j2 = "?j1\<lparr>j_blk := st\<rparr>"
  have l2: "same_log j ?j2" by (simp add: same_log_def)
  have "records disk ls M (Suc ?k) ?j2" by (rule records_commit [OF ok r refl j(3) w(3) _ _ l2]) simp_all
  moreover have "jmem disk ?j2 d l = jmem disk j d l" if "\<not> in_log j (d, l)" for d l
    using that in_log_lba [of "2 * ?k" j] j(3) w(3) put_block_other [of d l "j_dev j" "log_lba j (2 * ?k)"] by auto
  ultimately have c2: "closed disk D R ls M j ?j2" using w(2) l2 by (auto simp: closed_def)
  let ?j3 = "?j2\<lparr>j_txn := False, j_commits := j_commits j + 1\<rparr>"
  have s3: "same_log ?j2 ?j3" "j_blk ?j3 = j_blk ?j2" by (simp_all add: same_log_def)
  from closed_set [OF c2 s3 journal_path_good int_str_ref(1) [of 0],
      where rights = "RK_READ OR RK_WRITE" and p = "''/sys/journal/in_txn''"]
  obtain j4 where j4: "j_reg_set ''/sys/journal/in_txn'' (val_int 0) (RK_READ OR RK_WRITE) ?j3 = Inr j4"
    "closed disk D R ls M j j4" by auto
  from closed_set [OF j4(2) same_log_refl refl journal_path_good int_str_ref(1) [of "j_seq j4"],
      where rights = RK_READ and p = "''/sys/journal/seq''"]
  obtain j5 where j5: "j_reg_set ''/sys/journal/seq'' (val_int (j_seq j4)) RK_READ j4 = Inr j5" "closed disk D R ls M j j5" by auto
  from closed_set [OF j5(2) same_log_refl refl journal_path_good int_str_ref(1) [of "of_int (j_commits j5)"],
      where rights = RK_READ and p = "''/sys/journal/commit_cnt''"]
  obtain j6 where j6: "j_reg_set ''/sys/journal/commit_cnt'' (val_int (of_int (j_commits j5))) RK_READ j5 = Inr j6"
    "closed disk D R ls M j j6" by auto
  obtain j7 where j7: "(if j_commits j6 mod 64 = 0 then journal_checkpoint j6 else Inr j6) = Inr j7" "closed disk D R ls M j j7"
    using journal_checkpoint_ok [OF j6(2)] j6(2) by (cases "j_commits j6 mod 64 = 0") auto
  have "journal_commit j = Inr (0, j7)"
    using j(1,2) w(1) j4(1) j5(1) j6(1) j7(1) by (simp add: journal_commit_def Let_def add.commute)
  then show ?thesis using j7(2) by blast
qed

lemma journal_replay_ok:
  assumes c: "closed disk D R ls M j0 j" and ls: "\<forall>x \<in> set ls. fst x \<in> D \<and> \<not> in_log j0 x"
  shows "\<exists>j'. journal_replay j = Inr (0, j') \<and> log_ok disk D R j' \<and>
    (\<forall>d l. jmem disk j' d l = (if (d, l) \<in> set ls then M d l else jmem disk j d l))"
proof -
  obtain k where g: "log_ok disk D R j" "same_log j0 j" "records disk ls M k j" using c by (auto simp: closed_def)
  have ls': "\<forall>x \<in> set ls. fst x \<in> D \<and> \<not> in_log j x" using ls same_log_eq [OF g(2)] by simp
  from replay_loop_ok [OF g(1,3) ls', of 0 "unat (j_n j)"] obtain pos j1 where
    j1: "replay_loop (unat (j_n j)) 0 j = Inr (pos, j1)" "log_ok disk D R j1"
    "\<forall>d l. jmem disk j1 d l = (if (d, l) \<in> set ls then M d l else jmem disk j d l)"
    by auto
  from j_reg_set_ok [OF j1(2) journal_path_good int_str_ref(1) [of pos], where rights = RK_READ and p = "''/sys/journal/replayed''"]
  obtain j2 where "j_reg_set ''/sys/journal/replayed'' (val_int pos) RK_READ j1 = Inr j2" "log_ok disk D R j2"
    "jmem disk j2 = jmem disk j1" by auto
  moreover have "j_n j \<noteq> 0" using g(1) by (auto simp: log_ok_def)
  ultimately show ?thesis using j1 by (auto simp: journal_replay_def)
qed

lemma journal_run_ok:
  assumes ok: "log_ok disk D R j" and idle: "\<not> j_txn j" "j_pos j = 0"
    and blank: "\<forall>i < unat (j_n j). hdr_magic (jmem disk j (j_dev j) (log_lba j (2 * i))) \<noteq> JOURNAL_MAGIC"
    and ls: "\<forall>x \<in> set ls. fst x \<in> D \<and> \<not> in_log j x" and len: "length ls < unat (j_n j)"
    and ws: "\<forall>(d, l, b) \<in> set ws. d \<in> D \<and> \<not> in_log j (d, l)"
  shows "\<exists>j'. journal_run ls ws commit j = Inr j' \<and>
    (\<forall>d l. \<not> in_log j (d, l) \<longrightarrow>
       jmem disk j' d l = (if (d, l) \<in> set ls then jmem disk j d l else put_all ws (jmem disk j) d l))"
proof -
  let ?M = "jmem disk j"
  have "records disk [] ?M 0 j" using blank by (simp add: records_def)
  from journal_begin_ok [OF ok idle this] obtain j1 where j1: "journal_begin j = Inr (0, j1)" "logged disk D R [] j j1" by blast
  from log_all_ok [OF j1(2) ls] len obtain j2 where j2: "log_all ls j1 = Inr j2" "logged disk D R ls j j2" by auto
  have g: "log_ok disk D R j2" "same_log j j2" "j_txn j2" "j_pos j2 = of_nat (length ls)" "records disk ls ?M (length ls) j2"
    "\<forall>d l. \<not> in_log j (d, l) \<longrightarrow> jmem disk j2 d l = ?M d l" using j2(2) by (simp_all add: logged_def)
  have in2: "in_log j2 = in_log j" "j_n j2 = j_n j" using same_log_eq [OF g(2)] by auto
  from write_all_ok [OF g(1), of ws] ws in2 obtain j3 where j3: "write_all ws j2 = Inr j3" "log_ok disk D R j3"
    "same_area disk j2 j3" "jmem disk j3 = put_all ws (jmem disk j2)" "j_txn j3" "j_pos j3 = of_nat (length ls)"
    using g(3,4) by auto
  have in3: "in_log j3 = in_log j" "j_n j3 = j_n j" using same_log_eq [of j2 j3] j3(3) in2 by (auto simp: same_area_def)
  have r3: "records disk ls ?M (length ls) j3" using records_cong [OF j3(3) g(5)] .
  obtain j4 where j4: "(if commit then bind_res (journal_commit j3) (\<lambda>(rc, j4). Inr j4) else Inr j3) = Inr j4"
    "closed disk D R ls ?M j3 j4"
  proof (cases commit)
    case True
    then show thesis using journal_commit_ok [OF j3(2,5,6) _ r3] len in3 that by auto
  next
    case False
    have "closed disk D R ls ?M j3 j3" using j3(2) r3 by (auto simp: closed_def)
    then show thesis using False that by simp
  qed
  from journal_replay_ok [OF j4(2)] ls in3 obtain j5 where j5: "journal_replay j4 = Inr (0, j5)"
    "\<forall>d l. jmem disk j5 d l = (if (d, l) \<in> set ls then ?M d l else jmem disk j4 d l)" by auto
  have "jmem disk j4 d l = put_all ws ?M d l" if "\<not> in_log j (d, l)" for d l
    using j4(2) that in3 j3(4) put_all_cong [where m = "jmem disk j2" and m' = ?M] g(6) by (auto simp: closed_def)
  then show ?thesis using j1(1) j2(1) j3(1) j4(1) j5 by (auto simp: journal_run_def)
qed

text \<open>A commit changes nothing of this: a committed transaction is undone as well, against the comments of the file,
  which speak of uncommitted entries. \<open>journal_run_ok\<close> covers both.\<close>

lemma committed_undone:
  assumes "log_ok disk D R j" and "\<not> j_txn j" and "j_pos j = 0"
    and "\<forall>i < unat (j_n j). hdr_magic (jmem disk j (j_dev j) (log_lba j (2 * i))) \<noteq> JOURNAL_MAGIC"
    and "\<forall>x \<in> set ls. fst x \<in> D \<and> \<not> in_log j x" and "length ls < unat (j_n j)"
    and "\<forall>(d, l, b) \<in> set ws. d \<in> D \<and> \<not> in_log j (d, l)" and "(d, l) \<in> set ls"
  shows "\<exists>j'. journal_run ls ws True j = Inr j' \<and> jmem disk j' d l = jmem disk j d l"
  using journal_run_ok [OF assms(1-7), of True] assms(5,8) by force

text \<open>C17: A replay rolls back an interrupted transaction. On a blank log a transaction begins, the blocks \<open>ls\<close> are logged
  first, then any blocks outside the log are written, and there is no commit: the replay gives every logged block the
  content it had before the transaction, and the other blocks keep what was written. The order matters (a block logged
  again after it was written gets a content from the middle), and the block cache is kept: what a loss of power takes
  from it is not modelled.\<close>

theorem journal_replay_undoes:
  assumes "log_ok disk D R j" and "\<not> j_txn j" and "j_pos j = 0"
    and "\<forall>i < unat (j_n j). hdr_magic (jmem disk j (j_dev j) (log_lba j (2 * i))) \<noteq> JOURNAL_MAGIC"
    and "\<forall>x \<in> set ls. fst x \<in> D \<and> \<not> in_log j x" and "length ls < unat (j_n j)"
    and "\<forall>(d, l, b) \<in> set ws. d \<in> D \<and> \<not> in_log j (d, l)"
  shows "\<exists>j'. journal_run ls ws False j = Inr j' \<and>
    (\<forall>d l. \<not> in_log j (d, l) \<longrightarrow>
       jmem disk j' d l = (if (d, l) \<in> set ls then jmem disk j d l else put_all ws (jmem disk j) d l))"
  by (rule journal_run_ok [OF assms])

definition ram_journal :: "(u32 \<Rightarrow> u64 \<Rightarrow> block) journal" where
  "ram_journal = \<lparr>j_dev = 1, j_base = 100, j_n = 4, j_pos = 0, j_seq = 0, j_txn = False, j_commits = 0,
     j_blk = ram_blk\<lparr>b_disk := (\<lambda>d l. replicate BLK_SIZE 0)\<rparr>\<rparr>"

lemma ram_journal_ok: "log_ok (\<lambda>w. w) {1} [] ram_journal" "jmem (\<lambda>w. w) ram_journal = (\<lambda>d l. replicate BLK_SIZE 0)"
proof -
  let ?st = "ram_blk\<lparr>b_disk := (\<lambda>d l. replicate BLK_SIZE 0)\<rparr>"
  have none: "cache_find d l ?st = None" for d l
    by (simp add: cache_find_None ram_blk_def empty_buf_def has_key_def)
  have "blk_ok (\<lambda>w. w) {1} [] ?st"
    using reg_init_blank
    by (auto simp: blk_ok_def ram_blk_def drivers_ok_def blk_find_dev_def ram_driver_def slots_ok_def empty_buf_def has_key_def)
  then show "log_ok (\<lambda>w. w) {1} [] ram_journal" by (simp add: log_ok_def ram_journal_def)
  show "jmem (\<lambda>w. w) ram_journal = (\<lambda>d l. replicate BLK_SIZE 0)"
    using none by (simp add: jmem_def ram_journal_def memory_def fun_eq_iff)
qed

theorem journal_replay_undoes_witness:
  "\<exists>j'. journal_run [(1, 5)] [(1, 5, [7]), (1, 6, [8])] False ram_journal = Inr j' \<and>
     jmem (\<lambda>w. w) j' 1 5 = replicate BLK_SIZE 0 \<and> jmem (\<lambda>w. w) j' 1 6 = [8]"
proof -
  let ?z = "replicate BLK_SIZE (0 :: u8)"
  have z: "take 4 ?z = [0, 0, 0, 0]" by (simp add: numeral_eq_Suc)
  have "hdr_magic ?z \<noteq> JOURNAL_MAGIC" unfolding hdr_magic_def z by (simp add: le_read32_def)
  then have blank: "\<forall>i < unat (j_n ram_journal). hdr_magic (jmem (\<lambda>w. w) ram_journal (j_dev ram_journal) (log_lba ram_journal (2 * i)))
      \<noteq> JOURNAL_MAGIC"
    by (simp add: ram_journal_ok)
  have out: "\<not> in_log ram_journal (1, l)" if "l = 5 \<or> l = 6" for l
  proof
    assume "in_log ram_journal (1, l)"
    then obtain i where i: "i < 8" "l = 100 + of_nat i" by (auto simp: in_log_def ram_journal_def log_lba_def)
    then have "unat l = 100 + i" by (simp add: unat_word_ariths unat_of_nat)
    then show False using that by auto
  qed
  have len: "length [(1 :: u32, 5 :: u64)] < unat (j_n ram_journal)" by (simp add: ram_journal_def)
  have idle: "\<not> j_txn ram_journal" "j_pos ram_journal = 0" by (simp_all add: ram_journal_def)
  from journal_replay_undoes [OF ram_journal_ok(1) idle blank _ len, of "[(1, 5, [7]), (1, 6, [8])]"] out
  show ?thesis by (auto simp: ram_journal_ok(2) put_all_def put_block_def)
qed

end
