(* ===== verification/Fat.thy ===== *)
theory Fat
  imports Blk RegIpc
begin

section \<open>The FAT16 file system (\<^verbatim>\<open>fs/fat.c\<close>)\<close>

unbundle bit_operations_syntax

text \<open>
  The static variables of the file and the block cache below them. Return codes of \<open>blk_read\<close> are
  not looked at, so a sector buffer may be read before anything was written to it; that is the
  fault \<open>Uninit\<close>. A buffer is a block, or none before its first successful read.
\<close>

record fathandle =
  fh_in_use :: bool
  fh_first_cluster :: u32
  fh_file_size :: u32
  fh_pos :: u32
  fh_is_dir :: bool
  fh_dir_idx :: u32

record 'w fat =
  f_dev :: u32
  f_fat_start_lba :: u32
  f_root_start_lba :: u32
  f_data_start_lba :: u32
  f_cluster_size :: u32
  f_root_entries :: u32
  f_mounted :: bool
  f_handles :: "fathandle list"
  f_blk :: "'w blk"

record fatentry =
  fe_handle :: int
  fe_cluster :: u32
  fe_size :: u32
  fe_pos :: u32
  fe_is_dir :: bool
  fe_name :: "u8 list"

abbreviation (input) FAT_MAX_HANDLES :: nat where "FAT_MAX_HANDLES \<equiv> 16"
abbreviation (input) MAX_FAT_CLUSTERS :: u32 where "MAX_FAT_CLUSTERS \<equiv> 0xFFF0"

definition no_handle :: fathandle where
  "no_handle = \<lparr>fh_in_use = False, fh_first_cluster = 0, fh_file_size = 0, fh_pos = 0, fh_is_dir = False, fh_dir_idx = 0\<rparr>"

subsection \<open>Fields of the packed structures\<close>

definition field16 :: "nat \<Rightarrow> u8 list \<Rightarrow> u16" where
  "field16 off b = ucast (le_read (take 2 (drop off b)))"

definition field32 :: "nat \<Rightarrow> u8 list \<Rightarrow> u32" where
  "field32 off b = ucast (le_read (take 4 (drop off b)))"

record bpb =
  bytes_per_sector :: u16
  sectors_per_cluster :: u8
  reserved_sectors :: u16
  n_fats :: u8
  root_entry_count :: u16
  fat_size_16 :: u16

definition fat16_bpb :: "block \<Rightarrow> bpb" where
  "fat16_bpb b = \<lparr>bytes_per_sector = field16 11 b, sectors_per_cluster = b ! 13, reserved_sectors = field16 14 b,
     n_fats = b ! 16, root_entry_count = field16 17 b, fat_size_16 = field16 22 b\<rparr>"

record dirent =
  de_name :: "u8 list"
  de_ext :: "u8 list"
  de_attr :: u8
  de_first_cluster :: u16
  de_file_size :: u32

definition dir_entry :: "nat \<Rightarrow> block \<Rightarrow> dirent" where
  "dir_entry i b = (let e = drop (32 * i) b in
     \<lparr>de_name = take 8 e, de_ext = take 3 (drop 8 e), de_attr = e ! 11, de_first_cluster = field16 26 e, de_file_size = field32 28 e\<rparr>)"

subsection \<open>Sectors\<close>

definition f_read :: "u32 \<Rightarrow> block option \<Rightarrow> 'w fat \<Rightarrow> (block option \<times> 'w fat) res" where
  "f_read lba buf f =
     bind_res (blk_read (f_dev f) (ucast lba) (f_blk f)) (\<lambda>(r, st).
       Inr (case r of Some b \<Rightarrow> Some b | None \<Rightarrow> buf, f\<lparr>f_blk := st\<rparr>))"

definition init_buf :: "block option \<Rightarrow> block res" where
  "init_buf buf = (case buf of Some b \<Rightarrow> Inr b | None \<Rightarrow> Inl Uninit)"

definition fat_entry :: "u32 \<Rightarrow> 'w fat \<Rightarrow> (u16 \<times> 'w fat) res" where
  "fat_entry cluster f =
     (let fat_offset = cluster * 2; fat_lba = f_fat_start_lba f + fat_offset div 512 in
      bind_res (f_read fat_lba None f) (\<lambda>(buf, f1).
      bind_res (init_buf buf) (\<lambda>sector.
        let off = unat (fat_offset mod 512) in
        Inr (ucast (sector ! off) OR push_bit 8 (ucast (sector ! (off + 1))), f1))))"

definition fat_init :: "u32 \<Rightarrow> 'w fat \<Rightarrow> (int \<times> 'w fat) res" where
  "fat_init dev_id f =
     bind_res (blk_read dev_id 0 (f_blk f)) (\<lambda>(r, st).
       let f1 = f\<lparr>f_blk := st\<rparr> in
       case r of
         None \<Rightarrow> Inr (-1, f1)
       | Some boot \<Rightarrow>
           let b = fat16_bpb boot in
           if bytes_per_sector b \<noteq> 512 then Inr (-1, f1)
           else
             let fat_start = ucast (reserved_sectors b);
                 root_start = fat_start + ucast (n_fats b) * ucast (fat_size_16 b);
                 root_entries = ucast (root_entry_count b) in
             Inr (0, f1\<lparr>f_dev := dev_id, f_fat_start_lba := fat_start, f_root_start_lba := root_start,
               f_root_entries := root_entries, f_cluster_size := ucast (sectors_per_cluster b),
               f_data_start_lba := root_start + (root_entries * 32 + 511) div 512, f_mounted := True,
               f_handles := replicate FAT_MAX_HANDLES no_handle\<rparr>))"

fun free_handle :: "nat \<Rightarrow> fathandle list \<Rightarrow> nat option" where
  "free_handle i [] = None"
| "free_handle i (h # hs) = (if \<not> fh_in_use h then Some i else free_handle (Suc i) hs)"

definition handle_alloc :: "'w fat \<Rightarrow> nat option" where
  "handle_alloc f = free_handle 0 (f_handles f)"

subsection \<open>Names\<close>

definition until_space :: "u8 list \<Rightarrow> u8 list" where
  "until_space = takeWhile (\<lambda>c. c \<noteq> 0x20)"

definition c_string :: "u8 list \<Rightarrow> string" where
  "c_string bs = string_of (takeWhile (\<lambda>c. c \<noteq> 0) bs)"

definition name_8_3 :: "dirent \<Rightarrow> u8 list" where
  "name_8_3 d = until_space (de_name d) @ (if hd (de_ext d) \<noteq> 0x20 then 0x2E # until_space (de_ext d) else [])"

datatype search = Stop | Found dirent | More

fun search_sector :: "string \<Rightarrow> dirent list \<Rightarrow> search" where
  "search_sector name [] = More"
| "search_sector name (d # ds) =
     (if hd (de_name d) = 0 then Stop
      else if hd (de_name d) = 0xE5 then search_sector name ds
      else if de_attr d AND 0x08 \<noteq> 0 then search_sector name ds
      else if c_string (name_8_3 d) = name then Found d
      else search_sector name ds)"

definition sector_entries :: "block \<Rightarrow> dirent list" where
  "sector_entries b = List.map (\<lambda>i. dir_entry i b) [0..<16]"

fun search_root :: "string \<Rightarrow> u32 list \<Rightarrow> block option \<Rightarrow> 'w fat \<Rightarrow> (dirent option \<times> 'w fat) res" where
  "search_root name [] buf f = Inr (None, f)"
| "search_root name (s # ss) buf f =
     bind_res (f_read (f_root_start_lba f + s) buf f) (\<lambda>(buf1, f1).
     bind_res (init_buf buf1) (\<lambda>b.
       case search_sector name (sector_entries b) of
         Stop \<Rightarrow> Inr (None, f1)
       | Found d \<Rightarrow> Inr (Some d, f1)
       | More \<Rightarrow> search_root name ss buf1 f1))"

definition root_sectors :: "'w fat \<Rightarrow> u32" where
  "root_sectors f = (f_root_entries f * 32 + 511) div 512"

definition find_in_root :: "string \<Rightarrow> 'w fat \<Rightarrow> (dirent option \<times> 'w fat) res" where
  "find_in_root name f = search_root name (List.map of_nat [0..<unat (root_sectors f)]) None f"

definition upd_handle :: "nat \<Rightarrow> (fathandle \<Rightarrow> fathandle) \<Rightarrow> 'w fat \<Rightarrow> 'w fat" where
  "upd_handle h g f = f\<lparr>f_handles := (f_handles f)[h := g (f_handles f ! h)]\<rparr>"

definition fat_open :: "string \<Rightarrow> 'w fat \<Rightarrow> (int \<times> 'w fat) res" where
  "fat_open path f =
     (if \<not> f_mounted f then Inr (-1, f)
      else case handle_alloc f of
        None \<Rightarrow> Inr (-1, f)
      | Some h \<Rightarrow>
          let name = (case path of CHR ''/'' # p \<Rightarrow> p | _ \<Rightarrow> path) in
          bind_res (find_in_root name f) (\<lambda>(e, f1).
            case e of
              None \<Rightarrow> Inr (-1, f1)
            | Some d \<Rightarrow> Inr (int h, upd_handle h (\<lambda>_.
                \<lparr>fh_in_use = True, fh_first_cluster = ucast (de_first_cluster d), fh_file_size = de_file_size d,
                 fh_pos = 0, fh_is_dir = (de_attr d AND 0x10 \<noteq> 0), fh_dir_idx = 0\<rparr>) f1)))"

subsection \<open>Reading\<close>

datatype walk = Cyclic | EndOfChain | At u32

text \<open>\<open>k\<close> links of the chain, with the counter that guards against a cycle.\<close>

fun fat_walk :: "nat \<Rightarrow> u32 \<Rightarrow> u32 \<Rightarrow> 'w fat \<Rightarrow> (walk \<times> 'w fat) res" where
  "fat_walk 0 guard cluster f = Inr (At cluster, f)"
| "fat_walk (Suc k) guard cluster f =
     (if MAX_FAT_CLUSTERS < guard + 1 then Inr (Cyclic, f)
      else bind_res (fat_entry cluster f) (\<lambda>(nxt, f1).
        if 0xFFF8 \<le> nxt then Inr (EndOfChain, f1) else fat_walk k (guard + 1) (ucast nxt) f1))"

definition cluster_bytes :: "'w fat \<Rightarrow> u32" where
  "cluster_bytes f = f_cluster_size f * 512"

definition cluster_lba :: "u32 \<Rightarrow> 'w fat \<Rightarrow> u32" where
  "cluster_lba cluster f = f_data_start_lba f + (cluster - 2) * f_cluster_size f"

text \<open>One round of the loop in \<open>fat_read\<close>: the bytes copied, and the next cluster.\<close>

definition read_piece :: "nat \<Rightarrow> nat \<Rightarrow> u32 \<Rightarrow> 'w fat \<Rightarrow> (u8 list \<times> u32 \<times> 'w fat) res" where
  "read_piece h left cluster f =
     bind_res (f_read (cluster_lba cluster f) None f) (\<lambda>(buf, f1).
     if cluster_bytes f1 = 0 then Inl (Die ''division by zero'')
     else
       let pos = fh_pos (f_handles f1 ! h);
           offset_in_cluster = unat (pos mod cluster_bytes f1);
           can_read = min (unat (cluster_bytes f1) - offset_in_cluster) left in
       if BLK_SIZE < offset_in_cluster + can_read then Inl OutOfBounds
       else bind_res (init_buf buf) (\<lambda>sector.
         let out = take can_read (drop offset_in_cluster sector);
             pos1 = pos + of_nat can_read;
             f2 = upd_handle h (\<lambda>x. x\<lparr>fh_pos := pos1\<rparr>) f1 in
         if pos1 mod cluster_bytes f1 = 0 then
           bind_res (fat_entry cluster f2) (\<lambda>(nxt, f3).
             Inr (out, if 0xFFF8 \<le> nxt then 0xFFF8 else ucast nxt, f3))
         else Inr (out, cluster, f2)))"

fun read_pieces :: "nat \<Rightarrow> nat \<Rightarrow> nat \<Rightarrow> u32 \<Rightarrow> 'w fat \<Rightarrow> (u8 list \<times> 'w fat) res" where
  "read_pieces 0 h left cluster f = (if left = 0 \<or> 0xFFF8 \<le> cluster then Inr ([], f) else Inl OutOfFuel)"
| "read_pieces (Suc k) h left cluster f =
     (if left = 0 \<or> 0xFFF8 \<le> cluster then Inr ([], f)
      else bind_res (read_piece h left cluster f) (\<lambda>(out, c1, f1).
        bind_res (read_pieces k h (left - length out) c1 f1) (\<lambda>(rest, f2). Inr (out @ rest, f2))))"

text \<open>The return code, the bytes put into the buffer of \<open>n\<close> bytes, and the state.\<close>

definition fat_read :: "int \<Rightarrow> u64 \<Rightarrow> 'w fat \<Rightarrow> (int \<times> u8 list \<times> 'w fat) res" where
  "fat_read handle n f =
     (if handle < 0 \<or> int FAT_MAX_HANDLES \<le> handle then Inr (-1, [], f)
      else
        let h = nat handle; fh = f_handles f ! h in
        if \<not> fh_in_use fh then Inr (-1, [], f)
        else
          let remaining = ucast (fh_file_size fh - fh_pos fh); n = (if remaining < n then remaining else n) in
          if n = 0 then Inr (0, [], f)
          else if cluster_bytes f = 0 then Inl (Die ''division by zero'')
          else bind_res (fat_walk (unat (fh_pos fh div cluster_bytes f)) 0 (fh_first_cluster fh) f) (\<lambda>(w, f1).
            case w of
              Cyclic \<Rightarrow> Inr (-1, [], f1)
            | EndOfChain \<Rightarrow> Inr (0, [], f1)
            | At cluster \<Rightarrow> bind_res (read_pieces (unat n) h (unat n) cluster f1) (\<lambda>(out, f2).
                Inr (sint (of_nat (length out) :: u32), out, f2))))"

definition fat_close :: "int \<Rightarrow> 'w fat \<Rightarrow> 'w fat" where
  "fat_close handle f =
     (if 0 \<le> handle \<and> handle < int FAT_MAX_HANDLES then upd_handle (nat handle) (\<lambda>x. x\<lparr>fh_in_use := False\<rparr>) f else f)"

subsection \<open>Directories\<close>

text \<open>The sector of entry \<open>idx\<close> and its place in it, none at the end.\<close>

definition dir_place :: "fathandle \<Rightarrow> 'w fat \<Rightarrow> ((u32 \<times> u32) option \<times> 'w fat) res" where
  "dir_place fh f =
     (let idx = fh_dir_idx fh in
      if fh_first_cluster fh = 0 then
        Inr (if f_root_entries f \<le> idx then None else Some (f_root_start_lba f + idx div 16, idx mod 16), f)
      else
        let entries_per_cluster = f_cluster_size f * 16 in
        if entries_per_cluster = 0 then Inl (Die ''division by zero'')
        else
          bind_res (fat_walk (unat (idx div entries_per_cluster)) 0 (fh_first_cluster fh) f) (\<lambda>(w, f1).
            case w of
              At cluster \<Rightarrow>
                let idx_in_cluster = idx mod entries_per_cluster in
                Inr (Some (cluster_lba cluster f1 + idx_in_cluster div 16, idx_in_cluster mod 16), f1)
            | _ \<Rightarrow> Inr (None, f1)))"

definition decode_name :: "dirent \<Rightarrow> u8 list" where
  "decode_name d = until_space (de_name d) @
     (if hd (de_ext d) \<noteq> 0x20 \<and> de_attr d AND 0x10 = 0 then 0x2E # until_space (de_ext d) else [])"

text \<open>
  The name field of the caller is \<open>old\<close> where nothing is written. \<open>fuel\<close> bounds the entries that are
  skipped in one call.
\<close>

fun fat_readdir :: "nat \<Rightarrow> int \<Rightarrow> u8 list \<Rightarrow> 'w fat \<Rightarrow> (fatentry option \<times> 'w fat) res" where
  "fat_readdir 0 handle old f = Inl OutOfFuel"
| "fat_readdir (Suc fuel) handle old f =
     (if \<not> f_mounted f \<or> handle < 0 \<or> int FAT_MAX_HANDLES \<le> handle then Inr (None, f)
      else
        let h = nat handle; fh = f_handles f ! h in
        if \<not> fh_in_use fh \<or> \<not> fh_is_dir fh then Inr (None, f)
        else bind_res (dir_place fh f) (\<lambda>(place, f1).
          case place of
            None \<Rightarrow> Inr (None, f1)
          | Some (lba, entry_in_sector) \<Rightarrow>
              bind_res (f_read lba None f1) (\<lambda>(buf, f2).
              bind_res (init_buf buf) (\<lambda>sector.
                let de = dir_entry (unat entry_in_sector) sector;
                    f3 = upd_handle h (\<lambda>x. x\<lparr>fh_dir_idx := fh_dir_idx x + 1\<rparr>) f2 in
                if hd (de_name de) = 0 then Inr (None, f3)
                else if hd (de_name de) = 0xE5 then fat_readdir fuel handle old f3
                else if de_attr de AND 0x08 \<noteq> 0 then fat_readdir fuel handle old f3
                else if de_attr de AND 0x02 \<noteq> 0 then fat_readdir fuel handle old f3
                else
                  let name = decode_name de @ [0] in
                  Inr (Some \<lparr>fe_handle = handle, fe_cluster = ucast (de_first_cluster de), fe_size = de_file_size de,
                    fe_pos = 0, fe_is_dir = (de_attr de AND 0x10 \<noteq> 0), fe_name = name @ drop (length name) old\<rparr>, f3)))))"

end
