(* ===== verification/Fat_Facts.thy ===== *)
theory Fat_Facts
  imports Fat Blk_Facts
begin

section \<open>A file is the bytes of its clusters\<close>

definition fat_ok :: "'w disk \<Rightarrow> u32 set \<Rightarrow> val list \<Rightarrow> 'w fat \<Rightarrow> bool" where
  "fat_ok disk D R f \<longleftrightarrow> blk_ok disk D R (f_blk f) \<and> f_dev f \<in> D \<and> f_mounted f \<and> length (f_handles f) = FAT_MAX_HANDLES"

text \<open>The blocks of the mounted device.\<close>

definition fmem :: "'w disk \<Rightarrow> 'w fat \<Rightarrow> u64 \<Rightarrow> block" where
  "fmem disk f = memory disk (f_blk f) (f_dev f)"

definition fat_next :: "(u64 \<Rightarrow> block) \<Rightarrow> 'w fat \<Rightarrow> u32 \<Rightarrow> u16" where
  "fat_next M f c =
     (let s = M (ucast (f_fat_start_lba f + c * 2 div 512)); off = unat (c * 2 mod 512) in
      ucast (s ! off) OR push_bit 8 (ucast (s ! (off + 1))))"

definition moved :: "nat \<Rightarrow> u32 \<Rightarrow> 'w blk \<Rightarrow> 'w fat \<Rightarrow> 'w fat" where
  "moved h pos st f = upd_handle h (\<lambda>x. x\<lparr>fh_pos := pos\<rparr>) (f\<lparr>f_blk := st\<rparr>)"

lemma frame_simps [simp]:
  "cluster_bytes (f\<lparr>f_blk := st\<rparr>) = cluster_bytes f" "cluster_lba c (f\<lparr>f_blk := st\<rparr>) = cluster_lba c f"
  "fat_next M (f\<lparr>f_blk := st\<rparr>) c = fat_next M f c"
  "cluster_bytes (moved h p st f) = cluster_bytes f" "cluster_lba c (moved h p st f) = cluster_lba c f"
  "fat_next M (moved h p st f) c = fat_next M f c"
  by (simp_all add: cluster_bytes_def cluster_lba_def fat_next_def moved_def upd_handle_def)

lemma moved_simps [simp]:
  "moved h p st (f\<lparr>f_blk := st'\<rparr>) = moved h p st f" "(moved h p st f)\<lparr>f_blk := st'\<rparr> = moved h p st' f"
  "upd_handle h (\<lambda>x. x\<lparr>fh_pos := p\<rparr>) (f\<lparr>f_blk := st\<rparr>) = moved h p st f"
  "h < length (f_handles f) \<Longrightarrow> moved h p st (moved h q st' f) = moved h p st f"
  "h < length (f_handles f) \<Longrightarrow> f_handles (moved h p st f) ! h = (f_handles f ! h)\<lparr>fh_pos := p\<rparr>"
  "length (f_handles (moved h p st f)) = length (f_handles f)"
  by (simp_all add: moved_def upd_handle_def)

lemma fat_ok_moved:
  "fat_ok disk D R (moved h p st f) = fat_ok disk D R (f\<lparr>f_blk := st\<rparr>)" "fmem disk (moved h p st f) = fmem disk (f\<lparr>f_blk := st\<rparr>)"
  by (simp_all add: fat_ok_def fmem_def moved_def upd_handle_def)

lemma moved_self: "h < length (f_handles f) \<Longrightarrow> moved h (fh_pos (f_handles f ! h)) (f_blk f) f = f"
  by (simp add: moved_def upd_handle_def)

lemma f_read_ok:
  assumes "fat_ok disk D R f"
  shows "\<exists>st. f_read lba buf f = Inr (Some (fmem disk f (ucast lba)), f\<lparr>f_blk := st\<rparr>) \<and> fat_ok disk D R (f\<lparr>f_blk := st\<rparr>) \<and>
    fmem disk (f\<lparr>f_blk := st\<rparr>) = fmem disk f"
  using assms blk_read_ok [of disk D R "f_blk f" "f_dev f" "ucast lba"] by (fastforce simp: f_read_def fat_ok_def fmem_def)

lemma fat_entry_ok:
  assumes "fat_ok disk D R f"
  shows "\<exists>st. fat_entry c f = Inr (fat_next (fmem disk f) f c, f\<lparr>f_blk := st\<rparr>) \<and> fat_ok disk D R (f\<lparr>f_blk := st\<rparr>) \<and>
    fmem disk (f\<lparr>f_blk := st\<rparr>) = fmem disk f"
  using f_read_ok [OF assms, of "f_fat_start_lba f + c * 2 div 512" None]
  by (auto simp: fat_entry_def fat_next_def init_buf_def Let_def)

subsection \<open>Chains\<close>

definition chain_ok :: "(u64 \<Rightarrow> block) \<Rightarrow> 'w fat \<Rightarrow> u32 \<Rightarrow> u32 list \<Rightarrow> bool" where
  "chain_ok M f c cs \<longleftrightarrow> cs \<noteq> [] \<and> hd cs = c \<and> length cs \<le> 0xFFF0 \<and> (\<forall>x \<in> set cs. x < 0xFFF8) \<and>
     (\<forall>i. Suc i < length cs \<longrightarrow> fat_next M f (cs ! i) < 0xFFF8 \<and> ucast (fat_next M f (cs ! i)) = cs ! Suc i)"

definition file_bytes :: "(u64 \<Rightarrow> block) \<Rightarrow> 'w fat \<Rightarrow> u32 list \<Rightarrow> u8 list" where
  "file_bytes M f cs = concat (List.map (\<lambda>c. take (unat (cluster_bytes f)) (M (ucast (cluster_lba c f)))) cs)"

lemma chain_frame [simp]:
  "chain_ok M (f\<lparr>f_blk := st\<rparr>) = chain_ok M f" "file_bytes M (f\<lparr>f_blk := st\<rparr>) = file_bytes M f"
  "chain_ok M (moved h p st f) = chain_ok M f" "file_bytes M (moved h p st f) = file_bytes M f"
  by (simp_all add: chain_ok_def file_bytes_def fun_eq_iff)

lemma fat_walk_ok:
  assumes "fat_ok disk D R f" and "chain_ok (fmem disk f) f c0 cs" and "i + k < length cs" and "unat g = i"
  shows "\<exists>st. fat_walk k g (cs ! i) f = Inr (At (cs ! (i + k)), f\<lparr>f_blk := st\<rparr>) \<and> fat_ok disk D R (f\<lparr>f_blk := st\<rparr>) \<and>
    fmem disk (f\<lparr>f_blk := st\<rparr>) = fmem disk f"
  using assms
proof (induction k arbitrary: i g f)
  case 0
  then show ?case by (auto intro!: exI [of _ "f_blk f"])
next
  case (Suc k)
  have b: "unat g < 0xFFF0" using Suc.prems(2-4) by (simp add: chain_ok_def)
  then have g: "unat (g + 1) = Suc i" using Suc.prems(4) by (simp add: unat_word_ariths)
  then have "\<not> MAX_FAT_CLUSTERS < g + 1" using b Suc.prems(4) by (simp add: word_less_nat_alt)
  obtain st where st: "fat_entry (cs ! i) f = Inr (fat_next (fmem disk f) f (cs ! i), f\<lparr>f_blk := st\<rparr>)"
    "fat_ok disk D R (f\<lparr>f_blk := st\<rparr>)" "fmem disk (f\<lparr>f_blk := st\<rparr>) = fmem disk f"
    using fat_entry_ok [OF Suc.prems(1)] by blast
  have "\<not> 0xFFF8 \<le> fat_next (fmem disk f) f (cs ! i)" "ucast (fat_next (fmem disk f) f (cs ! i)) = cs ! Suc i"
    using Suc.prems(2,3) by (auto simp: chain_ok_def not_le)
  then have "fat_walk (Suc k) g (cs ! i) f = fat_walk k (g + 1) (cs ! Suc i) (f\<lparr>f_blk := st\<rparr>)"
    using st(1) \<open>\<not> MAX_FAT_CLUSTERS < g + 1\<close> by simp
  then show ?case using Suc.IH [OF st(2), of "Suc i" "g + 1"] Suc.prems(2,3) g st(3) by simp
qed

lemma take_drop_chunk:
  assumes "\<forall>b \<in> set bs. length b = z" and "0 < z" and "p div z < length bs" and "p mod z + k \<le> z"
  shows "take k (drop p (concat bs)) = take k (drop (p mod z) (bs ! (p div z)))"
  using assms
proof (induction bs arbitrary: p)
  case (Cons b bs)
  show ?case
  proof (cases "p < z")
    case True
    then show ?thesis using Cons.prems by simp
  next
    case False
    then have "p div z = Suc ((p - z) div z)" "p mod z = (p - z) mod z"
      using Cons.prems(2) by (simp_all add: le_div_geq le_mod_geq)
    then show ?thesis using Cons.IH [of "p - z"] Cons.prems False by simp
  qed
qed simp

lemma div_step: "0 < z \<Longrightarrow> (p + k) mod z = 0 \<Longrightarrow> 0 < k \<Longrightarrow> p mod z + k \<le> z \<Longrightarrow> (p + k) div z = Suc (p div z)" for z :: nat
proof -
  assume a: "0 < z" "(p + k) mod z = 0" "0 < k" "p mod z + k \<le> z"
  have "(p + k) mod z = (p mod z + k) mod z" by (simp add: mod_add_left_eq)
  then have "p mod z + k = z" using a by (metis add_is_0 le_neq_implies_less mod_less nat_neq_iff)
  moreover have "p + k = z * (p div z) + (p mod z + k)" using mult_div_mod_eq [of z p] by linarith
  ultimately have "p + k = z * Suc (p div z)" by simp
  then show ?thesis using a(1) by simp
qed

lemma div_stay: "0 < z \<Longrightarrow> (p + k) mod z \<noteq> 0 \<Longrightarrow> p mod z + k \<le> z \<Longrightarrow> (p + k) div z = p div z" for z :: nat
proof -
  assume a: "0 < z" "(p + k) mod z \<noteq> 0" "p mod z + k \<le> z"
  have "(p + k) mod z = (p mod z + k) mod z" by (simp add: mod_add_left_eq)
  then have "p mod z + k < z" using a by (metis le_neq_implies_less mod_self)
  moreover have "p + k = p div z * z + (p mod z + k)" by simp
  ultimately show ?thesis by (metis div_mult_self3 add.commute add.right_neutral div_less nat_neq_iff a(1))
qed

text \<open>The volume: at most eight sectors to a cluster, so that a cluster fits into the buffer.\<close>

definition volume_ok :: "(u64 \<Rightarrow> block) \<Rightarrow> 'w fat \<Rightarrow> bool" where
  "volume_ok M f \<longleftrightarrow> 0 < unat (f_cluster_size f) \<and> unat (f_cluster_size f) \<le> 8 \<and> (\<forall>l. length (M l) = BLK_SIZE)"

lemma volume_frame [simp]: "volume_ok M (f\<lparr>f_blk := st\<rparr>) = volume_ok M f" "volume_ok M (moved h p st f) = volume_ok M f"
  by (simp_all add: volume_ok_def moved_def upd_handle_def)

lemma cluster_bytes_nat: "volume_ok M f \<Longrightarrow> unat (cluster_bytes f) = 512 * unat (f_cluster_size f)"
  by (simp add: cluster_bytes_def volume_ok_def unat_word_ariths)

lemma cluster_bytes_pos: "volume_ok M f \<Longrightarrow> 0 < unat (cluster_bytes f) \<and> unat (cluster_bytes f) \<le> BLK_SIZE"
  using cluster_bytes_nat [of M f] by (auto simp: volume_ok_def)

lemma unat_u32_of_nat: "n < 2 ^ 32 \<Longrightarrow> unat (of_nat n :: u32) = n"
  by (simp add: unat_of_nat)

lemma read_piece_ok:
  assumes ok: "fat_ok disk D R f" and M: "M = fmem disk f" and vol: "volume_ok M f" and ch: "chain_ok M f c0 cs"
    and h: "h < FAT_MAX_HANDLES" and z: "z = unat (cluster_bytes f)"
    and p: "fh_pos (f_handles f ! h) = of_nat p" and left: "0 < left" "p + left \<le> length cs * z"
  shows "\<exists>st c1 k. read_piece h left (cs ! (p div z)) f = Inr (take k (drop p (file_bytes M f cs)), c1, moved h (of_nat (p + k)) st f) \<and>
    0 < k \<and> k \<le> left \<and> (p + k < length cs * z \<longrightarrow> c1 = cs ! ((p + k) div z)) \<and>
    fat_ok disk D R (f\<lparr>f_blk := st\<rparr>) \<and> fmem disk (f\<lparr>f_blk := st\<rparr>) = M"
proof -
  have z0: "0 < z" "z \<le> BLK_SIZE" using cluster_bytes_pos [OF vol] z by simp_all
  have hl: "h < length (f_handles f)" using ok h by (simp add: fat_ok_def)
  have "length cs \<le> 0xFFF0" using ch by (simp add: chain_ok_def)
  then have "length cs * z \<le> 0xFFF0 * 4096" using z0 by (intro mult_le_mono) simp_all
  then have big: "length cs * z < 2 ^ 32" by simp
  let ?off = "p mod z"
  define k where "k = min (z - ?off) left"
  have off: "?off < z" using z0 by simp
  then have k: "0 < k" "k \<le> left" "?off + k \<le> z" using left by (auto simp: k_def)
  let ?c = "cs ! (p div z)"
  have "p < length cs * z" using left by simp
  then have i: "p div z < length cs" by (simp add: less_mult_imp_div_less)
  have up: "unat (of_nat p :: u32) = p" "unat (of_nat (p + k) :: u32) = p + k"
    using big left k by (simp_all add: unat_of_nat del: of_nat_add)
  have uoff: "unat (of_nat p mod cluster_bytes f) = ?off" using up z by (simp add: unat_mod)
  have at_end: "of_nat (p + k) mod cluster_bytes f = 0 \<longleftrightarrow> (p + k) mod z = 0"
    using up(2) z by (metis unat_eq_zero unat_mod)
  have nz: "cluster_bytes f \<noteq> 0" using z0 z by auto
  obtain st where st: "f_read (cluster_lba ?c f) None f = Inr (Some (M (ucast (cluster_lba ?c f))), f\<lparr>f_blk := st\<rparr>)"
    "fat_ok disk D R (f\<lparr>f_blk := st\<rparr>)" "fmem disk (f\<lparr>f_blk := st\<rparr>) = M"
    using f_read_ok [OF ok] M by blast
  let ?b = "M (ucast (cluster_lba ?c f))"
  have out: "take k (drop ?off ?b) = take k (drop p (file_bytes M f cs))"
  proof -
    have "take k (drop p (file_bytes M f cs)) = take k (drop ?off (take z ?b))"
      using take_drop_chunk [of "List.map (\<lambda>c. take z (M (ucast (cluster_lba c f)))) cs" z p k] z0 i k(3) vol
      by (simp add: file_bytes_def z volume_ok_def)
    then show ?thesis using k(3) by (simp add: drop_take min_def)
  qed
  let ?f2 = "moved h (of_nat (p + k)) st f"
  have f2: "fat_ok disk D R ?f2" "fmem disk ?f2 = M" using st(2,3) by (simp_all add: fat_ok_moved)
  have piece: "read_piece h left ?c f =
     (if (p + k) mod z = 0 then
        bind_res (fat_entry ?c ?f2) (\<lambda>(nxt, f3). Inr (take k (drop p (file_bytes M f cs)), if 0xFFF8 \<le> nxt then 0xFFF8 else ucast nxt, f3))
      else Inr (take k (drop p (file_bytes M f cs)), ?c, ?f2))"
  proof -
    have "min (unat (cluster_bytes f) - unat (of_nat p mod cluster_bytes f :: u32)) left = k" using uoff z by (simp add: k_def)
    moreover have "\<not> BLK_SIZE < ?off + k" using k(3) z0 by simp
    moreover have "of_nat p + of_nat k = (of_nat (p + k) :: u32)" by simp
    ultimately show ?thesis
      using st(1) p nz uoff out at_end unfolding read_piece_def by (simp add: init_buf_def Let_def del: of_nat_add)
  qed
  show ?thesis
  proof (cases "(p + k) mod z = 0")
    case False
    then have "(p + k) div z = p div z" using div_stay [OF z0(1) _ k(3)] by simp
    then show ?thesis using piece False k st(2,3) by (intro exI [of _ st] exI [of _ ?c] exI [of _ k]) simp
  next
    case True
    obtain st2 where e: "fat_entry ?c ?f2 = Inr (fat_next (fmem disk ?f2) ?f2 ?c, ?f2\<lparr>f_blk := st2\<rparr>)"
      "fat_ok disk D R (?f2\<lparr>f_blk := st2\<rparr>)" "fmem disk (?f2\<lparr>f_blk := st2\<rparr>) = fmem disk ?f2"
      using fat_entry_ok [OF f2(1), of ?c] by (elim exE conjE) (rule that)
    note st2 = e(1) [unfolded f2(2) frame_simps moved_simps] e(2,3) [unfolded moved_simps fat_ok_moved st(3)]
    have "(if 0xFFF8 \<le> fat_next M f ?c then 0xFFF8 else ucast (fat_next M f ?c)) = cs ! ((p + k) div z)" if "p + k < length cs * z"
    proof -
      have "(p + k) div z = Suc (p div z)" by (rule div_step [OF z0(1) True k(1,3)])
      moreover have "(p + k) div z < length cs" using that by (simp add: less_mult_imp_div_less)
      ultimately show ?thesis using ch by (auto simp: chain_ok_def not_le)
    qed
    then show ?thesis using piece True k st2 by (intro exI [of _ st2] exI [of _ "if 0xFFF8 \<le> fat_next M f ?c then 0xFFF8 else ucast (fat_next M f ?c)"] exI [of _ k]) simp
  qed
qed

lemma chain_below: "chain_ok M f c0 cs \<Longrightarrow> i < length cs \<Longrightarrow> \<not> 0xFFF8 \<le> cs ! i"
  by (simp add: chain_ok_def not_le)

lemma take_add_drop: "take k (drop p xs) @ take m (drop (p + k) xs) = take (k + m) (drop p xs)"
  by (simp add: take_add add.commute)

lemma length_file_bytes: "volume_ok M f \<Longrightarrow> length (file_bytes M f cs) = length cs * unat (cluster_bytes f)"
  using cluster_bytes_pos [of M f] by (induction cs) (simp_all add: file_bytes_def volume_ok_def)

lemma read_pieces_ok:
  assumes "fat_ok disk D R f" and "M = fmem disk f" and "volume_ok M f" and "chain_ok M f c0 cs"
    and "h < FAT_MAX_HANDLES" and "z = unat (cluster_bytes f)"
    and "fh_pos (f_handles f ! h) = of_nat p" and "p + left \<le> length cs * z" and "left \<le> k"
    and "0 < left \<Longrightarrow> c = cs ! (p div z)"
  shows "\<exists>st. read_pieces k h left c f = Inr (take left (drop p (file_bytes M f cs)), moved h (of_nat (p + left)) st f) \<and>
    fat_ok disk D R (f\<lparr>f_blk := st\<rparr>) \<and> fmem disk (f\<lparr>f_blk := st\<rparr>) = M"
  using assms
proof (induction k arbitrary: f p left c)
  case 0
  have hl: "h < length (f_handles f)" using "0.prems"(1,5) by (simp add: fat_ok_def)
  then have "moved h (of_nat p) (f_blk f) f = f" using moved_self "0.prems"(7) by metis
  then show ?case using 0 by (auto intro!: exI [of _ "f_blk f"])
next
  case (Suc k)
  have hl: "h < length (f_handles f)" using Suc.prems(1,5) by (simp add: fat_ok_def)
  show ?case
  proof (cases "left = 0")
    case True
    then have "moved h (of_nat p) (f_blk f) f = f" using Suc.prems(7) hl moved_self by metis
    then show ?thesis using True Suc.prems(1,2) by (auto intro!: exI [of _ "f_blk f"])
  next
    case False
    then have c: "c = cs ! (p div z)" using Suc.prems(10) by simp
    have "p < length cs * z" using Suc.prems(8) False by simp
    then have b: "\<not> 0xFFF8 \<le> c" using c chain_below [OF Suc.prems(4)] by (simp add: less_mult_imp_div_less)
    obtain st c1 j where 1: "read_piece h left c f = Inr (take j (drop p (file_bytes M f cs)), c1, moved h (of_nat (p + j)) st f)"
      "0 < j" "j \<le> left" "p + j < length cs * z \<longrightarrow> c1 = cs ! ((p + j) div z)"
      "fat_ok disk D R (f\<lparr>f_blk := st\<rparr>)" "fmem disk (f\<lparr>f_blk := st\<rparr>) = M"
      using read_piece_ok [OF Suc.prems(1-7) _ Suc.prems(8)] False c by auto
    let ?f1 = "moved h (of_nat (p + j)) st f"
    have len: "length (take j (drop p (file_bytes M f cs))) = j"
      using length_file_bytes [OF Suc.prems(3)] Suc.prems(6,8) 1(3) by simp
    have "\<exists>st2. read_pieces k h (left - j) c1 ?f1 = Inr (take (left - j) (drop (p + j) (file_bytes M ?f1 cs)), moved h (of_nat (p + j + (left - j))) st2 ?f1) \<and>
      fat_ok disk D R (?f1\<lparr>f_blk := st2\<rparr>) \<and> fmem disk (?f1\<lparr>f_blk := st2\<rparr>) = M"
      by (rule Suc.IH) (use Suc.prems 1 hl in \<open>simp_all add: fat_ok_moved\<close>)
    then obtain st2 where 2: "read_pieces k h (left - j) c1 ?f1 = Inr (take (left - j) (drop (p + j) (file_bytes M f cs)), moved h (of_nat (p + left)) st2 f)"
      "fat_ok disk D R (f\<lparr>f_blk := st2\<rparr>)" "fmem disk (f\<lparr>f_blk := st2\<rparr>) = M"
      using hl 1(3) by (auto simp: fat_ok_moved)
    have "read_pieces (Suc k) h left c f = Inr (take left (drop p (file_bytes M f cs)), moved h (of_nat (p + left)) st2 f)"
      using False b 1(1,3) 2(1) len take_add_drop [of j p "file_bytes M f cs" "left - j"] by simp
    then show ?thesis using 2(2,3) by blast
  qed
qed

subsection \<open>The root directory\<close>

definition root_entries :: "(u64 \<Rightarrow> block) \<Rightarrow> 'w fat \<Rightarrow> dirent list" where
  "root_entries M f =
     concat (List.map (\<lambda>s. sector_entries (M (ucast (f_root_start_lba f + of_nat s)))) [0..<unat (root_sectors f)])"

text \<open>The entries up to the first that was never used, less the deleted ones and the volume labels.\<close>

definition visible :: "dirent list \<Rightarrow> dirent list" where
  "visible ds = List.filter (\<lambda>d. hd (de_name d) \<noteq> 0xE5 \<and> de_attr d AND 0x08 = 0) (takeWhile (\<lambda>d. hd (de_name d) \<noteq> 0) ds)"

definition lookup_name :: "string \<Rightarrow> dirent list \<Rightarrow> dirent option" where
  "lookup_name name ds = List.find (\<lambda>d. c_string (name_8_3 d) = name) (visible ds)"

lemma search_append:
  "lookup_name name (ds @ es) = (case search_sector name ds of Stop \<Rightarrow> None | Found d \<Rightarrow> Some d | More \<Rightarrow> lookup_name name es)"
  by (induction ds) (auto simp: lookup_name_def visible_def)

lemma search_root_ok:
  assumes "fat_ok disk D R f"
  shows "\<exists>st. search_root name ss buf f =
      Inr (lookup_name name (concat (List.map (\<lambda>s. sector_entries (fmem disk f (ucast (f_root_start_lba f + s)))) ss)), f\<lparr>f_blk := st\<rparr>) \<and>
    fat_ok disk D R (f\<lparr>f_blk := st\<rparr>) \<and> fmem disk (f\<lparr>f_blk := st\<rparr>) = fmem disk f"
  using assms
proof (induction ss arbitrary: buf f)
  case Nil
  then show ?case by (auto simp: lookup_name_def visible_def intro!: exI [of _ "f_blk f"])
next
  case (Cons s ss)
  obtain st where st: "f_read (f_root_start_lba f + s) buf f = Inr (Some (fmem disk f (ucast (f_root_start_lba f + s))), f\<lparr>f_blk := st\<rparr>)"
    "fat_ok disk D R (f\<lparr>f_blk := st\<rparr>)" "fmem disk (f\<lparr>f_blk := st\<rparr>) = fmem disk f"
    using f_read_ok [OF Cons.prems] by blast
  obtain st2 where st2: "search_root name ss (Some (fmem disk f (ucast (f_root_start_lba f + s)))) (f\<lparr>f_blk := st\<rparr>) =
      Inr (lookup_name name (concat (List.map (\<lambda>s. sector_entries (fmem disk f (ucast (f_root_start_lba f + s)))) ss)), f\<lparr>f_blk := st2\<rparr>)"
    "fat_ok disk D R (f\<lparr>f_blk := st2\<rparr>)" "fmem disk (f\<lparr>f_blk := st2\<rparr>) = fmem disk f"
    using Cons.IH [OF st(2)] st(3) by auto
  show ?case
    using st st2 by (cases "search_sector name (sector_entries (fmem disk f (ucast (f_root_start_lba f + s))))")
      (auto simp: init_buf_def search_append)
qed

lemma find_in_root_ok:
  assumes "fat_ok disk D R f"
  shows "\<exists>st. find_in_root name f = Inr (lookup_name name (root_entries (fmem disk f) f), f\<lparr>f_blk := st\<rparr>) \<and>
    fat_ok disk D R (f\<lparr>f_blk := st\<rparr>) \<and> fmem disk (f\<lparr>f_blk := st\<rparr>) = fmem disk f"
  using search_root_ok [OF assms, of name "List.map of_nat [0..<unat (root_sectors f)]" None]
  by (simp add: find_in_root_def root_entries_def comp_def)

lemma free_handle_Some:
  "\<exists>h \<in> set hs. \<not> fh_in_use h \<Longrightarrow> \<exists>i. free_handle k hs = Some i \<and> k \<le> i \<and> i < k + length hs"
proof (induction hs arbitrary: k)
  case (Cons x hs)
  then show ?case using Cons.IH [of "Suc k"] by (cases "fh_in_use x") auto
qed simp

lemma handle_alloc_Some:
  assumes "fat_ok disk D R f" and "\<exists>h \<in> set (f_handles f). \<not> fh_in_use h"
  shows "\<exists>h. handle_alloc f = Some h \<and> h < FAT_MAX_HANDLES"
  using free_handle_Some [OF assms(2), of 0] assms(1) by (auto simp: handle_alloc_def fat_ok_def)

subsection \<open>Reading a directory ends\<close>

lemma fat_walk_total:
  assumes "fat_ok disk D R f" and "unat g \<le> 0xFFF0"
  shows "\<exists>w st. fat_walk k g c f = Inr (w, f\<lparr>f_blk := st\<rparr>) \<and> fat_ok disk D R (f\<lparr>f_blk := st\<rparr>) \<and>
    ((\<exists>c'. w = At c') \<longrightarrow> unat g + k \<le> 0xFFF0)"
  using assms
proof (induction k arbitrary: g c f)
  case 0
  then show ?case by (auto intro!: exI [of _ "f_blk f"])
next
  case (Suc k)
  show ?case
  proof (cases "MAX_FAT_CLUSTERS < g + 1")
    case True
    then show ?thesis using Suc.prems by (auto intro!: exI [of _ Cyclic] exI [of _ "f_blk f"])
  next
    case False
    have g: "unat (g + 1) = Suc (unat g)" using Suc.prems(2) by (simp add: unat_word_ariths)
    then have le: "unat (g + 1) \<le> 0xFFF0" using False by (simp add: word_less_nat_alt)
    obtain st where st: "fat_entry c f = Inr (fat_next (fmem disk f) f c, f\<lparr>f_blk := st\<rparr>)" "fat_ok disk D R (f\<lparr>f_blk := st\<rparr>)"
      using fat_entry_ok [OF Suc.prems(1)] by blast
    show ?thesis
    proof (cases "0xFFF8 \<le> fat_next (fmem disk f) f c")
      case True
      then show ?thesis using st False by (auto intro!: exI [of _ EndOfChain] exI [of _ st])
    next
      case ne: False
      from Suc.IH [OF st(2) le, of "ucast (fat_next (fmem disk f) f c)"] show ?thesis
        using st(1) False ne g by (auto simp del: not_less not_le)
    qed
  qed
qed

abbreviation (input) DIR_MAX :: nat where "DIR_MAX \<equiv> 0xFFF1 * (255 * 16)"

lemma dir_place_ok:
  assumes ok: "fat_ok disk D R f" and vol: "0 < unat (f_cluster_size f)" "unat (f_cluster_size f) \<le> 255" "unat (f_root_entries f) \<le> 0xFFFF"
  shows "\<exists>place st. dir_place fh f = Inr (place, f\<lparr>f_blk := st\<rparr>) \<and> fat_ok disk D R (f\<lparr>f_blk := st\<rparr>) \<and>
    (place \<noteq> None \<longrightarrow> unat (fh_dir_idx fh) < DIR_MAX)"
proof (cases "fh_first_cluster fh = 0")
  case True
  then show ?thesis using ok vol(3)
    by (auto simp: dir_place_def Let_def word_le_nat_alt intro!: exI [of _ "f_blk f"])
next
  case False
  let ?e = "f_cluster_size f * 16"
  have e: "unat ?e = unat (f_cluster_size f) * 16" using vol(2) by (simp add: unat_word_ariths)
  then have nz: "?e \<noteq> 0" using vol(1) by (metis mult_is_0 neq0_conv unat_0 zero_neq_numeral)
  obtain w st where w: "fat_walk (unat (fh_dir_idx fh div ?e)) 0 (fh_first_cluster fh) f = Inr (w, f\<lparr>f_blk := st\<rparr>)"
    "fat_ok disk D R (f\<lparr>f_blk := st\<rparr>)" "(\<exists>c'. w = At c') \<longrightarrow> unat (fh_dir_idx fh div ?e) \<le> 0xFFF0"
    using fat_walk_total [OF ok, of 0 "unat (fh_dir_idx fh div ?e)" "fh_first_cluster fh"] by auto
  have "unat (fh_dir_idx fh) < DIR_MAX" if "\<exists>c'. w = At c'"
  proof -
    have "unat (fh_dir_idx fh) div unat ?e < 0xFFF1" using w(3) that by (simp add: unat_div)
    then have "unat (fh_dir_idx fh) < 0xFFF1 * unat ?e" using e vol(1) by (simp add: div_less_iff_less_mult)
    also have "\<dots> \<le> DIR_MAX" using e vol(2) by (intro mult_le_mono) simp_all
    finally show ?thesis .
  qed
  then show ?thesis using False nz w(1,2) by (cases w) (auto simp: dir_place_def Let_def)
qed

lemma fat_readdir_ends:
  assumes "fat_ok disk D R f" and "0 < unat (f_cluster_size f)" "unat (f_cluster_size f) \<le> 255" "unat (f_root_entries f) \<le> 0xFFFF"
    and "0 < fuel" and "DIR_MAX < unat (fh_dir_idx (f_handles f ! nat handle)) + fuel"
  shows "\<exists>r f'. fat_readdir fuel handle old f = Inr (r, f')"
  using assms
proof (induction fuel arbitrary: f)
  case (Suc fuel)
  let ?fh = "f_handles f ! nat handle"
  show ?case
  proof (cases "\<not> f_mounted f \<or> handle < 0 \<or> int FAT_MAX_HANDLES \<le> handle \<or> \<not> fh_in_use ?fh \<or> \<not> fh_is_dir ?fh")
    case True
    then show ?thesis by (auto simp: Let_def)
  next
    case False
    obtain place st where p: "dir_place ?fh f = Inr (place, f\<lparr>f_blk := st\<rparr>)" "fat_ok disk D R (f\<lparr>f_blk := st\<rparr>)"
      "place \<noteq> None \<longrightarrow> unat (fh_dir_idx ?fh) < DIR_MAX"
      using dir_place_ok [OF Suc.prems(1-4), of ?fh] by blast
    show ?thesis
    proof (cases place)
      case None
      then show ?thesis using False p(1) by (simp add: Let_def)
    next
      case (Some x)
      obtain lba e where x: "x = (lba, e)" by (cases x)
      obtain st2 where r: "f_read lba None (f\<lparr>f_blk := st\<rparr>) = Inr (Some (fmem disk (f\<lparr>f_blk := st\<rparr>) (ucast lba)), f\<lparr>f_blk := st2\<rparr>)"
        "fat_ok disk D R (f\<lparr>f_blk := st2\<rparr>)"
        using f_read_ok [OF p(2), of lba None] by auto
      let ?f3 = "upd_handle (nat handle) (\<lambda>x. x\<lparr>fh_dir_idx := fh_dir_idx x + 1\<rparr>) (f\<lparr>f_blk := st2\<rparr>)"
      have idx: "unat (fh_dir_idx ?fh) < DIR_MAX" using p(3) Some by simp
      then have next_idx: "unat (fh_dir_idx ?fh + 1) = Suc (unat (fh_dir_idx ?fh))" by (simp add: unat_word_ariths)
      have len: "nat handle < length (f_handles f)" using False Suc.prems(1) by (auto simp: fat_ok_def nat_less_iff)
      have "\<exists>r f'. fat_readdir fuel handle old ?f3 = Inr (r, f')"
      proof (rule Suc.IH)
        show "fat_ok disk D R ?f3" using r(2) by (simp add: fat_ok_def upd_handle_def)
        show "DIR_MAX < unat (fh_dir_idx (f_handles ?f3 ! nat handle)) + fuel"
          using Suc.prems(6) next_idx len by (simp add: upd_handle_def)
      qed (use Suc.prems idx in \<open>simp_all add: upd_handle_def\<close>)
      then obtain r' f' where rest: "fat_readdir fuel handle old ?f3 = Inr (r', f')" by blast
      show ?thesis using False p(1) Some x r(1) rest by (simp add: init_buf_def Let_def)
    qed
  qed
qed simp

subsection \<open>Reading a file in pieces\<close>

definition opened :: "dirent \<Rightarrow> u32 \<Rightarrow> fathandle" where
  "opened d pos = \<lparr>fh_in_use = True, fh_first_cluster = ucast (de_first_cluster d), fh_file_size = de_file_size d,
     fh_pos = pos, fh_is_dir = (de_attr d AND 0x10 \<noteq> 0), fh_dir_idx = 0\<rparr>"

lemma fat_read_ok:
  assumes ok: "fat_ok disk D R f" and M: "M = fmem disk f" and vol: "volume_ok M f"
    and ch: "chain_ok M f (ucast (de_first_cluster d)) cs" and h: "h < FAT_MAX_HANDLES"
    and fh: "f_handles f ! h = opened d (of_nat p)" and p: "p \<le> unat (de_file_size d)"
    and size: "unat (de_file_size d) \<le> length cs * unat (cluster_bytes f)"
  shows "\<exists>st. let out = take (unat n) (drop p (take (unat (de_file_size d)) (file_bytes M f cs))) in
    fat_read (int h) n f = Inr (int (length out), out, moved h (of_nat (p + length out)) st f) \<and>
    fat_ok disk D R (f\<lparr>f_blk := st\<rparr>) \<and> fmem disk (f\<lparr>f_blk := st\<rparr>) = M"
proof -
  let ?z = "unat (cluster_bytes f)"
  let ?size = "unat (de_file_size d)"
  have z: "0 < ?z" "?z \<le> BLK_SIZE" using cluster_bytes_pos [OF vol] by simp_all
  have hl: "h < length (f_handles f)" using ok h by (simp add: fat_ok_def)
  have "length cs \<le> 0xFFF0" using ch by (simp add: chain_ok_def)
  then have "length cs * ?z \<le> 0xFFF0 * 4096" using z by (intro mult_le_mono) simp_all
  then have big: "?size < 2 ^ 31" using size by simp
  have up: "unat (of_nat p :: u32) = p" using p big by (simp add: unat_of_nat)
  define left where "left = min (?size - p) (unat n)"
  define n' :: u64 where "n' = (let r = ucast (de_file_size d - of_nat p) :: u64 in if r < n then r else n)"
  have "unat (ucast (de_file_size d - of_nat p :: u32) :: u64) = ?size - p"
    using up p big by (simp add: unsigned_ucast_eq take_bit_nat_eq_self unat_sub word_le_nat_alt)
  then have n': "unat n' = left" by (auto simp: n'_def left_def Let_def word_less_nat_alt)
  have out: "take (unat n) (drop p (take ?size (file_bytes M f cs))) = take left (drop p (file_bytes M f cs))"
    by (simp add: drop_take left_def min.commute)
  have len: "length (take left (drop p (file_bytes M f cs))) = left"
    using length_file_bytes [OF vol, of cs] size by (simp add: left_def)
  show ?thesis
  proof (cases "left = 0")
    case True
    then have "n' = 0" using n' by (simp add: unat_eq_zero)
    then have "fat_read (int h) n f = Inr (0, [], f)"
      using h fh by (simp add: fat_read_def Let_def opened_def n'_def)
    moreover have "moved h (of_nat p) (f_blk f) f = f" using moved_self [OF hl] fh by (simp add: opened_def)
    moreover have e: "take left (drop p (file_bytes M f cs)) = []" using True by simp
    ultimately show ?thesis unfolding out Let_def e using ok M by (intro exI [of _ "f_blk f"]) simp
  next
    case False
    then have n0: "n' \<noteq> 0" using n' by auto
    have "p + left \<le> ?size" using p by (simp add: left_def)
    then have lt: "p + left \<le> length cs * ?z" "p < length cs * ?z" using size False by simp_all
    have i: "p div ?z < length cs" using lt(2) by (simp add: less_mult_imp_div_less)
    have c0: "cs ! 0 = ucast (de_first_cluster d)" using ch unfolding chain_ok_def by (metis hd_conv_nth)
    have "unat (of_nat p div cluster_bytes f :: u32) = p div ?z" using up by (simp add: unat_div)
    moreover obtain st where st: "fat_walk (p div ?z) 0 (cs ! 0) f = Inr (At (cs ! (p div ?z)), f\<lparr>f_blk := st\<rparr>)"
      "fat_ok disk D R (f\<lparr>f_blk := st\<rparr>)" "fmem disk (f\<lparr>f_blk := st\<rparr>) = M"
      using fat_walk_ok [OF ok, of "ucast (de_first_cluster d)" cs 0 "p div ?z" 0] ch i M by auto
    moreover obtain st2 where st2: "read_pieces left h left (cs ! (p div ?z)) (f\<lparr>f_blk := st\<rparr>) =
        Inr (take left (drop p (file_bytes M f cs)), moved h (of_nat (p + left)) st2 f)"
      "fat_ok disk D R (f\<lparr>f_blk := st2\<rparr>)" "fmem disk (f\<lparr>f_blk := st2\<rparr>) = M"
      using read_pieces_ok [OF st(2) st(3) [symmetric], of "ucast (de_first_cluster d)" cs h ?z p left left "cs ! (p div ?z)"]
        vol ch h lt(1) fh by (auto simp: opened_def)
    moreover have "sint (of_nat left :: u32) = int left" using big by (simp add: left_def signed_of_nat signed_take_bit_int_eq_self)
    moreover have "cluster_bytes f \<noteq> 0" using z by auto
    ultimately have "fat_read (int h) n f = Inr (int left, take left (drop p (file_bytes M f cs)), moved h (of_nat (p + left)) st2 f)"
      using h fh n0 n' len c0 by (simp add: fat_read_def opened_def Let_def n'_def [unfolded Let_def, symmetric])
    then show ?thesis using st2(2,3) len by (intro exI [of _ st2]) (simp add: out Let_def)
  qed
qed

fun read_calls :: "int \<Rightarrow> u64 list \<Rightarrow> 'w fat \<Rightarrow> ((int \<times> u8 list) list \<times> 'w fat) res" where
  "read_calls h [] f = Inr ([], f)"
| "read_calls h (n # ns) f = bind_res (fat_read h n f) (\<lambda>(rc, out, f1).
     bind_res (read_calls h ns f1) (\<lambda>(outs, f2). Inr ((rc, out) # outs, f2)))"

text \<open>What reads of these sizes give of a list of bytes.\<close>

fun cut :: "u64 list \<Rightarrow> u8 list \<Rightarrow> (int \<times> u8 list) list" where
  "cut [] bs = []"
| "cut (n # ns) bs = (let out = take (unat n) bs in (int (length out), out) # cut ns (drop (unat n) bs))"

lemma read_all_ok:
  assumes "fat_ok disk D R f" and "M = fmem disk f" and "volume_ok M f"
    and "chain_ok M f (ucast (de_first_cluster d)) cs" and "h < FAT_MAX_HANDLES"
    and "f_handles f ! h = opened d (of_nat p)" and "p \<le> unat (de_file_size d)"
    and "unat (de_file_size d) \<le> length cs * unat (cluster_bytes f)"
  shows "\<exists>f'. read_calls (int h) ns f = Inr (cut ns (drop p (take (unat (de_file_size d)) (file_bytes M f cs))), f')"
  using assms
proof (induction ns arbitrary: f p)
  case (Cons n ns)
  let ?B = "take (unat (de_file_size d)) (file_bytes M f cs)"
  let ?out = "take (unat n) (drop p ?B)"
  have hl: "h < length (f_handles f)" using Cons.prems(1,5) by (simp add: fat_ok_def)
  obtain st where st: "fat_read (int h) n f = Inr (int (length ?out), ?out, moved h (of_nat (p + length ?out)) st f)"
    "fat_ok disk D R (f\<lparr>f_blk := st\<rparr>)" "fmem disk (f\<lparr>f_blk := st\<rparr>) = M"
    using fat_read_ok [OF Cons.prems, of n] by (auto simp: Let_def)
  let ?f = "moved h (of_nat (p + length ?out)) st f"
  have len: "length ?B = unat (de_file_size d)" using length_file_bytes [OF Cons.prems(3), of cs] Cons.prems(8) by simp
  have "\<exists>f'. read_calls (int h) ns ?f = Inr (cut ns (drop (p + length ?out) (take (unat (de_file_size d)) (file_bytes M ?f cs))), f')"
    by (rule Cons.IH) (use Cons.prems hl st len in \<open>simp_all add: fat_ok_moved opened_def\<close>)
  moreover have "drop (p + length ?out) ?B = drop (unat n) (drop p ?B)" by (simp add: min_def add.commute)
  ultimately show ?case using st(1) by (auto simp: Let_def)
qed simp

lemma fat_file_ok:
  assumes "fat_ok disk D R f" and "M = fmem disk f" and "volume_ok M f" and "\<exists>h \<in> set (f_handles f). \<not> fh_in_use h"
    and "lookup_name name (root_entries M f) = Some d" and "chain_ok M f (ucast (de_first_cluster d)) cs"
    and "unat (de_file_size d) \<le> length cs * unat (cluster_bytes f)"
  shows "\<exists>h f1 f2. fat_open (CHR ''/'' # name) f = Inr (h, f1) \<and> 0 \<le> h \<and>
    read_calls h ns f1 = Inr (cut ns (take (unat (de_file_size d)) (file_bytes M f cs)), f2)"
proof -
  obtain h where h: "handle_alloc f = Some h" "h < FAT_MAX_HANDLES" using handle_alloc_Some [OF assms(1,4)] by blast
  obtain st where st: "find_in_root name f = Inr (Some d, f\<lparr>f_blk := st\<rparr>)" "fat_ok disk D R (f\<lparr>f_blk := st\<rparr>)"
    "fmem disk (f\<lparr>f_blk := st\<rparr>) = M"
    using find_in_root_ok [OF assms(1), of name] assms(2,5) by auto
  define f1 where "f1 = upd_handle h (\<lambda>_. opened d (of_nat 0)) (f\<lparr>f_blk := st\<rparr>)"
  have len: "h < length (f_handles f)" using assms(1) h(2) by (simp add: fat_ok_def)
  have mounted: "f_mounted f" using assms(1) by (simp add: fat_ok_def)
  have o: "fat_open (CHR ''/'' # name) f = Inr (int h, f1)"
    using h(1) st(1) mounted by (simp add: fat_open_def f1_def opened_def)
  have f1: "fat_ok disk D R f1" "M = fmem disk f1" "volume_ok M f1" "chain_ok M f1 = chain_ok M f" "f_handles f1 ! h = opened d (of_nat 0)"
    "cluster_bytes f1 = cluster_bytes f" "file_bytes M f1 = file_bytes M f"
    using st(2,3) assms(3) len
    by (simp_all add: f1_def upd_handle_def fat_ok_def fmem_def volume_ok_def chain_ok_def file_bytes_def fat_next_def cluster_lba_def
        cluster_bytes_def fun_eq_iff)
  have "\<exists>f2. read_calls (int h) ns f1 = Inr (cut ns (drop 0 (take (unat (de_file_size d)) (file_bytes M f1 cs))), f2)"
    by (rule read_all_ok [OF f1(1,2,3)]) (use f1 assms(6,7) h(2) in simp_all)
  then show ?thesis using o f1(7) by auto
qed

text \<open>C16: A file is the bytes of its clusters. On a volume with at most eight sectors to a cluster, a file in the root
  directory whose chain of clusters is long enough is opened by its name, and reads of any sizes
  give the bytes of the chain in order, cut to the size of the file; each call returns the
  number of bytes it gives.\<close>

theorem fat_file_read:
  assumes "fat_ok disk D R f" and "M = fmem disk f" and "volume_ok M f" and "\<exists>h \<in> set (f_handles f). \<not> fh_in_use h"
    and "lookup_name name (root_entries M f) = Some d" and "chain_ok M f (ucast (de_first_cluster d)) cs"
    and "unat (de_file_size d) \<le> length cs * unat (cluster_bytes f)"
  shows "\<exists>h f1 f2. fat_open (CHR ''/'' # name) f = Inr (h, f1) \<and> 0 \<le> h \<and>
    read_calls h ns f1 = Inr (cut ns (take (unat (de_file_size d)) (file_bytes M f cs)), f2)"
  by (rule fat_file_ok [OF assms])

definition sector_of :: "u8 list \<Rightarrow> block" where
  "sector_of bs = bs @ replicate (BLK_SIZE - length bs) 0"

definition ram_volume :: "u32 \<Rightarrow> u64 \<Rightarrow> block" where
  "ram_volume = (\<lambda>d l.
     if l = 1 then sector_of [0xF8, 0xFF, 0xFF, 0xFF, 3, 0, 0xFF, 0xFF]
     else if l = 2 then sector_of (bytes_of ''A       TXT '' @ [0, 0, 0, 0, 0, 0, 0, 0, 0, 0, 0, 0, 0, 0, 2, 0, 0x58, 2, 0, 0])
     else if l = 3 then replicate BLK_SIZE 0x61
     else replicate BLK_SIZE 0x62)"

definition ram_fat :: "(u32 \<Rightarrow> u64 \<Rightarrow> block) fat" where
  "ram_fat = \<lparr>f_dev = 1, f_fat_start_lba = 1, f_root_start_lba = 2, f_data_start_lba = 3, f_cluster_size = 1, f_root_entries = 16,
     f_mounted = True, f_handles = replicate FAT_MAX_HANDLES no_handle, f_blk = ram_blk\<lparr>b_disk := ram_volume\<rparr>\<rparr>"

lemma ram_fat_ok: "fat_ok (\<lambda>w. w) {1} [] ram_fat" "fmem (\<lambda>w. w) ram_fat = ram_volume 1" "volume_ok (ram_volume 1) ram_fat"
proof -
  have none: "cache_find d l (ram_blk\<lparr>b_disk := ram_volume\<rparr>) = None" for d l
    by (simp add: cache_find_None ram_blk_def empty_buf_def has_key_def)
  have "blk_ok (\<lambda>w. w) {1} [] (ram_blk\<lparr>b_disk := ram_volume\<rparr>)"
    using reg_init_blank
    by (auto simp: blk_ok_def ram_blk_def drivers_ok_def blk_find_dev_def ram_driver_def slots_ok_def empty_buf_def has_key_def)
  then show "fat_ok (\<lambda>w. w) {1} [] ram_fat" by (simp add: fat_ok_def ram_fat_def)
  show "fmem (\<lambda>w. w) ram_fat = ram_volume 1"
    using none by (simp add: fmem_def ram_fat_def memory_def fun_eq_iff)
  show "volume_ok (ram_volume 1) ram_fat"
    by (simp add: volume_ok_def ram_fat_def ram_volume_def sector_of_def bytes_of_def)
qed

definition ram_file :: dirent where
  "ram_file = \<lparr>de_name = bytes_of ''A       '', de_ext = bytes_of ''TXT'', de_attr = 0x20, de_first_cluster = 2, de_file_size = 600\<rparr>"

lemma ram_lookup: "lookup_name ''A.TXT'' (root_entries (ram_volume 1) ram_fat) = Some ram_file"
proof -
  have "bytes_of ''A       TXT '' = [0x41, 0x20, 0x20, 0x20, 0x20, 0x20, 0x20, 0x20, 0x54, 0x58, 0x54, 0x20]"
    "bytes_of ''A       '' = [0x41, 0x20, 0x20, 0x20, 0x20, 0x20, 0x20, 0x20]" "bytes_of ''TXT'' = [0x54, 0x58, 0x54]"
    by code_simp+
  then have "dir_entry 0 (ram_volume 1 2) = ram_file"
    by (simp add: dir_entry_def ram_volume_def sector_of_def ram_file_def field16_def field32_def)
  moreover have "root_sectors ram_fat = 1" by (simp add: root_sectors_def ram_fat_def)
  ultimately have "root_entries (ram_volume 1) ram_fat = ram_file # List.map (\<lambda>i. dir_entry i (ram_volume 1 2)) [1..<16]"
    by (simp add: root_entries_def sector_entries_def ram_fat_def upt_conv_Cons)
  moreover have "c_string (name_8_3 ram_file) = ''A.TXT''" by code_simp
  moreover have "hd (de_name ram_file) \<noteq> 0 \<and> hd (de_name ram_file) \<noteq> 0xE5 \<and> de_attr ram_file AND 0x08 = 0" by code_simp
  ultimately show ?thesis by (simp add: lookup_name_def visible_def)
qed

theorem fat_file_read_witness:
  "\<exists>h f1 f2. fat_open ''/A.TXT'' ram_fat = Inr (h, f1) \<and>
     read_calls h [510, 4, 500] f1 = Inr ([(510, replicate 510 0x61), (4, replicate 2 0x61 @ replicate 2 0x62), (86, replicate 86 0x62)], f2)"
proof -
  have n: "fat_next (ram_volume 1) ram_fat 2 = 3"
    by (simp add: fat_next_def ram_fat_def ram_volume_def sector_of_def Let_def nth_append)
  have c: "chain_ok (ram_volume 1) ram_fat (ucast (de_first_cluster ram_file)) [2, 3]"
    using n by (simp add: chain_ok_def ram_file_def less_Suc_eq)
  have b: "cluster_bytes ram_fat = 512" by (simp add: cluster_bytes_def ram_fat_def)
  have s: "unat (de_file_size ram_file) \<le> length [2, 3 :: u32] * unat (cluster_bytes ram_fat)" by (simp add: b ram_file_def)
  have f: "file_bytes (ram_volume 1) ram_fat [2, 3] = replicate 512 0x61 @ replicate 512 0x62"
    unfolding file_bytes_def b by (simp add: cluster_lba_def ram_fat_def ram_volume_def)
  have u: "\<exists>h \<in> set (f_handles ram_fat). \<not> fh_in_use h" by (simp add: ram_fat_def no_handle_def)
  have "cut [510, 4, 500] (take 600 (replicate 512 0x61 @ replicate 512 (0x62 :: u8))) =
      [(510, replicate 510 0x61), (4, replicate 2 0x61 @ replicate 2 0x62), (86, replicate 86 0x62)]"
    by (simp add: Let_def)
  then show ?thesis
    using fat_file_read [OF ram_fat_ok(1) ram_fat_ok(2) [symmetric] ram_fat_ok(3) u ram_lookup c s, of "[510, 4, 500]"] f
    by (auto simp: ram_file_def)
qed

end
