(* ===== verification/Vfs.thy ===== *)
theory Vfs
  imports RegIpc
begin

section \<open>The virtual file system (\<^verbatim>\<open>kernel/vfs.c\<close>)\<close>

unbundle bit_operations_syntax

text \<open>
  The static variables of the file, with the registry, which holds the inodes, and the console: what
  \<^verbatim>\<open>nexs_hal_getc\<close> will give (a negative number where nothing comes, as at the end of the list) and
  what was put out. Positions are 64-bit words.
\<close>

record vfsfd =
  vf_in_use :: bool
  vf_ino :: u64
  vf_flags :: u32
  vf_pos :: u64

record vfsmount =
  vm_in_use :: bool
  vm_src :: string
  vm_dst :: string
  vm_fstype :: string

record vfsinode =
  vi_ino :: u64
  vi_mode :: u32
  vi_uid :: u32
  vi_gid :: u32
  vi_size :: u64
  vi_atime :: u64
  vi_mtime :: u64
  vi_ctime :: u64
  vi_reg_data_path :: string

record vfs =
  v_next_ino :: u64
  v_fds :: "vfsfd list"
  v_mounts :: "vfsmount list"
  v_mount_count :: nat
  v_reg :: rstate
  v_in :: "int list"
  v_out :: string

abbreviation (input) VFS_MAX_FD :: nat where "VFS_MAX_FD \<equiv> 64"
abbreviation (input) VFS_MAX_MOUNTS :: nat where "VFS_MAX_MOUNTS \<equiv> 16"
abbreviation (input) RK_RW :: u8 where "RK_RW \<equiv> 3"

definition v_reg_set :: "string \<Rightarrow> val \<Rightarrow> u8 \<Rightarrow> vfs \<Rightarrow> vfs res" where
  "v_reg_set path v rights s = bind_res (reg_set (v_reg s) path v rights) (\<lambda>(rc, r). Inr (s\<lparr>v_reg := r\<rparr>))"

text \<open>A value is fetched, looked at and released; its string, if it has one, is data of the value.\<close>

definition v_reg_look :: "string \<Rightarrow> vfs \<Rightarrow> (val \<times> vfs) res" where
  "v_reg_look path s =
     bind_res (reg_get (v_reg s) path) (\<lambda>(v, r).
     bind_res (val_free (r_heap r) v) (\<lambda>h. Inr (v, s\<lparr>v_reg := r\<lparr>r_heap := h\<rparr>\<rparr>)))"

definition str_data :: "val \<Rightarrow> string option" where
  "str_data v = (if vtype v = TYPE_STR then data_str v else None)"

definition ino_path :: "u64 \<Rightarrow> string \<Rightarrow> string" where
  "ino_path ino field = trunc REG_PATH_MAX (''/vfs/inode/'' @ show_int (uint ino) @ ''/'' @ field)"

subsection \<open>Inodes\<close>

definition ino_alloc :: "vfs \<Rightarrow> u64 \<times> vfs" where
  "ino_alloc s = (v_next_ino s, s\<lparr>v_next_ino := v_next_ino s + 1\<rparr>)"

definition ino_publish :: "u64 \<Rightarrow> string \<Rightarrow> u32 \<Rightarrow> vfs \<Rightarrow> vfs res" where
  "ino_publish ino path mode s =
     bind_res (v_reg_set (ino_path ino ''path'') (val_str path) RK_READ s)
       (v_reg_set (ino_path ino ''mode'') (val_int (ucast mode)) RK_READ)"

fun find_ino :: "u64 list \<Rightarrow> string \<Rightarrow> vfs \<Rightarrow> (u64 \<times> vfs) res" where
  "find_ino [] path s = Inr (0, s)"
| "find_ino (ino # is) path s =
     bind_res (v_reg_look (ino_path ino ''path'') s) (\<lambda>(v, s1).
       if str_data v = Some path then Inr (ino, s1) else find_ino is path s1)"

definition path_to_ino :: "string \<Rightarrow> vfs \<Rightarrow> (u64 \<times> vfs) res" where
  "path_to_ino path s = find_ino (List.map of_nat [1..<unat (v_next_ino s)]) path s"

subsection \<open>File descriptors\<close>

definition no_fd :: vfsfd where
  "no_fd = \<lparr>vf_in_use = False, vf_ino = 0, vf_flags = 0, vf_pos = 0\<rparr>"

definition vfs_init :: "vfs \<Rightarrow> vfs" where
  "vfs_init s =
     s\<lparr>v_fds := List.map (\<lambda>i. \<lparr>vf_in_use = True, vf_ino = of_nat i, vf_flags = (if i = 0 then 0 else 1), vf_pos = 0\<rparr>) [0..<3]
         @ drop 3 (v_fds s)\<rparr>"

definition free_fd :: "vfsfd list \<Rightarrow> nat option" where
  "free_fd fds = List.find (\<lambda>i. \<not> vf_in_use (fds ! i)) [3..<VFS_MAX_FD]"

definition fd_alloc :: "u64 \<Rightarrow> u32 \<Rightarrow> vfs \<Rightarrow> int \<times> vfs" where
  "fd_alloc ino flags s =
     (case free_fd (v_fds s) of
        Some i \<Rightarrow> (int i, s\<lparr>v_fds := (v_fds s)[i := \<lparr>vf_in_use = True, vf_ino = ino, vf_flags = flags, vf_pos = 0\<rparr>]\<rparr>)
      | None \<Rightarrow> (-1, s))"

definition fd_get :: "int \<Rightarrow> vfs \<Rightarrow> vfsfd option" where
  "fd_get fd s =
     (if fd < 0 \<or> int VFS_MAX_FD \<le> fd \<or> \<not> vf_in_use (v_fds s ! nat fd) then None else Some (v_fds s ! nat fd))"

definition upd_fd :: "int \<Rightarrow> (vfsfd \<Rightarrow> vfsfd) \<Rightarrow> vfs \<Rightarrow> vfs" where
  "upd_fd fd g s = s\<lparr>v_fds := (v_fds s)[nat fd := g (v_fds s ! nat fd)]\<rparr>"

definition vfs_close :: "int \<Rightarrow> vfs \<Rightarrow> int \<times> vfs" where
  "vfs_close fd s =
     (if 0 \<le> fd \<and> fd < 3 then (0, s)
      else case fd_get fd s of
        None \<Rightarrow> (-1, s)
      | Some f \<Rightarrow> (0, upd_fd fd (\<lambda>f. f\<lparr>vf_in_use := False\<rparr>) s))"

text \<open>The source is a pointer into the table, so it is read after the close.\<close>

definition vfs_dup :: "int \<Rightarrow> int \<Rightarrow> vfs \<Rightarrow> int \<times> vfs" where
  "vfs_dup oldfd newfd s =
     (case fd_get oldfd s of
        None \<Rightarrow> (-1, s)
      | Some _ \<Rightarrow>
          let n = (if newfd = -1 then case free_fd (v_fds s) of Some i \<Rightarrow> int i | None \<Rightarrow> newfd else newfd) in
          if n < 0 \<or> int VFS_MAX_FD \<le> n then (-1, s)
          else
            let s1 = (if vf_in_use (v_fds s ! nat n) then snd (vfs_close n s) else s) in
            (n, upd_fd n (\<lambda>_. v_fds s1 ! nat oldfd) s1))"

definition vfs_seek :: "int \<Rightarrow> u64 \<Rightarrow> int \<Rightarrow> vfs \<Rightarrow> int \<times> vfs" where
  "vfs_seek fd offset whence s =
     (case fd_get fd s of
        None \<Rightarrow> (-1, s)
      | Some f \<Rightarrow>
          if whence \<notin> {0, 1, 2} then (-1, s)
          else
            let new_pos = (if whence = 1 then vf_pos f + offset else offset) in
            if sint new_pos < 0 then (-1, s)
            else (sint (ucast new_pos :: u32), upd_fd fd (\<lambda>f. f\<lparr>vf_pos := new_pos\<rparr>) s))"

subsection \<open>Open, read, write\<close>

definition vfs_open :: "string \<Rightarrow> u32 \<Rightarrow> vfs \<Rightarrow> (int \<times> vfs) res" where
  "vfs_open path flags s =
     bind_res (path_to_ino path s) (\<lambda>(ino, s1).
       if ino = 0 then
         if flags AND 0x40 = 0 then Inr (-1, s1)
         else
           let (new, s2) = ino_alloc s1 in
           bind_res (ino_publish new path 0x81A4 s2) (\<lambda>s3. Inr (fd_alloc new flags s3))
       else Inr (fd_alloc ino flags s1))"

text \<open>At most \<open>n\<close> characters of the console, up to a line feed.\<close>

fun read_console :: "nat \<Rightarrow> int list \<Rightarrow> u8 list \<times> int list" where
  "read_console 0 inp = ([], inp)"
| "read_console (Suc n) [] = ([], [])"
| "read_console (Suc n) (c # inp) =
     (if c < 0 then ([], inp)
      else if c = 10 then ([10], inp)
      else let (bs, rest) = read_console n inp in (of_int c # bs, rest))"

text \<open>The return code, the bytes put into the buffer of \<open>n\<close> bytes, and the state.\<close>

definition vfs_read :: "int \<Rightarrow> u64 \<Rightarrow> vfs \<Rightarrow> (int \<times> u8 list \<times> vfs) res" where
  "vfs_read fd n s =
     (if fd = 0 then
        let (bs, rest) = read_console (unat n) (v_in s) in
        Inr (sint (of_nat (length bs) :: u32), bs, s\<lparr>v_in := rest\<rparr>)
      else case fd_get fd s of
        None \<Rightarrow> Inr (-1, [], s)
      | Some f \<Rightarrow>
          bind_res (v_reg_look (ino_path (vf_ino f) ''data'') s) (\<lambda>(v, s1).
            case str_data v of
              None \<Rightarrow> Inr (0, [], s1)
            | Some d \<Rightarrow>
                if length d \<le> unat (vf_pos f) then Inr (0, [], s1)
                else
                  let out = take (unat n) (drop (unat (vf_pos f)) d) in
                  Inr (sint (of_nat (length out) :: u32), bytes_of out,
                    upd_fd fd (\<lambda>f. f\<lparr>vf_pos := vf_pos f + of_nat (length out)\<rparr>) s1)))"

definition vfs_write :: "int \<Rightarrow> u8 list \<Rightarrow> vfs \<Rightarrow> (int \<times> vfs) res" where
  "vfs_write fd buf s =
     (let rc = sint (of_nat (length buf) :: u32) in
      if fd = 1 \<or> fd = 2 then Inr (rc, s\<lparr>v_out := v_out s @ string_of buf\<rparr>)
      else case fd_get fd s of
        None \<Rightarrow> Inr (-1, s)
      | Some f \<Rightarrow>
          bind_res (v_reg_look (ino_path (vf_ino f) ''data'') s) (\<lambda>(v, s1).
          let combined = or_empty (str_data v) @ string_of buf in
          bind_res (v_reg_set (ino_path (vf_ino f) ''data'') (val_str (c_str combined)) RK_RW s1) (\<lambda>s2.
            Inr (rc, upd_fd fd (\<lambda>f. f\<lparr>vf_pos := vf_pos f + of_nat (length buf)\<rparr>) s2))))"

definition vfs_stat :: "string \<Rightarrow> vfs \<Rightarrow> (vfsinode option \<times> vfs) res" where
  "vfs_stat path s =
     bind_res (path_to_ino path s) (\<lambda>(ino, s1).
       if ino = 0 then Inr (None, s1)
       else bind_res (v_reg_look (ino_path ino ''mode'') s1) (\<lambda>(v, s2).
         Inr (Some \<lparr>vi_ino = ino, vi_mode = (if vtype v = TYPE_INT then ucast (ival v) else 0x81A4), vi_uid = 0, vi_gid = 0,
           vi_size = 0, vi_atime = 0, vi_mtime = 0, vi_ctime = 0, vi_reg_data_path = ino_path ino ''data''\<rparr>, s2)))"

definition vfs_mkdir :: "string \<Rightarrow> u32 \<Rightarrow> vfs \<Rightarrow> (int \<times> vfs) res" where
  "vfs_mkdir path mode s =
     bind_res (path_to_ino path s) (\<lambda>(ino, s1).
       if ino \<noteq> 0 then Inr (0, s1)
       else
         let (new, s2) = ino_alloc s1 in
         bind_res (ino_publish new path (mode OR 0x4000) s2) (\<lambda>s3. Inr (0, s3)))"

definition vfs_mount :: "string \<Rightarrow> string \<Rightarrow> string \<Rightarrow> vfs \<Rightarrow> (int \<times> vfs) res" where
  "vfs_mount src dst fstype s =
     (if VFS_MAX_MOUNTS \<le> v_mount_count s then Inr (-1, s)
      else
        let m = \<lparr>vm_in_use = True, vm_src = trunc REG_PATH_MAX src, vm_dst = trunc REG_PATH_MAX dst, vm_fstype = trunc 32 fstype\<rparr>;
            reg_base = trunc REG_PATH_MAX (''/vfs/mount/'' @ show_nat (v_mount_count s)) in
        bind_res (v_reg_set reg_base (val_str src) RK_READ
          (s\<lparr>v_mounts := (v_mounts s)[v_mount_count s := m], v_mount_count := v_mount_count s + 1\<rparr>)) (\<lambda>s1.
        bind_res (v_reg_set (trunc REG_PATH_MAX (reg_base @ ''/dst'')) (val_str dst) RK_READ s1) (\<lambda>s2.
        bind_res (v_reg_set (trunc REG_PATH_MAX (reg_base @ ''/fstype'')) (val_str fstype) RK_READ s2) (\<lambda>s3.
          Inr (0, s3)))))"

end
