(* ===== verification/Vfs_Facts.thy ===== *)
theory Vfs_Facts
  imports Vfs Registry_Facts Roundtrip
begin

section \<open>The virtual file system is a set of files\<close>

subsection \<open>Paths of inodes\<close>

lemma show_nat_inj: "show_nat m = show_nat n \<Longrightarrow> m = n"
  using show_nat_digits by (metis of_nat_eq_iff)

lemma show_uint_inj: "show_int (uint v) = show_int (uint w) \<longleftrightarrow> v = w"
  using show_nat_inj [of "nat (uint v)" "nat (uint w)"] by (auto simp: show_int_def not_less word_unat_eq_iff)

definition ino_segs :: "u64 \<Rightarrow> string \<Rightarrow> string list" where
  "ino_segs ino field = [''vfs'', ''inode'', show_int (uint ino), field]"

lemma ino_path_ok:
  assumes "field \<in> {''path'', ''mode'', ''data''}"
  shows "good_path (ino_path ino field)" and "path_segs (ino_path ino field) = ino_segs ino field"
proof -
  let ?d = "show_int (uint ino)"
  have f: "length field = 4" "CHR ''/'' \<notin> set field" "field \<noteq> []" using assms by auto
  have len: "length ?d \<le> 20" using digits_length [of 20, where 'a = 64] by simp
  let ?s = "''vfs'' @ CHR ''/'' # ''inode'' @ CHR ''/'' # ?d @ CHR ''/'' # field"
  have k: "ino_path ino field = CHR ''/'' # ?s" using len f by (simp add: ino_path_def trunc_def)
  have "segs_of (''vfs'' @ CHR ''/'' # x) = ''vfs'' # segs_of x" "segs_of (''inode'' @ CHR ''/'' # x) = ''inode'' # segs_of x"
    "segs_of (?d @ CHR ''/'' # x) = ?d # segs_of x" "segs_of field = [field]" for x
    by (intro segs_of_seg segs_of_last; simp add: digits_no_slash digits_nonempty f)+
  then have s: "segs_of ?s = ino_segs ino field" unfolding ino_segs_def by (simp only:)
  then show "good_path (ino_path ino field)" using len f by (intro good_pathI [OF k]) (simp_all add: k ino_segs_def)
  have "Suc (length ?s) < REG_PATH_MAX" using len f by simp
  from trans [OF path_segs_simp [OF this] s] show "path_segs (ino_path ino field) = ino_segs ino field" by (simp only: k)
qed

lemma ino_segs_eq [simp]: "ino_segs i f = ino_segs j g \<longleftrightarrow> i = j \<and> f = g"
  by (simp add: ino_segs_def show_uint_inj)

lemma ino_segs_prefix [simp]: "is_prefix (ino_segs i f) (ino_segs j g) \<longleftrightarrow> i = j \<and> f = g"
  by (auto simp: ino_segs_def is_prefix_Cons show_uint_inj)

subsection \<open>The registry below it\<close>

text \<open>What a path holds: no key, nil and a value without a string are the same to this file system.\<close>

definition val_at :: "rstate \<Rightarrow> string list \<Rightarrow> val option" where
  "val_at r q = map_option k_val (info (r_root r) q)"

definition plain :: "val option \<Rightarrow> bool" where
  "plain v \<longleftrightarrow> v = None \<or> (\<exists>w. v = Some w \<and> ref_of w = None)"

definition text_at :: "val option \<Rightarrow> string option" where
  "text_at v = (case v of None \<Rightarrow> None | Some w \<Rightarrow> str_data (stored w))"

lemma free_plain: "ref_of v = None \<Longrightarrow> val_free h v = Inr h"
  by (simp add: val_free_def free_vals.simps)

lemma reg_ok_plain: "ref_of v = None \<Longrightarrow> reg_ok st (v # R) = reg_ok st R"
  using heap_ok_cong [of "all_vals (r_root st) @ v # R" "all_vals (r_root st) @ R" "r_heap st"] by (simp add: reg_ok_def)

lemma ref_stored [simp]: "ref_of (stored v) = ref_of v"
  by (simp add: stored_def ref_of_def split: vdata.split)

lemma ref_err [simp]: "ref_of (val_err c m) = None"
  by (simp add: ref_of_def val_err_def val_nil_def)

lemma v_reg_look_ok:
  assumes "reg_ok (v_reg s) R" and "good_path p" and "plain (val_at (v_reg s) (path_segs p))"
  shows "\<exists>w r. v_reg_look p s = Inr (w, s\<lparr>v_reg := r\<rparr>) \<and> reg_ok r R \<and> val_at r = val_at (v_reg s) \<and>
    str_data w = text_at (val_at (v_reg s) (path_segs p))"
proof -
  obtain w r where w: "reg_get (v_reg s) p = Inr (w, r)" "reg_ok r (w # R)" "r_root r = r_root (v_reg s)"
    "w = (case info (r_root (v_reg s)) (path_segs p) of Some nd \<Rightarrow> stored (k_val nd) | None \<Rightarrow> val_err 3 ''registry key not found'')"
    using reg_get_ok [OF assms(1), of p] assms(2) by (auto simp: good_path_def)
  have ref: "ref_of w = None" using w(4) assms(3) by (auto simp: plain_def val_at_def split: option.splits)
  have "str_data w = text_at (val_at (v_reg s) (path_segs p))"
    using w(4) by (auto simp: text_at_def val_at_def str_data_def val_err_def val_nil_def split: option.split)
  moreover have "val_at r = val_at (v_reg s)" using w(3) by (simp add: val_at_def fun_eq_iff)
  ultimately show ?thesis
    using w(1,2) ref by (auto simp: v_reg_look_def free_plain reg_ok_plain)
qed

lemma v_reg_set_ok:
  assumes "reg_ok (v_reg s) R" and "good_path p" and "ref_of v = None"
  shows "\<exists>r. v_reg_set p v rights s = Inr (s\<lparr>v_reg := r\<rparr>) \<and> reg_ok r R \<and>
    (\<forall>q. val_at r q = (if q = path_segs p then Some (stored v)
       else case val_at (v_reg s) q of Some w \<Rightarrow> Some w | None \<Rightarrow> if is_prefix q (path_segs p) then Some val_nil else None))"
proof -
  obtain r where r: "reg_set (v_reg s) p v rights = Inr (0, r)" "reg_ok r R"
    "\<forall>q. map_option k_val (info (r_root r) q) =
      (if q = path_segs p then Some (stored v)
       else case info (r_root (v_reg s)) q of Some nd \<Rightarrow> Some (k_val nd)
         | None \<Rightarrow> if is_prefix q (path_segs p) then Some val_nil else None)"
    using reg_set_ok [OF assms(1,2)] assms(3) by blast
  have "val_at r q = (if q = path_segs p then Some (stored v)
       else case val_at (v_reg s) q of Some w \<Rightarrow> Some w | None \<Rightarrow> if is_prefix q (path_segs p) then Some val_nil else None)" for q
    using r(3) by (simp add: val_at_def split: option.split)
  then show ?thesis using r(1,2) by (auto simp: v_reg_set_def)
qed

subsection \<open>The specification\<close>

record files =
  fl_inode :: "string \<Rightarrow> u64 option"
  fl_count :: nat
  fl_text :: "u64 \<Rightarrow> string"
  fl_open :: "int \<Rightarrow> (u64 \<times> u64) option"

datatype file_op = Open string u32 | Mkdir string u32 | Read int u64 | Write int "u8 list" | Seek int u64 int | Close int | Dup int int

definition low_fd :: "(int \<Rightarrow> (u64 \<times> u64) option) \<Rightarrow> int option" where
  "low_fd m = List.find (\<lambda>fd. m fd = None) (List.map int [3..<VFS_MAX_FD])"

definition new_file :: "string \<Rightarrow> files \<Rightarrow> u64 \<times> files" where
  "new_file p a = (let i = of_nat (fl_count a + 1) in (i, a\<lparr>fl_inode := (fl_inode a)(p \<mapsto> i), fl_count := fl_count a + 1\<rparr>))"

definition open_file :: "u64 \<Rightarrow> files \<Rightarrow> int \<times> files" where
  "open_file i a = (case low_fd (fl_open a) of Some fd \<Rightarrow> (fd, a\<lparr>fl_open := (fl_open a)(fd \<mapsto> (i, 0))\<rparr>) | None \<Rightarrow> (-1, a))"

definition close_file :: "int \<Rightarrow> files \<Rightarrow> int \<times> files" where
  "close_file fd a =
     (if fd \<in> {0, 1, 2} then (0, a)
      else if fl_open a fd = None then (-1, a)
      else (0, a\<lparr>fl_open := (fl_open a)(fd := None)\<rparr>))"

definition int32 :: "nat \<Rightarrow> int" where
  "int32 n = sint (of_nat n :: u32)"

fun file_step :: "file_op \<Rightarrow> files \<Rightarrow> (int \<times> u8 list) \<times> files" where
  "file_step (Open p flags) a =
     (case fl_inode a p of
        Some i \<Rightarrow> let (fd, a1) = open_file i a in ((fd, []), a1)
      | None \<Rightarrow>
          if flags AND 0x40 = 0 then ((-1, []), a)
          else let (i, a1) = new_file p a; (fd, a2) = open_file i a1 in ((fd, []), a2))"
| "file_step (Mkdir p mode) a = ((0, []), if fl_inode a p = None then snd (new_file p a) else a)"
| "file_step (Read fd n) a =
     (case fl_open a fd of
        None \<Rightarrow> ((-1, []), a)
      | Some (i, pos) \<Rightarrow>
          let out = take (unat n) (drop (unat pos) (fl_text a i)) in
          ((int32 (length out), bytes_of out), a\<lparr>fl_open := (fl_open a)(fd \<mapsto> (i, pos + of_nat (length out)))\<rparr>))"
| "file_step (Write fd buf) a =
     (case fl_open a fd of
        None \<Rightarrow> ((-1, []), a)
      | Some (i, pos) \<Rightarrow>
          ((int32 (length buf), []),
           a\<lparr>fl_text := (fl_text a)(i := fl_text a i @ string_of buf), fl_open := (fl_open a)(fd \<mapsto> (i, pos + of_nat (length buf)))\<rparr>))"
| "file_step (Seek fd off whence) a =
     (case fl_open a fd of
        None \<Rightarrow> ((-1, []), a)
      | Some (i, pos) \<Rightarrow>
          let new_pos = (if whence = 1 then pos + off else off) in
          if whence \<notin> {0, 1, 2} \<or> sint new_pos < 0 then ((-1, []), a)
          else ((sint (ucast new_pos :: u32), []), a\<lparr>fl_open := (fl_open a)(fd \<mapsto> (i, new_pos))\<rparr>))"
| "file_step (Close fd) a = (let (rc, a1) = close_file fd a in ((rc, []), a1))"
| "file_step (Dup old new) a =
     (if fl_open a old = None then ((-1, []), a)
      else
        let fd = (if new = -1 then case low_fd (fl_open a) of Some fd \<Rightarrow> fd | None \<Rightarrow> -1 else new) in
        if fd < 0 \<or> int VFS_MAX_FD \<le> fd then ((-1, []), a)
        else let a1 = snd (close_file fd a) in ((fd, []), a1\<lparr>fl_open := (fl_open a1)(fd := fl_open a1 old)\<rparr>))"

fun run_files :: "file_op list \<Rightarrow> files \<Rightarrow> (int \<times> u8 list) list \<times> files" where
  "run_files [] a = ([], a)"
| "run_files (x # xs) a = (let (r, a1) = file_step x a; (rs, a2) = run_files xs a1 in (r # rs, a2))"

fun vfs_step :: "file_op \<Rightarrow> vfs \<Rightarrow> ((int \<times> u8 list) \<times> vfs) res" where
  "vfs_step (Open p flags) s = bind_res (vfs_open p flags s) (\<lambda>(rc, s1). Inr ((rc, []), s1))"
| "vfs_step (Mkdir p mode) s = bind_res (vfs_mkdir p mode s) (\<lambda>(rc, s1). Inr ((rc, []), s1))"
| "vfs_step (Read fd n) s = bind_res (vfs_read fd n s) (\<lambda>(rc, out, s1). Inr ((rc, out), s1))"
| "vfs_step (Write fd buf) s = bind_res (vfs_write fd buf s) (\<lambda>(rc, s1). Inr ((rc, []), s1))"
| "vfs_step (Seek fd off whence) s = (let (rc, s1) = vfs_seek fd off whence s in Inr ((rc, []), s1))"
| "vfs_step (Close fd) s = (let (rc, s1) = vfs_close fd s in Inr ((rc, []), s1))"
| "vfs_step (Dup old new) s = (let (rc, s1) = vfs_dup old new s in Inr ((rc, []), s1))"

fun run_vfs :: "file_op list \<Rightarrow> vfs \<Rightarrow> ((int \<times> u8 list) list \<times> vfs) res" where
  "run_vfs [] s = Inr ([], s)"
| "run_vfs (x # xs) s = bind_res (vfs_step x s) (\<lambda>(r, s1). bind_res (run_vfs xs s1) (\<lambda>(rs, s2). Inr (r # rs, s2)))"

text \<open>Consoles are not files; a byte 0 would end the text.\<close>

fun file_op_ok :: "file_op \<Rightarrow> bool" where
  "file_op_ok (Read fd n) \<longleftrightarrow> fd \<noteq> 0"
| "file_op_ok (Write fd buf) \<longleftrightarrow> fd \<noteq> 1 \<and> fd \<noteq> 2 \<and> 0 \<notin> set buf"
| "file_op_ok _ \<longleftrightarrow> True"

subsection \<open>The refinement\<close>

definition names_rel :: "rstate \<Rightarrow> nat \<Rightarrow> (string \<Rightarrow> u64 option) \<Rightarrow> bool" where
  "names_rel r n m \<longleftrightarrow>
     (\<forall>i. 0 < unat i \<longrightarrow> unat i \<le> n \<longrightarrow> plain (val_at r (ino_segs i ''path'')) \<and>
        (\<exists>p. text_at (val_at r (ino_segs i ''path'')) = Some p \<and> m p = Some i)) \<and>
     (\<forall>p i. m p = Some i \<longrightarrow> 0 < unat i \<and> unat i \<le> n \<and> text_at (val_at r (ino_segs i ''path'')) = Some p)"

definition texts_rel :: "rstate \<Rightarrow> (u64 \<Rightarrow> string) \<Rightarrow> bool" where
  "texts_rel r t \<longleftrightarrow> (\<forall>i. plain (val_at r (ino_segs i ''data'')) \<and> or_empty (text_at (val_at r (ino_segs i ''data''))) = t i \<and>
     CHR 0x00 \<notin> set (t i))"

definition fds_rel :: "vfs \<Rightarrow> (int \<Rightarrow> (u64 \<times> u64) option) \<Rightarrow> bool" where
  "fds_rel s m \<longleftrightarrow> length (v_fds s) = VFS_MAX_FD \<and> (\<forall>fd. m fd = map_option (\<lambda>f. (vf_ino f, vf_pos f)) (fd_get fd s))"

definition vfs_rel :: "val list \<Rightarrow> vfs \<Rightarrow> files \<Rightarrow> bool" where
  "vfs_rel R s a \<longleftrightarrow> reg_ok (v_reg s) R \<and> fds_rel s (fl_open a) \<and> names_rel (v_reg s) (fl_count a) (fl_inode a) \<and>
     texts_rel (v_reg s) (fl_text a) \<and> v_next_ino s = of_nat (fl_count a + 1)"

lemma names_rel_cong: "(\<And>i. val_at r' (ino_segs i ''path'') = val_at r (ino_segs i ''path'')) \<Longrightarrow> names_rel r' n m = names_rel r n m"
  by (simp add: names_rel_def)

lemma texts_rel_cong: "(\<And>i. val_at r' (ino_segs i ''data'') = val_at r (ino_segs i ''data'')) \<Longrightarrow> texts_rel r' t = texts_rel r t"
  by (simp add: texts_rel_def)

lemma fds_rel_reg [simp]: "fds_rel (s\<lparr>v_reg := r\<rparr>) m = fds_rel s m" "fds_rel (s\<lparr>v_next_ino := n\<rparr>) m = fds_rel s m"
  by (simp_all add: fds_rel_def fd_get_def)

lemma fd_get_reg [simp]: "fd_get fd (s\<lparr>v_reg := r\<rparr>) = fd_get fd s"
  by (simp add: fd_get_def)

lemma fd_get_range: "fd_get fd s = Some f \<Longrightarrow> 0 \<le> fd \<and> fd < int VFS_MAX_FD"
  by (auto simp: fd_get_def split: if_splits)

lemma fd_get_upd:
  "length (v_fds s) = VFS_MAX_FD \<Longrightarrow> 0 \<le> fd \<Longrightarrow> fd < int VFS_MAX_FD \<Longrightarrow>
   fd_get fd' (upd_fd fd g s) = (if fd' = fd then (if vf_in_use (g (v_fds s ! nat fd)) then Some (g (v_fds s ! nat fd)) else None) else fd_get fd' s)"
proof (cases "fd' = fd")
  case False
  assume "0 \<le> fd"
  then have "nat fd' \<noteq> nat fd \<or> fd' < 0" using False by auto
  then have "(v_fds s)[nat fd := x] ! nat fd' = v_fds s ! nat fd' \<or> fd' < 0" for x by auto
  then show ?thesis using False by (auto simp: fd_get_def upd_fd_def)
next
  case True
  assume "length (v_fds s) = VFS_MAX_FD" "0 \<le> fd" "fd < int VFS_MAX_FD"
  then show ?thesis using True by (simp add: fd_get_def upd_fd_def nat_less_iff)
qed

lemma upd_fd_simps [simp]: "v_reg (upd_fd fd g s) = v_reg s" "v_next_ino (upd_fd fd g s) = v_next_ino s"
  "length (v_fds (upd_fd fd g s)) = length (v_fds s)"
  by (simp_all add: upd_fd_def)

lemma fds_rel_upd:
  assumes "fds_rel s m" and "0 \<le> fd" and "fd < int VFS_MAX_FD"
  shows "fds_rel (upd_fd fd g s) (m(fd := (if vf_in_use (g (v_fds s ! nat fd)) then Some (vf_ino (g (v_fds s ! nat fd)), vf_pos (g (v_fds s ! nat fd))) else None)))"
  using assms by (auto simp: fds_rel_def fd_get_upd)

lemma fd_get_nth: "fd_get fd s = Some f \<Longrightarrow> v_fds s ! nat fd = f \<and> vf_in_use f"
  by (auto simp: fd_get_def split: if_splits)

text \<open>A new position.\<close>

lemma fds_rel_pos:
  assumes "fds_rel s m" and "fd_get fd s = Some f"
  shows "fds_rel (upd_fd fd (\<lambda>f. f\<lparr>vf_pos := g f\<rparr>) s) (m(fd \<mapsto> (vf_ino f, g f)))"
  using fds_rel_upd [OF assms(1), of fd "\<lambda>f. f\<lparr>vf_pos := g f\<rparr>"] fd_get_range [OF assms(2)] fd_get_nth [OF assms(2)] by simp

lemma find_map: "List.find P (List.map f xs) = map_option f (List.find (\<lambda>x. P (f x)) xs)"
  by (induction xs) auto

lemma find_SomeD: "List.find P xs = Some x \<Longrightarrow> P x \<and> x \<in> set xs"
  by (induction xs) (auto split: if_splits)

lemma low_fd_ok: "fds_rel s m \<Longrightarrow> low_fd m = map_option int (free_fd (v_fds s))"
  unfolding low_fd_def free_fd_def find_map
  by (intro arg_cong [where f = "map_option int"] find_cong) (auto simp: fds_rel_def fd_get_def)

lemma free_fd_range: "free_fd fds = Some i \<Longrightarrow> 3 \<le> i \<and> i < VFS_MAX_FD \<and> \<not> vf_in_use (fds ! i)"
  unfolding free_fd_def by (drule find_SomeD) (simp only: set_upt atLeastLessThan_iff simp_thms)

lemma fd_alloc_ok:
  assumes "vfs_rel R s a"
  shows "fst (fd_alloc i flags s) = fst (open_file i a) \<and> vfs_rel R (snd (fd_alloc i flags s)) (snd (open_file i a))"
proof -
  have fds: "fds_rel s (fl_open a)" using assms by (simp add: vfs_rel_def)
  show ?thesis
  proof (cases "free_fd (v_fds s)")
    case None
    then show ?thesis using assms low_fd_ok [OF fds] by (simp add: fd_alloc_def open_file_def)
  next
    case (Some k)
    let ?f = "\<lparr>vf_in_use = True, vf_ino = i, vf_flags = flags, vf_pos = 0\<rparr>"
    have "fds_rel (upd_fd (int k) (\<lambda>_. ?f) s) ((fl_open a)(int k \<mapsto> (i, 0)))"
      using fds_rel_upd [OF fds, of "int k" "\<lambda>_. ?f"] free_fd_range [OF Some] by simp
    then show ?thesis using assms Some low_fd_ok [OF fds] by (simp add: fd_alloc_def open_file_def upd_fd_def vfs_rel_def)
  qed
qed

lemma find_ino_ok:
  assumes "reg_ok (v_reg s) R" and "\<forall>i \<in> set is. plain (val_at (v_reg s) (ino_segs i ''path''))"
  shows "\<exists>r. find_ino is p s =
      Inr (case List.find (\<lambda>i. text_at (val_at (v_reg s) (ino_segs i ''path'')) = Some p) is of Some i \<Rightarrow> i | None \<Rightarrow> 0, s\<lparr>v_reg := r\<rparr>) \<and>
    reg_ok r R \<and> val_at r = val_at (v_reg s)"
  using assms
proof (induction "is" arbitrary: s)
  case Nil
  then show ?case by (auto intro!: exI [of _ "v_reg s"])
next
  case (Cons i "is")
  note path = ino_path_ok [of "''path''" i]
  obtain w r where w: "v_reg_look (ino_path i ''path'') s = Inr (w, s\<lparr>v_reg := r\<rparr>)" "reg_ok r R" "val_at r = val_at (v_reg s)"
    "str_data w = text_at (val_at (v_reg s) (ino_segs i ''path''))"
    using v_reg_look_ok [OF Cons.prems(1) path(1)] Cons.prems(2) path(2) by auto
  obtain r2 where "find_ino is p (s\<lparr>v_reg := r\<rparr>) =
      Inr (case List.find (\<lambda>i. text_at (val_at (v_reg s) (ino_segs i ''path'')) = Some p) is of Some i \<Rightarrow> i | None \<Rightarrow> 0, s\<lparr>v_reg := r2\<rparr>)"
    "reg_ok r2 R" "val_at r2 = val_at (v_reg s)"
    using Cons.IH [of "s\<lparr>v_reg := r\<rparr>"] w Cons.prems(2) by auto
  then show ?case using w by auto
qed

lemma path_to_ino_ok:
  assumes rel: "vfs_rel R s a" and count: "fl_count a < 2 ^ 32"
  shows "\<exists>r. path_to_ino p s = Inr (case fl_inode a p of Some i \<Rightarrow> i | None \<Rightarrow> 0, s\<lparr>v_reg := r\<rparr>) \<and> vfs_rel R (s\<lparr>v_reg := r\<rparr>) a"
proof -
  define xs :: "u64 list" where "xs = List.map of_nat [1..<unat (v_next_ino s)]"
  let ?P = "\<lambda>i. text_at (val_at (v_reg s) (ino_segs i ''path'')) = Some p"
  have g: "reg_ok (v_reg s) R" "names_rel (v_reg s) (fl_count a) (fl_inode a)" "v_next_ino s = of_nat (fl_count a + 1)"
    using rel by (simp_all add: vfs_rel_def)
  have nxt: "unat (v_next_ino s) = fl_count a + 1" unfolding g(3) using count by (intro unat_u64_of_nat) simp
  have "set xs = {i. 0 < unat i \<and> unat i \<le> fl_count a}"
  proof (intro set_eqI iffI)
    fix i :: u64 assume "i \<in> set xs"
    then obtain k where "i = of_nat k" "k \<in> set [1..<unat (v_next_ino s)]" unfolding xs_def set_map by (rule imageE)
    then have "i = of_nat k" "0 < k" "k \<le> fl_count a" by (auto simp: nxt)
    then show "i \<in> {i. 0 < unat i \<and> unat i \<le> fl_count a}" using count by (simp add: unat_of_nat)
  next
    fix i :: u64 assume "i \<in> {i. 0 < unat i \<and> unat i \<le> fl_count a}"
    then have "unat i \<in> set [1..<unat (v_next_ino s)]" by (auto simp: nxt)
    then show "i \<in> set xs" unfolding xs_def by (metis imageI list.set_map word_of_nat_unat)
  qed
  then have inrange: "(i :: u64) \<in> set xs \<longleftrightarrow> 0 < unat i \<and> unat i \<le> fl_count a" for i by auto
  have N: "fl_inode a p = Some i \<longleftrightarrow> i \<in> set xs \<and> ?P i" for i
    using g(2) inrange [of i] unfolding names_rel_def by (metis option.inject)
  have "List.find ?P xs = fl_inode a p"
  proof (cases "fl_inode a p")
    case None
    then show ?thesis using N by (simp add: find_None_iff)
  next
    case (Some i)
    then have "List.find ?P xs \<noteq> None" using N by (auto simp: find_None_iff)
    then obtain j where j: "List.find ?P xs = Some j" by auto
    have "fl_inode a p = Some j" using find_SomeD [OF j] N by blast
    then show ?thesis using j by simp
  qed
  moreover have "\<forall>i \<in> set xs. plain (val_at (v_reg s) (ino_segs i ''path''))" using g(2) inrange by (simp add: names_rel_def)
  moreover have "path_to_ino p s = find_ino xs p s" by (simp add: path_to_ino_def xs_def)
  ultimately obtain r where "path_to_ino p s = Inr (case fl_inode a p of Some i \<Rightarrow> i | None \<Rightarrow> 0, s\<lparr>v_reg := r\<rparr>)"
    "reg_ok r R" "val_at r = val_at (v_reg s)"
    using find_ino_ok [OF g(1), of xs p] by auto
  then show ?thesis using rel by (auto simp: vfs_rel_def names_rel_def texts_rel_def)
qed

lemma inode_nonzero: "vfs_rel R s a \<Longrightarrow> fl_inode a p = Some i \<Longrightarrow> i \<noteq> 0"
  unfolding vfs_rel_def names_rel_def by fastforce

lemma text_str [simp]: "text_at (Some (stored (val_str s))) = Some s" "plain (Some (stored (val_str s)))"
  by (simp_all add: text_at_def plain_def stored_def str_data_def data_str_def val_str_def val_nil_def ref_of_def)

lemma new_file_ok:
  assumes rel: "vfs_rel R s a" and new: "fl_inode a p = None" and count: "fl_count a < 2 ^ 32"
  shows "\<exists>s'. ino_publish (fst (ino_alloc s)) p mode (snd (ino_alloc s)) = Inr s' \<and> vfs_rel R s' (snd (new_file p a)) \<and>
    fst (ino_alloc s) = fst (new_file p a)"
proof -
  let ?i = "v_next_ino s"
  have g: "reg_ok (v_reg s) R" "names_rel (v_reg s) (fl_count a) (fl_inode a)" "?i = of_nat (fl_count a + 1)"
    "texts_rel (v_reg s) (fl_text a)" "fds_rel s (fl_open a)"
    using rel by (simp_all add: vfs_rel_def)
  have i: "unat ?i = fl_count a + 1" unfolding g(3) using count by (intro unat_u64_of_nat) simp
  let ?s = "s\<lparr>v_next_ino := ?i + 1\<rparr>"
  note pp = ino_path_ok [of "''path''" ?i] and pm = ino_path_ok [of "''mode''" ?i]
  have ok1: "reg_ok (v_reg ?s) R" using g(1) by simp
  have pg: "good_path (ino_path ?i ''path'')" "good_path (ino_path ?i ''mode'')" using pp(1) pm(1) by simp_all
  have ps: "path_segs (ino_path ?i ''path'') = ino_segs ?i ''path''" "path_segs (ino_path ?i ''mode'') = ino_segs ?i ''mode''"
    using pp(2) pm(2) by simp_all
  have refs: "ref_of (val_str p) = None" "ref_of (val_int (ucast mode)) = None"
    by (simp_all add: ref_of_def val_str_def val_int_def val_nil_def)
  obtain r1 where r1: "v_reg_set (ino_path ?i ''path'') (val_str p) RK_READ ?s = Inr (?s\<lparr>v_reg := r1\<rparr>)" "reg_ok r1 R"
    "\<forall>q. val_at r1 q = (if q = ino_segs ?i ''path'' then Some (stored (val_str p))
       else case val_at (v_reg ?s) q of Some w \<Rightarrow> Some w | None \<Rightarrow> if is_prefix q (ino_segs ?i ''path'') then Some val_nil else None)"
    using v_reg_set_ok [OF ok1 pg(1) refs(1)] unfolding ps by blast
  have ok2: "reg_ok (v_reg (?s\<lparr>v_reg := r1\<rparr>)) R" using r1(2) by simp
  obtain r2 where r2: "v_reg_set (ino_path ?i ''mode'') (val_int (ucast mode)) RK_READ (?s\<lparr>v_reg := r1\<rparr>) = Inr ((?s\<lparr>v_reg := r1\<rparr>)\<lparr>v_reg := r2\<rparr>)"
    "reg_ok r2 R"
    "\<forall>q. val_at r2 q = (if q = ino_segs ?i ''mode'' then Some (stored (val_int (ucast mode)))
       else case val_at (v_reg (?s\<lparr>v_reg := r1\<rparr>)) q of Some w \<Rightarrow> Some w | None \<Rightarrow> if is_prefix q (ino_segs ?i ''mode'') then Some val_nil else None)"
    using v_reg_set_ok [OF ok2 pg(2) refs(2)] unfolding ps by blast
  have old: "val_at r2 (ino_segs j f) = val_at (v_reg s) (ino_segs j f)" if "f = ''data'' \<or> f = ''path'' \<and> j \<noteq> ?i" for j f
    using that r1(3) r2(3) by (auto split: option.split)
  have newp: "val_at r2 (ino_segs ?i ''path'') = Some (stored (val_str p))" using r1(3) r2(3) by simp
  have "names_rel r2 (fl_count a + 1) ((fl_inode a)(p \<mapsto> ?i))"
    unfolding names_rel_def
  proof (intro conjI allI impI)
    fix j :: u64 assume j: "0 < unat j" "unat j \<le> fl_count a + 1"
    show "plain (val_at r2 (ino_segs j ''path''))"
    proof (cases "j = ?i")
      case False
      then have "unat j \<le> fl_count a" using j i by (auto simp: word_unat_eq_iff)
      then show ?thesis using g(2) j(1) old [of "''path''" j] False by (simp add: names_rel_def)
    qed (simp add: newp)
    show "\<exists>q. text_at (val_at r2 (ino_segs j ''path'')) = Some q \<and> ((fl_inode a)(p \<mapsto> ?i)) q = Some j"
    proof (cases "j = ?i")
      case False
      then have "unat j \<le> fl_count a" using j i by (auto simp: word_unat_eq_iff)
      then obtain q where "text_at (val_at (v_reg s) (ino_segs j ''path'')) = Some q" "fl_inode a q = Some j"
        using g(2) j(1) unfolding names_rel_def by blast
      then show ?thesis using new old [of "''path''" j] False by (intro exI [of _ q]) auto
    qed (simp add: newp)
  next
    fix q j assume q: "((fl_inode a)(p \<mapsto> ?i)) q = Some j"
    have "0 < unat j \<and> unat j \<le> fl_count a + 1 \<and> text_at (val_at r2 (ino_segs j ''path'')) = Some q"
    proof (cases "q = p")
      case True
      then show ?thesis using q i newp by auto
    next
      case False
      then have f: "fl_inode a q = Some j" using q by simp
      then have b: "0 < unat j" "unat j \<le> fl_count a" "text_at (val_at (v_reg s) (ino_segs j ''path'')) = Some q"
        using g(2) by (auto simp: names_rel_def)
      then have "j \<noteq> ?i" using i by auto
      then show ?thesis using b old [of "''path''" j] by simp
    qed
    then show "0 < unat j" "unat j \<le> fl_count a + 1" "text_at (val_at r2 (ino_segs j ''path'')) = Some q" by blast+
  qed
  moreover have "texts_rel r2 (fl_text a)" using g(4) texts_rel_cong [of r2 "v_reg s"] old by simp
  moreover have "ino_publish ?i p mode ?s = Inr (?s\<lparr>v_reg := r2\<rparr>)" using r1(1) r2(1) by (simp add: ino_publish_def)
  moreover have "new_file p a = (?i, a\<lparr>fl_inode := (fl_inode a)(p \<mapsto> ?i), fl_count := fl_count a + 1\<rparr>)"
    by (simp add: new_file_def g(3) Let_def)
  moreover have "?i + 1 = of_nat (fl_count a + 1 + 1)" by (simp add: g(3))
  ultimately show ?thesis using r2(2) g(5) by (simp add: ino_alloc_def vfs_rel_def del: of_nat_add of_nat_Suc)
qed

lemma close_ok:
  assumes rel: "vfs_rel R s a"
  shows "fst (vfs_close fd s) = fst (close_file fd a) \<and> vfs_rel R (snd (vfs_close fd s)) (snd (close_file fd a))"
proof -
  have fds: "fds_rel s (fl_open a)" using rel by (simp add: vfs_rel_def)
  then have o: "fl_open a fd = map_option (\<lambda>f. (vf_ino f, vf_pos f)) (fd_get fd s)" by (simp add: fds_rel_def)
  show ?thesis
  proof (cases "0 \<le> fd \<and> fd < 3")
    case True
    then have "fd \<in> {0, 1, 2}" by auto
    then show ?thesis using True rel by (simp add: vfs_close_def close_file_def)
  next
    case False
    then have n: "fd \<notin> {0, 1, 2}" by auto
    show ?thesis
    proof (cases "fd_get fd s")
      case None
      then show ?thesis using False n o rel by (simp add: vfs_close_def close_file_def)
    next
      case (Some f)
      then show ?thesis using False n o rel fds_rel_upd [OF fds, of fd "\<lambda>f. f\<lparr>vf_in_use := False\<rparr>"] fd_get_range [OF Some]
        by (simp add: vfs_close_def close_file_def vfs_rel_def)
    qed
  qed
qed

lemma dup_ok:
  assumes rel: "vfs_rel R s a"
  shows "\<exists>s'. vfs_step (Dup old new) s = Inr (fst (file_step (Dup old new) a), s') \<and> vfs_rel R s' (snd (file_step (Dup old new) a))"
proof -
  have fds: "fds_rel s (fl_open a)" using rel by (simp add: vfs_rel_def)
  then have o: "fl_open a fd = map_option (\<lambda>f. (vf_ino f, vf_pos f)) (fd_get fd s)" for fd by (simp add: fds_rel_def)
  let ?n = "if new = -1 then case free_fd (v_fds s) of Some i \<Rightarrow> int i | None \<Rightarrow> new else new"
  have n: "(if new = -1 then case low_fd (fl_open a) of Some fd \<Rightarrow> fd | None \<Rightarrow> -1 else new) = ?n"
    using low_fd_ok [OF fds] by (simp split: option.split)
  show ?thesis
  proof (cases "fd_get old s = None \<or> ?n < 0 \<or> int VFS_MAX_FD \<le> ?n")
    case True
    then show ?thesis using n rel o [of old]
      by (cases "fd_get old s") (auto simp: vfs_dup_def Let_def simp del: of_nat_less_iff)
  next
    case False
    then obtain f where f: "fd_get old s = Some f" by auto
    define m where "m = ?n"
    have m: "0 \<le> m" "m < int VFS_MAX_FD" using False by (simp_all add: m_def not_less not_le)
    define s1 where "s1 = (if vf_in_use (v_fds s ! nat m) then snd (vfs_close m s) else s)"
    have s1: "vfs_rel R s1 (snd (close_file m a))"
    proof (cases "vf_in_use (v_fds s ! nat m)")
      case False
      then have "fl_open a m = None" using o m by (simp add: fd_get_def)
      then have "snd (close_file m a) = a" by (simp add: close_file_def)
      then show ?thesis using False rel by (simp add: s1_def)
    qed (use close_ok [OF rel, of m] in \<open>simp add: s1_def\<close>)
    then have fds1: "fds_rel s1 (fl_open (snd (close_file m a)))" by (simp add: vfs_rel_def)
    then have o1: "fl_open (snd (close_file m a)) old = map_option (\<lambda>f. (vf_ino f, vf_pos f)) (fd_get old s1)" by (simp add: fds_rel_def)
    have "0 \<le> old" "old < int VFS_MAX_FD" using fd_get_range [OF f] by auto
    then have "fl_open (snd (close_file m a)) old =
        (if vf_in_use (v_fds s1 ! nat old) then Some (vf_ino (v_fds s1 ! nat old), vf_pos (v_fds s1 ! nat old)) else None)"
      using o1 by (simp add: fd_get_def)
    then have "fds_rel (upd_fd m (\<lambda>_. v_fds s1 ! nat old) s1) ((fl_open (snd (close_file m a)))(m := fl_open (snd (close_file m a)) old))"
      using fds_rel_upd [OF fds1 m, of "\<lambda>_. v_fds s1 ! nat old"] by simp
    then have "vfs_rel R (upd_fd m (\<lambda>_. v_fds s1 ! nat old) s1)
        (let a1 = snd (close_file m a) in a1\<lparr>fl_open := (fl_open a1)(m := fl_open a1 old)\<rparr>)"
      using s1 by (simp add: vfs_rel_def Let_def)
    moreover have "vfs_dup old new s = (m, upd_fd m (\<lambda>_. v_fds s1 ! nat old) s1)"
      using f m by (simp add: vfs_dup_def m_def [symmetric] s1_def Let_def)
    moreover have "file_step (Dup old new) a = ((m, []), let a1 = snd (close_file m a) in a1\<lparr>fl_open := (fl_open a1)(m := fl_open a1 old)\<rparr>)"
      using f m o [of old] n by (simp add: m_def [symmetric] Let_def)
    ultimately show ?thesis by simp
  qed
qed

lemma seek_ok:
  assumes rel: "vfs_rel R s a"
  shows "\<exists>s'. vfs_step (Seek fd off w) s = Inr (fst (file_step (Seek fd off w) a), s') \<and> vfs_rel R s' (snd (file_step (Seek fd off w) a))"
proof -
  have fds: "fds_rel s (fl_open a)" using rel by (simp add: vfs_rel_def)
  then have o: "fl_open a fd = map_option (\<lambda>f. (vf_ino f, vf_pos f)) (fd_get fd s)" by (simp add: fds_rel_def)
  show ?thesis
  proof (cases "fd_get fd s")
    case None
    then show ?thesis using rel o by (simp add: vfs_seek_def)
  next
    case (Some f)
    then show ?thesis using rel o fds_rel_pos [OF fds Some, of "\<lambda>_. if w = 1 then vf_pos f + off else off"]
      by (cases "w \<notin> {0, 1, 2} \<or> sint (if w = 1 then vf_pos f + off else off) < 0") (auto simp: vfs_seek_def vfs_rel_def Let_def)
  qed
qed

lemma text_look:
  assumes rel: "vfs_rel R s a"
  shows "\<exists>w r. v_reg_look (ino_path i ''data'') s = Inr (w, s\<lparr>v_reg := r\<rparr>) \<and> vfs_rel R (s\<lparr>v_reg := r\<rparr>) a \<and>
    or_empty (str_data w) = fl_text a i"
proof -
  have t: "plain (val_at (v_reg s) (ino_segs i ''data''))" "or_empty (text_at (val_at (v_reg s) (ino_segs i ''data''))) = fl_text a i"
    using rel by (simp_all add: vfs_rel_def texts_rel_def)
  have ok: "reg_ok (v_reg s) R" using rel by (simp add: vfs_rel_def)
  note p = ino_path_ok [of "''data''" i]
  obtain w r where w: "v_reg_look (ino_path i ''data'') s = Inr (w, s\<lparr>v_reg := r\<rparr>)" "reg_ok r R" "val_at r = val_at (v_reg s)"
    "str_data w = text_at (val_at (v_reg s) (ino_segs i ''data''))"
    using v_reg_look_ok [OF ok p(1)] t(1) p(2) by auto
  then show ?thesis using rel t(2) by (auto simp: vfs_rel_def names_rel_def texts_rel_def)
qed

lemma read_ok:
  assumes rel: "vfs_rel R s a" and fd: "fd \<noteq> 0"
  shows "\<exists>s'. vfs_step (Read fd n) s = Inr (fst (file_step (Read fd n) a), s') \<and> vfs_rel R s' (snd (file_step (Read fd n) a))"
proof (cases "fd_get fd s")
  case None
  then have "fl_open a fd = None" using rel by (simp add: vfs_rel_def fds_rel_def)
  then show ?thesis using None rel fd by (simp add: vfs_read_def)
next
  case (Some f)
  then have o: "fl_open a fd = Some (vf_ino f, vf_pos f)" using rel by (simp add: vfs_rel_def fds_rel_def)
  obtain w r where w: "v_reg_look (ino_path (vf_ino f) ''data'') s = Inr (w, s\<lparr>v_reg := r\<rparr>)" "vfs_rel R (s\<lparr>v_reg := r\<rparr>) a"
    "or_empty (str_data w) = fl_text a (vf_ino f)"
    using text_look [OF rel] by blast
  let ?out = "take (unat n) (drop (unat (vf_pos f)) (fl_text a (vf_ino f)))"
  have g: "fd_get fd (s\<lparr>v_reg := r\<rparr>) = Some f" using Some by simp
  have fds: "fds_rel (s\<lparr>v_reg := r\<rparr>) (fl_open a)" using w(2) by (simp add: vfs_rel_def)
  from fds_rel_pos [OF fds g, of "\<lambda>f. vf_pos f + of_nat (length ?out)"]
  have pos: "vfs_rel R (upd_fd fd (\<lambda>f. f\<lparr>vf_pos := vf_pos f + of_nat (length ?out)\<rparr>) (s\<lparr>v_reg := r\<rparr>)) (snd (file_step (Read fd n) a))"
    using w(2) o by (simp add: vfs_rel_def Let_def)
  have same: "snd (file_step (Read fd n) a) = a" if "length (fl_text a (vf_ino f)) \<le> unat (vf_pos f)"
    using that o by (cases a) (simp add: Let_def fun_upd_idem)
  show ?thesis
  proof (cases "str_data w")
    case None
    then have "fl_text a (vf_ino f) = []" using w(3) by (simp add: or_empty_def)
    then show ?thesis using None Some w(1,2) fd o same by (simp add: vfs_read_def int32_def bytes_of_def)
  next
    case d: (Some d)
    then have e: "fl_text a (vf_ino f) = d" using w(3) by (simp add: or_empty_def)
    show ?thesis
    proof (cases "length d \<le> unat (vf_pos f)")
      case True
      then show ?thesis using d e Some w(1,2) fd o same by (simp add: vfs_read_def int32_def bytes_of_def)
    next
      case False
      then show ?thesis using d e Some w(1) fd o pos by (simp add: vfs_read_def int32_def Let_def)
    qed
  qed
qed

lemma zero_char: "char_of (unat (b :: u8)) = CHR 0x00 \<longleftrightarrow> b = 0"
proof
  assume "char_of (unat b) = CHR 0x00"
  then have "(of_char (char_of (unat b) :: char) :: nat) = 0" by simp
  then have "unat b mod 256 = 0" by simp
  moreover have "unat b < 256" using unsigned_less [of b, where 'a = nat] by simp
  ultimately show "b = 0" by (simp add: unat_eq_zero)
qed (simp add: char_of_def)

lemma write_ok:
  assumes rel: "vfs_rel R s a" and fd: "fd \<noteq> 1" "fd \<noteq> 2" "0 \<notin> set buf"
  shows "\<exists>s'. vfs_step (Write fd buf) s = Inr (fst (file_step (Write fd buf) a), s') \<and> vfs_rel R s' (snd (file_step (Write fd buf) a))"
proof (cases "fd_get fd s")
  case None
  then have "fl_open a fd = None" using rel by (simp add: vfs_rel_def fds_rel_def)
  then show ?thesis using None rel fd by (simp add: vfs_write_def)
next
  case (Some f)
  let ?i = "vf_ino f"
  have o: "fl_open a fd = Some (?i, vf_pos f)" using rel Some by (simp add: vfs_rel_def fds_rel_def)
  obtain w r where w: "v_reg_look (ino_path ?i ''data'') s = Inr (w, s\<lparr>v_reg := r\<rparr>)" "vfs_rel R (s\<lparr>v_reg := r\<rparr>) a"
    "or_empty (str_data w) = fl_text a ?i"
    using text_look [OF rel] by blast
  let ?t = "fl_text a ?i @ string_of buf"
  have nul: "CHR 0x00 \<notin> set ?t"
    using w(2) fd(3) by (auto simp: vfs_rel_def texts_rel_def string_of_def zero_char dest: sym)
  then have cut: "c_str ?t = ?t" by (auto simp: c_str_def takeWhile_eq_all_conv)
  note p = ino_path_ok [of "''data''" ?i]
  have pg: "good_path (ino_path ?i ''data'')" and ps: "path_segs (ino_path ?i ''data'') = ino_segs ?i ''data''" using p by simp_all
  have ok: "reg_ok (v_reg (s\<lparr>v_reg := r\<rparr>)) R" using w(2) by (simp add: vfs_rel_def)
  have ref: "ref_of (val_str ?t) = None" by (simp add: ref_of_def val_str_def val_nil_def)
  obtain r2 where r2: "v_reg_set (ino_path ?i ''data'') (val_str ?t) RK_RW (s\<lparr>v_reg := r\<rparr>) = Inr ((s\<lparr>v_reg := r\<rparr>)\<lparr>v_reg := r2\<rparr>)" "reg_ok r2 R"
    "\<forall>q. val_at r2 q = (if q = ino_segs ?i ''data'' then Some (stored (val_str ?t))
       else case val_at (v_reg (s\<lparr>v_reg := r\<rparr>)) q of Some w \<Rightarrow> Some w | None \<Rightarrow> if is_prefix q (ino_segs ?i ''data'') then Some val_nil else None)"
    using v_reg_set_ok [OF ok pg ref] unfolding ps by blast
  have other: "val_at r2 (ino_segs j g) = val_at r (ino_segs j g)" if "j \<noteq> ?i \<or> g \<noteq> ''data''" for j g
    using r2(3) that by (auto split: option.split)
  have "names_rel r2 (fl_count a) (fl_inode a)"
    using w(2) names_rel_cong [of r2 r] other by (simp add: vfs_rel_def)
  moreover have "texts_rel r2 ((fl_text a)(?i := ?t))"
    unfolding texts_rel_def
  proof
    fix j
    show "plain (val_at r2 (ino_segs j ''data'')) \<and> or_empty (text_at (val_at r2 (ino_segs j ''data''))) = ((fl_text a)(?i := ?t)) j \<and>
      CHR 0x00 \<notin> set (((fl_text a)(?i := ?t)) j)"
    proof (cases "j = ?i")
      case True
      then show ?thesis using r2(3) nul by (simp add: or_empty_def)
    next
      case False
      then show ?thesis using other [of j] w(2) by (simp add: vfs_rel_def texts_rel_def)
    qed
  qed
  moreover have "fds_rel (upd_fd fd (\<lambda>f. f\<lparr>vf_pos := vf_pos f + of_nat (length buf)\<rparr>) (s\<lparr>v_reg := r2\<rparr>))
      ((fl_open a)(fd \<mapsto> (?i, vf_pos f + of_nat (length buf))))"
  proof -
    have "fd_get fd (s\<lparr>v_reg := r2\<rparr>) = Some f" using Some by simp
    moreover have "fds_rel (s\<lparr>v_reg := r2\<rparr>) (fl_open a)" using w(2) by (simp add: vfs_rel_def)
    ultimately show ?thesis using fds_rel_pos [of "s\<lparr>v_reg := r2\<rparr>" "fl_open a" fd f "\<lambda>f. vf_pos f + of_nat (length buf)"] by simp
  qed
  moreover have "vfs_write fd buf s = Inr (int32 (length buf), upd_fd fd (\<lambda>f. f\<lparr>vf_pos := vf_pos f + of_nat (length buf)\<rparr>) (s\<lparr>v_reg := r2\<rparr>))"
    using fd(1,2) Some w(1,3) r2(1) cut by (simp add: vfs_write_def Let_def int32_def)
  ultimately show ?thesis using o w(2) r2(2) by (auto simp: vfs_rel_def)
qed

lemma open_ok:
  assumes rel: "vfs_rel R s a" and count: "fl_count a < 2 ^ 32"
  shows "\<exists>s'. vfs_step (Open p flags) s = Inr (fst (file_step (Open p flags) a), s') \<and> vfs_rel R s' (snd (file_step (Open p flags) a))"
proof -
  obtain r where r: "path_to_ino p s = Inr (case fl_inode a p of Some i \<Rightarrow> i | None \<Rightarrow> 0, s\<lparr>v_reg := r\<rparr>)"
    "vfs_rel R (s\<lparr>v_reg := r\<rparr>) a"
    using path_to_ino_ok [OF rel count] by blast
  show ?thesis
  proof (cases "fl_inode a p")
    case (Some i)
    then show ?thesis using r inode_nonzero [OF rel Some] fd_alloc_ok [OF r(2), of i flags]
      by (simp add: vfs_open_def prod.case_eq_if Let_def)
  next
    case None
    show ?thesis
    proof (cases "flags AND 0x40 = 0")
      case True
      then show ?thesis using None r by (simp add: vfs_open_def)
    next
      case False
      obtain s2 where s2: "ino_publish (fst (ino_alloc (s\<lparr>v_reg := r\<rparr>))) p 0x81A4 (snd (ino_alloc (s\<lparr>v_reg := r\<rparr>))) = Inr s2"
        "vfs_rel R s2 (snd (new_file p a))" "fst (ino_alloc (s\<lparr>v_reg := r\<rparr>)) = fst (new_file p a)"
        using new_file_ok [OF r(2) None count] by blast
      show ?thesis using False None r(1) s2 fd_alloc_ok [OF s2(2), of "fst (new_file p a)" flags]
        by (simp add: vfs_open_def prod.case_eq_if Let_def)
    qed
  qed
qed

lemma mkdir_ok:
  assumes rel: "vfs_rel R s a" and count: "fl_count a < 2 ^ 32"
  shows "\<exists>s'. vfs_step (Mkdir p mode) s = Inr (fst (file_step (Mkdir p mode) a), s') \<and> vfs_rel R s' (snd (file_step (Mkdir p mode) a))"
proof -
  obtain r where r: "path_to_ino p s = Inr (case fl_inode a p of Some i \<Rightarrow> i | None \<Rightarrow> 0, s\<lparr>v_reg := r\<rparr>)"
    "vfs_rel R (s\<lparr>v_reg := r\<rparr>) a"
    using path_to_ino_ok [OF rel count] by blast
  show ?thesis
  proof (cases "fl_inode a p")
    case (Some i)
    then show ?thesis using r inode_nonzero [OF rel Some] by (simp add: vfs_mkdir_def)
  next
    case None
    then show ?thesis using r new_file_ok [OF r(2) None count, of "mode OR 0x4000"]
      by (auto simp: vfs_mkdir_def prod.case_eq_if Let_def)
  qed
qed

lemma step_ok:
  assumes "vfs_rel R s a" and "file_op_ok x" and "fl_count a < 2 ^ 32"
  shows "\<exists>s'. vfs_step x s = Inr (fst (file_step x a), s') \<and> vfs_rel R s' (snd (file_step x a))"
proof (cases x)
  case (Close fd)
  then show ?thesis using close_ok [OF assms(1), of fd] by (simp add: prod.case_eq_if Let_def)
qed (use assms open_ok mkdir_ok read_ok write_ok seek_ok dup_ok in \<open>force simp del: vfs_step.simps file_step.simps\<close>)+

lemma step_count: "fl_count (snd (file_step x a)) \<le> fl_count a + 1"
proof -
  have "fl_count (snd (open_file i b)) = fl_count b" "fl_count (snd (new_file p b)) = fl_count b + 1" "fl_count (snd (close_file fd b)) = fl_count b"
    for i p b fd
    by (auto simp: open_file_def new_file_def close_file_def Let_def split: option.split)
  then show ?thesis by (cases x) (auto simp: Let_def prod.case_eq_if split: option.split)
qed

lemma vfs_run_ok:
  assumes "vfs_rel R s a" and "\<forall>x \<in> set ops. file_op_ok x" and "fl_count a + length ops \<le> 2 ^ 32"
  shows "\<exists>s'. run_vfs ops s = Inr (fst (run_files ops a), s') \<and> vfs_rel R s' (snd (run_files ops a))"
  using assms
proof (induction ops arbitrary: s a)
  case (Cons x ops)
  obtain s1 where s1: "vfs_step x s = Inr (fst (file_step x a), s1)" "vfs_rel R s1 (snd (file_step x a))"
    using step_ok [OF Cons.prems(1), of x] Cons.prems(2,3) by auto
  have "fl_count (snd (file_step x a)) + length ops \<le> 2 ^ 32" using step_count [of x a] Cons.prems(3) by simp
  from Cons.IH [OF s1(2) _ this] obtain s2 where "run_vfs ops s1 = Inr (fst (run_files ops (snd (file_step x a))), s2)"
    "vfs_rel R s2 (snd (run_files ops (snd (file_step x a))))" using Cons.prems(2) by auto
  then show ?case using s1(1) by (simp add: prod.case_eq_if Let_def)
qed simp

definition boot_reg :: rstate where
  "boot_reg = blank\<lparr>r_root := regkey_alloc ''/'' ''/'' RK_ALL, total_keys := 1\<rparr>"

definition boot_vfs :: vfs where
  "boot_vfs = vfs_init \<lparr>v_next_ino = 1, v_fds = replicate VFS_MAX_FD no_fd, v_mounts = [], v_mount_count = 0, v_reg = boot_reg,
     v_in = [], v_out = []\<rparr>"

definition boot_files :: files where
  "boot_files = \<lparr>fl_inode = (\<lambda>p. None), fl_count = 0, fl_text = (\<lambda>i. []),
     fl_open = (\<lambda>fd. if fd \<in> {0, 1, 2} then Some (of_int fd, 0) else None)\<rparr>"

lemma boot_ok: "vfs_rel [] boot_vfs boot_files"
proof -
  have "reg_ok boot_reg []" unfolding boot_reg_def by (rule reg_base_ok) (simp add: blank_def heap_ok_empty)
  moreover have none: "val_at boot_reg (ino_segs i f) = None" for i f
    by (simp add: val_at_def boot_reg_def ino_segs_def info_Cons regkey_alloc_def)
  moreover have "fds_rel boot_vfs (fl_open boot_files)"
    unfolding fds_rel_def
  proof (intro conjI allI)
    show "length (v_fds boot_vfs) = VFS_MAX_FD" by (simp add: boot_vfs_def vfs_init_def)
    fix fd :: int
    consider "fd = 0" | "fd = 1" | "fd = 2" | "fd < 0" | "3 \<le> fd" by linarith
    then show "fl_open boot_files fd = map_option (\<lambda>f. (vf_ino f, vf_pos f)) (fd_get fd boot_vfs)"
    proof cases
      case 5
      then have "3 \<le> nat fd" by linarith
      then have "nat fd < VFS_MAX_FD \<longrightarrow> \<not> vf_in_use (v_fds boot_vfs ! nat fd)"
        by (simp add: boot_vfs_def vfs_init_def nth_append no_fd_def)
      then show ?thesis using 5 by (auto simp: fd_get_def boot_files_def nat_less_iff)
    qed (simp_all add: fd_get_def boot_files_def boot_vfs_def vfs_init_def upt_rec)
  qed
  moreover have "v_reg boot_vfs = boot_reg" "v_next_ino boot_vfs = 1" by (simp_all add: boot_vfs_def vfs_init_def)
  ultimately show ?thesis
    by (auto simp: vfs_rel_def names_rel_def texts_rel_def boot_files_def none plain_def text_at_def or_empty_def)
qed

text \<open>
  Descriptor 1 has the inode number 1, which the first file gets as well: what is written to a duplicate
  of the standard output ends up in that file. Duplicating a descriptor onto itself closes it.
\<close>

lemma dup_stdout_is_first_file:
  "\<exists>s'. run_vfs [Open ''/a'' 0x41, Dup 1 5, Write 5 [104, 105], Read 3 10] boot_vfs = Inr ([(3, []), (5, []), (2, []), (2, [104, 105])], s')"
proof -
  let ?ops = "[Open ''/a'' 0x41, Dup 1 5, Write 5 [104, 105], Read 3 10]"
  have low: "low_fd (fl_open boot_files) = Some 3" by (simp add: low_fd_def boot_files_def upt_rec)
  have str: "string_of [104, 105] = ''hi''" "bytes_of ''hi'' = [104, 105]" by code_simp+
  have "fst (run_files ?ops boot_files) = [(3, []), (5, []), (2, []), (2, [104, 105])]"
    using low str by (simp add: open_file_def new_file_def close_file_def Let_def boot_files_def int32_def)
  moreover have "\<forall>x \<in> set ?ops. file_op_ok x" "fl_count boot_files + length ?ops \<le> 2 ^ 32" by (simp_all add: boot_files_def)
  ultimately show ?thesis using vfs_run_ok [OF boot_ok, of ?ops] by auto
qed

lemma dup_self_closes: "3 \<le> fd \<Longrightarrow> fd < int VFS_MAX_FD \<Longrightarrow> fl_open (snd (file_step (Dup fd fd) a)) fd = None"
  by (auto simp: close_file_def Let_def)

text \<open>C8: The virtual file system is a set of files with append-only texts, for the operations \<open>file_op_ok\<close> allows:
  opening with and without \<^verbatim>\<open>O_CREAT\<close>, making directories, seeking, closing and duplicating any descriptor, reading
  from any descriptor but 0, and writing data without a byte 0 to any descriptor but 1 and 2. On any state that stands
  for such a set (names for the inodes in the registry, texts, an inode and a position for every open descriptor) a sequence
  of them, with inode numbers below \<open>2 ^ 32\<close>, gives the results of the specification, and the state stands for its
  files again. Left out are the console behind the descriptors 0, 1 and 2, and data with a byte 0: there the code
  stores the bytes before it only, and still returns the full count.\<close>

theorem vfs_files_refine:
  assumes "vfs_rel R s a" and "\<forall>x \<in> set ops. file_op_ok x" and "fl_count a + length ops \<le> 2 ^ 32"
  shows "\<exists>s'. run_vfs ops s = Inr (fst (run_files ops a), s') \<and> vfs_rel R s' (snd (run_files ops a))"
  by (rule vfs_run_ok [OF assms])

theorem vfs_files_refine_witness:
  "\<exists>s'. run_vfs [Open ''/a'' 0x41, Write 3 [104, 105], Seek 3 1 0, Read 3 10, Open ''/b'' 0] boot_vfs =
     Inr ([(3, []), (2, []), (1, []), (1, [105]), (-1, [])], s')"
proof -
  let ?ops = "[Open ''/a'' 0x41, Write 3 [104, 105], Seek 3 1 0, Read 3 10, Open ''/b'' 0]"
  have low: "low_fd (fl_open boot_files) = Some 3" by (simp add: low_fd_def boot_files_def upt_rec)
  have str: "string_of [104, 105] = ''hi''" "bytes_of ''i'' = [105]" by code_simp+
  have "fst (run_files ?ops boot_files) = [(3, []), (2, []), (1, []), (1, [105]), (-1, [])]"
    using low str by (simp add: open_file_def new_file_def Let_def boot_files_def int32_def)
  moreover have "\<forall>x \<in> set ?ops. file_op_ok x" by simp
  moreover have "fl_count boot_files + length ?ops \<le> 2 ^ 32" by (simp add: boot_files_def)
  ultimately show ?thesis using vfs_files_refine [OF boot_ok, of ?ops] by auto
qed

end
