(* ===== verification/Kernel.thy ===== *)
theory Kernel
  imports Sched Vfs Eval
begin

section \<open>Kernel messages and system calls (\<^verbatim>\<open>kernel/msg.c\<close>, \<^verbatim>\<open>kernel/syscall.c\<close>)\<close>

text \<open>
  The kernel has the scheduler with the registry and its queues, the virtual file system, and an
  interpreter for \<open>exec\<close>. They share one registry, which \<open>k_sched\<close> holds; the other two
  get it for the time of a call (\<open>on_vfs\<close>, \<open>on_nexs\<close>).
\<close>

record kernel =
  k_sched :: sched
  k_vfs :: vfs
  k_nexs :: nexs

definition k_reg :: "kernel \<Rightarrow> rstate" where
  "k_reg k = i_reg (s_ipc (k_sched k))"

definition k_put_ipc :: "istate \<Rightarrow> kernel \<Rightarrow> kernel" where
  "k_put_ipc i k = k\<lparr>k_sched := (k_sched k)\<lparr>s_ipc := i\<rparr>\<rparr>"

definition k_put_reg :: "rstate \<Rightarrow> kernel \<Rightarrow> kernel" where
  "k_put_reg r k = k_put_ipc ((s_ipc (k_sched k))\<lparr>i_reg := r\<rparr>) k"

definition on_vfs :: "(vfs \<Rightarrow> ('a \<times> vfs) res) \<Rightarrow> kernel \<Rightarrow> ('a \<times> kernel) res" where
  "on_vfs f k = bind_res (f ((k_vfs k)\<lparr>v_reg := k_reg k\<rparr>)) (\<lambda>(x, v). Inr (x, k_put_reg (v_reg v) (k\<lparr>k_vfs := v\<rparr>)))"

definition on_sched :: "(sched \<Rightarrow> sched res) \<Rightarrow> kernel \<Rightarrow> kernel res" where
  "on_sched f k = bind_res (f (k_sched k)) (\<lambda>s. Inr (k\<lparr>k_sched := s\<rparr>))"

definition on_nexs :: "(nexs \<Rightarrow> ('a \<times> nexs) res) \<Rightarrow> kernel \<Rightarrow> ('a \<times> kernel) res" where
  "on_nexs f k = bind_res (f ((k_nexs k)\<lparr>n_ipc := s_ipc (k_sched k)\<rparr>)) (\<lambda>(x, n). Inr (x, k_put_ipc (n_ipc n) (k\<lparr>k_nexs := n\<rparr>)))"

definition k_reg_set :: "string \<Rightarrow> val \<Rightarrow> u8 \<Rightarrow> kernel \<Rightarrow> kernel res" where
  "k_reg_set path v rights k = bind_res (reg_set (k_reg k) path v rights) (\<lambda>(rc, r). Inr (k_put_reg r k))"

definition k_reg_get :: "string \<Rightarrow> kernel \<Rightarrow> (val \<times> kernel) res" where
  "k_reg_get path k = bind_res (reg_get (k_reg k) path) (\<lambda>(v, r). Inr (v, k_put_reg r k))"

definition k_val_free :: "val \<Rightarrow> kernel \<Rightarrow> kernel res" where
  "k_val_free v k = bind_res (val_free (r_heap (k_reg k)) v) (\<lambda>h. Inr (k_put_reg ((k_reg k)\<lparr>r_heap := h\<rparr>) k))"

subsection \<open>Running a file\<close>

text \<open>
  \<open>files\<close> are the files of the host: the text of the error of \<open>fopen\<close>, or what is in the file. The
  interpreter reads up to the first NUL.
\<close>

definition eval_file :: "nat \<Rightarrow> (string \<Rightarrow> string + string) \<Rightarrow> string \<Rightarrow> nexs \<Rightarrow> eres" where
  "eval_file fuel files fpath st =
     (case files fpath of
        Inl why \<Rightarrow> err_result (trunc 256 (''cannot open '' @ [CHR 0x27] @ fpath @ [CHR 0x27] @ '': '' @ why)) st
      | Inr src \<Rightarrow> if src = [] then ok val_nil st else eval_str fuel (c_str src) st)"

subsection \<open>Messages\<close>

record kernel_msg =
  m_verb :: string
  m_arg0 :: string
  m_arg1 :: string
  m_n :: u64
  m_sender_pid :: u32

definition kmsg_encode :: "kernel_msg \<Rightarrow> val" where
  "kmsg_encode m =
     val_str (trunc 640 (m_verb m @ '':'' @ m_arg0 m @ '':'' @ m_arg1 m @ '':'' @ show_int (sint (m_n m)) @ '':'' @
       show_int (uint (m_sender_pid m))))"

text \<open>One call of \<open>strtok\<close>: the separators before the token are skipped.\<close>

definition strtok_colon :: "string \<Rightarrow> (string \<times> string) option" where
  "strtok_colon p =
     (let q = dropWhile (\<lambda>c. c = CHR '':'') p in
      if q = [] then None
      else Some (takeWhile (\<lambda>c. c \<noteq> CHR '':'') q, drop 1 (dropWhile (\<lambda>c. c \<noteq> CHR '':'') q)))"

definition atoi :: "string \<Rightarrow> int" where
  "atoi s = sint (ucast (atoll s) :: u32)"

definition kmsg_decode :: "val \<Rightarrow> kernel_msg option" where
  "kmsg_decode v =
     (if vtype v \<noteq> TYPE_STR then None
      else case data_str v of
        None \<Rightarrow> None
      | Some s \<Rightarrow>
          case strtok_colon (trunc 640 s) of None \<Rightarrow> None | Some (t1, p1) \<Rightarrow>
          case strtok_colon p1 of None \<Rightarrow> None | Some (t2, p2) \<Rightarrow>
          case strtok_colon p2 of None \<Rightarrow> None | Some (t3, p3) \<Rightarrow>
          case strtok_colon p3 of None \<Rightarrow> None | Some (t4, p4) \<Rightarrow>
          case strtok_colon p4 of None \<Rightarrow> None | Some (t5, p5) \<Rightarrow>
            Some \<lparr>m_verb = trunc 32 t1, m_arg0 = trunc 256 t2, m_arg1 = trunc 256 t3, m_n = atoll t4,
              m_sender_pid = of_int (atoi t5)\<rparr>)"

subsection \<open>System calls\<close>

type_synonym kres = "(val \<times> kernel) res"

abbreviation (input) RK_ADMIN :: u64 where "RK_ADMIN \<equiv> 8"

definition proc_path :: "u32 \<Rightarrow> string \<Rightarrow> string" where
  "proc_path pid field = trunc REG_PATH_MAX (''/proc/'' @ show_int (uint pid) @ ''/'' @ field)"

definition int_arg :: "u64 \<Rightarrow> int" where
  "int_arg n = sint (ucast n :: u32)"

definition ret_int :: "int \<Rightarrow> val" where
  "ret_int n = val_int (of_int n)"

definition caller_has_admin :: "u32 \<Rightarrow> kernel \<Rightarrow> (bool \<times> kernel) res" where
  "caller_has_admin pid k =
     bind_res (k_reg_get (proc_path pid ''caps'') k) (\<lambda>(v, k1).
     bind_res (k_val_free v k1) (\<lambda>k2. Inr (vtype v = TYPE_INT \<and> ival v AND RK_ADMIN \<noteq> 0, k2)))"

definition err_eperm :: val where
  "err_eperm = val_err 1 ''EPERM''"

definition admin_only :: "u32 \<Rightarrow> (kernel \<Rightarrow> kres) \<Rightarrow> kernel \<Rightarrow> kres" where
  "admin_only pid f k = bind_res (caller_has_admin pid k) (\<lambda>(ok, k1). if ok then f k1 else Inr (err_eperm, k1))"

definition sys_open :: "kernel_msg \<Rightarrow> u32 \<Rightarrow> kernel \<Rightarrow> kres" where
  "sys_open m pid k = bind_res (on_vfs (vfs_open (m_arg0 m) (ucast (m_n m))) k) (\<lambda>(fd, k1). Inr (ret_int fd, k1))"

definition sys_read :: "kernel_msg \<Rightarrow> u32 \<Rightarrow> kernel \<Rightarrow> kres" where
  "sys_read m pid k =
     bind_res (on_vfs (\<lambda>s. bind_res (vfs_read (int_arg (m_n m)) 1023 s) (\<lambda>(n, buf, s1). Inr ((n, buf), s1))) k) (\<lambda>((n, buf), k1).
       if n < 0 then Inr (val_err 1 ''read failed'', k1) else Inr (val_str (c_str (string_of buf)), k1))"

definition sys_write :: "kernel_msg \<Rightarrow> u32 \<Rightarrow> kernel \<Rightarrow> kres" where
  "sys_write m pid k = bind_res (on_vfs (vfs_write (int_arg (m_n m)) (bytes_of (m_arg1 m))) k) (\<lambda>(n, k1). Inr (ret_int n, k1))"

definition sys_close :: "kernel_msg \<Rightarrow> u32 \<Rightarrow> kernel \<Rightarrow> kres" where
  "sys_close m pid k = bind_res (on_vfs (\<lambda>s. Inr (vfs_close (int_arg (m_n m)) s)) k) (\<lambda>(rc, k1). Inr (ret_int rc, k1))"

definition sys_stat :: "kernel_msg \<Rightarrow> u32 \<Rightarrow> kernel \<Rightarrow> kres" where
  "sys_stat m pid k =
     bind_res (on_vfs (vfs_stat (m_arg0 m)) k) (\<lambda>(r, k1).
       case r of
         None \<Rightarrow> Inr (val_err 1 ''stat failed'', k1)
       | Some i \<Rightarrow> Inr (val_str (trunc 64 (''ino:'' @ show_int (uint (vi_ino i)) @ '' size:'' @ show_int (uint (vi_size i)))), k1))"

definition sys_mkdir :: "kernel_msg \<Rightarrow> u32 \<Rightarrow> kernel \<Rightarrow> kres" where
  "sys_mkdir m pid = admin_only pid (\<lambda>k.
     bind_res (on_vfs (vfs_mkdir (m_arg0 m) (ucast (m_n m))) k) (\<lambda>(rc, k1). Inr (ret_int rc, k1)))"

definition sys_mount :: "kernel_msg \<Rightarrow> u32 \<Rightarrow> kernel \<Rightarrow> kres" where
  "sys_mount m pid = admin_only pid (\<lambda>k.
     bind_res (on_vfs (vfs_mount (m_arg0 m) (m_arg1 m) ''regfs'') k) (\<lambda>(rc, k1). Inr (ret_int rc, k1)))"

definition sys_fork :: "kernel_msg \<Rightarrow> u32 \<Rightarrow> kernel \<Rightarrow> kres" where
  "sys_fork m sender_pid k =
     bind_res (proc_create (Some ''fork_child'') 0 0 (k_sched k)) (\<lambda>(a, s).
     let k1 = k\<lparr>k_sched := s\<rparr>; child_pid = p_pid (s_procs s ! a) in
     bind_res (k_reg_get (proc_path sender_pid ''caps'') k1) (\<lambda>(caps, k2).
     bind_res (k_reg_set (proc_path child_pid ''caps'') caps RK_RW k2) (\<lambda>k3.
     bind_res (k_val_free caps k3) (\<lambda>k4. Inr (val_int (ucast child_pid), k4)))))"

definition sys_exec :: "nat \<Rightarrow> (string \<Rightarrow> string + string) \<Rightarrow> kernel_msg \<Rightarrow> u32 \<Rightarrow> kernel \<Rightarrow> kres" where
  "sys_exec fuel files m pid k =
     on_nexs (\<lambda>n. bind_res (eval_file fuel files (m_arg0 m) (eval_ctx_init n)) (\<lambda>(sig, v, n1).
       Inr (v, n1\<lparr>n_scope := n_scope n, n_depth := n_depth n\<rparr>))) k"

definition sys_getpid :: "kernel_msg \<Rightarrow> u32 \<Rightarrow> kernel \<Rightarrow> kres" where
  "sys_getpid m pid k = Inr (val_int (ucast pid), k)"

definition sys_exit :: "kernel_msg \<Rightarrow> u32 \<Rightarrow> kernel \<Rightarrow> kres" where
  "sys_exit m pid k =
     bind_res (sched_find pid (k_sched k)) (\<lambda>p.
     bind_res (case p of Some a \<Rightarrow> on_sched (proc_destroy a) k | None \<Rightarrow> Inr k) (\<lambda>k1. Inr (val_int 0, k1)))"

definition sys_sleep :: "kernel_msg \<Rightarrow> u32 \<Rightarrow> kernel \<Rightarrow> kres" where
  "sys_sleep m pid k =
     (let wake_path = proc_path pid ''wake'' in
      bind_res (k_reg_set wake_path (val_int (m_n m)) RK_RW k) (\<lambda>k1.
      bind_res (on_sched (proc_block wake_path) k1) (\<lambda>k2. Inr (val_int 0, k2))))"

definition sys_bind :: "kernel_msg \<Rightarrow> u32 \<Rightarrow> kernel \<Rightarrow> kres" where
  "sys_bind m pid = admin_only pid (\<lambda>k. Inr (val_int 0, k_put_reg (snd (reg_ipc_init_queue (k_reg k) (m_arg0 m) 64)) k))"

definition sys_chdir :: "kernel_msg \<Rightarrow> u32 \<Rightarrow> kernel \<Rightarrow> kres" where
  "sys_chdir m pid k = bind_res (k_reg_set (proc_path pid ''cwd'') (val_str (m_arg0 m)) RK_RW k) (\<lambda>k1. Inr (val_int 0, k1))"

definition sys_create :: "kernel_msg \<Rightarrow> u32 \<Rightarrow> kernel \<Rightarrow> kres" where
  "sys_create m pid k = bind_res (on_vfs (vfs_open (m_arg0 m) 0x41) k) (\<lambda>(fd, k1). Inr (ret_int fd, k1))"

definition sys_remove :: "kernel_msg \<Rightarrow> u32 \<Rightarrow> kernel \<Rightarrow> kres" where
  "sys_remove m pid = admin_only pid (\<lambda>k.
     bind_res (reg_delete (k_reg k) (m_arg0 m)) (\<lambda>(rc, r). Inr (val_int 0, k_put_reg r k)))"

definition sys_pipe :: "kernel_msg \<Rightarrow> u32 \<Rightarrow> kernel \<Rightarrow> kres" where
  "sys_pipe m pid k =
     bind_res (k_reg_get ''/sys/pipe_seq'' k) (\<lambda>(seq_v, k1).
     let path = trunc REG_PATH_MAX (''/proc/'' @ show_int (uint pid) @ ''/pipe/'' @ show_int (sint (ival seq_v))) in
     bind_res (k_val_free seq_v k1) (\<lambda>k2.
       Inr (val_str path, k_put_reg (snd (reg_ipc_init_queue (k_reg k2) path 64)) k2)))"

definition sys_dup :: "kernel_msg \<Rightarrow> u32 \<Rightarrow> kernel \<Rightarrow> kres" where
  "sys_dup m pid k =
     (let newfd = (if m_arg1 m \<noteq> [] then atoi (m_arg1 m) else -1) in
      bind_res (on_vfs (\<lambda>s. Inr (vfs_dup (int_arg (m_n m)) newfd s)) k) (\<lambda>(fd, k1). Inr (ret_int fd, k1)))"

definition sys_seek :: "kernel_msg \<Rightarrow> u32 \<Rightarrow> kernel \<Rightarrow> kres" where
  "sys_seek m pid k =
     (let off = (if m_arg0 m \<noteq> [] then of_int (atoi (m_arg0 m)) else 0);
          whence = (if m_arg1 m \<noteq> [] then atoi (m_arg1 m) else 0) in
      bind_res (on_vfs (\<lambda>s. Inr (vfs_seek (int_arg (m_n m)) off whence s)) k) (\<lambda>(rc, k1). Inr (ret_int rc, k1)))"

definition sys_fstat :: "kernel_msg \<Rightarrow> u32 \<Rightarrow> kernel \<Rightarrow> kres" where
  "sys_fstat m pid k = sys_stat m pid k"

definition sys_wait :: "kernel_msg \<Rightarrow> u32 \<Rightarrow> kernel \<Rightarrow> kres" where
  "sys_wait m pid k = bind_res (on_sched (proc_block (proc_path pid ''wait_child'')) k) (\<lambda>k1. Inr (val_int 0, k1))"

subsection \<open>Dispatch\<close>

definition s_table :: "nat \<Rightarrow> (string \<Rightarrow> string + string) \<Rightarrow> (string \<times> (kernel_msg \<Rightarrow> u32 \<Rightarrow> kernel \<Rightarrow> kres)) list" where
  "s_table fuel files =
     [(''open'', sys_open), (''read'', sys_read), (''write'', sys_write), (''close'', sys_close), (''stat'', sys_stat),
      (''mkdir'', sys_mkdir), (''create'', sys_create), (''remove'', sys_remove), (''bind'', sys_bind), (''mount'', sys_mount),
      (''fork'', sys_fork), (''exec'', sys_exec fuel files), (''wait'', sys_wait), (''exit'', sys_exit), (''chdir'', sys_chdir),
      (''getpid'', sys_getpid), (''sleep'', sys_sleep), (''pipe'', sys_pipe), (''dup'', sys_dup), (''seek'', sys_seek),
      (''fstat'', sys_fstat)]"

definition kmsg_handle :: "nat \<Rightarrow> (string \<Rightarrow> string + string) \<Rightarrow> kernel_msg \<Rightarrow> kernel \<Rightarrow> kres" where
  "kmsg_handle fuel files m k =
     (if m_sender_pid m = 0 then Inr (val_err 1 ''ESRCH'', k)
      else case map_of (s_table fuel files) (m_verb m) of
        Some fn \<Rightarrow> fn m (m_sender_pid m) k
      | None \<Rightarrow> Inr (val_err 1 (trunc 64 (''unknown syscall: '' @ m_verb m)), k))"

text \<open>One round of the dispatch loop; a message that cannot be decoded is dropped.\<close>

abbreviation (input) kernel_inbox :: string where "kernel_inbox \<equiv> ''/sys/kernel/inbox''"

definition kmsg_dispatch :: "nat \<Rightarrow> (string \<Rightarrow> string + string) \<Rightarrow> kernel \<Rightarrow> kernel res" where
  "kmsg_dispatch fuel files k =
     bind_res (reg_ipc_recv (s_ipc (k_sched k)) kernel_inbox) (\<lambda>(msg, i).
     let k1 = k_put_ipc i k in
     case msg of
       None \<Rightarrow> on_sched (proc_block kernel_inbox) k1
     | Some v \<Rightarrow>
         bind_res (k_val_free v k1) (\<lambda>k2.
         if vtype v = TYPE_NIL then on_sched (proc_block kernel_inbox) k2
         else case kmsg_decode v of
           None \<Rightarrow> Inr k2
         | Some km \<Rightarrow>
             bind_res (kmsg_handle fuel files km k2) (\<lambda>(result, k3).
             bind_res (if m_sender_pid km = 0 then Inr k3
               else
                 let reply_path = proc_path (m_sender_pid km) ''inbox'' in
                 bind_res (reg_ipc_send (s_ipc (k_sched k3)) reply_path result) (\<lambda>(rc, i1).
                   on_sched (proc_unblock_by_msg reply_path) (k_put_ipc i1 k3))) (k_val_free result))))"

text \<open>\<open>kmsg_dispatch_loop\<close> makes the inbox and never returns; these are its first \<open>rounds\<close>.\<close>

fun dispatch_rounds :: "nat \<Rightarrow> nat \<Rightarrow> (string \<Rightarrow> string + string) \<Rightarrow> kernel \<Rightarrow> kernel res" where
  "dispatch_rounds 0 fuel files k = Inr k"
| "dispatch_rounds (Suc rounds) fuel files k = bind_res (kmsg_dispatch fuel files k) (dispatch_rounds rounds fuel files)"

definition kmsg_dispatch_loop :: "nat \<Rightarrow> nat \<Rightarrow> (string \<Rightarrow> string + string) \<Rightarrow> kernel \<Rightarrow> kernel res" where
  "kmsg_dispatch_loop rounds fuel files k =
     dispatch_rounds rounds fuel files (k_put_reg (snd (reg_ipc_init_queue (k_reg k) kernel_inbox 64)) k)"

end
