(* ===== verification/Kernel_Sched.thy ===== *)
theory Kernel_Sched
  imports Sched_Facts Roundtrip RegIpc_Facts
begin

section \<open>Process operations keep the scheduler sound\<close>

text \<open>
  \<open>sched_sound\<close> is what the system calls rely on: the registry is well formed, the queues stand for some
  lists, every process has its path under \<^verbatim>\<open>/proc\<close>, and the current process exists.
\<close>

definition reg_paths :: "sched \<Rightarrow> string list" where
  "reg_paths st = List.map p_reg_path (s_procs st)"

definition proc_paths :: "string set" where
  "proc_paths = {''/proc/'' @ show_int (uint (n :: u32)) | n. True}"

definition sched_sound :: "val list \<Rightarrow> sched \<Rightarrow> bool" where
  "sched_sound R st \<longleftrightarrow> reg_ok (i_reg (s_ipc st)) R \<and> (\<exists>qs. sched_ok st qs) \<and> set (reg_paths st) \<subseteq> proc_paths \<and>
     (\<forall>c. s_current st = Some c \<longrightarrow> c < length (s_procs st))"

lemma length_reg_paths [simp]: "length (reg_paths st) = length (s_procs st)"
  by (simp add: reg_paths_def)

subsection \<open>Paths\<close>

lemma proc_path_segs:
  assumes "field \<noteq> []" and "CHR ''/'' \<notin> set field" and "length field < 64"
  shows "good_path (''/proc/'' @ show_int (uint (n :: u32)) @ ''/'' @ field)"
    and "path_segs (''/proc/'' @ show_int (uint n) @ ''/'' @ field) = [''proc'', show_int (uint n), field]"
    and "trunc REG_PATH_MAX (''/proc/'' @ show_int (uint n) @ ''/'' @ field) = ''/proc/'' @ show_int (uint n) @ ''/'' @ field"
proof -
  let ?d = "show_int (uint n)"
  have len: "length ?d \<le> 10" using digits_length [of 10, where 'a = 32] by simp
  let ?s = "''proc'' @ CHR ''/'' # ?d @ CHR ''/'' # field"
  have k: "''/proc/'' @ ?d @ ''/'' @ field = CHR ''/'' # ?s" by simp
  have "segs_of (''proc'' @ CHR ''/'' # x) = ''proc'' # segs_of x" "segs_of (?d @ CHR ''/'' # x) = ?d # segs_of x"
    "segs_of field = [field]" for x
    by (intro segs_of_seg segs_of_last; simp add: digits_no_slash digits_nonempty assms)+
  then have s: "segs_of ?s = [''proc'', ?d, field]" by (simp only:)
  then show "good_path (''/proc/'' @ ?d @ ''/'' @ field)" using len assms by (intro good_pathI [OF k]) simp_all
  have "Suc (length ?s) < REG_PATH_MAX" using len assms(3) by simp
  from trans [OF path_segs_simp [OF this] s] show "path_segs (''/proc/'' @ ?d @ ''/'' @ field) = [''proc'', ?d, field]" by (simp only: k)
  show "trunc REG_PATH_MAX (''/proc/'' @ ?d @ ''/'' @ field) = ''/proc/'' @ ?d @ ''/'' @ field"
    using len assms(3) by (simp add: trunc_def)
qed

lemma proc_dir_good: "good_path (''/proc/'' @ show_int (uint (n :: u32)))"
proof -
  let ?d = "show_int (uint n)"
  have len: "length ?d \<le> 10" using digits_length [of 10, where 'a = 32] by simp
  have "segs_of (''proc'' @ CHR ''/'' # ?d) = ''proc'' # segs_of ?d" "segs_of ?d = [?d]"
    by (intro segs_of_seg segs_of_last; simp add: digits_no_slash digits_nonempty)+
  then show ?thesis using len by (intro good_pathI [of _ "''proc'' @ CHR ''/'' # ?d"]) simp_all
qed

lemma sub_path_good:
  assumes "p \<in> proc_paths" and "field \<noteq> []" and "CHR ''/'' \<notin> set field" and "length field < 64"
  shows "good_path (trunc REG_PATH_MAX (p @ CHR ''/'' # field))"
proof -
  obtain n where "p = ''/proc/'' @ show_int (uint (n :: u32))" using assms(1) by (auto simp: proc_paths_def)
  then show ?thesis using proc_path_segs [OF assms(2-4), of n] by simp
qed

subsection \<open>Nothing changes a path\<close>

lemma reg_paths_upd [simp]: "(\<And>p. p_reg_path (f p) = p_reg_path p) \<Longrightarrow> reg_paths (upd_proc f a st) = reg_paths st"
  by (cases "a < length (s_procs st)") (auto simp: reg_paths_def upd_proc_def map_update list_update_id intro!: nth_equalityI simp: nth_list_update)

lemma reg_paths_frame [simp]:
  "reg_paths (st\<lparr>s_queues := q\<rparr>) = reg_paths st" "reg_paths (st\<lparr>s_tails := q\<rparr>) = reg_paths st"
  "reg_paths (st\<lparr>s_counts := cs, s_total := t\<rparr>) = reg_paths st" "reg_paths (st\<lparr>s_current := c\<rparr>) = reg_paths st"
  "reg_paths (st\<lparr>s_ipc := i\<rparr>) = reg_paths st" "reg_paths (st\<lparr>s_tick := n\<rparr>) = reg_paths st"
  by (simp_all add: reg_paths_def)

lemma reg_paths_link [simp]: "reg_paths (link_tail l a st) = reg_paths st"
  by (simp add: link_tail_def Let_def split: option.split)

lemma reg_paths_add [simp]: "reg_paths (sched_add a st) = reg_paths st"
  by (simp add: sched_add_def Let_def)

lemma reg_paths_pick: "pick_loop ls st = (r, st') \<Longrightarrow> reg_paths st' = reg_paths st"
  by (induction ls arbitrary: st) (auto simp: Let_def split: option.splits if_splits)

lemma reg_paths_only: "only_reg st st' \<Longrightarrow> reg_paths st' = reg_paths st"
  by (auto simp: only_reg_def)

lemma reg_paths_remove: "remove_loop n l a prev c st = Inr st' \<Longrightarrow> reg_paths st' = reg_paths st"
proof (induction n arbitrary: prev c)
  case (Suc n)
  then show ?case by (auto simp: Let_def split: option.splits if_splits)
qed simp

lemma reg_paths_tick: "reg_ok (i_reg (s_ipc st)) R \<Longrightarrow> sched_tick st = Inr st' \<Longrightarrow> reg_paths st' = reg_paths st"
proof -
  assume reg: "reg_ok (i_reg (s_ipc st)) R" and t: "sched_tick st = Inr st'"
  let ?st0 = "st\<lparr>s_tick := s_tick st + 1\<rparr>"
  have "reg_ok (i_reg (s_ipc ?st0)) R" using reg by simp
  then obtain s1 where s1: "publish_state ?st0 = Inr s1" "only_reg ?st0 s1" using publish_ok by blast
  obtain nxt s2 where p: "sched_pick_next s1 = (nxt, s2)" by (cases "sched_pick_next s1")
  have rp: "reg_paths s2 = reg_paths st"
    using reg_paths_pick p reg_paths_only [OF s1(2)] by (simp add: sched_pick_next_def del: pick_loop.simps)
  have "sched_tick st = (case nxt of None \<Rightarrow> Inr s2 | Some a \<Rightarrow>
      if s_current s2 = Some a then Inr s2
      else case s_current s2 of None \<Rightarrow> Inr (upd_proc (\<lambda>p. p\<lparr>p_state := PROC_RUNNING\<rparr>) a (s2\<lparr>s_current := Some a\<rparr>))
        | Some c \<Rightarrow> Inr (upd_proc (\<lambda>p. p\<lparr>p_state := PROC_READY\<rparr>) c
            (upd_proc (\<lambda>p. p\<lparr>p_state := PROC_RUNNING\<rparr>) a (s2\<lparr>s_current := Some a\<rparr>))))"
    unfolding sched_tick_def by (auto simp: s1(1) p Let_def split: option.split)
  then show ?thesis using t rp by (auto split: option.splits if_splits)
qed

subsection \<open>The operations\<close>

lemma str_int_plain [simp]: "ref_of (val_str s) = None" "ref_of (val_int n) = None"
  by (simp_all add: ref_of_def val_str_def val_int_def val_nil_def)

lemma sched_set_sound:
  assumes "sched_sound R st" and "good_path p" and "ref_of v = None"
  shows "\<exists>st'. sched_reg_set p v st = Inr st' \<and> sched_sound R st' \<and> only_reg st st'"
proof -
  have "reg_ok (i_reg (s_ipc st)) R" using assms(1) by (simp add: sched_sound_def)
  from sched_reg_set_ok [OF this assms(2,3)] obtain st' where st': "sched_reg_set p v st = Inr st'"
    "reg_ok (i_reg (s_ipc st')) R" "only_reg st st'" by blast
  have "s_current st' = s_current st" "s_procs st' = s_procs st" using st'(3) by (auto simp: only_reg_def)
  moreover have "\<exists>qs. sched_ok st' qs" using assms(1) only_reg_ok [OF st'(3)] by (auto simp: sched_sound_def)
  ultimately show ?thesis using assms(1) st' reg_paths_only [OF st'(3)] by (simp add: sched_sound_def)
qed

lemma sched_upd_sound:
  assumes "\<And>p. p_next (f p) = p_next p" "\<And>p. p_priority (f p) = p_priority p" "\<And>p. p_reg_path (f p) = p_reg_path p"
    and "sched_sound R st"
  shows "sched_sound R (upd_proc f a st)"
  using assms(4) sched_ok_upd [OF assms(1,2)] reg_paths_upd [OF assms(3)] by (auto simp: sched_sound_def)

lemma ready_level_member:
  assumes "sched_ok st qs" and "ready_level st qs LEVELS = Some l"
  shows "hd (qs ! l) < length (s_procs st)"
proof -
  have l: "l < SCHED_LEVELS" "qs ! l \<noteq> []" using ready_level_in [OF assms(2)] by auto
  then have "linked (s_procs st) (s_queues st ! l) (qs ! l)" using assms(1) by (simp add: sched_ok_def level_ok_def)
  then show ?thesis using linked_length l(2) by fastforce
qed

lemma sched_tick_sound:
  assumes "sched_sound R st"
  shows "\<exists>st'. sched_tick st = Inr st' \<and> sched_sound R st'"
proof -
  obtain qs where g: "sched_ok st qs" "reg_ok (i_reg (s_ipc st)) R" using assms by (auto simp: sched_sound_def)
  obtain st' where t: "sched_tick st = Inr st'" "reg_ok (i_reg (s_ipc st')) R" "length (s_procs st') = length (s_procs st)"
    "case ready_level st qs LEVELS of
       None \<Rightarrow> sched_ok st' qs \<and> s_current st' = s_current st \<and> (\<forall>x < length (s_procs st). states st' x = states st x)
     | Some l \<Rightarrow> let a = hd (qs ! l) in sched_ok st' (rotated qs l) \<and> s_current st' = Some a \<and>
         (\<forall>x < length (s_procs st). states st' x =
           (if s_current st = Some a then states st x
            else if s_current st = Some x then PROC_READY else if x = a then PROC_RUNNING else states st x))"
    using sched_tick_ok [OF g] by blast
  have "(\<exists>qs. sched_ok st' qs) \<and> (\<forall>c. s_current st' = Some c \<longrightarrow> c < length (s_procs st'))"
    using t(3,4) ready_level_member [OF g(1)] assms by (auto simp: Let_def sched_sound_def split: option.splits)
  then show ?thesis using t(1,2) reg_paths_tick [OF g(2) t(1)] assms by (simp add: sched_sound_def)
qed

lemma set_state_sound:
  assumes "sched_sound R st" and "a < length (s_procs st)"
  shows "\<exists>st'. set_state_key a s st = Inr st' \<and> sched_sound R st' \<and> only_reg st st'"
proof -
  have "p_reg_path (s_procs st ! a) \<in> set (reg_paths st)" using assms(2) by (simp add: reg_paths_def)
  then have "good_path (trunc REG_PATH_MAX (p_reg_path (s_procs st ! a) @ CHR ''/'' # ''state''))"
    using assms(1) by (intro sub_path_good) (auto simp: sched_sound_def)
  from sched_set_sound [OF assms(1) this] show ?thesis by (simp add: set_state_key_def)
qed

lemma proc_block_sound:
  assumes "sched_sound R st"
  shows "\<exists>st'. proc_block path st = Inr st' \<and> sched_sound R st'"
proof (cases "s_current st")
  case (Some c)
  let ?st = "upd_proc (\<lambda>p. p\<lparr>p_state := PROC_BLOCKED, p_wait_path := trunc REG_PATH_MAX path\<rparr>) c st"
  have "sched_sound R ?st" by (rule sched_upd_sound [OF _ _ _ assms]) simp_all
  moreover have "c < length (s_procs ?st)" using assms Some by (simp add: sched_sound_def)
  ultimately obtain s1 where "set_state_key c ''blocked'' ?st = Inr s1" "sched_sound R s1" using set_state_sound by blast
  then show ?thesis using Some sched_tick_sound [of R s1] by (simp add: proc_block_def sched_yield_def)
qed (use assms in \<open>simp add: proc_block_def\<close>)

lemma level_ok_append: "level_ok st l xs \<Longrightarrow> level_ok (st\<lparr>s_procs := s_procs st @ [p], s_next_pid := n\<rparr>) l xs"
proof -
  assume lv: "level_ok st l xs"
  have "linked ps c xs \<Longrightarrow> linked (ps @ [p]) c xs" for ps c by (induction xs arbitrary: c) (auto simp: nth_append)
  moreover have "\<forall>a \<in> set xs. a < length (s_procs st)" using lv linked_length by (auto simp: level_ok_def)
  ultimately show ?thesis using lv by (auto simp: level_ok_def nth_append)
qed

lemma new_queue_ok:
  assumes "reg_ok st R" and "info (r_root st) p = Some nd" and "k_queue nd = None"
  shows "reg_ok (set_queue st p (new_queue n)) R"
proof -
  let ?f = "\<lambda>x. x\<lparr>k_queue := Some (new_queue n)\<rparr>"
  let ?root = "upd_node ?f (r_root st) p"
  have "tree_sum (key_refs a) ?root = tree_sum (key_refs a) (r_root st)" for a
    using tree_sum_upd_node [OF assms(2), of "key_refs a" ?f] assms(3) by (simp add: key_refs_def owned_def new_queue_def)
  then have "nrefs (all_vals ?root @ R) a = nrefs (all_vals (r_root st) @ R) a" for a by (simp add: nrefs_all_vals)
  then have "heap_ok (r_heap st) (all_vals ?root @ R)"
    using assms(1) heap_ok_cong [of "all_vals ?root @ R" "all_vals (r_root st) @ R"] by (simp add: reg_ok_def)
  moreover have "wf_key [] ?root" using assms(1) by (intro wf_upd_node) (simp_all add: reg_ok_def)
  moreover have "nkeys ?root = nkeys (r_root st)"
    using tree_sum_upd_node [OF assms(2), of "\<lambda>_. 1" ?f] by (simp add: nkeys_sum)
  ultimately show ?thesis using assms(1) by (simp add: reg_ok_def set_queue_def)
qed

lemma init_queue_ok:
  assumes "reg_ok st R" and "good_path p"
  shows "reg_ok (snd (reg_ipc_init_queue st p n)) R"
proof -
  obtain st1 where st1: "lookup_or_make st p RK_ALL = (Some (path_segs p), st1)" "reg_ok st1 R"
    "\<forall>q. info (r_root st1) q = (case info (r_root st) q of Some nd \<Rightarrow> Some nd
       | None \<Rightarrow> if is_prefix q (path_segs p) then Some (fresh_node q RK_ALL) else None)"
    using lookup_or_make_ok [OF assms, of RK_ALL] by blast
  have "is_prefix (path_segs p) (path_segs p)" by (simp add: is_prefix_def)
  then obtain nd where nd: "info (r_root st1) (path_segs p) = Some nd"
    using st1(3) by (cases "info (r_root st) (path_segs p)") auto
  show ?thesis
  proof (cases "queue_at st1 (path_segs p)")
    case None
    then have "k_queue nd = None" using nd by (simp add: queue_at_info)
    then show ?thesis using st1 None new_queue_ok [OF st1(2) nd] by (simp add: reg_ipc_init_queue_def)
  qed (use st1 in \<open>simp add: reg_ipc_init_queue_def\<close>)
qed

lemma sched_ok_append: "sched_ok st qs \<Longrightarrow> sched_ok (st\<lparr>s_procs := s_procs st @ [p], s_next_pid := n\<rparr>) qs"
  using level_ok_append by (simp add: sched_ok_def)

lemma queue_member:
  assumes "sched_ok st qs" and "xs \<in> set qs" and "a \<in> set xs"
  shows "a < length (s_procs st)" and "a \<in> set (qs ! prio_level (s_procs st ! a))"
proof -
  obtain l where l: "l < length qs" "qs ! l = xs" using assms(2) by (auto simp: in_set_conv_nth)
  then have lv: "level_ok st l xs" using assms(1) by (auto simp: sched_ok_def)
  then show "a < length (s_procs st)" using assms(3) linked_length by (auto simp: level_ok_def)
  have "prio_level (s_procs st ! a) = l" using lv assms(3) by (simp add: level_ok_def)
  then show "a \<in> set (qs ! prio_level (s_procs st ! a))" using l assms(3) by simp
qed

lemma proc_create_sound:
  assumes ok: "sched_sound R st" and name: "name = Some nm"
  shows "\<exists>a st'. proc_create name entry arg st = Inr (a, st') \<and> sched_sound R st'"
proof -
  obtain qs where g: "sched_ok st qs" using ok by (auto simp: sched_sound_def)
  let ?a = "length (s_procs st)"
  let ?p = "new_proc (s_next_pid st) nm entry arg"
  let ?st0 = "st\<lparr>s_procs := s_procs st @ [?p], s_next_pid := s_next_pid st + 1\<rparr>"
  have path: "p_reg_path ?p = ''/proc/'' @ show_int (uint (s_next_pid st))" by (simp add: new_proc_def)
  then have inp: "p_reg_path ?p \<in> proc_paths" by (auto simp: proc_paths_def)
  have "sched_sound R ?st0"
    using ok inp sched_ok_append [OF g] by (auto simp: sched_sound_def reg_paths_def less_Suc_eq)
  from sched_set_sound [OF this _ str_int_plain(1), of "p_reg_path ?p" nm] path proc_dir_good [of "s_next_pid st"]
  obtain s1 where s1: "sched_reg_set (p_reg_path ?p) (val_str nm) ?st0 = Inr s1" "sched_sound R s1" "only_reg ?st0 s1" by auto
  have "?a < length (s_procs s1)" using s1(3) by (auto simp: only_reg_def)
  from set_state_sound [OF s1(2) this] obtain s2 where s2: "set_state_key ?a ''ready'' s1 = Inr s2" "sched_sound R s2" "only_reg s1 s2"
    by blast
  have "good_path (trunc REG_PATH_MAX (p_reg_path ?p @ CHR ''/'' # ''priority''))" by (rule sub_path_good [OF inp]) simp_all
  from sched_set_sound [OF s2(2) this str_int_plain(2)] obtain s3 where
    s3: "sched_reg_set (trunc REG_PATH_MAX (p_reg_path ?p @ ''/priority'')) (val_int (ucast (p_priority ?p))) s2 = Inr s3"
    "sched_sound R s3" "only_reg s2 s3" by fastforce
  have e: "s_procs s3 = s_procs ?st0"
    using only_reg_trans [OF only_reg_trans [OF s1(3) s2(3)] s3(3)] by (auto simp: only_reg_def)
  have "good_path (''/proc/'' @ show_int (uint (s_next_pid st)) @ ''/'' @ ''inbox'')" by (rule proc_path_segs(1)) simp_all
  then have inbox: "good_path (p_ipc_inbox ?p)" by (simp add: new_proc_def)
  let ?r = "snd (reg_ipc_init_queue (i_reg (s_ipc s3)) (p_ipc_inbox ?p) 64)"
  let ?s4 = "s3\<lparr>s_ipc := (s_ipc s3)\<lparr>i_reg := ?r\<rparr>\<rparr>"
  have r: "reg_ok ?r R" using init_queue_ok [OF _ inbox] s3(2) by (simp add: sched_sound_def)
  obtain qs3 where q3: "sched_ok s3 qs3" using s3(2) by (auto simp: sched_sound_def)
  have only: "only_reg s3 ?s4" by (auto simp: only_reg_def)
  have q4: "sched_ok ?s4 qs3" using q3 only_reg_ok [OF only] by blast
  have e0: "sched_ok s3 qs" using sched_ok_append [OF g] only_reg_ok only_reg_trans [OF only_reg_trans [OF s1(3) s2(3)] s3(3)] by blast
  then have q4: "sched_ok ?s4 qs" using only_reg_ok [OF only] by blast
  have "\<forall>xs \<in> set qs. ?a \<notin> set xs" using queue_member(1) [OF g] by blast
  moreover have "?a < length (s_procs ?s4)" using e by simp
  ultimately have add: "\<exists>qs'. sched_ok (sched_add ?a ?s4) qs'" using sched_add_ok [OF q4] by blast
  have "s_ipc (sched_add ?a ?s4) = s_ipc ?s4" "s_current (sched_add ?a ?s4) = s_current ?s4"
    "length (s_procs (sched_add ?a ?s4)) = length (s_procs ?s4)"
    by (simp_all add: sched_add_def link_tail_def upd_proc_def Let_def split: option.split)
  then have "sched_sound R (sched_add ?a ?s4)"
    using add r s3(2) reg_paths_add [of ?a ?s4] by (simp add: sched_sound_def)
  moreover have "proc_create name entry arg st = Inr (?a, sched_add ?a ?s4)"
    using name s1(1) s2(1) s3(1) by (simp add: proc_create_def Let_def prod.case_eq_if)
  ultimately show ?thesis by blast
qed

lemma find_loop_ok:
  assumes "linked (s_procs st) c xs" and "length xs < n"
  shows "\<exists>r. find_loop n pid c st = Inr r \<and> (\<forall>a. r = Some a \<longrightarrow> a \<in> set xs)"
  using assms
proof (induction n arbitrary: c xs)
  case (Suc n)
  show ?case
  proof (cases xs)
    case (Cons x ys)
    then show ?thesis using Suc.IH [of "p_next (s_procs st ! x)" ys] Suc.prems by auto
  qed (use Suc.prems in auto)
qed simp

lemma find_levels_ok:
  assumes "sched_ok st qs" and "set ls \<subseteq> {..<SCHED_LEVELS}"
  shows "\<exists>r. find_levels ls pid st = Inr r \<and> (\<forall>a. r = Some a \<longrightarrow> (\<exists>xs \<in> set qs. a \<in> set xs))"
  using assms(2)
proof (induction ls)
  case (Cons l ls)
  then have l: "l < SCHED_LEVELS" by simp
  then have lv: "level_ok st l (qs ! l)" "qs ! l \<in> set qs" using assms(1) by (auto simp: sched_ok_def)
  have "length (qs ! l) < length (s_procs st) + 1" using lv(1) linked_bound by (fastforce simp: level_ok_def)
  then obtain r where "find_loop (length (s_procs st) + 1) pid (s_queues st ! l) st = Inr r" "\<forall>a. r = Some a \<longrightarrow> a \<in> set (qs ! l)"
    using find_loop_ok lv(1) unfolding level_ok_def by blast
  then show ?case using Cons lv(2) by (cases r) auto
qed simp

lemma sched_find_ok:
  assumes "sched_ok st qs"
  shows "\<exists>r. sched_find pid st = Inr r \<and> (\<forall>a. r = Some a \<longrightarrow> (\<exists>xs \<in> set qs. a \<in> set xs))"
  unfolding sched_find_def by (rule find_levels_ok [OF assms]) simp

lemma proc_destroy_sound:
  assumes ok: "sched_sound R st" and q: "sched_ok st qs" and a: "xs \<in> set qs" "a \<in> set xs"
  shows "\<exists>st'. proc_destroy a st = Inr st' \<and> sched_sound R st'"
proof -
  obtain s1 where s1: "sched_remove a st = Inr s1" "\<exists>qs'. sched_ok s1 qs'"
    using sched_remove_ok [OF q queue_member(2) [OF q a]] by blast
  have rl: "remove_loop n l a prev c st = Inr s1 \<Longrightarrow> s_ipc s1 = s_ipc st \<and> s_current s1 = s_current st" for n l prev c
  proof (induction n arbitrary: prev c)
    case (Suc n)
    then show ?case by (auto simp: Let_def upd_proc_def split: option.splits if_splits)
  qed simp
  have e: "s_ipc s1 = s_ipc st" "s_current s1 = s_current st" "reg_paths s1 = reg_paths st"
    using s1(1) rl reg_paths_remove unfolding sched_remove_def Let_def by blast+
  then have len: "length (s_procs s1) = length (s_procs st)" by (metis length_reg_paths)
  have "sched_sound R s1" using ok s1(2) e len by (simp add: sched_sound_def)
  then have "sched_sound R (upd_proc (\<lambda>p. p\<lparr>p_state := PROC_ZOMBIE\<rparr>) a s1)" by (rule sched_upd_sound [rotated 3]) simp_all
  moreover have "a < length (s_procs (upd_proc (\<lambda>p. p\<lparr>p_state := PROC_ZOMBIE\<rparr>) a s1))" using queue_member(1) [OF q a] len by simp
  ultimately obtain s2 where "set_state_key a ''zombie'' (upd_proc (\<lambda>p. p\<lparr>p_state := PROC_ZOMBIE\<rparr>) a s1) = Inr s2" "sched_sound R s2"
    using set_state_sound by blast
  then show ?thesis using s1(1) by (simp add: proc_destroy_def)
qed

end
