(* ===== verification/Kernel_Facts.thy ===== *)
theory Kernel_Facts
  imports Kernel Kernel_Sched Vfs_Facts
begin

section \<open>The kernel answers every message\<close>

text \<open>
  \<open>runs I P r\<close>: the computation \<open>r\<close> meets no fault, its result has \<open>P\<close> and its state has \<open>I\<close>; \<open>keeps\<close> is
  the same without a result. The handlers are sequences of such computations.
\<close>

definition runs :: "('s \<Rightarrow> bool) \<Rightarrow> ('a \<Rightarrow> bool) \<Rightarrow> ('a \<times> 's) res \<Rightarrow> bool" where
  "runs I P r \<longleftrightarrow> (\<exists>x s. r = Inr (x, s) \<and> P x \<and> I s)"

definition keeps :: "('s \<Rightarrow> bool) \<Rightarrow> 's res \<Rightarrow> bool" where
  "keeps I r \<longleftrightarrow> (\<exists>s. r = Inr s \<and> I s)"

lemma runs_Inr [simp]: "runs I P (Inr (x, s)) \<longleftrightarrow> P x \<and> I s"
  by (simp add: runs_def)

lemma keeps_Inr [simp]: "keeps I (Inr s) \<longleftrightarrow> I s"
  by (simp add: keeps_def)

lemma runs_bind: "runs I P r \<Longrightarrow> (\<And>x s. P x \<Longrightarrow> I s \<Longrightarrow> runs J Q (f (x, s))) \<Longrightarrow> runs J Q (bind_res r f)"
  by (auto simp: runs_def)

lemma keeps_bind: "keeps I r \<Longrightarrow> (\<And>s. I s \<Longrightarrow> runs J Q (f s)) \<Longrightarrow> runs J Q (bind_res r f)"
  by (auto simp: runs_def keeps_def)

lemma runs_keeps: "runs I P r \<Longrightarrow> (\<And>x s. P x \<Longrightarrow> I s \<Longrightarrow> keeps J (f (x, s))) \<Longrightarrow> keeps J (bind_res r f)"
  by (auto simp: runs_def keeps_def)

lemma keeps_keeps: "keeps I r \<Longrightarrow> (\<And>s. I s \<Longrightarrow> keeps J (f s)) \<Longrightarrow> keeps J (bind_res r f)"
  by (auto simp: keeps_def)

lemma runs_mono: "runs I P r \<Longrightarrow> (\<And>x. P x \<Longrightarrow> Q x) \<Longrightarrow> runs I Q r"
  by (auto simp: runs_def)

subsection \<open>The file system\<close>

definition vfs_sound :: "val list \<Rightarrow> vfs \<Rightarrow> bool" where
  "vfs_sound R s \<longleftrightarrow> reg_ok (v_reg s) R \<and> length (v_fds s) = VFS_MAX_FD"

lemma vfs_sound_upd [simp]:
  "vfs_sound R (s\<lparr>v_next_ino := n\<rparr>) = vfs_sound R s" "vfs_sound R (s\<lparr>v_in := inp\<rparr>) = vfs_sound R s"
  "vfs_sound R (s\<lparr>v_out := out\<rparr>) = vfs_sound R s" "vfs_sound R (s\<lparr>v_mounts := ms\<rparr>) = vfs_sound R s"
  "vfs_sound R (s\<lparr>v_mount_count := c\<rparr>) = vfs_sound R s"
  "vfs_sound R (upd_fd fd g s) = vfs_sound R s" "vfs_sound R (s\<lparr>v_fds := (v_fds s)[i := f]\<rparr>) = vfs_sound R s"
  by (simp_all add: vfs_sound_def upd_fd_def)

lemma fd_alloc_sound [simp]: "vfs_sound R (snd (fd_alloc ino flags s)) = vfs_sound R s"
  by (simp add: fd_alloc_def split: option.split)

lemma vfs_close_sound [simp]: "vfs_sound R (snd (vfs_close fd s)) = vfs_sound R s"
  by (simp add: vfs_close_def split: option.split)

lemma vfs_dup_sound [simp]: "vfs_sound R (snd (vfs_dup old new s)) = vfs_sound R s"
  by (simp add: vfs_dup_def Let_def split: option.split)

lemma vfs_seek_sound [simp]: "vfs_sound R (snd (vfs_seek fd off wh s)) = vfs_sound R s"
  by (simp add: vfs_seek_def Let_def split: option.split)

lemma look_sound:
  assumes "vfs_sound R s" and "good_path p"
  shows "runs (vfs_sound R) (\<lambda>_. True) (v_reg_look p s)"
proof -
  have ok: "reg_ok (v_reg s) R" and p: "p \<noteq> []" "hd p = CHR ''/''" using assms by (auto simp: vfs_sound_def good_path_def)
  obtain w r where w: "reg_get (v_reg s) p = Inr (w, r)" "reg_ok r (w # R)" using reg_get_ok [OF ok p] by blast
  have perm: "nrefs (all_vals (r_root r) @ w # R) a = nrefs ([w] @ all_vals (r_root r) @ R) a" for a by simp
  have "heap_ok (r_heap r) ([w] @ all_vals (r_root r) @ R)" using w(2) heap_ok_cong [OF perm] by (simp add: reg_ok_def)
  then obtain h where h: "val_free (r_heap r) w = Inr h" "heap_ok h (all_vals (r_root r) @ R)"
    using free_vals_ok [of "r_heap r" "[w]"] by (auto simp: val_free_def)
  have "reg_ok (r\<lparr>r_heap := h\<rparr>) R" using w(2) h(2) by (simp add: reg_ok_def)
  then show ?thesis using assms(1) w(1) h(1) by (simp add: v_reg_look_def vfs_sound_def)
qed

lemma set_sound:
  assumes "vfs_sound R s" and "good_path p" and "ref_of v = None"
  shows "keeps (vfs_sound R) (v_reg_set p v rights s)"
proof -
  have "reg_ok (v_reg s) R" using assms(1) by (simp add: vfs_sound_def)
  from v_reg_set_ok [OF this assms(2,3)] obtain r where "v_reg_set p v rights s = Inr (s\<lparr>v_reg := r\<rparr>)" "reg_ok r R" by blast
  then show ?thesis using assms(1) by (simp add: vfs_sound_def)
qed

lemma ino_good: "good_path (ino_path ino ''path'')" "good_path (ino_path ino ''mode'')" "good_path (ino_path ino ''data'')"
  by (rule ino_path_ok(1); simp)+

lemma publish_sound: "vfs_sound R s \<Longrightarrow> keeps (vfs_sound R) (ino_publish ino path mode s)"
  unfolding ino_publish_def by (intro keeps_keeps [OF set_sound] set_sound) (simp_all add: ino_good)

lemma find_ino_sound: "vfs_sound R s \<Longrightarrow> runs (vfs_sound R) (\<lambda>_. True) (find_ino is path s)"
proof (induction "is" arbitrary: s)
  case (Cons i "is")
  have "runs (vfs_sound R) (\<lambda>_. True) (v_reg_look (ino_path i ''path'') s)" by (rule look_sound [OF Cons.prems ino_good(1)])
  then show ?case using Cons.IH by (auto intro!: runs_bind)
qed simp

lemma path_to_ino_sound: "vfs_sound R s \<Longrightarrow> runs (vfs_sound R) (\<lambda>_. True) (path_to_ino path s)"
  unfolding path_to_ino_def by (rule find_ino_sound)

lemma alloc_sound: "vfs_sound R s \<Longrightarrow> runs (vfs_sound R) (\<lambda>_. True) (Inr (fd_alloc ino flags s))"
  using fd_alloc_sound [of R ino flags s] by (cases "fd_alloc ino flags s") simp

lemma vfs_open_sound: "vfs_sound R s \<Longrightarrow> runs (vfs_sound R) (\<lambda>_. True) (vfs_open path flags s)"
  unfolding vfs_open_def
  by (erule runs_bind [OF path_to_ino_sound])
    (auto simp: ino_alloc_def intro!: alloc_sound keeps_bind [OF publish_sound])

lemma vfs_mkdir_sound: "vfs_sound R s \<Longrightarrow> runs (vfs_sound R) (\<lambda>_. True) (vfs_mkdir path mode s)"
  unfolding vfs_mkdir_def
  by (erule runs_bind [OF path_to_ino_sound]) (auto simp: ino_alloc_def intro!: keeps_bind [OF publish_sound])

lemma vfs_stat_sound: "vfs_sound R s \<Longrightarrow> runs (vfs_sound R) (\<lambda>_. True) (vfs_stat path s)"
  unfolding vfs_stat_def
  by (erule runs_bind [OF path_to_ino_sound]) (auto intro!: runs_bind [OF look_sound] ino_good)

lemma vfs_write_sound: "vfs_sound R s \<Longrightarrow> runs (vfs_sound R) (\<lambda>_. True) (vfs_write fd buf s)"
  unfolding vfs_write_def Let_def
  by (auto split: option.split intro!: runs_bind [OF look_sound] keeps_bind [OF set_sound] ino_good)

lemma vfs_read_sound:
  "vfs_sound R s \<Longrightarrow> \<exists>n bs s'. vfs_read fd cnt s = Inr (n, bs, s') \<and> vfs_sound R s'"
proof -
  assume ok: "vfs_sound R s"
  show ?thesis
  proof (cases "fd_get fd s")
    case (Some f)
    obtain w s1 where "v_reg_look (ino_path (vf_ino f) ''data'') s = Inr (w, s1)" "vfs_sound R s1"
      using look_sound [OF ok ino_good(3)] unfolding runs_def by blast
    then show ?thesis using ok Some by (simp add: vfs_read_def Let_def prod.case_eq_if split: option.split)
  qed (use ok in \<open>simp add: vfs_read_def prod.case_eq_if\<close>)
qed

lemma mount_paths:
  assumes "n < VFS_MAX_MOUNTS"
  shows "good_path (trunc REG_PATH_MAX (''/vfs/mount/'' @ show_nat n))"
    "good_path (trunc REG_PATH_MAX (trunc REG_PATH_MAX (''/vfs/mount/'' @ show_nat n) @ ''/dst''))"
    "good_path (trunc REG_PATH_MAX (trunc REG_PATH_MAX (''/vfs/mount/'' @ show_nat n) @ ''/fstype''))"
proof -
  let ?d = "show_int (uint (of_nat n :: u8))"
  have "unat (of_nat n :: u8) = n" using assms by (simp add: unsigned_of_nat take_bit_nat_def)
  moreover have "?d = show_nat (unat (of_nat n :: u8))" by (simp add: show_int_def)
  ultimately have d: "show_nat n = ?d" by simp
  have len: "length ?d \<le> 3" using digits_length [of 3, where 'a = 8] by simp
  have seg: "segs_of (''vfs'' @ CHR ''/'' # x) = ''vfs'' # segs_of x" "segs_of (''mount'' @ CHR ''/'' # x) = ''mount'' # segs_of x"
    "segs_of (?d @ CHR ''/'' # x) = ?d # segs_of x" "segs_of ?d = [?d]" "segs_of ''dst'' = [''dst'']"
    "segs_of ''fstype'' = [''fstype'']" for x
    by (intro segs_of_seg segs_of_last; simp add: digits_no_slash digits_nonempty)+
  have base: "trunc REG_PATH_MAX (''/vfs/mount/'' @ ?d) = ''/vfs/mount/'' @ ?d" using len by (simp add: trunc_def)
  have "good_path (''/vfs/mount/'' @ ?d)"
    by (rule good_pathI [of _ "''vfs'' @ CHR ''/'' # ''mount'' @ CHR ''/'' # ?d"]) (use len in \<open>simp_all only: seg, simp_all\<close>)
  moreover have "good_path (''/vfs/mount/'' @ ?d @ ''/dst'')"
    by (rule good_pathI [of _ "''vfs'' @ CHR ''/'' # ''mount'' @ CHR ''/'' # ?d @ CHR ''/'' # ''dst''"]) (use len in \<open>simp_all only: seg, simp_all\<close>)
  moreover have "good_path (''/vfs/mount/'' @ ?d @ ''/fstype'')"
    by (rule good_pathI [of _ "''vfs'' @ CHR ''/'' # ''mount'' @ CHR ''/'' # ?d @ CHR ''/'' # ''fstype''"]) (use len in \<open>simp_all only: seg, simp_all\<close>)
  ultimately show "good_path (trunc REG_PATH_MAX (''/vfs/mount/'' @ show_nat n))"
    "good_path (trunc REG_PATH_MAX (trunc REG_PATH_MAX (''/vfs/mount/'' @ show_nat n) @ ''/dst''))"
    "good_path (trunc REG_PATH_MAX (trunc REG_PATH_MAX (''/vfs/mount/'' @ show_nat n) @ ''/fstype''))"
    unfolding d base using len by (simp_all add: trunc_def)
qed

lemma vfs_mount_sound: "vfs_sound R s \<Longrightarrow> runs (vfs_sound R) (\<lambda>_. True) (vfs_mount src dst fstype s)"
  unfolding vfs_mount_def Let_def
  by (auto intro!: keeps_bind [OF set_sound] mount_paths [simplified])

subsection \<open>The kernel's state\<close>

definition kernel_ok :: "val list \<Rightarrow> kernel \<Rightarrow> bool" where
  "kernel_ok R k \<longleftrightarrow> sched_sound R (k_sched k) \<and> length (v_fds (k_vfs k)) = VFS_MAX_FD"

lemma kernel_reg: "kernel_ok R k \<Longrightarrow> reg_ok (k_reg k) R"
  by (simp add: kernel_ok_def sched_sound_def k_reg_def)

lemma put_reg_ok:
  assumes "kernel_ok R k" and "reg_ok r R'"
  shows "kernel_ok R' (k_put_reg r k)"
proof -
  let ?i = "(s_ipc (k_sched k))\<lparr>i_reg := r\<rparr>"
  have "only_reg (k_sched k) ((k_sched k)\<lparr>s_ipc := ?i\<rparr>)" by (auto simp: only_reg_def)
  then have "\<exists>qs. sched_ok ((k_sched k)\<lparr>s_ipc := ?i\<rparr>) qs"
    using assms(1) only_reg_ok unfolding kernel_ok_def sched_sound_def by blast
  then show ?thesis using assms by (auto simp: kernel_ok_def sched_sound_def k_put_reg_def k_put_ipc_def)
qed

lemma on_vfs_runs:
  assumes "kernel_ok R k" and "\<And>s. vfs_sound R s \<Longrightarrow> runs (vfs_sound R) P (f s)"
  shows "runs (kernel_ok R) P (on_vfs f k)"
proof -
  have "vfs_sound R ((k_vfs k)\<lparr>v_reg := k_reg k\<rparr>)"
    using assms(1) kernel_reg [OF assms(1)] by (simp add: vfs_sound_def kernel_ok_def)
  from assms(2) [OF this] obtain x v where v: "f ((k_vfs k)\<lparr>v_reg := k_reg k\<rparr>) = Inr (x, v)" "P x" "vfs_sound R v"
    by (auto simp: runs_def)
  have "kernel_ok R (k\<lparr>k_vfs := v\<rparr>)" using assms(1) v(3) by (simp add: kernel_ok_def vfs_sound_def)
  then show ?thesis using v put_reg_ok by (simp add: on_vfs_def vfs_sound_def)
qed

lemma on_sched_keeps: "kernel_ok R k \<Longrightarrow> keeps (sched_sound R) (f (k_sched k)) \<Longrightarrow> keeps (kernel_ok R) (on_sched f k)"
  by (auto simp: on_sched_def keeps_def kernel_ok_def)

lemma block_keeps: "kernel_ok R k \<Longrightarrow> keeps (kernel_ok R) (on_sched (proc_block p) k)"
  using proc_block_sound [of R "k_sched k" p] by (intro on_sched_keeps) (auto simp: kernel_ok_def keeps_def)

text \<open>A fetched value is held until it is released; only the heap of the registry changes.\<close>

definition heap_only :: "kernel \<Rightarrow> kernel \<Rightarrow> bool" where
  "heap_only k k' \<longleftrightarrow> (\<exists>h. k' = k_put_reg ((k_reg k)\<lparr>r_heap := h\<rparr>) k)"

lemma k_reg_put [simp]: "k_reg (k_put_reg r k) = r" "k_put_reg r (k_put_reg r' k) = k_put_reg r k" "k_vfs (k_put_reg r k) = k_vfs k"
  by (simp_all add: k_reg_def k_put_reg_def k_put_ipc_def)

lemma heap_only_trans: "heap_only a b \<Longrightarrow> heap_only b c \<Longrightarrow> heap_only a c"
  by (auto simp: heap_only_def)

lemma heap_only_root: "heap_only k k' \<Longrightarrow> r_root (k_reg k') = r_root (k_reg k)"
  by (auto simp: heap_only_def)

lemma reg_get_heap: "reg_get st p = Inr (v, st') \<Longrightarrow> \<exists>h. st' = st\<lparr>r_heap := h\<rparr>"
  by (auto simp: reg_get_def split: option.splits if_splits sum.splits intro: exI [of _ "r_heap st"])

lemma get_runs:
  assumes "kernel_ok R k" and "good_path p"
  obtains v k' where "k_reg_get p k = Inr (v, k')" "kernel_ok (v # R) k'" "heap_only k k'"
    "v = (case info (r_root (k_reg k)) (path_segs p) of Some nd \<Rightarrow> stored (k_val nd) | None \<Rightarrow> val_err 3 ''registry key not found'')"
proof -
  have p: "p \<noteq> []" "hd p = CHR ''/''" using assms(2) by (auto simp: good_path_def)
  obtain w r where w: "reg_get (k_reg k) p = Inr (w, r)" "reg_ok r (w # R)" "r_root r = r_root (k_reg k)"
    "w = (case info (r_root (k_reg k)) (path_segs p) of Some nd \<Rightarrow> stored (k_val nd) | None \<Rightarrow> val_err 3 ''registry key not found'')"
    using reg_get_ok [OF kernel_reg [OF assms(1)] p] by blast
  have "k_reg_get p k = Inr (w, k_put_reg r k)" using w(1) by (simp add: k_reg_get_def)
  moreover have "heap_only k (k_put_reg r k)" using reg_get_heap [OF w(1)] by (auto simp: heap_only_def)
  ultimately show thesis using that put_reg_ok [OF assms(1) w(2)] w(4) by metis
qed

lemma free_keeps:
  assumes "kernel_ok (v # R) k"
  obtains k' where "k_val_free v k = Inr k'" "kernel_ok R k'" "heap_only k k'"
proof -
  let ?r = "k_reg k"
  have ok: "reg_ok ?r (v # R)" by (rule kernel_reg [OF assms])
  have "nrefs (all_vals (r_root ?r) @ v # R) a = nrefs ([v] @ all_vals (r_root ?r) @ R) a" for a by simp
  then have "heap_ok (r_heap ?r) ([v] @ all_vals (r_root ?r) @ R)" using ok heap_ok_cong unfolding reg_ok_def by blast
  then obtain h where h: "val_free (r_heap ?r) v = Inr h" "heap_ok h (all_vals (r_root ?r) @ R)"
    using free_vals_ok [of "r_heap ?r" "[v]"] by (auto simp: val_free_def)
  have "reg_ok (?r\<lparr>r_heap := h\<rparr>) R" using ok h(2) by (simp add: reg_ok_def)
  from put_reg_ok [OF assms this] show thesis
    by (rule that [rotated]) (use h(1) in \<open>auto simp: k_val_free_def heap_only_def\<close>)
qed

lemma set_keeps:
  assumes "kernel_ok R k" and "good_path p" and "ref_of v \<noteq> None \<longrightarrow> v \<in> set R"
  shows "keeps (kernel_ok R) (k_reg_set p v rights k)"
proof -
  obtain r where r: "reg_set (k_reg k) p v rights = Inr (0, r)" "reg_ok r R"
    using reg_set_ok [OF kernel_reg [OF assms(1)] assms(2,3)] by blast
  then show ?thesis using put_reg_ok [OF assms(1) r(2)] by (simp add: k_reg_set_def)
qed

lemma queue_keeps: "kernel_ok R k \<Longrightarrow> good_path p \<Longrightarrow> kernel_ok R (k_put_reg (snd (reg_ipc_init_queue (k_reg k) p n)) k)"
  by (rule put_reg_ok [OF _ init_queue_ok [OF kernel_reg]])

lemma proc_path_good:
  assumes "field \<noteq> []" and "CHR ''/'' \<notin> set field" and "length field < 64"
  shows "good_path (proc_path pid field)" and "path_segs (proc_path pid field) = [''proc'', show_int (uint pid), field]"
  unfolding proc_path_def using proc_path_segs [OF assms, of pid] by simp_all

subsection \<open>Who may mount\<close>

definition caps_of :: "kernel \<Rightarrow> u32 \<Rightarrow> val option" where
  "caps_of k pid = map_option k_val (info (r_root (k_reg k)) [''proc'', show_int (uint pid), ''caps''])"

definition is_admin :: "u32 \<Rightarrow> kernel \<Rightarrow> bool" where
  "is_admin pid k \<longleftrightarrow> (\<exists>v. caps_of k pid = Some v \<and> vtype v = TYPE_INT \<and> ival v AND RK_ADMIN \<noteq> 0)"

lemma caps_path: "good_path (proc_path pid ''caps'')" "path_segs (proc_path pid ''caps'') = [''proc'', show_int (uint pid), ''caps'']"
  by (rule proc_path_good; simp)+

lemma admin_check:
  assumes "kernel_ok R k"
  obtains k' where "caller_has_admin pid k = Inr (is_admin pid k, k')" "kernel_ok R k'" "heap_only k k'"
proof -
  obtain v k1 where v: "k_reg_get (proc_path pid ''caps'') k = Inr (v, k1)" "kernel_ok (v # R) k1" "heap_only k k1"
    "v = (case info (r_root (k_reg k)) (path_segs (proc_path pid ''caps'')) of Some nd \<Rightarrow> stored (k_val nd)
       | None \<Rightarrow> val_err 3 ''registry key not found'')"
    using get_runs [OF assms caps_path(1)] by blast
  obtain k2 where k2: "k_val_free v k1 = Inr k2" "kernel_ok R k2" "heap_only k1 k2" using free_keeps [OF v(2)] by blast
  have "(vtype v = TYPE_INT \<and> ival v AND RK_ADMIN \<noteq> 0) = is_admin pid k"
    unfolding v(4) caps_path(2) is_admin_def caps_of_def by (auto simp: stored_def val_err_def val_nil_def split: option.split vdata.split)
  then have "caller_has_admin pid k = Inr (is_admin pid k, k2)" using v(1) k2(1) by (simp add: caller_has_admin_def)
  then show thesis using that k2(2) heap_only_trans [OF v(3) k2(3)] by metis
qed

lemma admin_only_runs:
  assumes "kernel_ok R k" and "\<And>k'. kernel_ok R k' \<Longrightarrow> heap_only k k' \<Longrightarrow> is_admin pid k \<Longrightarrow> runs (kernel_ok R) P (f k')" and "P err_eperm"
  shows "runs (kernel_ok R) P (admin_only pid f k)"
proof -
  obtain k' where "caller_has_admin pid k = Inr (is_admin pid k, k')" "kernel_ok R k'" "heap_only k k'" using admin_check [OF assms(1)] .
  then show ?thesis using assms(2,3) by (simp add: admin_only_def)
qed

lemma admin_refused:
  assumes "kernel_ok R k" and "\<not> is_admin pid k"
  shows "\<exists>k'. admin_only pid f k = Inr (err_eperm, k') \<and> heap_only k k' \<and> kernel_ok R k'"
proof -
  obtain k' where "caller_has_admin pid k = Inr (is_admin pid k, k')" "kernel_ok R k'" "heap_only k k'" using admin_check [OF assms(1)] .
  then show ?thesis using assms(2) by (simp add: admin_only_def)
qed

subsection \<open>The system calls\<close>

definition reply_types :: "string \<Rightarrow> vtype set" where
  "reply_types verb =
     (if verb \<in> {''mkdir'', ''mount'', ''bind'', ''remove''} then {TYPE_INT, TYPE_ERR}
      else if verb \<in> {''read'', ''stat'', ''fstat''} then {TYPE_STR, TYPE_ERR}
      else if verb = ''pipe'' then {TYPE_STR}
      else if verb \<in> {''open'', ''write'', ''close'', ''create'', ''fork'', ''wait'', ''exit'', ''chdir'', ''getpid'', ''sleep'', ''dup'', ''seek''}
      then {TYPE_INT} else {TYPE_ERR})"

abbreviation gives :: "val list \<Rightarrow> vtype set \<Rightarrow> (val \<times> kernel) res \<Rightarrow> bool" where
  "gives R T r \<equiv> runs (kernel_ok R) (\<lambda>v. vtype v \<in> T) r"

lemma vtype_simps [simp]:
  "vtype (ret_int n) = TYPE_INT" "vtype (val_int w) = TYPE_INT" "vtype (val_str s) = TYPE_STR" "vtype (val_err c m) = TYPE_ERR"
  "vtype err_eperm = TYPE_ERR"
  by (simp_all add: ret_int_def val_int_def val_str_def val_err_def err_eperm_def val_nil_def)

lemma file_calls:
  assumes "kernel_ok R k"
  shows "gives R {TYPE_INT} (sys_open m pid k)" "gives R {TYPE_STR, TYPE_ERR} (sys_read m pid k)"
    "gives R {TYPE_INT} (sys_write m pid k)" "gives R {TYPE_INT} (sys_close m pid k)"
    "gives R {TYPE_STR, TYPE_ERR} (sys_stat m pid k)" "gives R {TYPE_INT} (sys_create m pid k)"
    "gives R {TYPE_INT} (sys_dup m pid k)" "gives R {TYPE_INT} (sys_seek m pid k)"
proof -
  note on = on_vfs_runs [OF assms, where P = "\<lambda>_. True"]
  have open_ok: "runs (kernel_ok R) (\<lambda>_. True) (on_vfs (vfs_open path flags) k)" for path flags
    by (rule on) (rule vfs_open_sound)
  show "gives R {TYPE_INT} (sys_open m pid k)" "gives R {TYPE_INT} (sys_create m pid k)"
    unfolding sys_open_def sys_create_def by (rule runs_bind [OF open_ok]; simp)+
  have "runs (vfs_sound R) (\<lambda>_. True) (bind_res (vfs_read fd n s) (\<lambda>(n, buf, s1). Inr ((n, buf), s1)))" if "vfs_sound R s" for fd n s
    using vfs_read_sound [OF that, of fd n] by auto
  then show "gives R {TYPE_STR, TYPE_ERR} (sys_read m pid k)"
    unfolding sys_read_def by (auto intro!: runs_bind [OF on])
  show "gives R {TYPE_INT} (sys_write m pid k)"
    unfolding sys_write_def by (auto intro!: runs_bind [OF on] vfs_write_sound)
  have one: "runs (vfs_sound R) (\<lambda>_. True) (Inr x)" if "vfs_sound R (snd x)" for x :: "int \<times> vfs"
    using that by (cases x) simp
  show "gives R {TYPE_INT} (sys_close m pid k)" "gives R {TYPE_INT} (sys_dup m pid k)" "gives R {TYPE_INT} (sys_seek m pid k)"
    unfolding sys_close_def sys_dup_def sys_seek_def Let_def by (auto intro!: runs_bind [OF on] one)
  show "gives R {TYPE_STR, TYPE_ERR} (sys_stat m pid k)"
    unfolding sys_stat_def by (auto intro!: runs_bind [OF on] vfs_stat_sound split: option.split)
qed

lemma admin_calls:
  assumes "kernel_ok R k"
  shows "gives R {TYPE_INT, TYPE_ERR} (sys_mkdir m pid k)" "gives R {TYPE_INT, TYPE_ERR} (sys_mount m pid k)"
    "(is_admin pid k \<longrightarrow> good_path (m_arg0 m)) \<Longrightarrow> gives R {TYPE_INT, TYPE_ERR} (sys_bind m pid k)"
  unfolding sys_mkdir_def sys_mount_def sys_bind_def
  by (rule admin_only_runs [OF assms]; simp add: queue_keeps runs_bind [OF on_vfs_runs, OF _ vfs_mkdir_sound] runs_bind [OF on_vfs_runs, OF _ vfs_mount_sound])+

lemma sint_digits: "length (show_int (sint (w :: u64))) \<le> 21" "CHR ''/'' \<notin> set (show_int (sint w))" "show_int (sint w) \<noteq> []"
proof -
  let ?n = "nat \<bar>sint w\<bar>"
  have "?n < 10 ^ 20" using sint_u64_range [of w] by auto
  then have "length (show_nat ?n) \<le> 20" using show_nat_length [of ?n 20] by simp
  then show "length (show_int (sint w)) \<le> 21" by (auto simp: show_int_def)
  show "CHR ''/'' \<notin> set (show_int (sint w))" "show_int (sint w) \<noteq> []"
    using show_nat_digits [of "nat (sint w)"] show_nat_digits [of "nat (- sint w)"]
    by (auto simp: show_int_def isdigit_def dest: bspec)
qed

lemma pipe_path_good: "good_path (trunc REG_PATH_MAX (''/proc/'' @ show_int (uint (n :: u32)) @ ''/pipe/'' @ show_int (sint (w :: u64))))"
proof -
  let ?d = "show_int (uint n)" and ?e = "show_int (sint w)"
  have len: "length ?d \<le> 10" "length ?e \<le> 21" using digits_length [of 10, where 'a = 32] sint_digits(1) by simp_all
  have seg: "segs_of (''proc'' @ CHR ''/'' # x) = ''proc'' # segs_of x" "segs_of (''pipe'' @ CHR ''/'' # x) = ''pipe'' # segs_of x"
    "segs_of (?d @ CHR ''/'' # x) = ?d # segs_of x" "segs_of ?e = [?e]" for x
    by (intro segs_of_seg segs_of_last; simp add: digits_no_slash digits_nonempty sint_digits)+
  have "good_path (''/proc/'' @ ?d @ ''/pipe/'' @ ?e)"
    by (rule good_pathI [of _ "''proc'' @ CHR ''/'' # ?d @ CHR ''/'' # ''pipe'' @ CHR ''/'' # ?e"])
      (use len in \<open>simp_all only: seg, simp_all\<close>)
  then show ?thesis using len by (simp add: trunc_def)
qed

lemma proc_fields: "good_path (proc_path pid ''wake'')" "good_path (proc_path pid ''cwd'')" "good_path (proc_path pid ''inbox'')"
  by (rule proc_path_good; simp)+

lemma process_calls:
  assumes "kernel_ok R k"
  shows "gives R {TYPE_INT} (sys_getpid m pid k)" "gives R {TYPE_INT} (sys_sleep m pid k)" "gives R {TYPE_INT} (sys_wait m pid k)"
    "gives R {TYPE_INT} (sys_chdir m pid k)"
  using assms unfolding sys_getpid_def sys_sleep_def sys_wait_def sys_chdir_def Let_def
  by (auto intro!: keeps_bind [OF set_keeps] keeps_bind [OF block_keeps] proc_fields)

lemma exit_call:
  assumes "kernel_ok R k"
  shows "gives R {TYPE_INT} (sys_exit m pid k)"
proof -
  obtain qs where qs: "sched_ok (k_sched k) qs" and ok: "sched_sound R (k_sched k)" using assms by (auto simp: kernel_ok_def sched_sound_def)
  obtain r where r: "sched_find pid (k_sched k) = Inr r" "\<forall>a. r = Some a \<longrightarrow> (\<exists>xs \<in> set qs. a \<in> set xs)"
    using sched_find_ok [OF qs] by blast
  have "keeps (kernel_ok R) (case r of Some a \<Rightarrow> on_sched (proc_destroy a) k | None \<Rightarrow> Inr k)"
  proof (cases r)
    case (Some a)
    then obtain xs where "xs \<in> set qs" "a \<in> set xs" using r(2) by blast
    from proc_destroy_sound [OF ok qs this] show ?thesis using Some on_sched_keeps [OF assms] by (auto simp: keeps_def)
  qed (use assms in simp)
  then show ?thesis unfolding sys_exit_def r(1) bind_res_simps by (rule keeps_bind) simp
qed

lemma fork_call:
  assumes "kernel_ok R k"
  shows "gives R {TYPE_INT} (sys_fork m pid k)"
proof -
  have "sched_sound R (k_sched k)" using assms by (simp add: kernel_ok_def)
  from proc_create_sound [OF this refl] obtain a s where s: "proc_create (Some ''fork_child'') 0 0 (k_sched k) = Inr (a, s)" "sched_sound R s"
    by blast
  let ?child = "p_pid (s_procs s ! a)"
  have "kernel_ok R (k\<lparr>k_sched := s\<rparr>)" using assms s(2) by (simp add: kernel_ok_def)
  then obtain v k1 where v: "k_reg_get (proc_path pid ''caps'') (k\<lparr>k_sched := s\<rparr>) = Inr (v, k1)" "kernel_ok (v # R) k1"
    using get_runs [OF _ caps_path(1)] by metis
  obtain k2 where k2: "k_reg_set (proc_path ?child ''caps'') v RK_RW k1 = Inr k2" "kernel_ok (v # R) k2"
    using set_keeps [OF v(2) caps_path(1), of v] by (auto simp: keeps_def)
  obtain k3 where "k_val_free v k2 = Inr k3" "kernel_ok R k3" using free_keeps [OF k2(2)] by blast
  then show ?thesis using s(1) v(1) k2(1) by (simp add: sys_fork_def Let_def)
qed

lemma pipe_call:
  assumes "kernel_ok R k"
  shows "gives R {TYPE_STR} (sys_pipe m pid k)"
proof -
  have "good_path ''/sys/pipe_seq''" by code_simp
  then obtain v k1 where v: "k_reg_get ''/sys/pipe_seq'' k = Inr (v, k1)" "kernel_ok (v # R) k1" using get_runs [OF assms] by metis
  obtain k2 where k2: "k_val_free v k1 = Inr k2" "kernel_ok R k2" using free_keeps [OF v(2)] by blast
  show ?thesis using v(1) k2(1) queue_keeps [OF k2(2) pipe_path_good] by (simp add: sys_pipe_def Let_def)
qed

text \<open>What \<open>remove\<close> needs of its path: not the root, and not more keys below it than its stack can hold.\<close>

definition removable :: "string \<Rightarrow> kernel \<Rightarrow> bool" where
  "removable path k \<longleftrightarrow> reg_lookup (r_root (k_reg k)) path = None \<or>
     path_segs path \<noteq> [] \<and> nkeys (r_root (k_reg k)) < 2 ^ 64 \<and>
     (\<forall>x. node_at (r_root (k_reg k)) (path_segs path) = Some x \<longrightarrow> nkeys x \<le> STACK_MAX)"

lemma reg_lookup_absolute: "reg_lookup root path = Some p \<Longrightarrow> path \<noteq> [] \<and> hd path = CHR ''/''"
  by (auto simp: reg_lookup_def split: if_splits)

lemma remove_call:
  assumes "kernel_ok R k" and "is_admin pid k \<longrightarrow> removable (m_arg0 m) k"
  shows "gives R {TYPE_INT, TYPE_ERR} (sys_remove m pid k)"
  unfolding sys_remove_def
proof (rule admin_only_runs [OF assms(1)])
  fix k' assume k': "kernel_ok R k'" "heap_only k k'" and adm: "is_admin pid k"
  let ?p = "m_arg0 m"
  have root: "r_root (k_reg k') = r_root (k_reg k)" by (rule heap_only_root [OF k'(2)])
  have "\<exists>rc r. reg_delete (k_reg k') ?p = Inr (rc, r) \<and> reg_ok r R"
  proof (cases "reg_lookup (r_root (k_reg k')) ?p")
    case None
    then show ?thesis using kernel_reg [OF k'(1)] by (simp add: reg_delete_def)
  next
    case (Some q)
    then have p: "?p \<noteq> []" "hd ?p = CHR ''/''" using reg_lookup_absolute by blast+
    then obtain x where x: "node_at (r_root (k_reg k')) (path_segs ?p) = Some x" using Some by (auto simp: reg_lookup_node_at)
    have "path_segs ?p \<noteq> []" "nkeys x \<le> STACK_MAX" "nkeys (r_root (k_reg k')) < 2 ^ 64"
      using assms(2) adm Some x unfolding root removable_def by auto
    from reg_delete_ok [OF kernel_reg [OF k'(1)] p this(1) x this(2,3)] show ?thesis by blast
  qed
  then show "gives R {TYPE_INT, TYPE_ERR} (bind_res (reg_delete (k_reg k') ?p) (\<lambda>(rc, r). Inr (val_int 0, k_put_reg r k')))"
    using put_reg_ok [OF k'(1)] by auto
qed simp

text \<open>An administrator that removes the root frees it: the registry is gone.\<close>

lemma remove_root_frees:
  assumes "kernel_ok R k" and "is_admin pid k" and "reg_lookup (r_root (k_reg k)) (m_arg0 m) = Some []"
  shows "sys_remove m pid k = Inl UseAfterFree"
proof -
  obtain k' where k': "caller_has_admin pid k = Inr (is_admin pid k, k')" "heap_only k k'" using admin_check [OF assms(1)] .
  then have "reg_delete (k_reg k') (m_arg0 m) = Inl UseAfterFree"
    using assms(3) heap_only_root [OF k'(2)] by (simp add: reg_delete_def)
  then show ?thesis using k'(1) assms(2) by (simp add: sys_remove_def admin_only_def)
qed

subsection \<open>Every message is answered\<close>

definition msg_ok :: "kernel_msg \<Rightarrow> kernel \<Rightarrow> bool" where
  "msg_ok m k \<longleftrightarrow> m_verb m \<noteq> ''exec'' \<and>
     (is_admin (m_sender_pid m) k \<longrightarrow>
        (m_verb m = ''bind'' \<longrightarrow> good_path (m_arg0 m)) \<and> (m_verb m = ''remove'' \<longrightarrow> removable (m_arg0 m) k))"

lemma handle_ok:
  assumes "kernel_ok R k" and "msg_ok m k"
  shows "gives R (if m_sender_pid m = 0 then {TYPE_ERR} else reply_types (m_verb m)) (kmsg_handle fuel files m k)"
proof (cases "m_sender_pid m = 0")
  case False
  note calls = file_calls [OF assms(1), of m "m_sender_pid m"] admin_calls(1,2) [OF assms(1), of m "m_sender_pid m"] admin_calls(3) [OF assms(1), of "m_sender_pid m" m]
    process_calls [OF assms(1), of m "m_sender_pid m"] exit_call [OF assms(1), of m "m_sender_pid m"]
    fork_call [OF assms(1), of m "m_sender_pid m"] pipe_call [OF assms(1), of m "m_sender_pid m"]
    remove_call [OF assms(1), of "m_sender_pid m" m]
  show ?thesis
  proof (cases "map_of (s_table fuel files) (m_verb m)")
    case None
    then have "m_verb m \<notin> fst ` set (s_table fuel files)" by (simp add: map_of_eq_None_iff)
    then show ?thesis using False None assms(1) by (simp add: kmsg_handle_def reply_types_def s_table_def)
  next
    case (Some fn)
    then have "(m_verb m, fn) \<in> set (s_table fuel files)" by (rule map_of_SomeD)
    then have "gives R (reply_types (m_verb m)) (fn m (m_sender_pid m) k)"
      using assms(2) unfolding s_table_def list.set
      by (elim insertE Pair_inject emptyE; simp add: calls [simplified] reply_types_def msg_ok_def sys_fstat_def)
    then show ?thesis using False Some by (simp add: kmsg_handle_def)
  qed
qed (use assms in \<open>simp add: kmsg_handle_def\<close>)


text \<open>A message of a process without the right to administer: the four guarded calls change nothing.\<close>

lemma guard_ok:
  assumes "kernel_ok R k" and "\<not> is_admin (m_sender_pid m) k" and "m_verb m \<in> {''mkdir'', ''mount'', ''bind'', ''remove''}" and "m_sender_pid m \<noteq> 0"
  shows "\<exists>h. kmsg_handle fuel files m k = Inr (err_eperm, k_put_reg ((k_reg k)\<lparr>r_heap := h\<rparr>) k) \<and>
    kernel_ok R (k_put_reg ((k_reg k)\<lparr>r_heap := h\<rparr>) k)"
proof -
  have "\<exists>f. kmsg_handle fuel files m k = admin_only (m_sender_pid m) f k"
    using assms(3) by (elim insertE emptyE; simp add: kmsg_handle_def assms(4) s_table_def sys_mkdir_def sys_mount_def sys_bind_def sys_remove_def; blast)
  then show ?thesis using admin_refused [OF assms(1,2)] unfolding heap_only_def by metis
qed


subsection \<open>Messages as text\<close>

definition msg_clean :: "kernel_msg \<Rightarrow> bool" where
  "msg_clean m \<longleftrightarrow> (\<forall>s \<in> {m_verb m, m_arg0 m, m_arg1 m}. s \<noteq> [] \<and> CHR '':'' \<notin> set s) \<and>
     length (m_verb m) < 32 \<and> length (m_arg0 m) < 256 \<and> length (m_arg1 m) < 256"

lemma strtok_field:
  assumes "s \<noteq> []" and "CHR '':'' \<notin> set s"
  shows "strtok_colon (s @ CHR '':'' # rest) = Some (s, rest)" and "strtok_colon s = Some (s, [])"
proof -
  have t: "takeWhile (\<lambda>c. c \<noteq> CHR '':'') (s @ CHR '':'' # rest) = s" "dropWhile (\<lambda>c. c \<noteq> CHR '':'') (s @ CHR '':'' # rest) = CHR '':'' # rest"
    "takeWhile (\<lambda>c. c \<noteq> CHR '':'') s = s" "dropWhile (\<lambda>c. c \<noteq> CHR '':'') s = []"
    using assms(2) by (induction s) auto
  have d: "dropWhile (\<lambda>c. c = CHR '':'') (s @ x) = s @ x" for x using assms by (cases s) auto
  have d0: "dropWhile (\<lambda>c. c = CHR '':'') s = s" using d [of "[]"] by simp
  show "strtok_colon (s @ CHR '':'' # rest) = Some (s, rest)" using assms(1) by (simp only: strtok_colon_def Let_def d t) simp
  show "strtok_colon s = Some (s, [])" using assms(1) by (simp only: strtok_colon_def Let_def d0 t) simp
qed

lemma digits_plain: "CHR '':'' \<notin> set (show_int i)" "show_int i \<noteq> []"
  using show_nat_digits [of "nat i"] show_nat_digits [of "nat (- i)"] by (auto simp: show_int_def isdigit_def dest: bspec)

lemma atoll_show: "atoll (show_int i) = of_int (clamp64 i)"
proof -
  have d: "show_nat n \<noteq> []" "\<forall>c \<in> set (show_nat n). isdigit c" "digits_val (show_nat n) = int n" for n using show_nat_digits by auto
  show ?thesis using atoll_digits [OF d(1,2)] d(3) by (simp add: show_int_def)
qed

lemma pid_cast: "(ucast (ucast (p :: u32) :: u64) :: u32) = p"
  by (auto intro!: bit_eqI simp: bit_simps dest: bit_imp_le_length)

lemma decode_encode: "msg_clean m \<Longrightarrow> kmsg_decode (kmsg_encode m) = Some m"
proof -
  assume m: "msg_clean m"
  let ?n = "show_int (sint (m_n m))" and ?p = "show_int (uint (m_sender_pid m))"
  let ?t = "m_verb m @ CHR '':'' # m_arg0 m @ CHR '':'' # m_arg1 m @ CHR '':'' # ?n @ CHR '':'' # ?p"
  have len: "length ?n \<le> 21" "length ?p \<le> 10" using sint_digits(1) digits_length [of 10, where 'a = 32] by simp_all
  then have t: "trunc 640 ?t = ?t" using m by (auto simp: trunc_def msg_clean_def)
  have tok: "strtok_colon ?t = Some (m_verb m, m_arg0 m @ CHR '':'' # m_arg1 m @ CHR '':'' # ?n @ CHR '':'' # ?p)"
    "strtok_colon (m_arg0 m @ CHR '':'' # m_arg1 m @ CHR '':'' # ?n @ CHR '':'' # ?p) = Some (m_arg0 m, m_arg1 m @ CHR '':'' # ?n @ CHR '':'' # ?p)"
    "strtok_colon (m_arg1 m @ CHR '':'' # ?n @ CHR '':'' # ?p) = Some (m_arg1 m, ?n @ CHR '':'' # ?p)"
    using m by (auto simp: msg_clean_def intro: strtok_field)
  have tok2: "strtok_colon (?n @ CHR '':'' # ?p) = Some (?n, ?p)" "strtok_colon ?p = Some (?p, [])"
    using digits_plain by (auto intro: strtok_field)
  have f: "trunc 32 (m_verb m) = m_verb m" "trunc 256 (m_arg0 m) = m_arg0 m" "trunc 256 (m_arg1 m) = m_arg1 m"
    using m by (simp_all add: msg_clean_def trunc_def)
  have "clamp64 (sint (m_n m)) = sint (m_n m)" using sint_u64_range [of "m_n m"] by (simp add: clamp64_def)
  then have n: "atoll ?n = m_n m" by (simp add: atoll_show)
  have small: "clamp64 i = i" if "0 \<le> i" "i < 2 ^ 32" for i using that by (simp add: clamp64_def)
  have "clamp64 (uint (m_sender_pid m)) = uint (m_sender_pid m)"
    by (rule small) (use uint_lt2p [of "m_sender_pid m"] in simp_all)
  then have pid: "of_int (atoi ?p) = m_sender_pid m" by (simp add: atoi_def atoll_show pid_cast)
  have "kmsg_encode m = val_str ?t" using t by (simp add: kmsg_encode_def)
  moreover have "data_str (val_str ?t) = Some ?t" by (simp add: data_str_def val_str_def)
  ultimately show ?thesis using t tok tok2 f n pid by (simp add: kmsg_decode_def)
qed

subsection \<open>Properties\<close>

lemma sched_add_frame: "s_ipc (sched_add a st) = s_ipc st" "s_current (sched_add a st) = s_current st"
  by (simp_all add: sched_add_def link_tail_def upd_proc_def Let_def split: option.split)

definition demo_kernel :: kernel where
  "demo_kernel = k_put_reg boot_reg \<lparr>k_sched = sched_demo, k_vfs = boot_vfs, k_nexs = nexs_zero\<rparr>"

lemma demo_kernel_ok: "kernel_ok [] demo_kernel"
proof -
  have "reg_ok boot_reg []" unfolding boot_reg_def by (rule reg_base_ok) (simp add: blank_def heap_ok_empty)
  moreover have "reg_ok (i_reg (s_ipc sched_demo)) []"
    using reg_init_blank by (simp only: sched_demo_def sched_add_frame) (simp add: sched_zero_def)
  moreover have "p_reg_path (new_proc n nm e x) \<in> proc_paths" for n nm e x by (auto simp: new_proc_def proc_paths_def)
  then have "set (reg_paths sched_demo) \<subseteq> proc_paths"
    by (simp only: sched_demo_def reg_paths_add) (simp add: sched_zero_def reg_paths_def)
  moreover have "s_current sched_demo = None" by (simp only: sched_demo_def sched_add_frame) (simp add: sched_zero_def)
  moreover have fds: "length (v_fds boot_vfs) = VFS_MAX_FD" using boot_ok by (simp add: vfs_rel_def fds_rel_def)
  ultimately have "kernel_ok [] \<lparr>k_sched = sched_demo, k_vfs = boot_vfs, k_nexs = nexs_zero\<rparr>"
    using sched_demo_ok fds unfolding kernel_ok_def sched_sound_def by auto
  then show ?thesis unfolding demo_kernel_def by (rule put_reg_ok) fact
qed

text \<open>C10: A message is answered with a value of the type of its call. On a well-formed kernel (the registry and its
  heap, the run queues, the paths of the processes, the descriptor table), a message that \<open>msg_ok\<close> allows is handled
  without a fault, the answer has the type the verb promises (an error for sender 0 and for an unknown verb), and the
  kernel is well formed again. Left out are \<open>exec\<close>, which runs a program; and, from an administrator only, \<open>bind\<close> to a
  path that is not absolute, has 512 characters or a name of 64, and \<open>remove\<close> of the root, which frees it
  (\<open>remove_root_frees\<close>), or of a subtree of more than 1024 keys, which the stack of the release cannot hold.\<close>

theorem kmsg_handle_typed:
  assumes "kernel_ok R k" and "msg_ok m k"
  shows "\<exists>v k'. kmsg_handle fuel files m k = Inr (v, k') \<and> kernel_ok R k' \<and>
    vtype v \<in> (if m_sender_pid m = 0 then {TYPE_ERR} else reply_types (m_verb m))"
  using handle_ok [OF assms, of fuel files] by (auto simp: runs_def)

theorem kmsg_handle_typed_witness:
  "\<exists>v k'. kmsg_handle 0 (\<lambda>f. Inl ''none'') \<lparr>m_verb = ''fork'', m_arg0 = ''x'', m_arg1 = ''x'', m_n = 0, m_sender_pid = 2\<rparr> demo_kernel =
     Inr (v, k') \<and> kernel_ok [] k' \<and> vtype v = TYPE_INT"
  using kmsg_handle_typed [OF demo_kernel_ok, of "\<lparr>m_verb = ''fork'', m_arg0 = ''x'', m_arg1 = ''x'', m_n = 0, m_sender_pid = 2\<rparr>"
    0 "\<lambda>f. Inl ''none''"] by (simp add: msg_ok_def reply_types_def)

text \<open>C11: The ring check. A process without the administrator bit in its capabilities gets \<open>EPERM\<close> from
  \<open>mkdir\<close>, \<open>mount\<close>, \<open>bind\<close> and \<open>remove\<close>, and the call changes nothing: not the files, not the run queues, not a
  key of the registry; only the heap, where the capabilities were cloned and released.\<close>

theorem kmsg_admin_guard:
  assumes "kernel_ok R k" and "\<not> is_admin (m_sender_pid m) k" and "m_verb m \<in> {''mkdir'', ''mount'', ''bind'', ''remove''}" and "m_sender_pid m \<noteq> 0"
  shows "\<exists>h. kmsg_handle fuel files m k = Inr (err_eperm, k_put_reg ((k_reg k)\<lparr>r_heap := h\<rparr>) k) \<and>
    kernel_ok R (k_put_reg ((k_reg k)\<lparr>r_heap := h\<rparr>) k)"
  by (rule guard_ok [OF assms])

theorem kmsg_admin_guard_witness:
  "\<exists>k'. kmsg_handle 0 (\<lambda>f. Inl ''none'') \<lparr>m_verb = ''remove'', m_arg0 = ''/sys'', m_arg1 = ''x'', m_n = 0, m_sender_pid = 2\<rparr> demo_kernel =
     Inr (err_eperm, k')"
proof -
  have "\<not> is_admin 2 demo_kernel" by (simp add: is_admin_def caps_of_def demo_kernel_def boot_reg_def info_Cons regkey_alloc_def)
  then show ?thesis
    using kmsg_admin_guard [OF demo_kernel_ok, of "\<lparr>m_verb = ''remove'', m_arg0 = ''/sys'', m_arg1 = ''x'', m_n = 0, m_sender_pid = 2\<rparr>"
      0 "\<lambda>f. Inl ''none''"] by auto
qed

text \<open>C37: A message survives its text: when the verb and both arguments are not empty, have no colon and fit
  their buffers, decoding the encoded message gives it back, whatever the number and the sender.\<close>

theorem kmsg_roundtrip:
  assumes "msg_clean m"
  shows "kmsg_decode (kmsg_encode m) = Some m"
  by (rule decode_encode [OF assms])

theorem kmsg_roundtrip_witness:
  "kmsg_decode (kmsg_encode \<lparr>m_verb = ''open'', m_arg0 = ''/a'', m_arg1 = ''x'', m_n = -1, m_sender_pid = 7\<rparr>) =
     Some \<lparr>m_verb = ''open'', m_arg0 = ''/a'', m_arg1 = ''x'', m_n = -1, m_sender_pid = 7\<rparr>"
  by (rule kmsg_roundtrip) (simp add: msg_clean_def)

text \<open>An empty argument is lost, and so is the message: \<^verbatim>\<open>strtok\<close> skips empty fields.\<close>

lemma empty_argument_lost:
  "kmsg_decode (kmsg_encode \<lparr>m_verb = ''getpid'', m_arg0 = [], m_arg1 = ''x'', m_n = 0, m_sender_pid = 7\<rparr>) = None"
  by (simp add: kmsg_encode_def kmsg_decode_def trunc_def strtok_colon_def data_str_def val_str_def show_int_def show_nat.simps)

end
