(* ===== verification/Regfs.thy ===== *)
theory Regfs
  imports RegIpc
begin

section \<open>The registry on disk (\<^verbatim>\<open>fs/regfs.c\<close>)\<close>

unbundle bit_operations_syntax

text \<open>
  A file is the list of its bytes. The machine is little-endian, so that \<^verbatim>\<open>fwrite\<close> of a number writes
  what \<open>le_write\<close> writes. Whether \<^verbatim>\<open>fopen\<close> succeeds is an argument; the code does not look at the
  results of \<^verbatim>\<open>fwrite\<close>.
\<close>

abbreviation (input) REGFS_PATH_MAX :: nat where "REGFS_PATH_MAX \<equiv> 256"
abbreviation (input) REGFS_DATA_MAX :: nat where "REGFS_DATA_MAX \<equiv> 4096"
abbreviation (input) REGFS_MAGIC :: string where "REGFS_MAGIC \<equiv> ''NEXSREG1''"
abbreviation (input) REGFS_VERSION :: u32 where "REGFS_VERSION \<equiv> 1"

subsection \<open>The checksum\<close>

definition crc32_byte :: "u32 \<Rightarrow> u8 \<Rightarrow> u32" where
  "crc32_byte crc b =
     ((\<lambda>c. drop_bit 1 c XOR (if c AND 1 \<noteq> 0 then 0xEDB88320 else 0)) ^^ 8) (crc XOR ucast b)"

definition crc32_bytes :: "u8 list \<Rightarrow> u32 \<Rightarrow> u32" where
  "crc32_bytes bs crc = foldl crc32_byte crc bs"

subsection \<open>Saving\<close>

text \<open>The header: magic, version, number of keys, 8 reserved bytes, checksum, padding.\<close>

record regfs_header =
  h_magic :: "u8 list"
  h_version :: u32
  h_n_keys :: u32
  h_crc32 :: u32

definition header_bytes :: "regfs_header \<Rightarrow> u8 list" where
  "header_bytes h =
     h_magic h @ le_write32 (h_version h) @ le_write32 (h_n_keys h) @ le_write64 0 @ le_write32 (h_crc32 h) @ le_write32 0"

record save_ctx =
  sc_count :: nat
  sc_out :: "u8 list"
  sc_crc :: u32

definition pad_to :: "nat \<Rightarrow> u8 list \<Rightarrow> u8 list" where
  "pad_to n bs = bs @ replicate (n - length bs) 0"

text \<open>The data of a value: 8 bytes of a number, the text of a string, nothing for the rest.\<close>

definition save_data :: "val \<Rightarrow> u8 list" where
  "save_data v =
     (if vtype v = TYPE_INT then le_write64 (ival v)
      else if vtype v = TYPE_FLOAT then le_write64 (fval v)
      else if vtype v = TYPE_STR \<or> vtype v = TYPE_ERR then
        (case data_str v of None \<Rightarrow> [] | Some s \<Rightarrow> bytes_of (trunc REGFS_DATA_MAX s))
      else [])"

definition record_bytes :: "regnode \<Rightarrow> u8 list" where
  "record_bytes nd =
     pad_to REGFS_PATH_MAX (bytes_of (trunc REGFS_PATH_MAX (k_path nd))) @ [vtype_code (vtype (k_val nd))] @ [k_rights nd] @
     le_write32 (of_nat (length (save_data (k_val nd)))) @ save_data (k_val nd)"

fun save_key :: "regkey \<Rightarrow> save_ctx \<Rightarrow> save_ctx"
  and save_keys :: "regkey list \<Rightarrow> save_ctx \<Rightarrow> save_ctx" where
  "save_key (RegKey nd cs) ctx =
     save_keys cs (ctx\<lparr>sc_count := sc_count ctx + 1, sc_out := sc_out ctx @ record_bytes nd,
       sc_crc := crc32_bytes (record_bytes nd) (sc_crc ctx)\<rparr>)"
| "save_keys [] ctx = ctx"
| "save_keys (c # cs) ctx = save_keys cs (save_key c ctx)"

text \<open>The header is written first without the count and the checksum, and again when they are known.\<close>

definition regfs_save :: "rstate \<Rightarrow> string \<Rightarrow> bool \<Rightarrow> int \<times> u8 list option" where
  "regfs_save st reg_path opened =
     (case reg_key (r_root st) reg_path of
        None \<Rightarrow> (-1, None)
      | Some root \<Rightarrow>
          if \<not> opened then (-1, None)
          else
            let hdr = \<lparr>h_magic = bytes_of REGFS_MAGIC, h_version = REGFS_VERSION, h_n_keys = 0, h_crc32 = 0\<rparr>;
                ctx = save_key root \<lparr>sc_count = 0, sc_out = header_bytes hdr, sc_crc = 0xFFFFFFFF\<rparr>;
                hdr = hdr\<lparr>h_n_keys := of_nat (sc_count ctx), h_crc32 := sc_crc ctx XOR 0xFFFFFFFF\<rparr> in
            (0, Some (header_bytes hdr @ drop (length (header_bytes hdr)) (sc_out ctx))))"

subsection \<open>Loading\<close>

text \<open>\<^verbatim>\<open>fread\<close> of \<open>n\<close> bytes: \<open>None\<close> when there are not as many.\<close>

definition fread :: "nat \<Rightarrow> u8 list \<Rightarrow> (u8 list \<times> u8 list) option" where
  "fread n bs = (if length bs < n then None else Some (take n bs, drop n bs))"

definition read_header :: "u8 list \<Rightarrow> (regfs_header \<times> u8 list) option" where
  "read_header bs =
     (case fread 32 bs of
        None \<Rightarrow> None
      | Some (h, rest) \<Rightarrow>
          Some (\<lparr>h_magic = take 8 h, h_version = le_read32 (take 4 (drop 8 h)), h_n_keys = le_read32 (take 4 (drop 12 h)),
            h_crc32 = le_read32 (take 4 (drop 24 h))\<rparr>, rest))"

text \<open>
  One record: \<open>None\<close> where the loop ends because the file does, and no data where the length is out of
  range and the data is skipped.
\<close>

definition read_record :: "u8 list \<Rightarrow> ((u8 list \<times> u8 \<times> u8 \<times> u8 list option) \<times> u8 list) option" where
  "read_record bs =
     (case fread REGFS_PATH_MAX bs of None \<Rightarrow> None | Some (path_buf, bs) \<Rightarrow>
      case fread 1 bs of None \<Rightarrow> None | Some (ty, bs) \<Rightarrow>
      case fread 1 bs of None \<Rightarrow> None | Some (rights, bs) \<Rightarrow>
      case fread 4 bs of None \<Rightarrow> None | Some (len, bs) \<Rightarrow>
      let data_len = unat (le_read32 len) in
      if REGFS_DATA_MAX \<le> data_len then Some ((path_buf, hd ty, hd rights, None), drop data_len bs)
      else case fread data_len bs of None \<Rightarrow> None | Some (buf, bs) \<Rightarrow>
        Some ((path_buf, hd ty, hd rights, Some buf), bs))"

definition target_path :: "string option \<Rightarrow> u8 list \<Rightarrow> string res" where
  "target_path mount_at path_buf =
     (let m = or_empty mount_at in
      if m = [] then (if 0 \<notin> set path_buf then Inl OutOfBounds else Inr (c_str (string_of path_buf)))
      else let rest = drop (length m) path_buf in
        if 0 \<notin> set rest then Inl OutOfBounds else Inr (trunc REG_PATH_MAX (m @ c_str (string_of rest))))"

definition load_value :: "u8 \<Rightarrow> u8 list \<Rightarrow> val" where
  "load_value ty buf =
     (let n = le_read64 (take 8 (pad_to 8 buf)) in
      if vtype_of ty = Some TYPE_INT then val_int n
      else if vtype_of ty = Some TYPE_FLOAT then val_float n
      else if vtype_of ty = Some TYPE_STR \<or> vtype_of ty = Some TYPE_ERR then val_str (c_str (string_of buf))
      else val_nil)"

fun load_loop :: "nat \<Rightarrow> string option \<Rightarrow> u8 list \<Rightarrow> rstate \<Rightarrow> rstate res" where
  "load_loop 0 mount_at bs st = Inr st"
| "load_loop (Suc n) mount_at bs st =
     (case read_record bs of
        None \<Rightarrow> Inr st
      | Some ((path_buf, ty, rights, None), rest) \<Rightarrow> load_loop n mount_at rest st
      | Some ((path_buf, ty, rights, Some buf), rest) \<Rightarrow>
          bind_res (target_path mount_at path_buf) (\<lambda>target.
          let v = load_value ty buf in
          bind_res (reg_set st target v rights) (\<lambda>(rc, st1).
          bind_res (val_free (r_heap st1) v) (\<lambda>h.
            load_loop n mount_at rest (st1\<lparr>r_heap := h\<rparr>)))))"

definition regfs_load :: "u8 list option \<Rightarrow> string option \<Rightarrow> rstate \<Rightarrow> (int \<times> rstate) res" where
  "regfs_load file mount_at st =
     (case file of
        None \<Rightarrow> Inr (-1, st)
      | Some bs \<Rightarrow>
          case read_header bs of
            None \<Rightarrow> Inr (-1, st)
          | Some (hdr, rest) \<Rightarrow>
              if h_magic hdr \<noteq> bytes_of REGFS_MAGIC \<or> h_version hdr \<noteq> REGFS_VERSION then Inr (-1, st)
              else bind_res (load_loop (unat (h_n_keys hdr)) mount_at rest st) (\<lambda>st1. Inr (0, st1)))"

definition regfs_sync :: "rstate \<Rightarrow> string \<Rightarrow> bool \<Rightarrow> int \<times> u8 list option" where
  "regfs_sync st reg_path opened = regfs_save st reg_path opened"

definition regfs_watch :: "string \<Rightarrow> string \<Rightarrow> rstate \<Rightarrow> rstate res" where
  "regfs_watch reg_path notify_ipc_path st =
     (let p = (if take 1 reg_path = ''/'' then drop 1 reg_path else reg_path) in
      bind_res (reg_set st (trunc REG_PATH_MAX (''/sys/regfs/watch/'' @ p @ ''/notify'')) (val_str notify_ipc_path) 3)
        (\<lambda>(rc, st1). Inr st1))"

end
