(* ===== verification/Regfs_Facts.thy ===== *)
theory Regfs_Facts
  imports Regfs Registry_Facts RegIpc_Facts
begin

section \<open>What is saved is what is loaded\<close>

subsection \<open>The keys of a subtree, in the order of the file\<close>

fun key_list :: "string list \<Rightarrow> regkey \<Rightarrow> (string list \<times> regnode) list"
  and keys_list :: "string list \<Rightarrow> regkey list \<Rightarrow> (string list \<times> regnode) list" where
  "key_list pre (RegKey nd cs) = (pre, nd) # keys_list pre cs"
| "keys_list pre [] = []"
| "keys_list pre (c # cs) = key_list (pre @ [key_name c]) c @ keys_list pre cs"

lemma key_list_node: "key_list pre k = (pre, node k) # keys_list pre (children k)"
  by (cases k) simp

lemma length_key_list: "length (key_list pre k) = nkeys k" "length (keys_list pre cs) = nkeys_list cs"
  by (induction pre k and pre cs rule: key_list_keys_list.induct) auto

definition put_records :: "(string list \<times> regnode) list \<Rightarrow> save_ctx \<Rightarrow> save_ctx" where
  "put_records l ctx = ctx\<lparr>sc_count := sc_count ctx + length l, sc_out := sc_out ctx @ concat (List.map (record_bytes \<circ> snd) l),
     sc_crc := foldl (\<lambda>c x. crc32_bytes (record_bytes (snd x)) c) (sc_crc ctx) l\<rparr>"

lemma put_records_append: "put_records (l @ m) ctx = put_records m (put_records l ctx)"
  by (simp add: put_records_def)

lemma save_key_put: "save_key k ctx = put_records (key_list pre k) ctx" "save_keys cs ctx = put_records (keys_list pre cs) ctx"
proof (induction k ctx and cs ctx arbitrary: pre and pre rule: save_key_save_keys.induct)
  case (3 c cs ctx)
  then show ?case by (simp add: put_records_append)
qed (simp_all add: put_records_def)

lemma prefix_append: "is_prefix p q \<longleftrightarrow> (\<exists>r. q = p @ r)"
  unfolding is_prefix_def by (metis append_eq_conv_conj append_take_drop_id)

lemma key_list_prefix: "(q, nd) \<in> set (key_list pre k) \<Longrightarrow> is_prefix pre q"
  "(q, nd) \<in> set (keys_list pre cs) \<Longrightarrow> \<exists>c \<in> set cs. is_prefix (pre @ [key_name c]) q"
  by (induction pre k and pre cs rule: key_list_keys_list.induct) (auto simp: prefix_append)

lemma key_list_distinct: "wf_key pre k \<Longrightarrow> distinct (List.map fst (key_list pre k))"
  "wf_keys pre cs \<Longrightarrow> distinct (List.map key_name cs) \<Longrightarrow> distinct (List.map fst (keys_list pre cs))"
proof (induction pre k and pre cs rule: key_list_keys_list.induct)
  case (1 pre nd cs)
  have "pre \<notin> fst ` set (keys_list pre cs)"
  proof
    assume "pre \<in> fst ` set (keys_list pre cs)"
    then obtain nd' where "(pre, nd') \<in> set (keys_list pre cs)" by auto
    from key_list_prefix(2) [OF this] show False by (auto simp: prefix_append)
  qed
  then show ?case using 1 by simp
next
  case (3 pre c cs)
  have "fst ` set (key_list (pre @ [key_name c]) c) \<inter> fst ` set (keys_list pre cs) = {}"
  proof (rule equals0I)
    fix q assume "q \<in> fst ` set (key_list (pre @ [key_name c]) c) \<inter> fst ` set (keys_list pre cs)"
    then obtain a b where q: "(q, a) \<in> set (key_list (pre @ [key_name c]) c)" "(q, b) \<in> set (keys_list pre cs)" by auto
    obtain d where d: "d \<in> set cs" "is_prefix (pre @ [key_name d]) q" using key_list_prefix(2) [OF q(2)] by blast
    have "key_name c = key_name d" using key_list_prefix(1) [OF q(1)] d(2) by (auto simp: prefix_append)
    then show False using 3(4) d(1) by force
  qed
  then show ?case using 3 by simp
qed simp

lemma key_list_info: "wf_key pre k \<Longrightarrow> info k ss = Some nd \<Longrightarrow> (pre @ ss, nd) \<in> set (key_list pre k)"
proof (induction ss arbitrary: pre k)
  case Nil
  then show ?case by (simp add: key_list_node)
next
  case (Cons s ss)
  then obtain c where c: "regkey_find_child (children k) s = Some c" "info c ss = Some nd" by (auto simp: info_Cons split: option.splits)
  then have n: "c \<in> set (children k)" "key_name c = s" using find_child_name by auto
  have "wf_key (pre @ [s]) c" using Cons.prems(1) c(1) wf_keys_find by (auto simp: wf_key_node)
  from Cons.IH [OF this c(2)] have "(pre @ s # ss, nd) \<in> set (key_list (pre @ [s]) c)" by simp
  moreover have "set (key_list (pre @ [key_name c]) c) \<subseteq> set (keys_list pre cs)" if "c \<in> set cs" for cs
    using that by (induction cs) auto
  ultimately show ?case using n by (auto simp: key_list_node)
qed

lemma key_list_wf: "wf_key pre k \<Longrightarrow> (q, nd) \<in> set (key_list pre k) \<Longrightarrow> k_path nd = path_of q"
  "wf_keys pre cs \<Longrightarrow> (q, nd) \<in> set (keys_list pre cs) \<Longrightarrow> k_path nd = path_of q"
  by (induction pre k and pre cs rule: key_list_keys_list.induct) auto

lemma key_list_names: "wf_key pre k \<Longrightarrow> (q, nd) \<in> set (key_list pre k) \<Longrightarrow> \<forall>s \<in> set pre. good_name s \<Longrightarrow> \<forall>s \<in> set q. good_name s"
  "wf_keys pre cs \<Longrightarrow> (q, nd) \<in> set (keys_list pre cs) \<Longrightarrow> \<forall>s \<in> set pre. good_name s \<Longrightarrow> \<forall>s \<in> set q. good_name s"
  by (induction pre k and pre cs rule: key_list_keys_list.induct) auto

subsection \<open>One record\<close>

text \<open>What a record can carry: a number, a text without a NUL that fits, or nothing.\<close>

definition savable_val :: "val \<Rightarrow> bool" where
  "savable_val v \<longleftrightarrow> v = val_nil \<or> v = val_int (ival v) \<or> v = val_float (fval v) \<or>
     (\<exists>s. v = val_str s \<and> CHR 0x00 \<notin> set s \<and> length s < REGFS_DATA_MAX)"

definition savable :: "regnode \<Rightarrow> bool" where
  "savable nd \<longleftrightarrow> savable_val (k_val nd) \<and> length (k_path nd) < REGFS_PATH_MAX \<and> CHR 0x00 \<notin> set (k_path nd)"

lemma length_save_data: "length (save_data v) < REGFS_DATA_MAX"
  by (auto simp: save_data_def le_write64_def bytes_of_def trunc_def split: option.split)

lemma fread_append: "length xs = n \<Longrightarrow> fread n (xs @ ys) = Some (xs, ys)"
  by (auto simp: fread_def)

lemma length_pad: "length bs \<le> n \<Longrightarrow> length (pad_to n bs) = n"
  by (simp add: pad_to_def)

lemma read_record_parts:
  assumes "length p = REGFS_PATH_MAX" and "length l = 4" and "length d = unat (le_read32 l)" and "length d < REGFS_DATA_MAX"
  shows "read_record (p @ ty # rights # l @ d @ rest) = Some ((p, ty, rights, Some d), rest)"
  using assms by (simp add: read_record_def fread_def Let_def)

lemma read_record_bytes:
  "read_record (record_bytes nd @ rest) =
     Some ((pad_to REGFS_PATH_MAX (bytes_of (trunc REGFS_PATH_MAX (k_path nd))), vtype_code (vtype (k_val nd)), k_rights nd,
       Some (save_data (k_val nd))), rest)"
proof -
  let ?p = "pad_to REGFS_PATH_MAX (bytes_of (trunc REGFS_PATH_MAX (k_path nd)))" and ?d = "save_data (k_val nd)"
  have p: "length ?p = REGFS_PATH_MAX" by (rule length_pad) (simp add: bytes_of_def trunc_def)
  have d: "length ?d < REGFS_DATA_MAX" by (rule length_save_data)
  have "length (le_write32 (of_nat (length ?d))) = 4" by (simp add: le_write32_def)
  moreover have "length ?d = unat (le_read32 (le_write32 (of_nat (length ?d))))"
    using d by (simp add: unsigned_of_nat take_bit_nat_def)
  ultimately show ?thesis using read_record_parts [OF p _ _ d] by (simp add: record_bytes_def)
qed

lemma load_save_data:
  assumes "savable_val v"
  shows "load_value (vtype_code (vtype v)) (save_data v) = v"
proof -
  have "length (le_write64 n) = 8" for n by (simp add: le_write64_def)
  then have n: "le_read64 (take 8 (pad_to 8 (le_write64 n))) = n" for n by (simp add: pad_to_def)
  from assms consider "v = val_nil" | m where "v = val_int m" | f where "v = val_float f"
    | s where "v = val_str s" "CHR 0x00 \<notin> set s" "length s < REGFS_DATA_MAX" unfolding savable_val_def by blast
  then show ?thesis
  proof cases
    case (4 s)
    then have "trunc REGFS_DATA_MAX s = s" by (simp add: trunc_def)
    then show ?thesis using 4 by (simp add: load_value_def save_data_def data_str_def val_str_def val_nil_def c_str_id)
  qed (simp_all add: load_value_def save_data_def val_nil_def val_int_def val_float_def n)
qed

lemma target_saved:
  assumes "length p < REGFS_PATH_MAX" and "CHR 0x00 \<notin> set p"
  shows "target_path None (pad_to REGFS_PATH_MAX (bytes_of (trunc REGFS_PATH_MAX p))) = Inr p"
proof -
  have t: "trunc REGFS_PATH_MAX p = p" using assms(1) by (simp add: trunc_def)
  have b: "pad_to REGFS_PATH_MAX (bytes_of p) = bytes_of p @ 0 # replicate (255 - length p) 0"
    using assms(1) by (simp add: pad_to_def bytes_of_def Suc_diff_le flip: replicate_Suc)
  have z: "char_of (0 :: nat) = CHR 0x00" by code_simp
  have "c_str (string_of (bytes_of p @ 0 # r)) = p" for r
    using assms(2) by (simp add: string_of_def c_str_def takeWhile_append bytes_of_def comp_def unat_of_char z)
  then show ?thesis by (simp add: target_path_def or_empty_def t b)
qed

subsection \<open>All records\<close>

text \<open>What a key holds: its value and its rights.\<close>

definition held :: "rstate \<Rightarrow> string list \<Rightarrow> (val \<times> u8) option" where
  "held st q = map_option (\<lambda>nd. (k_val nd, k_rights nd)) (info (r_root st) q)"

lemma reg_set_held:
  assumes "reg_ok st R" and "good_path path" and "ref_of v = None"
  shows "\<exists>st'. reg_set st path v rights = Inr (0, st') \<and> reg_ok st' R \<and>
    (\<forall>q. held st' q = (if q = path_segs path then Some (stored v, rights)
       else case held st q of Some x \<Rightarrow> Some x | None \<Rightarrow> if is_prefix q (path_segs path) then Some (val_nil, rights) else None))"
proof -
  let ?p = "path_segs path"
  obtain st1 where st1: "lookup_or_make st path rights = (Some ?p, st1)" "reg_ok st1 R"
    "\<And>q. info (r_root st1) q = (case info (r_root st) q of Some nd \<Rightarrow> Some nd
       | None \<Rightarrow> if is_prefix q ?p then Some (fresh_node q rights) else None)"
    using lookup_or_make_ok [OF assms(1,2)] by blast
  have "is_prefix ?p ?p" by (simp add: is_prefix_def)
  then obtain nd where nd: "info (r_root st1) ?p = Some nd" using st1(3) [of ?p] by (cases "info (r_root st) ?p") auto
  obtain st2 where st2: "set_key st1 ?p v rights = Inr st2" "reg_ok st2 R"
    "\<And>q. info (r_root st2) q = (if q = ?p then Some (nd\<lparr>k_val := stored v, k_rights := rights\<rparr>) else info (r_root st1) q)"
    using set_key_ok [OF st1(2) nd] assms(3) by (metis option.distinct(1))
  have "reg_set st path v rights = Inr (0, st2)" using st1(1) st2(1) by (simp add: reg_set_def)
  then show ?thesis using st2(2)
    by (intro exI [of _ st2]) (auto simp: held_def st2(3) st1(3) fresh_node_def split: option.split)
qed

lemma savable_plain: "savable_val v \<Longrightarrow> ref_of v = None \<and> stored v = v"
proof -
  assume "savable_val v"
  then consider "v = val_nil" | m where "v = val_int m" | f where "v = val_float f" | s where "v = val_str s"
    unfolding savable_val_def by blast
  then show ?thesis by cases (simp_all add: ref_of_def stored_def val_nil_def val_int_def val_float_def val_str_def)
qed

text \<open>The path of a saved key, read back, leads to the same key.\<close>

lemma saved_path:
  assumes "k_path nd = path_of q" and "\<forall>s \<in> set q. good_name s" and "savable nd"
  shows "good_path (k_path nd)" and "path_segs (k_path nd) = q"
proof -
  have len: "length (k_path nd) < REGFS_PATH_MAX" using assms(3) by (simp add: savable_def)
  have hd: "k_path nd \<noteq> []" "hd (k_path nd) = CHR ''/''" using assms(1) by (cases q; simp add: path_of_def)+
  show seg: "path_segs (k_path nd) = q" using path_segs_path_of [OF assms(2)] len assms(1) by simp
  show "good_path (k_path nd)" using len hd assms(2) unfolding good_path_def seg by (auto simp: good_name_def)
qed

lemma load_loop_ok:
  assumes "reg_ok st R" and "distinct (List.map fst l)"
    and "\<forall>(q, nd) \<in> set l. k_path nd = path_of q \<and> (\<forall>s \<in> set q. good_name s) \<and> savable nd"
  shows "\<exists>st'. load_loop (length l) None (concat (List.map (record_bytes \<circ> snd) l) @ rest) st = Inr st' \<and> reg_ok st' R \<and>
    (\<forall>(q, nd) \<in> set l. held st' q = Some (k_val nd, k_rights nd)) \<and>
    (\<forall>q. q \<notin> fst ` set l \<longrightarrow> held st q \<noteq> None \<longrightarrow> held st' q = held st q) \<and>
    (\<forall>q. held st' q \<noteq> None \<longrightarrow> held st q \<noteq> None \<or> (\<exists>r \<in> fst ` set l. is_prefix q r))"
  using assms
proof (induction l arbitrary: st)
  case (Cons x l)
  obtain q nd where x: "x = (q, nd)" by (cases x)
  then have nd: "k_path nd = path_of q" "\<forall>s \<in> set q. good_name s" "savable nd" using Cons.prems(3) by auto
  note path = saved_path [OF nd]
  have v: "savable_val (k_val nd)" and p: "length (k_path nd) < REGFS_PATH_MAX" "CHR 0x00 \<notin> set (k_path nd)"
    using nd(3) by (simp_all add: savable_def)
  note plain = conjunct1 [OF savable_plain [OF v]] conjunct2 [OF savable_plain [OF v]]
  obtain st1 where st1: "reg_set st (k_path nd) (k_val nd) (k_rights nd) = Inr (0, st1)" "reg_ok st1 R"
    "\<And>r. held st1 r = (if r = q then Some (k_val nd, k_rights nd)
       else case held st r of Some y \<Rightarrow> Some y | None \<Rightarrow> if is_prefix r q then Some (val_nil, k_rights nd) else None)"
    using reg_set_held [OF Cons.prems(1) path(1) plain(1)] unfolding plain(2) path(2) by blast
  have d: "distinct (List.map fst l)" and a: "\<forall>(q, nd) \<in> set l. k_path nd = path_of q \<and> (\<forall>s \<in> set q. good_name s) \<and> savable nd"
    using Cons.prems(2,3) by auto
  obtain st2 where st2: "load_loop (length l) None (concat (List.map (record_bytes \<circ> snd) l) @ rest) st1 = Inr st2" "reg_ok st2 R"
    "\<forall>(q, nd) \<in> set l. held st2 q = Some (k_val nd, k_rights nd)"
    "\<forall>r. r \<notin> fst ` set l \<longrightarrow> held st1 r \<noteq> None \<longrightarrow> held st2 r = held st1 r"
    "\<forall>r. held st2 r \<noteq> None \<longrightarrow> held st1 r \<noteq> None \<or> (\<exists>r' \<in> fst ` set l. is_prefix r r')"
    using Cons.IH [OF st1(2) d a] by blast
  have free: "val_free h (k_val nd) = Inr h" for h using plain(1) by (simp add: val_free_def free_vals.simps)
  have "q \<notin> fst ` set l" using Cons.prems(2) x by simp
  then have own: "held st2 q = Some (k_val nd, k_rights nd)" using st2(4) st1(3) [of q] by simp
  have keep: "held st2 r = held st r" if "r \<notin> fst ` set (x # l)" "held st r \<noteq> None" for r
    using that st2(4) st1(3) [of r] x by auto
  have old: "held st r \<noteq> None \<or> (\<exists>r' \<in> fst ` set (x # l). is_prefix r r')" if "held st2 r \<noteq> None" for r
  proof -
    have "is_prefix q q" by (simp add: is_prefix_def)
    then show ?thesis using st2(5) [rule_format, OF that] st1(3) [of r] x by (auto split: option.splits if_splits)
  qed
  show ?case
  proof (intro exI [of _ st2] conjI)
    show "load_loop (length (x # l)) None (concat (List.map (record_bytes \<circ> snd) (x # l)) @ rest) st = Inr st2"
      using st1(1) st2(1) free by (simp add: x read_record_bytes target_saved [OF p] load_save_data [OF v] Let_def)
    show "reg_ok st2 R" by (rule st2(2))
    show "\<forall>(q, nd) \<in> set (x # l). held st2 q = Some (k_val nd, k_rights nd)" using own st2(3) x by simp
    show "\<forall>q. q \<notin> fst ` set (x # l) \<longrightarrow> held st q \<noteq> None \<longrightarrow> held st2 q = held st q" using keep by blast
    show "\<forall>q. held st2 q \<noteq> None \<longrightarrow> held st q \<noteq> None \<or> (\<exists>r \<in> fst ` set (x # l). is_prefix q r)" using old by blast
  qed
qed simp

subsection \<open>The file\<close>

lemma length_header: "length (h_magic h) = 8 \<Longrightarrow> length (header_bytes h) = 32"
  by (simp add: header_bytes_def le_write32_def le_write64_def)

lemma read_header_bytes:
  assumes "length (h_magic h) = 8"
  shows "read_header (header_bytes h @ rest) = Some (h, rest)"
proof -
  have "fread 32 (header_bytes h @ rest) = Some (header_bytes h, rest)" by (rule fread_append) (rule length_header [OF assms])
  moreover have "length (le_write32 n) = 4" "length (le_write64 m) = 8" for n m by (simp_all add: le_write32_def le_write64_def)
  ultimately show ?thesis using assms by (simp add: read_header_def header_bytes_def)
qed

lemma save_file:
  assumes "reg_key (r_root st) p = Some x" and "nkeys x < 2 ^ 32"
  shows "\<exists>h. regfs_save st p True = (0, Some (header_bytes h @ concat (List.map (record_bytes \<circ> snd) (key_list pre x)))) \<and>
    h_magic h = bytes_of REGFS_MAGIC \<and> h_version h = REGFS_VERSION \<and> unat (h_n_keys h) = nkeys x"
proof -
  have m: "length (bytes_of REGFS_MAGIC) = 8" by (simp add: bytes_of_def)
  then have hl: "length (header_bytes \<lparr>h_magic = bytes_of REGFS_MAGIC, h_version = REGFS_VERSION, h_n_keys = n, h_crc32 = c\<rparr>) = 32" for n c
    by (intro length_header) simp
  have u: "unat (of_nat (nkeys x) :: u32) = nkeys x" using assms(2) by (simp add: unsigned_of_nat take_bit_nat_def)
  let ?h = "\<lparr>h_magic = bytes_of REGFS_MAGIC, h_version = REGFS_VERSION, h_n_keys = of_nat (nkeys x),
    h_crc32 = foldl (\<lambda>c x. crc32_bytes (record_bytes (snd x)) c) 0xFFFFFFFF (key_list pre x) XOR 0xFFFFFFFF\<rparr>"
  have "regfs_save st p True = (0, Some (header_bytes ?h @ concat (List.map (record_bytes \<circ> snd) (key_list pre x))))"
    using assms(1) by (simp add: regfs_save_def Let_def save_key_put(1) [of _ _ pre] put_records_def hl length_key_list)
  then show ?thesis using u by (intro exI [of _ ?h]) simp
qed

lemma key_list_below: "wf_key pre k \<Longrightarrow> (q, nd) \<in> set (key_list pre k) \<Longrightarrow> \<exists>ss. q = pre @ ss \<and> info k ss = Some nd"
  "wf_keys pre cs \<Longrightarrow> distinct (List.map key_name cs) \<Longrightarrow> (q, nd) \<in> set (keys_list pre cs) \<Longrightarrow>
   \<exists>s ss c. q = pre @ s # ss \<and> regkey_find_child cs s = Some c \<and> info c ss = Some nd"
proof (induction pre k and pre cs rule: key_list_keys_list.induct)
  case (1 pre nd' cs)
  show ?case
  proof (cases "(q, nd) = (pre, nd')")
    case False
    then obtain s ss c where "q = pre @ s # ss" "regkey_find_child cs s = Some c" "info c ss = Some nd" using 1 by auto
    then show ?thesis by (intro exI [of _ "s # ss"]) (simp add: info_Cons)
  qed simp
next
  case (3 pre c cs)
  show ?case
  proof (cases "(q, nd) \<in> set (key_list (pre @ [key_name c]) c)")
    case True
    then obtain ss where "q = (pre @ [key_name c]) @ ss" "info c ss = Some nd" using 3 by auto
    then show ?thesis by (intro exI [of _ "key_name c"] exI [of _ ss] exI [of _ c]) simp
  next
    case False
    then obtain s ss d where d: "q = pre @ s # ss" "regkey_find_child cs s = Some d" "info d ss = Some nd" using 3 by auto
    have "d \<in> set cs" "key_name d = s" using find_child_name [OF d(2)] by auto
    then have "key_name c \<noteq> s" using 3(4) by force
    then show ?thesis using d by auto
  qed
qed simp

lemma info_below: "node_at k p = Some x \<Longrightarrow> info k (p @ ss) = info x ss"
  by (induction p arbitrary: k) (auto simp: info_Cons split: option.splits)

lemma save_load:
  assumes "reg_ok st R" and "good_path p" and "node_at (r_root st) (path_segs p) = Some x" and "nkeys x < 2 ^ 32"
    and "\<And>q nd. is_prefix (path_segs p) q \<Longrightarrow> info (r_root st) q = Some nd \<Longrightarrow> savable nd"
    and "reg_ok st2 R2"
  shows "\<exists>file st3. regfs_save st p True = (0, Some file) \<and> regfs_load (Some file) None st2 = Inr (0, st3) \<and> reg_ok st3 R2 \<and>
    (\<forall>q y. is_prefix (path_segs p) q \<longrightarrow> held st q = Some y \<longrightarrow> held st3 q = Some y) \<and>
    (\<forall>q. \<not> (is_prefix (path_segs p) q \<and> held st q \<noteq> None) \<longrightarrow> held st2 q \<noteq> None \<longrightarrow> held st3 q = held st2 q) \<and>
    (\<forall>q. held st3 q \<noteq> None \<longrightarrow> held st2 q \<noteq> None \<or> (\<exists>r. is_prefix (path_segs p) r \<and> held st r \<noteq> None \<and> is_prefix q r))"
proof -
  let ?p = "path_segs p" and ?l = "key_list (path_segs p) x"
  have p: "p \<noteq> []" "hd p = CHR ''/''" using assms(2) by (simp_all add: good_path_def)
  have wf: "wf_key ?p x" using wf_key_node_at [OF _ assms(3), of "[]"] assms(1) by (simp add: reg_ok_def)
  have good: "\<forall>s \<in> set ?p. good_name s" using assms(2) segs_of_good unfolding good_path_def good_name_def path_segs_def by blast
  have mem: "(q, nd) \<in> set ?l \<longleftrightarrow> is_prefix ?p q \<and> info (r_root st) q = Some nd" for q nd
    unfolding prefix_append using key_list_below(1) [OF wf] key_list_info [OF wf] info_below [OF assms(3)] by metis
  then have dom: "q \<in> fst ` set ?l \<longleftrightarrow> is_prefix ?p q \<and> held st q \<noteq> None" for q by (force simp: held_def)
  have key: "reg_key (r_root st) p = Some x" using reg_key_node_at [OF p] assms(3) by simp
  obtain h where h: "regfs_save st p True = (0, Some (header_bytes h @ concat (List.map (record_bytes \<circ> snd) ?l)))"
    "h_magic h = bytes_of REGFS_MAGIC" "h_version h = REGFS_VERSION" "unat (h_n_keys h) = nkeys x"
    using save_file [OF key assms(4)] by blast
  have "\<forall>(q, nd) \<in> set ?l. k_path nd = path_of q \<and> (\<forall>s \<in> set q. good_name s) \<and> savable nd"
    using key_list_wf(1) [OF wf] key_list_names(1) [OF wf _ good] assms(5) mem by blast
  from load_loop_ok [OF assms(6) key_list_distinct(1) [OF wf] this, of "[]"]
  obtain st3 where st3: "load_loop (length ?l) None (concat (List.map (record_bytes \<circ> snd) ?l) @ []) st2 = Inr st3" "reg_ok st3 R2"
    "\<forall>(q, nd) \<in> set ?l. held st3 q = Some (k_val nd, k_rights nd)"
    "\<forall>q. q \<notin> fst ` set ?l \<longrightarrow> held st2 q \<noteq> None \<longrightarrow> held st3 q = held st2 q"
    "\<forall>q. held st3 q \<noteq> None \<longrightarrow> held st2 q \<noteq> None \<or> (\<exists>r \<in> fst ` set ?l. is_prefix q r)" by blast
  have "length (h_magic h) = 8" using h(2) by (simp add: bytes_of_def)
  then have run: "regfs_load (Some (header_bytes h @ concat (List.map (record_bytes \<circ> snd) ?l))) None st2 = Inr (0, st3)"
    using st3(1) h(2-4) by (simp add: regfs_load_def read_header_bytes length_key_list)
  have restored: "held st3 q = Some y" if "is_prefix ?p q" "held st q = Some y" for q y
    using that st3(3) mem by (fastforce simp: held_def)
  show ?thesis
  proof (intro exI conjI)
    show "regfs_save st p True = (0, Some (header_bytes h @ concat (List.map (record_bytes \<circ> snd) ?l)))" by (rule h(1))
    show "regfs_load (Some (header_bytes h @ concat (List.map (record_bytes \<circ> snd) ?l))) None st2 = Inr (0, st3)" by (rule run)
    show "reg_ok st3 R2" by (rule st3(2))
    show "\<forall>q y. is_prefix ?p q \<longrightarrow> held st q = Some y \<longrightarrow> held st3 q = Some y" using restored by blast
    show "\<forall>q. \<not> (is_prefix ?p q \<and> held st q \<noteq> None) \<longrightarrow> held st2 q \<noteq> None \<longrightarrow> held st3 q = held st2 q"
      using st3(4) unfolding dom .
    show "\<forall>q. held st3 q \<noteq> None \<longrightarrow> held st2 q \<noteq> None \<or> (\<exists>r. is_prefix ?p r \<and> held st r \<noteq> None \<and> is_prefix q r)"
    proof (intro allI impI)
      fix q assume "held st3 q \<noteq> None"
      then consider "held st2 q \<noteq> None" | r where "r \<in> fst ` set ?l" "is_prefix q r" using st3(5) by blast
      then show "held st2 q \<noteq> None \<or> (\<exists>r. is_prefix ?p r \<and> held st r \<noteq> None \<and> is_prefix q r)"
        using dom by cases blast+
    qed
  qed
qed

subsection \<open>Properties\<close>

text \<open>The checksum is written and never looked at: a file whose checksum is wrong loads just the same.\<close>

lemma crc_not_checked:
  assumes "length (h_magic h) = 8"
  shows "regfs_load (Some (header_bytes (h\<lparr>h_crc32 := c\<rparr>) @ rest)) mount st = regfs_load (Some (header_bytes h @ rest)) mount st"
  using assms by (simp add: regfs_load_def read_header_bytes)

text \<open>A truth value and an error lose what they hold.\<close>

lemma bool_lost: "load_value (vtype_code TYPE_BOOL) (save_data (val_bool b)) = val_nil"
  by (simp add: load_value_def)

lemma error_lost: "load_value (vtype_code TYPE_ERR) (save_data (val_err c m)) = val_str []"
  by (simp add: load_value_def save_data_def val_err_def val_nil_def data_str_def string_of_def c_str_def)

text \<open>C12: A subtree of the registry survives its file. When every key at and below the path holds nil, a number
  or a text that fits, saving succeeds, and loading the file into any well-formed registry gives every one
  of these keys its value and its rights back, keeps all other keys of that registry, and adds none but
  keys on the way to the loaded ones.\<close>

theorem regfs_roundtrip:
  assumes "reg_ok st R" and "good_path p" and "node_at (r_root st) (path_segs p) = Some x" and "nkeys x < 2 ^ 32"
    and "\<forall>q nd. is_prefix (path_segs p) q \<longrightarrow> info (r_root st) q = Some nd \<longrightarrow> savable nd"
    and "reg_ok st2 R2"
  shows "\<exists>file st3. regfs_save st p True = (0, Some file) \<and> regfs_load (Some file) None st2 = Inr (0, st3) \<and> reg_ok st3 R2 \<and>
    (\<forall>q y. is_prefix (path_segs p) q \<longrightarrow> held st q = Some y \<longrightarrow> held st3 q = Some y) \<and>
    (\<forall>q. \<not> (is_prefix (path_segs p) q \<and> held st q \<noteq> None) \<longrightarrow> held st2 q \<noteq> None \<longrightarrow> held st3 q = held st2 q) \<and>
    (\<forall>q. held st3 q \<noteq> None \<longrightarrow> held st2 q \<noteq> None \<or> (\<exists>r. is_prefix (path_segs p) r \<and> held st r \<noteq> None \<and> is_prefix q r))"
  by (rule save_load [OF assms(1-4) _ assms(6)]) (use assms(5) in blast)

definition regfs_demo :: regkey where
  "regfs_demo = RegKey ((fresh_node [] RK_ALL)\<lparr>k_name := ''/''\<rparr>)
     [RegKey ((fresh_node [''a''] RK_ALL)\<lparr>k_val := val_int 7, k_rights := 3\<rparr>)
        [RegKey ((fresh_node [''a'', ''b''] RK_ALL)\<lparr>k_val := val_str ''hi'', k_rights := 1\<rparr>) []]]"

theorem regfs_roundtrip_witness:
  "\<exists>file st3. regfs_save (blank\<lparr>r_root := regfs_demo, total_keys := 3\<rparr>) ''/a'' True = (0, Some file) \<and>
     regfs_load (Some file) None (reg_init blank) = Inr (0, st3) \<and>
     held st3 [''a''] = Some (val_int 7, 3) \<and> held st3 [''a'', ''b''] = Some (val_str ''hi'', 1)"
proof -
  let ?st = "blank\<lparr>r_root := regfs_demo, total_keys := 3\<rparr>"
  have seg: "path_segs ''/a'' = [''a'']" and good: "good_path ''/a''" by code_simp+
  have wf: "wf_key [] regfs_demo" by (simp add: regfs_demo_def fresh_node_def path_of_def key_name_def good_name_def)
  have refs: "nrefs (all_vals regfs_demo @ []) a = nrefs [] a" for a
    by (simp add: regfs_demo_def fresh_node_def owned_def ref_of_def val_nil_def val_int_def val_str_def)
  have "heap_ok [] (all_vals regfs_demo @ [])" using heap_ok_cong [OF refs] heap_ok_empty by blast
  then have ok: "reg_ok ?st []" using wf by (simp add: reg_ok_def blank_def) (simp add: regfs_demo_def)
  have a: "info regfs_demo (''a'' # r) = info (RegKey ((fresh_node [''a''] RK_ALL)\<lparr>k_val := val_int 7, k_rights := 3\<rparr>)
        [RegKey ((fresh_node [''a'', ''b''] RK_ALL)\<lparr>k_val := val_str ''hi'', k_rights := 1\<rparr>) []]) r" for r
    by (simp add: regfs_demo_def info_Cons key_name_def fresh_node_def)
  have save: "savable nd" if at: "is_prefix (path_segs ''/a'') q" "info (r_root ?st) q = Some nd" for q nd
  proof -
    obtain r where r: "q = ''a'' # r" using at(1) unfolding seg prefix_append by auto
    have "r_root ?st = regfs_demo" by simp
    then have at2: "info (RegKey ((fresh_node [''a''] RK_ALL)\<lparr>k_val := val_int 7, k_rights := 3\<rparr>)
        [RegKey ((fresh_node [''a'', ''b''] RK_ALL)\<lparr>k_val := val_str ''hi'', k_rights := 1\<rparr>) []]) r = Some nd"
      using at(2) unfolding r by (simp only: a)
    have "nd \<in> {(fresh_node [''a''] RK_ALL)\<lparr>k_val := val_int 7, k_rights := 3\<rparr>,
        (fresh_node [''a'', ''b''] RK_ALL)\<lparr>k_val := val_str ''hi'', k_rights := 1\<rparr>}"
      using at2 by (cases r; cases "tl r") (auto simp: info_Cons split: if_splits)
    moreover have "savable ((fresh_node [''a''] RK_ALL)\<lparr>k_val := val_int 7, k_rights := 3\<rparr>)"
      "savable ((fresh_node [''a'', ''b''] RK_ALL)\<lparr>k_val := val_str ''hi'', k_rights := 1\<rparr>)"
      by (auto simp: savable_def savable_val_def fresh_node_def path_of_def val_int_def)
    ultimately show ?thesis by auto
  qed
  obtain x where x: "node_at (r_root ?st) (path_segs ''/a'') = Some x" "nkeys x < 2 ^ 32"
    by (simp add: seg regfs_demo_def key_name_def fresh_node_def)
  have held: "held ?st [''a''] = Some (val_int 7, 3)" "held ?st [''a'', ''b''] = Some (val_str ''hi'', 1)"
    by (simp_all add: held_def regfs_demo_def info_Cons key_name_def fresh_node_def)
  have pre: "is_prefix (path_segs ''/a'') [''a'']" "is_prefix (path_segs ''/a'') [''a'', ''b'']" unfolding seg prefix_append by simp_all
  have all: "\<forall>q nd. is_prefix (path_segs ''/a'') q \<longrightarrow> info (r_root ?st) q = Some nd \<longrightarrow> savable nd" using save by blast
  obtain bs st3 where r: "regfs_save ?st ''/a'' True = (0, Some bs)" "regfs_load (Some bs) None (reg_init blank) = Inr (0, st3)"
    "\<forall>q y. is_prefix (path_segs ''/a'') q \<longrightarrow> held ?st q = Some y \<longrightarrow> held st3 q = Some y"
    using regfs_roundtrip [OF ok good x all reg_init_blank] by (elim exE conjE) (rule that)
  show ?thesis using r(1,2) r(3) [rule_format, OF pre(1) held(1)] r(3) [rule_format, OF pre(2) held(2)] by (intro exI conjI)
qed

end
