(* ===== verification/P9.thy ===== *)
theory P9
  imports Vfs
begin

section \<open>The 9P server (\<^verbatim>\<open>fs/9p.c\<close>)\<close>

unbundle bit_operations_syntax

text \<open>
  A request is the list of its bytes, \<open>req_len\<close> of them: reading past its end, which the code does not
  check, is a fault. A reply is the list of the bytes written, with the returned length.
\<close>

record p9fid =
  f_in_use :: bool
  f_fid :: u32
  f_path :: string
  f_fd :: int
  f_open :: bool

record p9 =
  p9_fids :: "p9fid list"
  p9_msize :: u32
  p9_vfs :: vfs

abbreviation (input) P9_MAX_FIDS :: nat where "P9_MAX_FIDS \<equiv> 64"
abbreviation (input) P9_MSIZE :: u32 where "P9_MSIZE \<equiv> 8192"

type_synonym p9_reply = "(int \<times> u8 list \<times> p9) res"

subsection \<open>The table of fids\<close>

definition fid_find :: "u32 \<Rightarrow> p9 \<Rightarrow> nat option" where
  "fid_find fid s = List.find (\<lambda>i. f_in_use (p9_fids s ! i) \<and> f_fid (p9_fids s ! i) = fid) [0..<P9_MAX_FIDS]"

definition upd_fid :: "nat \<Rightarrow> (p9fid \<Rightarrow> p9fid) \<Rightarrow> p9 \<Rightarrow> p9" where
  "upd_fid i g s = s\<lparr>p9_fids := (p9_fids s)[i := g (p9_fids s ! i)]\<rparr>"

definition fid_alloc :: "u32 \<Rightarrow> p9 \<Rightarrow> (nat \<times> p9) option" where
  "fid_alloc fid s =
     (case List.find (\<lambda>i. \<not> f_in_use (p9_fids s ! i)) [0..<P9_MAX_FIDS] of
        None \<Rightarrow> None
      | Some i \<Rightarrow> Some (i, upd_fid i (\<lambda>f. f\<lparr>f_in_use := True, f_fid := fid, f_open := False, f_fd := -1\<rparr>) s))"

definition zero_fid :: p9fid where
  "zero_fid = \<lparr>f_in_use = False, f_fid = 0, f_path = [], f_fd = 0, f_open = False\<rparr>"

subsection \<open>Numbers in messages\<close>

definition read_u16 :: "u8 list \<Rightarrow> u16 res" where
  "read_u16 p = (if length p < 2 then Inl OutOfBounds else Inr (ucast (le_read (take 2 p))))"

definition read_u32 :: "u8 list \<Rightarrow> u32 res" where
  "read_u32 p = (if length p < 4 then Inl OutOfBounds else Inr (ucast (le_read (take 4 p))))"

definition write_u16 :: "u16 \<Rightarrow> u8 list" where
  "write_u16 v = le_write 2 (ucast v)"

definition write_u32 :: "u32 \<Rightarrow> u8 list" where
  "write_u32 v = le_write 4 (ucast v)"

definition p9_server_init :: "p9 \<Rightarrow> p9 res" where
  "p9_server_init s =
     (let s1 = s\<lparr>p9_fids := replicate P9_MAX_FIDS zero_fid\<rparr>;
          v = p9_vfs s1;
          v1 = v\<lparr>v_reg := snd (reg_ipc_init_queue (v_reg v) ''/sys/9p/inbox'' 64)\<rparr> in
      bind_res (v_reg_set ''/sys/9p/msize'' (val_int (ucast (p9_msize s1))) RK_READ v1) (\<lambda>v2.
      bind_res (v_reg_set ''/sys/9p/status'' (val_str ''ok'') RK_READ v2) (\<lambda>v3. Inr (s1\<lparr>p9_vfs := v3\<rparr>))))"

subsection \<open>Replies\<close>

text \<open>Every reply is written when the buffer has room for \<open>rlen\<close> bytes, and the call fails otherwise.\<close>

definition reply :: "nat \<Rightarrow> u8 \<Rightarrow> u16 \<Rightarrow> u8 list \<Rightarrow> p9 \<Rightarrow> p9_reply" where
  "reply resp_max ty tag body s =
     (let rlen = 7 + length body in
      if resp_max < rlen then Inr (-1, [], s)
      else Inr (int rlen, write_u32 (of_nat rlen) @ [ty] @ write_u16 tag @ body, s))"

definition tversion :: "u8 list \<Rightarrow> nat \<Rightarrow> u16 \<Rightarrow> p9 \<Rightarrow> p9_reply" where
  "tversion body resp_max tag s =
     bind_res (read_u32 body) (\<lambda>client_msize.
       let s1 = (if client_msize < p9_msize s then s\<lparr>p9_msize := client_msize\<rparr> else s) in
       reply resp_max 101 tag (write_u32 (p9_msize s1) @ write_u16 6 @ bytes_of ''9P2000'') s1)"

text \<open>The two lengths are read from where the field \<open>afid\<close> is.\<close>

definition tattach :: "u8 list \<Rightarrow> nat \<Rightarrow> u16 \<Rightarrow> p9 \<Rightarrow> p9_reply" where
  "tattach body resp_max tag s =
     bind_res (read_u32 body) (\<lambda>fid.
     bind_res (read_u16 (drop 4 body)) (\<lambda>uname_len.
     bind_res (read_u16 (drop (6 + unat uname_len) body)) (\<lambda>aname_len.
       case fid_alloc fid s of
         None \<Rightarrow> reply resp_max 107 tag (write_u16 11 @ bytes_of ''out of fids'') s
       | Some (i, s1) \<Rightarrow>
           reply resp_max 105 tag (0x80 # replicate 12 0) (upd_fid i (\<lambda>f. f\<lparr>f_path := ''/''\<rparr>) s1))))"

text \<open>One element of a walk; a name of 256 characters or more counts as empty.\<close>

definition walk_name :: "u16 \<Rightarrow> u8 list \<Rightarrow> string res" where
  "walk_name wlen p =
     (if 256 \<le> unat wlen then Inr []
      else if length p < unat wlen then Inl OutOfBounds
      else Inr (c_str (string_of (take (unat wlen) p))))"

definition walk_step :: "string \<Rightarrow> string \<Rightarrow> string res" where
  "walk_step wname path =
     (if wname = ''..'' then
        (case strrchr CHR ''/'' path of Some i \<Rightarrow> Inr (if 0 < i then take i path else path) | None \<Rightarrow> Inr path)
      else if path = [] then Inl OutOfBounds
      else
        let path1 = (if last path \<noteq> CHR ''/'' then trunc REG_PATH_MAX (path @ ''/'') else path) in
        Inr (trunc REG_PATH_MAX (path1 @ wname)))"

fun walk_loop :: "nat \<Rightarrow> u8 list \<Rightarrow> string \<Rightarrow> string res" where
  "walk_loop 0 p path = Inr path"
| "walk_loop (Suc n) p path =
     bind_res (read_u16 p) (\<lambda>wlen.
     bind_res (walk_name wlen (drop 2 p)) (\<lambda>wname.
     bind_res (walk_step wname path) (walk_loop n (drop (2 + unat wlen) p))))"

text \<open>A path of 511 characters leaves its copy on the stack without an end.\<close>

definition twalk :: "u8 list \<Rightarrow> nat \<Rightarrow> u16 \<Rightarrow> p9 \<Rightarrow> p9_reply" where
  "twalk body resp_max tag s =
     bind_res (read_u32 body) (\<lambda>fid.
     bind_res (read_u32 (drop 4 body)) (\<lambda>newfid.
     bind_res (read_u16 (drop 8 body)) (\<lambda>nwname.
       case fid_find fid s of
         None \<Rightarrow> Inr (0, [], s)
       | Some i \<Rightarrow>
           let src = f_path (p9_fids s ! i) in
           if nwname \<noteq> 0 \<and> REG_PATH_MAX - 1 \<le> length src then Inl Uninit
           else
             bind_res (walk_loop (unat nwname) (drop 10 body) src) (\<lambda>path.
               let s1 = (if newfid = fid then s
                 else case fid_alloc newfid s of None \<Rightarrow> s | Some (j, s') \<Rightarrow> upd_fid j (\<lambda>f. f\<lparr>f_path := trunc REG_PATH_MAX path\<rparr>) s') in
               reply resp_max 111 tag (write_u16 nwname @ replicate (13 * unat nwname) 0) s1))))"

definition topen :: "u8 list \<Rightarrow> nat \<Rightarrow> u16 \<Rightarrow> p9 \<Rightarrow> p9_reply" where
  "topen body resp_max tag s =
     bind_res (read_u32 body) (\<lambda>fid.
       if length body < 5 then Inl OutOfBounds
       else case fid_find fid s of
         None \<Rightarrow> Inr (0, [], s)
       | Some i \<Rightarrow>
           bind_res (vfs_open (f_path (p9_fids s ! i)) (ucast (body ! 4)) (p9_vfs s)) (\<lambda>(fd, v).
             reply resp_max 113 tag (replicate 13 0 @ write_u32 (p9_msize s - 24))
               (upd_fid i (\<lambda>f. f\<lparr>f_fd := fd, f_open := True\<rparr>) (s\<lparr>p9_vfs := v\<rparr>))))"

definition usable :: "nat option \<Rightarrow> p9 \<Rightarrow> int option" where
  "usable i s =
     (case i of None \<Rightarrow> None
      | Some i \<Rightarrow> let f = p9_fids s ! i in if \<not> f_open f \<or> f_fd f < 0 then None else Some (f_fd f))"

text \<open>
  The length of the reply is computed with 32 bits. The bytes read go into the reply directly, as many as
  there are up to \<open>count\<close>: past the end of the buffer when the sum has wrapped.
\<close>

definition tread :: "u8 list \<Rightarrow> nat \<Rightarrow> u16 \<Rightarrow> p9 \<Rightarrow> p9_reply" where
  "tread body resp_max tag s =
     bind_res (read_u32 body) (\<lambda>fid.
     bind_res (read_u32 (drop 12 body)) (\<lambda>count.
       case usable (fid_find fid s) s of
         None \<Rightarrow> Inr (0, [], s)
       | Some fd \<Rightarrow>
           let count = (if p9_msize s - 11 < count then p9_msize s - 11 else count) in
           if resp_max < unat (11 + count) then Inr (0, [], s)
           else
             bind_res (vfs_read fd (ucast count) (p9_vfs s)) (\<lambda>(n, bs, v).
               let n = (if n < 0 then 0 else n); rlen = 11 + (of_int n :: u32) in
               if resp_max < 11 + length bs then Inl OutOfBounds
               else Inr (sint rlen, write_u32 rlen @ [117] @ write_u16 tag @ write_u32 (of_int n) @ bs, s\<lparr>p9_vfs := v\<rparr>))))"

definition twrite :: "u8 list \<Rightarrow> nat \<Rightarrow> u16 \<Rightarrow> p9 \<Rightarrow> p9_reply" where
  "twrite body resp_max tag s =
     bind_res (read_u32 body) (\<lambda>fid.
     bind_res (read_u32 (drop 12 body)) (\<lambda>count.
     bind_res
       (case usable (fid_find fid s) s of
          None \<Rightarrow> Inr (0, p9_vfs s)
        | Some fd \<Rightarrow>
            if length (drop 16 body) < unat count then Inl OutOfBounds
            else vfs_write fd (take (unat count) (drop 16 body)) (p9_vfs s)) (\<lambda>(n, v).
       reply resp_max 119 tag (write_u32 (if n < 0 then 0 else of_int n)) (s\<lparr>p9_vfs := v\<rparr>))))"

definition tclunk :: "u8 list \<Rightarrow> nat \<Rightarrow> u16 \<Rightarrow> p9 \<Rightarrow> p9_reply" where
  "tclunk body resp_max tag s =
     bind_res (read_u32 body) (\<lambda>fid.
       let i = fid_find fid s;
           s1 = (case usable i s of None \<Rightarrow> s | Some fd \<Rightarrow> s\<lparr>p9_vfs := snd (vfs_close fd (p9_vfs s))\<rparr>);
           s2 = (case i of None \<Rightarrow> s1 | Some i \<Rightarrow> upd_fid i (\<lambda>_. zero_fid) s1) in
       reply resp_max 121 tag [] s2)"

definition p9_server_handle :: "u8 list \<Rightarrow> nat \<Rightarrow> p9 \<Rightarrow> p9_reply" where
  "p9_server_handle req resp_max s =
     (if length req < 7 then Inr (-1, [], s)
      else
        let ty = req ! 4; tag = ucast (le_read (take 2 (drop 5 req))); body = drop 7 req in
        if ty = 100 then tversion body resp_max tag s
        else if ty = 104 then tattach body resp_max tag s
        else if ty = 110 then twalk body resp_max tag s
        else if ty = 112 then topen body resp_max tag s
        else if ty = 116 then tread body resp_max tag s
        else if ty = 118 then twrite body resp_max tag s
        else if ty = 120 then tclunk body resp_max tag s
        else if ty = 124 then reply resp_max 125 tag [] s
        else Inr (-1, [], s))"

end
