(* ===== verification/P9_Facts.thy ===== *)
theory P9_Facts
  imports P9 Vfs_Facts RegIpc_Facts
begin

section \<open>A 9P session works on the files\<close>

text \<open>
  Every entry in use has a path that leaves room for a character, and no open one is a console. \<open>p9_rel\<close> relates the server to the set
  of files its file system stands for.
\<close>

definition fid_ok :: "p9fid \<Rightarrow> bool" where
  "fid_ok f \<longleftrightarrow> f_in_use f \<longrightarrow> f_path f \<noteq> [] \<and> length (f_path f) < REG_PATH_MAX - 1 \<and> (f_open f \<longrightarrow> f_fd f = -1 \<or> 3 \<le> f_fd f)"

definition p9_rel :: "val list \<Rightarrow> p9 \<Rightarrow> files \<Rightarrow> bool" where
  "p9_rel R s a \<longleftrightarrow> vfs_rel R (p9_vfs s) a \<and> length (p9_fids s) = P9_MAX_FIDS \<and> (\<forall>f \<in> set (p9_fids s). fid_ok f)"

subsection \<open>Requests\<close>

definition num32 :: "u8 list \<Rightarrow> u32" where
  "num32 p = ucast (le_read (take 4 p))"

definition num16 :: "u8 list \<Rightarrow> u16" where
  "num16 p = ucast (le_read (take 2 p))"

lemma read_num: "2 \<le> length p \<Longrightarrow> read_u16 p = Inr (num16 p)" "4 \<le> length p \<Longrightarrow> read_u32 p = Inr (num32 p)"
  by (simp_all add: read_u16_def read_u32_def num16_def num32_def)

text \<open>The names of a walk and the path they lead to.\<close>

fun walk_ok :: "nat \<Rightarrow> u8 list \<Rightarrow> bool" where
  "walk_ok 0 p \<longleftrightarrow> p = []"
| "walk_ok (Suc n) p \<longleftrightarrow> 2 + unat (num16 p) \<le> length p \<and> walk_ok n (drop (2 + unat (num16 p)) p)"

fun walk_names :: "nat \<Rightarrow> u8 list \<Rightarrow> string list" where
  "walk_names 0 p = []"
| "walk_names (Suc n) p = string_of (take (unat (num16 p)) (drop 2 p)) # walk_names n (drop (2 + unat (num16 p)) p)"

definition below :: "string \<Rightarrow> string \<Rightarrow> string" where
  "below path w = path @ (if last path = CHR ''/'' then [] else ''/'') @ w"

definition name_ok :: "string \<Rightarrow> bool" where
  "name_ok w \<longleftrightarrow> w \<noteq> [] \<and> w \<noteq> ''..'' \<and> set w \<inter> {CHR ''/'', CHR 0x00} = {} \<and> length w < 256"

definition walk_path :: "p9 \<Rightarrow> u8 list \<Rightarrow> nat \<Rightarrow> string" where
  "walk_path s body i = foldl below (f_path (p9_fids s ! i)) (walk_names (unat (num16 (drop 8 body))) (drop 10 body))"

text \<open>
  The requests that are covered: complete by the format of 9P, no longer than the message size, and such that the
  protocol promises success. \<^verbatim>\<open>Tversion\<close>; a walk from a known fid to an unused one by plain names, with a free
  entry; the opening of a fid that is not open, for reading, writing or both, where it succeeds; a read at the
  position of the descriptor; a write without a byte 0 at the end of the text; and a clunk of a known fid.
\<close>

definition req_ok :: "p9 \<Rightarrow> files \<Rightarrow> u8 list \<Rightarrow> bool" where
  "req_ok s a req \<longleftrightarrow> 7 \<le> length req \<and> unat (num32 req) = length req \<and> length req \<le> unat (p9_msize s) \<and>
     (let ty = req ! 4; body = drop 7 req; fid = fid_find (num32 body) s; off = le_read (take 8 (drop 4 body)) in
      ty = 100 \<and> 6 \<le> length body \<and> length body = 6 + unat (num16 (drop 4 body)) \<or>
      ty = 110 \<and> 10 \<le> length body \<and> walk_ok (unat (num16 (drop 8 body))) (drop 10 body) \<and>
        (\<forall>w \<in> set (walk_names (unat (num16 (drop 8 body))) (drop 10 body)). name_ok w) \<and>
        (\<exists>i. fid = Some i \<and> length (walk_path s body i) < REG_PATH_MAX - 1) \<and>
        fid_find (num32 (drop 4 body)) s = None \<and> (\<exists>i < P9_MAX_FIDS. \<not> f_in_use (p9_fids s ! i)) \<or>
      ty = 112 \<and> length body = 5 \<and> body ! 4 \<in> {0, 1, 2, 3} \<and>
        (\<exists>i. fid = Some i \<and> \<not> f_open (p9_fids s ! i) \<and>
           0 \<le> fst (fst (file_step (Open (f_path (p9_fids s ! i)) (ucast (body ! 4))) a))) \<or>
      ty = 116 \<and> length body = 16 \<and> (\<exists>fd i. usable fid s = Some fd \<and> fl_open a fd = Some (i, off)) \<or>
      ty = 118 \<and> 16 \<le> length body \<and> length body = 16 + unat (num32 (drop 12 body)) \<and> 0 \<notin> set (drop 16 body) \<and>
        (\<exists>fd i pos. usable fid s = Some fd \<and> fl_open a fd = Some (i, pos) \<and> off = of_nat (length (fl_text a i))) \<or>
      ty = 120 \<and> length body = 4 \<and> fid \<noteq> None)"

text \<open>What a request stands for: the operation on the files, the table of fids after it, and the body of the reply.\<close>

definition p9_op :: "p9 \<Rightarrow> u8 list \<Rightarrow> file_op option" where
  "p9_op s req =
     (let ty = req ! 4; body = drop 7 req; i = fid_find (num32 body) s; fd = usable i s; count = num32 (drop 12 body) in
      if ty = 112 then map_option (\<lambda>i. Open (f_path (p9_fids s ! i)) (ucast (body ! 4))) i
      else if ty = 116 then map_option (\<lambda>fd. Read fd (ucast (min count (p9_msize s - 11)))) fd
      else if ty = 118 then map_option (\<lambda>fd. Write fd (drop 16 body)) fd
      else if ty = 120 then map_option Close fd
      else None)"

definition files_after :: "file_op option \<Rightarrow> files \<Rightarrow> files" where
  "files_after x a = (case x of None \<Rightarrow> a | Some x \<Rightarrow> snd (file_step x a))"

definition free_entry :: "p9 \<Rightarrow> nat" where
  "free_entry s = the (List.find (\<lambda>i. \<not> f_in_use (p9_fids s ! i)) [0..<P9_MAX_FIDS])"

definition fids_after :: "p9 \<Rightarrow> files \<Rightarrow> u8 list \<Rightarrow> p9fid list" where
  "fids_after s a req =
     (let ty = req ! 4; body = drop 7 req; i = the (fid_find (num32 body) s); f = p9_fids s ! i in
      if ty = 110 then (p9_fids s)[free_entry s :=
        \<lparr>f_in_use = True, f_fid = num32 (drop 4 body), f_path = walk_path s body i, f_fd = -1, f_open = False\<rparr>]
      else if ty = 112 then (p9_fids s)[i := f\<lparr>f_fd := fst (fst (file_step (Open (f_path f) (ucast (body ! 4))) a)), f_open := True\<rparr>]
      else if ty = 120 then (p9_fids s)[i := zero_fid]
      else p9_fids s)"

definition reply_body :: "p9 \<Rightarrow> files \<Rightarrow> u8 list \<Rightarrow> u8 list" where
  "reply_body s a req =
     (let ty = req ! 4; body = drop 7 req in
      if ty = 100 then write_u32 (min (num32 body) (p9_msize s)) @ write_u16 6 @ bytes_of ''9P2000''
      else if ty = 110 then write_u16 (num16 (drop 8 body)) @ replicate (13 * unat (num16 (drop 8 body))) 0
      else if ty = 112 then replicate 13 0 @ write_u32 (p9_msize s - 24)
      else if ty = 116 then
        let bs = snd (fst (file_step (the (p9_op s req)) a)) in write_u32 (of_nat (length bs)) @ bs
      else if ty = 118 then write_u32 (of_nat (length (drop 16 body)))
      else [])"

text \<open>A reply: its length, the type after that of the request, the tag and the body; nothing where the buffer is too small.\<close>

definition answer :: "nat \<Rightarrow> u8 list \<Rightarrow> u8 list \<Rightarrow> int \<times> u8 list" where
  "answer resp_max req body =
     (let n = 7 + length body in
      if resp_max < n then (-1, []) else (int n, write_u32 (of_nat n) @ [req ! 4 + 1] @ write_u16 (num16 (drop 5 req)) @ body))"

definition answers :: "p9_reply \<Rightarrow> int \<times> u8 list \<Rightarrow> (p9 \<Rightarrow> bool) \<Rightarrow> bool" where
  "answers r x Q \<longleftrightarrow> (\<exists>s'. r = Inr (fst x, snd x, s') \<and> Q s')"

lemma reply_answers:
  assumes "ty = req ! 4 + 1" and "tag = num16 (drop 5 req)" and "Q s"
  shows "answers (reply m ty tag body s) (answer m req body) Q"
  using assms by (auto simp: reply_def answers_def answer_def Let_def)

lemma length_write [simp]: "length (write_u32 v) = 4" "length (write_u16 w) = 2"
  by (simp_all add: write_u32_def write_u16_def)

subsection \<open>The table of fids\<close>

lemma fid_find_in:
  assumes "fid_find fid s = Some i" and "p9_rel R s a"
  shows "i < P9_MAX_FIDS \<and> f_in_use (p9_fids s ! i) \<and> fid_ok (p9_fids s ! i)"
  using find_SomeD [OF assms(1) [unfolded fid_find_def]] assms(2) by (auto simp: p9_rel_def)

lemma upd_fid_at:
  assumes "p9_rel R s a" and "fid_ok (g (p9_fids s ! i))"
  shows "p9_rel R (upd_fid i g s) a"
proof -
  have "fid_ok f" if "f \<in> set ((p9_fids s)[i := g (p9_fids s ! i)])" for f
    using set_update_subset_insert [of "p9_fids s" i "g (p9_fids s ! i)"] that assms by (auto simp: p9_rel_def)
  then show ?thesis using assms(1) by (simp add: p9_rel_def upd_fid_def)
qed

lemma fid_alloc_set_path:
  assumes "p9_rel R s a" and "fid_alloc fid s = Some (i, s')" and "p \<noteq> []" and "length p < REG_PATH_MAX - 1"
  shows "p9_rel R (upd_fid i (\<lambda>f. f\<lparr>f_path := p\<rparr>) s') a"
proof -
  let ?g = "\<lambda>f. f\<lparr>f_in_use := True, f_fid := fid, f_open := False, f_fd := -1\<rparr>"
  have i: "i < length (p9_fids s)" and s': "s' = upd_fid i ?g s"
    using assms(1,2) by (auto simp: fid_alloc_def p9_rel_def split: option.splits dest!: find_SomeD)
  have "upd_fid i (\<lambda>f. f\<lparr>f_path := p\<rparr>) s' = upd_fid i (\<lambda>f. (?g f)\<lparr>f_path := p\<rparr>) s" using i by (simp add: s' upd_fid_def)
  moreover have "p9_rel R (upd_fid i (\<lambda>f. (?g f)\<lparr>f_path := p\<rparr>) s) a" by (rule upd_fid_at [OF assms(1)]) (use assms(3,4) in \<open>simp add: fid_ok_def\<close>)
  ultimately show ?thesis by simp
qed

lemma usable_file:
  assumes "usable (fid_find fid s) s = Some fd" and "p9_rel R s a"
  shows "3 \<le> fd"
proof -
  obtain i where i: "fid_find fid s = Some i" using assms(1) by (cases "fid_find fid s") (auto simp: usable_def)
  then show ?thesis using fid_find_in [OF i assms(2)] assms(1) by (auto simp: usable_def fid_ok_def Let_def split: if_splits)
qed

subsection \<open>The requests that leave the files alone\<close>

lemma min_if: "(if b < x then b else x) = min x b" for b x :: u32
  by (auto simp: min_def)

lemma tversion_ok:
  assumes rel: "p9_rel R s a" and "4 \<le> length body" and h: "ty = req ! 4 + 1" "ty = 101" "tag = num16 (drop 5 req)"
  shows "answers (tversion body m tag s) (answer m req (write_u32 (min (num32 body) (p9_msize s)) @ write_u16 6 @ bytes_of ''9P2000''))
    (\<lambda>s'. p9_rel R s' a \<and> p9_fids s' = p9_fids s)"
proof -
  let ?s = "if num32 body < p9_msize s then s\<lparr>p9_msize := num32 body\<rparr> else s"
  have m: "p9_msize ?s = min (num32 body) (p9_msize s)" by (auto simp: min_def)
  have "tversion body m tag s = reply m 101 tag (write_u32 (p9_msize ?s) @ write_u16 6 @ bytes_of ''9P2000'') ?s"
    unfolding tversion_def read_num(2) [OF assms(2)] by (simp add: Let_def)
  moreover have "p9_rel R ?s a \<and> p9_fids ?s = p9_fids s" using rel by (simp add: p9_rel_def)
  ultimately show ?thesis using reply_answers [of 101 req tag _ ?s m] h unfolding m by simp
qed

lemma below_length: "length path \<le> length (foldl below path ws)"
proof (induction ws arbitrary: path)
  case (Cons w ws)
  have "length path \<le> length (below path w)" by (simp add: below_def)
  then show ?case using Cons [of "below path w"] by simp
qed simp

lemma walk_step_below:
  assumes "name_ok w" and "path \<noteq> []" and "length (below path w) < REG_PATH_MAX"
  shows "walk_step w path = Inr (below path w)"
  using assms by (auto simp: walk_step_def below_def name_ok_def Let_def trunc_def)

lemma walk_loop_names:
  "walk_ok n p \<Longrightarrow> \<forall>w \<in> set (walk_names n p). name_ok w \<Longrightarrow> path \<noteq> [] \<Longrightarrow>
   length (foldl below path (walk_names n p)) < REG_PATH_MAX \<Longrightarrow> walk_loop n p path = Inr (foldl below path (walk_names n p))"
proof (induction n p path rule: walk_loop.induct)
  case (2 n p path)
  let ?w = "string_of (take (unat (num16 p)) (drop 2 p))"
  have r: "read_u16 p = Inr (num16 p)" using 2(2) by (intro read_num(1)) auto
  have w: "name_ok ?w" using 2(3) by simp
  have len: "unat (num16 p) \<le> length (drop 2 p)" using 2(2) by auto
  have "length ?w = unat (num16 p)" using len by (simp add: string_of_def)
  then have small: "unat (num16 p) < 256" using w by (simp add: name_ok_def)
  have "CHR 0x00 \<notin> set ?w" using w by (auto simp: name_ok_def)
  then have wn: "walk_name (num16 p) (drop 2 p) = Inr ?w"
    using small len by (simp add: walk_name_def c_str_id del: length_drop)
  have "length (below path ?w) < REG_PATH_MAX" by (rule le_less_trans [OF below_length]) (use 2(5) in simp)
  then have st: "walk_step ?w path = Inr (below path ?w)" by (rule walk_step_below [OF w 2(4)])
  have "below path ?w \<noteq> []" using w by (simp add: below_def name_ok_def)
  then show ?case using 2(1) [of "num16 p" ?w "below path ?w"] 2(2,3,5) r wn st by simp
qed simp

lemma find_free:
  assumes "\<exists>i < P9_MAX_FIDS. \<not> f_in_use (p9_fids s ! i)"
  shows "List.find (\<lambda>i. \<not> f_in_use (p9_fids s ! i)) [0..<P9_MAX_FIDS] = Some (free_entry s)" "free_entry s < P9_MAX_FIDS"
proof -
  obtain i where i: "i \<in> set [0..<P9_MAX_FIDS]" "\<not> f_in_use (p9_fids s ! i)" using assms by auto
  then have "List.find (\<lambda>i. \<not> f_in_use (p9_fids s ! i)) [0..<P9_MAX_FIDS] \<noteq> None" unfolding find_None_iff by blast
  then obtain k where k: "List.find (\<lambda>i. \<not> f_in_use (p9_fids s ! i)) [0..<P9_MAX_FIDS] = Some k" by blast
  then show "List.find (\<lambda>i. \<not> f_in_use (p9_fids s ! i)) [0..<P9_MAX_FIDS] = Some (free_entry s)" by (simp add: free_entry_def)
  then show "free_entry s < P9_MAX_FIDS" by (auto dest: find_SomeD)
qed

lemma twalk_ok:
  assumes rel: "p9_rel R s a" and "10 \<le> length body" and walk: "walk_ok (unat (num16 (drop 8 body))) (drop 10 body)"
    and names: "\<forall>w \<in> set (walk_names (unat (num16 (drop 8 body))) (drop 10 body)). name_ok w"
    and i: "fid_find (num32 body) s = Some i" and short: "length (walk_path s body i) < REG_PATH_MAX - 1"
    and new: "fid_find (num32 (drop 4 body)) s = None" and free: "\<exists>i < P9_MAX_FIDS. \<not> f_in_use (p9_fids s ! i)"
    and h: "ty = req ! 4 + 1" "ty = 111" "tag = num16 (drop 5 req)"
  shows "answers (twalk body m tag s)
    (answer m req (write_u16 (num16 (drop 8 body)) @ replicate (13 * unat (num16 (drop 8 body))) 0))
    (\<lambda>s'. p9_rel R s' a \<and> p9_fids s' = (p9_fids s)[free_entry s :=
        \<lparr>f_in_use = True, f_fid = num32 (drop 4 body), f_path = walk_path s body i, f_fd = -1, f_open = False\<rparr>])"
proof -
  have len: "4 \<le> length body" "4 \<le> length (drop 4 body)" "2 \<le> length (drop 8 body)" using assms(2) by simp_all
  note n = read_num(2) [OF len(1)] read_num(2) [OF len(2)] read_num(1) [OF len(3)]
  let ?src = "f_path (p9_fids s ! i)" and ?q = "walk_path s body i" and ?j = "free_entry s" and ?new = "num32 (drop 4 body)"
  have src: "?src \<noteq> []" "length ?src < REG_PATH_MAX - 1" using fid_find_in [OF i rel] by (simp_all add: fid_ok_def)
  have q: "walk_loop (unat (num16 (drop 8 body))) (drop 10 body) ?src = Inr ?q"
    using walk_loop_names [OF walk names src(1)] short by (simp add: walk_path_def)
  have "length ?src \<le> length ?q" unfolding walk_path_def by (rule below_length)
  then have ne: "?q \<noteq> []" using src(1) by auto
  have t: "trunc REG_PATH_MAX ?q = ?q" using short by (simp add: trunc_def)
  have other: "?new \<noteq> num32 body" using i new by auto
  note fr = find_free [OF free]
  let ?s1 = "upd_fid ?j (\<lambda>f. f\<lparr>f_in_use := True, f_fid := ?new, f_open := False, f_fd := -1\<rparr>) s"
  let ?s2 = "upd_fid ?j (\<lambda>f. f\<lparr>f_path := ?q\<rparr>) ?s1"
  have al: "fid_alloc ?new s = Some (?j, ?s1)" by (simp add: fid_alloc_def fr(1))
  have "twalk body m tag s = reply m 111 tag (write_u16 (num16 (drop 8 body)) @ replicate (13 * unat (num16 (drop 8 body))) 0) ?s2"
    using i src(2) other by (simp add: twalk_def n q al t)
  moreover have "p9_rel R ?s2 a" by (rule fid_alloc_set_path [OF rel al ne short])
  moreover have "p9_fids ?s2 = (p9_fids s)[?j := \<lparr>f_in_use = True, f_fid = ?new, f_path = ?q, f_fd = -1, f_open = False\<rparr>]"
    using fr(2) rel by (cases "p9_fids s ! ?j") (simp add: upd_fid_def p9_rel_def)
  ultimately show ?thesis using reply_answers [of 111 req tag _ ?s2 m] h by simp
qed

subsection \<open>The requests that use a file\<close>

lemma open_step:
  assumes "vfs_rel R v a" and "fl_count a < 2 ^ 32"
  shows "\<exists>v'. vfs_open p flags v = Inr (fst (fst (file_step (Open p flags) a)), v') \<and> vfs_rel R v' (snd (file_step (Open p flags) a))"
  using open_ok [OF assms, of p flags] by (cases "vfs_open p flags v") (auto simp: prod_eq_iff simp del: file_step.simps)

lemma open_number: "fst (fst (file_step (Open p flags) a)) = -1 \<or> 3 \<le> fst (fst (file_step (Open p flags) a))"
proof -
  have "3 \<le> fd" if "low_fd m = Some fd" for m fd
  proof -
    have "fd \<in> set (List.map int [3..<VFS_MAX_FD])" using find_SomeD [OF that [unfolded low_fd_def]] by blast
    then show ?thesis by (auto simp only: set_map set_upt atLeastLessThan_iff)
  qed
  then have "fst (open_file i b) = -1 \<or> 3 \<le> fst (open_file i b)" for i b by (simp add: open_file_def split: option.split)
  then show ?thesis by (auto simp: Let_def prod.case_eq_if split: option.split)
qed

lemma read_step:
  assumes "vfs_rel R v a" and "fd \<noteq> 0"
  shows "\<exists>v'. vfs_read fd n v = Inr (fst (fst (file_step (Read fd n) a)), snd (fst (file_step (Read fd n) a)), v') \<and>
    vfs_rel R v' (snd (file_step (Read fd n) a))"
  using read_ok [OF assms, of n] by (cases "vfs_read fd n v") (auto simp: prod_eq_iff simp del: file_step.simps)

lemma write_step:
  assumes "vfs_rel R v a" and "fd \<noteq> 1" "fd \<noteq> 2" "0 \<notin> set buf"
  shows "\<exists>v'. vfs_write fd buf v = Inr (fst (fst (file_step (Write fd buf) a)), v') \<and> vfs_rel R v' (snd (file_step (Write fd buf) a))"
  using write_ok [OF assms] by (cases "vfs_write fd buf v") (auto simp: prod_eq_iff simp del: file_step.simps)

text \<open>What is read fits: at most \<open>n\<close> bytes, and their number is the result.\<close>

lemma read_bytes:
  assumes "unat n < 2 ^ 31"
  shows "length (snd (fst (file_step (Read fd n) a))) \<le> unat n"
    and "fl_open a fd \<noteq> None \<Longrightarrow> fst (fst (file_step (Read fd n) a)) = int (length (snd (fst (file_step (Read fd n) a))))"
    and "fl_open a fd = None \<Longrightarrow> fst (file_step (Read fd n) a) = (-1, [])"
proof -
  have small: "int32 k = int k" if "k < 2 ^ 31" for k using that by (simp add: int32_def signed_of_nat signed_take_bit_int_eq_self)
  show "length (snd (fst (file_step (Read fd n) a))) \<le> unat n" by (auto simp: bytes_of_def Let_def split: option.split)
  show "fst (fst (file_step (Read fd n) a)) = int (length (snd (fst (file_step (Read fd n) a))))" if "fl_open a fd \<noteq> None"
    using that assms by (auto simp: bytes_of_def Let_def intro!: small)
  show "fst (file_step (Read fd n) a) = (-1, [])" if "fl_open a fd = None" using that by simp
qed

lemma topen_ok:
  assumes rel: "p9_rel R s a" and "5 \<le> length body" and count: "fl_count a < 2 ^ 32" and Some: "fid_find (num32 body) s = Some i"
    and h: "ty = req ! 4 + 1" "ty = 113" "tag = num16 (drop 5 req)"
  shows "answers (topen body m tag s) (answer m req (replicate 13 0 @ write_u32 (p9_msize s - 24)))
    (\<lambda>s'. p9_rel R s' (snd (file_step (Open (f_path (p9_fids s ! i)) (ucast (body ! 4))) a)) \<and>
      p9_fids s' = (p9_fids s)[i := (p9_fids s ! i)\<lparr>f_fd := fst (fst (file_step (Open (f_path (p9_fids s ! i)) (ucast (body ! 4))) a)), f_open := True\<rparr>])"
proof -
  let ?x = "Open (f_path (p9_fids s ! i)) (ucast (body ! 4))"
  have v: "vfs_rel R (p9_vfs s) a" using rel by (simp add: p9_rel_def)
  obtain v' where v': "vfs_open (f_path (p9_fids s ! i)) (ucast (body ! 4)) (p9_vfs s) = Inr (fst (fst (file_step ?x a)), v')"
    "vfs_rel R v' (snd (file_step ?x a))" using open_step [OF v count] by blast
  let ?s = "s\<lparr>p9_vfs := v'\<rparr>" and ?g = "\<lambda>f. f\<lparr>f_fd := fst (fst (file_step ?x a)), f_open := True\<rparr>"
  have s: "p9_rel R ?s (snd (file_step ?x a))" using rel v'(2) by (simp add: p9_rel_def)
  have "f_path (p9_fids s ! i) \<noteq> []" "length (f_path (p9_fids s ! i)) < REG_PATH_MAX - 1"
    using fid_find_in [OF Some rel] by (simp_all add: fid_ok_def)
  then have "p9_rel R (upd_fid i ?g ?s) (snd (file_step ?x a))"
    using open_number [of "f_path (p9_fids s ! i)" "ucast (body ! 4)" a] by (intro upd_fid_at [OF s]) (simp add: fid_ok_def del: file_step.simps)
  moreover have "topen body m tag s = reply m 113 tag (replicate 13 0 @ write_u32 (p9_msize s - 24)) (upd_fid i ?g ?s)"
    using Some assms(2) v'(1) by (simp add: topen_def read_num del: file_step.simps)
  moreover have "p9_fids (upd_fid i ?g ?s) = (p9_fids s)[i := ?g (p9_fids s ! i)]" by (simp add: upd_fid_def)
  ultimately show ?thesis using reply_answers [of 113 req tag _ "upd_fid i ?g ?s" m] h by simp
qed

lemma tclunk_ok:
  assumes rel: "p9_rel R s a" and "4 \<le> length body" and i: "fid_find (num32 body) s = Some i"
    and h: "ty = req ! 4 + 1" "ty = 121" "tag = num16 (drop 5 req)"
  shows "answers (tclunk body m tag s) (answer m req [])
    (\<lambda>s'. p9_rel R s' (files_after (map_option Close (usable (Some i) s)) a) \<and> p9_fids s' = (p9_fids s)[i := zero_fid])"
proof -
  let ?s1 = "case usable (Some i) s of None \<Rightarrow> s | Some fd \<Rightarrow> s\<lparr>p9_vfs := snd (vfs_close fd (p9_vfs s))\<rparr>"
  have v: "vfs_rel R (p9_vfs s) a" using rel by (simp add: p9_rel_def)
  have s1: "p9_rel R ?s1 (files_after (map_option Close (usable (Some i) s)) a)"
    using rel close_ok [OF v] by (auto simp: p9_rel_def files_after_def prod.case_eq_if Let_def split: option.split)
  have "fid_ok zero_fid" by (simp add: fid_ok_def zero_fid_def)
  then have "p9_rel R (upd_fid i (\<lambda>_. zero_fid) ?s1) (files_after (map_option Close (usable (Some i) s)) a)"
    using upd_fid_at [OF s1, of "\<lambda>_. zero_fid"] by simp
  moreover have "tclunk body m tag s = reply m 121 tag [] (upd_fid i (\<lambda>_. zero_fid) ?s1)"
    using assms(2) i by (simp add: tclunk_def read_num Let_def)
  moreover have "p9_fids (upd_fid i (\<lambda>_. zero_fid) ?s1) = (p9_fids s)[i := zero_fid]" by (simp add: upd_fid_def split: option.split)
  ultimately show ?thesis using reply_answers [of 121 req tag _ "upd_fid i (\<lambda>_. zero_fid) ?s1" m] h by simp
qed

lemma int32_id: "k < 2 ^ 31 \<Longrightarrow> int32 k = int k"
  by (simp add: int32_def signed_of_nat signed_take_bit_int_eq_self)

lemma twrite_ok:
  assumes rel: "p9_rel R s a" and len: "16 \<le> length body" "length body = 16 + unat (num32 (drop 12 body))"
    and nul: "0 \<notin> set (drop 16 body)" and u: "usable (fid_find (num32 body) s) s = Some fd" and f: "fl_open a fd \<noteq> None"
    and small: "length body < 2 ^ 31" and h: "ty = req ! 4 + 1" "ty = 119" "tag = num16 (drop 5 req)"
  shows "answers (twrite body m tag s) (answer m req (write_u32 (of_nat (length (drop 16 body)))))
    (\<lambda>s'. p9_rel R s' (snd (file_step (Write fd (drop 16 body)) a)) \<and> p9_fids s' = p9_fids s)"
proof -
  have l: "4 \<le> length body" "4 \<le> length (drop 12 body)" using len(1) by simp_all
  note n = read_num(2) [OF l(1)] read_num(2) [OF l(2)]
  have v: "vfs_rel R (p9_vfs s) a" using rel by (simp add: p9_rel_def)
  have fd: "fd \<noteq> 1" "fd \<noteq> 2" using usable_file [OF u rel] by simp_all
  have l16: "length (drop 16 body) = unat (num32 (drop 12 body))" unfolding length_drop using len(2) by linarith
  have tk: "take (unat (num32 (drop 12 body))) (drop 16 body) = drop 16 body" by (rule take_all) (simp only: l16)
  have enough: "\<not> length (drop 16 body) < unat (num32 (drop 12 body))" unfolding l16 by (rule less_irrefl)
  let ?x = "Write fd (drop 16 body)"
  have res: "fst (fst (file_step ?x a)) = int (length (drop 16 body))"
  proof -
    obtain i pos where "fl_open a fd = Some (i, pos)" using f by auto
    moreover have "int32 (length (drop 16 body)) = int (length (drop 16 body))" using small by (intro int32_id) simp
    ultimately show ?thesis by (simp only: file_step.simps option.case prod.case fst_conv)
  qed
  obtain v' where v': "vfs_write fd (drop 16 body) (p9_vfs s) = Inr (fst (fst (file_step ?x a)), v')" "vfs_rel R v' (snd (file_step ?x a))"
    using write_step [OF v fd nul] by blast
  have "twrite body m tag s = reply m 119 tag (write_u32 (of_nat (length (drop 16 body)))) (s\<lparr>p9_vfs := v'\<rparr>)"
    unfolding twrite_def n bind_res_simps u option.case if_not_P [OF enough] tk v'(1) res by simp
  moreover have "p9_rel R (s\<lparr>p9_vfs := v'\<rparr>) (snd (file_step ?x a))" using rel v'(2) by (simp add: p9_rel_def)
  ultimately show ?thesis using reply_answers [of 119 req tag _ "s\<lparr>p9_vfs := v'\<rparr>" m] h by simp
qed

lemma read_open_result:
  assumes "unat n < 2 ^ 31"
  shows "(if fst (fst (file_step (Read fd n) a)) < 0 then 0 else fst (fst (file_step (Read fd n) a))) =
    int (length (snd (fst (file_step (Read fd n) a))))"
  using read_bytes(2,3) [OF assms, of a fd] by (cases "fl_open a fd") (simp_all del: file_step.simps)

lemma u32_add11: "unat (x :: u32) + 11 < 2 ^ 32 \<Longrightarrow> unat (11 + x) = 11 + unat x"
  by (simp add: unat_word_ariths(1))

lemma tread_ok:
  fixes body :: "u8 list" and s :: p9
  defines "cnt \<equiv> min (num32 (drop 12 body)) (p9_msize s - 11)"
  assumes rel: "p9_rel R s a" and "16 \<le> length body" and u: "usable (fid_find (num32 body) s) s = Some fd"
    and size: "11 \<le> unat (p9_msize s)" "unat (p9_msize s) \<le> m" "m < 2 ^ 31"
    and h: "req ! 4 = 116" "tag = num16 (drop 5 req)"
  shows "answers (tread body m tag s)
    (answer m req (write_u32 (of_nat (length (snd (fst (file_step (Read fd (ucast cnt)) a))))) @ snd (fst (file_step (Read fd (ucast cnt)) a))))
    (\<lambda>s'. p9_rel R s' (snd (file_step (Read fd (ucast cnt)) a)) \<and> p9_fids s' = p9_fids s)"
proof -
  have len: "4 \<le> length body" "4 \<le> length (drop 12 body)" using assms(3) by simp_all
  have fd: "fd \<noteq> 0" using usable_file [OF u rel] by simp
  have v: "vfs_rel R (p9_vfs s) a" using rel by (simp add: p9_rel_def)
  have "11 \<le> p9_msize s" using size(1) by (simp add: word_le_nat_alt)
  then have "unat (p9_msize s - 11) = unat (p9_msize s) - 11" by (simp add: unat_sub)
  moreover have "cnt \<le> p9_msize s - 11" by (simp add: cnt_def)
  ultimately have c: "unat cnt + 11 \<le> unat (p9_msize s)" using size(1) by (simp add: word_le_nat_alt)
  then have c32: "unat (11 + cnt) = 11 + unat cnt" using size(2,3) by (intro u32_add11) simp
  have u64: "unat (ucast cnt :: u64) = unat cnt" using unsigned_less [of cnt, where 'a = nat] by (simp add: unsigned_ucast_eq take_bit_nat_eq_self)
  let ?x = "Read fd (ucast cnt)" and ?bs = "snd (fst (file_step (Read fd (ucast cnt)) a))"
  have small: "unat (ucast cnt :: u64) < 2 ^ 31" using c size(2,3) u64 by simp
  obtain v' where v': "vfs_read fd (ucast cnt) (p9_vfs s) = Inr (fst (fst (file_step ?x a)), ?bs, v')" "vfs_rel R v' (snd (file_step ?x a))"
    using read_step [OF v fd] by blast
  have bs: "length ?bs \<le> unat cnt" using read_bytes(1) [OF small, of fd a] u64 by simp
  let ?resp = "write_u32 (of_nat (11 + length ?bs)) @ [117] @ write_u16 tag @ write_u32 (of_nat (length ?bs)) @ ?bs"
  have "11 + length ?bs < 2 ^ 31" using bs c size(2,3) by simp
  then have rc: "sint (of_nat (11 + length ?bs) :: u32) = int (11 + length ?bs)"
    by (simp only: signed_of_nat) (simp add: signed_take_bit_int_eq_self)
  have m: "\<not> m < unat (11 + cnt)" "\<not> m < 11 + length ?bs" using c32 c bs size(2) by simp_all
  have min: "(if p9_msize s - 11 < num32 (drop 12 body) then p9_msize s - 11 else num32 (drop 12 body)) = cnt"
    unfolding cnt_def by (rule min_if)
  have run: "tread body m tag s = Inr (int (11 + length ?bs), ?resp, s\<lparr>p9_vfs := v'\<rparr>)"
    unfolding tread_def read_num(2) [OF len(1)] read_num(2) [OF len(2)] bind_res_simps u option.case Let_def min
      v'(1) prod.case if_not_P [OF m(1)] if_not_P [OF m(2)] read_open_result [OF small]
    using rc by simp
  have "answer m req (write_u32 (of_nat (length ?bs)) @ ?bs) = (int (11 + length ?bs), ?resp)"
    using m(2) by (simp add: answer_def h Let_def)
  moreover have "p9_rel R (s\<lparr>p9_vfs := v'\<rparr>) (snd (file_step ?x a))" using rel v'(2) by (simp add: p9_rel_def)
  ultimately show ?thesis unfolding run by (simp add: answers_def del: file_step.simps)
qed

subsection \<open>Properties\<close>

lemma answers_mono: "answers r x P \<Longrightarrow> (\<And>s'. P s' \<Longrightarrow> Q s') \<Longrightarrow> answers r x Q"
  by (auto simp: answers_def)

lemma handle_request:
  assumes rel: "p9_rel R s a" and req: "req_ok s a req" and count: "fl_count a < 2 ^ 32"
    and size: "11 \<le> unat (p9_msize s)" "unat (p9_msize s) \<le> m" "m < 2 ^ 31"
  shows "answers (p9_server_handle req m s) (answer m req (reply_body s a req))
    (\<lambda>s'. p9_rel R s' (files_after (p9_op s req) a) \<and> p9_fids s' = fids_after s a req)"
proof -
  let ?ty = "req ! 4" and ?tag = "num16 (drop 5 req)" and ?body = "drop 7 req"
  have tag: "ucast (le_read (take 2 (drop 5 req))) = ?tag" by (simp add: num16_def)
  have len: "\<not> length req < 7" and short: "length ?body < 2 ^ 31" using req size(2,3) by (auto simp: req_ok_def)
  note h = p9_server_handle_def Let_def if_not_P [OF len] tag
  note spec = p9_op_def files_after_def fids_after_def reply_body_def Let_def
  let ?fid = "fid_find (num32 ?body) s"
  from req [unfolded req_ok_def Let_def] consider
      (version) "?ty = 100" "4 \<le> length ?body"
    | (walk) i where "?ty = 110" "10 \<le> length ?body" "walk_ok (unat (num16 (drop 8 ?body))) (drop 10 ?body)"
        "\<forall>w \<in> set (walk_names (unat (num16 (drop 8 ?body))) (drop 10 ?body)). name_ok w"
        "?fid = Some i" "length (walk_path s ?body i) < REG_PATH_MAX - 1"
        "fid_find (num32 (drop 4 ?body)) s = None" "\<exists>i < P9_MAX_FIDS. \<not> f_in_use (p9_fids s ! i)"
    | (openf) i where "?ty = 112" "5 \<le> length ?body" "?fid = Some i"
    | (readf) fd where "?ty = 116" "16 \<le> length ?body" "usable ?fid s = Some fd"
    | (writef) fd where "?ty = 118" "16 \<le> length ?body" "length ?body = 16 + unat (num32 (drop 12 ?body))"
        "0 \<notin> set (drop 16 ?body)" "usable ?fid s = Some fd" "fl_open a fd \<noteq> None"
    | (clunk) i where "?ty = 120" "4 \<le> length ?body" "?fid = Some i"
    by auto
  then show ?thesis
  proof cases
    case version
    from tversion_ok [OF rel version(2), of 101 req ?tag m] version(1) show ?thesis unfolding h by (simp add: spec)
  next
    case walk
    from twalk_ok [OF rel walk(2-8), of 111 req ?tag m] walk(1) show ?thesis unfolding h by (simp add: spec walk(5))
  next
    case openf
    from topen_ok [OF rel openf(2) count openf(3), of 113 req ?tag m] openf(1) show ?thesis unfolding h
      by (simp add: spec openf(3) del: file_step.simps)
  next
    case readf
    from tread_ok [OF rel readf(2,3) size readf(1) refl] show ?thesis unfolding h
      by (simp add: spec readf(1,3) del: file_step.simps)
  next
    case writef
    from twrite_ok [OF rel writef(2-6) short, of 119 req ?tag m] writef(1) show ?thesis unfolding h
      by (simp add: spec writef(5) del: file_step.simps)
  next
    case clunk
    from tclunk_ok [OF rel clunk(2,3), of 121 req ?tag m] clunk(1) show ?thesis unfolding h
      by (simp add: spec clunk(3) del: file_step.simps)
  qed
qed

text \<open>
  What the hypotheses keep out. A client that negotiates a message size below 11 makes the length of a
  read wrap: with the count \<open>2 ^ 32 - 11\<close> the reply is written past its buffer. An attach with the usual
  \<open>afid\<close> of all ones is read far past its end. A walk to \<open>..\<close> does not leave a directory of the root.
\<close>

lemma tread_overflow:
  assumes rel: "p9_rel R s a" and "16 \<le> length body" and "p9_msize s = 0" and "num32 (drop 12 body) = - 11"
    and u: "usable (fid_find (num32 body) s) s = Some fd" and f: "fl_open a fd = Some (i, pos)"
    and long: "m < 11 + length (drop (unat pos) (fl_text a i))" "length (drop (unat pos) (fl_text a i)) < 2 ^ 31"
  shows "tread body m tag s = Inl OutOfBounds"
proof -
  have len: "4 \<le> length body" "4 \<le> length (drop 12 body)" using assms(2) by simp_all
  have fd: "fd \<noteq> 0" using usable_file [OF u rel] by simp
  have v: "vfs_rel R (p9_vfs s) a" using rel by (simp add: p9_rel_def)
  let ?c = "- 11 :: u32" and ?t = "drop (unat pos) (fl_text a i)"
  let ?x = "Read fd (ucast ?c)"
  have "unat ?c = 2 ^ 32 - 11" by simp
  then have "unat (ucast ?c :: u64) = 2 ^ 32 - 11" using unsigned_less [of ?c, where 'a = nat] by (simp add: unsigned_ucast_eq take_bit_nat_eq_self)
  then have "take (unat (ucast ?c :: u64)) ?t = ?t" using long(2) by simp
  then have bs: "snd (fst (file_step ?x a)) = bytes_of ?t" using f by (simp add: Let_def)
  obtain v' where v': "vfs_read fd (ucast ?c) (p9_vfs s) = Inr (fst (fst (file_step ?x a)), snd (fst (file_step ?x a)), v')"
    using read_step [OF v fd] by blast
  have m: "m < 11 + length (snd (fst (file_step ?x a)))" unfolding bs using long(1) by (simp add: bytes_of_def)
  have n: "\<not> p9_msize s - 11 < ?c" "\<not> m < unat (11 + ?c)" using assms(3) by simp_all
  show ?thesis
    unfolding tread_def read_num(2) [OF len(1)] read_num(2) [OF len(2)] bind_res_simps u option.case Let_def assms(4)
      if_not_P [OF n(1)] if_not_P [OF n(2)] v' prod.case if_P [OF m] by (rule refl)
qed

lemma attach_without_auth:
  assumes "6 \<le> length body" and "num16 (drop 4 body) = 0xFFFF" and "length body < 65543"
  shows "tattach body m tag s = Inl OutOfBounds"
proof -
  have len: "4 \<le> length body" "2 \<le> length (drop 4 body)" using assms(1) by simp_all
  have "unat (0xFFFF :: u16) = 65535" by simp
  then have "read_u16 (drop (6 + unat (num16 (drop 4 body))) body) = Inl OutOfBounds" using assms(2,3) by (simp add: read_u16_def)
  then show ?thesis unfolding tattach_def read_num(2) [OF len(1)] read_num(1) [OF len(2)] bind_res_simps by simp
qed

lemma dotdot_stays: "walk_step ''..'' ''/a'' = Inr ''/a''"
  by (simp add: walk_step_def)

text \<open>C9: The 9P server works on the files, for the requests that \<open>req_ok\<close> describes. On a state that stands for a set of
  files, with a message size of at least 11 that fits the reply buffer, such a request meets no fault; the files change
  by the file operation it stands for (open, a read with the count cut to the message size, write, close) and by nothing
  else; the table of fids changes as the request says (a walk gives the new fid the path of the old one followed by the
  names, an open the descriptor, a clunk frees the entry); and the reply is exactly its length, the type of the request
  plus 1, the tag and a fixed body: the bytes read with their number, the number of bytes written. Left out are
  \<^verbatim>\<open>Tattach\<close>, which the code misreads, \<^verbatim>\<open>Tstat\<close>, unknown fids and opens that fail (they get no error reply), data with a
  byte 0, offsets other than the position of the descriptor and the end of the text, walks by \<open>..\<close>, onto a
  fid in use, with no free entry, or to a path of 511 characters or more.\<close>

theorem p9_files_refine:
  assumes "p9_rel R s a" and "req_ok s a req" and "fl_count a < 2 ^ 32"
    and "11 \<le> unat (p9_msize s)" and "unat (p9_msize s) \<le> m" and "m < 2 ^ 31"
  shows "\<exists>rc resp s'. p9_server_handle req m s = Inr (rc, resp, s') \<and> (rc, resp) = answer m req (reply_body s a req) \<and>
    p9_rel R s' (files_after (p9_op s req) a) \<and> p9_fids s' = fids_after s a req"
  using handle_request [OF assms] unfolding answers_def by (metis prod.collapse)

text \<open>A fid that is open on a file with the text \<open>hi\<close>, at its start, and a request for 5 bytes.\<close>

definition p9_demo :: "vfs \<Rightarrow> p9" where
  "p9_demo v = \<lparr>p9_fids = \<lparr>f_in_use = True, f_fid = 1, f_path = ''/a'', f_fd = 3, f_open = True\<rparr> # replicate 63 zero_fid,
     p9_msize = P9_MSIZE, p9_vfs = v\<rparr>"

definition hi_ops :: "file_op list" where
  "hi_ops = [Open ''/a'' 0x41, Write 3 [104, 105], Seek 3 0 0]"

lemma hi_files:
  "\<exists>v. run_vfs hi_ops boot_vfs = Inr ([(3, []), (2, []), (0, [])], v) \<and> vfs_rel [] v (snd (run_files hi_ops boot_files))"
  "fl_open (snd (run_files hi_ops boot_files)) 3 = Some (1, 0)" "fl_text (snd (run_files hi_ops boot_files)) 1 = ''hi''"
  "fl_count (snd (run_files hi_ops boot_files)) = 1"
proof -
  have low: "low_fd (fl_open boot_files) = Some 3" by (simp add: low_fd_def boot_files_def upt_rec)
  have str: "string_of [104, 105] = ''hi''" by code_simp
  have r: "fst (run_files hi_ops boot_files) = [(3, []), (2, []), (0, [])]"
    "fl_open (snd (run_files hi_ops boot_files)) 3 = Some (1, 0)" "fl_text (snd (run_files hi_ops boot_files)) 1 = ''hi''"
    "fl_count (snd (run_files hi_ops boot_files)) = 1"
    using low str by (simp_all add: hi_ops_def open_file_def new_file_def Let_def boot_files_def int32_def)
  show "fl_open (snd (run_files hi_ops boot_files)) 3 = Some (1, 0)" "fl_text (snd (run_files hi_ops boot_files)) 1 = ''hi''"
    "fl_count (snd (run_files hi_ops boot_files)) = 1" by (rule r(2-4))+
  have "\<forall>x \<in> set hi_ops. file_op_ok x" "fl_count boot_files + length hi_ops \<le> 2 ^ 32"
    by (simp_all add: hi_ops_def boot_files_def)
  from vfs_run_ok [OF boot_ok this]
  show "\<exists>v. run_vfs hi_ops boot_vfs = Inr ([(3, []), (2, []), (0, [])], v) \<and> vfs_rel [] v (snd (run_files hi_ops boot_files))"
    unfolding r(1) .
qed

theorem p9_files_refine_witness:
  "\<exists>v rc resp s'. run_vfs hi_ops boot_vfs = Inr ([(3, []), (2, []), (0, [])], v) \<and>
     p9_server_handle [23, 0, 0, 0, 116, 5, 0, 1, 0, 0, 0, 0, 0, 0, 0, 0, 0, 0, 0, 5, 0, 0, 0] 8192 (p9_demo v) = Inr (rc, resp, s') \<and>
     resp = [13, 0, 0, 0, 117, 5, 0, 2, 0, 0, 0, 104, 105]"
proof -
  let ?req = "[23, 0, 0, 0, 116, 5, 0, 1, 0, 0, 0, 0, 0, 0, 0, 0, 0, 0, 0, 5, 0, 0, 0] :: u8 list"
  let ?a = "snd (run_files hi_ops boot_files)"
  obtain v where v: "run_vfs hi_ops boot_vfs = Inr ([(3, []), (2, []), (0, [])], v)" "vfs_rel [] v ?a"
    using hi_files(1) by blast
  note a = hi_files(2-4)
  have rel: "p9_rel [] (p9_demo v) ?a" using v(2) by (auto simp: p9_rel_def p9_demo_def fid_ok_def zero_fid_def)
  have n: "num32 (drop 7 ?req) = 1" "num16 (drop 5 ?req) = 5" "num32 ?req = 23" "num32 (drop 12 (drop 7 ?req)) = 5"
    "le_read (take 8 (drop 4 (drop 7 ?req))) = 0" by (simp_all add: num32_def num16_def)
  have f: "fid_find 1 (p9_demo v) = Some 0" by (simp add: fid_find_def p9_demo_def upt_rec)
  then have u: "usable (fid_find 1 (p9_demo v)) (p9_demo v) = Some 3" by (simp add: usable_def p9_demo_def)
  have ms: "p9_msize (p9_demo v) = 8192" by (simp add: p9_demo_def)
  have b: "?req ! 4 = 116" "length ?req = 23" "length (drop 7 ?req) = 16" by simp_all
  have req: "req_ok (p9_demo v) ?a ?req"
    unfolding req_ok_def Let_def n b u ms using a(1) by simp
  have c: "fl_count ?a < 2 ^ 32" "11 \<le> unat (p9_msize (p9_demo v))" "unat (p9_msize (p9_demo v)) \<le> 8192" "(8192 :: nat) < 2 ^ 31"
    by (simp_all add: a(3) ms)
  have x: "p9_op (p9_demo v) ?req = Some (Read 3 5)" unfolding p9_op_def Let_def n b u ms by simp
  have bs: "snd (fst (file_step (Read 3 5) ?a)) = [104, 105]" using a by (simp add: Let_def bytes_of_def)
  have w: "write_u32 2 = [2, 0, 0, 0]" "write_u32 13 = [13, 0, 0, 0]" "write_u16 5 = [5, 0]" by code_simp+
  have body: "reply_body (p9_demo v) ?a ?req = [2, 0, 0, 0, 104, 105]"
    unfolding reply_body_def Let_def b x option.sel bs using w(1) by simp
  have ans: "answer 8192 ?req [2, 0, 0, 0, 104, 105] = (13, [13, 0, 0, 0, 117, 5, 0, 2, 0, 0, 0, 104, 105])"
    unfolding answer_def Let_def n b using w by simp
  show ?thesis using p9_files_refine [OF rel req c] v(1) unfolding body ans by auto
qed

end
