(* ===== verification/Libc_Fmt.thy ===== *)
theory Libc_Fmt
  imports Roundtrip
begin

section \<open>Formatted output without a C library (\<^verbatim>\<open>kernel/libc_stub.c\<close>)\<close>

text \<open>
  The buffer of \<open>cap\<close> bytes holds what was written so far; a character goes in while there is room for it
  and the terminator. The variable arguments are a list; taking one of another type, or none, is undefined.
\<close>

datatype va = VInt u32 | VLong u64 | VDouble f64 | VStr "string option"

definition put :: "nat \<Rightarrow> char \<Rightarrow> string \<Rightarrow> string" where
  "put cap c out = (if length out + 1 < cap then out @ [c] else out)"

definition put_chars :: "nat \<Rightarrow> string \<Rightarrow> string \<Rightarrow> string" where
  "put_chars cap cs out = foldl (\<lambda>out c. put cap c out) out cs"

subsection \<open>Numbers\<close>

definition digit_of :: "nat \<Rightarrow> char" where
  "digit_of r = (if r < 10 then char_of (48 + r) else char_of (97 + r - 10))"

text \<open>The digits of \<open>tmp\<close>, the lowest first.\<close>

function udigits :: "nat \<Rightarrow> nat \<Rightarrow> string" where
  "udigits base val = (if val = 0 \<or> base < 2 then [] else digit_of (val mod base) # udigits base (val div base))"
  by pat_completeness auto
termination by (relation "measure snd") auto

declare udigits.simps [simp del]

definition print_uint :: "nat \<Rightarrow> u64 \<Rightarrow> nat \<Rightarrow> int \<Rightarrow> bool \<Rightarrow> string \<Rightarrow> string" where
  "print_uint cap val base width zero_pad out =
     (let tmp = (if val = 0 then ''0'' else udigits base (unat val));
          out1 = put_chars cap (replicate (nat (width - int (length tmp))) (if zero_pad then CHR ''0'' else CHR '' '')) out in
      put_chars cap (rev tmp) out1)"

definition print_int :: "nat \<Rightarrow> u64 \<Rightarrow> nat \<Rightarrow> int \<Rightarrow> bool \<Rightarrow> string \<Rightarrow> string" where
  "print_int cap val base width zero_pad out =
     (if sint val < 0 then
        let room = length out + 1 < cap in
        print_uint cap (- val) base (if room then width - 1 else width) zero_pad (put cap CHR ''-'' out)
      else print_uint cap val base width zero_pad out)"

fun print_fraction :: "nat \<Rightarrow> nat \<Rightarrow> f64 \<Rightarrow> string \<Rightarrow> string" where
  "print_fraction cap 0 fp out = out"
| "print_fraction cap (Suc n) fp out =
     (if length out + 1 < cap then
        let fp = f64_mul fp (f64_of_int 10); d = ucast (f64_to_int fp) :: u32 in
        print_fraction cap n (f64_sub fp (f64_of_int (scast d))) (put cap (char_of (nat ((48 + sint d) mod 256))) out)
      else out)"

definition print_double :: "nat \<Rightarrow> f64 \<Rightarrow> int \<Rightarrow> string \<Rightarrow> string" where
  "print_double cap fv precision out =
     (let ip = f64_to_int fv; fp = f64_sub fv (f64_of_int ip); fp = (if f64_lt fp 0 then f64_neg fp else fp);
          out = print_int cap ip 10 0 False out; out = put cap CHR ''.'' out in
      print_fraction cap (if 0 \<le> precision then nat precision else 4) fp out)"

definition print_str :: "nat \<Rightarrow> string \<Rightarrow> bool \<Rightarrow> int \<Rightarrow> int \<Rightarrow> string \<Rightarrow> string" where
  "print_str cap s left_align width precision out =
     (let t = (if precision < 0 then s else take (nat precision) s);
          pad = replicate (nat (width - int (length t))) CHR '' '';
          out = (if left_align then out else put_chars cap pad out);
          out = put_chars cap t out in
      if left_align then put_chars cap pad out else out)"

subsection \<open>Conversion specifications\<close>

record spec =
  left_align :: bool
  zero_pad :: bool
  width :: int
  precision :: int
  is_long :: bool

definition take_int :: "va list \<Rightarrow> (int \<times> va list) res" where
  "take_int ap = (case ap of VInt w # ap \<Rightarrow> Inr (sint w, ap) | _ \<Rightarrow> Inl Uninit)"

definition flag :: "char \<Rightarrow> string \<Rightarrow> bool \<times> string" where
  "flag c fmt = (if take 1 fmt = [c] then (True, drop 1 fmt) else (False, fmt))"

text \<open>A number in the format, or \<open>*\<close> for an argument; one that does not fit an \<open>int\<close> has no meaning.\<close>

definition format_number :: "string \<Rightarrow> va list \<Rightarrow> (int \<times> string \<times> va list) res" where
  "format_number fmt ap =
     (let (star, fmt) = flag CHR ''*'' fmt in
      if star then bind_res (take_int ap) (\<lambda>(n, ap). Inr (n, fmt, ap))
      else let n = digits_val (takeWhile isdigit fmt) in
           if 2 ^ 31 \<le> n then Inl Uninit else Inr (n, dropWhile isdigit fmt, ap))"

definition parse_spec :: "string \<Rightarrow> va list \<Rightarrow> (spec \<times> string \<times> va list) res" where
  "parse_spec fmt ap =
     (let (left, fmt) = flag CHR ''-'' fmt; (zero, fmt) = flag CHR ''0'' fmt in
      bind_res (format_number fmt ap) (\<lambda>(w, fmt, ap).
      let (dot, fmt) = flag CHR ''.'' fmt in
      bind_res (if dot then format_number fmt ap else Inr (-1, fmt, ap)) (\<lambda>(p, fmt, ap).
      let (l, fmt) = flag CHR ''l'' fmt; fmt = (if l then snd (flag CHR ''l'' fmt) else fmt) in
      Inr (\<lparr>left_align = left, zero_pad = zero, width = w, precision = p, is_long = l\<rparr>, fmt, ap))))"

definition take_number :: "bool \<Rightarrow> bool \<Rightarrow> va list \<Rightarrow> (u64 \<times> va list) res" where
  "take_number lng sg ap =
     (case ap of
        VLong w # ap \<Rightarrow> if lng then Inr (w, ap) else Inl Uninit
      | VInt w # ap \<Rightarrow> if lng then Inl Uninit else Inr (if sg then scast w else ucast w, ap)
      | _ \<Rightarrow> Inl Uninit)"

text \<open>One conversion; \<open>c\<close> is NUL when the format ends before it.\<close>

definition convert :: "nat \<Rightarrow> spec \<Rightarrow> char \<Rightarrow> va list \<Rightarrow> string \<Rightarrow> (string \<times> va list) res" where
  "convert cap sp c ap out =
     (let uint = (\<lambda>base. bind_res (take_number (is_long sp) False ap) (\<lambda>(v, ap).
            Inr (print_uint cap v base (width sp) (zero_pad sp) out, ap))) in
      if c = CHR ''d'' then
        bind_res (take_number (is_long sp) True ap) (\<lambda>(v, ap). Inr (print_int cap v 10 (width sp) (zero_pad sp) out, ap))
      else if c = CHR ''u'' then uint 10
      else if c = CHR ''x'' then uint 16
      else if c = CHR ''o'' then uint 8
      else if c = CHR ''f'' \<or> c = CHR ''g'' then
        (case ap of VDouble d # ap \<Rightarrow> Inr (print_double cap d (precision sp) out, ap) | _ \<Rightarrow> Inl Uninit)
      else if c = CHR ''s'' then
        (case ap of
           VStr s # ap \<Rightarrow> Inr (print_str cap (case s of None \<Rightarrow> ''(null)'' | Some s \<Rightarrow> s) (left_align sp) (width sp) (precision sp) out, ap)
         | _ \<Rightarrow> Inl Uninit)
      else if c = CHR ''c'' then bind_res (take_int ap) (\<lambda>(n, ap). Inr (put cap (char_of (nat (n mod 256))) out, ap))
      else Inr (put cap c out, ap))"

lemma flag_length: "flag c fmt = (b, fmt') \<Longrightarrow> length fmt' \<le> length fmt"
  by (auto simp: flag_def split: if_splits)

lemma number_length: "format_number fmt ap = Inr (n, fmt', ap') \<Longrightarrow> length fmt' \<le> length fmt"
  using length_dropWhile_le [of isdigit fmt]
  by (auto simp: format_number_def take_int_def flag_def Let_def split: if_splits list.splits va.splits)

lemma parse_length: "parse_spec fmt ap = Inr (sp, fmt', ap') \<Longrightarrow> length fmt' \<le> length fmt"
proof -
  assume p: "parse_spec fmt ap = Inr (sp, fmt', ap')"
  obtain b1 f1 where f1: "flag CHR ''-'' fmt = (b1, f1)" by fastforce
  obtain b2 f2 where f2: "flag CHR ''0'' f1 = (b2, f2)" by fastforce
  from p f1 f2 obtain w f3 a3 where f3: "format_number f2 ap = Inr (w, f3, a3)"
    by (cases "format_number f2 ap") (auto simp: parse_spec_def Let_def)
  obtain b4 f4 where f4: "flag CHR ''.'' f3 = (b4, f4)" by fastforce
  from p f1 f2 f3 f4 obtain q f5 a5 where f5: "(if b4 then format_number f4 a3 else Inr (-1, f4, a3)) = Inr (q, f5, a5)"
    by (cases "if b4 then format_number f4 a3 else Inr (-1, f4, a3)") (auto simp: parse_spec_def Let_def)
  obtain b6 f6 where f6: "flag CHR ''l'' f5 = (b6, f6)" by fastforce
  obtain b7 f7 where f7: "flag CHR ''l'' f6 = (b7, f7)" by fastforce
  have "fmt' = (if b6 then f7 else f6)" using p f1 f2 f3 f4 f5 f6 f7 by (auto simp: parse_spec_def Let_def)
  moreover have "length f5 \<le> length f4" using f5 number_length [of f4 a3 q f5 a5] by (cases b4) auto
  ultimately show ?thesis
    using flag_length [OF f1] flag_length [OF f2] number_length [OF f3] flag_length [OF f4] flag_length [OF f6] flag_length [OF f7]
    by (auto split: if_splits)
qed

function vsn_loop :: "nat \<Rightarrow> string \<Rightarrow> va list \<Rightarrow> string \<Rightarrow> string res" where
  "vsn_loop cap fmt ap out =
     (case fmt of
        [] \<Rightarrow> Inr out
      | c # fmt1 \<Rightarrow>
          if cap \<le> length out + 1 then Inr out
          else if c \<noteq> CHR ''%'' then vsn_loop cap fmt1 ap (put cap c out)
          else if fmt1 = [] then Inr out
          else case parse_spec fmt1 ap of
            Inl e \<Rightarrow> Inl e
          | Inr (sp, fmt2, ap1) \<Rightarrow>
              case convert cap sp (case fmt2 of [] \<Rightarrow> CHR 0x00 | d # _ \<Rightarrow> d) ap1 out of
                Inl e \<Rightarrow> Inl e
              | Inr (out1, ap2) \<Rightarrow> vsn_loop cap (drop 1 fmt2) ap2 out1)"
  by pat_completeness auto
termination
  by (relation "measure (\<lambda>(cap, fmt, ap, out). length fmt)") (auto dest: parse_length)

declare vsn_loop.simps [simp del]

text \<open>The result is the number of characters written, not the number there would be.\<close>

definition vsnprintf :: "nat \<Rightarrow> string \<Rightarrow> va list \<Rightarrow> (int \<times> string option) res" where
  "vsnprintf cap format ap =
     (if cap = 0 then Inr (0, None)
      else bind_res (vsn_loop cap format ap []) (\<lambda>out. Inr (sint (word_of_nat (length out) :: u32), Some out)))"

definition snprintf :: "nat \<Rightarrow> string \<Rightarrow> va list \<Rightarrow> (int \<times> string option) res" where
  "snprintf count format ap = vsnprintf count format ap"

definition sprintf :: "string \<Rightarrow> va list \<Rightarrow> (int \<times> string option) res" where
  "sprintf format ap = vsnprintf 4096 format ap"

text \<open>Output goes to the console, up to the first NUL.\<close>

definition vfprintf :: "string \<Rightarrow> va list \<Rightarrow> string \<Rightarrow> (int \<times> string) res" where
  "vfprintf format ap console =
     bind_res (vsnprintf MAX_STR_LEN format ap) (\<lambda>(n, out). Inr (n, console @ c_str (case out of None \<Rightarrow> [] | Some s \<Rightarrow> s)))"

definition fprintf :: "string \<Rightarrow> va list \<Rightarrow> string \<Rightarrow> (int \<times> string) res" where
  "fprintf format ap console = vfprintf format ap console"

definition printf :: "string \<Rightarrow> va list \<Rightarrow> string \<Rightarrow> (int \<times> string) res" where
  "printf format ap console = vfprintf format ap console"

definition vprintf :: "string \<Rightarrow> va list \<Rightarrow> string \<Rightarrow> (int \<times> string) res" where
  "vprintf format ap console = vfprintf format ap console"

end
