(* ===== verification/Libc_Facts.thy ===== *)
theory Libc_Facts
  imports Libc_Fmt
begin

section \<open>What formatted output prints\<close>

text \<open>
  A piece of a format, as the calls of the system write them, with its argument and the text that the C standard
  gives for it. A blank-padded negative number is not one: its sign comes before the blanks.
\<close>

datatype piece =
  Lit char
| Percent
| SNum bool nat bool u64
| UNum bool nat bool nat u64
| Txt bool nat "nat option" "string option"
| Chr char

definition width_str :: "nat \<Rightarrow> string" where
  "width_str w = (if w = 0 then [] else show_nat w)"

definition spec_str :: "bool \<Rightarrow> bool \<Rightarrow> nat \<Rightarrow> nat option \<Rightarrow> bool \<Rightarrow> char \<Rightarrow> string" where
  "spec_str left zero w p lng c =
     CHR ''%'' # (if left then ''-'' else []) @ (if zero then ''0'' else []) @ width_str w @
     (case p of None \<Rightarrow> [] | Some p \<Rightarrow> CHR ''.'' # show_nat p) @ (if lng then ''ll'' else []) @ [c]"

definition base_char :: "nat \<Rightarrow> char" where
  "base_char b = (if b = 8 then CHR ''o'' else if b = 16 then CHR ''x'' else CHR ''u'')"

fun piece_fmt :: "piece \<Rightarrow> string" where
  "piece_fmt (Lit c) = [c]"
| "piece_fmt Percent = ''%%''"
| "piece_fmt (SNum zero w lng v) = spec_str False zero w None lng CHR ''d''"
| "piece_fmt (UNum zero w lng b v) = spec_str False zero w None lng (base_char b)"
| "piece_fmt (Txt left w p s) = spec_str left False w p False CHR ''s''"
| "piece_fmt (Chr c) = ''%c''"

fun piece_args :: "piece \<Rightarrow> va list" where
  "piece_args (SNum zero w lng v) = [if lng then VLong v else VInt (ucast v)]"
| "piece_args (UNum zero w lng b v) = [if lng then VLong v else VInt (ucast v)]"
| "piece_args (Txt left w p s) = [VStr s]"
| "piece_args (Chr c) = [VInt (of_char c)]"
| "piece_args _ = []"

text \<open>The numeral of a number, the highest digit first.\<close>

fun numeral_in :: "nat \<Rightarrow> nat \<Rightarrow> string" where
  "numeral_in b n = (if n < b \<or> b < 2 then [digit_of n] else numeral_in b (n div b) @ [digit_of (n mod b)])"

declare numeral_in.simps [simp del]

definition padded :: "char \<Rightarrow> nat \<Rightarrow> string \<Rightarrow> string" where
  "padded c w s = replicate (w - length s) c @ s"

definition zero_or_blank :: "bool \<Rightarrow> char" where
  "zero_or_blank z = (if z then CHR ''0'' else CHR '' '')"

fun piece_out :: "piece \<Rightarrow> string" where
  "piece_out (Lit c) = [c]"
| "piece_out Percent = ''%''"
| "piece_out (SNum zero w lng v) =
     (let i = sint v in
      if i < 0 then CHR ''-'' # padded (zero_or_blank zero) (w - 1) (numeral_in 10 (nat (- i)))
      else padded (zero_or_blank zero) w (numeral_in 10 (nat i)))"
| "piece_out (UNum zero w lng b v) = padded (zero_or_blank zero) w (numeral_in b (unat v))"
| "piece_out (Txt left w p s) =
     (let s = (case s of None \<Rightarrow> ''(null)'' | Some s \<Rightarrow> s); t = (case p of None \<Rightarrow> s | Some p \<Rightarrow> take p s) in
      if left then t @ replicate (w - length t) CHR '' '' else padded CHR '' '' w t)"
| "piece_out (Chr c) = [c]"

fun piece_ok :: "piece \<Rightarrow> bool" where
  "piece_ok (Lit c) = (c \<noteq> CHR ''%'')"
| "piece_ok (SNum zero w lng v) =
     (w < 2 ^ 31 \<and> (zero \<or> 0 \<le> sint v \<or> w = 0) \<and> (lng \<or> scast (ucast v :: u32) = v))"
| "piece_ok (UNum zero w lng b v) = (w < 2 ^ 31 \<and> b \<in> {8, 10, 16} \<and> (lng \<or> ucast (ucast v :: u32) = v))"
| "piece_ok (Txt left w p s) = (w < 2 ^ 31 \<and> (case p of None \<Rightarrow> True | Some p \<Rightarrow> p < 2 ^ 31))"
| "piece_ok _ = True"

subsection \<open>The buffer\<close>

lemma put_chars_append: "put_chars cap (xs @ ys) out = put_chars cap ys (put_chars cap xs out)"
  by (simp add: put_chars_def)

lemma put_chars_Nil [simp]: "put_chars cap [] out = out"
  by (simp add: put_chars_def)

lemma put_put_all: "put cap c out = put_chars cap [c] out"
  by (simp add: put_chars_def)

lemma put_chars_full: "cap \<le> length out + 1 \<Longrightarrow> put_chars cap cs out = out"
  by (induction cs) (simp_all add: put_chars_def put_def)

lemma put_chars_take: "length out < cap \<Longrightarrow> put_chars cap cs out = out @ take (cap - 1 - length out) cs"
proof (induction cs arbitrary: out)
  case (Cons c cs)
  show ?case
  proof (cases "length out + 1 < cap")
    case True
    then have "cap - 1 - length out = Suc (cap - 1 - length (out @ [c]))" by simp
    then show ?thesis using Cons.IH [of "out @ [c]"] True by (simp add: put_chars_def put_def)
  next
    case False
    then show ?thesis using Cons.prems put_chars_full [of cap out "c # cs"] by simp
  qed
qed simp

lemma put_chars_length: "length out < cap \<Longrightarrow> length (put_chars cap cs out) < cap"
  by (simp add: put_chars_take)

subsection \<open>Numbers\<close>

lemma udigits_numeral: "0 < n \<Longrightarrow> 2 \<le> b \<Longrightarrow> rev (udigits b n) = numeral_in b n"
proof (induction b n rule: udigits.induct)
  case (1 b n)
  show ?case
  proof (cases "n < b")
    case True
    then show ?thesis using "1.prems" by (simp add: udigits.simps [of b n] udigits.simps [of b 0] numeral_in.simps [of b n])
  next
    case False
    then have "0 < n div b" using "1.prems" by (simp add: div_greater_zero_iff)
    then show ?thesis using 1 False by (simp add: udigits.simps [of b n] numeral_in.simps [of b n])
  qed
qed

lemma char_48: "char_of (48 :: nat) = CHR ''0''"
  by code_simp

lemma print_uint_numeral:
  assumes b: "2 \<le> b"
  shows "print_uint cap v b (int w) z out = put_chars cap (padded (zero_or_blank z) w (numeral_in b (unat v))) out"
proof -
  let ?t = "if v = 0 then ''0'' else udigits b (unat v)"
  have r: "rev ?t = numeral_in b (unat v)"
    using udigits_numeral [of "unat v" b] b by (auto simp: numeral_in.simps [of b 0] digit_of_def unat_gt_0 char_48)
  then have "length ?t = length (numeral_in b (unat v))" by (metis length_rev)
  then have "nat (int w - int (length ?t)) = w - length (numeral_in b (unat v))" by simp
  then show ?thesis using r by (simp only: print_uint_def Let_def padded_def put_chars_append zero_or_blank_def)
qed

lemma unat_int: "0 \<le> k \<Longrightarrow> k < 2 ^ 64 \<Longrightarrow> unat (of_int k :: u64) = nat k"
  by (simp add: unsigned_of_int take_bit_int_eq_self)

lemma print_int_numeral:
  assumes room: "length out + 1 < cap" and w: "z \<or> 0 \<le> sint v \<or> w = 0"
  shows "print_int cap v 10 (int w) z out = put_chars cap (piece_out (SNum z w lng v)) out"
proof (cases "sint v < 0")
  case True
  have u: "unat (- v) = nat (- sint v)" using unat_int [of "- sint v"] True sint_u64_range [of v] by simp
  have "print_int cap v 10 (int w) z out = print_uint cap (- v) 10 (int w - 1) z (put cap CHR ''-'' out)"
    using True room by (simp add: print_int_def)
  also have "\<dots> = print_uint cap (- v) 10 (int (w - 1)) z (put cap CHR ''-'' out)"
    by (cases w) (simp_all add: print_uint_def)
  finally show ?thesis using True u by (simp add: print_uint_numeral put_put_all Let_def flip: put_chars_append)
next
  case False
  then have "unat v = nat (sint v)" using unat_int [of "sint v"] sint_u64_range [of v] by simp
  then show ?thesis using False by (simp add: print_int_def print_uint_numeral Let_def)
qed

subsection \<open>Conversion specifications\<close>

lemma show_nat_first: "0 < n \<Longrightarrow> \<exists>c cs. show_nat n = c # cs \<and> isdigit c \<and> c \<noteq> CHR ''0''"
proof (induction n rule: show_nat.induct)
  case (1 n)
  show ?case
  proof (cases "n < 10")
    case True
    have e: "(of_char (char_of (48 + n) :: char) :: nat) = 48 + n" using True by simp
    have "char_of (48 + n) \<noteq> CHR ''0''"
    proof
      assume "char_of (48 + n) = CHR ''0''"
      then have "48 + n = of_char CHR ''0''" using e by (simp only:)
      then show False using "1.prems" by simp
    qed
    moreover have "isdigit (char_of (48 + n))" using e True by (simp add: isdigit_def)
    ultimately have "char_of (48 + n) \<noteq> CHR ''0''" "isdigit (char_of (48 + n))" by simp_all
    then show ?thesis using True by (simp add: show_nat.simps [of n])
  next
    case False
    then show ?thesis using 1 by (fastforce simp: show_nat.simps [of n])
  qed
qed

definition after_spec :: "string \<Rightarrow> bool" where
  "after_spec s \<longleftrightarrow> s \<noteq> [] \<and> \<not> isdigit (hd s) \<and> hd s \<noteq> CHR ''*'' \<and> hd s \<noteq> CHR ''-''"

lemma flag_read: "flag c (c # s) = (True, s)" "s = [] \<or> hd s \<noteq> c \<Longrightarrow> flag c s = (False, s)"
  by (cases s; simp add: flag_def)+

lemma number_read:
  assumes w: "w < 2 ^ 31" and s: "after_spec s"
  shows "format_number (width_str w @ s) ap = Inr (int w, s, ap)"
    and "format_number (show_nat w @ s) ap = Inr (int w, s, ap)"
proof -
  obtain c t where ct: "s = c # t" "\<not> isdigit c" "c \<noteq> CHR ''*''" using s by (cases s) (auto simp: after_spec_def)
  have d: "show_nat w \<noteq> []" "\<forall>c \<in> set (show_nat w). isdigit c" "digits_val (show_nat w) = int w"
    using show_nat_digits by auto
  have t: "takeWhile isdigit (show_nat w @ s) = show_nat w" "dropWhile isdigit (show_nat w @ s) = s"
    using d(2) ct by (simp_all add: takeWhile_append2 dropWhile_append2)
  have star: "\<not> isdigit CHR ''*''" by (simp add: isdigit_def)
  then have n: "hd (show_nat w @ s) \<noteq> CHR ''*''" using d(1,2) by (cases "show_nat w") auto
  have any: "format_number u ap = (let n = digits_val (takeWhile isdigit u) in
      if 2 ^ 31 \<le> n then Inl Uninit else Inr (n, dropWhile isdigit u, ap))" if at: "hd u \<noteq> CHR ''*''" for u
    using at by (simp add: format_number_def flag_read)
  show f: "format_number (show_nat w @ s) ap = Inr (int w, s, ap)"
    using any [OF n] t d(3) w by simp
  have z: "format_number s ap = Inr (0, s, ap)" using any [of s] ct by (simp add: digits_val_def)
  show "format_number (width_str w @ s) ap = Inr (int w, s, ap)"
    using f z by (simp add: width_str_def)
qed

lemma parse_spec_read:
  assumes w: "w < 2 ^ 31" and p: "case p of None \<Rightarrow> True | Some p \<Rightarrow> p < 2 ^ 31"
    and c: "\<not> isdigit c" "c \<notin> {CHR ''*'', CHR ''-'', CHR ''.'', CHR ''l''}"
  shows "parse_spec (tl (spec_str left zero w p lng c) @ rest) ap =
    Inr (\<lparr>left_align = left, zero_pad = zero, width = int w, precision = (case p of None \<Rightarrow> -1 | Some p \<Rightarrow> int p), is_long = lng\<rparr>,
      c # rest, ap)"
proof -
  define l where "l = (if lng then ''ll'' else []) @ c # rest"
  define q where "q = (case p of None \<Rightarrow> [] | Some p \<Rightarrow> CHR ''.'' # show_nat p) @ l"
  define v where "v = width_str w @ q"
  define z where "z = (if zero then ''0'' else []) @ v"
  have d: "\<not> isdigit CHR ''.''" "\<not> isdigit CHR ''l''" "\<not> isdigit CHR ''-''" "isdigit CHR ''0''" by (simp_all add: isdigit_def)
  have al: "after_spec l" using c d by (auto simp: after_spec_def l_def)
  have aq: "after_spec q" using al d by (auto simp: after_spec_def q_def split: option.split)
  have hv: "v \<noteq> [] \<and> hd v \<noteq> CHR ''-'' \<and> hd v \<noteq> CHR ''0''"
  proof (cases "w = 0")
    case True
    then show ?thesis using aq d(4) by (auto simp: v_def width_str_def after_spec_def)
  next
    case False
    then show ?thesis using show_nat_first [of w] d(3) by (auto simp: v_def width_str_def)
  qed
  have e: "tl (spec_str left zero w p lng c) @ rest = (if left then ''-'' else []) @ z"
    by (simp add: spec_str_def z_def v_def q_def l_def)
  have 1: "flag CHR ''-'' ((if left then ''-'' else []) @ z) = (left, z)"
    using hv by (auto simp: z_def flag_read)
  have 2: "flag CHR ''0'' z = (zero, v)" using hv by (auto simp: z_def flag_read)
  have 3: "format_number v ap = Inr (int w, q, ap)" using number_read(1) [OF w aq] by (simp add: v_def)
  define r where "r = (case p of None \<Rightarrow> l | Some p \<Rightarrow> show_nat p @ l)"
  define dot where "dot = (p \<noteq> None)"
  have 4: "flag CHR ''.'' q = (dot, r)"
    using c by (cases p) (auto simp: q_def l_def r_def dot_def flag_read)
  have 5: "(if dot then format_number r ap else Inr (-1, r, ap)) = Inr (case p of None \<Rightarrow> -1 | Some p \<Rightarrow> int p, l, ap)"
    using number_read(2) [OF _ al] p by (cases p) (auto simp: dot_def r_def)
  have 6: "flag CHR ''l'' l = (lng, if lng then CHR ''l'' # c # rest else c # rest)"
    using c by (auto simp: l_def flag_read)
  have 7: "flag CHR ''l'' (CHR ''l'' # c # rest) = (True, c # rest)" by (simp add: flag_read)
  show ?thesis unfolding e parse_spec_def by (simp add: 1 2 3 4 5 6 7 Let_def)
qed

subsection \<open>The loop over the format\<close>

lemma vsn_full: "cap \<le> length out + 1 \<Longrightarrow> vsn_loop cap fmt ap out = Inr out"
  by (cases fmt) (simp_all add: vsn_loop.simps)

lemma vsn_lit: "c \<noteq> CHR ''%'' \<Longrightarrow> vsn_loop cap (c # fmt) ap out = vsn_loop cap fmt ap (put cap c out)"
  by (cases "cap \<le> length out + 1") (simp_all add: vsn_full put_def vsn_loop.simps [of cap "c # fmt"])

lemma vsn_spec:
  assumes "length out + 1 < cap" "parse_spec fmt ap = Inr (sp, c # rest, ap1)" "convert cap sp c ap1 out = Inr (out1, ap2)"
    and "fmt \<noteq> []"
  shows "vsn_loop cap (CHR ''%'' # fmt) ap out = vsn_loop cap rest ap2 out1"
  using assms by (simp add: vsn_loop.simps [of cap "CHR ''%'' # fmt"])

lemma spec_str_tl: "spec_str left zero w p lng c = CHR ''%'' # tl (spec_str left zero w p lng c)"
    "tl (spec_str left zero w p lng c) \<noteq> []"
  by (simp_all add: spec_str_def)

lemma vsn_convert:
  assumes room: "length out + 1 < cap" and w: "w < 2 ^ 31" and p: "case p of None \<Rightarrow> True | Some p \<Rightarrow> p < 2 ^ 31"
    and c: "\<not> isdigit c" "c \<notin> {CHR ''*'', CHR ''-'', CHR ''.'', CHR ''l''}"
    and v: "convert cap \<lparr>left_align = left, zero_pad = zero, width = int w,
        precision = (case p of None \<Rightarrow> -1 | Some p \<Rightarrow> int p), is_long = lng\<rparr> c ap out = Inr (out1, ap1)"
  shows "vsn_loop cap (spec_str left zero w p lng c @ rest) ap out = vsn_loop cap rest ap1 out1"
  using vsn_spec [OF room parse_spec_read [OF w p c] v] spec_str_tl [of left zero w p lng c]
  by (metis append_Cons append_is_Nil_conv)

lemma conv_chars: "\<not> isdigit CHR ''d''" "\<not> isdigit CHR ''s''" "\<not> isdigit (base_char b)"
    "\<not> isdigit CHR ''%''" "\<not> isdigit CHR ''c''"
  by (simp_all add: isdigit_def base_char_def)

lemma print_str_padded:
  "print_str cap s left (int w) (case p of None \<Rightarrow> -1 | Some p \<Rightarrow> int p) out = put_chars cap (piece_out (Txt left w p (Some s))) out"
proof -
  have n: "nat (int w - int k) = w - k" for k by simp
  show ?thesis
    by (cases p) (simp_all add: print_str_def Let_def n padded_def flip: put_chars_append)
qed

lemma print_str_null:
  "print_str cap ''(null)'' left (int w) (case p of None \<Rightarrow> -1 | Some p \<Rightarrow> int p) out = put_chars cap (piece_out (Txt left w p None)) out"
proof -
  have "piece_out (Txt left w p None) = piece_out (Txt left w p (Some ''(null)''))" by simp
  then show ?thesis by (simp only: print_str_padded)
qed

lemma char_arg: "char_of (nat (sint (of_char c :: u32) mod 256)) = c"
proof -
  have "(of_char c :: nat) < 256" by simp
  then have l: "int (of_char c) < 256" by linarith
  have "(of_char c :: u32) = word_of_nat (of_char c)" by (rule of_nat_of_char [symmetric])
  also have "sint \<dots> = int (of_char c)"
    using signed_take_bit_int_eq_self [of 31 "int (of_char c)"] l by (simp only: signed_of_nat) simp
  finally have "nat (sint (of_char c :: u32) mod 256) = of_char c" using l by (simp add: nat_mod_distrib)
  then show ?thesis by simp
qed

lemma vsn_piece:
  assumes ok: "piece_ok p"
  shows "vsn_loop cap (piece_fmt p @ rest) (piece_args p @ ap) out = vsn_loop cap rest ap (put_chars cap (piece_out p) out)"
proof (cases "length out + 1 < cap")
  case room: True
  show ?thesis
  proof (cases p)
    case (Lit c)
    then show ?thesis using ok by (simp add: vsn_lit put_put_all)
  next
    case Percent
    have "spec_str False False 0 None False CHR ''%'' = ''%%''" by (simp add: spec_str_def width_str_def)
    then show ?thesis
      using vsn_convert [OF room, of 0 None "CHR ''%''" False False False ap "put cap CHR ''%'' out" ap rest] Percent conv_chars
      by (simp add: convert_def put_put_all)
  next
    case (Chr c)
    have "spec_str False False 0 None False CHR ''c'' = ''%c''" by (simp add: spec_str_def width_str_def)
    moreover have "char_of (nat (sint (of_char c :: u32) mod 256)) = c" by (rule char_arg)
    ultimately show ?thesis
      using vsn_convert [OF room, of 0 None "CHR ''c''" False False False "VInt (of_char c) # ap" "put cap c out" ap rest] Chr conv_chars
      by (simp add: convert_def take_int_def put_put_all)
  next
    case (Txt left w q s)
    then have wq: "w < 2 ^ 31" "case q of None \<Rightarrow> True | Some p \<Rightarrow> p < 2 ^ 31" using ok by simp_all
    have s: "print_str cap (case s of None \<Rightarrow> ''(null)'' | Some s \<Rightarrow> s) left (int w) (case q of None \<Rightarrow> -1 | Some p \<Rightarrow> int p) out =
        put_chars cap (piece_out (Txt left w q s)) out"
    proof (cases s)
      case None
      then show ?thesis by (simp only: option.case print_str_null)
    next
      case (Some u)
      then show ?thesis by (simp only: option.case print_str_padded)
    qed
    show ?thesis unfolding Txt piece_fmt.simps piece_args.simps
      by (rule vsn_convert [OF room wq]) (use conv_chars s in \<open>simp_all add: convert_def del: piece_out.simps\<close>)
  next
    case (SNum z w lng v)
    then have w: "w < 2 ^ 31" "z \<or> 0 \<le> sint v \<or> w = 0" "lng \<or> scast (ucast v :: u32) = v" using ok by simp_all
    have t: "take_number lng True (piece_args (SNum z w lng v) @ ap) = Inr (v, ap)"
      using w(3) by (cases lng) (simp_all add: take_number_def)
    show ?thesis unfolding SNum piece_fmt.simps
      by (rule vsn_convert [OF room w(1)])
        (use conv_chars t print_int_numeral [OF room w(2)] in \<open>simp_all add: convert_def del: piece_out.simps piece_args.simps\<close>)
  next
    case (UNum z w lng b v)
    then have w: "w < 2 ^ 31" "b \<in> {8, 10, 16}" "lng \<or> ucast (ucast v :: u32) = v" using ok by simp_all
    have t: "take_number lng False (piece_args (UNum z w lng b v) @ ap) = Inr (v, ap)"
      using w(3) by (cases lng) (simp_all add: take_number_def)
    have p: "print_uint cap v b (int w) z out = put_chars cap (piece_out (UNum z w lng b v)) out"
      using w(2) print_uint_numeral [of b] by auto
    show ?thesis unfolding UNum piece_fmt.simps
      by (rule vsn_convert [OF room w(1)])
        (use conv_chars t p w(2) in \<open>auto simp: convert_def base_char_def simp del: piece_out.simps piece_args.simps\<close>)
  qed
qed (simp add: vsn_full put_chars_full)

lemma vsn_pieces:
  "list_all piece_ok ps \<Longrightarrow>
   vsn_loop cap (concat (map piece_fmt ps)) (concat (map piece_args ps)) out = Inr (put_chars cap (concat (map piece_out ps)) out)"
proof (induction ps arbitrary: out)
  case Nil
  then show ?case by (simp add: vsn_loop.simps)
next
  case (Cons p ps)
  then show ?case by (simp add: vsn_piece put_chars_append)
qed

lemma vsnprintf_pieces:
  assumes ok: "list_all piece_ok ps" and cap: "0 < cap" "cap \<le> 2 ^ 31"
    and r: "r = trunc cap (concat (map piece_out ps))"
  shows "vsnprintf cap (concat (map piece_fmt ps)) (concat (map piece_args ps)) = Inr (int (length r), Some r)"
proof -
  have p: "put_chars cap (concat (map piece_out ps)) [] = r" using cap r by (simp add: put_chars_take trunc_def)
  have "length r < 2 ^ 31" using cap r by (simp add: trunc_def)
  then have "sint (word_of_nat (length r) :: u32) = int (length r)"
    by (simp add: signed_of_nat signed_take_bit_int_eq_self)
  then show ?thesis using cap vsn_pieces [OF ok, of cap "[]"] p by (simp add: vsnprintf_def)
qed

subsection \<open>What differs from the standard\<close>

text \<open>\<open>%zu\<close>, which the sizes of pools and arrays are printed with, is not known: it prints its letters and takes no argument.\<close>

lemma zu_unknown: "3 \<le> cap \<Longrightarrow> vsn_loop cap (''%zu'' @ fmt) ap [] = vsn_loop cap fmt ap ''zu''"
proof -
  assume cap: "3 \<le> cap"
  have p: "\<exists>sp. parse_spec (CHR ''z'' # CHR ''u'' # fmt) ap = Inr (sp, CHR ''z'' # CHR ''u'' # fmt, ap)"
    by (simp add: parse_spec_def format_number_def flag_def digits_val_def isdigit_def)
  then obtain sp where sp: "parse_spec (CHR ''z'' # CHR ''u'' # fmt) ap = Inr (sp, CHR ''z'' # CHR ''u'' # fmt, ap)" ..
  have "vsn_loop cap (CHR ''%'' # CHR ''z'' # CHR ''u'' # fmt) ap [] = vsn_loop cap (CHR ''u'' # fmt) ap ''z''"
    by (rule vsn_spec [OF _ sp]) (use cap in \<open>simp_all add: convert_def put_def\<close>)
  then show ?thesis using cap by (simp add: vsn_lit put_def)
qed

text \<open>A negative number padded with blanks has its sign before them, and a fraction below zero loses its sign.\<close>

lemma sign_before_blanks: "vsnprintf 16 ''%5d'' [VInt (- 3)] = Inr (5, Some ''-   3'')"
  by code_simp

lemma half_loses_sign:
  "f64_to_int v = 0 \<Longrightarrow> \<exists>fp. print_double cap v p out = print_fraction cap (if 0 \<le> p then nat p else 4) fp (put_chars cap ''0.'' out)"
  using put_chars_append [of cap "''0''" "''.''" out]
  by (auto simp: print_double_def Let_def print_int_def print_uint_def put_put_all)

lemma left_numbers_not_aligned: "vsnprintf 16 ''%-5d'' [VInt 3] = Inr (5, Some ''    3'')"
  by code_simp

text \<open>The result is the length of what was kept, so a caller that looks for truncation never sees it.\<close>

lemma truncation_unseen: "vsnprintf 4 ''abcdef'' [] = Inr (3, Some ''abc'')"
  by code_simp

subsection \<open>Property\<close>

text \<open>C4: For a format made of characters, \<open>%%\<close>, \<open>%d\<close>, \<open>%u\<close>, \<open>%x\<close>, \<open>%o\<close> (with \<open>ll\<close>, zero flag and width), \<open>%s\<close> (left,
  width, precision) and \<open>%c\<close> with the arguments they ask for, \<open>vsnprintf\<close> stores the text that the C standard gives, cut
  to the buffer with room for the terminator, and returns the number of characters stored. Not covered are \<open>%zu\<close>, which
  it does not know (\<open>zu_unknown\<close>), \<open>%g\<close> and \<open>%f\<close>, and a negative number with a width and no zero flag, whose sign it
  puts before the blanks (\<open>sign_before_blanks\<close>).\<close>

theorem vsnprintf_exact:
  assumes "list_all piece_ok ps" "0 < cap" "cap \<le> 2 ^ 31" "r = trunc cap (concat (map piece_out ps))"
  shows "vsnprintf cap (concat (map piece_fmt ps)) (concat (map piece_args ps)) = Inr (int (length r), Some r)"
  by (rule vsnprintf_pieces [OF assms])

theorem vsnprintf_exact_witness:
  "vsnprintf 12 ''x%04d%-4s%llx%%'' [VInt (- 7), VStr (Some ''ab''), VLong 255] = Inr (11, Some ''x-007ab  ff'')"
proof -
  let ?ps = "[Lit (CHR ''x''), SNum True 4 False (- 7), Txt True 4 None (Some ''ab''), UNum False 0 True 16 255, Percent]"
  have ok: "list_all piece_ok ?ps" by (simp add: piece_ok.simps)
  have "concat (map piece_out ?ps) = ''x-007ab  ff%''" by code_simp
  then have r: "''x-007ab  ff'' = trunc 12 (concat (map piece_out ?ps))" by (simp only:) (simp add: trunc_def)
  have "vsnprintf 12 (concat (map piece_fmt ?ps)) (concat (map piece_args ?ps)) =
      Inr (int (length ''x-007ab  ff''), Some ''x-007ab  ff'')"
    by (rule vsnprintf_exact [OF ok _ _ r]) simp_all
  moreover have "concat (map piece_fmt ?ps) = ''x%04d%-4s%llx%%''" by code_simp
  moreover have "concat (map piece_args ?ps) = [VInt (- 7), VStr (Some ''ab''), VLong 255]" by simp
  moreover have "int (length ''x-007ab  ff'') = 11" by simp
  ultimately show ?thesis by (simp only:)
qed

end
