(* ===== verification/Libc_Io.thy ===== *)
theory Libc_Io
  imports Libc_Fmt
begin

section \<open>Standard input and output without a C library (\<^verbatim>\<open>kernel/libc_stub.c\<close>)\<close>

text \<open>
  The state is the line buffer (its \<^verbatim>\<open>line_buf_len\<close> bytes), the position in it, what \<^verbatim>\<open>nexs_hal_getc\<close> is
  going to return (\<open>-1\<close> while no key is there) and what was printed. \<open>None\<close> is waiting for a key that never comes.
\<close>

record stdio =
  line_buf :: "u8 list"
  line_buf_pos :: nat
  getc :: "int list"
  printed :: string

definition LINE_BUF :: nat where
  "LINE_BUF = 512"

definition byte_char :: "u8 \<Rightarrow> char" where
  "byte_char b = char_of (unat b)"

text \<open>Keys up to the end of a line, echoed and edited.\<close>

fun read_line :: "int list \<Rightarrow> u8 list \<Rightarrow> string \<Rightarrow> (int list \<times> u8 list \<times> string) option" where
  "read_line [] buf out = None"
| "read_line (ch # inp) buf out =
     (if ch = -1 then read_line inp buf out
      else if ch = 13 \<or> ch = 10 then Some (inp, buf @ [10], out @ [CHR 0x0D, CHR 0x0A])
      else if ch = 8 \<or> ch = 127 then
        if buf \<noteq> [] then read_line inp (butlast buf) (out @ [CHR 0x08, CHR 0x20, CHR 0x08]) else read_line inp buf out
      else if length buf < LINE_BUF - 2 then
        read_line inp (buf @ [of_int ch]) (out @ c_str [byte_char (of_int ch)])
      else read_line inp buf out)"

definition fill :: "stdio \<Rightarrow> stdio option" where
  "fill st =
     (if length (line_buf st) \<le> line_buf_pos st then
        case read_line (getc st) [] (printed st) of
          None \<Rightarrow> None
        | Some (inp, buf, out) \<Rightarrow> Some (st\<lparr>line_buf := buf, line_buf_pos := 0, getc := inp, printed := out\<rparr>)
      else Some st)"

fun fread_loop :: "nat \<Rightarrow> stdio \<Rightarrow> u8 list \<Rightarrow> (u8 list \<times> stdio) option" where
  "fread_loop 0 st got = Some (got, st)"
| "fread_loop (Suc n) st got =
     (case fill st of
        None \<Rightarrow> None
      | Some st \<Rightarrow>
          fread_loop n (st\<lparr>line_buf_pos := line_buf_pos st + 1\<rparr>) (got @ [line_buf st ! line_buf_pos st]))"

text \<open>\<open>is_stdin\<close> is whether the stream is \<^verbatim>\<open>stdin\<close>; the result is the count and the bytes.\<close>

definition fread :: "bool \<Rightarrow> nat \<Rightarrow> nat \<Rightarrow> stdio \<Rightarrow> (nat \<times> u8 list \<times> stdio) option" where
  "fread is_stdin sz nmemb st =
     (if is_stdin then
        case fread_loop ((sz * nmemb) mod 2 ^ 64) st [] of
          None \<Rightarrow> None
        | Some (got, st) \<Rightarrow> Some (nmemb, got, st)
      else Some (0, [], st))"

fun fgets_from :: "nat \<Rightarrow> bool \<Rightarrow> stdio \<Rightarrow> u8 list \<Rightarrow> (u8 list \<times> stdio) option" where
  "fgets_from 0 is_stdin st str = Some (str, st)"
| "fgets_from (Suc n) is_stdin st str =
     (case fread is_stdin 1 1 st of
        None \<Rightarrow> None
      | Some (k, got, st) \<Rightarrow>
          if k \<noteq> 1 then Some (str, st)
          else if got = [10] then Some (str @ got, st)
          else fgets_from n is_stdin st (str @ got))"

text \<open>The result is the characters before the terminator that is stored, or none for a null result.\<close>

definition fgets :: "int \<Rightarrow> bool \<Rightarrow> stdio \<Rightarrow> (u8 list option \<times> stdio) option" where
  "fgets n is_stdin st =
     (if n \<le> 0 then Some (None, st)
      else case fgets_from (nat (n - 1)) is_stdin st [] of
        None \<Rightarrow> None
      | Some (str, st) \<Rightarrow> Some (if str = [] then None else Some str, st))"

definition fputs :: "string \<Rightarrow> stdio \<Rightarrow> int \<times> stdio" where
  "fputs s st = (0, st\<lparr>printed := printed st @ c_str s\<rparr>)"

definition fputc :: "int \<Rightarrow> stdio \<Rightarrow> int \<times> stdio" where
  "fputc c st = (0, st\<lparr>printed := printed st @ c_str [char_of (nat (c mod 256))]\<rparr>)"

definition fwrite :: "u8 list option \<Rightarrow> nat \<Rightarrow> nat \<Rightarrow> stdio \<Rightarrow> nat \<times> stdio" where
  "fwrite ptr sz nmemb st =
     (let total = (sz * nmemb) mod 2 ^ 64 in
      case ptr of
        None \<Rightarrow> (0, st)
      | Some bs \<Rightarrow>
          if total = 0 then (0, st)
          else (nmemb, st\<lparr>printed := printed st @ concat (map (\<lambda>b. c_str [byte_char b]) (take total bs))\<rparr>))"

subsection \<open>POSIX calls on the console\<close>

definition STDIN_FILENO :: int where "STDIN_FILENO = 0"
definition STDOUT_FILENO :: int where "STDOUT_FILENO = 1"
definition STDERR_FILENO :: int where "STDERR_FILENO = 2"

text \<open>One key, past the line buffer.\<close>

definition read_fd :: "int \<Rightarrow> bool \<Rightarrow> nat \<Rightarrow> stdio \<Rightarrow> (int \<times> u8 list \<times> stdio) option" where
  "read_fd fd buf count st =
     (if fd = STDIN_FILENO then
        if count = 0 \<or> \<not> buf then Some (0, [], st)
        else case dropWhile (\<lambda>ch. ch = -1) (getc st) of
          [] \<Rightarrow> None
        | ch # inp \<Rightarrow> Some (1, [of_int ch], st\<lparr>getc := inp\<rparr>)
      else Some (-1, [], st))"

definition put_crlf :: "u8 \<Rightarrow> string" where
  "put_crlf b = (if b = 10 then [CHR 0x0D, CHR 0x0A] else [byte_char b])"

definition write_fd :: "int \<Rightarrow> u8 list option \<Rightarrow> nat \<Rightarrow> stdio \<Rightarrow> int \<times> stdio" where
  "write_fd fd buf count st =
     (if fd = STDOUT_FILENO \<or> fd = STDERR_FILENO then
        case buf of
          None \<Rightarrow> (0, st)
        | Some bs \<Rightarrow>
            if count = 0 then (0, st)
            else (int count, st\<lparr>printed := printed st @ concat (map put_crlf (take count bs))\<rparr>)
      else (-1, st))"

subsection \<open>What the line discipline delivers\<close>

text \<open>The bytes of the lines that the keys make, with the line being typed in \<open>buf\<close>; one without its end is not delivered.\<close>

fun typed :: "int list \<Rightarrow> u8 list \<Rightarrow> u8 list" where
  "typed [] buf = []"
| "typed (ch # inp) buf =
     (if ch = -1 then typed inp buf
      else if ch = 13 \<or> ch = 10 then buf @ [10] @ typed inp []
      else if ch = 8 \<or> ch = 127 then typed inp (butlast buf)
      else if length buf < LINE_BUF - 2 then typed inp (buf @ [of_int ch])
      else typed inp buf)"

definition pending :: "stdio \<Rightarrow> u8 list" where
  "pending st = drop (line_buf_pos st) (line_buf st) @ typed (getc st) []"

definition stdio_ok :: "stdio \<Rightarrow> bool" where
  "stdio_ok st \<longleftrightarrow> length (line_buf st) < LINE_BUF \<and> line_buf_pos st \<le> length (line_buf st)"

lemma read_line_typed:
  assumes "read_line inp buf out = Some (inp', buf', out')" "length buf \<le> LINE_BUF - 2"
  shows "typed inp buf = buf' @ typed inp' [] \<and> buf' \<noteq> [] \<and> length buf' < LINE_BUF"
  using assms
proof (induction inp buf out rule: read_line.induct)
  case (2 ch inp buf out)
  then show ?case by (auto split: if_splits simp: LINE_BUF_def)
qed simp

lemma read_line_none:
  "read_line inp buf out = None \<Longrightarrow> typed inp buf = []"
  by (induction inp buf out rule: read_line.induct) (auto split: if_splits)

lemma fill_pending:
  assumes "stdio_ok st"
  shows "case fill st of
      None \<Rightarrow> pending st = []
    | Some st' \<Rightarrow> stdio_ok st' \<and> pending st' = pending st \<and> line_buf_pos st' < length (line_buf st')"
proof (cases "length (line_buf st) \<le> line_buf_pos st")
  case True
  show ?thesis
  proof (cases "read_line (getc st) [] (printed st)")
    case None
    then show ?thesis using True read_line_none [OF None] by (simp add: fill_def pending_def)
  next
    case (Some r)
    obtain inp buf out where r: "r = (inp, buf, out)" by (cases r)
    show ?thesis using read_line_typed [OF Some [unfolded r]] True Some r by (simp add: fill_def pending_def stdio_ok_def)
  qed
next
  case False
  then show ?thesis using assms by (simp add: fill_def)
qed

lemma fread_loop_pending:
  "stdio_ok st \<Longrightarrow>
   (case fread_loop n st got of
      None \<Rightarrow> length (pending st) < n
    | Some (bs, st') \<Rightarrow> n \<le> length (pending st) \<and> bs = got @ take n (pending st) \<and> stdio_ok st' \<and> pending st' = drop n (pending st))"
proof (induction n arbitrary: st got)
  case (Suc n)
  show ?case
  proof (cases "fill st")
    case None
    then show ?thesis using fill_pending [OF Suc.prems] by simp
  next
    case (Some st')
    let ?s = "st'\<lparr>line_buf_pos := line_buf_pos st' + 1\<rparr>" and ?b = "line_buf st' ! line_buf_pos st'"
    have f: "stdio_ok st'" "pending st' = pending st" "line_buf_pos st' < length (line_buf st')"
      using fill_pending [OF Suc.prems] Some by simp_all
    have p: "pending st = ?b # pending ?s"
      unfolding f(2) [symmetric] using f(3) by (simp add: pending_def flip: Cons_nth_drop_Suc)
    have ok: "stdio_ok ?s" using f by (simp add: stdio_ok_def)
    show ?thesis using Suc.IH [OF ok, of "got @ [?b]"] Some p by (auto split: option.splits prod.splits)
  qed
qed simp

lemma fread_byte:
  assumes "stdio_ok st"
  shows "case fread True 1 1 st of
      None \<Rightarrow> pending st = []
    | Some (k, bs, st') \<Rightarrow> k = 1 \<and> stdio_ok st' \<and> (\<exists>b. bs = [b] \<and> pending st = b # pending st')"
proof -
  have "fread True 1 1 st = (case fread_loop 1 st [] of None \<Rightarrow> None | Some (got, st) \<Rightarrow> Some (Suc 0, got, st))"
    by (simp add: fread_def del: fread_loop.simps)
  then show ?thesis
    using fread_loop_pending [OF assms, of 1 "[]"] by (cases "pending st") (auto simp del: fread_loop.simps split: option.splits prod.splits)
qed

lemma fgets_from_pending:
  "stdio_ok st \<Longrightarrow>
   (case fgets_from n True st str of
      None \<Rightarrow> 10 \<notin> set (pending st) \<and> length (pending st) < n
    | Some (bs, st') \<Rightarrow> stdio_ok st' \<and> (\<exists>line. pending st = line @ pending st' \<and> bs = str @ line \<and> length line \<le> n \<and>
        10 \<notin> set (butlast line) \<and> (length line = n \<or> (line \<noteq> [] \<and> last line = 10))))"
proof (induction n arbitrary: st str)
  case (Suc n)
  show ?case
  proof (cases "fread True 1 1 st")
    case None
    then show ?thesis using fread_byte [OF Suc.prems] by simp
  next
    case (Some r)
    obtain k bs st1 where r: "r = (k, bs, st1)" by (cases r)
    then obtain b where b: "k = 1" "bs = [b]" "pending st = b # pending st1" and ok: "stdio_ok st1"
      using fread_byte [OF Suc.prems] Some by auto
    show ?thesis
    proof (cases "b = 10")
      case True
      then show ?thesis using Some r b ok by (auto intro!: exI [of _ "[b]"])
    next
      case False
      have eq: "fgets_from (Suc n) True st str = fgets_from n True st1 (str @ [b])" using Some r b False by simp
      show ?thesis
      proof (cases "fgets_from n True st1 (str @ [b])")
        case None
        then show ?thesis using Suc.IH [OF ok, of "str @ [b]"] eq b False by simp
      next
        case (Some q)
        obtain bs2 st2 where q: "q = (bs2, st2)" by (cases q)
        from Suc.IH [OF ok, of "str @ [b]"] Some q obtain line where l: "stdio_ok st2" "pending st1 = line @ pending st2"
          "bs2 = str @ [b] @ line" "length line \<le> n" "10 \<notin> set (butlast line)" "length line = n \<or> (line \<noteq> [] \<and> last line = 10)"
          by auto
        have "\<exists>line. pending st = line @ pending st2 \<and> bs2 = str @ line \<and> length line \<le> Suc n \<and>
            10 \<notin> set (butlast line) \<and> (length line = Suc n \<or> (line \<noteq> [] \<and> last line = 10))"
          by (rule exI [of _ "b # line"]) (use l b False in auto)
        then show ?thesis using eq Some q l(1) by simp
      qed
    qed
  qed
qed simp

subsection \<open>Property\<close>

lemma fgets_of_pending:
  assumes ok: "stdio_ok st" and n: "2 \<le> n"
  shows "case fgets n True st of
      None \<Rightarrow> 10 \<notin> set (pending st) \<and> length (pending st) < nat (n - 1)
    | Some (r, st') \<Rightarrow> stdio_ok st' \<and> (\<exists>line. r = Some line \<and> pending st = line @ pending st' \<and> length line \<le> nat (n - 1) \<and>
        10 \<notin> set (butlast line) \<and> line \<noteq> [] \<and> (length line = nat (n - 1) \<or> last line = 10))"
proof (cases "fgets_from (nat (n - 1)) True st []")
  case None
  then show ?thesis using fgets_from_pending [OF ok, of "nat (n - 1)" "[]"] n by (simp add: fgets_def)
next
  case (Some q)
  obtain bs st' where q: "q = (bs, st')" by (cases q)
  have "0 < nat (n - 1)" using n by simp
  then show ?thesis using fgets_from_pending [OF ok, of "nat (n - 1)" "[]"] n Some q by (auto simp: fgets_def)
qed

text \<open>C21: The bytes a program reads with \<open>fgets\<close> are those of the lines the keys make, edited with backspace, each once
  and in order: a call returns the next bytes up to the end of a line or of its buffer and leaves the rest for the next
  call; it waits for ever only when no end of line is to come and the keys do not fill the buffer.
  The line buffer is never overrun.\<close>

theorem fgets_line:
  assumes "stdio_ok st" "2 \<le> n"
  shows "case fgets n True st of
      None \<Rightarrow> 10 \<notin> set (pending st) \<and> length (pending st) < nat (n - 1)
    | Some (r, st') \<Rightarrow> stdio_ok st' \<and> (\<exists>line. r = Some line \<and> pending st = line @ pending st' \<and> length line \<le> nat (n - 1) \<and>
        10 \<notin> set (butlast line) \<and> line \<noteq> [] \<and> (length line = nat (n - 1) \<or> last line = 10))"
  by (rule fgets_of_pending [OF assms])

definition stdio0 :: "int list \<Rightarrow> stdio" where
  "stdio0 keys = \<lparr>line_buf = [], line_buf_pos = 0, getc = keys, printed = []\<rparr>"

theorem fgets_line_witness:
  "\<exists>st'. fgets 16 True (stdio0 [97, -1, 98, 127, 99, 13, 100]) = Some (Some [97, 99, 10], st')"
proof -
  let ?st = "stdio0 [97, -1, 98, 127, 99, 13, 100]"
  have ok: "stdio_ok ?st" by (simp add: stdio0_def stdio_ok_def LINE_BUF_def)
  have p: "pending ?st = [97, 99, 10]" by (simp add: pending_def stdio0_def LINE_BUF_def)
  from fgets_line [OF ok, of 16] p obtain line st' where l: "fgets 16 True ?st = Some (Some line, st')"
      "[97, 99, 10] = line @ pending st'" "length line = 15 \<or> last line = 10" "line \<noteq> []"
    by (auto split: option.splits)
  have "line = [97, 99, 10]"
    using l(2-4) by (cases "pending st'") (auto simp: Cons_eq_append_conv append_eq_Cons_conv)
  then show ?thesis using l(1) by blast
qed

end
