(* ===== verification/Libc_Str.thy ===== *)
theory Libc_Str
  imports Roundtrip
begin

section \<open>Memory and strings without a C library (\<^verbatim>\<open>kernel/libc_stub.c\<close>)\<close>

text \<open>
  Memory is a byte for every address; the bounds of the objects in it are the caller's concern, as they are in C.
  A loop that ends at a terminator is a partial function: without one it reads on, and \<open>None\<close> is that it never ends.
\<close>

type_synonym mem = "nat \<Rightarrow> u8"

fun memset :: "mem \<Rightarrow> nat \<Rightarrow> u32 \<Rightarrow> nat \<Rightarrow> mem" where
  "memset m p ch 0 = m"
| "memset m p ch (Suc count) = memset (m(p := ucast ch)) (p + 1) ch count"

fun memcpy :: "mem \<Rightarrow> nat \<Rightarrow> nat \<Rightarrow> nat \<Rightarrow> mem" where
  "memcpy m d s 0 = m"
| "memcpy m d s (Suc count) = memcpy (m(d := m s)) (d + 1) (s + 1) count"

fun memcpy_down :: "mem \<Rightarrow> nat \<Rightarrow> nat \<Rightarrow> nat \<Rightarrow> mem" where
  "memcpy_down m d s 0 = m"
| "memcpy_down m d s (Suc count) = memcpy_down (m(d - 1 := m (s - 1))) (d - 1) (s - 1) count"

definition memmove :: "mem \<Rightarrow> nat \<Rightarrow> nat \<Rightarrow> nat \<Rightarrow> mem" where
  "memmove m dest src count =
     (if dest < src then memcpy m dest src count else memcpy_down m (dest + count) (src + count) count)"

fun memcmp :: "mem \<Rightarrow> nat \<Rightarrow> nat \<Rightarrow> nat \<Rightarrow> int" where
  "memcmp m p1 p2 0 = 0"
| "memcmp m p1 p2 (Suc count) = (if m p1 \<noteq> m p2 then uint (m p1) - uint (m p2) else memcmp m (p1 + 1) (p2 + 1) count)"

partial_function (option) strlen_from :: "mem \<Rightarrow> nat \<Rightarrow> nat \<Rightarrow> nat option" where
  "strlen_from m str l = (if m str = 0 then Some l else strlen_from m (str + 1) (l + 1))"

definition strlen :: "mem \<Rightarrow> nat \<Rightarrow> nat option" where
  "strlen m str = strlen_from m str 0"

partial_function (option) strcpy :: "mem \<Rightarrow> nat \<Rightarrow> nat \<Rightarrow> mem option" where
  "strcpy m d src =
     (let m' = m(d := m src) in if m src = 0 then Some m' else strcpy m' (d + 1) (src + 1))"

text \<open>The first loop of \<^verbatim>\<open>strncpy\<close> leaves \<open>count\<close> alone when it copies the terminator.\<close>

fun strncpy_copy :: "mem \<Rightarrow> nat \<Rightarrow> nat \<Rightarrow> nat \<Rightarrow> mem \<times> nat \<times> nat" where
  "strncpy_copy m d src 0 = (m, d, 0)"
| "strncpy_copy m d src (Suc count) =
     (let m' = m(d := m src) in if m src = 0 then (m', d + 1, Suc count) else strncpy_copy m' (d + 1) (src + 1) count)"

definition strncpy :: "mem \<Rightarrow> nat \<Rightarrow> nat \<Rightarrow> nat \<Rightarrow> mem" where
  "strncpy m dest src count = (case strncpy_copy m dest src count of (m, d, count) \<Rightarrow> memset m d 0 count)"

partial_function (option) strcmp :: "mem \<Rightarrow> nat \<Rightarrow> nat \<Rightarrow> int option" where
  "strcmp m lhs rhs =
     (if m lhs \<noteq> 0 \<and> m lhs = m rhs then strcmp m (lhs + 1) (rhs + 1) else Some (uint (m lhs) - uint (m rhs)))"

fun strncmp :: "mem \<Rightarrow> nat \<Rightarrow> nat \<Rightarrow> nat \<Rightarrow> int" where
  "strncmp m lhs rhs 0 = 0"
| "strncmp m lhs rhs (Suc count) =
     (if count \<noteq> 0 \<and> m lhs \<noteq> 0 \<and> m lhs = m rhs then strncmp m (lhs + 1) (rhs + 1) count
      else uint (m lhs) - uint (m rhs))"

partial_function (option) strchr :: "mem \<Rightarrow> nat \<Rightarrow> u32 \<Rightarrow> nat option option" where
  "strchr m str ch =
     (if m str \<noteq> 0 \<and> m str \<noteq> ucast ch then strchr m (str + 1) ch
      else Some (if m str = ucast ch then Some str else None))"

partial_function (option) strrchr_from :: "mem \<Rightarrow> nat \<Rightarrow> u32 \<Rightarrow> nat option \<Rightarrow> nat option option" where
  "strrchr_from m str ch ret =
     (let ret = (if m str = ucast ch then Some str else ret) in
      if m str \<noteq> 0 then strrchr_from m (str + 1) ch ret else Some ret)"

definition strrchr :: "mem \<Rightarrow> nat \<Rightarrow> u32 \<Rightarrow> nat option option" where
  "strrchr m str ch = strrchr_from m str ch None"

partial_function (option) strstr_from :: "mem \<Rightarrow> nat \<Rightarrow> nat \<Rightarrow> nat \<Rightarrow> nat option option" where
  "strstr_from m haystack needle n =
     (if m haystack = 0 then Some None
      else if memcmp m haystack needle n = 0 then Some (Some haystack)
      else strstr_from m (haystack + 1) needle n)"

definition strstr :: "mem \<Rightarrow> nat \<Rightarrow> nat \<Rightarrow> nat option option" where
  "strstr m haystack needle =
     Option.bind (strlen m needle) (\<lambda>n. if n = 0 then Some (Some haystack) else strstr_from m haystack needle n)"

fun strncat_copy :: "mem \<Rightarrow> nat \<Rightarrow> nat \<Rightarrow> nat \<Rightarrow> mem \<times> nat" where
  "strncat_copy m p src 0 = (m, p)"
| "strncat_copy m p src (Suc count) = (if m src = 0 then (m, p) else strncat_copy (m(p := m src)) (p + 1) (src + 1) count)"

definition strncat :: "mem \<Rightarrow> nat \<Rightarrow> nat \<Rightarrow> nat \<Rightarrow> mem option" where
  "strncat m dest src count =
     Option.bind (strlen m dest) (\<lambda>l. case strncat_copy m (dest + l) src count of (m, p) \<Rightarrow> Some (m(p := 0)))"

text \<open>\<^verbatim>\<open>strtok\<close>: the static variable \<^verbatim>\<open>last\<close> is the argument \<open>tok\<close> and a result.\<close>

partial_function (option) tok_skip :: "mem \<Rightarrow> nat \<Rightarrow> nat \<Rightarrow> nat option" where
  "tok_skip m str delim =
     (if m str = 0 then Some str
      else Option.bind (strchr m delim (ucast (m str))) (\<lambda>r. if r \<noteq> None then tok_skip m (str + 1) delim else Some str))"

partial_function (option) tok_end :: "mem \<Rightarrow> nat \<Rightarrow> nat \<Rightarrow> nat option" where
  "tok_end m str delim =
     (if m str = 0 then Some str
      else Option.bind (strchr m delim (ucast (m str))) (\<lambda>r. if r = None then tok_end m (str + 1) delim else Some str))"

definition strtok :: "mem \<Rightarrow> nat option \<Rightarrow> nat \<Rightarrow> nat option \<Rightarrow> (nat option \<times> mem \<times> nat option) option" where
  "strtok m str delim tok =
     (case (case str of None \<Rightarrow> tok | Some s \<Rightarrow> Some s) of
        None \<Rightarrow> Some (None, m, tok)
      | Some s \<Rightarrow>
          Option.bind (tok_skip m s delim) (\<lambda>token.
          if m token = 0 then Some (None, m, None)
          else Option.bind (tok_end m token delim) (\<lambda>e.
            if m e \<noteq> 0 then Some (Some token, m(e := 0), Some (e + 1)) else Some (Some token, m, None))))"

subsection \<open>Characters and numbers\<close>

definition isspace :: "int \<Rightarrow> bool" where
  "isspace c \<longleftrightarrow> c = 32 \<or> c = 9 \<or> c = 10 \<or> c = 13 \<or> c = 11 \<or> c = 12"

definition isdigit :: "int \<Rightarrow> bool" where
  "isdigit c \<longleftrightarrow> 48 \<le> c \<and> c \<le> 57"

definition isalpha :: "int \<Rightarrow> bool" where
  "isalpha c \<longleftrightarrow> (97 \<le> c \<and> c \<le> 122) \<or> (65 \<le> c \<and> c \<le> 90)"

definition isalnum :: "int \<Rightarrow> bool" where
  "isalnum c \<longleftrightarrow> isalpha c \<or> isdigit c"

definition tolower :: "int \<Rightarrow> int" where
  "tolower c = (if 65 \<le> c \<and> c \<le> 90 then c + 32 else c)"

definition toupper :: "int \<Rightarrow> int" where
  "toupper c = (if 97 \<le> c \<and> c \<le> 122 then c - 32 else c)"

text \<open>The bytes before the first that fails the test, by address.\<close>

partial_function (option) skip_while :: "(int \<Rightarrow> bool) \<Rightarrow> mem \<Rightarrow> nat \<Rightarrow> nat option" where
  "skip_while f m p = (if f (sint (m p)) then skip_while f m (p + 1) else Some p)"

definition sign_at :: "mem \<Rightarrow> nat \<Rightarrow> int \<times> nat" where
  "sign_at m p = (if m p = 45 then (-1, p + 1) else if m p = 43 then (1, p + 1) else (1, p))"

definition strtol_digit :: "u8 \<Rightarrow> int \<Rightarrow> int" where
  "strtol_digit b base =
     (let c = uint b in
      if 48 \<le> c \<and> c \<le> 57 then c - 48
      else if 97 \<le> c \<and> c \<le> 102 then c - 97 + 10
      else if 65 \<le> c \<and> c \<le> 70 then c - 65 + 10 else base)"

partial_function (option) strtol_loop :: "mem \<Rightarrow> nat \<Rightarrow> int \<Rightarrow> u64 \<Rightarrow> (u64 \<times> nat) option" where
  "strtol_loop m p base res =
     (if m p = 0 then Some (res, p)
      else if base \<le> strtol_digit (m p) base then Some (res, p)
      else strtol_loop m (p + 1) base (res * of_int base + of_int (strtol_digit (m p) base)))"

text \<open>\<open>long\<close> has 64 bits and overflow wraps; the second result is what goes through \<open>endptr\<close>.\<close>

definition strtol :: "mem \<Rightarrow> nat \<Rightarrow> int \<Rightarrow> (u64 \<times> nat) option" where
  "strtol m nptr base =
     Option.bind (skip_while isspace m nptr) (\<lambda>p.
     let (sign, p) = sign_at m p;
         (p, base) = (if base = 0 then
             (if m p = 48 then (if m (p + 1) = 120 \<or> m (p + 1) = 88 then (p + 2, 16) else (p + 1, 8)) else (p, 10))
           else (p, base)) in
     Option.bind (strtol_loop m p base 0) (\<lambda>(res, p). Some (res * of_int sign, p)))"

definition strtoul :: "mem \<Rightarrow> nat \<Rightarrow> int \<Rightarrow> (u64 \<times> nat) option" where
  "strtoul m nptr base = strtol m nptr base"

partial_function (option) atoll_loop :: "mem \<Rightarrow> nat \<Rightarrow> u64 \<Rightarrow> u64 option" where
  "atoll_loop m p res =
     (if isdigit (sint (m p)) then atoll_loop m (p + 1) (res * 10 + of_int (sint (m p) - 48)) else Some res)"

definition atoll :: "mem \<Rightarrow> nat \<Rightarrow> u64 option" where
  "atoll m nptr =
     Option.bind (skip_while isspace m nptr) (\<lambda>p.
     let (sign, p) = sign_at m p in Option.bind (atoll_loop m p 0) (\<lambda>res. Some (res * of_int sign)))"

definition atoi :: "mem \<Rightarrow> nat \<Rightarrow> u32 option" where
  "atoi m nptr = Option.bind (atoll m nptr) (\<lambda>r. Some (ucast r))"

partial_function (option) atof_int :: "mem \<Rightarrow> nat \<Rightarrow> f64 \<Rightarrow> (f64 \<times> nat) option" where
  "atof_int m p res =
     (if isdigit (sint (m p))
      then atof_int m (p + 1) (f64_add (f64_mul res (f64_of_int 10)) (f64_of_int (of_int (sint (m p) - 48))))
      else Some (res, p))"

partial_function (option) atof_fract :: "mem \<Rightarrow> nat \<Rightarrow> f64 \<Rightarrow> f64 \<Rightarrow> f64 option" where
  "atof_fract m p fract res =
     (if isdigit (sint (m p))
      then let fract = f64_div fract (f64_of_int 10) in
           atof_fract m (p + 1) fract (f64_add res (f64_mul (f64_of_int (of_int (sint (m p) - 48))) fract))
      else Some res)"

definition atof :: "mem \<Rightarrow> nat \<Rightarrow> f64 option" where
  "atof m nptr =
     Option.bind (skip_while isspace m nptr) (\<lambda>p.
     let (sign, p) = sign_at m p in
     Option.bind (atof_int m p (f64_of_int 0)) (\<lambda>(res, p).
     Option.bind (if m p = 46 then atof_fract m (p + 1) (f64_of_int 1) res else Some res) (\<lambda>res.
     Some (f64_mul res (f64_of_int (of_int sign))))))"

end
