(* ===== verification/Libc_Str_Facts.thy ===== *)
theory Libc_Str_Facts
  imports Libc_Str
begin

section \<open>What the memory and string functions do\<close>

text \<open>
  \<open>str_at m a s\<close>: a string without NUL bytes and its terminator are at \<open>a\<close>. The functions are described by
  what they read and write in terms of it.
\<close>

definition bytes_at :: "mem \<Rightarrow> nat \<Rightarrow> nat \<Rightarrow> u8 list" where
  "bytes_at m a n = map m [a..<a + n]"

definition str_at :: "mem \<Rightarrow> nat \<Rightarrow> u8 list \<Rightarrow> bool" where
  "str_at m a s \<longleftrightarrow> (\<forall>i < length s. m (a + i) = s ! i \<and> s ! i \<noteq> 0) \<and> m (a + length s) = 0"

lemma str_at_Nil [simp]: "str_at m a [] \<longleftrightarrow> m a = 0"
  by (simp add: str_at_def)

lemma str_at_Cons [simp]: "str_at m a (c # s) \<longleftrightarrow> m a = c \<and> c \<noteq> 0 \<and> str_at m (a + 1) s"
  by (auto simp: str_at_def All_less_Suc2)

lemma str_at_upd: "p < a \<or> a + length s < p \<Longrightarrow> str_at (m(p := v)) a s = str_at m a s"
  unfolding str_at_def by fastforce

lemma byte_diff: "uint a - uint b = 0 \<longleftrightarrow> (a :: u8) = b"
  by (simp add: word_uint_eq_iff)

subsection \<open>Copies\<close>

lemma memset_eq: "memset m p ch n a = (if p \<le> a \<and> a < p + n then ucast ch else m a)"
proof (induction n arbitrary: m p)
  case (Suc n)
  define m1 where m1: "m1 = m(p := ucast ch)"
  have "memset m p ch (Suc n) a = memset m1 (p + 1) ch n a" by (simp add: m1)
  moreover have "m1 a = (if a = p then ucast ch else m a)" by (simp add: m1)
  ultimately show ?case using Suc.IH [of m1 "p + 1"] by auto
qed auto

text \<open>A forward copy reads only what it has not written, when the destination is before the source.\<close>

lemma memcpy_eq:
  "d \<le> s \<or> s + n \<le> d \<Longrightarrow> memcpy m d s n a = (if d \<le> a \<and> a < d + n then m (a - d + s) else m a)"
proof (induction n arbitrary: m d s)
  case (Suc n)
  define m1 where m1: "m1 = m(d := m s)"
  have e: "memcpy m d s (Suc n) a = memcpy m1 (d + 1) (s + 1) n a" by (simp add: m1)
  have at: "m1 x = (if x = d then m s else m x)" for x by (simp add: m1)
  have "d + 1 \<le> s + 1 \<or> s + 1 + n \<le> d + 1" using Suc.prems by auto
  note ih = Suc.IH [OF this, of m1]
  have "a - (d + 1) + (s + 1) = a - d + s" if lt: "d < a" using lt by simp
  then show ?case using ih e Suc.prems at [of a] at [of "a - d + s"] by (cases "a = d") auto
qed auto

lemma memcpy_down_eq:
  "s \<le> d \<Longrightarrow> memcpy_down m (d + n) (s + n) n a = (if d \<le> a \<and> a < d + n then m (a - d + s) else m a)"
proof (induction n arbitrary: m)
  case (Suc n)
  define m1 where m1: "m1 = m(d + n := m (s + n))"
  have e: "memcpy_down m (d + Suc n) (s + Suc n) (Suc n) a = memcpy_down m1 (d + n) (s + n) n a" by (simp add: m1)
  have at: "m1 x = (if x = d + n then m (s + n) else m x)" for x by (simp add: m1)
  show ?case using Suc.IH [of m1] e Suc.prems at [of a] at [of "a - d + s"] by (cases "a = d + n") (auto simp: ac_simps)
qed auto

lemma memmove_eq: "memmove m d s n a = (if d \<le> a \<and> a < d + n then m (a - d + s) else m a)"
  by (simp add: memmove_def memcpy_eq memcpy_down_eq)

lemma memmove_bytes:
  "bytes_at (memmove m d s n) d n = bytes_at m s n"
  "a < d \<or> d + n \<le> a \<Longrightarrow> memmove m d s n a = m a"
proof -
  show "bytes_at (memmove m d s n) d n = bytes_at m s n"
    by (rule nth_equalityI) (simp_all add: bytes_at_def memmove_eq add.commute)
qed (auto simp: memmove_eq)

lemma bytes_at_Suc: "bytes_at m a (Suc n) = m a # bytes_at m (a + 1) n"
  using upt_conv_Cons [of a "a + Suc n"] by (simp add: bytes_at_def)

lemma memcmp_eq: "memcmp m a b n = 0 \<longleftrightarrow> bytes_at m a n = bytes_at m b n"
proof (induction m a b n rule: memcmp.induct)
  case (2 m a b n)
  then show ?case using byte_diff [of "m a" "m b"] by (cases "m a = m b") (simp_all add: bytes_at_Suc)
qed (simp add: bytes_at_def)

subsection \<open>Strings\<close>

lemma strlen_from_at: "str_at m a s \<Longrightarrow> strlen_from m a l = Some (l + length s)"
proof (induction s arbitrary: a l)
  case (Cons c s)
  then show ?case by (simp add: strlen_from.simps [of m a])
qed (simp add: strlen_from.simps)

lemma strlen_at: "str_at m a s \<Longrightarrow> strlen m a = Some (length s)"
  by (simp add: strlen_def strlen_from_at)

lemma strcpy_at:
  "str_at m s cs \<Longrightarrow> d < s \<or> s + length cs < d \<Longrightarrow>
   \<exists>m'. strcpy m d s = Some m' \<and> str_at m' d cs \<and> (\<forall>a. a < d \<or> d + length cs < a \<longrightarrow> m' a = m a)"
proof (induction cs arbitrary: m s d)
  case Nil
  then show ?case by (simp add: strcpy.simps)
next
  case (Cons c cs)
  define m1 where m1: "m1 = m(d := m s)"
  have s: "str_at m1 (s + 1) cs" using Cons.prems by (auto simp: m1 str_at_upd)
  have "\<exists>m'. strcpy m1 (d + 1) (s + 1) = Some m' \<and> str_at m' (d + 1) cs \<and>
      (\<forall>a. a < d + 1 \<or> d + 1 + length cs < a \<longrightarrow> m' a = m1 a)"
    by (rule Cons.IH [OF s]) (use Cons.prems(2) in auto)
  then obtain m' where m': "strcpy m1 (d + 1) (s + 1) = Some m'" "str_at m' (d + 1) cs"
      "\<And>a. a < d + 1 \<or> d + 1 + length cs < a \<Longrightarrow> m' a = m1 a" by blast
  have "strcpy m d s = Some m'" using m'(1) Cons.prems(1) by (simp add: strcpy.simps [of m d] m1)
  moreover have "m' d = c" using m'(3) [of d] Cons.prems(1) by (simp add: m1)
  moreover have "m' a = m a" if at: "a < d \<or> d + length (c # cs) < a" for a using m'(3) [of a] at by (auto simp: m1)
  ultimately show ?case using m'(2) Cons.prems(1) by auto
qed

lemma strcmp_at:
  "str_at m a s \<Longrightarrow> str_at m b t \<Longrightarrow> \<exists>r. strcmp m a b = Some r \<and> (r = 0 \<longleftrightarrow> s = t)"
proof (induction s arbitrary: t a b)
  case Nil
  then show ?case using byte_diff [of 0 "m b"] by (cases t) (auto simp: strcmp.simps [of m a])
next
  case (Cons c s)
  note ih = Cons.IH and prems = Cons.prems
  show ?case
  proof (cases t)
    case Nil
    then show ?thesis using Cons.prems byte_diff [of "m a" 0] by (auto simp: strcmp.simps [of m a])
  next
    case (Cons d t')
    then show ?thesis using ih [of "a + 1" "b + 1" t'] prems byte_diff [of c d]
      by (cases "c = d") (auto simp: strcmp.simps [of m a])
  qed
qed

lemma strchr_at:
  "str_at m a s \<Longrightarrow> ucast ch \<noteq> (0 :: u8) \<Longrightarrow>
   strchr m a ch = Some (if ucast ch \<in> set s then Some (a + length (takeWhile (\<lambda>c. c \<noteq> ucast ch) s)) else None)"
proof (induction s arbitrary: a)
  case (Cons c s)
  then show ?case by (cases "c = ucast ch") (auto simp: strchr.simps [of m a])
qed (simp add: strchr.simps)

subsection \<open>The byte too many of \<^verbatim>\<open>strncpy\<close>\<close>

text \<open>
  A source shorter than \<open>n\<close> is copied with its terminator, and then \<open>n\<close> minus its length more zeros follow:
  one byte more than \<open>n\<close> is written. A source of at least \<open>n\<close> bytes writes just \<open>n\<close>.
\<close>

lemma strncpy_copy_at:
  "str_at m s cs \<Longrightarrow> length cs < n \<Longrightarrow> d + n < s \<or> s + length cs < d \<Longrightarrow>
   \<exists>m'. strncpy_copy m d s n = (m', d + length cs + 1, n - length cs) \<and> str_at m' d cs \<and>
     (\<forall>a. a < d \<or> d + length cs < a \<longrightarrow> m' a = m a)"
proof (induction cs arbitrary: m s d n)
  case Nil
  then show ?case by (cases n) auto
next
  case (Cons c cs)
  then obtain k where n: "n = Suc k" by (cases n) auto
  define m1 where m1: "m1 = m(d := m s)"
  have s: "str_at m1 (s + 1) cs" using Cons.prems by (auto simp: m1 str_at_upd)
  have "\<exists>m'. strncpy_copy m1 (d + 1) (s + 1) k = (m', d + 1 + length cs + 1, k - length cs) \<and> str_at m' (d + 1) cs \<and>
      (\<forall>a. a < d + 1 \<or> d + 1 + length cs < a \<longrightarrow> m' a = m1 a)"
    by (rule Cons.IH [OF s]) (use Cons.prems(2,3) n in auto)
  then obtain m' where m': "strncpy_copy m1 (d + 1) (s + 1) k = (m', d + 1 + length cs + 1, k - length cs)" "str_at m' (d + 1) cs"
      "\<And>a. a < d + 1 \<or> d + 1 + length cs < a \<Longrightarrow> m' a = m1 a" by blast
  have "strncpy_copy m d s n = (m', d + length (c # cs) + 1, n - length (c # cs))"
    using m'(1) Cons.prems(1) n by (simp add: m1)
  moreover have "m' d = c" using m'(3) [of d] Cons.prems(1) by (simp add: m1)
  moreover have "m' a = m a" if at: "a < d \<or> d + length (c # cs) < a" for a using m'(3) [of a] at by (auto simp: m1)
  ultimately show ?case using m'(2) Cons.prems(1) by auto
qed

lemma strncpy_one_more:
  assumes "str_at m s cs" "length cs < n" "d + n < s \<or> s + length cs < d"
  shows "str_at (strncpy m d s n) d cs" "strncpy m d s n (d + n) = 0"
    "a < d \<or> d + n < a \<Longrightarrow> strncpy m d s n a = m a"
proof -
  obtain m' where m': "strncpy_copy m d s n = (m', d + length cs + 1, n - length cs)" "str_at m' d cs"
      "\<forall>a. a < d \<or> d + length cs < a \<longrightarrow> m' a = m a"
    using strncpy_copy_at [OF assms] by blast
  then have e: "strncpy m d s n a = (if d + length cs < a \<and> a \<le> d + n then 0 else m' a)" for a
    using assms(2) by (auto simp: strncpy_def memset_eq)
  show "str_at (strncpy m d s n) d cs" using m'(2) by (auto simp: str_at_def e)
  show "strncpy m d s n (d + n) = 0" using assms(2) by (simp add: e)
  show "a < d \<or> d + n < a \<Longrightarrow> strncpy m d s n a = m a" using m'(3) assms(2) by (auto simp: e)
qed

lemma strncpy_long_copy:
  "\<forall>i < n. m (s + i) \<noteq> 0 \<Longrightarrow> d + n \<le> s \<or> s + n \<le> d \<Longrightarrow> strncpy m d s n = memcpy m d s n"
proof -
  assume "\<forall>i < n. m (s + i) \<noteq> 0" "d + n \<le> s \<or> s + n \<le> d"
  then have "strncpy_copy m d s n = (memcpy m d s n, d + n, 0)"
  proof (induction n arbitrary: m d s)
    case (Suc n)
    define m1 where m1: "m1 = m(d := m s)"
    have "m1 (s + 1 + i) \<noteq> 0" if i: "i < n" for i
      using Suc.prems(1) [rule_format, of "Suc i"] Suc.prems(2) i by (auto simp: m1)
    then have "strncpy_copy m1 (d + 1) (s + 1) n = (memcpy m1 (d + 1) (s + 1) n, d + 1 + n, 0)"
      using Suc.IH [of m1 "s + 1" "d + 1"] Suc.prems(2) by auto
    then show ?case using Suc.prems(1) [rule_format, of 0] by (simp add: m1)
  qed simp
  then show ?thesis by (simp add: strncpy_def)
qed

end
