(* ===== verification/Pager.thy ===== *)
theory Pager
  imports Buddy RegIpc_Facts Libc_Str_Facts
begin

section \<open>Pages, the unified allocator and \<^verbatim>\<open>malloc\<close> (\<^verbatim>\<open>core/pager.c\<close>, \<^verbatim>\<open>core/buddy.c\<close>, \<^verbatim>\<open>kernel/libc_stub.c\<close>)\<close>

text \<open>
  Memory holds two static arrays: the buddy pool at \<open>pool_at\<close> and, on bare metal, the large pool at \<open>large_at\<close>,
  which pages are cut from. A hosted build gets its pages from the operating system instead. An address is a
  number, 0 is NULL; \<open>die\<close> is the fault that ends the program.
\<close>

definition NEXS_PAGE_SIZE :: nat where "NEXS_PAGE_SIZE = 4096"
definition MAX_PAGE_ALLOCS :: nat where "MAX_PAGE_ALLOCS = 256"
definition LARGE_ALLOC_THRESH :: nat where "LARGE_ALLOC_THRESH = 512 * 1024"

record page_slot =
  base :: nat
  pages :: u64
  slot_used :: bool

record layout =
  pool :: pool_cfg
  pool_at :: nat
  large_at :: nat
  LARGE_POOL_PAGES :: nat

record heap =
  bytes :: mem
  buddy_nodes :: buddy_tree
  page_table :: "page_slot list"
  large_brk :: u64

definition heap_init :: heap where
  "heap_init = \<lparr>bytes = (\<lambda>_. 0), buddy_nodes = buddy_init,
     page_table = replicate MAX_PAGE_ALLOCS \<lparr>base = 0, pages = 0, slot_used = False\<rparr>, large_brk = 0\<rparr>"

text \<open>The first slot of a table that is not in use, by its index.\<close>

fun page_index :: "(page_slot \<Rightarrow> bool) \<Rightarrow> page_slot list \<Rightarrow> nat option" where
  "page_index f [] = None"
| "page_index f (s # ss) = (if f s then Some 0 else map_option Suc (page_index f ss))"

definition page_slot_find_free :: "page_slot list \<Rightarrow> nat option" where
  "page_slot_find_free tbl = page_index (\<lambda>s. \<not> slot_used s) tbl"

definition page_at :: "nat \<Rightarrow> page_slot \<Rightarrow> bool" where
  "page_at p s \<longleftrightarrow> slot_used s \<and> base s = p"

definition is_page_ptr :: "page_slot list \<Rightarrow> nat \<Rightarrow> bool" where
  "is_page_ptr tbl p \<longleftrightarrow> p \<noteq> 0 \<and> page_index (page_at p) tbl \<noteq> None"

subsection \<open>Hosted: pages of the operating system\<close>

text \<open>
  \<open>map_result\<close> is what \<^verbatim>\<open>mmap\<close> returns for this call, none for a failure. The results are the pointer, the table and
  whether the region is unmapped again, and for \<open>page_free\<close> the bytes that \<^verbatim>\<open>munmap\<close> is told to give back.
\<close>

definition page_alloc_hosted :: "nat option \<Rightarrow> page_slot list \<Rightarrow> u64 \<Rightarrow> nat \<times> page_slot list \<times> bool" where
  "page_alloc_hosted map_result tbl n_pages =
     (if n_pages = 0 then (0, tbl, False)
      else case map_result of
        None \<Rightarrow> (0, tbl, False)
      | Some p \<Rightarrow>
          (case page_slot_find_free tbl of
             None \<Rightarrow> (0, tbl, True)
           | Some i \<Rightarrow> (p, tbl[i := \<lparr>base = p, pages = n_pages, slot_used = True\<rparr>], False)))"

definition page_free_hosted :: "page_slot list \<Rightarrow> nat \<Rightarrow> u64 \<Rightarrow> page_slot list \<times> (nat \<times> u64) option" where
  "page_free_hosted tbl ptr n_pages =
     (if ptr = 0 \<or> n_pages = 0 then (tbl, None)
      else (case page_index (page_at ptr) tbl of
              None \<Rightarrow> tbl
            | Some i \<Rightarrow> tbl[i := \<lparr>base = 0, pages = 0, slot_used = False\<rparr>],
            Some (ptr, n_pages * of_nat NEXS_PAGE_SIZE)))"

subsection \<open>Bare metal: pages of the large pool\<close>

definition page_alloc :: "layout \<Rightarrow> u64 \<Rightarrow> heap \<Rightarrow> nat \<times> heap" where
  "page_alloc L n_pages h =
     (if n_pages = 0 then (0, h)
      else
        let len = n_pages * of_nat NEXS_PAGE_SIZE in
        if of_nat (LARGE_POOL_PAGES L * NEXS_PAGE_SIZE) < large_brk h + len then (0, h)
        else case page_slot_find_free (page_table h) of
          None \<Rightarrow> (0, h)
        | Some i \<Rightarrow>
            let p = large_at L + unat (large_brk h) in
            (p, h\<lparr>large_brk := large_brk h + len, bytes := memset (bytes h) p 0 (unat len),
                  page_table := (page_table h)[i := \<lparr>base = p, pages = n_pages, slot_used = True\<rparr>]\<rparr>))"

definition page_free :: "nat \<Rightarrow> heap \<Rightarrow> heap" where
  "page_free ptr h =
     (case page_index (page_at ptr) (page_table h) of
        None \<Rightarrow> h
      | Some i \<Rightarrow> h\<lparr>page_table := (page_table h)[i := (page_table h ! i)\<lparr>slot_used := False\<rparr>]\<rparr>)"

subsection \<open>The unified allocator\<close>

definition xmalloc :: "layout \<Rightarrow> u64 \<Rightarrow> heap \<Rightarrow> (nat \<times> heap) res" where
  "xmalloc L sz h =
     (let sz = (if sz = 0 then 1 else sz) in
      case buddy_alloc (pool L) (buddy_nodes h) sz of
        None \<Rightarrow> Inl Hang
      | Some (None, t) \<Rightarrow> Inl (Die ''Buddy alloc failed (pool exhausted or fragmented)'')
      | Some (Some off, t) \<Rightarrow>
          let p = pool_at L + off in
          Inr (p, h\<lparr>buddy_nodes := t, bytes := memset (bytes h) p 0 (unat sz)\<rparr>))"

definition xfree :: "layout \<Rightarrow> nat \<Rightarrow> heap \<Rightarrow> heap" where
  "xfree L ptr h =
     h\<lparr>buddy_nodes := buddy_free (pool L) (pool_at L) (buddy_nodes h) (if ptr = 0 then None else Some ptr)\<rparr>"

definition n_pages_of :: "u64 \<Rightarrow> u64" where
  "n_pages_of sz = (sz + of_nat NEXS_PAGE_SIZE - 1) div of_nat NEXS_PAGE_SIZE"

definition nexs_alloc :: "layout \<Rightarrow> u64 \<Rightarrow> heap \<Rightarrow> (nat \<times> heap) res" where
  "nexs_alloc L sz h =
     (if of_nat LARGE_ALLOC_THRESH < sz then
        case page_alloc L (n_pages_of sz) h of (p, h) \<Rightarrow>
          if p = 0 then Inl (Die ''nexs_alloc: page_alloc failed (large allocation)'') else Inr (p, h)
      else xmalloc L sz h)"

definition nexs_free :: "layout \<Rightarrow> nat \<Rightarrow> u64 \<Rightarrow> heap \<Rightarrow> heap" where
  "nexs_free L ptr sz h =
     (if ptr = 0 then h
      else if is_page_ptr (page_table h) ptr then page_free ptr h
      else xfree L ptr h)"

definition buddy_strdup :: "layout \<Rightarrow> nat \<Rightarrow> heap \<Rightarrow> (nat \<times> heap) res" where
  "buddy_strdup L s h =
     (if s = 0 then Inr (0, h)
      else case strlen (bytes h) s of
        None \<Rightarrow> Inl Hang
      | Some l \<Rightarrow> bind_res (xmalloc L (of_nat (l + 1)) h) (\<lambda>(d, h). Inr (d, h\<lparr>bytes := memcpy (bytes h) d s (l + 1)\<rparr>)))"

subsection \<open>\<^verbatim>\<open>malloc\<close> with a size word before the block\<close>

definition put_word :: "mem \<Rightarrow> nat \<Rightarrow> u64 \<Rightarrow> mem" where
  "put_word m p w = (\<lambda>a. if p \<le> a \<and> a < p + 8 then le_write 8 w ! (a - p) else m a)"

definition get_word :: "mem \<Rightarrow> nat \<Rightarrow> u64" where
  "get_word m p = le_read (map m [p..<p + 8])"

definition malloc :: "layout \<Rightarrow> u64 \<Rightarrow> heap \<Rightarrow> (nat \<times> heap) res" where
  "malloc L sz h =
     bind_res (nexs_alloc L (sz + 8) h) (\<lambda>(ptr, h).
     if ptr = 0 then Inr (0, h) else Inr (ptr + 8, h\<lparr>bytes := put_word (bytes h) ptr (sz + 8)\<rparr>))"

definition free :: "layout \<Rightarrow> nat \<Rightarrow> heap \<Rightarrow> heap" where
  "free L ptr h = (if ptr = 0 then h else nexs_free L (ptr - 8) (get_word (bytes h) (ptr - 8)) h)"

definition calloc :: "layout \<Rightarrow> u64 \<Rightarrow> u64 \<Rightarrow> heap \<Rightarrow> (nat \<times> heap) res" where
  "calloc L nmemb sz h =
     bind_res (malloc L (nmemb * sz) h) (\<lambda>(p, h).
     Inr (p, if p = 0 then h else h\<lparr>bytes := memset (bytes h) p 0 (unat (nmemb * sz))\<rparr>))"

definition realloc :: "layout \<Rightarrow> nat \<Rightarrow> u64 \<Rightarrow> heap \<Rightarrow> (nat \<times> heap) res" where
  "realloc L ptr sz h =
     (if ptr = 0 then malloc L sz h
      else if sz = 0 then Inr (0, free L ptr h)
      else
        let old_size = get_word (bytes h) (ptr - 8) - 8 in
        bind_res (malloc L sz h) (\<lambda>(new_p, h).
        if new_p = 0 then Inr (0, h)
        else Inr (new_p, free L ptr (h\<lparr>bytes := memcpy (bytes h) new_p ptr (unat (if old_size < sz then old_size else sz))\<rparr>))))"

definition strdup :: "layout \<Rightarrow> nat \<Rightarrow> heap \<Rightarrow> (nat \<times> heap) res" where
  "strdup L str h =
     (if str = 0 then Inr (0, h)
      else case strlen (bytes h) str of
        None \<Rightarrow> Inl Hang
      | Some l \<Rightarrow>
          bind_res (malloc L (of_nat (l + 1)) h) (\<lambda>(p, h).
          Inr (p, if p = 0 then h else h\<lparr>bytes := memcpy (bytes h) p str (l + 1)\<rparr>)))"

end
