(* ===== verification/Pager_Facts.thy ===== *)
theory Pager_Facts
  imports Pager
begin

section \<open>What the unified allocator promises\<close>

text \<open>
  The blocks in use are those of the buddy pool and the page regions of the table. \<open>layout_ok\<close> is what the
  linker gives: two arrays that do not overlap, none at address 0. The allocator is the second provider of the
  contract \<open>block_allocator\<close>, and \<open>realloc\<close> is proved over it.
\<close>

definition large_size :: "layout \<Rightarrow> nat" where
  "large_size L = LARGE_POOL_PAGES L * NEXS_PAGE_SIZE"

definition layout_ok :: "layout \<Rightarrow> nat \<Rightarrow> bool" where
  "layout_ok L k \<longleftrightarrow> (\<exists>a. wf_cfg (pool L) a k) \<and> 0 < pool_at L \<and> 0 < large_at L \<and> large_size L \<le> 2 ^ 32 \<and>
     (pool_at L + POOL_SIZE (pool L) \<le> large_at L \<or> large_at L + large_size L \<le> pool_at L)"

definition slot_block :: "page_slot \<Rightarrow> nat \<times> nat" where
  "slot_block s = (base s, unat (pages s) * NEXS_PAGE_SIZE)"

definition page_blocks :: "page_slot list \<Rightarrow> (nat \<times> nat) set" where
  "page_blocks tbl = slot_block ` {s \<in> set tbl. slot_used s}"

definition pool_blocks :: "layout \<Rightarrow> nat \<Rightarrow> buddy_tree \<Rightarrow> (nat \<times> nat) set" where
  "pool_blocks L k t = (\<lambda>(x, len). (pool_at L + x, len)) ` blocks (pool L) k t"

definition heap_blocks :: "layout \<Rightarrow> nat \<Rightarrow> heap \<Rightarrow> (nat \<times> nat) set" where
  "heap_blocks L k h = pool_blocks L k (buddy_nodes h) \<union> page_blocks (page_table h)"

definition heap_wf :: "layout \<Rightarrow> nat \<Rightarrow> heap \<Rightarrow> bool" where
  "heap_wf L k h \<longleftrightarrow> wf_tree (buddy_nodes h) k \<and> unat (large_brk h) \<le> large_size L \<and>
     (\<forall>(x, len) \<in> page_blocks (page_table h). large_at L \<le> x \<and> x + len \<le> large_at L + unat (large_brk h))"

subsection \<open>The slot table\<close>

lemma page_index_Some: "page_index f tbl = Some i \<Longrightarrow> i < length tbl \<and> f (tbl ! i)"
  by (induction tbl arbitrary: i) (auto split: if_splits)

lemma set_update_split: "i < length xs \<Longrightarrow> set (xs[i := x]) = insert x (set (take i xs) \<union> set (drop (Suc i) xs))"
  by (simp add: upd_conv_take_nth_drop)

lemma set_split: "i < length xs \<Longrightarrow> set xs = insert (xs ! i) (set (take i xs) \<union> set (drop (Suc i) xs))"
  using set_update_split [of i xs "xs ! i"] by simp

lemma page_blocks_add:
  assumes "page_slot_find_free tbl = Some i" "slot_used s"
  shows "page_blocks (tbl[i := s]) = insert (slot_block s) (page_blocks tbl)"
proof -
  have i: "i < length tbl" "\<not> slot_used (tbl ! i)" using page_index_Some assms(1) by (auto simp: page_slot_find_free_def)
  show ?thesis unfolding page_blocks_def set_update_split [OF i(1)] using i(2) assms(2) set_split [OF i(1)] by auto
qed

lemma page_blocks_drop:
  assumes "page_index f tbl = Some i" "\<not> slot_used s"
  shows "page_blocks (tbl[i := s]) \<subseteq> page_blocks tbl"
proof -
  have i: "i < length tbl" using page_index_Some [OF assms(1)] by simp
  show ?thesis unfolding page_blocks_def set_update_split [OF i] using assms(2) set_split [OF i] by auto
qed

lemma page_blocks_init: "page_blocks (page_table heap_init) = {}"
  by (auto simp: page_blocks_def heap_init_def)

lemma heap_wf_init: "heap_wf L k heap_init"
  using page_blocks_init by (simp add: heap_wf_def) (simp add: heap_init_def wf_tree_init)

lemma heap_blocks_init: "heap_blocks L k heap_init = {}"
  using page_blocks_init by (simp add: heap_blocks_def pool_blocks_def) (simp add: heap_init_def blocks_init)

subsection \<open>A new block\<close>

definition fresh_block :: "layout \<Rightarrow> nat \<Rightarrow> heap \<Rightarrow> nat \<Rightarrow> nat \<Rightarrow> heap \<Rightarrow> bool" where
  "fresh_block L k h p len h' \<longleftrightarrow> p \<noteq> 0 \<and> 0 < len \<and> heap_wf L k h' \<and> heap_blocks L k h' = insert (p, len) (heap_blocks L k h) \<and>
     (\<forall>b \<in> heap_blocks L k h. disjoint_blocks b (p, len)) \<and> (\<forall>a. a < p \<or> p + len \<le> a \<longrightarrow> bytes h' a = bytes h a)"

lemma pool_block_bounds:
  assumes "layout_ok L k" "(x, len) \<in> pool_blocks L k t"
  shows "pool_at L \<le> x" "x + len \<le> pool_at L + POOL_SIZE (pool L)"
  using assms blocks_in_pool unfolding layout_ok_def pool_blocks_def by fastforce+

lemma xmalloc_fresh:
  assumes L: "layout_ok L k" and ok: "heap_wf L k h" and x: "xmalloc L n h = Inr (p, h')"
  shows "\<exists>len. unat n \<le> len \<and> fresh_block L k h p len h'"
proof -
  let ?n = "if n = 0 then 1 else n"
  obtain a where a: "wf_cfg (pool L) a k" using L by (auto simp: layout_ok_def)
  from x obtain off t where al: "buddy_alloc (pool L) (buddy_nodes h) ?n = Some (Some off, t)"
    and p: "p = pool_at L + off" and h': "h' = h\<lparr>buddy_nodes := t, bytes := memset (bytes h) p 0 (unat ?n)\<rparr>"
    by (auto simp: xmalloc_def Let_def split: option.splits prod.splits)
  have wf: "wf_tree (buddy_nodes h) k" using ok by (simp add: heap_wf_def)
  obtain len where len: "unat ?n \<le> len" "off + len \<le> POOL_SIZE (pool L)"
    "\<forall>b \<in> blocks (pool L) k (buddy_nodes h). disjoint_blocks b (off, len)"
    "blocks (pool L) k t = insert (off, len) (blocks (pool L) k (buddy_nodes h))" "wf_tree t k"
    using buddy_alloc_spec [OF a wf al] by blast
  have "unat n \<le> len" "0 < len" using len(1) unat_gt_0 [of n] by (cases "n = 0"; simp)+
  moreover have "disjoint_blocks b (p, len)" if b: "b \<in> pool_blocks L k (buddy_nodes h)" for b
    using b len(3) by (auto simp: pool_blocks_def p disjoint_blocks_def)
  moreover have "disjoint_blocks b (p, len)" if b: "b \<in> page_blocks (page_table h)" for b
    using ok L b len(2) unfolding heap_wf_def layout_ok_def disjoint_blocks_def p by fastforce
  moreover have "bytes h' a = bytes h a" if at: "a < p \<or> p + len \<le> a" for a
    using at len(1) by (auto simp: h' memset_eq)
  moreover have "heap_wf L k h'" using ok len(5) by (simp add: heap_wf_def h')
  moreover have "heap_blocks L k h' = insert (p, len) (heap_blocks L k h)"
    using len(4) by (simp add: heap_blocks_def pool_blocks_def h' p)
  moreover have "p \<noteq> 0" using L by (simp add: layout_ok_def p)
  ultimately show ?thesis by (intro exI [of _ len]) (auto simp: fresh_block_def heap_blocks_def)
qed

lemma n_pages_facts:
  assumes "unat n \<le> 2 ^ 63"
  shows "unat n \<le> unat (n_pages_of n) * NEXS_PAGE_SIZE" "unat (n_pages_of n) * NEXS_PAGE_SIZE \<le> 2 ^ 63 + 4096"
    "unat (n_pages_of n * of_nat NEXS_PAGE_SIZE) = unat (n_pages_of n) * NEXS_PAGE_SIZE"
proof -
  have s: "unat (n + 4095) = unat n + 4095" using assms by (simp add: unat_word_ariths)
  have "n_pages_of n = (n + 4095) div 4096" by (simp add: n_pages_of_def NEXS_PAGE_SIZE_def add.commute)
  then have "unat (n_pages_of n) = unat (n + 4095) div unat (4096 :: u64)" by (simp only: unat_div_distrib)
  then have u: "unat (n_pages_of n) = (unat n + 4095) div 4096" using s by simp
  show "unat n \<le> unat (n_pages_of n) * NEXS_PAGE_SIZE" unfolding u NEXS_PAGE_SIZE_def by linarith
  show b: "unat (n_pages_of n) * NEXS_PAGE_SIZE \<le> 2 ^ 63 + 4096" unfolding u NEXS_PAGE_SIZE_def using assms by linarith
  then show "unat (n_pages_of n * of_nat NEXS_PAGE_SIZE) = unat (n_pages_of n) * NEXS_PAGE_SIZE"
    by (simp add: unat_word_ariths NEXS_PAGE_SIZE_def)
qed

lemma page_alloc_fresh:
  assumes L: "layout_ok L k" and ok: "heap_wf L k h" and n: "0 < unat n" "unat n \<le> 2 ^ 63"
    and x: "page_alloc L (n_pages_of n) h = (p, h')" "p \<noteq> 0"
  shows "\<exists>len. unat n \<le> len \<and> fresh_block L k h p len h'"
proof -
  let ?len = "unat (n_pages_of n) * NEXS_PAGE_SIZE" and ?w = "n_pages_of n * of_nat NEXS_PAGE_SIZE"
  note np = n_pages_facts [OF n(2)]
  from x obtain i where i: "page_slot_find_free (page_table h) = Some i"
    and room: "large_brk h + ?w \<le> of_nat (large_size L)"
    and p: "p = large_at L + unat (large_brk h)"
    and h': "h' = h\<lparr>large_brk := large_brk h + ?w, bytes := memset (bytes h) p 0 (unat ?w),
        page_table := (page_table h)[i := \<lparr>base = p, pages = n_pages_of n, slot_used = True\<rparr>]\<rparr>"
    by (auto simp: page_alloc_def Let_def large_size_def split: if_splits option.splits)
  have small: "unat (large_brk h) \<le> large_size L" "large_size L \<le> 2 ^ 32" using ok L by (simp_all add: heap_wf_def layout_ok_def)
  have brk: "unat (large_brk h + ?w) = unat (large_brk h) + ?len"
    using small np by (simp add: unat_word_ariths)
  have "unat (large_brk h + ?w) \<le> unat (of_nat (large_size L) :: u64)" using room by (simp add: word_le_nat_alt)
  also have "\<dots> = large_size L" using small(2) by (intro unat_u64_of_nat) simp
  finally have fits: "unat (large_brk h) + ?len \<le> large_size L" using brk by simp
  have blk: "slot_block \<lparr>base = p, pages = n_pages_of n, slot_used = True\<rparr> = (p, ?len)" by (simp add: slot_block_def)
  have pb: "page_blocks (page_table h') = insert (p, ?len) (page_blocks (page_table h))"
    using page_blocks_add [OF i, of "\<lparr>base = p, pages = n_pages_of n, slot_used = True\<rparr>"] by (simp add: h' blk)
  have old: "large_at L \<le> fst b \<and> fst b + snd b \<le> p" if b: "b \<in> page_blocks (page_table h)" for b
    using ok b by (auto simp: heap_wf_def p)
  have "disjoint_blocks b (p, ?len)" if b: "b \<in> pool_blocks L k (buddy_nodes h)" for b
    using pool_block_bounds [OF L, of "fst b" "snd b" "buddy_nodes h"] b L fits unfolding layout_ok_def disjoint_blocks_def p by auto
  moreover have "disjoint_blocks b (p, ?len)" if b: "b \<in> page_blocks (page_table h)" for b
    using old [OF b] by (simp add: disjoint_blocks_def)
  moreover have "heap_wf L k h'"
  proof -
    have brk': "unat (large_brk h') = unat (large_brk h) + ?len" and nodes: "buddy_nodes h' = buddy_nodes h"
      by (simp_all add: h' brk)
    have "large_at L \<le> y \<and> y + l \<le> large_at L + unat (large_brk h')" if b: "(y, l) \<in> page_blocks (page_table h')" for y l
      using b old [of "(y, l)"] unfolding pb brk' by (auto simp: p)
    then show ?thesis using ok fits unfolding heap_wf_def nodes brk' by auto
  qed
  moreover have "bytes h' a = bytes h a" if at: "a < p \<or> p + ?len \<le> a" for a
    using at np(3) by (auto simp: h' memset_eq)
  moreover have "0 < ?len" using np(1) n(1) by linarith
  ultimately show ?thesis using np(1) x(2) pb
    by (intro exI [of _ ?len]) (auto simp: fresh_block_def heap_blocks_def h')
qed

lemma nexs_alloc_fresh:
  assumes L: "layout_ok L k" and ok: "heap_wf L k h" and n: "unat n \<le> 2 ^ 63" and x: "nexs_alloc L n h = Inr (p, h')"
  shows "\<exists>len. unat n \<le> len \<and> fresh_block L k h p len h'"
proof (cases "of_nat LARGE_ALLOC_THRESH < n")
  case True
  then have "page_alloc L (n_pages_of n) h = (p, h')" "p \<noteq> 0"
    using x by (auto simp: nexs_alloc_def split: prod.splits if_splits)
  moreover have "0 < unat n" using True by (simp add: word_less_nat_alt)
  ultimately show ?thesis using page_alloc_fresh [OF L ok _ n] by blast
next
  case False
  then show ?thesis using x xmalloc_fresh [OF L ok] by (simp add: nexs_alloc_def)
qed

subsection \<open>A release\<close>

lemma nexs_free_facts:
  assumes L: "layout_ok L k" and ok: "heap_wf L k h"
  shows "heap_wf L k (nexs_free L p n h)" "heap_blocks L k (nexs_free L p n h) \<subseteq> heap_blocks L k h"
    "bytes (nexs_free L p n h) = bytes h"
proof -
  obtain a where a: "wf_cfg (pool L) a k" using L by (auto simp: layout_ok_def)
  have wf: "wf_tree (buddy_nodes h) k" using ok by (simp add: heap_wf_def)
  let ?t = "buddy_free (pool L) (pool_at L) (buddy_nodes h) (if p = 0 then None else Some p)"
  note bf = buddy_free_spec [OF a wf, of "pool_at L" "if p = 0 then None else Some p"]
  have x: "heap_wf L k (xfree L p h) \<and> heap_blocks L k (xfree L p h) \<subseteq> heap_blocks L k h \<and> bytes (xfree L p h) = bytes h"
    using bf ok by (auto simp: xfree_def heap_wf_def heap_blocks_def pool_blocks_def)
  have "heap_wf L k (page_free p h) \<and> heap_blocks L k (page_free p h) \<subseteq> heap_blocks L k h \<and> bytes (page_free p h) = bytes h"
  proof (cases "page_index (page_at p) (page_table h)")
    case (Some i)
    have "page_blocks ((page_table h)[i := (page_table h ! i)\<lparr>slot_used := False\<rparr>]) \<subseteq> page_blocks (page_table h)"
      by (rule page_blocks_drop [OF Some]) simp
    then show ?thesis using ok Some by (auto simp: page_free_def heap_wf_def heap_blocks_def)
  qed (use ok in \<open>simp add: page_free_def\<close>)
  then show "heap_wf L k (nexs_free L p n h)" "heap_blocks L k (nexs_free L p n h) \<subseteq> heap_blocks L k h"
    "bytes (nexs_free L p n h) = bytes h"
    using x ok by (simp_all add: nexs_free_def)
qed

subsection \<open>The contract\<close>

text \<open>A request that fails ends the program. The contract holds up to half the address space: beyond it the check
  against the end of the large pool wraps (\<open>giant_request_wraps\<close> below).\<close>

lemma nexs_free_others:
  assumes "layout_ok L k" and "heap_wf L k h"
  shows "{b \<in> heap_blocks L k h. fst b \<noteq> p} \<subseteq> heap_blocks L k (nexs_free L p n h)"
proof -
  obtain a where a: "wf_cfg (pool L) a k" using assms(1) by (auto simp: layout_ok_def)
  have wf: "wf_tree (buddy_nodes h) k" using assms(2) by (simp add: heap_wf_def)
  have x: "{b \<in> heap_blocks L k h. fst b \<noteq> p} \<subseteq> heap_blocks L k (xfree L p h)" if "p \<noteq> 0"
    using buddy_free_spec [OF a wf, of "pool_at L" "Some p"] that by (auto simp: xfree_def heap_blocks_def pool_blocks_def)
  have "{b \<in> heap_blocks L k h. fst b \<noteq> p} \<subseteq> heap_blocks L k (page_free p h)"
  proof (cases "page_index (page_at p) (page_table h)")
    case (Some i)
    note i = page_index_Some [OF Some]
    have "{b \<in> page_blocks (page_table h). fst b \<noteq> p} \<subseteq> page_blocks ((page_table h)[i := (page_table h ! i)\<lparr>slot_used := False\<rparr>])"
      unfolding page_blocks_def set_update_split [OF conjunct1 [OF i]]
      using i set_split [OF conjunct1 [OF i]] by (auto simp: page_at_def slot_block_def)
    then show ?thesis using Some by (auto simp: page_free_def heap_blocks_def)
  qed (auto simp: page_free_def)
  then show ?thesis using x by (auto simp: nexs_free_def)
qed

lemma heap_alloc_new:
  assumes "layout_ok L k" and "heap_wf L k h" and "unat n \<le> 2 ^ 63" and "map_sum id (map_prod Some id) (nexs_alloc L n h) = Inr (y, h')"
  obtains q len where "y = Some q" "unat n \<le> len" "fresh_block L k h q len h'"
proof -
  obtain q where q: "y = Some q" "nexs_alloc L n h = Inr (q, h')" using assms(4) by (cases "nexs_alloc L n h") auto
  obtain len where "unat n \<le> len" "fresh_block L k h q len h'" using nexs_alloc_fresh [OF assms(1-3) q(2)] by blast
  then show ?thesis using q(1) that by blast
qed

lemma fresh_block_contract:
  assumes "fresh_block L k h q len h'"
  shows "heap_wf L k h'" "0 < len" "heap_blocks L k h' = insert (q, len) (heap_blocks L k h)"
    "\<forall>b \<in> heap_blocks L k h. disjoint_blocks (q, len) b"
  using assms disjoint_blocks_sym unfolding fresh_block_def by blast+

interpretation nexs_heap: block_allocator "\<lambda>h. layout_ok L k \<and> heap_wf L k h" "heap_blocks L k" "\<lambda>n. unat n \<le> 2 ^ 63"
  "\<lambda>h n. map_sum id (map_prod Some id) (nexs_alloc L n h)" "\<lambda>h (p, n). nexs_free L p n h" for L k
proof unfold_locales
  fix h :: heap and n :: u64 and p h' x
  assume inv: "layout_ok L k \<and> heap_wf L k h" and n: "unat n \<le> 2 ^ 63"
  note new = heap_alloc_new [OF conjunct1 [OF inv] conjunct2 [OF inv] n] and c = fresh_block_contract
  {
    assume "map_sum id (map_prod Some id) (nexs_alloc L n h) = Inr (p, h')"
    then show "layout_ok L k \<and> heap_wf L k h'" by (rule new) (use c(1) inv in blast)
  next
    assume a: "map_sum id (map_prod Some id) (nexs_alloc L n h) = Inr (Some x, h')"
    obtain len where l: "unat n \<le> len" "fresh_block L k h x len h'" using new [OF a] by blast
    then show "\<exists>len. unat n \<le> len \<and> 0 < len \<and> heap_blocks L k h' = insert (x, len) (heap_blocks L k h) \<and>
        (\<forall>b\<in>heap_blocks L k h. disjoint_blocks (x, len) b)"
      using c(2-4) [OF l(2)] l(1) by blast
  next
    assume "map_sum id (map_prod Some id) (nexs_alloc L n h) = Inr (None, h')"
    then show "heap_blocks L k h' = heap_blocks L k h" by (rule new) simp
  }
next
  fix h k'
  assume inv: "layout_ok L k \<and> heap_wf L k h"
  show "layout_ok L k \<and> heap_wf L k (case k' of (p, n) \<Rightarrow> nexs_free L p n h)"
    using nexs_free_facts(1) inv by (auto split: prod.split)
  show "{b \<in> heap_blocks L k h. fst b \<noteq> fst k'} \<subseteq> heap_blocks L k (case k' of (p, n) \<Rightarrow> nexs_free L p n h)"
    using nexs_free_others inv by (auto split: prod.split)
qed

lemma heap_blocks_within:
  assumes "layout_ok L k" and "heap_wf L k h" and "(p, len) \<in> heap_blocks L k h"
  shows "pool_at L \<le> p \<and> p + len \<le> pool_at L + POOL_SIZE (pool L) \<or> large_at L \<le> p \<and> p + len \<le> large_at L + large_size L"
proof (cases "(p, len) \<in> pool_blocks L k (buddy_nodes h)")
  case True
  then show ?thesis using pool_block_bounds [OF assms(1)] by blast
next
  case False
  then have "(p, len) \<in> page_blocks (page_table h)" using assms(3) by (simp add: heap_blocks_def)
  then show ?thesis using assms(2) by (auto simp: heap_wf_def)
qed

text \<open>What a client that starts from the empty heap holds.\<close>

definition heap_client :: "layout \<Rightarrow> client_op list \<Rightarrow> (heap \<times> (nat \<times> u64) list) res" where
  "heap_client L ops =
     run_client (\<lambda>h n. map_sum id (map_prod Some id) (nexs_alloc L n h)) (\<lambda>h (p, n). nexs_free L p n h) ops heap_init []"

lemma heap_client_holds:
  assumes "layout_ok L k" and "\<forall>n \<in> sizes ops. unat n \<le> 2 ^ 63" and "heap_client L ops = Inr (h, held)"
  shows "sorted_wrt disjoint_blocks (map (\<lambda>(p, n). (p, unat n)) held) \<and>
    (\<forall>(p, n) \<in> set held. pool_at L \<le> p \<and> p + unat n \<le> pool_at L + POOL_SIZE (pool L) \<or>
       large_at L \<le> p \<and> p + unat n \<le> large_at L + large_size L)"
proof -
  have r: "heap_wf L k h" "sorted_wrt disjoint_blocks (map (\<lambda>(p, n). (p, unat n)) held)"
    "\<forall>(p, n) \<in> set held. \<exists>len. (p, len) \<in> heap_blocks L k h \<and> unat n \<le> len"
    using nexs_heap.client_disjoint [of L k heap_init ops h held] assms heap_wf_init by (auto simp: heap_client_def)
  show ?thesis using r(2,3) heap_blocks_within [OF assms(1) r(1)] by fastforce
qed

subsection \<open>\<^verbatim>\<open>realloc\<close> keeps what the block held\<close>

lemma get_put_word: "get_word (put_word m p w) p = w"
proof -
  have "map (put_word m p w) [p..<p + 8] = le_write 8 w"
    by (rule nth_equalityI) (simp_all add: put_word_def)
  moreover have "take_bit 64 w = w" by (rule take_bit_word_eq_self) simp
  ultimately show ?thesis by (simp add: get_word_def le_read_write)
qed

lemma malloc_fresh:
  assumes L: "layout_ok L k" and ok: "heap_wf L k h" and n: "unat n \<le> 2 ^ 62" and x: "malloc L n h = Inr (p, h')"
  shows "\<exists>q len. p = q + 8 \<and> unat n + 8 \<le> len \<and> fresh_block L k h q len h' \<and> get_word (bytes h') q = n + 8"
proof -
  have s: "unat (n + 8) = unat n + 8" using n by (simp add: unat_word_ariths)
  from x obtain q h1 where q: "nexs_alloc L (n + 8) h = Inr (q, h1)"
    by (cases "nexs_alloc L (n + 8) h") (auto simp: malloc_def)
  have "unat (n + 8) \<le> 2 ^ 63" using s n by simp
  then obtain len where len: "unat n + 8 \<le> len" "fresh_block L k h q len h1"
    using nexs_alloc_fresh [OF L ok _ q] s by auto
  then have p: "p = q + 8" "h' = h1\<lparr>bytes := put_word (bytes h1) q (n + 8)\<rparr>"
    using x q by (auto simp: malloc_def fresh_block_def)
  have "bytes h' a = bytes h a" if at: "a < q \<or> q + len \<le> a" for a
    using at len by (auto simp: p put_word_def fresh_block_def)
  then have "fresh_block L k h q len h'" using len(2) by (simp add: fresh_block_def heap_wf_def heap_blocks_def p)
  then show ?thesis using len(1) p by (intro exI [of _ q] exI [of _ len]) (simp add: get_put_word)
qed

lemma realloc_copies:
  assumes L: "layout_ok L k" and ok: "heap_wf L k h" and live: "(q, len) \<in> heap_blocks L k h" and hd: "get_word (bytes h) q = old + 8"
    and old: "unat old + 8 \<le> len" and n: "0 < unat n" "unat n \<le> 2 ^ 62" and x: "realloc L (q + 8) n h = Inr (p, h')"
  shows "bytes_at (bytes h') p (min (unat old) (unat n)) = bytes_at (bytes h) (q + 8) (min (unat old) (unat n)) \<and>
    (\<exists>q' len'. p = q' + 8 \<and> unat n + 8 \<le> len' \<and> (\<forall>b \<in> heap_blocks L k h. disjoint_blocks b (q', len')))"
proof -
  let ?c = "if old < n then old else n"
  have c: "unat ?c = min (unat old) (unat n)" by (simp add: word_less_nat_alt)
  have n0: "n \<noteq> 0" using n(1) by (simp add: unat_gt_0)
  from x n0 obtain p1 h1 where m: "malloc L n h = Inr (p1, h1)"
    by (cases "malloc L n h") (auto simp: realloc_def Let_def)
  obtain q1 len1 where q1: "p1 = q1 + 8" "unat n + 8 \<le> len1" "fresh_block L k h q1 len1 h1"
    using malloc_fresh [OF L ok n(2) m] by blast
  let ?h = "h1\<lparr>bytes := memcpy (bytes h1) p1 (q + 8) (unat ?c)\<rparr>"
  have r: "p = p1" "h' = free L (q + 8) ?h" using x m n0 q1(1) hd by (auto simp: realloc_def Let_def)
  have ok1: "heap_wf L k ?h" using q1(3) by (simp add: fresh_block_def heap_wf_def)
  have b: "bytes h' = memcpy (bytes h1) p1 (q + 8) (unat ?c)"
    using nexs_free_facts(3) [OF L ok1] by (simp add: r free_def)
  have dis: "q + len \<le> q1 \<or> q1 + len1 \<le> q" using q1(3) live by (auto simp: fresh_block_def disjoint_blocks_def)
  have apart: "p1 + unat ?c \<le> q + 8 \<or> q + 8 + unat ?c \<le> p1" using dis old q1(1,2) unfolding c by auto
  have "memcpy (bytes h1) p1 (q + 8) (unat ?c) (p1 + i) = bytes h (q + 8 + i)" if i: "i < unat ?c" for i
  proof -
    have "memcpy (bytes h1) p1 (q + 8) (unat ?c) (p1 + i) = bytes h1 (q + 8 + i)"
      using memcpy_eq [of p1 "q + 8" "unat ?c" "bytes h1" "p1 + i"] apart i by (auto simp: ac_simps)
    also have "\<dots> = bytes h (q + 8 + i)"
      using q1(3) dis i old q1(2) unfolding c fresh_block_def by auto
    finally show ?thesis .
  qed
  then have "bytes_at (bytes h') p (unat ?c) = bytes_at (bytes h) (q + 8) (unat ?c)"
    unfolding b r(1) by (intro nth_equalityI) (simp_all add: bytes_at_def)
  then show ?thesis using q1 by (auto simp: c r fresh_block_def)
qed

subsection \<open>Requests that never succeed, and one that wraps\<close>

text \<open>In every configuration whose large pool is not above the threshold, the large pool is out of reach.\<close>

lemma large_pool_unused:
  assumes "heap_wf L k h" "large_size L \<le> LARGE_ALLOC_THRESH" "unat n \<le> 2 ^ 63" "of_nat LARGE_ALLOC_THRESH < n"
  shows "nexs_alloc L n h = Inl (Die ''nexs_alloc: page_alloc failed (large allocation)'')"
proof -
  note np = n_pages_facts [OF assms(3)]
  let ?w = "n_pages_of n * of_nat NEXS_PAGE_SIZE"
  have t: "LARGE_ALLOC_THRESH < unat n" using assms(4) by (simp add: LARGE_ALLOC_THRESH_def word_less_nat_alt)
  have small: "unat (large_brk h) \<le> large_size L" "large_size L \<le> 2 ^ 32" using assms(1,2) by (simp_all add: heap_wf_def LARGE_ALLOC_THRESH_def)
  then have "unat (large_brk h + ?w) = unat (large_brk h) + unat (n_pages_of n) * NEXS_PAGE_SIZE"
    using np by (simp add: unat_word_ariths)
  moreover have "unat (of_nat (large_size L) :: u64) = large_size L" using small(2) by (intro unat_u64_of_nat) simp
  ultimately have "of_nat (large_size L) < large_brk h + ?w" using t np(1) assms(2) by (simp add: word_less_nat_alt)
  then have "page_alloc L (n_pages_of n) h = (0, h)" by (simp add: page_alloc_def Let_def large_size_def)
  then show ?thesis using assms(4) by (simp add: nexs_alloc_def)
qed

text \<open>The end of a giant region wraps past the check and moves the mark back to 0, so the next pages overlap older ones.\<close>

lemma giant_request_wraps:
  assumes "large_brk h = 4096" "page_slot_find_free (page_table h) \<noteq> None" "0 < large_at L"
  shows "\<exists>p h'. nexs_alloc L (- 8191) h = Inr (p, h') \<and> large_brk h' = 0"
proof -
  have n: "n_pages_of (- 8191) = 0xFFFFFFFFFFFFF" by (simp add: n_pages_of_def NEXS_PAGE_SIZE_def)
  have "(0xFFFFFFFFFFFFF :: u64) * of_nat NEXS_PAGE_SIZE = - 4096" by (simp add: NEXS_PAGE_SIZE_def)
  then have w: "large_brk h + 0xFFFFFFFFFFFFF * of_nat NEXS_PAGE_SIZE = 0" using assms(1) by simp
  obtain i where "page_slot_find_free (page_table h) = Some i" using assms(2) by auto
  then show ?thesis using assms(3)
    by (simp add: nexs_alloc_def page_alloc_def Let_def n w LARGE_ALLOC_THRESH_def word_less_nat_alt)
qed

text \<open>A size close to the largest wraps when the size word is added: the block is the smallest one.\<close>

lemma malloc_wraps: "malloc L (- 8) h = bind_res (nexs_alloc L 0 h) (\<lambda>(p, h).
    if p = 0 then Inr (0, h) else Inr (p + 8, h\<lparr>bytes := put_word (bytes h) p 0\<rparr>))"
proof -
  have "(- 8 :: u64) + 8 = 0" by simp
  then show ?thesis by (simp only: malloc_def)
qed

subsection \<open>Properties\<close>

definition layout_4KB :: layout where
  "layout_4KB = \<lparr>pool = cfg_4KB, pool_at = 4096, large_at = 8192, LARGE_POOL_PAGES = 1\<rparr>"

lemma layout_4KB_ok: "layout_ok layout_4KB 8"
  using wf_cfg_4KB by (auto simp: layout_ok_def layout_4KB_def large_size_def NEXS_PAGE_SIZE_def cfg_4KB_def)

text \<open>C5: A client that asks \<open>nexs_alloc\<close> for sizes up to half the address space, in any order, and gives back with
  \<open>nexs_free\<close> only pointers it holds, holds at every moment regions that overlap nowhere: the bytes from each returned
  pointer, as many as were asked for, are apart from those of every other and lie inside the buddy pool or inside the
  large pool. A run ends where a request ends the program. Beyond half the address space the
  claim is false, because the bounds check wraps.\<close>

theorem heap_run_disjoint:
  assumes "layout_ok L k" and "\<forall>n \<in> sizes ops. unat n \<le> 2 ^ 63" and "heap_client L ops = Inr (h, held)"
  shows "sorted_wrt disjoint_blocks (map (\<lambda>(p, n). (p, unat n)) held) \<and>
    (\<forall>(p, n) \<in> set held. pool_at L \<le> p \<and> p + unat n \<le> pool_at L + POOL_SIZE (pool L) \<or>
       large_at L \<le> p \<and> p + unat n \<le> large_at L + large_size L)"
  by (rule heap_client_holds [OF assms])

lemma buddy_4KB_allocs:
  "\<exists>t. buddy_alloc cfg_4KB buddy_init 12 = Some (Some 0, t) \<and> (\<exists>t'. buddy_alloc cfg_4KB t 16 = Some (Some 16, t'))"
  by (simp add: buddy_alloc_def buddy_next_pow2_def next_pow2_loop.simps buddy_alloc_node.simps
      cfg_4KB_def TREE_NODES_def NUM_LEAVES_def buddy_init_def Let_def)

definition layout_2MB :: layout where
  "layout_2MB = layout_4KB\<lparr>LARGE_POOL_PAGES := 512\<rparr>"

lemma layout_2MB_ok: "layout_ok layout_2MB 8"
  using wf_cfg_4KB by (auto simp: layout_ok_def layout_2MB_def layout_4KB_def large_size_def NEXS_PAGE_SIZE_def cfg_4KB_def)

theorem heap_run_disjoint_witness:
  "\<exists>h held. heap_client layout_2MB [Get 12, Get 600000, Get 16, Give 1, Get 600000] = Inr (h, held) \<and>
     held = [(610304, 600000), (4112, 16), (4096, 12)] \<and> sorted_wrt disjoint_blocks (map (\<lambda>(p, n). (p, unat n)) held)"
proof -
  let ?L = layout_2MB
  have L: "pool ?L = cfg_4KB" "pool_at ?L = 4096" "large_at ?L = 8192" "LARGE_POOL_PAGES ?L = 512"
    by (simp_all add: layout_2MB_def layout_4KB_def)
  obtain t t' where t: "buddy_alloc cfg_4KB buddy_init 12 = Some (Some 0, t)" "buddy_alloc cfg_4KB t 16 = Some (Some 16, t')"
    using buddy_4KB_allocs by blast
  let ?s = "replicate 254 \<lparr>base = 0, pages = 0, slot_used = False\<rparr>"
  have tbl: "page_table heap_init = \<lparr>base = 0, pages = 0, slot_used = False\<rparr> # \<lparr>base = 0, pages = 0, slot_used = False\<rparr> # ?s"
    "large_brk heap_init = 0" "buddy_nodes heap_init = buddy_init"
    by (simp_all add: heap_init_def MAX_PAGE_ALLOCS_def numeral_eq_Suc)
  have np: "n_pages_of 600000 = 147" by (simp add: n_pages_of_def NEXS_PAGE_SIZE_def)
  obtain h1 where h1: "nexs_alloc ?L 12 heap_init = Inr (4096, h1)" "buddy_nodes h1 = t" "page_table h1 = page_table heap_init"
    "large_brk h1 = 0"
    using t(1) by (simp add: nexs_alloc_def xmalloc_def L LARGE_ALLOC_THRESH_def tbl)
  obtain h2 where h2: "nexs_alloc ?L 600000 h1 = Inr (8192, h2)" "buddy_nodes h2 = t" "large_brk h2 = 602112"
    "page_table h2 = \<lparr>base = 8192, pages = 147, slot_used = True\<rparr> # \<lparr>base = 0, pages = 0, slot_used = False\<rparr> # ?s"
    using h1 by (simp add: nexs_alloc_def page_alloc_def L LARGE_ALLOC_THRESH_def np page_slot_find_free_def tbl NEXS_PAGE_SIZE_def)
  obtain h3 where h3: "nexs_alloc ?L 16 h2 = Inr (4112, h3)" "page_table h3 = page_table h2" "large_brk h3 = 602112"
    using t(2) h2(2,3) by (simp add: nexs_alloc_def xmalloc_def L LARGE_ALLOC_THRESH_def)
  obtain h4 where h4: "nexs_free ?L 8192 600000 h3 = h4" "large_brk h4 = 602112" "page_index (\<lambda>s. \<not> slot_used s) (page_table h4) = Some 0"
    using h3(2,3) h2(4) by (simp add: nexs_free_def is_page_ptr_def page_at_def page_free_def)
  obtain h5 where h5: "nexs_alloc ?L 600000 h4 = Inr (610304, h5)"
    using h4(2,3) by (simp add: nexs_alloc_def page_alloc_def L LARGE_ALLOC_THRESH_def np page_slot_find_free_def NEXS_PAGE_SIZE_def)
  have run: "heap_client ?L [Get 12, Get 600000, Get 16, Give 1, Get 600000] = Inr (h5, [(610304, 600000), (4112, 16), (4096, 12)])"
    by (simp add: heap_client_def h1(1) h2(1) h3(1) h4(1) h5 bind_res_def)
  have "\<forall>n \<in> sizes [Get 12, Get 600000, Get 16, Give 1, Get 600000]. unat n \<le> 2 ^ 63" by (simp add: sizes_def)
  then show ?thesis using heap_run_disjoint [OF layout_2MB_ok _ run] run by blast
qed

text \<open>C19: \<open>realloc\<close> of a block that \<open>malloc\<close> made moves its contents: the first bytes of the new block are those of
  the old one, up to the smaller of the two sizes, and the new block is long enough and overlaps no block in use.\<close>

theorem realloc_keeps:
  assumes "layout_ok L k" "heap_wf L k h" "(q, len) \<in> heap_blocks L k h" "get_word (bytes h) q = old + 8" "unat old + 8 \<le> len"
    and "0 < unat n" "unat n \<le> 2 ^ 62" "realloc L (q + 8) n h = Inr (p, h')"
  shows "bytes_at (bytes h') p (min (unat old) (unat n)) = bytes_at (bytes h) (q + 8) (min (unat old) (unat n)) \<and>
    (\<exists>q' len'. p = q' + 8 \<and> unat n + 8 \<le> len' \<and> (\<forall>b \<in> heap_blocks L k h. disjoint_blocks b (q', len')))"
  by (rule realloc_copies [OF assms])

theorem realloc_keeps_witness:
  "\<exists>p h p' h'. malloc layout_4KB 4 heap_init = Inr (p, h) \<and> realloc layout_4KB p 8 h = Inr (p', h') \<and>
     bytes_at (bytes h') p' 4 = bytes_at (bytes h) p 4"
proof -
  let ?L = layout_4KB
  obtain t t' where t: "buddy_alloc cfg_4KB buddy_init 12 = Some (Some 0, t)" "buddy_alloc cfg_4KB t 16 = Some (Some 16, t')"
    using buddy_4KB_allocs by blast
  obtain h where m: "malloc ?L 4 heap_init = Inr (4096 + 8, h)" "buddy_nodes h = t"
    using t(1) by (auto simp: malloc_def nexs_alloc_def xmalloc_def layout_4KB_def heap_init_def LARGE_ALLOC_THRESH_def)
  obtain h1 where m1: "malloc ?L 8 h = Inr (4112 + 8, h1)"
    using t(2) m(2) by (auto simp: malloc_def nexs_alloc_def xmalloc_def layout_4KB_def LARGE_ALLOC_THRESH_def)
  then obtain h' where r: "realloc ?L (4096 + 8) 8 h = Inr (4112 + 8, h')"
    by (auto simp: realloc_def Let_def)
  obtain q len where q: "4096 + 8 = q + 8" "unat (4 :: u64) + 8 \<le> len" "fresh_block ?L 8 heap_init q len h" "get_word (bytes h) q = 4 + 8"
    using malloc_fresh [OF layout_4KB_ok heap_wf_init _ m(1)] by auto
  then have f: "heap_wf ?L 8 h" "(4096, len) \<in> heap_blocks ?L 8 h" "get_word (bytes h) 4096 = 4 + 8"
    by (auto simp: fresh_block_def)
  have "bytes_at (bytes h') (4112 + 8) 4 = bytes_at (bytes h) (4096 + 8) 4"
    using realloc_keeps [OF layout_4KB_ok f(1,2,3) q(2) _ _ r] by simp
  then show ?thesis using m(1) r by blast
qed

end
