(* ===== verification/Halbc.thy ===== *)
theory Halbc
  imports Cstr
begin

section \<open>The hardware bytecode (\<^verbatim>\<open>hal/bc/nexs_hal_bc.c\<close>)\<close>

text \<open>
  A program is a list of bytes. The stack is the list of its values, the last one on top; the lines of the console
  that a device reads and writes are part of the state. \<^verbatim>\<open>nexs_hal_getc\<close> returns \<open>-1\<close> when no byte is there.
  A device function is a change of the state, and the table of them is an argument.
\<close>

unbundle bit_operations_syntax

definition HALBC_MAX_REGS :: nat where "HALBC_MAX_REGS = 16"
definition HALBC_STACK_DEPTH :: nat where "HALBC_STACK_DEPTH = 64"
definition HALBC_MAX_PROG :: nat where "HALBC_MAX_PROG = 4096"
definition HALBC_MAX_DEVFNS :: nat where "HALBC_MAX_DEVFNS = 32"
definition HALBC_MAGIC :: "u8 list" where "HALBC_MAGIC = [0x48, 0x41, 0x4C, 0x42]"
definition HALBC_VERSION :: u8 where "HALBC_VERSION = 1"
definition HALBC_FLAG_UTF8 :: u8 where "HALBC_FLAG_UTF8 = 1"

record hal_reg =
  in_use :: bool
  path :: string
  offset :: u32

datatype hal_val = HInt u64 | HStr string

record vm =
  prog :: "u8 list"
  ip :: u32
  regs :: "hal_reg list"
  stack :: "hal_val list"
  halted :: bool
  error :: bool
  cons_out :: string
  cons_in :: "int list"

definition prog_len :: "vm \<Rightarrow> u32" where
  "prog_len st = of_nat (length (prog st))"

definition hb_text :: "u8 list \<Rightarrow> string" where
  "hb_text bs = map (\<lambda>b. char_of (unat b)) bs"

definition hb_bytes :: "string \<Rightarrow> u8 list" where
  "hb_bytes s = map of_char s"

subsection \<open>Device functions\<close>

type_synonym devfns = "(string \<times> (vm \<Rightarrow> vm)) list"

definition halbc_register_devfn :: "string \<Rightarrow> (vm \<Rightarrow> vm) \<Rightarrow> devfns \<Rightarrow> devfns" where
  "halbc_register_devfn name fn tbl = (if HALBC_MAX_DEVFNS \<le> length tbl then tbl else tbl @ [(name, fn)])"

definition halbc_find_devfn :: "devfns \<Rightarrow> nat \<Rightarrow> (vm \<Rightarrow> vm) option" where
  "halbc_find_devfn tbl i = (if length tbl \<le> i then None else Some (snd (tbl ! i)))"

subsection \<open>Operands\<close>

text \<open>The text that fits the buffer, and how many bytes the operand takes.\<close>

definition read_str :: "u8 list \<Rightarrow> u32 \<Rightarrow> nat \<Rightarrow> (string \<times> u32) option" where
  "read_str p i bufsz =
     (let plen = of_nat (length p) in
      if plen \<le> i then None
      else let b0 = p ! unat i in
        if b0 AND 0x80 \<noteq> 0 then
          if plen \<le> i + 1 then None
          else
            let len = push_bit 7 (ucast (b0 AND 0x7F)) OR ucast (p ! unat (i + 1) AND 0x7F) :: u32 in
            if plen < i + 2 + len then None
            else Some (hb_text (take (min (bufsz - 1) (unat len)) (drop (unat (i + 2)) p)), 2 + len)
        else
          let len = ucast b0 :: u32 in
          if plen < i + 1 + len then None
          else Some (hb_text (take (min (bufsz - 1) (unat len)) (drop (unat (i + 1)) p)), 1 + len))"

definition read_int :: "u8 list \<Rightarrow> u32 \<Rightarrow> u64 option" where
  "read_int p i =
     (if of_nat (length p) \<le> i + 4 then None
      else if p ! unat i \<noteq> 0x80 then None
      else
        let v = ucast (p ! unat (i + 1)) OR push_bit 8 (ucast (p ! unat (i + 2))) OR
              push_bit 16 (ucast (p ! unat (i + 3))) OR push_bit 24 (ucast (p ! unat (i + 4))) :: u32 in
        Some (scast v))"

definition operand_u16 :: "u8 list \<Rightarrow> u32 \<Rightarrow> u16" where
  "operand_u16 p i = ucast (p ! unat i) OR push_bit 8 (ucast (p ! unat (i + 1)))"

subsection \<open>The stack and the devices\<close>

definition stack_push_int :: "u64 \<Rightarrow> vm \<Rightarrow> vm" where
  "stack_push_int v st =
     (if HALBC_STACK_DEPTH \<le> length (stack st) then st\<lparr>error := True\<rparr> else st\<lparr>stack := stack st @ [HInt v]\<rparr>)"

definition stack_push_str :: "string \<Rightarrow> vm \<Rightarrow> vm" where
  "stack_push_str s st =
     (if HALBC_STACK_DEPTH \<le> length (stack st) then st\<lparr>error := True\<rparr>
      else st\<lparr>stack := stack st @ [HStr (trunc 128 (c_str s))]\<rparr>)"

definition stack_pop :: "vm \<Rightarrow> hal_val \<times> vm" where
  "stack_pop st =
     (if stack st = [] then (HInt 0, st\<lparr>error := True\<rparr>) else (last (stack st), st\<lparr>stack := butlast (stack st)\<rparr>))"

definition hal_dev_write :: "string \<Rightarrow> vm \<Rightarrow> vm" where
  "hal_dev_write data st = st\<lparr>cons_out := cons_out st @ c_str data\<rparr>"

fun getc_loop :: "nat \<Rightarrow> int list \<Rightarrow> string \<Rightarrow> string \<times> int list" where
  "getc_loop 0 inp buf = (buf, inp)"
| "getc_loop (Suc n) [] buf = (buf, [])"
| "getc_loop (Suc n) (c # inp) buf =
     (if c < 0 then (buf, inp)
      else let buf = buf @ [char_of (nat (c mod 256))] in if c = 10 then (buf, inp) else getc_loop n inp buf)"

definition hal_dev_read :: "u32 \<Rightarrow> vm \<Rightarrow> vm" where
  "hal_dev_read len st =
     (case getc_loop (nat (min (sint len) 127)) (cons_in st) [] of
        (buf, inp) \<Rightarrow> stack_push_str buf (st\<lparr>cons_in := inp\<rparr>))"

text \<open>The only command, \<^verbatim>\<open>flush\<close>, prints nothing.\<close>

definition hal_dev_ctl :: "string \<Rightarrow> vm \<Rightarrow> vm" where
  "hal_dev_ctl cmd st = (if take 5 cmd = ''flush'' then st\<lparr>cons_out := cons_out st @ []\<rparr> else st)"

fun free_reg :: "hal_reg list \<Rightarrow> nat option" where
  "free_reg [] = None"
| "free_reg (r # rs) = (if \<not> in_use r then Some 0 else map_option Suc (free_reg rs))"

definition open_reg :: "string \<Rightarrow> vm \<Rightarrow> vm" where
  "open_reg p st =
     (case free_reg (regs st) of
        None \<Rightarrow> stack_push_int (- 1) st
      | Some r \<Rightarrow>
          stack_push_int (of_nat r) (st\<lparr>regs := (regs st)[r := \<lparr>in_use = True, path = trunc 64 (c_str p), offset = 0\<rparr>]\<rparr>))"

definition close_reg :: "u8 \<Rightarrow> vm \<Rightarrow> vm" where
  "close_reg r st =
     (if unat r < HALBC_MAX_REGS then st\<lparr>regs := (regs st)[unat r := \<lparr>in_use = False, path = [], offset = 0\<rparr>]\<rparr> else st)"

subsection \<open>Start and step\<close>

definition halbc_init :: "u8 list \<Rightarrow> int list \<Rightarrow> (vm \<times> int)" where
  "halbc_init p inp =
     (let st = \<lparr>prog = [], ip = 0, regs = replicate HALBC_MAX_REGS \<lparr>in_use = False, path = [], offset = 0\<rparr>, stack = [],
                halted = False, error = False, cons_out = [], cons_in = inp\<rparr> in
      if length p < 8 then (st, -1)
      else if take 4 p \<noteq> HALBC_MAGIC then (st, -1)
      else if p ! 4 \<noteq> HALBC_VERSION then (st, -1)
      else (st\<lparr>prog := p, ip := 8\<rparr>, 0))"

definition fail :: "vm \<Rightarrow> vm" where
  "fail st = st\<lparr>error := True\<rparr>"

definition advance :: "u32 \<Rightarrow> vm \<Rightarrow> vm" where
  "advance n st = st\<lparr>ip := ip st + n\<rparr>"

text \<open>The operand register, or none at the end of the program.\<close>

definition at_end :: "vm \<Rightarrow> bool" where
  "at_end st \<longleftrightarrow> prog_len st \<le> ip st"

definition byte_at :: "vm \<Rightarrow> u8" where
  "byte_at st = prog st ! unat (ip st)"

definition op_open :: "vm \<Rightarrow> vm" where
  "op_open st =
     (case read_str (prog st) (ip st) 64 of
        None \<Rightarrow> fail st
      | Some (p, consumed) \<Rightarrow>
          let st = advance consumed st in
          if at_end st then fail st else open_reg p (advance 1 st))"

definition op_close :: "vm \<Rightarrow> vm" where
  "op_close st = (if at_end st then fail st else close_reg (byte_at st) (advance 1 st))"

definition op_read :: "vm \<Rightarrow> vm" where
  "op_read st =
     (if at_end st then fail st
      else
        let st = advance 1 st in
        if \<not> at_end st \<and> byte_at st = 0x80 then
          case read_int (prog st) (ip st) of
            Some len \<Rightarrow> hal_dev_read (ucast len) (advance 5 st)
          | None \<Rightarrow> hal_dev_read 64 st
        else hal_dev_read 64 st)"

definition op_write :: "vm \<Rightarrow> vm" where
  "op_write st =
     (if at_end st then fail st
      else
        let st = advance 1 st in
        case read_str (prog st) (ip st) 256 of
          None \<Rightarrow> fail st
        | Some (data, consumed) \<Rightarrow> hal_dev_write data (advance consumed st))"

definition op_ctl :: "vm \<Rightarrow> vm" where
  "op_ctl st =
     (if at_end st then fail st
      else
        let st = advance 1 st in
        case read_str (prog st) (ip st) 64 of
          None \<Rightarrow> fail st
        | Some (cmd, consumed) \<Rightarrow> hal_dev_ctl cmd (advance consumed st))"

definition op_push :: "vm \<Rightarrow> vm" where
  "op_push st =
     (case read_int (prog st) (ip st) of
        None \<Rightarrow> fail st
      | Some v \<Rightarrow> stack_push_int v (advance 5 st))"

definition op_call :: "devfns \<Rightarrow> vm \<Rightarrow> vm" where
  "op_call devs st =
     (if prog_len st \<le> ip st + 1 then fail st
      else
        let i = operand_u16 (prog st) (ip st); st = advance 2 st in
        case halbc_find_devfn devs (unat i) of None \<Rightarrow> st | Some fn \<Rightarrow> fn st)"

definition jump :: "u16 \<Rightarrow> vm \<Rightarrow> vm" where
  "jump off st = st\<lparr>ip := ip st + scast off\<rparr>"

definition op_jmp :: "vm \<Rightarrow> vm" where
  "op_jmp st =
     (if prog_len st \<le> ip st + 1 then fail st
      else let off = operand_u16 (prog st) (ip st) in jump off (advance 2 st))"

definition op_jz :: "vm \<Rightarrow> vm" where
  "op_jz st =
     (if prog_len st \<le> ip st + 1 then fail st
      else
        let off = operand_u16 (prog st) (ip st) in
        case stack_pop (advance 2 st) of (v, st) \<Rightarrow> if v = HInt 0 then jump off st else st)"

text \<open>The result tells whether the program still runs.\<close>

definition halbc_step :: "devfns \<Rightarrow> vm \<Rightarrow> vm \<times> bool" where
  "halbc_step devs st =
     (if halted st \<or> error st then (st, False)
      else if at_end st then (st\<lparr>halted := True\<rparr>, False)
      else
        let op = byte_at st; st = advance 1 st;
            st = (if op = 0x00 then st
              else if op = 0xFF then st\<lparr>halted := True\<rparr>
              else if op = 0x01 then op_open st
              else if op = 0x02 then op_close st
              else if op = 0x03 then op_read st
              else if op = 0x04 then op_write st
              else if op = 0x09 then op_ctl st
              else if op = 0x0A then op_push st
              else if op = 0x0B then snd (stack_pop st)
              else if op = 0x0C then op_call devs st
              else if op = 0x0D then op_jmp st
              else if op = 0x0E then op_jz st
              else fail st) in
        (st, \<not> halted st \<and> \<not> error st))"

text \<open>A program may loop for ever: then there is no result.\<close>

partial_function (option) run_loop :: "devfns \<Rightarrow> vm \<Rightarrow> vm option" where
  "run_loop devs st = (case halbc_step devs st of (st, running) \<Rightarrow> if running then run_loop devs st else Some st)"

definition halbc_run :: "devfns \<Rightarrow> vm \<Rightarrow> (int \<times> vm) option" where
  "halbc_run devs st = map_option (\<lambda>st. (if error st then -1 else 0, st)) (run_loop devs st)"

subsection \<open>The assembler\<close>

definition halbc_encode_str :: "int \<Rightarrow> string \<Rightarrow> u8 list option" where
  "halbc_encode_str bufsz utf8 =
     (let len = length utf8 in
      if len < 128 then
        if bufsz < 1 + int len then None else Some (of_nat len # hb_bytes utf8)
      else if bufsz < 2 + int len then None
      else Some ((0x80 OR of_nat (len div 128)) # of_nat (len mod 128) # hb_bytes utf8))"

definition halbc_encode_int :: "int \<Rightarrow> u64 \<Rightarrow> u8 list option" where
  "halbc_encode_int bufsz val =
     (if bufsz < 5 then None
      else let v = ucast val :: u32 in
        Some [0x80, ucast v, ucast (drop_bit 8 v), ucast (drop_bit 16 v), ucast (drop_bit 24 v)])"

record assembler =
  buf :: "u8 list"
  pos :: nat
  failed :: bool

definition halbc_asm_init :: assembler where
  "halbc_asm_init = \<lparr>buf = replicate HALBC_MAX_PROG 0, pos = 8, failed = False\<rparr>"

definition hb_put :: "nat \<Rightarrow> u8 list \<Rightarrow> u8 list \<Rightarrow> u8 list" where
  "hb_put p bs b = take p b @ bs @ drop (p + length bs) b"

definition asm_emit :: "u8 \<Rightarrow> assembler \<Rightarrow> assembler" where
  "asm_emit b a =
     (if failed a \<or> HALBC_MAX_PROG \<le> pos a then a\<lparr>failed := True\<rparr>
      else a\<lparr>buf := (buf a)[pos a := b], pos := pos a + 1\<rparr>)"

definition asm_put :: "u8 list option \<Rightarrow> assembler \<Rightarrow> assembler" where
  "asm_put bs a =
     (case bs of
        None \<Rightarrow> a\<lparr>failed := True\<rparr>
      | Some bs \<Rightarrow> a\<lparr>buf := hb_put (pos a) bs (buf a), pos := pos a + length bs\<rparr>)"

definition asm_emit_str :: "string \<Rightarrow> assembler \<Rightarrow> assembler" where
  "asm_emit_str s a = asm_put (halbc_encode_str (int HALBC_MAX_PROG - int (pos a)) s) a"

definition asm_emit_int :: "u64 \<Rightarrow> assembler \<Rightarrow> assembler" where
  "asm_emit_int v a = asm_put (halbc_encode_int (int HALBC_MAX_PROG - int (pos a)) v) a"

definition halbc_asm_open :: "string \<Rightarrow> u8 \<Rightarrow> assembler \<Rightarrow> assembler" where
  "halbc_asm_open p mode a = asm_emit mode (asm_emit_str p (asm_emit 0x01 a))"

definition halbc_asm_close :: "u8 \<Rightarrow> assembler \<Rightarrow> assembler" where
  "halbc_asm_close r a = asm_emit r (asm_emit 0x02 a)"

definition halbc_asm_write :: "u8 \<Rightarrow> string \<Rightarrow> assembler \<Rightarrow> assembler" where
  "halbc_asm_write r data a = asm_emit_str data (asm_emit r (asm_emit 0x04 a))"

definition halbc_asm_read :: "u8 \<Rightarrow> u32 \<Rightarrow> assembler \<Rightarrow> assembler" where
  "halbc_asm_read r len a = asm_emit_int (scast len) (asm_emit r (asm_emit 0x03 a))"

definition halbc_asm_ctl :: "u8 \<Rightarrow> string \<Rightarrow> assembler \<Rightarrow> assembler" where
  "halbc_asm_ctl r cmd a = asm_emit_str cmd (asm_emit r (asm_emit 0x09 a))"

definition halbc_asm_halt :: "assembler \<Rightarrow> assembler" where
  "halbc_asm_halt a = asm_emit 0xFF a"

text \<open>The total length, 0 after an error, and the buffer with its header.\<close>

definition halbc_asm_finish :: "assembler \<Rightarrow> nat \<times> assembler" where
  "halbc_asm_finish a =
     (if failed a then (0, a)
      else
        let body = of_nat (pos a - 8) :: u16 in
        (pos a, a\<lparr>buf := hb_put 0 (HALBC_MAGIC @ [HALBC_VERSION, HALBC_FLAG_UTF8, ucast body, ucast (drop_bit 8 body)]) (buf a)\<rparr>))"

end
