(* ===== verification/Halbc_Facts.thy ===== *)
theory Halbc_Facts
  imports Halbc
begin

section \<open>Assembled programs do what their instructions say\<close>

text \<open>
  \<open>instr\<close> is an instruction the assembler knows, \<open>perform\<close> its effect on registers, stack and console, and \<open>enc\<close> its
  bytes. The assembler lays the bytes one after the other, and the executor reads them back and performs them in order.
\<close>

datatype instr = Open string u8 | Close u8 | Write u8 string | Read u8 u32 | Ctl u8 string

fun assemble :: "instr \<Rightarrow> assembler \<Rightarrow> assembler" where
  "assemble (Open p mode) = halbc_asm_open p mode"
| "assemble (Close r) = halbc_asm_close r"
| "assemble (Write r data) = halbc_asm_write r data"
| "assemble (Read r len) = halbc_asm_read r len"
| "assemble (Ctl r cmd) = halbc_asm_ctl r cmd"

definition assemble_all :: "instr list \<Rightarrow> assembler" where
  "assemble_all ins = halbc_asm_halt (fold assemble ins halbc_asm_init)"

fun perform :: "instr \<Rightarrow> vm \<Rightarrow> vm" where
  "perform (Open p mode) st = open_reg (trunc 64 p) st"
| "perform (Close r) st = close_reg r st"
| "perform (Write r data) st = hal_dev_write (trunc 256 data) st"
| "perform (Read r len) st = hal_dev_read len st"
| "perform (Ctl r cmd) st = hal_dev_ctl (trunc 64 cmd) st"

text \<open>The instructions one after the other, up to the first that overflows the stack.\<close>

fun perform_all :: "instr list \<Rightarrow> vm \<Rightarrow> vm" where
  "perform_all [] st = st\<lparr>halted := True\<rparr>"
| "perform_all (i # ins) st = (let st = perform i st in if error st then st else perform_all ins st)"

text \<open>The two states agree on all but the program and the position in it.\<close>

definition same_machine :: "vm \<Rightarrow> vm \<Rightarrow> bool" where
  "same_machine st st' \<longleftrightarrow> st\<lparr>prog := [], ip := 0\<rparr> = st'\<lparr>prog := [], ip := 0\<rparr>"

definition enc_str :: "string \<Rightarrow> u8 list" where
  "enc_str s = (if length s < 128 then of_nat (length s) # hb_bytes s
     else (0x80 OR of_nat (length s div 128)) # of_nat (length s mod 128) # hb_bytes s)"

definition enc_int :: "u64 \<Rightarrow> u8 list" where
  "enc_int v = (let v = ucast v :: u32 in [0x80, ucast v, ucast (drop_bit 8 v), ucast (drop_bit 16 v), ucast (drop_bit 24 v)])"

fun enc :: "instr \<Rightarrow> u8 list" where
  "enc (Open p mode) = 0x01 # enc_str p @ [mode]"
| "enc (Close r) = [0x02, r]"
| "enc (Write r data) = 0x04 # r # enc_str data"
| "enc (Read r len) = 0x03 # r # enc_int (scast len)"
| "enc (Ctl r cmd) = 0x09 # r # enc_str cmd"

subsection \<open>The assembler\<close>

definition asm_ok :: "assembler \<Rightarrow> bool" where
  "asm_ok a \<longleftrightarrow> length (buf a) = HALBC_MAX_PROG \<and> pos a \<le> HALBC_MAX_PROG"

definition emitted :: "assembler \<Rightarrow> u8 list" where
  "emitted a = take (pos a) (buf a)"

text \<open>A step that writes \<open>bs\<close>, unless the buffer is full or was before.\<close>

definition writes :: "u8 list \<Rightarrow> (assembler \<Rightarrow> assembler) \<Rightarrow> bool" where
  "writes bs f \<longleftrightarrow> (\<forall>a. asm_ok a \<longrightarrow> asm_ok (f a) \<and> (failed a \<longrightarrow> failed (f a)) \<and>
     (\<not> failed (f a) \<longrightarrow> emitted (f a) = emitted a @ bs \<and> pos (f a) = pos a + length bs))"

lemma writes_comp: "writes bs f \<Longrightarrow> writes cs g \<Longrightarrow> writes (bs @ cs) (\<lambda>a. g (f a))"
proof (unfold writes_def, intro allI impI, goal_cases)
  case (1 a)
  then have f: "asm_ok (f a)" "failed a \<longrightarrow> failed (f a)"
      "\<not> failed (f a) \<longrightarrow> emitted (f a) = emitted a @ bs \<and> pos (f a) = pos a + length bs" by auto
  then have "asm_ok (g (f a))" "failed (f a) \<longrightarrow> failed (g (f a))"
      "\<not> failed (g (f a)) \<longrightarrow> emitted (g (f a)) = emitted (f a) @ cs \<and> pos (g (f a)) = pos (f a) + length cs" using 1 by auto
  then show ?case using f by auto
qed

lemma writes_emit: "writes [b] (asm_emit b)"
  by (auto simp: writes_def asm_emit_def asm_ok_def emitted_def take_Suc_conv_app_nth)

lemma writes_put:
  assumes "\<And>a. asm_ok a \<Longrightarrow> src a = None \<or> (src a = Some bs \<and> pos a + length bs \<le> HALBC_MAX_PROG)"
  shows "writes bs (\<lambda>a. asm_put (src a) a)"
  unfolding writes_def
proof (intro allI impI)
  fix a assume ok: "asm_ok a"
  from assms [OF ok] show "asm_ok (asm_put (src a) a) \<and> (failed a \<longrightarrow> failed (asm_put (src a) a)) \<and>
     (\<not> failed (asm_put (src a) a) \<longrightarrow>
      emitted (asm_put (src a) a) = emitted a @ bs \<and> pos (asm_put (src a) a) = pos a + length bs)"
    using ok by (auto simp: asm_put_def asm_ok_def emitted_def hb_put_def)
qed

lemma writes_str: "writes (enc_str s) (asm_emit_str s)"
  unfolding asm_emit_str_def [abs_def]
  by (rule writes_put) (auto simp: halbc_encode_str_def enc_str_def hb_bytes_def asm_ok_def Let_def)

lemma writes_int: "writes (enc_int v) (asm_emit_int v)"
  unfolding asm_emit_int_def [abs_def]
  by (rule writes_put) (auto simp: halbc_encode_int_def enc_int_def asm_ok_def Let_def)

lemma writes_assemble: "writes (enc i) (assemble i)"
proof (cases i)
  case (Open p mode)
  show ?thesis
    using writes_comp [OF writes_comp [OF writes_emit [of 1] writes_str [of p]] writes_emit [of mode]]
    by (simp add: Open halbc_asm_open_def [abs_def])
next
  case (Close r)
  show ?thesis using writes_comp [OF writes_emit [of 2] writes_emit [of r]] by (simp add: Close halbc_asm_close_def [abs_def])
next
  case (Write r data)
  show ?thesis
    using writes_comp [OF writes_comp [OF writes_emit [of 4] writes_emit [of r]] writes_str [of data]]
    by (simp add: Write halbc_asm_write_def [abs_def])
next
  case (Read r len)
  show ?thesis
    using writes_comp [OF writes_comp [OF writes_emit [of 3] writes_emit [of r]] writes_int [of "scast len"]]
    by (simp add: Read halbc_asm_read_def [abs_def])
next
  case (Ctl r cmd)
  show ?thesis
    using writes_comp [OF writes_comp [OF writes_emit [of 9] writes_emit [of r]] writes_str [of cmd]]
    by (simp add: Ctl halbc_asm_ctl_def [abs_def])
qed

lemma writes_fold: "writes (concat (map enc ins)) (fold assemble ins)"
proof (induction ins)
  case Nil
  then show ?case by (simp add: writes_def)
next
  case (Cons i ins)
  show ?case using writes_comp [OF writes_assemble [of i] Cons.IH] by (simp add: comp_def)
qed

lemma assemble_all_emitted:
  assumes "\<not> failed (assemble_all ins)"
  shows "\<exists>h. length h = 8 \<and> emitted (assemble_all ins) = h @ concat (map enc ins) @ [0xFF]" "asm_ok (assemble_all ins)"
    "pos (assemble_all ins) = 8 + length (concat (map enc ins)) + 1"
proof -
  have i: "asm_ok halbc_asm_init" "length (emitted halbc_asm_init) = 8" "pos halbc_asm_init = 8"
    by (simp_all add: asm_ok_def halbc_asm_init_def emitted_def HALBC_MAX_PROG_def)
  have w: "writes (concat (map enc ins) @ [0xFF]) (\<lambda>a. halbc_asm_halt (fold assemble ins a))"
    unfolding halbc_asm_halt_def by (rule writes_comp [OF writes_fold writes_emit])
  show "\<exists>h. length h = 8 \<and> emitted (assemble_all ins) = h @ concat (map enc ins) @ [0xFF]" "asm_ok (assemble_all ins)"
    "pos (assemble_all ins) = 8 + length (concat (map enc ins)) + 1"
    using w i assms unfolding writes_def assemble_all_def by (metis, blast, fastforce)
qed

subsection \<open>Operands read back\<close>

lemma text_of_bytes: "hb_text (hb_bytes s) = s"
proof -
  have "unat (of_char c :: u8) = of_char c" for c :: char
  proof -
    have "(of_char c :: u8) = of_nat (of_char c)" by (rule of_nat_of_char [symmetric])
    moreover have "(of_char c :: nat) < 256" by simp
    ultimately show ?thesis by (simp only: unat_of_nat) simp
  qed
  then show ?thesis by (simp add: hb_text_def hb_bytes_def o_def)
qed

lemma text_of_take_bytes: "hb_text (take n (hb_bytes s)) = take n s"
  by (metis text_of_bytes hb_text_def take_map)

lemma text_of_take: "hb_text (take n (hb_bytes s @ r)) = (if n \<le> length s then take n s else s @ hb_text (take (n - length s) r))"
proof -
  show ?thesis using text_of_take_bytes [of n s] by (auto simp: hb_text_def hb_bytes_def)
qed

lemma length_bytes_of [simp]: "length (hb_bytes s) = length s"
  by (simp add: hb_bytes_def)

lemma small_take_bit: "n < 128 \<Longrightarrow> take_bit 7 (of_nat n :: u8) = of_nat n"
  by (simp add: take_bit_of_nat take_bit_nat_eq_self)

lemma low7: "(w :: u8) AND 0x7F = take_bit 7 w"
  by (simp add: take_bit_eq_mask mask_eq_exp_minus_1)

lemma high_bit: "(w :: u8) AND 0x80 = 0 \<longleftrightarrow> \<not> bit w 7"
proof -
  have e: "(0x80 :: u8) = 2 ^ 7" by simp
  have "bit (w AND 2 ^ 7) i = (bit w 7 \<and> i = 7)" for i
    unfolding bit_and_iff bit_exp_iff by auto
  then show ?thesis unfolding e by (metis bit_0_eq bit_eqI bot_apply bot_bool_def)
qed

lemma small_byte:
  assumes "n < 128"
  shows "(of_nat n :: u8) AND 0x80 = 0" "(of_nat n :: u8) AND 0x7F = of_nat n"
    "(0x80 OR of_nat n :: u8) AND 0x7F = of_nat n" "(0x80 OR w :: u8) AND 0x80 \<noteq> 0"
proof -
  have "\<not> bit (take_bit 7 (of_nat n :: u8)) 7" by (simp add: bit_simps)
  then show "(of_nat n :: u8) AND 0x80 = 0" using small_take_bit [OF assms] by (simp add: high_bit)
  show "(of_nat n :: u8) AND 0x7F = of_nat n" using small_take_bit [OF assms] by (simp add: low7)
  have "take_bit 7 (0x80 :: u8) = 0" by simp
  then show "(0x80 OR of_nat n :: u8) AND 0x7F = of_nat n" using small_take_bit [OF assms] by (simp add: low7 take_bit_or)
  have "bit (0x80 :: u8) 7" by simp
  then show "(0x80 OR w :: u8) AND 0x80 \<noteq> 0" by (simp add: high_bit bit_or_iff)
qed

lemma byte_u32: "n < 256 \<Longrightarrow> (ucast (of_nat n :: u8) :: u32) = of_nat n"
  by (simp add: unsigned_of_nat take_bit_nat_eq_self)

lemma two_byte_length:
  assumes "n < 16384"
  shows "push_bit 7 (ucast (of_nat (n div 128) :: u8)) OR ucast (of_nat (n mod 128) :: u8) = (of_nat n :: u32)"
proof -
  have "n div 128 < 256" "n mod 128 < 256" using assms by auto
  then have "push_bit 7 (ucast (of_nat (n div 128) :: u8)) OR ucast (of_nat (n mod 128) :: u8) =
      push_bit 7 (of_nat (n div 128)) OR (of_nat (n mod 128) :: u32)" by (simp only: byte_u32)
  also have "\<dots> = of_nat (push_bit 7 (n div 128) OR n mod 128)" by (simp add: push_bit_of_nat of_nat_or_eq)
  also have "push_bit 7 (n div 128) OR n mod 128 = n"
  proof -
    have "push_bit 7 (drop_bit 7 n) OR take_bit 7 n = n" by (rule bit_eqI) (auto simp: bit_simps)
    then show ?thesis by (simp add: drop_bit_eq_div take_bit_eq_mod)
  qed
  finally show ?thesis .
qed

lemma unat_small: "n \<le> 8192 \<Longrightarrow> unat (of_nat n :: u32) = n"
  by (simp add: unat_of_nat)

lemma le_small: "m \<le> 8192 \<Longrightarrow> n \<le> 8192 \<Longrightarrow> (of_nat m :: u32) \<le> of_nat n \<longleftrightarrow> m \<le> n"
  "m \<le> 8192 \<Longrightarrow> n \<le> 8192 \<Longrightarrow> (of_nat m :: u32) < of_nat n \<longleftrightarrow> m < n"
  by (simp_all add: word_le_nat_alt word_less_nat_alt unat_small)

lemma read_enc_str:
  assumes p: "p = pre @ enc_str s @ post" and i: "i = of_nat (length pre)" and len: "length p \<le> 4096"
  shows "read_str p i b = Some (trunc b s, of_nat (length (enc_str s)))"
proof (cases "length s < 128")
  case True
  then have e: "enc_str s = of_nat (length s) # hb_bytes s" by (simp add: enc_str_def)
  have l: "length p = length pre + 1 + length s + length post" using p by (simp add: e hb_bytes_def)
  have u: "unat i = length pre" "unat (i + 1) = length pre + 1"
    using l len unat_small [of "length pre"] unat_small [of "length pre + 1"] by (simp_all add: i add.commute)
  have n: "unat (ucast (of_nat (length s) :: u8) :: u32) = length s" "(ucast (of_nat (length s) :: u8) :: u32) = of_nat (length s)"
    using True unat_small [of "length s"] by (simp_all add: byte_u32)
  have un: "unat (of_nat (length s) :: u32) = length s" using unat_small [of "length s"] True by simp
  have b0: "p ! length pre = of_nat (length s)" "drop (length pre + 1) p = hb_bytes s @ post" using p by (simp_all add: e)
  have c1: "\<not> of_nat (length p) \<le> i" using le_small(1) [of "length p" "length pre"] l len by (simp add: i)
  have c2: "p ! unat i AND 0x80 = 0" using small_byte(1) [OF True] by (simp only: u b0)
  have "i + 1 + of_nat (length s) = of_nat (length pre + 1 + length s)" by (simp add: i)
  then have c3: "\<not> of_nat (length p) < i + 1 + ucast (p ! unat i)"
    using le_small(2) [of "length p" "length pre + 1 + length s"] l len by (simp only: u b0 n)
  have "read_str p i b = Some (hb_text (take (min (b - 1) (length s)) (hb_bytes s @ post)), 1 + of_nat (length s))"
    unfolding read_str_def Let_def using c1 c2 c3 un by (simp only: if_False if_True u b0 n) simp
  then show ?thesis using True by (simp add: text_of_take trunc_def e min_def text_of_bytes text_of_take_bytes)
next
  case False
  have e: "enc_str s = (0x80 OR of_nat (length s div 128)) # of_nat (length s mod 128) # hb_bytes s"
    using False by (simp add: enc_str_def)
  have l: "length p = length pre + 2 + length s + length post" using p by (simp add: e hb_bytes_def)
  have u: "unat i = length pre" "unat (i + 1) = length pre + 1" "unat (i + 2) = length pre + 2"
    using l len unat_small [of "length pre"] unat_small [of "length pre + 1"] unat_small [of "length pre + 2"]
    by (simp_all add: i add.commute)
  have small: "length s div 128 < 128" "length s mod 128 < 128" using l len by auto
  have b: "p ! length pre = 0x80 OR of_nat (length s div 128)" "p ! (length pre + 1) = of_nat (length s mod 128)"
      "drop (length pre + 2) p = hb_bytes s @ post" using p by (simp_all add: e nth_append)
  have n: "push_bit 7 (ucast (p ! unat i AND 0x7F)) OR ucast (p ! unat (i + 1) AND 0x7F) = (of_nat (length s) :: u32)"
    using two_byte_length [of "length s"] small_byte(3) [OF small(1)] small_byte(2) [OF small(2)] l len by (simp only: u b)
  have un: "unat (of_nat (length s) :: u32) = length s" using unat_small [of "length s"] l len by simp
  have "i + 2 + of_nat (length s) = of_nat (length pre + 2 + length s)" by (simp add: i)
  moreover have "\<not> of_nat (length p) \<le> i" "\<not> of_nat (length p) \<le> i + 1"
    using le_small(1) [of "length p" "length pre"] le_small(1) [of "length p" "length pre + 1"] l len by (simp_all add: i add.commute)
  moreover have "p ! unat i AND 0x80 \<noteq> 0" using small_byte(4) [OF small(1)] by (simp only: u b) simp
  ultimately have "read_str p i b = Some (hb_text (take (min (b - 1) (length s)) (hb_bytes s @ post)), 2 + of_nat (length s))"
    using le_small(2) [of "length p" "length pre + 2 + length s"] l len n un u(3) b(3)
    by (simp only: read_str_def Let_def) simp
  then show ?thesis by (simp add: text_of_take trunc_def e min_def text_of_bytes text_of_take_bytes)
qed

lemma four_bytes:
  "ucast (ucast w :: u8) OR push_bit 8 (ucast (ucast (drop_bit 8 w) :: u8)) OR push_bit 16 (ucast (ucast (drop_bit 16 w) :: u8)) OR
    push_bit 24 (ucast (ucast (drop_bit 24 w) :: u8)) = (w :: u32)" (is "?l = w")
proof (rule bit_word_eqI)
  fix n assume n: "n < LENGTH(32)"
  consider "n < 8" | "8 \<le> n" "n < 16" | "16 \<le> n" "n < 24" | "24 \<le> n" by linarith
  then show "bit ?l n = bit w n" using n by cases (auto simp: bit_simps)
qed

lemma read_enc_int:
  assumes p: "p = pre @ enc_int v @ post" and i: "i = of_nat (length pre)" and len: "length p \<le> 4096"
  shows "read_int p i = Some (scast (ucast v :: u32))" "p ! unat i = 0x80"
proof -
  have l: "length p = length pre + 5 + length post" using p by (simp add: enc_int_def Let_def)
  have u: "unat i = length pre" "unat (i + 1) = length pre + 1" "unat (i + 2) = length pre + 2" "unat (i + 3) = length pre + 3"
      "unat (i + 4) = length pre + 4"
    using l len unat_small [of "length pre"] unat_small [of "length pre + 1"] unat_small [of "length pre + 2"]
      unat_small [of "length pre + 3"] unat_small [of "length pre + 4"] by (simp_all add: i add.commute)
  let ?v = "ucast v :: u32"
  have b: "p ! length pre = 0x80" "p ! (length pre + 1) = ucast ?v" "p ! (length pre + 2) = ucast (drop_bit 8 ?v)"
      "p ! (length pre + 3) = ucast (drop_bit 16 ?v)" "p ! (length pre + 4) = ucast (drop_bit 24 ?v)"
    using p by (simp_all add: enc_int_def Let_def nth_append)
  show "p ! unat i = 0x80" using b u by simp
  have c: "\<not> of_nat (length p) \<le> i + 4"
    using le_small(1) [of "length p" "length pre + 4"] l len by (simp add: i add.commute)
  show "read_int p i = Some (scast ?v)"
    unfolding read_int_def Let_def u b using c four_bytes [of ?v] by simp
qed

subsection \<open>One instruction\<close>

definition at_ip :: "nat \<Rightarrow> vm \<Rightarrow> vm" where
  "at_ip n st = st\<lparr>ip := of_nat n\<rparr>"

definition ready :: "vm \<Rightarrow> u8 list \<Rightarrow> u8 list \<Rightarrow> bool" where
  "ready st pre rest \<longleftrightarrow> prog st = pre @ rest \<and> ip st = of_nat (length pre) \<and> length (prog st) \<le> 4096"

lemma ready_byte: "ready st pre (b # rest) \<Longrightarrow> byte_at st = b \<and> \<not> at_end st \<and> ready (advance 1 st) (pre @ [b]) rest"
  using unat_small [of "length pre"] le_small(1) [of "length (prog st)" "length pre"]
  by (auto simp: ready_def byte_at_def at_end_def prog_len_def advance_def)

lemma ready_str:
  assumes "ready st pre (enc_str s @ rest)"
  shows "read_str (prog st) (ip st) b = Some (trunc b s, of_nat (length (enc_str s)))"
    "ready (advance (of_nat (length (enc_str s))) st) (pre @ enc_str s) rest"
  using read_enc_str [of "prog st" pre s rest "ip st" b] assms by (auto simp: ready_def advance_def)

lemma ready_int:
  assumes "ready st pre (enc_int v @ rest)"
  shows "read_int (prog st) (ip st) = Some (scast (ucast v :: u32))" "byte_at st = 0x80" "\<not> at_end st"
    "ready (advance 5 st) (pre @ enc_int v) rest"
proof -
  have "enc_int v \<noteq> []" by (simp add: enc_int_def Let_def)
  then show "\<not> at_end st" using ready_byte [of st pre "hd (enc_int v)" "tl (enc_int v) @ rest"] assms by (cases "enc_int v") auto
qed (use read_enc_int [of "prog st" pre v rest "ip st"] assms in \<open>auto simp: ready_def advance_def byte_at_def enc_int_def Let_def\<close>)

text \<open>What an instruction does depends on neither program nor position and moves neither.\<close>

definition core :: "vm \<Rightarrow> vm" where
  "core st = st\<lparr>prog := [], ip := 0\<rparr>"

lemma perform_core: "core (perform i st) = perform i (core st)"
  by (cases i) (auto simp: core_def open_reg_def close_reg_def hal_dev_write_def hal_dev_read_def hal_dev_ctl_def stack_push_int_def
    stack_push_str_def split: option.split prod.split)

lemma perform_frame [simp]:
  "prog (perform i st) = prog st" "ip (perform i st) = ip st" "halted (perform i st) = halted st"
  by (cases i; auto simp: open_reg_def close_reg_def hal_dev_write_def hal_dev_read_def hal_dev_ctl_def stack_push_int_def
    stack_push_str_def split: option.split prod.split)+

lemma at_ip_frame [simp]: "prog (at_ip n st) = prog st" "halted (at_ip n st) = halted st" "error (at_ip n st) = error st"
    "core (at_ip n st) = core st"
  by (simp_all add: at_ip_def core_def)

lemma step_instr:
  assumes r: "ready st pre (enc i @ rest)" and run: "\<not> halted st" "\<not> error st"
  shows "halbc_step devs st = (perform i (at_ip (length pre + length (enc i)) st), \<not> error (perform i (at_ip (length pre + length (enc i)) st)))"
proof (cases i)
  case (Close k)
  have r1: "ready st pre (2 # k # rest)" using r Close by simp
  note b1 = ready_byte [OF r1] note b2 = ready_byte [OF conjunct2 [OF conjunct2 [OF b1]]]
  have "advance 1 (advance 1 st) = at_ip (length pre + 2) st" using r1 by (auto simp: ready_def advance_def at_ip_def)
  then show ?thesis using b1 b2 run perform_frame(3) [of i "at_ip (length pre + 2) st"] by (simp add: halbc_step_def Let_def op_close_def Close)
next
  case (Open p mode)
  have r1: "ready st pre (1 # enc_str p @ mode # rest)" using r Open by simp
  note b1 = ready_byte [OF r1] note b2 = ready_str [OF conjunct2 [OF conjunct2 [OF b1]]] note b3 = ready_byte [OF b2(2)]
  have "advance 1 (advance (of_nat (length (enc_str p))) (advance 1 st)) = at_ip (length pre + length (enc i)) st"
    using r1 by (auto simp: ready_def advance_def at_ip_def Open)
  then show ?thesis using b1 b2(1) b3 run perform_frame(3) [of i "at_ip (length pre + length (enc i)) st"]
    by (simp add: halbc_step_def Let_def op_open_def Open)
next
  case (Write k data)
  have r1: "ready st pre (4 # k # enc_str data @ rest)" using r Write by simp
  note b1 = ready_byte [OF r1] note b2 = ready_byte [OF conjunct2 [OF conjunct2 [OF b1]]]
  note b3 = ready_str [OF conjunct2 [OF conjunct2 [OF b2]]]
  have "advance (of_nat (length (enc_str data))) (advance 1 (advance 1 st)) = at_ip (length pre + length (enc i)) st"
    using r1 by (auto simp: ready_def advance_def at_ip_def Write)
  then show ?thesis using b1 b2 b3(1) run perform_frame(3) [of i "at_ip (length pre + length (enc i)) st"]
    by (simp add: halbc_step_def Let_def op_write_def Write)
next
  case (Ctl k cmd)
  have r1: "ready st pre (9 # k # enc_str cmd @ rest)" using r Ctl by simp
  note b1 = ready_byte [OF r1] note b2 = ready_byte [OF conjunct2 [OF conjunct2 [OF b1]]]
  note b3 = ready_str [OF conjunct2 [OF conjunct2 [OF b2]]]
  have "advance (of_nat (length (enc_str cmd))) (advance 1 (advance 1 st)) = at_ip (length pre + length (enc i)) st"
    using r1 by (auto simp: ready_def advance_def at_ip_def Ctl)
  then show ?thesis using b1 b2 b3(1) run perform_frame(3) [of i "at_ip (length pre + length (enc i)) st"]
    by (simp add: halbc_step_def Let_def op_ctl_def Ctl)
next
  case (Read k len)
  have r1: "ready st pre (3 # k # enc_int (scast len) @ rest)" using r Read by simp
  note b1 = ready_byte [OF r1] note b2 = ready_byte [OF conjunct2 [OF conjunct2 [OF b1]]]
  note b3 = ready_int [OF conjunct2 [OF conjunct2 [OF b2]]]
  have "ucast (scast (ucast (scast len :: u64) :: u32) :: u64) = len"
    by (auto intro!: bit_eqI simp: bit_simps dest: bit_imp_le_length)
  moreover have "advance 5 (advance 1 (advance 1 st)) = at_ip (length pre + length (enc i)) st"
    using r1 by (auto simp: ready_def advance_def at_ip_def Read enc_int_def Let_def)
  ultimately show ?thesis using b1 b2 b3 run perform_frame(3) [of i "at_ip (length pre + length (enc i)) st"]
    by (simp add: halbc_step_def Let_def op_read_def Read)
qed

subsection \<open>A whole program\<close>

lemma core_error: "error (core st) = error st"
  by (simp add: core_def)

lemma perform_error: "error (perform i (core st)) = error (perform i st)"
  by (simp only: core_error flip: perform_core)

lemma perform_all_core: "core (perform_all ins st) = perform_all ins (core st)"
proof (induction ins arbitrary: st)
  case (Cons i ins)
  then show ?case using perform_error [of i st] by (simp add: Let_def perform_core)
qed (simp add: core_def)

lemma run_done: "halbc_step devs st = (st', False) \<Longrightarrow> run_loop devs st = Some st'"
  "halbc_step devs st = (st', True) \<Longrightarrow> run_loop devs st = run_loop devs st'"
  by (simp_all add: run_loop.simps [of devs st])

lemma run_instrs:
  "ready st pre (concat (map enc ins) @ 0xFF # rest) \<Longrightarrow> \<not> halted st \<Longrightarrow> \<not> error st \<Longrightarrow>
   \<exists>st'. run_loop devs st = Some st' \<and> core st' = perform_all ins (core st)"
proof (induction ins arbitrary: st pre)
  case Nil
  then have "halbc_step devs st = ((advance 1 st)\<lparr>halted := True\<rparr>, False)"
    using ready_byte [of st pre "0xFF" rest] by (simp add: halbc_step_def Let_def)
  then show ?case using run_done(1) by (simp add: core_def advance_def)
next
  case (Cons i ins)
  let ?st = "perform i (at_ip (length pre + length (enc i)) st)"
  have r: "ready st pre (enc i @ concat (map enc ins) @ 0xFF # rest)" using Cons.prems(1) by simp
  note step = step_instr [OF r Cons.prems(2,3), of devs]
  have c: "core ?st = perform i (core st)" by (simp add: perform_core)
  show ?case
  proof (cases "error ?st")
    case True
    then have "error (perform i (core st))" using core_error [of ?st] c by simp
    then show ?thesis using run_done(1) [of devs st ?st] step True c by simp
  next
    case False
    have "ready ?st (pre @ enc i) (concat (map enc ins) @ 0xFF # rest)" using r by (auto simp: ready_def at_ip_def)
    from Cons.IH [OF this] Cons.prems(2) False obtain st' where st': "run_loop devs ?st = Some st'"
      "core st' = perform_all ins (core ?st)" by auto
    have "\<not> error (perform i (core st))" using core_error [of ?st] False c by simp
    then show ?thesis using run_done(2) [of devs st ?st] step False c st' by simp
  qed
qed

lemma put_header: "length h = 8 \<Longrightarrow> 8 \<le> k \<Longrightarrow> k \<le> length b \<Longrightarrow> take k (hb_put 0 h b) = h @ drop 8 (take k b)"
  by (simp add: hb_put_def drop_take)

lemma finish_init:
  assumes ok: "\<not> failed (assemble_all ins)"
  shows "\<exists>h. halbc_asm_finish (assemble_all ins) = (n, a) \<longrightarrow>
    take n (buf a) = h @ concat (map enc ins) @ [0xFF] \<and> length h = 8 \<and> n \<le> 4096 \<and> take 4 h = HALBC_MAGIC \<and> h ! 4 = HALBC_VERSION"
proof -
  note em = assemble_all_emitted [OF ok]
  let ?a = "assemble_all ins" and ?body = "of_nat (pos (assemble_all ins) - 8) :: u16"
  let ?h = "HALBC_MAGIC @ [HALBC_VERSION, HALBC_FLAG_UTF8, ucast ?body, ucast (drop_bit 8 ?body)]"
  obtain h where h: "length h = 8" "emitted ?a = h @ concat (map enc ins) @ [0xFF]" using em(1) by blast
  have l: "length ?h = 8" by (simp add: HALBC_MAGIC_def)
  have "take (pos ?a) (hb_put 0 ?h (buf ?a)) = ?h @ drop 8 (emitted ?a)"
    using put_header [OF l, of "pos ?a" "buf ?a"] em(2,3) by (simp only: emitted_def asm_ok_def)
  also have "\<dots> = ?h @ concat (map enc ins) @ [0xFF]" using h by simp
  finally have e: "take (pos ?a) (hb_put 0 ?h (buf ?a)) = ?h @ concat (map enc ins) @ [0xFF]" .
  have p: "pos ?a \<le> 4096" using em(2) by (simp add: asm_ok_def HALBC_MAX_PROG_def)
  show ?thesis
    by (rule exI [of _ ?h]) (use e p ok in \<open>auto simp: halbc_asm_finish_def Let_def HALBC_MAGIC_def\<close>)
qed

lemma assembled_runs:
  assumes ok: "\<not> failed (assemble_all ins)" and fin: "halbc_asm_finish (assemble_all ins) = (n, a)"
    and init: "halbc_init (take n (buf a)) inp = (st, r)"
  shows "r = 0 \<and> (\<exists>st'. halbc_run devs st = Some (if error st' then -1 else 0, st') \<and> same_machine st' (perform_all ins st))"
proof -
  obtain h where h: "take n (buf a) = h @ concat (map enc ins) @ [0xFF]" "length h = 8" "n \<le> 4096"
      "take 4 h = HALBC_MAGIC" "h ! 4 = HALBC_VERSION"
    using finish_init [OF ok, of n a] fin by blast
  let ?p = "take n (buf a)"
  have "\<not> length ?p < 8" "take 4 ?p = HALBC_MAGIC" "?p ! 4 = HALBC_VERSION"
    unfolding h(1) using h(2,4,5) by (simp_all add: nth_append)
  then have st: "r = 0" "prog st = ?p" "ip st = 8" "\<not> halted st" "\<not> error st" using init by (auto simp: halbc_init_def Let_def)
  have "length ?p \<le> 4096" using h(3) by simp
  then have "ready st h (concat (map enc ins) @ [0xFF])" using st h(1,2) by (simp add: ready_def)
  then obtain st' where "run_loop devs st = Some st'" "core st' = perform_all ins (core st)"
    using run_instrs [of st h ins "[]" devs] st by auto
  then show ?thesis using st(1) by (simp add: halbc_run_def same_machine_def perform_all_core flip: core_def)
qed

subsection \<open>What differs from the description\<close>

text \<open>A string of \<open>2 ^ 14\<close> bytes or more does not fit its length: the length read back is another one.\<close>

lemma long_string_length: "halbc_encode_str 20000 (replicate 16384 CHR ''a'') = Some (0x80 # 0 # hb_bytes (replicate 16384 CHR ''a''))"
  by (simp add: halbc_encode_str_def Let_def)

text \<open>A jump to before the program ends it as if it had halted.\<close>

lemma jump_before_start:
  assumes "\<not> halted st" "\<not> error st" "prog st = [0x0D, 0x00, 0x80]" "ip st = 0"
  shows "\<exists>st'. halbc_run devs st = Some (0, st')"
proof -
  have "halbc_step devs st = (st\<lparr>ip := 3 + scast (0x8000 :: u16)\<rparr>, True)"
    using assms by (simp add: halbc_step_def at_end_def prog_len_def byte_at_def advance_def op_jmp_def operand_u16_def jump_def Let_def)
  moreover have "halbc_step devs (st\<lparr>ip := 3 + scast (0x8000 :: u16)\<rparr>) =
      (st\<lparr>ip := 3 + scast (0x8000 :: u16), halted := True\<rparr>, False)"
    using assms by (simp add: halbc_step_def at_end_def prog_len_def)
  ultimately show ?thesis using run_done assms(2) by (simp add: halbc_run_def)
qed

subsection \<open>Property\<close>

text \<open>C6: A program that the assembler builds from a list of instructions and does not fail on is accepted by
  \<open>halbc_init\<close>, and \<open>halbc_run\<close> ends after performing exactly these instructions, in order, with their operands, up to
  the first that overflows the stack; the result is \<open>-1\<close> exactly then.\<close>

theorem halbc_assembled_runs:
  assumes "\<not> failed (assemble_all ins)" "halbc_asm_finish (assemble_all ins) = (n, a)"
    and "halbc_init (take n (buf a)) inp = (st, r)"
  shows "r = 0 \<and> (\<exists>st'. halbc_run devs st = Some (if error st' then -1 else 0, st') \<and> same_machine st' (perform_all ins st))"
  by (rule assembled_runs [OF assms])

theorem halbc_assembled_runs_witness:
  "\<exists>st st' n a. halbc_asm_finish (assemble_all [Open ''/dev/cons'' 1, Write 0 ''hi'', Close 0]) = (n, a) \<and>
     halbc_init (take n (buf a)) [] = (st, 0) \<and> halbc_run [] st = Some (0, st') \<and> cons_out st' = ''hi'' \<and> stack st' = [HInt 0]"
proof -
  let ?ins = "[Open ''/dev/cons'' 1, Write 0 ''hi'', Close 0]"
  have ok: "\<not> failed (assemble_all ?ins)"
    by (simp add: assemble_all_def halbc_asm_init_def halbc_asm_open_def halbc_asm_write_def halbc_asm_close_def halbc_asm_halt_def
      asm_emit_def asm_emit_str_def asm_put_def halbc_encode_str_def HALBC_MAX_PROG_def hb_bytes_def Let_def)
  obtain n a where fin: "halbc_asm_finish (assemble_all ?ins) = (n, a)" by fastforce
  obtain st r where init: "halbc_init (take n (buf a)) [] = (st, r)" by fastforce
  from halbc_assembled_runs [OF ok fin init, of "[]"] obtain st' where st': "r = 0"
      "halbc_run [] st = Some (if error st' then -1 else 0, st')" "same_machine st' (perform_all ?ins st)" by auto
  have s: "regs st = replicate 16 \<lparr>in_use = False, path = [], offset = 0\<rparr>" "stack st = []" "cons_out st = []" "\<not> error st"
    using init st'(1) by (auto simp: halbc_init_def Let_def HALBC_MAX_REGS_def split: if_splits)
  define q where "q = perform_all ?ins st"
  have q: "cons_out q = ''hi''" "stack q = [HInt 0]" "\<not> error q"
    using s by (simp_all add: q_def Let_def open_reg_def stack_push_int_def hal_dev_write_def close_reg_def HALBC_STACK_DEPTH_def
      HALBC_MAX_REGS_def numeral_eq_Suc trunc_def c_str_def)
  have "cons_out st' = cons_out q \<and> stack st' = stack q \<and> error st' = error q"
    using arg_cong [OF st'(3) [unfolded same_machine_def], of cons_out] arg_cong [OF st'(3) [unfolded same_machine_def], of stack]
      arg_cong [OF st'(3) [unfolded same_machine_def], of error] by (simp add: q_def del: perform_all.simps)
  then show ?thesis using fin init st'(1,2) q by auto
qed

end
