(* ===== verification/Depscan.thy ===== *)
theory Depscan
  imports Cstr
begin

section \<open>Dependency scan and generated literals (\<^verbatim>\<open>compiler/dep_scan.c\<close>, \<^verbatim>\<open>compiler/codegen.c\<close>)\<close>

text \<open>
  The files are an argument: the contents of a path that can be opened, up to the first NUL. The list of
  dependencies is the list of their paths.
\<close>

type_synonym files = "string \<Rightarrow> string option"

abbreviation (input) NEXS_DEP_PATH_MAX :: nat where "NEXS_DEP_PATH_MAX \<equiv> REG_PATH_MAX"
abbreviation (input) NEXS_MAX_DEPS :: nat where "NEXS_MAX_DEPS \<equiv> 256"

definition dep_read_file :: "files \<Rightarrow> string \<Rightarrow> string option" where
  "dep_read_file files p = map_option c_str (files p)"

definition path_dirname :: "string \<Rightarrow> nat \<Rightarrow> string" where
  "path_dirname path bufsz =
     (let buf = trunc bufsz path in
      case strrchr CHR ''/'' buf of
        None \<Rightarrow> trunc bufsz ''.''
      | Some i \<Rightarrow> if i = 0 then take 1 buf else take i buf)"

definition path_join :: "string \<Rightarrow> string \<Rightarrow> nat \<Rightarrow> string" where
  "path_join dir name bufsz =
     (if take 1 name = ''/'' then trunc bufsz name
      else if dir = ''.'' then trunc bufsz name
      else trunc bufsz (dir @ ''/'' @ name))"

definition is_blank :: "char \<Rightarrow> bool" where
  "is_blank c \<longleftrightarrow> c = CHR '' '' \<or> c = CHR 0x09"

text \<open>
  At \<^verbatim>\<open>exec\<close>, blanks and a parenthesis: what follows, and the literal there, when it is one.
\<close>

definition exec_call :: "string \<Rightarrow> (string option \<times> string) option" where
  "exec_call p =
     (if take 4 p = ''exec'' then
        let after_exec = dropWhile is_blank (drop 4 p) in
        if take 1 after_exec = ''('' then
          let after_exec = dropWhile is_blank (drop 1 after_exec) in
          if take 1 after_exec = [CHR 0x22] \<or> take 1 after_exec = [CHR 0x27] then
            let quote = hd after_exec; start = drop 1 after_exec;
                stop = dropWhile (\<lambda>c. c \<noteq> quote \<and> c \<noteq> CHR 0x0A) start in
            if take 1 stop = [quote] then
              let rel_path = takeWhile (\<lambda>c. c \<noteq> quote \<and> c \<noteq> CHR 0x0A) start in
              Some (if 0 < length rel_path \<and> length rel_path < NEXS_DEP_PATH_MAX - 1 then Some rel_path else None, stop)
            else Some (None, stop)
          else Some (None, after_exec)
        else None
      else None)"

text \<open>The path that a literal in a file of directory \<open>dir\<close> stands for.\<close>

definition dep_path :: "files \<Rightarrow> string \<Rightarrow> string \<Rightarrow> string" where
  "dep_path files dir rel_path =
     (if take 1 rel_path = ''/'' then trunc NEXS_DEP_PATH_MAX rel_path
      else let abs_path = trunc NEXS_DEP_PATH_MAX rel_path in
        case files abs_path of
          Some _ \<Rightarrow> abs_path
        | None \<Rightarrow>
            let alt = path_join dir rel_path NEXS_DEP_PATH_MAX in
            case files alt of None \<Rightarrow> abs_path | Some _ \<Rightarrow> trunc NEXS_DEP_PATH_MAX alt)"

lemma exec_call_length: "exec_call p = Some (a, stop) \<Longrightarrow> length stop < length p"
proof -
  assume e: "exec_call p = Some (a, stop)"
  define q where "q = dropWhile is_blank (drop 4 p)"
  define r where "r = dropWhile is_blank (drop (Suc 0) q)"
  have p: "take 4 p = ''exec''" "take 1 q = ''(''" using e by (auto simp: exec_call_def q_def Let_def split: if_splits)
  have lp: "4 \<le> length p" using arg_cong [OF p(1), of length] by simp
  have lq: "length q \<le> length p - 4" using length_dropWhile_le [of is_blank "drop 4 p"] by (simp add: q_def)
  have lr: "length r \<le> length q - 1" using length_dropWhile_le [of is_blank "drop (Suc 0) q"] by (simp add: r_def)
  have d: "length (dropWhile f (drop (Suc 0) r)) \<le> length r" for f
    using length_dropWhile_le [of f "drop (Suc 0) r"] by simp
  have "length stop \<le> length r"
    using e p d by (auto simp: exec_call_def Let_def simp flip: q_def r_def split: if_splits)
  then show ?thesis using lp lq lr by linarith
qed

text \<open>\<open>scan_source\<close> from the position \<open>p\<close> in a file of directory \<open>dir\<close>; \<open>deps\<close> holds what was found before.\<close>

function scan_source :: "files \<Rightarrow> nat \<Rightarrow> string \<Rightarrow> string \<Rightarrow> string list \<Rightarrow> string list" where
  "scan_source files max_deps dir p deps =
     (case p of
        [] \<Rightarrow> deps
      | c # cs \<Rightarrow>
          if c = CHR 0x23 then scan_source files max_deps dir (dropWhile (\<lambda>c. c \<noteq> CHR 0x0A) cs) deps
          else case exec_call p of
            None \<Rightarrow> scan_source files max_deps dir cs deps
          | Some (None, after_exec) \<Rightarrow> scan_source files max_deps dir after_exec deps
          | Some (Some rel_path, after_exec) \<Rightarrow>
              let abs_path = dep_path files dir rel_path in
              if abs_path \<in> set deps \<or> max_deps \<le> length deps then scan_source files max_deps dir after_exec deps
              else case dep_read_file files abs_path of
                None \<Rightarrow> scan_source files max_deps dir after_exec (deps @ [abs_path])
              | Some dep_src \<Rightarrow>
                  scan_source files max_deps dir after_exec
                    (scan_source files max_deps (path_dirname abs_path NEXS_DEP_PATH_MAX) dep_src (deps @ [abs_path])))"
  by pat_completeness auto

lemma scan_source_grows:
  "scan_source_dom (files, max_deps, dir, p, deps) \<Longrightarrow> length deps \<le> length (scan_source files max_deps dir p deps)"
proof (induction rule: scan_source.pinduct)
  case (1 files max_deps dir p deps)
  show ?case
    using "1.IH" by (subst scan_source.psimps [OF "1.hyps"])
      (fastforce simp: Let_def split: list.split option.split prod.split)
qed

termination scan_source
  by (relation "measures [\<lambda>(files, max_deps, dir, p, deps). max_deps - length deps, \<lambda>(files, max_deps, dir, p, deps). length p]")
    (auto dest: exec_call_length scan_source_grows simp: le_imp_less_Suc length_dropWhile_le)

declare scan_source.simps [simp del]

definition nexs_scan_deps :: "files \<Rightarrow> string \<Rightarrow> nat \<Rightarrow> (string \<times> string option) list" where
  "nexs_scan_deps files src_path max_deps =
     (if max_deps = 0 then []
      else case dep_read_file files src_path of
        None \<Rightarrow> []
      | Some src \<Rightarrow>
          map (\<lambda>p. (p, dep_read_file files p))
            (scan_source files max_deps (path_dirname src_path NEXS_DEP_PATH_MAX) src []))"

subsection \<open>String literals of the generated program\<close>

text \<open>One byte as it is written between the quotes.\<close>

definition hex_digit :: "nat \<Rightarrow> char" where
  "hex_digit n = (if n < 10 then char_of (48 + n) else char_of (87 + n))"

definition escape_byte :: "char \<Rightarrow> string" where
  "escape_byte c =
     (let n = of_char c in
      if c = CHR 0x22 then [CHR 0x5C, CHR 0x22]
      else if c = CHR 0x5C then [CHR 0x5C, CHR 0x5C]
      else if n = 10 then [CHR 0x5C, CHR ''n'']
      else if n = 13 then [CHR 0x5C, CHR ''r'']
      else if n = 9 then [CHR 0x5C, CHR ''t'']
      else if n = 0 then [CHR 0x5C, CHR ''0'']
      else if n < 32 \<or> 126 < n then [CHR 0x5C, CHR ''x'', hex_digit (n div 16), hex_digit (n mod 16)]
      else [c])"

definition write_c_string :: "string \<Rightarrow> string" where
  "write_c_string s = CHR 0x22 # concat (map escape_byte s) @ [CHR 0x22]"

text \<open>What a C compiler with \<^verbatim>\<open>-std=c11\<close> reads back between the quotes: a hexadecimal escape takes all hexadecimal digits that follow,
  an octal one up to three.\<close>

definition hex_value :: "char \<Rightarrow> nat option" where
  "hex_value c =
     (let n = of_char c in
      if 48 \<le> n \<and> n \<le> 57 then Some (n - 48)
      else if 97 \<le> n \<and> n \<le> 102 then Some (n - 87)
      else if 65 \<le> n \<and> n \<le> 70 then Some (n - 55)
      else None)"

definition is_hex_digit :: "char \<Rightarrow> bool" where
  "is_hex_digit c \<longleftrightarrow> hex_value c \<noteq> None"

definition is_octal_digit :: "char \<Rightarrow> bool" where
  "is_octal_digit c \<longleftrightarrow> 48 \<le> (of_char c :: nat) \<and> (of_char c :: nat) \<le> 55"

definition digits_in :: "nat \<Rightarrow> string \<Rightarrow> nat" where
  "digits_in b ds = foldl (\<lambda>n c. b * n + the (hex_value c)) 0 ds"

text \<open>One character of a literal and what is left, or none where the literal is not valid (a value above 255 among others).\<close>

definition read_escape :: "string \<Rightarrow> (char \<times> string) option" where
  "read_escape s =
     (case s of
        [] \<Rightarrow> None
      | c # r \<Rightarrow>
          if c = CHR ''x'' then
            let ds = takeWhile is_hex_digit r; v = digits_in 16 ds in
            if ds = [] \<or> 255 < v then None else Some (char_of v, dropWhile is_hex_digit r)
          else if is_octal_digit c then
            let ds = takeWhile is_octal_digit (take 3 s); v = digits_in 8 ds in
            if 255 < v then None else Some (char_of v, drop (length ds) s)
          else if c = CHR ''n'' then Some (CHR 0x0A, r)
          else if c = CHR ''r'' then Some (CHR 0x0D, r)
          else if c = CHR ''t'' then Some (CHR 0x09, r)
          else if c = CHR 0x22 \<or> c = CHR 0x5C then Some (c, r)
          else None)"

lemma read_escape_length: "read_escape s = Some (c, r) \<Longrightarrow> length r < length s"
proof -
  assume e: "read_escape s = Some (c, r)"
  then obtain d t where s: "s = d # t" by (cases s) (auto simp: read_escape_def)
  have h: "length (dropWhile is_hex_digit t) \<le> length t" by (rule length_dropWhile_le)
  have o: "is_octal_digit d \<Longrightarrow> 0 < length (takeWhile is_octal_digit (take 3 s))" by (simp add: s)
  show ?thesis using e h o by (auto simp: read_escape_def s Let_def split: if_splits)
qed

function read_literal :: "string \<Rightarrow> string option" where
  "read_literal s =
     (case s of
        [] \<Rightarrow> None
      | c # r \<Rightarrow>
          if c = CHR 0x22 then (if r = [] then Some [] else None)
          else if c = CHR 0x0A then None
          else if c = CHR 0x5C then
            (case read_escape r of None \<Rightarrow> None | Some (d, t) \<Rightarrow> map_option ((#) d) (read_literal t))
          else map_option ((#) c) (read_literal r))"
  by pat_completeness auto
termination by (relation "measure length") (auto dest: read_escape_length)

declare read_literal.simps [simp del]

text \<open>What comes before the tokens: the trigraphs, which \<^verbatim>\<open>-std=c11\<close> turns on, and joined lines.\<close>

definition trigraph :: "char \<Rightarrow> char option" where
  "trigraph = map_of (zip ''=/'' [CHR ''#'', CHR 0x5C] @ zip [CHR 0x27, CHR ''('', CHR '')''] ''^[]'' @ zip ''!<>-'' ''|{}~'')"

fun trigraphs :: "string \<Rightarrow> string" where
  "trigraphs (a # b # c # s) =
     (if a = CHR ''?'' \<and> b = CHR ''?'' \<and> trigraph c \<noteq> None then the (trigraph c) # trigraphs s
      else a # trigraphs (b # c # s))"
| "trigraphs s = s"

fun join_lines :: "string \<Rightarrow> string" where
  "join_lines (a # b # s) = (if a = CHR 0x5C \<and> b = CHR 0x0A then join_lines s else a # join_lines (b # s))"
| "join_lines s = s"

definition c_literal :: "string \<Rightarrow> string option" where
  "c_literal s =
     (let s = join_lines (trigraphs s) in if take 1 s = [CHR 0x22] then read_literal (drop 1 s) else None)"

subsection \<open>The table of embedded files in the generated program\<close>

text \<open>\<^verbatim>\<open>nexs_embedded_lookup\<close> as \<^verbatim>\<open>emit_dep_table\<close> writes it: the first entry whose path is the argument; one that could
  not be read is the empty string.\<close>

fun nexs_embedded_lookup :: "(string \<times> string option) list \<Rightarrow> string \<Rightarrow> string option" where
  "nexs_embedded_lookup [] path = None"
| "nexs_embedded_lookup ((p, src) # deps) path =
     (if p = path then Some (case src of None \<Rightarrow> [] | Some s \<Rightarrow> s) else nexs_embedded_lookup deps path)"

subsection \<open>Targets and the command that compiles\<close>

text \<open>The compilers of two targets are chosen by the build: they are arguments.\<close>

record target_config =
  t_name :: string
  gcc_binary :: string
  arch_flags :: string
  os_flags :: string
  is_baremetal :: bool
  ld_script :: "string option"

definition nexs_targets :: "string \<Rightarrow> string \<Rightarrow> target_config list" where
  "nexs_targets linux_cc macos_cc =
     [\<lparr>t_name = ''linux-amd64'', gcc_binary = linux_cc, arch_flags = ''-march=x86_64'', os_flags = ''-DNEXS_LINUX'',
       is_baremetal = False, ld_script = None\<rparr>,
      \<lparr>t_name = ''linux-arm64'', gcc_binary = ''aarch64-linux-gnu-gcc'', arch_flags = ''-march=armv8-a'', os_flags = ''-DNEXS_LINUX'',
       is_baremetal = False, ld_script = None\<rparr>,
      \<lparr>t_name = ''macos-amd64'', gcc_binary = macos_cc, arch_flags = ''-arch x86_64'', os_flags = ''-DNEXS_MACOS'',
       is_baremetal = False, ld_script = None\<rparr>,
      \<lparr>t_name = ''macos-arm64'', gcc_binary = ''clang'', arch_flags = ''-arch arm64'', os_flags = ''-DNEXS_MACOS'',
       is_baremetal = False, ld_script = None\<rparr>,
      \<lparr>t_name = ''plan9-amd64'', gcc_binary = ''gcc'', arch_flags = ''-march=x86_64'', os_flags = ''-DNEXS_PLAN9'',
       is_baremetal = False, ld_script = None\<rparr>,
      \<lparr>t_name = ''baremetal-arm64'', gcc_binary = ''aarch64-none-elf-gcc'', arch_flags = ''-march=armv8-a'', os_flags = ''-DNEXS_BAREMETAL'',
       is_baremetal = True, ld_script = Some ''hal/arm64/nexs.ld''\<rparr>,
      \<lparr>t_name = ''baremetal-amd64'', gcc_binary = ''x86_64-elf-gcc'', arch_flags = ''-march=x86-64'', os_flags = ''-DNEXS_BAREMETAL'',
       is_baremetal = True, ld_script = Some ''hal/amd64/nexs.ld''\<rparr>]"

definition target_name :: "target_config list \<Rightarrow> int \<Rightarrow> string" where
  "target_name targets t = (if t < 0 \<or> int (length targets) \<le> t then ''unknown'' else t_name (targets ! nat t))"

definition target_gcc_flags :: "target_config list \<Rightarrow> int \<Rightarrow> string" where
  "target_gcc_flags targets t =
     (if t < 0 \<or> int (length targets) \<le> t then []
      else let tc = targets ! nat t in trunc 512 (arch_flags tc @ '' '' @ os_flags tc))"

definition profiles :: "string list" where
  "profiles = [''POOL_4KB'', ''POOL_16KB'', ''POOL_32KB'', ''POOL_512KB'', ''POOL_4MB'', ''POOL_16MB'']"

text \<open>The first profile whose trial run does not run out of memory; an outcome is none when the trial does not build.\<close>

fun best_profile :: "nat \<Rightarrow> bool option list \<Rightarrow> nat" where
  "best_profile i [] = length profiles - 1"
| "best_profile i (None # runs) = best_profile (i + 1) runs"
| "best_profile i (Some out_of_memory # runs) = (if out_of_memory then best_profile (i + 1) runs else i)"

definition compile_command :: "target_config \<Rightarrow> string \<Rightarrow> string \<Rightarrow> string \<Rightarrow> string" where
  "compile_command tc profile script_c out_path =
     trunc 4096
      (gcc_binary tc @ '' '' @ arch_flags tc @ '' '' @ os_flags tc @
       '' -O2 -std=c11 -Wall -Wextra -Wno-unused-parameter -D'' @ profile @
       '' -Icore/include -Iregistry/include -Ilang/include -Isys/include -Iruntime/include -Icompiler/include -Ihal/include'' @
       '' '' @ [CHR 0x27] @ script_c @ [CHR 0x27] @
       '' core/buddy.c core/pager.c core/value.c core/dynarray.c core/utils.c registry/registry.c registry/reg_ipc.c'' @
       '' lang/fn_table.c lang/lexer.c lang/parser.c lang/eval.c lang/builtins.c sys/sysio.c sys/sysproc.c'' @
       '' runtime/runtime.c runtime/nexs_line.c hal/bc/nexs_hal_bc.c hal/module/nexs_hal_module.c'' @
       (if is_baremetal tc then '' kernel/libc_stub.c'' else '' hal/hal_hosted.c'') @
       (if is_baremetal tc then
          (case ld_script tc of None \<Rightarrow> [] | Some s \<Rightarrow> '' -T '' @ [CHR 0x27] @ s @ [CHR 0x27]) @
          '' -nostdlib -nostartfiles -ffreestanding -Ikernel/include -Wl,--no-warn-rwx-segments'' @
          (if t_name tc = ''baremetal-arm64'' then
             '' hal/arm64/boot.S hal/arm64/exc_vectors.S hal/arm64/exc_handler.c hal/arm64/uart.c hal/arm64/mmu.c hal/arm64/gic.c'' @
             '' hal/arm64/timer.c hal/arm64/fdt.c kernel/ctx_arm64.S''
           else if t_name tc = ''baremetal-amd64'' then
             '' hal/amd64/boot.S hal/amd64/isr_stubs.S hal/amd64/uart.c hal/amd64/gdt.c hal/amd64/idt.c hal/amd64/apic.c'' @
             '' hal/amd64/mmu.c hal/amd64/acpi.c kernel/ctx_amd64.S''
           else [])
        else []) @
       '' -o '' @ [CHR 0x27] @ out_path @ [CHR 0x27])"

end
