(* ===== verification/Depscan_Facts.thy ===== *)
theory Depscan_Facts
  imports Depscan
begin

section \<open>The scan finds what the program can reach\<close>

text \<open>
  \<open>refs\<close> lists the paths that the text of one file calls; \<open>uses\<close> is the relation between files it makes. Below its
  limit the scan returns each path reachable by it once, and no other. Where every literal is a clean relative path
  that is found next to its file, these are the files the documentation promises, each once by its absolute path.
  A literal is read back by a C compiler unless it holds a trigraph, a hexadecimal digit follows a hexadecimal
  escape, or an octal digit a NUL.
\<close>

function refs :: "files \<Rightarrow> string \<Rightarrow> string \<Rightarrow> string list" where
  "refs files dir p =
     (case p of
        [] \<Rightarrow> []
      | c # cs \<Rightarrow>
          if c = CHR 0x23 then refs files dir (dropWhile (\<lambda>c. c \<noteq> CHR 0x0A) cs)
          else case exec_call p of
            None \<Rightarrow> refs files dir cs
          | Some (a, after_exec) \<Rightarrow>
              (case a of None \<Rightarrow> [] | Some rel_path \<Rightarrow> [dep_path files dir rel_path]) @ refs files dir after_exec)"
  by pat_completeness auto
termination
  by (relation "measure (\<lambda>(files, dir, p). length p)") (auto dest: exec_call_length simp: le_imp_less_Suc length_dropWhile_le)

declare refs.simps [simp del]

definition uses :: "files \<Rightarrow> string \<Rightarrow> string \<Rightarrow> bool" where
  "uses files x y \<longleftrightarrow> (\<exists>src. dep_read_file files x = Some src \<and> y \<in> set (refs files (path_dirname x NEXS_DEP_PATH_MAX) src))"

text \<open>A rule of induction along the run of a scan with its result.\<close>

lemma scan_induct:
  assumes nil: "\<And>dir deps. P dir [] deps deps"
    and step: "\<And>dir p q deps r. refs files dir p = refs files dir q \<Longrightarrow> P dir q deps r \<Longrightarrow> P dir p deps r"
    and old: "\<And>dir p q deps r x. refs files dir p = x # refs files dir q \<Longrightarrow> x \<in> set deps \<or> m \<le> length deps \<Longrightarrow>
      P dir q deps r \<Longrightarrow> P dir p deps r"
    and unread: "\<And>dir p q deps r x. refs files dir p = x # refs files dir q \<Longrightarrow> x \<notin> set deps \<Longrightarrow> length deps < m \<Longrightarrow>
      dep_read_file files x = None \<Longrightarrow> P dir q (deps @ [x]) r \<Longrightarrow> P dir p deps r"
    and read: "\<And>dir p q deps r x src r1. refs files dir p = x # refs files dir q \<Longrightarrow> x \<notin> set deps \<Longrightarrow> length deps < m \<Longrightarrow>
      dep_read_file files x = Some src \<Longrightarrow> P (path_dirname x NEXS_DEP_PATH_MAX) src (deps @ [x]) r1 \<Longrightarrow> P dir q r1 r \<Longrightarrow> P dir p deps r"
  shows "P dir p deps (scan_source files m dir p deps)"
proof -
  have "f = files \<Longrightarrow> k = m \<Longrightarrow> P dir p deps (scan_source f k dir p deps)" for f k
  proof (induction f k dir p deps rule: scan_source.induct)
    case (1 f k dir p deps)
    note eqs = "1.prems" and scan = scan_source.simps [of files m dir p deps] and rf = refs.simps [of files dir p]
    show ?case
    proof (cases p)
      case Nil
      then show ?thesis using nil [of dir deps] eqs scan by simp
    next
      case (Cons c cs)
      show ?thesis
      proof (cases "c = CHR 0x23")
        case True
        then show ?thesis using "1.IH"(1) [OF Cons True] eqs Cons scan rf by (auto intro: step)
      next
        case False
        note no_comment = False
        show ?thesis
        proof (cases "exec_call p")
          case None
          then show ?thesis using "1.IH"(2) [OF Cons False None] eqs Cons scan rf False by (auto intro: step)
        next
          case (Some e)
          obtain a after_exec where e: "e = (a, after_exec)" by (cases e)
          show ?thesis
          proof (cases a)
            case None
            then show ?thesis
              using "1.IH"(3) [OF Cons False Some e [symmetric] None] eqs Cons scan rf False Some e by (auto intro: step)
          next
            case a: (Some rel_path)
            define x where "x = dep_path files dir rel_path"
            have r: "refs files dir p = x # refs files dir after_exec"
              using rf Cons False Some e a by (simp add: x_def)
            show ?thesis
            proof (cases "x \<in> set deps \<or> m \<le> length deps")
              case True
              then have "scan_source files m dir p deps = scan_source files m dir after_exec deps"
                using scan Cons False Some e a by (simp add: x_def Let_def)
              moreover have "P dir after_exec deps (scan_source files m dir after_exec deps)"
                using "1.IH"(4) [OF Cons no_comment Some e [symmetric] a x_def [unfolded eqs(1) [symmetric]]] True eqs by simp
              ultimately show ?thesis using old [OF r True] eqs by simp
            next
              case new: False
              show ?thesis
              proof (cases "dep_read_file files x")
                case None
                then have "scan_source files m dir p deps = scan_source files m dir after_exec (deps @ [x])"
                  using scan Cons False Some e a new by (simp add: x_def Let_def)
                moreover have "P dir after_exec (deps @ [x]) (scan_source files m dir after_exec (deps @ [x]))"
                  using "1.IH"(5) [OF Cons no_comment Some e [symmetric] a x_def [unfolded eqs(1) [symmetric]]] new None eqs by simp
                ultimately show ?thesis using unread [OF r _ _ None] new eqs by simp
              next
                case src: (Some src)
                let ?r = "scan_source files m (path_dirname x NEXS_DEP_PATH_MAX) src (deps @ [x])"
                have "scan_source files m dir p deps = scan_source files m dir after_exec ?r"
                  using scan Cons False Some e a new src by (simp add: x_def Let_def)
                moreover have "P (path_dirname x NEXS_DEP_PATH_MAX) src (deps @ [x]) ?r"
                  using "1.IH"(6) [OF Cons no_comment Some e [symmetric] a x_def [unfolded eqs(1) [symmetric]]] new src eqs by simp
                moreover have "P dir after_exec ?r (scan_source files m dir after_exec ?r)"
                  using "1.IH"(7) [OF Cons no_comment Some e [symmetric] a x_def [unfolded eqs(1) [symmetric]]] new src eqs by simp
                ultimately show ?thesis using read [OF r _ _ src] new eqs by simp
              qed
            qed
          qed
        qed
      qed
    qed
  qed
  then show ?thesis by simp
qed

lemma scan_prefix:
  "(\<exists>new. scan_source files m dir p deps = deps @ new) \<and>
   (distinct deps \<longrightarrow> distinct (scan_source files m dir p deps)) \<and>
   (length deps \<le> m \<longrightarrow> length (scan_source files m dir p deps) \<le> m)"
  by (rule scan_induct [where P = "\<lambda>dir p deps r. (\<exists>new. r = deps @ new) \<and> (distinct deps \<longrightarrow> distinct r) \<and>
    (length deps \<le> m \<longrightarrow> length r \<le> m)" and files = files and m = m]) auto

lemma scan_sound:
  "set (scan_source files m dir p deps) \<subseteq> set deps \<union> {y. \<exists>x \<in> set (refs files dir p). (uses files)\<^sup>*\<^sup>* x y}"
proof (rule scan_induct [where P = "\<lambda>dir p deps r. set r \<subseteq> set deps \<union> {y. \<exists>x \<in> set (refs files dir p). (uses files)\<^sup>*\<^sup>* x y}"
      and files = files and m = m], goal_cases)
  case (5 dir p q deps r x src r1)
  have "(uses files)\<^sup>*\<^sup>* x y" if "z \<in> set (refs files (path_dirname x NEXS_DEP_PATH_MAX) src)" "(uses files)\<^sup>*\<^sup>* z y" for y z
    using that 5(4) by (meson converse_rtranclp_into_rtranclp uses_def)
  then show ?case using 5 by auto
qed auto

lemma scan_complete:
  "(\<exists>new. scan_source files m dir p deps = deps @ new) \<and> (length (scan_source files m dir p deps) < m \<longrightarrow>
   set (refs files dir p) \<subseteq> set (scan_source files m dir p deps) \<and>
   (\<forall>x y. x \<in> set (scan_source files m dir p deps) - set deps \<longrightarrow> uses files x y \<longrightarrow> y \<in> set (scan_source files m dir p deps)))"
proof (rule scan_induct [where P = "\<lambda>dir p deps r. (\<exists>new. r = deps @ new) \<and> (length r < m \<longrightarrow>
    set (refs files dir p) \<subseteq> set r \<and> (\<forall>x y. x \<in> set r - set deps \<longrightarrow> uses files x y \<longrightarrow> y \<in> set r))"
      and files = files and m = m], goal_cases)
  case (1 dir deps)
  then show ?case by (simp add: refs.simps)
next
  case (4 dir p q deps r x)
  then show ?case by (auto simp: uses_def)
next
  case (5 dir p q deps r x src r1)
  then obtain n1 n2 where n: "r1 = deps @ [x] @ n1" "r = r1 @ n2" by auto
  show ?case
  proof (intro conjI impI allI)
    show "\<exists>new. r = deps @ new" using n by simp
    assume l: "length r < m"
    then have l1: "length r1 < m" using n by simp
    note i1 = conjunct2 [OF 5(5), rule_format, OF l1] and i2 = conjunct2 [OF 5(6), rule_format, OF l]
    show "set (refs files dir p) \<subseteq> set r" using 5(1) i2 n by auto
    fix z y assume z: "z \<in> set r - set deps" "uses files z y"
    show "y \<in> set r"
    proof (cases "z = x")
      case True
      then have "y \<in> set (refs files (path_dirname x NEXS_DEP_PATH_MAX) src)" using z 5(4) by (auto simp: uses_def)
      then show ?thesis using i1 n by auto
    next
      case False
      show ?thesis
      proof (cases "z \<in> set r1")
        case True
        then have "z \<in> set r1 - set (deps @ [x])" using z False by simp
        then have "y \<in> set r1" using i1 z(2) by blast
        then show ?thesis using n by auto
      next
        case False
        then have "z \<in> set r - set r1" using z by simp
        then show ?thesis using i2 z(2) by blast
      qed
    qed
  qed
qed auto

lemma dep_path_bound: "length (dep_path files dir x) < NEXS_DEP_PATH_MAX"
  by (auto simp: dep_path_def path_join_def trunc_def Let_def split: option.split)

lemma scan_deps_reachable:
  assumes r: "r = nexs_scan_deps files src m"
  shows "distinct (map fst r) \<and> length r \<le> m \<and> (\<forall>(p, s) \<in> set r. s = dep_read_file files p) \<and>
    set (map fst r) \<subseteq> {y. (uses files)\<^sup>+\<^sup>+ src y} \<and> (length r < m \<longrightarrow> set (map fst r) = {y. (uses files)\<^sup>+\<^sup>+ src y})"
proof (cases "m = 0 \<or> dep_read_file files src = None")
  case True
  have "\<not> (uses files)\<^sup>+\<^sup>+ src y" if "dep_read_file files src = None" for y
    using that by (auto simp: uses_def dest: tranclpD)
  then show ?thesis using True by (auto simp: r nexs_scan_deps_def)
next
  case False
  then obtain content where t: "dep_read_file files src = Some content" by auto
  define deps where "deps = scan_source files m (path_dirname src NEXS_DEP_PATH_MAX) content []"
  have re: "r = map (\<lambda>p. (p, dep_read_file files p)) deps" using False t by (simp add: r nexs_scan_deps_def deps_def)
  have m: "map fst r = deps" by (simp add: re o_def)
  have us: "uses files src x \<longleftrightarrow> x \<in> set (refs files (path_dirname src NEXS_DEP_PATH_MAX) content)" for x
    using t by (simp add: uses_def)
  have sound: "set deps \<subseteq> {y. (uses files)\<^sup>+\<^sup>+ src y}"
  proof
    fix y assume "y \<in> set deps"
    then obtain x where "uses files src x" "(uses files)\<^sup>*\<^sup>* x y"
      using scan_sound [of files m "path_dirname src NEXS_DEP_PATH_MAX" content "[]"] us by (auto simp: deps_def)
    then show "y \<in> {y. (uses files)\<^sup>+\<^sup>+ src y}" by (simp add: rtranclp_into_tranclp2)
  qed
  have complete: "y \<in> set deps" if l: "length deps < m" and y: "(uses files)\<^sup>+\<^sup>+ src y" for y
    using y
  proof (induction rule: tranclp_induct)
    case (base y)
    then show ?case using conjunct2 [OF scan_complete, rule_format, OF l [unfolded deps_def]] us by (auto simp: deps_def)
  next
    case (step y z)
    then show ?case using conjunct2 [OF scan_complete, rule_format, OF l [unfolded deps_def]] by (auto simp: deps_def)
  qed
  have pre: "distinct deps" "length deps \<le> m"
    using scan_prefix [of files m "path_dirname src NEXS_DEP_PATH_MAX" content "[]"] by (simp_all add: deps_def)
  have len: "length r = length deps" by (simp add: re)
  have "\<forall>(p, s) \<in> set r. s = dep_read_file files p" by (auto simp: re)
  then show ?thesis unfolding m len using pre sound complete by blast
qed

subsection \<open>The documented resolution\<close>

text \<open>The literal paths of a text, the path next to the file that calls it, and the relation between files they give.\<close>

function literals :: "string \<Rightarrow> string list" where
  "literals p =
     (case p of
        [] \<Rightarrow> []
      | c # cs \<Rightarrow>
          if c = CHR 0x23 then literals (dropWhile (\<lambda>c. c \<noteq> CHR 0x0A) cs)
          else case exec_call p of
            None \<Rightarrow> literals cs
          | Some (a, after_exec) \<Rightarrow> (case a of None \<Rightarrow> [] | Some rel_path \<Rightarrow> [rel_path]) @ literals after_exec)"
  by pat_completeness auto
termination literals
  by (relation "measure length") (auto dest: exec_call_length simp: le_imp_less_Suc length_dropWhile_le)

declare literals.simps [simp del]

definition file_literals :: "files \<Rightarrow> string \<Rightarrow> string set" where
  "file_literals files x = (case dep_read_file files x of None \<Rightarrow> {} | Some src \<Rightarrow> set (literals src))"

definition beside :: "string \<Rightarrow> string \<Rightarrow> string" where
  "beside x l =
     (if take 1 l = ''/'' then l
      else case strrchr CHR ''/'' x of None \<Rightarrow> l | Some i \<Rightarrow> take i x @ ''/'' @ l)"

definition doc_uses :: "files \<Rightarrow> string \<Rightarrow> string \<Rightarrow> bool" where
  "doc_uses files x y \<longleftrightarrow> (\<exists>l \<in> file_literals files x. y = beside x l)"

text \<open>The names of a path, its absolute form in a current directory, and paths that have one spelling.\<close>

fun path_names :: "string \<Rightarrow> string list" where
  "path_names [] = [[]]"
| "path_names (c # s) = (if c = CHR ''/'' then [] # path_names s else (c # hd (path_names s)) # tl (path_names s))"

fun resolve_names :: "string list \<Rightarrow> string list \<Rightarrow> string list" where
  "resolve_names acc [] = rev acc"
| "resolve_names acc (w # ws) =
     (if w = [] \<or> w = ''.'' then resolve_names acc ws else if w = ''..'' then resolve_names (tl acc) ws else resolve_names (w # acc) ws)"

definition absolute :: "string list \<Rightarrow> string \<Rightarrow> string list" where
  "absolute cwd p = resolve_names [] ((if take 1 p = ''/'' then [] else cwd) @ path_names p)"

definition clean_path :: "string \<Rightarrow> bool" where
  "clean_path p \<longleftrightarrow> length p < NEXS_DEP_PATH_MAX \<and> (\<forall>w \<in> set (path_names p). w \<noteq> [] \<and> w \<noteq> ''.'' \<and> w \<noteq> ''..'')"

text \<open>Every path that is reached is clean, and is in the directory of its file: the same path from the current
  directory, or a file that the literal alone does not open.\<close>

definition found_beside :: "files \<Rightarrow> string \<Rightarrow> bool" where
  "found_beside files src \<longleftrightarrow> clean_path src \<and>
     (\<forall>x. (doc_uses files)\<^sup>*\<^sup>* src x \<longrightarrow> (\<forall>l \<in> file_literals files x.
        clean_path (beside x l) \<and> (beside x l = l \<or> files l = None \<and> files (beside x l) \<noteq> None)))"

lemma path_names_nonempty [simp]: "path_names s \<noteq> []"
  by (cases s) auto

lemma path_names_inject: "path_names p = path_names q \<Longrightarrow> p = q"
proof (induction p arbitrary: q)
  case Nil
  then show ?case using not_sym [OF path_names_nonempty] by (cases q) (auto split: if_splits)
next
  case (Cons c p)
  then obtain d q' where q: "q = d # q'" by (cases q) (auto split: if_splits)
  have "c = d \<and> path_names p = path_names q'"
    using Cons.prems q by (auto split: if_splits intro: list.expand)
  then show ?case using Cons.IH q by blast
qed

lemma resolve_append: "resolve_names acc (xs @ ys) = resolve_names (rev (resolve_names acc xs)) ys"
  by (induction acc xs rule: resolve_names.induct) auto

lemma resolve_clean: "\<forall>w \<in> set ws. w \<noteq> [] \<and> w \<noteq> ''.'' \<and> w \<noteq> ''..'' \<Longrightarrow> resolve_names acc ws = rev acc @ ws"
  by (induction ws arbitrary: acc) auto

lemma clean_relative: "clean_path p \<Longrightarrow> take 1 p \<noteq> ''/''"
proof
  assume p: "clean_path p" "take 1 p = ''/''"
  then obtain s where "p = CHR ''/'' # s" by (cases p) simp_all
  then have "[] \<in> set (path_names p)" by simp
  then show False using p(1) unfolding clean_path_def by blast
qed

lemma clean_absolute: "clean_path p \<Longrightarrow> absolute cwd p = resolve_names [] cwd @ path_names p"
  using clean_relative [of p] by (simp add: absolute_def resolve_append resolve_clean clean_path_def)

lemma absolute_inject: "clean_path p \<Longrightarrow> clean_path q \<Longrightarrow> absolute cwd p = absolute cwd q \<Longrightarrow> p = q"
  using path_names_inject by (simp add: clean_absolute)

lemma refs_literals: "refs files dir p = map (dep_path files dir) (literals p)"
proof (induction p rule: literals.induct)
  case (1 p)
  show ?case
    using "1.IH" by (subst refs.simps, subst literals.simps) (auto split: list.split option.split)
qed

lemma dep_path_beside:
  assumes x: "clean_path x" and y: "clean_path (beside x l)"
    and found: "beside x l = l \<or> files l = None \<and> files (beside x l) \<noteq> None"
  shows "dep_path files (path_dirname x NEXS_DEP_PATH_MAX) l = beside x l"
proof -
  have l: "take 1 l \<noteq> ''/''" using clean_relative [OF y] by (auto simp: beside_def)
  have len: "length (beside x l) < NEXS_DEP_PATH_MAX" "length x < NEXS_DEP_PATH_MAX" using x y by (auto simp: clean_path_def)
  have tx: "trunc NEXS_DEP_PATH_MAX x = x" "trunc NEXS_DEP_PATH_MAX (beside x l) = beside x l"
    using len by (simp_all add: trunc_def)
  have ll: "length l \<le> length (beside x l)" by (auto simp: beside_def split: option.split)
  then have tl: "trunc NEXS_DEP_PATH_MAX l = l" using len(1) by (simp add: trunc_def)
  have join: "path_join (path_dirname x NEXS_DEP_PATH_MAX) l NEXS_DEP_PATH_MAX = beside x l"
  proof (cases "strrchr CHR ''/'' x")
    case None
    then have "path_dirname x NEXS_DEP_PATH_MAX = ''.''"
      unfolding path_dirname_def Let_def tx(1) by (simp add: trunc_def)
    then show ?thesis using None l tl by (simp add: path_join_def beside_def)
  next
    case (Some i)
    have "i \<noteq> 0"
    proof
      assume "i = 0"
      then have "take 1 x = ''/''" using strrchr_Some [OF Some] by (cases x) auto
      then show False using clean_relative [OF x] by simp
    qed
    moreover have "take i x \<noteq> ''.''"
    proof
      assume d: "take i x = ''.''"
      then obtain s where "x = CHR ''.'' # CHR ''/'' # s"
        using strrchr_Some [OF Some] id_take_nth_drop [of i x] by simp
      then have "''.'' \<in> set (path_names x)" by simp
      then show False using x unfolding clean_path_def by blast
    qed
    ultimately have "path_dirname x NEXS_DEP_PATH_MAX = take i x" "take i x \<noteq> ''.''"
      using Some by (simp_all add: path_dirname_def tx)
    then show ?thesis using Some l tx(2) by (simp add: path_join_def beside_def)
  qed
  show ?thesis
    using l tl tx(2) join found by (auto simp: dep_path_def Let_def split: option.split)
qed

lemma closure_cong:
  assumes "\<And>x y. S\<^sup>*\<^sup>* a x \<Longrightarrow> R x y = S x y"
  shows "R\<^sup>+\<^sup>+ a y = S\<^sup>+\<^sup>+ a y"
proof
  show "S\<^sup>+\<^sup>+ a y" if "R\<^sup>+\<^sup>+ a y"
    using that by (induction rule: tranclp_induct) (use assms in \<open>auto intro: tranclp.intros dest: tranclp_into_rtranclp\<close>)
  show "R\<^sup>+\<^sup>+ a y" if "S\<^sup>+\<^sup>+ a y"
    using that by (induction rule: tranclp_induct) (use assms in \<open>auto intro: tranclp.intros dest: tranclp_into_rtranclp\<close>)
qed

lemma found_beside_uses:
  assumes "found_beside files src" and "(doc_uses files)\<^sup>*\<^sup>* src x"
  shows "clean_path x" "uses files x y = doc_uses files x y"
proof -
  have c: "clean_path x"
    using assms(2)
  proof (cases rule: rtranclp.cases)
    case rtrancl_refl
    then show ?thesis using assms(1) by (simp add: found_beside_def)
  next
    case (rtrancl_into_rtrancl b)
    then show ?thesis using assms(1) by (auto simp: found_beside_def doc_uses_def)
  qed
  then show "clean_path x" .
  have "dep_path files (path_dirname x NEXS_DEP_PATH_MAX) l = beside x l" if "l \<in> file_literals files x" for l
    using dep_path_beside [OF c] assms that by (auto simp: found_beside_def)
  then show "uses files x y = doc_uses files x y"
    by (auto simp: uses_def doc_uses_def refs_literals file_literals_def split: option.splits)
qed

lemma scan_deps_documented:
  assumes f: "found_beside files src" and r: "r = nexs_scan_deps files src m"
  shows "distinct (map (absolute cwd \<circ> fst) r) \<and> length r \<le> m \<and> (\<forall>(p, s) \<in> set r. s = dep_read_file files p) \<and>
    set (map fst r) \<subseteq> {y. (doc_uses files)\<^sup>+\<^sup>+ src y} \<and>
    (length r < m \<longrightarrow> set (map fst r) = {y. (doc_uses files)\<^sup>+\<^sup>+ src y})"
proof -
  have cl: "(uses files)\<^sup>+\<^sup>+ src y = (doc_uses files)\<^sup>+\<^sup>+ src y" for y
    by (rule closure_cong) (rule found_beside_uses(2) [OF f])
  note s = scan_deps_reachable [OF r, unfolded cl]
  have "clean_path p" if "p \<in> set (map fst r)" for p
    using s that found_beside_uses(1) [OF f] tranclp_into_rtranclp [of "doc_uses files" src p] by blast
  then have "inj_on (absolute cwd) (set (map fst r))" using absolute_inject by (intro inj_onI) blast
  then have "distinct (map (absolute cwd) (map fst r))" using s by (simp only: distinct_map)
  then show ?thesis using s unfolding map_map by blast
qed

subsection \<open>A path found next to its parent is not found again\<close>

text \<open>
  A literal that only the directory of its file resolves is embedded under the joined path, but the program looks
  it up by the literal.
\<close>

definition lib_files :: files where
  "lib_files = (\<lambda>p. if p = ''lib/a.nx'' then Some (''exec('' @ [CHR 0x22] @ ''b.nx'' @ [CHR 0x22] @ '')'')
     else if p = ''lib/b.nx'' then Some ''out 1''
     else if p = ''main.nx'' then Some (''exec('' @ [CHR 0x22] @ ''lib/a.nx'' @ [CHR 0x22] @ '') exec('' @ [CHR 0x27] @ ''lib/b.nx'' @ [CHR 0x27] @ '')'')
     else None)"

lemma fallback_not_found:
  "nexs_scan_deps lib_files ''lib/a.nx'' 256 = [(''lib/b.nx'', Some ''out 1'')]"
  "nexs_embedded_lookup (nexs_scan_deps lib_files ''lib/a.nx'' 256) ''b.nx'' = None"
proof -
  have d: "path_dirname ''lib/a.nx'' 512 = ''lib''" "path_dirname ''lib/b.nx'' 512 = ''lib''"
    by (simp_all add: path_dirname_def)
  have f: "dep_read_file lib_files ''lib/a.nx'' = Some (''exec('' @ [CHR 0x22] @ ''b.nx'' @ [CHR 0x22] @ '')'')"
      "dep_read_file lib_files ''lib/b.nx'' = Some ''out 1''"
    by (simp_all add: dep_read_file_def lib_files_def c_str_def)
  have p: "dep_path lib_files ''lib'' ''b.nx'' = ''lib/b.nx''"
    by (simp add: dep_path_def lib_files_def path_join_def)
  have "scan_source lib_files 256 ''lib'' ''out 1'' deps = deps" for deps
    by (simp add: scan_source.simps exec_call_def)
  then have "scan_source lib_files 256 ''lib'' (''exec('' @ [CHR 0x22] @ ''b.nx'' @ [CHR 0x22] @ '')'') [] = [''lib/b.nx'']"
    using d f(2) p by (simp add: scan_source.simps [of _ _ _ "_ # _"] scan_source.simps [of _ _ _ "[]"] exec_call_def is_blank_def Let_def)
  then show "nexs_scan_deps lib_files ''lib/a.nx'' 256 = [(''lib/b.nx'', Some ''out 1'')]"
    using d f by (simp add: nexs_scan_deps_def)
  then show "nexs_embedded_lookup (nexs_scan_deps lib_files ''lib/a.nx'' 256) ''b.nx'' = None" by simp
qed

subsection \<open>Literals\<close>

lemma hex_digit_value: "n < 16 \<Longrightarrow> hex_value (hex_digit n) = Some n"
proof -
  assume n: "n < 16"
  have "(of_char (char_of (48 + n) :: char) :: nat) = 48 + n" "(of_char (char_of (87 + n) :: char) :: nat) = 87 + n"
    using n by simp_all
  then show ?thesis using n by (cases "n < 10") (simp_all only: hex_digit_def hex_value_def Let_def, simp_all)
qed

lemma control_chars:
  "of_char c = (10 :: nat) \<Longrightarrow> c = CHR 0x0A" "of_char c = (13 :: nat) \<Longrightarrow> c = CHR 0x0D"
  "of_char c = (9 :: nat) \<Longrightarrow> c = CHR 0x09" "of_char c = (0 :: nat) \<Longrightarrow> c = CHR 0x00"
proof -
  have e: "char_of (10 :: nat) = CHR 0x0A" "char_of (13 :: nat) = CHR 0x0D" "char_of (9 :: nat) = CHR 0x09" "char_of (0 :: nat) = CHR 0x00"
    by code_simp+
  have c: "of_char c = n \<Longrightarrow> c = char_of n" for n :: nat by auto
  show "of_char c = (10 :: nat) \<Longrightarrow> c = CHR 0x0A" "of_char c = (13 :: nat) \<Longrightarrow> c = CHR 0x0D"
    "of_char c = (9 :: nat) \<Longrightarrow> c = CHR 0x09" "of_char c = (0 :: nat) \<Longrightarrow> c = CHR 0x00"
    using c e by metis+
qed

definition hex_escaped :: "char \<Rightarrow> bool" where
  "hex_escaped c \<longleftrightarrow> (let n = of_char c :: nat in (n < 32 \<or> 126 < n) \<and> n \<notin> {0, 9, 10, 13})"

text \<open>Whether a character may follow another in a literal.\<close>

definition may_follow :: "char \<Rightarrow> char \<Rightarrow> bool" where
  "may_follow c d \<longleftrightarrow> \<not> (hex_escaped c \<and> is_hex_digit d) \<and> \<not> (of_char c = (0 :: nat) \<and> is_octal_digit d)"

fun literal_safe :: "string \<Rightarrow> bool" where
  "literal_safe [] \<longleftrightarrow> True"
| "literal_safe [c] \<longleftrightarrow> True"
| "literal_safe (c # d # s) \<longleftrightarrow> may_follow c d \<and> literal_safe (d # s)"

lemma read_plain: "c \<notin> {CHR 0x22, CHR 0x0A, CHR 0x5C} \<Longrightarrow> read_literal (c # r) = map_option ((#) c) (read_literal r)"
  by (simp add: read_literal.simps [of "c # r"])

lemma read_backslash: "read_escape r = Some (d, t) \<Longrightarrow> read_literal (CHR 0x5C # r) = map_option ((#) d) (read_literal t)"
  by (simp add: read_literal.simps [of "CHR 0x5C # r"])

lemma nibbles: "k < 256 \<Longrightarrow> k div 16 < 16" "k mod 16 < 16" for k :: nat
  by auto

lemma read_escape_byte:
  assumes r: "r \<noteq> []" "may_follow c (hd r)"
  shows "read_literal (escape_byte c @ r) = map_option ((#) c) (read_literal r)"
proof (cases "c \<in> {CHR 0x22, CHR 0x5C} \<or> of_char c \<in> {10, 13, 9, 0 :: nat}")
  case True
  have o: "is_octal_digit CHR ''0''" by (simp add: is_octal_digit_def)
  obtain d t where dt: "r = d # t" using r(1) by (cases r) auto
  have z: "of_char c = (0 :: nat) \<Longrightarrow> \<not> is_octal_digit d" using r(2) dt by (auto simp: may_follow_def)
  have hv: "hex_value CHR ''0'' = Some 0" and c0: "char_of (0 :: nat) = CHR 0x00" by code_simp+
  from True consider "c = CHR 0x22" | "c = CHR 0x5C" | "c = CHR 0x0A" | "c = CHR 0x0D" | "c = CHR 0x09" | "c = CHR 0x00"
    using control_chars [of c] by blast
  then show ?thesis
  proof cases
    case 6
    then have "escape_byte c = [CHR 0x5C, CHR ''0'']" by (simp add: escape_byte_def)
    moreover have "read_escape (CHR ''0'' # r) = Some (c, r)"
      using z 6 o hv dt c0 by (simp add: read_escape_def digits_in_def)
    ultimately show ?thesis using read_backslash by simp
  qed (simp_all add: escape_byte_def read_backslash read_escape_def is_octal_digit_def)
next
  case no: False
  show ?thesis
  proof (cases "hex_escaped c")
    case True
    let ?n = "of_char c :: nat"
    have n: "?n < 256" by simp
    have e: "escape_byte c = [CHR 0x5C, CHR ''x'', hex_digit (?n div 16), hex_digit (?n mod 16)]"
      using no True by (auto simp: escape_byte_def hex_escaped_def Let_def)
    have h: "hex_value (hex_digit (?n div 16)) = Some (?n div 16)" "hex_value (hex_digit (?n mod 16)) = Some (?n mod 16)"
      using hex_digit_value [OF nibbles(1) [OF n]] hex_digit_value [OF nibbles(2)] by simp_all
    have small: "\<not> 255 < ?n" using n by linarith
    have nd: "\<not> is_hex_digit (hd r)" using r(2) True by (simp add: may_follow_def)
    have t: "takeWhile is_hex_digit r = []" "dropWhile is_hex_digit r = r" using nd r(1) by (cases r; simp)+
    have "read_escape (CHR ''x'' # hex_digit (?n div 16) # hex_digit (?n mod 16) # r) = Some (c, r)"
      using h t small by (simp add: read_escape_def is_hex_digit_def digits_in_def Let_def)
    then show ?thesis using e read_backslash by simp
  next
    case False
    then have "escape_byte c = [c]" using no by (auto simp: escape_byte_def hex_escaped_def Let_def)
    moreover have "c \<noteq> CHR 0x0A" using no by auto
    ultimately show ?thesis using no read_plain by simp
  qed
qed

lemma escape_first: "\<exists>d t. escape_byte c = d # t \<and> (d = c \<or> d = CHR 0x5C)"
  by (auto simp: escape_byte_def Let_def)

lemma may_follow_escape: "may_follow c d \<Longrightarrow> may_follow c (hd (escape_byte d @ r))"
proof -
  assume m: "may_follow c d"
  have "\<not> is_hex_digit CHR 0x5C" "\<not> is_octal_digit CHR 0x5C" by (simp_all add: is_hex_digit_def hex_value_def is_octal_digit_def)
  then show ?thesis using m escape_first [of d] by (auto simp: may_follow_def)
qed

lemma literal_read: "literal_safe s \<Longrightarrow> read_literal (concat (map escape_byte s) @ [CHR 0x22]) = Some s"
proof (induction s rule: literal_safe.induct)
  case (3 c d s)
  let ?r = "escape_byte d @ concat (map escape_byte s) @ [CHR 0x22]"
  have "may_follow c (hd ?r)" "?r \<noteq> []" using 3 may_follow_escape by auto
  from read_escape_byte [OF this(2,1)] show ?case using 3 by simp
next
  case (2 c)
  have "may_follow c CHR 0x22" by (simp add: may_follow_def is_hex_digit_def hex_value_def is_octal_digit_def)
  then show ?case using read_escape_byte [of "[CHR 0x22]" c] by (simp add: read_literal.simps [of "[CHR 0x22]"])
qed (simp add: read_literal.simps)

text \<open>A script without a trigraph is written without one, and no line of a literal is joined.\<close>

fun no_trigraph :: "string \<Rightarrow> bool" where
  "no_trigraph (a # b # c # s) \<longleftrightarrow>
     \<not> (a = CHR ''?'' \<and> b = CHR ''?'' \<and> c \<in> set ''=/()!<>-'' \<union> {CHR 0x27}) \<and> no_trigraph (b # c # s)"
| "no_trigraph s \<longleftrightarrow> True"

lemma trigraph_None: "trigraph c = None \<longleftrightarrow> c \<notin> set ''=/()!<>-'' \<union> {CHR 0x27}"
  by (auto simp: trigraph_def)

lemma no_trigraph_same: "no_trigraph s \<Longrightarrow> trigraphs s = s"
  by (induction s rule: trigraphs.induct) (auto simp: trigraph_None)

lemma no_trigraph_first: "a \<noteq> CHR ''?'' \<Longrightarrow> no_trigraph (a # t) = no_trigraph t"
  by (cases "(a # t)" rule: no_trigraph.cases) auto

lemma no_trigraph_second: "t = [] \<or> hd t \<noteq> CHR ''?'' \<Longrightarrow> no_trigraph (a # t) = no_trigraph t"
  by (cases "(a # t)" rule: no_trigraph.cases) auto

lemma no_trigraph_append: "CHR ''?'' \<notin> set u \<Longrightarrow> no_trigraph (u @ t) = no_trigraph t"
  by (induction u) (simp_all add: no_trigraph_first [OF not_sym])

lemma hex_digit_plain: "n < 16 \<Longrightarrow> hex_digit n \<noteq> CHR ''?'' \<and> hex_digit n \<noteq> CHR 0x0A"
  using hex_digit_value [of n] by (auto simp: hex_value_def)

lemma escape_byte_chars:
  "c \<noteq> CHR ''?'' \<Longrightarrow> CHR ''?'' \<notin> set (escape_byte c)" "CHR 0x0A \<notin> set (escape_byte c)"
proof -
  have n: "of_char c < (256 :: nat)" by simp
  note h = hex_digit_plain [OF nibbles(1) [OF n]] hex_digit_plain [OF nibbles(2)]
  show "c \<noteq> CHR ''?'' \<Longrightarrow> CHR ''?'' \<notin> set (escape_byte c)" "CHR 0x0A \<notin> set (escape_byte c)"
    using h by (auto simp: escape_byte_def Let_def dest: sym)
qed

lemma escaped_no_trigraph: "no_trigraph s \<Longrightarrow> no_trigraph (concat (map escape_byte s) @ [CHR 0x22])"
proof (induction s)
  case step: (Cons c s)
  let ?out = "\<lambda>s. concat (map escape_byte s) @ [CHR 0x22]"
  have tl: "no_trigraph s" using step.prems by (cases "(c # s)" rule: no_trigraph.cases) auto
  have q: "escape_byte CHR ''?'' = ''?''" by (simp add: escape_byte_def)
  show ?case
  proof (cases "c = CHR ''?''")
    case False
    then show ?thesis using step.IH [OF tl] no_trigraph_append escape_byte_chars(1) by simp
  next
    case c: True
    show ?thesis
    proof (cases s)
      case Nil
      then show ?thesis using c q by simp
    next
      case s: (Cons d s')
      show ?thesis
      proof (cases "d = CHR ''?''")
        case False
        obtain e t where e: "escape_byte d = e # t" "e = d \<or> e = CHR 0x5C" using escape_first by blast
        then have "hd (?out s) \<noteq> CHR ''?''" using s False by auto
        then show ?thesis using no_trigraph_second [of "?out s" "CHR ''?''"] step.IH [OF tl] c q by simp
      next
        case d: True
        have "hd (?out s') \<notin> set ''=/()!<>-'' \<union> {CHR 0x27}"
        proof (cases s')
          case (Cons f r)
          obtain e t where e: "escape_byte f = e # t" "e = f \<or> e = CHR 0x5C" using escape_first by blast
          then show ?thesis using step.prems c d s Cons e by auto
        qed simp
        moreover obtain e t where e: "?out s' = e # t" by (cases "?out s'") auto
        ultimately show ?thesis using step.IH [OF tl] c d q s by simp
      qed
    qed
  qed
qed simp

lemma join_lines_same: "CHR 0x0A \<notin> set s \<Longrightarrow> join_lines s = s"
  by (induction s rule: join_lines.induct) auto

lemma write_c_string_read: "literal_safe s \<Longrightarrow> no_trigraph s \<Longrightarrow> c_literal (write_c_string s) = Some s"
proof -
  assume s: "literal_safe s" "no_trigraph s"
  have "no_trigraph (write_c_string s)" using escaped_no_trigraph [OF s(2)] by (simp add: write_c_string_def no_trigraph_first)
  moreover have "CHR 0x0A \<notin> set (write_c_string s)" using escape_byte_chars(2) by (auto simp: write_c_string_def)
  ultimately have "join_lines (trigraphs (write_c_string s)) = write_c_string s" by (simp add: no_trigraph_same join_lines_same)
  then show ?thesis using literal_read [OF s(1)] by (simp add: c_literal_def write_c_string_def)
qed

text \<open>The question mark is not escaped: a trigraph in a script is replaced.\<close>

lemma trigraph_replaced: "c_literal (write_c_string ''a??!'') = Some ''a|''"
  by code_simp

text \<open>An escape takes the digits that follow it: the byte 1 before an \<open>a\<close> is read as 26, and a letter e with an accent
  (two bytes) before an \<open>a\<close> is not a valid literal.\<close>

lemma escape_takes_digit: "c_literal (write_c_string [CHR 0x01, CHR ''a'']) = Some [CHR 0x1A]"
  by code_simp

lemma escape_too_large: "c_literal (write_c_string [CHR 0xC3, CHR 0xA8, CHR ''a'']) = None"
  by code_simp

subsection \<open>Properties\<close>

text \<open>C7: Where every literal path that is reached is clean (relative, with no empty, \<open>.\<close> or \<open>..\<close> name) and is found
  next to the file that calls it, the scan does what its documentation says: below its limit it returns exactly the files
  that the program reaches by calls of literal paths, each resolved against the directory of its file, each once by its
  absolute path whatever the current directory is, with its contents; at the limit it returns a part of them.\<close>

theorem nexs_scan_deps_closure:
  assumes "found_beside files src" and "r = nexs_scan_deps files src m"
  shows "distinct (map (absolute cwd \<circ> fst) r) \<and> length r \<le> m \<and> (\<forall>(p, s) \<in> set r. s = dep_read_file files p) \<and>
    set (map fst r) \<subseteq> {y. (doc_uses files)\<^sup>+\<^sup>+ src y} \<and>
    (length r < m \<longrightarrow> set (map fst r) = {y. (doc_uses files)\<^sup>+\<^sup>+ src y})"
  by (rule scan_deps_documented [OF assms])

text \<open>A program that calls a library and one of its parts, which the library calls too.\<close>

lemma lib_scan: "map fst (nexs_scan_deps lib_files ''main.nx'' 256) = [''lib/a.nx'', ''lib/b.nx'']"
  by code_simp

lemma lib_literals:
  "file_literals lib_files ''main.nx'' = {''lib/a.nx'', ''lib/b.nx''}" "file_literals lib_files ''lib/a.nx'' = {''b.nx''}"
  "file_literals lib_files ''lib/b.nx'' = {}"
  by code_simp+

lemma lib_found_beside: "found_beside lib_files ''main.nx''"
proof -
  have b: "beside ''main.nx'' l = l" "beside ''lib/a.nx'' ''b.nx'' = ''lib/b.nx''" for l by (simp_all add: beside_def)
  have r: "x \<in> {''main.nx'', ''lib/a.nx'', ''lib/b.nx''}" if "(doc_uses lib_files)\<^sup>*\<^sup>* ''main.nx'' x" for x
    using that by (induction rule: rtranclp_induct) (auto simp: doc_uses_def lib_literals b)
  have c: "clean_path ''main.nx''" "clean_path ''lib/a.nx''" "clean_path ''lib/b.nx''" by (simp_all add: clean_path_def)
  have "clean_path (beside x l) \<and> (beside x l = l \<or> lib_files l = None \<and> lib_files (beside x l) \<noteq> None)"
    if x: "x \<in> {''main.nx'', ''lib/a.nx'', ''lib/b.nx''}" and l: "l \<in> file_literals lib_files x" for x l
  proof -
    from x l consider "x = ''main.nx''" "l = ''lib/a.nx''" | "x = ''main.nx''" "l = ''lib/b.nx''" | "x = ''lib/a.nx''" "l = ''b.nx''"
      using lib_literals by blast
    then show ?thesis
    proof cases
      case 3
      have "lib_files ''b.nx'' = None" "lib_files ''lib/b.nx'' \<noteq> None" by (simp_all add: lib_files_def)
      then show ?thesis using c(3) b(2) unfolding 3 by simp
    qed (use c b(1) in simp_all)
  qed
  then show ?thesis using r c(1) unfolding found_beside_def by blast
qed

theorem nexs_scan_deps_closure_witness:
  "{y. (doc_uses lib_files)\<^sup>+\<^sup>+ ''main.nx'' y} = {''lib/a.nx'', ''lib/b.nx''} \<and>
   distinct (map (absolute [''home''] \<circ> fst) (nexs_scan_deps lib_files ''main.nx'' 256))"
proof -
  define r where "r = nexs_scan_deps lib_files ''main.nx'' 256"
  have m: "map fst r = [''lib/a.nx'', ''lib/b.nx'']" unfolding r_def by (rule lib_scan)
  have "length (map fst r) = 2" unfolding m by simp
  then have "length r < 256" by simp
  then show ?thesis
    using nexs_scan_deps_closure [OF lib_found_beside r_def, of "[''home'']"] m unfolding r_def [symmetric] by simp
qed

text \<open>C20: The literal that \<open>write_c_string\<close> writes for a script is read back by a C compiler with \<^verbatim>\<open>-std=c11\<close> as the
  script, for every script in which no hexadecimal digit follows a byte written as a hexadecimal escape, no octal
  digit a NUL, and no trigraph stands (two question marks before one of nine characters). Each exclusion is
  needed: the reader replaces trigraphs, joins lines and takes escapes to their last digit.\<close>

theorem c_string_roundtrip:
  assumes "literal_safe s" and "no_trigraph s"
  shows "c_literal (write_c_string s) = Some s"
  by (rule write_c_string_read [OF assms])

theorem c_string_roundtrip_witness:
  "c_literal (write_c_string (''?a?'' @ [CHR 0x22, CHR 0x5C, CHR 0x0A, CHR 0x07, CHR ''z'', CHR ''?'', CHR ''?''])) =
     Some (''?a?'' @ [CHR 0x22, CHR 0x5C, CHR 0x0A, CHR 0x07, CHR ''z'', CHR ''?'', CHR ''?''])"
  by (rule c_string_roundtrip) code_simp+

end
