(* ===== verification/Spec2Isabelle.thy ===== *)
theory Spec2Isabelle
  imports Buddy RegIpc_Facts Roundtrip Eval_Facts Eval_Inv Calls Sched_Facts Line_Keys Journal_Facts Fat_Facts Vfs_Facts
  Kernel_Facts Regfs_Facts P9_Facts Libc_Facts Libc_Io Pager_Facts Halbc_Facts Depscan_Facts
begin

text \<open>
  A verification library for NEXS, a small operating environment whose user-visible part is a
  scripting language over a hierarchical registry.

  \<^bold>\<open>The program.\<close> Memory comes from a buddy-managed pool (\<^verbatim>\<open>src/core/buddy.c\<close>) and,
  for large requests, from pages (\<^verbatim>\<open>src/core/pager.c\<close>). A \<open>Value\<close>
  (\<^verbatim>\<open>src/core/value.c\<close>) is a number, a string, a path, an error, a function or a shared array
  (\<^verbatim>\<open>src/core/dynarray.c\<close>) with a reference count. The registry (\<^verbatim>\<open>src/registry/registry.c\<close>) is a
  tree of keys with values; scopes of functions, globals, mounts and pointers all live in it, and a
  key may carry a message queue (\<^verbatim>\<open>src/registry/reg_ipc.c\<close>). Programs are read by a lexer and a
  recursive-descent parser (\<^verbatim>\<open>src/lang/lexer.c\<close>, \<^verbatim>\<open>src/lang/parser.c\<close>) and run by a tree walker
  (\<^verbatim>\<open>src/lang/eval.c\<close>) with a table of functions (\<^verbatim>\<open>src/lang/fn_table.c\<close>) and 36 builtins
  (\<^verbatim>\<open>src/lang/builtins.c\<close>). Its prompt reads lines
  with an editor (\<^verbatim>\<open>src/runtime/nexs_line.c\<close>). Below it is a small kernel: processes and the scheduler
  (\<^verbatim>\<open>src/kernel/proc.c\<close>, \<^verbatim>\<open>src/kernel/sched.c\<close>), which publish their state in the registry and
  wait on its message queues, a cache of disk blocks (\<^verbatim>\<open>src/kernel/blk.c\<close>), and over it
  a journal (\<^verbatim>\<open>src/kernel/journal.c\<close>) and a file system (\<^verbatim>\<open>src/fs/fat.c\<close>). The virtual
  file system (\<^verbatim>\<open>src/kernel/vfs.c\<close>) does not use these: its files are keys of the registry. Messages
  and system calls (\<^verbatim>\<open>src/kernel/msg.c\<close>, \<^verbatim>\<open>src/kernel/syscall.c\<close>) give processes access to all of it, a 9P
  server (\<^verbatim>\<open>src/fs/9p.c\<close>) gives access to the files, and the registry can be saved to a file
  (\<^verbatim>\<open>src/fs/regfs.c\<close>). On bare metal the system brings its own C library
  (\<^verbatim>\<open>src/kernel/libc_stub.c\<close>). Drivers can be byte code (\<^verbatim>\<open>src/hal/bc/nexs_hal_bc.c\<close>), and a compiler
  (\<^verbatim>\<open>src/compiler\<close>) packs a script with the scripts it depends on into a C program.

  \<^bold>\<open>The theories\<close>, in the order of their dependencies:

    \<^item> \<open>Nexs_Prelude\<close>: the machine words, the faults a C program can end in (\<open>fault\<close>), results
      (\<open>'a res\<close>, \<open>bind_res\<close>), the size constants, and the locale \<open>block_allocator\<close>: an allocator whose
      blocks are disjoint, and what a client that holds its blocks may rely on.
    \<^item> \<open>Buddy\<close>: \<open>buddy_alloc\<close>, \<open>buddy_free\<close> and the rounding loop on the tree of nodes, for any pool.
      The invariant \<open>tree_ok\<close>, the blocks in use as an abstraction, completeness of allocation,
      and the interpretation of \<open>block_allocator\<close>.
    \<^item> \<open>Cstr\<close>, \<open>Float64\<close>: the C string and number functions the code calls; doubles as bit patterns.
    \<^item> \<open>Values\<close>: the record \<open>val\<close>, constructors, conversions, operators.
    \<^item> \<open>DynArray\<close>: arrays in an explicit heap, \<open>val_free\<close>, \<open>val_clone\<close>; reference counts are exact.
    \<^item> \<open>Registry\<close>, \<open>Registry_Facts\<close>: the key tree with every operation; the tree as a map from lists
      of names to nodes (\<open>info\<close>), the invariant \<open>reg_ok\<close> and what each operation does to the map.
    \<^item> \<open>RegIpc\<close>, \<open>RegIpc_Facts\<close>: the wire format and the queues; the locale \<open>fifo\<close>, interpreted for
      queues in memory and for queues on pipes.
    \<^item> \<open>Lexer\<close>, \<open>Parser\<close>, \<open>Parser_Facts\<close>, \<open>Roundtrip\<close>: tokens, the syntax tree \<open>ast\<close>, one definition per
      statement form; the fuel of \<open>parse_program\<close> is never used up, and what a run of it ends in; expressions print and parse back.
    \<^item> \<open>FnTable\<close>: the function table.
    \<^item> \<open>RegList\<close>, \<open>Builtins\<close>: the listings of the registry; the record \<open>nexs\<close>, which is the state of an
      interpreter, and one definition per builtin.
    \<^item> \<open>Eval\<close>: one definition per case of \<open>eval_node\<close>, then \<open>eval_str\<close>.
    \<^item> \<open>Eval_Facts\<close>: expressions against the semantics \<open>sem\<close>, from source text to printed text.
    \<^item> \<open>Calls\<close>: calls of user functions whose body returns an expression, against \<open>sem\<close> in the
      environment of the callee.
    \<^item> \<open>Eval_Inv\<close>: more fuel changes no result; what evaluation never takes back (\<open>kept\<close>).
    \<^item> \<open>Sched\<close>, \<open>Sched_Facts\<close>: processes and run queues with their links; the queues stand for lists
      (\<open>sched_ok\<close>), and ticks take the processes of a level in turn.
    \<^item> \<open>Line\<close>, \<open>Line_Facts\<close>, \<open>Line_Keys\<close>: the key decoder and the line editor, against a gap buffer of
      characters.
    \<^item> \<open>Blk\<close>, \<open>Blk_Facts\<close>: the block cache over drivers that are arguments; the locale \<open>block_store\<close>,
      interpreted for the cache, which behaves as a plain memory of blocks.
    \<^item> \<open>Journal\<close>, \<open>Journal_Facts\<close>: the log of old contents, and what a replay restores.
    \<^item> \<open>Fat\<close>, \<open>Fat_Facts\<close>: FAT16 over the block cache. Files are the bytes of their chains; the fuel of
      \<open>fat_readdir\<close> is enough when it exceeds the entries a chain can have (\<open>fat_readdir_ends\<close>).
    \<^item> \<open>Vfs\<close>, \<open>Vfs_Facts\<close>: inodes and descriptors over the registry, which refine a set of files
      (\<open>files\<close>, \<open>file_step\<close>).
    \<^item> \<open>Kernel\<close>, \<open>Kernel_Sched\<close>, \<open>Kernel_Facts\<close>: messages and system calls on one state \<open>kernel\<close>, whose parts
      share a registry. No handler leaves the invariant \<open>kernel_ok\<close> or meets a fault (\<open>runs\<close>).
    \<^item> \<open>Regfs\<close>, \<open>Regfs_Facts\<close>: the bytes of a saved registry and their reading back.
    \<^item> \<open>P9\<close>, \<open>P9_Facts\<close>: the 9P server, from request bytes to reply bytes. On requests of the 9P format
      (\<open>req_ok\<close>) it gives the reply \<open>answer\<close> and refines the same set of files; a Tattach without an
      authentication fid is one it misreads (\<open>attach_without_auth\<close>).
    \<^item> \<open>Libc_Fmt\<close>, \<open>Libc_Facts\<close>: \<open>vsnprintf\<close> against the text that each piece of a format stands for.
    \<^item> \<open>Libc_Str\<close>, \<open>Libc_Str_Facts\<close>, \<open>Libc_Io\<close>: string functions on memory that is a byte per address, where
      a search for a terminator may never end; the line discipline behind \<open>fgets\<close>, against the keys typed.
    \<^item> \<open>Pager\<close>, \<open>Pager_Facts\<close>: pages, the allocator over both pools and \<open>malloc\<close>; the invariant \<open>heap_wf\<close>,
      the blocks in use (\<open>heap_blocks\<close>) and the second interpretation of \<open>block_allocator\<close>, for the
      requests whose page count does not wrap around.
    \<^item> \<open>Halbc\<close>, \<open>Halbc_Facts\<close>: the assembler and the executor of driver byte code; what was assembled is
      performed (\<open>perform_all\<close>).
    \<^item> \<open>Depscan\<close>, \<open>Depscan_Facts\<close>: the scan for dependencies against reachability, the literals of the
      generated program, read back as C11 reads them (trigraphs, escapes), and the command line of the
      C compiler.

  \<^bold>\<open>How code becomes definitions.\<close> Structs are records, enums datatypes, integers words of their width.
  A C function that changes state takes the state and gives it back. Results are \<open>fault + 'a\<close>: \<open>Die\<close>
  is the end of the process with a message, \<open>Hang\<close> a loop without end, \<open>OutOfBounds\<close>, \<open>UseAfterFree\<close>,
  \<open>NullDeref\<close> and \<open>Uninit\<close> are the undefined behaviour of memory the code can reach, and
  \<open>SignedOverflow\<close> that of the signed 64-bit \<open>+\<close>, \<open>-\<close> and \<open>*\<close> of \<^verbatim>\<open>src/core/value.c\<close>, which the build does
  not define (no \<^verbatim>\<open>-fwrapv\<close>). Error returns and error values
  are ordinary results. A pointer to a registry key is the list of names from the root to it. A
  buffer of \<open>n\<close> bytes keeps \<open>n - 1\<close> characters (\<open>trunc n\<close>).

  \<^bold>\<open>Memory.\<close> The buddy allocator is modelled as such; the other components use their own heap of
  arrays and take every other allocation to succeed, except where a size that the program computes
  can exceed the pool (\<open>arr_ensure_cap\<close>). Strings and syntax trees are values, so their release is
  not modelled; the one exception is a function body freed while it runs, which is a fault.

  \<^bold>\<open>Loops and fuel.\<close> Loops over data are structural recursion or have a termination proof. The parser
  starts with \<open>32 * input + 32\<close> calls, which \<open>parse_terminates\<close> shows to be enough. The evaluator
  runs programs that need not end, so it has fuel as an argument; \<open>eval_fuel_stable\<close> shows that the
  fuel is no part of a result. The executor of byte code, which may jump backwards, and the C string
  functions, which search for a terminator, are partial functions: \<open>None\<close> is a run that never ends.

  \<^bold>\<open>Not modelled.\<close> What is written to \<open>stderr\<close> and debugging output. The builtins that hand their arguments
  to the operating system (\<^verbatim>\<open>src/sys\<close>), the main program, the running of the C compiler and the fixed text of
  the program it compiles, and the hardware layer of each machine, which is device registers and privileged
  instructions; \<^verbatim>\<open>PROJECT.json\<close> lists each with its reason. \<open>isspace\<close>, \<open>isdigit\<close> and their like are those
  of the C locale. Double arithmetic rounds to nearest even and has one NaN.
\<close>

end
